(* ===== verification/Prelude.thy ===== *)
theory Prelude
  imports Complex_Main
begin

text \<open>
  What every component shares: the collections of rewrite rules the component proofs use, and
  generic lemmas on lists (first-match search, positional insertion, replacement by key) and on
  ordered association lists. Nothing here models code of the repository.
\<close>

named_theorems wf_simps \<open>unfolding rules of the well-formedness predicates\<close>
named_theorems upsert_simps \<open>what the upsert operations do to each field of the state\<close>

type_synonym number = rat

section \<open>Lists searched and updated by a predicate\<close>

lemma find_None_iff_all: "find P xs = None \<longleftrightarrow> (\<forall>x\<in>set xs. \<not> P x)"
  by (induction xs) auto

lemma find_SomeD: "find P xs = Some x \<Longrightarrow> x \<in> set xs \<and> P x"
  by (induction xs) (auto split: if_splits)

lemma find_append: "find P (xs @ ys) = (case find P xs of Some x \<Rightarrow> Some x | None \<Rightarrow> find P ys)"
  by (induction xs) auto

lemma find_cong_map:
  "(\<And>x. x \<in> set xs \<Longrightarrow> P (f x) = P x) \<Longrightarrow> find P (map f xs) = map_option f (find P xs)"
  by (induction xs) auto

text \<open>Insertion before the first element that satisfies a predicate, at the end if none does.\<close>

fun insert_before :: "('a \<Rightarrow> bool) \<Rightarrow> 'a \<Rightarrow> 'a list \<Rightarrow> 'a list" where
  "insert_before P x [] = [x]"
| "insert_before P x (y # ys) = (if P y then x # y # ys else y # insert_before P x ys)"

lemma set_insert_before [simp]: "set (insert_before P x ys) = insert x (set ys)"
  by (induction ys) auto

lemma insert_before_split:
  "\<exists>us vs. ys = us @ vs \<and> insert_before P x ys = us @ x # vs \<and> (\<forall>u\<in>set us. \<not> P u)
     \<and> (vs \<noteq> [] \<longrightarrow> P (hd vs))"
proof (induction ys)
  case Nil
  show ?case by simp
next
  case (Cons y ys)
  show ?case
  proof (cases "P y")
    case True
    then show ?thesis by (intro exI [of _ "[]"] exI [of _ "y # ys"]) simp
  next
    case False
    obtain us vs where "ys = us @ vs" "insert_before P x ys = us @ x # vs"
      "\<forall>u\<in>set us. \<not> P u" "vs \<noteq> [] \<longrightarrow> P (hd vs)"
      using Cons.IH by blast
    with False show ?thesis by (intro exI [of _ "y # us"] exI [of _ vs]) simp
  qed
qed

lemma filter_insert_before_out:
  "\<not> Q x \<Longrightarrow> filter Q (insert_before P x ys) = filter Q ys"
  by (induction ys) auto

lemma sorted_insert_before:
  "sorted (map f ys) \<Longrightarrow> sorted (map f (insert_before (\<lambda>y. f x < f y) x ys))"
  for f :: "'a \<Rightarrow> 'b::linorder"
  by (induction ys) (auto simp: not_less)

lemma distinct_map_insert_before:
  "distinct (map f (insert_before P x ys)) \<longleftrightarrow> distinct (map f ys) \<and> f x \<notin> f ` set ys"
  by (induction ys) auto

lemma length_insert_before [simp]: "length (insert_before P x ys) = Suc (length ys)"
  by (induction ys) auto

lemma find_insert_before:
  "Q x \<Longrightarrow> find Q ys = None \<Longrightarrow> find Q (insert_before P x ys) = Some x"
  by (induction ys) (auto split: if_splits)

lemma find_insert_before_other:
  "\<not> Q x \<Longrightarrow> find Q (insert_before P x ys) = find Q ys"
  by (induction ys) auto

lemma find_update_same:
  "(\<And>x. k x = i \<Longrightarrow> k (f x) = i) \<Longrightarrow>
   find (\<lambda>x. k x = i) (map (\<lambda>x. if k x = i then f x else x) xs)
   = map_option f (find (\<lambda>x. k x = i) xs)"
  by (induction xs) auto

lemma find_update_other:
  "(\<And>x. k x = i \<Longrightarrow> k (f x) = i) \<Longrightarrow> j \<noteq> i \<Longrightarrow>
   find (\<lambda>x. k x = j) (map (\<lambda>x. if k x = i then f x else x) xs) = find (\<lambda>x. k x = j) xs"
  by (induction xs) auto

lemma find_uniqueI:
  assumes "x \<in> set xs" "P x" "\<And>y. y \<in> set xs \<Longrightarrow> P y \<Longrightarrow> y = x"
  shows "find P xs = Some x"
proof (cases "find P xs")
  case None
  with assms(1,2) show ?thesis by (auto simp: find_None_iff_all)
next
  case (Some y)
  then show ?thesis using assms(3) [of y] by (auto dest: find_SomeD)
qed

lemma map_id_on: "(\<And>x. x \<in> set xs \<Longrightarrow> f x = x) \<Longrightarrow> map f xs = xs"
  by (induction xs) auto

lemma filter_length_eq_iff: "length (filter P xs) = length xs \<longleftrightarrow> (\<forall>x\<in>set xs. P x)"
  by (metis filter_True length_filter_less less_irrefl)

lemma sorted_filter_map: "sorted (map f xs) \<Longrightarrow> sorted (map f (filter P xs))"
  by (induction xs) auto

lemma distinct_map_filter: "distinct (map f xs) \<Longrightarrow> distinct (map f (filter P xs))"
  by (induction xs) auto

section \<open>Stable sorting by a key\<close>

lemma find_sort_key_unique:
  assumes "distinct (map k xs)"
  shows "find (\<lambda>x. k x = i) (sort_key f xs) = find (\<lambda>x. k x = i) xs"
proof (cases "find (\<lambda>x. k x = i) xs")
  case None
  then have "find (\<lambda>x. k x = i) (sort_key f xs) = None"
    unfolding find_None_iff_all by simp
  with None show ?thesis by simp
next
  case (Some x)
  then have x: "x \<in> set xs" "k x = i" by (auto dest: find_SomeD)
  obtain y where y: "find (\<lambda>x. k x = i) (sort_key f xs) = Some y"
    using x by (cases "find (\<lambda>x. k x = i) (sort_key f xs)") (auto simp: find_None_iff_all)
  then have "y \<in> set xs" "k y = i" by (auto dest: find_SomeD)
  with x assms have "y = x" by (auto simp: distinct_map inj_on_def)
  with y Some show ?thesis by simp
qed

lemma distinct_map_sort_key: "distinct (map k (sort_key f xs)) = distinct (map k xs)"
  by (simp add: distinct_map)

section \<open>Options\<close>

text \<open>JavaScript's \<open>a ?? b\<close> on a value that may be undefined.\<close>

fun coalesce :: "'a option \<Rightarrow> 'a option \<Rightarrow> 'a option" where
  "coalesce (Some a) b = Some a"
| "coalesce None b = b"

lemma coalesce_None_right [simp]: "coalesce a None = a"
  by (cases a) auto

lemma coalesce_eq_None [simp]: "coalesce a b = None \<longleftrightarrow> a = None \<and> b = None"
  by (cases a) auto

lemma coalesce_idem [simp]: "coalesce a (coalesce a b) = coalesce a b"
  by (cases a) auto

end
