(* ===== verification/JsValue.thy ===== *)
theory JsValue
  imports Prelude
begin

text \<open>
  The part of JavaScript the modelled packages use: object references, JSON-like values, strict
  equality, string slices, number conversion and printing, insertion-ordered \<open>Map\<close> and
  \<open>Set\<close>. Numbers are rationals (the rounding of doubles and the non-finite values are not
  modelled); a string is a list of code units.
\<close>

section \<open>Object references\<close>

text \<open>
  A reference to an immutable object is the identity of the object and its contents. Strict
  equality compares the identity only: two objects with the same contents are different.
\<close>

datatype 'a obj = Obj (obj_id: nat) (obj_val: 'a)

fun obj_same :: "'a obj option \<Rightarrow> 'a obj option \<Rightarrow> bool" where
  "obj_same None None = True"
| "obj_same (Some a) (Some b) = (obj_id a = obj_id b)"
| "obj_same _ _ = False"

lemma obj_same_refl [simp]: "obj_same a a"
  by (cases a) auto

text \<open>Open content (\<open>unknown\<close>): a value as it comes out of JSON, with \<open>undefined\<close>.\<close>

datatype json =
    JUndef
  | JNull
  | JBool bool
  | JNum number
  | JStr string
  | JArr nat "json list"
  | JObj nat "(string \<times> json) list"

fun js_same :: "json \<Rightarrow> json \<Rightarrow> bool" where
  "js_same (JArr i _) (JArr j _) = (i = j)"
| "js_same (JObj i _) (JObj j _) = (i = j)"
| "js_same (JArr _ _) _ = False"
| "js_same (JObj _ _) _ = False"
| "js_same a b = (a = b)"

lemma js_same_refl [simp]: "js_same a a"
  by (cases a) auto

datatype js_error = TypeError | RangeError

text \<open>\<open>v?.k\<close> and \<open>v.k\<close>: the second throws on \<open>null\<close> and \<open>undefined\<close>.\<close>

fun js_opt_prop :: "json \<Rightarrow> string \<Rightarrow> json" where
  "js_opt_prop (JObj _ fs) k = (case map_of fs k of None \<Rightarrow> JUndef | Some v \<Rightarrow> v)"
| "js_opt_prop _ k = JUndef"

fun js_prop :: "json \<Rightarrow> string \<Rightarrow> js_error + json" where
  "js_prop JUndef k = Inl TypeError"
| "js_prop JNull k = Inl TypeError"
| "js_prop v k = Inr (js_opt_prop v k)"

fun js_string_of :: "json \<Rightarrow> string option" where
  "js_string_of (JStr s) = Some s"
| "js_string_of _ = None"

fun js_number_of :: "json \<Rightarrow> number option" where
  "js_number_of (JNum n) = Some n"
| "js_number_of _ = None"

section \<open>String slices\<close>

text \<open>
  \<open>s.slice(a, b)\<close>: a negative index counts from the end, both are clamped to the string,
  and an end before the start gives the empty string.
\<close>

definition js_index :: "int \<Rightarrow> int \<Rightarrow> int" where
  "js_index n i = (if i < 0 then max (n + i) 0 else min i n)"

definition js_slice :: "'a list \<Rightarrow> int \<Rightarrow> int \<Rightarrow> 'a list" where
  "js_slice s a b =
     (let n = int (length s); i = js_index n a; j = js_index n b
      in take (nat (j - i)) (drop (nat i) s))"

definition js_slice_from :: "'a list \<Rightarrow> int \<Rightarrow> 'a list" where
  "js_slice_from s a = js_slice s a (int (length s))"

lemma js_slice_nat: "js_slice s (int a) (int b) = take (b - a) (drop a s)"
proof (cases "a \<le> length s")
  case True
  then show ?thesis
    by (auto simp: js_slice_def js_index_def Let_def min_def nat_diff_distrib' not_le)
next
  case False
  then show ?thesis by (simp add: js_slice_def js_index_def Let_def)
qed

lemma js_slice_from_nat: "js_slice_from s (int a) = drop a s"
  by (simp add: js_slice_from_def js_slice_nat)

section \<open>Numbers and strings\<close>

text \<open>Template literals print an integer in decimal.\<close>

fun nat_str :: "nat \<Rightarrow> string" where
  "nat_str n = (if n < 10 then [char_of (48 + n)] else nat_str (n div 10) @ [char_of (48 + n mod 10)])"

declare nat_str.simps [simp del]

definition int_str :: "int \<Rightarrow> string" where
  "int_str i = (if i < 0 then CHR ''-'' # nat_str (nat (- i)) else nat_str (nat i))"

definition is_digit :: "char \<Rightarrow> bool" where
  "is_digit c \<longleftrightarrow> 48 \<le> (of_char c :: nat) \<and> (of_char c :: nat) \<le> 57"

definition digit_val :: "char \<Rightarrow> nat" where
  "digit_val c = of_char c - 48"

fun digits_val :: "nat \<Rightarrow> string \<Rightarrow> nat" where
  "digits_val acc [] = acc"
| "digits_val acc (c # cs) = digits_val (10 * acc + digit_val c) cs"

definition all_digits :: "string \<Rightarrow> bool" where
  "all_digits s \<longleftrightarrow> s \<noteq> [] \<and> list_all is_digit s"

lemma is_digit_char_of [simp]: "(n :: nat) < 10 \<Longrightarrow> is_digit (char_of (48 + n))"
  by (simp add: is_digit_def)

lemma digit_val_char_of [simp]: "(n :: nat) < 10 \<Longrightarrow> digit_val (char_of (48 + n)) = n"
  by (simp add: digit_val_def)

lemma all_digits_nat_str: "all_digits (nat_str n)"
proof (induction n rule: nat_str.induct)
  case (1 n)
  then show ?case
    by (subst nat_str.simps) (auto simp: all_digits_def)
qed

lemma digits_val_append: "digits_val acc (s @ t) = digits_val (digits_val acc s) t"
  by (induction s arbitrary: acc) auto

lemma digits_val_nat_str: "digits_val 0 (nat_str n) = n"
proof (induction n rule: nat_str.induct)
  case (1 n)
  then show ?case
    by (subst nat_str.simps) (auto simp: digits_val_append)
qed

lemma nat_str_inject [simp]: "nat_str m = nat_str n \<longleftrightarrow> m = n"
  by (metis digits_val_nat_str)

lemma nat_str_not_Nil [simp]: "nat_str n \<noteq> []"
  using all_digits_nat_str [of n] by (auto simp: all_digits_def)

text \<open>
  \<open>Number(s)\<close>: white space around the literal is dropped, the empty string is 0, a decimal
  literal has an optional sign, fraction and exponent, and \<open>0x\<close>, \<open>0o\<close>, \<open>0b\<close>
  introduce unsigned literals. \<open>None\<close> is a result that is not finite (NaN or an infinity).
\<close>

definition is_space :: "char \<Rightarrow> bool" where
  "is_space c \<longleftrightarrow> (of_char c :: nat) \<in> {9, 10, 11, 12, 13, 32, 160}"

definition js_trim :: "string \<Rightarrow> string" where
  "js_trim s = rev (dropWhile is_space (rev (dropWhile is_space s)))"

fun radix_digit :: "char \<Rightarrow> nat" where
  "radix_digit c =
     (let n = of_char c :: nat in
      if 48 \<le> n \<and> n \<le> 57 then n - 48
      else if 97 \<le> n \<and> n \<le> 122 then n - 87
      else if 65 \<le> n \<and> n \<le> 90 then n - 55 else 99)"

fun radix_val :: "nat \<Rightarrow> nat \<Rightarrow> string \<Rightarrow> nat option" where
  "radix_val b acc [] = Some acc"
| "radix_val b acc (c # cs) =
     (if radix_digit c < b then radix_val b (b * acc + radix_digit c) cs else None)"

definition exponent_val :: "string \<Rightarrow> int option" where
  "exponent_val s =
     (case s of
        [] \<Rightarrow> None
      | c # cs \<Rightarrow>
          if c = CHR ''-'' then (if all_digits cs then Some (- int (digits_val 0 cs)) else None)
          else if c = CHR ''+'' then (if all_digits cs then Some (int (digits_val 0 cs)) else None)
          else if all_digits s then Some (int (digits_val 0 s)) else None)"

definition ten_pow :: "int \<Rightarrow> number" where
  "ten_pow e = (if e < 0 then 1 / 10 ^ nat (- e) else 10 ^ nat e)"

definition unsigned_decimal :: "string \<Rightarrow> number option" where
  "unsigned_decimal s =
     (let ip = takeWhile is_digit s; r1 = dropWhile is_digit s;
          (fp, r2) = (case r1 of c # cs \<Rightarrow>
                        if c = CHR ''.'' then (takeWhile is_digit cs, dropWhile is_digit cs)
                        else ([], r1) | [] \<Rightarrow> ([], []));
          m = of_nat (digits_val 0 ip) + of_nat (digits_val 0 fp) / 10 ^ length fp
      in if ip = [] \<and> fp = [] then None
         else (case r2 of
                 [] \<Rightarrow> Some m
               | c # cs \<Rightarrow> if c = CHR ''e'' \<or> c = CHR ''E''
                          then map_option (\<lambda>e. m * ten_pow e) (exponent_val cs) else None))"

definition js_Number :: "string \<Rightarrow> number option" where
  "js_Number s0 =
     (let s = js_trim s0 in
      if s = [] then Some 0
      else if s = ''-'' \<or> s = ''+'' then None
      else if all_digits s then Some (of_nat (digits_val 0 s))
      else if hd s = CHR ''-'' then map_option uminus (unsigned_decimal (tl s))
      else if hd s = CHR ''+'' then unsigned_decimal (tl s)
      else if 2 < length s \<and> (take 2 s = ''0x'' \<or> take 2 s = ''0X'')
        then map_option of_nat (radix_val 16 0 (drop 2 s))
      else if 2 < length s \<and> (take 2 s = ''0o'' \<or> take 2 s = ''0O'')
        then map_option of_nat (radix_val 8 0 (drop 2 s))
      else if 2 < length s \<and> (take 2 s = ''0b'' \<or> take 2 s = ''0B'')
        then map_option of_nat (radix_val 2 0 (drop 2 s))
      else unsigned_decimal s)"

lemma is_digit_not_space: "is_digit c \<Longrightarrow> \<not> is_space c"
  by (auto simp: is_digit_def is_space_def)

lemma js_trim_digits:
  assumes "all_digits s"
  shows "js_trim s = s"
proof -
  from assms have nosp: "\<And>c. c \<in> set s \<Longrightarrow> \<not> is_space c" and ne: "s \<noteq> []"
    by (auto simp: all_digits_def list_all_iff dest: is_digit_not_space)
  from ne obtain c cs d ds where s: "s = c # cs" and r: "rev s = d # ds"
    by (metis list.exhaust rev_is_Nil_conv)
  from r have d: "d \<in> set s" by (metis list.set_intros(1) set_rev)
  from s nosp have "dropWhile is_space s = s" by simp
  moreover from d nosp r have "dropWhile is_space (rev s) = rev s" by simp
  ultimately show ?thesis by (simp add: js_trim_def)
qed

lemma js_Number_digits: "all_digits s \<Longrightarrow> js_Number s = Some (of_nat (digits_val 0 s))"
  by (auto simp: js_Number_def js_trim_digits Let_def) (auto simp: all_digits_def is_digit_def)

lemma js_Number_nat_str [simp]: "js_Number (nat_str n) = Some (of_nat n)"
  by (simp add: js_Number_digits all_digits_nat_str digits_val_nat_str)

end
