(* ===== verification/TranscriptModel.thy ===== *)
theory TranscriptModel
  imports JsValue
begin

text \<open>
  The data model of \<open>packages/transcript/src/model\<close> and the operation vocabulary of
  \<open>ops/operation.ts\<close>. An optional field is an option, open content (\<open>unknown\<close>) is a
  \<open>json\<close> value, and a field that holds an object or array which the reducer compares with
  \<open>===\<close> is a reference (\<open>obj\<close>).
\<close>

section \<open>Identifiers (\<open>model/ids.ts\<close>)\<close>

type_synonym turn_id = string
type_synonym step_id = string
type_synonym frame_id = string
type_synonym task_id = string
type_synonym agent_id = string

definition turnId :: "int \<Rightarrow> turn_id" where
  "turnId ordinal = ''t'' @ int_str ordinal"

definition stepId :: "turn_id \<Rightarrow> int \<Rightarrow> step_id" where
  "stepId turn ordinal = turn @ ''.'' @ int_str ordinal"

definition frameId :: "step_id \<Rightarrow> int \<Rightarrow> frame_id" where
  "frameId step ordinal = step @ ''.f'' @ int_str ordinal"

definition turnOrdinal :: "turn_id \<Rightarrow> number" where
  "turnOrdinal i = (case js_Number (drop 1 i) of Some n \<Rightarrow> n | None \<Rightarrow> 0)"

definition compareTurnIds :: "turn_id \<Rightarrow> turn_id \<Rightarrow> number" where
  "compareTurnIds a b = turnOrdinal a - turnOrdinal b"

section \<open>Turns and steps (\<open>model/turn.ts\<close>)\<close>

datatype turn_origin =
    OriginUser json
  | OriginCron "task_id option" json
  | OriginTask task_id json
  | OriginHook json
  | OriginCompaction json
  | OriginSide json
  | OriginOther json

fun origin_kind :: "turn_origin \<Rightarrow> string" where
  "origin_kind (OriginUser _) = ''user''"
| "origin_kind (OriginCron _ _) = ''cron''"
| "origin_kind (OriginTask _ _) = ''task''"
| "origin_kind (OriginHook _) = ''hook''"
| "origin_kind (OriginCompaction _) = ''compaction''"
| "origin_kind (OriginSide _) = ''side''"
| "origin_kind (OriginOther _) = ''other''"

fun origin_payload :: "turn_origin \<Rightarrow> json" where
  "origin_payload (OriginUser p) = p"
| "origin_payload (OriginCron _ p) = p"
| "origin_payload (OriginTask _ p) = p"
| "origin_payload (OriginHook p) = p"
| "origin_payload (OriginCompaction p) = p"
| "origin_payload (OriginSide p) = p"
| "origin_payload (OriginOther p) = p"

datatype turn_state = TurnQueued | TurnRunning | TurnCompleted | TurnFailed | TurnCancelled

datatype step_state = StepRunning | StepCompleted | StepInterrupted | StepFailed

record transcript_usage =
  tu_inputTokens :: "number option"
  tu_outputTokens :: "number option"
  tu_cachedTokens :: "number option"
  tu_cost :: "number option"

record step_usage =
  su_inputOther :: number
  su_output :: number
  su_inputCacheRead :: number
  su_inputCacheCreation :: number

record step_timing =
  st_llmFirstTokenLatencyMs :: "number option"
  st_llmStreamDurationMs :: "number option"
  st_llmRequestBuildMs :: "number option"
  st_llmServerFirstTokenMs :: "number option"
  st_llmServerDecodeMs :: "number option"
  st_llmClientConsumeMs :: "number option"

record step_retry =
  sr_failedAttempt :: number
  sr_nextAttempt :: number
  sr_maxAttempts :: number
  sr_delayMs :: number
  sr_errorName :: string
  sr_errorMessage :: string
  sr_statusCode :: "number option"

section \<open>Frames (\<open>model/frame.ts\<close>)\<close>

datatype text_role = RoleAssistant | RoleUser

record text_frame =
  tf_frameId :: frame_id
  tf_role :: text_role
  tf_text :: string
  tf_attachmentIds :: "string list obj option"
  tf_taskId :: "task_id option"

record thinking_frame =
  th_frameId :: frame_id
  th_text :: string

datatype tool_frame_state = ToolRunning | ToolDone | ToolError

datatype progress_kind = ProgressStdout | ProgressStderr | ProgressProgress | ProgressStatus
  | ProgressCustom

record tool_frame_progress =
  tp_kind :: progress_kind
  tp_text :: "string option"
  tp_percent :: "number option"
  tp_customKind :: "string option"
  tp_customData :: json

datatype agent_ref_role = RefChild | RefMember

record agent_ref =
  ar_agentId :: agent_id
  ar_role :: "agent_ref_role option"

record tool_call_frame =
  tc_frameId :: frame_id
  tc_toolCallId :: string
  tc_name :: string
  tc_view :: "string option"
  tc_state :: tool_frame_state
  tc_input :: json
  tc_output :: json
  tc_display :: json
  tc_error :: "string option"
  tc_inputText :: "string option"
  tc_progress :: "tool_frame_progress obj option"
  tc_taskId :: "task_id option"
  tc_approvalId :: "string option"
  tc_todoId :: "string option"
  tc_agentRefs :: "agent_ref list obj option"

datatype notice_level = LevelError | LevelWarning | LevelInfo

record notice_frame =
  nf_frameId :: frame_id
  nf_level :: notice_level
  nf_source :: "string option"
  nf_message :: string
  nf_detail :: json

datatype transcript_frame =
    FText text_frame
  | FThinking thinking_frame
  | FTool tool_call_frame
  | FNotice notice_frame

fun frame_id :: "transcript_frame \<Rightarrow> frame_id" where
  "frame_id (FText f) = tf_frameId f"
| "frame_id (FThinking f) = th_frameId f"
| "frame_id (FTool f) = tc_frameId f"
| "frame_id (FNotice f) = nf_frameId f"

text \<open>
  A step without its frames is the header that \<open>step.upsert\<close> carries, a turn without its
  steps the header of \<open>turn.upsert\<close>: the full records extend the headers.
\<close>

record step_header =
  step_stepId :: step_id
  step_turnId :: turn_id
  step_ordinal :: number
  step_state :: step_state
  step_startedAt :: "string option"
  step_endedAt :: "string option"
  step_usage :: "step_usage obj option"
  step_finishReason :: "string option"
  step_timing :: "step_timing obj option"
  step_retry :: "step_retry obj option"
  step_endReason :: "string option"
  step_endMessage :: "string option"

record transcript_step = step_header +
  step_frames :: "transcript_frame list"

record turn_header =
  turn_turnId :: turn_id
  turn_ordinal :: number
  turn_state :: turn_state
  turn_origin :: turn_origin
  turn_prompt :: "string option"
  turn_attachmentIds :: "string list obj option"
  turn_startedAt :: "string option"
  turn_endedAt :: "string option"
  turn_usage :: "transcript_usage obj option"
  turn_durationMs :: "number option"
  turn_error :: "string option"

record transcript_turn = turn_header +
  turn_steps :: "transcript_step list"

section \<open>Timeline items (\<open>model/item.ts\<close>)\<close>

record transcript_marker =
  marker_markerId :: string
  marker_marker :: string
  marker_payload :: json
  marker_at :: "string option"

record transcript_taskref =
  taskref_refId :: string
  taskref_taskId :: task_id
  taskref_at :: "string option"

datatype transcript_item =
    ITurn transcript_turn
  | IMarker "transcript_marker obj"
  | ITaskRef "transcript_taskref obj"

fun itemId :: "transcript_item \<Rightarrow> string" where
  "itemId (ITurn t) = turn_turnId t"
| "itemId (IMarker m) = marker_markerId (obj_val m)"
| "itemId (ITaskRef r) = taskref_refId (obj_val r)"

fun is_turn :: "transcript_item \<Rightarrow> bool" where
  "is_turn (ITurn _) = True"
| "is_turn _ = False"

fun the_turn :: "transcript_item \<Rightarrow> transcript_turn option" where
  "the_turn (ITurn t) = Some t"
| "the_turn _ = None"

definition KNOWN_MARKERS :: "string list" where
  "KNOWN_MARKERS =
     [''compaction'', ''undo'', ''clear'', ''plan.enter'', ''plan.exit'', ''plan.revision'',
      ''swarm.enter'', ''swarm.exit'', ''skill'', ''cron.fired'', ''notice'', ''hook'']"

section \<open>Global entities (\<open>task.ts\<close>, \<open>interaction.ts\<close>, \<open>attachment.ts\<close>, \<open>todo.ts\<close>, \<open>prompt.ts\<close>)\<close>

datatype task_kind = TaskShell | TaskSubagent | TaskTool | TaskOther

datatype task_state = TaskRunning | TaskCompleted | TaskFailed | TaskTimedOut | TaskKilled | TaskLost

record transcript_task =
  task_taskId :: task_id
  task_kind :: task_kind
  task_state :: task_state
  task_detached :: bool
  task_description :: "string option"
  task_agentId :: "agent_id option"
  task_outputTail :: string
  task_startedAt :: "string option"
  task_endedAt :: "string option"
  task_resultSummary :: "string option"
  task_error :: "string option"
  task_stateReason :: "string option"
  task_usage :: "step_usage obj option"

datatype interaction_kind = InteractionApproval | InteractionQuestion

datatype interaction_state = IPending | IApproved | IRejected | ICancelled | IAnswered | IDismissed

record transcript_interaction =
  int_interactionId :: string
  int_interactionKind :: interaction_kind
  int_toolCallId :: "string option"
  int_state :: interaction_state
  int_request :: json
  int_response :: json

datatype attachment_source = SourceUrl string | SourceFile string

record transcript_attachment =
  att_attachmentId :: string
  att_mediaType :: string
  att_name :: "string option"
  att_size :: "number option"
  att_source :: "attachment_source obj option"
  att_placeholder :: "string option"

datatype todo_status = TodoPending | TodoInProgress | TodoDone

record todo_item =
  todo_title :: string
  todo_status :: todo_status

record transcript_todo =
  todo_todoId :: string
  todo_items :: "todo_item list obj"
  todo_updatedAt :: "string option"

datatype prompt_status = PromptRunning | PromptQueued | PromptBlocked | PromptCompleted
  | PromptFailed | PromptAborted

record transcript_prompt =
  prompt_promptId :: string
  prompt_status :: prompt_status
  prompt_userMessageId :: "string option"
  prompt_content :: json
  prompt_createdAt :: string
  prompt_finishedAt :: "string option"
  prompt_steeredAt :: "string option"

section \<open>Meta (\<open>model/meta.ts\<close>)\<close>

record plan_mode =
  plan_reviewPath :: "string option"
  plan_version :: "number option"

record swarm_mode =
  swarm_trigger :: "string option"

record modes_meta =
  modes_plan :: "plan_mode option"
  modes_swarm :: "swarm_mode option"

text \<open>
  In a merge payload a mode key is absent (keep), \<open>null\<close> (clear the badge) or an object (set
  it). An agent key is absent or present, and a present key may hold \<open>undefined\<close>, which the
  object spread copies over the older value.
\<close>

datatype 'a nullable = NKeep | NNull | NVal 'a

datatype 'a key = Absent | Present "'a option"

record modes_meta_merge =
  mm_plan :: "plan_mode nullable"
  mm_swarm :: "swarm_mode nullable"

datatype activity_meta = ActivityIdle | ActivityTurn | ActivityDisposing | ActivityUnknown

datatype turn_end_reason = EndCompleted | EndCancelled | EndFailed | EndBlocked

datatype phase_stream = StreamAssistant | StreamThinking | StreamToolCall

datatype interrupt_reason = ReasonAborted | ReasonMaxSteps | ReasonError

text \<open>The arguments of a phase are in the order of the fields of \<open>AgentPhaseMeta\<close>.\<close>

datatype agent_phase =
    PhaseIdle
  | PhaseRunning number number string number
  | PhaseStreaming number number string phase_stream "string option" "string option" number
  | PhaseToolCall number number string string number
  | PhaseRetrying number number string number number number number "string option"
      "number option" number
  | PhaseAwaitingApproval number "number option" json number
  | PhaseInterrupted number "number option" interrupt_reason "string option" number
  | PhaseEnded number turn_end_reason "number option" number

record agent_usage_meta =
  au_byModel :: "(string \<times> step_usage) list option"
  au_currentTurn :: "step_usage option"
  au_total :: "step_usage option"

datatype permission_meta = PermManual | PermYolo | PermAuto

record agent_status =
  as_model :: "string option"
  as_thinkingEffort :: "string option"
  as_usage :: "agent_usage_meta option"
  as_contextTokens :: "number option"
  as_maxContextTokens :: "number option"
  as_contextUsage :: "number option"
  as_permission :: "permission_meta option"
  as_phase :: "agent_phase option"

record agent_status_merge =
  am_model :: "string key"
  am_thinkingEffort :: "string key"
  am_usage :: "agent_usage_meta key"
  am_contextTokens :: "number key"
  am_maxContextTokens :: "number key"
  am_contextUsage :: "number key"
  am_permission :: "permission_meta key"
  am_phase :: "agent_phase key"

record transcript_meta =
  meta_modes :: "modes_meta option"
  meta_activity :: "activity_meta option"
  meta_agent :: "agent_status option"

record transcript_meta_merge =
  merge_modes :: "modes_meta_merge option"
  merge_activity :: "activity_meta option"
  merge_agent :: "agent_status_merge option"

section \<open>Operations (\<open>ops/operation.ts\<close>)\<close>

datatype append_target =
    TargetFrame turn_id step_id frame_id
  | TargetTask task_id

record append_op =
  append_target :: append_target
  append_offset :: int
  append_text :: string

record agent_snapshot =
  snap_items :: "transcript_item list"
  snap_tasks :: "transcript_task list"
  snap_interactions :: "transcript_interaction list"
  snap_attachments :: "transcript_attachment list"
  snap_todos :: "transcript_todo list"
  snap_prompts :: "transcript_prompt list"
  snap_meta :: transcript_meta
  snap_hasMoreOlder :: "bool option"

datatype transcript_op =
    Reset agent_id agent_snapshot
  | TurnUpsert turn_header
  | StepUpsert turn_id step_header
  | FrameUpsert turn_id step_id transcript_frame
  | Append append_op
  | MarkerUpsert "transcript_marker obj" "number option"
  | TaskRefUpsert "transcript_taskref obj" "number option"
  | TaskUpsert transcript_task
  | InteractionUpsert transcript_interaction
  | AttachmentUpsert transcript_attachment
  | TodoUpsert transcript_todo
  | PromptUpsert transcript_prompt
  | MetaMerge transcript_meta_merge
  | ItemsRemove "string list"

record applied_ops =
  applied_accepted :: "transcript_op list"
  applied_gap :: "(append_target option \<times> int \<times> int) option"

record change_event =
  change_agentId :: agent_id
  change_ops :: "transcript_op list"

end
