(* ===== verification/OrderedMap.thy ===== *)
theory OrderedMap
  imports Prelude
begin

text \<open>
  JavaScript's \<open>Map\<close> and \<open>Set\<close> keep insertion order, which \<open>values()\<close> and iteration
  expose: setting a key that is present keeps its place. The interface is a locale, the
  implementation an association list (a plain list for \<open>Set\<close>).
\<close>

locale ordered_map =
  fixes empty :: "'m"
    and get :: "'m \<Rightarrow> 'k \<Rightarrow> 'v option"
    and put :: "'k \<Rightarrow> 'v \<Rightarrow> 'm \<Rightarrow> 'm"
    and del :: "'k \<Rightarrow> 'm \<Rightarrow> 'm"
    and keys :: "'m \<Rightarrow> 'k list"
    and vals :: "'m \<Rightarrow> 'v list"
    and ok :: "'m \<Rightarrow> bool"
  assumes get_empty: "get empty k = None"
    and get_put: "get (put k v m) k' = (if k = k' then Some v else get m k')"
    and get_del: "get (del k m) k' = (if k = k' then None else get m k')"
    and keys_put: "keys (put k v m) = (if k \<in> set (keys m) then keys m else keys m @ [k])"
    and keys_get: "k \<in> set (keys m) \<longleftrightarrow> get m k \<noteq> None"
    and vals_get: "ok m \<Longrightarrow> map Some (vals m) = map (get m) (keys m)"
    and ok_empty: "ok empty"
    and ok_put: "ok m \<Longrightarrow> ok (put k v m)"
    and ok_del: "ok m \<Longrightarrow> ok (del k m)"
    and ok_distinct: "ok m \<Longrightarrow> distinct (keys m)"
begin

lemma put_put_get: "get (put k v (put k w m)) = get (put k v m)"
  by (simp add: get_put fun_eq_iff)

lemma put_commute_get: "k \<noteq> l \<Longrightarrow> get (put k v (put l w m)) = get (put l w (put k v m))"
  by (simp add: get_put fun_eq_iff)

lemma del_put_get: "get (del k (put k v m)) = get (del k m)"
  by (simp add: get_put get_del fun_eq_iff)

lemma vals_set: "ok m \<Longrightarrow> v \<in> set (vals m) \<longleftrightarrow> (\<exists>k. get m k = Some v)"
proof
  assume ok: "ok m" and "v \<in> set (vals m)"
  then have "Some v \<in> set (map Some (vals m))" by simp
  with ok show "\<exists>k. get m k = Some v" by (auto simp: vals_get)
next
  assume ok: "ok m" and "\<exists>k. get m k = Some v"
  then obtain k where k: "get m k = Some v" by blast
  then have "k \<in> set (keys m)" by (simp add: keys_get)
  with k have "Some v \<in> set (map (get m) (keys m))" by (metis image_eqI set_map)
  with ok have "Some v \<in> set (map Some (vals m))" by (simp add: vals_get)
  then show "v \<in> set (vals m)" by auto
qed

end

section \<open>Association lists\<close>

type_synonym ('k, 'v) jsmap = "('k \<times> 'v) list"

definition jm_get :: "('k, 'v) jsmap \<Rightarrow> 'k \<Rightarrow> 'v option" where
  "jm_get m k = map_of m k"

fun jm_set :: "'k \<Rightarrow> 'v \<Rightarrow> ('k, 'v) jsmap \<Rightarrow> ('k, 'v) jsmap" where
  "jm_set k v [] = [(k, v)]"
| "jm_set k v ((k', v') # m) = (if k = k' then (k, v) # m else (k', v') # jm_set k v m)"

definition jm_delete :: "'k \<Rightarrow> ('k, 'v) jsmap \<Rightarrow> ('k, 'v) jsmap" where
  "jm_delete k m = filter (\<lambda>(k', v). k' \<noteq> k) m"

definition jm_keys :: "('k, 'v) jsmap \<Rightarrow> 'k list" where
  "jm_keys m = map fst m"

definition jm_values :: "('k, 'v) jsmap \<Rightarrow> 'v list" where
  "jm_values m = map snd m"

definition jm_ok :: "('k, 'v) jsmap \<Rightarrow> bool" where
  "jm_ok m \<longleftrightarrow> distinct (map fst m)"

text \<open>\<open>new Map(vs.map((v) => [key(v), v]))\<close>\<close>

definition jm_of_values :: "('v \<Rightarrow> 'k) \<Rightarrow> 'v list \<Rightarrow> ('k, 'v) jsmap" where
  "jm_of_values key vs = fold (\<lambda>v. jm_set (key v) v) vs []"

lemma jm_get_set [simp]: "jm_get (jm_set k v m) k' = (if k = k' then Some v else jm_get m k')"
  unfolding jm_get_def by (induction k v m rule: jm_set.induct) auto

lemma jm_get_delete [simp]: "jm_get (jm_delete k m) k' = (if k = k' then None else jm_get m k')"
  unfolding jm_get_def jm_delete_def by (induction m) auto

lemma jm_get_Nil [simp]: "jm_get [] k = None"
  by (simp add: jm_get_def)

lemma jm_keys_set: "jm_keys (jm_set k v m) = (if k \<in> set (jm_keys m) then jm_keys m else jm_keys m @ [k])"
  unfolding jm_keys_def by (induction k v m rule: jm_set.induct) auto

lemma jm_keys_get: "k \<in> set (jm_keys m) \<longleftrightarrow> jm_get m k \<noteq> None"
  unfolding jm_keys_def jm_get_def by (metis map_of_eq_None_iff set_map)

lemma jm_ok_keys: "jm_ok m \<Longrightarrow> distinct (jm_keys m)"
  by (simp add: jm_ok_def jm_keys_def)

lemma jm_ok_Nil [simp]: "jm_ok []"
  by (simp add: jm_ok_def)

lemma jm_values_get: "jm_ok m \<Longrightarrow> map Some (jm_values m) = map (jm_get m) (jm_keys m)"
  unfolding jm_values_def jm_keys_def jm_get_def jm_ok_def by (induction m) (auto simp: image_iff)

lemma jm_fst_set: "map fst (jm_set k v m) = (if k \<in> fst ` set m then map fst m else map fst m @ [k])"
  by (induction k v m rule: jm_set.induct) auto

lemma jm_ok_set: "jm_ok m \<Longrightarrow> jm_ok (jm_set k v m)"
  by (auto simp: jm_ok_def jm_fst_set)

lemma jm_ok_delete: "jm_ok m \<Longrightarrow> jm_ok (jm_delete k m)"
  unfolding jm_ok_def jm_delete_def by (rule distinct_map_filter)

interpretation jm: ordered_map "[]" jm_get jm_set jm_delete jm_keys jm_values jm_ok
proof (unfold_locales, goal_cases)
  case (6 m)
  then show ?case by (rule jm_values_get)
qed (auto simp: jm_keys_set jm_keys_get jm_ok_set jm_ok_delete jm_ok_keys)

text \<open>The entries of a map are values stored under their own key.\<close>

definition jm_keyed :: "('v \<Rightarrow> 'k) \<Rightarrow> ('k, 'v) jsmap \<Rightarrow> bool" where
  "jm_keyed key m \<longleftrightarrow> list_all (\<lambda>(k, v). key v = k) m"

lemma jm_keyed_get: "jm_keyed key m \<Longrightarrow> jm_get m k = Some v \<Longrightarrow> key v = k"
  by (auto simp: jm_keyed_def jm_get_def list_all_iff dest!: map_of_SomeD)

lemma jm_keyed_set: "jm_keyed key m \<Longrightarrow> key v = k \<Longrightarrow> jm_keyed key (jm_set k v m)"
  unfolding jm_keyed_def by (induction k v m rule: jm_set.induct) auto

lemma jm_keyed_delete: "jm_keyed key m \<Longrightarrow> jm_keyed key (jm_delete k m)"
  by (auto simp: jm_keyed_def jm_delete_def list_all_iff)

lemma jm_keyed_filter: "jm_keyed key m \<Longrightarrow> jm_keyed key (filter P m)"
  by (auto simp: jm_keyed_def list_all_iff)

lemma jm_set_absent: "k \<notin> fst ` set m \<Longrightarrow> jm_set k v m = m @ [(k, v)]"
  by (induction k v m rule: jm_set.induct) auto

lemma jm_set_same: "jm_get m k = Some v \<Longrightarrow> jm_set k v m = m"
  unfolding jm_get_def by (induction k v m rule: jm_set.induct) (auto split: if_splits)

lemma jm_set_set: "jm_set k v (jm_set k w m) = jm_set k v m"
  by (induction k w m rule: jm_set.induct) auto

lemma jm_of_values_fold:
  "distinct (map key vs) \<Longrightarrow> (\<forall>v\<in>set vs. key v \<notin> fst ` set m) \<Longrightarrow>
   fold (\<lambda>v. jm_set (key v) v) vs m = m @ map (\<lambda>v. (key v, v)) vs"
proof (induction vs arbitrary: m)
  case (Cons v vs)
  then have put: "jm_set (key v) v m = m @ [(key v, v)]" by (simp add: jm_set_absent)
  have "fold (\<lambda>v. jm_set (key v) v) vs (m @ [(key v, v)])
      = (m @ [(key v, v)]) @ map (\<lambda>v. (key v, v)) vs"
    using Cons.prems by (intro Cons.IH) (auto, metis image_eqI)
  with put show ?case by simp
qed simp

lemma jm_of_values_distinct:
  "distinct (map key vs) \<Longrightarrow> jm_of_values key vs = map (\<lambda>v. (key v, v)) vs"
  by (simp add: jm_of_values_def jm_of_values_fold)

lemma jm_keyed_map_values: "jm_keyed key m \<Longrightarrow> map (\<lambda>v. (key v, v)) (jm_values m) = m"
  by (induction m) (auto simp: jm_keyed_def jm_values_def)

lemma jm_keyed_keys: "jm_keyed key m \<Longrightarrow> map key (jm_values m) = map fst m"
  by (induction m) (auto simp: jm_keyed_def jm_values_def)

lemma jm_of_values_values:
  "jm_ok m \<Longrightarrow> jm_keyed key m \<Longrightarrow> jm_of_values key (jm_values m) = m"
  by (simp add: jm_of_values_distinct jm_keyed_keys jm_ok_def jm_keyed_map_values)

lemma jm_of_values_ok_fold: "jm_ok m \<Longrightarrow> jm_ok (fold (\<lambda>v. jm_set (key v) v) vs m)"
  by (induction vs arbitrary: m) (auto simp: jm_ok_set)

lemma jm_of_values_ok: "jm_ok (jm_of_values key vs)"
  by (simp add: jm_of_values_def jm_of_values_ok_fold)

lemma jm_of_values_keyed_fold:
  "jm_keyed key m \<Longrightarrow> jm_keyed key (fold (\<lambda>v. jm_set (key v) v) vs m)"
  by (induction vs arbitrary: m) (auto simp: jm_keyed_set)

lemma jm_of_values_keyed: "jm_keyed key (jm_of_values key vs)"
  unfolding jm_of_values_def by (rule jm_of_values_keyed_fold) (simp add: jm_keyed_def)

lemmas jm_of_values_wf = jm_of_values_ok jm_of_values_keyed

section \<open>Sets\<close>

definition js_set_add :: "'a \<Rightarrow> 'a list \<Rightarrow> 'a list" where
  "js_set_add x s = (if x \<in> set s then s else s @ [x])"

definition js_set_delete :: "'a \<Rightarrow> 'a list \<Rightarrow> 'a list" where
  "js_set_delete x s = filter (\<lambda>y. y \<noteq> x) s"

definition js_set_of :: "'a list \<Rightarrow> 'a list" where
  "js_set_of xs = fold js_set_add xs []"

lemma set_js_set_add [simp]: "set (js_set_add x s) = insert x (set s)"
  by (auto simp: js_set_add_def)

lemma set_js_set_delete [simp]: "set (js_set_delete x s) = set s - {x}"
  by (auto simp: js_set_delete_def)

lemma distinct_js_set_add: "distinct s \<Longrightarrow> distinct (js_set_add x s)"
  by (simp add: js_set_add_def)

lemma distinct_js_set_delete: "distinct s \<Longrightarrow> distinct (js_set_delete x s)"
  by (simp add: js_set_delete_def)

lemma set_fold_js_set_add: "set (fold js_set_add xs s) = set xs \<union> set s"
  by (induction xs arbitrary: s) auto

lemma distinct_fold_js_set_add: "distinct s \<Longrightarrow> distinct (fold js_set_add xs s)"
  by (induction xs arbitrary: s) (auto simp: distinct_js_set_add)

lemma set_js_set_of [simp]: "set (js_set_of xs) = set xs"
  by (simp add: js_set_of_def set_fold_js_set_add)

lemma distinct_js_set_of [simp]: "distinct (js_set_of xs)"
  by (simp add: js_set_of_def distinct_fold_js_set_add)

end
