(* ===== verification/TranscriptOps.thy ===== *)
theory TranscriptOps
  imports TranscriptModel OrderedMap
begin

text \<open>
  The reducer of \<open>packages/transcript/src/ops/apply.ts\<close>: the state of one agent's transcript
  and the effect of every operation on it, in the order of the source. Every operation gives the
  next state, whether it changed anything, and a gap when an append could not be placed.
\<close>

record agent_state =
  st_items :: "transcript_item list"
  st_tasks :: "(task_id, transcript_task) jsmap"
  st_interactions :: "(string, transcript_interaction) jsmap"
  st_attachments :: "(string, transcript_attachment) jsmap"
  st_todos :: "(string, transcript_todo) jsmap"
  st_prompts :: "(string, transcript_prompt) jsmap"
  st_meta :: transcript_meta
  st_pending :: "string list"
  st_hasMoreOlder :: bool

definition EMPTY_META :: transcript_meta where
  "EMPTY_META = \<lparr>meta_modes = None, meta_activity = None, meta_agent = None\<rparr>"

definition EMPTY_AGENT_STATE :: agent_state where
  "EMPTY_AGENT_STATE =
     \<lparr>st_items = [], st_tasks = [], st_interactions = [], st_attachments = [], st_todos = [],
      st_prompts = [], st_meta = EMPTY_META, st_pending = [], st_hasMoreOlder = False\<rparr>"

record apply_result =
  res_state :: agent_state
  res_changed :: bool
  res_gap :: "(int \<times> int) option"

definition unchanged :: "agent_state \<Rightarrow> apply_result" where
  "unchanged s = \<lparr>res_state = s, res_changed = False, res_gap = None\<rparr>"

definition changed :: "agent_state \<Rightarrow> apply_result" where
  "changed s = \<lparr>res_state = s, res_changed = True, res_gap = None\<rparr>"

definition gapped :: "agent_state \<Rightarrow> int \<Rightarrow> int \<Rightarrow> apply_result" where
  "gapped s expected got = \<lparr>res_state = s, res_changed = False, res_gap = Some (expected, got)\<rparr>"

section \<open>Reset\<close>

definition applyReset :: "agent_state \<Rightarrow> agent_snapshot \<Rightarrow> apply_result" where
  "applyReset s snap =
     (let pending = js_set_of (map int_interactionId
                      (filter (\<lambda>i. int_state i = IPending) (snap_interactions snap)))
      in changed
        \<lparr>st_items = snap_items snap,
         st_tasks = jm_of_values task_taskId (snap_tasks snap),
         st_interactions = jm_of_values int_interactionId (snap_interactions snap),
         st_attachments = jm_of_values att_attachmentId (snap_attachments snap),
         st_todos = jm_of_values todo_todoId (snap_todos snap),
         st_prompts = jm_of_values prompt_promptId (snap_prompts snap),
         st_meta = snap_meta snap,
         st_pending = pending,
         st_hasMoreOlder = (case snap_hasMoreOlder snap of Some b \<Rightarrow> b | None \<Rightarrow> False)\<rparr>)"

section \<open>Turns, steps and frames\<close>

definition turnHeaderToTurn :: "turn_header \<Rightarrow> transcript_step list \<Rightarrow> transcript_turn" where
  "turnHeaderToTurn header steps = turn_header.extend header (transcript_turn.fields steps)"

definition stepHeaderToStep :: "step_header \<Rightarrow> transcript_frame list \<Rightarrow> transcript_step" where
  "stepHeaderToStep header frames = step_header.extend header (transcript_step.fields frames)"

definition skeletonTurn :: "turn_id \<Rightarrow> transcript_turn" where
  "skeletonTurn i =
     \<lparr>turn_turnId = i, turn_ordinal = turnOrdinal i, turn_state = TurnRunning,
      turn_origin = OriginOther JUndef, turn_prompt = None, turn_attachmentIds = None,
      turn_startedAt = None, turn_endedAt = None, turn_usage = None, turn_durationMs = None,
      turn_error = None, turn_steps = []\<rparr>"

definition stepOrdinal :: "step_id \<Rightarrow> turn_id \<Rightarrow> number" where
  "stepOrdinal sid tid = (case js_Number (drop (length tid + 1) sid) of Some n \<Rightarrow> n | None \<Rightarrow> 0)"

definition skeletonStep :: "step_id \<Rightarrow> turn_id \<Rightarrow> transcript_step" where
  "skeletonStep sid tid =
     \<lparr>step_stepId = sid, step_turnId = tid, step_ordinal = stepOrdinal sid tid,
      step_state = StepRunning, step_startedAt = None, step_endedAt = None, step_usage = None,
      step_finishReason = None, step_timing = None, step_retry = None, step_endReason = None,
      step_endMessage = None, step_frames = []\<rparr>"

fun is_turn_with :: "turn_id \<Rightarrow> transcript_item \<Rightarrow> bool" where
  "is_turn_with i (ITurn t) = (turn_turnId t = i)"
| "is_turn_with i _ = False"

definition getTurn :: "transcript_item list \<Rightarrow> turn_id \<Rightarrow> transcript_turn option" where
  "getTurn items i = Option.bind (find (is_turn_with i) items) the_turn"

fun turn_after :: "number \<Rightarrow> transcript_item \<Rightarrow> bool" where
  "turn_after n (ITurn t) = (n < turn_ordinal t)"
| "turn_after n _ = False"

definition insertTurn :: "transcript_item list \<Rightarrow> transcript_turn \<Rightarrow> transcript_item list" where
  "insertTurn items t = insert_before (turn_after (turn_ordinal t)) (ITurn t) items"

definition replaceTurn ::
  "transcript_item list \<Rightarrow> turn_id \<Rightarrow> (transcript_turn \<Rightarrow> transcript_turn) \<Rightarrow> transcript_item list" where
  "replaceTurn items i f =
     map (\<lambda>entry. case entry of ITurn t \<Rightarrow> if turn_turnId t = i then ITurn (f t) else entry
                               | _ \<Rightarrow> entry) items"

definition turnEquals :: "transcript_turn \<Rightarrow> turn_header \<Rightarrow> bool" where
  "turnEquals t h \<longleftrightarrow>
     turn_ordinal t = turn_ordinal h \<and> turn_state t = turn_state h \<and>
     turn_prompt t = turn_prompt h \<and>
     obj_same (turn_attachmentIds t) (turn_attachmentIds h) \<and>
     turn_startedAt t = turn_startedAt h \<and> turn_endedAt t = turn_endedAt h \<and>
     origin_kind (turn_origin t) = origin_kind (turn_origin h) \<and>
     js_same (origin_payload (turn_origin t)) (origin_payload (turn_origin h)) \<and>
     obj_same (turn_usage t) (turn_usage h) \<and> turn_durationMs t = turn_durationMs h \<and>
     turn_error t = turn_error h"

definition applyTurnUpsert :: "agent_state \<Rightarrow> turn_header \<Rightarrow> apply_result" where
  "applyTurnUpsert s header =
     (case getTurn (st_items s) (turn_turnId header) of
        Some existing \<Rightarrow>
          if turnEquals existing header then unchanged s
          else changed (s\<lparr>st_items := replaceTurn (st_items s) (turn_turnId header)
                             (\<lambda>t. turnHeaderToTurn header (turn_steps t))\<rparr>)
      | None \<Rightarrow> changed (s\<lparr>st_items := insertTurn (st_items s) (turnHeaderToTurn header [])\<rparr>))"

definition stepEquals :: "transcript_step \<Rightarrow> step_header \<Rightarrow> bool" where
  "stepEquals st h \<longleftrightarrow>
     step_ordinal st = step_ordinal h \<and> step_state st = step_state h \<and>
     step_startedAt st = step_startedAt h \<and> step_endedAt st = step_endedAt h \<and>
     obj_same (step_usage st) (step_usage h) \<and> step_finishReason st = step_finishReason h \<and>
     obj_same (step_timing st) (step_timing h) \<and> obj_same (step_retry st) (step_retry h) \<and>
     step_endReason st = step_endReason h \<and> step_endMessage st = step_endMessage h"

definition find_step :: "transcript_step list \<Rightarrow> step_id \<Rightarrow> transcript_step option" where
  "find_step steps i = find (\<lambda>st. step_stepId st = i) steps"

definition find_frame :: "transcript_frame list \<Rightarrow> frame_id \<Rightarrow> transcript_frame option" where
  "find_frame frames i = find (\<lambda>f. frame_id f = i) frames"

definition put_turn :: "transcript_item list \<Rightarrow> turn_id \<Rightarrow> transcript_turn \<Rightarrow> transcript_item list" where
  "put_turn items i nextTurn =
     (if getTurn items i \<noteq> None then replaceTurn items i (\<lambda>_. nextTurn) else insertTurn items nextTurn)"

definition turn_or_skeleton :: "transcript_item list \<Rightarrow> turn_id \<Rightarrow> transcript_turn" where
  "turn_or_skeleton items i = (case getTurn items i of Some t \<Rightarrow> t | None \<Rightarrow> skeletonTurn i)"

definition step_or_skeleton :: "transcript_turn \<Rightarrow> step_id \<Rightarrow> turn_id \<Rightarrow> transcript_step" where
  "step_or_skeleton t sid tid =
     (case find_step (turn_steps t) sid of Some st \<Rightarrow> st | None \<Rightarrow> skeletonStep sid tid)"

definition applyStepUpsert :: "agent_state \<Rightarrow> turn_id \<Rightarrow> step_header \<Rightarrow> apply_result" where
  "applyStepUpsert s tid header =
     (let t = turn_or_skeleton (st_items s) tid;
          finish = (\<lambda>steps. changed (s\<lparr>st_items := put_turn (st_items s) tid (t\<lparr>turn_steps := steps\<rparr>)\<rparr>))
      in case find_step (turn_steps t) (step_stepId header) of
           Some current \<Rightarrow>
             if stepEquals current header then unchanged s
             else finish (map (\<lambda>st. if step_stepId st = step_stepId header
                                    then stepHeaderToStep header (step_frames st) else st) (turn_steps t))
         | None \<Rightarrow> finish (sort_key step_ordinal (turn_steps t @ [stepHeaderToStep header []])))"

fun frameEquals :: "transcript_frame \<Rightarrow> transcript_frame \<Rightarrow> bool" where
  "frameEquals (FText a) (FText b) \<longleftrightarrow>
     tf_text a = tf_text b \<and> tf_role a = tf_role b \<and>
     obj_same (tf_attachmentIds a) (tf_attachmentIds b) \<and> tf_taskId a = tf_taskId b"
| "frameEquals (FThinking a) (FThinking b) \<longleftrightarrow> th_text a = th_text b"
| "frameEquals (FTool a) (FTool b) \<longleftrightarrow>
     tc_state a = tc_state b \<and> tc_toolCallId a = tc_toolCallId b \<and> tc_name a = tc_name b \<and>
     tc_view a = tc_view b \<and> js_same (tc_input a) (tc_input b) \<and>
     js_same (tc_output a) (tc_output b) \<and> js_same (tc_display a) (tc_display b) \<and>
     tc_error a = tc_error b \<and> tc_inputText a = tc_inputText b \<and>
     obj_same (tc_progress a) (tc_progress b) \<and> tc_taskId a = tc_taskId b \<and>
     tc_approvalId a = tc_approvalId b \<and> tc_todoId a = tc_todoId b \<and>
     obj_same (tc_agentRefs a) (tc_agentRefs b)"
| "frameEquals (FNotice a) (FNotice b) \<longleftrightarrow>
     nf_message a = nf_message b \<and> nf_level a = nf_level b \<and> js_same (nf_detail a) (nf_detail b)"
| "frameEquals _ _ \<longleftrightarrow> False"

definition put_frame :: "transcript_frame list \<Rightarrow> transcript_frame \<Rightarrow> transcript_frame list" where
  "put_frame frames f =
     (case find_frame frames (frame_id f) of
        Some _ \<Rightarrow> map (\<lambda>g. if frame_id g = frame_id f then f else g) frames
      | None \<Rightarrow> frames @ [f])"

definition put_step :: "transcript_step list \<Rightarrow> step_id \<Rightarrow> transcript_step \<Rightarrow> transcript_step list" where
  "put_step steps sid nextStep =
     (if find_step steps sid \<noteq> None
      then map (\<lambda>st. if step_stepId st = sid then nextStep else st) steps
      else sort_key step_ordinal (steps @ [nextStep]))"

definition applyFrameUpsert ::
  "agent_state \<Rightarrow> turn_id \<Rightarrow> step_id \<Rightarrow> transcript_frame \<Rightarrow> apply_result" where
  "applyFrameUpsert s tid sid f =
     (let t = turn_or_skeleton (st_items s) tid;
          st = step_or_skeleton t sid tid;
          nextStep = st\<lparr>step_frames := put_frame (step_frames st) f\<rparr>;
          nextTurn = t\<lparr>turn_steps := put_step (turn_steps t) sid nextStep\<rparr>
      in case find_frame (step_frames st) (frame_id f) of
           Some current \<Rightarrow>
             if frameEquals current f then unchanged s
             else changed (s\<lparr>st_items := put_turn (st_items s) tid nextTurn\<rparr>)
         | None \<Rightarrow> changed (s\<lparr>st_items := put_turn (st_items s) tid nextTurn\<rparr>))"

section \<open>Append\<close>

record merged_text =
  merged_text :: string
  merged_changed :: bool
  merged_gap :: "(int \<times> int) option"

definition appendAtOffset :: "string \<Rightarrow> int \<Rightarrow> string \<Rightarrow> merged_text" where
  "appendAtOffset local offset chunk =
     (let len = int (length local); same = \<lparr>merged_text = local, merged_changed = False, merged_gap = None\<rparr>
      in if len < offset then same\<lparr>merged_gap := Some (len, offset)\<rparr>
         else if js_slice local offset (offset + int (length chunk)) = chunk then same
         else
           let overlap = len - offset in
           if js_slice_from local offset \<noteq> js_slice chunk 0 overlap
           then same\<lparr>merged_gap := Some (len, offset)\<rparr>
           else
             let novel = (if 0 < overlap then js_slice_from chunk overlap else chunk) in
             if novel = [] then same
             else \<lparr>merged_text = js_slice local 0 offset @ chunk, merged_changed = True,
                   merged_gap = None\<rparr>)"

definition skeletonTask :: "task_id \<Rightarrow> string \<Rightarrow> transcript_task" where
  "skeletonTask i out =
     \<lparr>task_taskId = i, task_kind = TaskOther, task_state = TaskRunning, task_detached = False,
      task_description = None, task_agentId = None, task_outputTail = out, task_startedAt = None,
      task_endedAt = None, task_resultSummary = None, task_error = None, task_stateReason = None,
      task_usage = None\<rparr>"

definition applyTaskAppend :: "agent_state \<Rightarrow> task_id \<Rightarrow> append_op \<Rightarrow> apply_result" where
  "applyTaskAppend s i op =
     (let task = jm_get (st_tasks s) i;
          current = (case task of Some t \<Rightarrow> task_outputTail t | None \<Rightarrow> []);
          merged = appendAtOffset current (append_offset op) (append_text op)
      in case merged_gap merged of
           Some (e, g) \<Rightarrow> gapped s e g
         | None \<Rightarrow>
             if \<not> merged_changed merged then unchanged s
             else
               let nextTask = (case task of
                                 Some t \<Rightarrow> t\<lparr>task_outputTail := merged_text merged\<rparr>
                               | None \<Rightarrow> skeletonTask i (merged_text merged))
               in changed (s\<lparr>st_tasks := jm_set i nextTask (st_tasks s)\<rparr>))"

fun frame_text :: "transcript_frame \<Rightarrow> string option" where
  "frame_text (FText f) = Some (tf_text f)"
| "frame_text (FThinking f) = Some (th_text f)"
| "frame_text _ = None"

fun with_text :: "string \<Rightarrow> transcript_frame \<Rightarrow> transcript_frame" where
  "with_text x (FText f) = FText (f\<lparr>tf_text := x\<rparr>)"
| "with_text x (FThinking f) = FThinking (f\<lparr>th_text := x\<rparr>)"
| "with_text x f = f"

definition lookup_frame ::
  "transcript_item list \<Rightarrow> turn_id \<Rightarrow> step_id \<Rightarrow> frame_id \<Rightarrow>
   (transcript_turn \<times> transcript_step \<times> transcript_frame \<times> string) option" where
  "lookup_frame items tid sid fid =
     (case getTurn items tid of None \<Rightarrow> None | Some t \<Rightarrow>
      (case find_step (turn_steps t) sid of None \<Rightarrow> None | Some st \<Rightarrow>
       (case find_frame (step_frames st) fid of None \<Rightarrow> None | Some f \<Rightarrow>
        (case frame_text f of None \<Rightarrow> None | Some x \<Rightarrow> Some (t, st, f, x)))))"

definition applyFrameAppend ::
  "agent_state \<Rightarrow> turn_id \<Rightarrow> step_id \<Rightarrow> frame_id \<Rightarrow> append_op \<Rightarrow> apply_result" where
  "applyFrameAppend s tid sid fid op =
     (case lookup_frame (st_items s) tid sid fid of
        None \<Rightarrow> gapped s 0 (append_offset op)
      | Some (t, st, f, x) \<Rightarrow>
          let merged = appendAtOffset x (append_offset op) (append_text op) in
          case merged_gap merged of
            Some (e, g) \<Rightarrow> gapped s e g
          | None \<Rightarrow>
              if \<not> merged_changed merged then unchanged s
              else
                let nextFrame = with_text (merged_text merged) f;
                    nextStep = st\<lparr>step_frames :=
                      map (\<lambda>g. if frame_id g = fid then nextFrame else g) (step_frames st)\<rparr>;
                    nextTurn = t\<lparr>turn_steps :=
                      map (\<lambda>e. if step_stepId e = sid then nextStep else e) (turn_steps t)\<rparr>
                in changed (s\<lparr>st_items := replaceTurn (st_items s) tid (\<lambda>_. nextTurn)\<rparr>))"

definition applyAppend :: "agent_state \<Rightarrow> append_op \<Rightarrow> apply_result" where
  "applyAppend s op =
     (case append_target op of
        TargetTask i \<Rightarrow> applyTaskAppend s i op
      | TargetFrame tid sid fid \<Rightarrow> applyFrameAppend s tid sid fid op)"

section \<open>Standalone items\<close>

fun item_same :: "transcript_item \<Rightarrow> transcript_item \<Rightarrow> bool" where
  "item_same (IMarker a) (IMarker b) = (obj_id a = obj_id b)"
| "item_same (ITaskRef a) (ITaskRef b) = (obj_id a = obj_id b)"
| "item_same _ _ = False"

fun turn_at_or_after :: "number \<Rightarrow> transcript_item \<Rightarrow> bool" where
  "turn_at_or_after n (ITurn t) = (n \<le> turn_ordinal t)"
| "turn_at_or_after n _ = False"

definition applyItemUpsert ::
  "agent_state \<Rightarrow> transcript_item \<Rightarrow> string \<Rightarrow> number option \<Rightarrow> apply_result" where
  "applyItemUpsert s item i beforeTurn =
     (if \<exists>entry \<in> set (st_items s). itemId entry = i then
        if \<exists>entry \<in> set (st_items s). itemId entry = i \<and> \<not> item_same entry item
        then changed (s\<lparr>st_items := map (\<lambda>entry. if itemId entry = i \<and> \<not> item_same entry item
                                               then item else entry) (st_items s)\<rparr>)
        else unchanged s
      else case beforeTurn of
        Some n \<Rightarrow> changed (s\<lparr>st_items := insert_before (turn_at_or_after n) item (st_items s)\<rparr>)
      | None \<Rightarrow> changed (s\<lparr>st_items := st_items s @ [item]\<rparr>))"

definition turn_tool_call_ids :: "transcript_turn \<Rightarrow> string list" where
  "turn_tool_call_ids t =
     concat (map (\<lambda>st. List.map_filter (\<lambda>f. case f of FTool tc \<Rightarrow> Some (tc_toolCallId tc) | _ \<Rightarrow> None)
                         (step_frames st)) (turn_steps t))"

definition anchored_in :: "string list \<Rightarrow> transcript_interaction \<Rightarrow> bool" where
  "anchored_in ids i = (case int_toolCallId i of None \<Rightarrow> False | Some c \<Rightarrow> c \<in> set ids)"

definition applyItemsRemove :: "agent_state \<Rightarrow> string list \<Rightarrow> apply_result" where
  "applyItemsRemove s ids =
     (let removedTurns = filter (\<lambda>t. turn_turnId t \<in> set ids) (List.map_filter the_turn (st_items s));
          items = filter (\<lambda>entry. itemId entry \<notin> set ids) (st_items s)
      in if length items = length (st_items s) then unchanged s
         else if removedTurns = [] then changed (s\<lparr>st_items := items\<rparr>)
         else
           let anchored = concat (map turn_tool_call_ids removedTurns);
               dead = map int_interactionId (filter (anchored_in anchored) (jm_values (st_interactions s)))
           in changed (s\<lparr>st_items := items,
                         st_interactions := fold jm_delete dead (st_interactions s),
                         st_pending := fold js_set_delete dead (st_pending s)\<rparr>))"

section \<open>Tasks, interactions, attachments, todos, prompts\<close>

definition taskEquals :: "transcript_task \<Rightarrow> transcript_task \<Rightarrow> bool" where
  "taskEquals a b \<longleftrightarrow>
     task_kind a = task_kind b \<and> task_state a = task_state b \<and> task_detached a = task_detached b \<and>
     task_description a = task_description b \<and> task_agentId a = task_agentId b \<and>
     task_outputTail a = task_outputTail b \<and> task_startedAt a = task_startedAt b \<and>
     task_endedAt a = task_endedAt b \<and> task_resultSummary a = task_resultSummary b \<and>
     task_error a = task_error b \<and> task_stateReason a = task_stateReason b \<and>
     obj_same (task_usage a) (task_usage b)"

definition applyTaskUpsert :: "agent_state \<Rightarrow> transcript_task \<Rightarrow> apply_result" where
  "applyTaskUpsert s task =
     (case jm_get (st_tasks s) (task_taskId task) of
        Some current \<Rightarrow> if taskEquals current task then unchanged s
                        else changed (s\<lparr>st_tasks := jm_set (task_taskId task) task (st_tasks s)\<rparr>)
      | None \<Rightarrow> changed (s\<lparr>st_tasks := jm_set (task_taskId task) task (st_tasks s)\<rparr>))"

definition interactionEquals :: "transcript_interaction \<Rightarrow> transcript_interaction \<Rightarrow> bool" where
  "interactionEquals a b \<longleftrightarrow>
     int_interactionKind a = int_interactionKind b \<and> int_toolCallId a = int_toolCallId b \<and>
     int_state a = int_state b \<and> js_same (int_request a) (int_request b) \<and>
     js_same (int_response a) (int_response b)"

definition put_interaction :: "agent_state \<Rightarrow> transcript_interaction \<Rightarrow> agent_state" where
  "put_interaction s i =
     s\<lparr>st_interactions := jm_set (int_interactionId i) i (st_interactions s),
       st_pending := (if int_state i = IPending then js_set_add (int_interactionId i) (st_pending s)
                      else js_set_delete (int_interactionId i) (st_pending s))\<rparr>"

definition applyInteractionUpsert :: "agent_state \<Rightarrow> transcript_interaction \<Rightarrow> apply_result" where
  "applyInteractionUpsert s i =
     (case jm_get (st_interactions s) (int_interactionId i) of
        Some current \<Rightarrow> if interactionEquals current i then unchanged s else changed (put_interaction s i)
      | None \<Rightarrow> changed (put_interaction s i))"

definition attachmentEquals :: "transcript_attachment \<Rightarrow> transcript_attachment \<Rightarrow> bool" where
  "attachmentEquals a b \<longleftrightarrow>
     att_mediaType a = att_mediaType b \<and> att_name a = att_name b \<and> att_size a = att_size b \<and>
     obj_same (att_source a) (att_source b) \<and> att_placeholder a = att_placeholder b"

definition applyAttachmentUpsert :: "agent_state \<Rightarrow> transcript_attachment \<Rightarrow> apply_result" where
  "applyAttachmentUpsert s a =
     (case jm_get (st_attachments s) (att_attachmentId a) of
        Some current \<Rightarrow> if attachmentEquals current a then unchanged s
                        else changed (s\<lparr>st_attachments := jm_set (att_attachmentId a) a (st_attachments s)\<rparr>)
      | None \<Rightarrow> changed (s\<lparr>st_attachments := jm_set (att_attachmentId a) a (st_attachments s)\<rparr>))"

definition todoEquals :: "transcript_todo \<Rightarrow> transcript_todo \<Rightarrow> bool" where
  "todoEquals a b \<longleftrightarrow> obj_id (todo_items a) = obj_id (todo_items b) \<and> todo_updatedAt a = todo_updatedAt b"

definition applyTodoUpsert :: "agent_state \<Rightarrow> transcript_todo \<Rightarrow> apply_result" where
  "applyTodoUpsert s t =
     (case jm_get (st_todos s) (todo_todoId t) of
        Some current \<Rightarrow> if todoEquals current t then unchanged s
                        else changed (s\<lparr>st_todos := jm_set (todo_todoId t) t (st_todos s)\<rparr>)
      | None \<Rightarrow> changed (s\<lparr>st_todos := jm_set (todo_todoId t) t (st_todos s)\<rparr>))"

definition promptEquals :: "transcript_prompt \<Rightarrow> transcript_prompt \<Rightarrow> bool" where
  "promptEquals a b \<longleftrightarrow>
     prompt_status a = prompt_status b \<and> prompt_userMessageId a = prompt_userMessageId b \<and>
     js_same (prompt_content a) (prompt_content b) \<and> prompt_createdAt a = prompt_createdAt b \<and>
     prompt_finishedAt a = prompt_finishedAt b \<and> prompt_steeredAt a = prompt_steeredAt b"

definition applyPromptUpsert :: "agent_state \<Rightarrow> transcript_prompt \<Rightarrow> apply_result" where
  "applyPromptUpsert s p =
     (case jm_get (st_prompts s) (prompt_promptId p) of
        Some current \<Rightarrow> if promptEquals current p then unchanged s
                        else changed (s\<lparr>st_prompts := jm_set (prompt_promptId p) p (st_prompts s)\<rparr>)
      | None \<Rightarrow> changed (s\<lparr>st_prompts := jm_set (prompt_promptId p) p (st_prompts s)\<rparr>))"

section \<open>Meta\<close>

fun merge_mode :: "'a nullable \<Rightarrow> 'a option \<Rightarrow> 'a option" where
  "merge_mode NNull old = None"
| "merge_mode NKeep old = old"
| "merge_mode (NVal v) old = Some v"

fun spread_key :: "'a key \<Rightarrow> 'a option \<Rightarrow> 'a option" where
  "spread_key Absent old = old"
| "spread_key (Present v) old = v"

definition EMPTY_STATUS :: agent_status where
  "EMPTY_STATUS =
     \<lparr>as_model = None, as_thinkingEffort = None, as_usage = None, as_contextTokens = None,
      as_maxContextTokens = None, as_contextUsage = None, as_permission = None, as_phase = None\<rparr>"

text \<open>\<open>{ ...old, ...slice }\<close>; spreading \<open>undefined\<close> adds no key.\<close>

definition spread_status :: "agent_status option \<Rightarrow> agent_status_merge \<Rightarrow> agent_status" where
  "spread_status old slice =
     (let a = (case old of Some a \<Rightarrow> a | None \<Rightarrow> EMPTY_STATUS) in
      \<lparr>as_model = spread_key (am_model slice) (as_model a),
       as_thinkingEffort = spread_key (am_thinkingEffort slice) (as_thinkingEffort a),
       as_usage = spread_key (am_usage slice) (as_usage a),
       as_contextTokens = spread_key (am_contextTokens slice) (as_contextTokens a),
       as_maxContextTokens = spread_key (am_maxContextTokens slice) (as_maxContextTokens a),
       as_contextUsage = spread_key (am_contextUsage slice) (as_contextUsage a),
       as_permission = spread_key (am_permission slice) (as_permission a),
       as_phase = spread_key (am_phase slice) (as_phase a)\<rparr>)"

text \<open>
  The merged \<open>modes\<close> and \<open>agent\<close> values are new objects exactly when the payload carries the
  key; a new object is never \<open>===\<close> the old one, and otherwise the old reference is passed on.
\<close>

definition merged_modes :: "modes_meta option \<Rightarrow> modes_meta_merge option \<Rightarrow> modes_meta option" where
  "merged_modes old payload =
     (case payload of
        None \<Rightarrow> old
      | Some mm \<Rightarrow>
          Some \<lparr>modes_plan = merge_mode (mm_plan mm) (Option.bind old modes_plan),
                modes_swarm = merge_mode (mm_swarm mm) (Option.bind old modes_swarm)\<rparr>)"

definition drop_empty_modes :: "modes_meta option \<Rightarrow> modes_meta option" where
  "drop_empty_modes modes =
     (case modes of
        None \<Rightarrow> None
      | Some m \<Rightarrow> if modes_plan m = None \<and> modes_swarm m = None then None else Some m)"

definition applyMetaMerge :: "agent_state \<Rightarrow> transcript_meta_merge \<Rightarrow> apply_result" where
  "applyMetaMerge s m =
     (let old = st_meta s;
          next_modes = drop_empty_modes (merged_modes (meta_modes old) (merge_modes m));
          next = \<lparr>meta_modes = next_modes,
                  meta_activity = coalesce (merge_activity m) (meta_activity old),
                  meta_agent = (case merge_agent m of
                                  Some slice \<Rightarrow> Some (spread_status (meta_agent old) slice)
                                | None \<Rightarrow> meta_agent old)\<rparr>;
          same_modes = (if next_modes = None then meta_modes old = None else merge_modes m = None);
          same_agent = (merge_agent m = None)
      in if meta_activity next = meta_activity old \<and> same_modes \<and> same_agent
         then unchanged s else changed (s\<lparr>st_meta := next\<rparr>))"

section \<open>The reducer\<close>

fun applyOperation :: "agent_state \<Rightarrow> transcript_op \<Rightarrow> apply_result" where
  "applyOperation s (Reset _ snap) = applyReset s snap"
| "applyOperation s (TurnUpsert h) = applyTurnUpsert s h"
| "applyOperation s (StepUpsert tid h) = applyStepUpsert s tid h"
| "applyOperation s (FrameUpsert tid sid f) = applyFrameUpsert s tid sid f"
| "applyOperation s (Append op) = applyAppend s op"
| "applyOperation s (MarkerUpsert m b) = applyItemUpsert s (IMarker m) (marker_markerId (obj_val m)) b"
| "applyOperation s (TaskRefUpsert r b) = applyItemUpsert s (ITaskRef r) (taskref_refId (obj_val r)) b"
| "applyOperation s (TaskUpsert t) = applyTaskUpsert s t"
| "applyOperation s (InteractionUpsert i) = applyInteractionUpsert s i"
| "applyOperation s (AttachmentUpsert a) = applyAttachmentUpsert s a"
| "applyOperation s (TodoUpsert t) = applyTodoUpsert s t"
| "applyOperation s (PromptUpsert p) = applyPromptUpsert s p"
| "applyOperation s (MetaMerge m) = applyMetaMerge s m"
| "applyOperation s (ItemsRemove ids) = applyItemsRemove s ids"

end
