(* ===== verification/TranscriptLemmas.thy ===== *)
theory TranscriptLemmas
  imports TranscriptOps
begin

text \<open>
  The calculus of the reducer: what looking up, inserting and replacing turns, steps and frames do
  to the list of turns of a timeline (\<open>turns\<close>), which is all the later proofs use; the generic
  text placement \<open>appendAtOffset\<close>; and the interface of the entity collections.
\<close>

section \<open>The turns of a timeline\<close>

definition turns :: "transcript_item list \<Rightarrow> transcript_turn list" where
  "turns items = List.map_filter the_turn items"

lemma turns_simps [simp]:
  "turns [] = []"
  "turns (ITurn t # items) = t # turns items"
  "turns (IMarker m # items) = turns items"
  "turns (ITaskRef r # items) = turns items"
  by (simp_all add: turns_def)

lemma turns_append [simp]: "turns (xs @ ys) = turns xs @ turns ys"
  by (simp add: turns_def map_filter_def)

lemma the_turn_Some [simp]: "the_turn e = Some t \<longleftrightarrow> e = ITurn t"
  by (cases e) auto

lemma set_turns: "t \<in> set (turns items) \<longleftrightarrow> ITurn t \<in> set items"
  by (induction items) (auto, (case_tac a, auto)+)

lemma is_turn_with_iff: "is_turn_with i e \<longleftrightarrow> (\<exists>t. e = ITurn t \<and> turn_turnId t = i)"
  by (cases e) auto

lemma getTurn_turns: "getTurn items i = find (\<lambda>t. turn_turnId t = i) (turns items)"
proof (induction items)
  case Nil
  show ?case by (simp add: getTurn_def)
next
  case (Cons e items)
  then show ?case by (cases e) (auto simp: getTurn_def)
qed

lemma getTurn_id: "getTurn items i = Some t \<Longrightarrow> turn_turnId t = i"
  by (auto simp: getTurn_turns dest: find_SomeD)

lemma getTurn_in: "getTurn items i = Some t \<Longrightarrow> t \<in> set (turns items)"
  by (auto simp: getTurn_turns dest: find_SomeD)

lemma getTurn_None: "getTurn items i = None \<longleftrightarrow> i \<notin> turn_turnId ` set (turns items)"
  by (auto simp: getTurn_turns find_None_iff_all)

lemma turns_insert_before:
  "(\<And>e. P e \<Longrightarrow> is_turn e) \<Longrightarrow>
   turns (insert_before P (ITurn t) items) = insert_before (\<lambda>u. P (ITurn u)) t (turns items)"
proof (induction items)
  case (Cons e items)
  then show ?case by (cases e) force+
qed simp

lemma turns_insertTurn:
  "turns (insertTurn items t) = insert_before (\<lambda>u. turn_ordinal t < turn_ordinal u) t (turns items)"
proof -
  have "turn_after n e \<Longrightarrow> is_turn e" for n e by (cases e) auto
  then show ?thesis by (simp add: insertTurn_def turns_insert_before)
qed

lemma turns_replaceTurn:
  "turns (replaceTurn items i f) = map (\<lambda>t. if turn_turnId t = i then f t else t) (turns items)"
proof (induction items)
  case (Cons e items)
  then show ?case by (cases e) (auto simp: replaceTurn_def)
qed (simp add: replaceTurn_def)

lemma getTurn_replaceTurn:
  "(\<And>t. turn_turnId t = i \<Longrightarrow> turn_turnId (f t) = i) \<Longrightarrow>
   getTurn (replaceTurn items i f) j = map_option (if j = i then f else id) (getTurn items j)"
  unfolding getTurn_turns turns_replaceTurn
  by (simp add: find_update_same find_update_other option.map_id)

lemma getTurn_insertTurn:
  "getTurn items (turn_turnId t) = None \<Longrightarrow>
   getTurn (insertTurn items t) j = (if j = turn_turnId t then Some t else getTurn items j)"
  unfolding getTurn_turns turns_insertTurn
  by (auto simp: find_insert_before find_insert_before_other)

lemma getTurn_put_turn:
  assumes "turn_turnId nt = i"
  shows "getTurn (put_turn items i nt) j = (if j = i then Some nt else getTurn items j)"
  using assms
  by (auto simp: put_turn_def getTurn_replaceTurn getTurn_insertTurn option.map_id0)

lemma turn_or_skeleton_id [simp]: "turn_turnId (turn_or_skeleton items i) = i"
  by (auto simp: turn_or_skeleton_def skeletonTurn_def dest: getTurn_id split: option.splits)

lemma turns_put_turn:
  "turns (put_turn items i nt) =
     (if getTurn items i \<noteq> None then map (\<lambda>t. if turn_turnId t = i then nt else t) (turns items)
      else insert_before (\<lambda>u. turn_ordinal nt < turn_ordinal u) nt (turns items))"
  by (simp add: put_turn_def turns_replaceTurn turns_insertTurn)

section \<open>Headers\<close>

lemma turnHeaderToTurn_simps [simp]:
  "turn_turnId (turnHeaderToTurn h steps) = turn_turnId h"
  "turn_ordinal (turnHeaderToTurn h steps) = turn_ordinal h"
  "turn_steps (turnHeaderToTurn h steps) = steps"
  by (simp_all add: turnHeaderToTurn_def turn_header.defs transcript_turn.defs)

lemma turn_header_eta: "turnHeaderToTurn (turn_header.truncate t) (turn_steps t) = t"
  by (simp add: turnHeaderToTurn_def turn_header.defs transcript_turn.defs)

lemma truncate_turnHeaderToTurn [simp]: "turn_header.truncate (turnHeaderToTurn h steps) = h"
  by (simp add: turnHeaderToTurn_def turn_header.defs transcript_turn.defs)

lemma stepHeaderToStep_simps [simp]:
  "step_stepId (stepHeaderToStep h frames) = step_stepId h"
  "step_ordinal (stepHeaderToStep h frames) = step_ordinal h"
  "step_frames (stepHeaderToStep h frames) = frames"
  by (simp_all add: stepHeaderToStep_def step_header.defs transcript_step.defs)

lemma truncate_stepHeaderToStep [simp]: "step_header.truncate (stepHeaderToStep h frames) = h"
  by (simp add: stepHeaderToStep_def step_header.defs transcript_step.defs)

lemma turnEquals_refl [simp]: "turnEquals (turnHeaderToTurn h steps) h"
  by (simp add: turnEquals_def turnHeaderToTurn_def turn_header.defs transcript_turn.defs)

lemma stepEquals_refl [simp]: "stepEquals (stepHeaderToStep h frames) h"
  by (simp add: stepEquals_def stepHeaderToStep_def step_header.defs transcript_step.defs)

lemma frameEquals_refl [simp]: "frameEquals f f"
  by (cases f) auto

section \<open>Steps and frames\<close>

lemma find_step_id: "find_step steps i = Some st \<Longrightarrow> step_stepId st = i \<and> st \<in> set steps"
  by (auto simp: find_step_def dest: find_SomeD)

lemma find_frame_id: "find_frame frames i = Some f \<Longrightarrow> frame_id f = i \<and> f \<in> set frames"
  by (auto simp: find_frame_def dest: find_SomeD)

lemma find_step_None: "find_step steps i = None \<longleftrightarrow> i \<notin> step_stepId ` set steps"
  by (auto simp: find_step_def find_None_iff_all)

lemma find_frame_None: "find_frame frames i = None \<longleftrightarrow> i \<notin> frame_id ` set frames"
  by (auto simp: find_frame_def find_None_iff_all)

lemma find_step_insert:
  assumes "find_step steps (step_stepId st) = None"
  shows "find_step (sort_key step_ordinal (steps @ [st])) (step_stepId st) = Some st"
  unfolding find_step_def
proof (rule find_uniqueI)
  fix y
  assume "y \<in> set (sort_key step_ordinal (steps @ [st]))" "step_stepId y = step_stepId st"
  with assms show "y = st" by (auto simp: find_step_None image_iff)
qed simp_all

lemma find_step_map:
  assumes "\<And>st. step_stepId st = i \<Longrightarrow> step_stepId (f st) = i"
  shows "find_step (map (\<lambda>st. if step_stepId st = i then f st else st) steps) i
         = map_option f (find_step steps i)"
  unfolding find_step_def by (rule find_update_same) (rule assms)

lemma find_step_put_step:
  "step_stepId st = sid \<Longrightarrow> find_step (put_step steps sid st) sid = Some st"
  by (auto simp: put_step_def find_step_map dest: find_step_insert)

lemma find_frame_put_frame: "find_frame (put_frame frames f) (frame_id f) = Some f"
proof (cases "find_frame frames (frame_id f)")
  case None
  then show ?thesis
    unfolding put_frame_def by (simp add: find_frame_def) (induction frames, auto split: if_splits)
next
  case (Some g)
  then show ?thesis
    unfolding put_frame_def
    by (simp add: find_frame_def find_update_same [where f = "\<lambda>_. f"])
qed

lemma step_or_skeleton_id [simp]: "step_stepId (step_or_skeleton t sid tid) = sid"
  by (auto simp: step_or_skeleton_def skeletonStep_def dest: find_step_id split: option.splits)

section \<open>Results\<close>

lemma result_simps [simp]:
  "res_state (unchanged s) = s" "res_changed (unchanged s) = False" "res_gap (unchanged s) = None"
  "res_state (changed s) = s" "res_changed (changed s) = True" "res_gap (changed s) = None"
  "res_state (gapped s e g) = s" "res_changed (gapped s e g) = False"
  "res_gap (gapped s e g) = Some (e, g)"
  by (simp_all add: unchanged_def changed_def gapped_def)

text \<open>An operation that reports no change, or a gap, returns the state it was given.\<close>

lemma applyOperation_not_changed:
  "\<not> res_changed (applyOperation s op) \<Longrightarrow> res_state (applyOperation s op) = s"
  by (cases op)
    (auto simp: applyReset_def applyTurnUpsert_def applyStepUpsert_def applyFrameUpsert_def
      applyAppend_def applyTaskAppend_def applyFrameAppend_def applyItemUpsert_def
      applyTaskUpsert_def applyInteractionUpsert_def applyAttachmentUpsert_def
      applyTodoUpsert_def applyPromptUpsert_def applyMetaMerge_def applyItemsRemove_def Let_def
      split: option.splits append_target.splits prod.splits if_splits)

section \<open>Placing a chunk of text\<close>

lemma appendAtOffset_nat:
  "appendAtOffset local (int k) chunk =
     (if length local < k then
        \<lparr>merged_text = local, merged_changed = False, merged_gap = Some (int (length local), int k)\<rparr>
      else if take (length chunk) (drop k local) = chunk then
        \<lparr>merged_text = local, merged_changed = False, merged_gap = None\<rparr>
      else if drop k local = take (length local - k) chunk then
        \<lparr>merged_text = take k local @ chunk, merged_changed = True, merged_gap = None\<rparr>
      else
        \<lparr>merged_text = local, merged_changed = False, merged_gap = Some (int (length local), int k)\<rparr>)"
proof (cases "length local < k")
  case True
  then show ?thesis by (simp add: appendAtOffset_def Let_def)
next
  case False
  then have le: "k \<le> length local" by simp
  have s1: "js_slice local (int k) (int k + int (length chunk)) = take (length chunk) (drop k local)"
    using js_slice_nat [of local k "k + length chunk"] by simp
  have s2: "js_slice chunk 0 (int (length local) - int k) = take (length local - k) chunk"
    using js_slice_nat [of chunk 0 "length local - k"] le by (simp add: of_nat_diff)
  have s3: "js_slice_from chunk (int (length local) - int k) = drop (length local - k) chunk"
    using js_slice_from_nat [of chunk "length local - k"] le by (simp add: of_nat_diff)
  have s4: "js_slice local 0 (int k) = take k local"
    using js_slice_nat [of local 0 k] by simp
  have novel: "drop (length local - k) chunk \<noteq> []"
    if "take (length chunk) (drop k local) \<noteq> chunk" "drop k local = take (length local - k) chunk"
  proof
    assume "drop (length local - k) chunk = []"
    then have "take (length local - k) chunk = chunk" by simp
    with that show False by simp
  qed
  show ?thesis
    using False novel
    by (auto simp: appendAtOffset_def Let_def s1 s2 s3 s4 js_slice_from_nat)
qed

lemma appendAtOffset_extends:
  "\<exists>suffix. merged_text (appendAtOffset local (int k) chunk) = local @ suffix"
proof (cases "\<not> length local < k \<and> take (length chunk) (drop k local) \<noteq> chunk
              \<and> drop k local = take (length local - k) chunk")
  case True
  then have "\<not> length local < k" "take (length chunk) (drop k local) \<noteq> chunk"
    "drop k local = take (length local - k) chunk" by blast+
  then have placed: "merged_text (appendAtOffset local (int k) chunk) = take k local @ chunk"
    by (subst appendAtOffset_nat) (simp only: if_not_P if_P if_False if_True merged_text.select_convs)
  have "take k local @ chunk = take k local @ take (length local - k) chunk @ drop (length local - k) chunk"
    by (simp only: append_take_drop_id)
  also have "\<dots> = (take k local @ drop k local) @ drop (length local - k) chunk"
    using True by (metis append_assoc)
  finally have "take k local @ chunk = local @ drop (length local - k) chunk"
    by (simp only: append_take_drop_id)
  with placed show ?thesis by metis
next
  case False
  then have "merged_text (appendAtOffset local (int k) chunk) = local"
    by (subst appendAtOffset_nat) (simp only: merged_text.select_convs split: if_split, blast)
  then show ?thesis by simp
qed

text \<open>Delivering a slice of the producer's text to a prefix of it.\<close>

lemma appendAtOffset_slice:
  assumes "m \<le> length full"
  shows "appendAtOffset (take m full) (int k) (take n (drop k full)) =
     (if m < k then
        \<lparr>merged_text = take m full, merged_changed = False, merged_gap = Some (int m, int k)\<rparr>
      else if min (length full) (k + n) \<le> m then
        \<lparr>merged_text = take m full, merged_changed = False, merged_gap = None\<rparr>
      else
        \<lparr>merged_text = take (k + n) full, merged_changed = True, merged_gap = None\<rparr>)"
proof (cases "m < k")
  case True
  then show ?thesis using assms by (simp add: appendAtOffset_nat)
next
  case False
  have tail: "drop k (take m full) = take (m - k) (drop k full)" by (simp add: drop_take)
  show ?thesis
  proof (cases "min (length full) (k + n) \<le> m")
    case True
    then have le: "length (take n (drop k full)) \<le> m - k"
      using False unfolding length_take length_drop by linarith
    have "take (length (take n (drop k full))) (drop k (take m full))
        = take (length (take n (drop k full))) (drop k full)"
      unfolding tail take_take min_absorb1 [OF le] ..
    also have "\<dots> = take n (drop k full)"
      by (simp add: min_def)
    finally have same: "take (length (take n (drop k full))) (drop k (take m full)) = take n (drop k full)" .
    have fits: "\<not> length (take m full) < k" using assms False by simp
    show ?thesis
      unfolding appendAtOffset_nat if_not_P [OF fits] if_P [OF same]
        if_not_P [OF False] if_P [OF True] ..
  next
    case short: False
    have m: "length (take m full) = m" "\<not> length (take m full) < k"
      using assms False by simp_all
    have lens: "m - k < length (take n (drop k full))"
      using assms False short unfolding length_take length_drop by linarith
    have "length (drop k (take m full)) = m - k" using assms by simp
    with lens have "length (take (length (take n (drop k full))) (drop k (take m full))) = m - k"
      using length_take [of "length (take n (drop k full))" "drop k (take m full)"] by linarith
    then have differ: "take (length (take n (drop k full))) (drop k (take m full)) \<noteq> take n (drop k full)"
      using lens by (metis less_irrefl)
    have "m - k \<le> n" using lens by simp
    then have agree: "drop k (take m full) = take (length (take m full) - k) (take n (drop k full))"
      unfolding m(1) tail by (simp add: min_absorb1)
    have "take k (take m full) @ take n (drop k full) = take (k + n) full"
      using False by (simp add: take_add min_def)
    then show ?thesis
      unfolding appendAtOffset_nat if_not_P [OF m(2)] if_not_P [OF differ] if_P [OF agree]
        if_not_P [OF \<open>\<not> m < k\<close>] if_not_P [OF short]
      by simp
  qed
qed

section \<open>The entity collections\<close>

text \<open>
  Tasks, interactions, attachments, todos and prompts share one contract: an upsert of an entity
  whose stored version compares equal does nothing, any other upsert stores it under its key and
  reports the change. What clients rely on follows from the two laws.
\<close>

locale entity_collection =
  fixes key :: "'v \<Rightarrow> string"
    and same :: "'v \<Rightarrow> 'v \<Rightarrow> bool"
    and lookup :: "agent_state \<Rightarrow> string \<Rightarrow> 'v option"
    and upsert :: "agent_state \<Rightarrow> 'v \<Rightarrow> apply_result"
  assumes upsert_same: "lookup s (key v) = Some w \<Longrightarrow> same w v \<Longrightarrow> upsert s v = unchanged s"
    and upsert_stores: "\<not> (\<exists>w. lookup s (key v) = Some w \<and> same w v) \<Longrightarrow>
          lookup (res_state (upsert s v)) k = (if k = key v then Some v else lookup s k)
          \<and> res_changed (upsert s v) \<and> res_gap (upsert s v) = None"
    and same_refl: "same v v"
begin

lemma upsert_stored: "\<exists>w. lookup (res_state (upsert s v)) (key v) = Some w \<and> (w = v \<or> same w v)"
  using upsert_same [of s v] upsert_stores [of s v "key v"] by fastforce

lemma upsert_again: "upsert (res_state (upsert s v)) v = unchanged (res_state (upsert s v))"
  using upsert_stored [of s v] same_refl upsert_same by blast

lemma upsert_other: "k \<noteq> key v \<Longrightarrow> lookup (res_state (upsert s v)) k = lookup s k"
  using upsert_same [of s v] upsert_stores [of s v k] by fastforce

lemma upsert_no_gap: "res_gap (upsert s v) = None"
  using upsert_same [of s v] upsert_stores [of s v "key v"] by fastforce

lemma upsert_commute:
  "key v \<noteq> key w \<Longrightarrow> \<not> (\<exists>u. lookup s (key v) = Some u \<and> same u v) \<Longrightarrow>
   \<not> (\<exists>u. lookup s (key w) = Some u \<and> same u w) \<Longrightarrow>
   lookup (res_state (upsert (res_state (upsert s v)) w)) k
   = lookup (res_state (upsert (res_state (upsert s w)) v)) k"
  using upsert_stores [of s v] upsert_stores [of s w]
    upsert_stores [of "res_state (upsert s v)" w] upsert_stores [of "res_state (upsert s w)" v]
  by auto

end

interpretation tasks: entity_collection task_taskId taskEquals "\<lambda>s. jm_get (st_tasks s)" applyTaskUpsert
  by unfold_locales (auto simp: applyTaskUpsert_def taskEquals_def split: option.splits)

interpretation interactions: entity_collection int_interactionId interactionEquals
  "\<lambda>s. jm_get (st_interactions s)" applyInteractionUpsert
  by unfold_locales
    (auto simp: applyInteractionUpsert_def put_interaction_def interactionEquals_def split: option.splits)

interpretation attachments: entity_collection att_attachmentId attachmentEquals
  "\<lambda>s. jm_get (st_attachments s)" applyAttachmentUpsert
  by unfold_locales (auto simp: applyAttachmentUpsert_def attachmentEquals_def split: option.splits)

interpretation todos: entity_collection todo_todoId todoEquals "\<lambda>s. jm_get (st_todos s)" applyTodoUpsert
  by unfold_locales (auto simp: applyTodoUpsert_def todoEquals_def split: option.splits)

interpretation prompts: entity_collection prompt_promptId promptEquals
  "\<lambda>s. jm_get (st_prompts s)" applyPromptUpsert
  by unfold_locales (auto simp: applyPromptUpsert_def promptEquals_def split: option.splits)

end
