(* ===== verification/TranscriptInv.thy ===== *)
theory TranscriptInv
  imports TranscriptLemmas
begin

text \<open>
  The well-formed states of one agent's transcript, and the proof that every operation of the
  reducer keeps them: turns, steps and frames have distinct ids, turns and steps are in ordinal
  order, every entity is stored under its own key, and the pending index lists exactly the
  interactions that are pending. The producer's part is that an upsert never moves an existing
  turn or step to another ordinal, and that a reset, which the reducer installs unchecked, carries a well-formed
  snapshot; \<open>TranscriptProps\<close> shows that those taken of another transcript are.
\<close>

definition wf_steps :: "transcript_step list \<Rightarrow> bool" where
  "wf_steps steps \<longleftrightarrow>
     distinct (map step_stepId steps) \<and> sorted (map step_ordinal steps) \<and>
     (\<forall>st\<in>set steps. distinct (map frame_id (step_frames st)))"

definition wf_items :: "transcript_item list \<Rightarrow> bool" where
  "wf_items items \<longleftrightarrow>
     distinct (map turn_turnId (turns items)) \<and> sorted (map turn_ordinal (turns items)) \<and>
     (\<forall>t\<in>set (turns items). wf_steps (turn_steps t))"

definition pending_ok :: "(string, transcript_interaction) jsmap \<Rightarrow> string list \<Rightarrow> bool" where
  "pending_ok ints pending \<longleftrightarrow>
     distinct pending \<and>
     set pending = {k. \<exists>i. jm_get ints k = Some i \<and> int_state i = IPending}"

definition wf_state :: "agent_state \<Rightarrow> bool" where
  "wf_state s \<longleftrightarrow>
     wf_items (st_items s) \<and>
     (jm_ok (st_tasks s) \<and> jm_keyed task_taskId (st_tasks s)) \<and>
     (jm_ok (st_interactions s) \<and> jm_keyed int_interactionId (st_interactions s)) \<and>
     (jm_ok (st_attachments s) \<and> jm_keyed att_attachmentId (st_attachments s)) \<and>
     (jm_ok (st_todos s) \<and> jm_keyed todo_todoId (st_todos s)) \<and>
     (jm_ok (st_prompts s) \<and> jm_keyed prompt_promptId (st_prompts s)) \<and>
     pending_ok (st_interactions s) (st_pending s)"

definition wf_snapshot :: "agent_snapshot \<Rightarrow> bool" where
  "wf_snapshot snap \<longleftrightarrow>
     wf_items (snap_items snap) \<and> distinct (map int_interactionId (snap_interactions snap))"

fun op_stable :: "agent_state \<Rightarrow> transcript_op \<Rightarrow> bool" where
  "op_stable s (Reset _ snap) = wf_snapshot snap"
| "op_stable s (TurnUpsert h) =
     (case getTurn (st_items s) (turn_turnId h) of
        Some t \<Rightarrow> turn_ordinal t = turn_ordinal h | None \<Rightarrow> True)"
| "op_stable s (StepUpsert tid h) =
     (case find_step (turn_steps (turn_or_skeleton (st_items s) tid)) (step_stepId h) of
        Some st \<Rightarrow> step_ordinal st = step_ordinal h | None \<Rightarrow> True)"
| "op_stable s _ = True"

inductive reachable :: "agent_state \<Rightarrow> bool" where
  start: "reachable EMPTY_AGENT_STATE"
| operation: "reachable s \<Longrightarrow> op_stable s op \<Longrightarrow> reachable (res_state (applyOperation s op))"

section \<open>Replacing and inserting turns and steps\<close>

lemma map_update_const:
  assumes "distinct (map k xs)" "find (\<lambda>x. k x = i) xs = Some x0"
  shows "map (\<lambda>x. if k x = i then f x else x) xs = map (\<lambda>x. if k x = i then f x0 else x) xs"
proof -
  have "x = x0" if "x \<in> set xs" "k x = i" for x
    using assms that by (auto simp: distinct_map inj_on_def dest!: find_SomeD)
  then show ?thesis by auto
qed

lemma map_update_key:
  assumes "distinct (map k xs)" "find (\<lambda>x. k x = i) xs = Some x0" "g y = g x0"
  shows "map g (map (\<lambda>x. if k x = i then y else x) xs) = map g xs"
proof -
  have "x = x0" if "x \<in> set xs" "k x = i" for x
    using assms(1,2) that by (auto simp: distinct_map inj_on_def dest!: find_SomeD)
  then show ?thesis using assms(3) by auto
qed

lemma wf_items_put_turn:
  assumes wf: "wf_items items" and i: "turn_turnId nt = i" and steps: "wf_steps (turn_steps nt)"
    and ord: "\<And>t. getTurn items i = Some t \<Longrightarrow> turn_ordinal nt = turn_ordinal t"
  shows "wf_items (put_turn items i nt)"
proof (cases "getTurn items i")
  case None
  with wf i have "i \<notin> turn_turnId ` set (turns items)" by (simp add: getTurn_None)
  with wf i steps None show ?thesis
    by (auto simp: wf_items_def turns_put_turn distinct_map_insert_before sorted_insert_before)
next
  case (Some t0)
  with wf have d: "distinct (map turn_turnId (turns items))"
    and f: "find (\<lambda>t. turn_turnId t = i) (turns items) = Some t0"
    by (simp_all add: wf_items_def getTurn_turns)
  have "turn_turnId nt = turn_turnId t0" using i getTurn_id [OF Some] by simp
  note keys = map_update_key [OF d f this] map_update_key [OF d f ord [OF Some]]
  show ?thesis
    unfolding wf_items_def turns_put_turn using Some wf steps
    by (simp only: keys if_True option.distinct not_False_eq_True simp_thms) (auto simp: wf_items_def)
qed

lemma replaceTurn_put_turn:
  assumes "wf_items items" "getTurn items i = Some t"
  shows "replaceTurn items i f = put_turn items i (f t)"
proof -
  have "u = t" if "ITurn u \<in> set items" "turn_turnId u = i" for u
    using assms that unfolding wf_items_def distinct_map inj_on_def
    by (metis getTurn_id getTurn_in set_turns)
  then show ?thesis
    using assms(2) by (auto simp: put_turn_def replaceTurn_def split: transcript_item.splits)
qed

lemma wf_steps_put_step:
  assumes wf: "wf_steps steps" and i: "step_stepId st = i" and frames: "distinct (map frame_id (step_frames st))"
    and ord: "\<And>st0. find_step steps i = Some st0 \<Longrightarrow> step_ordinal st = step_ordinal st0"
  shows "wf_steps (put_step steps i st)"
proof (cases "find_step steps i")
  case None
  then have "i \<notin> step_stepId ` set steps" by (simp add: find_step_None)
  with wf i frames None show ?thesis
    by (auto simp: wf_steps_def put_step_def distinct_map_sort_key sorted_sort_key)
next
  case (Some st0)
  with wf have d: "distinct (map step_stepId steps)"
    and f: "find (\<lambda>st. step_stepId st = i) steps = Some st0"
    by (simp_all add: wf_steps_def find_step_def)
  have "step_stepId st = step_stepId st0" using i find_step_id [OF Some] by simp
  note keys = map_update_key [OF d f this] map_update_key [OF d f ord [OF Some]]
  show ?thesis
    unfolding wf_steps_def put_step_def using Some wf frames
    by (simp only: keys if_True option.distinct not_False_eq_True simp_thms) (auto simp: wf_steps_def)
qed

lemma map_steps_put_step:
  assumes "wf_steps steps" "find_step steps i = Some st"
  shows "map (\<lambda>st. if step_stepId st = i then f st else st) steps = put_step steps i (f st)"
  using assms map_update_const [of step_stepId steps i st f]
  by (simp add: put_step_def wf_steps_def find_step_def)

lemma distinct_put_frame:
  "distinct (map frame_id frames) \<Longrightarrow> distinct (map frame_id (put_frame frames f))"
proof (cases "find_frame frames (frame_id f)")
  case None
  moreover assume "distinct (map frame_id frames)"
  ultimately show ?thesis
    using find_frame_None [of frames "frame_id f"] by (simp add: put_frame_def)
next
  case (Some g)
  moreover have "map frame_id (map (\<lambda>g. if frame_id g = frame_id f then f else g) frames) = map frame_id frames"
    by simp
  moreover assume "distinct (map frame_id frames)"
  ultimately show ?thesis by (simp only: put_frame_def option.case)
qed

lemma wf_turn_or_skeleton:
  "wf_items items \<Longrightarrow> wf_steps (turn_steps (turn_or_skeleton items i))"
  by (auto simp: turn_or_skeleton_def skeletonTurn_def wf_items_def wf_steps_def
      split: option.splits dest: getTurn_in)

lemma turn_or_skeleton_ordinal:
  "getTurn items i = Some t \<Longrightarrow> turn_ordinal (turn_or_skeleton items i) = turn_ordinal t"
  by (simp add: turn_or_skeleton_def)

lemma wf_step_or_skeleton:
  "wf_steps (turn_steps t) \<Longrightarrow> distinct (map frame_id (step_frames (step_or_skeleton t sid tid)))"
  by (auto simp: step_or_skeleton_def skeletonStep_def wf_steps_def split: option.splits dest: find_step_id)

text \<open>Updating the steps of one turn.\<close>

lemma wf_items_put_steps:
  assumes "wf_items items" "wf_steps steps"
  shows "wf_items (put_turn items i (turn_or_skeleton items i\<lparr>turn_steps := steps\<rparr>))"
  by (rule wf_items_put_turn) (use assms in \<open>auto simp: turn_or_skeleton_ordinal\<close>)

section \<open>Every operation keeps the timeline well formed\<close>

lemma wf_turn_upsert:
  assumes wf: "wf_items (st_items s)" and st: "op_stable s (TurnUpsert h)"
  shows "wf_items (st_items (res_state (applyTurnUpsert s h)))"
proof (cases "getTurn (st_items s) (turn_turnId h)")
  case None
  then have eq: "insertTurn (st_items s) (turnHeaderToTurn h [])
      = put_turn (st_items s) (turn_turnId h) (turnHeaderToTurn h [])"
    by (simp add: put_turn_def)
  have "wf_items (put_turn (st_items s) (turn_turnId h) (turnHeaderToTurn h []))"
    by (rule wf_items_put_turn [OF wf]) (use None in \<open>auto simp: wf_steps_def\<close>)
  with None eq show ?thesis by (simp add: applyTurnUpsert_def)
next
  case (Some t)
  have "wf_items (put_turn (st_items s) (turn_turnId h) (turnHeaderToTurn h (turn_steps t)))"
    by (rule wf_items_put_turn [OF wf])
      (use Some st wf in \<open>auto simp: wf_items_def dest: getTurn_in\<close>)
  with Some wf show ?thesis
    by (auto simp: applyTurnUpsert_def replaceTurn_put_turn)
qed

lemma wf_step_upsert:
  assumes wf: "wf_items (st_items s)" and st: "op_stable s (StepUpsert tid h)"
  shows "wf_items (st_items (res_state (applyStepUpsert s tid h)))"
proof -
  let ?t = "turn_or_skeleton (st_items s) tid"
  have ws: "wf_steps (turn_steps ?t)" using wf by (rule wf_turn_or_skeleton)
  show ?thesis
  proof (cases "find_step (turn_steps ?t) (step_stepId h)")
    case None
    have "wf_steps (put_step (turn_steps ?t) (step_stepId h) (stepHeaderToStep h []))"
      by (rule wf_steps_put_step [OF ws]) (use None in auto)
    with None wf show ?thesis
      by (auto simp: applyStepUpsert_def Let_def put_step_def intro: wf_items_put_steps)
  next
    case (Some cur)
    have "wf_steps (put_step (turn_steps ?t) (step_stepId h) (stepHeaderToStep h (step_frames cur)))"
      by (rule wf_steps_put_step [OF ws])
        (use Some st ws in \<open>auto simp: wf_steps_def dest: find_step_id\<close>)
    with Some wf show ?thesis
      by (auto simp: applyStepUpsert_def Let_def map_steps_put_step [OF ws Some] intro: wf_items_put_steps)
  qed
qed

lemma wf_frame_upsert:
  assumes wf: "wf_items (st_items s)"
  shows "wf_items (st_items (res_state (applyFrameUpsert s tid sid f)))"
proof -
  let ?t = "turn_or_skeleton (st_items s) tid"
  let ?st = "step_or_skeleton ?t sid tid"
  have ws: "wf_steps (turn_steps ?t)" using wf by (rule wf_turn_or_skeleton)
  have "wf_steps (put_step (turn_steps ?t) sid (?st\<lparr>step_frames := put_frame (step_frames ?st) f\<rparr>))"
    by (rule wf_steps_put_step [OF ws])
      (auto simp: distinct_put_frame wf_step_or_skeleton [OF ws], simp add: step_or_skeleton_def)
  from wf_items_put_steps [OF wf this] wf show ?thesis
    by (auto simp: applyFrameUpsert_def Let_def split: option.splits)
qed

lemma frame_id_with_text [simp]: "frame_id (with_text x f) = frame_id f"
  by (cases f) auto

lemma map_frame_id_with_text:
  "frame_id f = fid \<Longrightarrow>
   map frame_id (map (\<lambda>g. if frame_id g = fid then with_text x f else g) frames) = map frame_id frames"
  by auto

lemma lookup_frameD:
  assumes "lookup_frame items tid sid fid = Some (t, st, f, x)"
  shows "getTurn items tid = Some t" "find_step (turn_steps t) sid = Some st"
    "find_frame (step_frames st) fid = Some f" "frame_text f = Some x"
  using assms by (auto simp: lookup_frame_def split: option.splits)

lemma wf_frame_append:
  assumes wf: "wf_items (st_items s)"
  shows "wf_items (st_items (res_state (applyFrameAppend s tid sid fid op)))"
proof (cases "lookup_frame (st_items s) tid sid fid")
  case None
  with wf show ?thesis by (simp add: applyFrameAppend_def)
next
  case (Some r)
  obtain t st f x where r: "r = (t, st, f, x)" by (cases r)
  note found = lookup_frameD [OF Some [unfolded r]]
  have ws: "wf_steps (turn_steps t)" using wf found(1) by (auto simp: wf_items_def dest: getTurn_in)
  have df: "distinct (map frame_id (step_frames st))"
    using ws found(2) by (auto simp: wf_steps_def dest: find_step_id)
  let ?frames = "\<lambda>y. map (\<lambda>g. if frame_id g = fid then with_text y f else g) (step_frames st)"
  have fid: "frame_id f = fid" using found(3) by (auto dest: find_frame_id)
  have wst: "wf_steps (put_step (turn_steps t) sid (st\<lparr>step_frames := ?frames y\<rparr>))" for y
  proof (rule wf_steps_put_step [OF ws])
    show "distinct (map frame_id (step_frames (st\<lparr>step_frames := ?frames y\<rparr>)))"
      using df map_frame_id_with_text [OF fid, of y "step_frames st"] by (simp del: map_map)
  qed (use found(2) in \<open>auto dest: find_step_id\<close>)
  have "wf_items (put_turn (st_items s) tid
          (t\<lparr>turn_steps := put_step (turn_steps t) sid (st\<lparr>step_frames := ?frames y\<rparr>)\<rparr>))" for y
    by (rule wf_items_put_turn [OF wf]) (use wst found(1) in \<open>auto dest: getTurn_id\<close>)
  then show ?thesis
    using wf Some found(1,2)
    by (auto simp: applyFrameAppend_def r Let_def put_turn_def put_step_def split: option.splits)
qed

lemma turns_filter: "turns (filter P items) = filter (\<lambda>t. P (ITurn t)) (turns items)"
proof (induction items)
  case (Cons e items)
  then show ?case by (cases e) auto
qed simp

lemma wf_items_filter_turns:
  "wf_items items \<Longrightarrow> turns items' = filter P (turns items) \<Longrightarrow> wf_items items'"
  by (auto simp: wf_items_def distinct_map_filter sorted_filter_map)

lemma turns_insert_nonturn: "\<not> is_turn item \<Longrightarrow> turns (insert_before P item items) = turns items"
proof (induction items)
  case Nil
  then show ?case by (cases item) auto
next
  case (Cons e items)
  then show ?case by (cases item; cases e) auto
qed

lemma turns_replace_nonturn:
  "\<not> is_turn item \<Longrightarrow>
   turns (map (\<lambda>e. if itemId e = i \<and> \<not> item_same e item then item else e) items)
   = filter (\<lambda>t. turn_turnId t \<noteq> i) (turns items)"
proof (induction items)
  case (Cons e items)
  then show ?case by (cases item; cases e) auto
qed simp

lemma wf_item_upsert:
  assumes "wf_items (st_items s)" "\<not> is_turn item"
  shows "wf_items (st_items (res_state (applyItemUpsert s item i b)))"
proof -
  have "turns [item] = []" using assms(2) by (cases item) auto
  then have "turns (st_items s @ [item]) = turns (st_items s)" by simp
  then show ?thesis
    using assms wf_items_filter_turns [OF assms(1) turns_replace_nonturn [OF assms(2)]]
    by (auto simp: applyItemUpsert_def turns_insert_nonturn wf_items_def split: option.splits)
qed

lemma wf_items_remove:
  "wf_items (st_items s) \<Longrightarrow> wf_items (st_items (res_state (applyItemsRemove s ids)))"
  by (auto simp: applyItemsRemove_def Let_def intro: wf_items_filter_turns [OF _ turns_filter])

lemma wf_items_operation:
  assumes "wf_items (st_items s)" "op_stable s op"
  shows "wf_items (st_items (res_state (applyOperation s op)))"
proof (cases op)
  case (Reset a snap)
  then show ?thesis using assms by (simp add: applyReset_def wf_snapshot_def Let_def)
next
  case (Append a)
  then show ?thesis using assms
    by (auto simp: applyAppend_def wf_frame_append applyTaskAppend_def Let_def
        split: append_target.splits option.splits)
qed (use assms in \<open>auto simp: wf_turn_upsert wf_step_upsert wf_frame_upsert wf_item_upsert
      wf_items_remove applyTaskUpsert_def applyInteractionUpsert_def put_interaction_def
      applyAttachmentUpsert_def applyTodoUpsert_def applyPromptUpsert_def applyMetaMerge_def Let_def
      split: option.splits\<close>)

section \<open>Every operation keeps the entity maps and the pending index\<close>

definition wf_maps :: "agent_state \<Rightarrow> bool" where
  "wf_maps s \<longleftrightarrow>
     (jm_ok (st_tasks s) \<and> jm_keyed task_taskId (st_tasks s)) \<and>
     (jm_ok (st_interactions s) \<and> jm_keyed int_interactionId (st_interactions s)) \<and>
     (jm_ok (st_attachments s) \<and> jm_keyed att_attachmentId (st_attachments s)) \<and>
     (jm_ok (st_todos s) \<and> jm_keyed todo_todoId (st_todos s)) \<and>
     (jm_ok (st_prompts s) \<and> jm_keyed prompt_promptId (st_prompts s))"

lemma wf_state_split:
  "wf_state s \<longleftrightarrow> wf_items (st_items s) \<and> wf_maps s \<and> pending_ok (st_interactions s) (st_pending s)"
  by (auto simp: wf_state_def wf_maps_def)

lemma wf_maps_items [simp]: "wf_maps (s\<lparr>st_items := items\<rparr>) = wf_maps s"
  by (simp add: wf_maps_def)

lemma fold_delete_ok: "jm_ok m \<Longrightarrow> jm_ok (fold jm_delete ks m)"
  by (induction ks arbitrary: m) (auto simp: jm_ok_delete)

lemma fold_delete_keyed: "jm_keyed key m \<Longrightarrow> jm_keyed key (fold jm_delete ks m)"
  by (induction ks arbitrary: m) (auto simp: jm_keyed_delete)

lemma fold_delete_get: "jm_get (fold jm_delete ks m) k = (if k \<in> set ks then None else jm_get m k)"
  by (induction ks arbitrary: m) auto

lemma fold_js_set_delete: "fold js_set_delete ks s = filter (\<lambda>x. x \<notin> set ks) s"
  by (induction ks arbitrary: s) (auto simp: js_set_delete_def intro: filter_cong)

lemma jm_keyed_set_self: "jm_keyed key m \<Longrightarrow> jm_keyed key (jm_set (key v) v m)"
  by (rule jm_keyed_set) auto

lemmas map_keeps = jm_ok_set jm_keyed_set_self fold_delete_ok fold_delete_keyed jm_of_values_wf

lemma wf_task_append:
  "wf_maps s \<Longrightarrow> wf_maps (res_state (applyTaskAppend s i op))"
  by (auto simp: applyTaskAppend_def Let_def wf_maps_def jm_ok_set skeletonTask_def
      intro!: jm_keyed_set split: option.splits dest: jm_keyed_get)

lemma wf_maps_operation: "wf_maps s \<Longrightarrow> wf_maps (res_state (applyOperation s op))"
proof (cases op)
  case (Append a)
  moreover assume "wf_maps s"
  ultimately show ?thesis
    by (auto simp: applyAppend_def wf_task_append applyFrameAppend_def Let_def
        split: append_target.splits option.splits)
qed (auto simp: applyReset_def applyTurnUpsert_def applyStepUpsert_def applyFrameUpsert_def
      applyItemUpsert_def applyItemsRemove_def applyTaskUpsert_def applyInteractionUpsert_def
      put_interaction_def applyAttachmentUpsert_def applyTodoUpsert_def applyPromptUpsert_def
      applyMetaMerge_def Let_def wf_maps_def map_keeps split: option.splits)

lemma pending_reset:
  assumes "distinct (map int_interactionId ints)"
  shows "pending_ok (jm_of_values int_interactionId ints)
           (js_set_of (map int_interactionId (filter (\<lambda>i. int_state i = IPending) ints)))"
proof -
  have "distinct (map fst (map (\<lambda>i. (int_interactionId i, i)) ints))"
    using assms by (simp add: comp_def)
  then have "jm_get (jm_of_values int_interactionId ints) k = Some i
      \<longleftrightarrow> i \<in> set ints \<and> int_interactionId i = k" for k i
    using assms by (auto simp: jm_of_values_distinct jm_get_def)
  then show ?thesis by (auto simp: pending_ok_def)
qed

lemma pending_put: "pending_ok (st_interactions s) (st_pending s) \<Longrightarrow>
  pending_ok (st_interactions (put_interaction s i)) (st_pending (put_interaction s i))"
  by (auto simp: pending_ok_def put_interaction_def distinct_js_set_add distinct_js_set_delete
      split: if_splits)

lemma pending_remove: "pending_ok ints pending \<Longrightarrow>
  pending_ok (fold jm_delete dead ints) (fold js_set_delete dead pending)"
  by (auto simp: pending_ok_def fold_delete_get fold_js_set_delete)

lemma pending_operation:
  assumes "pending_ok (st_interactions s) (st_pending s)" "op_stable s op"
  shows "pending_ok (st_interactions (res_state (applyOperation s op)))
           (st_pending (res_state (applyOperation s op)))"
proof (cases op)
  case (Reset a snap)
  then show ?thesis using assms(2) by (simp add: applyReset_def Let_def wf_snapshot_def pending_reset)
next
  case (InteractionUpsert i)
  then show ?thesis using assms(1)
    by (auto simp: applyInteractionUpsert_def pending_put split: option.splits)
next
  case (ItemsRemove ids)
  then show ?thesis using assms(1)
    by (auto simp: applyItemsRemove_def Let_def pending_remove)
qed (use assms in \<open>auto simp: applyTurnUpsert_def applyStepUpsert_def applyFrameUpsert_def
      applyItemUpsert_def applyAppend_def applyTaskAppend_def applyFrameAppend_def applyTaskUpsert_def
      applyAttachmentUpsert_def applyTodoUpsert_def applyPromptUpsert_def
      applyMetaMerge_def Let_def split: option.splits append_target.splits\<close>)

section \<open>The invariant of reachable states\<close>

lemma wf_operation: "wf_state s \<Longrightarrow> op_stable s op \<Longrightarrow> wf_state (res_state (applyOperation s op))"
  by (simp add: wf_state_split wf_items_operation wf_maps_operation pending_operation)

lemma wf_empty: "wf_state EMPTY_AGENT_STATE"
  by (simp add: wf_state_def EMPTY_AGENT_STATE_def wf_items_def jm_keyed_def pending_ok_def)

lemma reachable_wf: "reachable s \<Longrightarrow> wf_state s"
  by (induction rule: reachable.induct) (auto simp: wf_empty wf_operation)

end
