(* ===== verification/TranscriptConverge.thy ===== *)
theory TranscriptConverge
  imports TranscriptLemmas
begin

text \<open>
  Convergence of the reducer: every operation but \<open>append\<close> absorbs its own duplicates, and what
  a turn, step or frame upsert leaves behind is what its payload says. The exceptions the source
  has (fields the equality tests leave out, order of upserts of one entity) are stated as theorems
  of their own.
\<close>

definition is_append :: "transcript_op \<Rightarrow> bool" where
  "is_append op = (case op of Append _ \<Rightarrow> True | _ \<Rightarrow> False)"

section \<open>One operation, applied twice\<close>

lemma turn_or_skeleton_put:
  "turn_turnId nt = i \<Longrightarrow> turn_or_skeleton (put_turn items i nt) i = nt"
  by (simp add: turn_or_skeleton_def getTurn_put_turn)

lemma turn_upsert_again:
  "applyTurnUpsert (res_state (applyTurnUpsert s h)) h = unchanged (res_state (applyTurnUpsert s h))"
proof (cases "getTurn (st_items s) (turn_turnId h)")
  case None
  then show ?thesis by (simp add: applyTurnUpsert_def getTurn_insertTurn)
next
  case (Some t)
  then show ?thesis by (auto simp: applyTurnUpsert_def getTurn_replaceTurn)
qed

lemma applyStepUpsert_cases:
  obtains (same) "applyStepUpsert s tid h = unchanged s"
  | (put) steps st where
      "applyStepUpsert s tid h =
         changed (s\<lparr>st_items := put_turn (st_items s) tid
                      (turn_or_skeleton (st_items s) tid\<lparr>turn_steps := steps\<rparr>)\<rparr>)"
      "find_step steps (step_stepId h) = Some st" "step_header.truncate st = h"
proof (cases "find_step (turn_steps (turn_or_skeleton (st_items s) tid)) (step_stepId h)")
  case None
  let ?st = "stepHeaderToStep h []"
  let ?steps = "sort_key step_ordinal (turn_steps (turn_or_skeleton (st_items s) tid) @ [?st])"
  have "find_step ?steps (step_stepId h) = Some ?st"
    using None find_step_insert [of _ ?st] by simp
  with None show ?thesis by (intro put [of ?steps ?st]) (simp_all add: applyStepUpsert_def Let_def)
next
  case (Some cur)
  let ?steps = "map (\<lambda>st. if step_stepId st = step_stepId h then stepHeaderToStep h (step_frames st) else st)
                  (turn_steps (turn_or_skeleton (st_items s) tid))"
  have "find_step ?steps (step_stepId h) = Some (stepHeaderToStep h (step_frames cur))"
    using Some by (simp add: find_step_map)
  with Some show ?thesis
    by (cases "stepEquals cur h")
      (auto simp: applyStepUpsert_def Let_def intro: same put [of ?steps "stepHeaderToStep h (step_frames cur)"])
qed

lemma truncate_stepEquals: "step_header.truncate st = h \<Longrightarrow> stepEquals st h"
  by (auto simp: stepEquals_def step_header.defs)

lemma step_upsert_again:
  "applyStepUpsert (res_state (applyStepUpsert s tid h)) tid h = unchanged (res_state (applyStepUpsert s tid h))
   \<or> res_state (applyStepUpsert s tid h) = s"
proof (cases rule: applyStepUpsert_cases [of s tid h])
  case (put steps st)
  have "turn_or_skeleton (put_turn (st_items s) tid (turn_or_skeleton (st_items s) tid\<lparr>turn_steps := steps\<rparr>)) tid
      = turn_or_skeleton (st_items s) tid\<lparr>turn_steps := steps\<rparr>"
    by (simp add: turn_or_skeleton_put)
  moreover have "stepEquals st h" using put(3) by (rule truncate_stepEquals)
  ultimately show ?thesis
    using put(2) by (simp add: put(1)) (simp add: applyStepUpsert_def Let_def)
qed simp

lemma step_or_skeleton_put:
  "step_stepId nst = sid \<Longrightarrow> step_or_skeleton (t\<lparr>turn_steps := put_step steps sid nst\<rparr>) sid tid = nst"
  by (simp add: step_or_skeleton_def find_step_put_step)

lemma frame_upsert_again:
  "applyFrameUpsert (res_state (applyFrameUpsert s tid sid f)) tid sid f
     = unchanged (res_state (applyFrameUpsert s tid sid f))
   \<or> res_state (applyFrameUpsert s tid sid f) = s"
proof -
  let ?t = "turn_or_skeleton (st_items s) tid"
  let ?st = "step_or_skeleton ?t sid tid"
  let ?nst = "?st\<lparr>step_frames := put_frame (step_frames ?st) f\<rparr>"
  let ?nt = "?t\<lparr>turn_steps := put_step (turn_steps ?t) sid ?nst\<rparr>"
  let ?s' = "s\<lparr>st_items := put_turn (st_items s) tid ?nt\<rparr>"
  have t': "turn_or_skeleton (st_items ?s') tid = ?nt" by (simp add: turn_or_skeleton_put)
  have st': "step_or_skeleton ?nt sid tid = ?nst"
    by (rule step_or_skeleton_put) simp
  have "applyFrameUpsert ?s' tid sid f = unchanged ?s'"
    unfolding applyFrameUpsert_def Let_def t' st' by (simp add: find_frame_put_frame)
  moreover have "res_state (applyFrameUpsert s tid sid f) \<in> {s, ?s'}"
    by (auto simp: applyFrameUpsert_def Let_def split: option.splits)
  ultimately show ?thesis by auto
qed

lemma item_same_refl: "\<not> is_turn item \<Longrightarrow> item_same item item"
  by (cases item) auto

lemma item_upsert_present:
  "\<exists>e\<in>set (st_items s). itemId e = i \<Longrightarrow> \<forall>e\<in>set (st_items s). itemId e = i \<longrightarrow> item_same e item \<Longrightarrow>
   applyItemUpsert s item i b = unchanged s"
  by (auto simp: applyItemUpsert_def)

lemma item_upsert_state:
  assumes "\<not> is_turn item" "itemId item = i" "s' = res_state (applyItemUpsert s item i b)"
  shows "(\<exists>e\<in>set (st_items s'). itemId e = i)
    \<and> (\<forall>e\<in>set (st_items s'). itemId e = i \<longrightarrow> item_same e item)"
proof (cases "\<exists>e\<in>set (st_items s). itemId e = i")
  case True
  then show ?thesis
    using assms(2) item_same_refl [OF assms(1)]
    by (auto simp: assms(3) applyItemUpsert_def image_iff)
next
  case False
  then show ?thesis
    using assms(2) item_same_refl [OF assms(1)]
    by (cases b) (auto simp: assms(3) applyItemUpsert_def)
qed

lemma item_upsert_again:
  "\<not> is_turn item \<Longrightarrow> itemId item = i \<Longrightarrow>
   applyItemUpsert (res_state (applyItemUpsert s item i b)) item i b
   = unchanged (res_state (applyItemUpsert s item i b))"
  using item_upsert_state [of item i "res_state (applyItemUpsert s item i b)" s b] by (intro item_upsert_present) blast+

lemma spread_key_idem [simp]: "spread_key k (spread_key k x) = spread_key k x"
  by (cases k) auto

lemma meta_merge_again:
  "res_state (applyMetaMerge (res_state (applyMetaMerge s m)) m) = res_state (applyMetaMerge s m)"
proof -
  have modes: "drop_empty_modes (merged_modes (drop_empty_modes (merged_modes old p)) p)
             = drop_empty_modes (merged_modes old p)" for old p
    by (cases p; cases "mm_plan (the p)"; cases "mm_swarm (the p)")
      (auto simp: merged_modes_def drop_empty_modes_def split: option.splits)
  have agent: "spread_status (Some (spread_status old slice)) slice = spread_status old slice"
    for old slice by (simp add: spread_status_def Let_def)
  show ?thesis
    by (auto simp: applyMetaMerge_def Let_def modes agent split: option.splits)
qed

lemma items_remove_items:
  "st_items (res_state (applyItemsRemove s ids)) = filter (\<lambda>entry. itemId entry \<notin> set ids) (st_items s)"
  unfolding applyItemsRemove_def Let_def
  by (split if_split) (simp add: filter_length_eq_iff filter_id_conv)

lemma items_remove_again:
  "applyItemsRemove (res_state (applyItemsRemove s ids)) ids = unchanged (res_state (applyItemsRemove s ids))"
proof -
  let ?s = "res_state (applyItemsRemove s ids)"
  have "filter (\<lambda>entry. itemId entry \<notin> set ids) (st_items ?s) = st_items ?s" by (simp add: items_remove_items)
  then show ?thesis unfolding applyItemsRemove_def [of ?s] Let_def by (simp only: simp_thms if_True)
qed

lemma duplicate_absorbed:
  assumes "\<not> is_append op"
  shows "res_state (applyOperation (res_state (applyOperation s op)) op) = res_state (applyOperation s op)"
proof (cases op)
  case (StepUpsert tid h)
  then show ?thesis using step_upsert_again [of s tid h] by auto
next
  case (FrameUpsert tid sid f)
  then show ?thesis using frame_upsert_again [of s tid sid f] by auto
next
  case (Reset a snap)
  then show ?thesis by (simp add: applyReset_def Let_def)
qed (use assms in \<open>simp_all add: is_append_def turn_upsert_again item_upsert_again meta_merge_again
      items_remove_again tasks.upsert_again interactions.upsert_again attachments.upsert_again
      todos.upsert_again prompts.upsert_again\<close>)

end
