(* ===== verification/TranscriptStore.thy ===== *)
theory TranscriptStore
  imports TranscriptInv TranscriptConverge
begin

text \<open>
  \<open>packages/transcript/src/store\<close>: one agent's transcript (\<open>AgentTranscript\<close>), with its batch
  apply loop, its listeners and its snapshots, and the session root (\<open>TranscriptStore\<close>) with its
  roster. A listener is its identity; what a method calls the listeners with is part of its result.
\<close>

section \<open>AgentTranscript\<close>

record agent_transcript =
  at_agentId :: agent_id
  at_state :: agent_state
  at_listeners :: "nat list"

definition newAgentTranscript :: "agent_id \<Rightarrow> agent_transcript" where
  "newAgentTranscript i = \<lparr>at_agentId = i, at_state = EMPTY_AGENT_STATE, at_listeners = []\<rparr>"

fun op_target :: "transcript_op \<Rightarrow> append_target option" where
  "op_target (Append a) = Some (append_target a)"
| "op_target _ = None"

type_synonym gap_signal = "append_target option \<times> int \<times> int"

fun apply_loop ::
  "transcript_op list \<Rightarrow> agent_state \<Rightarrow> transcript_op list \<Rightarrow> gap_signal option \<Rightarrow>
   agent_state \<times> transcript_op list \<times> gap_signal option" where
  "apply_loop [] s accepted gap = (s, accepted, gap)"
| "apply_loop (op # ops) s accepted gap =
     (let r = applyOperation s op in
      case res_gap r of
        Some (e, g) \<Rightarrow> apply_loop ops s accepted (Some (op_target op, e, g))
      | None \<Rightarrow>
          if \<not> res_changed r then apply_loop ops s accepted gap
          else apply_loop ops (res_state r) (accepted @ [op]) gap)"

definition at_apply ::
  "agent_transcript \<Rightarrow> transcript_op list \<Rightarrow>
   agent_transcript \<times> applied_ops \<times> (nat \<times> change_event) list" where
  "at_apply t ops =
     (let (s, accepted, gap) = apply_loop ops (at_state t) [] None;
          calls = (if accepted = [] then []
                   else map (\<lambda>l. (l, \<lparr>change_agentId = at_agentId t, change_ops = accepted\<rparr>))
                          (at_listeners t))
      in (t\<lparr>at_state := s\<rparr>, \<lparr>applied_accepted = accepted, applied_gap = gap\<rparr>, calls))"

definition at_receive ::
  "agent_transcript \<Rightarrow> transcript_op list \<Rightarrow>
   agent_transcript \<times> applied_ops \<times> (nat \<times> change_event) list" where
  "at_receive = at_apply"

definition at_onChange :: "agent_transcript \<Rightarrow> nat \<Rightarrow> agent_transcript" where
  "at_onChange t l = t\<lparr>at_listeners := js_set_add l (at_listeners t)\<rparr>"

definition at_disposeListener :: "agent_transcript \<Rightarrow> nat \<Rightarrow> agent_transcript" where
  "at_disposeListener t l = t\<lparr>at_listeners := js_set_delete l (at_listeners t)\<rparr>"

definition at_getItems :: "agent_transcript \<Rightarrow> transcript_item list" where
  "at_getItems t = st_items (at_state t)"

definition at_getTurn :: "agent_transcript \<Rightarrow> turn_id \<Rightarrow> transcript_turn option" where
  "at_getTurn t i = getTurn (st_items (at_state t)) i"

definition at_getTask :: "agent_transcript \<Rightarrow> task_id \<Rightarrow> transcript_task option" where
  "at_getTask t i = jm_get (st_tasks (at_state t)) i"

definition at_getInteraction :: "agent_transcript \<Rightarrow> string \<Rightarrow> transcript_interaction option" where
  "at_getInteraction t i = jm_get (st_interactions (at_state t)) i"

definition at_listPendingInteractions :: "agent_transcript \<Rightarrow> string list" where
  "at_listPendingInteractions t = st_pending (at_state t)"

text \<open>The loop that keeps the newest turns and what follows them.\<close>

fun window_loop :: "transcript_item list \<Rightarrow> int \<Rightarrow> int \<Rightarrow> transcript_item list" where
  "window_loop [] skip seen = []"
| "window_loop (e # es) skip seen =
     (if is_turn e then
        (if seen + 1 \<le> skip then window_loop es skip (seen + 1) else e # window_loop es skip (seen + 1))
      else if skip < seen then e # window_loop es skip seen
      else window_loop es skip seen)"

definition at_snapshot :: "agent_transcript \<Rightarrow> int option \<Rightarrow> agent_snapshot" where
  "at_snapshot t window =
     (let s = at_state t;
          turnCount = int (length (filter is_turn (st_items s)));
          (items, more) =
            (case window of
               None \<Rightarrow> (st_items s, st_hasMoreOlder s)
             | Some tailTurns \<Rightarrow>
                 if tailTurns < turnCount
                 then (window_loop (st_items s) (turnCount - tailTurns) 0, True)
                 else (st_items s, st_hasMoreOlder s))
      in \<lparr>snap_items = items,
          snap_tasks = jm_values (st_tasks s),
          snap_interactions = jm_values (st_interactions s),
          snap_attachments = jm_values (st_attachments s),
          snap_todos = jm_values (st_todos s),
          snap_prompts = jm_values (st_prompts s),
          snap_meta = st_meta s,
          snap_hasMoreOlder = Some more\<rparr>)"

section \<open>TranscriptStore\<close>

datatype agent_type = AgentMain | AgentSub | AgentIndependent

record agent_descriptor =
  desc_agentId :: agent_id
  desc_type :: "agent_type option"
  desc_parentAgentId :: "agent_id option"
  desc_label :: "string option"
  desc_createdAt :: "string option"
  desc_disposedAt :: "string option"

record transcript_store =
  ts_sessionId :: string
  ts_agents :: "(agent_id, agent_transcript) jsmap"
  ts_descriptors :: "(agent_id, agent_descriptor obj) jsmap"
  ts_rosterListeners :: "nat list"

type_synonym roster_calls = "(nat \<times> agent_descriptor obj list) list"

definition newTranscriptStore :: "string \<Rightarrow> transcript_store" where
  "newTranscriptStore sid =
     \<lparr>ts_sessionId = sid, ts_agents = [], ts_descriptors = [], ts_rosterListeners = []\<rparr>"

definition ts_agents_list :: "transcript_store \<Rightarrow> agent_descriptor obj list" where
  "ts_agents_list st = jm_values (ts_descriptors st)"

definition emitRoster :: "transcript_store \<Rightarrow> roster_calls" where
  "emitRoster st = map (\<lambda>l. (l, ts_agents_list st)) (ts_rosterListeners st)"

definition ts_describeAgent ::
  "transcript_store \<Rightarrow> agent_descriptor obj \<Rightarrow> transcript_store \<times> roster_calls" where
  "ts_describeAgent st d =
     (if \<not> obj_same (jm_get (ts_descriptors st) (desc_agentId (obj_val d))) (Some d)
      then let st' = st\<lparr>ts_descriptors := jm_set (desc_agentId (obj_val d)) d (ts_descriptors st)\<rparr>
           in (st', emitRoster st')
      else (st, []))"

definition ts_ensureAgent ::
  "transcript_store \<Rightarrow> agent_id \<Rightarrow> agent_descriptor obj option \<Rightarrow> transcript_store \<times> roster_calls" where
  "ts_ensureAgent st i descriptor =
     (let st1 = (case jm_get (ts_agents st) i of
                   Some _ \<Rightarrow> st
                 | None \<Rightarrow> st\<lparr>ts_agents := jm_set i (newAgentTranscript i) (ts_agents st)\<rparr>)
      in case descriptor of
           None \<Rightarrow> (st1, [])
         | Some d \<Rightarrow>
             if \<not> obj_same (jm_get (ts_descriptors st1) i) (Some d)
             then let st2 = st1\<lparr>ts_descriptors := jm_set i d (ts_descriptors st1)\<rparr>
                  in (st2, emitRoster st2)
             else (st1, []))"

definition ts_getAgent :: "transcript_store \<Rightarrow> agent_id \<Rightarrow> agent_transcript option" where
  "ts_getAgent st i = jm_get (ts_agents st) i"

definition ts_removeAgent :: "transcript_store \<Rightarrow> agent_id \<Rightarrow> transcript_store \<times> roster_calls \<times> bool" where
  "ts_removeAgent st i =
     (let removed = jm_get (ts_agents st) i \<noteq> None;
          described = jm_get (ts_descriptors st) i \<noteq> None;
          st' = st\<lparr>ts_agents := jm_delete i (ts_agents st),
                   ts_descriptors := jm_delete i (ts_descriptors st)\<rparr>
      in (st', if described \<or> removed then emitRoster st' else [], removed))"

text \<open>\<open>ref\<close> is the identity of the descriptor that the spread literal allocates.\<close>

definition ts_markDisposed ::
  "transcript_store \<Rightarrow> agent_id \<Rightarrow> string \<Rightarrow> nat \<Rightarrow> transcript_store \<times> roster_calls" where
  "ts_markDisposed st i disposedAt ref =
     (case jm_get (ts_descriptors st) i of
        None \<Rightarrow> (st, [])
      | Some d \<Rightarrow>
          if desc_disposedAt (obj_val d) \<noteq> None then (st, [])
          else ts_describeAgent st (Obj ref (obj_val d\<lparr>desc_disposedAt := Some disposedAt\<rparr>)))"

definition ts_onRosterChange :: "transcript_store \<Rightarrow> nat \<Rightarrow> transcript_store" where
  "ts_onRosterChange st l = st\<lparr>ts_rosterListeners := js_set_add l (ts_rosterListeners st)\<rparr>"

definition ts_disposeRosterListener :: "transcript_store \<Rightarrow> nat \<Rightarrow> transcript_store" where
  "ts_disposeRosterListener st l = st\<lparr>ts_rosterListeners := js_set_delete l (ts_rosterListeners st)\<rparr>"

section \<open>The batch loop\<close>

definition run_ops :: "agent_state \<Rightarrow> transcript_op list \<Rightarrow> agent_state" where
  "run_ops s ops = foldl (\<lambda>s op. res_state (applyOperation s op)) s ops"

lemma run_ops_simps [simp]:
  "run_ops s [] = s"
  "run_ops s (op # ops) = run_ops (res_state (applyOperation s op)) ops"
  by (simp_all add: run_ops_def)

lemma res_gap_not_changed: "res_gap (applyOperation s op) \<noteq> None \<Longrightarrow> \<not> res_changed (applyOperation s op)"
  by (cases op)
    (auto simp: applyReset_def applyTurnUpsert_def applyStepUpsert_def applyFrameUpsert_def
      applyAppend_def applyTaskAppend_def applyFrameAppend_def applyItemUpsert_def
      applyTaskUpsert_def applyInteractionUpsert_def applyAttachmentUpsert_def
      applyTodoUpsert_def applyPromptUpsert_def applyMetaMerge_def applyItemsRemove_def Let_def
      split: option.splits append_target.splits prod.splits if_splits)

lemma res_gap_append: "res_gap (applyOperation s op) \<noteq> None \<Longrightarrow> is_append op"
  by (cases op)
    (auto simp: applyReset_def applyTurnUpsert_def applyStepUpsert_def applyFrameUpsert_def
      applyItemUpsert_def tasks.upsert_no_gap interactions.upsert_no_gap attachments.upsert_no_gap
      todos.upsert_no_gap prompts.upsert_no_gap is_append_def
      applyMetaMerge_def applyItemsRemove_def Let_def split: option.splits if_splits)

lemma apply_loop_step:
  "apply_loop (op # ops) s acc gap =
     (if res_changed (applyOperation s op)
      then apply_loop ops (res_state (applyOperation s op)) (acc @ [op]) gap
      else apply_loop ops s acc
             (case res_gap (applyOperation s op) of
                Some (e, g) \<Rightarrow> Some (op_target op, e, g) | None \<Rightarrow> gap))"
  using res_gap_not_changed [of s op] by (auto simp: Let_def split: option.splits)

declare apply_loop.simps(2) [simp del]

text \<open>The state a batch leaves is the fold of its operations: skipped ones leave the state alone.\<close>

lemma apply_loop_state: "fst (apply_loop ops s acc gap) = run_ops s ops"
  by (induction ops arbitrary: s acc gap)
    (auto simp: apply_loop_step applyOperation_not_changed)

definition accepted_ops :: "agent_state \<Rightarrow> transcript_op list \<Rightarrow> transcript_op list" where
  "accepted_ops s ops = fst (snd (apply_loop ops s [] None))"

lemma apply_loop_accepted: "fst (snd (apply_loop ops s acc gap)) = acc @ accepted_ops s ops"
proof (induction ops arbitrary: s acc gap)
  case Nil
  show ?case by (simp add: accepted_ops_def)
next
  case (Cons op ops)
  have "fst (snd (apply_loop ops t acc' gap')) = acc' @ accepted_ops t ops" for t acc' gap'
    by (rule Cons.IH)
  then show ?case by (simp add: apply_loop_step accepted_ops_def [of s "op # ops"])
qed

lemma accepted_ops_Cons:
  "accepted_ops s (op # ops) =
     (if res_changed (applyOperation s op) then op # accepted_ops (res_state (applyOperation s op)) ops
      else accepted_ops s ops)"
  by (simp add: accepted_ops_def [of s "op # ops"] apply_loop_step apply_loop_accepted)

lemma accepted_ops_Nil [simp]: "accepted_ops s [] = []"
  by (simp add: accepted_ops_def)

text \<open>The accepted operations reproduce the state with no gap and are all accepted again.\<close>

lemma run_accepted: "run_ops s (accepted_ops s ops) = run_ops s ops"
  by (induction ops arbitrary: s) (auto simp: accepted_ops_Cons applyOperation_not_changed)

lemma apply_accepted:
  "apply_loop (accepted_ops s ops) s acc gap = (run_ops s ops, acc @ accepted_ops s ops, gap)"
  by (induction ops arbitrary: s acc)
    (auto simp: accepted_ops_Cons apply_loop_step applyOperation_not_changed)

lemma accepted_ops_again: "accepted_ops s (accepted_ops s ops) = accepted_ops s ops"
  by (simp add: accepted_ops_def [of s "accepted_ops s ops"] apply_accepted)

section \<open>Snapshots\<close>

lemma length_filter_turns: "length (filter is_turn items) = length (turns items)"
proof (induction items)
  case (Cons e items)
  then show ?case by (cases e) auto
qed simp

lemma window_loop_past: "skip < seen \<or> (skip \<le> seen \<and> (items = [] \<or> is_turn (hd items))) \<Longrightarrow>
  window_loop items skip seen = items"
  by (induction items skip seen rule: window_loop.induct) auto

lemma window_loop_suffix: "\<exists>dropped. items = dropped @ window_loop items skip seen"
proof (induction items skip seen rule: window_loop.induct)
  case (2 e es skip seen)
  show ?case
  proof (cases "is_turn e \<and> seen + 1 \<le> skip \<or> \<not> is_turn e \<and> \<not> skip < seen")
    case True
    with 2 obtain d where "es = d @ window_loop (e # es) skip seen" by fastforce
    then show ?thesis by (intro exI [of _ "e # d"]) simp
  next
    case False
    then have "skip < seen + 1 \<and> is_turn e \<or> skip < seen" by auto
    then have "window_loop (e # es) skip seen = e # es" by (intro window_loop_past) auto
    then show ?thesis by simp
  qed
qed simp

lemma window_loop_turns:
  "seen \<le> skip \<Longrightarrow> turns (window_loop items skip seen) = drop (nat (skip - seen)) (turns items)"
proof (induction items skip seen rule: window_loop.induct)
  case (2 e es skip seen)
  show ?case
  proof (cases e)
    case (ITurn t)
    show ?thesis
    proof (cases "seen + 1 \<le> skip")
      case True
      then have "nat (skip - seen) = Suc (nat (skip - (seen + 1)))" by simp
      with True ITurn 2 show ?thesis by simp
    next
      case False
      with "2.prems" have "skip = seen" by simp
      then show ?thesis using ITurn by (simp add: window_loop_past)
    qed
  qed (use 2 in auto)
qed simp

end
