(* ===== verification/Pagination.thy ===== *)
theory Pagination
  imports TranscriptLemmas
begin

text \<open>
  \<open>packages/transcript/src/pagination/paginate.ts\<close>: pages of whole turns over the timeline, and
  the proof that paging from the newest page towards the oldest delivers every item exactly once,
  in order.
\<close>

record turn_page_query =
  query_beforeTurn :: "string option"
  query_afterTurn :: "string option"
  query_pageSize :: int

record turn_page =
  page_items :: "transcript_item list"
  page_hasMore :: bool

record segment =
  seg_items :: "transcript_item list"
  seg_turnId :: "string option"

text \<open>The loop of \<open>splitSegments\<close>: the current unit and its turn, flushed at every turn.\<close>

definition flush_segment :: "transcript_item list \<Rightarrow> string option \<Rightarrow> segment list" where
  "flush_segment current turn = (if current = [] then [] else [\<lparr>seg_items = current, seg_turnId = turn\<rparr>])"

fun split_loop :: "transcript_item list \<Rightarrow> transcript_item list \<Rightarrow> string option \<Rightarrow> segment list" where
  "split_loop [] current turn = flush_segment current turn"
| "split_loop (item # items) current turn =
     (case item of
        ITurn t \<Rightarrow> flush_segment current turn @ split_loop items [item] (Some (turn_turnId t))
      | _ \<Rightarrow> split_loop items (current @ [item]) turn)"

definition splitSegments :: "transcript_item list \<Rightarrow> segment list" where
  "splitSegments items = split_loop items [] None"

definition flatten_segments :: "segment list \<Rightarrow> transcript_item list" where
  "flatten_segments segments = concat (map seg_items segments)"

datatype page_direction = Older | Newer

text \<open>\<open>xs.slice(-n)\<close> and \<open>xs.slice(0, n)\<close>\<close>

definition last_n :: "nat \<Rightarrow> 'a list \<Rightarrow> 'a list" where
  "last_n n xs = drop (length xs - n) xs"

definition page :: "segment list \<Rightarrow> nat \<Rightarrow> page_direction \<Rightarrow> turn_page" where
  "page segments pageSize direction =
     (let head = (case segments of seg # _ \<Rightarrow> if seg_turnId seg = None then Some seg else None
                                 | [] \<Rightarrow> None);
          turnSegments = (if head \<noteq> None then drop 1 segments else segments)
      in case direction of
           Older \<Rightarrow>
             let selected = last_n pageSize turnSegments;
                 reachesFirstTurn = (length selected = length turnSegments)
             in \<lparr>page_items = flatten_segments
                   ((if reachesFirstTurn then (case head of Some h \<Rightarrow> [h] | None \<Rightarrow> []) else []) @ selected),
                 page_hasMore = (length selected < length turnSegments \<and> selected \<noteq> [])\<rparr>
         | Newer \<Rightarrow>
             let selected = take pageSize turnSegments
             in \<lparr>page_items = flatten_segments selected,
                 page_hasMore = (length selected < length turnSegments \<and> selected \<noteq> [])\<rparr>)"

text \<open>An empty string is falsy, like an undefined turn id.\<close>

definition has_turn :: "segment \<Rightarrow> bool" where
  "has_turn seg = (case seg_turnId seg of Some i \<Rightarrow> i \<noteq> [] | None \<Rightarrow> False)"

definition paginateTurns :: "transcript_item list \<Rightarrow> turn_page_query \<Rightarrow> turn_page" where
  "paginateTurns items query =
     (let pageSize = nat (max 1 (query_pageSize query));
          segments = splitSegments items
      in if segments = [] then \<lparr>page_items = [], page_hasMore = False\<rparr>
         else case query_afterTurn query of
           Some after \<Rightarrow>
             page (filter (\<lambda>seg. has_turn seg \<and> 0 < compareTurnIds (the (seg_turnId seg)) after) segments)
               pageSize Newer
         | None \<Rightarrow>
             (case query_beforeTurn query of
                Some before \<Rightarrow>
                  page (filter (\<lambda>seg. \<not> has_turn seg \<or> compareTurnIds (the (seg_turnId seg)) before < 0) segments)
                    pageSize Older
              | None \<Rightarrow> page segments pageSize Older))"

section \<open>Segments\<close>

lemma flatten_split_loop: "flatten_segments (split_loop items current turn) = current @ items"
  by (induction items current turn rule: split_loop.induct)
    (auto simp: flatten_segments_def flush_segment_def split: transcript_item.splits)

lemma flatten_splitSegments: "flatten_segments (splitSegments items) = items"
  by (simp add: splitSegments_def flatten_split_loop)

definition turn_segment :: "segment \<Rightarrow> bool" where
  "turn_segment seg \<longleftrightarrow>
     (\<exists>t rest. seg_items seg = ITurn t # rest \<and> seg_turnId seg = Some (turn_turnId t) \<and> turns rest = [])"

lemma split_loop_shape:
  "turns (tl current) = [] \<Longrightarrow>
   (\<exists>t rest. current = ITurn t # rest \<and> turn = Some (turn_turnId t)) \<or> (turn = None \<and> turns current = []) \<Longrightarrow>
   \<exists>head segs. split_loop items current turn = head @ segs
     \<and> (\<forall>seg\<in>set segs. turn_segment seg)
     \<and> map (\<lambda>seg. the (seg_turnId seg)) segs
        = (if turn = None then [] else [the turn]) @ map turn_turnId (turns items)
     \<and> (if turn = None then length head \<le> 1 \<and> (\<forall>h\<in>set head. seg_turnId h = None) else head = [])"
proof (induction items current turn rule: split_loop.induct)
  case (1 current turn)
  show ?case
  proof (cases "turn = None")
    case True
    then show ?thesis
      by (intro exI [of _ "flush_segment current turn"] exI [of _ "[]"]) (simp add: flush_segment_def)
  next
    case False
    with 1 obtain t rest where c: "current = ITurn t # rest" "turn = Some (turn_turnId t)" by auto
    with 1 have "turn_segment \<lparr>seg_items = current, seg_turnId = turn\<rparr>"
      by (simp add: turn_segment_def)
    with c show ?thesis
      by (intro exI [of _ "[]"] exI [of _ "flush_segment current turn"]) (simp add: flush_segment_def)
  qed
next
  case (2 item items current turn)
  show ?case
  proof (cases "\<exists>t. item = ITurn t")
    case True
    then obtain t where item: "item = ITurn t" by blast
    obtain head segs where IH: "split_loop items [item] (Some (turn_turnId t)) = head @ segs"
      "\<forall>seg\<in>set segs. turn_segment seg"
      "map (\<lambda>seg. the (seg_turnId seg)) segs = turn_turnId t # map turn_turnId (turns items)" "head = []"
      using 2(1) [of t] item by fastforce
    show ?thesis
    proof (cases "turn = None")
      case True
      with IH item show ?thesis
        by (intro exI [of _ "flush_segment current turn"] exI [of _ segs]) (simp add: flush_segment_def)
    next
      case False
      with 2 obtain u rest where c: "current = ITurn u # rest" "turn = Some (turn_turnId u)" by auto
      with 2 have "turn_segment \<lparr>seg_items = current, seg_turnId = turn\<rparr>"
        by (simp add: turn_segment_def)
      with IH item c show ?thesis
        by (intro exI [of _ "[]"] exI [of _ "flush_segment current turn @ segs"])
          (simp add: flush_segment_def)
    qed
  next
    case False
    then have nt: "turns (item # items) = turns items" "turns [item] = []"
      and step: "split_loop (item # items) current turn = split_loop items (current @ [item]) turn"
      by (cases item; simp)+
    have "turns (tl (current @ [item])) = []"
      using 2(4) nt(2) by (cases current) simp_all
    moreover have "(\<exists>t rest. current @ [item] = ITurn t # rest \<and> turn = Some (turn_turnId t))
        \<or> (turn = None \<and> turns (current @ [item]) = [])"
      using 2(5) nt(2) by auto
    ultimately show ?thesis
      unfolding step nt(1) using 2(2,3) False by (cases item) blast+
  qed
qed

lemma splitSegments_shape:
  obtains head segs where "splitSegments items = head @ segs" "\<forall>seg\<in>set segs. turn_segment seg"
    "map (\<lambda>seg. the (seg_turnId seg)) segs = map turn_turnId (turns items)"
    "length head \<le> 1" "\<forall>h\<in>set head. seg_turnId h = None"
  using split_loop_shape [of "[]" None items] by (fastforce simp: splitSegments_def)

section \<open>Pages towards older turns\<close>

text \<open>The pages a reader collects by following the first turn of each page, oldest first.\<close>

definition first_turn :: "transcript_item list \<Rightarrow> string option" where
  "first_turn items = (case turns items of t # _ \<Rightarrow> Some (turn_turnId t) | [] \<Rightarrow> None)"

fun walk_older :: "nat \<Rightarrow> transcript_item list \<Rightarrow> int \<Rightarrow> string option \<Rightarrow> transcript_item list list" where
  "walk_older 0 items pageSize cursor = []"
| "walk_older (Suc fuel) items pageSize cursor =
     (let p = paginateTurns items \<lparr>query_beforeTurn = cursor, query_afterTurn = None, query_pageSize = pageSize\<rparr>
      in if page_hasMore p then walk_older fuel items pageSize (first_turn (page_items p)) @ [page_items p]
         else [page_items p])"

lemma page_older:
  assumes "\<forall>seg\<in>set segs. turn_segment seg" "length head \<le> 1" "\<forall>h\<in>set head. seg_turnId h = None" "0 < n"
  shows "page (head @ segs) n Older =
     (if length segs \<le> n then \<lparr>page_items = flatten_segments (head @ segs), page_hasMore = False\<rparr>
      else \<lparr>page_items = flatten_segments (last_n n segs), page_hasMore = True\<rparr>)"
proof -
  have segs: "seg_turnId seg \<noteq> None" if "seg \<in> set segs" for seg
    using assms(1) that by (auto simp: turn_segment_def)
  consider (none) "head = []" | (one) h where "head = [h]" "seg_turnId h = None"
    using assms(2,3) by (cases head) auto
  then show ?thesis
  proof cases
    case none
    have "(case segs of seg # _ \<Rightarrow> if seg_turnId seg = None then Some seg else None | [] \<Rightarrow> None) = None"
      using segs by (cases segs) auto
    with none show ?thesis using assms(4)
      by (cases segs) (auto simp: page_def Let_def last_n_def flatten_segments_def)
  next
    case one
    then show ?thesis using assms(4)
      by (auto simp: page_def Let_def last_n_def flatten_segments_def)
  qed
qed

text \<open>Turn ids that are not empty and whose ordinals increase along the timeline.\<close>

definition paging_order :: "transcript_item list \<Rightarrow> bool" where
  "paging_order items \<longleftrightarrow>
     sorted_wrt (<) (map (\<lambda>t. turnOrdinal (turn_turnId t)) (turns items)) \<and>
     (\<forall>t\<in>set (turns items). turn_turnId t \<noteq> [])"

lemma filter_older:
  fixes f :: "'a \<Rightarrow> 'b::linorder"
  assumes sorted: "sorted_wrt (<) (map f segs)" and k: "k < length segs" and x: "f (segs ! k) = x"
  shows "filter (\<lambda>seg. f seg < x) segs = take k segs"
  using assms
proof (induction segs arbitrary: k)
  case (Cons seg segs)
  show ?case
  proof (cases k)
    case 0
    with Cons.prems have "\<forall>s\<in>set segs. \<not> f s < x" by (auto dest: less_asym)
    with 0 Cons.prems show ?thesis by (simp add: filter_empty_conv)
  next
    case (Suc j)
    with Cons.prems have "f seg < x" by (auto simp: nth_mem)
    with Suc Cons show ?thesis by simp
  qed
qed simp

definition seg_rank :: "segment \<Rightarrow> number" where
  "seg_rank seg = turnOrdinal (the (seg_turnId seg))"

lemma paginate_older:
  assumes shape: "splitSegments items = head @ segs" "\<forall>seg\<in>set segs. turn_segment seg"
      "map (\<lambda>seg. the (seg_turnId seg)) segs = map turn_turnId (turns items)"
      "length head \<le> 1" "\<forall>h\<in>set head. seg_turnId h = None"
    and order: "paging_order items"
    and cursor: "case cursor of None \<Rightarrow> k = length segs
                 | Some i \<Rightarrow> k < length segs \<and> seg_turnId (segs ! k) = Some i"
  shows "paginateTurns items \<lparr>query_beforeTurn = cursor, query_afterTurn = None, query_pageSize = n\<rparr>
       = page (head @ take k segs) (nat (max 1 n)) Older"
proof (cases cursor)
  case None
  with cursor shape(1) show ?thesis
    by (auto simp: paginateTurns_def Let_def page_def flatten_segments_def last_n_def)
next
  case (Some i)
  with cursor have k: "k < length segs" "seg_turnId (segs ! k) = Some i" by auto
  have "map seg_rank segs = map (\<lambda>t. turnOrdinal (turn_turnId t)) (turns items)"
    using arg_cong [OF shape(3), of "map turnOrdinal"] by (simp add: seg_rank_def [abs_def] comp_def)
  with order have sorted: "sorted_wrt (<) (map seg_rank segs)" by (simp add: paging_order_def)
  have ids: "has_turn seg" if "seg \<in> set segs" for seg
  proof -
    have "the (seg_turnId seg) \<in> set (map (\<lambda>seg. the (seg_turnId seg)) segs)" using that by simp
    then have "the (seg_turnId seg) \<in> set (map turn_turnId (turns items))" by (simp only: shape(3))
    with order have "the (seg_turnId seg) \<noteq> []" by (auto simp: paging_order_def)
    with shape(2) that show ?thesis by (auto simp: has_turn_def turn_segment_def)
  qed
  have "filter (\<lambda>seg. \<not> has_turn seg \<or> compareTurnIds (the (seg_turnId seg)) i < 0) segs
      = filter (\<lambda>seg. seg_rank seg < seg_rank (segs ! k)) segs"
    using ids k(2) by (intro filter_cong) (auto simp: compareTurnIds_def seg_rank_def)
  also have "\<dots> = take k segs"
    using filter_older [OF sorted k(1) refl] .
  finally have "filter (\<lambda>seg. \<not> has_turn seg \<or> compareTurnIds (the (seg_turnId seg)) i < 0) (head @ segs)
      = head @ take k segs"
    using shape(5) by (auto simp: has_turn_def)
  moreover have "head @ segs \<noteq> []" using k(1) by auto
  ultimately show ?thesis
    unfolding paginateTurns_def Let_def by (simp only: shape(1) Some turn_page_query.simps option.case if_False)
qed

lemma flatten_append: "flatten_segments (xs @ ys) = flatten_segments xs @ flatten_segments ys"
  by (simp add: flatten_segments_def)

lemma first_turn_flatten:
  "turn_segment seg \<Longrightarrow> first_turn (flatten_segments (seg # segs)) = seg_turnId seg"
  by (auto simp: turn_segment_def flatten_segments_def first_turn_def)

lemma walk_older_prefix:
  assumes shape: "splitSegments items = head @ segs" "\<forall>seg\<in>set segs. turn_segment seg"
      "map (\<lambda>seg. the (seg_turnId seg)) segs = map turn_turnId (turns items)"
      "length head \<le> 1" "\<forall>h\<in>set head. seg_turnId h = None"
    and order: "paging_order items"
  shows "(case cursor of None \<Rightarrow> k = length segs
          | Some i \<Rightarrow> k < length segs \<and> seg_turnId (segs ! k) = Some i) \<Longrightarrow> k < fuel \<Longrightarrow>
     concat (walk_older fuel items n cursor) = flatten_segments (head @ take k segs)"
proof (induction fuel arbitrary: k cursor)
  case (Suc fuel)
  let ?n = "nat (max 1 n)"
  have kl: "k \<le> length segs" using Suc.prems(1) by (auto split: option.splits)
  have "\<forall>seg\<in>set (take k segs). turn_segment seg" using shape(2) by (auto dest: in_set_takeD)
  note p = paginate_older [OF shape order Suc.prems(1), of n]
    page_older [OF this shape(4,5), of ?n]
  show ?case
  proof (cases "k \<le> ?n")
    case True
    then show ?thesis using kl by (simp add: Let_def p min_absorb2)
  next
    case False
    let ?j = "k - ?n"
    have j: "?j < k" "?j < length segs" "?j < fuel" using False Suc.prems(2) kl by auto
    have last: "last_n ?n (take k segs) = drop ?j (take k segs)" using kl by (simp add: last_n_def min_absorb2)
    then have d: "last_n ?n (take k segs) = segs ! ?j # drop (Suc ?j) (take k segs)"
      using j kl by (simp add: Cons_nth_drop_Suc [symmetric] min_absorb2)
    have seg: "turn_segment (segs ! ?j)" using shape(2) j(2) by simp
    then obtain i where i: "seg_turnId (segs ! ?j) = Some i" by (auto simp: turn_segment_def)
    have "concat (walk_older fuel items n (Some i)) = flatten_segments (head @ take ?j segs)"
      by (rule Suc.IH) (use i j in auto)
    moreover have "first_turn (flatten_segments (last_n ?n (take k segs))) = Some i"
      unfolding d using first_turn_flatten [OF seg] i by simp
    moreover have "flatten_segments (head @ take ?j segs) @ flatten_segments (last_n ?n (take k segs))
        = flatten_segments (head @ take k segs)"
      unfolding flatten_append [symmetric] last append_assoc
      by (metis append_take_drop_id less_imp_le_nat j(1) min_absorb1 take_take)
    ultimately show ?thesis using False kl by (simp add: Let_def p min_absorb2)
  qed
qed simp

lemma walk_older_all:
  assumes "paging_order items" "length (turns items) < fuel"
  shows "concat (walk_older fuel items n None) = items"
proof -
  obtain head segs where shape: "splitSegments items = head @ segs" "\<forall>seg\<in>set segs. turn_segment seg"
    "map (\<lambda>seg. the (seg_turnId seg)) segs = map turn_turnId (turns items)"
    "length head \<le> 1" "\<forall>h\<in>set head. seg_turnId h = None"
    by (rule splitSegments_shape)
  have len: "length segs = length (turns items)" using arg_cong [OF shape(3), of length] by simp
  have "concat (walk_older fuel items n None) = flatten_segments (head @ take (length segs) segs)"
    using walk_older_prefix [OF shape assms(1), where cursor = None and k = "length segs" and fuel = fuel and n = n] assms(2) len by simp
  also have "\<dots> = items" using shape(1) flatten_splitSegments [of items] by simp
  finally show ?thesis .
qed

end
