(* ===== verification/Granularity.thy ===== *)
theory Granularity
  imports TranscriptStore
begin

text \<open>
  \<open>packages/transcript/src/granularity\<close>: the subscription grades, the clipping of the operation
  stream and of reset snapshots, and the proof that a \<open>turn\<close>-grade replica fed with the clipped
  stream tracks the producer's state up to the detail the grade hides.
\<close>

datatype transcript_grade = GradeOff | GradeTurn | GradeBlock | GradeDelta

fun GRADE_RANK :: "transcript_grade \<Rightarrow> nat" where
  "GRADE_RANK GradeOff = 0"
| "GRADE_RANK GradeTurn = 1"
| "GRADE_RANK GradeBlock = 2"
| "GRADE_RANK GradeDelta = 3"

type_synonym grade_spec = "(string, transcript_grade option) jsmap"

definition spec_entry :: "grade_spec \<Rightarrow> string \<Rightarrow> transcript_grade option" where
  "spec_entry spec k = Option.bind (jm_get spec k) id"

definition gradeFor :: "grade_spec option \<Rightarrow> agent_id \<Rightarrow> transcript_grade" where
  "gradeFor spec agentId =
     (case spec of
        None \<Rightarrow> GradeOff
      | Some sp \<Rightarrow>
          (case coalesce (spec_entry sp agentId) (spec_entry sp ''*'') of
             Some g \<Rightarrow> g | None \<Rightarrow> GradeOff))"

definition needsResetOnTransition :: "transcript_grade \<Rightarrow> transcript_grade \<Rightarrow> bool" where
  "needsResetOnTransition prev next \<longleftrightarrow> GRADE_RANK prev < GRADE_RANK next"

fun detach_loop :: "string list \<Rightarrow> grade_spec \<Rightarrow> grade_spec" where
  "detach_loop [] next = next"
| "detach_loop (i # is) next =
     detach_loop is (if i = ''*'' then jm_delete ''*'' next else jm_set i (Some GradeOff) next)"

definition detachGrades :: "grade_spec option \<Rightarrow> string list \<Rightarrow> grade_spec option" where
  "detachGrades spec agentIds =
     (case spec of
        None \<Rightarrow> None
      | Some sp \<Rightarrow>
          let next = detach_loop agentIds sp in
          if \<exists>g \<in> set (jm_values next). g \<noteq> None \<and> g \<noteq> Some GradeOff then Some next else None)"

definition admits :: "transcript_grade \<Rightarrow> transcript_op \<Rightarrow> bool" where
  "admits grade op =
     (case op of
        Append _ \<Rightarrow> GRADE_RANK GradeDelta \<le> GRADE_RANK grade
      | StepUpsert _ _ \<Rightarrow> GRADE_RANK GradeBlock \<le> GRADE_RANK grade
      | FrameUpsert _ _ _ \<Rightarrow> GRADE_RANK GradeBlock \<le> GRADE_RANK grade
      | _ \<Rightarrow> True)"

definition filterOpsForGrade :: "transcript_grade \<Rightarrow> transcript_op list \<Rightarrow> transcript_op list" where
  "filterOpsForGrade grade ops = (if GRADE_RANK grade = 0 then [] else filter (admits grade) ops)"

definition isAppendOnly :: "transcript_op list \<Rightarrow> bool" where
  "isAppendOnly ops \<longleftrightarrow> 0 < length ops \<and> list_all is_append ops"

fun strip_item :: "transcript_item \<Rightarrow> transcript_item" where
  "strip_item (ITurn t) = ITurn (t\<lparr>turn_steps := []\<rparr>)"
| "strip_item e = e"

definition redactSnapshotForGrade :: "transcript_grade \<Rightarrow> agent_snapshot \<Rightarrow> agent_snapshot" where
  "redactSnapshotForGrade grade snap =
     (if GRADE_RANK GradeBlock \<le> GRADE_RANK grade then snap
      else snap\<lparr>snap_items := map strip_item (snap_items snap)\<rparr>)"

section \<open>Grades of a spec\<close>

lemma spec_entry_detach:
  "spec_entry (detach_loop ids sp) a =
     (if a \<in> set ids then (if a = ''*'' then None else Some GradeOff) else spec_entry sp a)"
  by (induction ids sp rule: detach_loop.induct) (auto simp: spec_entry_def)

lemma jm_ok_detach: "jm_ok sp \<Longrightarrow> jm_ok (detach_loop ids sp)"
  by (induction ids sp rule: detach_loop.induct) (auto simp: jm_ok_set jm_ok_delete)

lemma gradeFor_collapsed:
  assumes "jm_ok sp" "\<not> (\<exists>g \<in> set (jm_values sp). g \<noteq> None \<and> g \<noteq> Some GradeOff)"
  shows "gradeFor (Some sp) a = GradeOff"
proof -
  have "spec_entry sp k \<in> {None, Some GradeOff}" for k
  proof (cases "jm_get sp k")
    case (Some g)
    then have "g \<in> set (jm_values sp)" using jm.vals_set [OF assms(1)] by blast
    with assms(2) Some show ?thesis by (auto simp: spec_entry_def)
  qed (simp add: spec_entry_def)
  from this [of a] this [of "''*''"] show ?thesis by (auto simp: gradeFor_def)
qed

lemma gradeFor_detach:
  assumes "jm_ok sp" "a \<noteq> ''*''"
  shows "gradeFor (detachGrades (Some sp) ids) a =
     (if a \<in> set ids then GradeOff
      else case spec_entry sp a of
             Some g \<Rightarrow> g
           | None \<Rightarrow> if ''*'' \<in> set ids then GradeOff else gradeFor (Some sp) ''*'')"
proof -
  have "gradeFor (detachGrades (Some sp) ids) a = gradeFor (Some (detach_loop ids sp)) a"
    using gradeFor_collapsed [OF jm_ok_detach [OF assms(1)], of ids a]
    by (auto simp: detachGrades_def Let_def gradeFor_def)
  also have "\<dots> = (if a \<in> set ids then GradeOff
      else case spec_entry sp a of
             Some g \<Rightarrow> g
           | None \<Rightarrow> if ''*'' \<in> set ids then GradeOff else gradeFor (Some sp) ''*'')"
    using assms(2) by (auto simp: gradeFor_def spec_entry_detach split: option.splits)
  finally show ?thesis .
qed

section \<open>The turn view of a state\<close>

definition erase_tail :: "transcript_task \<Rightarrow> transcript_task" where
  "erase_tail t = t\<lparr>task_outputTail := []\<rparr>"

definition turn_view :: "agent_state \<Rightarrow> agent_state \<Rightarrow> bool" where
  "turn_view s c \<longleftrightarrow>
     st_items c = map strip_item (st_items s) \<and>
     map (map_prod id erase_tail) (st_tasks c) = map (map_prod id erase_tail) (st_tasks s) \<and>
     st_interactions c = st_interactions s \<and> st_attachments c = st_attachments s \<and>
     st_todos c = st_todos s \<and> st_prompts c = st_prompts s \<and> st_meta c = st_meta s \<and>
     st_pending c = st_pending s \<and> st_hasMoreOlder c = st_hasMoreOlder s"

definition redact_op :: "transcript_grade \<Rightarrow> transcript_op \<Rightarrow> transcript_op" where
  "redact_op grade op =
     (case op of Reset a snap \<Rightarrow> Reset a (redactSnapshotForGrade grade snap) | _ \<Rightarrow> op)"

definition turn_step :: "agent_state \<Rightarrow> transcript_op \<Rightarrow> agent_state" where
  "turn_step c op =
     (if admits GradeTurn op then res_state (applyOperation c (redact_op GradeTurn op)) else c)"

text \<open>
  The producer's causal order: a turn's header precedes its steps and frames, a task's entity its
  output, one reference names one usage object, and no interaction is anchored inside a turn that
  is removed.
\<close>

definition causal :: "agent_state \<Rightarrow> transcript_op \<Rightarrow> bool" where
  "causal s op =
     (case op of
        StepUpsert tid _ \<Rightarrow> getTurn (st_items s) tid \<noteq> None
      | FrameUpsert tid _ _ \<Rightarrow> getTurn (st_items s) tid \<noteq> None
      | TaskUpsert t \<Rightarrow>
          (case jm_get (st_tasks s) (task_taskId t) of
             Some w \<Rightarrow> obj_same (task_usage w) (task_usage t) \<longrightarrow> task_usage w = task_usage t
           | None \<Rightarrow> True)
      | Append a \<Rightarrow> (case append_target a of TargetTask i \<Rightarrow> jm_get (st_tasks s) i \<noteq> None | _ \<Rightarrow> True)
      | ItemsRemove ids \<Rightarrow>
          (\<forall>t \<in> set (turns (st_items s)). turn_turnId t \<in> set ids \<longrightarrow>
             \<not> (\<exists>i \<in> set (jm_values (st_interactions s)). anchored_in (turn_tool_call_ids t) i))
      | _ \<Rightarrow> True)"

lemma strip_itemId [simp]: "itemId (strip_item e) = itemId e"
  by (cases e) auto

lemma turns_strip [simp]: "turns (map strip_item items) = map (\<lambda>t. t\<lparr>turn_steps := []\<rparr>) (turns items)"
proof (induction items)
  case (Cons e items)
  then show ?case by (cases e) auto
qed simp

lemma getTurn_strip:
  "getTurn (map strip_item items) i = map_option (\<lambda>t. t\<lparr>turn_steps := []\<rparr>) (getTurn items i)"
  by (simp add: getTurn_turns find_cong_map)

lemma turnEquals_strip [simp]: "turnEquals (t\<lparr>turn_steps := []\<rparr>) h = turnEquals t h"
  by (simp add: turnEquals_def)

lemma strip_turnHeaderToTurn [simp]: "turnHeaderToTurn h steps\<lparr>turn_steps := []\<rparr> = turnHeaderToTurn h []"
  by (simp add: turnHeaderToTurn_def turn_header.defs transcript_turn.defs)

lemma insert_before_map:
  "(\<And>e. P (f e) = P e) \<Longrightarrow> map f (insert_before P x xs) = insert_before P (f x) (map f xs)"
  by (induction xs) auto

lemma strip_insertTurn:
  "map strip_item (insertTurn items t) = insertTurn (map strip_item items) (t\<lparr>turn_steps := []\<rparr>)"
proof -
  have "turn_after n (strip_item e) = turn_after n e" for n e by (cases e) auto
  then show ?thesis by (simp add: insertTurn_def insert_before_map)
qed

lemma strip_replaceTurn:
  "(\<And>t. f t\<lparr>turn_steps := []\<rparr> = g (t\<lparr>turn_steps := []\<rparr>)) \<Longrightarrow>
   map strip_item (replaceTurn items i f) = replaceTurn (map strip_item items) i g"
  by (auto simp: replaceTurn_def split: transcript_item.splits)

text \<open>Writing steps into an existing turn is invisible in the turn view.\<close>

lemma strip_put_steps:
  assumes "wf_items items" "getTurn items i = Some t"
  shows "map strip_item (replaceTurn items i (\<lambda>_. t\<lparr>turn_steps := steps\<rparr>)) = map strip_item items"
proof -
  have "u = t" if "ITurn u \<in> set items" "turn_turnId u = i" for u
    using assms that unfolding wf_items_def distinct_map inj_on_def
    by (metis getTurn_id getTurn_in set_turns)
  then show ?thesis by (auto simp: replaceTurn_def split: transcript_item.splits)
qed

lemma turn_view_hidden:
  "turn_view s c \<Longrightarrow> map strip_item items = map strip_item (st_items s) \<Longrightarrow> turn_view (s\<lparr>st_items := items\<rparr>) c"
  by (simp add: turn_view_def)

lemma turn_view_step_upsert:
  assumes "turn_view s c" "wf_state s" "getTurn (st_items s) tid = Some t"
  shows "turn_view (res_state (applyStepUpsert s tid h)) c"
proof (cases rule: applyStepUpsert_cases [of s tid h])
  case same
  with assms(1) show ?thesis by simp
next
  case (put steps st)
  with assms(3) have "res_state (applyStepUpsert s tid h)
      = s\<lparr>st_items := replaceTurn (st_items s) tid (\<lambda>_. t\<lparr>turn_steps := steps\<rparr>)\<rparr>"
    by (simp add: put_turn_def turn_or_skeleton_def)
  with assms show ?thesis
    by (simp add: turn_view_hidden strip_put_steps wf_state_split)
qed

lemma turn_view_frame_upsert:
  assumes "turn_view s c" "wf_state s" "getTurn (st_items s) tid = Some t"
  shows "turn_view (res_state (applyFrameUpsert s tid sid f)) c"
proof -
  have "turn_view (s\<lparr>st_items := put_turn (st_items s) tid (turn_or_skeleton (st_items s) tid\<lparr>turn_steps := steps\<rparr>)\<rparr>) c"
    for steps
    using assms by (simp add: put_turn_def turn_or_skeleton_def turn_view_hidden strip_put_steps wf_state_split)
  with assms(1) show ?thesis by (auto simp: applyFrameUpsert_def Let_def split: option.splits)
qed

lemma turn_view_frame_append:
  assumes "turn_view s c" "wf_state s"
  shows "turn_view (res_state (applyFrameAppend s tid sid fid op)) c"
proof (cases "lookup_frame (st_items s) tid sid fid")
  case None
  with assms(1) show ?thesis by (simp add: applyFrameAppend_def)
next
  case (Some r)
  obtain t st f x where r: "r = (t, st, f, x)" by (cases r)
  have "turn_view (s\<lparr>st_items := replaceTurn (st_items s) tid (\<lambda>_. t\<lparr>turn_steps := steps\<rparr>)\<rparr>) c" for steps
    using assms lookup_frameD(1) [OF Some [unfolded r]]
    by (simp add: turn_view_hidden strip_put_steps wf_state_split)
  with assms(1) Some r show ?thesis by (auto simp: applyFrameAppend_def Let_def split: option.splits)
qed

lemma jm_set_erase:
  "map (map_prod id erase_tail) (jm_set k t m) = jm_set k (erase_tail t) (map (map_prod id erase_tail) m)"
  by (induction k t m rule: jm_set.induct) auto

lemma jm_get_erase: "jm_get (map (map_prod id erase_tail) m) k = map_option erase_tail (jm_get m k)"
  unfolding jm_get_def by (induction m) auto

lemma turn_view_task_append:
  assumes "turn_view s c" "jm_get (st_tasks s) i \<noteq> None"
  shows "turn_view (res_state (applyTaskAppend s i op)) c"
proof -
  obtain t where t: "jm_get (st_tasks s) i = Some t" using assms(2) by blast
  have "erase_tail (t\<lparr>task_outputTail := x\<rparr>) = erase_tail t" for x by (simp add: erase_tail_def)
  moreover have "jm_set i (erase_tail t) (map (map_prod id erase_tail) (st_tasks s))
      = map (map_prod id erase_tail) (st_tasks s)"
    by (rule jm_set_same) (simp add: jm_get_erase t)
  ultimately have "map (map_prod id erase_tail) (jm_set i (t\<lparr>task_outputTail := x\<rparr>) (st_tasks s))
      = map (map_prod id erase_tail) (st_tasks s)" for x
    by (simp add: jm_set_erase)
  with assms(1) t show ?thesis
    by (auto simp: applyTaskAppend_def Let_def turn_view_def split: option.splits)
qed

lemma turn_view_turn_upsert:
  assumes "turn_view s c"
  shows "turn_view (res_state (applyTurnUpsert s h)) (res_state (applyTurnUpsert c h))"
proof -
  have items: "st_items c = map strip_item (st_items s)" using assms by (simp add: turn_view_def)
  have rep: "map strip_item (replaceTurn (st_items s) (turn_turnId h) (\<lambda>t. turnHeaderToTurn h (turn_steps t)))
      = replaceTurn (map strip_item (st_items s)) (turn_turnId h) (\<lambda>t. turnHeaderToTurn h (turn_steps t))"
    by (rule strip_replaceTurn) simp
  from assms rep show ?thesis
    by (auto simp: applyTurnUpsert_def items getTurn_strip turn_view_def strip_insertTurn split: option.splits)
qed

lemma turn_view_item_upsert:
  assumes "turn_view s c" "\<not> is_turn item"
  shows "turn_view (res_state (applyItemUpsert s item i b)) (res_state (applyItemUpsert c item i b))"
proof -
  have items: "st_items c = map strip_item (st_items s)" using assms by (simp add: turn_view_def)
  have same: "item_same (strip_item e) item = item_same e item" for e
    using assms(2) by (cases e; cases item) auto
  have item: "strip_item item = item" using assms(2) by (cases item) auto
  have at: "turn_at_or_after n (strip_item e) = turn_at_or_after n e" for n e by (cases e) auto
  show ?thesis
    using assms(1)
    by (auto simp: applyItemUpsert_def items turn_view_def same item insert_before_map at
        split: option.splits)
qed

lemma taskEquals_erase:
  assumes "taskEquals w t" "task_taskId w = task_taskId t" "task_usage w = task_usage t"
  shows "erase_tail w = erase_tail t"
  using assms by (cases w; cases t) (auto simp: taskEquals_def erase_tail_def)

lemma task_upsert_erase:
  assumes "jm_keyed task_taskId (st_tasks x)"
    and "\<And>w. jm_get (st_tasks x) (task_taskId t) = Some w \<Longrightarrow> obj_same (task_usage w) (task_usage t) \<Longrightarrow>
      task_usage w = task_usage t"
  shows "map (map_prod id erase_tail) (st_tasks (res_state (applyTaskUpsert x t)))
      = jm_set (task_taskId t) (erase_tail t) (map (map_prod id erase_tail) (st_tasks x))"
proof (cases "\<exists>w. jm_get (st_tasks x) (task_taskId t) = Some w \<and> taskEquals w t")
  case True
  then obtain w where w: "jm_get (st_tasks x) (task_taskId t) = Some w" "taskEquals w t" by blast
  have "erase_tail w = erase_tail t"
    using w assms(2) [OF w(1)] jm_keyed_get [OF assms(1) w(1)]
    by (intro taskEquals_erase) (auto simp: taskEquals_def)
  with w(1) have "jm_set (task_taskId t) (erase_tail t) (map (map_prod id erase_tail) (st_tasks x))
      = map (map_prod id erase_tail) (st_tasks x)"
    by (intro jm_set_same) (simp add: jm_get_erase)
  with w show ?thesis by (simp add: applyTaskUpsert_def)
next
  case False
  then show ?thesis by (auto simp: applyTaskUpsert_def jm_set_erase split: option.splits)
qed

lemma jm_keyed_erase:
  "jm_keyed task_taskId (map (map_prod id erase_tail) m) = jm_keyed task_taskId m"
  by (induction m) (auto simp: jm_keyed_def erase_tail_def)

lemma task_upsert_fields:
  "\<exists>ts. res_state (applyTaskUpsert x t) = x\<lparr>st_tasks := ts\<rparr>"
  by (auto simp: applyTaskUpsert_def split: option.splits) (metis agent_state.surjective agent_state.update_convs(2))+

lemma turn_view_task_upsert:
  assumes view: "turn_view s c" and keyed: "jm_keyed task_taskId (st_tasks s)"
    and coherent: "\<And>w. jm_get (st_tasks s) (task_taskId t) = Some w \<Longrightarrow>
      obj_same (task_usage w) (task_usage t) \<Longrightarrow> task_usage w = task_usage t"
  shows "turn_view (res_state (applyTaskUpsert s t)) (res_state (applyTaskUpsert c t))"
proof -
  have tasks: "map (map_prod id erase_tail) (st_tasks c) = map (map_prod id erase_tail) (st_tasks s)"
    using view by (simp add: turn_view_def)
  have keyed_c: "jm_keyed task_taskId (st_tasks c)"
    using keyed tasks jm_keyed_erase by metis
  have coherent_c: "task_usage w = task_usage t"
    if "jm_get (st_tasks c) (task_taskId t) = Some w" "obj_same (task_usage w) (task_usage t)" for w
  proof -
    have "map_option erase_tail (jm_get (st_tasks s) (task_taskId t)) = Some (erase_tail w)"
      using that(1) tasks by (metis jm_get_erase option.map(2))
    then obtain u where u: "jm_get (st_tasks s) (task_taskId t) = Some u" "erase_tail u = erase_tail w" by auto
    then have "task_usage u = task_usage w" by (cases u; cases w) (simp add: erase_tail_def)
    with coherent [OF u(1)] that(2) show ?thesis by simp
  qed
  obtain ts where ts: "res_state (applyTaskUpsert s t) = s\<lparr>st_tasks := ts\<rparr>" using task_upsert_fields by blast
  obtain tc where tc: "res_state (applyTaskUpsert c t) = c\<lparr>st_tasks := tc\<rparr>" using task_upsert_fields by blast
  have "map (map_prod id erase_tail) ts = map (map_prod id erase_tail) tc"
    using task_upsert_erase [OF keyed coherent] task_upsert_erase [OF keyed_c coherent_c] tasks ts tc by simp
  with view ts tc show ?thesis by (simp add: turn_view_def)
qed

lemma turn_view_reset: "turn_view (res_state (applyReset s snap)) (res_state (applyReset c (redactSnapshotForGrade GradeTurn snap)))"
  by (simp add: applyReset_def Let_def turn_view_def redactSnapshotForGrade_def)

lemma anchored_in_empty [simp]: "\<not> anchored_in [] i"
  by (simp add: anchored_in_def split: option.splits)

lemma filter_strip: "filter (\<lambda>e. itemId e \<notin> S) (map strip_item items) = map strip_item (filter (\<lambda>e. itemId e \<notin> S) items)"
  by (induction items) auto

lemma tool_call_ids_strip: "turn_tool_call_ids (t\<lparr>turn_steps := []\<rparr>) = []"
  by (simp add: turn_tool_call_ids_def)

lemma items_remove_no_anchor:
  assumes "\<And>t i. t \<in> set (turns (st_items x)) \<Longrightarrow> turn_turnId t \<in> set ids \<Longrightarrow>
      i \<in> set (jm_values (st_interactions x)) \<Longrightarrow> \<not> anchored_in (turn_tool_call_ids t) i"
  shows "res_state (applyItemsRemove x ids) = x\<lparr>st_items := filter (\<lambda>e. itemId e \<notin> set ids) (st_items x)\<rparr>"
proof -
  let ?rem = "filter (\<lambda>t. turn_turnId t \<in> set ids) (List.map_filter the_turn (st_items x))"
  have "\<not> anchored_in (concat (map turn_tool_call_ids ?rem)) i" if "i \<in> set (jm_values (st_interactions x))" for i
    using assms [OF _ _ that] by (auto simp: anchored_in_def turns_def split: option.splits)
  then have none: "filter (anchored_in (concat (map turn_tool_call_ids ?rem))) (jm_values (st_interactions x)) = []"
    by (simp add: filter_empty_conv)
  have same: "x\<lparr>st_items := filter (\<lambda>e. itemId e \<notin> set ids) (st_items x)\<rparr> = x"
    if "length (filter (\<lambda>e. itemId e \<notin> set ids) (st_items x)) = length (st_items x)"
    using that by (simp add: filter_length_eq_iff)
  show ?thesis
    by (simp add: applyItemsRemove_def Let_def none same)
qed

lemma turn_view_items_remove:
  assumes "turn_view s c" "causal s (ItemsRemove ids)"
  shows "turn_view (res_state (applyItemsRemove s ids)) (res_state (applyItemsRemove c ids))"
proof -
  have items: "st_items c = map strip_item (st_items s)" using assms(1) by (simp add: turn_view_def)
  have "res_state (applyItemsRemove s ids) = s\<lparr>st_items := filter (\<lambda>e. itemId e \<notin> set ids) (st_items s)\<rparr>"
    using assms(2) by (intro items_remove_no_anchor) (auto simp: causal_def)
  moreover have "res_state (applyItemsRemove c ids) = c\<lparr>st_items := filter (\<lambda>e. itemId e \<notin> set ids) (st_items c)\<rparr>"
    by (intro items_remove_no_anchor) (auto simp: items tool_call_ids_strip)
  ultimately show ?thesis using assms(1) by (simp add: turn_view_def filter_strip)
qed

lemma if_meta: "(if b then s else s\<lparr>st_meta := m\<rparr>) = s\<lparr>st_meta := if b then st_meta s else m\<rparr>"
  by simp

lemma meta_merge_only_meta: "\<exists>m'. res_state (applyMetaMerge s m) = s\<lparr>st_meta := m'\<rparr>"
  unfolding applyMetaMerge_def Let_def if_distrib [of res_state] result_simps if_meta
  by (rule exI, rule refl)

lemma st_meta_update: "st_meta (s\<lparr>st_meta := m\<rparr>) = m"
  by simp

lemma meta_merge_meta:
  assumes "st_meta c = st_meta s"
  shows "st_meta (res_state (applyMetaMerge c m)) = st_meta (res_state (applyMetaMerge s m))"
  unfolding applyMetaMerge_def Let_def if_distrib [of res_state] result_simps if_meta st_meta_update assms
  by (rule refl)

lemma turn_view_meta_merge:
  assumes "turn_view s c"
  shows "turn_view (res_state (applyMetaMerge s m)) (res_state (applyMetaMerge c m))"
proof -
  have "st_meta c = st_meta s" using assms by (simp add: turn_view_def)
  note meta = meta_merge_meta [OF this, of m]
  obtain a b where "res_state (applyMetaMerge s m) = s\<lparr>st_meta := a\<rparr>" "res_state (applyMetaMerge c m) = c\<lparr>st_meta := b\<rparr>"
    using meta_merge_only_meta by blast
  with assms meta show ?thesis by (simp add: turn_view_def)
qed

text \<open>One operation, delivered through the grade, keeps the view.\<close>

lemma turn_view_step:
  assumes view: "turn_view s c" and wf: "wf_state s" and causal: "causal s op"
  shows "turn_view (res_state (applyOperation s op)) (turn_step c op)"
proof (cases op)
  case (Reset a snap)
  then show ?thesis using turn_view_reset by (simp add: turn_step_def redact_op_def admits_def)
next
  case (StepUpsert tid h)
  with causal obtain t where "getTurn (st_items s) tid = Some t" by (auto simp: causal_def)
  with StepUpsert view wf show ?thesis
    by (simp add: turn_step_def admits_def turn_view_step_upsert)
next
  case (FrameUpsert tid sid f)
  with causal obtain t where "getTurn (st_items s) tid = Some t" by (auto simp: causal_def)
  with FrameUpsert view wf show ?thesis
    by (simp add: turn_step_def admits_def turn_view_frame_upsert)
next
  case (Append a)
  with causal view wf show ?thesis
    by (auto simp: turn_step_def admits_def causal_def applyAppend_def turn_view_frame_append
        intro: turn_view_task_append split: append_target.splits)
next
  case (MetaMerge m)
  with view show ?thesis by (simp add: turn_step_def admits_def redact_op_def turn_view_meta_merge)
next
  case (TaskUpsert t)
  moreover have "jm_keyed task_taskId (st_tasks s)" using wf by (simp add: wf_state_def)
  ultimately show ?thesis using causal view
    by (auto simp: turn_step_def admits_def redact_op_def causal_def intro!: turn_view_task_upsert)
next
  case (ItemsRemove ids)
  with causal view show ?thesis
    by (simp add: turn_step_def admits_def redact_op_def turn_view_items_remove)
next
  case (InteractionUpsert i)
  then show ?thesis using view
    by (auto simp: turn_step_def admits_def redact_op_def turn_view_def applyInteractionUpsert_def
        put_interaction_def split: option.splits)
next
  case (AttachmentUpsert a)
  then show ?thesis using view
    by (auto simp: turn_step_def admits_def redact_op_def turn_view_def applyAttachmentUpsert_def
        split: option.splits)
next
  case (TodoUpsert t)
  then show ?thesis using view
    by (auto simp: turn_step_def admits_def redact_op_def turn_view_def applyTodoUpsert_def
        split: option.splits)
next
  case (PromptUpsert p)
  then show ?thesis using view
    by (auto simp: turn_step_def admits_def redact_op_def turn_view_def applyPromptUpsert_def
        split: option.splits)
qed (use view in \<open>auto simp: turn_step_def admits_def redact_op_def turn_view_turn_upsert turn_view_item_upsert\<close>)

text \<open>The stream, clipped for the grade and with its resets redacted, is what the client runs.\<close>

fun causal_run :: "agent_state \<Rightarrow> transcript_op list \<Rightarrow> bool" where
  "causal_run s [] = True"
| "causal_run s (op # ops) =
     (op_stable s op \<and> causal s op \<and> causal_run (res_state (applyOperation s op)) ops)"

definition clipped :: "transcript_grade \<Rightarrow> transcript_op list \<Rightarrow> transcript_op list" where
  "clipped g ops = map (redact_op g) (filterOpsForGrade g ops)"

lemma clipped_turn_run: "run_ops c (clipped GradeTurn ops) = foldl turn_step c ops"
  by (induction ops arbitrary: c) (auto simp: clipped_def filterOpsForGrade_def turn_step_def)

lemma clipped_stream_view:
  "turn_view s c \<Longrightarrow> wf_state s \<Longrightarrow> causal_run s ops \<Longrightarrow>
   turn_view (run_ops s ops) (run_ops c (clipped GradeTurn ops))"
  unfolding clipped_turn_run
proof (induction ops arbitrary: s c)
  case (Cons op ops)
  then show ?case by (auto intro!: Cons.IH turn_view_step wf_operation)
qed simp

lemma snapshot_view:
  "turn_view s (res_state (applyReset c (redactSnapshotForGrade GradeTurn snap))) \<longleftrightarrow>
   turn_view s (res_state (applyReset s' (redactSnapshotForGrade GradeTurn snap)))"
  by (simp add: applyReset_def Let_def)

end
