(* ===== verification/TranscriptProps.thy ===== *)
theory TranscriptProps
  imports TranscriptStore Pagination Granularity
begin

text \<open>
  The properties of the transcript package: the reducer, the per-agent store, the roster, paging and
  the subscription grades. Each rests on the lemmas of the component's theory.
\<close>

section \<open>Samples\<close>

definition sample_header :: "turn_state \<Rightarrow> turn_header" where
  "sample_header st =
     \<lparr>turn_turnId = ''t0'', turn_ordinal = 0, turn_state = st, turn_origin = OriginUser JUndef,
      turn_prompt = None, turn_attachmentIds = None, turn_startedAt = None, turn_endedAt = None,
      turn_usage = None, turn_durationMs = None, turn_error = None\<rparr>"

definition sample_tool :: tool_call_frame where
  "sample_tool =
     \<lparr>tc_frameId = ''t0.1.c1'', tc_toolCallId = ''c1'', tc_name = ''bash'', tc_view = None,
      tc_state = ToolRunning, tc_input = JUndef, tc_output = JUndef, tc_display = JUndef,
      tc_error = None, tc_inputText = None, tc_progress = None, tc_taskId = None,
      tc_approvalId = None, tc_todoId = None, tc_agentRefs = None\<rparr>"

definition sample_interaction :: transcript_interaction where
  "sample_interaction =
     \<lparr>int_interactionId = ''i1'', int_interactionKind = InteractionApproval, int_toolCallId = Some ''c1'',
      int_state = IPending, int_request = JUndef, int_response = JUndef\<rparr>"

definition sample_ops :: "transcript_op list" where
  "sample_ops =
     [TurnUpsert (sample_header TurnRunning), FrameUpsert ''t0'' ''t0.1'' (FTool sample_tool),
      InteractionUpsert sample_interaction]"

definition sample_state :: agent_state where
  "sample_state = run_ops EMPTY_AGENT_STATE sample_ops"

lemma run_reachable:
  "reachable s \<Longrightarrow> list_all (\<lambda>op. case op of Reset _ _ \<Rightarrow> False | TurnUpsert _ \<Rightarrow> False | StepUpsert _ _ \<Rightarrow> False | _ \<Rightarrow> True) ops \<Longrightarrow>
   reachable (run_ops s ops)"
proof (induction ops arbitrary: s)
  case (Cons op ops)
  then have "op_stable s op" by (cases op) auto
  with Cons show ?case by (auto intro: reachable.operation)
qed simp

lemma sample_reachable: "reachable sample_state"
proof -
  have "op_stable EMPTY_AGENT_STATE (TurnUpsert (sample_header TurnRunning))"
    by (simp add: EMPTY_AGENT_STATE_def getTurn_def)
  then have "reachable (res_state (applyOperation EMPTY_AGENT_STATE (TurnUpsert (sample_header TurnRunning))))"
    by (rule reachable.operation [OF reachable.start])
  from run_reachable [OF this, of "tl sample_ops"] show ?thesis
    by (simp add: sample_state_def sample_ops_def)
qed

definition sample_agent :: agent_transcript where
  "sample_agent = \<lparr>at_agentId = ''main'', at_state = sample_state, at_listeners = []\<rparr>"

section \<open>Streamed text\<close>

text \<open>Delivery of slices \<open>(offset, length)\<close> of the producer's text, in any order, with repeats.\<close>

definition deliver :: "string \<Rightarrow> (nat \<times> nat) list \<Rightarrow> string \<Rightarrow> string" where
  "deliver full slices local =
     foldl (\<lambda>x (k, n). merged_text (appendAtOffset x (int k) (take n (drop k full)))) local slices"

text \<open>How far the received prefix reaches: a slice extends it unless it starts beyond its end.\<close>

fun covered :: "nat \<Rightarrow> nat \<Rightarrow> (nat \<times> nat) list \<Rightarrow> nat" where
  "covered len m [] = m"
| "covered len m ((k, n) # slices) =
     covered len (if k \<le> m then max m (min len (k + n)) else m) slices"

lemma deliver_covered:
  "m \<le> length full \<Longrightarrow> deliver full slices (take m full) = take (covered (length full) m slices) full"
proof (induction "length full" m slices rule: covered.induct)
  case (2 m k n slices)
  let ?m = "if k \<le> m then max m (min (length full) (k + n)) else m"
  have "merged_text (appendAtOffset (take m full) (int k) (take n (drop k full))) = take ?m full"
    using "2.prems" by (auto simp: appendAtOffset_slice max_def min_def)
  with "2.hyps" "2.prems" show ?case by (simp add: deliver_def)
qed (simp add: deliver_def)

text \<open>
  C16: delivering slices of the producer's text to a client that holds a prefix of it leaves exactly
  the prefix that the slices reach from there: repeats and overlaps change nothing, a slice beyond
  the end is refused, and a chain of slices up to the end gives the whole text.
\<close>

theorem slices_converge:
  assumes "m \<le> length full"
  shows "deliver full slices (take m full) = take (covered (length full) m slices) full"
  using assms by (rule deliver_covered)

theorem slices_converge_witness:
  "deliver ''abcdef'' [(0, 3), (4, 2), (1, 3), (3, 3)] (take 1 ''abcdef'') = ''abcdef''"
  using slices_converge [of 1 "''abcdef''" "[(0, 3), (4, 2), (1, 3), (3, 3)]"] by simp

text \<open>
  placing a chunk at any non-negative offset never loses or alters text that is already there:
  the result extends it, and a chunk that disagrees or lies beyond the end is a gap that changes
  nothing.
\<close>

theorem append_keeps_text:
  "(\<exists>suffix. merged_text (appendAtOffset local (int k) chunk) = local @ suffix)
   \<and> (merged_gap (appendAtOffset local (int k) chunk) = None \<or> merged_text (appendAtOffset local (int k) chunk) = local)
   \<and> (length local < k \<longrightarrow> merged_gap (appendAtOffset local (int k) chunk) = Some (int (length local), int k))"
  using appendAtOffset_extends [of local k chunk] by (auto simp: appendAtOffset_nat)

theorem append_keeps_text_witness:
  "merged_gap (appendAtOffset ''ab'' (int 5) ''c'') = Some (2, 5)"
  using append_keeps_text [of "''ab''" 5 "''c''"] by simp

section \<open>The reducer\<close>

text \<open>
  C21: every operation other than an append absorbs its own duplicate: applying it again leaves the
  state as it is.
\<close>

theorem operation_idempotent:
  assumes "\<not> is_append op"
  shows "res_state (applyOperation (res_state (applyOperation s op)) op) = res_state (applyOperation s op)"
  using assms by (rule duplicate_absorbed)

theorem operation_idempotent_witness:
  "res_state (applyOperation (res_state (applyOperation EMPTY_AGENT_STATE (InteractionUpsert sample_interaction)))
      (InteractionUpsert sample_interaction))
   = res_state (applyOperation EMPTY_AGENT_STATE (InteractionUpsert sample_interaction))"
  by (rule operation_idempotent) (simp add: is_append_def)

text \<open>
  The states a transcript gets into: by operations that leave a known turn or step at its ordinal, and by resets
  to what \<open>snapshot\<close> gives of another such transcript, in any window and redacted for any grade.
\<close>

inductive exchanged :: "agent_state \<Rightarrow> bool" where
  exchanged_start: "exchanged EMPTY_AGENT_STATE"
| exchanged_op: "exchanged s \<Longrightarrow> op_stable s op \<Longrightarrow> (\<forall>a snap. op \<noteq> Reset a snap) \<Longrightarrow> exchanged (res_state (applyOperation s op))"
| exchanged_reset: "exchanged s \<Longrightarrow> exchanged (at_state t) \<Longrightarrow>
    exchanged (res_state (applyOperation s (Reset a (redactSnapshotForGrade grade (at_snapshot t window)))))"

lemma wf_items_turns: "turns items' = drop n (turns items) \<Longrightarrow> wf_items items \<Longrightarrow> wf_items items'"
  unfolding wf_items_def
  by (metis distinct_drop drop_map in_set_dropD sorted_wrt_drop)

lemma wf_items_strip: "wf_items items \<Longrightarrow> wf_items (map strip_item items)"
  by (auto simp: wf_items_def wf_steps_def comp_def)

lemma snapshot_window:
  "\<exists>n. turns (snap_items (at_snapshot t window)) = drop n (turns (st_items (at_state t)))"
proof (cases window)
  case (Some tail)
  let ?skip = "int (length (filter is_turn (st_items (at_state t)))) - tail"
  have "turns (window_loop (st_items (at_state t)) ?skip 0) = drop (nat ?skip) (turns (st_items (at_state t)))" if "0 \<le> ?skip"
    using window_loop_turns [OF that] by simp
  then show ?thesis using Some by (auto simp: at_snapshot_def Let_def intro: exI [of _ 0])
qed (auto simp: at_snapshot_def Let_def intro: exI [of _ 0])

lemma wf_snapshot_taken:
  assumes "wf_state (at_state t)"
  shows "wf_snapshot (redactSnapshotForGrade grade (at_snapshot t window))"
proof -
  have state: "wf_items (st_items (at_state t))" "jm_ok (st_interactions (at_state t))"
    "jm_keyed int_interactionId (st_interactions (at_state t))" using assms by (simp_all add: wf_state_def)
  obtain n where "turns (snap_items (at_snapshot t window)) = drop n (turns (st_items (at_state t)))" using snapshot_window by blast
  then have "wf_items (snap_items (at_snapshot t window))" using state(1) wf_items_turns by blast
  moreover have "distinct (map int_interactionId (snap_interactions (at_snapshot t window)))"
    using state(2,3) jm_keyed_keys by (fastforce simp: at_snapshot_def Let_def jm_ok_def split: prod.split)
  ultimately show ?thesis by (simp add: wf_snapshot_def redactSnapshotForGrade_def wf_items_strip)
qed

text \<open>
  C1: every state a transcript gets into is well formed: ids of turns, steps and frames are distinct, turns and steps
  are in ordinal order, entities sit under their own key, and the pending index is exactly the set of pending
  interactions. The states are those reached from the empty one by operations that do not move a known turn or step to
  another ordinal, and by resets whose snapshot was taken of another such transcript, in any window and at any
  grade; a reset is installed unchecked, so a snapshot from elsewhere must be well formed itself.
\<close>

theorem reachable_well_formed:
  assumes "exchanged s"
  shows "wf_state s"
  using assms
proof (induction rule: exchanged.induct)
  case (exchanged_reset s t a grade window)
  then show ?case using wf_operation [of s "Reset a (redactSnapshotForGrade grade (at_snapshot t window))"] wf_snapshot_taken by simp
qed (simp_all add: wf_empty wf_operation)

lemma run_exchanged:
  "exchanged s \<Longrightarrow> list_all (\<lambda>op. case op of Reset _ _ \<Rightarrow> False | TurnUpsert _ \<Rightarrow> False | StepUpsert _ _ \<Rightarrow> False | _ \<Rightarrow> True) ops \<Longrightarrow>
   exchanged (run_ops s ops)"
proof (induction ops arbitrary: s)
  case (Cons op ops)
  then have "op_stable s op" "\<forall>a snap. op \<noteq> Reset a snap" by (cases op; auto)+
  with Cons show ?case by (auto intro: exchanged_op)
qed simp

text \<open>A second transcript that is reset to the window of the newest turn of the sample\<close>

definition sample_baseline :: agent_state where
  "sample_baseline =
     res_state (applyOperation EMPTY_AGENT_STATE (Reset ''main'' (redactSnapshotForGrade GradeBlock (at_snapshot sample_agent (Some 1)))))"

lemma sample_exchanged: "exchanged sample_baseline"
proof -
  have "op_stable EMPTY_AGENT_STATE (TurnUpsert (sample_header TurnRunning))"
    by (simp add: EMPTY_AGENT_STATE_def getTurn_def)
  then have "exchanged (res_state (applyOperation EMPTY_AGENT_STATE (TurnUpsert (sample_header TurnRunning))))"
    by (intro exchanged_op exchanged_start) simp_all
  from run_exchanged [OF this, of "tl sample_ops"] have "exchanged (at_state sample_agent)"
    by (simp add: sample_agent_def sample_state_def sample_ops_def)
  then show ?thesis unfolding sample_baseline_def by (rule exchanged_reset [OF exchanged_start])
qed

theorem reachable_well_formed_witness:
  "wf_state sample_baseline \<and> st_pending sample_baseline = [''i1''] \<and> map turn_turnId (turns (st_items sample_baseline)) = [''t0'']"
  by (rule conjI [OF reachable_well_formed [OF sample_exchanged]]) code_simp

text \<open>
  Only an append can report a gap, and an operation that reports one, or no change, returns the
  state it was given.
\<close>

theorem gap_only_append:
  assumes "res_gap (applyOperation s op) \<noteq> None \<or> \<not> res_changed (applyOperation s op)"
  shows "res_state (applyOperation s op) = s
    \<and> (res_gap (applyOperation s op) = None \<or> is_append op)"
  using assms res_gap_not_changed [of s op] applyOperation_not_changed [of s op] res_gap_append [of s op]
  by blast

definition sample_append :: append_op where
  "sample_append = \<lparr>append_target = TargetTask ''b1'', append_offset = 3, append_text = ''x''\<rparr>"


text \<open>
  An interaction upsert in a well-formed state stores an interaction that equals it in every
  compared field, leaves all others alone, and makes it pending exactly when its state is.
\<close>

theorem interaction_upsert_effect:
  assumes "wf_state s"
  shows "(\<exists>w. jm_get (st_interactions (res_state (applyInteractionUpsert s i))) (int_interactionId i) = Some w
            \<and> interactionEquals w i)
    \<and> (\<forall>k. k = int_interactionId i \<or>
          jm_get (st_interactions (res_state (applyInteractionUpsert s i))) k = jm_get (st_interactions s) k)
    \<and> (int_interactionId i \<in> set (st_pending (res_state (applyInteractionUpsert s i))) \<longleftrightarrow> int_state i = IPending)"
proof -
  let ?s = "res_state (applyInteractionUpsert s i)"
  obtain w where w: "jm_get (st_interactions ?s) (int_interactionId i) = Some w" "interactionEquals w i"
    using interactions.upsert_stored [of s i] interactions.same_refl [of i] by blast
  have "wf_state ?s" using wf_operation [OF assms, of "InteractionUpsert i"] by simp
  then have "int_interactionId i \<in> set (st_pending ?s) \<longleftrightarrow> int_state w = IPending"
    using w(1) by (auto simp: wf_state_def pending_ok_def)
  moreover have "int_state w = int_state i" using w(2) by (simp add: interactionEquals_def)
  ultimately show ?thesis using w interactions.upsert_other by metis
qed

theorem interaction_upsert_effect_witness:
  "''i1'' \<in> set (st_pending (res_state (applyInteractionUpsert EMPTY_AGENT_STATE sample_interaction)))"
  using interaction_upsert_effect [OF wf_empty, of sample_interaction] by (simp add: sample_interaction_def)

text \<open>
  After \<open>items.remove\<close> none of the ids is left in the timeline, and no interaction anchored to a
  tool call of a removed turn is stored or pending.
\<close>

theorem items_remove_cascade:
  assumes "wf_state s" "t \<in> set (turns (st_items s))" "turn_turnId t \<in> set ids"
    and "jm_get (st_interactions s) k = Some i" "anchored_in (turn_tool_call_ids t) i"
  shows "jm_get (st_interactions (res_state (applyItemsRemove s ids))) k = None
    \<and> k \<notin> set (st_pending (res_state (applyItemsRemove s ids)))
    \<and> set (map itemId (st_items (res_state (applyItemsRemove s ids)))) \<inter> set ids = {}"
proof -
  let ?rem = "filter (\<lambda>t. turn_turnId t \<in> set ids) (List.map_filter the_turn (st_items s))"
  let ?dead = "map int_interactionId (filter (anchored_in (concat (map turn_tool_call_ids ?rem))) (jm_values (st_interactions s)))"
  have t: "t \<in> set ?rem" using assms(2,3) by (simp add: turns_def)
  have in_items: "ITurn t \<in> set (st_items s)" using assms(2) by (simp add: set_turns)
  then have some: "length (filter (\<lambda>e. itemId e \<notin> set ids) (st_items s)) \<noteq> length (st_items s)"
    using assms(3) by (auto simp: filter_length_eq_iff intro: bexI [of _ "ITurn t"])
  have "i \<in> set (jm_values (st_interactions s))"
    using assms(1,4) jm.vals_set [of "st_interactions s" i] by (auto simp: wf_state_def)
  moreover have "int_interactionId i = k" using assms(1,4) jm_keyed_get by (fastforce simp: wf_state_def)
  moreover have "anchored_in (concat (map turn_tool_call_ids ?rem)) i"
    using assms(5) t by (auto simp: anchored_in_def split: option.splits)
  ultimately have dead: "k \<in> set ?dead" by force
  have "?rem \<noteq> []" using t by (metis empty_iff empty_set)
  with some have "res_state (applyItemsRemove s ids) =
      s\<lparr>st_items := filter (\<lambda>e. itemId e \<notin> set ids) (st_items s),
        st_interactions := fold jm_delete ?dead (st_interactions s),
        st_pending := fold js_set_delete ?dead (st_pending s)\<rparr>"
    by (simp add: applyItemsRemove_def Let_def)
  with dead show ?thesis by (auto simp: fold_delete_get fold_js_set_delete)
qed

lemma sample_turn: "\<exists>t. turns (st_items sample_state) = [t] \<and> turn_turnId t = ''t0'' \<and> turn_tool_call_ids t = [''c1'']"
proof -
  have "map (\<lambda>t. (turn_turnId t, turn_tool_call_ids t)) (turns (st_items sample_state)) = [(''t0'', [''c1''])]"
    by code_simp
  then show ?thesis by auto
qed


text \<open>
  A metadata merge sets, clears or keeps each mode badge as its payload says, and keeps the
  activity when the payload has none.
\<close>

theorem meta_merge_effect:
  "Option.bind (meta_modes (st_meta (res_state (applyMetaMerge s m)))) modes_plan
     = (case merge_modes m of
          None \<Rightarrow> Option.bind (meta_modes (st_meta s)) modes_plan
        | Some p \<Rightarrow> merge_mode (mm_plan p) (Option.bind (meta_modes (st_meta s)) modes_plan))
   \<and> Option.bind (meta_modes (st_meta (res_state (applyMetaMerge s m)))) modes_swarm
     = (case merge_modes m of
          None \<Rightarrow> Option.bind (meta_modes (st_meta s)) modes_swarm
        | Some p \<Rightarrow> merge_mode (mm_swarm p) (Option.bind (meta_modes (st_meta s)) modes_swarm))
   \<and> meta_activity (st_meta (res_state (applyMetaMerge s m))) = coalesce (merge_activity m) (meta_activity (st_meta s))"
  by (cases "merge_modes m"; cases "meta_modes (st_meta s)")
    (auto simp: applyMetaMerge_def Let_def merged_modes_def drop_empty_modes_def)

text \<open>
  applying two upserts of one turn in the other order gives another state, so a reordered
  stream does not converge: the last one to arrive wins.
\<close>

theorem upserts_do_not_commute:
  "map turn_state (turns (st_items (run_ops EMPTY_AGENT_STATE
       [TurnUpsert (sample_header TurnRunning), TurnUpsert (sample_header TurnCompleted)]))) = [TurnCompleted]
   \<and> map turn_state (turns (st_items (run_ops EMPTY_AGENT_STATE
       [TurnUpsert (sample_header TurnCompleted), TurnUpsert (sample_header TurnRunning)]))) = [TurnRunning]"
  by code_simp

text \<open>
  An upsert that changes nothing but the task id of a turn's cron origin is dropped: the
  equality test reads the origin's kind and payload only.
\<close>

theorem cron_task_id_update_dropped:
  assumes "getTurn (st_items s) i = Some t" "turn_origin t = OriginCron old payload"
  shows "applyTurnUpsert s ((turn_header.truncate t)\<lparr>turn_origin := OriginCron new payload\<rparr>) = unchanged s"
proof -
  have "turnEquals t ((turn_header.truncate t)\<lparr>turn_origin := OriginCron new payload\<rparr>)"
    using assms(2) by (simp add: turnEquals_def turn_header.defs)
  moreover have "turn_turnId t = i" using assms(1) by (rule getTurn_id)
  ultimately show ?thesis using assms(1) by (simp add: applyTurnUpsert_def turn_header.defs)
qed

definition cron_state :: agent_state where
  "cron_state = EMPTY_AGENT_STATE\<lparr>st_items :=
     [ITurn (turnHeaderToTurn ((sample_header TurnRunning)\<lparr>turn_origin := OriginCron (Some ''a'') JUndef\<rparr>) [])]\<rparr>"


section \<open>The agent's store\<close>

text \<open>
  The operations a batch accepts, applied to the state before it, give the state after it: all
  are accepted again, in order, without a gap, so a listener that replays them stays in step.
\<close>

theorem accepted_operations_replicate:
  "at_apply t (applied_accepted (fst (snd (at_apply t ops)))) =
     (fst (at_apply t ops), \<lparr>applied_accepted = applied_accepted (fst (snd (at_apply t ops))), applied_gap = None\<rparr>,
      snd (snd (at_apply t ops)))"
proof -
  obtain s acc gap where r: "apply_loop ops (at_state t) [] None = (s, acc, gap)" by (metis prod_cases3)
  have acc: "acc = accepted_ops (at_state t) ops" using r by (simp add: accepted_ops_def)
  have s: "s = run_ops (at_state t) ops" using apply_loop_state [of ops "at_state t" "[]" None] r by simp
  have idle: "run_ops (at_state t) ops = at_state t" if "acc = []"
    using run_accepted [of "at_state t" ops] that by (simp add: acc)
  show ?thesis
    unfolding at_apply_def Let_def by (simp add: r) (use idle in \<open>simp add: acc s apply_accepted\<close>)
qed

text \<open>
  Resetting any state with the full snapshot of a well-formed one gives that state back, the
  pending index as a set.
\<close>

theorem snapshot_reset_roundtrip:
  assumes "wf_state (at_state t)"
  shows "(res_state (applyReset s (at_snapshot t None)))\<lparr>st_pending := st_pending (at_state t)\<rparr> = at_state t
    \<and> set (st_pending (res_state (applyReset s (at_snapshot t None)))) = set (st_pending (at_state t))"
proof -
  let ?r = "res_state (applyReset s (at_snapshot t None))"
  note wf = assms [unfolded wf_state_def]
  have ids: "map int_interactionId (jm_values (st_interactions (at_state t))) = map fst (st_interactions (at_state t))"
    using wf by (intro jm_keyed_keys) simp
  have restored: "jm_of_values int_interactionId (jm_values (st_interactions (at_state t))) = st_interactions (at_state t)"
    using wf by (simp add: jm_of_values_values)
  have "distinct (map int_interactionId (jm_values (st_interactions (at_state t))))"
    using wf ids by (simp add: jm_ok_def)
  from pending_reset [OF this] have "pending_ok (st_interactions ?r) (st_pending ?r)"
    by (simp add: applyReset_def Let_def at_snapshot_def)
  moreover have "st_interactions ?r = st_interactions (at_state t)"
    by (simp add: applyReset_def Let_def at_snapshot_def restored)
  ultimately have "set (st_pending ?r) = set (st_pending (at_state t))"
    using wf by (simp add: pending_ok_def)
  moreover have "?r\<lparr>st_pending := st_pending (at_state t)\<rparr> = at_state t"
    using wf by (simp add: applyReset_def Let_def at_snapshot_def jm_of_values_values)
  ultimately show ?thesis by simp
qed

theorem snapshot_reset_roundtrip_witness:
  "st_items (res_state (applyReset EMPTY_AGENT_STATE (at_snapshot sample_agent None))) = st_items sample_state
   \<and> set (st_pending (res_state (applyReset EMPTY_AGENT_STATE (at_snapshot sample_agent None)))) = {''i1''}"
proof -
  have "wf_state (at_state sample_agent)" using reachable_wf [OF sample_reachable] by (simp add: sample_agent_def)
  note rt = snapshot_reset_roundtrip [OF this, of EMPTY_AGENT_STATE]
  have "st_pending sample_state = [''i1'']" by code_simp
  moreover have "st_items (res_state (applyReset EMPTY_AGENT_STATE (at_snapshot sample_agent None))) = st_items sample_state"
    using arg_cong [OF conjunct1 [OF rt], of st_items] by (simp add: sample_agent_def)
  ultimately show ?thesis using rt by (simp add: sample_agent_def)
qed

text \<open>
  a windowed snapshot keeps the newest turns, as a suffix of the timeline, and says that there
  are older ones when it left some out.
\<close>

theorem window_keeps_newest:
  assumes "0 \<le> n" "n < int (length (turns (st_items (at_state t))))"
  shows "(\<exists>dropped. st_items (at_state t) = dropped @ snap_items (at_snapshot t (Some n)))
    \<and> turns (snap_items (at_snapshot t (Some n)))
       = drop (length (turns (st_items (at_state t))) - nat n) (turns (st_items (at_state t)))
    \<and> snap_hasMoreOlder (at_snapshot t (Some n)) = Some True"
proof -
  let ?items = "st_items (at_state t)"
  let ?skip = "int (length (turns ?items)) - n"
  have items: "snap_items (at_snapshot t (Some n)) = window_loop ?items ?skip 0"
    "snap_hasMoreOlder (at_snapshot t (Some n)) = Some True"
    using assms(2) by (simp_all add: at_snapshot_def Let_def length_filter_turns)
  have "nat ?skip = length (turns ?items) - nat n" using assms(1) by (simp add: nat_diff_distrib')
  with window_loop_turns [of 0 ?skip ?items] assms(2)
  have "turns (window_loop ?items ?skip 0) = drop (length (turns ?items) - nat n) (turns ?items)" by simp
  with items window_loop_suffix [of ?items ?skip 0] show ?thesis by metis
qed

theorem window_keeps_newest_witness:
  "turns (snap_items (at_snapshot sample_agent (Some 0))) = []
   \<and> snap_hasMoreOlder (at_snapshot sample_agent (Some 0)) = Some True"
proof -
  obtain u where u: "turns (st_items sample_state) = [u]" using sample_turn by blast
  with window_keeps_newest [of 0 sample_agent] show ?thesis by (simp add: sample_agent_def)
qed

section \<open>The roster\<close>

text \<open>
  The first disposal of an agent wins: marking it again, with whatever time, changes nothing and
  calls no listener, and marking an agent that has no descriptor does nothing.
\<close>

theorem mark_disposed_once:
  assumes "jm_keyed (\<lambda>d. desc_agentId (obj_val d)) (ts_descriptors st)"
    and "\<not> obj_same (jm_get (ts_descriptors st) i) (Some (Obj r d0))"
  shows "ts_markDisposed (fst (ts_markDisposed st i a r)) i b r' = (fst (ts_markDisposed st i a r), [])
    \<and> (jm_get (ts_descriptors st) i = None \<longrightarrow> ts_markDisposed st i a r = (st, []))"
proof (cases "jm_get (ts_descriptors st) i")
  case None
  then show ?thesis by (simp add: ts_markDisposed_def)
next
  case (Some d)
  then have "desc_agentId (obj_val d) = i" using jm_keyed_get [OF assms(1)] by simp
  with Some assms(2) show ?thesis
    by (auto simp: ts_markDisposed_def ts_describeAgent_def Let_def split: option.splits)
qed

definition sample_descriptor :: agent_descriptor where
  "sample_descriptor =
     \<lparr>desc_agentId = ''a1'', desc_type = None, desc_parentAgentId = None, desc_label = None,
      desc_createdAt = None, desc_disposedAt = None\<rparr>"

definition sample_store :: transcript_store where
  "sample_store = fst (ts_describeAgent (newTranscriptStore ''s1'') (Obj 1 sample_descriptor))"


section \<open>Paging and identifiers\<close>

text \<open>
  C22: paging from the newest page towards the oldest, with the oldest turn received as the next
  cursor, delivers every item of the timeline exactly once and in order.
\<close>

theorem paging_complete:
  assumes "paging_order items" "length (turns items) < fuel"
  shows "concat (walk_older fuel items n None) = items"
  using assms by (rule walk_older_all)

theorem paging_complete_witness:
  "concat (walk_older 2 (st_items sample_state) 1 None) = st_items sample_state"
proof (rule paging_complete)
  show "paging_order (st_items sample_state)" by code_simp
  show "length (turns (st_items sample_state)) < 2" using sample_turn by auto
qed

text \<open>
  The ordinal read from a turn id is the one it was made from, so turn ids are ordered by their
  ordinals.
\<close>

theorem turn_id_order: "compareTurnIds (turnId (int m)) (turnId (int n)) = of_nat m - of_nat n"
  by (simp add: compareTurnIds_def turnOrdinal_def turnId_def int_str_def)

section \<open>Subscription grades\<close>

text \<open>
  Detaching agents from a grade spec switches each of them off, leaves every agent with a grade
  of its own as it was, and the rest on the wildcard unless that is detached too.
\<close>

theorem detach_grades:
  assumes "jm_ok sp" "a \<noteq> ''*''"
  shows "gradeFor (detachGrades (Some sp) ids) a =
     (if a \<in> set ids then GradeOff
      else case spec_entry sp a of
             Some g \<Rightarrow> g
           | None \<Rightarrow> if ''*'' \<in> set ids then GradeOff else gradeFor (Some sp) ''*'')"
  using assms by (rule gradeFor_detach)


text \<open>
  A client at grade \<open>turn\<close> that runs the clipped stream keeps the producer's state without
  steps and task output, as long as the producer emits headers before what they contain and removes
  no turn that an interaction is anchored in.
\<close>

theorem turn_grade_tracks:
  assumes "turn_view s c" "wf_state s" "causal_run s ops"
  shows "turn_view (run_ops s ops) (run_ops c (clipped GradeTurn ops))"
  using assms by (rule clipped_stream_view)

theorem turn_grade_tracks_witness:
  "turn_view sample_state (run_ops EMPTY_AGENT_STATE (clipped GradeTurn sample_ops))"
proof -
  have "causal_run EMPTY_AGENT_STATE sample_ops" by code_simp
  moreover have "turn_view EMPTY_AGENT_STATE EMPTY_AGENT_STATE" by (simp add: turn_view_def EMPTY_AGENT_STATE_def)
  ultimately show ?thesis
    using turn_grade_tracks [OF _ wf_empty, of EMPTY_AGENT_STATE sample_ops] by (simp add: sample_state_def)
qed

text \<open>
  Without that proviso it does not: after the removal of a turn with a pending approval, the
  producer has no pending interaction and the client at grade \<open>turn\<close> still has it.
\<close>

theorem turn_grade_strands_interaction:
  "st_pending (run_ops EMPTY_AGENT_STATE (sample_ops @ [ItemsRemove [''t0'']])) = []
   \<and> st_pending (run_ops EMPTY_AGENT_STATE (clipped GradeTurn (sample_ops @ [ItemsRemove [''t0'']]))) = [''i1'']"
  by code_simp

end
