(* ===== verification/GroupTurns.thy ===== *)
theory GroupTurns
  imports TranscriptInv
begin

text \<open>
  \<open>packages/transcript/src/history/groupTurns.ts\<close>: the cold rebuild of a turn tree from the flat
  list of persisted messages. The closures of \<open>groupMessagesIntoSnapshot\<close> are steps on a
  \<open>group_state\<close> that holds the variables they capture and the next unused object identity. A
  draft and the item made from it share the frame arrays in the source; every mutation is followed
  by \<open>syncTurnItem\<close>, so copies behave the same. \<open>JSON.parse\<close> is the parameter
  \<open>json_parse\<close>: given the next unused identity and the text, it gives the value and the next
  identity after it, or nothing when it throws. Origin kinds that name a member of
  \<open>Object.prototype\<close> are outside the model.
\<close>

section \<open>Input\<close>

datatype media_kind = MediaImage | MediaVideo | MediaAudio

datatype media_source =
    MSUrl string
  | MSBase64 string string
  | MSFile string

text \<open>A part with a type but without the fields that type carries is an \<open>HPOther\<close>.\<close>

datatype history_part =
    HPText string
  | HPThink string
  | HPMedia media_kind "media_source option"
  | HPFile string string string number
  | HPOther string

record history_tool_call =
  htc_id :: string
  htc_name :: string
  htc_arguments :: "string option"

record history_message =
  hm_role :: string
  hm_content :: "history_part list option"
  hm_toolCalls :: "history_tool_call list option"
  hm_toolCallId :: "string option"
  hm_isError :: "bool option"
  hm_origin :: json

type_synonym json_parser = "nat \<Rightarrow> string \<Rightarrow> (json \<times> nat) option"

definition content_of :: "history_message \<Rightarrow> history_part list" where
  "content_of m = (case hm_content m of Some ps \<Rightarrow> ps | None \<Rightarrow> [])"

definition tool_calls_of :: "history_message \<Rightarrow> history_tool_call list" where
  "tool_calls_of m = (case hm_toolCalls m of Some cs \<Rightarrow> cs | None \<Rightarrow> [])"

section \<open>Drafts\<close>

record step_draft =
  sd_stepId :: step_id
  sd_ordinal :: int
  sd_frames :: "transcript_frame list"

record turn_draft =
  td_turnId :: turn_id
  td_ordinal :: int
  td_origin :: turn_origin
  td_prompt :: "string option"
  td_attachmentIds :: "string list obj option"
  td_steps :: "step_draft list"

record group_state =
  gs_items :: "transcript_item list"
  gs_attachments :: "transcript_attachment list"
  gs_turn :: "turn_draft option"
  gs_nextOrdinal :: int
  gs_markerCount :: int
  gs_ref :: nat

definition HIDDEN_USER_ORIGINS :: "string list" where
  "HIDDEN_USER_ORIGINS = [''injection'', ''system_trigger'', ''retry'']"

definition TURN_OPENING_SYSTEM_TRIGGERS :: "string list" where
  "TURN_OPENING_SYSTEM_TRIGGERS = [''subagent'']"

definition MARKER_USER_ORIGINS :: "(string \<times> string) list" where
  "MARKER_USER_ORIGINS =
     [(''skill_activation'', ''skill''), (''plugin_command'', ''skill''),
      (''compaction_summary'', ''compaction'')]"

definition FALLBACK_ORIGIN :: turn_origin where
  "FALLBACK_ORIGIN = OriginOther JUndef"

section \<open>Helpers\<close>

definition opensOwnTurn :: "history_message \<Rightarrow> bool" where
  "opensOwnTurn m \<longleftrightarrow>
     js_opt_prop (hm_origin m) ''kind'' = JStr ''system_trigger'' \<and>
     (case js_opt_prop (hm_origin m) ''name'' of
        JStr n \<Rightarrow> n \<in> set TURN_OPENING_SYSTEM_TRIGGERS | _ \<Rightarrow> False)"

definition isUserSlashPrompt :: "history_message \<Rightarrow> bool" where
  "isUserSlashPrompt m \<longleftrightarrow>
     (js_opt_prop (hm_origin m) ''kind'' = JStr ''skill_activation'' \<or>
      js_opt_prop (hm_origin m) ''kind'' = JStr ''plugin_command'') \<and>
     js_opt_prop (hm_origin m) ''trigger'' = JStr ''user-slash''"

definition mapOrigin :: "history_message \<Rightarrow> turn_origin" where
  "mapOrigin m =
     (let origin = hm_origin m in
      case js_opt_prop origin ''kind'' of
        JUndef \<Rightarrow> OriginUser JUndef
      | JStr k \<Rightarrow>
          if k = ''cron_job'' \<or> k = ''cron_missed''
          then OriginCron (js_string_of (js_opt_prop origin ''jobId'')) origin
          else if k = ''task''
          then (case js_opt_prop origin ''taskId'' of
                  JStr i \<Rightarrow> OriginTask i origin | _ \<Rightarrow> OriginOther origin)
          else if k = ''hook_result'' then OriginHook origin
          else if k = ''shell_command'' then OriginUser origin
          else if k = ''user'' then OriginUser JUndef
          else OriginOther origin
      | _ \<Rightarrow> OriginOther origin)"

fun part_text :: "history_part \<Rightarrow> string" where
  "part_text (HPText t) = t"
| "part_text _ = []"

definition textOf :: "history_message \<Rightarrow> string" where
  "textOf m = concat (map part_text (content_of m))"

definition parseArguments :: "json_parser \<Rightarrow> nat \<Rightarrow> string option \<Rightarrow> json \<times> nat" where
  "parseArguments json_parse ref raw =
     (case raw of
        None \<Rightarrow> (JUndef, ref)
      | Some s \<Rightarrow>
          if s = [] then (JUndef, ref)
          else (case json_parse ref s of Some r \<Rightarrow> r | None \<Rightarrow> (JStr s, ref)))"

definition draftToStep :: "turn_draft \<Rightarrow> step_draft \<Rightarrow> transcript_step" where
  "draftToStep draft st =
     \<lparr>step_stepId = sd_stepId st, step_turnId = td_turnId draft, step_ordinal = of_int (sd_ordinal st),
      step_state = StepCompleted, step_startedAt = None, step_endedAt = None, step_usage = None,
      step_finishReason = None, step_timing = None, step_retry = None, step_endReason = None,
      step_endMessage = None, step_frames = sd_frames st\<rparr>"

definition draftToTurn :: "turn_draft \<Rightarrow> transcript_turn" where
  "draftToTurn draft =
     \<lparr>turn_turnId = td_turnId draft, turn_ordinal = of_int (td_ordinal draft),
      turn_state = TurnCompleted, turn_origin = td_origin draft, turn_prompt = td_prompt draft,
      turn_attachmentIds = td_attachmentIds draft, turn_startedAt = None, turn_endedAt = None,
      turn_usage = None, turn_durationMs = None, turn_error = None,
      turn_steps = map (draftToStep draft) (td_steps draft)\<rparr>"

definition draftToTurnItem :: "turn_draft \<Rightarrow> transcript_item" where
  "draftToTurnItem draft = ITurn (draftToTurn draft)"

text \<open>Replacement of the first element that satisfies a predicate (\<open>findIndex\<close> and assignment).\<close>

fun replace_first :: "('a \<Rightarrow> bool) \<Rightarrow> 'a \<Rightarrow> 'a list \<Rightarrow> 'a list" where
  "replace_first P y [] = []"
| "replace_first P y (x # xs) = (if P x then y # xs else x # replace_first P y xs)"

definition syncTurnItem :: "transcript_item list \<Rightarrow> turn_draft \<Rightarrow> transcript_item list" where
  "syncTurnItem items draft = replace_first (is_turn_with (td_turnId draft)) (draftToTurnItem draft) items"

fun is_tool_frame :: "string \<Rightarrow> transcript_frame \<Rightarrow> bool" where
  "is_tool_frame i (FTool f) = (tc_toolCallId f = i)"
| "is_tool_frame i _ = False"

text \<open>The last matching frame of the last step that has one.\<close>

definition currentTurnToolFrame :: "turn_draft option \<Rightarrow> string option \<Rightarrow> transcript_frame option" where
  "currentTurnToolFrame t toolCallId =
     (case (t, toolCallId) of
        (Some draft, Some i) \<Rightarrow> find (is_tool_frame i) (rev (concat (map sd_frames (td_steps draft))))
      | _ \<Rightarrow> None)"

text \<open>The first matching frame of the last step that has one.\<close>

fun replace_in_steps :: "string \<Rightarrow> transcript_frame \<Rightarrow> step_draft list \<Rightarrow> step_draft list" where
  "replace_in_steps i f [] = []"
| "replace_in_steps i f (st # rest) =
     (if list_ex (is_tool_frame i) (sd_frames st)
      then st\<lparr>sd_frames := replace_first (is_tool_frame i) f (sd_frames st)\<rparr> # rest
      else st # replace_in_steps i f rest)"

definition replaceToolFrame :: "turn_draft \<Rightarrow> string \<Rightarrow> transcript_frame \<Rightarrow> turn_draft" where
  "replaceToolFrame draft i f =
     draft\<lparr>td_steps := rev (replace_in_steps i f (rev (td_steps draft)))\<rparr>"

section \<open>Grouping\<close>

definition att_id :: "transcript_attachment list \<Rightarrow> string" where
  "att_id atts = ''att_'' @ nat_str (length atts + 1)"

fun media_type_name :: "media_kind \<Rightarrow> string" where
  "media_type_name MediaImage = ''image''"
| "media_type_name MediaVideo = ''video''"
| "media_type_name MediaAudio = ''audio''"

definition media_entity :: "string \<Rightarrow> nat \<Rightarrow> media_kind \<Rightarrow> media_source \<Rightarrow> transcript_attachment" where
  "media_entity i ref kind source =
     \<lparr>att_attachmentId = i,
      att_mediaType = (case source of MSBase64 mt _ \<Rightarrow> mt | _ \<Rightarrow> media_type_name kind @ ''/*''),
      att_name = None, att_size = None,
      att_source = (case source of
                      MSUrl u \<Rightarrow> Some (Obj ref (SourceUrl u))
                    | MSFile f \<Rightarrow> Some (Obj ref (SourceFile f))
                    | MSBase64 _ _ \<Rightarrow> None),
      att_placeholder = None\<rparr>"

fun collect_loop ::
  "history_part list \<Rightarrow> transcript_attachment list \<Rightarrow> string list \<Rightarrow> nat \<Rightarrow>
   transcript_attachment list \<times> string list \<times> nat" where
  "collect_loop [] atts ids ref = (atts, ids, ref)"
| "collect_loop (HPMedia kind (Some source) # ps) atts ids ref =
     collect_loop ps (atts @ [media_entity (att_id atts) ref kind source]) (ids @ [att_id atts]) (ref + 1)"
| "collect_loop (HPFile f name mt sz # ps) atts ids ref =
     collect_loop ps
       (atts @ [\<lparr>att_attachmentId = att_id atts, att_mediaType = mt, att_name = Some name,
                 att_size = Some sz, att_source = Some (Obj ref (SourceFile f)),
                 att_placeholder = None\<rparr>])
       (ids @ [att_id atts]) (ref + 1)"
| "collect_loop (_ # ps) atts ids ref = collect_loop ps atts ids ref"

definition collectAttachments :: "history_message \<Rightarrow> group_state \<Rightarrow> string list obj option \<times> group_state" where
  "collectAttachments m g =
     (let (atts, ids, ref) = collect_loop (content_of m) (gs_attachments g) [] (gs_ref g + 1)
      in (if 0 < length ids then Some (Obj (gs_ref g) ids) else None,
          g\<lparr>gs_attachments := atts, gs_ref := ref\<rparr>))"

definition startTurn ::
  "turn_origin \<Rightarrow> string option \<Rightarrow> string list obj option \<Rightarrow> group_state \<Rightarrow> group_state" where
  "startTurn origin prompt attachmentIds g =
     (let draft = \<lparr>td_turnId = turnId (gs_nextOrdinal g), td_ordinal = gs_nextOrdinal g,
                   td_origin = origin, td_prompt = prompt, td_attachmentIds = attachmentIds,
                   td_steps = []\<rparr>
      in g\<lparr>gs_nextOrdinal := gs_nextOrdinal g + 1, gs_turn := Some draft,
           gs_items := gs_items g @ [draftToTurnItem draft]\<rparr>)"

definition ensureTurn :: "turn_origin \<Rightarrow> group_state \<Rightarrow> group_state" where
  "ensureTurn origin g =
     (case gs_turn g of Some _ \<Rightarrow> g | None \<Rightarrow> startTurn origin None None g)"

definition pushMarker :: "string \<Rightarrow> history_message \<Rightarrow> group_state \<Rightarrow> group_state" where
  "pushMarker marker m g =
     (let n = gs_markerCount g + 1;
          payload = JObj (gs_ref g) [(''text'', JStr (textOf m)), (''origin'', hm_origin m)];
          item = IMarker (Obj (gs_ref g + 1)
                   \<lparr>marker_markerId = ''m'' @ int_str n, marker_marker = marker,
                    marker_payload = payload, marker_at = None\<rparr>)
      in g\<lparr>gs_markerCount := n, gs_items := gs_items g @ [item], gs_ref := gs_ref g + 2\<rparr>)"

definition hidden_origin :: "history_message \<Rightarrow> bool" where
  "hidden_origin m =
     (case js_opt_prop (hm_origin m) ''kind'' of JStr k \<Rightarrow> k \<in> set HIDDEN_USER_ORIGINS | _ \<Rightarrow> False)"

definition marker_origin :: "history_message \<Rightarrow> string option" where
  "marker_origin m =
     (case js_opt_prop (hm_origin m) ''kind'' of JStr k \<Rightarrow> map_of MARKER_USER_ORIGINS k | _ \<Rightarrow> None)"

definition group_user :: "history_message \<Rightarrow> group_state \<Rightarrow> group_state" where
  "group_user m g =
     (if hidden_origin m then
        (if opensOwnTurn m then startTurn (mapOrigin m) None None g else g)
      else case marker_origin m of
        Some marker \<Rightarrow>
          let g1 = pushMarker marker m g in
          if isUserSlashPrompt m then startTurn (mapOrigin m) (Some (textOf m)) None g1 else g1
      | None \<Rightarrow>
          let (ids, g1) = collectAttachments m g in startTurn (mapOrigin m) (Some (textOf m)) ids g1)"

fun content_frames :: "step_id \<Rightarrow> history_part list \<Rightarrow> int \<Rightarrow> transcript_frame list" where
  "content_frames sid [] n = []"
| "content_frames sid (HPText t # ps) n =
     (if 0 < length t
      then FText \<lparr>tf_frameId = frameId sid (n + 1), tf_role = RoleAssistant, tf_text = t,
                  tf_attachmentIds = None, tf_taskId = None\<rparr> # content_frames sid ps (n + 1)
      else content_frames sid ps n)"
| "content_frames sid (HPThink t # ps) n =
     (if 0 < length t
      then FThinking \<lparr>th_frameId = frameId sid (n + 1), th_text = t\<rparr> # content_frames sid ps (n + 1)
      else content_frames sid ps n)"
| "content_frames sid (_ # ps) n = content_frames sid ps n"

definition tool_frame :: "step_id \<Rightarrow> history_tool_call \<Rightarrow> json \<Rightarrow> tool_call_frame" where
  "tool_frame sid call input =
     \<lparr>tc_frameId = sid @ ''.'' @ htc_id call, tc_toolCallId = htc_id call, tc_name = htc_name call,
      tc_view = None, tc_state = ToolRunning, tc_input = input, tc_output = JUndef,
      tc_display = JUndef, tc_error = None, tc_inputText = None, tc_progress = None,
      tc_taskId = None, tc_approvalId = None, tc_todoId = None, tc_agentRefs = None\<rparr>"

fun call_frames ::
  "json_parser \<Rightarrow> step_id \<Rightarrow> history_tool_call list \<Rightarrow> nat \<Rightarrow> transcript_frame list \<times> nat" where
  "call_frames json_parse sid [] ref = ([], ref)"
| "call_frames json_parse sid (call # calls) ref =
     (let (input, ref1) = parseArguments json_parse ref (htc_arguments call);
          (frames, ref2) = call_frames json_parse sid calls ref1
      in (FTool (tool_frame sid call input) # frames, ref2))"

definition group_assistant :: "json_parser \<Rightarrow> history_message \<Rightarrow> group_state \<Rightarrow> group_state" where
  "group_assistant json_parse m g0 =
     (let g = ensureTurn FALLBACK_ORIGIN g0 in
      case gs_turn g of
        None \<Rightarrow> g
      | Some current \<Rightarrow>
          let ordinal = int (length (td_steps current)) + 1;
              sid = stepId (td_turnId current) ordinal;
              (calls, ref) = call_frames json_parse sid (tool_calls_of m) (gs_ref g);
              st = \<lparr>sd_stepId = sid, sd_ordinal = ordinal,
                    sd_frames = content_frames sid (content_of m) 0 @ calls\<rparr>;
              draft = current\<lparr>td_steps := td_steps current @ [st]\<rparr>
          in g\<lparr>gs_turn := Some draft, gs_items := syncTurnItem (gs_items g) draft, gs_ref := ref\<rparr>)"

definition group_tool :: "history_message \<Rightarrow> group_state \<Rightarrow> group_state" where
  "group_tool m g =
     (case (currentTurnToolFrame (gs_turn g) (hm_toolCallId m), gs_turn g, hm_toolCallId m) of
        (Some (FTool f), Some draft, Some i) \<Rightarrow>
          let output = textOf m;
              failed = (hm_isError m = Some True);
              patched = FTool (f\<lparr>tc_state := (if failed then ToolError else ToolDone),
                                 tc_output := JStr output,
                                 tc_error := (if failed then Some output else None)\<rparr>);
              draft' = replaceToolFrame draft i patched
          in g\<lparr>gs_turn := Some draft', gs_items := syncTurnItem (gs_items g) draft'\<rparr>
      | _ \<Rightarrow> g)"

definition group_message :: "json_parser \<Rightarrow> group_state \<Rightarrow> history_message \<Rightarrow> group_state" where
  "group_message json_parse g m =
     (if hm_role m = ''system'' then g
      else if hm_role m = ''user'' then group_user m g
      else if hm_role m = ''assistant'' then group_assistant json_parse m g
      else if hm_role m = ''tool'' then group_tool m g
      else g)"

definition group_start :: "nat \<Rightarrow> group_state" where
  "group_start ref =
     \<lparr>gs_items = [], gs_attachments = [], gs_turn = None, gs_nextOrdinal = 0, gs_markerCount = 0,
      gs_ref = ref\<rparr>"

definition group_run :: "json_parser \<Rightarrow> nat \<Rightarrow> history_message list \<Rightarrow> group_state" where
  "group_run json_parse ref messages = foldl (group_message json_parse) (group_start ref) messages"

definition groupMessagesIntoSnapshot ::
  "json_parser \<Rightarrow> nat \<Rightarrow> history_message list \<Rightarrow> agent_snapshot" where
  "groupMessagesIntoSnapshot json_parse ref messages =
     (let g = group_run json_parse ref messages in
      \<lparr>snap_items = gs_items g, snap_tasks = [], snap_interactions = [],
       snap_attachments = gs_attachments g, snap_todos = [], snap_prompts = [],
       snap_meta = EMPTY_META, snap_hasMoreOlder = None\<rparr>)"

section \<open>Identifiers are injective\<close>

lemma int_str_inject [simp]: "int_str i = int_str j \<longleftrightarrow> i = j"
proof -
  have no_sign: "nat_str n \<noteq> CHR ''-'' # s" for n s
    using all_digits_nat_str [of n] by (auto simp: all_digits_def is_digit_def)
  show ?thesis
    by (auto simp: int_str_def no_sign no_sign [symmetric])
qed

lemma turnId_inject [simp]: "turnId i = turnId j \<longleftrightarrow> i = j"
  by (simp add: turnId_def)

lemma stepId_inject [simp]: "stepId t i = stepId t j \<longleftrightarrow> i = j"
  by (simp add: stepId_def)

lemma frameId_inject [simp]: "frameId s i = frameId s j \<longleftrightarrow> i = j"
  by (simp add: frameId_def)

section \<open>Replacing the first match\<close>

lemma turns_replace_first:
  "turns (replace_first (is_turn_with i) (ITurn t) items) = replace_first (\<lambda>u. turn_turnId u = i) t (turns items)"
proof (induction items)
  case (Cons e items)
  then show ?case by (cases e) auto
qed simp

lemma replace_first_append:
  "(\<And>x. x \<in> set xs \<Longrightarrow> \<not> P x) \<Longrightarrow> replace_first P y (xs @ ys) = xs @ replace_first P y ys"
  by (induction xs) auto

lemma map_replace_first:
  "(\<And>x. x \<in> set xs \<Longrightarrow> P x \<Longrightarrow> f x = f y) \<Longrightarrow> map f (replace_first P y xs) = map f xs"
  by (induction xs) auto

lemma length_replace_first [simp]: "length (replace_first P y xs) = length xs"
  by (induction xs) auto

lemma set_replace_first: "set (replace_first P y xs) \<subseteq> insert y (set xs)"
  by (induction xs) auto

section \<open>The turns of the items\<close>

definition turn_ids_ok :: "group_state \<Rightarrow> bool" where
  "turn_ids_ok g \<longleftrightarrow>
     (let ts = turns (gs_items g) in
      0 \<le> gs_nextOrdinal g \<and>
      map turn_turnId ts = map turnId [0 .. gs_nextOrdinal g - 1] \<and>
      map turn_ordinal ts = map of_int [0 .. gs_nextOrdinal g - 1] \<and>
      (case gs_turn g of None \<Rightarrow> ts = [] | Some d \<Rightarrow> ts \<noteq> [] \<and> last ts = draftToTurn d))"

lemma draftToTurn_simps [simp]:
  "turn_turnId (draftToTurn d) = td_turnId d"
  "turn_ordinal (draftToTurn d) = of_int (td_ordinal d)"
  "turn_prompt (draftToTurn d) = td_prompt d"
  "turn_steps (draftToTurn d) = map (draftToStep d) (td_steps d)"
  by (simp_all add: draftToTurn_def)

lemma turns_syncTurnItem:
  assumes "turns items = us @ [t]" "td_turnId d = turn_turnId t" "distinct (map turn_turnId (turns items))"
  shows "turns (syncTurnItem items d) = us @ [draftToTurn d]"
proof -
  have "turn_turnId x \<noteq> td_turnId d" if "x \<in> set us" for x
    using that assms by (auto simp: image_iff)
  then show ?thesis
    using assms(1,2) by (simp add: syncTurnItem_def draftToTurnItem_def turns_replace_first replace_first_append)
qed

lemma turn_ids_ok_distinct: "turn_ids_ok g \<Longrightarrow> distinct (map turn_turnId (turns (gs_items g)))"
  by (simp add: turn_ids_ok_def Let_def distinct_map inj_on_def)

lemma turns_startTurn:
  "turns (gs_items (startTurn origin prompt ids g)) =
     turns (gs_items g) @ [draftToTurn (the (gs_turn (startTurn origin prompt ids g)))]"
  by (simp add: startTurn_def Let_def draftToTurnItem_def)

lemma turn_ids_startTurn: "turn_ids_ok g \<Longrightarrow> turn_ids_ok (startTurn origin prompt ids g)"
  by (auto simp: turn_ids_ok_def Let_def startTurn_def draftToTurnItem_def upto_rec2)

lemma pushMarker_simps [simp]:
  "turns (gs_items (pushMarker k m g)) = turns (gs_items g)"
  "gs_turn (pushMarker k m g) = gs_turn g"
  "gs_nextOrdinal (pushMarker k m g) = gs_nextOrdinal g"
  by (simp_all add: pushMarker_def Let_def)

lemma collectAttachments_simps [simp]:
  "gs_items (snd (collectAttachments m g)) = gs_items g"
  "gs_turn (snd (collectAttachments m g)) = gs_turn g"
  "gs_nextOrdinal (snd (collectAttachments m g)) = gs_nextOrdinal g"
  by (simp_all add: collectAttachments_def split: prod.split)

lemma turn_ids_cong:
  "turn_ids_ok g \<Longrightarrow> turns (gs_items g') = turns (gs_items g) \<Longrightarrow> gs_turn g' = gs_turn g \<Longrightarrow>
   gs_nextOrdinal g' = gs_nextOrdinal g \<Longrightarrow> turn_ids_ok g'"
  by (simp add: turn_ids_ok_def)

text \<open>A handler that rewrites the current draft keeps the other turns.\<close>

lemma sync_current:
  assumes ok: "turn_ids_ok g" and d: "gs_turn g = Some d"
    and same: "td_turnId d' = td_turnId d" "td_ordinal d' = td_ordinal d"
  shows "turns (syncTurnItem (gs_items g) d') = butlast (turns (gs_items g)) @ [draftToTurn d']"
    and "turn_ids_ok (g\<lparr>gs_turn := Some d', gs_items := syncTurnItem (gs_items g) d', gs_ref := ref\<rparr>)"
    and "turns (gs_items g) = butlast (turns (gs_items g)) @ [draftToTurn d]"
proof -
  have "turns (gs_items g) \<noteq> []" "last (turns (gs_items g)) = draftToTurn d"
    using ok d by (simp_all add: turn_ids_ok_def Let_def)
  then obtain us where us: "turns (gs_items g) = us @ [draftToTurn d]"
    by (metis append_butlast_last_id)
  then show "turns (gs_items g) = butlast (turns (gs_items g)) @ [draftToTurn d]" by simp
  have sync: "turns (syncTurnItem (gs_items g) d') = us @ [draftToTurn d']"
    using turn_ids_ok_distinct [OF ok] same(1) by (intro turns_syncTurnItem [OF us]) simp_all
  with us show "turns (syncTurnItem (gs_items g) d') = butlast (turns (gs_items g)) @ [draftToTurn d']" by simp
  show "turn_ids_ok (g\<lparr>gs_turn := Some d', gs_items := syncTurnItem (gs_items g) d', gs_ref := ref\<rparr>)"
    using ok d by (simp add: turn_ids_ok_def Let_def us sync same)
qed

text \<open>What \<open>group_assistant\<close> and \<open>group_tool\<close> do to the state, and when nothing.\<close>

definition next_step :: "json_parser \<Rightarrow> history_message \<Rightarrow> nat \<Rightarrow> turn_draft \<Rightarrow> step_draft" where
  "next_step json_parse m ref d =
     (let ordinal = int (length (td_steps d)) + 1; sid = stepId (td_turnId d) ordinal in
      \<lparr>sd_stepId = sid, sd_ordinal = ordinal,
       sd_frames = content_frames sid (content_of m) 0 @ fst (call_frames json_parse sid (tool_calls_of m) ref)\<rparr>)"

lemma ensureTurn_turn: "\<exists>d. gs_turn (ensureTurn origin g) = Some d"
  by (auto simp: ensureTurn_def startTurn_def Let_def split: option.split)

lemma turn_ids_ensureTurn: "turn_ids_ok g \<Longrightarrow> turn_ids_ok (ensureTurn origin g)"
  by (auto simp: ensureTurn_def turn_ids_startTurn split: option.split)

lemma group_assistant_state:
  obtains d d' ref where
    "gs_turn (ensureTurn FALLBACK_ORIGIN g) = Some d"
    "d' = d\<lparr>td_steps := td_steps d @ [next_step json_parse m (gs_ref (ensureTurn FALLBACK_ORIGIN g)) d]\<rparr>"
    "group_assistant json_parse m g = (ensureTurn FALLBACK_ORIGIN g)
       \<lparr>gs_turn := Some d', gs_items := syncTurnItem (gs_items (ensureTurn FALLBACK_ORIGIN g)) d', gs_ref := ref\<rparr>"
proof -
  obtain d where d: "gs_turn (ensureTurn FALLBACK_ORIGIN g) = Some d" using ensureTurn_turn by blast
  show ?thesis
    by (rule that [OF d refl])
      (simp add: group_assistant_def Let_def d next_step_def case_prod_unfold)
qed

lemma group_tool_state:
  obtains (none) "group_tool m g = g"
  | (patch) d i f f' where
      "gs_turn g = Some d" "hm_toolCallId m = Some i"
      "currentTurnToolFrame (Some d) (Some i) = Some (FTool f)"
      "tc_frameId f' = tc_frameId f" "tc_toolCallId f' = tc_toolCallId f"
      "group_tool m g = g\<lparr>gs_turn := Some (replaceToolFrame d i (FTool f')),
                         gs_items := syncTurnItem (gs_items g) (replaceToolFrame d i (FTool f')),
                         gs_ref := gs_ref g\<rparr>"
proof (cases "currentTurnToolFrame (gs_turn g) (hm_toolCallId m)")
  case None
  then show ?thesis by (intro none) (simp add: group_tool_def)
next
  case (Some fr)
  then obtain d i where d: "gs_turn g = Some d" "hm_toolCallId m = Some i"
    by (auto simp: currentTurnToolFrame_def split: option.splits)
  show ?thesis
  proof (cases fr)
    case (FTool f)
    with Some d show ?thesis
      by (intro patch [of d i f "f\<lparr>tc_state := if hm_isError m = Some True then ToolError else ToolDone,
            tc_output := JStr (textOf m),
            tc_error := if hm_isError m = Some True then Some (textOf m) else None\<rparr>"])
        (simp_all add: group_tool_def Let_def)
  qed (use Some in \<open>auto intro: none simp: group_tool_def\<close>)
qed

lemma replaceToolFrame_simps [simp]:
  "td_turnId (replaceToolFrame d i f) = td_turnId d"
  "td_ordinal (replaceToolFrame d i f) = td_ordinal d"
  "td_prompt (replaceToolFrame d i f) = td_prompt d"
  by (simp_all add: replaceToolFrame_def)

lemma turn_ids_group_user: "turn_ids_ok g \<Longrightarrow> turn_ids_ok (group_user m g)"
  by (auto simp: group_user_def Let_def case_prod_unfold split: option.split
      intro!: turn_ids_startTurn elim!: turn_ids_cong)

lemma turn_ids_group_assistant:
  assumes "turn_ids_ok g"
  shows "turn_ids_ok (group_assistant json_parse m g)"
proof (rule group_assistant_state [of g json_parse m])
  fix d d' ref
  assume d: "gs_turn (ensureTurn FALLBACK_ORIGIN g) = Some d"
    and d': "d' = d\<lparr>td_steps := td_steps d @ [next_step json_parse m (gs_ref (ensureTurn FALLBACK_ORIGIN g)) d]\<rparr>"
    and g': "group_assistant json_parse m g = (ensureTurn FALLBACK_ORIGIN g)
       \<lparr>gs_turn := Some d', gs_items := syncTurnItem (gs_items (ensureTurn FALLBACK_ORIGIN g)) d', gs_ref := ref\<rparr>"
  show ?thesis
    unfolding g' by (rule sync_current(2) [OF turn_ids_ensureTurn [OF assms] d]) (simp_all add: d')
qed

lemma turn_ids_group_tool:
  assumes "turn_ids_ok g"
  shows "turn_ids_ok (group_tool m g)"
proof (cases rule: group_tool_state [of m g])
  case none
  with assms show ?thesis by simp
next
  case (patch d i f f')
  show ?thesis unfolding patch(6) by (rule sync_current(2) [OF assms patch(1)]) simp_all
qed

lemma turn_ids_group_message: "turn_ids_ok g \<Longrightarrow> turn_ids_ok (group_message json_parse g m)"
  by (simp add: group_message_def turn_ids_group_user turn_ids_group_assistant turn_ids_group_tool)

lemma turn_ids_start: "turn_ids_ok (group_start ref)"
  by (simp add: turn_ids_ok_def group_start_def)

text \<open>An invariant of the handlers holds of every run.\<close>

lemma group_run_invariant:
  assumes "I (group_start ref)" "\<And>g m. I g \<Longrightarrow> m \<in> set messages \<Longrightarrow> I (group_message json_parse g m)"
  shows "I (group_run json_parse ref messages)"
  unfolding group_run_def using assms
proof (induction messages rule: rev_induct)
  case (snoc m ms)
  then show ?case by simp
qed simp

lemma turn_ids_run: "turn_ids_ok (group_run json_parse ref messages)"
  by (rule group_run_invariant) (simp_all add: turn_ids_start turn_ids_group_message)

section \<open>The outline of the turns\<close>

definition opens_turn :: "history_message \<Rightarrow> bool" where
  "opens_turn m \<longleftrightarrow>
     hm_role m = ''user'' \<and>
     (if hidden_origin m then opensOwnTurn m
      else marker_origin m = None \<or> isUserSlashPrompt m)"

definition turn_prompt_of :: "history_message \<Rightarrow> string option" where
  "turn_prompt_of m = (if hidden_origin m then None else Some (textOf m))"

text \<open>
  The reference: each turn-opening message starts a turn with its prompt, and each assistant
  message adds a step to the last turn, or starts a promptless one if there is none.
\<close>

definition outline_step :: "(string option \<times> nat) list \<Rightarrow> history_message \<Rightarrow> (string option \<times> nat) list" where
  "outline_step acc m =
     (if opens_turn m then acc @ [(turn_prompt_of m, 0)]
      else if hm_role m = ''assistant'' then
        (if acc = [] then [(None, 1)]
         else butlast acc @ [(fst (last acc), snd (last acc) + 1)])
      else acc)"

definition turn_outline :: "transcript_turn \<Rightarrow> string option \<times> nat" where
  "turn_outline t = (turn_prompt t, length (turn_steps t))"

abbreviation outline_of :: "group_state \<Rightarrow> (string option \<times> nat) list" where
  "outline_of g \<equiv> map turn_outline (turns (gs_items g))"

lemma outline_startTurn: "outline_of (startTurn origin prompt ids g) = outline_of g @ [(prompt, 0)]"
  by (simp add: startTurn_def Let_def draftToTurnItem_def turn_outline_def)

lemma outline_group_user:
  assumes "hm_role m = ''user''"
  shows "outline_of (group_user m g) = outline_step (outline_of g) m"
proof -
  have items: "turns (gs_items (snd (collectAttachments m g))) = turns (gs_items g)" by simp
  show ?thesis
    by (auto simp: group_user_def outline_step_def opens_turn_def turn_prompt_of_def assms
        outline_startTurn items Let_def case_prod_unfold split: option.split)
qed

lemma outline_group_tool:
  assumes "turn_ids_ok g"
  shows "outline_of (group_tool m g) = outline_of g"
proof (cases rule: group_tool_state [of m g])
  case (patch d i f f')
  have len: "length (replace_in_steps i fr sts) = length sts" for fr sts
    by (induction sts) auto
  have same: "turn_outline (draftToTurn (replaceToolFrame d i (FTool f'))) = turn_outline (draftToTurn d)"
    by (simp add: turn_outline_def replaceToolFrame_def len)
  note sync = sync_current [OF assms patch(1), of "replaceToolFrame d i (FTool f')", simplified]
  have "outline_of (group_tool m g) = map turn_outline (butlast (turns (gs_items g)) @ [draftToTurn d])"
    unfolding patch(6) by (simp add: sync(1) same)
  with sync(3) show ?thesis by metis
qed simp

lemma outline_ensureTurn:
  assumes "turn_ids_ok g"
  shows "outline_of (ensureTurn origin g) = (if outline_of g = [] then [(None, 0)] else outline_of g)"
  using assms
  by (auto simp: ensureTurn_def outline_startTurn turn_ids_ok_def Let_def split: option.splits)

lemma outline_group_assistant:
  assumes ok: "turn_ids_ok g" and role: "hm_role m = ''assistant''"
  shows "outline_of (group_assistant json_parse m g) = outline_step (outline_of g) m"
proof (rule group_assistant_state [of g json_parse m])
  fix d d' ref
  let ?g = "ensureTurn FALLBACK_ORIGIN g"
  assume d: "gs_turn ?g = Some d"
    and d': "d' = d\<lparr>td_steps := td_steps d @ [next_step json_parse m (gs_ref ?g) d]\<rparr>"
    and g': "group_assistant json_parse m g = ?g\<lparr>gs_turn := Some d', gs_items := syncTurnItem (gs_items ?g) d', gs_ref := ref\<rparr>"
  note sync = sync_current [OF turn_ids_ensureTurn [OF ok] d, of d', simplified d', simplified]
  obtain us where us: "turns (gs_items ?g) = us @ [draftToTurn d]"
    "turns (syncTurnItem (gs_items ?g) d') = us @ [draftToTurn d']"
    using sync(1,3) d' by metis
  have new: "turn_outline (draftToTurn d') = (fst (turn_outline (draftToTurn d)), snd (turn_outline (draftToTurn d)) + 1)"
    by (simp add: turn_outline_def d')
  have "outline_of (group_assistant json_parse m g)
      = butlast (outline_of ?g) @ [(fst (last (outline_of ?g)), snd (last (outline_of ?g)) + 1)]"
    unfolding g' by (simp add: us new)
  with role outline_ensureTurn [OF ok, of FALLBACK_ORIGIN] show ?thesis
    by (simp add: outline_step_def opens_turn_def)
qed

lemma outline_group_message:
  assumes "turn_ids_ok g"
  shows "outline_of (group_message json_parse g m) = outline_step (outline_of g) m"
  using assms
  by (auto simp: group_message_def outline_group_user outline_group_assistant outline_group_tool)
    (auto simp: outline_step_def opens_turn_def)

lemma outline_run: "outline_of (group_run json_parse ref messages) = foldl outline_step [] messages"
proof (induction messages rule: rev_induct)
  case Nil
  show ?case by (simp add: group_run_def group_start_def)
next
  case (snoc m ms)
  have "outline_of (group_run json_parse ref (ms @ [m])) = outline_of (group_message json_parse (group_run json_parse ref ms) m)"
    by (simp add: group_run_def)
  with snoc show ?case by (simp add: outline_group_message turn_ids_run)
qed

section \<open>The rebuilt steps and frames\<close>

text \<open>
  Frame ids are unique as long as no two calls of one message share an id and no call id looks like
  the \<open>f<n>\<close> of a text frame.
\<close>

definition frame_like :: "string \<Rightarrow> bool" where
  "frame_like i = (case i of [] \<Rightarrow> False | c # cs \<Rightarrow> c = CHR ''f'' \<and> all_digits cs)"

definition calls_ok :: "history_message \<Rightarrow> bool" where
  "calls_ok m \<longleftrightarrow>
     distinct (map htc_id (tool_calls_of m)) \<and> list_all (\<lambda>c. \<not> frame_like (htc_id c)) (tool_calls_of m)"

fun frame_anchored :: "step_id \<Rightarrow> transcript_frame \<Rightarrow> bool" where
  "frame_anchored sid (FTool f) = (tc_frameId f = sid @ ''.'' @ tc_toolCallId f)"
| "frame_anchored sid _ = True"

definition step_draft_ok :: "step_draft \<Rightarrow> bool" where
  "step_draft_ok st \<longleftrightarrow>
     distinct (map frame_id (sd_frames st)) \<and> list_all (frame_anchored (sd_stepId st)) (sd_frames st)"

definition draft_ok :: "turn_draft \<Rightarrow> bool" where
  "draft_ok d \<longleftrightarrow>
     map sd_ordinal (td_steps d) = [1 .. int (length (td_steps d))] \<and>
     map sd_stepId (td_steps d) = map (stepId (td_turnId d)) [1 .. int (length (td_steps d))] \<and>
     list_all step_draft_ok (td_steps d)"

definition steps_ok :: "group_state \<Rightarrow> bool" where
  "steps_ok g \<longleftrightarrow>
     turn_ids_ok g \<and> list_all (\<lambda>t. wf_steps (turn_steps t)) (turns (gs_items g)) \<and>
     (case gs_turn g of Some d \<Rightarrow> draft_ok d | None \<Rightarrow> True)"

lemma sorted_of_int_upto: "sorted (map (of_int :: int \<Rightarrow> number) [i .. j])"
  by (induction i j rule: upto.induct) (subst upto.simps, auto)

lemma distinct_of_int_upto: "distinct (map (stepId tid) [i .. j])"
  by (simp add: distinct_map inj_on_def)

lemma draft_ok_wf:
  assumes "draft_ok d"
  shows "wf_steps (turn_steps (draftToTurn d))"
proof -
  have ids: "map step_stepId (turn_steps (draftToTurn d)) = map sd_stepId (td_steps d)"
    and ords: "map step_ordinal (turn_steps (draftToTurn d)) = map of_int (map sd_ordinal (td_steps d))"
    by (simp_all add: draftToStep_def)
  show ?thesis
    unfolding wf_steps_def ids ords using assms
    by (auto simp: draft_ok_def distinct_of_int_upto sorted_of_int_upto list_all_iff step_draft_ok_def draftToStep_def)
qed

lemma content_frames_ids:
  "\<exists>k\<ge>n. map frame_id (content_frames sid ps n) = map (frameId sid) [n + 1 .. k]"
proof (induction sid ps n rule: content_frames.induct)
  case (1 sid n)
  show ?case by (intro exI [of _ n]) simp
next
  case (2 sid t ps n)
  show ?case
  proof (cases "0 < length t")
    case True
    with "2.IH"(1) obtain k where "k \<ge> n + 1"
      "map frame_id (content_frames sid ps (n + 1)) = map (frameId sid) [n + 1 + 1 .. k]" by blast
    with True show ?thesis by (intro exI [of _ k]) (simp add: upto_rec1)
  next
    case False
    with "2.IH"(2) show ?thesis by simp
  qed
next
  case (3 sid t ps n)
  show ?case
  proof (cases "0 < length t")
    case True
    with "3.IH"(1) obtain k where "k \<ge> n + 1"
      "map frame_id (content_frames sid ps (n + 1)) = map (frameId sid) [n + 1 + 1 .. k]" by blast
    with True show ?thesis by (intro exI [of _ k]) (simp add: upto_rec1)
  next
    case False
    with "3.IH"(2) show ?thesis by simp
  qed
qed auto

lemma content_frames_anchored: "list_all (frame_anchored s) (content_frames sid ps n)"
  by (induction sid ps n rule: content_frames.induct) auto

lemma call_frames_ids:
  "map frame_id (fst (call_frames json_parse sid calls ref)) = map (\<lambda>c. sid @ ''.'' @ htc_id c) calls"
  by (induction calls arbitrary: ref) (simp_all add: case_prod_unfold Let_def tool_frame_def)

lemma call_frames_anchored: "list_all (frame_anchored sid) (fst (call_frames json_parse sid calls ref))"
  by (induction calls arbitrary: ref) (simp_all add: case_prod_unfold Let_def tool_frame_def)

lemma frame_like_id:
  assumes "0 < k" "frameId sid k = sid @ ''.'' @ i"
  shows "frame_like i"
  using assms by (auto simp: frameId_def frame_like_def int_str_def all_digits_nat_str)

lemma next_step_ok:
  assumes "calls_ok m"
  shows "step_draft_ok (next_step json_parse m ref d)"
proof -
  let ?sid = "stepId (td_turnId d) (int (length (td_steps d)) + 1)"
  obtain k where ids: "map frame_id (content_frames ?sid (content_of m) 0) = map (frameId ?sid) [1 .. k]"
    using content_frames_ids [of 0 ?sid "content_of m"] by auto
  have apart: "frameId ?sid j \<noteq> ?sid @ ''.'' @ htc_id c"
    if "j \<in> {1..k}" "c \<in> set (tool_calls_of m)" for j c
    using assms that frame_like_id [of j ?sid "htc_id c"] by (auto simp: calls_ok_def list_all_iff)
  have "distinct (map frame_id (sd_frames (next_step json_parse m ref d)))"
    using assms apart
    by (auto simp: next_step_def Let_def ids call_frames_ids distinct_map inj_on_def calls_ok_def)
  then show ?thesis
    by (simp add: step_draft_ok_def)
      (simp add: next_step_def Let_def content_frames_anchored call_frames_anchored)
qed

lemma draft_ok_snoc:
  assumes "draft_ok d" "calls_ok m"
  shows "draft_ok (d\<lparr>td_steps := td_steps d @ [next_step json_parse m ref d]\<rparr>)"
  using assms next_step_ok [OF assms(2), of json_parse ref d]
  by (simp add: draft_ok_def upto_rec2) (simp add: next_step_def Let_def add.commute)

lemma find_rev_concat:
  "find P (concat (map (\<lambda>st. rev (sd_frames st)) sts)) = Some x \<Longrightarrow>
   \<exists>us st vs. sts = us @ st # vs \<and> x \<in> set (sd_frames st) \<and> P x \<and>
     (\<forall>u\<in>set us. \<not> list_ex P (sd_frames u))"
proof (induction sts)
  case (Cons st sts)
  show ?case
  proof (cases "find P (rev (sd_frames st))")
    case None
    then have no: "\<not> list_ex P (sd_frames st)" by (simp add: find_None_iff_all list_ex_iff)
    from None Cons.prems have "find P (concat (map (\<lambda>st. rev (sd_frames st)) sts)) = Some x"
      by (simp add: find_append)
    with Cons.IH obtain us st' vs where "sts = us @ st' # vs" "x \<in> set (sd_frames st')" "P x"
      "\<forall>u\<in>set us. \<not> list_ex P (sd_frames u)" by blast
    with no show ?thesis by (intro exI [of _ "st # us"] exI [of _ st'] exI [of _ vs]) simp
  next
    case (Some y)
    then have "x = y" using Cons.prems by (simp add: find_append)
    with Some find_SomeD [OF Some] show ?thesis by (intro exI [of _ "[]"] exI [of _ st] exI [of _ sts]) simp
  qed
qed simp

lemma replace_in_steps_at:
  "\<forall>u\<in>set us. \<not> list_ex (is_tool_frame i) (sd_frames u) \<Longrightarrow> list_ex (is_tool_frame i) (sd_frames st) \<Longrightarrow>
   replace_in_steps i f (us @ st # vs) =
     us @ st\<lparr>sd_frames := replace_first (is_tool_frame i) f (sd_frames st)\<rparr> # vs"
  by (induction us) auto

text \<open>The step a tool result lands in, and what it leaves there.\<close>

lemma current_frame_step:
  assumes "currentTurnToolFrame (Some d) (Some i) = Some fr"
  obtains us st vs where "td_steps d = us @ st # vs" "fr \<in> set (sd_frames st)" "is_tool_frame i fr"
    "\<forall>u\<in>set vs. \<not> list_ex (is_tool_frame i) (sd_frames u)"
    "\<And>f. td_steps (replaceToolFrame d i f) =
       us @ st\<lparr>sd_frames := replace_first (is_tool_frame i) f (sd_frames st)\<rparr> # vs"
proof -
  have revs: "rev (concat (map sd_frames sts)) = concat (map (\<lambda>st. rev (sd_frames st)) (rev sts))" for sts
    by (induction sts) auto
  have "find (is_tool_frame i) (rev (concat (map sd_frames (td_steps d)))) = Some fr"
    using assms by (simp add: currentTurnToolFrame_def)
  from find_rev_concat [OF this [unfolded revs]] obtain us st vs where
    at: "rev (td_steps d) = us @ st # vs" "fr \<in> set (sd_frames st)" "is_tool_frame i fr"
      "\<forall>u\<in>set us. \<not> list_ex (is_tool_frame i) (sd_frames u)" by blast
  then have steps: "td_steps d = rev vs @ st # rev us" by (metis rev_rev_ident rev_append rev.simps(2) append.assoc append_Cons append_Nil)
  have "list_ex (is_tool_frame i) (sd_frames st)" using at by (auto simp: list_ex_iff)
  from replace_in_steps_at [OF at(4) this] show ?thesis
    by (intro that [OF steps at(2,3)]) (simp_all add: at(4) replaceToolFrame_def at(1))
qed

lemma replace_first_ok:
  assumes "step_draft_ok st" "FTool f \<in> set (sd_frames st)" "is_tool_frame i (FTool f)"
    and "tc_frameId f' = tc_frameId f" "tc_toolCallId f' = tc_toolCallId f"
  shows "step_draft_ok (st\<lparr>sd_frames := replace_first (is_tool_frame i) (FTool f') (sd_frames st)\<rparr>)"
proof -
  have anchored: "frame_anchored (sd_stepId st) x" if "x \<in> set (sd_frames st)" for x
    using assms(1) that by (simp add: step_draft_ok_def list_all_iff)
  have "frame_id x = frame_id (FTool f')" if "x \<in> set (sd_frames st)" "is_tool_frame i x" for x
    using anchored [OF that(1)] anchored [OF assms(2)] that assms(3-5) by (cases x) auto
  then have ids: "map frame_id (replace_first (is_tool_frame i) (FTool f') (sd_frames st)) = map frame_id (sd_frames st)"
    by (rule map_replace_first)
  have "frame_anchored (sd_stepId st) (FTool f')" using anchored [OF assms(2)] assms(4,5) by simp
  with anchored set_replace_first [of "is_tool_frame i" "FTool f'" "sd_frames st"]
  have "list_all (frame_anchored (sd_stepId st)) (replace_first (is_tool_frame i) (FTool f') (sd_frames st))"
    by (auto simp: list_all_iff)
  with ids assms(1) show ?thesis by (simp add: step_draft_ok_def)
qed

lemma draft_ok_patch:
  assumes ok: "draft_ok d" and fr: "currentTurnToolFrame (Some d) (Some i) = Some (FTool f)"
    and same: "tc_frameId f' = tc_frameId f" "tc_toolCallId f' = tc_toolCallId f"
  shows "draft_ok (replaceToolFrame d i (FTool f'))"
proof (rule current_frame_step [OF fr])
  fix us st vs
  assume st: "td_steps d = us @ st # vs" "FTool f \<in> set (sd_frames st)" "is_tool_frame i (FTool f)"
    and rep: "\<And>f. td_steps (replaceToolFrame d i f) =
       us @ st\<lparr>sd_frames := replace_first (is_tool_frame i) f (sd_frames st)\<rparr> # vs"
  have "step_draft_ok st" using ok st(1) by (simp add: draft_ok_def)
  from replace_first_ok [OF this st(2,3) same] ok show ?thesis
    by (simp add: draft_ok_def rep st(1))
qed

lemma steps_ok_startTurn: "steps_ok g \<Longrightarrow> steps_ok (startTurn origin prompt ids g)"
  unfolding steps_ok_def using turn_ids_startTurn [of g origin prompt ids]
  by (simp add: turns_startTurn) (simp add: startTurn_def Let_def draft_ok_def wf_steps_def)

lemma steps_ok_cong:
  "steps_ok g \<Longrightarrow> turns (gs_items g') = turns (gs_items g) \<Longrightarrow> gs_turn g' = gs_turn g \<Longrightarrow>
   gs_nextOrdinal g' = gs_nextOrdinal g \<Longrightarrow> steps_ok g'"
  by (simp add: steps_ok_def turn_ids_ok_def)

lemma steps_ok_sync:
  assumes ok: "steps_ok g" and d: "gs_turn g = Some d" and d': "draft_ok d'"
    and same: "td_turnId d' = td_turnId d" "td_ordinal d' = td_ordinal d"
  shows "steps_ok (g\<lparr>gs_turn := Some d', gs_items := syncTurnItem (gs_items g) d', gs_ref := ref\<rparr>)"
proof -
  have ids: "turn_ids_ok g" using ok by (simp add: steps_ok_def)
  have "list_all (\<lambda>t. wf_steps (turn_steps t)) (butlast (turns (gs_items g)) @ [draftToTurn d'])"
    using ok draft_ok_wf [OF d'] unfolding steps_ok_def list_all_append
    by (auto simp: list_all_iff simp del: draftToTurn_simps dest: in_set_butlastD)
  with sync_current(1,2) [OF ids d same] d' show ?thesis by (simp add: steps_ok_def)
qed

lemma steps_ok_ensureTurn: "steps_ok g \<Longrightarrow> steps_ok (ensureTurn origin g)"
  by (auto simp: ensureTurn_def steps_ok_startTurn split: option.split)

lemma steps_ok_group_message:
  assumes ok: "steps_ok g" and calls: "calls_ok m"
  shows "steps_ok (group_message json_parse g m)"
proof -
  have user: "steps_ok (group_user m g)"
    using ok
    by (auto simp: group_user_def Let_def case_prod_unfold split: option.split
        intro!: steps_ok_startTurn elim!: steps_ok_cong)
  have assistant: "steps_ok (group_assistant json_parse m g)"
  proof (rule group_assistant_state [of g json_parse m])
    fix d d' ref
    assume d: "gs_turn (ensureTurn FALLBACK_ORIGIN g) = Some d"
      and d': "d' = d\<lparr>td_steps := td_steps d @ [next_step json_parse m (gs_ref (ensureTurn FALLBACK_ORIGIN g)) d]\<rparr>"
      and g': "group_assistant json_parse m g = (ensureTurn FALLBACK_ORIGIN g)
         \<lparr>gs_turn := Some d', gs_items := syncTurnItem (gs_items (ensureTurn FALLBACK_ORIGIN g)) d', gs_ref := ref\<rparr>"
    have g1: "steps_ok (ensureTurn FALLBACK_ORIGIN g)" by (rule steps_ok_ensureTurn [OF ok])
    with d have "draft_ok d" by (simp add: steps_ok_def)
    then have "draft_ok d'" unfolding d' using calls by (rule draft_ok_snoc)
    then show ?thesis unfolding g' by (rule steps_ok_sync [OF g1 d]) (simp_all add: d')
  qed
  have tool: "steps_ok (group_tool m g)"
  proof (cases rule: group_tool_state [of m g])
    case none
    with ok show ?thesis by simp
  next
    case (patch d i f f')
    have "draft_ok d" using ok patch(1) by (simp add: steps_ok_def)
    from draft_ok_patch [OF this patch(3-5)] show ?thesis
      unfolding patch(6) by (rule steps_ok_sync [OF ok patch(1)]) simp_all
  qed
  from ok user assistant tool show ?thesis by (simp add: group_message_def)
qed

lemma steps_ok_run:
  "list_all calls_ok messages \<Longrightarrow> steps_ok (group_run json_parse ref messages)"
  by (rule group_run_invariant)
    (use turn_ids_start [of ref] in
      \<open>auto simp: list_all_iff steps_ok_group_message, simp add: steps_ok_def group_start_def\<close>)

lemma group_wf_items:
  assumes "list_all calls_ok messages"
  shows "wf_items (gs_items (group_run json_parse ref messages))"
  using steps_ok_run [OF assms, of json_parse ref]
  by (simp add: steps_ok_def turn_ids_ok_def Let_def wf_items_def list_all_iff sorted_of_int_upto
      distinct_map inj_on_def)

section \<open>Properties\<close>

text \<open>
  C33: the rebuilt turns are those of the reference outline: one turn per turn-opening message with
  its prompt (a promptless one for hidden openers), one leading promptless turn when an assistant
  message comes first, and as many steps in each as there are assistant messages up to the next.
\<close>

theorem group_outline:
  "map turn_outline (turns (snap_items (groupMessagesIntoSnapshot json_parse ref messages)))
   = foldl outline_step [] messages"
  by (simp add: groupMessagesIntoSnapshot_def Let_def outline_run)

text \<open>
  the rebuilt turns are numbered from 0 without a hole, their ids are \<open>t<ordinal>\<close>, and the
  next ordinal is their number, so the next live turn does not collide.
\<close>

theorem group_turn_numbering:
  "map turn_turnId (turns (snap_items (groupMessagesIntoSnapshot json_parse ref messages)))
     = map turnId [0 .. gs_nextOrdinal (group_run json_parse ref messages) - 1]
   \<and> map turn_ordinal (turns (snap_items (groupMessagesIntoSnapshot json_parse ref messages)))
     = map of_int [0 .. gs_nextOrdinal (group_run json_parse ref messages) - 1]
   \<and> gs_nextOrdinal (group_run json_parse ref messages)
     = int (length (turns (snap_items (groupMessagesIntoSnapshot json_parse ref messages))))"
proof -
  have ok: "turn_ids_ok (group_run json_parse ref messages)" by (rule turn_ids_run)
  then have "length (map turn_turnId (turns (gs_items (group_run json_parse ref messages))))
      = length (map turnId [0 .. gs_nextOrdinal (group_run json_parse ref messages) - 1])"
    unfolding turn_ids_ok_def Let_def by metis
  then have "length (turns (gs_items (group_run json_parse ref messages)))
      = nat (gs_nextOrdinal (group_run json_parse ref messages))" by simp
  with ok show ?thesis
    by (simp add: groupMessagesIntoSnapshot_def Let_def turn_ids_ok_def)
qed

text \<open>
  A snapshot rebuilt from messages whose call ids are unique per message and not of the shape
  \<open>f<n>\<close> is well formed: resetting any state with it gives a well-formed state.
\<close>

theorem group_reset_wf:
  assumes "list_all calls_ok messages" "wf_state s"
  shows "wf_state (res_state (applyReset s (groupMessagesIntoSnapshot json_parse ref messages)))"
proof -
  have "wf_snapshot (groupMessagesIntoSnapshot json_parse ref messages)"
    using group_wf_items [OF assms(1), of json_parse ref]
    by (simp add: wf_snapshot_def groupMessagesIntoSnapshot_def Let_def)
  with assms(2) wf_operation [of s "Reset [] (groupMessagesIntoSnapshot json_parse ref messages)"]
  show ?thesis by simp
qed

definition sample_message :: "string \<Rightarrow> history_message" where
  "sample_message role =
     \<lparr>hm_role = role, hm_content = Some [HPText ''hi''], hm_toolCalls = None, hm_toolCallId = None,
      hm_isError = None, hm_origin = JUndef\<rparr>"

definition sample_call :: "string \<Rightarrow> string \<Rightarrow> history_tool_call" where
  "sample_call i n = \<lparr>htc_id = i, htc_name = n, htc_arguments = Some ''x''\<rparr>"

definition sample_parse :: json_parser where
  "sample_parse ref s = None"

definition sample_history :: "history_message list" where
  "sample_history =
     [sample_message ''user'',
      sample_message ''assistant''\<lparr>hm_toolCalls := Some [sample_call ''c1'' ''read'', sample_call ''c2'' ''write'']\<rparr>,
      sample_message ''tool''\<lparr>hm_toolCallId := Some ''c2''\<rparr>]"

lemma sample_history_calls_ok: "list_all calls_ok sample_history"
  by (simp add: sample_history_def sample_message_def calls_ok_def tool_calls_of_def sample_call_def frame_like_def)


text \<open>
  A tool result lands in the frame of its call in the current turn: the frame becomes done (or
  error) with the result's text, every other frame and step stays, and the item is re-projected.
\<close>

theorem tool_result_lands:
  assumes "gs_turn g = Some d" "hm_toolCallId m = Some i" "td_steps d = pre @ st # post"
    and "sd_frames st = before @ FTool f # behind" "tc_toolCallId f = i"
    and "list_all (\<lambda>x. \<not> is_tool_frame i x) (before @ behind)"
    and "list_all (\<lambda>u. list_all (\<lambda>x. \<not> is_tool_frame i x) (sd_frames u)) post"
  shows "\<exists>d'. gs_turn (group_tool m g) = Some d'
     \<and> gs_items (group_tool m g) = syncTurnItem (gs_items g) d'
     \<and> td_steps d' = pre @ st\<lparr>sd_frames := before @ FTool (f\<lparr>
           tc_state := (if hm_isError m = Some True then ToolError else ToolDone),
           tc_output := JStr (textOf m),
           tc_error := (if hm_isError m = Some True then Some (textOf m) else None)\<rparr>) # behind\<rparr> # post"
proof -
  have none: "find (is_tool_frame i) (rev (concat (map sd_frames post))) = None"
    "find (is_tool_frame i) (rev behind) = None"
    using assms(6,7) by (auto simp: find_None_iff_all list_all_iff)
  have cur: "currentTurnToolFrame (gs_turn g) (hm_toolCallId m) = Some (FTool f)"
    using assms(1-5) none by (simp add: currentTurnToolFrame_def find_append)
  have skip: "\<not> list_ex (is_tool_frame i) (sd_frames u)" if "u \<in> set (rev post)" for u
    using assms(7) that by (auto simp: list_all_iff list_ex_iff)
  have rep: "replace_first (is_tool_frame i) x (sd_frames st) = before @ x # behind" for x
    unfolding assms(4) using assms(5,6) by (subst replace_first_append) (auto simp: list_all_iff)
  have here: "list_ex (is_tool_frame i) (sd_frames st)" using assms(4,5) by simp
  have "replace_in_steps i x (rev post @ st # rev pre) = rev post @ st\<lparr>sd_frames := before @ x # behind\<rparr> # rev pre" for x
    using replace_in_steps_at [of "rev post" i st x "rev pre"] skip here rep by simp
  then show ?thesis
    using cur assms(1-3) by (simp add: group_tool_def Let_def replaceToolFrame_def)
qed

definition sample_draft :: turn_draft where
  "sample_draft =
     \<lparr>td_turnId = ''t0'', td_ordinal = 0, td_origin = FALLBACK_ORIGIN, td_prompt = None,
      td_attachmentIds = None,
      td_steps = [\<lparr>sd_stepId = ''t0.1'', sd_ordinal = 1,
                   sd_frames = [FTool (tool_frame ''t0.1'' (sample_call ''c1'' ''read'') JUndef)]\<rparr>]\<rparr>"

theorem tool_result_lands_witness:
  "\<exists>d'. gs_turn (group_tool (sample_message ''tool''\<lparr>hm_toolCallId := Some ''c1''\<rparr>)
            (group_start 0\<lparr>gs_turn := Some sample_draft\<rparr>)) = Some d'
     \<and> map (\<lambda>st. List.map_filter frame_text (sd_frames st)) (td_steps d') = [[]]
     \<and> map (\<lambda>st. length (sd_frames st)) (td_steps d') = [1]"
  using tool_result_lands [of "group_start 0\<lparr>gs_turn := Some sample_draft\<rparr>" sample_draft
      "sample_message ''tool''\<lparr>hm_toolCallId := Some ''c1''\<rparr>" "''c1''" "[]" "hd (td_steps sample_draft)" "[]"
      "[]" "tool_frame ''t0.1'' (sample_call ''c1'' ''read'') JUndef" "[]"]
  by (auto simp: sample_draft_def group_start_def sample_message_def tool_frame_def sample_call_def map_filter_def)

text \<open>
  When one assistant message repeats a call id, the result is built from the last frame with
  that id but written over the first: the first call disappears and the last keeps running.
\<close>

theorem repeated_call_id_loses_a_call:
  "map (\<lambda>t. map (\<lambda>st. List.map_filter (\<lambda>f. case f of FTool c \<Rightarrow> Some (tc_name c, tc_state c) | _ \<Rightarrow> None)
        (step_frames st)) (turn_steps t))
     (turns (snap_items (groupMessagesIntoSnapshot sample_parse 0
        [sample_message ''user'',
         sample_message ''assistant''\<lparr>hm_toolCalls := Some [sample_call ''c'' ''read'', sample_call ''c'' ''write'']\<rparr>,
         sample_message ''tool''\<lparr>hm_toolCallId := Some ''c''\<rparr>])))
   = [[[(''write'', ToolDone), (''write'', ToolRunning)]]]"
  by code_simp

end
