(* ===== verification/JsDate.thy ===== *)
theory JsDate
  imports JsValue
begin

text \<open>
  The part of JavaScript's \<open>Date\<close> the modelled code uses. A time value is a whole number of
  milliseconds since the epoch; the calendar is the proleptic Gregorian one, with the year found as
  in the language standard (the last one that does not start after the day). Local time is a fixed
  offset \<open>tz\<close> (in milliseconds) from UTC: a zone whose offset changes is not modelled.
\<close>

section \<open>The calendar\<close>

definition day_from_year :: "int \<Rightarrow> int" where
  "day_from_year y =
     365 * (y - 1970) + (y - 1969) div 4 - (y - 1901) div 100 + (y - 1601) div 400"

definition is_leap :: "int \<Rightarrow> bool" where
  "is_leap y \<longleftrightarrow> y mod 4 = 0 \<and> (y mod 100 \<noteq> 0 \<or> y mod 400 = 0)"

text \<open>Days of the year before month \<open>m\<close>, counted from 0; \<open>m = 12\<close> gives the length of the year.\<close>

definition month_start :: "bool \<Rightarrow> int \<Rightarrow> int" where
  "month_start leap m =
     [0, 31, 59, 90, 120, 151, 181, 212, 243, 273, 304, 334, 365] ! nat m
     + (if leap \<and> 2 \<le> m then 1 else 0)"

definition year_of_day :: "int \<Rightarrow> int" where
  "year_of_day d =
     (let y = 1970 + 400 * d div 146097 in
      if d < day_from_year y then y - 1
      else if day_from_year (y + 1) \<le> d then y + 1 else y)"

definition month_of_yday :: "bool \<Rightarrow> int \<Rightarrow> int" where
  "month_of_yday leap yd = int (length (filter (\<lambda>m. month_start leap m \<le> yd) [1 .. 11]))"

definition month_of_day :: "int \<Rightarrow> int" where
  "month_of_day d = (let y = year_of_day d in month_of_yday (is_leap y) (d - day_from_year y))"

definition date_of_day :: "int \<Rightarrow> int" where
  "date_of_day d =
     (let y = year_of_day d in d - day_from_year y - month_start (is_leap y) (month_of_day d) + 1)"

text \<open>\<open>MakeDay\<close>: the month may lie outside the year, the date outside the month.\<close>

definition make_day :: "int \<Rightarrow> int \<Rightarrow> int \<Rightarrow> int" where
  "make_day y m date =
     (let ym = y + m div 12 in day_from_year ym + month_start (is_leap ym) (m mod 12) + date - 1)"

definition MS_PER_DAY :: int where "MS_PER_DAY = 86400000"

section \<open>\<open>toISOString\<close>\<close>

definition pad0 :: "nat \<Rightarrow> int \<Rightarrow> string" where
  "pad0 w n = (let s = nat_str (nat n) in replicate (w - length s) (CHR ''0'') @ s)"

definition iso_year :: "int \<Rightarrow> string" where
  "iso_year y =
     (if 0 \<le> y \<and> y \<le> 9999 then pad0 4 y
      else (if y < 0 then CHR ''-'' else CHR ''+'') # pad0 6 \<bar>y\<bar>)"

definition iso_string :: "int \<Rightarrow> string" where
  "iso_string ms =
     (let d = ms div MS_PER_DAY; r = ms mod MS_PER_DAY in
      iso_year (year_of_day d) @ ''-'' @ pad0 2 (month_of_day d + 1) @ ''-'' @ pad0 2 (date_of_day d)
      @ ''T'' @ pad0 2 (r div 3600000) @ '':'' @ pad0 2 (r div 60000 mod 60) @ '':''
      @ pad0 2 (r div 1000 mod 60) @ ''.'' @ pad0 3 (r mod 1000) @ ''Z'')"

text \<open>A time value is clipped to 100 million days around the epoch and truncated to an integer.\<close>

definition to_integer :: "number \<Rightarrow> int" where
  "to_integer x = (if x < 0 then - \<lfloor>- x\<rfloor> else \<lfloor>x\<rfloor>)"

definition toISOString :: "number \<Rightarrow> js_error + string" where
  "toISOString ms =
     (if \<bar>ms\<bar> > 8640000000000000 then Inl RangeError else Inr (iso_string (to_integer ms)))"

section \<open>Local time\<close>

definition local_day :: "int \<Rightarrow> int \<Rightarrow> int" where
  "local_day tz t = (t + tz) div MS_PER_DAY"

definition local_time :: "int \<Rightarrow> int \<Rightarrow> int" where
  "local_time tz t = (t + tz) mod MS_PER_DAY"

definition of_local :: "int \<Rightarrow> int \<Rightarrow> int \<Rightarrow> int" where
  "of_local tz day time = day * MS_PER_DAY + time - tz"

definition getMonth :: "int \<Rightarrow> int \<Rightarrow> int" where
  "getMonth tz t = month_of_day (local_day tz t)"

definition getDate :: "int \<Rightarrow> int \<Rightarrow> int" where
  "getDate tz t = date_of_day (local_day tz t)"

definition getDay :: "int \<Rightarrow> int \<Rightarrow> int" where
  "getDay tz t = (local_day tz t + 4) mod 7"

definition getHours :: "int \<Rightarrow> int \<Rightarrow> int" where
  "getHours tz t = local_time tz t div 3600000"

definition getMinutes :: "int \<Rightarrow> int \<Rightarrow> int" where
  "getMinutes tz t = local_time tz t div 60000 mod 60"

definition getSeconds :: "int \<Rightarrow> int \<Rightarrow> int" where
  "getSeconds tz t = local_time tz t div 1000 mod 60"

definition getMilliseconds :: "int \<Rightarrow> int \<Rightarrow> int" where
  "getMilliseconds tz t = local_time tz t mod 1000"

definition make_time :: "int \<Rightarrow> int \<Rightarrow> int \<Rightarrow> int \<Rightarrow> int" where
  "make_time h m s ms = h * 3600000 + m * 60000 + s * 1000 + ms"

text \<open>The setters with all the arguments the code passes.\<close>

definition setSeconds :: "int \<Rightarrow> int \<Rightarrow> int \<Rightarrow> int \<Rightarrow> int" where
  "setSeconds tz s ms t = of_local tz (local_day tz t) (make_time (getHours tz t) (getMinutes tz t) s ms)"

definition setMinutes3 :: "int \<Rightarrow> int \<Rightarrow> int \<Rightarrow> int \<Rightarrow> int \<Rightarrow> int" where
  "setMinutes3 tz m s ms t = of_local tz (local_day tz t) (make_time (getHours tz t) m s ms)"

definition setMinutes :: "int \<Rightarrow> int \<Rightarrow> int \<Rightarrow> int" where
  "setMinutes tz m t = setMinutes3 tz m (getSeconds tz t) (getMilliseconds tz t) t"

definition setHours4 :: "int \<Rightarrow> int \<Rightarrow> int \<Rightarrow> int \<Rightarrow> int \<Rightarrow> int \<Rightarrow> int" where
  "setHours4 tz h m s ms t = of_local tz (local_day tz t) (make_time h m s ms)"

definition setHours :: "int \<Rightarrow> int \<Rightarrow> int \<Rightarrow> int" where
  "setHours tz h t = setHours4 tz h (getMinutes tz t) (getSeconds tz t) (getMilliseconds tz t) t"

definition setDate :: "int \<Rightarrow> int \<Rightarrow> int \<Rightarrow> int" where
  "setDate tz date t =
     of_local tz (make_day (year_of_day (local_day tz t)) (getMonth tz t) date) (local_time tz t)"

definition setMonth :: "int \<Rightarrow> int \<Rightarrow> int \<Rightarrow> int" where
  "setMonth tz m t =
     of_local tz (make_day (year_of_day (local_day tz t)) m (getDate tz t)) (local_time tz t)"

section \<open>Facts about the calendar\<close>

lemma div_pred:
  fixes y c :: int
  assumes "0 < c"
  shows "y div c = (y - 1) div c + (if y mod c = 0 then 1 else 0)"
proof (cases "y mod c = 0")
  case True
  have "(y - 1) div c = y div c - 1"
  proof (rule int_div_pos_eq)
    show "y - 1 = c * (y div c - 1) + (c - 1)"
      using True mult_div_mod_eq [of c y] by (simp add: algebra_simps)
  qed (use assms in auto)
  with True show ?thesis by simp
next
  case False
  have "(y - 1) div c = y div c"
  proof (rule int_div_pos_eq)
    show "y - 1 = c * (y div c) + (y mod c - 1)"
      using mult_div_mod_eq [of c y] by linarith
    show "0 \<le> y mod c - 1" using False pos_mod_sign [OF assms, of y] by linarith
    show "y mod c - 1 < c" using pos_mod_bound [OF assms, of y] by linarith
  qed
  with False show ?thesis by simp
qed

lemma day_from_year_Suc: "day_from_year (y + 1) = day_from_year y + (if is_leap y then 366 else 365)"
proof -
  have four: "(y + 1 - 1969) div 4 = (y - 1969) div 4 + (if y mod 4 = 0 then 1 else 0)"
    using div_pred [of 4 "y - 1968"] mod_mult_self1 [of y "- 492" "4 :: int"] by simp
  have hundred: "(y + 1 - 1901) div 100 = (y - 1901) div 100 + (if y mod 100 = 0 then 1 else 0)"
    using div_pred [of 100 "y - 1900"] mod_mult_self1 [of y "- 19" "100 :: int"] by simp
  have four_hundred: "(y + 1 - 1601) div 400 = (y - 1601) div 400 + (if y mod 400 = 0 then 1 else 0)"
    using div_pred [of 400 "y - 1600"] mod_mult_self1 [of y "- 4" "400 :: int"] by simp
  have "y mod 100 = 0" if "y mod 400 = 0"
    using that dvd_trans [of 100 400 y] by (simp add: mod_eq_0_iff_dvd)
  moreover have "y mod 4 = 0" if "y mod 100 = 0"
    using that dvd_trans [of 4 100 y] by (simp add: mod_eq_0_iff_dvd)
  ultimately show ?thesis
    unfolding day_from_year_def four hundred four_hundred
    by (cases "y mod 4 = 0"; cases "y mod 100 = 0"; cases "y mod 400 = 0"; simp add: is_leap_def)
qed

lemma day_from_year_mono: "y < y' \<Longrightarrow> day_from_year y < day_from_year y'"
proof (induction y' rule: int_gr_induct [of y])
  case (step i)
  then show ?case using day_from_year_Suc [of i] by (cases "y = i") (auto split: if_splits)
qed (use day_from_year_Suc [of y] in \<open>auto split: if_splits\<close>)

lemma div_bounds:
  "numeral c * (x div numeral c) \<le> (x::int)" "(x::int) < numeral c * (x div numeral c) + numeral c"
  using mult_div_mod_eq [of "numeral c" x] pos_mod_bound [of "numeral c" x, OF zero_less_numeral]
    pos_mod_sign [of "numeral c" x, OF zero_less_numeral]
  by linarith+

lemma approx_year:
  fixes a b c z :: int
  assumes "4 * a \<le> z - 1969" "z - 1969 < 4 * a + 4" "100 * b \<le> z - 1901" "z - 1901 < 100 * b + 100"
    "400 * c \<le> z - 1601" "z - 1601 < 400 * c + 400"
  shows "400 * (365 * (z - 1970) + a - b + c) \<le> 146097 * z - 287810290"
    "146097 * z - 287811890 \<le> 400 * (365 * (z - 1970) + a - b + c)"
proof -
  have sum: "400 * (365 * (z - 1970) + a - b + c) = 146000 * z - 287620000 + 400 * a - 400 * b + 400 * c"
    by (simp add: algebra_simps)
  have "400 * a \<le> 100 * z - 196900" "100 * z - 197300 < 400 * a" using assms(1,2) by linarith+
  moreover have "400 * b \<le> 4 * z - 7604" "4 * z - 8004 < 400 * b" using assms(3,4) by linarith+
  ultimately show "400 * (365 * (z - 1970) + a - b + c) \<le> 146097 * z - 287810290"
    "146097 * z - 287811890 \<le> 400 * (365 * (z - 1970) + a - b + c)"
    unfolding sum using assms(5,6) by linarith+
qed

lemma year_of_day_bounds:
  "day_from_year (year_of_day d) \<le> d \<and> d < day_from_year (year_of_day d + 1)"
proof -
  let ?y = "1970 + 400 * d div 146097"
  have four: "4 * (x div 4) \<le> x" "x < 4 * (x div 4) + 4" for x :: int by (rule div_bounds)+
  have hundred: "100 * (x div 100) \<le> x" "x < 100 * (x div 100) + 100" for x :: int by (rule div_bounds)+
  have four_hundred: "400 * (x div 400) \<le> x" "x < 400 * (x div 400) + 400" for x :: int by (rule div_bounds)+
  have era: "146097 * (x div 146097) \<le> x" "x < 146097 * (x div 146097) + 146097" for x :: int
    by (rule div_bounds)+
  have approx: "400 * day_from_year z \<le> 146097 * z - 287810290"
    "146097 * z - 287811890 \<le> 400 * day_from_year z" for z
    unfolding day_from_year_def
    by (rule approx_year [OF four hundred four_hundred])+
  obtain q where q: "q = 400 * d div 146097" by blast
  have estimate: "146097 * q \<le> 400 * d" "400 * d < 146097 * q + 146097"
    using era [of "400 * d"] unfolding q by simp_all
  have "146097 * (q + 1972) = 146097 * q + 288103284" by simp
  then have "146097 * q + 291394 \<le> 400 * day_from_year (q + 1972)"
    using approx(2) [of "q + 1972"] by linarith
  with estimate have above: "d < day_from_year (q + 1972)" by linarith
  have "146097 * (q + 1969) = 146097 * q + 287664993" by simp
  then have "400 * day_from_year (q + 1969) \<le> 146097 * q - 145297"
    using approx(1) [of "q + 1969"] by linarith
  with estimate have below: "day_from_year (q + 1969) \<le> d" by linarith
  show ?thesis
    using above below by (simp add: year_of_day_def Let_def q [symmetric] add.commute)
qed

lemma year_of_day_unique:
  assumes "day_from_year y \<le> d" "d < day_from_year (y + 1)"
  shows "year_of_day d = y"
proof (rule ccontr)
  assume "year_of_day d \<noteq> y"
  then consider "year_of_day d + 1 \<le> y" | "y + 1 \<le> year_of_day d" by linarith
  then show False
    using year_of_day_bounds [of d] assms day_from_year_mono [of "year_of_day d + 1" y]
      day_from_year_mono [of "y + 1" "year_of_day d"] by cases (fastforce simp: le_less)+
qed

lemma month_start_values:
  "month_start l 0 = 0" "month_start l 1 = 31" "month_start l 2 = (if l then 60 else 59)"
  "month_start l 3 = (if l then 91 else 90)" "month_start l 4 = (if l then 121 else 120)"
  "month_start l 5 = (if l then 152 else 151)" "month_start l 6 = (if l then 182 else 181)"
  "month_start l 7 = (if l then 213 else 212)" "month_start l 8 = (if l then 244 else 243)"
  "month_start l 9 = (if l then 274 else 273)" "month_start l 10 = (if l then 305 else 304)"
  "month_start l 11 = (if l then 335 else 334)" "month_start l 12 = (if l then 366 else 365)"
  by (simp_all add: month_start_def)

lemma months_list: "[1 .. 11] = [1, 2, 3, 4, 5, 6, 7, 8, 9, 10, 11 :: int]"
  by (simp add: upto_rec1)

lemma month_of_yday_unique:
  assumes "0 \<le> m" "m \<le> 11" "month_start l m \<le> yd" "yd < month_start l (m + 1)"
  shows "month_of_yday l yd = m"
proof -
  have "m \<in> set [0 .. 11]" using assms(1,2) by simp
  then have "m \<in> {0, 1, 2, 3, 4, 5, 6, 7, 8, 9, 10, 11}" by (simp add: upto_rec1 del: set_upto)
  then show ?thesis
    using assms(3,4)
    by (elim insertE emptyE; cases l; simp add: month_of_yday_def months_list month_start_values)
qed

lemma month_of_yday_bounds:
  assumes "0 \<le> yd" "yd < month_start l 12"
  shows "0 \<le> month_of_yday l yd \<and> month_of_yday l yd \<le> 11 \<and>
    month_start l (month_of_yday l yd) \<le> yd \<and> yd < month_start l (month_of_yday l yd + 1)"
proof -
  have "\<exists>m. 0 \<le> m \<and> m \<le> 11 \<and> month_start l m \<le> yd \<and> yd < month_start l (m + 1)"
  proof (rule ccontr)
    assume none: "\<not> ?thesis"
    have step: "month_start l (m + 1) \<le> yd" if "0 \<le> m" "m \<le> 11" "month_start l m \<le> yd" for m
      using none that by force
    have "month_start l (0 + 1) \<le> yd" using assms(1) by (intro step) (simp_all add: month_start_values)
    then have "month_start l (1 + 1) \<le> yd" by (intro step) simp_all
    then have "month_start l (2 + 1) \<le> yd" by (intro step) simp_all
    then have "month_start l (3 + 1) \<le> yd" by (intro step) simp_all
    then have "month_start l (4 + 1) \<le> yd" by (intro step) simp_all
    then have "month_start l (5 + 1) \<le> yd" by (intro step) simp_all
    then have "month_start l (6 + 1) \<le> yd" by (intro step) simp_all
    then have "month_start l (7 + 1) \<le> yd" by (intro step) simp_all
    then have "month_start l (8 + 1) \<le> yd" by (intro step) simp_all
    then have "month_start l (9 + 1) \<le> yd" by (intro step) simp_all
    then have "month_start l (10 + 1) \<le> yd" by (intro step) simp_all
    then have "month_start l (11 + 1) \<le> yd" by (intro step) simp_all
    with assms(2) show False by simp
  qed
  then show ?thesis using month_of_yday_unique by metis
qed

section \<open>The fields of a day\<close>

lemma month_start_12: "month_start (is_leap y) 12 = day_from_year (y + 1) - day_from_year y"
  by (simp add: month_start_values day_from_year_Suc)

text \<open>A day lies in the month its fields name, and only in that one.\<close>

lemma day_in_month:
  fixes d defines "y \<equiv> year_of_day d" and "m \<equiv> month_of_day d"
  shows "0 \<le> m" "m \<le> 11"
    "day_from_year y + month_start (is_leap y) m \<le> d"
    "d < day_from_year y + month_start (is_leap y) (m + 1)"
proof -
  have "0 \<le> d - day_from_year y" "d - day_from_year y < month_start (is_leap y) 12"
    using year_of_day_bounds [of d] by (simp_all add: y_def month_start_12)
  from month_of_yday_bounds [OF this]
  show "0 \<le> m" "m \<le> 11" "day_from_year y + month_start (is_leap y) m \<le> d"
    "d < day_from_year y + month_start (is_leap y) (m + 1)"
    by (simp_all add: m_def y_def month_of_day_def Let_def)
qed

lemma month_start_mono: "0 \<le> m \<Longrightarrow> m \<le> 11 \<Longrightarrow> month_start l m < month_start l (m + 1)"
proof -
  assume "0 \<le> m" "m \<le> 11"
  then have "m \<in> set [0 .. 11]" by simp
  then have "m \<in> {0, 1, 2, 3, 4, 5, 6, 7, 8, 9, 10, 11}" by (simp add: upto_rec1 del: set_upto)
  then show ?thesis by (elim insertE emptyE; simp add: month_start_values)
qed

lemma month_start_le_year: "0 \<le> m \<Longrightarrow> m \<le> 12 \<Longrightarrow> 0 \<le> month_start l m \<and> month_start l m \<le> month_start l 12"
proof -
  assume "0 \<le> m" "m \<le> 12"
  then have "m \<in> set [0 .. 12]" by simp
  then have "m \<in> {0, 1, 2, 3, 4, 5, 6, 7, 8, 9, 10, 11, 12}" by (simp add: upto_rec1 del: set_upto)
  then show ?thesis by (elim insertE emptyE; simp add: month_start_values)
qed

lemma fields_unique:
  assumes "0 \<le> m" "m \<le> 11" "day_from_year y + month_start (is_leap y) m \<le> d"
    "d < day_from_year y + month_start (is_leap y) (m + 1)"
  shows "year_of_day d = y" "month_of_day d = m"
proof -
  have "month_start (is_leap y) (m + 1) \<le> month_start (is_leap y) 12" "0 \<le> month_start (is_leap y) m"
    using month_start_le_year assms(1,2) by simp_all
  with assms(3,4) show y: "year_of_day d = y"
    by (intro year_of_day_unique) (simp_all add: month_start_12 del: month_start_values)
  show "month_of_day d = m"
    using assms by (simp add: month_of_day_def Let_def y month_of_yday_unique)
qed

lemma make_day_in_year:
  "0 \<le> m \<Longrightarrow> m \<le> 11 \<Longrightarrow> make_day y m date = day_from_year y + month_start (is_leap y) m + date - 1"
  by (simp add: make_day_def Let_def div_pos_pos_trivial mod_pos_pos_trivial)

lemma make_day_next_month:
  assumes "0 \<le> m" "m \<le> 11"
  shows "make_day y (m + 1) 1 = day_from_year y + month_start (is_leap y) (m + 1)"
proof (cases "m = 11")
  case True
  have "month_start (is_leap (y + 1)) 0 = 0" "month_start (is_leap y) 12 = day_from_year (y + 1) - day_from_year y"
    by (simp_all add: month_start_values(1) month_start_12)
  with True show ?thesis by (simp add: make_day_def Let_def)
next
  case False
  with assms show ?thesis by (subst make_day_in_year) simp_all
qed

lemma make_day_fields [simp]: "make_day (year_of_day d) (month_of_day d) (date_of_day d) = d"
  using day_in_month [of d] by (subst make_day_in_year) (simp_all add: date_of_day_def Let_def)

lemma date_of_day_bounds: "1 \<le> date_of_day d"
  using day_in_month [of d] by (simp add: date_of_day_def Let_def)

lemma first_of_month:
  fixes d defines "y \<equiv> year_of_day d" and "m \<equiv> month_of_day d"
  shows "make_day y m 1 \<le> d" "year_of_day (make_day y m 1) = y" "month_of_day (make_day y m 1) = m"
    "date_of_day (make_day y m 1) = 1"
proof -
  note m = day_in_month [of d, folded y_def m_def]
  have first: "make_day y m 1 = day_from_year y + month_start (is_leap y) m"
    using m by (subst make_day_in_year) simp_all
  with m show "make_day y m 1 \<le> d" by simp
  note fields = fields_unique [OF m(1,2), of y "make_day y m 1"]
  show "year_of_day (make_day y m 1) = y" "month_of_day (make_day y m 1) = m"
    using fields first month_start_mono [OF m(1,2)] by simp_all
  then show "date_of_day (make_day y m 1) = 1" by (simp add: date_of_day_def Let_def first)
qed

lemma next_month:
  fixes d defines "next \<equiv> make_day (year_of_day d) (month_of_day d + 1) 1"
  shows "d < next" "\<And>d'. d \<le> d' \<Longrightarrow> d' < next \<Longrightarrow> month_of_day d' = month_of_day d"
proof -
  note m = day_in_month [of d]
  have next_eq: "next = day_from_year (year_of_day d) + month_start (is_leap (year_of_day d)) (month_of_day d + 1)"
    unfolding next_def by (rule make_day_next_month [OF m(1,2)])
  with m show "d < next" by simp
  show "month_of_day d' = month_of_day d" if "d \<le> d'" "d' < next" for d'
    using that m by (intro fields_unique(2) [of _ "year_of_day d"]) (simp_all add: next_eq)
qed

section \<open>Local time, split into day and time of day\<close>

lemma MS_PER_DAY_pos [simp]: "0 < MS_PER_DAY"
  by (simp add: MS_PER_DAY_def)

lemma local_split: "t + tz = local_day tz t * MS_PER_DAY + local_time tz t"
  by (simp add: local_day_def local_time_def)

lemma local_time_bounds: "0 \<le> local_time tz t" "local_time tz t < MS_PER_DAY"
  by (simp_all add: local_time_def)

lemma of_local_day:
  assumes "0 \<le> time" "time < MS_PER_DAY"
  shows "local_day tz (of_local tz day time) = day" "local_time tz (of_local tz day time) = time"
  using assms by (simp_all add: local_day_def local_time_def of_local_def div_pos_pos_trivial mod_pos_pos_trivial)

lemma local_day_unique: "day * MS_PER_DAY \<le> t + tz \<Longrightarrow> t + tz < (day + 1) * MS_PER_DAY \<Longrightarrow> local_day tz t = day"
  unfolding local_day_def by (rule int_div_pos_eq [where r = "t + tz - day * MS_PER_DAY"]) (simp_all add: algebra_simps)

lemma local_day_mono: "t \<le> t' \<Longrightarrow> local_day tz t \<le> local_day tz t'"
  by (simp add: local_day_def zdiv_mono1)

lemma local_day_less: "t + tz < day * MS_PER_DAY \<Longrightarrow> local_day tz t < day"
proof (rule ccontr)
  assume less: "t + tz < day * MS_PER_DAY" and "\<not> local_day tz t < day"
  then have "day * MS_PER_DAY \<le> local_day tz t * MS_PER_DAY" by (simp add: mult_right_mono)
  with less local_split [of t tz] local_time_bounds(1) [of tz t] show False by linarith
qed

end
