(* ===== verification/FoldFacts.thy ===== *)
theory FoldFacts
  imports GroupTurns JsDate
begin

text \<open>
  \<open>packages/transcript/src/history/foldFacts.ts\<close>: the durable facts of the wire records (tasks,
  interactions, todos, the plan and swarm badges, and the markers and task references they leave)
  folded onto a base snapshot. Reading \<open>taskId\<close> of a \<open>null\<close> info throws, and so does printing
  a time outside the range of dates: the fold is a sum with the exception on the left.
\<close>

record wire_record =
  wr_type :: string
  wr_time :: json
  wr_fields :: "(string \<times> json) list"

definition field :: "wire_record \<Rightarrow> string \<Rightarrow> json" where
  "field r k = (case map_of (wr_fields r) k of None \<Rightarrow> JUndef | Some v \<Rightarrow> v)"

definition mapTaskKind :: "json \<Rightarrow> task_kind" where
  "mapTaskKind k =
     (if k = JStr ''process'' then TaskShell
      else if k = JStr ''agent'' then TaskSubagent else TaskOther)"

text \<open>\<open>TASK_STATES\<close>, with the member each string stands for.\<close>

definition TASK_STATES :: "(string \<times> task_state) list" where
  "TASK_STATES =
     [(''running'', TaskRunning), (''completed'', TaskCompleted), (''failed'', TaskFailed),
      (''timed_out'', TaskTimedOut), (''killed'', TaskKilled), (''lost'', TaskLost)]"

definition mapInteractionEndState :: "interaction_kind \<Rightarrow> json \<Rightarrow> interaction_state" where
  "mapInteractionEndState kind response =
     (if kind = InteractionQuestion then (if response = JNull then IDismissed else IAnswered)
      else
        let decision = js_opt_prop response ''decision'' in
        if decision = JStr ''approved'' then IApproved
        else if decision = JStr ''rejected'' then IRejected
        else ICancelled)"

definition epochMsToIso :: "json \<Rightarrow> js_error + string option" where
  "epochMsToIso v =
     (case v of JNum n \<Rightarrow> map_sum id Some (toISOString n) | _ \<Rightarrow> Inr None)"

definition recordTimeIso :: "wire_record \<Rightarrow> js_error + string option" where
  "recordTimeIso r =
     (case wr_time r of
        JNum n \<Rightarrow> map_sum id Some (toISOString n)
      | JStr s \<Rightarrow> Inr (Some s)
      | _ \<Rightarrow> Inr None)"

text \<open>\<open>ref\<close> is the identity of the object the rest pattern allocates.\<close>

definition payloadOf :: "nat \<Rightarrow> wire_record \<Rightarrow> json" where
  "payloadOf ref r = JObj ref (wr_fields r)"

definition todo_status_of :: "json \<Rightarrow> todo_status option" where
  "todo_status_of v =
     (if v = JStr ''pending'' then Some TodoPending
      else if v = JStr ''in_progress'' then Some TodoInProgress
      else if v = JStr ''done'' then Some TodoDone else None)"

definition todo_entry :: "json \<Rightarrow> todo_item option" where
  "todo_entry v =
     (case (js_opt_prop v ''title'', todo_status_of (js_opt_prop v ''status'')) of
        (JStr t, Some s) \<Rightarrow> Some \<lparr>todo_title = t, todo_status = s\<rparr>
      | _ \<Rightarrow> None)"

definition readTodoItems :: "json \<Rightarrow> todo_item list" where
  "readTodoItems raw = (case raw of JArr _ xs \<Rightarrow> List.map_filter todo_entry xs | _ \<Rightarrow> [])"

section \<open>The fold\<close>

record fold_state =
  ff_tasks :: "(task_id, transcript_task) jsmap"
  ff_interactions :: "(string, transcript_interaction) jsmap"
  ff_todo :: "transcript_todo option"
  ff_planActive :: "bool option"
  ff_planRevision :: "plan_mode option"
  ff_swarmActive :: "bool option"
  ff_appended :: "transcript_item list"
  ff_markerSeq :: nat
  ff_usedRefIds :: "string list"
  ff_ref :: nat

definition marker_number :: "string \<Rightarrow> nat option" where
  "marker_number i =
     (case i of c # cs \<Rightarrow> if c = CHR ''m'' \<and> all_digits cs then Some (digits_val 0 cs) else None
              | [] \<Rightarrow> None)"

fun scan_items :: "transcript_item list \<Rightarrow> nat \<Rightarrow> string list \<Rightarrow> nat \<times> string list" where
  "scan_items [] seq used = (seq, used)"
| "scan_items (IMarker m # es) seq used =
     scan_items es (case marker_number (marker_markerId (obj_val m)) of
                      Some n \<Rightarrow> max seq n | None \<Rightarrow> seq) used"
| "scan_items (ITaskRef r # es) seq used = scan_items es seq (js_set_add (taskref_refId (obj_val r)) used)"
| "scan_items (ITurn t # es) seq used = scan_items es seq used"

definition fact_marker :: "string \<Rightarrow> wire_record \<Rightarrow> fold_state \<Rightarrow> js_error + fold_state" where
  "fact_marker marker r s =
     (case recordTimeIso r of
        Inl e \<Rightarrow> Inl e
      | Inr stamp \<Rightarrow>
          let n = ff_markerSeq s + 1;
              item = IMarker (Obj (ff_ref s + 1)
                       \<lparr>marker_markerId = ''m'' @ nat_str n, marker_marker = marker,
                        marker_payload = payloadOf (ff_ref s) r, marker_at = stamp\<rparr>)
          in Inr (s\<lparr>ff_markerSeq := n, ff_appended := ff_appended s @ [item], ff_ref := ff_ref s + 2\<rparr>))"

definition task_of_info ::
  "string \<Rightarrow> json \<Rightarrow> json \<Rightarrow> transcript_task option \<Rightarrow> string option \<Rightarrow> string option \<Rightarrow> transcript_task" where
  "task_of_info i info tail prev startedAt endedAt =
     \<lparr>task_taskId = i,
      task_kind = mapTaskKind (js_opt_prop info ''kind''),
      task_state =
        (case Option.bind (js_string_of (js_opt_prop info ''status'')) (map_of TASK_STATES) of
           Some st \<Rightarrow> st
         | None \<Rightarrow> (case prev of Some p \<Rightarrow> task_state p | None \<Rightarrow> TaskRunning)),
      task_detached =
        (case js_opt_prop info ''detached'' of
           JBool b \<Rightarrow> b
         | _ \<Rightarrow> (case prev of Some p \<Rightarrow> task_detached p | None \<Rightarrow> True)),
      task_description =
        (case js_opt_prop info ''description'' of JStr d \<Rightarrow> Some d | _ \<Rightarrow> Option.bind prev task_description),
      task_agentId =
        (case js_opt_prop info ''agentId'' of JStr a \<Rightarrow> Some a | _ \<Rightarrow> Option.bind prev task_agentId),
      task_outputTail =
        (case tail of JStr t \<Rightarrow> t | _ \<Rightarrow> (case prev of Some p \<Rightarrow> task_outputTail p | None \<Rightarrow> [])),
      task_startedAt = startedAt, task_endedAt = endedAt,
      task_resultSummary = None, task_error = None, task_stateReason = None, task_usage = None\<rparr>"

definition fact_taskref :: "string \<Rightarrow> wire_record \<Rightarrow> fold_state \<Rightarrow> js_error + fold_state" where
  "fact_taskref i r s =
     (let refId = ''ref-'' @ i in
      if refId \<in> set (ff_usedRefIds s) then Inr s
      else case recordTimeIso r of
             Inl e \<Rightarrow> Inl e
           | Inr stamp \<Rightarrow>
               Inr (s\<lparr>ff_usedRefIds := js_set_add refId (ff_usedRefIds s),
                      ff_appended := ff_appended s @
                        [ITaskRef (Obj (ff_ref s) \<lparr>taskref_refId = refId, taskref_taskId = i, taskref_at = stamp\<rparr>)],
                      ff_ref := ff_ref s + 1\<rparr>))"

definition upsertTask :: "wire_record \<Rightarrow> fold_state \<Rightarrow> js_error + fold_state" where
  "upsertTask r s =
     (let info = field r ''info'' in
      if info = JUndef then Inr s
      else case js_prop info ''taskId'' of
        Inl e \<Rightarrow> Inl e
      | Inr (JStr i) \<Rightarrow>
          (let prev = jm_get (ff_tasks s) i in
           case (case Option.bind prev task_startedAt of
                   Some t \<Rightarrow> Inr (Some t) | None \<Rightarrow> epochMsToIso (js_opt_prop info ''startedAt'')) of
             Inl e \<Rightarrow> Inl e
           | Inr startedAt \<Rightarrow>
               (case epochMsToIso (js_opt_prop info ''endedAt'') of
                  Inl e \<Rightarrow> Inl e
                | Inr ended \<Rightarrow>
                    let task = task_of_info i info (field r ''outputTail'') prev startedAt
                                 (coalesce ended (Option.bind prev task_endedAt));
                        s1 = s\<lparr>ff_tasks := jm_set i task (ff_tasks s)\<rparr>
                    in if wr_type r = ''task.started'' then fact_taskref i r s1 else Inr s1))
      | Inr _ \<Rightarrow> Inr s)"

definition request_kind :: "json \<Rightarrow> interaction_kind option" where
  "request_kind k =
     (if k = JStr ''approval'' then Some InteractionApproval
      else if k = JStr ''question'' then Some InteractionQuestion else None)"

definition fact_request :: "wire_record \<Rightarrow> fold_state \<Rightarrow> fold_state" where
  "fact_request r s =
     (case (request_kind (field r ''kind''), field r ''id'') of
        (Some kind, JStr i) \<Rightarrow>
          s\<lparr>ff_interactions := jm_set i
              \<lparr>int_interactionId = i, int_interactionKind = kind,
               int_toolCallId = coalesce (js_string_of (field r ''toolCallId''))
                                  (js_string_of (js_opt_prop (field r ''request'') ''toolCallId'')),
               int_state = IPending, int_request = field r ''request'', int_response = JUndef\<rparr>
              (ff_interactions s)\<rparr>
      | _ \<Rightarrow> s)"

definition fact_resolved :: "wire_record \<Rightarrow> fold_state \<Rightarrow> fold_state" where
  "fact_resolved r s =
     (case js_string_of (field r ''id'') of
        None \<Rightarrow> s
      | Some i \<Rightarrow>
          (case jm_get (ff_interactions s) i of
             None \<Rightarrow> s
           | Some e \<Rightarrow>
               s\<lparr>ff_interactions := jm_set i
                   (e\<lparr>int_state := mapInteractionEndState (int_interactionKind e) (field r ''response''),
                      int_response := field r ''response''\<rparr>) (ff_interactions s)\<rparr>))"

definition fact_todo :: "wire_record \<Rightarrow> fold_state \<Rightarrow> js_error + fold_state" where
  "fact_todo r s =
     (if field r ''key'' \<noteq> JStr ''todo'' then Inr s
      else case recordTimeIso r of
        Inl e \<Rightarrow> Inl e
      | Inr stamp \<Rightarrow>
          Inr (s\<lparr>ff_todo := Some \<lparr>todo_todoId = ''todo'',
                                  todo_items = Obj (ff_ref s) (readTodoItems (field r ''value'')),
                                  todo_updatedAt = stamp\<rparr>,
                 ff_ref := ff_ref s + 1\<rparr>))"

definition fold_record :: "fold_state \<Rightarrow> wire_record \<Rightarrow> js_error + fold_state" where
  "fold_record s r =
     (let t = wr_type r in
      if t = ''tools.update_store'' then fact_todo r s
      else if t = ''plan_mode.enter''
        then fact_marker ''plan.enter'' r (s\<lparr>ff_planActive := Some True, ff_planRevision := None\<rparr>)
      else if t = ''plan_mode.exit'' \<or> t = ''plan_mode.cancel''
        then fact_marker ''plan.exit'' r (s\<lparr>ff_planActive := Some False, ff_planRevision := None\<rparr>)
      else if t = ''plan.revision''
        then fact_marker ''plan.revision'' r
               (s\<lparr>ff_planActive := Some True,
                  ff_planRevision := Some \<lparr>plan_reviewPath = js_string_of (field r ''path''),
                                           plan_version = js_number_of (field r ''version'')\<rparr>\<rparr>)
      else if t = ''swarm_mode.enter'' then fact_marker ''swarm.enter'' r (s\<lparr>ff_swarmActive := Some True\<rparr>)
      else if t = ''swarm_mode.exit'' then fact_marker ''swarm.exit'' r (s\<lparr>ff_swarmActive := Some False\<rparr>)
      else if t = ''task.started'' \<or> t = ''task.terminated'' then upsertTask r s
      else if t = ''interaction.request'' then Inr (fact_request r s)
      else if t = ''interaction.resolved'' then Inr (fact_resolved r s)
      else Inr s)"

fun fold_records :: "wire_record list \<Rightarrow> fold_state \<Rightarrow> js_error + fold_state" where
  "fold_records [] s = Inr s"
| "fold_records (r # rs) s = (case fold_record s r of Inl e \<Rightarrow> Inl e | Inr s' \<Rightarrow> fold_records rs s')"

definition cancel_pending :: "transcript_interaction \<Rightarrow> transcript_interaction" where
  "cancel_pending i = (if int_state i = IPending then i\<lparr>int_state := ICancelled\<rparr> else i)"

definition fold_start :: "nat \<Rightarrow> agent_snapshot \<Rightarrow> fold_state" where
  "fold_start ref base =
     (let (seq, used) = scan_items (snap_items base) 0 [] in
      \<lparr>ff_tasks = [], ff_interactions = [], ff_todo = None, ff_planActive = None,
       ff_planRevision = None, ff_swarmActive = None, ff_appended = [], ff_markerSeq = seq,
       ff_usedRefIds = used, ff_ref = ref\<rparr>)"

fun plan_value :: "bool option \<Rightarrow> plan_mode option \<Rightarrow> plan_mode option \<Rightarrow> plan_mode option" where
  "plan_value None revision old = old"
| "plan_value (Some True) revision old =
     coalesce revision (Some \<lparr>plan_reviewPath = None, plan_version = None\<rparr>)"
| "plan_value (Some False) revision old = None"

fun swarm_value :: "bool option \<Rightarrow> swarm_mode option \<Rightarrow> swarm_mode option" where
  "swarm_value None old = old"
| "swarm_value (Some True) old = Some \<lparr>swarm_trigger = None\<rparr>"
| "swarm_value (Some False) old = None"

definition plan_badge :: "fold_state \<Rightarrow> plan_mode option \<Rightarrow> plan_mode option" where
  "plan_badge s old = plan_value (ff_planActive s) (ff_planRevision s) old"

definition swarm_badge :: "fold_state \<Rightarrow> swarm_mode option \<Rightarrow> swarm_mode option" where
  "swarm_badge s old = swarm_value (ff_swarmActive s) old"

definition fold_finish :: "fold_state \<Rightarrow> agent_snapshot \<Rightarrow> agent_snapshot" where
  "fold_finish s base =
     (let old = meta_modes (snap_meta base);
          interactions = map (\<lambda>(k, i). (k, cancel_pending i)) (ff_interactions s);
          touched = (ff_planActive s \<noteq> None \<or> ff_swarmActive s \<noteq> None)
      in base\<lparr>snap_items := (if 0 < length (ff_appended s) then snap_items base @ ff_appended s
                             else snap_items base),
              snap_tasks := jm_values (ff_tasks s),
              snap_interactions := jm_values interactions,
              snap_todos := (case ff_todo s of Some t \<Rightarrow> [t] | None \<Rightarrow> snap_todos base),
              snap_meta := (snap_meta base)\<lparr>meta_modes :=
                (if touched
                 then Some \<lparr>modes_plan = plan_badge s (Option.bind old modes_plan),
                            modes_swarm = swarm_badge s (Option.bind old modes_swarm)\<rparr>
                 else old)\<rparr>\<rparr>)"

definition foldWireRecordFacts ::
  "nat \<Rightarrow> wire_record list \<Rightarrow> agent_snapshot \<Rightarrow> js_error + agent_snapshot" where
  "foldWireRecordFacts ref records base =
     map_sum id (\<lambda>s. fold_finish s base) (fold_records records (fold_start ref base))"

section \<open>What one record does\<close>

lemma fact_marker_Inr:
  "fact_marker k r s = Inr s' \<longleftrightarrow>
   (\<exists>stamp. recordTimeIso r = Inr stamp \<and>
     s' = s\<lparr>ff_markerSeq := ff_markerSeq s + 1,
            ff_appended := ff_appended s @
              [IMarker (Obj (ff_ref s + 1)
                 \<lparr>marker_markerId = ''m'' @ nat_str (ff_markerSeq s + 1), marker_marker = k,
                  marker_payload = payloadOf (ff_ref s) r, marker_at = stamp\<rparr>)],
            ff_ref := ff_ref s + 2\<rparr>)"
  by (auto simp: fact_marker_def Let_def split: sum.splits)

lemma fact_todo_Inr:
  assumes "fact_todo r s = Inr s'"
  shows "\<exists>td n. s' = s\<lparr>ff_todo := td, ff_ref := n\<rparr>"
proof (cases "field r ''key'' = JStr ''todo''")
  case True
  with assms show ?thesis by (auto simp: fact_todo_def split: sum.splits)
next
  case False
  with assms have "s' = s\<lparr>ff_todo := ff_todo s, ff_ref := ff_ref s\<rparr>" by (simp add: fact_todo_def)
  then show ?thesis by blast
qed

lemma fact_taskref_Inr:
  assumes "fact_taskref i r s = Inr s'"
  obtains (seen) "''ref-'' @ i \<in> set (ff_usedRefIds s)" "s' = s"
  | (fresh) stamp where "''ref-'' @ i \<notin> set (ff_usedRefIds s)"
      "s' = s\<lparr>ff_usedRefIds := js_set_add (''ref-'' @ i) (ff_usedRefIds s),
              ff_appended := ff_appended s @
                [ITaskRef (Obj (ff_ref s) \<lparr>taskref_refId = ''ref-'' @ i, taskref_taskId = i, taskref_at = stamp\<rparr>)],
              ff_ref := ff_ref s + 1\<rparr>"
  using assms by (auto simp: fact_taskref_def Let_def split: sum.splits if_splits)

lemma task_of_info_id [simp]: "task_taskId (task_of_info i info tail prev a b) = i"
  by (simp add: task_of_info_def)

lemma upsertTask_Inr:
  assumes "upsertTask r s = Inr s'"
  obtains (none) "s' = s"
  | (task) i t where "task_taskId t = i"
      "(if wr_type r = ''task.started'' then fact_taskref i r (s\<lparr>ff_tasks := jm_set i t (ff_tasks s)\<rparr>)
        else Inr (s\<lparr>ff_tasks := jm_set i t (ff_tasks s)\<rparr>)) = Inr s'"
proof (cases "field r ''info'' = JUndef")
  case True
  with assms show ?thesis by (auto simp: upsertTask_def intro: none)
next
  case False
  show ?thesis
  proof (cases "js_prop (field r ''info'') ''taskId''")
    case (Inl e)
    with False assms show ?thesis by (simp add: upsertTask_def Let_def)
  next
    case (Inr v)
    show ?thesis
    proof (cases v)
      case (JStr i)
      let ?prev = "jm_get (ff_tasks s) i"
      from False Inr JStr assms obtain a b where
        "(let s1 = s\<lparr>ff_tasks := jm_set i (task_of_info i (field r ''info'') (field r ''outputTail'') ?prev a b) (ff_tasks s)\<rparr>
          in if wr_type r = ''task.started'' then fact_taskref i r s1 else Inr s1) = Inr s'"
        by (auto simp: upsertTask_def Let_def split: sum.splits)
      then show ?thesis
        by (intro task [of "task_of_info i (field r ''info'') (field r ''outputTail'') ?prev a b" i])
          (simp_all add: Let_def)
    qed (use False Inr assms in \<open>auto simp: upsertTask_def Let_def intro: none\<close>)
  qed
qed

lemma fact_request_state:
  obtains (none) "fact_request r s = s"
  | (request) i x where "int_interactionId x = i" "fact_request r s = s\<lparr>ff_interactions := jm_set i x (ff_interactions s)\<rparr>"
proof (cases "request_kind (field r ''kind'')")
  case None
  then show ?thesis by (intro none) (simp add: fact_request_def)
next
  case (Some kind)
  show ?thesis
  proof (cases "field r ''id''")
    case (JStr i)
    from Some JStr show ?thesis by (intro request [OF _ fact_request_def [THEN trans]]) simp_all
  qed (use Some none in \<open>simp_all add: fact_request_def\<close>)
qed

lemma fact_resolved_state:
  obtains (none) "fact_resolved r s = s"
  | (resolved) i e x where "jm_get (ff_interactions s) i = Some e" "int_interactionId x = int_interactionId e"
      "fact_resolved r s = s\<lparr>ff_interactions := jm_set i x (ff_interactions s)\<rparr>"
proof (cases "\<exists>i e. js_string_of (field r ''id'') = Some i \<and> jm_get (ff_interactions s) i = Some e")
  case True
  then obtain i e where "js_string_of (field r ''id'') = Some i" "jm_get (ff_interactions s) i = Some e" by blast
  then show ?thesis
    by (intro resolved [of i e "e\<lparr>int_state := mapInteractionEndState (int_interactionKind e) (field r ''response''),
        int_response := field r ''response''\<rparr>"]) (simp_all add: fact_resolved_def)
next
  case False
  then show ?thesis by (intro none) (auto simp: fact_resolved_def split: option.splits)
qed

section \<open>Invariants of the fold\<close>

lemma fold_records_invariant:
  "fold_records rs s = Inr s' \<Longrightarrow> I s \<Longrightarrow>
   (\<And>r t t'. r \<in> set rs \<Longrightarrow> I t \<Longrightarrow> fold_record t r = Inr t' \<Longrightarrow> I t') \<Longrightarrow> I s'"
proof (induction rs arbitrary: s)
  case (Cons r rs)
  from Cons.prems(1) obtain t where t: "fold_record s r = Inr t" "fold_records rs t = Inr s'"
    by (auto split: sum.splits)
  have "I t" using Cons.prems(2,3) t(1) by (meson list.set_intros(1))
  with t(2) show ?case using Cons.prems(3) by (intro Cons.IH) (auto)
qed simp

text \<open>The interactions are stored under their own id, each once.\<close>

definition ints_ok :: "fold_state \<Rightarrow> bool" where
  "ints_ok s \<longleftrightarrow> jm_ok (ff_interactions s) \<and> jm_keyed int_interactionId (ff_interactions s)"

lemma ints_ok_cong: "ints_ok s \<Longrightarrow> ff_interactions s' = ff_interactions s \<Longrightarrow> ints_ok s'"
  by (simp add: ints_ok_def)

lemma ints_ok_set:
  "ints_ok s \<Longrightarrow> int_interactionId x = i \<Longrightarrow> ints_ok (s\<lparr>ff_interactions := jm_set i x (ff_interactions s)\<rparr>)"
  by (simp add: ints_ok_def jm_ok_set jm_keyed_set)

lemma fact_taskref_ints: "fact_taskref i r s = Inr s' \<Longrightarrow> ff_interactions s' = ff_interactions s"
  by (erule fact_taskref_Inr) simp_all

lemma upsertTask_ints: "upsertTask r s = Inr s' \<Longrightarrow> ff_interactions s' = ff_interactions s"
  by (erule upsertTask_Inr) (auto dest!: fact_taskref_ints split: if_splits)

lemma ints_ok_request: "ints_ok s \<Longrightarrow> ints_ok (fact_request r s)"
  by (rule fact_request_state [of r s]) (simp_all add: ints_ok_set)

lemma ints_ok_resolved:
  assumes "ints_ok s"
  shows "ints_ok (fact_resolved r s)"
proof (rule fact_resolved_state [of r s])
  fix i e x
  assume e: "jm_get (ff_interactions s) i = Some e" "int_interactionId x = int_interactionId e"
    and s': "fact_resolved r s = s\<lparr>ff_interactions := jm_set i x (ff_interactions s)\<rparr>"
  have "int_interactionId x = i" using assms e jm_keyed_get by (fastforce simp: ints_ok_def)
  with assms s' show ?thesis by (simp add: ints_ok_set)
qed (use assms in simp)

lemma ints_ok_record:
  assumes r: "fold_record s r = Inr s'" and ok: "ints_ok s"
  shows "ints_ok s'"
proof -
  have todo: "ints_ok t" if "fact_todo r s = Inr t" for t
    using fact_todo_Inr [OF that] by (auto intro: ints_ok_cong [OF ok])
  have task: "ints_ok t" if "upsertTask r s = Inr t" for t
    using upsertTask_ints [OF that] by (rule ints_ok_cong [OF ok])
  show ?thesis
    using r todo task ints_ok_request [OF ok] ints_ok_resolved [OF ok] ok
    by (auto simp: fold_record_def Let_def fact_marker_Inr split: if_splits intro: ints_ok_cong [OF ok])
qed

text \<open>The ids the fold gives to its markers and references are new.\<close>

fun marker_id_of :: "transcript_item \<Rightarrow> string option" where
  "marker_id_of (IMarker m) = Some (marker_markerId (obj_val m))"
| "marker_id_of _ = None"

fun ref_id_of :: "transcript_item \<Rightarrow> string option" where
  "ref_id_of (ITaskRef r) = Some (taskref_refId (obj_val r))"
| "ref_id_of _ = None"

definition ids_ok :: "transcript_item list \<Rightarrow> fold_state \<Rightarrow> bool" where
  "ids_ok base s \<longleftrightarrow>
     (let items = base @ ff_appended s in
      distinct (List.map_filter marker_id_of items) \<and>
      (\<forall>i \<in> set (List.map_filter marker_id_of items). \<forall>n. marker_number i = Some n \<longrightarrow> n \<le> ff_markerSeq s) \<and>
      distinct (List.map_filter ref_id_of items) \<and>
      set (ff_usedRefIds s) = set (List.map_filter ref_id_of items) \<and>
      turns (ff_appended s) = [])"

lemma map_filter_append: "List.map_filter f (xs @ ys) = List.map_filter f xs @ List.map_filter f ys"
  by (simp add: map_filter_def)

lemma marker_number_m [simp]: "marker_number (''m'' @ nat_str n) = Some n"
  by (simp add: marker_number_def all_digits_nat_str digits_val_nat_str)

lemma ids_ok_cong:
  "ids_ok base s \<Longrightarrow> ff_appended s' = ff_appended s \<Longrightarrow> ff_markerSeq s' = ff_markerSeq s \<Longrightarrow>
   ff_usedRefIds s' = ff_usedRefIds s \<Longrightarrow> ids_ok base s'"
  by (simp add: ids_ok_def)

lemma ids_ok_marker:
  assumes ok: "ids_ok base s" and r: "fact_marker k r s = Inr s'"
  shows "ids_ok base s'"
proof -
  have "''m'' @ nat_str (ff_markerSeq s + 1) \<notin> set (List.map_filter marker_id_of (base @ ff_appended s))"
  proof
    assume "''m'' @ nat_str (ff_markerSeq s + 1) \<in> set (List.map_filter marker_id_of (base @ ff_appended s))"
    moreover have "marker_number (''m'' @ nat_str (ff_markerSeq s + 1)) = Some (ff_markerSeq s + 1)"
      by (rule marker_number_m)
    ultimately have "ff_markerSeq s + 1 \<le> ff_markerSeq s"
      using ok unfolding ids_ok_def Let_def by blast
    then show False by simp
  qed
  moreover obtain m where s': "ff_appended s' = ff_appended s @ [IMarker m]"
    "marker_markerId (obj_val m) = ''m'' @ nat_str (ff_markerSeq s + 1)"
    "ff_markerSeq s' = ff_markerSeq s + 1" "ff_usedRefIds s' = ff_usedRefIds s"
    using r by (auto simp: fact_marker_Inr)
  moreover have "List.map_filter marker_id_of (base @ ff_appended s')
      = List.map_filter marker_id_of (base @ ff_appended s) @ [''m'' @ nat_str (ff_markerSeq s + 1)]"
    "List.map_filter ref_id_of (base @ ff_appended s') = List.map_filter ref_id_of (base @ ff_appended s)"
    using s' by (simp_all add: map_filter_append map_filter_simps)
  ultimately show ?thesis
    using ok marker_number_m [of "ff_markerSeq s + 1"]
    unfolding ids_ok_def Let_def by (auto simp del: marker_number_m append_Cons intro: le_SucI)
qed

lemma ids_ok_taskref:
  assumes ok: "ids_ok base s" and r: "fact_taskref i r s = Inr s'"
  shows "ids_ok base s'"
  using r
proof (cases rule: fact_taskref_Inr)
  case seen
  with ok show ?thesis by simp
next
  case (fresh stamp)
  with ok show ?thesis
    by (auto simp: ids_ok_def Let_def map_filter_append map_filter_simps)
qed

lemma ids_ok_task:
  assumes ok: "ids_ok base s" and r: "upsertTask r s = Inr s'"
  shows "ids_ok base s'"
  using r
proof (cases rule: upsertTask_Inr)
  case none
  with ok show ?thesis by simp
next
  case (task i t)
  have "ids_ok base (s\<lparr>ff_tasks := jm_set i t (ff_tasks s)\<rparr>)" by (rule ids_ok_cong [OF ok]) simp_all
  with task(2) show ?thesis by (auto split: if_splits intro: ids_ok_taskref)
qed

lemma ids_ok_interaction:
  "ids_ok base s \<Longrightarrow> ids_ok base (fact_request r s)" "ids_ok base s \<Longrightarrow> ids_ok base (fact_resolved r s)"
  by (rule fact_request_state [of r s]; auto elim!: ids_ok_cong)
    (rule fact_resolved_state [of r s]; auto elim!: ids_ok_cong)

lemma ids_ok_record:
  assumes ok: "ids_ok base s" and r: "fold_record s r = Inr s'"
  shows "ids_ok base s'"
proof -
  have plan: "ids_ok base (s\<lparr>ff_planActive := a, ff_planRevision := b\<rparr>)" for a b
    by (rule ids_ok_cong [OF ok]) simp_all
  have swarm: "ids_ok base (s\<lparr>ff_swarmActive := a\<rparr>)" for a by (rule ids_ok_cong [OF ok]) simp_all
  have todo: "ids_ok base t" if "fact_todo r s = Inr t" for t
    using fact_todo_Inr [OF that] by (auto intro: ids_ok_cong [OF ok])
  show ?thesis
    using r ids_ok_marker [OF plan] ids_ok_marker [OF swarm] todo ids_ok_task [OF ok]
      ids_ok_interaction [OF ok] ok
    by (auto simp: fold_record_def Let_def split: if_splits)
qed

lemma scan_items_ok:
  "scan_items es seq used = (seq', used') \<Longrightarrow>
   seq \<le> seq' \<and> (\<forall>i \<in> set (List.map_filter marker_id_of es). \<forall>n. marker_number i = Some n \<longrightarrow> n \<le> seq')
   \<and> set used' = set used \<union> set (List.map_filter ref_id_of es)"
proof (induction es seq used rule: scan_items.induct)
  case (2 m es seq used)
  then show ?case by (auto simp: map_filter_simps split: option.splits)
qed (auto simp: map_filter_simps)

lemma ids_ok_start:
  assumes "distinct (List.map_filter marker_id_of (snap_items base))"
    "distinct (List.map_filter ref_id_of (snap_items base))"
  shows "ids_ok (snap_items base) (fold_start ref base)"
  using assms scan_items_ok [of "snap_items base" 0 "[]"]
  by (auto simp: fold_start_def ids_ok_def Let_def split: prod.split)

section \<open>Badges and todos: the last record wins\<close>

definition last_effect :: "('r \<Rightarrow> 'a option) \<Rightarrow> 'r list \<Rightarrow> 'a \<Rightarrow> 'a" where
  "last_effect eff rs d = (case List.map_filter eff rs of [] \<Rightarrow> d | e # es \<Rightarrow> last (e # es))"

definition plan_effect :: "wire_record \<Rightarrow> plan_mode option option" where
  "plan_effect r =
     (if wr_type r = ''plan_mode.enter'' then Some (Some \<lparr>plan_reviewPath = None, plan_version = None\<rparr>)
      else if wr_type r = ''plan_mode.exit'' \<or> wr_type r = ''plan_mode.cancel'' then Some None
      else if wr_type r = ''plan.revision''
        then Some (Some \<lparr>plan_reviewPath = js_string_of (field r ''path''),
                         plan_version = js_number_of (field r ''version'')\<rparr>)
      else None)"

definition swarm_effect :: "wire_record \<Rightarrow> swarm_mode option option" where
  "swarm_effect r =
     (if wr_type r = ''swarm_mode.enter'' then Some (Some \<lparr>swarm_trigger = None\<rparr>)
      else if wr_type r = ''swarm_mode.exit'' then Some None else None)"

definition todo_effect :: "wire_record \<Rightarrow> (todo_item list \<times> string option) list option" where
  "todo_effect r =
     (if wr_type r = ''tools.update_store'' \<and> field r ''key'' = JStr ''todo''
      then Some [(readTodoItems (field r ''value''), case recordTimeIso r of Inr t \<Rightarrow> t | Inl _ \<Rightarrow> None)]
      else None)"

definition todo_view :: "transcript_todo \<Rightarrow> todo_item list \<times> string option" where
  "todo_view t = (obj_val (todo_items t), todo_updatedAt t)"

lemma last_effect_Nil [simp]: "last_effect eff [] d = d"
  by (simp add: last_effect_def map_filter_simps)

lemma last_effect_Cons:
  "last_effect eff (r # rs) d = last_effect eff rs (case eff r of Some e \<Rightarrow> e | None \<Rightarrow> d)"
  by (auto simp: last_effect_def map_filter_simps split: option.split list.split)

text \<open>A view that every record updates by its effect ends as the last effect.\<close>

lemma fold_last_effect:
  assumes "\<And>r t t'. fold_record t r = Inr t' \<Longrightarrow> V t' = (case eff r of Some e \<Rightarrow> e | None \<Rightarrow> V t)"
  shows "fold_records rs s = Inr s' \<Longrightarrow> V s' = last_effect eff rs (V s)"
proof (induction rs arbitrary: s)
  case (Cons r rs)
  then obtain t where t: "fold_record s r = Inr t" "fold_records rs t = Inr s'" by (auto split: sum.splits)
  from Cons.IH [OF t(2)] assms [OF t(1)] show ?case by (simp add: last_effect_Cons)
qed simp

definition same_modes :: "fold_state \<Rightarrow> fold_state \<Rightarrow> bool" where
  "same_modes s s' \<longleftrightarrow> ff_planActive s' = ff_planActive s \<and> ff_planRevision s' = ff_planRevision s
     \<and> ff_swarmActive s' = ff_swarmActive s"

lemma same_modes_task: "upsertTask r s = Inr s' \<Longrightarrow> same_modes s s' \<and> ff_todo s' = ff_todo s"
  by (erule upsertTask_Inr) (auto simp: same_modes_def split: if_splits elim!: fact_taskref_Inr)

lemma same_modes_todo: "fact_todo r s = Inr s' \<Longrightarrow> same_modes s s'"
  using fact_todo_Inr by (fastforce simp: same_modes_def)

lemma same_modes_interaction:
  "same_modes s (fact_request r s) \<and> ff_todo (fact_request r s) = ff_todo s"
  "same_modes s (fact_resolved r s) \<and> ff_todo (fact_resolved r s) = ff_todo s"
  by (rule fact_request_state [of r s]; simp add: same_modes_def)
    (rule fact_resolved_state [of r s]; simp add: same_modes_def)

lemma plan_badge_cong: "same_modes s s' \<Longrightarrow> plan_badge s' old = plan_badge s old"
  by (simp add: same_modes_def plan_badge_def)

lemma swarm_badge_cong: "same_modes s s' \<Longrightarrow> swarm_badge s' old = swarm_badge s old"
  by (simp add: same_modes_def swarm_badge_def)

lemma plan_badge_record:
  "fold_record s r = Inr s' \<Longrightarrow>
   plan_badge s' old = (case plan_effect r of Some e \<Rightarrow> e | None \<Rightarrow> plan_badge s old)"
  using same_modes_task [of r s s'] same_modes_todo [of r s s'] same_modes_interaction [of s r]
  by (auto simp: fold_record_def Let_def fact_marker_Inr plan_effect_def plan_badge_cong
      split: if_splits) (simp_all add: plan_badge_def)

lemma swarm_badge_record:
  "fold_record s r = Inr s' \<Longrightarrow>
   swarm_badge s' old = (case swarm_effect r of Some e \<Rightarrow> e | None \<Rightarrow> swarm_badge s old)"
  using same_modes_task [of r s s'] same_modes_todo [of r s s'] same_modes_interaction [of s r]
  by (auto simp: fold_record_def Let_def fact_marker_Inr swarm_effect_def swarm_badge_cong
      split: if_splits) (simp_all add: swarm_badge_def)

definition todos_of :: "(todo_item list \<times> string option) list \<Rightarrow> fold_state \<Rightarrow> (todo_item list \<times> string option) list" where
  "todos_of old s = (case ff_todo s of Some t \<Rightarrow> [todo_view t] | None \<Rightarrow> old)"

lemma todos_record:
  "fold_record s r = Inr s' \<Longrightarrow>
   todos_of old s' = (case todo_effect r of Some e \<Rightarrow> e | None \<Rightarrow> todos_of old s)"
  using same_modes_task [of r s s'] same_modes_todo [of r s s'] same_modes_interaction [of s r]
  by (auto simp: fold_record_def Let_def fact_marker_Inr todo_effect_def todos_of_def fact_todo_def todo_view_def
      split: if_splits sum.splits)

lemma finish_plan:
  "Option.bind (meta_modes (snap_meta (fold_finish s base))) modes_plan
     = plan_badge s (Option.bind (meta_modes (snap_meta base)) modes_plan)"
  by (auto simp: fold_finish_def Let_def plan_badge_def)

lemma finish_swarm:
  "Option.bind (meta_modes (snap_meta (fold_finish s base))) modes_swarm
     = swarm_badge s (Option.bind (meta_modes (snap_meta base)) modes_swarm)"
  by (auto simp: fold_finish_def Let_def swarm_badge_def)

lemma finish_todos: "map todo_view (snap_todos (fold_finish s base)) = todos_of (map todo_view (snap_todos base)) s"
  by (auto simp: fold_finish_def Let_def todos_of_def split: option.split)

lemma finish_interactions:
  "snap_interactions (fold_finish s base) = map cancel_pending (jm_values (ff_interactions s))"
  by (simp add: fold_finish_def Let_def jm_values_def comp_def case_prod_unfold)

lemma cancel_pending_simps [simp]:
  "int_state (cancel_pending i) \<noteq> IPending" "int_interactionId (cancel_pending i) = int_interactionId i"
  by (simp_all add: cancel_pending_def)

lemma fold_InrD:
  assumes "foldWireRecordFacts ref records base = Inr snap"
  obtains s where "fold_records records (fold_start ref base) = Inr s" "snap = fold_finish s base"
  using assms by (auto simp: foldWireRecordFacts_def map_sum_def split: sum.splits)

section \<open>When the fold throws\<close>

definition date_ok :: "json \<Rightarrow> bool" where
  "date_ok v = (case v of JNum n \<Rightarrow> \<bar>n\<bar> \<le> 8640000000000000 | _ \<Rightarrow> True)"

definition record_sane :: "wire_record \<Rightarrow> bool" where
  "record_sane r \<longleftrightarrow>
     date_ok (wr_time r) \<and> field r ''info'' \<noteq> JNull \<and>
     date_ok (js_opt_prop (field r ''info'') ''startedAt'') \<and>
     date_ok (js_opt_prop (field r ''info'') ''endedAt'')"

lemma recordTimeIso_ok: "date_ok (wr_time r) \<Longrightarrow> \<exists>t. recordTimeIso r = Inr t"
  by (auto simp: recordTimeIso_def date_ok_def toISOString_def split: json.splits)

lemma epochMsToIso_ok: "date_ok v \<Longrightarrow> \<exists>t. epochMsToIso v = Inr t"
  by (auto simp: epochMsToIso_def date_ok_def toISOString_def split: json.splits)

lemma upsertTask_total:
  assumes "record_sane r"
  shows "\<exists>s'. upsertTask r s = Inr s'"
proof -
  obtain stamp where time: "recordTimeIso r = Inr stamp"
    using assms recordTimeIso_ok by (auto simp: record_sane_def)
  have ref: "\<exists>s'. fact_taskref i r t = Inr s'" for i t by (auto simp: fact_taskref_def Let_def time)
  obtain a where a: "epochMsToIso (js_opt_prop (field r ''info'') ''startedAt'') = Inr a"
    using assms epochMsToIso_ok by (auto simp: record_sane_def)
  obtain b where b: "epochMsToIso (js_opt_prop (field r ''info'') ''endedAt'') = Inr b"
    using assms epochMsToIso_ok by (auto simp: record_sane_def)
  have ended: "\<exists>s'. (if wr_type r = ''task.started'' then fact_taskref i r t else Inr t) = Inr s'" for i t
    using ref by simp
  show ?thesis
  proof (cases "js_prop (field r ''info'') ''taskId''")
    case (Inl e)
    then have "field r ''info'' \<in> {JUndef, JNull}" by (cases "field r ''info''") auto
    with assms show ?thesis by (auto simp: upsertTask_def record_sane_def)
  next
    case (Inr v)
    show ?thesis
    proof (cases v)
      case (JStr i)
      obtain t where "(case Option.bind (jm_get (ff_tasks s) i) task_startedAt of
           Some t \<Rightarrow> Inr (Some t) | None \<Rightarrow> epochMsToIso (js_opt_prop (field r ''info'') ''startedAt'')) = Inr t"
        using a by (cases "Option.bind (jm_get (ff_tasks s) i) task_startedAt") auto
      then show ?thesis using Inr JStr b ended by (simp add: upsertTask_def Let_def)
    qed (use Inr in \<open>simp_all add: upsertTask_def Let_def\<close>)
  qed
qed

lemma fold_record_total:
  assumes "record_sane r"
  shows "\<exists>s'. fold_record s r = Inr s'"
proof -
  obtain stamp where time: "recordTimeIso r = Inr stamp"
    using assms recordTimeIso_ok by (auto simp: record_sane_def)
  then have "\<exists>s'. fact_marker k r t = Inr s'" "\<exists>s'. fact_todo r t = Inr s'" for k t
    by (auto simp: fact_marker_Inr fact_todo_def)
  with upsertTask_total [OF assms] show ?thesis
    by (simp add: fold_record_def Let_def)
qed

lemma fold_records_total: "list_all record_sane rs \<Longrightarrow> \<exists>s'. fold_records rs s = Inr s'"
proof (induction rs arbitrary: s)
  case (Cons r rs)
  then obtain t where "fold_record s r = Inr t" using fold_record_total [of r s] by auto
  with Cons show ?case by simp
qed simp

section \<open>Properties\<close>

definition sample_record :: "string \<Rightarrow> (string \<times> json) list \<Rightarrow> wire_record" where
  "sample_record t fs = \<lparr>wr_type = t, wr_time = JStr ''now'', wr_fields = fs\<rparr>"

definition sample_records :: "wire_record list" where
  "sample_records =
     [sample_record ''plan_mode.enter'' [],
      sample_record ''task.started'' [(''info'', JObj 1 [(''taskId'', JStr ''b1''), (''kind'', JStr ''process'')])],
      sample_record ''interaction.request'' [(''id'', JStr ''i1''), (''kind'', JStr ''approval'')],
      sample_record ''plan_mode.exit'' []]"

definition sample_base :: agent_snapshot where
  "sample_base = groupMessagesIntoSnapshot sample_parse 0 sample_history"

lemma sample_records_sane: "list_all record_sane sample_records"
  by (simp add: sample_records_def sample_record_def record_sane_def date_ok_def field_def)

lemma sample_fold: "\<exists>snap. foldWireRecordFacts 9 sample_records sample_base = Inr snap"
  using fold_records_total [OF sample_records_sane, of "fold_start 9 sample_base"]
  by (auto simp: foldWireRecordFacts_def)

lemma sample_fold_value:
  "foldWireRecordFacts 9 sample_records sample_base = Inr (projr (foldWireRecordFacts 9 sample_records sample_base))"
  using sample_fold by fastforce

text \<open>
  C35: the fold returns a snapshot for every list of records whose times are within the range of
  dates and whose \<open>info\<close> is not \<open>null\<close>.
\<close>

theorem fold_total:
  assumes "list_all record_sane records"
  shows "\<exists>snap. foldWireRecordFacts ref records base = Inr snap"
  using fold_records_total [OF assms, of "fold_start ref base"] by (auto simp: foldWireRecordFacts_def)

theorem fold_total_witness: "\<exists>snap. foldWireRecordFacts 9 sample_records sample_base = Inr snap"
  by (rule fold_total [OF sample_records_sane])

text \<open>
  In a folded snapshot no interaction is pending, whatever the records: a request without a
  resolution was cut off by a crash and ends cancelled.
\<close>

theorem fold_no_pending:
  assumes "foldWireRecordFacts ref records base = Inr snap"
  shows "list_all (\<lambda>i. int_state i \<noteq> IPending) (snap_interactions snap)"
  by (rule fold_InrD [OF assms])
    (simp add: finish_interactions list_all_iff)


text \<open>
  The plan and swarm badges and the todo list are those of the last record that touches them,
  and the base's when none does.
\<close>

theorem fold_last_wins:
  assumes "foldWireRecordFacts ref records base = Inr snap"
  shows "Option.bind (meta_modes (snap_meta snap)) modes_plan
       = last_effect plan_effect records (Option.bind (meta_modes (snap_meta base)) modes_plan)
    \<and> Option.bind (meta_modes (snap_meta snap)) modes_swarm
       = last_effect swarm_effect records (Option.bind (meta_modes (snap_meta base)) modes_swarm)
    \<and> map todo_view (snap_todos snap) = last_effect todo_effect records (map todo_view (snap_todos base))"
proof -
  obtain s where s: "fold_records records (fold_start ref base) = Inr s" "snap = fold_finish s base"
    using fold_InrD [OF assms] by blast
  have "plan_badge (fold_start ref base) old = old" "swarm_badge (fold_start ref base) old' = old'"
    "todos_of old'' (fold_start ref base) = old''" for old old' old''
    by (simp_all add: fold_start_def plan_badge_def swarm_badge_def todos_of_def split: prod.split)
  with fold_last_effect [of "\<lambda>s. plan_badge s (Option.bind (meta_modes (snap_meta base)) modes_plan)" plan_effect, OF plan_badge_record s(1)]
    fold_last_effect [of "\<lambda>s. swarm_badge s (Option.bind (meta_modes (snap_meta base)) modes_swarm)" swarm_effect, OF swarm_badge_record s(1)]
    fold_last_effect [of "todos_of (map todo_view (snap_todos base))" todo_effect, OF todos_record s(1)]
  show ?thesis
    by (simp add: s(2) finish_plan finish_swarm finish_todos)
qed

theorem fold_last_wins_witness:
  "Option.bind (meta_modes (snap_meta (projr (foldWireRecordFacts 9 sample_records sample_base)))) modes_plan = None"
proof -
  have "last_effect plan_effect sample_records (Option.bind (meta_modes (snap_meta sample_base)) modes_plan) = None"
    by (simp add: sample_records_def sample_record_def last_effect_Cons plan_effect_def)
  with fold_last_wins [OF sample_fold_value] show ?thesis by simp
qed

text \<open>
  The fold keeps the turns of the base, gives its markers and task references ids the base does
  not use, and its snapshot is well formed when the base's items are.
\<close>

theorem fold_fresh_ids:
  assumes "foldWireRecordFacts ref records base = Inr snap"
    and "distinct (List.map_filter marker_id_of (snap_items base))"
    and "distinct (List.map_filter ref_id_of (snap_items base))"
    and "wf_items (snap_items base)"
  shows "distinct (List.map_filter marker_id_of (snap_items snap))
    \<and> distinct (List.map_filter ref_id_of (snap_items snap))
    \<and> turns (snap_items snap) = turns (snap_items base) \<and> wf_snapshot snap"
proof -
  obtain s where s: "fold_records records (fold_start ref base) = Inr s" "snap = fold_finish s base"
    using fold_InrD [OF assms(1)] by blast
  have ids: "ids_ok (snap_items base) s"
    using s(1) ids_ok_start [OF assms(2,3), of ref]
    by (rule fold_records_invariant) (auto intro: ids_ok_record)
  have "ints_ok s"
    by (rule fold_records_invariant [OF s(1)])
      (auto intro: ints_ok_record, simp add: fold_start_def ints_ok_def jm_keyed_def split: prod.split)
  then have "distinct (map int_interactionId (snap_interactions snap))"
    by (simp add: s(2) finish_interactions comp_def ints_ok_def jm_ok_def jm_keyed_keys)
  moreover have items: "snap_items snap = snap_items base @ ff_appended s"
    by (simp add: s(2) fold_finish_def Let_def)
  moreover have "turns (snap_items snap) = turns (snap_items base)"
    using ids by (simp add: items ids_ok_def Let_def)
  ultimately show ?thesis
    using ids assms(4) unfolding wf_snapshot_def wf_items_def ids_ok_def Let_def by metis
qed

theorem fold_fresh_ids_witness:
  "distinct (List.map_filter marker_id_of (snap_items (projr (foldWireRecordFacts 9 sample_records sample_base))))
   \<and> wf_snapshot (projr (foldWireRecordFacts 9 sample_records sample_base))"
proof -
  have "wf_items (snap_items sample_base)"
    using group_wf_items [OF sample_history_calls_ok, of sample_parse 0]
    by (simp add: sample_base_def groupMessagesIntoSnapshot_def Let_def)
  moreover have "distinct (List.map_filter marker_id_of (snap_items sample_base))"
    "distinct (List.map_filter ref_id_of (snap_items sample_base))"
    by code_simp+
  ultimately show ?thesis using fold_fresh_ids [OF sample_fold_value] by simp
qed

end
