(* ===== verification/CronExpr.thy ===== *)
theory CronExpr
  imports JsDate OrderedMap
begin

text \<open>
  \<open>packages/agent-core-v2/src/app/cron/cron-expr.ts\<close>: parsing of 5-field cron expressions, the
  search for the next fire time and the description for people. A thrown \<open>Error\<close> is a
  \<open>cron_error\<close> on the left of a sum, with the values its message prints. The search loop carries
  its iteration count, as in the code; its bound is reached by no call of \<open>computeNextCronRun\<close>.
\<close>

section \<open>Parsing\<close>

datatype cron_field = FMinute | FHour | FDayOfMonth | FMonth | FDayOfWeek

datatype int_role = RoleStep | RoleValue | RoleLower | RoleUpper

datatype cron_error =
    CronEmpty
  | CronFieldCount nat
  | CronFieldEmpty cron_field
  | CronEmptyTerm cron_field
  | CronNotInteger cron_field int_role string
  | CronStepEmpty cron_field string
  | CronStepNotPositive cron_field string
  | CronStepNeedsRange cron_field string
  | CronValueOutOfRange cron_field int int int
  | CronRangeOutOfBounds cron_field int int int int
  | CronNoValues cron_field

record parsed_cron =
  cron_raw :: string
  cron_minutes :: "int list"
  cron_hours :: "int list"
  cron_daysOfMonth :: "int list"
  cron_months :: "int list"
  cron_daysOfWeek :: "int list"
  cron_daysOfMonthWildcard :: bool
  cron_daysOfWeekWildcard :: bool

text \<open>The five \<open>*_RANGE\<close> constants.\<close>

fun field_min :: "cron_field \<Rightarrow> int" where
  "field_min FMinute = 0"
| "field_min FHour = 0"
| "field_min FDayOfMonth = 1"
| "field_min FMonth = 1"
| "field_min FDayOfWeek = 0"

fun field_max :: "cron_field \<Rightarrow> int" where
  "field_max FMinute = 59"
| "field_max FHour = 23"
| "field_max FDayOfMonth = 31"
| "field_max FMonth = 12"
| "field_max FDayOfWeek = 7"

definition err_bind :: "'e + 'a \<Rightarrow> ('a \<Rightarrow> 'e + 'b) \<Rightarrow> 'e + 'b" where
  "err_bind r f = (case r of Inl e \<Rightarrow> Inl e | Inr v \<Rightarrow> f v)"

text \<open>\<open>split(',')\<close>, and \<open>split(/\s+/)\<close> of a trimmed string that is not empty.\<close>

fun split_on :: "char \<Rightarrow> string \<Rightarrow> string list" where
  "split_on c [] = [[]]"
| "split_on c (x # xs) =
     (if x = c then [] # split_on c xs
      else case split_on c xs of [] \<Rightarrow> [[x]] | w # ws \<Rightarrow> (x # w) # ws)"

fun split_spaces :: "string \<Rightarrow> string list" where
  "split_spaces [] = [[]]"
| "split_spaces (x # xs) =
     (if is_space x
      then (case xs of y # ys \<Rightarrow> if is_space y then split_spaces xs else [] # split_spaces xs
                     | [] \<Rightarrow> [[], []])
      else case split_spaces xs of [] \<Rightarrow> [[x]] | w # ws \<Rightarrow> (x # w) # ws)"

definition parseCronInt :: "string \<Rightarrow> cron_field \<Rightarrow> int_role \<Rightarrow> cron_error + int" where
  "parseCronInt raw name role =
     (if all_digits raw then Inr (int (digits_val 0 raw)) else Inl (CronNotInteger name role raw))"

text \<open>
  \<open>for (let v = lo; v <= hi; v += step) out.add(v)\<close>; the step is positive wherever the code gets
  here, and the model stops if it is not.
\<close>

function add_steps :: "int \<Rightarrow> int \<Rightarrow> int \<Rightarrow> int list \<Rightarrow> int list" where
  "add_steps v hi step out =
     (if v \<le> hi \<and> 0 < step then add_steps (v + step) hi step (js_set_add v out) else out)"
  by pat_completeness auto
termination by (relation "measure (\<lambda>(v, hi, step, out). nat (hi + 1 - v))") auto

declare add_steps.simps [simp del]

text \<open>The step after a slash, with the part before it.\<close>

definition parse_step :: "string \<Rightarrow> cron_field \<Rightarrow> cron_error + (bool \<times> string \<times> int)" where
  "parse_step term name =
     (if CHR ''/'' \<notin> set term then Inr (False, term, 1)
      else
        let rangePart = takeWhile (\<lambda>c. c \<noteq> CHR ''/'') term;
            stepStr = tl (dropWhile (\<lambda>c. c \<noteq> CHR ''/'') term)
        in if stepStr = [] then Inl (CronStepEmpty name term)
           else err_bind (parseCronInt stepStr name RoleStep) (\<lambda>step.
             if step \<le> 0 then Inl (CronStepNotPositive name stepStr)
             else if rangePart = [] then Inl (CronStepNeedsRange name term)
             else Inr (True, rangePart, step)))"

definition addTerm :: "int list \<Rightarrow> string \<Rightarrow> cron_field \<Rightarrow> cron_error + int list" where
  "addTerm out term name =
     err_bind (parse_step term name) (\<lambda>(slash, rangePart, step).
       if rangePart = ''*'' then Inr (add_steps (field_min name) (field_max name) step out)
       else if CHR ''-'' \<notin> set rangePart then
         err_bind (parseCronInt rangePart name RoleValue) (\<lambda>single.
           if single < field_min name \<or> field_max name < single
           then Inl (CronValueOutOfRange name single (field_min name) (field_max name))
           else if slash then Inr (add_steps single (field_max name) step out)
           else Inr (js_set_add single out))
       else
         err_bind (parseCronInt (takeWhile (\<lambda>c. c \<noteq> CHR ''-'') rangePart) name RoleLower) (\<lambda>lo.
         err_bind (parseCronInt (tl (dropWhile (\<lambda>c. c \<noteq> CHR ''-'') rangePart)) name RoleUpper) (\<lambda>hi.
           if lo < field_min name \<or> field_max name < hi \<or> hi < lo
           then Inl (CronRangeOutOfBounds name lo hi (field_min name) (field_max name))
           else Inr (add_steps lo hi step out))))"

fun add_terms :: "string list \<Rightarrow> cron_field \<Rightarrow> int list \<Rightarrow> cron_error + int list" where
  "add_terms [] name out = Inr out"
| "add_terms (t # ts) name out =
     (if t = [] then Inl (CronEmptyTerm name)
      else err_bind (addTerm out t name) (add_terms ts name))"

definition parseField :: "string \<Rightarrow> cron_field \<Rightarrow> cron_error + int list" where
  "parseField field name =
     (if field = [] then Inl (CronFieldEmpty name)
      else err_bind (add_terms (split_on (CHR '','') field) name []) (\<lambda>out.
        if length out = 0 then Inl (CronNoValues name) else Inr out))"

definition isWildcard :: "string \<Rightarrow> bool" where
  "isWildcard field \<longleftrightarrow> field = ''*''"

definition parseCronExpression :: "string \<Rightarrow> cron_error + parsed_cron" where
  "parseCronExpression expr =
     (let trimmed = js_trim expr in
      if trimmed = [] then Inl CronEmpty
      else case split_spaces trimmed of
        [minField, hourField, domField, monthField, dowField] \<Rightarrow>
          err_bind (parseField minField FMinute) (\<lambda>minutes.
          err_bind (parseField hourField FHour) (\<lambda>hours.
          err_bind (parseField domField FDayOfMonth) (\<lambda>daysOfMonth.
          err_bind (parseField monthField FMonth) (\<lambda>months.
          err_bind (parseField dowField FDayOfWeek) (\<lambda>dowRaw.
            Inr \<lparr>cron_raw = trimmed, cron_minutes = minutes, cron_hours = hours,
                 cron_daysOfMonth = daysOfMonth, cron_months = months,
                 cron_daysOfWeek = js_set_of (map (\<lambda>v. if v = 7 then 0 else v) dowRaw),
                 cron_daysOfMonthWildcard = isWildcard domField,
                 cron_daysOfWeekWildcard = isWildcard dowField\<rparr>)))))
      | ws \<Rightarrow> Inl (CronFieldCount (length ws)))"

section \<open>The next fire time\<close>

definition dayMatches :: "int \<Rightarrow> parsed_cron \<Rightarrow> int \<Rightarrow> bool" where
  "dayMatches tz expr date =
     (let domOk = getDate tz date \<in> set (cron_daysOfMonth expr);
          dowOk = getDay tz date \<in> set (cron_daysOfWeek expr)
      in if cron_daysOfMonthWildcard expr \<and> cron_daysOfWeekWildcard expr then True
         else if cron_daysOfMonthWildcard expr then dowOk
         else if cron_daysOfWeekWildcard expr then domOk
         else domOk \<or> dowOk)"

definition advanceMonth :: "int \<Rightarrow> int \<Rightarrow> int" where
  "advanceMonth tz date =
     (let d1 = setHours4 tz 0 0 0 0 (setDate tz 1 date) in setMonth tz (getMonth tz d1 + 1) d1)"

definition advanceDay :: "int \<Rightarrow> int \<Rightarrow> int" where
  "advanceDay tz date =
     (let d1 = setHours4 tz 0 0 0 0 date in setDate tz (getDate tz d1 + 1) d1)"

definition advanceHour :: "int \<Rightarrow> int \<Rightarrow> int" where
  "advanceHour tz date =
     (let d1 = setMinutes3 tz 0 0 0 date in setHours tz (getHours tz d1 + 1) d1)"

definition advanceMinute :: "int \<Rightarrow> int \<Rightarrow> int" where
  "advanceMinute tz date =
     (let d1 = setSeconds tz 0 0 date in setMinutes tz (getMinutes tz d1 + 1) d1)"

definition HARD_ITERATION_CAP :: int where "HARD_ITERATION_CAP = 10000000"

definition MS_PER_MINUTE :: int where "MS_PER_MINUTE = 60000"

function cron_loop :: "int \<Rightarrow> parsed_cron \<Rightarrow> int \<Rightarrow> int \<Rightarrow> int \<Rightarrow> int option" where
  "cron_loop tz expr deadlineMs iterations date =
     (if date \<le> deadlineMs \<and> iterations < HARD_ITERATION_CAP then
        (if getMonth tz date + 1 \<notin> set (cron_months expr)
         then cron_loop tz expr deadlineMs (iterations + 1) (advanceMonth tz date)
         else if \<not> dayMatches tz expr date
         then cron_loop tz expr deadlineMs (iterations + 1) (advanceDay tz date)
         else if getHours tz date \<notin> set (cron_hours expr)
         then cron_loop tz expr deadlineMs (iterations + 1) (advanceHour tz date)
         else if getMinutes tz date \<notin> set (cron_minutes expr)
         then cron_loop tz expr deadlineMs (iterations + 1) (advanceMinute tz date)
         else Some date)
      else None)"
  by pat_completeness auto
termination
  by (relation "measure (\<lambda>(tz, expr, deadlineMs, iterations, date). nat (HARD_ITERATION_CAP - iterations))") auto

declare cron_loop.simps [simp del]

definition nextRunWithinMinutes :: "int \<Rightarrow> parsed_cron \<Rightarrow> int \<Rightarrow> int \<Rightarrow> int option" where
  "nextRunWithinMinutes tz expr fromMs capMinutes =
     (let start = setSeconds tz 0 0 fromMs; date = start + MS_PER_MINUTE;
          deadlineMs = fromMs + capMinutes * MS_PER_MINUTE
      in cron_loop tz expr deadlineMs 0 date)"

definition computeNextCronRun :: "int \<Rightarrow> parsed_cron \<Rightarrow> int \<Rightarrow> int option" where
  "computeNextCronRun tz expr fromMs = nextRunWithinMinutes tz expr fromMs (5 * 366 * 24 * 60)"

definition hasFireWithinYears :: "int \<Rightarrow> parsed_cron \<Rightarrow> number \<Rightarrow> int \<Rightarrow> bool" where
  "hasFireWithinYears tz expr years fromMs =
     (let cap = max 1 \<lfloor>years * 366 * 24 * 60\<rfloor> in nextRunWithinMinutes tz expr fromMs cap \<noteq> None)"

section \<open>The description\<close>

definition MONTH_NAMES :: "string list" where
  "MONTH_NAMES =
     [''January'', ''February'', ''March'', ''April'', ''May'', ''June'', ''July'', ''August'',
      ''September'', ''October'', ''November'', ''December'']"

definition DAY_NAMES :: "string list" where
  "DAY_NAMES =
     [''Sunday'', ''Monday'', ''Tuesday'', ''Wednesday'', ''Thursday'', ''Friday'', ''Saturday'']"

definition isFullRange :: "int list \<Rightarrow> int \<Rightarrow> int \<Rightarrow> bool" where
  "isFullRange xs lo hi \<longleftrightarrow>
     int (length xs) = hi - lo + 1 \<and> list_all (\<lambda>v. v \<in> set xs) [lo .. hi]"

fun expect_steps :: "int list \<Rightarrow> int \<Rightarrow> int \<Rightarrow> int option" where
  "expect_steps [] step expected = Some expected"
| "expect_steps (v # vs) step expected =
     (if v \<noteq> expected then None else expect_steps vs step (expected + step))"

definition detectStep :: "int list \<Rightarrow> int \<Rightarrow> int \<Rightarrow> int option" where
  "detectStep xs lo hi =
     (case sort xs of
        a # b # rest \<Rightarrow>
          if a \<noteq> lo then None
          else
            let step = b - a in
            if step \<le> 0 then None
            else (case expect_steps (a # b # rest) step lo of
                    None \<Rightarrow> None
                  | Some expected \<Rightarrow> if hi < expected - step then None else Some step)
      | _ \<Rightarrow> None)"

definition js_join :: "string \<Rightarrow> string list \<Rightarrow> string" where
  "js_join sep xs = (case xs of [] \<Rightarrow> [] | w # ws \<Rightarrow> w @ concat (map (\<lambda>v. sep @ v) ws))"

text \<open>A name is looked up by a value the parser has put in range.\<close>

definition formatDows :: "int list \<Rightarrow> string option" where
  "formatDows xs =
     (let values = sort xs in
      if length values = 0 then None
      else if values = [1, 2, 3, 4, 5] then Some ''weekdays''
      else if values = [0, 6] then Some ''weekends''
      else Some (js_join '', '' (map (\<lambda>v. DAY_NAMES ! nat v) values)))"

definition pad :: "int \<Rightarrow> string" where
  "pad n = (if n < 10 then CHR ''0'' # int_str n else int_str n)"

definition cronToHuman :: "parsed_cron \<Rightarrow> string" where
  "cronToHuman expr =
     (let minutes = cron_minutes expr; hours = cron_hours expr;
          allMin = isFullRange minutes 0 59;
          allHour = isFullRange hours 0 23;
          allDom = cron_daysOfMonthWildcard expr;
          allMonth = isFullRange (cron_months expr) 1 12;
          allDow = cron_daysOfWeekWildcard expr;
          everyMinutes = detectStep minutes 0 59;
          everyHours = detectStep hours 0 23;
          one = (\<lambda>xs. length xs = 1);
          time = pad (hd hours) @ '':'' @ pad (hd minutes)
      in if allHour \<and> allDom \<and> allMonth \<and> allDow \<and> (case everyMinutes of Some s \<Rightarrow> 1 < s | None \<Rightarrow> False)
         then ''every '' @ int_str (case everyMinutes of Some s \<Rightarrow> s | None \<Rightarrow> 0) @ '' minutes''
         else if allHour \<and> allDom \<and> allMonth \<and> allDow \<and> allMin then ''every minute''
         else if allHour \<and> allDom \<and> allMonth \<and> allDow \<and> one minutes
         then ''at minute '' @ int_str (hd minutes) @ '' of every hour''
         else if one minutes \<and> allDom \<and> allMonth \<and> allDow \<and> (case everyHours of Some s \<Rightarrow> 1 < s | None \<Rightarrow> False)
         then ''every '' @ int_str (case everyHours of Some s \<Rightarrow> s | None \<Rightarrow> 0) @ '' hours at minute '' @ pad (hd minutes)
         else if one minutes \<and> one hours \<and> allDom \<and> allMonth \<and> allDow
         then ''at '' @ time @ '' every day''
         else if one minutes \<and> one hours \<and> allDom \<and> allMonth \<and> formatDows (cron_daysOfWeek expr) \<noteq> None
         then ''at '' @ time @ '' on ''
                @ (case formatDows (cron_daysOfWeek expr) of Some s \<Rightarrow> s | None \<Rightarrow> [])
         else if one minutes \<and> one hours \<and> one (cron_daysOfMonth expr) \<and> \<not> allDom
                 \<and> one (cron_months expr) \<and> allDow
         then ''at '' @ time @ '' on day '' @ int_str (hd (cron_daysOfMonth expr)) @ '' of ''
                @ MONTH_NAMES ! nat (hd (cron_months expr) - 1)
         else cron_raw expr)"

section \<open>Where the advances land\<close>

text \<open>A time of day is its hour, minute and rest.\<close>

lemma hm_split:
  fixes t :: int
  shows "t = t div 3600000 * 3600000 + t div 60000 mod 60 * 60000 + t mod 60000"
proof -
  have "t div 60000 div 60 = t div 3600000" by (simp add: zdiv_zmult2_eq [symmetric])
  then have "t div 60000 = t div 3600000 * 60 + t div 60000 mod 60"
    using div_mult_mod_eq [of "t div 60000" 60] by simp
  then have "t div 60000 * 60000 = t div 3600000 * 3600000 + t div 60000 mod 60 * 60000" by simp
  with div_mult_mod_eq [of t 60000] show ?thesis by linarith
qed

lemma hm_unique:
  fixes h m r :: int
  assumes "0 \<le> m" "m < 60" "0 \<le> r" "r < 60000"
  shows "(h * 3600000 + m * 60000 + r) div 3600000 = h"
    and "(h * 3600000 + m * 60000 + r) div 60000 mod 60 = m"
    and "(h * 3600000 + m * 60000 + r) mod 60000 = r"
proof -
  show "(h * 3600000 + m * 60000 + r) div 3600000 = h"
    using assms by (intro int_div_pos_eq [where r = "m * 60000 + r"]) simp_all
  have "(h * 3600000 + m * 60000 + r) div 60000 = h * 60 + m"
    using assms by (intro int_div_pos_eq [where r = r]) simp_all
  then show "(h * 3600000 + m * 60000 + r) div 60000 mod 60 = m"
    using assms by (simp add: mod_pos_pos_trivial)
  have "h * 3600000 + m * 60000 + r = r + (h * 60 + m) * 60000" by simp
  then have "(h * 3600000 + m * 60000 + r) mod 60000 = r mod 60000" by (simp only: mod_mult_self1)
  with assms show "(h * 3600000 + m * 60000 + r) mod 60000 = r" by simp
qed

lemma local_hm:
  "local_time tz t = getHours tz t * 3600000 + getMinutes tz t * 60000 + (t + tz) mod 60000"
proof -
  have "(t + tz) mod 60000 = local_time tz t mod 60000"
    unfolding local_time_def MS_PER_DAY_def by (simp add: mod_mod_cancel)
  then show ?thesis using hm_split [of "local_time tz t"] by (simp add: getHours_def getMinutes_def)
qed

lemma getMinutes_bounds: "0 \<le> getMinutes tz t" "getMinutes tz t < 60"
  by (simp_all add: getMinutes_def)

lemma getHours_bounds: "0 \<le> getHours tz t" "getHours tz t < 24"
proof -
  have "0 \<le> local_time tz t" "local_time tz t < 86400000"
    using local_time_bounds [of tz t] by (simp_all add: MS_PER_DAY_def)
  moreover have "0 \<le> (t + tz) mod 60000" by simp
  ultimately show "0 \<le> getHours tz t" "getHours tz t < 24"
    using local_hm [of tz t] getMinutes_bounds [of tz t] unfolding getHours_def
    by (simp_all add: pos_imp_zdiv_nonneg_iff) 
qed

definition at_minute :: "int \<Rightarrow> int \<Rightarrow> int \<Rightarrow> int \<Rightarrow> int" where
  "at_minute tz day h m = of_local tz day (h * 3600000 + m * 60000)"

lemma at_minute_fields:
  assumes "0 \<le> h" "h < 24" "0 \<le> m" "m < 60"
  shows "local_day tz (at_minute tz day h m) = day" "getHours tz (at_minute tz day h m) = h"
    "getMinutes tz (at_minute tz day h m) = m" "getSeconds tz (at_minute tz day h m) = 0"
    "getMilliseconds tz (at_minute tz day h m) = 0" "(at_minute tz day h m + tz) mod 60000 = 0"
proof -
  have time: "0 \<le> h * 3600000 + m * 60000" "h * 3600000 + m * 60000 < MS_PER_DAY"
    using assms by (simp_all add: MS_PER_DAY_def)
  note l = of_local_day [OF time, of tz day]
  show "local_day tz (at_minute tz day h m) = day" by (simp add: at_minute_def l)
  show "getHours tz (at_minute tz day h m) = h" "getMinutes tz (at_minute tz day h m) = m"
    using hm_unique [of m 0 h] assms by (simp_all add: at_minute_def getHours_def getMinutes_def l)
  have rest: "local_time tz (at_minute tz day h m) = (h * 60 + m) * 60 * 1000" by (simp add: at_minute_def l)
  show "getMilliseconds tz (at_minute tz day h m) = 0"
    unfolding getMilliseconds_def rest by (rule mod_mult_self2_is_0)
  have "(h * 60 + m) * 60 * 1000 div 1000 = (h * 60 + m) * 60"
    by (rule nonzero_mult_div_cancel_right) simp
  then show "getSeconds tz (at_minute tz day h m) = 0"
    unfolding getSeconds_def rest by (simp only: mod_mult_self2_is_0)
  have "at_minute tz day h m + tz = (day * 1440 + h * 60 + m) * 60000"
    by (simp add: at_minute_def of_local_def MS_PER_DAY_def)
  then show "(at_minute tz day h m + tz) mod 60000 = 0" by (simp only: mod_mult_self2_is_0)
qed

lemma aligned_at_minute:
  assumes "(t + tz) mod 60000 = 0"
  shows "t = at_minute tz (local_day tz t) (getHours tz t) (getMinutes tz t)"
  using local_split [of t tz] local_hm [of tz t] assms by (simp add: at_minute_def of_local_def)

lemma make_time_0 [simp]: "make_time 0 0 0 0 = 0"
  by (simp add: make_time_def)

lemma make_day_Suc: "make_day y m (date + 1) = make_day y m date + 1"
  by (simp add: make_day_def Let_def)

lemma of_local_0: "of_local tz day 0 = at_minute tz day 0 0"
  by (simp add: at_minute_def)

lemma advanceDay_eq: "advanceDay tz t = at_minute tz (local_day tz t + 1) 0 0"
  by (simp add: advanceDay_def Let_def setHours4_def setDate_def getDate_def getMonth_def of_local_day
      make_day_Suc of_local_0 at_minute_fields) (simp add: of_local_0 [symmetric] of_local_day)

lemma advanceMonth_eq:
  "advanceMonth tz t = at_minute tz (make_day (year_of_day (local_day tz t)) (getMonth tz t + 1) 1) 0 0"
proof -
  have "setHours4 tz 0 0 0 0 (setDate tz 1 t) = of_local tz (make_day (year_of_day (local_day tz t)) (getMonth tz t) 1) 0"
    by (simp add: setHours4_def setDate_def of_local_day local_time_bounds)
  then show ?thesis
    by (simp add: advanceMonth_def Let_def setMonth_def getDate_def getMonth_def of_local_day
        first_of_month of_local_0 [symmetric])
qed

lemma advanceHour_eq:
  "advanceHour tz t = of_local tz (local_day tz t) ((getHours tz t + 1) * 3600000)"
proof -
  have d1: "setMinutes3 tz 0 0 0 t = at_minute tz (local_day tz t) (getHours tz t) 0"
    by (simp add: setMinutes3_def make_time_def at_minute_def)
  show ?thesis
    unfolding advanceHour_def Let_def d1 setHours_def setHours4_def
    using getHours_bounds [of tz t] by (simp add: at_minute_fields make_time_def)
qed

lemma advanceMinute_eq:
  "advanceMinute tz t = of_local tz (local_day tz t) (getHours tz t * 3600000 + (getMinutes tz t + 1) * 60000)"
proof -
  have d1: "setSeconds tz 0 0 t = at_minute tz (local_day tz t) (getHours tz t) (getMinutes tz t)"
    by (simp add: setSeconds_def make_time_def at_minute_def)
  show ?thesis
    unfolding advanceMinute_def Let_def d1 setMinutes_def setMinutes3_def
    using getHours_bounds [of tz t] getMinutes_bounds [of tz t] by (simp add: at_minute_fields make_time_def)
qed

section \<open>The search finds the first match\<close>

definition aligned :: "int \<Rightarrow> int \<Rightarrow> bool" where
  "aligned tz t \<longleftrightarrow> (t + tz) mod MS_PER_MINUTE = 0"

definition cron_matches :: "int \<Rightarrow> parsed_cron \<Rightarrow> int \<Rightarrow> bool" where
  "cron_matches tz expr t \<longleftrightarrow>
     getMonth tz t + 1 \<in> set (cron_months expr) \<and> dayMatches tz expr t \<and>
     getHours tz t \<in> set (cron_hours expr) \<and> getMinutes tz t \<in> set (cron_minutes expr)"

lemma aligned_at: "aligned tz (of_local tz day (h * 3600000 + m * 60000))"
proof -
  have "of_local tz day (h * 3600000 + m * 60000) + tz = (day * 1440 + h * 60 + m) * 60000"
    by (simp add: of_local_def MS_PER_DAY_def)
  then show ?thesis unfolding aligned_def MS_PER_MINUTE_def by (simp only: mod_mult_self2_is_0)
qed

lemma aligned_midnight: "aligned tz (of_local tz day 0)"
  using aligned_at [of tz day 0 0] by simp

lemma aligned_hour: "aligned tz (of_local tz day (h * 3600000))"
  using aligned_at [of tz day h 0] by simp

text \<open>An aligned instant later than another is at least a minute later.\<close>

lemma aligned_gap: "aligned tz t \<Longrightarrow> aligned tz t' \<Longrightarrow> t < t' \<Longrightarrow> t + 60000 \<le> t'"
proof -
  assume "aligned tz t" "aligned tz t'" "t < t'"
  then have "60000 dvd (t' + tz) - (t + tz)"
    unfolding aligned_def MS_PER_MINUTE_def by (metis mod_eq_0_iff_dvd dvd_diff)
  then have "60000 dvd t' - t" by simp
  with \<open>t < t'\<close> zdvd_imp_le [of 60000 "t' - t"] show ?thesis by simp
qed

text \<open>Each advance is aligned, later, and skips only instants with the same month, day or hour.\<close>

definition skips :: "int \<Rightarrow> int \<Rightarrow> int \<Rightarrow> (int \<Rightarrow> 'a) \<Rightarrow> bool" where
  "skips tz t t' f \<longleftrightarrow> aligned tz t' \<and> t < t' \<and> (\<forall>u. t \<le> u \<and> u < t' \<longrightarrow> f u = f t)"

lemma of_local_later: "t + tz < day * MS_PER_DAY + time \<longleftrightarrow> t < of_local tz day time"
  by (auto simp: of_local_def)

lemma before_day: "t + tz < (local_day tz t + 1) * MS_PER_DAY"
  using local_split [of t tz] local_time_bounds(2) [of tz t] by (simp add: distrib_right)

lemma skips_month: "skips tz t (advanceMonth tz t) (getMonth tz)"
proof -
  let ?next = "make_day (year_of_day (local_day tz t)) (getMonth tz t + 1) 1"
  have next_def: "?next = make_day (year_of_day (local_day tz t)) (month_of_day (local_day tz t) + 1) 1"
    by (simp add: getMonth_def)
  have adv: "advanceMonth tz t = of_local tz ?next 0" by (simp add: advanceMonth_eq at_minute_def)
  have "local_day tz t < ?next" unfolding next_def by (rule next_month(1))
  then have "(local_day tz t + 1) * MS_PER_DAY \<le> ?next * MS_PER_DAY" by (simp add: mult_right_mono)
  with before_day [of t tz] have "t + tz < ?next * MS_PER_DAY + 0" by linarith
  then have "t < of_local tz ?next 0" by (rule of_local_later [THEN iffD1])
  moreover have "getMonth tz u = getMonth tz t" if "t \<le> u" "u < of_local tz ?next 0" for u
  proof -
    have "u + tz < ?next * MS_PER_DAY" using that(2) by (simp add: of_local_def)
    then have "local_day tz u < ?next" by (rule local_day_less)
    moreover have "local_day tz t \<le> local_day tz u" using that(1) by (rule local_day_mono)
    ultimately show ?thesis
      using next_month(2) [of "local_day tz t" "local_day tz u"] by (simp only: getMonth_def)
  qed
  ultimately show ?thesis
    using aligned_midnight unfolding skips_def adv by blast
qed

lemma skips_day: "skips tz t (advanceDay tz t) (local_day tz)"
proof -
  have adv: "advanceDay tz t = of_local tz (local_day tz t + 1) 0" by (simp add: advanceDay_eq at_minute_def)
  have "t < of_local tz (local_day tz t + 1) 0"
    using before_day [of t tz] by (simp add: of_local_later [symmetric])
  moreover have "local_day tz u = local_day tz t" if "t \<le> u" "u < of_local tz (local_day tz t + 1) 0" for u
  proof -
    have "u + tz < (local_day tz t + 1) * MS_PER_DAY" using that(2) by (simp add: of_local_def)
    then have "local_day tz u < local_day tz t + 1" by (rule local_day_less)
    with local_day_mono [OF that(1), of tz] show ?thesis by simp
  qed
  ultimately show ?thesis
    using aligned_midnight unfolding skips_def adv by blast
qed

lemma same_day_hour:
  assumes "t \<le> u" "u < of_local tz (local_day tz t) ((getHours tz t + 1) * 3600000)"
  shows "local_day tz u = local_day tz t" "getHours tz u = getHours tz t"
proof -
  have u: "u + tz < local_day tz t * MS_PER_DAY + (getHours tz t + 1) * 3600000"
    using assms(2) by (simp add: of_local_def)
  have "(getHours tz t + 1) * 3600000 \<le> MS_PER_DAY"
    using getHours_bounds(2) [of tz t] by (simp add: MS_PER_DAY_def)
  moreover have "(local_day tz t + 1) * MS_PER_DAY = local_day tz t * MS_PER_DAY + MS_PER_DAY"
    by (simp add: distrib_right)
  ultimately have "u + tz < (local_day tz t + 1) * MS_PER_DAY" using u by linarith
  then have "local_day tz u < local_day tz t + 1" by (rule local_day_less)
  with local_day_mono [OF assms(1), of tz] show day: "local_day tz u = local_day tz t" by simp
  have time: "local_time tz t \<le> local_time tz u" "local_time tz u < (getHours tz t + 1) * 3600000"
    using assms(1) u local_split [of t tz] local_split [of u tz] by (simp_all add: day)
  have "getHours tz t * 3600000 \<le> local_time tz t"
    using local_hm [of tz t] getMinutes_bounds [of tz t] by simp
  with time show "getHours tz u = getHours tz t"
    unfolding getHours_def [of tz u]
    by (intro int_div_pos_eq [where r = "local_time tz u - getHours tz t * 3600000"]) simp_all
qed

lemma skips_hour: "skips tz t (advanceHour tz t) (\<lambda>u. (local_day tz u, getHours tz u))"
proof -
  have "local_time tz t < (getHours tz t + 1) * 3600000"
    using local_hm [of tz t] getMinutes_bounds [of tz t] pos_mod_bound [of 60000 "t + tz"] by simp
  then have "t < of_local tz (local_day tz t) ((getHours tz t + 1) * 3600000)"
    using local_split [of t tz] by (simp add: of_local_later [symmetric])
  then show ?thesis
    using aligned_hour same_day_hour unfolding skips_def advanceHour_eq by blast
qed

lemma advanceMinute_aligned:
  assumes "aligned tz t"
  shows "advanceMinute tz t = t + 60000"
proof -
  have "(t + tz) mod 60000 = 0" using assms by (simp add: aligned_def MS_PER_MINUTE_def)
  then show ?thesis
    using local_split [of t tz] local_hm [of tz t]
    unfolding advanceMinute_eq of_local_def distrib_right mult_1 by linarith
qed

lemma dayMatches_day: "local_day tz u = local_day tz t \<Longrightarrow> dayMatches tz expr u = dayMatches tz expr t"
  by (simp add: dayMatches_def getDate_def getDay_def)

text \<open>
  The result of the loop: the first aligned match from \<open>date\<close> on, if there is one by the deadline,
  as long as the iterations left cover the minutes left.
\<close>

definition first_match :: "int \<Rightarrow> parsed_cron \<Rightarrow> int \<Rightarrow> int \<Rightarrow> int option \<Rightarrow> bool" where
  "first_match tz expr date deadlineMs r \<longleftrightarrow>
     (case r of
        Some t \<Rightarrow> aligned tz t \<and> date \<le> t \<and> t \<le> deadlineMs \<and> cron_matches tz expr t \<and>
          (\<forall>u. aligned tz u \<and> date \<le> u \<and> u < t \<longrightarrow> \<not> cron_matches tz expr u)
      | None \<Rightarrow> \<forall>u. aligned tz u \<and> date \<le> u \<and> u \<le> deadlineMs \<longrightarrow> \<not> cron_matches tz expr u)"

lemma first_match_skip:
  assumes "first_match tz expr t' deadlineMs r" "t < t'"
    and "\<And>u. aligned tz u \<Longrightarrow> t \<le> u \<Longrightarrow> u < t' \<Longrightarrow> \<not> cron_matches tz expr u"
  shows "first_match tz expr t deadlineMs r"
proof (cases r)
  case None
  with assms show ?thesis by (simp add: first_match_def) (meson not_le)
next
  case (Some x)
  with assms show ?thesis by (simp add: first_match_def) (meson less_le_trans not_le less_imp_le)
qed

definition cron_advance :: "int \<Rightarrow> parsed_cron \<Rightarrow> int \<Rightarrow> int option" where
  "cron_advance tz expr date =
     (if getMonth tz date + 1 \<notin> set (cron_months expr) then Some (advanceMonth tz date)
      else if \<not> dayMatches tz expr date then Some (advanceDay tz date)
      else if getHours tz date \<notin> set (cron_hours expr) then Some (advanceHour tz date)
      else if getMinutes tz date \<notin> set (cron_minutes expr) then Some (advanceMinute tz date)
      else None)"

lemma cron_loop_step:
  "cron_loop tz expr deadlineMs iterations date =
     (if date \<le> deadlineMs \<and> iterations < HARD_ITERATION_CAP
      then case cron_advance tz expr date of
             Some t \<Rightarrow> cron_loop tz expr deadlineMs (iterations + 1) t | None \<Rightarrow> Some date
      else None)"
  by (subst cron_loop.simps) (simp add: cron_advance_def)

lemma cron_advance_None: "cron_advance tz expr date = None \<longleftrightarrow> cron_matches tz expr date"
  by (auto simp: cron_advance_def cron_matches_def)

text \<open>An advance skips no match.\<close>

lemma cron_advance_Some:
  assumes al: "aligned tz date" and adv: "cron_advance tz expr date = Some t"
  shows "aligned tz t \<and> date < t \<and> (\<forall>u. aligned tz u \<and> date \<le> u \<and> u < t \<longrightarrow> \<not> cron_matches tz expr u)"
proof -
  consider (month) "getMonth tz date + 1 \<notin> set (cron_months expr)" "t = advanceMonth tz date"
    | (day) "\<not> dayMatches tz expr date" "t = advanceDay tz date"
    | (hour) "getHours tz date \<notin> set (cron_hours expr)" "t = advanceHour tz date"
    | (minute) "getMinutes tz date \<notin> set (cron_minutes expr)" "t = advanceMinute tz date"
    using adv by (auto simp: cron_advance_def split: if_splits)
  then show ?thesis
  proof cases
    case month
    with skips_month [of tz date] show ?thesis unfolding skips_def cron_matches_def by metis
  next
    case day
    with skips_day [of tz date] dayMatches_day [of tz _ date expr] show ?thesis
      unfolding skips_def cron_matches_def by metis
  next
    case hour
    with skips_hour [of tz date] show ?thesis unfolding skips_def cron_matches_def by (metis Pair_inject)
  next
    case minute
    have t: "t = date + 60000" unfolding minute(2) by (rule advanceMinute_aligned [OF al])
    have "\<not> cron_matches tz expr u" if "aligned tz u" "date \<le> u" "u < t" for u
      using that minute(1) aligned_gap [OF al that(1)] by (cases "u = date") (auto simp: cron_matches_def t)
    moreover have "aligned tz t" unfolding minute(2) advanceMinute_eq by (rule aligned_at)
    ultimately show ?thesis by (simp add: t)
  qed
qed

lemma cron_loop_first_match:
  "aligned tz date \<Longrightarrow> deadlineMs - date < 60000 * (HARD_ITERATION_CAP - iterations) \<Longrightarrow>
   first_match tz expr date deadlineMs (cron_loop tz expr deadlineMs iterations date)"
proof (induction "nat (HARD_ITERATION_CAP - iterations)" arbitrary: iterations date rule: less_induct)
  case less
  show ?case
  proof (cases "date \<le> deadlineMs")
    case False
    then show ?thesis by (subst cron_loop_step) (auto simp: first_match_def)
  next
    case True
    with less.prems(2) have run: "iterations < HARD_ITERATION_CAP" by simp
    show ?thesis
    proof (cases "cron_advance tz expr date")
      case None
      with True run have "cron_loop tz expr deadlineMs iterations date = Some date"
        by (subst cron_loop_step) simp
      with True less.prems(1) None show ?thesis
        by (auto simp: first_match_def cron_advance_None)
    next
      case (Some t)
      note adv = cron_advance_Some [OF less.prems(1) Some]
      have "deadlineMs - t < 60000 * (HARD_ITERATION_CAP - (iterations + 1))"
        using aligned_gap [of tz date t] less.prems adv by (simp add: algebra_simps)
      with adv run have "first_match tz expr t deadlineMs (cron_loop tz expr deadlineMs (iterations + 1) t)"
        by (intro less.hyps) simp_all
      then have "first_match tz expr date deadlineMs (cron_loop tz expr deadlineMs (iterations + 1) t)"
        using adv first_match_skip [of tz expr t deadlineMs _ date] by blast
      moreover have "cron_loop tz expr deadlineMs iterations date = cron_loop tz expr deadlineMs (iterations + 1) t"
        by (rule trans [OF cron_loop_step]) (simp only: True run Some simp_thms if_True option.case)
      ultimately show ?thesis by simp
    qed
  qed
qed

lemma next_minute:
  "aligned tz (setSeconds tz 0 0 t + MS_PER_MINUTE)" "setSeconds tz 0 0 t \<le> t"
  "t < setSeconds tz 0 0 t + MS_PER_MINUTE" "aligned tz u \<Longrightarrow> t < u \<longleftrightarrow> setSeconds tz 0 0 t + MS_PER_MINUTE \<le> u"
proof -
  have start: "setSeconds tz 0 0 t = of_local tz (local_day tz t) (getHours tz t * 3600000 + getMinutes tz t * 60000)"
    by (simp add: setSeconds_def make_time_def)
  then have val: "setSeconds tz 0 0 t = t - (t + tz) mod 60000"
    unfolding of_local_def using local_split [of t tz] local_hm [of tz t] by linarith
  show le: "setSeconds tz 0 0 t \<le> t" unfolding val by simp
  show less: "t < setSeconds tz 0 0 t + MS_PER_MINUTE" unfolding val MS_PER_MINUTE_def by simp
  have al: "aligned tz (setSeconds tz 0 0 t)" unfolding start by (rule aligned_at)
  then show "aligned tz (setSeconds tz 0 0 t + MS_PER_MINUTE)"
    by (simp add: aligned_def add.commute add.left_commute)
  show "t < u \<longleftrightarrow> setSeconds tz 0 0 t + MS_PER_MINUTE \<le> u" if "aligned tz u"
    using aligned_gap [OF al that] le less by (auto simp: MS_PER_MINUTE_def)
qed

text \<open>The specification of a search: the first aligned match after \<open>fromMs\<close> within the cap.\<close>

definition next_fire :: "int \<Rightarrow> parsed_cron \<Rightarrow> int \<Rightarrow> int \<Rightarrow> int option \<Rightarrow> bool" where
  "next_fire tz expr fromMs deadlineMs r \<longleftrightarrow>
     (case r of
        Some t \<Rightarrow> aligned tz t \<and> fromMs < t \<and> t \<le> deadlineMs \<and> cron_matches tz expr t \<and>
          (\<forall>u. aligned tz u \<and> fromMs < u \<and> u < t \<longrightarrow> \<not> cron_matches tz expr u)
      | None \<Rightarrow> \<forall>u. aligned tz u \<and> fromMs < u \<and> u \<le> deadlineMs \<longrightarrow> \<not> cron_matches tz expr u)"

lemma nextRun_next_fire:
  assumes "capMinutes \<le> HARD_ITERATION_CAP"
  shows "next_fire tz expr fromMs (fromMs + capMinutes * MS_PER_MINUTE) (nextRunWithinMinutes tz expr fromMs capMinutes)"
proof -
  let ?start = "setSeconds tz 0 0 fromMs + MS_PER_MINUTE"
  have "capMinutes * MS_PER_MINUTE \<le> HARD_ITERATION_CAP * 60000"
    using assms by (simp add: MS_PER_MINUTE_def)
  then have "fromMs + capMinutes * MS_PER_MINUTE - ?start < 60000 * (HARD_ITERATION_CAP - 0)"
    using next_minute(3) [of fromMs tz] by simp
  then have "first_match tz expr ?start (fromMs + capMinutes * MS_PER_MINUTE)
      (nextRunWithinMinutes tz expr fromMs capMinutes)"
    unfolding nextRunWithinMinutes_def Let_def by (intro cron_loop_first_match next_minute(1))
  then show ?thesis
    unfolding first_match_def next_fire_def using next_minute(4) [of tz _ fromMs]
    by (cases "nextRunWithinMinutes tz expr fromMs capMinutes") (simp_all, blast+)
qed

lemma computeNextCronRun_next:
  "next_fire tz expr fromMs (fromMs + 5 * 366 * 24 * 60 * MS_PER_MINUTE) (computeNextCronRun tz expr fromMs)"
  unfolding computeNextCronRun_def by (rule nextRun_next_fire) (simp add: HARD_ITERATION_CAP_def)

section \<open>What the parser accepts\<close>

lemma err_bind_Inr [simp]: "err_bind r f = Inr b \<longleftrightarrow> (\<exists>a. r = Inr a \<and> f a = Inr b)"
  by (auto simp: err_bind_def split: sum.splits)

lemma err_bind_simps [simp]: "err_bind (Inr a) f = f a" "err_bind (Inl e) f = Inl e"
  by (simp_all add: err_bind_def)

text \<open>The values of a stepped range.\<close>

lemma add_steps_set:
  "0 < step \<Longrightarrow> set (add_steps v hi step out) = set out \<union> {x. v \<le> x \<and> x \<le> hi \<and> step dvd (x - v)}"
proof (induction v hi step out rule: add_steps.induct)
  case (1 v hi step out)
  show ?case
  proof (cases "v \<le> hi")
    case False
    then show ?thesis by (subst add_steps.simps) auto
  next
    case True
    have "{x. v \<le> x \<and> x \<le> hi \<and> step dvd (x - v)}
        = insert v {x. v + step \<le> x \<and> x \<le> hi \<and> step dvd (x - (v + step))}"
    proof (intro set_eqI iffI)
      fix x
      assume x: "x \<in> {x. v \<le> x \<and> x \<le> hi \<and> step dvd (x - v)}"
      show "x \<in> insert v {x. v + step \<le> x \<and> x \<le> hi \<and> step dvd (x - (v + step))}"
      proof (cases "x = v")
        case False
        with x zdvd_imp_le [of step "x - v"] have "v + step \<le> x" by auto
        moreover have "step dvd (x - (v + step))" using x by (simp add: diff_diff_eq [symmetric])
        ultimately show ?thesis using x by simp
      qed simp
    next
      fix x
      assume x: "x \<in> insert v {x. v + step \<le> x \<and> x \<le> hi \<and> step dvd (x - (v + step))}"
      have "step dvd (x - v)" if "step dvd (x - (v + step))"
        using dvd_add [OF that dvd_refl] by simp
      with x True "1.prems" show "x \<in> {x. v \<le> x \<and> x \<le> hi \<and> step dvd (x - v)}" by auto
    qed
    with 1 True show ?thesis by (subst add_steps.simps) auto
  qed
qed

lemma add_steps_distinct: "distinct out \<Longrightarrow> distinct (add_steps v hi step out)"
  by (induction v hi step out rule: add_steps.induct)
    (subst add_steps.simps, simp add: distinct_js_set_add)

text \<open>What a term denotes: every value, a value, a range, each with an optional step.\<close>

definition values_ok :: "cron_field \<Rightarrow> int list \<Rightarrow> bool" where
  "values_ok name xs \<longleftrightarrow> distinct xs \<and> (\<forall>x \<in> set xs. field_min name \<le> x \<and> x \<le> field_max name)"

lemma values_ok_add: "values_ok name xs \<Longrightarrow> field_min name \<le> v \<Longrightarrow> v \<le> field_max name \<Longrightarrow> values_ok name (js_set_add v xs)"
  by (simp add: values_ok_def distinct_js_set_add)

lemma values_ok_steps:
  "values_ok name xs \<Longrightarrow> field_min name \<le> lo \<Longrightarrow> hi \<le> field_max name \<Longrightarrow> 0 < step \<Longrightarrow>
   values_ok name (add_steps lo hi step xs)"
  by (auto simp: values_ok_def add_steps_distinct add_steps_set)

lemma parse_step_pos: "parse_step term name = Inr (slash, rangePart, step) \<Longrightarrow> 0 < step"
  by (auto simp: parse_step_def Let_def split: if_splits)

lemma addTerm_ok:
  assumes "addTerm out t name = Inr out'" "values_ok name out"
  shows "values_ok name out' \<and> set out \<subseteq> set out' \<and> out' \<noteq> []"
proof -
  obtain slash rangePart step where st: "parse_step t name = Inr (slash, rangePart, step)"
    using assms(1) by (auto simp: addTerm_def)
  note pos = parse_step_pos [OF st]
  have range: "values_ok name (add_steps lo hi step out) \<and> set out \<subseteq> set (add_steps lo hi step out)
      \<and> add_steps lo hi step out \<noteq> []"
    if "field_min name \<le> lo" "lo \<le> hi" "hi \<le> field_max name" for lo hi
  proof -
    have "lo \<in> set (add_steps lo hi step out)" using that pos by (simp add: add_steps_set)
    then have "add_steps lo hi step out \<noteq> []" by (metis empty_iff empty_set)
    with values_ok_steps [OF assms(2) that(1,3) pos] pos show ?thesis by (simp add: add_steps_set)
  qed
  have min_max: "field_min name \<le> field_max name" by (cases name) simp_all
  show ?thesis
  proof (cases "rangePart = ''*''")
    case True
    with assms(1) st range [OF order_refl min_max order_refl] show ?thesis by (simp add: addTerm_def)
  next
    case False
    show ?thesis
    proof (cases "CHR ''-'' \<in> set rangePart")
      case dash: True
      with False assms(1) st obtain lo hi where "field_min name \<le> lo" "lo \<le> hi" "hi \<le> field_max name"
        "out' = add_steps lo hi step out"
        by (auto simp: addTerm_def not_less split: if_splits)
      with range [of lo hi] show ?thesis by simp
    next
      case no_dash: False
      with False assms(1) st obtain v where v: "field_min name \<le> v" "v \<le> field_max name"
        "out' = (if slash then add_steps v (field_max name) step out else js_set_add v out)"
        by (auto simp: addTerm_def not_less split: if_splits)
      with range [OF v(1,2) order_refl] values_ok_add [OF assms(2) v(1,2)] show ?thesis
        by (auto simp: js_set_add_def)
    qed
  qed
qed

lemma add_terms_ok:
  "add_terms ts name out = Inr out' \<Longrightarrow> values_ok name out \<Longrightarrow> values_ok name out' \<and> set out \<subseteq> set out'"
proof (induction ts arbitrary: out)
  case (Cons t ts)
  then obtain out1 where "addTerm out t name = Inr out1" "add_terms ts name out1 = Inr out'"
    by (auto split: if_splits)
  with Cons addTerm_ok show ?case by blast
qed simp

lemma parseField_ok:
  "parseField field name = Inr out \<Longrightarrow> values_ok name out \<and> out \<noteq> []"
  using add_terms_ok [of _ name "[]" out]
  by (auto simp: parseField_def values_ok_def split: if_splits)

lemma parseField_star: "parseField ''*'' name = Inr (add_steps (field_min name) (field_max name) 1 [])"
proof -
  have "field_min name \<in> set (add_steps (field_min name) (field_max name) 1 [])"
    by (cases name) (simp_all add: add_steps_set)
  then have "add_steps (field_min name) (field_max name) 1 [] \<noteq> []" by auto
  then show ?thesis by (simp add: parseField_def addTerm_def parse_step_def)
qed

definition wf_cron :: "parsed_cron \<Rightarrow> bool" where
  "wf_cron e \<longleftrightarrow>
     (values_ok FMinute (cron_minutes e) \<and> cron_minutes e \<noteq> []) \<and>
     (values_ok FHour (cron_hours e) \<and> cron_hours e \<noteq> []) \<and>
     (values_ok FDayOfMonth (cron_daysOfMonth e) \<and> cron_daysOfMonth e \<noteq> []) \<and>
     (values_ok FMonth (cron_months e) \<and> cron_months e \<noteq> []) \<and>
     distinct (cron_daysOfWeek e) \<and> cron_daysOfWeek e \<noteq> [] \<and>
     (\<forall>d \<in> set (cron_daysOfWeek e). 0 \<le> d \<and> d \<le> 6) \<and>
     (cron_daysOfMonthWildcard e \<longrightarrow> set (cron_daysOfMonth e) = {1 .. 31}) \<and>
     (cron_daysOfWeekWildcard e \<longrightarrow> set (cron_daysOfWeek e) = {0 .. 6})"

lemma fold_week: "(\<lambda>v. if v = 7 then 0 else v) ` {0 .. 7} = {0 .. 6 :: int}"
proof -
  have "{0 .. 7 :: int} = {0, 1, 2, 3, 4, 5, 6, 7}" "{0 .. 6 :: int} = {0, 1, 2, 3, 4, 5, 6}" by auto
  then show ?thesis by auto
qed

lemma parse_wf:
  assumes "parseCronExpression s = Inr e"
  shows "wf_cron e"
proof -
  obtain a b c d w where parts: "split_spaces (js_trim s) = [a, b, c, d, w]"
    using assms by (auto simp: parseCronExpression_def Let_def split: if_splits list.splits)
  obtain mi h dom mo dow where fields: "parseField a FMinute = Inr mi" "parseField b FHour = Inr h"
    "parseField c FDayOfMonth = Inr dom" "parseField d FMonth = Inr mo" "parseField w FDayOfWeek = Inr dow"
    and e: "e = \<lparr>cron_raw = js_trim s, cron_minutes = mi, cron_hours = h, cron_daysOfMonth = dom, cron_months = mo,
      cron_daysOfWeek = js_set_of (map (\<lambda>v. if v = 7 then 0 else v) dow),
      cron_daysOfMonthWildcard = isWildcard c, cron_daysOfWeekWildcard = isWildcard w\<rparr>"
    using assms parts by (auto simp: parseCronExpression_def Let_def split: if_splits)
  have dom: "set dom = {1 .. 31}" if "isWildcard c"
    using fields(3) that by (auto simp: isWildcard_def parseField_star add_steps_set)
  have dow: "set (js_set_of (map (\<lambda>v. if v = 7 then 0 else v) dow)) = {0 .. 6}" if "isWildcard w"
  proof -
    have "set dow = {0 .. 7}" using fields(5) that by (auto simp: isWildcard_def parseField_star add_steps_set)
    then show ?thesis by (simp only: set_js_set_of list.set_map fold_week)
  qed
  have "0 \<le> x \<and> x \<le> 6" if "x \<in> set (js_set_of (map (\<lambda>v. if v = 7 then 0 else v) dow))" for x
  proof -
    obtain v where v: "v \<in> set dow" "x = (if v = 7 then 0 else v)" using \<open>x \<in> _\<close> by auto
    then have "0 \<le> v \<and> v \<le> 7" using parseField_ok [OF fields(5)] by (simp add: values_ok_def)
    with v(2) show ?thesis by simp
  qed
  then have week: "\<forall>x \<in> set (js_set_of (map (\<lambda>v. if v = 7 then 0 else v) dow)). 0 \<le> x \<and> x \<le> 6" by blast
  have "set (js_set_of (map (\<lambda>v. if v = 7 then 0 else v) dow)) \<noteq> {}"
    unfolding set_js_set_of list.set_map image_is_empty set_empty using parseField_ok [OF fields(5)] by blast
  then have some_day: "js_set_of (map (\<lambda>v. if v = 7 then 0 else v) dow) \<noteq> []" by fastforce
  have wild: "isWildcard c \<longrightarrow> set dom = {1 .. 31}"
    "isWildcard w \<longrightarrow> set (js_set_of (map (\<lambda>v. if v = 7 then 0 else v) dow)) = {0 .. 6}"
    using dom dow by blast+
  note field = parseField_ok [OF fields(1)] parseField_ok [OF fields(2)] parseField_ok [OF fields(3)]
    parseField_ok [OF fields(4)]
  show ?thesis
    unfolding wf_cron_def e parsed_cron.select_convs
    by (rule conjI [OF field(1) conjI [OF field(2) conjI [OF field(3) conjI [OF field(4)
          conjI [OF distinct_js_set_of conjI [OF some_day conjI [OF week conjI [OF wild]]]]]]]])
qed

section \<open>Printing and parsing\<close>

definition print_values :: "int list \<Rightarrow> string" where
  "print_values xs = js_join '','' (map int_str xs)"

definition print_cron :: "int list \<Rightarrow> int list \<Rightarrow> int list \<Rightarrow> int list \<Rightarrow> int list \<Rightarrow> string" where
  "print_cron minutes hours days months week =
     js_join '' '' (map print_values [minutes, hours, days, months, week])"

lemma js_join_simps [simp]:
  "js_join sep [w] = w" "js_join sep (w # v # ws) = w @ sep @ js_join sep (v # ws)"
  by (simp_all add: js_join_def)

lemma split_on_word: "c \<notin> set w \<Longrightarrow> split_on c w = [w]"
  by (induction w) auto

lemma split_on_sep: "c \<notin> set w \<Longrightarrow> split_on c (w @ c # rest) = w # split_on c rest"
  by (induction w) auto

lemma split_on_join:
  "ws \<noteq> [] \<Longrightarrow> (\<And>w. w \<in> set ws \<Longrightarrow> c \<notin> set w) \<Longrightarrow> split_on c (js_join [c] ws) = ws"
proof (induction ws rule: induct_list012)
  case (3 v w ws)
  then show ?case by (simp add: split_on_sep)
qed (simp_all add: split_on_word)

lemma split_spaces_word: "(\<And>x. x \<in> set w \<Longrightarrow> \<not> is_space x) \<Longrightarrow> split_spaces w = [w]"
  by (induction w) auto

lemma split_spaces_sep:
  "(\<And>x. x \<in> set w \<Longrightarrow> \<not> is_space x) \<Longrightarrow> \<not> is_space y \<Longrightarrow>
   split_spaces (w @ CHR '' '' # y # ys) = w # split_spaces (y # ys)"
  by (induction w) (auto simp: is_space_def)

lemma js_join_not_Nil: "w \<noteq> [] \<Longrightarrow> \<exists>y ys. js_join sep (w # ws) = y # ys \<and> y = hd w"
  by (cases w; cases ws) auto

lemma split_spaces_join:
  "ws \<noteq> [] \<Longrightarrow> (\<And>w. w \<in> set ws \<Longrightarrow> w \<noteq> [] \<and> (\<forall>x \<in> set w. \<not> is_space x)) \<Longrightarrow>
   split_spaces (js_join '' '' ws) = ws"
proof (induction ws rule: induct_list012)
  case (3 v w ws)
  obtain y ys where y: "js_join '' '' (w # ws) = y # ys" "y = hd w"
    using js_join_not_Nil 3 by (metis list.set_intros)
  then have "\<not> is_space y" using "3.prems"(2) [of w] by simp
  note sep = split_spaces_sep [of v y ys, OF _ this]
  have "split_spaces (v @ CHR '' '' # js_join '' '' (w # ws)) = v # split_spaces (js_join '' '' (w # ws))"
    unfolding y(1) using "3.prems"(2) [of v] by (intro sep) simp
  moreover have "split_spaces (js_join '' '' (w # ws)) = w # ws"
    using "3.prems" by (intro "3.IH"(2)) auto
  ultimately show ?case by simp
qed (simp_all add: split_spaces_word)

lemma js_trim_id:
  assumes "s \<noteq> []" "\<not> is_space (hd s)" "\<not> is_space (last s)"
  shows "js_trim s = s"
proof -
  have "dropWhile is_space s = s" using assms by (cases s) auto
  moreover have "dropWhile is_space (rev s) = rev s" using assms by (cases s rule: rev_cases) auto
  ultimately show ?thesis by (simp add: js_trim_def)
qed

lemma int_str_digits: "0 \<le> v \<Longrightarrow> all_digits (int_str v)"
  by (simp add: int_str_def all_digits_nat_str)

lemma all_digits_in: "all_digits s \<Longrightarrow> c \<in> set s \<Longrightarrow> is_digit c"
  by (simp add: all_digits_def list_all_iff)

lemma all_digits_notin: "all_digits s \<Longrightarrow> \<not> is_digit c \<Longrightarrow> c \<notin> set s"
  using all_digits_in by blast

lemma no_digits [simp]: "\<not> is_digit (CHR ''/'')" "\<not> is_digit (CHR ''-'')" "\<not> is_digit (CHR '','')"
  "\<not> is_digit (CHR ''*'')"
  by (simp_all add: is_digit_def)

lemma addTerm_value:
  assumes "0 \<le> v" "field_min name \<le> v" "v \<le> field_max name"
  shows "addTerm out (int_str v) name = Inr (js_set_add v out)"
proof -
  note digits = int_str_digits [OF assms(1)]
  have "CHR ''/'' \<notin> set (int_str v)" "CHR ''-'' \<notin> set (int_str v)"
    using all_digits_notin [OF digits] by simp_all
  moreover have "int_str v \<noteq> ''*''" using digits by (auto simp: all_digits_def is_digit_def)
  moreover have "parseCronInt (int_str v) name RoleValue = Inr v"
    using digits assms(1) by (simp add: parseCronInt_def int_str_def digits_val_nat_str)
  ultimately show ?thesis using assms by (simp add: addTerm_def parse_step_def)
qed

lemma add_terms_values:
  "values_ok name xs \<Longrightarrow> add_terms (map int_str xs) name out = Inr (fold js_set_add xs out)"
proof (induction xs arbitrary: out)
  case (Cons v xs)
  then have v: "field_min name \<le> v" "v \<le> field_max name" by (simp_all add: values_ok_def)
  then have "0 \<le> v" by (cases name) simp_all
  with v Cons int_str_digits [OF this] show ?case
    by (simp add: addTerm_value values_ok_def all_digits_def)
qed simp

lemma fold_js_set_add_distinct: "distinct (out @ xs) \<Longrightarrow> fold js_set_add xs out = out @ xs"
  by (induction xs arbitrary: out) (auto simp: js_set_add_def)

lemma js_set_of_distinct: "distinct xs \<Longrightarrow> js_set_of xs = xs"
  by (simp add: js_set_of_def fold_js_set_add_distinct)

lemma values_nonneg: "values_ok name xs \<Longrightarrow> v \<in> set xs \<Longrightarrow> 0 \<le> v"
  by (cases name) (auto simp: values_ok_def)

lemma print_values_chars:
  assumes "values_ok name xs" "x \<in> set (print_values xs)"
  shows "is_digit x \<or> x = CHR '',''"
proof -
  have "x = CHR '','' \<or> (\<exists>v \<in> set xs. x \<in> set (int_str v))"
    using assms(2) unfolding print_values_def js_join_def by (cases xs) (auto split: if_splits)
  with values_nonneg [OF assms(1)] show ?thesis using int_str_digits all_digits_in by blast
qed

lemma print_values_not_Nil:
  assumes "values_ok name xs" "xs \<noteq> []"
  shows "print_values xs \<noteq> []"
  using assms values_nonneg [OF assms(1), of "hd xs"] int_str_digits [of "hd xs"]
  by (cases xs) (auto simp: print_values_def js_join_def all_digits_def)

lemma parseField_print:
  assumes "values_ok name xs" "xs \<noteq> []"
  shows "parseField (print_values xs) name = Inr xs"
proof -
  have "CHR '','' \<notin> set (int_str v)" if "v \<in> set xs" for v
    using all_digits_notin [OF int_str_digits [OF values_nonneg [OF assms(1) that]]] by simp
  then have "split_on (CHR '','') (print_values xs) = map int_str xs"
    unfolding print_values_def using assms(2) by (intro split_on_join) auto
  moreover have "fold js_set_add xs [] = xs" using assms(1) by (simp add: fold_js_set_add_distinct values_ok_def)
  ultimately show ?thesis
    using print_values_not_Nil [OF assms] assms by (simp add: parseField_def add_terms_values)
qed

lemma print_values_not_star: "values_ok name xs \<Longrightarrow> \<not> isWildcard (print_values xs)"
  using print_values_chars [of name xs "CHR ''*''"] by (auto simp: isWildcard_def)

lemma parse_print:
  assumes "values_ok FMinute a" "values_ok FHour b" "values_ok FDayOfMonth c" "values_ok FMonth d"
    "values_ok FDayOfWeek w" "7 \<notin> set w" "a \<noteq> []" "b \<noteq> []" "c \<noteq> []" "d \<noteq> []" "w \<noteq> []"
  shows "parseCronExpression (print_cron a b c d w) =
     Inr \<lparr>cron_raw = print_cron a b c d w, cron_minutes = a, cron_hours = b, cron_daysOfMonth = c,
          cron_months = d, cron_daysOfWeek = w, cron_daysOfMonthWildcard = False,
          cron_daysOfWeekWildcard = False\<rparr>"
proof -
  let ?ws = "map print_values [a, b, c, d, w]"
  have word: "v \<noteq> [] \<and> (\<forall>x \<in> set v. \<not> is_space x)" if "v \<in> set ?ws" for v
  proof -
    have "print_values xs \<noteq> [] \<and> (\<forall>x \<in> set (print_values xs). \<not> is_space x)"
      if "values_ok name xs" "xs \<noteq> []" for name xs
    proof -
      have "\<not> is_space (CHR '','')" by (simp add: is_space_def)
      with print_values_not_Nil [OF that] print_values_chars [OF that(1)] is_digit_not_space
      show ?thesis by blast
    qed
    with assms that show ?thesis by auto
  qed
  have split: "split_spaces (print_cron a b c d w) = ?ws"
    unfolding print_cron_def using word by (intro split_spaces_join) auto
  have "print_cron a b c d w \<noteq> []" "\<not> is_space (hd (print_cron a b c d w))" "\<not> is_space (last (print_cron a b c d w))"
    using word [of "print_values a"] word [of "print_values w"] by (simp_all add: print_cron_def)
  then have trim: "js_trim (print_cron a b c d w) = print_cron a b c d w" "print_cron a b c d w \<noteq> []"
    by (simp_all add: js_trim_id)
  have week: "js_set_of (map (\<lambda>v. if v = 7 then 0 else v) w) = w"
  proof -
    have "map (\<lambda>v. if v = 7 then 0 else v) w = w" using assms(6) by (intro map_id_on) auto
    with assms(5) show ?thesis by (simp add: js_set_of_distinct values_ok_def)
  qed
  show ?thesis
    using assms by (simp add: parseCronExpression_def trim split parseField_print week print_values_not_star)
qed

section \<open>Properties\<close>

text \<open>
  C17: in a time zone at a fixed offset from UTC (no change to or from daylight saving), \<open>computeNextCronRun\<close> gives the
  first whole minute after \<open>fromMs\<close> whose month, day, hour and minute the expression admits, and \<open>null\<close> only when
  there is none in the next 5 * 366 days; the iteration cap is never what ends the search.
\<close>

theorem computeNextCronRun_first:
  "next_fire tz expr fromMs (fromMs + 5 * 366 * 24 * 60 * MS_PER_MINUTE) (computeNextCronRun tz expr fromMs)"
  by (rule computeNextCronRun_next)

text \<open>
  \<open>hasFireWithinYears\<close> is true exactly when some whole minute after \<open>fromMs\<close> within the window
  matches, for windows of at most ten million minutes (about 19 years).
\<close>

theorem hasFireWithinYears_iff:
  assumes "\<lfloor>years * 366 * 24 * 60\<rfloor> \<le> HARD_ITERATION_CAP"
  shows "hasFireWithinYears tz expr years fromMs \<longleftrightarrow>
    (\<exists>t. aligned tz t \<and> fromMs < t \<and> t \<le> fromMs + max 1 \<lfloor>years * 366 * 24 * 60\<rfloor> * MS_PER_MINUTE
       \<and> cron_matches tz expr t)"
proof -
  let ?cap = "max 1 \<lfloor>years * 366 * 24 * 60\<rfloor>"
  have "?cap \<le> HARD_ITERATION_CAP" using assms by (simp add: HARD_ITERATION_CAP_def)
  from nextRun_next_fire [OF this, of tz expr fromMs] show ?thesis
    unfolding hasFireWithinYears_def Let_def next_fire_def
    by (cases "nextRunWithinMinutes tz expr fromMs ?cap") (simp_all, blast+)
qed

definition every_minute :: parsed_cron where
  "every_minute =
     \<lparr>cron_raw = ''* * * * *'', cron_minutes = [0 .. 59], cron_hours = [0 .. 23],
      cron_daysOfMonth = [1 .. 31], cron_months = [1 .. 12], cron_daysOfWeek = [0 .. 6],
      cron_daysOfMonthWildcard = True, cron_daysOfWeekWildcard = True\<rparr>"

lemma every_minute_matches: "cron_matches tz every_minute t"
  using day_in_month [of "local_day tz t"] getHours_bounds [of tz t] getMinutes_bounds [of tz t]
  by (auto simp: cron_matches_def every_minute_def dayMatches_def getMonth_def)

theorem hasFireWithinYears_iff_witness: "hasFireWithinYears 0 every_minute 1 0"
proof -
  have "\<lfloor>1 * 366 * 24 * 60 :: number\<rfloor> = 527040" by simp
  then have "\<lfloor>1 * 366 * 24 * 60 :: number\<rfloor> \<le> HARD_ITERATION_CAP" by (simp add: HARD_ITERATION_CAP_def)
  from hasFireWithinYears_iff [OF this, of 0 every_minute 0] show ?thesis
    using every_minute_matches [of 0 60000]
    by (auto simp: aligned_def MS_PER_MINUTE_def intro!: exI [of _ 60000])
qed

text \<open>
  A parsed expression has every field non-empty, without repeats and within the field's range,
  Sunday as 0 only, and a wildcard day field that admits every day.
\<close>

theorem parseCronExpression_wf:
  assumes "parseCronExpression s = Inr e"
  shows "wf_cron e"
  using assms by (rule parse_wf)


text \<open>
  Parsing inverts printing: five lists of values in range, each without repeats and not empty, and the
  weekdays without 7 (which is read as 0), come back as they were from the expression that lists them.
\<close>

theorem parse_print_roundtrip:
  assumes "values_ok FMinute a" "values_ok FHour b" "values_ok FDayOfMonth c" "values_ok FMonth d"
    "values_ok FDayOfWeek w" "7 \<notin> set w" "a \<noteq> []" "b \<noteq> []" "c \<noteq> []" "d \<noteq> []" "w \<noteq> []"
  shows "map_sum id (\<lambda>e. (cron_minutes e, cron_hours e, cron_daysOfMonth e, cron_months e, cron_daysOfWeek e))
      (parseCronExpression (print_cron a b c d w)) = Inr (a, b, c, d, w)"
  using parse_print [OF assms] by simp

theorem parse_print_roundtrip_witness:
  "map_sum id (\<lambda>e. (cron_minutes e, cron_hours e, cron_daysOfMonth e, cron_months e, cron_daysOfWeek e))
      (parseCronExpression (print_cron [15, 45] [8, 20] [1] [2, 3] [0]))
     = Inr ([15, 45], [8, 20], [1], [2, 3], [0])"
  by (rule parse_print_roundtrip) (simp_all add: values_ok_def)

text \<open>
  \<open>cronToHuman\<close> describes the list \<open>0,5\<close>, which fires twice an hour, as every 5 minutes: the
  step it detects need not run through the hour.
\<close>

theorem cronToHuman_short_list:
  "map_sum id cronToHuman (parseCronExpression ''0,5 * * * *'') = Inr ''every 5 minutes''
   \<and> map_sum id (\<lambda>e. cron_minutes e) (parseCronExpression ''0,5 * * * *'') = Inr [0, 5]
   \<and> map_sum id cronToHuman (parseCronExpression ''*/5 * * * *'') = Inr ''every 5 minutes''"
  by code_simp

end
