(* ===== verification/CronJitter.thy ===== *)
theory CronJitter
  imports CronExpr "HOL-Library.Word"
begin

text \<open>
  \<open>packages/agent-core-v2/src/app/cron/jitter.ts\<close>: the deterministic offset of a task's fire time.
  The string hash is computed on 32-bit words: \<open>x | 0\<close> reduces the exact sum modulo 2^32, and
  \<open>hash >>> 0\<close> reads the word as unsigned. Fractions and offsets are rationals (the rounding of
  doubles is not modelled).
\<close>

record jitter_config =
  recurringMaxFractionOfPeriod :: number
  recurringMaxMs :: number
  oneShotMaxMs :: number

definition DEFAULT_CRON_JITTER_CONFIG :: jitter_config where
  "DEFAULT_CRON_JITTER_CONFIG =
     \<lparr>recurringMaxFractionOfPeriod = 1 / 10, recurringMaxMs = 15 * 60000, oneShotMaxMs = 90000\<rparr>"

record jitter_task =
  jt_id :: string
  jt_createdAt :: "number option"

definition is_hex8 :: "string \<Rightarrow> bool" where
  "is_hex8 s \<longleftrightarrow> length s = 8 \<and> list_all (\<lambda>c. radix_digit c < 16) s"

fun string_hash :: "string \<Rightarrow> 32 word \<Rightarrow> 32 word" where
  "string_hash [] hash = hash"
| "string_hash (c # cs) hash = string_hash cs (push_bit 5 hash + hash + of_nat (of_char c))"

definition fractionFromId :: "string \<Rightarrow> number" where
  "fractionFromId i =
     (case (if is_hex8 i then radix_val 16 0 i else None) of
        Some n \<Rightarrow> of_nat n / 4294967296
      | None \<Rightarrow> of_nat (unat (string_hash i 5381)) / 4294967296)"

definition jitterDisabled :: "bool option \<Rightarrow> bool" where
  "jitterDisabled noJitter \<longleftrightarrow> noJitter = Some True"

definition jitteredNextCronRunMs ::
  "int \<Rightarrow> jitter_task \<Rightarrow> parsed_cron \<Rightarrow> int \<Rightarrow> jitter_config \<Rightarrow> bool option \<Rightarrow> number" where
  "jitteredNextCronRunMs tz task parsed idealMs config noJitter =
     (if jitterDisabled noJitter then of_int idealMs
      else
        let period = (case computeNextCronRun tz parsed idealMs of
                        Some n \<Rightarrow> if idealMs < n then n - idealMs else MS_PER_DAY
                      | None \<Rightarrow> MS_PER_DAY);
            cap = min (of_int period * recurringMaxFractionOfPeriod config) (recurringMaxMs config)
        in if \<not> 0 < cap then of_int idealMs
           else of_int idealMs + cap * fractionFromId (jt_id task))"

definition oneShotJitteredNextCronRunMs ::
  "int \<Rightarrow> jitter_task \<Rightarrow> int \<Rightarrow> jitter_config \<Rightarrow> bool option \<Rightarrow> number" where
  "oneShotJitteredNextCronRunMs tz task idealMs config noJitter =
     (if jitterDisabled noJitter then of_int idealMs
      else if idealMs mod MS_PER_MINUTE \<noteq> 0 then of_int idealMs
      else if getMinutes tz idealMs \<noteq> 0 \<and> getMinutes tz idealMs \<noteq> 30 then of_int idealMs
      else if \<not> 0 < oneShotMaxMs config then of_int idealMs
      else
        let shifted = of_int idealMs + - oneShotMaxMs config * fractionFromId (jt_id task)
        in case jt_createdAt task of
             Some c \<Rightarrow> if shifted < c then of_int idealMs else shifted
           | None \<Rightarrow> shifted)"

section \<open>The fraction lies in the unit interval\<close>

lemma radix_val_bound: "radix_val b acc s = Some n \<Longrightarrow> n < (acc + 1) * b ^ length s"
proof (induction b acc s rule: radix_val.induct)
  case (2 b acc c cs)
  then have d: "radix_digit c < b" and n: "n < (b * acc + radix_digit c + 1) * b ^ length cs"
    by (auto split: if_splits)
  have "(b * acc + radix_digit c + 1) * b ^ length cs \<le> (b * acc + b) * b ^ length cs"
    using d by (intro mult_right_mono) simp_all
  with n show ?case by (simp add: algebra_simps)
qed simp

lemma fraction_bounds: "0 \<le> fractionFromId i \<and> fractionFromId i < 1"
proof (cases "if is_hex8 i then radix_val 16 0 i else None")
  case None
  obtain n where n: "n = unat (string_hash i 5381)" by blast
  then have "n < 4294967296" using unsigned_less [of "string_hash i 5381"] by simp
  then have "(of_nat n :: number) < of_nat 4294967296" by (simp only: of_nat_less_iff)
  moreover have "fractionFromId i = of_nat n / 4294967296"
    unfolding fractionFromId_def None option.case n ..
  ultimately show ?thesis by simp
next
  case (Some n)
  then have hex: "is_hex8 i" "radix_val 16 0 i = Some n" by (simp_all split: if_splits)
  have "n < 4294967296" using radix_val_bound [OF hex(2)] hex(1) by (simp add: is_hex8_def)
  then have "(of_nat n :: number) < of_nat 4294967296" by (simp only: of_nat_less_iff)
  with Some show ?thesis unfolding fractionFromId_def by simp
qed

lemma mult_fraction: "0 < cap \<Longrightarrow> 0 \<le> cap * fractionFromId i \<and> cap * fractionFromId i < cap"
  using fraction_bounds [of i] by (simp add: mult_less_cancel_left2)

section \<open>Properties\<close>

text \<open>
  A recurring task is never shifted earlier, and under a fraction of at most 1 its shifted time
  stays before the next ideal fire, so fires of one task do not change places.
\<close>

theorem recurring_jitter_before_next:
  assumes "computeNextCronRun tz parsed idealMs = Some n" "recurringMaxFractionOfPeriod config \<le> 1"
  shows "of_int idealMs \<le> jitteredNextCronRunMs tz task parsed idealMs config noJitter
    \<and> jitteredNextCronRunMs tz task parsed idealMs config noJitter < of_int n"
proof -
  have later: "idealMs < n"
    using computeNextCronRun_next [of tz parsed idealMs] assms(1) by (simp add: next_fire_def)
  let ?cap = "min (of_int (n - idealMs) * recurringMaxFractionOfPeriod config) (recurringMaxMs config)"
  have "of_int (n - idealMs) * recurringMaxFractionOfPeriod config \<le> of_int (n - idealMs)"
    using later assms(2) by (intro mult_left_le) simp_all
  then have cap: "?cap \<le> of_int n - of_int idealMs" by (simp add: min_le_iff_disj)
  have jittered: "jitteredNextCronRunMs tz task parsed idealMs config noJitter \<in>
      {of_int idealMs, if 0 < ?cap then of_int idealMs + ?cap * fractionFromId (jt_id task) else of_int idealMs}"
    by (simp add: jitteredNextCronRunMs_def Let_def assms(1) later)
  show ?thesis
  proof (cases "0 < ?cap")
    case True
    with jittered cap mult_fraction [OF True, of "jt_id task"] later show ?thesis by auto
  next
    case False
    with jittered later show ?thesis by auto
  qed
qed

definition sample_task :: jitter_task where
  "sample_task = \<lparr>jt_id = ''80000000'', jt_createdAt = Some 0\<rparr>"

lemma every_minute_next: "computeNextCronRun 0 every_minute 0 = Some 60000"
proof -
  have al: "aligned 0 60000" by (simp add: aligned_def MS_PER_MINUTE_def)
  have found: "next_fire 0 every_minute 0 158112000000 (computeNextCronRun 0 every_minute 0)"
    using computeNextCronRun_next [of 0 every_minute 0] by (simp add: MS_PER_MINUTE_def)
  then obtain t where t: "computeNextCronRun 0 every_minute 0 = Some t"
    using al every_minute_matches
    by (cases "computeNextCronRun 0 every_minute 0") (auto simp: next_fire_def dest!: spec [of _ 60000])
  with found have "aligned 0 t" "0 < t" "\<not> 60000 < t"
    using al every_minute_matches [of 0 60000] by (auto simp: next_fire_def)
  then have "t = 60000"
    using zdvd_imp_le [of 60000 t] by (simp add: aligned_def MS_PER_MINUTE_def mod_eq_0_iff_dvd)
  with t show ?thesis by simp
qed

theorem recurring_jitter_before_next_witness:
  "jitteredNextCronRunMs 0 sample_task every_minute 0 DEFAULT_CRON_JITTER_CONFIG None < 60000"
  using recurring_jitter_before_next [OF every_minute_next, of DEFAULT_CRON_JITTER_CONFIG sample_task None]
  by (simp add: DEFAULT_CRON_JITTER_CONFIG_def)

text \<open>
  a one-shot task is never shifted later, less than the configured maximum earlier, and never
  to before it was created unless its ideal time is.
\<close>

theorem one_shot_jitter_bounds:
  assumes "0 \<le> oneShotMaxMs config"
  shows "oneShotJitteredNextCronRunMs tz task idealMs config noJitter \<le> of_int idealMs
    \<and> (oneShotJitteredNextCronRunMs tz task idealMs config noJitter = of_int idealMs
       \<or> of_int idealMs - oneShotMaxMs config < oneShotJitteredNextCronRunMs tz task idealMs config noJitter)
    \<and> (case jt_createdAt task of
         Some c \<Rightarrow> min c (of_int idealMs) \<le> oneShotJitteredNextCronRunMs tz task idealMs config noJitter
       | None \<Rightarrow> True)"
proof (cases "0 < oneShotMaxMs config")
  case True
  then show ?thesis
    using mult_fraction [OF True, of "jt_id task"]
    by (auto simp: oneShotJitteredNextCronRunMs_def Let_def split: option.split)
next
  case False
  then show ?thesis
    by (auto simp: oneShotJitteredNextCronRunMs_def Let_def split: option.split)
qed

theorem one_shot_jitter_bounds_witness:
  "oneShotJitteredNextCronRunMs 0 sample_task 3600000 DEFAULT_CRON_JITTER_CONFIG None \<le> 3600000
   \<and> oneShotJitteredNextCronRunMs 0 sample_task 3600000 DEFAULT_CRON_JITTER_CONFIG None = 3555000"
proof
  show "oneShotJitteredNextCronRunMs 0 sample_task 3600000 DEFAULT_CRON_JITTER_CONFIG None \<le> 3600000"
    using one_shot_jitter_bounds [of DEFAULT_CRON_JITTER_CONFIG 0 sample_task 3600000 None]
    by (simp add: DEFAULT_CRON_JITTER_CONFIG_def)
  show "oneShotJitteredNextCronRunMs 0 sample_task 3600000 DEFAULT_CRON_JITTER_CONFIG None = 3555000"
    by (simp add: oneShotJitteredNextCronRunMs_def jitterDisabled_def MS_PER_MINUTE_def getMinutes_def
        local_time_def MS_PER_DAY_def DEFAULT_CRON_JITTER_CONFIG_def sample_task_def fractionFromId_def is_hex8_def)
qed

end
