(* ===== verification/ToolScheduling.thy ===== *)
theory ToolScheduling
  imports JsValue
begin

text \<open>
  \<open>packages/agent-core-v2/src/agent/toolExecutor/toolScheduler.ts\<close> with the resource accesses of
  \<open>tool/toolContract.ts\<close>: which tool calls of a step may overlap, and in which order they start.
  A task is its identity, its accesses and whether \<open>start()\<close> throws before it returns a promise;
  the settling of a started task's promise is a step of its own. The nested calls of
  \<open>start\<close>, \<open>finish\<close> and \<open>startQueuedTasks\<close> are a partial function: \<open>None\<close> is a call that does
  not return. Paths are lower-cased in ASCII only.
\<close>

section \<open>Accesses\<close>

datatype file_operation = OpRead | OpWrite | OpReadWrite | OpSearch

datatype tool_access =
    AccessAll
  | AccessFile file_operation string "bool option"

type_synonym tool_accesses = "tool_access list"

definition accesses_none :: tool_accesses where "accesses_none = []"

definition accesses_all :: tool_accesses where "accesses_all = [AccessAll]"

definition accesses_file :: "file_operation \<Rightarrow> string \<Rightarrow> bool option \<Rightarrow> tool_accesses" where
  "accesses_file op path recursive = [AccessFile op path recursive]"

definition readFile :: "string \<Rightarrow> tool_accesses" where "readFile p = accesses_file OpRead p None"
definition readTree :: "string \<Rightarrow> tool_accesses" where "readTree p = accesses_file OpRead p (Some True)"
definition writeFile :: "string \<Rightarrow> tool_accesses" where "writeFile p = accesses_file OpWrite p None"
definition writeTree :: "string \<Rightarrow> tool_accesses" where "writeTree p = accesses_file OpWrite p (Some True)"
definition readWriteFile :: "string \<Rightarrow> tool_accesses" where "readWriteFile p = accesses_file OpReadWrite p None"
definition readWriteTree :: "string \<Rightarrow> tool_accesses" where
  "readWriteTree p = accesses_file OpReadWrite p (Some True)"
definition searchTree :: "string \<Rightarrow> tool_accesses" where "searchTree p = accesses_file OpSearch p (Some True)"

fun collapse_slashes :: "string \<Rightarrow> string" where
  "collapse_slashes (x # y # xs) =
     (if x = CHR ''/'' \<and> y = CHR ''/'' then collapse_slashes (y # xs) else x # collapse_slashes (y # xs))"
| "collapse_slashes xs = xs"

definition to_lower :: "char \<Rightarrow> char" where
  "to_lower c = (let n = of_char c :: nat in if 65 \<le> n \<and> n \<le> 90 then char_of (n + 32) else c)"

definition normalizePath :: "string \<Rightarrow> string" where
  "normalizePath path =
     (let normalized = collapse_slashes (map (\<lambda>c. if c = CHR 0x5C then CHR ''/'' else c) path);
          folded = map to_lower normalized
      in if 1 < length folded \<and> last folded = CHR ''/'' then butlast folded else folded)"

definition fileOperationWrites :: "file_operation \<Rightarrow> bool" where
  "fileOperationWrites op = (case op of OpRead \<Rightarrow> False | OpSearch \<Rightarrow> False | OpWrite \<Rightarrow> True | OpReadWrite \<Rightarrow> True)"

definition fileOperationsConflict :: "file_operation \<Rightarrow> file_operation \<Rightarrow> bool" where
  "fileOperationsConflict a b \<longleftrightarrow> fileOperationWrites a \<or> fileOperationWrites b"

definition starts_with :: "string \<Rightarrow> string \<Rightarrow> bool" where
  "starts_with s p \<longleftrightarrow> take (length p) s = p"

definition path_prefix :: "string \<Rightarrow> string" where
  "path_prefix p = (if p \<noteq> [] \<and> last p = CHR ''/'' then p else p @ ''/'')"

definition fileAccessesOverlap :: "string \<Rightarrow> bool option \<Rightarrow> string \<Rightarrow> bool option \<Rightarrow> bool" where
  "fileAccessesOverlap p1 r1 p2 r2 =
     (let left = normalizePath p1; right = normalizePath p2 in
      left = right \<or> (r1 = Some True \<and> starts_with right (path_prefix left))
      \<or> (r2 = Some True \<and> starts_with left (path_prefix right)))"

fun resourceAccessesConflict :: "tool_access \<Rightarrow> tool_access \<Rightarrow> bool" where
  "resourceAccessesConflict AccessAll _ = True"
| "resourceAccessesConflict _ AccessAll = True"
| "resourceAccessesConflict (AccessFile o1 p1 r1) (AccessFile o2 p2 r2) =
     (fileOperationsConflict o1 o2 \<and> fileAccessesOverlap p1 r1 p2 r2)"

definition conflict :: "tool_accesses \<Rightarrow> tool_accesses \<Rightarrow> bool" where
  "conflict left right \<longleftrightarrow> list_ex (\<lambda>a. list_ex (resourceAccessesConflict a) right) left"

section \<open>The scheduler\<close>

record tool_task =
  tt_no :: nat
  tt_accesses :: tool_accesses
  tt_throws :: bool

record scheduler =
  sc_active :: "tool_task list"
  sc_queued :: "tool_task list"
  sc_started :: "tool_task list"
  sc_rejected :: "tool_task list"

definition new_scheduler :: scheduler where
  "new_scheduler = \<lparr>sc_active = [], sc_queued = [], sc_started = [], sc_rejected = []\<rparr>"

definition conflictsWithAny :: "tool_task \<Rightarrow> tool_task list \<Rightarrow> bool" where
  "conflictsWithAny t candidates \<longleftrightarrow> list_ex (\<lambda>c. conflict (tt_accesses t) (tt_accesses c)) candidates"

definition isBlocked :: "scheduler \<Rightarrow> tool_task \<Rightarrow> tool_task list \<Rightarrow> bool" where
  "isBlocked s t queuedBefore \<longleftrightarrow> conflictsWithAny t (sc_active s) \<or> conflictsWithAny t queuedBefore"

text \<open>The task enters \<open>activeTasks\<close> and \<open>task.start()\<close> is called.\<close>

definition begin_task :: "tool_task \<Rightarrow> scheduler \<Rightarrow> scheduler" where
  "begin_task t s = s\<lparr>sc_active := sc_active s @ [t], sc_started := sc_started s @ [t]\<rparr>"

text \<open>The rejection of its result and its removal from \<open>activeTasks\<close>.\<close>

definition reject_task :: "tool_task \<Rightarrow> scheduler \<Rightarrow> scheduler" where
  "reject_task t s = s\<lparr>sc_active := remove1 t (sc_active s), sc_rejected := sc_rejected s @ [t]\<rparr>"

text \<open>
  The loop of \<open>startQueuedTasks\<close> over the array it was entered with: a task that throws calls
  \<open>finish\<close>, which runs a loop of its own over the queue as it still is.
\<close>

partial_function (option) run_queue :: "tool_task list \<Rightarrow> tool_task list \<Rightarrow> scheduler \<Rightarrow> scheduler option" where
  "run_queue tasks stillQueued s =
     (case tasks of
        [] \<Rightarrow> Some (s\<lparr>sc_queued := stillQueued\<rparr>)
      | t # ts \<Rightarrow>
          if isBlocked s t stillQueued then run_queue ts (stillQueued @ [t]) s
          else
            let s1 = begin_task t s in
            if tt_throws t
            then Option.bind (let s2 = reject_task t s1 in run_queue (sc_queued s2) [] s2)
                   (\<lambda>s3. run_queue ts stillQueued s3)
            else run_queue ts stillQueued s1)"

definition startQueuedTasks :: "scheduler \<Rightarrow> scheduler option" where
  "startQueuedTasks s = run_queue (sc_queued s) [] s"

definition finish :: "tool_task \<Rightarrow> scheduler \<Rightarrow> scheduler option" where
  "finish t s = startQueuedTasks (s\<lparr>sc_active := remove1 t (sc_active s)\<rparr>)"

definition start :: "tool_task \<Rightarrow> scheduler \<Rightarrow> scheduler option" where
  "start t s =
     (let s1 = begin_task t s in
      if tt_throws t then startQueuedTasks (reject_task t s1) else Some s1)"

definition add_task :: "tool_task \<Rightarrow> scheduler \<Rightarrow> scheduler option" where
  "add_task t s =
     (if isBlocked s t (sc_queued s) then Some (s\<lparr>sc_queued := sc_queued s @ [t]\<rparr>) else start t s)"

section \<open>Conflicts\<close>

lemma resource_sym: "resourceAccessesConflict a b = resourceAccessesConflict b a"
  by (cases a; cases b) (auto simp: fileOperationsConflict_def fileAccessesOverlap_def Let_def)

lemma conflict_iff: "conflict xs ys \<longleftrightarrow> (\<exists>a \<in> set xs. \<exists>b \<in> set ys. resourceAccessesConflict a b)"
  by (simp add: conflict_def list_ex_iff)

lemma conflict_sym: "conflict xs ys = conflict ys xs"
  unfolding conflict_iff using resource_sym by blast

lemma collapse_idem: "collapse_slashes (collapse_slashes xs) = collapse_slashes xs"
proof (induction xs rule: collapse_slashes.induct)
  case (1 x y xs)
  have head: "\<exists>zs. collapse_slashes (y # ys) = y # zs" for y ys
    by (induction ys arbitrary: y) auto
  obtain zs where zs: "collapse_slashes (y # xs) = y # zs" using head by blast
  show ?case
  proof (cases "x = CHR ''/'' \<and> y = CHR ''/''")
    case True
    with 1 show ?thesis by simp
  next
    case False
    with 1 zs show ?thesis by auto
  qed
qed simp_all

lemma reads_share:
  assumes "list_all (\<lambda>a. case a of AccessFile op _ _ \<Rightarrow> \<not> fileOperationWrites op | AccessAll \<Rightarrow> False) xs"
    "list_all (\<lambda>a. case a of AccessFile op _ _ \<Rightarrow> \<not> fileOperationWrites op | AccessAll \<Rightarrow> False) ys"
  shows "\<not> conflict xs ys"
proof -
  have "\<not> resourceAccessesConflict a b" if "a \<in> set xs" "b \<in> set ys" for a b
    using assms that
    by (cases a; cases b) (auto simp: list_all_iff fileOperationsConflict_def)
  then show ?thesis by (simp add: conflict_iff)
qed

section \<open>A queue of tasks that do not throw\<close>

lemma run_queue_simps:
  "run_queue [] still s = Some (s\<lparr>sc_queued := still\<rparr>)"
  "isBlocked s t still \<Longrightarrow> run_queue (t # ts) still s = run_queue ts (still @ [t]) s"
  "\<not> isBlocked s t still \<Longrightarrow> \<not> tt_throws t \<Longrightarrow> run_queue (t # ts) still s = run_queue ts still (begin_task t s)"
  "\<not> isBlocked s t still \<Longrightarrow> tt_throws t \<Longrightarrow>
     run_queue (t # ts) still s =
       Option.bind (run_queue (sc_queued s) [] (reject_task t (begin_task t s))) (run_queue ts still)"
  by (subst run_queue.simps; simp add: Let_def begin_task_def reject_task_def)+

text \<open>The loop over tasks that do not throw returns; this is what it computes.\<close>

fun sweep :: "tool_task list \<Rightarrow> tool_task list \<Rightarrow> scheduler \<Rightarrow> scheduler" where
  "sweep [] still s = s\<lparr>sc_queued := still\<rparr>"
| "sweep (t # ts) still s =
     (if isBlocked s t still then sweep ts (still @ [t]) s else sweep ts still (begin_task t s))"

lemma run_queue_sweep:
  "list_all (\<lambda>t. \<not> tt_throws t) ts \<Longrightarrow> run_queue ts still s = Some (sweep ts still s)"
  by (induction ts still s rule: sweep.induct) (simp_all add: run_queue_simps)

definition task_conflict :: "tool_task \<Rightarrow> tool_task \<Rightarrow> bool" where
  "task_conflict a b \<longleftrightarrow> conflict (tt_accesses a) (tt_accesses b)"

lemma task_conflict_sym: "task_conflict a b = task_conflict b a"
  unfolding task_conflict_def by (rule conflict_sym)

lemma isBlocked_iff:
  "isBlocked s t before \<longleftrightarrow> (\<exists>c \<in> set (sc_active s) \<union> set before. task_conflict t c)"
  by (auto simp: isBlocked_def conflictsWithAny_def list_ex_iff task_conflict_def)

lemma isBlocked_begin: "isBlocked s t before \<Longrightarrow> isBlocked (begin_task u s) t before"
  by (auto simp: isBlocked_iff begin_task_def)

text \<open>
  The invariant of a run in which the tasks \<open>added\<close> were added: the queue holds the tasks not yet
  started in the order they came; each waits for an active task or for one queued before it; the
  active tasks do not conflict; of two tasks that conflict the one added first started first.
\<close>

fun all_blocked :: "scheduler \<Rightarrow> tool_task list \<Rightarrow> tool_task list \<Rightarrow> bool" where
  "all_blocked s before [] = True"
| "all_blocked s before (t # ts) = (isBlocked s t before \<and> all_blocked s (before @ [t]) ts)"

fun apart :: "tool_task list \<Rightarrow> bool" where
  "apart [] = True"
| "apart (t # ts) = (list_all (\<lambda>u. \<not> task_conflict t u) ts \<and> apart ts)"

definition precedes :: "'a list \<Rightarrow> 'a \<Rightarrow> 'a \<Rightarrow> bool" where
  "precedes xs a b \<longleftrightarrow> b \<in> set xs \<and> a \<in> set (takeWhile (\<lambda>x. x \<noteq> b) xs)"

definition starts_in_order :: "tool_task list \<Rightarrow> tool_task list \<Rightarrow> bool" where
  "starts_in_order added started \<longleftrightarrow>
     list_all (\<lambda>b. list_all (\<lambda>a. precedes added a b \<and> task_conflict a b \<longrightarrow> precedes started a b) added) started"

lemma all_blocked_snoc:
  "all_blocked s before (ts @ [t]) \<longleftrightarrow> all_blocked s before ts \<and> isBlocked s t (before @ ts)"
  by (induction ts arbitrary: before) auto

lemma all_blocked_begin: "all_blocked s before ts \<Longrightarrow> all_blocked (begin_task u s) before ts"
  by (induction ts arbitrary: before) (auto simp: isBlocked_begin)

lemma all_blocked_queued [simp]: "all_blocked (s\<lparr>sc_queued := q\<rparr>) before ts = all_blocked s before ts"
  by (induction ts arbitrary: before) (auto simp: isBlocked_iff)

lemma apart_snoc: "apart (ts @ [t]) \<longleftrightarrow> apart ts \<and> list_all (\<lambda>u. \<not> task_conflict t u) ts"
  by (induction ts) (auto simp: task_conflict_sym)

lemma apart_remove1: "apart ts \<Longrightarrow> apart (remove1 t ts)"
  by (induction ts) (auto simp: list_all_iff dest: notin_set_remove1 in_set_remove1 set_remove1_subset [THEN subsetD])

lemma precedes_snoc:
  "precedes (xs @ [t]) a b \<longleftrightarrow> precedes xs a b \<or> (b = t \<and> t \<notin> set xs \<and> a \<in> set xs)"
  by (auto simp: precedes_def takeWhile_append dest: set_takeWhileD)

lemma starts_in_order_iff:
  "starts_in_order added started \<longleftrightarrow>
     (\<forall>a b. b \<in> set started \<and> precedes added a b \<and> task_conflict a b \<longrightarrow> precedes started a b)"
proof -
  have "a \<in> set added" if "precedes added a b" for a b
    using that by (auto simp: precedes_def dest: set_takeWhileD)
  then show ?thesis by (auto simp: starts_in_order_def list_all_iff)
qed

text \<open>The invariant inside the loop: \<open>still\<close> was passed over, \<open>ts\<close> is ahead.\<close>

definition sweep_inv :: "tool_task list \<Rightarrow> tool_task list \<Rightarrow> tool_task list \<Rightarrow> scheduler \<Rightarrow> bool" where
  "sweep_inv added still ts s \<longleftrightarrow>
     distinct added \<and> distinct (sc_started s) \<and> distinct (sc_active s)
     \<and> set (sc_active s) \<subseteq> set (sc_started s) \<and> set (sc_started s) \<subseteq> set added
     \<and> still @ ts = filter (\<lambda>t. t \<notin> set (sc_started s)) added
     \<and> apart (sc_active s) \<and> all_blocked s [] still \<and> starts_in_order added (sc_started s)"

definition sched_inv :: "tool_task list \<Rightarrow> scheduler \<Rightarrow> bool" where
  "sched_inv added s \<longleftrightarrow> sweep_inv added (sc_queued s) [] s"

lemma takeWhile_filter: "P b \<Longrightarrow> takeWhile (\<lambda>x. x \<noteq> b) (filter P xs) = filter P (takeWhile (\<lambda>x. x \<noteq> b) xs)"
  by (induction xs) auto

lemma precedes_filter:
  assumes "distinct added" "precedes added a b" "P a" "still @ b # ts = filter P added"
  shows "a \<in> set still"
proof -
  have d: "distinct (still @ b # ts)" using assms(1,4) by simp
  have "b \<in> set (filter P added)" using assms(4) by (metis in_set_conv_decomp)
  then have "takeWhile (\<lambda>x. x \<noteq> b) (still @ b # ts) = filter P (takeWhile (\<lambda>x. x \<noteq> b) added)"
    unfolding assms(4) by (simp add: takeWhile_filter)
  moreover have "takeWhile (\<lambda>x. x \<noteq> b) (still @ b # ts) = still"
    using d by (subst takeWhile_append2) auto
  ultimately show ?thesis using assms(2,3) by (auto simp: precedes_def)
qed

lemma sweep_inv_start:
  assumes "sweep_inv added still (t # ts) s" "\<not> isBlocked s t still"
  shows "sweep_inv added still ts (begin_task t s)"
proof -
  have d: "distinct added" and q: "still @ t # ts = filter (\<lambda>u. u \<notin> set (sc_started s)) added"
    using assms(1) by (auto simp: sweep_inv_def)
  have dq: "distinct (still @ t # ts)" unfolding q using d by simp
  have "t \<in> set (filter (\<lambda>u. u \<notin> set (sc_started s)) added)" using q by (metis in_set_conv_decomp)
  then have t: "t \<in> set added" "t \<notin> set (sc_started s)" by auto
  have "still @ ts = filter (\<lambda>u. u \<noteq> t) (still @ t # ts)"
    using dq by (simp, metis (mono_tags, lifting) filter_True)
  also have "\<dots> = filter (\<lambda>u. u \<notin> set (sc_started (begin_task t s))) added"
    unfolding q filter_filter by (rule filter_cong) (auto simp: begin_task_def)
  finally have q2: "still @ ts = filter (\<lambda>u. u \<notin> set (sc_started (begin_task t s))) added" .
  have ord: "a \<in> set (sc_started s)" if "precedes added a t" "task_conflict a t" for a
  proof (rule ccontr)
    assume "a \<notin> set (sc_started s)"
    then have "a \<in> set still" using precedes_filter [OF d that(1) _ q] by blast
    then show False using assms(2) that(2) by (auto simp: isBlocked_iff task_conflict_sym)
  qed
  have "starts_in_order added (sc_started (begin_task t s))"
    using assms(1) t(2) ord by (auto simp: sweep_inv_def starts_in_order_iff begin_task_def precedes_snoc)
  moreover have "apart (sc_active (begin_task t s))"
    using assms by (auto simp: sweep_inv_def begin_task_def apart_snoc isBlocked_iff list_all_iff)
  moreover have "all_blocked (begin_task t s) [] still"
    using assms(1) by (simp add: sweep_inv_def all_blocked_begin)
  ultimately show ?thesis
    using assms(1) t q2 by (auto simp: sweep_inv_def begin_task_def)
qed

lemma sweep_inv_pass:
  "sweep_inv added still (t # ts) s \<Longrightarrow> isBlocked s t still \<Longrightarrow> sweep_inv added (still @ [t]) ts s"
  by (simp add: sweep_inv_def all_blocked_snoc)

lemma sweep_keeps:
  "sweep_inv added still ts s \<Longrightarrow> sched_inv added (sweep ts still s)"
proof (induction ts still s rule: sweep.induct)
  case (1 still s)
  then show ?case by (auto simp: sched_inv_def sweep_inv_def)
next
  case (2 t ts still s)
  then show ?case using sweep_inv_start sweep_inv_pass by (simp split: if_splits)
qed

lemma sched_inv_settle:
  assumes "sched_inv added s"
  shows "sched_inv added (sweep (sc_queued s) [] (s\<lparr>sc_active := remove1 t (sc_active s)\<rparr>))"
proof (rule sweep_keeps)
  have "set (remove1 t (sc_active s)) \<subseteq> set (sc_active s)" by (rule set_remove1_subset)
  then show "sweep_inv added [] (sc_queued s) (s\<lparr>sc_active := remove1 t (sc_active s)\<rparr>)"
    using assms by (auto simp: sched_inv_def sweep_inv_def apart_remove1)
qed

section \<open>Runs of the scheduler\<close>

text \<open>
  A run of tasks none of which throws synchronously from its \<open>start()\<close>: they are added one after another, and active
  tasks settle at any time and in any order. (For a task that does throw, see \<open>throwing_queued_task_loops\<close>.) Every call returns: \<open>add_task\<close> and \<open>finish\<close> are \<open>Some\<close> on the tasks of a run.
\<close>

inductive sched_reach :: "tool_task list \<Rightarrow> scheduler \<Rightarrow> bool" where
  reach_new: "sched_reach [] new_scheduler"
| reach_add: "sched_reach added s \<Longrightarrow> t \<notin> set added \<Longrightarrow> \<not> tt_throws t \<Longrightarrow> add_task t s = Some s2 \<Longrightarrow>
    sched_reach (added @ [t]) s2"
| reach_settle: "sched_reach added s \<Longrightarrow> t \<in> set (sc_active s) \<Longrightarrow> finish t s = Some s2 \<Longrightarrow>
    sched_reach added s2"

lemma filter_started:
  "sched_inv added s \<Longrightarrow> sc_queued s = filter (\<lambda>t. t \<notin> set (sc_started s)) added"
  by (simp add: sched_inv_def sweep_inv_def)

lemma settle_sweep:
  assumes "list_all (\<lambda>t. \<not> tt_throws t) (sc_queued s)"
  shows "finish t s = Some (sweep (sc_queued s) [] (s\<lparr>sc_active := remove1 t (sc_active s)\<rparr>))"
  by (simp add: finish_def startQueuedTasks_def run_queue_sweep assms)

lemma sched_inv_add:
  assumes "sched_inv added s" "t \<notin> set added" "\<not> tt_throws t"
  shows "\<exists>s2. add_task t s = Some s2 \<and> sched_inv (added @ [t]) s2"
proof -
  have inv: "sweep_inv added (sc_queued s) [] s" using assms(1) by (simp add: sched_inv_def)
  then have sub: "set (sc_started s) \<subseteq> set added" and q: "sc_queued s = filter (\<lambda>u. u \<notin> set (sc_started s)) added"
    by (auto simp: sweep_inv_def)
  have "sweep_inv (added @ [t]) (sc_queued s) [t] s"
    using inv sub assms(2) by (auto simp: sweep_inv_def starts_in_order_iff precedes_snoc)
  then have "sched_inv (added @ [t]) (sweep [t] (sc_queued s) s)" by (rule sweep_keeps)
  moreover have "add_task t s = Some (sweep [t] (sc_queued s) s)"
    using assms(3) by (simp add: add_task_def start_def Let_def begin_task_def)
  ultimately show ?thesis by blast
qed

lemma reach_inv:
  assumes "sched_reach added s"
  shows "sched_inv added s \<and> list_all (\<lambda>t. \<not> tt_throws t) added"
  using assms
proof (induction rule: sched_reach.induct)
  case reach_new
  show ?case by (simp add: sched_inv_def sweep_inv_def new_scheduler_def starts_in_order_def)
next
  case (reach_add added s t s2)
  then show ?case using sched_inv_add [of added s t] by auto
next
  case (reach_settle added s t s2)
  then have "list_all (\<lambda>t. \<not> tt_throws t) (sc_queued s)"
    by (auto simp: filter_started list_all_iff)
  from settle_sweep [OF this] reach_settle show ?case using sched_inv_settle by auto
qed

lemma blocked_active:
  assumes "sched_inv added s" "sc_queued s \<noteq> []"
  shows "sc_active s \<noteq> []"
proof -
  obtain t ts where "sc_queued s = t # ts" using assms(2) by (cases "sc_queued s") auto
  then have "isBlocked s t []" using assms(1) by (auto simp: sched_inv_def sweep_inv_def)
  then show ?thesis by (auto simp: isBlocked_iff)
qed

text \<open>Settle \<open>n\<close> active tasks; \<open>pick\<close> chooses which of the active ones settles next.\<close>

fun drain :: "nat \<Rightarrow> (tool_task list \<Rightarrow> tool_task) \<Rightarrow> scheduler \<Rightarrow> scheduler option" where
  "drain 0 pick s = Some s"
| "drain (Suc n) pick s =
     (if sc_active s = [] then Some s
      else Option.bind (finish (pick (sc_active s)) s) (drain n pick))"

lemma sweep_count:
  "length (sc_active (sweep ts still s)) + length (sc_queued (sweep ts still s))
   = length (sc_active s) + length still + length ts"
  by (induction ts still s rule: sweep.induct) (auto simp: begin_task_def)

lemma drain_all:
  assumes "\<And>xs. xs \<noteq> [] \<Longrightarrow> pick xs \<in> set xs"
  shows "sched_inv added s \<Longrightarrow> list_all (\<lambda>t. \<not> tt_throws t) added \<Longrightarrow>
    length (sc_active s) + length (sc_queued s) \<le> n \<Longrightarrow>
    \<exists>s2. drain n pick s = Some s2 \<and> sc_active s2 = [] \<and> sc_queued s2 = [] \<and> sched_inv added s2"
proof (induction n arbitrary: s)
  case (Suc n)
  show ?case
  proof (cases "sc_active s = []")
    case True
    then show ?thesis using Suc.prems blocked_active by auto
  next
    case False
    let ?t = "pick (sc_active s)"
    let ?s = "sweep (sc_queued s) [] (s\<lparr>sc_active := remove1 ?t (sc_active s)\<rparr>)"
    have "list_all (\<lambda>t. \<not> tt_throws t) (sc_queued s)"
      using Suc.prems(1,2) by (auto simp: filter_started list_all_iff)
    then have fin: "finish ?t s = Some ?s" by (rule settle_sweep)
    have "length (sc_active ?s) + length (sc_queued ?s) \<le> n"
      using Suc.prems(3) False assms [OF False]
      by (cases "length (sc_active s)") (auto simp: sweep_count length_remove1)
    with Suc.IH [OF sched_inv_settle [OF Suc.prems(1)] Suc.prems(2)] show ?thesis
      using False fin by simp
  qed
qed simp

lemma inv_count:
  assumes "sched_inv added s"
  shows "length (sc_active s) + length (sc_queued s) \<le> length added"
proof -
  have i: "distinct added" "distinct (sc_active s)" "set (sc_active s) \<subseteq> set (sc_started s)"
     "set (sc_started s) \<subseteq> set added"
    using assms by (auto simp: sched_inv_def sweep_inv_def)
  have "distinct (sc_active s @ sc_queued s)" "set (sc_active s @ sc_queued s) \<subseteq> set added"
    using i by (auto simp: filter_started [OF assms])
  then show ?thesis
    by (metis card_mono distinct_card i(1) length_append List.finite_set)
qed

lemma set_remove1_last: "set (remove1 t (xs @ [t])) = set xs"
  by (induction xs) auto

text \<open>A task that throws at the head of the queue is started again by the loop \<open>finish\<close> enters.\<close>

lemma throwing_head_loops:
  assumes ret: "run_queue tasks still s = Some s2"
    and head: "still = []" "tasks = t # ts" "sc_queued s = t # ts" "tt_throws t"
  shows "isBlocked s t []"
proof -
  let ?P = "\<lambda>tasks still s (s2 :: scheduler).
    still = [] \<and> tasks = t # ts \<and> sc_queued s = t # ts \<longrightarrow> isBlocked s t []"
  have "?P tasks still s s2"
  proof (rule run_queue.raw_induct [where P = ?P, OF _ ret])
    fix run tasks still s s2
    assume IH: "\<And>tasks still s s2. run tasks still s = Some s2 \<Longrightarrow> ?P tasks still s s2"
      and eq: "(case tasks of [] \<Rightarrow> Some (s\<lparr>sc_queued := still\<rparr>)
        | t # ts \<Rightarrow> if isBlocked s t still then run ts (still @ [t]) s
          else let s1 = begin_task t s in if tt_throws t
            then Option.bind (let s2 = reject_task t s1 in run (sc_queued s2) [] s2) (run ts still)
            else run ts still s1) = Some s2"
    show "?P tasks still s s2"
    proof (intro impI, rule ccontr)
      assume h: "still = [] \<and> tasks = t # ts \<and> sc_queued s = t # ts" and b: "\<not> isBlocked s t []"
      let ?r = "reject_task t (begin_task t s)"
      obtain s3 where "run (sc_queued ?r) [] ?r = Some s3"
        using eq h b head(4) by (auto simp: Let_def bind_eq_Some_conv)
      then have "isBlocked ?r t []"
        using IH [of "sc_queued ?r" "[]" ?r s3] h by (simp add: reject_task_def begin_task_def)
      moreover have "set (sc_active ?r) = set (sc_active s)"
        by (simp add: reject_task_def begin_task_def set_remove1_last)
      ultimately show False using b by (simp add: isBlocked_iff)
    qed
  qed
  then show ?thesis using head by simp
qed

section \<open>Properties\<close>

definition sample_read :: tool_task where
  "sample_read = \<lparr>tt_no = 0, tt_accesses = readFile ''/a'', tt_throws = False\<rparr>"

definition sample_write :: tool_task where
  "sample_write = \<lparr>tt_no = 1, tt_accesses = writeTree ''/'', tt_throws = False\<rparr>"

lemma sample_reach:
  "sched_reach [sample_read, sample_write]
     \<lparr>sc_active = [sample_read], sc_queued = [sample_write], sc_started = [sample_read], sc_rejected = []\<rparr>"
proof -
  have "sched_reach ([] @ [sample_read])
     \<lparr>sc_active = [sample_read], sc_queued = [], sc_started = [sample_read], sc_rejected = []\<rparr>"
    by (rule reach_add [OF reach_new]) code_simp+
  then have "sched_reach (([] @ [sample_read]) @ [sample_write])
     \<lparr>sc_active = [sample_read], sc_queued = [sample_write], sc_started = [sample_read], sc_rejected = []\<rparr>"
    by (rule reach_add) code_simp+
  then show ?thesis by simp
qed

text \<open>
  C18: Mutual exclusion. In every state a run of the scheduler reaches, when no task throws synchronously from its
  \<open>start()\<close> and whatever the order in which the active tasks settle, no two active tasks have conflicting resource accesses, and the queue
  holds exactly the added tasks that have not started, in the order they were added.
\<close>

theorem active_tasks_never_conflict:
  assumes "sched_reach added s"
  shows "apart (sc_active s) \<and> sc_queued s = filter (\<lambda>t. t \<notin> set (sc_started s)) added"
  using reach_inv [OF assms] by (simp add: sched_inv_def sweep_inv_def)

theorem active_tasks_never_conflict_witness:
  "apart [sample_read]
   \<and> [sample_write] = filter (\<lambda>t. t \<notin> set [sample_read]) [sample_read, sample_write]"
  using active_tasks_never_conflict [OF sample_reach] by (simp only: scheduler.simps simp_thms)

text \<open>
  First come, first served among conflicting tasks that do not throw synchronously. When \<open>b\<close> has started, every task added
  before it that conflicts with it started before it; and adding a further such task
  never fails to return and keeps this.
\<close>

theorem conflicting_tasks_start_in_order:
  assumes "sched_reach added s" "t \<notin> set added" "\<not> tt_throws t"
  shows "starts_in_order added (sc_started s)
    \<and> (\<exists>s2. add_task t s = Some s2 \<and> starts_in_order (added @ [t]) (sc_started s2))"
  using reach_inv [OF assms(1)] sched_inv_add [of added s t] assms(2,3)
  by (auto simp: sched_inv_def sweep_inv_def)

theorem conflicting_tasks_start_in_order_witness:
  "starts_in_order [sample_read, sample_write] [sample_read]
   \<and> (\<exists>s2. add_task \<lparr>tt_no = 2, tt_accesses = [], tt_throws = False\<rparr>
        \<lparr>sc_active = [sample_read], sc_queued = [sample_write], sc_started = [sample_read], sc_rejected = []\<rparr>
        = Some s2 \<and> starts_in_order
          ([sample_read, sample_write] @ [\<lparr>tt_no = 2, tt_accesses = [], tt_throws = False\<rparr>]) (sc_started s2))"
  using conflicting_tasks_start_in_order
    [OF sample_reach, of "\<lparr>tt_no = 2, tt_accesses = [], tt_throws = False\<rparr>"]
  by (simp add: sample_read_def sample_write_def)

text \<open>
  C23: No task starves when none throws synchronously from its \<open>start()\<close>. From every state a run of such tasks
  reaches, settling as many active tasks as were added, in whatever order \<open>pick\<close> chooses, leaves nothing active and
  nothing queued: every added task has started, once. Each of the calls of \<open>finish\<close> returns. (A queued task that does
  throw breaks both: \<open>throwing_queued_task_loops\<close>.)
\<close>

theorem every_task_starts:
  assumes "sched_reach added s" "\<And>xs. xs \<noteq> [] \<Longrightarrow> pick xs \<in> set xs"
  shows "\<exists>s2. drain (length added) pick s = Some s2 \<and> sc_active s2 = [] \<and> sc_queued s2 = []
    \<and> set (sc_started s2) = set added \<and> distinct (sc_started s2)"
proof -
  have inv: "sched_inv added s" and nt: "list_all (\<lambda>t. \<not> tt_throws t) added"
    using reach_inv [OF assms(1)] by auto
  obtain s2 where s2: "drain (length added) pick s = Some s2" "sc_active s2 = []" "sc_queued s2 = []"
      "sched_inv added s2"
    using drain_all [OF assms(2) inv nt inv_count [OF inv]] by blast
  moreover have "set (sc_started s2) = set added"
    using filter_started [OF s2(4)] s2(3,4)
    by (auto simp: sched_inv_def sweep_inv_def dest!: arg_cong [where f = set])
  moreover have "distinct (sc_started s2)" using s2(4) by (simp add: sched_inv_def sweep_inv_def)
  ultimately show ?thesis by blast
qed

theorem every_task_starts_witness:
  "\<exists>s2. drain (length [sample_read, sample_write]) last
       \<lparr>sc_active = [sample_read], sc_queued = [sample_write], sc_started = [sample_read], sc_rejected = []\<rparr>
     = Some s2 \<and> sc_active s2 = [] \<and> sc_queued s2 = []
     \<and> set (sc_started s2) = set [sample_read, sample_write] \<and> distinct (sc_started s2)"
  by (rule every_task_starts [OF sample_reach]) (rule last_in_set)

text \<open>
  Reads share. Two tool calls whose accesses only read or search files never conflict, on
  whatever paths, and conflict is symmetric; a write of a tree conflicts with a read of every path
  below it.
\<close>

theorem reads_never_conflict:
  assumes "list_all (\<lambda>a. case a of AccessFile op _ _ \<Rightarrow> \<not> fileOperationWrites op | AccessAll \<Rightarrow> False) xs"
    "list_all (\<lambda>a. case a of AccessFile op _ _ \<Rightarrow> \<not> fileOperationWrites op | AccessAll \<Rightarrow> False) ys"
    "starts_with (normalizePath p) (path_prefix (normalizePath d))"
  shows "\<not> conflict xs ys \<and> (\<forall>zs. conflict xs zs = conflict zs xs)
    \<and> conflict (writeTree d) (readFile p)"
proof -
  have "conflict (writeTree d) (readFile p)"
    using assms(3) by (simp add: conflict_def writeTree_def readFile_def accesses_file_def
      fileOperationsConflict_def fileOperationWrites_def fileAccessesOverlap_def)
  then show ?thesis using reads_share [OF assms(1,2)] conflict_sym by blast
qed


text \<open>
  C40: A synchronous throw is not survived. When the first queued task is unblocked and its
  \<open>start()\<close> throws, \<open>startQueuedTasks\<close> does not return: \<open>finish\<close> re-enters the loop while the task
  is still in \<open>queuedTasks\<close>, and starts it again.
\<close>

theorem throwing_queued_task_loops:
  assumes "sc_queued s = t # ts" "tt_throws t" "\<not> isBlocked s t []"
  shows "startQueuedTasks s = None"
  using throwing_head_loops [of "t # ts" "[]" s _ t ts] assms
  by (cases "run_queue (t # ts) [] s") (auto simp: startQueuedTasks_def)

theorem throwing_queued_task_loops_witness:
  "startQueuedTasks \<lparr>sc_active = [], sc_queued = [sample_write\<lparr>tt_throws := True\<rparr>],
     sc_started = [], sc_rejected = []\<rparr> = None"
  by (rule throwing_queued_task_loops [where t = "sample_write\<lparr>tt_throws := True\<rparr>"])
    (simp_all add: isBlocked_def conflictsWithAny_def sample_write_def)

end
