(* ===== verification/StepQueue.thy ===== *)
theory StepQueue
  imports JsValue "HOL-Library.Multiset"
begin

text \<open>
  \<open>packages/agent-core-v2/src/agent/loop/stepRequestQueue.ts\<close> and the life cycle of a request in
  \<open>stepRequest.ts\<close>: the queue of a turn, drained one batch per step. A request's hooks
  (\<open>onSettled\<close>, \<open>resolveContextMessages\<close>) have no effect on the queue and are left out; its
  \<open>randomUUID()\<close> is the identity \<open>rq_id\<close>. The request is an object its sender can abort while
  it is queued, which is \<open>abort_request\<close> on the queue.
\<close>

section \<open>Requests\<close>

datatype request_state = ReqPending | ReqMaterialized | ReqAborted

datatype request_admission = NewTurn | ActiveOrNewTurn | ActiveOrNextTurn | ActiveTurnOnly

record step_request_options =
  ro_mergeable :: "bool option"
  ro_turnScoped :: "bool option"
  ro_admission :: "request_admission option"

record step_request =
  rq_id :: nat
  rq_mergeable :: bool
  rq_turnScoped :: bool
  rq_admission :: request_admission
  rq_state :: request_state

definition new_request :: "nat \<Rightarrow> step_request_options \<Rightarrow> step_request" where
  "new_request i options =
     \<lparr>rq_id = i,
      rq_mergeable = (case ro_mergeable options of None \<Rightarrow> False | Some b \<Rightarrow> b),
      rq_turnScoped = (case ro_turnScoped options of None \<Rightarrow> True | Some b \<Rightarrow> b),
      rq_admission = (case ro_admission options of None \<Rightarrow> ActiveOrNextTurn | Some a \<Rightarrow> a),
      rq_state = ReqPending\<rparr>"

definition rq_aborted :: "step_request \<Rightarrow> bool" where
  "rq_aborted r \<longleftrightarrow> rq_state r = ReqAborted"

definition abort :: "step_request \<Rightarrow> step_request \<times> bool" where
  "abort r = (if rq_state r \<noteq> ReqPending then (r, False) else (r\<lparr>rq_state := ReqAborted\<rparr>, True))"

definition markMaterialized :: "step_request \<Rightarrow> step_request" where
  "markMaterialized r = (if rq_state r \<noteq> ReqPending then r else r\<lparr>rq_state := ReqMaterialized\<rparr>)"

section \<open>The queue\<close>

type_synonym request_queue = "step_request list"

record step_batch =
  sb_driver :: step_request
  sb_merged :: "step_request list"

definition enqueue :: "step_request \<Rightarrow> bool \<Rightarrow> request_queue \<Rightarrow> request_queue" where
  "enqueue request at_head items = (if at_head then request # items else items @ [request])"

definition hasPendingRequests :: "request_queue \<Rightarrow> bool" where
  "hasPendingRequests items = list_ex (\<lambda>item. \<not> rq_aborted item) items"

text \<open>The backward loop of \<open>discardAborted\<close>, at \<open>index = n - 1\<close>.\<close>

fun discard_loop :: "nat \<Rightarrow> request_queue \<Rightarrow> request_queue" where
  "discard_loop 0 items = items"
| "discard_loop (Suc index) items =
     discard_loop index
       (if rq_aborted (items ! index) then take index items @ drop (Suc index) items else items)"

definition discardAborted :: "request_queue \<Rightarrow> request_queue" where
  "discardAborted items = discard_loop (length items) items"

fun find_index :: "('a \<Rightarrow> bool) \<Rightarrow> nat \<Rightarrow> 'a list \<Rightarrow> nat option" where
  "find_index P i [] = None"
| "find_index P i (x # xs) = (if P x then Some i else find_index P (Suc i) xs)"

text \<open>The \<open>forEach\<close> that fills \<open>merged\<close> and \<open>rest\<close>.\<close>

fun split_loop :: "nat \<Rightarrow> nat \<Rightarrow> request_queue \<Rightarrow> request_queue \<Rightarrow> request_queue \<Rightarrow> request_queue \<times> request_queue" where
  "split_loop driverIndex index [] merged rest = (merged, rest)"
| "split_loop driverIndex index (item # items) merged rest =
     (if index = driverIndex then split_loop driverIndex (Suc index) items merged rest
      else if rq_mergeable item then split_loop driverIndex (Suc index) items (merged @ [item]) rest
      else split_loop driverIndex (Suc index) items merged (rest @ [item]))"

definition takeNextBatch :: "request_queue \<Rightarrow> (step_batch option \<times> request_queue)" where
  "takeNextBatch items0 =
     (let items = discardAborted items0 in
      if items = [] then (None, items)
      else
        let driverIndex = (case find_index (\<lambda>item. \<not> rq_mergeable item) 0 items of None \<Rightarrow> 0 | Some i \<Rightarrow> i);
            (merged, rest) = split_loop driverIndex 0 items [] []
        in (Some \<lparr>sb_driver = items ! driverIndex, sb_merged = merged\<rparr>, rest))"

definition queue_drain :: "request_queue \<Rightarrow> request_queue \<times> request_queue" where
  "queue_drain items = (items, [])"

definition abortTurnScoped :: "request_queue \<Rightarrow> request_queue" where
  "abortTurnScoped items =
     discardAborted (map (\<lambda>item. if rq_turnScoped item then fst (abort item) else item) items)"

text \<open>A sender aborts the request \<open>i\<close> while it is queued.\<close>

definition abort_request :: "nat \<Rightarrow> request_queue \<Rightarrow> request_queue" where
  "abort_request i items = map (\<lambda>item. if rq_id item = i then fst (abort item) else item) items"

section \<open>What the loops compute\<close>

lemma discard_loop_filter:
  "n \<le> length items \<Longrightarrow>
   discard_loop n items = filter (\<lambda>r. \<not> rq_aborted r) (take n items) @ drop n items"
proof (induction n items rule: discard_loop.induct)
  case (2 n items)
  then have "take (Suc n) items = take n items @ [items ! n]" "drop n items = items ! n # drop (Suc n) items"
    by (simp_all add: take_Suc_conv_app_nth Cons_nth_drop_Suc)
  then show ?case using 2 by auto
qed simp

lemma discardAborted_filter [simp]: "discardAborted items = filter (\<lambda>r. \<not> rq_aborted r) items"
  by (simp add: discardAborted_def discard_loop_filter)

lemma split_loop_filter:
  "split_loop d i items merged rest =
     (let others = map snd (filter (\<lambda>(j, _). j \<noteq> d) (enumerate i items))
      in (merged @ filter rq_mergeable others, rest @ filter (\<lambda>r. \<not> rq_mergeable r) others))"
  by (induction d i items merged rest rule: split_loop.induct) (simp_all add: Let_def)

lemma enumerate_skip:
  "map snd (filter (\<lambda>(j, _). j \<noteq> i + k) (enumerate i xs)) = take k xs @ drop (Suc k) xs"
proof (induction xs arbitrary: i k)
  case (Cons x xs)
  show ?case
  proof (cases k)
    case 0
    have "filter (\<lambda>(j, _). j \<noteq> i) (enumerate (Suc i) xs) = enumerate (Suc i) xs"
      by (rule filter_True) (auto simp: in_set_enumerate_eq)
    with 0 show ?thesis by simp
  next
    case (Suc k')
    then show ?thesis using Cons.IH [of "Suc i" k'] by simp
  qed
qed simp

lemma find_index_split:
  "find_index P i xs = Some k \<Longrightarrow>
   \<exists>us x vs. xs = us @ x # vs \<and> P x \<and> (\<forall>u \<in> set us. \<not> P u) \<and> k = i + length us"
proof (induction P i xs rule: find_index.induct)
  case (2 P i x xs)
  show ?case
  proof (cases "P x")
    case True
    then show ?thesis using 2 by (intro exI [of _ "[]"] exI [of _ x] exI [of _ xs]) simp
  next
    case False
    then obtain us y vs where "xs = us @ y # vs" "P y" "\<forall>u \<in> set us. \<not> P u" "k = Suc i + length us"
      using 2 by auto
    with False show ?thesis by (intro exI [of _ "x # us"] exI [of _ y] exI [of _ vs]) simp
  qed
qed simp

lemma find_index_None: "find_index P i xs = None \<longleftrightarrow> (\<forall>x \<in> set xs. \<not> P x)"
  by (induction P i xs rule: find_index.induct) auto

text \<open>The batch in terms of the live requests.\<close>

definition live :: "request_queue \<Rightarrow> request_queue" where
  "live items = filter (\<lambda>r. \<not> rq_aborted r) items"

lemma takeNextBatch_live:
  "takeNextBatch items =
     (let ms = filter rq_mergeable (live items); ds = filter (\<lambda>r. \<not> rq_mergeable r) (live items)
      in case ds of
           d # ds2 \<Rightarrow> (Some \<lparr>sb_driver = d, sb_merged = ms\<rparr>, ds2)
         | [] \<Rightarrow> (case ms of [] \<Rightarrow> (None, []) | m # ms2 \<Rightarrow> (Some \<lparr>sb_driver = m, sb_merged = ms2\<rparr>, [])))"
proof (cases "find_index (\<lambda>item. \<not> rq_mergeable item) 0 (live items)")
  case None
  then have all: "\<forall>r \<in> set (live items). rq_mergeable r" by (simp add: find_index_None)
  then have f: "filter rq_mergeable (live items) = live items"
      "filter (\<lambda>r. \<not> rq_mergeable r) (live items) = []"
    by (simp_all add: filter_empty_conv)
  show ?thesis
  proof (cases "live items")
    case Nil
    then show ?thesis by (simp add: takeNextBatch_def live_def Let_def)
  next
    case (Cons r rs)
    then have "filter rq_mergeable rs = rs" "filter (\<lambda>r. \<not> rq_mergeable r) rs = []" "rq_mergeable r"
      using all by (simp_all add: filter_empty_conv)
    moreover have "split_loop 0 (Suc 0) rs [] [] = (filter rq_mergeable rs, filter (\<lambda>r. \<not> rq_mergeable r) rs)"
      using enumerate_skip [of 0 0 "r # rs"] by (simp add: split_loop_filter Let_def)
    ultimately show ?thesis using Cons None
      by (simp add: takeNextBatch_def live_def [symmetric] Let_def)
  qed
next
  case (Some k)
  from find_index_split [OF this] obtain us d vs where
    l: "live items = us @ d # vs" "\<not> rq_mergeable d" "\<forall>u \<in> set us. rq_mergeable u" "k = length us"
    by auto
  then have u: "filter rq_mergeable us = us" "filter (\<lambda>r. \<not> rq_mergeable r) us = []"
    by (simp_all add: filter_empty_conv)
  have "split_loop k 0 (live items) [] []
      = (us @ filter rq_mergeable vs, filter (\<lambda>r. \<not> rq_mergeable r) vs)"
    using enumerate_skip [of 0 k "live items"] l u by (simp add: split_loop_filter Let_def)
  then show ?thesis using l u Some
    by (simp add: takeNextBatch_def live_def [symmetric] Let_def)
qed

section \<open>Properties\<close>

text \<open>Take batches until none is left; \<open>n\<close> bounds their number.\<close>

fun take_batches :: "nat \<Rightarrow> request_queue \<Rightarrow> step_batch list" where
  "take_batches 0 items = []"
| "take_batches (Suc n) items =
     (case takeNextBatch items of
        (None, _) \<Rightarrow> []
      | (Some b, rest) \<Rightarrow> b # take_batches n rest)"

lemma live_drivers:
  "live (filter (\<lambda>r. \<not> rq_mergeable r) (live items)) = filter (\<lambda>r. \<not> rq_mergeable r) (live items)"
  by (simp add: live_def conj_commute)

lemma take_batches_drivers:
  assumes "\<forall>r \<in> set items. \<not> rq_mergeable r \<and> \<not> rq_aborted r" "length items \<le> n"
  shows "take_batches n items = map (\<lambda>d. \<lparr>sb_driver = d, sb_merged = []\<rparr>) items"
  using assms
proof (induction n arbitrary: items)
  case (Suc n)
  then have "live items = items" "filter rq_mergeable items = []"
      "filter (\<lambda>r. \<not> rq_mergeable r) items = items"
    by (auto simp: live_def filter_empty_conv)
  with Suc show ?case by (cases items) (simp_all add: takeNextBatch_live)
qed simp

lemma take_batch_effect:
  "(hasPendingRequests items \<longleftrightarrow> fst (takeNextBatch items) \<noteq> None)
   \<and> (case takeNextBatch items of
        (None, rest) \<Rightarrow> live items = [] \<and> rest = []
      | (Some b, rest) \<Rightarrow>
          mset (sb_driver b # sb_merged b @ rest) = mset (live items)
          \<and> list_all rq_mergeable (sb_merged b)
          \<and> sb_driver b = hd (filter (\<lambda>r. \<not> rq_mergeable r) (live items) @ live items)
          \<and> rest = drop 1 (filter (\<lambda>r. \<not> rq_mergeable r) (live items)))"
proof -
  have pend: "hasPendingRequests items \<longleftrightarrow> live items \<noteq> []"
    by (auto simp: hasPendingRequests_def live_def list_ex_iff filter_empty_conv)
  have parts: "mset (filter rq_mergeable (live items)) + mset (filter (\<lambda>r. \<not> rq_mergeable r) (live items))
      = mset (live items)"
    by (metis mset_filter multiset_partition)
  show ?thesis
  proof (cases "filter (\<lambda>r. \<not> rq_mergeable r) (live items)")
    case Nil
    then have mergeable: "\<forall>r \<in> set (live items). rq_mergeable r"
      by (auto simp: filter_empty_conv)
    then have all: "filter rq_mergeable (live items) = live items" by simp
    show ?thesis
      using Nil all pend mergeable
      by (cases "live items") (auto simp: takeNextBatch_live list_all_iff Let_def)
  next
    case (Cons d ds)
    then have "live items \<noteq> []" by auto
    then show ?thesis using Cons pend parts by (auto simp: takeNextBatch_live list_all_iff Let_def)
  qed
qed

lemma take_all_batches:
  assumes "length items \<le> n"
  shows "take_batches n items =
    (let ms = filter rq_mergeable (live items); ds = filter (\<lambda>r. \<not> rq_mergeable r) (live items)
     in case ds @ ms of
          [] \<Rightarrow> []
        | b # _ \<Rightarrow> \<lparr>sb_driver = b, sb_merged = (if ds = [] then drop 1 ms else ms)\<rparr>
                   # map (\<lambda>d. \<lparr>sb_driver = d, sb_merged = []\<rparr>) (drop 1 ds))"
proof (cases n)
  case 0
  then show ?thesis using assms by (simp add: live_def Let_def)
next
  case (Suc m)
  let ?ds = "filter (\<lambda>r. \<not> rq_mergeable r) (live items)"
  have len: "length ?ds \<le> length items"
    by (metis length_filter_le live_def order_trans)
  have "take_batches m (drop 1 ?ds) = map (\<lambda>d. \<lparr>sb_driver = d, sb_merged = []\<rparr>) (drop 1 ?ds)"
  proof (rule take_batches_drivers)
    show "length (drop 1 ?ds) \<le> m" using len assms Suc by (simp only: length_drop)
  qed (auto simp: live_def dest!: in_set_dropD)
  then show ?thesis
    using Suc by (cases ?ds; cases "filter rq_mergeable (live items)")
      (auto simp: takeNextBatch_live Let_def)
qed

text \<open>
  One step's batch. \<open>takeNextBatch\<close> returns nothing exactly when no live request is queued.
  Otherwise the batch and what stays queued are together exactly the live requests (none is lost or
  taken twice, aborted ones are gone); everything merged is mergeable; the driver is the first
  non-mergeable request, or the first one if all can be merged; the other non-mergeable requests
  stay, in order.
\<close>

theorem batch_partitions_queue:
  "(hasPendingRequests items \<longleftrightarrow> fst (takeNextBatch items) \<noteq> None)
   \<and> (case takeNextBatch items of
        (None, rest) \<Rightarrow> live items = [] \<and> rest = []
      | (Some b, rest) \<Rightarrow>
          mset (sb_driver b # sb_merged b @ rest) = mset (live items)
          \<and> list_all rq_mergeable (sb_merged b)
          \<and> sb_driver b = hd (filter (\<lambda>r. \<not> rq_mergeable r) (live items) @ live items)
          \<and> rest = drop 1 (filter (\<lambda>r. \<not> rq_mergeable r) (live items)))"
  by (rule take_batch_effect)

text \<open>
  A turn's steps. Draining the queue takes one step per non-mergeable live request, in the order
  they were queued, and every mergeable request rides in the first of them, in order; if only
  mergeable requests are queued they share a single step.
\<close>

theorem steps_of_a_turn:
  assumes "length items \<le> n"
  shows "take_batches n items =
    (let ms = filter rq_mergeable (live items); ds = filter (\<lambda>r. \<not> rq_mergeable r) (live items)
     in case ds @ ms of
          [] \<Rightarrow> []
        | b # _ \<Rightarrow> \<lparr>sb_driver = b, sb_merged = (if ds = [] then drop 1 ms else ms)\<rparr>
                   # map (\<lambda>d. \<lparr>sb_driver = d, sb_merged = []\<rparr>) (drop 1 ds))"
  by (rule take_all_batches [OF assms])

theorem steps_of_a_turn_witness:
  "take_batches 2 [new_request 1 \<lparr>ro_mergeable = Some True, ro_turnScoped = None, ro_admission = None\<rparr>,
       new_request 2 \<lparr>ro_mergeable = None, ro_turnScoped = None, ro_admission = None\<rparr>]
   = [\<lparr>sb_driver = new_request 2 \<lparr>ro_mergeable = None, ro_turnScoped = None, ro_admission = None\<rparr>,
       sb_merged = [new_request 1 \<lparr>ro_mergeable = Some True, ro_turnScoped = None, ro_admission = None\<rparr>]\<rparr>]"
  using steps_of_a_turn [of "[new_request 1 \<lparr>ro_mergeable = Some True, ro_turnScoped = None, ro_admission = None\<rparr>,
       new_request 2 \<lparr>ro_mergeable = None, ro_turnScoped = None, ro_admission = None\<rparr>]" 2]
  by (simp add: live_def new_request_def rq_aborted_def)

lemma abortTurnScoped_live:
  "abortTurnScoped items = filter (\<lambda>r. \<not> (rq_turnScoped r \<and> rq_state r = ReqPending)) (live items)"
  by (induction items) (auto simp: abortTurnScoped_def live_def abort_def rq_aborted_def)

lemma abort_request_live:
  "live (abort_request i items) = filter (\<lambda>r. \<not> (rq_id r = i \<and> rq_state r = ReqPending)) (live items)"
  by (induction items) (auto simp: abort_request_def live_def abort_def rq_aborted_def)

end
