(* ===== verification/ContextMemory.thy ===== *)
theory ContextMemory
  imports JsValue OrderedMap
begin

text \<open>
  The conversation history an agent sends to its model:
  \<open>packages/agent-core-v2/src/agent/contextMemory\<close>, with the message types and the token
  estimate of \<open>src/llmProtocol\<close>. The wire operations are state transformers on the history
  (\<open>ContextMessage[]\<close>) and on the fold context that a \<open>WeakMap\<close> keeps beside each array: here one
  record, since every operation hands the context on to the array it returns. The \<open>args\<close> of a tool
  call stand as the text \<open>JSON.stringify\<close> makes of them, and code units above 255 are left out.
  Fields of an event that no reduction reads (its turn, step, timing and usage) are left out too.
\<close>

section \<open>Messages (\<open>llmProtocol/message.ts\<close>, \<open>contextMemory/types.ts\<close>)\<close>

datatype role = RSystem | RUser | RAssistant | RTool

datatype content_part =
    PText string
  | PThink string "string option"
  | PImage string "string option"
  | PAudio string "string option"
  | PVideo string "string option"

record tool_call =
  call_id :: string
  call_name :: string
  call_arguments :: "string option"
  call_extras :: json

datatype skill_trigger = UserSlash | ModelTool | NestedSkill

datatype prompt_origin =
    OrgUser
  | OrgSkillActivation string string "string option" skill_trigger "string option" "string option" "string option"
  | OrgPluginCommand string string string "string option" skill_trigger
  | OrgInjection string "string option"
  | OrgShellCommand bool "bool option"
  | OrgCompactionSummary
  | OrgSystemTrigger string
  | OrgTask string string string
  | OrgCronJob string string bool nat bool
  | OrgCronMissed nat
  | OrgHookResult string "bool option"
  | OrgRetry "string option"

record context_message =
  cm_role :: role
  cm_name :: "string option"
  cm_content :: "content_part list"
  cm_toolCalls :: "tool_call list"
  cm_toolCallId :: "string option"
  cm_partial :: "bool option"
  cm_tools :: "json list option"
  cm_id :: "string option"
  cm_providerMessageId :: "string option"
  cm_origin :: "prompt_origin option"
  cm_isError :: "bool option"
  cm_note :: "string option"
  cm_toolCallDisplays :: "(string, json) jsmap option"

definition plain_message :: "role \<Rightarrow> content_part list \<Rightarrow> context_message" where
  "plain_message r content =
     \<lparr>cm_role = r, cm_name = None, cm_content = content, cm_toolCalls = [], cm_toolCallId = None,
      cm_partial = None, cm_tools = None, cm_id = None, cm_providerMessageId = None, cm_origin = None, cm_isError = None,
      cm_note = None, cm_toolCallDisplays = None\<rparr>"

datatype tool_output = OutText string | OutParts "content_part list"

definition createToolMessage :: "string \<Rightarrow> tool_output \<Rightarrow> context_message" where
  "createToolMessage toolCallId output =
     (plain_message RTool (case output of OutText s \<Rightarrow> [PText s] | OutParts ps \<Rightarrow> ps))
       \<lparr>cm_toolCallId := Some toolCallId\<rparr>"

definition isVacuousContentPart :: "content_part \<Rightarrow> bool" where
  "isVacuousContentPart part =
     (case part of
        PText text \<Rightarrow> js_trim text = []
      | PThink think encrypted \<Rightarrow> encrypted = None \<and> js_trim think = []
      | _ \<Rightarrow> False)"

section \<open>The loop-event fold (\<open>loopEventFold.ts\<close>)\<close>

datatype loop_event =
    StepBegin string
  | StepEnd string
  | ContentPart string content_part
  | ToolCall string string string "string option" "json option" json
  | ToolResult string tool_output "bool option" "string option"

record context_state =
  cs_messages :: "context_message list"
  cs_openStepUuid :: "string option"
  cs_pending :: "string list"
  cs_deferred :: "context_message list"

definition resetFold :: "context_message list \<Rightarrow> context_state" where
  "resetFold state = \<lparr>cs_messages = state, cs_openStepUuid = None, cs_pending = [], cs_deferred = []\<rparr>"

definition TOOL_INTERRUPTED_ON_RESUME_OUTPUT :: string where
  "TOOL_INTERRUPTED_ON_RESUME_OUTPUT =
     ''Tool execution was interrupted before its result was recorded. Do not assume the tool completed successfully.''"

definition interruptedToolMessage :: "string \<Rightarrow> context_message" where
  "interruptedToolMessage toolCallId =
     (createToolMessage toolCallId (OutText TOOL_INTERRUPTED_ON_RESUME_OUTPUT))\<lparr>cm_isError := Some True\<rparr>"

definition foldAppendMessage :: "context_message \<Rightarrow> context_state \<Rightarrow> context_state" where
  "foldAppendMessage m s =
     (if cs_pending s \<noteq> [] then s\<lparr>cs_deferred := cs_deferred s @ [m]\<rparr>
      else s\<lparr>cs_messages := cs_messages s @ [m]\<rparr>)"

text \<open>The backward search, at \<open>i = n - 1\<close>.\<close>

fun find_open_from :: "nat \<Rightarrow> context_message list \<Rightarrow> nat option" where
  "find_open_from 0 state = None"
| "find_open_from (Suc i) state =
     (if cm_partial (state ! i) = Some True then Some i else find_open_from i state)"

definition findOpenAssistantIndex :: "context_message list \<Rightarrow> nat option" where
  "findOpenAssistantIndex state = find_open_from (length state) state"

definition appendToOpenAssistant ::
  "(context_message \<Rightarrow> context_message) \<Rightarrow> context_message list \<Rightarrow> context_message list" where
  "appendToOpenAssistant update state =
     (case findOpenAssistantIndex state of None \<Rightarrow> state | Some i \<Rightarrow> state[i := update (state ! i)])"

definition flushDeferred :: "context_state \<Rightarrow> context_state" where
  "flushDeferred s =
     (if cs_pending s \<noteq> [] \<or> cs_deferred s = [] then s
      else s\<lparr>cs_messages := cs_messages s @ cs_deferred s, cs_deferred := []\<rparr>)"

definition closePending :: "context_state \<Rightarrow> context_state" where
  "closePending s =
     (if cs_pending s = [] then s
      else flushDeferred (s\<lparr>cs_messages := cs_messages s @ map interruptedToolMessage (cs_pending s),
                            cs_pending := []\<rparr>))"

definition settleOpenStep :: "context_state \<Rightarrow> context_state" where
  "settleOpenStep s0 =
     (let s = closePending s0; ms = cs_messages s in
      case findOpenAssistantIndex ms of
        None \<Rightarrow> s
      | Some i \<Rightarrow>
          let opn = ms ! i in
          if cm_toolCalls opn = [] \<and> list_all isVacuousContentPart (cm_content opn)
          then s\<lparr>cs_messages := take i ms @ drop (Suc i) ms\<rparr>
          else s\<lparr>cs_messages := ms[i := opn\<lparr>cm_partial := None\<rparr>]\<rparr>)"

definition add_call :: "tool_call \<Rightarrow> json option \<Rightarrow> context_message \<Rightarrow> context_message" where
  "add_call call display m =
     (let m2 = m\<lparr>cm_toolCalls := cm_toolCalls m @ [call]\<rparr> in
      case display of
        None \<Rightarrow> m2
      | Some d \<Rightarrow> m2\<lparr>cm_toolCallDisplays :=
          Some (jm_set (call_id call) d (case cm_toolCallDisplays m of None \<Rightarrow> [] | Some ds \<Rightarrow> ds))\<rparr>)"

definition open_assistant :: context_message where
  "open_assistant = (plain_message RAssistant [])\<lparr>cm_partial := Some True\<rparr>"

fun foldLoopEvent :: "context_state \<Rightarrow> loop_event \<Rightarrow> context_state" where
  "foldLoopEvent s (StepBegin uuid) =
     (let s2 = settleOpenStep s
      in s2\<lparr>cs_openStepUuid := Some uuid, cs_messages := cs_messages s2 @ [open_assistant]\<rparr>)"
| "foldLoopEvent s (StepEnd uuid) = flushDeferred (settleOpenStep (s\<lparr>cs_openStepUuid := None\<rparr>))"
| "foldLoopEvent s (ContentPart su part) =
     s\<lparr>cs_messages := appendToOpenAssistant (\<lambda>m. m\<lparr>cm_content := cm_content m @ [part]\<rparr>) (cs_messages s)\<rparr>"
| "foldLoopEvent s (ToolCall su i name args display extras) =
     s\<lparr>cs_pending := js_set_add i (cs_pending s),
       cs_messages := appendToOpenAssistant
         (add_call \<lparr>call_id = i, call_name = name, call_arguments = args, call_extras = extras\<rparr> display)
         (cs_messages s)\<rparr>"
| "foldLoopEvent s (ToolResult i output isError note) =
     (if i \<notin> set (cs_pending s) then s
      else flushDeferred
        (s\<lparr>cs_messages := cs_messages s @
              [(createToolMessage i output)\<lparr>cm_isError := isError, cm_note := note\<rparr>],
           cs_pending := js_set_delete i (cs_pending s)\<rparr>))"

section \<open>What the searches compute\<close>

definition is_partial :: "context_message \<Rightarrow> bool" where
  "is_partial m \<longleftrightarrow> cm_partial m = Some True"

definition one_partial :: "context_message list \<Rightarrow> bool" where
  "one_partial ms \<longleftrightarrow> length (filter is_partial ms) \<le> 1"

definition seal :: "context_message \<Rightarrow> context_message list" where
  "seal m =
     (if \<not> is_partial m then [m]
      else if cm_toolCalls m = [] \<and> list_all isVacuousContentPart (cm_content m) then []
      else [m\<lparr>cm_partial := None\<rparr>])"

lemma find_open_from_split:
  "is_partial opn \<Longrightarrow> (\<forall>m \<in> set vs. \<not> is_partial m) \<Longrightarrow> n = Suc (length us + length vs) \<Longrightarrow>
   find_open_from n (us @ opn # vs @ ws) = Some (length us)"
proof (induction vs arbitrary: n ws rule: rev_induct)
  case Nil
  then show ?case by (simp add: is_partial_def nth_append)
next
  case (snoc v vs)
  have at: "(us @ opn # (vs @ [v]) @ ws) ! (Suc (length us + length vs)) = v"
    by (simp add: nth_append)
  have "find_open_from (Suc (length us + length vs)) (us @ opn # vs @ (v # ws)) = Some (length us)"
    using snoc.prems by (intro snoc.IH) auto
  then show ?case using snoc.prems at by (simp add: is_partial_def)
qed

lemma find_open_split:
  "is_partial opn \<Longrightarrow> (\<forall>m \<in> set vs. \<not> is_partial m) \<Longrightarrow>
   findOpenAssistantIndex (us @ opn # vs) = Some (length us)"
  using find_open_from_split [of opn vs "length (us @ opn # vs)" us "[]"]
  by (simp add: findOpenAssistantIndex_def)

lemma find_open_from_None:
  "n \<le> length ms \<Longrightarrow> (\<forall>m \<in> set ms. \<not> is_partial m) \<Longrightarrow> find_open_from n ms = None"
  by (induction n) (auto simp: is_partial_def)

lemma find_open_None: "(\<forall>m \<in> set ms. \<not> is_partial m) \<Longrightarrow> findOpenAssistantIndex ms = None"
  by (simp add: findOpenAssistantIndex_def find_open_from_None)

lemma one_partial_cases:
  assumes "one_partial ms"
  obtains (none) "\<forall>m \<in> set ms. \<not> is_partial m"
    | (one) us opn vs where "ms = us @ opn # vs" "is_partial opn"
        "\<forall>m \<in> set us. \<not> is_partial m" "\<forall>m \<in> set vs. \<not> is_partial m"
proof (cases "\<forall>m \<in> set ms. \<not> is_partial m")
  case False
  then obtain us opn vs where split: "ms = us @ opn # vs" "is_partial opn" "\<forall>m \<in> set us. \<not> is_partial m"
    using split_list_first_prop [of ms is_partial] by blast
  moreover have "\<forall>m \<in> set vs. \<not> is_partial m"
    using assms split by (auto simp: one_partial_def filter_empty_conv)
  ultimately show thesis by (rule one)
qed (rule none)

lemma map_skip: "(\<forall>m \<in> set ms. \<not> is_partial m) \<Longrightarrow> map (\<lambda>m. if is_partial m then u m else m) ms = ms"
  by (induction ms) auto

lemma seal_skip: "(\<forall>m \<in> set ms. \<not> is_partial m) \<Longrightarrow> concat (map seal ms) = ms"
  by (induction ms) (auto simp: seal_def)

lemma appendToOpenAssistant_map:
  assumes "one_partial ms"
  shows "appendToOpenAssistant u ms = map (\<lambda>m. if is_partial m then u m else m) ms"
  using assms
proof (cases rule: one_partial_cases)
  case none
  then show ?thesis by (simp add: appendToOpenAssistant_def find_open_None map_skip)
next
  case (one us opn vs)
  then show ?thesis by (simp add: appendToOpenAssistant_def find_open_split map_skip)
qed

text \<open>Closing: the interrupted results, then the messages that waited for the exchange.\<close>

definition closed_messages :: "context_state \<Rightarrow> context_message list" where
  "closed_messages s =
     (if cs_pending s = [] then cs_messages s
      else cs_messages s @ map interruptedToolMessage (cs_pending s) @ cs_deferred s)"

lemma closePending_eq:
  "closePending s =
     s\<lparr>cs_messages := closed_messages s, cs_pending := [],
       cs_deferred := (if cs_pending s = [] then cs_deferred s else [])\<rparr>"
  by (simp add: closePending_def closed_messages_def flushDeferred_def)

lemma settleOpenStep_eq:
  assumes "one_partial (closed_messages s)"
  shows "settleOpenStep s =
     s\<lparr>cs_messages := concat (map seal (closed_messages s)), cs_pending := [],
       cs_deferred := (if cs_pending s = [] then cs_deferred s else [])\<rparr>"
  using assms
proof (cases rule: one_partial_cases)
  case none
  then show ?thesis by (simp add: settleOpenStep_def closePending_eq find_open_None seal_skip Let_def)
next
  case (one us opn vs)
  then show ?thesis
    by (simp add: settleOpenStep_def closePending_eq find_open_split seal_skip Let_def seal_def)
qed

section \<open>Runs of the fold\<close>

text \<open>
  What is fed to the fold: messages appended from outside the loop (prompts, injections, notices:
  none of them partial, none a tool result, none with tool calls) and recorded loop events.
\<close>

datatype fold_input = InMessage context_message | InEvent loop_event

fun fold_step :: "context_state \<Rightarrow> fold_input \<Rightarrow> context_state" where
  "fold_step s (InMessage m) = foldAppendMessage m s"
| "fold_step s (InEvent e) = foldLoopEvent s e"

definition fold_run :: "context_state \<Rightarrow> fold_input list \<Rightarrow> context_state" where
  "fold_run s xs = foldl fold_step s xs"

definition plain :: "context_message \<Rightarrow> bool" where
  "plain m \<longleftrightarrow> \<not> is_partial m \<and> cm_role m \<noteq> RTool \<and> cm_toolCalls m = []"

fun input_ok :: "fold_input \<Rightarrow> bool" where
  "input_ok (InMessage m) = plain m"
| "input_ok (InEvent _) = True"

definition fold_inv :: "context_state \<Rightarrow> bool" where
  "fold_inv s \<longleftrightarrow>
     one_partial (cs_messages s) \<and> (\<forall>m \<in> set (cs_messages s). is_partial m \<longrightarrow> cm_role m = RAssistant)
     \<and> (\<forall>m \<in> set (cs_deferred s). plain m) \<and> (cs_pending s = [] \<longrightarrow> cs_deferred s = [])"

lemma partial_simps [simp]:
  "is_partial open_assistant" "\<not> is_partial (interruptedToolMessage i)"
  "\<not> is_partial ((createToolMessage i out)\<lparr>cm_isError := e, cm_note := n\<rparr>)"
  "cm_role open_assistant = RAssistant" "cm_role (interruptedToolMessage i) = RTool"
  "cm_role (createToolMessage i out) = RTool"
  by (simp_all add: is_partial_def open_assistant_def plain_message_def interruptedToolMessage_def
      createToolMessage_def)

lemma partial_content [simp]: "is_partial (m\<lparr>cm_content := c\<rparr>) = is_partial m"
  by (simp add: is_partial_def)

lemma plain_message_simps [simp]:
  "cm_role (plain_message r c) = r" "cm_toolCalls (plain_message r c) = []" "cm_content (plain_message r c) = c"
  "\<not> is_partial (plain_message r c)" "cm_origin (plain_message r c) = None"
  by (simp_all add: plain_message_def is_partial_def)

lemma partial_split_unique:
  assumes "us @ opn # ts = us2 @ opn2 # ts2" "is_partial opn" "is_partial opn2"
    "\<forall>m \<in> set us. \<not> is_partial m" "\<forall>m \<in> set us2. \<not> is_partial m"
  shows "us2 = us \<and> opn2 = opn \<and> ts2 = ts"
proof -
  have "takeWhile (\<lambda>m. \<not> is_partial m) (us @ opn # ts) = us"
    "takeWhile (\<lambda>m. \<not> is_partial m) (us2 @ opn2 # ts2) = us2"
    using assms(2-5) by (simp_all add: takeWhile_append2)
  then show ?thesis using assms(1) by auto
qed

lemma add_call_simps [simp]:
  "is_partial (add_call c d m) = is_partial m" "cm_role (add_call c d m) = cm_role m"
  "cm_toolCalls (add_call c d m) = cm_toolCalls m @ [c]"
  by (cases d; simp add: add_call_def is_partial_def Let_def)+

lemma one_partial_simps [simp]:
  "one_partial []"
  "\<not> is_partial m \<Longrightarrow> one_partial (ms @ [m]) = one_partial ms"
  "(\<forall>m \<in> set vs. \<not> is_partial m) \<Longrightarrow> one_partial (ms @ vs) = one_partial ms"
  "(\<forall>m \<in> set ms. \<not> is_partial m) \<Longrightarrow> one_partial (ms @ [m])"
  by (simp_all add: one_partial_def)

lemma filter_empty_partial: "(\<forall>m \<in> set ms. \<not> is_partial m) \<Longrightarrow> one_partial ms"
  by (simp add: one_partial_def)

lemma one_partial_map:
  "(\<And>m. is_partial (u m) = is_partial m) \<Longrightarrow>
   one_partial (map (\<lambda>m. if is_partial m then u m else m) ms) = one_partial ms"
proof -
  assume "\<And>m. is_partial (u m) = is_partial m"
  then have "length (filter is_partial (map (\<lambda>m. if is_partial m then u m else m) ms))
      = length (filter is_partial ms)"
    by (induction ms) auto
  then show ?thesis by (simp add: one_partial_def)
qed

lemma closed_partial:
  assumes "fold_inv s"
  shows "one_partial (closed_messages s)" "\<forall>m \<in> set (closed_messages s). is_partial m \<longrightarrow> cm_role m = RAssistant"
proof -
  have "\<forall>m \<in> set (map interruptedToolMessage (cs_pending s) @ cs_deferred s). \<not> is_partial m"
    using assms by (auto simp: fold_inv_def plain_def)
  then show "one_partial (closed_messages s)"
    using assms by (simp only: closed_messages_def fold_inv_def one_partial_simps if_split_asm) simp
  show "\<forall>m \<in> set (closed_messages s). is_partial m \<longrightarrow> cm_role m = RAssistant"
    using assms by (auto simp: fold_inv_def closed_messages_def plain_def)
qed

lemma no_partial_sealed: "\<forall>m \<in> set (concat (map seal ms)). \<not> is_partial m"
  by (auto simp: seal_def is_partial_def split: if_splits)

lemma fold_inv_step:
  assumes "fold_inv s" "input_ok x"
  shows "fold_inv (fold_step s x)"
proof (cases x)
  case (InMessage m)
  then show ?thesis using assms
    by (auto simp: fold_inv_def foldAppendMessage_def plain_def)
next
  case (InEvent e)
  show ?thesis
  proof (cases e)
    case (StepBegin u)
    have np: "\<forall>m \<in> set (concat (map seal (closed_messages s))). \<not> is_partial m" by (rule no_partial_sealed)
    then show ?thesis using assms InEvent StepBegin
      by (auto simp: fold_inv_def Let_def settleOpenStep_eq [OF closed_partial(1) [OF assms(1)]])
  next
    case (StepEnd u)
    have inv: "fold_inv (s\<lparr>cs_openStepUuid := None\<rparr>)" using assms(1) by (simp add: fold_inv_def)
    have np: "\<forall>m \<in> set (concat (map seal (closed_messages s))). \<not> is_partial m" by (rule no_partial_sealed)
    have "closed_messages (s\<lparr>cs_openStepUuid := None\<rparr>) = closed_messages s" by (simp add: closed_messages_def)
    then show ?thesis using assms InEvent StepEnd np filter_empty_partial [OF np]
      by (auto simp: fold_inv_def settleOpenStep_eq [OF closed_partial(1) [OF inv]] flushDeferred_def)
  next
    case (ContentPart su part)
    have "one_partial (cs_messages s)" using assms(1) by (simp add: fold_inv_def)
    then show ?thesis using assms InEvent ContentPart
      by (auto simp: fold_inv_def appendToOpenAssistant_map one_partial_map)
  next
    case (ToolCall su i n a d ex)
    have "one_partial (cs_messages s)" using assms(1) by (simp add: fold_inv_def)
    moreover have "js_set_add i (cs_pending s) \<noteq> []" by (simp add: js_set_add_def) auto
    ultimately show ?thesis using assms InEvent ToolCall
      by (auto simp: fold_inv_def appendToOpenAssistant_map one_partial_map)
  next
    case (ToolResult i out e n)
    then show ?thesis using assms InEvent
      by (auto simp: fold_inv_def flushDeferred_def plain_def)
  qed
qed

lemma fold_inv_start: "\<forall>m \<in> set ms. \<not> is_partial m \<Longrightarrow> fold_inv (resetFold ms)"
  by (simp add: fold_inv_def resetFold_def filter_empty_partial)

lemma fold_inv_run: "fold_inv s \<Longrightarrow> list_all input_ok xs \<Longrightarrow> fold_inv (fold_run s xs)"
  by (induction xs arbitrary: s) (simp_all add: fold_run_def fold_inv_step)

section \<open>Settling, order and adjacency\<close>

lemma step_end_eq:
  assumes "fold_inv s"
  shows "foldLoopEvent s (StepEnd u) =
    \<lparr>cs_messages = concat (map seal (closed_messages s)), cs_openStepUuid = None,
     cs_pending = [], cs_deferred = []\<rparr>"
proof -
  have inv: "fold_inv (s\<lparr>cs_openStepUuid := None\<rparr>)" using assms by (simp add: fold_inv_def)
  have c: "closed_messages (s\<lparr>cs_openStepUuid := None\<rparr>) = closed_messages s"
    by (simp add: closed_messages_def)
  show ?thesis
    using assms settleOpenStep_eq [OF closed_partial(1) [OF inv]]
    by (cases s) (auto simp: closed_messages_def flushDeferred_def fold_inv_def)
qed

lemma step_begin_eq:
  assumes "fold_inv s"
  shows "foldLoopEvent s (StepBegin u) =
    \<lparr>cs_messages = concat (map seal (closed_messages s)) @ [open_assistant], cs_openStepUuid = Some u,
     cs_pending = [], cs_deferred = []\<rparr>"
  using assms settleOpenStep_eq [OF closed_partial(1) [OF assms]]
  by (cases s) (auto simp: fold_inv_def Let_def)

definition from_user :: "context_message \<Rightarrow> bool" where
  "from_user m \<longleftrightarrow> cm_role m = RUser"

fun input_users :: "fold_input \<Rightarrow> context_message list" where
  "input_users (InMessage m) = (if from_user m then [m] else [])"
| "input_users (InEvent _) = []"

lemma seal_users:
  "(\<forall>m \<in> set ms. is_partial m \<longrightarrow> cm_role m = RAssistant) \<Longrightarrow>
   filter from_user (concat (map seal ms)) = filter from_user ms"
  by (induction ms) (auto simp: seal_def from_user_def)

lemma update_users:
  "(\<forall>m \<in> set ms. is_partial m \<longrightarrow> cm_role m = RAssistant) \<Longrightarrow> (\<And>m. cm_role (u m) = cm_role m) \<Longrightarrow>
   filter from_user (map (\<lambda>m. if is_partial m then u m else m) ms) = filter from_user ms"
  by (induction ms) (auto simp: from_user_def)

lemma closed_users:
  "fold_inv s \<Longrightarrow> filter from_user (closed_messages s) = filter from_user (cs_messages s @ cs_deferred s)"
  by (auto simp: closed_messages_def fold_inv_def filter_empty_conv from_user_def)

lemma fold_step_users:
  assumes "fold_inv s"
  shows "filter from_user (cs_messages (fold_step s x) @ cs_deferred (fold_step s x))
    = filter from_user (cs_messages s @ cs_deferred s) @ input_users x"
proof (cases x)
  case (InMessage m)
  then show ?thesis using assms by (auto simp: foldAppendMessage_def fold_inv_def)
next
  case (InEvent e)
  have one: "one_partial (cs_messages s)"
    and role: "\<forall>m \<in> set (cs_messages s). is_partial m \<longrightarrow> cm_role m = RAssistant"
    using assms by (auto simp: fold_inv_def)
  have sealed: "filter from_user (concat (map seal (closed_messages s)))
      = filter from_user (cs_messages s @ cs_deferred s)"
    by (simp only: seal_users [OF closed_partial(2) [OF assms]] closed_users [OF assms])
  show ?thesis
  proof (cases e)
    case (StepBegin u)
    then show ?thesis using InEvent sealed
      by (simp add: step_begin_eq [OF assms] from_user_def del: foldLoopEvent.simps)
  next
    case (StepEnd u)
    then show ?thesis using InEvent sealed
      by (simp add: step_end_eq [OF assms] del: foldLoopEvent.simps)
  next
    case (ContentPart su part)
    then show ?thesis using InEvent by (simp add: appendToOpenAssistant_map [OF one] update_users [OF role])
  next
    case (ToolCall su i n a d ex)
    then show ?thesis using InEvent by (simp add: appendToOpenAssistant_map [OF one] update_users [OF role])
  next
    case (ToolResult i out e n)
    then show ?thesis using InEvent by (auto simp: flushDeferred_def from_user_def)
  qed
qed

lemma fold_run_users:
  "fold_inv s \<Longrightarrow> list_all input_ok xs \<Longrightarrow>
   filter from_user (cs_messages (fold_run s xs) @ cs_deferred (fold_run s xs))
    = filter from_user (cs_messages s @ cs_deferred s) @ concat (map input_users xs)"
  by (induction xs arbitrary: s) (simp_all add: fold_run_def fold_inv_step fold_step_users del: filter_append)

text \<open>
  A strict provider wants the results of an assistant message's calls right behind it, and no
  other result anywhere: \<open>need\<close> are the calls of the message last seen, \<open>seen\<close> the results since.
\<close>

fun adjacent :: "string list \<Rightarrow> string list \<Rightarrow> context_message list \<Rightarrow> bool" where
  "adjacent need seen [] = (set need = set seen)"
| "adjacent need seen (m # ms) =
     (if cm_role m = RTool
      then adjacent need ((case cm_toolCallId m of Some i \<Rightarrow> i | None \<Rightarrow> []) # seen) ms
      else set need = set seen \<and> adjacent (map call_id (cm_toolCalls m)) [] ms)"

definition result_ids :: "context_message list \<Rightarrow> string list" where
  "result_ids ms = map (\<lambda>m. case cm_toolCallId m of Some i \<Rightarrow> i | None \<Rightarrow> []) ms"

definition tools_only :: "context_message list \<Rightarrow> bool" where
  "tools_only ms \<longleftrightarrow> (\<forall>m \<in> set ms. cm_role m = RTool)"

definition tool_free :: "context_message list \<Rightarrow> bool" where
  "tool_free ms \<longleftrightarrow> (\<forall>m \<in> set ms. cm_role m \<noteq> RTool \<and> cm_toolCalls m = [])"

lemma adjacent_cong: "set seen = set seen2 \<Longrightarrow> set need = set need2 \<Longrightarrow>
  adjacent need seen ms = adjacent need2 seen2 ms"
  by (induction ms arbitrary: seen seen2) (auto split: option.split)

lemma adjacent_tools: "tools_only ts \<Longrightarrow> adjacent need seen (ts @ ms) = adjacent need (rev (result_ids ts) @ seen) ms"
  by (induction ts arbitrary: seen) (auto simp: tools_only_def result_ids_def)

lemma adjacent_free: "tool_free ms \<Longrightarrow> adjacent need seen ms \<longleftrightarrow> set need = set seen"
  by (induction ms arbitrary: need seen) (auto simp: tool_free_def)

lemma adjacent_orphan: "seen \<noteq> [] \<Longrightarrow> \<not> adjacent [] seen ms"
  by (induction ms arbitrary: seen) auto

lemma adjacent_append:
  "adjacent [] [] ys \<Longrightarrow> adjacent need seen (xs @ ys) = adjacent need seen xs"
proof (induction xs arbitrary: need seen)
  case Nil
  then show ?case by (cases ys) (auto simp: adjacent_orphan)
qed auto

lemma adjacent_prefix:
  "cm_role m \<noteq> RTool \<Longrightarrow>
   adjacent need seen (us @ m # ms) \<longleftrightarrow> adjacent need seen us \<and> adjacent (map call_id (cm_toolCalls m)) [] ms"
  by (induction us arbitrary: need seen) auto

text \<open>The open exchange: the unsettled assistant, the results so far, and the calls still pending.\<close>

definition exchange_inv :: "context_state \<Rightarrow> bool" where
  "exchange_inv s \<longleftrightarrow>
     (cs_pending s = [] \<and> adjacent [] [] (cs_messages s))
     \<or> (\<exists>us opn ts. cs_messages s = us @ opn # ts \<and> is_partial opn \<and> tools_only ts \<and> cm_role opn = RAssistant
          \<and> (\<forall>m \<in> set (us @ ts). \<not> is_partial m) \<and> adjacent [] [] us \<and> cs_pending s \<noteq> []
          \<and> set (map call_id (cm_toolCalls opn)) = set (result_ids ts) \<union> set (cs_pending s))"

text \<open>A call may only be recorded while the open assistant is the last message but for results.\<close>

definition call_ok :: "context_state \<Rightarrow> bool" where
  "call_ok s \<longleftrightarrow>
     (case dropWhile (\<lambda>m. cm_role m = RTool) (rev (cs_messages s)) of [] \<Rightarrow> False | m # _ \<Rightarrow> is_partial m)"

fun tidy :: "context_state \<Rightarrow> fold_input list \<Rightarrow> bool" where
  "tidy s [] = True"
| "tidy s (x # xs) =
     (input_ok x \<and> (case x of InEvent (ToolCall _ _ _ _ _ _) \<Rightarrow> call_ok s | _ \<Rightarrow> True) \<and> tidy (fold_step s x) xs)"

lemma call_ok_split:
  assumes "call_ok s" "fold_inv s"
  obtains us opn ts where "cs_messages s = us @ opn # ts" "is_partial opn" "tools_only ts"
    "cm_role opn = RAssistant" "\<forall>m \<in> set (us @ ts). \<not> is_partial m"
proof -
  let ?t = "\<lambda>m. cm_role m = RTool"
  obtain opn r where r: "dropWhile ?t (rev (cs_messages s)) = opn # r" "is_partial opn"
    using assms(1) by (auto simp: call_ok_def split: list.splits)
  define ts where "ts = rev (takeWhile ?t (rev (cs_messages s)))"
  have "rev (cs_messages s) = rev ts @ opn # r"
    unfolding ts_def rev_rev_ident r(1) [symmetric] by simp
  then have split: "cs_messages s = rev r @ opn # ts" by (metis append_assoc append_Cons append_Nil rev.simps(2) rev_append rev_rev_ident)
  have "tools_only ts" unfolding ts_def tools_only_def by (auto dest: set_takeWhileD)
  moreover have "cm_role opn = RAssistant" "\<forall>m \<in> set (rev r @ ts). \<not> is_partial m"
    using assms(2) split r(2) by (auto simp: fold_inv_def one_partial_def filter_empty_conv)
  ultimately show thesis using that split r(2) by blast
qed

lemma seal_calls: "is_partial m \<Longrightarrow> seal m = [] \<and> cm_toolCalls m = [] \<or> seal m = [m\<lparr>cm_partial := None\<rparr>]"
  by (simp add: seal_def)

lemma adjacent_seal:
  assumes "one_partial ms" "\<forall>m \<in> set ms. is_partial m \<longrightarrow> cm_role m = RAssistant" "adjacent [] [] ms"
  shows "adjacent [] [] (concat (map seal ms))"
  using assms(1)
proof (cases rule: one_partial_cases)
  case none
  then show ?thesis using assms(3) by (simp add: seal_skip)
next
  case (one us opn vs)
  then have role: "cm_role opn \<noteq> RTool" using assms(2) by simp
  have adj: "adjacent [] [] us" "adjacent (map call_id (cm_toolCalls opn)) [] vs"
    using assms(3) one(1) by (simp_all add: adjacent_prefix [OF role])
  from seal_calls [OF one(2)] show ?thesis
  proof
    assume "seal opn = [] \<and> cm_toolCalls opn = []"
    then show ?thesis using adj one by (simp add: seal_skip adjacent_append)
  next
    assume "seal opn = [opn\<lparr>cm_partial := None\<rparr>]"
    then show ?thesis using adj one role by (simp add: seal_skip adjacent_prefix)
  qed
qed

lemma adjacent_closed:
  assumes "exchange_inv s" "fold_inv s"
  shows "adjacent [] [] (closed_messages s)"
proof (cases "cs_pending s = []")
  case True
  then show ?thesis using assms(1) by (auto simp: exchange_inv_def closed_messages_def)
next
  case False
  then obtain us opn ts where split: "cs_messages s = us @ opn # ts" "cm_role opn = RAssistant" "tools_only ts"
      "adjacent [] [] us"
      "set (map call_id (cm_toolCalls opn)) = set (result_ids ts) \<union> set (cs_pending s)"
    using assms(1) by (auto simp: exchange_inv_def)
  let ?is = "map interruptedToolMessage (cs_pending s)"
  have i: "tools_only (ts @ ?is)" "set (result_ids (ts @ ?is)) = set (result_ids ts) \<union> set (cs_pending s)"
    using split(3) by (auto simp: tools_only_def result_ids_def interruptedToolMessage_def createToolMessage_def)
  have "tool_free (cs_deferred s)" using assms(2) by (auto simp: fold_inv_def tool_free_def plain_def)
  then have "adjacent (map call_id (cm_toolCalls opn)) [] ((ts @ ?is) @ cs_deferred s)"
    unfolding adjacent_tools [OF i(1)] using i(2) split(5) by (simp add: adjacent_free)
  then show ?thesis
    using False split by (simp add: closed_messages_def adjacent_prefix)
qed

lemma adjacent_settled:
  "exchange_inv s \<Longrightarrow> fold_inv s \<Longrightarrow> adjacent [] [] (concat (map seal (closed_messages s)))"
  by (rule adjacent_seal [OF closed_partial adjacent_closed])

lemma adjacent_map:
  "(\<And>m. cm_role (u m) = cm_role m) \<Longrightarrow> (\<And>m. cm_toolCalls (u m) = cm_toolCalls m) \<Longrightarrow>
   (\<And>m. cm_toolCallId (u m) = cm_toolCallId m) \<Longrightarrow>
   adjacent need seen (map (\<lambda>m. if is_partial m then u m else m) ms) = adjacent need seen ms"
  by (induction ms arbitrary: need seen) auto

lemma exchange_call:
  assumes "exchange_inv s" "fold_inv s" "call_ok s"
  shows "exchange_inv (foldLoopEvent s (ToolCall su i n a d ex))"
proof -
  obtain us opn ts where split: "cs_messages s = us @ opn # ts" "is_partial opn" "tools_only ts"
      "cm_role opn = RAssistant" "\<forall>m \<in> set (us @ ts). \<not> is_partial m"
    using call_ok_split [OF assms(3,2)] by blast
  let ?c = "\<lparr>call_id = i, call_name = n, call_arguments = a, call_extras = ex\<rparr>"
  have np: "\<forall>m \<in> set us. \<not> is_partial m" "\<forall>m \<in> set ts. \<not> is_partial m" using split(5) by auto
  have one: "one_partial (cs_messages s)" using assms(2) by (simp add: fold_inv_def)
  have ms: "cs_messages (foldLoopEvent s (ToolCall su i n a d ex)) = us @ add_call ?c d opn # ts"
    using split(1,2) one np by (simp add: appendToOpenAssistant_map map_skip)
  have calls: "adjacent [] [] us \<and> set (map call_id (cm_toolCalls opn)) = set (result_ids ts) \<union> set (cs_pending s)"
  proof (cases "cs_pending s = []")
    case True
    then have "adjacent [] [] (us @ opn # ts)" using assms(1) split(1) by (auto simp: exchange_inv_def)
    then have "adjacent [] [] us" "adjacent (map call_id (cm_toolCalls opn)) [] (ts @ [])"
      using split(4) by (simp_all add: adjacent_prefix)
    then show ?thesis using True unfolding adjacent_tools [OF split(3)] by simp
  next
    case False
    then obtain us2 opn2 ts2 where s2: "cs_messages s = us2 @ opn2 # ts2" "is_partial opn2"
        "\<forall>m \<in> set (us2 @ ts2). \<not> is_partial m" "adjacent [] [] us2"
        "set (map call_id (cm_toolCalls opn2)) = set (result_ids ts2) \<union> set (cs_pending s)"
      using assms(1) by (auto simp: exchange_inv_def)
    have "us2 = us \<and> opn2 = opn \<and> ts2 = ts"
      using split(1,2,5) s2(1,2,3) by (intro partial_split_unique) auto
    then show ?thesis using s2 by simp
  qed
  have "exchange_inv (foldLoopEvent s (ToolCall su i n a d ex))"
    unfolding exchange_inv_def ms using split calls
    by (intro disjI2 exI [of _ us] exI [of _ "add_call ?c d opn"] exI [of _ ts])
      (auto simp: js_set_add_def)
  then show ?thesis .
qed

lemma exchange_result:
  assumes "exchange_inv s" "fold_inv s"
  shows "exchange_inv (foldLoopEvent s (ToolResult i out e n))"
proof (cases "i \<in> set (cs_pending s)")
  case True
  then obtain us opn ts where split: "cs_messages s = us @ opn # ts" "is_partial opn" "tools_only ts"
      "cm_role opn = RAssistant" "\<forall>m \<in> set (us @ ts). \<not> is_partial m" "adjacent [] [] us"
      "set (map call_id (cm_toolCalls opn)) = set (result_ids ts) \<union> set (cs_pending s)"
    using assms(1) by (auto simp: exchange_inv_def)
  let ?m = "(createToolMessage i out)\<lparr>cm_isError := e, cm_note := n\<rparr>"
  let ?p = "js_set_delete i (cs_pending s)"
  have t: "tools_only (ts @ [?m])" "set (result_ids (ts @ [?m])) = insert i (set (result_ids ts))"
    using split(3) by (auto simp: tools_only_def result_ids_def createToolMessage_def)
  show ?thesis
  proof (cases "?p = []")
    case True
    have "set (cs_pending s) - {i} = {}" using arg_cong [OF True, of set] by simp
    then have "set (cs_pending s) = {i}" using \<open>i \<in> set (cs_pending s)\<close> by blast
    moreover have "tool_free (cs_deferred s)" using assms(2) by (auto simp: fold_inv_def tool_free_def plain_def)
    ultimately have "adjacent (map call_id (cm_toolCalls opn)) [] ((ts @ [?m]) @ cs_deferred s)"
      unfolding adjacent_tools [OF t(1)] using t(2) split(7) by (simp add: adjacent_free)
    then have "adjacent [] [] (us @ opn # (ts @ [?m]) @ cs_deferred s)"
      using split(4,6) by (simp add: adjacent_prefix)
    moreover have "cs_messages (foldLoopEvent s (ToolResult i out e n)) = us @ opn # (ts @ [?m]) @ cs_deferred s"
        "cs_pending (foldLoopEvent s (ToolResult i out e n)) = []"
      using True \<open>i \<in> set (cs_pending s)\<close> split(1) by (simp_all add: flushDeferred_def)
    ultimately show ?thesis unfolding exchange_inv_def by simp
  next
    case False
    then have r: "cs_messages (foldLoopEvent s (ToolResult i out e n)) = us @ opn # (ts @ [?m])"
        "cs_pending (foldLoopEvent s (ToolResult i out e n)) = ?p"
      using \<open>i \<in> set (cs_pending s)\<close> split(1) by (simp_all add: flushDeferred_def)
    have "set (map call_id (cm_toolCalls opn)) = set (result_ids (ts @ [?m])) \<union> set ?p"
      using \<open>i \<in> set (cs_pending s)\<close> t(2) split(7) by auto
    then show ?thesis unfolding exchange_inv_def r using False split t(1)
      by (intro disjI2 exI [of _ us] exI [of _ opn] exI [of _ "ts @ [?m]"]) auto
  qed
qed (use assms(1) in simp)

lemma exchange_step:
  assumes "exchange_inv s" "fold_inv s" "input_ok x"
    "case x of InEvent (ToolCall _ _ _ _ _ _) \<Rightarrow> call_ok s | _ \<Rightarrow> True"
  shows "exchange_inv (fold_step s x)"
proof (cases x)
  case (InMessage m)
  then have plain: "plain m" using assms(3) by simp
  show ?thesis
  proof (cases "cs_pending s = []")
    case True
    then have "adjacent [] [] (cs_messages s)" using assms(1) by (auto simp: exchange_inv_def)
    moreover have "adjacent [] [] [m]" using plain by (simp add: plain_def)
    ultimately show ?thesis
      using True InMessage by (simp add: exchange_inv_def foldAppendMessage_def adjacent_append)
  next
    case False
    then show ?thesis using assms(1) InMessage by (simp add: exchange_inv_def foldAppendMessage_def)
  qed
next
  case (InEvent e)
  show ?thesis
  proof (cases e)
    case (StepBegin u)
    have "adjacent [] [] [open_assistant]" by (simp add: open_assistant_def plain_message_def)
    then show ?thesis
      using InEvent StepBegin adjacent_settled [OF assms(1,2)]
      by (simp add: step_begin_eq [OF assms(2)] exchange_inv_def adjacent_append del: foldLoopEvent.simps)
  next
    case (StepEnd u)
    then show ?thesis using InEvent adjacent_settled [OF assms(1,2)]
      by (simp add: step_end_eq [OF assms(2)] exchange_inv_def del: foldLoopEvent.simps)
  next
    case (ContentPart su part)
    have one: "one_partial (cs_messages s)" using assms(2) by (simp add: fold_inv_def)
    let ?u = "\<lambda>m. m\<lparr>cm_content := cm_content m @ [part]\<rparr>"
    have ms: "cs_messages (fold_step s x) = map (\<lambda>m. if is_partial m then ?u m else m) (cs_messages s)"
      using InEvent ContentPart by (simp add: appendToOpenAssistant_map [OF one])
    show ?thesis
    proof (cases "cs_pending s = []")
      case True
      then have "adjacent [] [] (cs_messages s)" using assms(1) by (auto simp: exchange_inv_def)
      then show ?thesis using True InEvent ContentPart
        by (simp add: exchange_inv_def appendToOpenAssistant_map [OF one] adjacent_map)
    next
      case False
      then obtain us opn ts where split: "cs_messages s = us @ opn # ts" "is_partial opn" "tools_only ts"
          "cm_role opn = RAssistant" "\<forall>m \<in> set (us @ ts). \<not> is_partial m" "adjacent [] [] us"
          "set (map call_id (cm_toolCalls opn)) = set (result_ids ts) \<union> set (cs_pending s)"
        using assms(1) by (auto simp: exchange_inv_def)
      then have np: "\<forall>m \<in> set us. \<not> is_partial m" "\<forall>m \<in> set ts. \<not> is_partial m" by auto
      have "cs_messages (fold_step s x) = us @ ?u opn # ts"
        unfolding ms split(1) using split(2) np by (simp add: map_skip)
      moreover have "cs_pending (fold_step s x) = cs_pending s" using InEvent ContentPart by simp
      ultimately show ?thesis unfolding exchange_inv_def using split False
        by (intro disjI2 exI [of _ us] exI [of _ "?u opn"] exI [of _ ts]) auto
    qed
  next
    case (ToolCall su i n a d ex)
    then show ?thesis using InEvent assms exchange_call by (simp del: foldLoopEvent.simps)
  next
    case (ToolResult i out er n)
    then show ?thesis using InEvent assms exchange_result by (simp del: foldLoopEvent.simps)
  qed
qed

lemma exchange_run:
  "exchange_inv s \<Longrightarrow> fold_inv s \<Longrightarrow> tidy s xs \<Longrightarrow>
   exchange_inv (fold_run s xs) \<and> fold_inv (fold_run s xs)"
proof (induction xs arbitrary: s)
  case (Cons x xs)
  then have "exchange_inv (fold_step s x)" "fold_inv (fold_step s x)"
    using exchange_step fold_inv_step by auto
  with Cons show ?case by (simp add: fold_run_def)
qed (simp add: fold_run_def)

end
