(* ===== verification/ContextProjection.thy ===== *)
theory ContextProjection
  imports ContextMemory "HOL-Library.List_Lexorder" "HOL-Library.Char_ord"
begin

text \<open>
  \<open>packages/agent-core-v2/src/agent/contextProjector/contextProjectorService.ts\<close>: the messages a
  provider is sent, made from the history by repairs that keep them valid, with the rendering of
  tool results of \<open>contextMemory/toolResultRender.ts\<close>. A callback \<open>onAnomaly\<close> is the list of what it
  was called with; the error \<open>cleanContent\<close> throws is the left of a sum. The digest a media part is
  recognised by is a parameter.
\<close>

section \<open>Tool results (\<open>toolResultRender.ts\<close>)\<close>

definition TOOL_ERROR_STATUS :: string where
  "TOOL_ERROR_STATUS = ''<system>ERROR: Tool execution failed.</system>''"

definition TOOL_EMPTY_STATUS :: string where
  "TOOL_EMPTY_STATUS = ''<system>Tool output is empty.</system>''"

definition TOOL_EMPTY_ERROR_STATUS :: string where
  "TOOL_EMPTY_ERROR_STATUS = ''<system>ERROR: Tool execution failed. Tool output is empty.</system>''"

definition TOOL_OUTPUT_EMPTY_TEXT :: string where
  "TOOL_OUTPUT_EMPTY_TEXT = ''Tool output is empty.''"

record renderable_result =
  rr_output :: tool_output
  rr_note :: "string option"
  rr_isError :: "bool option"

definition singleTextPart :: "content_part list \<Rightarrow> string option" where
  "singleTextPart output = (case output of [PText t] \<Rightarrow> Some t | _ \<Rightarrow> None)"

definition isEmptyOutputText :: "string \<Rightarrow> bool" where
  "isEmptyOutputText output \<longleftrightarrow> js_trim output = [] \<or> js_trim output = TOOL_OUTPUT_EMPTY_TEXT"

definition isEmptyEquivalentContentArray :: "content_part list \<Rightarrow> bool" where
  "isEmptyEquivalentContentArray output =
     list_all (\<lambda>p. case p of PText t \<Rightarrow> js_trim t = [] | _ \<Rightarrow> False) output"

definition renderStatus :: "renderable_result \<Rightarrow> content_part list" where
  "renderStatus r =
     (case (case rr_output r of OutText s \<Rightarrow> Some s | OutParts ps \<Rightarrow> singleTextPart ps) of
        Some single \<Rightarrow>
          if rr_isError r = Some True then
            (if single = [] then [PText TOOL_EMPTY_ERROR_STATUS]
             else [PText (TOOL_ERROR_STATUS @ [CHR 0x0A] @ single)])
          else if isEmptyOutputText single then [PText TOOL_EMPTY_STATUS] else [PText single]
      | None \<Rightarrow>
          let parts = (case rr_output r of OutParts ps \<Rightarrow> ps | OutText _ \<Rightarrow> []) in
          if isEmptyEquivalentContentArray parts
          then [PText (if rr_isError r = Some True then TOOL_EMPTY_ERROR_STATUS else TOOL_EMPTY_STATUS)]
          else if rr_isError r = Some True then PText TOOL_ERROR_STATUS # parts
          else parts)"

definition renderToolResultForModel :: "renderable_result \<Rightarrow> content_part list" where
  "renderToolResultForModel r =
     (let rendered = renderStatus r in
      case rr_note r of
        None \<Rightarrow> rendered
      | Some note \<Rightarrow>
          if note = [] then rendered
          else case rendered of
            [PText only] \<Rightarrow> [PText (only @ [CHR 0x0A] @ note)]
          | _ \<Rightarrow> rendered @ [PText note])"

section \<open>The content of a message\<close>

datatype anomaly =
    ToolResultReordered string
  | ToolResultSynthesized string bool
  | OrphanToolResultDropped string
  | DuplicateToolCallDropped string
  | DuplicateToolResultDropped string
  | LeadingNonUserDropped role
  | ConsecutiveAssistantsMerged
  | WhitespaceTextDropped role
  | VacuousMessageDropped role

datatype projection_error = EmptyToolResult "string option"

definition isBlankText :: "content_part \<Rightarrow> bool" where
  "isBlankText part = (case part of PText t \<Rightarrow> js_trim t = [] | _ \<Rightarrow> False)"

definition outputFromToolContent :: "content_part list \<Rightarrow> tool_output" where
  "outputFromToolContent content = (case content of [PText only] \<Rightarrow> OutText only | _ \<Rightarrow> OutParts content)"

definition cleanContent ::
  "context_message \<Rightarrow> content_part list \<Rightarrow> projection_error + content_part list \<times> anomaly list" where
  "cleanContent source rawContent =
     (let (content, notes) =
        (if list_ex isBlankText rawContent
         then (filter (\<lambda>p. \<not> isBlankText p) rawContent,
               map (\<lambda>_. WhitespaceTextDropped (cm_role source)) (filter (\<lambda>p. isBlankText p \<and> p \<noteq> PText []) rawContent))
         else (rawContent, []))
      in if cm_role source = RTool \<and> content = [] then Inl (EmptyToolResult (cm_toolCallId source))
         else Inr (content, notes))"

definition projectedContent :: "context_message \<Rightarrow> projection_error + content_part list \<times> anomaly list" where
  "projectedContent source =
     cleanContent source
       (if cm_role source = RTool
        then renderToolResultForModel \<lparr>rr_output = outputFromToolContent (cm_content source),
               rr_note = cm_note source, rr_isError = cm_isError source\<rparr>
        else cm_content source)"

definition canMergeUserMessage :: "context_message \<Rightarrow> bool" where
  "canMergeUserMessage m \<longleftrightarrow> cm_role m = RUser \<and> cm_origin m = Some OrgUser"

definition hasDeclaredTools :: "context_message \<Rightarrow> bool" where
  "hasDeclaredTools m = (case cm_tools m of None \<Rightarrow> False | Some ts \<Rightarrow> ts \<noteq> [])"

definition toWireMessage :: "context_message \<Rightarrow> content_part list \<Rightarrow> context_message" where
  "toWireMessage m content =
     (plain_message (cm_role m) content)
       \<lparr>cm_name := cm_name m, cm_toolCalls := cm_toolCalls m, cm_toolCallId := cm_toolCallId m,
        cm_partial := cm_partial m, cm_tools := cm_tools m\<rparr>"

definition TOOL_INTERRUPTED_TEXT :: string where
  "TOOL_INTERRUPTED_TEXT =
     ''Tool result is not available in the current context. Do not assume the tool completed successfully.''"

definition createInterruptedToolResult :: "string \<Rightarrow> context_message" where
  "createInterruptedToolResult toolCallId =
     (plain_message RTool [PText TOOL_INTERRUPTED_TEXT])\<lparr>cm_toolCallId := Some toolCallId\<rparr>"

definition TOOL_RESULT_SLOT :: context_message where
  "TOOL_RESULT_SLOT = createInterruptedToolResult []"

definition isInterruptedToolResult :: "context_message \<Rightarrow> bool" where
  "isInterruptedToolResult m \<longleftrightarrow>
     cm_role m = RTool \<and> (case cm_content m of PText t # _ \<Rightarrow> t = TOOL_INTERRUPTED_TEXT | _ \<Rightarrow> False)"

section \<open>The projection\<close>

record open_slot =
  os_index :: nat
  os_ownerIndex :: nat
  os_foreignBetween :: bool

record merge_group =
  mg_index :: nat
  mg_singleContent :: "content_part list option"
  mg_texts :: "string list"
  mg_parts :: "content_part list"

record projection =
  pj_out :: "context_message list"
  pj_openSlots :: "(string, open_slot) jsmap"
  pj_merge :: "merge_group option"
  pj_anomalies :: "anomaly list"

definition notice :: "anomaly \<Rightarrow> projection \<Rightarrow> projection" where
  "notice a s = s\<lparr>pj_anomalies := pj_anomalies s @ [a]\<rparr>"

definition is_text :: "content_part \<Rightarrow> bool" where
  "is_text p = (case p of PText _ \<Rightarrow> True | _ \<Rightarrow> False)"

definition text_of :: "content_part list \<Rightarrow> string" where
  "text_of ps = concat (map (\<lambda>p. case p of PText t \<Rightarrow> t | _ \<Rightarrow> []) ps)"

definition appendMergeContent :: "merge_group \<Rightarrow> content_part list \<Rightarrow> merge_group" where
  "appendMergeContent g content =
     g\<lparr>mg_parts := mg_parts g @ filter (\<lambda>p. \<not> is_text p) content,
       mg_texts := (if text_of content \<noteq> [] then mg_texts g @ [text_of content] else mg_texts g)\<rparr>"

fun join :: "string \<Rightarrow> string list \<Rightarrow> string" where
  "join sep [] = []"
| "join sep [t] = t"
| "join sep (t # ts) = t @ sep @ join sep ts"

definition merged_message :: "merge_group \<Rightarrow> context_message" where
  "merged_message g =
     (let text = join [CHR 0x0A, CHR 0x0A] (mg_texts g)
      in plain_message RUser ((if text = [] then [] else [PText text]) @ mg_parts g))"

definition flushMerge :: "projection \<Rightarrow> projection" where
  "flushMerge s =
     (case pj_merge s of
        None \<Rightarrow> s
      | Some g \<Rightarrow>
          (if mg_singleContent g = None then s\<lparr>pj_out := (pj_out s)[mg_index g := merged_message g]\<rparr> else s)
            \<lparr>pj_merge := None\<rparr>)"

definition markForeignBetween :: "projection \<Rightarrow> projection" where
  "markForeignBetween s =
     s\<lparr>pj_openSlots := map (\<lambda>(i, slot). (i, slot\<lparr>os_foreignBetween := True\<rparr>)) (pj_openSlots s)\<rparr>"

definition push_merged :: "context_message \<Rightarrow> content_part list \<Rightarrow> projection \<Rightarrow> projection" where
  "push_merged source content s =
     (case pj_merge s of
        None \<Rightarrow>
          s\<lparr>pj_out := pj_out s @ [toWireMessage source content],
            pj_merge := Some \<lparr>mg_index = length (pj_out s), mg_singleContent = Some content, mg_texts = [], mg_parts = []\<rparr>\<rparr>
      | Some g \<Rightarrow>
          let g2 = (case mg_singleContent g of
                      None \<Rightarrow> g
                    | Some single \<Rightarrow> (appendMergeContent g single)\<lparr>mg_singleContent := None\<rparr>)
          in s\<lparr>pj_merge := Some (appendMergeContent g2 content)\<rparr>)"

definition push_message :: "context_message \<Rightarrow> content_part list \<Rightarrow> projection \<Rightarrow> projection" where
  "push_message source content s0 =
     (let s = (if pj_openSlots s0 \<noteq> [] then markForeignBetween s0 else s0) in
      if canMergeUserMessage source then push_merged source content s
      else let s2 = flushMerge s in s2\<lparr>pj_out := pj_out s2 @ [toWireMessage source content]\<rparr>)"

definition emit :: "context_message \<Rightarrow> projection \<Rightarrow> projection_error + projection" where
  "emit source s =
     (case projectedContent source of
        Inl e \<Rightarrow> Inl e
      | Inr (content, notes) \<Rightarrow>
          let s2 = s\<lparr>pj_anomalies := pj_anomalies s @ notes\<rparr> in
          Inr (if cm_toolCalls source = [] \<and> \<not> hasDeclaredTools source \<and> content = [] then s2
               else if cm_toolCalls source = [] \<and> \<not> hasDeclaredTools source \<and> list_all isVacuousContentPart content
               then notice (VacuousMessageDropped (cm_role source)) s2
               else push_message source content s2))"

text \<open>The loop over the calls of a message at \<open>index\<close> of the history.\<close>

definition open_slot_for :: "nat \<Rightarrow> int \<Rightarrow> string \<Rightarrow> projection \<Rightarrow> projection" where
  "open_slot_for index lastNonToolIndex i s =
     (let s2 = (case jm_get (pj_openSlots s) i of
           None \<Rightarrow> s
         | Some reopened \<Rightarrow>
             notice (ToolResultSynthesized i (lastNonToolIndex \<le> int (os_ownerIndex reopened)))
               (s\<lparr>pj_out := (pj_out s)[os_index reopened := createInterruptedToolResult i]\<rparr>))
      in s2\<lparr>pj_openSlots := jm_set i
               \<lparr>os_index = length (pj_out s2), os_ownerIndex = index, os_foreignBetween = False\<rparr> (pj_openSlots s2),
            pj_out := pj_out s2 @ [TOOL_RESULT_SLOT]\<rparr>)"

fun open_slots :: "nat \<Rightarrow> int \<Rightarrow> tool_call list \<Rightarrow> projection \<Rightarrow> projection" where
  "open_slots index lastNonToolIndex [] s = s"
| "open_slots index lastNonToolIndex (call # calls) s =
     open_slots index lastNonToolIndex calls (open_slot_for index lastNonToolIndex (call_id call) s)"

definition place_result :: "context_message \<Rightarrow> projection \<Rightarrow> projection_error + projection" where
  "place_result m s =
     (case cm_toolCallId m of
        None \<Rightarrow> Inr s
      | Some i \<Rightarrow>
          (case jm_get (pj_openSlots s) i of
             None \<Rightarrow> Inr (notice (OrphanToolResultDropped i) (if pj_openSlots s \<noteq> [] then markForeignBetween s else s))
           | Some slot \<Rightarrow>
               let s2 = s\<lparr>pj_openSlots := jm_delete i (pj_openSlots s)\<rparr>;
                   s3 = (if os_foreignBetween slot then notice (ToolResultReordered i) s2 else s2)
               in case projectedContent m of
                    Inl e \<Rightarrow> Inl e
                  | Inr (content, notes) \<Rightarrow>
                      Inr (s3\<lparr>pj_anomalies := pj_anomalies s3 @ notes,
                              pj_out := (pj_out s3)[os_index slot := toWireMessage m content]\<rparr>)))"

fun project_loop :: "bool \<Rightarrow> int \<Rightarrow> nat \<Rightarrow> context_message list \<Rightarrow> projection \<Rightarrow> projection_error + projection" where
  "project_loop hasAssistant lastNonToolIndex index [] s = Inr s"
| "project_loop hasAssistant lastNonToolIndex index (m # ms) s =
     (if cm_partial m = Some True then project_loop hasAssistant lastNonToolIndex (Suc index) ms s
      else if cm_role m = RTool then
        (case (if hasAssistant then place_result m s else emit m s) of
           Inl e \<Rightarrow> Inl e
         | Inr s2 \<Rightarrow> project_loop hasAssistant lastNonToolIndex (Suc index) ms s2)
      else
        (case emit m s of
           Inl e \<Rightarrow> Inl e
         | Inr s2 \<Rightarrow>
             project_loop hasAssistant lastNonToolIndex (Suc index) ms
               (open_slots index lastNonToolIndex (cm_toolCalls m) s2)))"

text \<open>The backward loop for \<open>lastNonToolIndex\<close>, at \<open>n - 1\<close>.\<close>

fun last_non_tool :: "context_message list \<Rightarrow> nat \<Rightarrow> int" where
  "last_non_tool history 0 = -1"
| "last_non_tool history (Suc i) =
     (if cm_role (history ! i) = RTool \<or> cm_partial (history ! i) = Some True then last_non_tool history i else int i)"

fun fill_slots :: "int \<Rightarrow> (string, open_slot) jsmap \<Rightarrow> projection \<Rightarrow> projection" where
  "fill_slots lastNonToolIndex [] s = s"
| "fill_slots lastNonToolIndex ((i, slot) # slots) s =
     fill_slots lastNonToolIndex slots
       (notice (ToolResultSynthesized i (lastNonToolIndex \<le> int (os_ownerIndex slot)))
         (s\<lparr>pj_out := (pj_out s)[os_index slot := createInterruptedToolResult i]\<rparr>))"

definition project :: "context_message list \<Rightarrow> projection_error + context_message list \<times> anomaly list" where
  "project history =
     (let hasAssistant = list_ex (\<lambda>m. cm_partial m \<noteq> Some True \<and> cm_role m = RAssistant) history;
          lastNonToolIndex = last_non_tool history (length history)
      in case project_loop hasAssistant lastNonToolIndex 0 history
                \<lparr>pj_out = [], pj_openSlots = [], pj_merge = None, pj_anomalies = []\<rparr> of
           Inl e \<Rightarrow> Inl e
         | Inr s \<Rightarrow>
             let s2 = flushMerge (fill_slots lastNonToolIndex (pj_openSlots s) s)
             in Inr (pj_out s2, pj_anomalies s2))"

section \<open>The strict projection\<close>

record dedupe =
  dd_seen :: "string list"
  dd_kept :: "(string, nat) jsmap"
  dd_out :: "context_message list"
  dd_anomalies :: "anomaly list"

text \<open>The filter over the calls of a message, with what it leaves in \<open>seenToolCallIds\<close>.\<close>

fun filter_calls :: "tool_call list \<Rightarrow> string list \<Rightarrow> tool_call list \<times> string list \<times> anomaly list" where
  "filter_calls [] seen = ([], seen, [])"
| "filter_calls (call # calls) seen =
     (if call_id call \<in> set seen
      then let (kept, seen2, notes) = filter_calls calls seen
           in (kept, seen2, DuplicateToolCallDropped (call_id call) # notes)
      else let (kept, seen2, notes) = filter_calls calls (js_set_add (call_id call) seen)
           in (call # kept, seen2, notes))"

definition dedupe_calls :: "context_message \<Rightarrow> dedupe \<Rightarrow> dedupe" where
  "dedupe_calls m s =
     (let (kept, seen, notes) = filter_calls (cm_toolCalls m) (dd_seen s);
          s2 = s\<lparr>dd_seen := seen, dd_anomalies := dd_anomalies s @ notes\<rparr>
      in if length kept = length (cm_toolCalls m) then s2\<lparr>dd_out := dd_out s @ [m]\<rparr>
         else if kept \<noteq> [] \<or> \<not> list_all isVacuousContentPart (cm_content m)
         then s2\<lparr>dd_out := dd_out s @ [m\<lparr>cm_toolCalls := kept\<rparr>]\<rparr>
         else if cm_content m \<noteq> [] then s2\<lparr>dd_anomalies := dd_anomalies s2 @ [VacuousMessageDropped (cm_role m)]\<rparr>
         else s2)"

definition dedupe_result :: "string \<Rightarrow> context_message \<Rightarrow> dedupe \<Rightarrow> dedupe" where
  "dedupe_result i m s =
     (case jm_get (dd_kept s) i of
        Some previous \<Rightarrow>
          if isInterruptedToolResult (dd_out s ! previous) \<and> \<not> isInterruptedToolResult m
          then s\<lparr>dd_out := (dd_out s)[previous := m]\<rparr>
          else s\<lparr>dd_anomalies := dd_anomalies s @ [DuplicateToolResultDropped i]\<rparr>
      | None \<Rightarrow> s\<lparr>dd_kept := jm_set i (length (dd_out s)) (dd_kept s), dd_out := dd_out s @ [m]\<rparr>)"

definition dedupe_step :: "dedupe \<Rightarrow> context_message \<Rightarrow> dedupe" where
  "dedupe_step s m =
     (if cm_role m = RAssistant \<and> cm_toolCalls m \<noteq> [] then dedupe_calls m s
      else case (cm_role m, cm_toolCallId m) of
        (RTool, Some i) \<Rightarrow> dedupe_result i m s
      | _ \<Rightarrow> s\<lparr>dd_out := dd_out s @ [m]\<rparr>)"

definition dedupeDuplicateToolCalls :: "context_message list \<Rightarrow> context_message list \<times> anomaly list" where
  "dedupeDuplicateToolCalls ms =
     (let s = foldl dedupe_step \<lparr>dd_seen = [], dd_kept = [], dd_out = [], dd_anomalies = []\<rparr> ms
      in (dd_out s, dd_anomalies s))"

definition merge_step :: "context_message list \<times> anomaly list \<Rightarrow> context_message \<Rightarrow> context_message list \<times> anomaly list" where
  "merge_step = (\<lambda>(out, notes) m.
     if out \<noteq> [] \<and> cm_role (last out) = RAssistant \<and> cm_role m = RAssistant
     then (butlast out @ [(last out)\<lparr>cm_content := cm_content (last out) @ cm_content m,
                                      cm_toolCalls := cm_toolCalls (last out) @ cm_toolCalls m\<rparr>],
           notes @ [ConsecutiveAssistantsMerged])
     else (out @ [m], notes))"

definition mergeConsecutiveAssistantMessages :: "context_message list \<Rightarrow> context_message list \<times> anomaly list" where
  "mergeConsecutiveAssistantMessages ms = foldl merge_step ([], []) ms"

fun dropLeadingNonUserMessages :: "context_message list \<Rightarrow> context_message list \<times> anomaly list" where
  "dropLeadingNonUserMessages [] = ([], [])"
| "dropLeadingNonUserMessages (m # ms) =
     (if cm_role m \<noteq> RUser
      then let (out, notes) = dropLeadingNonUserMessages ms in (out, LeadingNonUserDropped (cm_role m) # notes)
      else (m # ms, []))"

definition projectStrict :: "context_message list \<Rightarrow> projection_error + context_message list \<times> anomaly list" where
  "projectStrict history =
     (case project history of
        Inl e \<Rightarrow> Inl e
      | Inr (projected, notes1) \<Rightarrow>
          let (deduped, notes2) = dedupeDuplicateToolCalls projected;
              (merged, notes3) = mergeConsecutiveAssistantMessages deduped;
              (out, notes4) = dropLeadingNonUserMessages merged
          in Inr (out, notes1 @ notes2 @ notes3 @ notes4))"

section \<open>Fallback projections without media\<close>

definition isDegradableMediaPart :: "content_part \<Rightarrow> bool" where
  "isDegradableMediaPart part = (case part of PText _ \<Rightarrow> False | PThink _ _ \<Rightarrow> False | _ \<Rightarrow> True)"

fun part_type :: "content_part \<Rightarrow> string" where
  "part_type (PText _) = ''text''"
| "part_type (PThink _ _) = ''think''"
| "part_type (PImage _ _) = ''image_url''"
| "part_type (PAudio _ _) = ''audio_url''"
| "part_type (PVideo _ _) = ''video_url''"

fun MEDIA_DEGRADED_PLACEHOLDERS :: "content_part \<Rightarrow> string" where
  "MEDIA_DEGRADED_PLACEHOLDERS (PImage _ _) =
     ''[image omitted: dropped to fit the provider request size limit; re-read the file to view it]''"
| "MEDIA_DEGRADED_PLACEHOLDERS (PAudio _ _) =
     ''[audio omitted: dropped to fit the provider request size limit; re-read the file to hear it]''"
| "MEDIA_DEGRADED_PLACEHOLDERS (PVideo _ _) =
     ''[video omitted: dropped to fit the provider request size limit; re-read the file to view it]''"
| "MEDIA_DEGRADED_PLACEHOLDERS _ = []"

fun MEDIA_STRIPPED_PLACEHOLDERS :: "content_part \<Rightarrow> string" where
  "MEDIA_STRIPPED_PLACEHOLDERS (PImage _ _) =
     ''[image omitted for provider compatibility; re-read the file to view it or get conversion guidance]''"
| "MEDIA_STRIPPED_PLACEHOLDERS (PAudio _ _) =
     ''[audio omitted for provider compatibility; re-read the file to hear it]''"
| "MEDIA_STRIPPED_PLACEHOLDERS (PVideo _ _) =
     ''[video omitted for provider compatibility; re-read the file to view it]''"
| "MEDIA_STRIPPED_PLACEHOLDERS _ = []"

definition MEDIA_DEGRADE_KEEP_RECENT :: nat where "MEDIA_DEGRADE_KEEP_RECENT = 2"

fun degrade_parts :: "(content_part \<Rightarrow> string) \<Rightarrow> nat \<Rightarrow> content_part list \<Rightarrow> content_part list \<times> nat" where
  "degrade_parts placeholders toDegrade [] = ([], toDegrade)"
| "degrade_parts placeholders toDegrade (p # ps) =
     (if toDegrade = 0 \<or> \<not> isDegradableMediaPart p
      then let (qs, n) = degrade_parts placeholders toDegrade ps in (p # qs, n)
      else let (qs, n) = degrade_parts placeholders (toDegrade - 1) ps in (PText (placeholders p) # qs, n))"

fun degrade_messages :: "(content_part \<Rightarrow> string) \<Rightarrow> nat \<Rightarrow> context_message list \<Rightarrow> context_message list" where
  "degrade_messages placeholders toDegrade [] = []"
| "degrade_messages placeholders toDegrade (m # ms) =
     (if toDegrade = 0 \<or> \<not> list_ex isDegradableMediaPart (cm_content m)
      then m # degrade_messages placeholders toDegrade ms
      else let (content, n) = degrade_parts placeholders toDegrade (cm_content m)
           in m\<lparr>cm_content := content\<rparr> # degrade_messages placeholders n ms)"

definition degradeOlderMediaParts ::
  "context_message list \<Rightarrow> nat \<Rightarrow> (content_part \<Rightarrow> string) \<Rightarrow> context_message list" where
  "degradeOlderMediaParts ms keepRecent placeholders =
     (let mediaCount = foldl (\<lambda>count m. count + length (filter isDegradableMediaPart (cm_content m))) 0 ms;
          toDegrade = mediaCount - keepRecent
      in if toDegrade = 0 then ms else degrade_messages placeholders toDegrade ms)"

fun media_container :: "content_part \<Rightarrow> string \<times> string option" where
  "media_container (PImage url i) = (url, i)"
| "media_container (PAudio url i) = (url, i)"
| "media_container (PVideo url i) = (url, i)"
| "media_container _ = ([], None)"

text \<open>\<open>sha256\<close> is the digest of the bytes it is updated with, in hexadecimal.\<close>

definition mediaStripKey :: "(string \<Rightarrow> string) \<Rightarrow> content_part \<Rightarrow> string" where
  "mediaStripKey sha256 part =
     (let (url, i) = media_container part
      in sha256 (part_type part @ [CHR 0x00] @ (case i of None \<Rightarrow> [] | Some x \<Rightarrow> x) @ [CHR 0x00] @ url))"

definition captureMediaStripSnapshot :: "(string \<Rightarrow> string) \<Rightarrow> context_message list \<Rightarrow> string list" where
  "captureMediaStripSnapshot sha256 ms =
     foldl (\<lambda>keys p. if isDegradableMediaPart p then js_set_add (mediaStripKey sha256 p) keys else keys) []
       (concat (map cm_content ms))"

definition strip_part :: "(string \<Rightarrow> string) \<Rightarrow> string list \<Rightarrow> content_part \<Rightarrow> content_part" where
  "strip_part sha256 keys p =
     (if \<not> isDegradableMediaPart p \<or> mediaStripKey sha256 p \<notin> set keys then p
      else PText (MEDIA_STRIPPED_PLACEHOLDERS p))"

text \<open>A message or list without a changed part is returned as it is, which is the same value.\<close>

definition stripMediaPartsBySnapshot ::
  "(string \<Rightarrow> string) \<Rightarrow> context_message list \<Rightarrow> string list \<Rightarrow> context_message list" where
  "stripMediaPartsBySnapshot sha256 ms keys =
     map (\<lambda>m. m\<lparr>cm_content := map (strip_part sha256 keys) (cm_content m)\<rparr>) ms"

section \<open>Reporting repairs\<close>

fun anomaly_kind :: "anomaly \<Rightarrow> string" where
  "anomaly_kind (ToolResultReordered _) = ''tool_result_reordered''"
| "anomaly_kind (ToolResultSynthesized _ _) = ''tool_result_synthesized''"
| "anomaly_kind (OrphanToolResultDropped _) = ''orphan_tool_result_dropped''"
| "anomaly_kind (DuplicateToolCallDropped _) = ''duplicate_tool_call_dropped''"
| "anomaly_kind (DuplicateToolResultDropped _) = ''duplicate_tool_result_dropped''"
| "anomaly_kind (LeadingNonUserDropped _) = ''leading_non_user_dropped''"
| "anomaly_kind ConsecutiveAssistantsMerged = ''consecutive_assistants_merged''"
| "anomaly_kind (WhitespaceTextDropped _) = ''whitespace_text_dropped''"
| "anomaly_kind (VacuousMessageDropped _) = ''vacuous_message_dropped''"

fun anomaly_call :: "anomaly \<Rightarrow> string option" where
  "anomaly_call (ToolResultReordered i) = Some i"
| "anomaly_call (ToolResultSynthesized i _) = Some i"
| "anomaly_call (OrphanToolResultDropped i) = Some i"
| "anomaly_call (DuplicateToolCallDropped i) = Some i"
| "anomaly_call (DuplicateToolResultDropped i) = Some i"
| "anomaly_call _ = None"

definition is_notable :: "anomaly \<Rightarrow> bool" where
  "is_notable a = (case a of ToolResultSynthesized _ trailing \<Rightarrow> \<not> trailing | _ \<Rightarrow> True)"

definition repair_signature :: "anomaly list \<Rightarrow> string" where
  "repair_signature notable =
     join ''|'' (sort (map (\<lambda>a. case anomaly_call a of None \<Rightarrow> anomaly_kind a
                                 | Some i \<Rightarrow> anomaly_kind a @ '':'' @ i) notable))"

record repair_report =
  rp_reordered :: nat
  rp_synthesized :: nat
  rp_droppedOrphan :: nat
  rp_duplicateCallsDropped :: nat
  rp_duplicateResultsDropped :: nat
  rp_leadingDropped :: nat
  rp_assistantsMerged :: nat
  rp_whitespaceDropped :: nat
  rp_vacuousDropped :: nat
  rp_toolCallIds :: "string list"

definition EMPTY_REPORT :: repair_report where
  "EMPTY_REPORT =
     \<lparr>rp_reordered = 0, rp_synthesized = 0, rp_droppedOrphan = 0, rp_duplicateCallsDropped = 0,
      rp_duplicateResultsDropped = 0, rp_leadingDropped = 0, rp_assistantsMerged = 0,
      rp_whitespaceDropped = 0, rp_vacuousDropped = 0, rp_toolCallIds = []\<rparr>"

fun count_anomaly :: "repair_report \<Rightarrow> anomaly \<Rightarrow> repair_report" where
  "count_anomaly r (ToolResultReordered _) = r\<lparr>rp_reordered := rp_reordered r + 1\<rparr>"
| "count_anomaly r (ToolResultSynthesized _ _) = r\<lparr>rp_synthesized := rp_synthesized r + 1\<rparr>"
| "count_anomaly r (OrphanToolResultDropped _) = r\<lparr>rp_droppedOrphan := rp_droppedOrphan r + 1\<rparr>"
| "count_anomaly r (DuplicateToolCallDropped _) = r\<lparr>rp_duplicateCallsDropped := rp_duplicateCallsDropped r + 1\<rparr>"
| "count_anomaly r (DuplicateToolResultDropped _) = r\<lparr>rp_duplicateResultsDropped := rp_duplicateResultsDropped r + 1\<rparr>"
| "count_anomaly r (LeadingNonUserDropped _) = r\<lparr>rp_leadingDropped := rp_leadingDropped r + 1\<rparr>"
| "count_anomaly r ConsecutiveAssistantsMerged = r\<lparr>rp_assistantsMerged := rp_assistantsMerged r + 1\<rparr>"
| "count_anomaly r (VacuousMessageDropped _) = r\<lparr>rp_vacuousDropped := rp_vacuousDropped r + 1\<rparr>"
| "count_anomaly r (WhitespaceTextDropped _) = r\<lparr>rp_whitespaceDropped := rp_whitespaceDropped r + 1\<rparr>"

text \<open>The next \<open>lastRepairSignature\<close>, and the report that is logged and tracked, if any.\<close>

definition reportProjectionRepairs :: "string option \<Rightarrow> anomaly list \<Rightarrow> string option \<times> repair_report option" where
  "reportProjectionRepairs lastRepairSignature anomalies =
     (let notable = filter is_notable anomalies in
      if notable = [] then (None, None)
      else
        let signature = repair_signature notable in
        if lastRepairSignature = Some signature then (lastRepairSignature, None)
        else
          let ids = foldl (\<lambda>ids i. js_set_add i ids) [] (List.map_filter anomaly_call notable)
          in (Some signature, Some ((foldl count_anomaly EMPTY_REPORT notable)\<lparr>rp_toolCallIds := take 5 ids\<rparr>)))"

definition projectWithTrace ::
  "(context_message list \<Rightarrow> projection_error + context_message list \<times> anomaly list) \<Rightarrow> context_message list
     \<Rightarrow> string option \<Rightarrow> projection_error + context_message list \<times> string option \<times> repair_report option" where
  "projectWithTrace fn messages lastRepairSignature =
     (case fn messages of
        Inl e \<Rightarrow> Inl e
      | Inr (result, anomalies) \<Rightarrow> Inr (result, reportProjectionRepairs lastRepairSignature anomalies))"

definition projectMediaDegraded ::
  "context_message list \<Rightarrow> string option
     \<Rightarrow> projection_error + context_message list \<times> string option \<times> repair_report option" where
  "projectMediaDegraded messages lastRepairSignature =
     (case projectWithTrace project messages lastRepairSignature of
        Inl e \<Rightarrow> Inl e
      | Inr (result, rest) \<Rightarrow>
          Inr (degradeOlderMediaParts result MEDIA_DEGRADE_KEEP_RECENT MEDIA_DEGRADED_PLACEHOLDERS, rest))"

definition projectMediaStripped ::
  "(string \<Rightarrow> string) \<Rightarrow> context_message list \<Rightarrow> string list option \<Rightarrow> string option
     \<Rightarrow> projection_error + context_message list \<times> string option \<times> repair_report option" where
  "projectMediaStripped sha256 messages snapshot lastRepairSignature =
     (case projectWithTrace project messages lastRepairSignature of
        Inl e \<Rightarrow> Inl e
      | Inr (projected, rest) \<Rightarrow>
          Inr (stripMediaPartsBySnapshot sha256 projected
                 (case snapshot of None \<Rightarrow> captureMediaStripSnapshot sha256 projected | Some keys \<Rightarrow> keys), rest))"

end
