(* ===== verification/Compaction.thy ===== *)
theory Compaction
  imports ContextMemory
begin

text \<open>
  What a compaction leaves of the history: \<open>compactionHandoff.ts\<close> over the token estimate of
  \<open>llmProtocol/tokens.ts\<close>, and the operation \<open>context.apply_compaction\<close> of \<open>contextOps.ts\<close>. The
  memo table of the estimate is left out: a message does not change. Code units above 255 are not
  represented, so the surrogate branch of the backward truncation is never taken.
\<close>

section \<open>Token estimates\<close>

definition is_ascii :: "char \<Rightarrow> bool" where
  "is_ascii c \<longleftrightarrow> (of_char c :: nat) \<le> 127"

text \<open>\<open>Math.ceil(asciiCount / 4) + nonAsciiCount\<close>.\<close>

definition token_count :: "nat \<Rightarrow> nat \<Rightarrow> int" where
  "token_count asciiCount nonAsciiCount = int ((asciiCount + 3) div 4 + nonAsciiCount)"

fun count_chars :: "string \<Rightarrow> nat \<Rightarrow> nat \<Rightarrow> nat \<times> nat" where
  "count_chars [] a n = (a, n)"
| "count_chars (c # cs) a n = (if is_ascii c then count_chars cs (Suc a) n else count_chars cs a (Suc n))"

definition estimateTokens :: "string \<Rightarrow> int" where
  "estimateTokens text = (let (a, n) = count_chars text 0 0 in token_count a n)"

definition MEDIA_TOKEN_ESTIMATE :: int where "MEDIA_TOKEN_ESTIMATE = 2000"

definition estimateTokensForContentPart :: "content_part \<Rightarrow> int" where
  "estimateTokensForContentPart part =
     (case part of
        PText text \<Rightarrow> estimateTokens text
      | PThink think _ \<Rightarrow> estimateTokens think
      | _ \<Rightarrow> MEDIA_TOKEN_ESTIMATE)"

definition estimateTokensForContentParts :: "content_part list \<Rightarrow> int" where
  "estimateTokensForContentParts parts = foldl (\<lambda>total p. total + estimateTokensForContentPart p) 0 parts"

definition role_name :: "role \<Rightarrow> string" where
  "role_name r = (case r of RSystem \<Rightarrow> ''system'' | RUser \<Rightarrow> ''user'' | RAssistant \<Rightarrow> ''assistant'' | RTool \<Rightarrow> ''tool'')"

text \<open>\<open>JSON.stringify\<close> of a string or \<open>null\<close>.\<close>

definition hex_digit :: "nat \<Rightarrow> char" where
  "hex_digit n = (if n < 10 then char_of (48 + n) else char_of (87 + n))"

definition json_escape :: "char \<Rightarrow> string" where
  "json_escape c =
     (let n = of_char c :: nat in
      if n = 34 then [CHR 0x5C, CHR 0x22] else if n = 92 then [CHR 0x5C, CHR 0x5C]
      else if n = 8 then [CHR 0x5C, CHR ''b''] else if n = 12 then [CHR 0x5C, CHR ''f'']
      else if n = 10 then [CHR 0x5C, CHR ''n''] else if n = 13 then [CHR 0x5C, CHR ''r'']
      else if n = 9 then [CHR 0x5C, CHR ''t'']
      else if n < 32 then [CHR 0x5C, CHR ''u'', CHR ''0'', CHR ''0'', hex_digit (n div 16), hex_digit (n mod 16)]
      else [c])"

definition stringify_text :: "string option \<Rightarrow> string" where
  "stringify_text s =
     (case s of None \<Rightarrow> ''null'' | Some t \<Rightarrow> CHR 0x22 # concat (map json_escape t) @ [CHR 0x22])"

definition estimateTokensForMessage :: "context_message \<Rightarrow> int" where
  "estimateTokensForMessage m =
     foldl (\<lambda>total call. total + estimateTokens (call_name call) + estimateTokens (stringify_text (call_arguments call)))
       (estimateTokens (role_name (cm_role m)) + estimateTokensForContentParts (cm_content m)) (cm_toolCalls m)"

definition estimateTokensForMessages :: "context_message list \<Rightarrow> int" where
  "estimateTokensForMessages ms = foldl (\<lambda>total m. total + estimateTokensForMessage m) 0 ms"

section \<open>Which user messages are kept\<close>

definition COMPACT_USER_MESSAGE_MAX_TOKENS :: int where "COMPACT_USER_MESSAGE_MAX_TOKENS = 20000"
definition COMPACT_USER_MESSAGE_HEAD_TOKENS :: int where "COMPACT_USER_MESSAGE_HEAD_TOKENS = 2000"
definition COMPACTION_ELISION_VARIANT :: string where "COMPACTION_ELISION_VARIANT = ''compaction_elision''"

definition keeps_origin :: "prompt_origin option \<Rightarrow> bool" where
  "keeps_origin origin =
     (case origin of
        None \<Rightarrow> True
      | Some OrgUser \<Rightarrow> True
      | Some (OrgSkillActivation _ _ _ t _ _ _) \<Rightarrow> t = UserSlash
      | Some (OrgPluginCommand _ _ _ _ t) \<Rightarrow> t = UserSlash
      | _ \<Rightarrow> False)"

definition isCompactionSummaryMessage :: "context_message \<Rightarrow> bool" where
  "isCompactionSummaryMessage m \<longleftrightarrow> cm_origin m = Some OrgCompactionSummary"

definition isRealUserInput :: "context_message \<Rightarrow> bool" where
  "isRealUserInput m \<longleftrightarrow> cm_role m = RUser \<and> keeps_origin (cm_origin m)"

definition collectCompactableUserMessages :: "context_message list \<Rightarrow> context_message list" where
  "collectCompactableUserMessages ms = filter (\<lambda>m. isRealUserInput m \<and> \<not> isCompactionSummaryMessage m) ms"

fun extractText :: "content_part list \<Rightarrow> string" where
  "extractText [] = []"
| "extractText (p # ps) = (case p of PText t \<Rightarrow> t | _ \<Rightarrow> []) @ extractText ps"

definition replaceMessageText :: "context_message \<Rightarrow> string \<Rightarrow> context_message" where
  "replaceMessageText m text = m\<lparr>cm_content := [PText text], cm_toolCalls := []\<rparr>"

text \<open>The scan from the front; its result is the text up to \<open>end\<close>.\<close>

fun scan_front :: "string \<Rightarrow> nat \<Rightarrow> nat \<Rightarrow> int \<Rightarrow> string" where
  "scan_front [] a n maxTokens = []"
| "scan_front (c # cs) a n maxTokens =
     (let a2 = (if is_ascii c then Suc a else a); n2 = (if is_ascii c then n else Suc n)
      in if maxTokens < token_count a2 n2 then [] else c # scan_front cs a2 n2 maxTokens)"

definition truncateTextToTokens :: "string \<Rightarrow> int \<Rightarrow> string" where
  "truncateTextToTokens text maxTokens = (if maxTokens \<le> 0 then [] else scan_front text 0 0 maxTokens)"

text \<open>The scan from the back is the same one on the reversed text.\<close>

definition truncateTextToTokensFromEnd :: "string \<Rightarrow> int \<Rightarrow> string" where
  "truncateTextToTokensFromEnd text maxTokens =
     (if maxTokens \<le> 0 then [] else rev (scan_front (rev text) 0 0 maxTokens))"

definition truncateUserMessage :: "context_message \<Rightarrow> int \<Rightarrow> context_message" where
  "truncateUserMessage m maxTokens = replaceMessageText m (truncateTextToTokens (extractText (cm_content m)) maxTokens)"

text \<open>The backward loop of \<open>selectRecentUserMessages\<close>; the messages are taken last first.\<close>

fun recent_loop :: "context_message list \<Rightarrow> int \<Rightarrow> context_message list \<Rightarrow> context_message list" where
  "recent_loop [] remaining selected = selected"
| "recent_loop (m # older) remaining selected =
     (if remaining \<le> 0 then selected
      else let tokens = estimateTokensForMessage m in
        if tokens \<le> remaining then recent_loop older (remaining - tokens) (selected @ [m])
        else selected @ [truncateUserMessage m remaining])"

definition selectRecentUserMessages :: "context_message list \<Rightarrow> int \<Rightarrow> context_message list" where
  "selectRecentUserMessages ms maxTokens = rev (recent_loop (rev ms) maxTokens [])"

record compaction_selection =
  sel_head :: "context_message list"
  sel_tail :: "context_message list"
  sel_elided :: bool
  sel_omittedTokens :: int

text \<open>
  The backward loop over the tail: the result is \<open>tail\<close> in the order it was pushed,
  \<open>headEndExclusive\<close> and the dropped prefix of the message at the boundary.
\<close>

fun tail_loop :: "context_message list \<Rightarrow> nat \<Rightarrow> int \<Rightarrow> context_message list
    \<Rightarrow> context_message list \<times> nat \<times> context_message option" where
  "tail_loop ms 0 remaining tail = (tail, 0, None)"
| "tail_loop ms (Suc i) remaining tail =
     (if remaining \<le> 0 then (tail, Suc i, None)
      else
        let m = ms ! i; tokens = estimateTokensForMessage m in
        if tokens \<le> remaining then tail_loop ms i (remaining - tokens) (tail @ [m])
        else
          let fullText = extractText (cm_content m);
              keptSuffix = truncateTextToTokensFromEnd fullText remaining;
              droppedPrefix = take (length fullText - length keptSuffix) fullText
          in (tail @ [replaceMessageText m keptSuffix], i,
              if droppedPrefix \<noteq> [] then Some (replaceMessageText m droppedPrefix) else None))"

fun head_loop :: "context_message list \<Rightarrow> int \<Rightarrow> context_message list \<Rightarrow> context_message list" where
  "head_loop [] remaining head = head"
| "head_loop (m # ms) remaining head =
     (if remaining \<le> 0 then head
      else let tokens = estimateTokensForMessage m in
        if tokens \<le> remaining then head_loop ms (remaining - tokens) (head @ [m])
        else head @ [truncateUserMessage m remaining])"

definition selectCompactionUserMessages :: "context_message list \<Rightarrow> int \<Rightarrow> int \<Rightarrow> compaction_selection" where
  "selectCompactionUserMessages ms maxTokens headTokens =
     (let totalTokens = estimateTokensForMessages ms in
      if totalTokens \<le> maxTokens
      then \<lparr>sel_head = [], sel_tail = ms, sel_elided = False, sel_omittedTokens = 0\<rparr>
      else
        let headBudget = min (max headTokens 0) maxTokens;
            tailBudget = maxTokens - headBudget;
            (tail0, headEndExclusive, boundary) = tail_loop ms (length ms) tailBudget [];
            tail = rev tail0;
            headCandidates = take headEndExclusive ms @ (case boundary of None \<Rightarrow> [] | Some m \<Rightarrow> [m]);
            head = head_loop headCandidates headBudget [];
            keptTokens = estimateTokensForMessages head + estimateTokensForMessages tail
        in \<lparr>sel_head = head, sel_tail = tail, sel_elided = True,
            sel_omittedTokens = max 0 (totalTokens - keptTokens)\<rparr>)"

section \<open>The handoff\<close>

definition createCompactionSummaryMessage :: "string \<Rightarrow> context_message" where
  "createCompactionSummaryMessage text =
     (plain_message RUser [PText text])\<lparr>cm_origin := Some OrgCompactionSummary\<rparr>"

definition buildCompactionElisionText :: "int \<Rightarrow> string" where
  "buildCompactionElisionText omittedTokens =
     ''<system-reminder>'' @ [CHR 0x0A]
     @ ''Some of this conversation'' @ [CHR 0x27] @ ''s user messages were omitted here during compaction: the messages above this note are the oldest user input, the messages below are the most recent, and roughly ''
     @ int_str omittedTokens @ '' tokens in between were dropped. The omitted content is covered by the compaction summary at the end of the conversation.''
     @ [CHR 0x0A] @ ''</system-reminder>''"

definition createCompactionElisionMessage :: "int \<Rightarrow> context_message" where
  "createCompactionElisionMessage omittedTokens =
     (plain_message RUser [PText (buildCompactionElisionText omittedTokens)])
       \<lparr>cm_origin := Some (OrgInjection COMPACTION_ELISION_VARIANT None)\<rparr>"

record compaction_input =
  ci_summary :: string
  ci_contextSummary :: "string option"
  ci_compactedCount :: int
  ci_tokensBefore :: int
  ci_tokensAfter :: "int option"
  ci_droppedCount :: "int option"

record compaction_shape =
  sh_summary :: string
  sh_contextSummary :: string
  sh_compactedCount :: int
  sh_tokensBefore :: int
  sh_tokensAfter :: int
  sh_keptUserMessageCount :: nat
  sh_keptHeadUserMessageCount :: "nat option"
  sh_droppedCount :: "int option"
  sh_messages :: "context_message list"

definition buildContextCompactionShape :: "context_message list \<Rightarrow> compaction_input \<Rightarrow> compaction_shape" where
  "buildContextCompactionShape history input =
     (let selection = selectCompactionUserMessages (collectCompactableUserMessages history)
            COMPACT_USER_MESSAGE_MAX_TOKENS COMPACT_USER_MESSAGE_HEAD_TOKENS;
          keptMessages = sel_head selection
            @ (if sel_elided selection then [createCompactionElisionMessage (sel_omittedTokens selection)] else [])
            @ sel_tail selection;
          contextSummary = (case ci_contextSummary input of Some c \<Rightarrow> c | None \<Rightarrow> ci_summary input)
      in \<lparr>sh_summary = ci_summary input, sh_contextSummary = contextSummary,
          sh_compactedCount = ci_compactedCount input, sh_tokensBefore = ci_tokensBefore input,
          sh_tokensAfter = (case ci_tokensAfter input of Some t \<Rightarrow> t
             | None \<Rightarrow> estimateTokens contextSummary + estimateTokensForMessages keptMessages),
          sh_keptUserMessageCount = length (sel_head selection) + length (sel_tail selection),
          sh_keptHeadUserMessageCount = (if sel_elided selection then Some (length (sel_head selection)) else None),
          sh_droppedCount = ci_droppedCount input,
          sh_messages = keptMessages @ [createCompactionSummaryMessage contextSummary]\<rparr>)"

definition contextApplyCompaction :: "compaction_input \<Rightarrow> context_state \<Rightarrow> context_state" where
  "contextApplyCompaction input s = resetFold (sh_messages (buildContextCompactionShape (cs_messages s) input))"

section \<open>Budgets\<close>

lemma count_chars_eq:
  "count_chars cs a n = (a + length (filter is_ascii cs), n + length (filter (\<lambda>c. \<not> is_ascii c) cs))"
  by (induction cs a n rule: count_chars.induct) auto

lemma estimateTokens_rev [simp]: "estimateTokens (rev cs) = estimateTokens cs"
  by (simp add: estimateTokens_def count_chars_eq rev_filter [symmetric])

lemma estimateTokens_nonneg: "0 \<le> estimateTokens text"
  by (simp add: estimateTokens_def token_count_def split: prod.split)

lemma scan_front_budget:
  "token_count a n \<le> maxTokens \<Longrightarrow>
   (case count_chars (scan_front cs a n maxTokens) a n of (a2, n2) \<Rightarrow> token_count a2 n2 \<le> maxTokens)"
  by (induction cs arbitrary: a n) (auto simp: Let_def not_less)

lemma scan_front_prefix: "\<exists>rest. cs = scan_front cs a n maxTokens @ rest"
  by (induction cs arbitrary: a n) (auto simp: Let_def)

lemma truncate_front_budget: "0 \<le> maxTokens \<Longrightarrow> estimateTokens (truncateTextToTokens text maxTokens) \<le> maxTokens"
  using scan_front_budget [of 0 0 maxTokens "text"]
  by (auto simp: truncateTextToTokens_def estimateTokens_def token_count_def split: prod.splits)

lemma truncate_end_budget: "0 \<le> maxTokens \<Longrightarrow> estimateTokens (truncateTextToTokensFromEnd text maxTokens) \<le> maxTokens"
  using scan_front_budget [of 0 0 maxTokens "rev text"]
  by (auto simp: truncateTextToTokensFromEnd_def)
    (auto simp: estimateTokens_def token_count_def split: prod.splits)

lemma truncate_front_prefix: "\<exists>rest. text = truncateTextToTokens text maxTokens @ rest"
  using scan_front_prefix by (auto simp: truncateTextToTokens_def)

lemma truncate_end_suffix: "\<exists>front. text = front @ truncateTextToTokensFromEnd text maxTokens"
proof (cases "maxTokens \<le> 0")
  case False
  obtain rest where "rev text = scan_front (rev text) 0 0 maxTokens @ rest" using scan_front_prefix by blast
  then have "text = rev rest @ rev (scan_front (rev text) 0 0 maxTokens)"
    by (metis rev_append rev_rev_ident)
  with False show ?thesis by (auto simp: truncateTextToTokensFromEnd_def)
qed (simp add: truncateTextToTokensFromEnd_def)

lemma user_role_tokens [simp]: "estimateTokens ''user'' = 1"
  by (simp add: estimateTokens_def token_count_def is_ascii_def)

lemma replaced_tokens:
  "cm_role m = RUser \<Longrightarrow> estimateTokensForMessage (replaceMessageText m text) = 1 + estimateTokens text"
  by (simp add: estimateTokensForMessage_def replaceMessageText_def role_name_def
      estimateTokensForContentParts_def estimateTokensForContentPart_def)

lemma messages_tokens_fold:
  "foldl (\<lambda>total m. total + estimateTokensForMessage m) t ms = t + sum_list (map estimateTokensForMessage ms)"
  by (induction ms arbitrary: t) auto

lemma messages_tokens: "estimateTokensForMessages ms = sum_list (map estimateTokensForMessage ms)"
  by (simp add: estimateTokensForMessages_def messages_tokens_fold)

definition users_only :: "context_message list \<Rightarrow> bool" where
  "users_only ms \<longleftrightarrow> (\<forall>m \<in> set ms. cm_role m = RUser)"

lemma head_loop_budget:
  "users_only ms \<Longrightarrow> 0 \<le> remaining \<Longrightarrow>
   estimateTokensForMessages (head_loop ms remaining head) \<le> estimateTokensForMessages head + remaining + 1"
proof (induction ms remaining head rule: head_loop.induct)
  case (2 m ms remaining head)
  then have m: "cm_role m = RUser" and ms: "users_only ms" by (simp_all add: users_only_def)
  have "estimateTokensForMessage (truncateUserMessage m remaining) \<le> 1 + remaining"
    using truncate_front_budget [OF 2(3)] m by (simp add: truncateUserMessage_def replaced_tokens)
  then show ?case using 2 ms by (auto simp: Let_def messages_tokens)
qed (simp add: messages_tokens)

lemma tail_loop_budget:
  "users_only ms \<Longrightarrow> i \<le> length ms \<Longrightarrow> 0 \<le> remaining \<Longrightarrow>
   estimateTokensForMessages (fst (tail_loop ms i remaining tail)) \<le> estimateTokensForMessages tail + remaining + 1"
proof (induction ms i remaining tail rule: tail_loop.induct)
  case (2 ms i remaining tail)
  then have m: "cm_role (ms ! i) = RUser" by (simp add: users_only_def)
  have "estimateTokensForMessage (replaceMessageText (ms ! i)
      (truncateTextToTokensFromEnd (extractText (cm_content (ms ! i))) remaining)) \<le> 1 + remaining"
    using truncate_end_budget [OF 2(4)] m by (simp add: replaced_tokens)
  then show ?case using 2 by (auto simp: Let_def messages_tokens)
qed (simp add: messages_tokens)

section \<open>Texts\<close>

definition texts :: "context_message list \<Rightarrow> string" where
  "texts ms = concat (map (\<lambda>m. extractText (cm_content m)) ms)"

lemma texts_Nil [simp]: "texts [] = []"
  by (simp add: texts_def)

lemma texts_append [simp]: "texts (xs @ ys) = texts xs @ texts ys"
  by (simp add: texts_def)

lemma extractText_replaced [simp]: "extractText (cm_content (replaceMessageText m t)) = t"
  by (simp add: replaceMessageText_def)

lemma texts_Cons: "texts (m # ms) = extractText (cm_content m) @ texts ms"
  by (simp add: texts_def)

lemma head_loop_text: "\<exists>rest. texts head @ texts ms = texts (head_loop ms remaining head) @ rest"
proof (induction ms remaining head rule: head_loop.induct)
  case (2 m ms remaining head)
  obtain rest where "extractText (cm_content m) = truncateTextToTokens (extractText (cm_content m)) remaining @ rest"
    using truncate_front_prefix by blast
  then have "texts head @ texts (m # ms) =
      texts (head @ [truncateUserMessage m remaining]) @ rest @ texts ms"
    by (simp add: texts_Cons truncateUserMessage_def)
  moreover have "texts head @ texts (m # ms) = texts (head @ [m]) @ texts ms" by (simp add: texts_def)
  ultimately show ?case using 2 by (auto simp: Let_def)
qed simp

lemma tail_loop_text:
  assumes "i \<le> length ms"
  shows "case tail_loop ms i remaining tail of (tail2, hend, boundary) \<Rightarrow>
    texts (take hend ms @ (case boundary of None \<Rightarrow> [] | Some m \<Rightarrow> [m])) @ texts (rev tail2)
      = texts (take i ms) @ texts (rev tail)"
  using assms
proof (induction ms i remaining tail rule: tail_loop.induct)
  case (2 ms i remaining tail)
  let ?m = "ms ! i"
  let ?full = "extractText (cm_content ?m)"
  let ?kept = "truncateTextToTokensFromEnd ?full remaining"
  have step: "take (Suc i) ms = take i ms @ [?m]" using 2(2) by (simp add: take_Suc_conv_app_nth)
  obtain front where front: "?full = front @ ?kept" using truncate_end_suffix by blast
  then have "take (length ?full - length ?kept) ?full = front"
    by (metis append_eq_conv_conj diff_add_inverse2 length_append)
  then show ?case using 2 step front by (auto simp: Let_def texts_Cons)
qed simp

lemma tail_loop_boundary:
  "users_only ms \<Longrightarrow> i \<le> length ms \<Longrightarrow> snd (snd (tail_loop ms i remaining tail)) = Some m \<Longrightarrow> cm_role m = RUser"
proof (induction ms i remaining tail rule: tail_loop.induct)
  case (2 ms i remaining tail)
  then have "cm_role (ms ! i) = RUser" by (simp add: users_only_def)
  with 2 show ?case by (simp add: Let_def replaceMessageText_def split: if_splits) auto
qed simp

lemma selection_effect:
  assumes "users_only ms" "0 \<le> maxTokens"
  shows "let sel = selectCompactionUserMessages ms maxTokens headTokens in
    estimateTokensForMessages (sel_head sel) + estimateTokensForMessages (sel_tail sel) \<le> maxTokens + 2
    \<and> (\<exists>mid. texts ms = texts (sel_head sel) @ mid @ texts (sel_tail sel))"
proof (cases "estimateTokensForMessages ms \<le> maxTokens")
  case True
  then show ?thesis using assms(2) by (simp add: selectCompactionUserMessages_def texts_def messages_tokens)
next
  case False
  let ?hb = "min (max headTokens 0) maxTokens"
  obtain tail0 hend boundary where t: "tail_loop ms (length ms) (maxTokens - ?hb) [] = (tail0, hend, boundary)"
    by (metis prod_cases3)
  let ?cand = "take hend ms @ (case boundary of None \<Rightarrow> [] | Some m \<Rightarrow> [m])"
  have users: "users_only ?cand"
  proof -
    have "\<forall>m. boundary = Some m \<longrightarrow> cm_role m = RUser"
      using tail_loop_boundary [OF assms(1) order_refl, of "maxTokens - ?hb" "[]"] t by simp
    then show ?thesis using assms(1)
      by (auto simp: users_only_def dest: in_set_takeD split: option.splits)
  qed
  have "estimateTokensForMessages (head_loop ?cand ?hb []) \<le> ?hb + 1"
    using head_loop_budget [OF users, of ?hb "[]"] assms(2) by (simp add: messages_tokens)
  moreover have "estimateTokensForMessages (rev tail0) \<le> maxTokens - ?hb + 1"
    using tail_loop_budget [OF assms(1), of "length ms" "maxTokens - ?hb" "[]"] t
    by (simp add: messages_tokens rev_map [symmetric] sum_list_rev)
  moreover have all: "texts ?cand @ texts (rev tail0) = texts ms"
    using tail_loop_text [where i = "length ms" and ms = ms and remaining = "maxTokens - ?hb" and tail = "[]"] t by (simp add: texts_def)
  moreover obtain rest where front: "texts ?cand = texts (head_loop ?cand ?hb []) @ rest"
    using head_loop_text [where head = "[]" and ms = ?cand and remaining = ?hb] by (auto simp: texts_def)
  ultimately have "estimateTokensForMessages (head_loop ?cand ?hb []) + estimateTokensForMessages (rev tail0) \<le> maxTokens + 2"
    by simp
  moreover have "texts ms = texts (head_loop ?cand ?hb []) @ rest @ texts (rev tail0)"
    by (simp only: all [symmetric] front append_assoc)
  ultimately show ?thesis
    using False t by (auto simp: selectCompactionUserMessages_def Let_def)
qed

text \<open>What is kept is real user input: the loops keep a message, or its text under the same origin.\<close>

definition real_inputs :: "context_message list \<Rightarrow> bool" where
  "real_inputs ms \<longleftrightarrow> (\<forall>m \<in> set ms. isRealUserInput m \<and> \<not> isCompactionSummaryMessage m)"

lemma replaced_real [simp]:
  "isRealUserInput (replaceMessageText m t) = isRealUserInput m"
  "isCompactionSummaryMessage (replaceMessageText m t) = isCompactionSummaryMessage m"
  by (simp_all add: isRealUserInput_def isCompactionSummaryMessage_def replaceMessageText_def)

lemma head_loop_keeps:
  assumes P: "\<And>m t. P m \<Longrightarrow> P (replaceMessageText m t)"
  shows "\<forall>m \<in> set ms. P m \<Longrightarrow> \<forall>m \<in> set head. P m \<Longrightarrow> \<forall>m \<in> set (head_loop ms remaining head). P m"
  by (induction ms remaining head rule: head_loop.induct) (auto simp: Let_def truncateUserMessage_def P)

lemma tail_loop_keeps:
  assumes P: "\<And>m t. P m \<Longrightarrow> P (replaceMessageText m t)"
  shows "\<forall>m \<in> set ms. P m \<Longrightarrow> \<forall>m \<in> set tail. P m \<Longrightarrow> i \<le> length ms \<Longrightarrow>
   (case tail_loop ms i remaining tail of (tail2, _, boundary) \<Rightarrow>
      (\<forall>m \<in> set tail2. P m) \<and> (\<forall>m \<in> set (case boundary of None \<Rightarrow> [] | Some m \<Rightarrow> [m]). P m))"
proof (induction ms i remaining tail rule: tail_loop.induct)
  case (2 ms i remaining tail)
  then have "P (ms ! i)" by simp
  with 2 show ?case by (auto simp: Let_def P)
qed simp

lemma selection_keeps:
  assumes P: "\<And>m t. P m \<Longrightarrow> P (replaceMessageText m t)" and ms: "\<forall>m \<in> set ms. P m"
  shows "(\<forall>m \<in> set (sel_head (selectCompactionUserMessages ms maxTokens headTokens)). P m)
    \<and> (\<forall>m \<in> set (sel_tail (selectCompactionUserMessages ms maxTokens headTokens)). P m)"
proof (cases "estimateTokensForMessages ms \<le> maxTokens")
  case True
  then show ?thesis using ms by (simp add: selectCompactionUserMessages_def)
next
  case False
  let ?hb = "min (max headTokens 0) maxTokens"
  obtain tail0 hend boundary where t: "tail_loop ms (length ms) (maxTokens - ?hb) [] = (tail0, hend, boundary)"
    by (metis prod_cases3)
  let ?cand = "take hend ms @ (case boundary of None \<Rightarrow> [] | Some m \<Rightarrow> [m])"
  have tl: "\<forall>m \<in> set tail0. P m" "\<forall>m \<in> set (case boundary of None \<Rightarrow> [] | Some m \<Rightarrow> [m]). P m"
    using tail_loop_keeps [of P ms "[]" "length ms" "maxTokens - ?hb", OF P ms] t by simp_all
  then have "\<forall>m \<in> set ?cand. P m" using ms by (auto dest: in_set_takeD)
  then have "\<forall>m \<in> set (head_loop ?cand ?hb []). P m" using head_loop_keeps [of P ?cand "[]" ?hb, OF P] by simp
  then show ?thesis using False t tl by (simp add: selectCompactionUserMessages_def Let_def)
qed

lemma selection_real:
  "real_inputs ms \<Longrightarrow> real_inputs (sel_head (selectCompactionUserMessages ms maxTokens headTokens))
    \<and> real_inputs (sel_tail (selectCompactionUserMessages ms maxTokens headTokens))"
  unfolding real_inputs_def by (rule selection_keeps) simp_all

lemma collect_real: "real_inputs ms \<Longrightarrow> collectCompactableUserMessages ms = ms"
  by (simp add: collectCompactableUserMessages_def real_inputs_def)

lemma collected_real: "real_inputs (collectCompactableUserMessages ms)"
  by (simp add: collectCompactableUserMessages_def real_inputs_def)

lemma compaction_messages:
  "\<exists>head tail elision.
     cs_messages (contextApplyCompaction input s) =
       head @ elision @ tail @ [createCompactionSummaryMessage
         (case ci_contextSummary input of Some c \<Rightarrow> c | None \<Rightarrow> ci_summary input)]
     \<and> real_inputs head \<and> real_inputs tail
     \<and> (elision = [] \<or> (\<exists>n. elision = [createCompactionElisionMessage n]))
     \<and> estimateTokensForMessages (head @ tail) \<le> COMPACT_USER_MESSAGE_MAX_TOKENS + 2
     \<and> (\<exists>mid. texts (collectCompactableUserMessages (cs_messages s)) = texts head @ mid @ texts tail)"
proof -
  let ?ms = "collectCompactableUserMessages (cs_messages s)"
  let ?sel = "selectCompactionUserMessages ?ms COMPACT_USER_MESSAGE_MAX_TOKENS COMPACT_USER_MESSAGE_HEAD_TOKENS"
  have users: "users_only ?ms"
    by (auto simp: users_only_def collectCompactableUserMessages_def isRealUserInput_def)
  have eff: "estimateTokensForMessages (sel_head ?sel @ sel_tail ?sel) \<le> COMPACT_USER_MESSAGE_MAX_TOKENS + 2"
      "\<exists>mid. texts ?ms = texts (sel_head ?sel) @ mid @ texts (sel_tail ?sel)"
    using selection_effect [OF users, of COMPACT_USER_MESSAGE_MAX_TOKENS COMPACT_USER_MESSAGE_HEAD_TOKENS]
    by (simp_all add: Let_def messages_tokens COMPACT_USER_MESSAGE_MAX_TOKENS_def)
  have "cs_messages (contextApplyCompaction input s) =
      sel_head ?sel @ (if sel_elided ?sel then [createCompactionElisionMessage (sel_omittedTokens ?sel)] else [])
      @ sel_tail ?sel @ [createCompactionSummaryMessage
         (case ci_contextSummary input of Some c \<Rightarrow> c | None \<Rightarrow> ci_summary input)]"
    by (simp add: contextApplyCompaction_def buildContextCompactionShape_def resetFold_def Let_def)
  then show ?thesis
    using eff selection_real [OF collected_real, of "cs_messages s"]
    by (intro exI [of _ "sel_head ?sel"] exI [of _ "sel_tail ?sel"]
        exI [of _ "if sel_elided ?sel then [createCompactionElisionMessage (sel_omittedTokens ?sel)] else []"]) auto
qed

end
