(* ===== verification/ContextUndo.thy ===== *)
theory ContextUndo
  imports Compaction
begin

text \<open>
  Undoing prompts: the wire operations of \<open>contextOps.ts\<close> that cut the history
  (\<open>context.undo\<close>, \<open>context.clear\<close>, the swarm reminder's removal) and the checkpointed models of
  \<open>conversationTime.ts\<close> that are rolled back with it. The offloading of large content
  (\<open>dehydrate\<close> and \<open>rehydrate\<close>) is storage and left out.
\<close>

section \<open>The conversation clock (\<open>conversationTime.ts\<close>)\<close>

definition isUndoAnchor :: "context_message \<Rightarrow> bool" where
  "isUndoAnchor m \<longleftrightarrow>
     cm_role m = RUser \<and>
     (case cm_origin m of
        None \<Rightarrow> True
      | Some OrgUser \<Rightarrow> True
      | Some (OrgSkillActivation _ _ _ t _ _ _) \<Rightarrow> t = UserSlash
      | Some (OrgPluginCommand _ _ _ _ t) \<Rightarrow> t = UserSlash
      | _ \<Rightarrow> False)"

definition is_injection :: "context_message \<Rightarrow> bool" where
  "is_injection m = (case cm_origin m of Some (OrgInjection _ _) \<Rightarrow> True | _ \<Rightarrow> False)"

definition isPromptOwnedInjection :: "context_message \<Rightarrow> context_message \<Rightarrow> bool" where
  "isPromptOwnedInjection m prompt =
     (case cm_origin m of Some (OrgInjection _ (Some owner)) \<Rightarrow> cm_id prompt = Some owner | _ \<Rightarrow> False)"

definition isValidUndoCount :: "int \<Rightarrow> bool" where
  "isValidUndoCount count \<longleftrightarrow> count \<le> 9007199254740991 \<and> 0 < count"

record 't checkpointed =
  cp_current :: 't
  cp_checkpoints :: "'t list"

text \<open>
  The reducers of \<open>defineCheckpointedModel\<close>. A reducer that finds nothing to change returns the
  state it was given, which is the same value.
\<close>

definition cp_append :: "('t \<Rightarrow> context_message \<Rightarrow> 't) option \<Rightarrow> context_message \<Rightarrow> 't checkpointed \<Rightarrow> 't checkpointed" where
  "cp_append onAppendMessage m st =
     (if isUndoAnchor m then st\<lparr>cp_checkpoints := cp_checkpoints st @ [cp_current st]\<rparr>
      else (case onAppendMessage of None \<Rightarrow> st | Some f \<Rightarrow> st\<lparr>cp_current := f (cp_current st) m\<rparr>))"

definition cp_compaction :: "'t checkpointed \<Rightarrow> 't checkpointed" where
  "cp_compaction st = (if cp_checkpoints st = [] then st else st\<lparr>cp_checkpoints := []\<rparr>)"

definition cp_clear :: "'t checkpointed \<Rightarrow> 't checkpointed" where
  "cp_clear st = (if cp_checkpoints st = [] then st else st\<lparr>cp_checkpoints := []\<rparr>)"

definition cp_undo :: "int \<Rightarrow> 't checkpointed \<Rightarrow> 't checkpointed" where
  "cp_undo count st =
     (if \<not> isValidUndoCount count \<or> int (length (cp_checkpoints st)) < count then st
      else let i = nat (int (length (cp_checkpoints st)) - count)
           in \<lparr>cp_current = cp_checkpoints st ! i, cp_checkpoints = take i (cp_checkpoints st)\<rparr>)"

section \<open>Cutting the history (\<open>contextOps.ts\<close>)\<close>

definition popSwarmModeReminder :: "context_state \<Rightarrow> context_state" where
  "popSwarmModeReminder s =
     (case rev (cs_messages s) of
        [] \<Rightarrow> s
      | m # _ \<Rightarrow>
          (case cm_origin m of
             Some (OrgInjection variant _) \<Rightarrow>
               if variant = ''swarm_mode'' then resetFold (butlast (cs_messages s)) else s
           | _ \<Rightarrow> s))"

definition contextClear :: "context_state \<Rightarrow> context_state" where
  "contextClear s = (if cs_messages s = [] then s else resetFold [])"

record undo_cut =
  uc_cutIndex :: int
  uc_removedCount :: int
  uc_stoppedAtCompaction :: bool

text \<open>The inner \<open>while\<close>, and the backward \<open>for\<close> at \<open>i = n - 1\<close>.\<close>

fun own_loop :: "context_message list \<Rightarrow> nat \<Rightarrow> context_message \<Rightarrow> nat" where
  "own_loop state 0 prompt = 0"
| "own_loop state (Suc c) prompt =
     (if isPromptOwnedInjection (state ! c) prompt then own_loop state c prompt else Suc c)"

fun undo_loop :: "context_message list \<Rightarrow> nat \<Rightarrow> int \<Rightarrow> undo_cut \<Rightarrow> undo_cut" where
  "undo_loop state 0 remaining uc = uc"
| "undo_loop state (Suc i) remaining uc =
     (if remaining \<le> 0 then uc
      else let m = state ! i in
        if is_injection m then undo_loop state i remaining uc
        else if isCompactionSummaryMessage m then uc\<lparr>uc_stoppedAtCompaction := True\<rparr>
        else if isUndoAnchor m
        then undo_loop state i (remaining - 1)
               (uc\<lparr>uc_removedCount := uc_removedCount uc + 1, uc_cutIndex := int (own_loop state i m)\<rparr>)
        else undo_loop state i remaining uc)"

definition computeUndoCut :: "context_message list \<Rightarrow> int \<Rightarrow> undo_cut" where
  "computeUndoCut state count =
     undo_loop state (length state) count
       \<lparr>uc_cutIndex = -1, uc_removedCount = 0, uc_stoppedAtCompaction = False\<rparr>"

definition isFullyUndoable :: "undo_cut \<Rightarrow> int \<Rightarrow> bool" where
  "isFullyUndoable uc count \<longleftrightarrow> 0 \<le> uc_cutIndex uc \<and> count \<le> uc_removedCount uc"

datatype undo_unavailable = UndoEmpty | UndoCompactionBoundary | UndoInsufficient | UndoCheckpointLost

datatype undo_precheck = UndoOk | UndoNotOk undo_unavailable int int

definition precheckUndo :: "context_message list \<Rightarrow> int \<Rightarrow> undo_precheck" where
  "precheckUndo history count =
     (let uc = computeUndoCut history count in
      if isFullyUndoable uc count then UndoOk
      else UndoNotOk
        (if uc_stoppedAtCompaction uc then UndoCompactionBoundary
         else if uc_removedCount uc = 0 then UndoEmpty else UndoInsufficient)
        count (uc_removedCount uc))"

definition formatUndoUnavailableMessage :: "undo_unavailable \<Rightarrow> int \<Rightarrow> int \<Rightarrow> string" where
  "formatUndoUnavailableMessage reason requested undoable =
     (case reason of
        UndoEmpty \<Rightarrow> ''Nothing to undo: no user message to undo''
      | UndoCompactionBoundary \<Rightarrow> ''Nothing to undo: would cross a compaction boundary''
      | UndoInsufficient \<Rightarrow> ''Nothing to undo: only '' @ int_str undoable @ '' of '' @ int_str requested
          @ '' requested turn(s) available''
      | UndoCheckpointLost \<Rightarrow> ''Nothing to undo: conversation state checkpoints are incomplete'')"

definition contextUndo :: "int \<Rightarrow> context_state \<Rightarrow> context_state" where
  "contextUndo count s =
     (if \<not> isValidUndoCount count \<or> cs_messages s = [] then s
      else let uc = computeUndoCut (cs_messages s) count in
        if \<not> isFullyUndoable uc count then s
        else resetFold (take (nat (uc_cutIndex uc)) (cs_messages s)))"

section \<open>What the loop cuts\<close>

text \<open>The prompts that can be undone, counted from the end of the history (given last first).\<close>

fun undoable :: "context_message list \<Rightarrow> nat" where
  "undoable [] = 0"
| "undoable (m # older) =
     (if is_injection m then undoable older
      else if isCompactionSummaryMessage m then 0
      else if isUndoAnchor m then Suc (undoable older) else undoable older)"

lemma owned_is_injection: "isPromptOwnedInjection m p \<Longrightarrow> is_injection m"
  by (simp add: isPromptOwnedInjection_def is_injection_def split: option.splits prompt_origin.splits)

lemma anchor_not_injection: "isUndoAnchor m \<Longrightarrow> \<not> is_injection m \<and> \<not> isCompactionSummaryMessage m"
  by (auto simp: isUndoAnchor_def is_injection_def isCompactionSummaryMessage_def
      split: option.splits prompt_origin.splits)

lemma rev_take_Suc: "i < length ms \<Longrightarrow> rev (take (Suc i) ms) = ms ! i # rev (take i ms)"
  by (simp add: take_Suc_conv_app_nth)

lemma own_loop_le: "own_loop ms c p \<le> c"
  by (induction c) auto

lemma own_loop_undoable: "c \<le> length ms \<Longrightarrow> undoable (rev (take (own_loop ms c p) ms)) = undoable (rev (take c ms))"
  by (induction c) (auto simp: rev_take_Suc owned_is_injection simp del: take_Suc)

lemma own_loop_take:
  "take (own_loop (us @ vs) (length us) p) (us @ vs) = rev (dropWhile (\<lambda>m. isPromptOwnedInjection m p) (rev us))"
proof (induction us arbitrary: vs rule: rev_induct)
  case (snoc u us)
  from snoc [of "u # vs"] show ?case by (simp add: nth_append)
qed simp

lemma undo_loop_stop: "remaining \<le> 0 \<Longrightarrow> undo_loop ms n remaining uc = uc"
  by (cases n) auto

lemma undo_loop_enough:
  "n \<le> length ms \<Longrightarrow> 0 < k \<Longrightarrow> k \<le> undoable (rev (take n ms)) \<Longrightarrow>
   (let c = undo_loop ms n (int k) uc in
      uc_removedCount c = uc_removedCount uc + int k \<and> 0 \<le> uc_cutIndex c \<and> nat (uc_cutIndex c) \<le> n
      \<and> undoable (rev (take (nat (uc_cutIndex c)) ms)) = undoable (rev (take n ms)) - k)"
proof (induction n arbitrary: k uc)
  case (Suc n)
  note rt = rev_take_Suc [of n ms]
  let ?m = "ms ! n"
  show ?case
  proof (cases "\<not> is_injection ?m \<and> isUndoAnchor ?m")
    case False
    then have "\<not> isCompactionSummaryMessage ?m \<or> is_injection ?m"
      using Suc.prems rt by (auto split: if_splits)
    with False show ?thesis
      using Suc.IH [of k uc] Suc.prems rt
      by (auto simp: Let_def le_Suc_eq simp del: take_Suc split: if_splits)
  next
    case True
    then have ns: "\<not> isCompactionSummaryMessage ?m" using anchor_not_injection by blast
    let ?uc = "uc\<lparr>uc_removedCount := uc_removedCount uc + 1, uc_cutIndex := int (own_loop ms n ?m)\<rparr>"
    have step: "undo_loop ms (Suc n) (int k) uc = undo_loop ms n (int (k - 1)) ?uc"
      using True ns Suc.prems(2) by (simp add: Let_def of_nat_diff)
    have und: "undoable (rev (take (Suc n) ms)) = Suc (undoable (rev (take n ms)))"
      using True ns rt Suc.prems(1) by simp
    show ?thesis
    proof (cases "k = 1")
      case True
      then show ?thesis
        using step und own_loop_undoable [of n ms ?m] Suc.prems(1) own_loop_le [of ms n ?m]
        by (simp add: undo_loop_stop Let_def le_SucI)
    next
      case False
      then show ?thesis
        using Suc.IH [of "k - 1" ?uc] Suc.prems step und by (simp add: Let_def of_nat_diff le_SucI)
    qed
  qed
qed simp

lemma undo_loop_short:
  "n \<le> length ms \<Longrightarrow> undoable (rev (take n ms)) < k \<Longrightarrow>
   uc_removedCount (undo_loop ms n (int k) uc) = uc_removedCount uc + int (undoable (rev (take n ms)))"
proof (induction n arbitrary: k uc)
  case (Suc n)
  note rt = rev_take_Suc [of n ms]
  let ?m = "ms ! n"
  have k: "0 < k" using Suc.prems(2) by simp
  show ?case
  proof (cases "\<not> is_injection ?m \<and> \<not> isCompactionSummaryMessage ?m \<and> isUndoAnchor ?m")
    case False
    then show ?thesis using Suc.IH [of k uc] Suc.prems rt k
      by (auto simp: Let_def simp del: take_Suc split: if_splits)
  next
    case True
    let ?uc = "uc\<lparr>uc_removedCount := uc_removedCount uc + 1, uc_cutIndex := int (own_loop ms n ?m)\<rparr>"
    have "undo_loop ms (Suc n) (int k) uc = undo_loop ms n (int (k - 1)) ?uc"
      using True k by (simp add: Let_def of_nat_diff)
    moreover have "undoable (rev (take (Suc n) ms)) = Suc (undoable (rev (take n ms)))"
      using True rt Suc.prems(1) by simp
    ultimately show ?thesis using Suc.IH [of "k - 1" ?uc] Suc.prems by simp
  qed
qed simp

lemma computeUndoCut_enough:
  assumes "0 < k" "k \<le> undoable (rev ms)"
  shows "isFullyUndoable (computeUndoCut ms (int k)) (int k)
    \<and> nat (uc_cutIndex (computeUndoCut ms (int k))) \<le> length ms
    \<and> undoable (rev (take (nat (uc_cutIndex (computeUndoCut ms (int k)))) ms)) = undoable (rev ms) - k"
  using undo_loop_enough [of "length ms" ms k "\<lparr>uc_cutIndex = -1, uc_removedCount = 0, uc_stoppedAtCompaction = False\<rparr>"] assms
  by (simp add: computeUndoCut_def isFullyUndoable_def Let_def)

lemma computeUndoCut_short:
  "undoable (rev ms) < k \<Longrightarrow> uc_removedCount (computeUndoCut ms (int k)) = int (undoable (rev ms))
     \<and> \<not> isFullyUndoable (computeUndoCut ms (int k)) (int k)"
  using undo_loop_short [of "length ms" ms k "\<lparr>uc_cutIndex = -1, uc_removedCount = 0, uc_stoppedAtCompaction = False\<rparr>"]
  by (simp add: computeUndoCut_def isFullyUndoable_def)

lemma contextUndo_effect:
  assumes "isValidUndoCount (int k)"
  shows "if k \<le> undoable (rev (cs_messages s))
    then \<exists>n. contextUndo (int k) s = resetFold (take n (cs_messages s))
           \<and> undoable (rev (take n (cs_messages s))) = undoable (rev (cs_messages s)) - k
    else contextUndo (int k) s = s"
proof -
  have k: "0 < k" using assms by (simp add: isValidUndoCount_def)
  show ?thesis
  proof (cases "k \<le> undoable (rev (cs_messages s))")
    case True
    then have "cs_messages s \<noteq> []" using k by auto
    then show ?thesis using computeUndoCut_enough [OF k True] True assms
      by (auto simp: contextUndo_def Let_def)
  next
    case False
    then show ?thesis using computeUndoCut_short [of "cs_messages s" k] assms
      by (auto simp: contextUndo_def Let_def)
  qed
qed

section \<open>Undo as travelling back\<close>

lemma undo_loop_pass:
  "(\<forall>m \<in> set post. \<not> isCompactionSummaryMessage m) \<Longrightarrow> 0 < r \<Longrightarrow>
   \<exists>uc2. undo_loop (pre @ post @ rest) (length pre + length post) (int (length (filter isUndoAnchor post)) + r) uc
     = undo_loop (pre @ post @ rest) (length pre) r uc2"
proof (induction post arbitrary: rest uc rule: rev_induct)
  case (snoc m post)
  have at: "(pre @ (post @ [m]) @ rest) ! (length pre + length post) = m" by (simp add: nth_append)
  have IH: "\<And>uc. \<exists>uc2. undo_loop (pre @ post @ m # rest) (length pre + length post)
      (int (length (filter isUndoAnchor post)) + r) uc = undo_loop (pre @ post @ m # rest) (length pre) r uc2"
    using snoc.IH [of "m # rest"] snoc.prems by simp
  have pos: "0 < int (length (filter isUndoAnchor post)) + r" using snoc.prems(2) by simp
  show ?case
  proof (cases "isUndoAnchor m")
    case True
    with anchor_not_injection [OF True] show ?thesis using at pos IH by (simp add: Let_def)
  next
    case False
    then show ?thesis using at pos IH snoc.prems(1) by (simp add: Let_def)
  qed
qed auto

lemma contextUndo_to:
  assumes "cs_messages s = base @ m # post" "isUndoAnchor m" "\<forall>p \<in> set post. \<not> isCompactionSummaryMessage p"
    "k = Suc (length (filter isUndoAnchor post))" "isValidUndoCount (int k)"
  shows "contextUndo (int k) s = resetFold (rev (dropWhile (\<lambda>i. isPromptOwnedInjection i m) (rev base)))"
proof -
  let ?ms = "base @ m # post"
  have m: "\<not> is_injection m" "\<not> isCompactionSummaryMessage m" using anchor_not_injection [OF assms(2)] by auto
  obtain uc2 where "undo_loop ((base @ [m]) @ post @ []) (length (base @ [m]) + length post)
      (int (length (filter isUndoAnchor post)) + 1) \<lparr>uc_cutIndex = -1, uc_removedCount = 0, uc_stoppedAtCompaction = False\<rparr>
      = undo_loop ((base @ [m]) @ post @ []) (length (base @ [m])) 1 uc2"
    using undo_loop_pass [OF assms(3), of 1 "base @ [m]" "[]"] by auto
  then have "computeUndoCut ?ms (int k) = undo_loop ?ms (Suc (length base)) 1 uc2"
    using assms(4) by (simp add: computeUndoCut_def add.commute)
  then have "uc_cutIndex (computeUndoCut ?ms (int k)) = int (own_loop ?ms (length base) m)"
    using m assms(2) by (simp add: undo_loop_stop Let_def)
  moreover have "k \<le> undoable (rev ?ms)"
  proof -
    have "length (filter isUndoAnchor ps) \<le> undoable (rev ps @ zs)"
      if "\<forall>p \<in> set ps. \<not> isCompactionSummaryMessage p" for ps zs
      using that by (induction ps rule: rev_induct) (auto dest: anchor_not_injection)
    from this [of "m # post" "rev base"] show ?thesis using assms(2-4) m by simp
  qed
  moreover have "0 < k" using assms(4) by simp
  ultimately show ?thesis
    using computeUndoCut_enough [of k ?ms] assms(1,5) own_loop_take [of base "m # post" m]
    by (simp add: contextUndo_def Let_def)
qed

text \<open>The messages before a settled point stay as they are while the fold goes on.\<close>

definition no_summary :: "context_message list \<Rightarrow> bool" where
  "no_summary ms \<longleftrightarrow> (\<forall>m \<in> set ms. \<not> isCompactionSummaryMessage m)"

fun input_no_summary :: "fold_input \<Rightarrow> bool" where
  "input_no_summary (InMessage m) = (\<not> isCompactionSummaryMessage m)"
| "input_no_summary (InEvent _) = True"

lemma no_summary_simps [simp]:
  "no_summary []" "no_summary (xs @ ys) \<longleftrightarrow> no_summary xs \<and> no_summary ys"
  "no_summary (m # ms) \<longleftrightarrow> \<not> isCompactionSummaryMessage m \<and> no_summary ms"
  by (auto simp: no_summary_def)

lemma not_summary [simp]:
  "\<not> isCompactionSummaryMessage open_assistant" "\<not> isCompactionSummaryMessage (interruptedToolMessage i)"
  "\<not> isCompactionSummaryMessage ((createToolMessage i out)\<lparr>cm_isError := e, cm_note := n\<rparr>)"
  "isCompactionSummaryMessage (m\<lparr>cm_content := c\<rparr>) = isCompactionSummaryMessage m"
  "isCompactionSummaryMessage (m\<lparr>cm_partial := p\<rparr>) = isCompactionSummaryMessage m"
  "isCompactionSummaryMessage (add_call call d m) = isCompactionSummaryMessage m"
  by (simp_all add: isCompactionSummaryMessage_def open_assistant_def interruptedToolMessage_def
      createToolMessage_def plain_message_def add_call_def Let_def split: option.split)

lemma no_summary_interrupted [simp]: "no_summary (map interruptedToolMessage is)"
  by (simp add: no_summary_def)

lemma no_summary_seal: "no_summary ms \<Longrightarrow> no_summary (concat (map seal ms))"
  by (induction ms) (auto simp: seal_def)

lemma no_summary_map:
  "no_summary ms \<Longrightarrow> (\<And>m. isCompactionSummaryMessage (u m) = isCompactionSummaryMessage m) \<Longrightarrow>
   no_summary (map (\<lambda>m. if is_partial m then u m else m) ms)"
  by (induction ms) auto

definition grown :: "context_message list \<Rightarrow> context_state \<Rightarrow> bool" where
  "grown base s \<longleftrightarrow> (\<exists>rest. cs_messages s = base @ rest \<and> no_summary rest) \<and> no_summary (cs_deferred s)"

lemma grown_step:
  assumes "grown base s" "\<forall>m \<in> set base. \<not> is_partial m" "fold_inv s" "input_no_summary x"
  shows "grown base (fold_step s x)"
proof -
  obtain rest where rest: "cs_messages s = base @ rest" "no_summary rest" and d: "no_summary (cs_deferred s)"
    using assms(1) by (auto simp: grown_def)
  have one: "one_partial (cs_messages s)" using assms(3) by (simp add: fold_inv_def)
  have closed: "\<exists>c. closed_messages s = base @ c \<and> no_summary c"
    using rest d by (auto simp: closed_messages_def)
  have sealed: "\<exists>c. concat (map seal (closed_messages s)) = base @ c \<and> no_summary c"
    using closed seal_skip [OF assms(2)] no_summary_seal by auto
  have upd: "\<exists>c. map (\<lambda>m. if is_partial m then u m else m) (cs_messages s) = base @ c \<and> no_summary c"
    if "\<And>m. isCompactionSummaryMessage (u m) = isCompactionSummaryMessage m" for u
    using rest map_skip [OF assms(2)] no_summary_map [OF rest(2) that] by auto
  show ?thesis
  proof (cases x)
    case (InMessage m)
    then show ?thesis using rest d assms(4) by (auto simp: grown_def foldAppendMessage_def)
  next
    case (InEvent e)
    show ?thesis
    proof (cases e)
      case (StepBegin u)
      then show ?thesis using InEvent sealed
        by (auto simp: grown_def step_begin_eq [OF assms(3)] simp del: foldLoopEvent.simps)
    next
      case (StepEnd u)
      then show ?thesis using InEvent sealed
        by (auto simp: grown_def step_end_eq [OF assms(3)] simp del: foldLoopEvent.simps)
    next
      case (ContentPart su part)
      then show ?thesis using InEvent upd d by (simp add: grown_def appendToOpenAssistant_map [OF one])
    next
      case (ToolCall su i n a dd ex)
      then show ?thesis using InEvent upd d by (simp add: grown_def appendToOpenAssistant_map [OF one])
    next
      case (ToolResult i out er n)
      then show ?thesis using InEvent rest d by (auto simp: grown_def flushDeferred_def)
    qed
  qed
qed

lemma grown_run:
  "grown base s \<Longrightarrow> \<forall>m \<in> set base. \<not> is_partial m \<Longrightarrow> fold_inv s \<Longrightarrow> list_all input_ok xs \<Longrightarrow>
   list_all input_no_summary xs \<Longrightarrow> grown base (fold_run s xs)"
  by (induction xs arbitrary: s) (simp_all add: fold_run_def grown_step fold_inv_step)

lemma anchors_from_user: "filter isUndoAnchor (filter from_user ms) = filter isUndoAnchor ms"
  by (induction ms) (auto simp: isUndoAnchor_def from_user_def)

lemma run_anchors:
  assumes "fold_inv s" "cs_messages s = base" "cs_deferred s = []" "list_all input_ok xs"
    "cs_messages (fold_run s xs) = base @ rest"
  shows "filter isUndoAnchor (rest @ cs_deferred (fold_run s xs)) = filter isUndoAnchor (concat (map input_users xs))"
proof -
  have "filter from_user (base @ rest @ cs_deferred (fold_run s xs)) = filter from_user base @ concat (map input_users xs)"
    using fold_run_users [OF assms(1,4)] assms(2,3,5) by (simp del: filter_append add: filter_append [symmetric])
  then have "filter from_user (rest @ cs_deferred (fold_run s xs)) = concat (map input_users xs)" by simp
  then show ?thesis by (metis anchors_from_user)
qed

text \<open>The checkpointed model beside the history: \<open>react\<close> is what its own operations do to the value.\<close>

fun cp_step :: "(loop_event \<Rightarrow> 't \<Rightarrow> 't) \<Rightarrow> ('t \<Rightarrow> context_message \<Rightarrow> 't) option \<Rightarrow> 't checkpointed \<Rightarrow> fold_input \<Rightarrow> 't checkpointed" where
  "cp_step react onAppend st (InMessage m) = cp_append onAppend m st"
| "cp_step react onAppend st (InEvent e) = st\<lparr>cp_current := react e (cp_current st)\<rparr>"

definition cp_run :: "(loop_event \<Rightarrow> 't \<Rightarrow> 't) \<Rightarrow> ('t \<Rightarrow> context_message \<Rightarrow> 't) option \<Rightarrow> 't checkpointed \<Rightarrow> fold_input list \<Rightarrow> 't checkpointed" where
  "cp_run react onAppend st xs = foldl (cp_step react onAppend) st xs"

definition anchor_inputs :: "fold_input list \<Rightarrow> nat" where
  "anchor_inputs xs = length (filter (\<lambda>x. case x of InMessage m \<Rightarrow> isUndoAnchor m | InEvent _ \<Rightarrow> False) xs)"

lemma anchor_inputs_users: "length (filter isUndoAnchor (concat (map input_users xs))) = anchor_inputs xs"
proof (induction xs)
  case (Cons x xs)
  then show ?case by (cases x) (auto simp: anchor_inputs_def from_user_def isUndoAnchor_def)
qed (simp add: anchor_inputs_def)

lemma cp_run_checkpoints:
  "\<exists>more. cp_checkpoints (cp_run react onAppend st xs) = cp_checkpoints st @ more \<and> length more = anchor_inputs xs"
proof (induction xs arbitrary: st)
  case Nil
  then show ?case by (simp add: cp_run_def anchor_inputs_def)
next
  case (Cons x xs)
  obtain more where more: "cp_checkpoints (cp_run react onAppend (cp_step react onAppend st x) xs)
      = cp_checkpoints (cp_step react onAppend st x) @ more" "length more = anchor_inputs xs"
    using Cons.IH by blast
  then show ?case
    by (cases x) (auto simp: cp_run_def cp_append_def anchor_inputs_def split: option.splits)
qed

lemma cp_undo_run:
  assumes "isUndoAnchor m" "k = anchor_inputs (InMessage m # ys)" "isValidUndoCount (int k)"
  shows "cp_undo (int k) (cp_run react onAppend st (InMessage m # ys)) = st"
proof -
  let ?st = "cp_append onAppend m st"
  obtain more where more: "cp_checkpoints (cp_run react onAppend ?st ys) = cp_checkpoints ?st @ more"
      "length more = anchor_inputs ys"
    using cp_run_checkpoints by blast
  have "cp_run react onAppend st (InMessage m # ys) = cp_run react onAppend ?st ys" by (simp add: cp_run_def)
  moreover have "cp_checkpoints ?st = cp_checkpoints st @ [cp_current st]" using assms(1) by (simp add: cp_append_def)
  moreover have "k = Suc (anchor_inputs ys)" using assms(1,2) by (simp add: anchor_inputs_def)
  ultimately show ?thesis using more assms(3)
    by (cases st) (simp add: cp_undo_def Let_def nth_append)
qed

lemma undo_restores_lemma:
  assumes inv: "fold_inv s" and settled: "\<forall>p \<in> set (cs_messages s). \<not> is_partial p" "cs_pending s = []"
    and m: "isUndoAnchor m" and ok: "list_all input_ok (InMessage m # ys)" "list_all input_no_summary ys"
    and k: "k = anchor_inputs (InMessage m # ys)" "isValidUndoCount (int k)"
    and closed: "cs_pending (fold_run s (InMessage m # ys)) = []"
  shows "contextUndo (int k) (fold_run s (InMessage m # ys))
    = resetFold (rev (dropWhile (\<lambda>i. isPromptOwnedInjection i m) (rev (cs_messages s))))"
proof -
  let ?s = "foldAppendMessage m s"
  have d: "cs_deferred s = []" using inv settled(2) by (simp add: fold_inv_def)
  have s1: "cs_messages ?s = cs_messages s @ [m]" "cs_deferred ?s = []"
    using settled(2) d by (simp_all add: foldAppendMessage_def)
  have inv1: "fold_inv ?s" using fold_inv_step [OF inv, of "InMessage m"] ok(1) by simp
  have np: "\<forall>p \<in> set (cs_messages ?s). \<not> is_partial p" using settled(1) ok(1) s1 by (auto simp: plain_def)
  have run: "fold_run s (InMessage m # ys) = fold_run ?s ys" by (simp add: fold_run_def)
  have ok2: "list_all input_ok ys" using ok(1) by simp
  have "grown (cs_messages ?s) ?s" using s1(2) by (simp add: grown_def)
  then obtain rest where rest: "cs_messages (fold_run ?s ys) = cs_messages ?s @ rest" "no_summary rest"
    using grown_run [OF _ np inv1 ok2 ok(2)] by (auto simp: grown_def)
  have "cs_deferred (fold_run ?s ys) = []"
    using fold_inv_run [OF inv1 ok2] closed run by (simp add: fold_inv_def)
  then have "length (filter isUndoAnchor rest) = anchor_inputs ys"
    using run_anchors [OF inv1 refl s1(2) ok2 rest(1)] anchor_inputs_users by simp
  then have "k = Suc (length (filter isUndoAnchor rest))" using k(1) m by (simp add: anchor_inputs_def)
  then show ?thesis
    using contextUndo_to [of "fold_run s (InMessage m # ys)" "cs_messages s" m rest k] rest s1 run m k(2)
    by (simp add: no_summary_def)
qed

end
