(* ===== verification/ContextTranscript.thy ===== *)
theory ContextTranscript
  imports ContextUndo
begin

text \<open>
  \<open>packages/agent-core-v2/src/agent/contextMemory/contextTranscript.ts\<close>: the second reduction of
  the same wire journal, which keeps the whole display history across compactions and counts the
  length the live history has (\<open>foldedLength\<close>). An entry is an object that the open-step table and
  the list share: it has an identity \<open>te_no\<close>, and a change through the table is a change in the list.
\<close>

section \<open>The reducer\<close>

record transcript_entry =
  te_no :: nat
  te_message :: context_message
  te_time :: "number option"

record transcript_reducer =
  tr_entries :: "transcript_entry list"
  tr_foldedLength :: int
  tr_clearFloor :: nat
  tr_openSteps :: "(string, nat) jsmap"
  tr_pending :: "string list"
  tr_deferred :: "transcript_entry list"
  tr_lastOpen :: "string option"
  tr_next :: nat

definition new_reducer :: transcript_reducer where
  "new_reducer =
     \<lparr>tr_entries = [], tr_foldedLength = 0, tr_clearFloor = 0, tr_openSteps = [], tr_pending = [],
      tr_deferred = [], tr_lastOpen = None, tr_next = 0\<rparr>"

text \<open>A mutable message has the fields id, role, content, calls, call id, error flag and origin only.\<close>

definition strip :: "context_message \<Rightarrow> context_message" where
  "strip m = m\<lparr>cm_name := None, cm_partial := None, cm_tools := None, cm_providerMessageId := None, cm_note := None,
               cm_toolCallDisplays := None\<rparr>"

definition tr_push :: "transcript_entry list \<Rightarrow> transcript_reducer \<Rightarrow> transcript_reducer" where
  "tr_push es r = r\<lparr>tr_entries := tr_entries r @ es, tr_foldedLength := tr_foldedLength r + int (length es)\<rparr>"

definition push_new :: "context_message \<Rightarrow> number option \<Rightarrow> transcript_reducer \<Rightarrow> transcript_reducer" where
  "push_new m time r =
     (tr_push [\<lparr>te_no = tr_next r, te_message = m, te_time = time\<rparr>] r)\<lparr>tr_next := Suc (tr_next r)\<rparr>"

definition flushDeferredIfToolExchangeClosed :: "transcript_reducer \<Rightarrow> transcript_reducer" where
  "flushDeferredIfToolExchangeClosed r =
     (if tr_pending r \<noteq> [] \<or> tr_deferred r = [] then r
      else (tr_push (tr_deferred r) r)\<lparr>tr_deferred := []\<rparr>)"

definition interrupted_entry :: "string \<Rightarrow> context_message" where
  "interrupted_entry toolCallId =
     (plain_message RTool [PText TOOL_INTERRUPTED_ON_RESUME_OUTPUT])
       \<lparr>cm_toolCallId := Some toolCallId, cm_isError := Some True\<rparr>"

fun close_loop :: "string list \<Rightarrow> number option \<Rightarrow> transcript_reducer \<Rightarrow> transcript_reducer" where
  "close_loop [] time r = r"
| "close_loop (i # is) time r =
     close_loop is time
       (let r2 = push_new (interrupted_entry i) time r in r2\<lparr>tr_pending := js_set_delete i (tr_pending r2)\<rparr>)"

definition closePendingToolResults :: "number option \<Rightarrow> transcript_reducer \<Rightarrow> transcript_reducer" where
  "closePendingToolResults time r =
     (if tr_pending r = [] then r
      else flushDeferredIfToolExchangeClosed (close_loop (tr_pending r) time r))"

definition resetOpenState :: "transcript_reducer \<Rightarrow> transcript_reducer" where
  "resetOpenState r = r\<lparr>tr_openSteps := [], tr_pending := [], tr_deferred := [], tr_lastOpen := None\<rparr>"

definition entry_at :: "nat \<Rightarrow> transcript_entry list \<Rightarrow> transcript_entry option" where
  "entry_at i es = find (\<lambda>e. te_no e = i) es"

definition with_entry :: "nat \<Rightarrow> (context_message \<Rightarrow> context_message) \<Rightarrow> transcript_entry list \<Rightarrow> transcript_entry list" where
  "with_entry i f es = map (\<lambda>e. if te_no e = i then e\<lparr>te_message := f (te_message e)\<rparr> else e) es"

text \<open>\<open>indexOf\<close> and \<open>splice\<close>.\<close>

fun drop_entry :: "nat \<Rightarrow> transcript_entry list \<Rightarrow> transcript_entry list" where
  "drop_entry i [] = []"
| "drop_entry i (e # es) = (if te_no e = i then es else e # drop_entry i es)"

definition settleStep :: "string \<Rightarrow> transcript_reducer \<Rightarrow> transcript_reducer" where
  "settleStep uuid r =
     (case jm_get (tr_openSteps r) uuid of
        None \<Rightarrow> r
      | Some i \<Rightarrow>
          let r2 = r\<lparr>tr_openSteps := jm_delete uuid (tr_openSteps r)\<rparr> in
          case entry_at i (tr_entries r) of
            None \<Rightarrow> r2
          | Some e \<Rightarrow>
              if cm_toolCalls (te_message e) \<noteq> [] then r2
              else if \<not> list_all isVacuousContentPart (cm_content (te_message e)) then r2
              else r2\<lparr>tr_entries := drop_entry i (tr_entries r), tr_foldedLength := max 0 (tr_foldedLength r - 1)\<rparr>)"

fun transcript_event :: "loop_event \<Rightarrow> number option \<Rightarrow> transcript_reducer \<Rightarrow> transcript_reducer" where
  "transcript_event (StepBegin uuid) time r =
     (let r2 = closePendingToolResults time r;
          r3 = (case tr_lastOpen r2 of None \<Rightarrow> r2 | Some u \<Rightarrow> settleStep u r2)
      in (push_new (plain_message RAssistant []) time r3)
           \<lparr>tr_openSteps := jm_set uuid (tr_next r3) (tr_openSteps r3), tr_lastOpen := Some uuid\<rparr>)"
| "transcript_event (StepEnd uuid) time r =
     (let r2 = settleStep uuid r;
          r3 = (if tr_lastOpen r2 = Some uuid then r2\<lparr>tr_lastOpen := None\<rparr> else r2)
      in flushDeferredIfToolExchangeClosed r3)"
| "transcript_event (ContentPart stepUuid part) time r =
     (case jm_get (tr_openSteps r) stepUuid of
        None \<Rightarrow> r
      | Some i \<Rightarrow> r\<lparr>tr_entries := with_entry i (\<lambda>m. m\<lparr>cm_content := cm_content m @ [part]\<rparr>) (tr_entries r)\<rparr>)"
| "transcript_event (ToolCall stepUuid i name args display extras) time r =
     (case jm_get (tr_openSteps r) stepUuid of
        None \<Rightarrow> r
      | Some n \<Rightarrow>
          r\<lparr>tr_entries := with_entry n
              (\<lambda>m. m\<lparr>cm_toolCalls := cm_toolCalls m
                 @ [\<lparr>call_id = i, call_name = name, call_arguments = args, call_extras = extras\<rparr>]\<rparr>) (tr_entries r),
            tr_pending := js_set_add i (tr_pending r)\<rparr>)"
| "transcript_event (ToolResult i output isError note) time r =
     (if i \<notin> set (tr_pending r) then r
      else
        let r2 = push_new ((createToolMessage i output)\<lparr>cm_isError := isError\<rparr>) time r
        in flushDeferredIfToolExchangeClosed (r2\<lparr>tr_pending := js_set_delete i (tr_pending r2)\<rparr>))"

text \<open>The loops of \<open>applyUndo\<close>, at \<open>i = n - 1\<close> and at \<open>i\<close>; each splice takes one off the length.\<close>

fun drop_owned :: "nat \<Rightarrow> nat \<Rightarrow> context_message \<Rightarrow> transcript_entry list \<Rightarrow> int \<Rightarrow> transcript_entry list \<times> int" where
  "drop_owned clearFloor 0 prompt es len = (es, len)"
| "drop_owned clearFloor (Suc i) prompt es len =
     (if clearFloor < Suc i \<and> isPromptOwnedInjection (te_message (es ! i)) prompt
      then drop_owned clearFloor i prompt (take i es @ drop (Suc i) es) (max 0 (len - 1))
      else (es, len))"

fun undo_entries :: "nat \<Rightarrow> nat \<Rightarrow> int \<Rightarrow> int \<Rightarrow> transcript_entry list \<Rightarrow> int \<Rightarrow> transcript_entry list \<times> int" where
  "undo_entries clearFloor 0 count removed es len = (es, len)"
| "undo_entries clearFloor (Suc i) count removed es len =
     (if i < clearFloor then (es, len)
      else
        let m = te_message (es ! i) in
        if is_injection m then undo_entries clearFloor i count removed es len
        else if isCompactionSummaryMessage m then (es, len)
        else
          let es2 = take i es @ drop (Suc i) es; len2 = max 0 (len - 1) in
          if \<not> isUndoAnchor m then undo_entries clearFloor i count removed es2 len2
          else if count \<le> removed + 1 then drop_owned clearFloor i m es2 len2
          else undo_entries clearFloor i count (removed + 1) es2 len2)"

definition transcript_undo :: "int \<Rightarrow> transcript_reducer \<Rightarrow> transcript_reducer" where
  "transcript_undo count r =
     (if count \<le> 0 then r
      else
        let (es, len) = undo_entries (tr_clearFloor r) (length (tr_entries r)) count 0 (tr_entries r) (tr_foldedLength r)
        in resetOpenState (r\<lparr>tr_entries := es, tr_foldedLength := len\<rparr>))"

text \<open>
  The records of the journal. A compaction record carries the summary and the counts of the shape
  that \<open>applyCompaction\<close> computed from the live history.
\<close>

datatype context_record =
    RecMessage context_message
  | RecEvent loop_event
  | RecCompaction compaction_input compaction_shape
  | RecUndo int
  | RecClear

definition transcript_message :: "context_message \<Rightarrow> number option \<Rightarrow> transcript_reducer \<Rightarrow> transcript_reducer" where
  "transcript_message m time r =
     (let e = \<lparr>te_no = tr_next r, te_message = strip m, te_time = time\<rparr>; r2 = r\<lparr>tr_next := Suc (tr_next r)\<rparr>
      in if tr_pending r \<noteq> [] then r2\<lparr>tr_deferred := tr_deferred r @ [e]\<rparr> else tr_push [e] r2)"

definition transcript_compaction :: "compaction_shape \<Rightarrow> number option \<Rightarrow> transcript_reducer \<Rightarrow> transcript_reducer" where
  "transcript_compaction p time r =
     resetOpenState
       (r\<lparr>tr_entries := tr_entries r @
            [\<lparr>te_no = tr_next r, te_message = createCompactionSummaryMessage (sh_summary p), te_time = time\<rparr>],
          tr_next := Suc (tr_next r),
          tr_foldedLength := int (sh_keptUserMessageCount p) + (if sh_keptHeadUserMessageCount p = None then 1 else 2)\<rparr>)"

definition transcript_clear :: "transcript_reducer \<Rightarrow> transcript_reducer" where
  "transcript_clear r = resetOpenState (r\<lparr>tr_clearFloor := length (tr_entries r), tr_foldedLength := 0\<rparr>)"

fun transcript_add :: "transcript_reducer \<Rightarrow> context_record \<times> number option \<Rightarrow> transcript_reducer" where
  "transcript_add r (RecMessage m, time) = transcript_message m time r"
| "transcript_add r (RecEvent e, time) = transcript_event e time r"
| "transcript_add r (RecCompaction input p, time) = transcript_compaction p time r"
| "transcript_add r (RecUndo count, time) = transcript_undo count r"
| "transcript_add r (RecClear, time) = transcript_clear r"

definition reduceContextTranscript :: "(context_record \<times> number option) list \<Rightarrow> transcript_reducer" where
  "reduceContextTranscript records = foldl transcript_add new_reducer records"

text \<open>The live history reduces the same records.\<close>

fun context_add :: "context_state \<Rightarrow> context_record \<Rightarrow> context_state" where
  "context_add s (RecMessage m) = foldAppendMessage m s"
| "context_add s (RecEvent e) = foldLoopEvent s e"
| "context_add s (RecCompaction input p) = contextApplyCompaction input s"
| "context_add s (RecUndo count) = contextUndo count s"
| "context_add s RecClear = contextClear s"

section \<open>The two reductions agree\<close>

text \<open>
  \<open>linked\<close>: since the last compaction or clear, entries \<open>new\<close> are the messages \<open>rest\<close>, one by one; the
  entry in the open-step table is that of the partial message.
\<close>

definition vacuous :: "context_message \<Rightarrow> bool" where
  "vacuous m \<longleftrightarrow> cm_toolCalls m = [] \<and> list_all isVacuousContentPart (cm_content m)"

definition mirrors :: "nat option \<Rightarrow> transcript_entry \<Rightarrow> context_message \<Rightarrow> bool" where
  "mirrors oi e m \<longleftrightarrow> te_message e = strip m \<and> (is_partial m \<longleftrightarrow> oi = Some (te_no e))"

definition ids_ok :: "transcript_reducer \<Rightarrow> bool" where
  "ids_ok r \<longleftrightarrow> distinct (map te_no (tr_entries r @ tr_deferred r))
     \<and> (\<forall>e \<in> set (tr_entries r @ tr_deferred r). te_no e < tr_next r)"

definition open_table :: "string option \<Rightarrow> nat option \<Rightarrow> transcript_entry list \<Rightarrow> (string, nat) jsmap \<Rightarrow> bool" where
  "open_table u oi new table \<longleftrightarrow>
     (case (u, oi) of
        (None, None) \<Rightarrow> table = []
      | (Some u, Some i) \<Rightarrow> table = [(u, i)] \<and> i \<in> te_no ` set new
      | _ \<Rightarrow> False)"

definition link :: "nat option \<Rightarrow> context_message list \<Rightarrow> context_message list \<Rightarrow> transcript_entry list
    \<Rightarrow> transcript_entry list \<Rightarrow> context_state \<Rightarrow> transcript_reducer \<Rightarrow> bool" where
  "link oi base rest old new s r \<longleftrightarrow>
     cs_messages s = base @ rest \<and> tr_entries r = old @ new \<and> list_all2 (mirrors oi) new rest
     \<and> (\<forall>m \<in> set base. \<not> is_partial m) \<and> tr_foldedLength r = int (length (cs_messages s))
     \<and> (\<forall>e \<in> set old. oi \<noteq> Some (te_no e)) \<and> tr_lastOpen r = cs_openStepUuid s
     \<and> open_table (tr_lastOpen r) oi new (tr_openSteps r)
     \<and> tr_pending r = cs_pending s \<and> list_all2 (mirrors None) (tr_deferred r) (cs_deferred s) \<and> ids_ok r
     \<and> (cs_pending s \<noteq> [] \<longrightarrow> oi \<noteq> None)"

definition linked_from :: "context_message list \<Rightarrow> transcript_entry list \<Rightarrow> context_state \<Rightarrow> transcript_reducer \<Rightarrow> bool" where
  "linked_from base old s r \<longleftrightarrow> fold_inv s \<and> (\<exists>oi rest new. link oi base rest old new s r)"

definition linked :: "context_state \<Rightarrow> transcript_reducer \<Rightarrow> bool" where
  "linked s r \<longleftrightarrow> (\<exists>base old. linked_from base old s r)"

lemma strip_simps [simp]:
  "cm_toolCalls (strip m) = cm_toolCalls m" "cm_content (strip m) = cm_content m" "cm_role (strip m) = cm_role m"
  "strip (m\<lparr>cm_partial := p\<rparr>) = strip m" "strip (m\<lparr>cm_content := c\<rparr>) = (strip m)\<lparr>cm_content := c\<rparr>"
  "strip (add_call call d m) = (strip m)\<lparr>cm_toolCalls := cm_toolCalls m @ [call]\<rparr>"
  "strip (interruptedToolMessage i) = interrupted_entry i"
  "strip open_assistant = plain_message RAssistant []"
  "strip ((createToolMessage i out)\<lparr>cm_isError := e, cm_note := n\<rparr>) = (createToolMessage i out)\<lparr>cm_isError := e\<rparr>"
  by (simp_all add: strip_def interruptedToolMessage_def interrupted_entry_def createToolMessage_def
      plain_message_def open_assistant_def add_call_def Let_def split: option.split)

lemma vacuous_strip [simp]: "vacuous (strip m) = vacuous m"
  by (simp add: vacuous_def)

lemma mirrors_None: "mirrors None e m \<longleftrightarrow> te_message e = strip m \<and> \<not> is_partial m"
  by (simp add: mirrors_def)

lemma mirrors_fresh: "mirrors None e m \<Longrightarrow> oi \<noteq> Some (te_no e) \<Longrightarrow> mirrors oi e m"
  by (simp add: mirrors_def)

lemma all_mirrors_fresh:
  "list_all2 (mirrors None) es ms \<Longrightarrow> \<forall>e \<in> set es. oi \<noteq> Some (te_no e) \<Longrightarrow> list_all2 (mirrors oi) es ms"
  by (induction rule: list_all2_induct) (auto simp: mirrors_fresh)

lemma with_entry_skip: "\<forall>e \<in> set es. te_no e \<noteq> i \<Longrightarrow> with_entry i f es = es"
  by (induction es) (auto simp: with_entry_def)

lemma with_entry_append [simp]: "with_entry i f (xs @ ys) = with_entry i f xs @ with_entry i f ys"
  by (simp add: with_entry_def)

lemma with_entry_nos [simp]: "map te_no (with_entry i f es) = map te_no es"
  by (induction es) (auto simp: with_entry_def)

lemma with_entry_mirrors:
  assumes "list_all2 (mirrors (Some i)) new rest"
    "\<And>m. is_partial (u m) = is_partial m" "\<And>m. strip (u m) = f (strip m)"
  shows "list_all2 (mirrors (Some i)) (with_entry i f new) (map (\<lambda>m. if is_partial m then u m else m) rest)"
  using assms(1)
  by (induction rule: list_all2_induct) (auto simp: with_entry_def mirrors_def assms(2,3))

lemma drop_entry_append: "\<forall>e \<in> set xs. te_no e \<noteq> i \<Longrightarrow> drop_entry i (xs @ ys) = xs @ drop_entry i ys"
  by (induction xs) auto

lemma set_drop_entry: "set (drop_entry i es) \<subseteq> set es"
  by (induction es) auto

lemma distinct_drop_entry: "distinct (map te_no es) \<Longrightarrow> distinct (map te_no (drop_entry i es))"
  by (induction es) (auto dest: set_drop_entry [THEN subsetD])

lemma mirrors_other:
  "list_all2 (mirrors (Some i)) new rest \<Longrightarrow> \<forall>e \<in> set new. te_no e \<noteq> i \<Longrightarrow>
   list_all2 (mirrors None) new rest \<and> (\<forall>m \<in> set rest. \<not> is_partial m)"
  by (induction rule: list_all2_induct) (auto simp: mirrors_def)

lemma settle_mirrors:
  assumes "list_all2 (mirrors (Some i)) new rest" "distinct (map te_no new)" "e \<in> set new" "te_no e = i"
  shows "list_all2 (mirrors None) (if vacuous (te_message e) then drop_entry i new else new) (concat (map seal rest))"
  using assms
proof (induction rule: list_all2_induct)
  case (Cons x xs y ys)
  show ?case
  proof (cases "te_no x = i")
    case True
    then have e: "e = x" using Cons.prems by (auto simp: image_iff)
    have "\<forall>e \<in> set xs. te_no e \<noteq> i" using Cons.prems(1) True by (auto simp: image_iff)
    then have xs: "list_all2 (mirrors None) xs ys" "\<forall>m \<in> set ys. \<not> is_partial m"
      using mirrors_other Cons.hyps(2) by auto
    have y: "is_partial y" "te_message x = strip y" using Cons.hyps(1) True by (auto simp: mirrors_def)
    show ?thesis
    proof (cases "vacuous y")
      case True
      then have "seal y = []" using y(1) by (simp add: seal_def vacuous_def)
      then show ?thesis using e y xs \<open>te_no x = i\<close> True by (simp add: seal_skip)
    next
      case False
      then have "seal y = [y\<lparr>cm_partial := None\<rparr>]" using y(1) by (simp add: seal_def vacuous_def)
      moreover have "mirrors None x (y\<lparr>cm_partial := None\<rparr>)" using y by (simp add: mirrors_def is_partial_def)
      ultimately show ?thesis using False e y xs by (simp add: seal_skip)
    qed
  next
    case False
    then have "e \<in> set xs" using Cons.prems by auto
    moreover have "seal y = [y]" "mirrors None x y" using Cons.hyps(1) False by (auto simp: mirrors_def seal_def)
    ultimately show ?thesis using Cons False by auto
  qed
qed simp

lemma settle_length:
  "list_all2 (mirrors (Some i)) new rest \<Longrightarrow> distinct (map te_no new) \<Longrightarrow> e \<in> set new \<Longrightarrow> te_no e = i \<Longrightarrow>
   length (concat (map seal rest)) = (if vacuous (te_message e) then length rest - 1 else length rest) \<and> rest \<noteq> []"
proof -
  assume a: "list_all2 (mirrors (Some i)) new rest" "distinct (map te_no new)" "e \<in> set new" "te_no e = i"
  have drop: "length (drop_entry i es) = length es - 1" if "e \<in> set es" "te_no e = i" for es
    using that by (induction es) (auto, metis Suc_pred length_pos_if_in_set)
  show ?thesis
    using settle_mirrors [OF a] a(1,3) drop [OF a(3,4)]
    by (auto dest!: list_all2_lengthD split: if_splits)
qed

text \<open>Operations of the reducer, field by field.\<close>

lemma close_loop_eq:
  "\<exists>es. close_loop is time r =
      r\<lparr>tr_entries := tr_entries r @ es, tr_foldedLength := tr_foldedLength r + int (length es),
        tr_pending := filter (\<lambda>p. p \<notin> set is) (tr_pending r), tr_next := tr_next r + length es\<rparr>
    \<and> map te_message es = map interrupted_entry is \<and> map te_no es = [tr_next r ..< tr_next r + length es]"
proof (induction "is" arbitrary: r)
  case Nil
  show ?case by (rule exI [of _ "[]"]) simp
next
  case (Cons i "is")
  let ?r = "(push_new (interrupted_entry i) time r)\<lparr>tr_pending := js_set_delete i (tr_pending r)\<rparr>"
  let ?e = "\<lparr>te_no = tr_next r, te_message = interrupted_entry i, te_time = time\<rparr>"
  have step: "close_loop (i # is) time r = close_loop is time ?r"
    by (simp add: Let_def push_new_def tr_push_def)
  obtain es where es: "close_loop is time ?r =
      ?r\<lparr>tr_entries := tr_entries ?r @ es, tr_foldedLength := tr_foldedLength ?r + int (length es),
         tr_pending := filter (\<lambda>p. p \<notin> set is) (tr_pending ?r), tr_next := tr_next ?r + length es\<rparr>"
      "map te_message es = map interrupted_entry is" "map te_no es = [tr_next ?r ..< tr_next ?r + length es]"
    using Cons.IH [of ?r] by blast
  have "map te_no (?e # es) = [tr_next r ..< tr_next r + length (?e # es)]"
    using es(3) by (simp add: push_new_def tr_push_def upt_conv_Cons del: upt_Suc)
  then show ?case unfolding step es(1)
    using es(2) by (intro exI [of _ "?e # es"])
      (simp add: push_new_def tr_push_def js_set_delete_def conj_commute)
qed

definition closed_reducer :: "transcript_entry list \<Rightarrow> transcript_reducer \<Rightarrow> transcript_reducer" where
  "closed_reducer es r =
     (if tr_pending r = [] then r
      else r\<lparr>tr_entries := tr_entries r @ es @ tr_deferred r,
             tr_foldedLength := tr_foldedLength r + int (length es + length (tr_deferred r)),
             tr_pending := [], tr_deferred := [], tr_next := tr_next r + length es\<rparr>)"

lemma closePendingToolResults_eq:
  "\<exists>es. closePendingToolResults time r = closed_reducer es r
    \<and> map te_message es = map interrupted_entry (tr_pending r)
    \<and> map te_no es = [tr_next r ..< tr_next r + length es]"
proof -
  obtain es where es: "close_loop (tr_pending r) time r =
      r\<lparr>tr_entries := tr_entries r @ es, tr_foldedLength := tr_foldedLength r + int (length es),
        tr_pending := filter (\<lambda>p. p \<notin> set (tr_pending r)) (tr_pending r), tr_next := tr_next r + length es\<rparr>"
      "map te_message es = map interrupted_entry (tr_pending r)"
      "map te_no es = [tr_next r ..< tr_next r + length es]"
    using close_loop_eq [of "tr_pending r" time r] by blast
  have "filter (\<lambda>p. p \<notin> set (tr_pending r)) (tr_pending r) = []" by simp
  then have "closePendingToolResults time r = closed_reducer es r"
    using es(1) by (simp add: closePendingToolResults_def closed_reducer_def flushDeferredIfToolExchangeClosed_def tr_push_def)
  with es show ?thesis by blast
qed

lemma interrupted_mirrors:
  "map te_message es = map interrupted_entry is \<Longrightarrow> list_all2 (mirrors None) es (map interruptedToolMessage is)"
  by (induction "is" arbitrary: es) (auto simp: map_eq_Cons_conv mirrors_None)

lemma ids_ok_closed:
  assumes "ids_ok r" "map te_no es = [tr_next r ..< tr_next r + length es]"
  shows "ids_ok (closed_reducer es r)"
proof (cases "tr_pending r = []")
  case False
  have nos: "\<forall>e \<in> set es. tr_next r \<le> te_no e \<and> te_no e < tr_next r + length es"
    using arg_cong [OF assms(2), of set] by auto
  have "distinct (map te_no es)" unfolding assms(2) by simp
  moreover have "te_no ` set es \<inter> te_no ` set (tr_entries r @ tr_deferred r) = {}"
    using assms(1) nos unfolding ids_ok_def disjoint_iff by (metis imageE leD)
  moreover have "\<forall>e \<in> set (tr_entries r @ es @ tr_deferred r). te_no e < tr_next r + length es"
    using assms(1) nos by (auto simp: ids_ok_def intro: trans_less_add1)
  ultimately show ?thesis using False assms(1)
    by (auto simp: ids_ok_def closed_reducer_def)
qed (use assms in \<open>simp add: closed_reducer_def\<close>)

lemma link_close:
  assumes "link oi base rest old new s r" "fold_inv s"
  obtains es where "closePendingToolResults time r = closed_reducer es r"
    "link oi base (drop (length base) (closed_messages s)) old (drop (length old) (tr_entries (closed_reducer es r)))
       (s\<lparr>cs_messages := closed_messages s, cs_pending := [],
          cs_deferred := (if cs_pending s = [] then cs_deferred s else [])\<rparr>) (closed_reducer es r)"
proof -
  obtain es where es: "closePendingToolResults time r = closed_reducer es r"
    "map te_message es = map interrupted_entry (tr_pending r)"
    "map te_no es = [tr_next r ..< tr_next r + length es]"
    using closePendingToolResults_eq by blast
  have l: "cs_messages s = base @ rest" "tr_entries r = old @ new" "list_all2 (mirrors oi) new rest"
      "tr_pending r = cs_pending s" "list_all2 (mirrors None) (tr_deferred r) (cs_deferred s)" "ids_ok r"
      "open_table (tr_lastOpen r) oi new (tr_openSteps r)" "tr_lastOpen r = cs_openStepUuid s"
      "tr_foldedLength r = int (length (cs_messages s))" "\<forall>m \<in> set base. \<not> is_partial m"
      "\<forall>e \<in> set old. oi \<noteq> Some (te_no e)"
    using assms(1) unfolding link_def by blast+
  show thesis
  proof (rule that [OF es(1)], cases "cs_pending s = []")
    case True
    then show "link oi base (drop (length base) (closed_messages s)) old (drop (length old) (tr_entries (closed_reducer es r)))
       (s\<lparr>cs_messages := closed_messages s, cs_pending := [],
          cs_deferred := (if cs_pending s = [] then cs_deferred s else [])\<rparr>) (closed_reducer es r)"
      using l by (simp add: link_def closed_messages_def closed_reducer_def)
  next
    case False
    have len: "length es = length (cs_pending s)" using arg_cong [OF es(2), of length] l(4) by simp
    have dlen: "length (tr_deferred r) = length (cs_deferred s)" using l(5) by (rule list_all2_lengthD)
    have bound: "\<forall>e \<in> set es. tr_next r \<le> te_no e" using arg_cong [OF es(3), of set] by auto
    have open_old: "oi \<noteq> Some (te_no e)" if "e \<in> set (es @ tr_deferred r)" for e
    proof (cases oi)
      case (Some i)
      then have "i \<in> te_no ` set new" using l(7) by (auto simp: open_table_def split: option.splits)
      then obtain e2 where e2: "e2 \<in> set new" "te_no e2 = i" by auto
      then have "i < tr_next r" "i \<notin> te_no ` set (tr_deferred r)"
        using l(2,6) by (auto simp: ids_ok_def)
      then show ?thesis using that bound Some by auto
    qed simp
    have "list_all2 (mirrors None) (es @ tr_deferred r) (map interruptedToolMessage (cs_pending s) @ cs_deferred s)"
      using interrupted_mirrors es(2) l(4,5) by (simp add: list_all2_appendI)
    then have "list_all2 (mirrors oi) (es @ tr_deferred r) (map interruptedToolMessage (cs_pending s) @ cs_deferred s)"
      by (rule all_mirrors_fresh) (use open_old in auto)
    then have new: "list_all2 (mirrors oi) (new @ es @ tr_deferred r)
        (rest @ map interruptedToolMessage (cs_pending s) @ cs_deferred s)"
      using l(3) by (simp add: list_all2_appendI)
    have table: "open_table (tr_lastOpen r) oi (new @ es @ tr_deferred r) (tr_openSteps r)"
      using l(7) by (auto simp: open_table_def split: option.splits)
    show "link oi base (drop (length base) (closed_messages s)) old (drop (length old) (tr_entries (closed_reducer es r)))
       (s\<lparr>cs_messages := closed_messages s, cs_pending := [],
          cs_deferred := (if cs_pending s = [] then cs_deferred s else [])\<rparr>) (closed_reducer es r)"
      using False l new table len dlen ids_ok_closed [OF l(6) es(3)]
      by (simp add: link_def closed_messages_def closed_reducer_def)
  qed
qed

lemma jm_one [simp]: "jm_get [(u, i)] u = Some i" "jm_delete u [(u, i)] = []" "jm_set u i [] = [(u, i)]"
  by (simp_all add: jm_get_def jm_delete_def)

lemma entry_at_distinct:
  "distinct (map te_no es) \<Longrightarrow> e \<in> set es \<Longrightarrow> entry_at (te_no e) es = Some e"
  unfolding entry_at_def by (rule find_uniqueI) (auto simp: distinct_map inj_on_def)

lemma link_settle:
  assumes l: "link oi base rest old new s r" and u: "tr_lastOpen r = Some u" and p: "cs_pending s = []"
  obtains new2 where
    "link None base (concat (map seal rest)) old new2
       (s\<lparr>cs_messages := concat (map seal (cs_messages s)), cs_openStepUuid := None\<rparr>)
       ((settleStep u r)\<lparr>tr_lastOpen := None\<rparr>)"
    "tr_lastOpen (settleStep u r) = Some u"
proof -
  have f: "cs_messages s = base @ rest" "tr_entries r = old @ new" "list_all2 (mirrors oi) new rest"
      "\<forall>m \<in> set base. \<not> is_partial m" "tr_foldedLength r = int (length (cs_messages s))"
      "\<forall>e \<in> set old. oi \<noteq> Some (te_no e)" "open_table (Some u) oi new (tr_openSteps r)"
      "tr_pending r = cs_pending s" "list_all2 (mirrors None) (tr_deferred r) (cs_deferred s)" "ids_ok r"
    using l u unfolding link_def by auto
  obtain i where i: "oi = Some i" "tr_openSteps r = [(u, i)]" "i \<in> te_no ` set new"
    using f(7) by (auto simp: open_table_def split: option.splits)
  then obtain e where e: "e \<in> set new" "te_no e = i" by auto
  have d: "distinct (map te_no (old @ new))" using f(2,10) by (auto simp: ids_ok_def)
  have at: "entry_at i (tr_entries r) = Some e" using entry_at_distinct [OF d, of e] e f(2) by simp
  let ?v = "vacuous (te_message e)"
  let ?new = "if ?v then drop_entry i new else new"
  have dn: "distinct (map te_no new)" using d by simp
  have m: "list_all2 (mirrors None) ?new (concat (map seal rest))"
    using settle_mirrors [OF f(3) [unfolded i(1)] dn e] .
  have len: "length (concat (map seal rest)) = (if ?v then length rest - 1 else length rest)" "rest \<noteq> []"
    using settle_length [OF f(3) [unfolded i(1)] dn e] by auto
  have drop: "drop_entry i (old @ new) = old @ drop_entry i new"
    using f(6) i(1) by (intro drop_entry_append) auto
  have sub: "set ?new \<subseteq> set new" using set_drop_entry by auto
  have ids: "ids_ok (r\<lparr>tr_entries := old @ ?new\<rparr>)"
    using f(2,10) sub dn distinct_drop_entry [OF dn, of i] unfolding ids_ok_def by (auto, blast+)
  have r2: "settleStep u r = r\<lparr>tr_openSteps := [], tr_entries := old @ ?new,
      tr_foldedLength := int (length base + length (concat (map seal rest)))\<rparr>"
  proof (cases ?v)
    case True
    then have "settleStep u r = r\<lparr>tr_openSteps := [], tr_entries := old @ drop_entry i new,
        tr_foldedLength := max 0 (tr_foldedLength r - 1)\<rparr>"
      using i(2) at f(2) drop by (simp add: settleStep_def Let_def vacuous_def)
    moreover have "max 0 (tr_foldedLength r - 1) = int (length base + length (concat (map seal rest)))"
      using True len f(1,5) by (cases rest) auto
    ultimately show ?thesis using True by simp
  next
    case False
    then have "settleStep u r = r\<lparr>tr_openSteps := []\<rparr>"
      using i(2) at by (auto simp: settleStep_def Let_def vacuous_def)
    then show ?thesis using False f(1,2,5) len by (cases r) simp
  qed
  have "link None base (concat (map seal rest)) old ?new
       (s\<lparr>cs_messages := concat (map seal (cs_messages s)), cs_openStepUuid := None\<rparr>)
       ((settleStep u r)\<lparr>tr_lastOpen := None\<rparr>)"
    using f m ids p seal_skip [OF f(4)] unfolding r2 by (simp add: link_def open_table_def ids_ok_def)
  moreover have "tr_lastOpen (settleStep u r) = Some u" unfolding r2 by (simp add: u)
  ultimately show thesis by (rule that)
qed

lemma link_open:
  assumes l: "link None base rest old new s r" and q: "cs_pending s = []" "cs_deferred s = []"
  shows "link (Some (tr_next r)) base (rest @ [open_assistant]) old
      (new @ [\<lparr>te_no = tr_next r, te_message = plain_message RAssistant [], te_time = time\<rparr>])
      (s\<lparr>cs_openStepUuid := Some u, cs_messages := cs_messages s @ [open_assistant]\<rparr>)
      ((push_new (plain_message RAssistant []) time r)\<lparr>tr_openSteps := [(u, tr_next r)], tr_lastOpen := Some u\<rparr>)"
proof -
  let ?e = "\<lparr>te_no = tr_next r, te_message = plain_message RAssistant [], te_time = time\<rparr>"
  have f: "cs_messages s = base @ rest" "tr_entries r = old @ new" "list_all2 (mirrors None) new rest"
      "\<forall>m \<in> set base. \<not> is_partial m" "tr_foldedLength r = int (length (cs_messages s))"
      "tr_pending r = cs_pending s" "list_all2 (mirrors None) (tr_deferred r) (cs_deferred s)" "ids_ok r"
    using l unfolding link_def by auto
  have lt: "\<forall>e \<in> set (old @ new). te_no e < tr_next r" using f(2,8) by (auto simp: ids_ok_def)
  have "list_all2 (mirrors (Some (tr_next r))) new rest"
    using f(3) by (rule all_mirrors_fresh) (use lt in auto)
  moreover have "mirrors (Some (tr_next r)) ?e open_assistant" by (simp add: mirrors_def)
  moreover have "tr_deferred r = []" using f(7) q(2) by simp
  ultimately show ?thesis using f lt q
    by (auto simp: link_def push_new_def tr_push_def list_all2_appendI open_table_def ids_ok_def
        intro: less_SucI)
qed

lemma link_closed_seal:
  assumes "link None base rest old new s r"
  shows "concat (map seal (cs_messages s)) = cs_messages s"
proof -
  have "\<forall>m \<in> set rest. \<not> is_partial m"
    using assms by (auto simp: link_def list_all2_conv_all_nth in_set_conv_nth mirrors_None)
  then show ?thesis using assms by (intro seal_skip) (auto simp: link_def)
qed

lemma link_begin:
  assumes "link oi base rest old new s r" "fold_inv s"
  shows "linked_from base old (foldLoopEvent s (StepBegin u)) (transcript_event (StepBegin u) time r)"
proof -
  obtain es where r1: "closePendingToolResults time r = closed_reducer es r" (is "_ = ?r1") and
    l1: "link oi base (drop (length base) (closed_messages s)) old (drop (length old) (tr_entries (closed_reducer es r)))
       (s\<lparr>cs_messages := closed_messages s, cs_pending := [],
          cs_deferred := (if cs_pending s = [] then cs_deferred s else [])\<rparr>) (closed_reducer es r)"
    (is "link _ _ ?rest _ ?new ?s1 _")
    by (rule link_close [OF assms])
  have d: "cs_deferred ?s1 = []" using assms(2) by (simp add: fold_inv_def)
  have p: "cs_pending ?s1 = []" by simp
  have ctx: "foldLoopEvent s (StepBegin u) =
      (?s1\<lparr>cs_messages := concat (map seal (cs_messages ?s1)), cs_openStepUuid := None\<rparr>)
        \<lparr>cs_openStepUuid := Some u, cs_messages := concat (map seal (cs_messages ?s1)) @ [open_assistant]\<rparr>"
    using d unfolding step_begin_eq [OF assms(2)] by simp
  have inv: "fold_inv (foldLoopEvent s (StepBegin u))"
    using fold_inv_step [OF assms(2), of "InEvent (StepBegin u)"] by simp
  show ?thesis
  proof (cases "tr_lastOpen ?r1")
    case None
    then have oi: "oi = None" "tr_openSteps ?r1 = []" "cs_openStepUuid ?s1 = None"
      using l1 by (auto simp: link_def open_table_def split: option.splits)
    have "transcript_event (StepBegin u) time r =
        (push_new (plain_message RAssistant []) time ?r1)\<lparr>tr_openSteps := [(u, tr_next ?r1)], tr_lastOpen := Some u\<rparr>"
      using None oi(2) by (simp add: r1 Let_def)
    moreover have "foldLoopEvent s (StepBegin u) =
        ?s1\<lparr>cs_openStepUuid := Some u, cs_messages := cs_messages ?s1 @ [open_assistant]\<rparr>"
      unfolding ctx link_closed_seal [OF l1 [unfolded oi(1)]] by simp
    ultimately show ?thesis
      using inv link_open [OF l1 [unfolded oi(1)] p d, of time u] unfolding linked_from_def by metis
  next
    case (Some v)
    obtain new2 where l2: "link None base (concat (map seal ?rest)) old new2
       (?s1\<lparr>cs_messages := concat (map seal (cs_messages ?s1)), cs_openStepUuid := None\<rparr>)
       ((settleStep v ?r1)\<lparr>tr_lastOpen := None\<rparr>)"
      using link_settle [OF l1 Some] by auto
    then have "tr_openSteps (settleStep v ?r1) = []" by (auto simp: link_def open_table_def)
    then have "transcript_event (StepBegin u) time r =
        (push_new (plain_message RAssistant []) time ((settleStep v ?r1)\<lparr>tr_lastOpen := None\<rparr>))
          \<lparr>tr_openSteps := [(u, tr_next ((settleStep v ?r1)\<lparr>tr_lastOpen := None\<rparr>))], tr_lastOpen := Some u\<rparr>"
      using Some by (simp add: r1 Let_def push_new_def tr_push_def)
    then show ?thesis
      using inv link_open [OF l2, of time u] p d unfolding linked_from_def ctx by fastforce
  qed
qed

lemma link_facts:
  assumes "link oi base rest old new s r"
  shows "cs_messages s = base @ rest" "tr_entries r = old @ new" "list_all2 (mirrors oi) new rest"
    "\<forall>m \<in> set base. \<not> is_partial m" "tr_foldedLength r = int (length base + length rest)"
    "\<forall>e \<in> set old. oi \<noteq> Some (te_no e)" "tr_lastOpen r = cs_openStepUuid s"
    "open_table (cs_openStepUuid s) oi new (tr_openSteps r)" "tr_pending r = cs_pending s"
    "list_all2 (mirrors None) (tr_deferred r) (cs_deferred s)" "ids_ok r" "cs_pending s \<noteq> [] \<longrightarrow> oi \<noteq> None"
  using assms unfolding link_def by auto

text \<open>Entries that mirror settled messages are appended on both sides.\<close>

lemma link_append:
  assumes l: "link oi base rest old new s r" and m: "list_all2 (mirrors None) es ms"
    and ids: "\<forall>e \<in> set es. e \<in> set (tr_deferred r) \<or> te_no e = tr_next r"
    and r2: "tr_entries r2 = tr_entries r @ es" "tr_foldedLength r2 = tr_foldedLength r + int (length es)"
      "tr_lastOpen r2 = tr_lastOpen r" "tr_openSteps r2 = tr_openSteps r" "ids_ok r2"
    and s2: "cs_messages s2 = cs_messages s @ ms" "cs_openStepUuid s2 = cs_openStepUuid s"
    and q: "tr_pending r2 = cs_pending s2" "list_all2 (mirrors None) (tr_deferred r2) (cs_deferred s2)"
      "cs_pending s2 \<noteq> [] \<longrightarrow> oi \<noteq> None"
  shows "link oi base (rest @ ms) old (new @ es) s2 r2"
proof -
  note f = link_facts [OF l]
  have "oi \<noteq> Some (te_no e)" if "e \<in> set es" for e
  proof (cases oi)
    case (Some i)
    then obtain e2 where "e2 \<in> set new" "te_no e2 = i"
      using f(8) by (auto simp: open_table_def split: option.splits)
    then have "i < tr_next r" "i \<notin> te_no ` set (tr_deferred r)" using f(2,11) by (auto simp: ids_ok_def)
    then show ?thesis using ids that Some by auto
  qed simp
  then have "list_all2 (mirrors oi) es ms" by (intro all_mirrors_fresh [OF m]) auto
  moreover have "length es = length ms" using m by (rule list_all2_lengthD)
  moreover have "open_table (cs_openStepUuid s) oi (new @ es) (tr_openSteps r)"
    using f(8) by (auto simp: open_table_def split: option.splits)
  ultimately show ?thesis using f r2 s2 q by (simp add: link_def list_all2_appendI)
qed

lemma link_flush:
  assumes l: "link oi base rest old new s r"
  shows "\<exists>rest2 new2. link oi base rest2 old new2 (flushDeferred s) (flushDeferredIfToolExchangeClosed r)"
proof (cases "cs_pending s \<noteq> [] \<or> cs_deferred s = []")
  case True
  then have "flushDeferred s = s" "flushDeferredIfToolExchangeClosed r = r"
    using link_facts(9,10) [OF l] by (auto simp: flushDeferred_def flushDeferredIfToolExchangeClosed_def)
  then show ?thesis using l by auto
next
  case False
  have "tr_deferred r \<noteq> []" using link_facts(10) [OF l] False by auto
  with False have eq: "flushDeferred s = s\<lparr>cs_messages := cs_messages s @ cs_deferred s, cs_deferred := []\<rparr>"
    "flushDeferredIfToolExchangeClosed r = (tr_push (tr_deferred r) r)\<lparr>tr_deferred := []\<rparr>"
    using link_facts(9) [OF l] by (auto simp: flushDeferred_def flushDeferredIfToolExchangeClosed_def)
  have "link oi base (rest @ cs_deferred s) old (new @ tr_deferred r) (flushDeferred s)
      (flushDeferredIfToolExchangeClosed r)"
    unfolding eq
    by (rule link_append [OF l link_facts(10) [OF l]])
      (use False link_facts [OF l] in \<open>auto simp: tr_push_def ids_ok_def\<close>)
  then show ?thesis by blast
qed

lemma link_message:
  assumes l: "link oi base rest old new s r" and m: "\<not> is_partial m"
  shows "\<exists>rest2 new2. link oi base rest2 old new2 (foldAppendMessage m s) (transcript_message m time r)"
proof -
  let ?e = "\<lparr>te_no = tr_next r, te_message = strip m, te_time = time\<rparr>"
  note f = link_facts [OF l]
  have me: "mirrors None ?e m" using m by (simp add: mirrors_def)
  have ids: "distinct (map te_no (tr_entries r @ tr_deferred r))"
      "\<forall>e \<in> set (tr_entries r @ tr_deferred r). te_no e < tr_next r"
    using f(11) by (auto simp: ids_ok_def)
  show ?thesis
  proof (cases "cs_pending s = []")
    case True
    then have "link oi base (rest @ [m]) old (new @ [?e]) (foldAppendMessage m s) (transcript_message m time r)"
      using f ids me
      by (intro link_append [OF l]) (auto simp: foldAppendMessage_def transcript_message_def Let_def tr_push_def ids_ok_def
          intro: less_SucI)
    then show ?thesis by blast
  next
    case False
    then have "link oi base rest old new (foldAppendMessage m s) (transcript_message m time r)"
      using f ids me
      by (auto simp: link_def foldAppendMessage_def transcript_message_def Let_def ids_ok_def list_all2_appendI
          intro: less_SucI)
    then show ?thesis by blast
  qed
qed

lemma link_result:
  assumes l: "link oi base rest old new s r"
  shows "\<exists>rest2 new2. link oi base rest2 old new2 (foldLoopEvent s (ToolResult i out er n))
    (transcript_event (ToolResult i out er n) time r)"
proof (cases "i \<in> set (cs_pending s)")
  case False
  then show ?thesis using l link_facts(9) [OF l] by auto
next
  case True
  note f = link_facts [OF l]
  let ?m = "(createToolMessage i out)\<lparr>cm_isError := er, cm_note := n\<rparr>"
  let ?e = "\<lparr>te_no = tr_next r, te_message = (createToolMessage i out)\<lparr>cm_isError := er\<rparr>, te_time = time\<rparr>"
  let ?s = "s\<lparr>cs_messages := cs_messages s @ [?m], cs_pending := js_set_delete i (cs_pending s)\<rparr>"
  let ?r = "(push_new ((createToolMessage i out)\<lparr>cm_isError := er\<rparr>) time r)\<lparr>tr_pending := js_set_delete i (tr_pending r)\<rparr>"
  have ids: "distinct (map te_no (tr_entries r @ tr_deferred r))"
      "\<forall>e \<in> set (tr_entries r @ tr_deferred r). te_no e < tr_next r"
    using f(11) by (auto simp: ids_ok_def)
  have oi: "oi \<noteq> None" using f(12) True by auto
  have "link oi base (rest @ [?m]) old (new @ [?e]) ?s ?r"
    by (rule link_append [OF l])
      (use f ids oi in \<open>auto simp: mirrors_None push_new_def tr_push_def ids_ok_def intro: less_SucI\<close>)
  from link_flush [OF this] show ?thesis
    using True f(9) by (simp add: Let_def push_new_def tr_push_def)
qed

lemma link_update:
  assumes l: "link oi base rest old new s r" and u: "cs_openStepUuid s = Some su" and inv: "fold_inv s"
    and f: "\<And>m. is_partial (g m) = is_partial m" "\<And>m. strip (g m) = h (strip m)"
  obtains i where "jm_get (tr_openSteps r) su = Some i" "oi = Some i"
    "appendToOpenAssistant g (cs_messages s) = base @ map (\<lambda>m. if is_partial m then g m else m) rest"
    "with_entry i h (tr_entries r) = old @ with_entry i h new"
    "list_all2 (mirrors oi) (with_entry i h new) (map (\<lambda>m. if is_partial m then g m else m) rest)"
proof -
  note ff = link_facts [OF l]
  obtain i where i: "oi = Some i" "tr_openSteps r = [(su, i)]"
    using ff(8) u by (auto simp: open_table_def split: option.splits)
  have one: "one_partial (cs_messages s)" using inv by (simp add: fold_inv_def)
  show thesis
  proof (rule that [OF _ i(1)])
    show "jm_get (tr_openSteps r) su = Some i" by (simp add: i(2))
    show "appendToOpenAssistant g (cs_messages s) = base @ map (\<lambda>m. if is_partial m then g m else m) rest"
      unfolding ff(1) using appendToOpenAssistant_map [OF one [unfolded ff(1)]] map_skip [OF ff(4)] by simp
    show "with_entry i h (tr_entries r) = old @ with_entry i h new"
      using ff(2,6) i(1) with_entry_skip [of old i h] by auto
    show "list_all2 (mirrors oi) (with_entry i h new) (map (\<lambda>m. if is_partial m then g m else m) rest)"
      unfolding i(1) by (rule with_entry_mirrors [OF ff(3) [unfolded i(1)] f])
  qed
qed

lemma ids_ok_with_entry:
  "ids_ok r \<Longrightarrow> tr_entries r2 = with_entry i h (tr_entries r) \<Longrightarrow> tr_deferred r2 = tr_deferred r \<Longrightarrow>
   tr_next r2 = tr_next r \<Longrightarrow> ids_ok r2"
proof -
  have s: "te_no ` set (with_entry i h es) = te_no ` set es" for es
    by (metis list.set_map with_entry_nos)
  assume "ids_ok r" "tr_entries r2 = with_entry i h (tr_entries r)" "tr_deferred r2 = tr_deferred r" "tr_next r2 = tr_next r"
  moreover have "te_no e < tr_next r" if "e \<in> set (with_entry i h (tr_entries r))" for e
  proof -
    have "te_no e \<in> te_no ` set (tr_entries r)" using that s [of "tr_entries r"] by blast
    then show ?thesis using \<open>ids_ok r\<close> by (auto simp: ids_ok_def)
  qed
  ultimately show "ids_ok r2" by (auto simp: ids_ok_def s)
qed

lemma open_table_with_entry: "open_table u oi (with_entry i h new) t = open_table u oi new t"
proof -
  have "te_no ` set (with_entry i h new) = te_no ` set new" by (metis list.set_map with_entry_nos)
  then show ?thesis by (simp add: open_table_def split: option.split)
qed

lemma link_part:
  assumes l: "link oi base rest old new s r" and u: "cs_openStepUuid s = Some su" and inv: "fold_inv s"
  shows "\<exists>rest2 new2. link oi base rest2 old new2 (foldLoopEvent s (ContentPart su part))
    (transcript_event (ContentPart su part) time r)"
proof -
  let ?g = "\<lambda>m. m\<lparr>cm_content := cm_content m @ [part]\<rparr>"
  obtain i where i: "jm_get (tr_openSteps r) su = Some i" "oi = Some i"
    "appendToOpenAssistant ?g (cs_messages s) = base @ map (\<lambda>m. if is_partial m then ?g m else m) rest"
    "with_entry i ?g (tr_entries r) = old @ with_entry i ?g new"
    "list_all2 (mirrors oi) (with_entry i ?g new) (map (\<lambda>m. if is_partial m then ?g m else m) rest)"
    by (rule link_update [OF l u inv, of ?g ?g]) simp_all
  let ?r = "transcript_event (ContentPart su part) time r"
  have r: "?r = r\<lparr>tr_entries := with_entry i ?g (tr_entries r)\<rparr>" using i(1) by simp
  have "ids_ok ?r" unfolding r by (rule ids_ok_with_entry [OF link_facts(11) [OF l]]) simp_all
  then have "link oi base (map (\<lambda>m. if is_partial m then ?g m else m) rest) old (with_entry i ?g new)
      (foldLoopEvent s (ContentPart su part)) ?r"
    unfolding r using i link_facts [OF l] by (simp add: link_def open_table_with_entry)
  then show ?thesis by blast
qed

lemma link_call:
  assumes l: "link oi base rest old new s r" and u: "cs_openStepUuid s = Some su" and inv: "fold_inv s"
  shows "\<exists>rest2 new2. link oi base rest2 old new2 (foldLoopEvent s (ToolCall su n name args display extras))
    (transcript_event (ToolCall su n name args display extras) time r)"
proof -
  let ?c = "\<lparr>call_id = n, call_name = name, call_arguments = args, call_extras = extras\<rparr>"
  let ?g = "add_call ?c display"
  let ?h = "\<lambda>m. m\<lparr>cm_toolCalls := cm_toolCalls m @ [?c]\<rparr>"
  obtain i where i: "jm_get (tr_openSteps r) su = Some i" "oi = Some i"
    "appendToOpenAssistant ?g (cs_messages s) = base @ map (\<lambda>m. if is_partial m then ?g m else m) rest"
    "with_entry i ?h (tr_entries r) = old @ with_entry i ?h new"
    "list_all2 (mirrors oi) (with_entry i ?h new) (map (\<lambda>m. if is_partial m then ?g m else m) rest)"
    by (rule link_update [OF l u inv, of ?g ?h]) simp_all
  let ?r = "transcript_event (ToolCall su n name args display extras) time r"
  have r: "?r = r\<lparr>tr_entries := with_entry i ?h (tr_entries r), tr_pending := js_set_add n (tr_pending r)\<rparr>"
    using i(1) by simp
  have "ids_ok ?r" unfolding r by (rule ids_ok_with_entry [OF link_facts(11) [OF l]]) simp_all
  then have "link oi base (map (\<lambda>m. if is_partial m then ?g m else m) rest) old (with_entry i ?h new)
      (foldLoopEvent s (ToolCall su n name args display extras)) ?r"
    unfolding r using i link_facts [OF l] by (simp add: link_def open_table_with_entry)
  then show ?thesis by blast
qed

lemma link_end:
  assumes l: "link oi base rest old new s r" and inv: "fold_inv s"
    and u: "cs_openStepUuid s = Some u" "cs_pending s = []"
  shows "\<exists>oi2 rest2 new2. link oi2 base rest2 old new2 (foldLoopEvent s (StepEnd u))
    (transcript_event (StepEnd u) time r)"
proof -
  note f = link_facts [OF l]
  have d: "cs_deferred s = []" using inv u(2) by (simp add: fold_inv_def)
  obtain new2 where l2: "link None base (concat (map seal rest)) old new2
       (s\<lparr>cs_messages := concat (map seal (cs_messages s)), cs_openStepUuid := None\<rparr>)
       ((settleStep u r)\<lparr>tr_lastOpen := None\<rparr>)" and o: "tr_lastOpen (settleStep u r) = Some u"
    using link_settle [OF l _ u(2)] f(7) u(1) by metis
  have "foldLoopEvent s (StepEnd u) = s\<lparr>cs_messages := concat (map seal (cs_messages s)), cs_openStepUuid := None\<rparr>"
    unfolding step_end_eq [OF inv] using u(2) d by (cases s) (simp add: closed_messages_def)
  moreover have "transcript_event (StepEnd u) time r = (settleStep u r)\<lparr>tr_lastOpen := None\<rparr>"
    using link_facts(10) [OF l2] d o
    by (simp add: Let_def flushDeferredIfToolExchangeClosed_def)
  ultimately show ?thesis using l2 by metis
qed

lemma compaction_length:
  "int (length (sh_messages (buildContextCompactionShape ms input))) =
     int (sh_keptUserMessageCount (buildContextCompactionShape ms input))
     + (if sh_keptHeadUserMessageCount (buildContextCompactionShape ms input) = None then 1 else 2)"
  by (simp add: buildContextCompactionShape_def Let_def)

lemma compaction_settled:
  assumes "fold_inv s"
  shows "\<forall>m \<in> set (cs_messages (contextApplyCompaction input s)). \<not> is_partial m"
proof -
  let ?ms = "collectCompactableUserMessages (cs_messages s)"
  have "\<forall>m \<in> set ?ms. \<not> is_partial m"
    using assms by (auto simp: fold_inv_def collectCompactableUserMessages_def isRealUserInput_def)
  then have "(\<forall>m \<in> set (sel_head (selectCompactionUserMessages ?ms mt ht)). \<not> is_partial m)
      \<and> (\<forall>m \<in> set (sel_tail (selectCompactionUserMessages ?ms mt ht)). \<not> is_partial m)" for mt ht
    by (intro selection_keeps) (auto simp: replaceMessageText_def is_partial_def)
  then show ?thesis
    by (auto simp: contextApplyCompaction_def buildContextCompactionShape_def resetFold_def Let_def
        createCompactionElisionMessage_def createCompactionSummaryMessage_def is_partial_def plain_message_def
        split: if_splits)
qed

text \<open>
  The records the loop writes: content, calls and the end of a step belong to the open step, a step
  ends when its calls have their results, and a compaction record carries the counts of its shape.
\<close>

fun matched :: "context_state \<Rightarrow> context_record \<Rightarrow> bool" where
  "matched s (RecMessage m) = plain m"
| "matched s (RecEvent (StepEnd u)) = (cs_openStepUuid s = Some u \<and> cs_pending s = [])"
| "matched s (RecEvent (ContentPart su part)) = (cs_openStepUuid s = Some su)"
| "matched s (RecEvent (ToolCall su i name args display extras)) = (cs_openStepUuid s = Some su)"
| "matched s (RecEvent _) = True"
| "matched s (RecCompaction input p) = (p = buildContextCompactionShape (cs_messages s) input)"
| "matched s (RecUndo _) = False"
| "matched s RecClear = True"

lemma linked_restart:
  assumes "fold_inv (resetFold ms)" "tr_foldedLength r = int (length ms)" "\<forall>m \<in> set ms. \<not> is_partial m"
    "tr_openSteps r = []" "tr_pending r = []" "tr_deferred r = []" "tr_lastOpen r = None" "ids_ok r"
  shows "linked (resetFold ms) r"
proof -
  have "link None ms [] (tr_entries r) [] (resetFold ms) r"
    using assms by (simp add: link_def open_table_def resetFold_def)
  then show ?thesis using assms(1) unfolding linked_def linked_from_def by blast
qed

lemma linked_from_step:
  assumes "linked_from base old s r" "matched s x" "case x of RecMessage _ \<Rightarrow> True | RecEvent _ \<Rightarrow> True | _ \<Rightarrow> False"
  shows "linked_from base old (context_add s x) (transcript_add r (x, time))"
proof -
  obtain oi rest new where l: "link oi base rest old new s r" and inv: "fold_inv s"
    using assms(1) unfolding linked_from_def by blast
  show ?thesis
  proof (cases x)
    case (RecMessage m)
    then have "plain m" using assms(2) by simp
    then have "fold_inv (foldAppendMessage m s)" "\<not> is_partial m"
      using fold_inv_step [OF inv, of "InMessage m"] by (simp_all add: plain_def)
    then show ?thesis using link_message [OF l, of m time] RecMessage
      by (simp add: linked_from_def) blast
  next
    case (RecEvent e)
    have inv2: "fold_inv (foldLoopEvent s e)" using fold_inv_step [OF inv, of "InEvent e"] by simp
    show ?thesis
    proof (cases e)
      case (StepBegin u)
      then show ?thesis using link_begin [OF l inv] RecEvent by simp
    next
      case (StepEnd u)
      then show ?thesis using link_end [OF l inv, of u time] inv2 assms(2) RecEvent
        by (simp add: linked_from_def del: foldLoopEvent.simps transcript_event.simps)
    next
      case (ContentPart su part)
      then show ?thesis using link_part [OF l _ inv, of su part time] inv2 assms(2) RecEvent
        by (simp add: linked_from_def del: foldLoopEvent.simps transcript_event.simps) blast
    next
      case (ToolCall su i name args display extras)
      then show ?thesis using link_call [OF l _ inv, of su i name args display extras time] inv2 assms(2) RecEvent
        by (simp add: linked_from_def del: foldLoopEvent.simps transcript_event.simps) blast
    next
      case (ToolResult i out er n)
      then show ?thesis using link_result [OF l, of i out er n time] inv2 RecEvent
        by (simp add: linked_from_def del: foldLoopEvent.simps transcript_event.simps) blast
    qed
  qed (use assms(3) in simp_all)
qed

lemma linked_step:
  assumes "linked s r" "matched s x"
  shows "linked (context_add s x) (transcript_add r (x, time))"
proof -
  obtain base old where lf: "linked_from base old s r" using assms(1) unfolding linked_def by blast
  then obtain oi rest new where l: "link oi base rest old new s r" and inv: "fold_inv s"
    unfolding linked_from_def by blast
  note f = link_facts [OF l]
  show ?thesis
  proof (cases x)
    case (RecMessage m)
    then show ?thesis using linked_from_step [OF lf assms(2), of time] by (auto simp: linked_def)
  next
    case (RecEvent e)
    then show ?thesis using linked_from_step [OF lf assms(2), of time] unfolding linked_def by auto
  next
    case (RecCompaction input p)
    let ?sh = "buildContextCompactionShape (cs_messages s) input"
    have p: "p = ?sh" using assms(2) RecCompaction by simp
    have np: "\<forall>m \<in> set (sh_messages ?sh). \<not> is_partial m"
      using compaction_settled [OF inv, of input] by (simp add: contextApplyCompaction_def resetFold_def)
    have "ids_ok (transcript_compaction p time r)"
      using f(11) by (auto simp: transcript_compaction_def resetOpenState_def ids_ok_def intro: less_SucI)
    then have "linked (resetFold (sh_messages ?sh)) (transcript_compaction p time r)"
      by (intro linked_restart)
        (use np compaction_length [of "cs_messages s" input] p fold_inv_start in
          \<open>auto simp: transcript_compaction_def resetOpenState_def\<close>)
    then show ?thesis using RecCompaction by (simp add: contextApplyCompaction_def)
  next
    case (RecUndo count)
    then show ?thesis using assms(2) by simp
  next
    case RecClear
    have restart: "linked (resetFold []) (transcript_clear r)"
      by (intro linked_restart)
        (use f(11) fold_inv_start in \<open>auto simp: transcript_clear_def resetOpenState_def ids_ok_def\<close>)
    show ?thesis
    proof (cases "cs_messages s = []")
      case True
      then have "oi = None" using f(1,2,3,8) by (auto simp: open_table_def split: option.splits)
      then have "cs_pending s = []" "cs_openStepUuid s = None" using f(8,12) by (auto simp: open_table_def split: option.splits)
      moreover then have "cs_deferred s = []" using inv by (simp add: fold_inv_def)
      ultimately have "s = resetFold []" using True by (cases s) (simp add: resetFold_def)
      with restart show ?thesis using RecClear True by (simp add: contextClear_def)
    next
      case False
      with restart show ?thesis using RecClear by (simp add: contextClear_def)
    qed
  qed
qed

fun matched_run :: "context_state \<Rightarrow> (context_record \<times> number option) list \<Rightarrow> bool" where
  "matched_run s [] = True"
| "matched_run s ((x, time) # xs) = (matched s x \<and> matched_run (context_add s x) xs)"

lemma linked_run:
  "linked s r \<Longrightarrow> matched_run s xs \<Longrightarrow> linked (foldl context_add s (map fst xs)) (foldl transcript_add r xs)"
proof (induction s xs arbitrary: r rule: matched_run.induct)
  case (2 s x time xs)
  then show ?case using linked_step [of s r x time] by simp
qed simp

lemma linked_start: "linked (resetFold []) new_reducer"
  by (rule linked_restart) (auto simp: new_reducer_def ids_ok_def fold_inv_start)

lemma linked_length: "linked s r \<Longrightarrow> tr_foldedLength r = int (length (cs_messages s))"
  unfolding linked_def linked_from_def by (auto simp: link_def)

text \<open>While nothing is compacted or cleared, the entries are the messages.\<close>

fun appends_only :: "context_record \<Rightarrow> bool" where
  "appends_only (RecMessage _) = True"
| "appends_only (RecEvent _) = True"
| "appends_only _ = False"

lemma linked_from_run:
  "linked_from base old s r \<Longrightarrow> matched_run s xs \<Longrightarrow> list_all (\<lambda>(x, _). appends_only x) xs \<Longrightarrow>
   linked_from base old (foldl context_add s (map fst xs)) (foldl transcript_add r xs)"
proof (induction s xs arbitrary: r rule: matched_run.induct)
  case (2 s x time xs)
  then show ?case using linked_from_step [of base old s r x time] by (cases x) simp_all
qed simp

lemma linked_from_start: "linked_from [] [] (resetFold []) new_reducer"
proof -
  have "link None [] [] [] [] (resetFold []) new_reducer"
    by (simp add: link_def open_table_def new_reducer_def ids_ok_def resetFold_def)
  then show ?thesis using fold_inv_start [of "[]"] unfolding linked_from_def by auto
qed

lemma mirrored_messages: "list_all2 (mirrors oi) es ms \<Longrightarrow> map te_message es = map strip ms"
  by (induction rule: list_all2_induct) (auto simp: mirrors_def)

lemma linked_from_entries:
  "linked_from [] [] s r \<Longrightarrow> map te_message (tr_entries r) = map strip (cs_messages s)"
  unfolding linked_from_def by (auto simp: link_def mirrored_messages)

end
