(* ===== verification/ContextProps.thy ===== *)
theory ContextProps
  imports ContextTranscript
begin

text \<open>
  The properties of the conversation history: what a provider is sent, what retries and undo leave
  behind, what a compaction keeps, and where the two reductions of the journal agree.
\<close>

definition sample_prompt :: "string \<Rightarrow> context_message" where
  "sample_prompt t = plain_message RUser [PText t]"

lemmas sample_simps = sample_prompt_def plain_message_def

section \<open>The fold\<close>

definition settled :: "context_state \<Rightarrow> bool" where
  "settled s \<longleftrightarrow> list_all (\<lambda>m. \<not> is_partial m) (cs_messages s) \<and> cs_pending s = [] \<and> cs_deferred s = []"

lemma settled_start:
  assumes "list_all (\<lambda>m. \<not> is_partial m) ms" "adjacent [] [] ms"
  shows "exchange_inv (resetFold ms)" "fold_inv (resetFold ms)"
proof -
  show "fold_inv (resetFold ms)" using assms(1) by (intro fold_inv_start) (simp add: list_all_iff)
  show "exchange_inv (resetFold ms)" using assms(2) by (simp add: exchange_inv_def resetFold_def)
qed

lemma history_settles:
  assumes "list_all (\<lambda>m. \<not> is_partial m) ms" "adjacent [] [] ms" "tidy (resetFold ms) xs"
  shows "let s = foldLoopEvent (fold_run (resetFold ms) xs) (StepEnd u)
    in settled s \<and> adjacent [] [] (cs_messages s)"
proof -
  have inv: "exchange_inv (fold_run (resetFold ms) xs)" "fold_inv (fold_run (resetFold ms) xs)"
    using exchange_run [OF settled_start [OF assms(1,2)] assms(3)] by auto
  then show ?thesis
    using adjacent_settled [OF inv] no_partial_sealed
    by (simp add: step_end_eq [OF inv(2)] Let_def settled_def list_all_iff del: foldLoopEvent.simps)
qed

text \<open>
  C10: What the provider is sent. Take a settled history in which every assistant message is followed
  by exactly the results of its calls, and feed the fold any records in which messages come from
  outside the loop and a call is recorded only while its assistant message is the last but for
  results. Whatever was left open, the next end of a step gives a history with no partial message,
  no pending call and no message held back, in which again the results of every assistant message
  directly follow it and no result stands anywhere else.
\<close>

theorem history_is_sendable:
  assumes "list_all (\<lambda>m. \<not> is_partial m) ms" "adjacent [] [] ms" "tidy (resetFold ms) xs"
  shows "let s = foldLoopEvent (fold_run (resetFold ms) xs) (StepEnd u)
    in settled s \<and> adjacent [] [] (cs_messages s)"
  using assms by (rule history_settles)

definition sample_call_event :: "string \<Rightarrow> fold_input" where
  "sample_call_event i = InEvent (ToolCall ''s'' i ''read'' None None JUndef)"

theorem history_is_sendable_witness:
  "let s = foldLoopEvent (fold_run (resetFold [])
        [InMessage (sample_prompt ''a''), InEvent (StepBegin ''s''), sample_call_event ''c1'',
         sample_call_event ''c2'', InMessage (sample_prompt ''b''),
         InEvent (ToolResult ''c2'' (OutText ''x'') None None)]) (StepEnd ''s'')
    in settled s \<and> adjacent [] [] (cs_messages s)"
  by (rule history_is_sendable) code_simp+

text \<open>
  No prompt is lost or reordered by the fold. Whatever loop events come between them, the user
  messages of the history followed by those held back are the ones there were, then the ones
  appended, in order.
\<close>

theorem fold_keeps_prompts:
  assumes "list_all (\<lambda>m. \<not> is_partial m) ms" "list_all input_ok xs"
  shows "filter from_user (cs_messages (fold_run (resetFold ms) xs) @ cs_deferred (fold_run (resetFold ms) xs))
    = filter from_user ms @ concat (map input_users xs)"
proof -
  have "fold_inv (resetFold ms)" using assms(1) by (intro fold_inv_start) (simp add: list_all_iff)
  from fold_run_users [OF this assms(2)] show ?thesis by (simp add: resetFold_def)
qed

theorem fold_keeps_prompts_witness:
  "filter from_user (cs_messages (fold_run (resetFold [])
       [InEvent (StepBegin ''s''), sample_call_event ''c1'', InMessage (sample_prompt ''b'')])
     @ cs_deferred (fold_run (resetFold [])
       [InEvent (StepBegin ''s''), sample_call_event ''c1'', InMessage (sample_prompt ''b'')]))
   = filter from_user [] @ concat (map input_users
       [InEvent (StepBegin ''s''), sample_call_event ''c1'', InMessage (sample_prompt ''b'')])"
  by (rule fold_keeps_prompts) code_simp+

lemma parts_run:
  assumes "fold_inv s" "cs_messages s = base @ [m]" "is_partial m" "\<forall>p \<in> set base. \<not> is_partial p"
  shows "fold_run s (map (\<lambda>p. InEvent (ContentPart su p)) parts)
    = s\<lparr>cs_messages := base @ [m\<lparr>cm_content := cm_content m @ parts\<rparr>]\<rparr>"
  using assms
proof (induction parts arbitrary: s m)
  case Nil
  then show ?case by (cases m) (simp add: fold_run_def)
next
  case (Cons p parts)
  have one: "one_partial (cs_messages s)" using Cons.prems(1) by (simp add: fold_inv_def)
  let ?s = "s\<lparr>cs_messages := base @ [m\<lparr>cm_content := cm_content m @ [p]\<rparr>]\<rparr>"
  have step: "fold_step s (InEvent (ContentPart su p)) = ?s"
    using Cons.prems one by (simp add: appendToOpenAssistant_map map_skip)
  have "fold_inv ?s" using fold_inv_step [OF Cons.prems(1), of "InEvent (ContentPart su p)"] step by simp
  from Cons.IH [OF this] Cons.prems(3,4) step show ?case by (simp add: fold_run_def)
qed

lemma retry_lemma:
  assumes inv: "fold_inv s" and v: "list_all isVacuousContentPart parts"
  shows "foldLoopEvent (fold_run (foldLoopEvent s (StepBegin u)) (map (\<lambda>p. InEvent (ContentPart u p)) parts)) (StepBegin v)
    = foldLoopEvent s (StepBegin v)"
proof -
  let ?b = "concat (map seal (closed_messages s))"
  let ?s1 = "foldLoopEvent s (StepBegin u)"
  have np: "\<forall>p \<in> set ?b. \<not> is_partial p" by (rule no_partial_sealed)
  have s1: "cs_messages ?s1 = ?b @ [open_assistant]" "cs_pending ?s1 = []" "cs_deferred ?s1 = []"
    unfolding step_begin_eq [OF inv] by simp_all
  have inv1: "fold_inv ?s1" using fold_inv_step [OF inv, of "InEvent (StepBegin u)"] by simp
  let ?o = "open_assistant\<lparr>cm_content := cm_content open_assistant @ parts\<rparr>"
  let ?s2 = "fold_run ?s1 (map (\<lambda>p. InEvent (ContentPart u p)) parts)"
  have s2: "?s2 = ?s1\<lparr>cs_messages := ?b @ [?o]\<rparr>"
    by (rule parts_run [OF inv1 s1(1) _ np]) simp
  have inv2: "fold_inv ?s2" by (rule fold_inv_run [OF inv1]) (simp add: list_all_iff)
  have vac: "seal ?o = []" using v by (simp add: seal_def) (simp add: open_assistant_def)
  have "cs_messages ?s2 = ?b @ [?o]" "cs_pending ?s2 = []" unfolding s2 using s1(2) by (simp_all del: foldLoopEvent.simps)
  then have "closed_messages ?s2 = ?b @ [?o]" by (simp only: closed_messages_def) simp
  then have e: "concat (map seal (closed_messages ?s2)) = ?b"
    using vac seal_skip [OF np] by (simp only: map_append concat_append) simp
  show ?thesis
    by (rule trans [OF step_begin_eq [OF inv2]], unfold e, rule step_begin_eq [OF inv, symmetric])
qed

text \<open>
  A failed attempt leaves no trace. When a step recorded nothing but vacuous content before the
  loop retries it, the \<open>step.begin\<close> of the retry gives exactly the state it would have given had the
  failed attempt never begun.
\<close>

theorem failed_attempt_leaves_no_trace:
  assumes "list_all (\<lambda>m. \<not> is_partial m) ms" "list_all input_ok xs" "list_all isVacuousContentPart parts"
  shows "foldLoopEvent (fold_run (foldLoopEvent (fold_run (resetFold ms) xs) (StepBegin u))
      (map (\<lambda>p. InEvent (ContentPart u p)) parts)) (StepBegin v)
    = foldLoopEvent (fold_run (resetFold ms) xs) (StepBegin v)"
proof -
  have "fold_inv (resetFold ms)" using assms(1) by (intro fold_inv_start) (simp add: list_all_iff)
  from fold_inv_run [OF this assms(2)] show ?thesis by (rule retry_lemma [OF _ assms(3)])
qed

theorem failed_attempt_leaves_no_trace_witness:
  "foldLoopEvent (fold_run (foldLoopEvent (fold_run (resetFold []) [InMessage (sample_prompt ''a'')]) (StepBegin ''s''))
      (map (\<lambda>p. InEvent (ContentPart ''s'' p)) [PText '' '', PThink [] None])) (StepBegin ''t'')
    = foldLoopEvent (fold_run (resetFold []) [InMessage (sample_prompt ''a'')]) (StepBegin ''t'')"
  by (rule failed_attempt_leaves_no_trace) code_simp+

section \<open>Undo\<close>

text \<open>
  C20: Undo travels back. From a settled history let a prompt and then any messages and loop events
  arrive until no call is pending, \<open>k\<close> undo anchors among them, the prompt first. Undoing \<open>k\<close>
  restores the history as it was before the prompt, without the injections the prompt owns at its
  end; and a checkpointed model, whatever its own operations did meanwhile, is restored exactly.
\<close>

theorem undo_restores:
  assumes "settled s" "fold_inv s" "isUndoAnchor m" "list_all input_ok (InMessage m # ys)"
    "list_all input_no_summary ys" "isValidUndoCount (int (anchor_inputs (InMessage m # ys)))"
    "cs_pending (fold_run s (InMessage m # ys)) = []"
  shows "contextUndo (int (anchor_inputs (InMessage m # ys))) (fold_run s (InMessage m # ys))
      = resetFold (rev (dropWhile (\<lambda>i. isPromptOwnedInjection i m) (rev (cs_messages s))))
    \<and> cp_undo (int (anchor_inputs (InMessage m # ys))) (cp_run react onAppend st (InMessage m # ys)) = st"
proof -
  have s: "\<forall>p \<in> set (cs_messages s). \<not> is_partial p" "cs_pending s = []"
    using assms(1) by (simp_all add: settled_def list_all_iff)
  show ?thesis
    using undo_restores_lemma [OF assms(2) s assms(3,4,5) refl assms(6,7)]
      cp_undo_run [OF assms(3) refl assms(6)] by blast
qed

theorem undo_restores_witness:
  "contextUndo (int (anchor_inputs [InMessage (sample_prompt ''b''), InMessage (sample_prompt ''c'')]))
      (fold_run (resetFold [sample_prompt ''a'']) [InMessage (sample_prompt ''b''), InMessage (sample_prompt ''c'')])
     = resetFold (rev (dropWhile (\<lambda>i. isPromptOwnedInjection i (sample_prompt ''b'')) (rev (cs_messages (resetFold [sample_prompt ''a''])))))
   \<and> cp_undo (int (anchor_inputs [InMessage (sample_prompt ''b''), InMessage (sample_prompt ''c'')]))
      (cp_run (\<lambda>_ n. n + 1) None \<lparr>cp_current = 4 :: nat, cp_checkpoints = []\<rparr>
         [InMessage (sample_prompt ''b''), InMessage (sample_prompt ''c'')])
     = \<lparr>cp_current = 4, cp_checkpoints = []\<rparr>"
  by (rule undo_restores) (code_simp | (intro fold_inv_start, simp add: sample_prompt_def))+

text \<open>
  Undo is exact or refused. With as many undoable prompts since the last compaction as asked
  for, \<open>context.undo\<close> cuts the history to a prefix in which exactly that many fewer are undoable;
  with fewer it changes nothing, and the check before it says how many there are.
\<close>

theorem undo_exact:
  assumes "isValidUndoCount (int k)"
  shows "if k \<le> undoable (rev (cs_messages s))
    then precheckUndo (cs_messages s) (int k) = UndoOk
       \<and> (\<exists>n. contextUndo (int k) s = resetFold (take n (cs_messages s))
           \<and> undoable (rev (take n (cs_messages s))) = undoable (rev (cs_messages s)) - k)
    else contextUndo (int k) s = s
       \<and> (\<exists>reason. precheckUndo (cs_messages s) (int k)
            = UndoNotOk reason (int k) (int (undoable (rev (cs_messages s)))))"
proof -
  have "0 < k" using assms by (simp add: isValidUndoCount_def)
  then show ?thesis
    using contextUndo_effect [OF assms, of s] computeUndoCut_enough [of k "cs_messages s"]
      computeUndoCut_short [of "cs_messages s" k]
    by (auto simp: precheckUndo_def Let_def split: if_splits)
qed

theorem undo_exact_witness:
  "if 1 \<le> undoable (rev (cs_messages (resetFold [sample_prompt ''a''])))
    then precheckUndo (cs_messages (resetFold [sample_prompt ''a''])) (int 1) = UndoOk
       \<and> (\<exists>n. contextUndo (int 1) (resetFold [sample_prompt ''a'']) = resetFold (take n (cs_messages (resetFold [sample_prompt ''a''])))
           \<and> undoable (rev (take n (cs_messages (resetFold [sample_prompt ''a'']))))
             = undoable (rev (cs_messages (resetFold [sample_prompt ''a'']))) - 1)
    else contextUndo (int 1) (resetFold [sample_prompt ''a'']) = resetFold [sample_prompt ''a'']
       \<and> (\<exists>reason. precheckUndo (cs_messages (resetFold [sample_prompt ''a''])) (int 1)
            = UndoNotOk reason (int 1) (int (undoable (rev (cs_messages (resetFold [sample_prompt ''a''])))))) "
  by (rule undo_exact) code_simp

text \<open>
  The clocks drift when a prompt is held back. A prompt that arrives while a tool call is pending
  has pushed a checkpoint but is not yet in the history: an undo of one prompt there removes both
  prompts from the history, while the checkpointed model goes back over the second only.
\<close>

theorem undo_in_open_exchange_drifts:
  "let xs = [InMessage (sample_prompt ''a''), InEvent (StepBegin ''s''), sample_call_event ''c'',
             InMessage (sample_prompt ''b'')];
       s = contextUndo 1 (fold_run (resetFold []) xs);
       st = cp_undo 1 (cp_run (\<lambda>_ n. n + 1) None \<lparr>cp_current = 0 :: nat, cp_checkpoints = []\<rparr> xs)
   in cs_messages s = [] \<and> cs_deferred s = [] \<and> st = \<lparr>cp_current = 2, cp_checkpoints = [0]\<rparr>"
  by code_simp

section \<open>Compaction\<close>

text \<open>
  C30: What a compaction keeps. The new history is a head and a tail of real user input around at
  most one elision note, then the summary: no summary, injection or tool traffic of before
  survives. What is kept is estimated at no more than two tokens over the budget, and its text is
  the front and the back of the user's text, unchanged and in order.
\<close>

theorem compaction_keeps:
  "\<exists>head tail elision.
     cs_messages (contextApplyCompaction input s) =
       head @ elision @ tail @ [createCompactionSummaryMessage
         (case ci_contextSummary input of Some c \<Rightarrow> c | None \<Rightarrow> ci_summary input)]
     \<and> real_inputs head \<and> real_inputs tail
     \<and> (elision = [] \<or> (\<exists>n. elision = [createCompactionElisionMessage n]))
     \<and> estimateTokensForMessages (head @ tail) \<le> COMPACT_USER_MESSAGE_MAX_TOKENS + 2
     \<and> (\<exists>mid. texts (collectCompactableUserMessages (cs_messages s)) = texts head @ mid @ texts tail)"
  by (rule compaction_messages)

section \<open>Two reductions of one journal\<close>

text \<open>
  C19: The display history and the live history agree. Reducing the records the loop writes, with their times
  (messages that are not partial, parts and calls of the step that is open, its end when no call is pending,
  results, compactions of the present history, clears; no undo), the transcript's \<open>foldedLength\<close> is
  the length of the live history at every point; and while nothing was compacted or cleared its
  entries are the live messages in the fields an entry has: id, role, content, tool calls, call id, error flag and
  origin. (An entry has no name, partial flag, tools, provider message id, note or displays: \<open>strip\<close>.)
\<close>

theorem transcript_agrees:
  assumes "matched_run (resetFold []) records"
  shows "tr_foldedLength (reduceContextTranscript records)
      = int (length (cs_messages (foldl context_add (resetFold []) (map fst records))))
    \<and> (if list_all (\<lambda>(x, _). appends_only x) records
       then map te_message (tr_entries (reduceContextTranscript records))
         = map strip (cs_messages (foldl context_add (resetFold []) (map fst records)))
       else True)"
  using linked_length [OF linked_run [OF linked_start assms]]
    linked_from_entries [OF linked_from_run [OF linked_from_start assms]]
  by (simp add: reduceContextTranscript_def)

definition sample_journal :: "(context_record \<times> number option) list" where
  "sample_journal =
     [(RecMessage (sample_prompt ''a''), None), (RecEvent (StepBegin ''s''), Some 1),
      (RecEvent (ToolCall ''s'' ''c'' ''read'' None None JUndef), None),
      (RecMessage (sample_prompt ''b''), None),
      (RecEvent (ToolResult ''c'' (OutText ''x'') None None), None), (RecEvent (StepEnd ''s''), None)]"

theorem transcript_agrees_witness:
  "tr_foldedLength (reduceContextTranscript sample_journal)
      = int (length (cs_messages (foldl context_add (resetFold []) (map fst sample_journal))))
    \<and> (if list_all (\<lambda>(x, _). appends_only x) sample_journal
       then map te_message (tr_entries (reduceContextTranscript sample_journal))
         = map strip (cs_messages (foldl context_add (resetFold []) (map fst sample_journal)))
       else True)"
  by (rule transcript_agrees) code_simp

text \<open>
  They part on undo. An injection the undone prompt does not own is cut from the live history
  with it, while the transcript steps over it: its \<open>foldedLength\<close> is then longer than the history.
\<close>

theorem undo_splits_the_reductions:
  "let note = (sample_prompt ''n'')\<lparr>cm_origin := Some (OrgInjection ''reminder'' None)\<rparr>;
       records = [(RecMessage (sample_prompt ''a''), None), (RecMessage note, None), (RecUndo 1, None)]
   in cs_messages (foldl context_add (resetFold []) (map fst records)) = []
      \<and> map te_message (tr_entries (reduceContextTranscript records)) = [note]
      \<and> tr_foldedLength (reduceContextTranscript records) = 1"
  by code_simp

end
