(* ===== verification/ProjectionLemmas.thy ===== *)
theory ProjectionLemmas
  imports ContextProjection ContextProps
begin

text \<open>
  Why the projection gives a provider what it accepts: it never throws, every assistant message is
  followed by exactly the results of its calls, and nothing else the history holds is lost. The layout of a list
  of messages says, position by position, which call a result is wanted for; the projection fills
  it from the left, and \<open>openSlots\<close> are the positions still to be filled.
\<close>

section \<open>A tool result is never empty\<close>

lemma js_trim_Nil: "js_trim s = [] \<longleftrightarrow> list_all is_space s"
proof -
  have "(\<forall>x \<in> set (dropWhile is_space s). is_space x) \<longleftrightarrow> list_all is_space s"
    by (induction s) auto
  then show ?thesis by (simp add: js_trim_def dropWhile_eq_Nil_conv)
qed

lemma trim_statuses:
  "js_trim TOOL_ERROR_STATUS \<noteq> []" "js_trim TOOL_EMPTY_STATUS \<noteq> []" "js_trim TOOL_EMPTY_ERROR_STATUS \<noteq> []"
  by (code_simp)+

lemma rendered_status: "list_ex (\<lambda>p. \<not> isBlankText p) (renderStatus r)"
proof -
  have "\<not> isEmptyOutputText t \<Longrightarrow> \<not> list_all is_space t" for t by (simp add: isEmptyOutputText_def js_trim_Nil)
  moreover have "\<not> isEmptyEquivalentContentArray ps \<Longrightarrow> list_ex (\<lambda>p. \<not> isBlankText p) ps" for ps
    by (auto simp: isEmptyEquivalentContentArray_def isBlankText_def list_ex_iff list_all_iff)
  ultimately show ?thesis using trim_statuses
    by (auto simp: renderStatus_def Let_def isBlankText_def js_trim_Nil split: option.split tool_output.split)
qed

lemma rendered_result: "list_ex (\<lambda>p. \<not> isBlankText p) (renderToolResultForModel r)"
proof -
  have "list_ex (\<lambda>p. \<not> isBlankText p) [PText (t @ [CHR 0x0A] @ n)]" if "renderStatus r = [PText t]" for t n
    using rendered_status [of r] that by (simp add: isBlankText_def js_trim_Nil)
  then show ?thesis using rendered_status [of r]
    by (auto simp: renderToolResultForModel_def Let_def split: option.split list.split content_part.split)
qed

text \<open>So the projection is a total function; this is what its steps compute.\<close>

definition wire_content :: "context_message \<Rightarrow> content_part list" where
  "wire_content m = fst (projr (projectedContent m))"

definition content_notes :: "context_message \<Rightarrow> anomaly list" where
  "content_notes m = snd (projr (projectedContent m))"

lemma projected_eq: "projectedContent m = Inr (wire_content m, content_notes m)"
proof -
  have "filter (\<lambda>p. \<not> isBlankText p) ps \<noteq> []" if "list_ex (\<lambda>p. \<not> isBlankText p) ps" for ps
    using that by (auto simp: list_ex_iff filter_empty_conv)
  then have "filter (\<lambda>p. \<not> isBlankText p) (renderToolResultForModel r) \<noteq> []" "renderToolResultForModel r \<noteq> []" for r
    using rendered_result [of r] by auto
  then have "\<exists>p. projectedContent m = Inr p" by (simp add: projectedContent_def cleanContent_def Let_def)
  then show ?thesis by (auto simp: wire_content_def content_notes_def)
qed

definition dropped :: "context_message \<Rightarrow> bool" where
  "dropped m \<longleftrightarrow> cm_toolCalls m = [] \<and> \<not> hasDeclaredTools m \<and> list_all isVacuousContentPart (wire_content m)"

definition emitted :: "context_message \<Rightarrow> projection \<Rightarrow> projection" where
  "emitted m s =
     (let s2 = s\<lparr>pj_anomalies := pj_anomalies s @ content_notes m\<rparr> in
      if \<not> dropped m then push_message m (wire_content m) s2
      else if wire_content m = [] then s2 else notice (VacuousMessageDropped (cm_role m)) s2)"

lemma emit_eq: "emit m s = Inr (emitted m s)"
  by (simp add: emit_def projected_eq emitted_def dropped_def Let_def)

definition placed :: "context_message \<Rightarrow> projection \<Rightarrow> projection" where
  "placed m s =
     (case cm_toolCallId m of
        None \<Rightarrow> s
      | Some i \<Rightarrow>
          (case jm_get (pj_openSlots s) i of
             None \<Rightarrow> notice (OrphanToolResultDropped i) (if pj_openSlots s \<noteq> [] then markForeignBetween s else s)
           | Some slot \<Rightarrow>
               let s2 = s\<lparr>pj_openSlots := jm_delete i (pj_openSlots s)\<rparr>;
                   s3 = (if os_foreignBetween slot then notice (ToolResultReordered i) s2 else s2)
               in s3\<lparr>pj_anomalies := pj_anomalies s3 @ content_notes m,
                     pj_out := (pj_out s3)[os_index slot := toWireMessage m (wire_content m)]\<rparr>))"

lemma place_eq: "place_result m s = Inr (placed m s)"
  by (simp add: place_result_def projected_eq placed_def Let_def split: option.split)

fun run :: "bool \<Rightarrow> int \<Rightarrow> nat \<Rightarrow> context_message list \<Rightarrow> projection \<Rightarrow> projection" where
  "run h l index [] s = s"
| "run h l index (m # ms) s =
     run h l (Suc index) ms
       (if cm_partial m = Some True then s
        else if cm_role m = RTool then (if h then placed m s else emitted m s)
        else open_slots index l (cm_toolCalls m) (emitted m s))"

lemma loop_eq: "project_loop h l index ms s = Inr (run h l index ms s)"
  by (induction ms arbitrary: h index s) (simp_all add: emit_eq place_eq)

section \<open>Layouts\<close>

text \<open>
  A list a strict provider accepts: every message that is not a result is followed by one result
  for each of its calls, in the order of the calls.
\<close>

function wire_ok :: "context_message list \<Rightarrow> bool" where
  "wire_ok [] = True"
| "wire_ok (m # ms) =
     (cm_role m \<noteq> RTool
      \<and> map (\<lambda>r. (cm_role r, cm_toolCallId r)) (take (length (cm_toolCalls m)) ms)
        = map (\<lambda>c. (RTool, Some (call_id c))) (cm_toolCalls m)
      \<and> wire_ok (drop (length (cm_toolCalls m)) ms))"
  by pat_completeness auto
termination by (relation "measure length") auto

definition wanted :: "tool_call list \<Rightarrow> string option option list" where
  "wanted calls = map (\<lambda>c. Some (Some (call_id c))) calls"

definition cells :: "context_message \<Rightarrow> string option option list" where
  "cells m = (if cm_role m = RTool then [] else None # wanted (cm_toolCalls m))"

definition layout :: "context_message list \<Rightarrow> string option option list" where
  "layout ms = concat (map cells ms)"

definition slot_id :: "context_message \<Rightarrow> string option option" where
  "slot_id m = (if cm_role m = RTool then Some (cm_toolCallId m) else None)"

lemma layout_simps [simp]:
  "layout [] = []" "layout (m # ms) = cells m @ layout ms" "layout (xs @ ys) = layout xs @ layout ys"
  by (simp_all add: layout_def)

lemma layout_tools: "tools_only ms \<Longrightarrow> layout ms = []"
  by (induction ms) (auto simp: tools_only_def cells_def)

lemma layout_hd: "layout ms = x # xs \<Longrightarrow> x = None"
  by (induction ms) (auto simp: cells_def split: if_splits)

lemma layout_update: "j < length out \<Longrightarrow> cells (out ! j) = cells m \<Longrightarrow> layout (out[j := m]) = layout out"
  by (metis layout_def map_update list_update_id)

lemma slots_wanted: "map slot_id ms = wanted calls \<longleftrightarrow>
    map (\<lambda>r. (cm_role r, cm_toolCallId r)) ms = map (\<lambda>c. (RTool, Some (call_id c))) calls"
proof (induction ms arbitrary: calls)
  case (Cons m ms)
  then show ?case by (cases calls) (auto simp: wanted_def slot_id_def)
qed (auto simp: wanted_def)

lemma wanted_tools: "map slot_id ms = wanted calls \<Longrightarrow> tools_only ms"
proof (induction ms arbitrary: calls)
  case (Cons m ms)
  then show ?case by (cases calls) (auto simp: wanted_def slot_id_def tools_only_def split: if_splits)
qed (simp add: tools_only_def)

lemma wire_ok_layout: "wire_ok out \<longleftrightarrow> map slot_id out = layout out"
proof (induction out rule: wire_ok.induct)
  case (2 m ms)
  let ?n = "length (cm_toolCalls m)"
  show ?case
  proof (cases "cm_role m = RTool")
    case True
    then show ?thesis using layout_hd [of ms "Some (cm_toolCallId m)" "map slot_id ms"]
      by (auto simp: cells_def slot_id_def eq_commute)
  next
    case False
    have len: "length (wanted (cm_toolCalls m)) = ?n" by (simp add: wanted_def)
    have "map slot_id ms = wanted (cm_toolCalls m) @ layout ms \<longleftrightarrow>
        map slot_id (take ?n ms) = wanted (cm_toolCalls m) \<and> map slot_id (drop ?n ms) = layout (drop ?n ms)"
      (is "?l \<longleftrightarrow> ?r")
    proof -
      have split: "layout ms = layout (take ?n ms) @ layout (drop ?n ms)"
        by (simp flip: layout_simps(3))
      have "map slot_id (take ?n ms) = wanted (cm_toolCalls m) \<Longrightarrow> layout ms = layout (drop ?n ms)"
        using split layout_tools [OF wanted_tools] by simp
      moreover have "?l \<longleftrightarrow> map slot_id (take ?n ms) = wanted (cm_toolCalls m) \<and> map slot_id (drop ?n ms) = layout ms"
        using append_eq_conv_conj [of "wanted (cm_toolCalls m)" "layout ms" "map slot_id ms"]
        unfolding len take_map drop_map by (simp add: eq_commute)
      ultimately show ?thesis by auto
    qed
    moreover have "slot_id m = None" "cells m = None # wanted (cm_toolCalls m)"
      using False by (simp_all add: slot_id_def cells_def)
    ultimately show ?thesis using False 2 slots_wanted by simp
  qed
qed simp

section \<open>The invariant of the projection\<close>

text \<open>
  \<open>todo\<close> are the results still to be pushed for the message emitted last; every other wanted
  position holds its result, or stands under its call in \<open>openSlots\<close>.
\<close>

definition slots_inv :: "string option option list \<Rightarrow> context_message list \<Rightarrow> (string, open_slot) jsmap \<Rightarrow> bool" where
  "slots_inv L out slots \<longleftrightarrow>
     length L = length out \<and> jm_ok slots
     \<and> (\<forall>j < length out. L ! j = slot_id (out ! j)
         \<or> cm_role (out ! j) = RTool \<and> (\<exists>i slot. L ! j = Some (Some i) \<and> jm_get slots i = Some slot \<and> os_index slot = j))
     \<and> (\<forall>i slot. jm_get slots i = Some slot \<longrightarrow>
         os_index slot < length out \<and> L ! os_index slot = Some (Some i) \<and> cm_role (out ! os_index slot) = RTool)"

definition merge_inv :: "context_message list \<Rightarrow> merge_group option \<Rightarrow> bool" where
  "merge_inv out merge \<longleftrightarrow>
     (case merge of None \<Rightarrow> True
      | Some g \<Rightarrow> mg_index g < length out \<and> cm_role (out ! mg_index g) = RUser \<and> cm_toolCalls (out ! mg_index g) = [])"

definition pj_inv :: "string option option list \<Rightarrow> projection \<Rightarrow> bool" where
  "pj_inv todo s \<longleftrightarrow>
     (\<exists>L. layout (pj_out s) = L @ todo \<and> slots_inv L (pj_out s) (pj_openSlots s)) \<and> merge_inv (pj_out s) (pj_merge s)"

lemma pj_inv_notice [simp]:
  "pj_inv todo (notice a s) = pj_inv todo s"
  "pj_inv todo (s\<lparr>pj_anomalies := ns\<rparr>) = pj_inv todo s"
  by (simp_all add: pj_inv_def notice_def)

lemma jm_get_map: "jm_get (map (\<lambda>(k, v). (k, f v)) m) k = map_option f (jm_get m k)"
  by (induction m) (auto simp: jm_get_def)

lemma pj_inv_mark: "pj_inv todo s \<Longrightarrow> pj_inv todo (markForeignBetween s)"
proof -
  let ?f = "\<lambda>slot. slot\<lparr>os_foreignBetween := True\<rparr>"
  have "jm_ok slots \<Longrightarrow> jm_ok (map (\<lambda>(i, slot). (i, ?f slot)) slots)" for slots :: "(string, open_slot) jsmap"
    by (simp add: jm_ok_def case_prod_beta' comp_def)
  then have "slots_inv L out slots \<Longrightarrow> slots_inv L out (map (\<lambda>(i, slot). (i, ?f slot)) slots)" for L out slots
    unfolding slots_inv_def jm_get_map by (auto 0 3)
  then show "pj_inv todo s \<Longrightarrow> ?thesis" unfolding pj_inv_def markForeignBetween_def by auto
qed

lemma slots_inv_update:
  assumes "slots_inv L out slots" "j < length out" "slot_id m = slot_id (out ! j)"
  shows "slots_inv L (out[j := m]) slots"
proof -
  have "cm_role m = RTool \<longleftrightarrow> cm_role (out ! j) = RTool" using assms(3) by (auto simp: slot_id_def split: if_splits)
  with assms show ?thesis unfolding slots_inv_def by (simp add: nth_list_update)
qed

lemma slots_inv_push:
  assumes "slots_inv L out slots"
  shows "slots_inv (L @ [slot_id m]) (out @ [m]) slots"
  using assms unfolding slots_inv_def by (auto simp: nth_append less_Suc_eq)

lemma pj_inv_flush:
  assumes "pj_inv todo s"
  shows "pj_inv todo (flushMerge s)"
proof (cases "pj_merge s")
  case (Some g)
  have g: "mg_index g < length (pj_out s)" "cm_role (pj_out s ! mg_index g) = RUser"
    "cm_toolCalls (pj_out s ! mg_index g) = []"
    using assms Some by (auto simp: pj_inv_def merge_inv_def)
  have m: "cm_role (merged_message g) = RUser" "cm_toolCalls (merged_message g) = []"
    by (simp_all add: merged_message_def plain_message_def Let_def)
  show ?thesis using assms Some g m slots_inv_update [OF _ g(1), of _ _ "merged_message g"]
    by (auto simp: pj_inv_def merge_inv_def flushMerge_def layout_update cells_def slot_id_def)
qed (use assms in \<open>simp add: flushMerge_def\<close>)

lemma flush_merge [simp]: "pj_merge (flushMerge s) = None"
  by (simp add: flushMerge_def split: option.split)

lemma wire_simps [simp]:
  "cm_role (toWireMessage m c) = cm_role m" "cm_toolCalls (toWireMessage m c) = cm_toolCalls m"
  "cm_toolCallId (toWireMessage m c) = cm_toolCallId m" "cm_content (toWireMessage m c) = c"
  by (simp_all add: toWireMessage_def plain_message_def)

lemma merge_inv_push: "merge_inv out g \<Longrightarrow> merge_inv (out @ ms) g"
  by (auto simp: merge_inv_def nth_append split: option.split)

lemma pj_inv_push:
  assumes "pj_inv [] s" "cm_role m \<noteq> RTool" "canMergeUserMessage m \<Longrightarrow> cm_toolCalls m = []"
  shows "pj_inv (wanted (cm_toolCalls m)) (push_message m c s)"
proof -
  define t where "t = (if pj_openSlots s \<noteq> [] then markForeignBetween s else s)"
  have t: "pj_inv [] t" using assms(1) pj_inv_mark by (simp add: t_def)
  have new: "\<exists>L2. layout (out @ [toWireMessage m c]) = L2 @ wanted (cm_toolCalls m) \<and> slots_inv L2 (out @ [toWireMessage m c]) slots"
    if "layout out = L" "slots_inv L out slots" for L out slots
    using slots_inv_push [OF that(2), of "toWireMessage m c"] that(1) assms(2) by (simp add: cells_def slot_id_def)
  show ?thesis
  proof (cases "canMergeUserMessage m")
    case True
    then have u: "cm_role m = RUser" "wanted (cm_toolCalls m) = []"
      using assms(3) by (auto simp: canMergeUserMessage_def wanted_def)
    show ?thesis
    proof (cases "pj_merge t")
      case None
      then show ?thesis using t new u assms(3) True
        unfolding push_message_def t_def [symmetric] pj_inv_def
        by (auto simp: push_merged_def merge_inv_def)
    next
      case (Some g)
      have "mg_index (appendMergeContent h d) = mg_index h" for h d by (simp add: appendMergeContent_def)
      then show ?thesis using t Some u True
        unfolding push_message_def t_def [symmetric] pj_inv_def
        by (auto simp: push_merged_def merge_inv_def Let_def split: option.split)
    qed
  next
    case False
    then show ?thesis using pj_inv_flush [OF t] new
      unfolding push_message_def t_def [symmetric] pj_inv_def by (auto simp: Let_def merge_inv_def)
  qed
qed

lemma pj_inv_emitted:
  assumes "pj_inv [] s" "cm_role m \<noteq> RTool" "canMergeUserMessage m \<Longrightarrow> cm_toolCalls m = []"
  shows "pj_inv (wanted (cm_toolCalls m)) (emitted m s)"
proof (cases "dropped m")
  case True
  then have "wanted (cm_toolCalls m) = []" by (simp add: dropped_def wanted_def)
  with True assms(1) show ?thesis by (simp add: emitted_def Let_def)
next
  case False
  then show ?thesis using assms by (simp add: emitted_def Let_def pj_inv_push)
qed

lemma slots_inv_cong:
  "slots_inv L out slots \<Longrightarrow> jm_ok slots2 \<Longrightarrow> (\<And>k. jm_get slots2 k = jm_get slots k) \<Longrightarrow> slots_inv L out slots2"
  by (simp add: slots_inv_def)

lemma slots_inv_fill:
  assumes "slots_inv L out slots" "jm_get slots i = Some slot" "slot_id m = Some (Some i)"
  shows "slots_inv L (out[os_index slot := m]) (jm_delete i slots)"
    "layout (out[os_index slot := m]) = layout out"
    "map cm_role (out[os_index slot := m]) = map cm_role out"
proof -
  have at: "os_index slot < length out" "L ! os_index slot = Some (Some i)" "cm_role (out ! os_index slot) = RTool"
    using assms(1,2) by (auto simp: slots_inv_def)
  have m: "cm_role m = RTool" using assms(3) by (auto simp: slot_id_def split: if_splits)
  show "layout (out[os_index slot := m]) = layout out" using at m by (simp add: layout_update cells_def)
  show "map cm_role (out[os_index slot := m]) = map cm_role out"
    using at m by (simp add: map_update) (metis list_update_id length_map nth_map)
  have "L ! j = slot_id ((out[os_index slot := m]) ! j) \<or> cm_role ((out[os_index slot := m]) ! j) = RTool
      \<and> (\<exists>k sl. L ! j = Some (Some k) \<and> jm_get (jm_delete i slots) k = Some sl \<and> os_index sl = j)"
    if j: "j < length out" for j
  proof (cases "os_index slot = j")
    case True
    then show ?thesis using j at assms(3) by simp
  next
    case False
    have "L ! j = slot_id (out ! j) \<or> cm_role (out ! j) = RTool \<and> (\<exists>k sl. L ! j = Some (Some k) \<and> jm_get slots k = Some sl \<and> os_index sl = j)"
      using assms(1) j by (simp add: slots_inv_def)
    moreover have "jm_get slots k = Some sl \<Longrightarrow> os_index sl = j \<Longrightarrow> jm_get (jm_delete i slots) k = Some sl" for k sl
      using assms(2) False by auto
    moreover have "(out[os_index slot := m]) ! j = out ! j" using False by simp
    ultimately show ?thesis by metis
  qed
  moreover have "os_index sl < length out \<and> L ! os_index sl = Some (Some k) \<and> cm_role ((out[os_index slot := m]) ! os_index sl) = RTool"
    if "jm_get (jm_delete i slots) k = Some sl" for k sl
    using assms(1) that m by (cases "os_index slot = os_index sl") (auto simp: slots_inv_def split: if_splits)
  ultimately show "slots_inv L (out[os_index slot := m]) (jm_delete i slots)"
    using assms(1) by (simp add: slots_inv_def jm_ok_delete)
qed

lemma slots_inv_open:
  assumes "slots_inv L out slots" "jm_get slots i = None"
  shows "slots_inv (L @ [Some (Some i)]) (out @ [TOOL_RESULT_SLOT])
    (jm_set i \<lparr>os_index = length out, os_ownerIndex = n, os_foreignBetween = False\<rparr> slots)"
proof -
  have r: "cm_role TOOL_RESULT_SLOT = RTool" by (simp add: TOOL_RESULT_SLOT_def createInterruptedToolResult_def plain_message_def)
  have len: "length L = length out" using assms(1) by (simp add: slots_inv_def)
  have old: "L ! j = slot_id (out ! j) \<or> cm_role (out ! j) = RTool
      \<and> (\<exists>k sl. k \<noteq> i \<and> L ! j = Some (Some k) \<and> jm_get slots k = Some sl \<and> os_index sl = j)" if "j < length out" for j
    using assms that by (fastforce simp: slots_inv_def)
  show ?thesis using assms(1) r old
    by (auto simp: slots_inv_def nth_append len less_Suc_eq jm_ok_set) metis+
qed

lemma merge_inv_fill:
  assumes "merge_inv out g" "cm_role (out ! j) = RTool"
  shows "merge_inv (out[j := m]) g"
proof -
  have "j \<noteq> k" if "cm_role (out ! k) = RUser" for k using assms(2) that by auto
  then show ?thesis using assms(1) by (auto simp: merge_inv_def split: option.splits)
qed

lemma pj_inv_open:
  assumes "pj_inv (Some (Some i) # todo) s"
  shows "pj_inv todo (open_slot_for index l i s)"
proof -
  obtain L where L: "layout (pj_out s) = L @ Some (Some i) # todo" "slots_inv L (pj_out s) (pj_openSlots s)"
    and mi: "merge_inv (pj_out s) (pj_merge s)" using assms by (auto simp: pj_inv_def)
  have res: "cm_role (createInterruptedToolResult j) = RTool" "slot_id (createInterruptedToolResult j) = Some (Some j)" for j
    by (simp_all add: createInterruptedToolResult_def plain_message_def slot_id_def)
  have ok: "jm_ok (pj_openSlots s)" using L(2) by (simp add: slots_inv_def)
  have slot: "cells TOOL_RESULT_SLOT = []" using res by (simp add: TOOL_RESULT_SLOT_def cells_def)
  show ?thesis
  proof (cases "jm_get (pj_openSlots s) i")
    case None
    then show ?thesis using L mi slots_inv_open [OF L(2) None, of index] slot merge_inv_push [OF mi]
      by (auto simp: open_slot_for_def pj_inv_def Let_def intro!: exI [of _ "L @ [Some (Some i)]"])
  next
    case (Some old)
    let ?out = "(pj_out s)[os_index old := createInterruptedToolResult i]"
    let ?new = "\<lparr>os_index = length ?out, os_ownerIndex = index, os_foreignBetween = False\<rparr>"
    note f = slots_inv_fill [OF L(2) Some res(2)]
    have "slots_inv (L @ [Some (Some i)]) (?out @ [TOOL_RESULT_SLOT]) (jm_set i ?new (jm_delete i (pj_openSlots s)))"
      by (rule slots_inv_open [OF f(1)]) simp
    then have "slots_inv (L @ [Some (Some i)]) (?out @ [TOOL_RESULT_SLOT]) (jm_set i ?new (pj_openSlots s))"
      by (rule slots_inv_cong) (simp_all add: jm_ok_set ok)
    moreover have "cm_role (pj_out s ! os_index old) = RTool" using L(2) Some by (simp add: slots_inv_def)
    then have "merge_inv (?out @ [TOOL_RESULT_SLOT]) (pj_merge s)" by (intro merge_inv_push merge_inv_fill mi)
    ultimately show ?thesis using L(1) f(2) slot Some
      by (auto simp: open_slot_for_def pj_inv_def Let_def notice_def intro!: exI [of _ "L @ [Some (Some i)]"])
  qed
qed

lemma pj_inv_opens: "pj_inv (wanted calls @ todo) s \<Longrightarrow> pj_inv todo (open_slots index l calls s)"
  by (induction calls arbitrary: s) (simp_all add: wanted_def pj_inv_open)

lemma pj_inv_placed:
  assumes "pj_inv [] s" "cm_role m = RTool"
  shows "pj_inv [] (placed m s)"
proof (cases "cm_toolCallId m")
  case (Some i)
  show ?thesis
  proof (cases "jm_get (pj_openSlots s) i")
    case None
    then show ?thesis using assms pj_inv_mark Some by (simp add: placed_def)
  next
    case slot: (Some slot)
    obtain L where L: "layout (pj_out s) = L" "slots_inv L (pj_out s) (pj_openSlots s)"
      and mi: "merge_inv (pj_out s) (pj_merge s)" using assms by (auto simp: pj_inv_def)
    have "slot_id (toWireMessage m (wire_content m)) = Some (Some i)" using assms(2) Some by (simp add: slot_id_def)
    note f = slots_inv_fill [OF L(2) slot this]
    have "cm_role (pj_out s ! os_index slot) = RTool" using L(2) slot by (simp add: slots_inv_def)
    then have "merge_inv ((pj_out s)[os_index slot := toWireMessage m (wire_content m)]) (pj_merge s)"
      by (intro merge_inv_fill mi)
    then show ?thesis using f L(1) Some slot by (auto simp: placed_def pj_inv_def Let_def notice_def)
  qed
qed (use assms in \<open>simp add: placed_def\<close>)

definition calls_ok :: "context_message list \<Rightarrow> bool" where
  "calls_ok history \<longleftrightarrow> (\<forall>m \<in> set history. cm_toolCalls m \<noteq> [] \<longrightarrow> cm_role m = RAssistant)"

lemma pj_inv_run:
  "pj_inv [] s \<Longrightarrow> calls_ok ms \<Longrightarrow> h \<or> (\<forall>m \<in> set ms. cm_role m \<noteq> RTool) \<Longrightarrow> pj_inv [] (run h l index ms s)"
proof (induction ms arbitrary: index s)
  case (Cons m ms)
  have c: "calls_ok ms" "canMergeUserMessage m \<Longrightarrow> cm_toolCalls m = []"
    using Cons.prems(2) by (auto simp: calls_ok_def canMergeUserMessage_def)
  have "pj_inv [] (open_slots index l (cm_toolCalls m) (emitted m s))" if "cm_role m \<noteq> RTool"
    using pj_inv_opens [of _ "[]"] pj_inv_emitted [OF Cons.prems(1) that c(2)] by simp
  then have "pj_inv [] (if cm_partial m = Some True then s
        else if cm_role m = RTool then (if h then placed m s else emitted m s)
        else open_slots index l (cm_toolCalls m) (emitted m s))"
    using Cons.prems pj_inv_placed [OF Cons.prems(1)] by (cases h) auto
  moreover have "h \<or> (\<forall>m \<in> set ms. cm_role m \<noteq> RTool)" using Cons.prems(3) by auto
  ultimately show ?case using c(1) Cons.IH by simp
qed simp

lemma fill_slots_ok:
  assumes "layout (pj_out s) = L" "slots_inv L (pj_out s) slots" "merge_inv (pj_out s) (pj_merge s)"
  shows "pj_inv [] ((fill_slots l slots s)\<lparr>pj_openSlots := []\<rparr>)"
  using assms
proof (induction l slots s rule: fill_slots.induct)
  case (2 l i slot slots s)
  have "slot_id (createInterruptedToolResult i) = Some (Some i)"
    by (simp add: createInterruptedToolResult_def plain_message_def slot_id_def)
  moreover have g: "jm_get ((i, slot) # slots) i = Some slot" by (simp add: jm_get_def)
  ultimately have f: "slots_inv L ((pj_out s)[os_index slot := createInterruptedToolResult i]) (jm_delete i ((i, slot) # slots))"
    "layout ((pj_out s)[os_index slot := createInterruptedToolResult i]) = layout (pj_out s)"
    using slots_inv_fill [OF 2(3)] by simp_all
  have "i \<notin> fst ` set slots" using 2(3) by (simp add: slots_inv_def jm_ok_def)
  then have "jm_delete i ((i, slot) # slots) = slots" by (auto simp: jm_delete_def filter_id_conv) force
  moreover have "cm_role (pj_out s ! os_index slot) = RTool" using 2(3) g by (simp add: slots_inv_def)
  ultimately show ?case using 2 f by (simp add: notice_def merge_inv_fill)
qed (auto simp: pj_inv_def)

lemma pj_inv_done: "pj_inv [] s \<Longrightarrow> pj_openSlots s = [] \<Longrightarrow> map slot_id (pj_out s) = layout (pj_out s)"
  by (auto simp: pj_inv_def slots_inv_def intro!: nth_equalityI)

lemma flush_keeps_slots [simp]: "pj_openSlots (flushMerge s) = pj_openSlots s"
  by (simp add: flushMerge_def split: option.split)

definition start_projection :: projection where
  "start_projection = \<lparr>pj_out = [], pj_openSlots = [], pj_merge = None, pj_anomalies = []\<rparr>"

text \<open>What \<open>project\<close> computes, as one state.\<close>

definition has_assistant :: "context_message list \<Rightarrow> bool" where
  "has_assistant history \<longleftrightarrow> list_ex (\<lambda>m. cm_partial m \<noteq> Some True \<and> cm_role m = RAssistant) history"

definition final_projection :: "context_message list \<Rightarrow> projection" where
  "final_projection history =
     (let l = last_non_tool history (length history); s = run (has_assistant history) l 0 history start_projection
      in flushMerge ((fill_slots l (pj_openSlots s) s)\<lparr>pj_openSlots := []\<rparr>))"

lemma flush_out: "pj_out (flushMerge (s\<lparr>pj_openSlots := x\<rparr>)) = pj_out (flushMerge s)"
  "pj_anomalies (flushMerge (s\<lparr>pj_openSlots := x\<rparr>)) = pj_anomalies (flushMerge s)"
  by (simp_all add: flushMerge_def split: option.split)

lemma project_eq: "project history = Inr (pj_out (final_projection history), pj_anomalies (final_projection history))"
  by (simp add: project_def final_projection_def loop_eq has_assistant_def start_projection_def Let_def flush_out)

lemma final_wire_ok:
  assumes "calls_ok history" "has_assistant history \<or> (\<forall>m \<in> set history. cm_role m \<noteq> RTool)"
  shows "wire_ok (pj_out (final_projection history))"
proof -
  have "pj_inv [] start_projection"
    by (simp add: start_projection_def pj_inv_def slots_inv_def merge_inv_def)
  from pj_inv_run [OF this assms] fill_slots_ok
  have "pj_inv [] ((fill_slots l (pj_openSlots s) s)\<lparr>pj_openSlots := []\<rparr>)"
    if "s = run (has_assistant history) l 0 history start_projection" for l s
    unfolding that by (simp add: pj_inv_def)
  then show ?thesis unfolding wire_ok_layout final_projection_def Let_def
    by (intro pj_inv_done pj_inv_flush) simp_all
qed

section \<open>What the projection keeps\<close>

text \<open>
  The user messages of the output, a merged group shown as it will be written; the group is the last
  user message, and only slots follow it.
\<close>

definition is_user :: "context_message \<Rightarrow> bool" where
  "is_user m \<longleftrightarrow> cm_role m = RUser"

definition is_other :: "context_message \<Rightarrow> bool" where
  "is_other m \<longleftrightarrow> cm_role m \<noteq> RUser \<and> cm_role m \<noteq> RTool"

definition shown :: "projection \<Rightarrow> context_message list" where
  "shown s =
     (let us = filter is_user (pj_out s) in
      case pj_merge s of
        None \<Rightarrow> us
      | Some g \<Rightarrow> if mg_singleContent g = None then butlast us @ [merged_message g] else us)"

definition group_at :: "context_message list \<Rightarrow> merge_group \<Rightarrow> bool" where
  "group_at out g \<longleftrightarrow>
     (\<exists>us u ts. out = us @ u # ts \<and> mg_index g = length us \<and> is_user u \<and> tools_only ts
        \<and> (\<forall>c. mg_singleContent g = Some c \<longrightarrow> cm_content u = c))"

definition group_inv :: "context_message list \<Rightarrow> merge_group option \<Rightarrow> bool" where
  "group_inv out merge \<longleftrightarrow>
     (case merge of
        None \<Rightarrow> True
      | Some g \<Rightarrow> group_at out g \<and> (mg_singleContent g \<noteq> None \<longrightarrow> mg_parts g = [] \<and> mg_texts g = [])
          \<and> list_all (\<lambda>p. \<not> is_text p) (mg_parts g))"

lemma filter_update: "\<not> P (xs ! j) \<Longrightarrow> \<not> P y \<Longrightarrow> filter P (xs[j := y]) = filter P xs"
  by (induction xs arbitrary: j) (auto split: nat.split)

lemma tools_filter: "tools_only ts \<Longrightarrow> filter is_user ts = [] \<and> filter is_other ts = []"
  by (auto simp: tools_only_def is_user_def is_other_def filter_empty_conv)

lemma merged_user [simp]: "is_user (merged_message g)" "\<not> is_other (merged_message g)"
  by (simp_all add: is_user_def is_other_def merged_message_def plain_message_def Let_def)

lemma flush_shown:
  assumes "group_inv (pj_out s) (pj_merge s)"
  shows "filter is_user (pj_out (flushMerge s)) = shown s" "filter is_other (pj_out (flushMerge s)) = filter is_other (pj_out s)"
proof (atomize (full), cases "pj_merge s")
  case (Some g)
  then obtain us u ts where o: "pj_out s = us @ u # ts" "mg_index g = length us" "is_user u" "tools_only ts"
    using assms by (auto simp: group_inv_def group_at_def)
  have "\<not> is_other u" using o(3) by (simp add: is_user_def is_other_def)
  then show "filter is_user (pj_out (flushMerge s)) = shown s \<and> filter is_other (pj_out (flushMerge s)) = filter is_other (pj_out s)"
    using Some o tools_filter [OF o(4)] by (auto simp: flushMerge_def shown_def Let_def)
qed (simp add: flushMerge_def shown_def)

text \<open>A result written over a slot, or a new slot, changes neither.\<close>

lemma group_at_slot:
  assumes "group_at out g" "cm_role (out ! j) = RTool" "cm_role m = RTool"
  shows "group_at (out[j := m]) g"
proof -
  from assms(1) obtain us u ts where o: "out = us @ u # ts" "mg_index g = length us" "is_user u" "tools_only ts"
    "\<forall>c. mg_singleContent g = Some c \<longrightarrow> cm_content u = c" by (auto simp: group_at_def)
  have ne: "j \<noteq> length us" using assms(2) o(1,3) by (auto simp: is_user_def)
  have ts: "tools_only (ts[k := m])" for k
    using o(4) assms(3) set_update_subset_insert [of ts k m] by (auto simp: tools_only_def)
  show ?thesis
  proof (cases "j < length us")
    case True
    then have "out[j := m] = us[j := m] @ u # ts" by (simp add: o(1) list_update_append)
    then show ?thesis using o(2-) unfolding group_at_def by (metis length_list_update)
  next
    case False
    then obtain k where "j = Suc (length us + k)" using ne by (metis less_imp_Suc_add linorder_neqE_nat)
    then have "out[j := m] = us @ u # ts[k := m]" by (simp add: o(1) list_update_append)
    then show ?thesis using o(2-) ts unfolding group_at_def by metis
  qed
qed

lemma group_at_push:
  assumes "group_at out g" "cm_role m = RTool"
  shows "group_at (out @ [m]) g"
proof -
  from assms(1) obtain us u ts where o: "out = us @ u # ts" "mg_index g = length us" "is_user u" "tools_only ts"
    "\<forall>c. mg_singleContent g = Some c \<longrightarrow> cm_content u = c" by (auto simp: group_at_def)
  have "tools_only (ts @ [m])" using o(4) assms(2) by (simp add: tools_only_def)
  moreover have "out @ [m] = us @ u # (ts @ [m])" by (simp add: o(1))
  ultimately show ?thesis using o(2,3,5) unfolding group_at_def by metis
qed

lemma group_inv_slot:
  "group_inv out merge \<Longrightarrow> cm_role (out ! j) = RTool \<Longrightarrow> cm_role m = RTool \<Longrightarrow> group_inv (out[j := m]) merge"
  by (auto simp: group_inv_def group_at_slot split: option.split)

lemma group_inv_push: "group_inv out merge \<Longrightarrow> cm_role m = RTool \<Longrightarrow> group_inv (out @ [m]) merge"
  by (auto simp: group_inv_def group_at_push split: option.split)

text \<open>
  A view of content: what of it the projection may not lose. Vacuous parts show nothing, and a merged
  group shows what its messages do.
\<close>

locale content_view =
  fixes view :: "content_part list \<Rightarrow> 'a list"
  assumes view_append: "view (xs @ ys) = view xs @ view ys"
    and view_vacuous: "isVacuousContentPart p \<Longrightarrow> view [p] = []"
    and view_merged: "list_all (\<lambda>p. \<not> is_text p) (mg_parts g) \<Longrightarrow>
      view (cm_content (merged_message (appendMergeContent g c))) = view (cm_content (merged_message g)) @ view c"
begin

lemma view_Nil: "view [] = []"
  using view_append [of "[]" "[]"] by simp

lemma view_Cons: "view (p # ps) = view [p] @ view ps"
  using view_append [of "[p]" ps] by simp

lemma view_all_vacuous: "list_all isVacuousContentPart ps \<Longrightarrow> view ps = []"
  by (induction ps) (simp_all add: view_Nil view_Cons [of _ "_ # _"] view_vacuous, metis view_Cons view_vacuous append_Nil)

lemma view_clean: "view (filter (\<lambda>p. \<not> isBlankText p) ps) = view ps"
proof (induction ps)
  case (Cons p ps)
  have "isBlankText p \<Longrightarrow> view [p] = []"
    by (rule view_vacuous) (auto simp: isBlankText_def isVacuousContentPart_def split: content_part.splits)
  then show ?case using Cons view_Cons [of p ps] view_Cons [of p "filter (\<lambda>p. \<not> isBlankText p) ps"] by auto
qed simp

end

definition view_of :: "(content_part list \<Rightarrow> 'a list) \<Rightarrow> context_message list \<Rightarrow> 'a list" where
  "view_of view ms = concat (map (\<lambda>m. view (cm_content m)) ms)"

definition others :: "projection \<Rightarrow> context_message list" where
  "others s = filter is_other (pj_out s)"

lemma view_of_simps [simp]:
  "view_of view [] = []" "view_of view (m # ms) = view (cm_content m) @ view_of view ms"
  "view_of view (xs @ ys) = view_of view xs @ view_of view ys"
  by (simp_all add: view_of_def)

lemma shown_cong: "pj_out s2 = pj_out s \<Longrightarrow> pj_merge s2 = pj_merge s \<Longrightarrow> shown s2 = shown s \<and> others s2 = others s"
  by (simp add: shown_def others_def)

lemma mark_simps [simp]:
  "pj_out (markForeignBetween s) = pj_out s" "pj_merge (markForeignBetween s) = pj_merge s"
  by (simp_all add: markForeignBetween_def)

lemma notice_simps [simp]:
  "pj_out (notice a s) = pj_out s" "pj_merge (notice a s) = pj_merge s" "pj_openSlots (notice a s) = pj_openSlots s"
  by (simp_all add: notice_def)

lemma group_simps [simp]:
  "merged_message (g\<lparr>mg_singleContent := x\<rparr>) = merged_message g"
  "appendMergeContent (g\<lparr>mg_singleContent := x\<rparr>) c = (appendMergeContent g c)\<lparr>mg_singleContent := x\<rparr>"
  "mg_singleContent (appendMergeContent g c) = mg_singleContent g"
  "mg_index (appendMergeContent g c) = mg_index g"
  "list_all (\<lambda>p. \<not> is_text p) (mg_parts (appendMergeContent g c)) \<longleftrightarrow> list_all (\<lambda>p. \<not> is_text p) (mg_parts g)"
  by (auto simp: merged_message_def appendMergeContent_def list_all_iff Let_def)

lemma wire_content_plain: "cm_role m \<noteq> RTool \<Longrightarrow> wire_content m = filter (\<lambda>p. \<not> isBlankText p) (cm_content m)"
  by (auto simp: wire_content_def projectedContent_def cleanContent_def Let_def list_ex_iff filter_id_conv)

context content_view
begin

lemma push_shown:
  assumes "group_inv (pj_out s) (pj_merge s)"
  shows "group_inv (pj_out (push_message m c s)) (pj_merge (push_message m c s))"
    "view_of view (shown (push_message m c s)) = view_of view (shown s) @ (if is_user m then view c else [])"
    "others (push_message m c s) = others s @ (if is_other m then [toWireMessage m c] else [])"
proof -
  define t where "t = (if pj_openSlots s \<noteq> [] then markForeignBetween s else s)"
  have t: "pj_out t = pj_out s" "pj_merge t = pj_merge s" by (simp_all add: t_def)
  have st: "shown t = shown s" "others t = others s" using shown_cong [OF t] by simp_all
  have inv: "group_inv (pj_out t) (pj_merge t)" using assms t by simp
  have w: "is_user (toWireMessage m c) = is_user m" "is_other (toWireMessage m c) = is_other m"
    by (simp_all add: is_user_def is_other_def)
  show "group_inv (pj_out (push_message m c s)) (pj_merge (push_message m c s))"
    "view_of view (shown (push_message m c s)) = view_of view (shown s) @ (if is_user m then view c else [])"
    "others (push_message m c s) = others s @ (if is_other m then [toWireMessage m c] else [])"
  proof (atomize (full), cases "canMergeUserMessage m")
    case False
    then have "push_message m c s = (flushMerge t)\<lparr>pj_out := pj_out (flushMerge t) @ [toWireMessage m c]\<rparr>"
      by (simp add: push_message_def t_def Let_def)
    then show "group_inv (pj_out (push_message m c s)) (pj_merge (push_message m c s))
      \<and> view_of view (shown (push_message m c s)) = view_of view (shown s) @ (if is_user m then view c else [])
      \<and> others (push_message m c s) = others s @ (if is_other m then [toWireMessage m c] else [])"
      using flush_shown [OF inv] st w by (simp add: group_inv_def shown_def others_def)
  next
    case True
    then have u: "is_user m" "\<not> is_other m" by (simp_all add: canMergeUserMessage_def is_user_def is_other_def)
    have p: "push_message m c s = push_merged m c t" using True by (simp add: push_message_def t_def Let_def)
    show "group_inv (pj_out (push_message m c s)) (pj_merge (push_message m c s))
      \<and> view_of view (shown (push_message m c s)) = view_of view (shown s) @ (if is_user m then view c else [])
      \<and> others (push_message m c s) = others s @ (if is_other m then [toWireMessage m c] else [])"
    proof (cases "pj_merge t")
      case None
      have "group_at (pj_out t @ [toWireMessage m c])
          \<lparr>mg_index = length (pj_out t), mg_singleContent = Some c, mg_texts = [], mg_parts = []\<rparr>"
        using u w unfolding group_at_def
        by (intro exI [of _ "pj_out t"] exI [of _ "toWireMessage m c"] exI [of _ "[]"]) (simp add: tools_only_def)
      then show ?thesis using None u w unfolding p st [symmetric]
        by (simp add: push_merged_def group_inv_def shown_def others_def)
    next
      case (Some g)
      then obtain us v ts where o: "pj_out t = us @ v # ts" "mg_index g = length us" "is_user v" "tools_only ts"
        "\<forall>c. mg_singleContent g = Some c \<longrightarrow> cm_content v = c"
        and g: "mg_singleContent g \<noteq> None \<longrightarrow> mg_parts g = [] \<and> mg_texts g = []" "list_all (\<lambda>p. \<not> is_text p) (mg_parts g)"
        using inv by (auto simp: group_inv_def group_at_def)
      define g2 where "g2 = (case mg_singleContent g of None \<Rightarrow> g | Some c0 \<Rightarrow> (appendMergeContent g c0)\<lparr>mg_singleContent := None\<rparr>)"
      have pm: "push_merged m c t = t\<lparr>pj_merge := Some (appendMergeContent g2 c)\<rparr>"
        using Some by (simp add: push_merged_def g2_def Let_def)
      have g2: "mg_singleContent g2 = None" "mg_index g2 = length us" "list_all (\<lambda>p. \<not> is_text p) (mg_parts g2)"
        using g o(2) by (auto simp: g2_def split: option.split)
      have "group_at (pj_out t) (appendMergeContent g2 c)" using o g2 unfolding group_at_def by auto
      moreover have "view (cm_content (merged_message g2)) = (case mg_singleContent g of None \<Rightarrow> view (cm_content (merged_message g)) | Some c0 \<Rightarrow> view c0)"
        using g view_merged [OF g(2)]
        by (auto simp: g2_def merged_message_def plain_message_def view_Nil split: option.split)
      ultimately show ?thesis using o g2 u Some tools_filter [OF o(4)] view_merged [OF g2(3)] unfolding p pm st [symmetric]
        by (auto simp: group_inv_def shown_def others_def Let_def butlast_append split: option.splits)
    qed
  qed
qed

lemma emitted_shown:
  assumes "group_inv (pj_out s) (pj_merge s)"
  shows "group_inv (pj_out (emitted m s)) (pj_merge (emitted m s))"
    "view_of view (shown (emitted m s)) = view_of view (shown s) @ (if is_user m then view (cm_content m) else [])"
    "others (emitted m s) = others s @ (if is_other m \<and> \<not> dropped m then [toWireMessage m (wire_content m)] else [])"
proof -
  let ?s = "s\<lparr>pj_anomalies := pj_anomalies s @ content_notes m\<rparr>"
  have inv: "group_inv (pj_out ?s) (pj_merge ?s)" using assms by simp
  have s: "shown ?s = shown s" "others ?s = others s" by (simp_all add: shown_def others_def)
  have n: "shown (notice a q) = shown q" "others (notice a q) = others q" for a q by (simp_all add: shown_def others_def)
  have v: "view (wire_content m) = view (cm_content m)" if "is_user m"
    using that wire_content_plain [of m] view_clean by (simp add: is_user_def)
  have d: "view (cm_content m) = []" if "dropped m" "is_user m"
    using that v view_all_vacuous by (simp add: dropped_def)
  show "group_inv (pj_out (emitted m s)) (pj_merge (emitted m s))"
    "view_of view (shown (emitted m s)) = view_of view (shown s) @ (if is_user m then view (cm_content m) else [])"
    "others (emitted m s) = others s @ (if is_other m \<and> \<not> dropped m then [toWireMessage m (wire_content m)] else [])"
    using push_shown [OF inv, of m "wire_content m"] assms d v by (simp_all add: emitted_def Let_def s n)
qed

end

lemma slot_step:
  assumes "group_inv (pj_out s) (pj_merge s)" "cm_role (pj_out s ! j) = RTool" "cm_role m = RTool"
    "pj_out s2 = (pj_out s)[j := m]" "pj_merge s2 = pj_merge s"
  shows "group_inv (pj_out s2) (pj_merge s2) \<and> shown s2 = shown s \<and> others s2 = others s"
  using assms group_inv_slot
  by (simp add: shown_def others_def filter_update is_user_def is_other_def)

lemma open_shown:
  assumes "pj_inv (Some (Some i) # todo) s" "group_inv (pj_out s) (pj_merge s)"
  shows "group_inv (pj_out (open_slot_for n l i s)) (pj_merge (open_slot_for n l i s))
    \<and> shown (open_slot_for n l i s) = shown s \<and> others (open_slot_for n l i s) = others s"
proof -
  have r: "cm_role TOOL_RESULT_SLOT = RTool" "cm_role (createInterruptedToolResult i) = RTool"
    by (simp_all add: TOOL_RESULT_SLOT_def createInterruptedToolResult_def plain_message_def)
  have push: "group_inv (out @ [TOOL_RESULT_SLOT]) mg \<and> filter is_user (out @ [TOOL_RESULT_SLOT]) = filter is_user out
      \<and> filter is_other (out @ [TOOL_RESULT_SLOT]) = filter is_other out" if "group_inv out mg" for out mg
    using group_inv_push [OF that r(1)] r(1) by (simp add: is_user_def is_other_def)
  show ?thesis
  proof (cases "jm_get (pj_openSlots s) i")
    case None
    then show ?thesis using push [OF assms(2)]
      by (simp add: open_slot_for_def Let_def shown_def others_def)
  next
    case (Some old)
    then have "cm_role (pj_out s ! os_index old) = RTool" using assms(1) by (auto simp: pj_inv_def slots_inv_def)
    from slot_step [OF assms(2) this r(2), of "s\<lparr>pj_out := (pj_out s)[os_index old := createInterruptedToolResult i]\<rparr>"]
    have q: "group_inv ((pj_out s)[os_index old := createInterruptedToolResult i]) (pj_merge s)"
      "shown (s\<lparr>pj_out := (pj_out s)[os_index old := createInterruptedToolResult i]\<rparr>) = shown s"
      "others (s\<lparr>pj_out := (pj_out s)[os_index old := createInterruptedToolResult i]\<rparr>) = others s" by simp_all
    from q(2,3) push [OF q(1)] Some show ?thesis
      by (simp add: open_slot_for_def Let_def shown_def others_def)
  qed
qed

lemma opens_shown:
  assumes "pj_inv (wanted calls @ todo) s" "group_inv (pj_out s) (pj_merge s)"
  shows "group_inv (pj_out (open_slots n l calls s)) (pj_merge (open_slots n l calls s))
    \<and> shown (open_slots n l calls s) = shown s \<and> others (open_slots n l calls s) = others s"
  using assms
proof (induction calls arbitrary: s)
  case (Cons c calls)
  let ?i = "call_id c"
  have p: "pj_inv (Some (Some ?i) # wanted calls @ todo) s" using Cons.prems(1) by (simp add: wanted_def)
  from Cons.IH [OF pj_inv_open [OF p]] open_shown [OF p Cons.prems(2)] show ?case by simp
qed simp

lemma placed_shown:
  assumes "pj_inv [] s" "cm_role m = RTool" "group_inv (pj_out s) (pj_merge s)"
  shows "group_inv (pj_out (placed m s)) (pj_merge (placed m s)) \<and> shown (placed m s) = shown s \<and> others (placed m s) = others s"
proof (cases "\<exists>i slot. cm_toolCallId m = Some i \<and> jm_get (pj_openSlots s) i = Some slot")
  case True
  then obtain i slot where i: "cm_toolCallId m = Some i" "jm_get (pj_openSlots s) i = Some slot" by blast
  then have "cm_role (pj_out s ! os_index slot) = RTool" using assms(1) by (auto simp: pj_inv_def slots_inv_def)
  moreover have "pj_out (placed m s) = (pj_out s)[os_index slot := toWireMessage m (wire_content m)]"
    "pj_merge (placed m s) = pj_merge s" using i by (simp_all add: placed_def Let_def)
  ultimately show ?thesis using slot_step [OF assms(3)] assms(2) wire_simps(1) by metis
next
  case False
  then have "pj_out (placed m s) = pj_out s" "pj_merge (placed m s) = pj_merge s"
    by (auto simp: placed_def split: option.split)
  then show ?thesis using assms(3) shown_cong [of "placed m s" s] by simp
qed

text \<open>What a strict reader wants of the input: the messages that are not partial, and their calls.\<close>

definition settled_messages :: "context_message list \<Rightarrow> context_message list" where
  "settled_messages history = filter (\<lambda>m. cm_partial m \<noteq> Some True) history"

definition wired :: "context_message list \<Rightarrow> context_message list" where
  "wired ms = map (\<lambda>m. toWireMessage m (wire_content m)) (filter (\<lambda>m. is_other m \<and> \<not> dropped m) ms)"

context content_view
begin

lemma run_shown:
  assumes "pj_inv [] s" "group_inv (pj_out s) (pj_merge s)" "calls_ok ms" "h \<or> (\<forall>m \<in> set ms. cm_role m \<noteq> RTool)"
  shows "group_inv (pj_out (run h l n ms s)) (pj_merge (run h l n ms s))
    \<and> view_of view (shown (run h l n ms s)) = view_of view (shown s) @ view_of view (filter is_user (settled_messages ms))
    \<and> others (run h l n ms s) = others s @ wired (settled_messages ms)"
  using assms
proof (induction ms arbitrary: n s)
  case Nil
  then show ?case by (simp add: settled_messages_def wired_def)
next
  case (Cons m ms)
  let ?s = "if cm_partial m = Some True then s
    else if cm_role m = RTool then (if h then placed m s else emitted m s)
    else open_slots n l (cm_toolCalls m) (emitted m s)"
  have rest: "calls_ok ms" "h \<or> (\<forall>m \<in> set ms. cm_role m \<noteq> RTool)" "canMergeUserMessage m \<Longrightarrow> cm_toolCalls m = []"
    using Cons.prems(3,4) by (auto simp: calls_ok_def canMergeUserMessage_def)
  have e: "pj_inv (wanted (cm_toolCalls m) @ []) (emitted m s)" if "cm_role m \<noteq> RTool"
    using pj_inv_emitted [OF Cons.prems(1) that rest(3)] by simp
  have "pj_inv [] ?s" using Cons.prems pj_inv_placed [OF Cons.prems(1)] pj_inv_opens [OF e] by (cases h) auto
  moreover have "group_inv (pj_out ?s) (pj_merge ?s)
      \<and> view_of view (shown ?s) = view_of view (shown s) @ view_of view (filter is_user (settled_messages [m]))
      \<and> others ?s = others s @ wired (settled_messages [m])"
  proof (cases "cm_partial m = Some True")
    case False
    show ?thesis
    proof (cases "cm_role m = RTool")
      case True
      then show ?thesis using False Cons.prems placed_shown [OF Cons.prems(1) True Cons.prems(2)]
        by (auto simp: settled_messages_def wired_def is_user_def is_other_def)
    next
      case nt: False
      show ?thesis using False nt opens_shown [OF e [OF nt]] emitted_shown [OF Cons.prems(2), of m]
        by (simp add: settled_messages_def wired_def)
    qed
  qed (use Cons.prems in \<open>simp add: settled_messages_def wired_def\<close>)
  ultimately show ?case using Cons.IH [of ?s "Suc n"] rest
    by (simp add: settled_messages_def wired_def del: view_of_simps(2) split del: if_split)
      (simp add: view_of_def split: if_splits)
qed

end

lemma fill_shown:
  assumes "slots_inv L (pj_out s) slots" "group_inv (pj_out s) (pj_merge s)"
  shows "group_inv (pj_out (fill_slots l slots s)) (pj_merge (fill_slots l slots s))
    \<and> shown (fill_slots l slots s) = shown s \<and> others (fill_slots l slots s) = others s"
  using assms
proof (induction l slots s rule: fill_slots.induct)
  case (2 l i slot slots s)
  have g: "jm_get ((i, slot) # slots) i = Some slot" by (simp add: jm_get_def)
  have r: "cm_role (createInterruptedToolResult i) = RTool" "slot_id (createInterruptedToolResult i) = Some (Some i)"
    by (simp_all add: createInterruptedToolResult_def plain_message_def slot_id_def)
  have "i \<notin> fst ` set slots" using 2(2) by (simp add: slots_inv_def jm_ok_def)
  then have "jm_delete i ((i, slot) # slots) = slots" by (auto simp: jm_delete_def filter_id_conv) force
  then have si: "slots_inv L ((pj_out s)[os_index slot := createInterruptedToolResult i]) slots"
    using slots_inv_fill(1) [OF 2(2) g r(2)] by simp
  let ?s = "notice (ToolResultSynthesized i (l \<le> int (os_ownerIndex slot)))
    (s\<lparr>pj_out := (pj_out s)[os_index slot := createInterruptedToolResult i]\<rparr>)"
  have "cm_role (pj_out s ! os_index slot) = RTool" using 2(2) g by (simp add: slots_inv_def)
  from slot_step [OF 2(3) this r(1), of ?s] have "group_inv (pj_out ?s) (pj_merge ?s) \<and> shown ?s = shown s \<and> others ?s = others s"
    by simp
  then show ?case using 2(1) si by simp
qed simp

context content_view
begin

lemma final_keeps:
  assumes "calls_ok history" "has_assistant history \<or> (\<forall>m \<in> set history. cm_role m \<noteq> RTool)"
  shows "view_of view (filter is_user (pj_out (final_projection history)))
      = view_of view (filter is_user (settled_messages history))"
    "filter is_other (pj_out (final_projection history)) = wired (settled_messages history)"
proof -
  let ?l = "last_non_tool history (length history)"
  let ?s = "run (has_assistant history) ?l 0 history start_projection"
  have start: "pj_inv [] start_projection" "group_inv (pj_out start_projection) (pj_merge start_projection)"
    "shown start_projection = []" "others start_projection = []"
    by (simp_all add: start_projection_def pj_inv_def slots_inv_def merge_inv_def group_inv_def shown_def others_def)
  from pj_inv_run [OF start(1) assms] obtain L where L: "slots_inv L (pj_out ?s) (pj_openSlots ?s)" by (auto simp: pj_inv_def)
  note r = run_shown [OF start(1,2) assms, of ?l 0]
  let ?f = "(fill_slots ?l (pj_openSlots ?s) ?s)\<lparr>pj_openSlots := []\<rparr>"
  from fill_shown [OF L, of ?l] r have f: "group_inv (pj_out ?f) (pj_merge ?f)" "shown ?f = shown ?s" "others ?f = others ?s"
    by (simp_all add: shown_def others_def)
  from flush_shown [OF f(1)] f r start(3,4)
  show "view_of view (filter is_user (pj_out (final_projection history)))
      = view_of view (filter is_user (settled_messages history))"
    "filter is_other (pj_out (final_projection history)) = wired (settled_messages history)"
    by (simp_all add: final_projection_def Let_def others_def)
qed

end

end
