(* ===== verification/ProjectionProps.thy ===== *)
theory ProjectionProps
  imports ProjectionLemmas
begin

text \<open>
  The properties of the projection: what a provider is sent from any history, what the strict
  projection adds for providers that reject more, what the fallbacks do to media, that a history the
  fold settled needs no repair of its tool exchanges, and when a repair is reported.
\<close>

section \<open>Two views of what a user wrote\<close>

definition visible_text :: "content_part list \<Rightarrow> string" where
  "visible_text ps = filter (\<lambda>c. \<not> is_space c) (text_of ps)"

definition media_of :: "content_part list \<Rightarrow> content_part list" where
  "media_of ps = filter isDegradableMediaPart ps"

lemma text_of_simps [simp]:
  "text_of [] = []" "text_of (PText t # ps) = t @ text_of ps" "text_of (xs @ ys) = text_of xs @ text_of ys"
  by (simp_all add: text_of_def)

lemma text_of_no_text: "list_all (\<lambda>p. \<not> is_text p) ps \<Longrightarrow> text_of ps = []"
  by (induction ps) (auto simp: text_of_def is_text_def split: content_part.splits)

lemma join_snoc: "filter (\<lambda>c. \<not> is_space c) (join [CHR 0x0A, CHR 0x0A] ts)
    = concat (map (filter (\<lambda>c. \<not> is_space c)) ts)"
  by (induction "[CHR 0x0A, CHR 0x0A]" ts rule: join.induct) (simp_all add: is_space_def)

lemma merged_content: "cm_content (merged_message g) =
    (if join [CHR 0x0A, CHR 0x0A] (mg_texts g) = [] then [] else [PText (join [CHR 0x0A, CHR 0x0A] (mg_texts g))]) @ mg_parts g"
  by (simp add: merged_message_def plain_message_def Let_def)

interpretation visible: content_view visible_text
proof
  fix p assume "isVacuousContentPart p"
  then show "visible_text [p] = []"
    by (cases p) (auto simp: visible_text_def text_of_def isVacuousContentPart_def js_trim_Nil list_all_iff)
next
  fix g :: merge_group and c assume p: "list_all (\<lambda>p. \<not> is_text p) (mg_parts g)"
  have q: "list_all (\<lambda>p. \<not> is_text p) (mg_parts (appendMergeContent g c))" using p by simp
  have "visible_text (cm_content (merged_message h)) = concat (map (filter (\<lambda>c. \<not> is_space c)) (mg_texts h))"
    if "list_all (\<lambda>p. \<not> is_text p) (mg_parts h)" for h :: merge_group
  proof -
    have "text_of (cm_content (merged_message h)) = join [CHR 0x0A, CHR 0x0A] (mg_texts h)"
      using text_of_no_text [OF that] by (simp add: merged_content)
    then show ?thesis by (simp only: visible_text_def join_snoc)
  qed
  from this [OF p] this [OF q]
  show "visible_text (cm_content (merged_message (appendMergeContent g c)))
      = visible_text (cm_content (merged_message g)) @ visible_text c"
    by (simp add: appendMergeContent_def visible_text_def)
qed (simp add: visible_text_def)

interpretation media: content_view media_of
proof
  fix p assume "isVacuousContentPart p"
  then show "media_of [p] = []" by (cases p) (simp_all add: media_of_def isVacuousContentPart_def isDegradableMediaPart_def)
next
  fix g :: merge_group and c assume "list_all (\<lambda>p. \<not> is_text p) (mg_parts g)"
  have "media_of (filter (\<lambda>p. \<not> is_text p) c) = media_of c" for c
    by (auto simp: media_of_def isDegradableMediaPart_def is_text_def intro!: filter_cong split: content_part.splits)
  then show "media_of (cm_content (merged_message (appendMergeContent g c)))
      = media_of (cm_content (merged_message g)) @ media_of c"
    by (simp add: merged_content appendMergeContent_def media_of_def isDegradableMediaPart_def)
qed (simp add: media_of_def)

section \<open>The strict projection\<close>

definition call_ids :: "context_message list \<Rightarrow> string list" where
  "call_ids ms = concat (map (\<lambda>m. map call_id (cm_toolCalls m)) ms)"

lemma call_ids_simps [simp]:
  "call_ids [] = []" "call_ids (m # ms) = map call_id (cm_toolCalls m) @ call_ids ms"
  "call_ids (xs @ ys) = call_ids xs @ call_ids ys"
  by (simp_all add: call_ids_def)

lemma wire_ok_append: "wire_ok xs \<Longrightarrow> wire_ok (xs @ ys) = wire_ok ys"
  by (simp add: wire_ok_layout)

lemma wire_ok_block: "cm_role m \<noteq> RTool \<Longrightarrow> map slot_id rs = wanted (cm_toolCalls m) \<Longrightarrow> wire_ok (m # rs)"
  using layout_tools [OF wanted_tools [of rs]] by (simp add: wire_ok_layout cells_def slot_id_def)

lemma wire_ok_open: "wire_ok (us @ [m]) \<Longrightarrow> cm_role m \<noteq> RTool \<Longrightarrow> wire_ok us \<and> cm_toolCalls m = []"
proof (induction us rule: wire_ok.induct)
  case (2 x us)
  let ?n = "length (cm_toolCalls x)"
  have t: "map (\<lambda>r. (cm_role r, cm_toolCallId r)) (take ?n (us @ [m])) = map (\<lambda>c. (RTool, Some (call_id c))) (cm_toolCalls x)"
    and w: "wire_ok (drop ?n (us @ [m]))" using 2(2) by simp_all
  have "?n \<le> length us"
  proof (rule ccontr)
    assume "\<not> ?n \<le> length us"
    then have "m \<in> set (take ?n (us @ [m]))" by simp
    then have "(cm_role m, cm_toolCallId m) \<in> set (map (\<lambda>c. (RTool, Some (call_id c))) (cm_toolCalls x))"
      unfolding t [symmetric] by force
    then show False using 2(3) by auto
  qed
  then show ?case using 2 t w by simp
qed auto

text \<open>Deduplication, block by block: a message, then the results of its calls.\<close>

lemma filter_calls_spec:
  assumes "filter_calls calls seen = (kept, seen2, ns)"
  shows "set seen2 = set seen \<union> call_id ` set kept \<and> call_id ` set calls \<subseteq> set seen2
    \<and> distinct (map call_id kept) \<and> set seen \<inter> call_id ` set kept = {} \<and> set kept \<subseteq> set calls
    \<and> length kept \<le> length calls \<and> (length kept = length calls \<longrightarrow> kept = calls)"
  using assms
proof (induction calls arbitrary: seen kept seen2 ns)
  case (Cons c calls)
  show ?case
  proof (cases "call_id c \<in> set seen")
    case True
    then obtain ns2 where "filter_calls calls seen = (kept, seen2, ns2)"
      using Cons.prems by (auto split: prod.splits)
    from Cons.IH [OF this] True show ?thesis by auto
  next
    case False
    then obtain kept2 ns2 where f: "filter_calls calls (js_set_add (call_id c) seen) = (kept2, seen2, ns2)" "kept = c # kept2"
      using Cons.prems by (auto split: prod.splits)
    have "set (js_set_add (call_id c) seen) = insert (call_id c) (set seen)" by (auto simp: js_set_add_def)
    with Cons.IH [OF f(1)] False f(2) show ?thesis by auto
  qed
qed simp

definition dd_inv :: "dedupe \<Rightarrow> bool" where
  "dd_inv s \<longleftrightarrow> wire_ok (dd_out s) \<and> distinct (call_ids (dd_out s)) \<and> set (call_ids (dd_out s)) = set (dd_seen s)
     \<and> (\<forall>i. jm_get (dd_kept s) i \<noteq> None \<longleftrightarrow> i \<in> set (dd_seen s))
     \<and> (\<forall>i j. jm_get (dd_kept s) i = Some j \<longrightarrow> j < length (dd_out s) \<and> slot_id (dd_out s ! j) = Some (Some i))"

lemma filter_calls_cong:
  "set seen = set seen2 \<Longrightarrow> fst (filter_calls calls seen) = fst (filter_calls calls seen2)"
proof (induction calls arbitrary: seen seen2)
  case (Cons c calls)
  have "set (js_set_add (call_id c) seen) = set (js_set_add (call_id c) seen2)"
    using Cons.prems by (auto simp: js_set_add_def)
  from Cons.IH [OF this] Cons.IH [OF Cons.prems] Cons.prems show ?case by (auto split: prod.splits)
qed simp

text \<open>
  Between the message and the end of its results: \<open>calls\<close> are those whose result has not come, and
  what is wanted of them are the first of each call not yet answered.
\<close>

definition dd_mid :: "tool_call list \<Rightarrow> dedupe \<Rightarrow> bool" where
  "dd_mid calls s \<longleftrightarrow>
     (\<exists>D. layout (dd_out s) = map slot_id (dd_out s) @ wanted (fst (filter_calls calls D))
        \<and> (\<forall>i. jm_get (dd_kept s) i \<noteq> None \<longleftrightarrow> i \<in> set D) \<and> set (dd_seen s) = set D \<union> call_id ` set calls)
     \<and> distinct (call_ids (dd_out s)) \<and> set (call_ids (dd_out s)) = set (dd_seen s)
     \<and> (\<forall>i j. jm_get (dd_kept s) i = Some j \<longrightarrow> j < length (dd_out s) \<and> slot_id (dd_out s ! j) = Some (Some i))"

lemma call_ids_map: "map cm_toolCalls xs = map cm_toolCalls ys \<Longrightarrow> call_ids xs = call_ids ys"
  by (metis (no_types, lifting) call_ids_def map_map comp_def map_eq_conv list.map_comp)

lemma dd_mid_result:
  assumes "dd_mid (c # calls) s" "cm_role r = RTool" "cm_toolCallId r = Some (call_id c)" "cm_toolCalls r = []"
    "\<forall>m \<in> set (dd_out s). cm_role m = RTool \<longrightarrow> cm_toolCalls m = []"
  shows "dd_mid calls (dedupe_step s r)"
    "filter is_user (dd_out (dedupe_step s r)) = filter is_user (dd_out s)"
    "\<forall>m \<in> set (dd_out (dedupe_step s r)). cm_role m = RTool \<longrightarrow> cm_toolCalls m = []"
proof -
  let ?i = "call_id c"
  have step: "dedupe_step s r = dedupe_result ?i r s" using assms(2,3) by (simp add: dedupe_step_def)
  obtain D where D: "layout (dd_out s) = map slot_id (dd_out s) @ wanted (fst (filter_calls (c # calls) D))"
    "\<forall>i. jm_get (dd_kept s) i \<noteq> None \<longleftrightarrow> i \<in> set D" "set (dd_seen s) = set D \<union> call_id ` set (c # calls)"
    using assms(1) by (auto simp: dd_mid_def)
  have rest: "distinct (call_ids (dd_out s))" "set (call_ids (dd_out s)) = set (dd_seen s)"
    "\<forall>i j. jm_get (dd_kept s) i = Some j \<longrightarrow> j < length (dd_out s) \<and> slot_id (dd_out s ! j) = Some (Some i)"
    using assms(1) by (auto simp: dd_mid_def)
  have sr: "slot_id r = Some (Some ?i)" using assms(2,3) by (simp add: slot_id_def)
  show "dd_mid calls (dedupe_step s r)"
    "filter is_user (dd_out (dedupe_step s r)) = filter is_user (dd_out s)"
    "\<forall>m \<in> set (dd_out (dedupe_step s r)). cm_role m = RTool \<longrightarrow> cm_toolCalls m = []"
  proof (atomize (full), cases "jm_get (dd_kept s) ?i")
    case None
    then have nd: "?i \<notin> set D" using D(2) by metis
    let ?D = "js_set_add ?i D"
    have "fst (filter_calls (c # calls) D) = c # fst (filter_calls calls ?D)" using nd by (simp split: prod.split)
    then have "layout (dd_out s @ [r]) = map slot_id (dd_out s @ [r]) @ wanted (fst (filter_calls calls ?D))"
      using D(1) sr assms(2) by (simp add: cells_def wanted_def)
    moreover have "set ?D = insert ?i (set D)" by (auto simp: js_set_add_def)
    ultimately have "dd_mid calls (s\<lparr>dd_kept := jm_set ?i (length (dd_out s)) (dd_kept s), dd_out := dd_out s @ [r]\<rparr>)"
      using D(2,3) rest assms(4) sr unfolding dd_mid_def
      by (intro conjI exI [of _ ?D]) (auto simp: nth_append less_Suc_eq)
    then show "dd_mid calls (dedupe_step s r) \<and> filter is_user (dd_out (dedupe_step s r)) = filter is_user (dd_out s)
      \<and> (\<forall>m \<in> set (dd_out (dedupe_step s r)). cm_role m = RTool \<longrightarrow> cm_toolCalls m = [])"
      using None assms(2,4,5) unfolding step by (auto simp: dedupe_result_def is_user_def)
  next
    case (Some j)
    then have j: "j < length (dd_out s)" "slot_id (dd_out s ! j) = Some (Some ?i)" "?i \<in> set D" using rest D(2) by auto
    have role: "cm_role (dd_out s ! j) = RTool" using j(2) by (simp add: slot_id_def split: if_splits)
    have f: "fst (filter_calls (c # calls) D) = fst (filter_calls calls D)" using j(3) by (simp split: prod.split)
    have cells: "cells (dd_out s ! j) = cells r" using role assms(2) by (simp add: cells_def)
    have "map slot_id ((dd_out s)[j := r]) = map slot_id (dd_out s)"
      using j sr by (metis list_update_id map_update)
    moreover have "call_ids ((dd_out s)[j := r]) = call_ids (dd_out s)"
      using j(1) role assms(4,5) by (intro call_ids_map) (metis list_update_id map_update nth_mem)
    moreover have "slot_id ((dd_out s)[j := r] ! k) = slot_id (dd_out s ! k)" if "k < length (dd_out s)" for k
      using that j sr by (cases "j = k") simp_all
    ultimately have u: "dd_mid calls (s\<lparr>dd_out := (dd_out s)[j := r]\<rparr>)"
      using D rest f j layout_update [OF j(1) cells] unfolding dd_mid_def
      by (intro conjI exI [of _ D]) auto
    have same: "dd_mid calls (s\<lparr>dd_anomalies := x\<rparr>)" for x
      using D rest f j unfolding dd_mid_def by (intro conjI exI [of _ D]) auto
    have "\<forall>m \<in> set ((dd_out s)[j := r]). cm_role m = RTool \<longrightarrow> cm_toolCalls m = []"
      using assms(4,5) set_update_subset_insert [of "dd_out s" j r] by auto
    moreover have "filter is_user ((dd_out s)[j := r]) = filter is_user (dd_out s)"
      using role assms(2) by (intro filter_update) (simp_all add: is_user_def)
    ultimately show "dd_mid calls (dedupe_step s r) \<and> filter is_user (dd_out (dedupe_step s r)) = filter is_user (dd_out s)
      \<and> (\<forall>m \<in> set (dd_out (dedupe_step s r)). cm_role m = RTool \<longrightarrow> cm_toolCalls m = [])"
      using Some assms(5) u same unfolding step by (auto simp: dedupe_result_def)
  qed
qed

text \<open>The whole of the deduplication, over a list a provider would accept.\<close>

lemma calls_ok_simps [simp]:
  "calls_ok []" "calls_ok (m # ms) \<longleftrightarrow> (cm_toolCalls m \<noteq> [] \<longrightarrow> cm_role m = RAssistant) \<and> calls_ok ms"
  "calls_ok (xs @ ys) \<longleftrightarrow> calls_ok xs \<and> calls_ok ys"
  by (auto simp: calls_ok_def)

lemma wire_blocks [consumes 1, case_names Nil block]:
  assumes "wire_ok ms" "P []"
    "\<And>m rs ms. cm_role m \<noteq> RTool \<Longrightarrow> map slot_id rs = wanted (cm_toolCalls m) \<Longrightarrow> wire_ok ms \<Longrightarrow> P ms \<Longrightarrow> P (m # rs @ ms)"
  shows "P ms"
  using assms(1)
proof (induction ms rule: wire_ok.induct)
  case (2 m ms)
  let ?n = "length (cm_toolCalls m)"
  have "map slot_id (take ?n ms) = wanted (cm_toolCalls m)" using 2(2) slots_wanted by simp
  from assms(3) [OF _ this _ 2(1)] 2(2) show ?case by simp
qed (rule assms(2))

definition dd_ok :: "tool_call list \<Rightarrow> dedupe \<Rightarrow> bool" where
  "dd_ok calls s \<longleftrightarrow> dd_mid calls s \<and> calls_ok (dd_out s)"

lemma dd_results:
  assumes "dd_ok calls s" "map slot_id rs = wanted calls" "calls_ok rs"
  shows "dd_ok [] (foldl dedupe_step s rs) \<and> filter is_user (dd_out (foldl dedupe_step s rs)) = filter is_user (dd_out s)"
  using assms
proof (induction rs arbitrary: calls s)
  case Nil
  then show ?case by (simp add: wanted_def)
next
  case (Cons r rs)
  then obtain c calls2 where c: "calls = c # calls2" by (cases calls) (simp_all add: wanted_def)
  have r: "cm_role r = RTool" "cm_toolCallId r = Some (call_id c)" "cm_toolCalls r = []"
    using Cons.prems(2,3) c by (auto simp: wanted_def slot_id_def split: if_splits)
  have t: "\<forall>m \<in> set (dd_out s). cm_role m = RTool \<longrightarrow> cm_toolCalls m = []"
    using Cons.prems(1) by (auto simp: dd_ok_def calls_ok_def)
  have mid: "dd_mid (c # calls2) s" using Cons.prems(1) c by (simp add: dd_ok_def)
  note d = dd_mid_result [OF mid r t]
  have "set (dd_out (dedupe_step s r)) \<subseteq> insert r (set (dd_out s))"
    using r by (auto simp: dedupe_step_def dedupe_result_def split: option.splits dest!: subsetD [OF set_update_subset_insert])
  then have "dd_ok calls2 (dedupe_step s r)"
    using d(1) Cons.prems(1) r(3) by (auto simp: dd_ok_def calls_ok_def)
  from Cons.IH [OF this] Cons.prems(2,3) c d(2) show ?case by (simp add: wanted_def)
qed

lemma dd_message:
  assumes "dd_ok [] s" "cm_role m \<noteq> RTool" "calls_ok [m]"
  shows "dd_ok (cm_toolCalls m) (dedupe_step s m)
    \<and> filter is_user (dd_out (dedupe_step s m)) = filter is_user (dd_out s @ [m])"
proof -
  obtain D where D: "layout (dd_out s) = map slot_id (dd_out s)"
    "\<forall>i. jm_get (dd_kept s) i \<noteq> None \<longleftrightarrow> i \<in> set D" "set (dd_seen s) = set D"
    using assms(1) by (auto simp: dd_ok_def dd_mid_def wanted_def)
  have rest: "distinct (call_ids (dd_out s))" "set (call_ids (dd_out s)) = set (dd_seen s)"
    "\<forall>i j. jm_get (dd_kept s) i = Some j \<longrightarrow> j < length (dd_out s) \<and> slot_id (dd_out s ! j) = Some (Some i)"
    "calls_ok (dd_out s)"
    using assms(1) by (auto simp: dd_ok_def dd_mid_def)
  obtain kept seen ns where f: "filter_calls (cm_toolCalls m) (dd_seen s) = (kept, seen, ns)"
    by (cases "filter_calls (cm_toolCalls m) (dd_seen s)") blast
  note fs = filter_calls_spec [OF f]
  have fD: "fst (filter_calls (cm_toolCalls m) D) = kept" using filter_calls_cong [OF D(3)] f by (metis fst_conv)
  have "call_id ` set kept \<subseteq> call_id ` set (cm_toolCalls m)" using fs by (intro image_mono) simp
  then have seen: "set seen = set D \<union> call_id ` set (cm_toolCalls m)" using fs unfolding D(3) [symmetric] by (intro equalityI) auto
  have keep: "dd_ok (cm_toolCalls m) (s\<lparr>dd_seen := seen, dd_anomalies := x, dd_out := dd_out s @ [m\<lparr>cm_toolCalls := kept\<rparr>]\<rparr>)" for x
  proof -
    let ?m = "m\<lparr>cm_toolCalls := kept\<rparr>"
    have m: "cells ?m = None # wanted kept" "slot_id ?m = None" using assms(2) by (simp_all add: cells_def slot_id_def)
    have "layout (dd_out s @ [?m]) = map slot_id (dd_out s @ [?m]) @ wanted (fst (filter_calls (cm_toolCalls m) D))"
      using D(1) m fD by simp
    moreover have "distinct (call_ids (dd_out s @ [?m]))" "set (call_ids (dd_out s @ [?m])) = set seen"
      using rest(1,2) fs D(3) by auto
    moreover have "calls_ok (dd_out s @ [?m])" using rest(4) assms(3) fs by auto
    moreover have "j < length (dd_out s @ [?m]) \<and> slot_id ((dd_out s @ [?m]) ! j) = Some (Some i)"
      if "jm_get (dd_kept s) i = Some j" for i j
    proof -
      have "j < length (dd_out s)" "slot_id (dd_out s ! j) = Some (Some i)" using rest(3) that by auto
      then show ?thesis by (simp add: nth_append)
    qed
    ultimately show ?thesis using D(2) seen unfolding dd_ok_def dd_mid_def by auto
  qed
  have skip: "dd_ok (cm_toolCalls m) (s\<lparr>dd_seen := seen, dd_anomalies := x\<rparr>)" if "kept = []" for x
    using D rest assms(2,3) fs fD seen that unfolding dd_ok_def dd_mid_def
    by (intro conjI exI [of _ D]) (auto simp: wanted_def)
  show ?thesis
  proof (cases "cm_role m = RAssistant \<and> cm_toolCalls m \<noteq> []")
    case True
    then have "\<not> is_user m" by (simp add: is_user_def)
    moreover have "\<not> is_user (m\<lparr>cm_toolCalls := kept\<rparr>)" using True by (simp add: is_user_def)
    moreover have "kept = cm_toolCalls m \<Longrightarrow> m\<lparr>cm_toolCalls := kept\<rparr> = m" by simp
    ultimately show ?thesis using True keep skip fs f
      by (auto simp: dedupe_step_def dedupe_calls_def Let_def)
  next
    case False
    then have c: "cm_toolCalls m = []" using assms(3) by auto
    then have k: "kept = []" "seen = dd_seen s" using f by simp_all
    have "m\<lparr>cm_toolCalls := kept\<rparr> = m" using c k by (cases m) simp
    then have "dd_ok (cm_toolCalls m) (s\<lparr>dd_out := dd_out s @ [m]\<rparr>)" using keep [of "dd_anomalies s"] k by simp
    moreover have "dedupe_step s m = s\<lparr>dd_out := dd_out s @ [m]\<rparr>"
      using c assms(2) by (cases "cm_role m") (simp_all add: dedupe_step_def)
    ultimately show ?thesis by simp
  qed
qed

lemma dd_run:
  "wire_ok ms \<Longrightarrow> calls_ok ms \<Longrightarrow> dd_ok [] s \<Longrightarrow>
   dd_ok [] (foldl dedupe_step s ms) \<and> filter is_user (dd_out (foldl dedupe_step s ms)) = filter is_user (dd_out s @ ms)"
proof (induction ms arbitrary: s rule: wire_blocks)
  case (block m rs ms)
  have p: "calls_ok [m]" "calls_ok rs" "calls_ok ms" using block.prems(1) by simp_all
  note d = dd_message [OF block.prems(2) block.hyps(1) p(1)]
  with dd_results [OF _ block.hyps(2) p(2), of "dedupe_step s m"]
  have r: "dd_ok [] (foldl dedupe_step (dedupe_step s m) rs)"
    "filter is_user (dd_out (foldl dedupe_step (dedupe_step s m) rs)) = filter is_user (dd_out s @ [m])" by auto
  from block.IH [OF p(3) r(1)] r(2) tools_filter [OF wanted_tools [OF block.hyps(2)]] show ?case by simp
qed simp

section \<open>Merging and dropping\<close>

definition apart :: "context_message list \<Rightarrow> bool" where
  "apart ms \<longleftrightarrow> successively (\<lambda>a b. \<not> (cm_role a = RAssistant \<and> cm_role b = RAssistant)) ms"

definition merge_ok :: "context_message list \<Rightarrow> bool" where
  "merge_ok ms \<longleftrightarrow> wire_ok ms \<and> apart ms \<and> calls_ok ms"

lemma apart_push: "apart ms \<Longrightarrow> (ms = [] \<or> cm_role (last ms) \<noteq> RAssistant \<or> cm_role m \<noteq> RAssistant) \<Longrightarrow> apart (ms @ [m])"
  by (auto simp: apart_def successively_append_iff)

lemma apart_tools: "apart (us @ [m]) \<Longrightarrow> tools_only rs \<Longrightarrow> apart (us @ m # rs)"
proof (induction rs rule: rev_induct)
  case (snoc r rs)
  then have "apart (us @ m # rs)" "cm_role r = RTool" by (auto simp: tools_only_def)
  from apart_push [OF this(1), of r] this(2) show ?case by simp
qed simp

lemma merge_tools: "tools_only rs \<Longrightarrow> fst (foldl merge_step (out, ns) rs) = out @ rs"
  by (induction rs arbitrary: out ns) (auto simp: merge_step_def tools_only_def)

lemma merge_message:
  assumes "merge_ok out" "cm_role m \<noteq> RTool" "calls_ok [m]"
  obtains us x where "fst (merge_step (out, ns) m) = us @ [x]" "wire_ok us" "apart (us @ [x])"
    "cm_toolCalls x = cm_toolCalls m" "cm_role x \<noteq> RTool" "calls_ok (us @ [x])"
    "call_ids (us @ [x]) = call_ids out @ call_ids [m]" "filter is_user (us @ [x]) = filter is_user out @ filter is_user [m]"
proof (cases "out \<noteq> [] \<and> cm_role (last out) = RAssistant \<and> cm_role m = RAssistant")
  case True
  then obtain us l where out: "out = us @ [l]" by (metis append_butlast_last_id)
  let ?x = "l\<lparr>cm_content := cm_content l @ cm_content m, cm_toolCalls := cm_toolCalls l @ cm_toolCalls m\<rparr>"
  have l: "cm_role l = RAssistant" "cm_role m = RAssistant" using True out by simp_all
  have w: "wire_ok us" "cm_toolCalls l = []"
    using wire_ok_open [of us l] assms(1) l out by (simp_all add: merge_ok_def)
  have "apart (us @ [?x])" "calls_ok us"
    using assms(1) by (simp_all add: out merge_ok_def apart_def successively_append_iff)
  then show thesis using l w assms(3) out
    by (intro that [of us ?x]) (simp_all add: merge_step_def is_user_def)
next
  case False
  then have "fst (merge_step (out, ns) m) = out @ [m]" by (auto simp: merge_step_def)
  then show thesis using assms False apart_push [of out m]
    by (intro that [of out m]) (auto simp: merge_ok_def)
qed

lemma merge_run:
  "wire_ok ms \<Longrightarrow> calls_ok ms \<Longrightarrow> merge_ok out \<Longrightarrow>
   (case foldl merge_step (out, ns) ms of (out2, ns2) \<Rightarrow>
      merge_ok out2 \<and> call_ids out2 = call_ids out @ call_ids ms \<and> filter is_user out2 = filter is_user out @ filter is_user ms)"
proof (induction ms arbitrary: out ns rule: wire_blocks)
  case (block m rs ms)
  have p: "calls_ok [m]" "calls_ok rs" "calls_ok ms" using block.prems(1) by simp_all
  have rs: "tools_only rs" by (rule wanted_tools [OF block.hyps(2)])
  have plain: "call_ids rs = []" "filter is_user rs = []"
    using p(2) rs tools_filter [OF rs] by (auto simp: call_ids_def calls_ok_def tools_only_def)
  obtain us x where k: "fst (merge_step (out, ns) m) = us @ [x]" "wire_ok us" "apart (us @ [x])"
    "cm_toolCalls x = cm_toolCalls m" "cm_role x \<noteq> RTool" "calls_ok (us @ [x])"
    "call_ids (us @ [x]) = call_ids out @ call_ids [m]" "filter is_user (us @ [x]) = filter is_user out @ filter is_user [m]"
    using merge_message [OF block.prems(2) block.hyps(1) p(1)] by metis
  have "merge_ok (us @ x # rs)"
    using wire_ok_append [OF k(2)] wire_ok_block [OF k(5), of rs] block.hyps(2) k(3,4,6) apart_tools [OF _ rs] p(2)
    by (simp add: merge_ok_def)
  moreover obtain ns2 where "foldl merge_step (merge_step (out, ns) m) rs = (us @ x # rs, ns2)"
    using merge_tools [OF rs, of "us @ [x]" "snd (merge_step (out, ns) m)"] k(1)
    by (metis append_Cons append_Nil append_assoc prod.collapse)
  moreover have split: "us @ x # rs = (us @ [x]) @ rs" by simp
  have "call_ids (us @ x # rs) = call_ids out @ call_ids [m]"
    "filter is_user (us @ x # rs) = filter is_user out @ filter is_user [m]"
    using call_ids_simps(3) [of "us @ [x]" rs] filter_append [of is_user "us @ [x]" rs] k(7,8) plain
    by (simp_all only: split append_Nil2)
  moreover have "call_ids (m # rs @ ms) = call_ids [m] @ call_ids ms"
    "filter is_user (m # rs @ ms) = filter is_user [m] @ filter is_user ms" using plain by simp_all
  ultimately show ?case using block.IH [OF p(3), of "us @ x # rs" ns2]
    by (simp del: call_ids_simps filter.simps split: prod.splits)
qed simp

lemma drop_leading_eq: "fst (dropLeadingNonUserMessages ms) = dropWhile (\<lambda>m. cm_role m \<noteq> RUser) ms"
  by (induction ms) (auto split: prod.split)

lemma wire_ok_leading: "wire_ok ms \<Longrightarrow> wire_ok (dropWhile (\<lambda>m. cm_role m \<noteq> RUser) ms)"
proof (induction ms rule: wire_blocks)
  case (block m rs ms)
  have "\<forall>r \<in> set rs. cm_role r \<noteq> RUser" using wanted_tools [OF block.hyps(2)] by (simp add: tools_only_def)
  then have "dropWhile (\<lambda>m. cm_role m \<noteq> RUser) (rs @ ms) = dropWhile (\<lambda>m. cm_role m \<noteq> RUser) ms"
    by (intro dropWhile_append2) simp
  then show ?case using block wire_ok_block [OF block.hyps(1,2)] wire_ok_append [of "m # rs" ms] by auto
qed simp

lemma calls_ok_update: "calls_ok xs \<Longrightarrow> calls_ok [m] \<Longrightarrow> calls_ok (xs[j := m])"
  by (auto simp: calls_ok_def dest!: subsetD [OF set_update_subset_insert])

lemma made_calls [simp]:
  "cm_toolCalls (createInterruptedToolResult i) = []" "cm_toolCalls TOOL_RESULT_SLOT = []" "cm_toolCalls (merged_message g) = []"
  by (simp_all add: createInterruptedToolResult_def TOOL_RESULT_SLOT_def merged_message_def plain_message_def Let_def)

lemma calls_flush: "calls_ok (pj_out s) \<Longrightarrow> calls_ok (pj_out (flushMerge s))"
  by (simp add: flushMerge_def calls_ok_update split: option.split)

lemma calls_emitted: "calls_ok (pj_out s) \<Longrightarrow> calls_ok [m] \<Longrightarrow> calls_ok (pj_out (emitted m s))"
  by (auto simp: emitted_def push_message_def push_merged_def Let_def calls_flush split: option.split)

lemma calls_opens: "calls_ok (pj_out s) \<Longrightarrow> calls_ok (pj_out (open_slots n l calls s))"
  by (induction calls arbitrary: s) (simp_all add: open_slot_for_def Let_def calls_ok_update split: option.split)

lemma calls_placed: "calls_ok (pj_out s) \<Longrightarrow> calls_ok [m] \<Longrightarrow> calls_ok (pj_out (placed m s))"
  by (simp add: placed_def Let_def calls_ok_update split: option.split)

lemma calls_run: "calls_ok (pj_out s) \<Longrightarrow> calls_ok ms \<Longrightarrow> calls_ok (pj_out (run h l n ms s))"
  by (induction ms arbitrary: h n s) (auto simp: calls_emitted calls_opens calls_placed)

lemma calls_fill: "calls_ok (pj_out s) \<Longrightarrow> calls_ok (pj_out (fill_slots l slots s))"
  by (induction l slots s rule: fill_slots.induct) (simp_all add: calls_ok_update)

lemma final_calls_ok: "calls_ok history \<Longrightarrow> calls_ok (pj_out (final_projection history))"
  by (simp add: final_projection_def Let_def flush_out calls_flush calls_fill calls_run start_projection_def)

section \<open>Fallbacks\<close>

lemma wire_ok_cong:
  assumes "map cm_role xs = map cm_role ys" "map cm_toolCallId xs = map cm_toolCallId ys" "map cm_toolCalls xs = map cm_toolCalls ys"
  shows "wire_ok xs = wire_ok ys"
proof -
  have "map slot_id xs = map slot_id ys \<and> map cells xs = map cells ys" using assms
  proof (induction xs arbitrary: ys)
    case (Cons x xs)
    then obtain y ys2 where y: "ys = y # ys2" by (cases ys) simp_all
    have "map slot_id xs = map slot_id ys2 \<and> map cells xs = map cells ys2"
      using Cons.prems y by (intro Cons.IH) simp_all
    moreover have "slot_id x = slot_id y" "cells x = cells y"
      using Cons.prems y by (simp_all add: slot_id_def cells_def)
    ultimately show ?case using y by simp
  qed simp
  then show ?thesis by (simp add: wire_ok_layout layout_def)
qed

lemma degrade_parts_media:
  assumes "\<And>p. isDegradableMediaPart p \<Longrightarrow> \<not> isDegradableMediaPart (PText (ph p))"
  shows "media_of (fst (degrade_parts ph n ps)) = drop n (media_of ps)
    \<and> snd (degrade_parts ph n ps) = n - length (media_of ps)"
proof (induction ph n ps rule: degrade_parts.induct)
  case (2 ph n p ps)
  then show ?case
    by (cases n) (auto simp: media_of_def isDegradableMediaPart_def split: prod.splits)
qed (simp add: media_of_def)

lemma degrade_messages_media:
  "view_of media_of (degrade_messages ph n ms) = drop n (view_of media_of ms)"
proof (induction ph n ms rule: degrade_messages.induct)
  case (2 ph n m ms)
  have p: "media_of (fst (degrade_parts ph n (cm_content m))) = drop n (media_of (cm_content m))
    \<and> snd (degrade_parts ph n (cm_content m)) = n - length (media_of (cm_content m))"
    by (rule degrade_parts_media) (simp add: isDegradableMediaPart_def)
  show ?case
  proof (cases "n = 0 \<or> \<not> list_ex isDegradableMediaPart (cm_content m)")
    case True
    moreover have "\<not> list_ex isDegradableMediaPart (cm_content m) \<Longrightarrow> media_of (cm_content m) = []"
      by (auto simp: media_of_def list_ex_iff filter_empty_conv)
    ultimately show ?thesis using 2(1) by auto
  next
    case False
    obtain content k where d: "degrade_parts ph n (cm_content m) = (content, k)" by (cases "degrade_parts ph n (cm_content m)") blast
    from 2(2) [OF False d [symmetric] refl] d p False show ?thesis by simp
  qed
qed simp

lemma degrade_messages_shape:
  "map cm_role (degrade_messages ph n ms) = map cm_role ms
   \<and> map cm_toolCallId (degrade_messages ph n ms) = map cm_toolCallId ms
   \<and> map cm_toolCalls (degrade_messages ph n ms) = map cm_toolCalls ms"
  by (induction ph n ms rule: degrade_messages.induct) (auto split: prod.split)

lemma media_count: "foldl (\<lambda>count m. count + length (filter isDegradableMediaPart (cm_content m))) k ms
    = k + length (view_of media_of ms)"
  by (induction ms arbitrary: k) (simp_all add: media_of_def)

lemma degraded_media:
  "view_of media_of (degradeOlderMediaParts ms keep ph) = drop (length (view_of media_of ms) - keep) (view_of media_of ms)"
  by (simp add: degradeOlderMediaParts_def media_count degrade_messages_media Let_def)

lemma degraded_wire_ok: "wire_ok (degradeOlderMediaParts ms keep ph) = wire_ok ms"
proof -
  have "wire_ok (degrade_messages ph n ms) = wire_ok ms" for n
    using degrade_messages_shape [of ph n ms] by (intro wire_ok_cong) simp_all
  then show ?thesis by (simp add: degradeOlderMediaParts_def Let_def)
qed

lemma stripped_media: "view_of media_of (stripMediaPartsBySnapshot sha ms keys)
    = filter (\<lambda>p. mediaStripKey sha p \<notin> set keys) (view_of media_of ms)"
proof (induction ms)
  case (Cons m ms)
  have "media_of (map (strip_part sha keys) ps) = filter (\<lambda>p. mediaStripKey sha p \<notin> set keys) (media_of ps)" for ps
    by (induction ps) (auto simp: media_of_def strip_part_def isDegradableMediaPart_def)
  with Cons show ?case by (simp add: stripMediaPartsBySnapshot_def)
qed (simp add: stripMediaPartsBySnapshot_def)

lemma stripped_wire_ok: "wire_ok (stripMediaPartsBySnapshot sha ms keys) = wire_ok ms"
  by (rule wire_ok_cong) (simp_all add: stripMediaPartsBySnapshot_def comp_def)

lemma captured_keys: "p \<in> set (view_of media_of ms) \<Longrightarrow> mediaStripKey sha p \<in> set (captureMediaStripSnapshot sha ms)"
proof -
  have set_add: "set (js_set_add i xs) = insert i (set xs)" for i :: string and xs by (auto simp: js_set_add_def)
  have f: "set (foldl (\<lambda>keys p. if isDegradableMediaPart p then js_set_add (mediaStripKey sha p) keys else keys) ks ps)
      = set ks \<union> mediaStripKey sha ` set (media_of ps)" for ks ps
    by (induction ps arbitrary: ks) (simp_all add: media_of_def set_add)
  have "view_of media_of ms = media_of (concat (map cm_content ms))"
    by (induction ms) (simp_all add: media_of_def)
  then show "p \<in> set (view_of media_of ms) \<Longrightarrow> ?thesis" by (simp add: captureMediaStripSnapshot_def f)
qed

section \<open>The properties\<close>

text \<open>
  C2: Whatever the history, the request is valid. If only assistant messages make calls (and a
  history with results has an assistant message), the projection returns: in its output every
  message is followed by exactly one result for each of its calls, in their order, and there is no
  other result; the messages of neither user nor tool are those of the history, unless there is nothing in
  them; and the text (but for white space) and the media of the user are all there, in order.
\<close>

theorem projection_valid:
  assumes "calls_ok history" "has_assistant history \<or> (\<forall>m \<in> set history. cm_role m \<noteq> RTool)"
  shows "\<exists>out notices. project history = Inr (out, notices) \<and> wire_ok out
    \<and> filter is_other out = wired (settled_messages history)
    \<and> view_of visible_text (filter is_user out) = view_of visible_text (filter is_user (settled_messages history))
    \<and> view_of media_of (filter is_user out) = view_of media_of (filter is_user (settled_messages history))"
  using final_wire_ok [OF assms] visible.final_keeps [OF assms] media.final_keeps [OF assms] by (simp add: project_eq)

definition sample_call_message :: "string list \<Rightarrow> context_message" where
  "sample_call_message ids =
     (plain_message RAssistant [])\<lparr>cm_toolCalls :=
        map (\<lambda>i. \<lparr>call_id = i, call_name = ''read'', call_arguments = None, call_extras = JUndef\<rparr>) ids\<rparr>"

definition sample_history :: "context_message list" where
  "sample_history =
     [sample_call_message [''c1'', ''c2''], (sample_prompt ''a'')\<lparr>cm_origin := Some OrgUser\<rparr>,
      createToolMessage ''c2'' (OutText ''x''), createToolMessage ''c9'' (OutText ''y''),
      (plain_message RUser [PText ''b'', PImage ''u'' None])\<lparr>cm_origin := Some OrgUser\<rparr>]"

lemma sample_history_ok: "calls_ok sample_history" "has_assistant sample_history"
  by (simp_all add: sample_history_def sample_call_message_def createToolMessage_def sample_prompt_def plain_message_def has_assistant_def)

theorem projection_valid_witness:
  "\<exists>out notices. project sample_history = Inr (out, notices) \<and> wire_ok out
    \<and> filter is_other out = wired (settled_messages sample_history)
    \<and> view_of visible_text (filter is_user out) = view_of visible_text (filter is_user (settled_messages sample_history))
    \<and> view_of media_of (filter is_user out) = view_of media_of (filter is_user (settled_messages sample_history))"
  by (rule projection_valid) (simp_all add: sample_history_ok)

text \<open>
  C26: The strict projection asks for nothing a provider rejects. Its output is valid as before, no
  call appears twice, no two assistant messages follow each other, it starts with a user message or is empty,
  and it has the user messages of the plain projection.
\<close>

theorem strict_projection_valid:
  assumes "calls_ok history" "has_assistant history \<or> (\<forall>m \<in> set history. cm_role m \<noteq> RTool)"
  shows "\<exists>out notices. projectStrict history = Inr (out, notices) \<and> wire_ok out \<and> distinct (call_ids out) \<and> apart out
    \<and> (case out of [] \<Rightarrow> True | m # _ \<Rightarrow> is_user m)
    \<and> filter is_user out = filter is_user (pj_out (final_projection history))"
proof -
  let ?p = "pj_out (final_projection history)"
  have p: "wire_ok ?p" "calls_ok ?p" using final_wire_ok [OF assms] final_calls_ok [OF assms(1)] by auto
  let ?s0 = "\<lparr>dd_seen = [], dd_kept = [], dd_out = [], dd_anomalies = []\<rparr>"
  have "dd_ok [] ?s0" by (simp add: dd_ok_def dd_mid_def wanted_def)
  from dd_run [OF p this] obtain d ns where d: "dedupeDuplicateToolCalls ?p = (d, ns)" "dd_ok [] (foldl dedupe_step ?s0 ?p)"
    "d = dd_out (foldl dedupe_step ?s0 ?p)" "filter is_user d = filter is_user ?p"
    by (simp add: dedupeDuplicateToolCalls_def Let_def)
  then have d2: "wire_ok d" "distinct (call_ids d)" "calls_ok d"
    by (auto simp: dd_ok_def dd_mid_def wire_ok_layout wanted_def)
  have "merge_ok []" by (simp add: merge_ok_def apart_def)
  from merge_run [OF d2(1,3) this, of "[]"] obtain e ns2 where e: "mergeConsecutiveAssistantMessages d = (e, ns2)"
    "merge_ok e" "call_ids e = call_ids d" "filter is_user e = filter is_user ?p"
    using d(4) by (auto simp: mergeConsecutiveAssistantMessages_def split: prod.splits)
  obtain out ns3 where o: "dropLeadingNonUserMessages e = (out, ns3)" by (cases "dropLeadingNonUserMessages e") blast
  have out: "out = dropWhile (\<lambda>m. cm_role m \<noteq> RUser) e" using drop_leading_eq [of e] o by simp
  define pre where "pre = takeWhile (\<lambda>m. cm_role m \<noteq> RUser) e"
  have split: "e = pre @ out" by (simp add: pre_def out)
  have "filter is_user pre = []" by (auto simp: pre_def filter_empty_conv is_user_def dest: set_takeWhileD)
  then have "filter is_user out = filter is_user ?p" using e(4) split by simp
  moreover have "distinct (call_ids out)" "apart out"
    using e(2) d2(2) unfolding e(3) [symmetric] by (auto simp: split merge_ok_def apart_def successively_append_iff)
  moreover have "wire_ok out" using wire_ok_leading e(2) out by (simp add: merge_ok_def)
  moreover have "case out of [] \<Rightarrow> True | m # _ \<Rightarrow> is_user m"
    by (auto simp: out is_user_def dropWhile_eq_Cons_conv split: list.split)
  ultimately show ?thesis using d(1) e(1) o by (simp add: projectStrict_def project_eq)
qed

theorem strict_projection_valid_witness:
  "\<exists>out notices. projectStrict sample_history = Inr (out, notices) \<and> wire_ok out \<and> distinct (call_ids out) \<and> apart out
    \<and> (case out of [] \<Rightarrow> True | m # _ \<Rightarrow> is_user m)
    \<and> filter is_user out = filter is_user (pj_out (final_projection sample_history))"
  by (rule strict_projection_valid) (simp_all add: sample_history_ok)

text \<open>
  The fallbacks change media only. After a size rejection the projection keeps exactly its two
  newest media parts; with a snapshot it loses exactly the media the snapshot names, by default all
  of them. The exchange of calls and results stays valid.
\<close>

theorem fallbacks_drop_media:
  assumes "calls_ok history" "has_assistant history \<or> (\<forall>m \<in> set history. cm_role m \<noteq> RTool)"
  shows "\<exists>full notices degraded stripped rest.
    project history = Inr (full, notices)
    \<and> projectMediaDegraded history signature = Inr (degraded, rest)
    \<and> projectMediaStripped sha256 history snapshot signature = Inr (stripped, rest)
    \<and> wire_ok degraded \<and> wire_ok stripped
    \<and> view_of media_of degraded = drop (length (view_of media_of full) - 2) (view_of media_of full)
    \<and> view_of media_of stripped =
        (case snapshot of None \<Rightarrow> [] | Some keys \<Rightarrow> filter (\<lambda>p. mediaStripKey sha256 p \<notin> set keys) (view_of media_of full))"
  using final_wire_ok [OF assms] captured_keys [of _ "pj_out (final_projection history)" sha256]
  by (auto simp: projectMediaDegraded_def projectMediaStripped_def projectWithTrace_def project_eq degraded_wire_ok
      stripped_wire_ok degraded_media stripped_media MEDIA_DEGRADE_KEEP_RECENT_def filter_empty_conv split: option.split)

theorem fallbacks_drop_media_witness:
  "\<exists>full notices degraded stripped rest.
    project sample_history = Inr (full, notices)
    \<and> projectMediaDegraded sample_history None = Inr (degraded, rest)
    \<and> projectMediaStripped rev sample_history None None = Inr (stripped, rest)
    \<and> wire_ok degraded \<and> wire_ok stripped
    \<and> view_of media_of degraded = drop (length (view_of media_of full) - 2) (view_of media_of full)
    \<and> view_of media_of stripped = []"
  using fallbacks_drop_media [of sample_history None rev None] by (simp add: sample_history_ok)

section \<open>From the journal to the provider\<close>

text \<open>The fold makes calls in assistant messages only.\<close>

definition source_ok :: "context_state \<Rightarrow> bool" where
  "source_ok s \<longleftrightarrow> calls_ok (cs_messages s) \<and> calls_ok (cs_deferred s)"

lemma source_flush: "source_ok s \<Longrightarrow> source_ok (flushDeferred s)"
  by (auto simp: source_ok_def flushDeferred_def)

lemma interrupted_calls [simp]:
  "cm_toolCalls (interruptedToolMessage i) = []" "cm_toolCalls (createToolMessage i out) = []"
  "cm_toolCalls open_assistant = []"
  by (simp_all add: interruptedToolMessage_def createToolMessage_def plain_message_def open_assistant_def)

lemma source_close: "source_ok s \<Longrightarrow> source_ok (closePending s)"
proof -
  have "calls_ok (map interruptedToolMessage is)" for "is" by (simp add: calls_ok_def)
  then show "source_ok s \<Longrightarrow> ?thesis"
    by (auto simp: closePending_def intro!: source_flush) (auto simp: source_ok_def)
qed

lemma source_settle:
  assumes "source_ok s" "fold_inv s"
  shows "calls_ok (concat (map seal (closed_messages s)))" "source_ok (settleOpenStep s)"
proof -
  have "calls_ok ms \<Longrightarrow> calls_ok (concat (map seal ms))" for ms
    by (induction ms) (auto simp: seal_def)
  moreover have "calls_ok (closed_messages s)"
    using source_close [OF assms(1)] by (simp add: closePending_eq source_ok_def)
  ultimately show c: "calls_ok (concat (map seal (closed_messages s)))" by blast
  show "source_ok (settleOpenStep s)"
    using c assms(1) by (simp add: settleOpenStep_eq [OF closed_partial(1) [OF assms(2)]] source_ok_def)
qed

lemma source_step:
  assumes "source_ok s" "fold_inv s" "input_ok x"
  shows "source_ok (fold_step s x)"
proof (cases x)
  case (InMessage m)
  then show ?thesis using assms by (auto simp: source_ok_def foldAppendMessage_def plain_def)
next
  case (InEvent e)
  have inv: "one_partial (cs_messages s)" "\<forall>m \<in> set (cs_messages s). is_partial m \<longrightarrow> cm_role m = RAssistant"
    using assms(2) by (simp_all add: fold_inv_def)
  have ok: "calls_ok (cs_messages s)" "calls_ok (cs_deferred s)" using assms(1) by (simp_all add: source_ok_def)
  show ?thesis
  proof (cases e)
    case (StepBegin u)
    then show ?thesis using source_settle(2) [OF assms(1,2)] InEvent by (simp add: source_ok_def Let_def)
  next
    case (StepEnd u)
    have "source_ok (s\<lparr>cs_openStepUuid := None\<rparr>)" "fold_inv (s\<lparr>cs_openStepUuid := None\<rparr>)"
      using assms by (simp_all add: source_ok_def fold_inv_def)
    from source_flush [OF source_settle(2) [OF this]] show ?thesis using StepEnd InEvent by simp
  next
    case (ContentPart su part)
    have "calls_ok (appendToOpenAssistant (\<lambda>m. m\<lparr>cm_content := cm_content m @ [part]\<rparr>) (cs_messages s))"
      using ok(1) by (auto simp: appendToOpenAssistant_map [OF inv(1)] calls_ok_def)
    then show ?thesis using ContentPart ok(2) InEvent by (simp add: source_ok_def)
  next
    case (ToolCall su i n a d ex)
    let ?f = "add_call \<lparr>call_id = i, call_name = n, call_arguments = a, call_extras = ex\<rparr> d"
    have "is_partial m \<Longrightarrow> m \<in> set (cs_messages s) \<Longrightarrow> cm_role (?f m) = RAssistant" for m
      using inv(2) by (simp add: add_call_def Let_def split: option.split)
    then have "calls_ok (appendToOpenAssistant ?f (cs_messages s))"
      using ok(1) by (auto simp: appendToOpenAssistant_map [OF inv(1)] calls_ok_def)
    then show ?thesis using ok(2) ToolCall InEvent by (simp add: source_ok_def)
  next
    case (ToolResult i out er n)
    then show ?thesis using ok InEvent source_flush
      by (auto simp: source_ok_def intro!: source_flush [unfolded source_ok_def])
  qed
qed

lemma tidy_inputs: "tidy s xs \<Longrightarrow> list_all input_ok xs"
  by (induction xs arbitrary: s) auto

lemma source_run: "source_ok s \<Longrightarrow> fold_inv s \<Longrightarrow> list_all input_ok xs \<Longrightarrow> source_ok (fold_run s xs)"
  by (induction xs arbitrary: s) (simp_all add: fold_run_def source_step fold_inv_step)

lemma adjacent_assistant:
  assumes "adjacent [] [] ms" "calls_ok ms" "\<forall>m \<in> set ms. \<not> is_partial m" "m \<in> set ms" "cm_role m = RTool"
  shows "has_assistant ms"
proof -
  have "\<exists>a \<in> set ms. cm_role a \<noteq> RTool \<and> cm_toolCalls a \<noteq> []"
  proof (rule ccontr)
    assume n: "\<not> ?thesis"
    have "cm_role x \<noteq> RTool" if "x \<in> set xs" "adjacent [] [] xs" "set xs \<subseteq> set ms" for x xs
      using that
    proof (induction xs)
      case (Cons y ys)
      have "cm_role y \<noteq> RTool" using Cons.prems(2) adjacent_orphan by auto
      then have "cm_toolCalls y = []" using n Cons.prems(3) by auto
      then show ?case using Cons \<open>cm_role y \<noteq> RTool\<close> by auto
    qed simp
    then show False using assms(1,4,5) by blast
  qed
  then show ?thesis using assms(2,3) by (auto simp: calls_ok_def has_assistant_def list_ex_iff is_partial_def)
qed

text \<open>
  C25: What the user wrote reaches the provider. Start from a settled history with its exchanges in order, let
  any records be folded in which calls are made while their assistant message is last, and end the step.
  Whatever was interrupted, the projection of the history then returns a valid request, and it
  holds the text and media of every prompt of the history and of the records, in order.
\<close>

theorem conversation_reaches_provider:
  assumes "list_all (\<lambda>m. \<not> is_partial m) ms" "adjacent [] [] ms" "calls_ok ms" "tidy (resetFold ms) xs"
  shows "\<exists>out notices.
    project (cs_messages (foldLoopEvent (fold_run (resetFold ms) xs) (StepEnd u))) = Inr (out, notices) \<and> wire_ok out
    \<and> view_of visible_text (filter is_user out) = view_of visible_text (filter is_user ms @ concat (map input_users xs))
    \<and> view_of media_of (filter is_user out) = view_of media_of (filter is_user ms @ concat (map input_users xs))"
proof -
  let ?s = "foldLoopEvent (fold_run (resetFold ms) xs) (StepEnd u)"
  let ?xs = "xs @ [InEvent (StepEnd u)]"
  have run: "?s = fold_run (resetFold ms) ?xs" by (simp add: fold_run_def)
  have inv: "fold_inv (resetFold ms)" by (rule settled_start [OF assms(1,2)])
  have ok: "list_all input_ok ?xs" using tidy_inputs [OF assms(4)] by simp
  have "source_ok (resetFold ms)" using assms(3) by (simp add: source_ok_def resetFold_def)
  from source_run [OF this inv ok] have c: "calls_ok (cs_messages ?s)" by (simp only: run source_ok_def)
  have set: "settled ?s" "adjacent [] [] (cs_messages ?s)"
    using history_settles [OF assms(1,2,4)] by (simp_all only: Let_def)
  then have np: "\<forall>m \<in> set (cs_messages ?s). \<not> is_partial m" by (simp add: settled_def list_all_iff)
  then have sm: "settled_messages (cs_messages ?s) = cs_messages ?s"
    by (simp add: settled_messages_def is_partial_def filter_id_conv)
  have "filter from_user (cs_messages ?s @ cs_deferred ?s) = filter from_user ms @ concat (map input_users ?xs)"
    using fold_run_users [OF inv ok] by (simp only: run) (simp add: resetFold_def)
  then have users: "filter is_user (cs_messages ?s) = filter is_user ms @ concat (map input_users xs)"
    using set(1) by (simp add: settled_def from_user_def [abs_def] is_user_def [abs_def])
  have "has_assistant (cs_messages ?s) \<or> (\<forall>m \<in> set (cs_messages ?s). cm_role m \<noteq> RTool)"
    using adjacent_assistant [OF set(2) c np] by blast
  then show ?thesis
    using final_wire_ok [OF c] visible.final_keeps(1) [OF c] media.final_keeps(1) [OF c]
    by (simp only: project_eq sm users) blast
qed

theorem conversation_reaches_provider_witness:
  "\<exists>out notices.
    project (cs_messages (foldLoopEvent (fold_run (resetFold [])
      [InMessage (sample_prompt ''a''), InEvent (StepBegin ''s''), sample_call_event ''c1'', InMessage (sample_prompt ''b'')])
      (StepEnd ''s''))) = Inr (out, notices) \<and> wire_ok out
    \<and> view_of visible_text (filter is_user out) = view_of visible_text (filter is_user []
        @ concat (map input_users [InMessage (sample_prompt ''a''), InEvent (StepBegin ''s''), sample_call_event ''c1'', InMessage (sample_prompt ''b'')]))
    \<and> view_of media_of (filter is_user out) = view_of media_of (filter is_user []
        @ concat (map input_users [InMessage (sample_prompt ''a''), InEvent (StepBegin ''s''), sample_call_event ''c1'', InMessage (sample_prompt ''b'')]))"
  by (rule conversation_reaches_provider) code_simp+

text \<open>
  A repair is reported once. After a report the same anomalies report nothing and keep the
  signature; results made up for a call at the very end of the history are never reported.
\<close>

theorem repairs_reported_once:
  "let (signature, report) = reportProjectionRepairs lastSig anomalies in
     (report = None \<or> reportProjectionRepairs signature anomalies = (signature, None))
     \<and> reportProjectionRepairs lastSig (filter is_notable anomalies) = (signature, report)
     \<and> (report = None) = (filter is_notable anomalies = [] \<or> lastSig = Some (repair_signature (filter is_notable anomalies)))"
  by (simp add: reportProjectionRepairs_def Let_def)

end
