(* ===== verification/EventJournal.thy ===== *)
theory EventJournal
  imports JsValue "HOL-Library.Countable"
begin

text \<open>
  \<open>packages/kap-server/src/transport/ws/v1/sessionEventJournal.ts\<close>: the durable log of a session's
  events, one JSON line per event behind a header line that names the epoch. A journal is the state
  of the object in memory; the file is its content, \<open>None\<close> when there is none. An asynchronous write is two steps:
  \<open>flushOnce\<close> takes the pending lines, \<open>settle\<close> is its completion, successful or not.
  \<open>JSON.stringify\<close>, \<open>JSON.parse\<close> and the way a read stream cuts a file into chunks are parameters.
\<close>

section \<open>Lines of a file\<close>

abbreviation NL :: char where "NL \<equiv> CHR 0x0A"
abbreviation CR :: char where "CR \<equiv> CHR 0x0D"

definition js_indexOf :: "char \<Rightarrow> string \<Rightarrow> nat option" where
  "js_indexOf c s = (let n = length (takeWhile (\<lambda>d. d \<noteq> c) s) in if n < length s then Some n else None)"

lemma js_indexOf_less: "js_indexOf c s = Some n \<Longrightarrow> n < length s"
  by (auto simp: js_indexOf_def Let_def split: if_splits)

lemma js_slice_from_shorter: "n < length s \<Longrightarrow> length (js_slice_from s (int n + 1)) < length s"
  using js_slice_from_nat [of s "Suc n"] by (simp add: add.commute)

text \<open>The inner loop of \<open>readLines\<close>: the complete lines of the buffer, and what is left of it.\<close>

function yield_lines :: "string \<Rightarrow> string list \<times> string" where
  "yield_lines buffered =
     (case js_indexOf NL buffered of
        None \<Rightarrow> ([], buffered)
      | Some newlineIndex \<Rightarrow>
          let (ls, rest) = yield_lines (js_slice_from buffered (int newlineIndex + 1))
          in (js_slice buffered 0 (int newlineIndex) # ls, rest))"
  by pat_completeness auto

termination
  by (relation "measure length") (auto dest: js_indexOf_less js_slice_from_shorter)

declare yield_lines.simps [simp del]

datatype stream_end = StreamEnd | StreamError string

text \<open>A stream delivers its chunks and then ends or fails with a code; \<open>readLines\<close> yields lines and rethrows.\<close>

fun readLines_from :: "string \<Rightarrow> string list \<Rightarrow> stream_end \<Rightarrow> string list \<times> stream_end" where
  "readLines_from buffered [] (StreamError code) = ([], StreamError code)"
| "readLines_from buffered [] StreamEnd = (if 0 < length buffered then [buffered] else [], StreamEnd)"
| "readLines_from buffered (chunk # chunks) e =
     (let (ls, rest) = yield_lines (buffered @ chunk); (more, e2) = readLines_from rest chunks e
      in (ls @ more, e2))"

definition readLines :: "string list \<Rightarrow> stream_end \<Rightarrow> string list \<times> stream_end" where
  "readLines chunks e = readLines_from [] chunks e"

section \<open>Journal lines\<close>

fun is_object :: "json \<Rightarrow> bool" where
  "is_object (JArr _ _) = True"
| "is_object (JObj _ _) = True"
| "is_object _ = False"

datatype journal_line = JournalHeader string | JournalEvent nat json

definition positive_integer :: "json \<Rightarrow> nat option" where
  "positive_integer v =
     (case v of JNum n \<Rightarrow> if n = of_int \<lfloor>n\<rfloor> \<and> 0 < n then Some (nat \<lfloor>n\<rfloor>) else None | _ \<Rightarrow> None)"

definition parseJournalLine :: "(string \<Rightarrow> json option) \<Rightarrow> string \<Rightarrow> journal_line option" where
  "parseJournalLine json_parse raw =
     (let trimmed = (if raw \<noteq> [] \<and> last raw = CR then js_slice raw 0 (- 1) else raw) in
      if trimmed = [] then None
      else case json_parse trimmed of
        None \<Rightarrow> None
      | Some v \<Rightarrow>
          if \<not> is_object v then None
          else if js_opt_prop v ''kind'' = JStr ''journal_header'' then
            (case js_opt_prop v ''epoch'' of
               JStr epoch \<Rightarrow> if epoch = [] then None else Some (JournalHeader epoch)
             | _ \<Rightarrow> None)
          else if js_opt_prop v ''kind'' = JStr ''event'' then
            (case positive_integer (js_opt_prop v ''seq'') of
               None \<Rightarrow> None
             | Some seq \<Rightarrow>
                 if is_object (js_opt_prop v ''envelope'')
                 then Some (JournalEvent seq (js_opt_prop v ''envelope'')) else None)
          else None)"

definition header_line :: "string \<Rightarrow> nat \<Rightarrow> json" where
  "header_line epoch now =
     JObj 0 [(''kind'', JStr ''journal_header''), (''version'', JNum 1), (''epoch'', JStr epoch),
             (''created_at'', JNum (of_nat now))]"

definition event_line :: "nat \<Rightarrow> json \<Rightarrow> json" where
  "event_line seq envelope =
     JObj 0 [(''kind'', JStr ''event''), (''seq'', JNum (of_nat seq)), (''envelope'', envelope)]"

section \<open>The journal\<close>

record journal =
  jo_epoch :: string
  jo_seq :: nat
  jo_pending :: "string list"
  jo_flush :: "string list option"
  jo_headerPending :: bool

record journal_scan =
  js_epoch :: "string option"
  js_lastSeq :: nat
  js_sawAnyLine :: bool

definition scan_line :: "(string \<Rightarrow> json option) \<Rightarrow> journal_scan \<Rightarrow> string \<Rightarrow> journal_scan" where
  "scan_line json_parse s raw =
     (let s = s\<lparr>js_sawAnyLine := True\<rparr> in
      case parseJournalLine json_parse raw of
        None \<Rightarrow> s
      | Some (JournalHeader epoch) \<Rightarrow> (if js_epoch s = None then s\<lparr>js_epoch := Some epoch\<rparr> else s)
      | Some (JournalEvent seq _) \<Rightarrow> (if js_lastSeq s < seq then s\<lparr>js_lastSeq := seq\<rparr> else s))"

datatype journal_warning = Unreadable string | MissingHeader

text \<open>
  \<open>fresh_epoch\<close> is the \<open>ep_\<close> and ulid a fresh journal gets. A read error ends the scan; what was scanned
  before it stays.
\<close>

definition journal_open ::
  "(string \<Rightarrow> json option) \<Rightarrow> string \<Rightarrow> string list \<Rightarrow> stream_end \<Rightarrow> journal \<times> journal_warning list" where
  "journal_open json_parse fresh_epoch chunks e =
     (let (lines, e2) = readLines chunks e;
          s = foldl (scan_line json_parse) \<lparr>js_epoch = None, js_lastSeq = 0, js_sawAnyLine = False\<rparr> lines;
          w = (case e2 of StreamEnd \<Rightarrow> [] | StreamError code \<Rightarrow> if code = ''ENOENT'' then [] else [Unreadable code])
      in case js_epoch s of
           None \<Rightarrow>
             (\<lparr>jo_epoch = fresh_epoch, jo_seq = 0, jo_pending = [], jo_flush = None, jo_headerPending = True\<rparr>,
              w @ (if js_sawAnyLine s then [MissingHeader] else []))
         | Some epoch \<Rightarrow>
             (\<lparr>jo_epoch = epoch, jo_seq = js_lastSeq s, jo_pending = [], jo_flush = None, jo_headerPending = False\<rparr>, w))"

definition nextSeq :: "journal \<Rightarrow> nat \<times> journal" where
  "nextSeq j = (jo_seq j + 1, j\<lparr>jo_seq := jo_seq j + 1\<rparr>)"

text \<open>\<open>now\<close> is the clock, read when a header is written.\<close>

definition flushOnce :: "(json \<Rightarrow> string) \<Rightarrow> nat \<Rightarrow> journal \<Rightarrow> journal" where
  "flushOnce stringify now j =
     (let lines = (if jo_headerPending j then [stringify (header_line (jo_epoch j) now)] else []) @ jo_pending j
      in j\<lparr>jo_headerPending := False, jo_pending := [], jo_flush := Some lines\<rparr>)"

definition scheduleFlush :: "(json \<Rightarrow> string) \<Rightarrow> nat \<Rightarrow> journal \<Rightarrow> journal" where
  "scheduleFlush stringify now j = (if jo_flush j \<noteq> None then j else flushOnce stringify now j)"

definition journal_append :: "(json \<Rightarrow> string) \<Rightarrow> nat \<Rightarrow> nat \<Rightarrow> json \<Rightarrow> journal \<Rightarrow> journal" where
  "journal_append stringify now seq envelope j =
     scheduleFlush stringify now (j\<lparr>jo_pending := jo_pending j @ [stringify (event_line seq envelope)]\<rparr>)"

definition join_lines :: "string list \<Rightarrow> string" where
  "join_lines ls = concat (map (\<lambda>l. l @ [NL]) ls)"

definition appendFile :: "string list \<Rightarrow> string option \<Rightarrow> string option" where
  "appendFile ls f =
     (if length ls = 0 then f else Some ((case f of None \<Rightarrow> [] | Some s \<Rightarrow> s) @ join_lines ls))"

text \<open>
  The write in flight completes: its lines are in the file or, when it failed, nowhere. Lines that came
  in the meantime start the next write.
\<close>

definition settle ::
  "(json \<Rightarrow> string) \<Rightarrow> nat \<Rightarrow> bool \<Rightarrow> journal \<times> string option \<Rightarrow> journal \<times> string option" where
  "settle stringify now ok jf =
     (case jo_flush (fst jf) of
        None \<Rightarrow> jf
      | Some ls \<Rightarrow>
          let j = (fst jf)\<lparr>jo_flush := None\<rparr>; f = (if ok then appendFile ls (snd jf) else snd jf)
          in (if 0 < length (jo_pending j) then scheduleFlush stringify now j else j, f))"

definition idle :: "journal \<Rightarrow> bool" where
  "idle j \<longleftrightarrow> jo_flush j = None \<and> jo_pending j = []"

text \<open>\<open>flush()\<close>, when nothing is appended meanwhile; \<open>oks\<close> are the outcomes of the writes in order.\<close>

function journal_flush ::
  "(json \<Rightarrow> string) \<Rightarrow> nat \<Rightarrow> (nat \<Rightarrow> bool) \<Rightarrow> journal \<times> string option \<Rightarrow> journal \<times> string option" where
  "journal_flush stringify now oks (j, f) =
     (if idle j then (j, f)
      else journal_flush stringify now (\<lambda>i. oks (Suc i))
        (settle stringify now (oks 0) (scheduleFlush stringify now j, f)))"
  by pat_completeness auto

termination
  by (relation "measure (\<lambda>(_, _, _, j, _). (if jo_flush j = None then 0 else 1) + (if jo_pending j = [] then 0 else 2))")
    (auto simp: idle_def settle_def scheduleFlush_def flushOnce_def Let_def)

declare journal_flush.simps [simp del]

fun read_entries :: "(string \<Rightarrow> json option) \<Rightarrow> nat \<Rightarrow> nat \<Rightarrow> (nat \<times> json) list \<Rightarrow> string list \<Rightarrow> (nat \<times> json) list" where
  "read_entries json_parse from_seq limit out [] = out"
| "read_entries json_parse from_seq limit out (raw # ls) =
     (case parseJournalLine json_parse raw of
        Some (JournalEvent seq envelope) \<Rightarrow>
          if seq \<le> from_seq then read_entries json_parse from_seq limit out ls
          else if limit \<le> length out + 1 then out @ [(seq, envelope)]
          else read_entries json_parse from_seq limit (out @ [(seq, envelope)]) ls
      | _ \<Rightarrow> read_entries json_parse from_seq limit out ls)"

text \<open>
  The reading part of \<open>readSince\<close>, after its \<open>flush\<close>. An error other than a missing file is thrown unless
  the limit was reached before it: \<open>break\<close> leaves the stream.
\<close>

definition readSince ::
  "(string \<Rightarrow> json option) \<Rightarrow> nat \<Rightarrow> nat \<Rightarrow> string list \<Rightarrow> stream_end \<Rightarrow> string + (nat \<times> json) list" where
  "readSince json_parse from_seq limit chunks e =
     (let (lines, e2) = readLines chunks e; out = read_entries json_parse from_seq limit [] lines
      in case e2 of
           StreamEnd \<Rightarrow> Inr out
         | StreamError code \<Rightarrow>
             if code = ''ENOENT'' \<or> (out \<noteq> [] \<and> limit \<le> length out) then Inr out else Inl code)"

definition sessionJournalPath :: "(string \<Rightarrow> string \<Rightarrow> string) \<Rightarrow> string \<Rightarrow> string \<Rightarrow> string" where
  "sessionJournalPath path_join eventsDir sessionId = path_join eventsDir (sessionId @ ''.jsonl'')"

section \<open>Chunks do not matter\<close>

lemma join_lines_simps [simp]:
  "join_lines [] = []" "join_lines (l # ls) = l @ NL # join_lines ls" "join_lines (ls @ ms) = join_lines ls @ join_lines ms"
  by (simp_all add: join_lines_def)

lemma js_indexOf_None: "js_indexOf c s = None \<longleftrightarrow> c \<notin> set s"
  by (induction s) (auto simp: js_indexOf_def Let_def split: if_splits)

lemma js_indexOf_split: "c \<notin> set a \<Longrightarrow> js_indexOf c (a @ c # b) = Some (length a)"
  by (simp add: js_indexOf_def Let_def takeWhile_append)

lemma js_slice_from_Suc: "js_slice_from s (int n + 1) = drop (Suc n) s"
  using js_slice_from_nat [of s "Suc n"] by (simp add: add.commute)

lemma js_slice_0: "js_slice s 0 (int n) = take n s"
  using js_slice_nat [of s 0 n] by simp

lemma yield_lines_join:
  assumes "list_all (\<lambda>l. NL \<notin> set l) ls" "NL \<notin> set rest"
  shows "yield_lines (join_lines ls @ rest) = (ls, rest)"
  using assms(1)
proof (induction ls)
  case Nil
  have "js_indexOf NL rest = None" using assms(2) by (simp add: js_indexOf_None)
  then show ?case by (subst yield_lines.simps) simp
next
  case (Cons l ls)
  then show ?case
    by (subst yield_lines.simps) (simp add: js_indexOf_split js_slice_from_Suc js_slice_0)
qed

lemma yield_lines_parts:
  "yield_lines s = (ls, rest) \<Longrightarrow> s = join_lines ls @ rest \<and> list_all (\<lambda>l. NL \<notin> set l) ls \<and> NL \<notin> set rest"
proof (induction s arbitrary: ls rest rule: yield_lines.induct)
  case (1 s)
  show ?case
  proof (cases "js_indexOf NL s")
    case None
    then have "NL \<notin> set s" by (simp add: js_indexOf_None)
    then show ?thesis using "1.prems" None yield_lines.simps [of s] by simp
  next
    case (Some n)
    obtain ms r where m: "yield_lines (js_slice_from s (int n + 1)) = (ms, r)" by fastforce
    then have e: "ls = take n s # ms" "rest = r"
      using "1.prems" Some yield_lines.simps [of s] by (simp_all add: js_slice_0)
    have len: "n = length (takeWhile (\<lambda>d. d \<noteq> NL) s)" "n < length s"
      using Some by (auto simp: js_indexOf_def Let_def split: if_splits)
    have n: "n < length s" "take n s = takeWhile (\<lambda>d. d \<noteq> NL) s" "s ! n = NL"
      using len nth_length_takeWhile [of "\<lambda>d. d \<noteq> NL" s] takeWhile_eq_take [of "\<lambda>d. d \<noteq> NL" s] by simp_all
    have "s = take n s @ NL # drop (Suc n) s" using id_take_nth_drop [OF n(1)] n(3) by simp
    moreover have "NL \<notin> set (take n s)" unfolding n(2) by (auto dest: set_takeWhileD)
    ultimately show ?thesis using "1.IH" [OF Some m] e by (simp add: js_slice_from_Suc)
  qed
qed

definition lines_of :: "string \<Rightarrow> string list" where
  "lines_of s = fst (readLines [s] StreamEnd)"

lemma readLines_from_concat:
  "NL \<notin> set buf \<Longrightarrow> readLines_from buf cs StreamEnd = (lines_of (buf @ concat cs), StreamEnd)"
proof (induction cs arbitrary: buf)
  case Nil
  then show ?case using yield_lines_join [of "[]" buf] by (simp add: lines_of_def readLines_def)
next
  case (Cons c cs)
  obtain ls r where y: "yield_lines (buf @ c) = (ls, r)" by fastforce
  obtain ms q where z: "yield_lines (r @ concat cs) = (ms, q)" by fastforce
  have a: "buf @ c = join_lines ls @ r" "list_all (\<lambda>l. NL \<notin> set l) ls" "NL \<notin> set r"
    using yield_lines_parts [OF y] by blast+
  have b: "r @ concat cs = join_lines ms @ q" "list_all (\<lambda>l. NL \<notin> set l) ms" "NL \<notin> set q"
    using yield_lines_parts [OF z] by blast+
  have "buf @ c @ concat cs = join_lines (ls @ ms) @ q" using a(1) b(1) by (metis append_assoc join_lines_simps(3))
  then have "yield_lines (buf @ c @ concat cs) = (ls @ ms, q)"
    using yield_lines_join [of "ls @ ms" q] a(2) b by simp
  then show ?case using Cons.IH [OF a(3)] y z by (simp add: lines_of_def readLines_def)
qed

lemma readLines_chunks: "readLines cs StreamEnd = (lines_of (concat cs), StreamEnd)"
  unfolding readLines_def by (subst readLines_from_concat) simp_all

lemma lines_of_join: "list_all (\<lambda>l. NL \<notin> set l) ls \<Longrightarrow> lines_of (join_lines ls) = ls"
  using yield_lines_join [of ls "[]"] by (simp add: lines_of_def readLines_def)

section \<open>What is on disk\<close>

text \<open>
  What is relied on of \<open>JSON\<close>: an object without \<open>undefined\<close> survives printing and parsing, on one non-empty
  line. The identity of a parsed object is that of no other, which the equation does not track: all are 0.
\<close>

fun plain :: "json \<Rightarrow> bool" where
  "plain JUndef = False"
| "plain (JArr i vs) = (i = 0 \<and> list_all plain vs)"
| "plain (JObj i fs) = (i = 0 \<and> distinct (map fst fs) \<and> list_all (\<lambda>kv. plain (snd kv)) fs)"
| "plain _ = True"

definition json_codec :: "(json \<Rightarrow> string) \<Rightarrow> (string \<Rightarrow> json option) \<Rightarrow> bool" where
  "json_codec stringify json_parse \<longleftrightarrow>
     (\<forall>v. plain v \<and> is_object v \<longrightarrow>
        json_parse (stringify v) = Some v \<and> stringify v \<noteq> [] \<and> NL \<notin> set (stringify v) \<and> CR \<notin> set (stringify v))"

lemma json_codecD:
  assumes "json_codec stringify json_parse" "plain v" "is_object v"
  shows "json_parse (stringify v) = Some v" "stringify v \<noteq> []" "NL \<notin> set (stringify v)" "last (stringify v) \<noteq> CR"
proof -
  have c: "json_parse (stringify v) = Some v" "stringify v \<noteq> []" "NL \<notin> set (stringify v)" "CR \<notin> set (stringify v)"
    using assms unfolding json_codec_def by blast+
  then show "json_parse (stringify v) = Some v" "stringify v \<noteq> []" "NL \<notin> set (stringify v)" by blast+
  show "last (stringify v) \<noteq> CR" using c last_in_set by metis
qed

lemma parse_header:
  "json_codec stringify json_parse \<Longrightarrow> epoch \<noteq> [] \<Longrightarrow>
   parseJournalLine json_parse (stringify (header_line epoch t)) = Some (JournalHeader epoch)"
  using json_codecD [of stringify json_parse "header_line epoch t"]
  by (simp add: parseJournalLine_def Let_def header_line_def split: list.splits)

lemma parse_event:
  "json_codec stringify json_parse \<Longrightarrow> plain env \<Longrightarrow> is_object env \<Longrightarrow> 0 < n \<Longrightarrow>
   parseJournalLine json_parse (stringify (event_line n env)) = Some (JournalEvent n env)"
  using json_codecD [of stringify json_parse "event_line n env"]
  by (simp add: parseJournalLine_def Let_def event_line_def positive_integer_def)

definition log_lines :: "(json \<Rightarrow> string) \<Rightarrow> string \<Rightarrow> nat \<Rightarrow> json list \<Rightarrow> string list" where
  "log_lines stringify epoch t h =
     stringify (header_line epoch t) # map (\<lambda>(n, env). stringify (event_line n env)) (enumerate 1 h)"

definition event_ok :: "json \<Rightarrow> bool" where
  "event_ok env \<longleftrightarrow> plain env \<and> is_object env"

definition in_flight :: "journal \<Rightarrow> string list" where
  "in_flight j = (case jo_flush j of None \<Rightarrow> [] | Some ls \<Rightarrow> ls)"

text \<open>
  The journal and the file together hold the events \<open>h\<close> of the epoch: what the file lacks is being written
  or pending, and nothing is pending without a write in flight.
\<close>

definition holds_log :: "(json \<Rightarrow> string) \<Rightarrow> json list \<Rightarrow> journal \<times> string option \<Rightarrow> bool" where
  "holds_log stringify h jf \<longleftrightarrow>
     (let j = fst jf; f = snd jf in
      jo_seq j = length h \<and> jo_epoch j \<noteq> [] \<and> (jo_pending j \<noteq> [] \<longrightarrow> jo_flush j \<noteq> None)
      \<and> (if jo_headerPending j then h = [] \<and> idle j \<and> f = None
         else \<exists>t ls. log_lines stringify (jo_epoch j) t h = ls @ in_flight j @ jo_pending j
                \<and> f = (if ls = [] then None else Some (join_lines ls))))"

lemma log_lines_snoc:
  "log_lines stringify epoch t (h @ [env]) = log_lines stringify epoch t h @ [stringify (event_line (Suc (length h)) env)]"
  by (simp add: log_lines_def enumerate_append_eq)

lemma enumerate_shape: "(n, env) \<in> set (enumerate (Suc 0) h) \<Longrightarrow> 0 < n \<and> env \<in> set h"
  by (auto simp: in_set_enumerate_eq)

definition record_event :: "(json \<Rightarrow> string) \<Rightarrow> nat \<Rightarrow> json \<Rightarrow> journal \<Rightarrow> journal" where
  "record_event stringify now env j = (let (seq, j1) = nextSeq j in journal_append stringify now seq env j1)"

lemma holds_log_append:
  assumes "holds_log stringify h (j, f)"
  shows "holds_log stringify (h @ [env]) (record_event stringify now env j, f)"
proof -
  let ?l = "stringify (event_line (Suc (length h)) env)"
  have r: "record_event stringify now env j
      = scheduleFlush stringify now (j\<lparr>jo_seq := Suc (length h), jo_pending := jo_pending j @ [?l]\<rparr>)"
    using assms by (simp add: record_event_def nextSeq_def journal_append_def holds_log_def Let_def)
  show ?thesis
  proof (cases "jo_headerPending j")
    case True
    then show ?thesis using assms
      by (auto simp: r holds_log_def Let_def scheduleFlush_def flushOnce_def idle_def in_flight_def
          log_lines_def intro!: exI [of _ now] exI [of _ "[]"])
  next
    case False
    then obtain t ls where l: "log_lines stringify (jo_epoch j) t h = ls @ in_flight j @ jo_pending j"
      "f = (if ls = [] then None else Some (join_lines ls))"
      using assms by (auto simp: holds_log_def Let_def)
    have "log_lines stringify (jo_epoch j) t (h @ [env]) = ls @ in_flight j @ jo_pending j @ [?l]"
      by (simp add: log_lines_snoc l(1))
    then show ?thesis using assms False l(2)
      by (auto simp: r holds_log_def Let_def scheduleFlush_def flushOnce_def in_flight_def intro!: exI [of _ t] exI [of _ ls])
  qed
qed

lemma appendFile_log:
  "appendFile ms (if ls = [] then None else Some (join_lines ls)) = (if ls @ ms = [] then None else Some (join_lines (ls @ ms)))"
  by (simp add: appendFile_def)

lemma holds_log_settle:
  assumes "holds_log stringify h (j, f)"
  shows "holds_log stringify h (settle stringify now True (j, f))"
proof (cases "jo_flush j")
  case None
  then show ?thesis using assms by (simp add: settle_def)
next
  case (Some ms)
  then have hp: "\<not> jo_headerPending j" using assms by (auto simp: holds_log_def Let_def idle_def)
  then obtain t ls where l: "log_lines stringify (jo_epoch j) t h = ls @ ms @ jo_pending j"
    "f = (if ls = [] then None else Some (join_lines ls))"
    using assms Some by (auto simp: holds_log_def Let_def in_flight_def)
  have "appendFile ms f = (if ls @ ms = [] then None else Some (join_lines (ls @ ms)))"
    unfolding l(2) by (rule appendFile_log)
  then show ?thesis using assms Some hp l(1)
    by (auto simp: settle_def holds_log_def Let_def scheduleFlush_def flushOnce_def in_flight_def
        intro!: exI [of _ t] exI [of _ "ls @ ms"])
qed

lemma holds_log_schedule:
  "holds_log stringify h (j, f) \<Longrightarrow> \<not> idle j \<Longrightarrow> scheduleFlush stringify now j = j"
  by (auto simp: holds_log_def Let_def scheduleFlush_def idle_def)

text \<open>\<open>flush()\<close> ends with everything on disk when its writes succeed.\<close>

lemma holds_log_flush:
  "holds_log stringify h (j, f) \<Longrightarrow> (\<And>i. oks i) \<Longrightarrow>
   holds_log stringify h (journal_flush stringify now oks (j, f)) \<and> idle (fst (journal_flush stringify now oks (j, f)))"
proof (induction stringify now oks "(j, f)" arbitrary: j f rule: journal_flush.induct)
  case (1 stringify now oks j f)
  show ?case
  proof (cases "idle j")
    case True
    then show ?thesis using 1 by (subst (1 2) journal_flush.simps) simp
  next
    case False
    obtain j2 f2 where s: "settle stringify now True (j, f) = (j2, f2)" by fastforce
    have "holds_log stringify h (j2, f2)" using holds_log_settle [OF "1.prems"(1), of now] s by simp
    then show ?thesis
      using 1 False s holds_log_schedule [OF "1.prems"(1) False, of now]
      by (subst (1 2) journal_flush.simps) simp
  qed
qed

text \<open>The file of a journal at rest.\<close>

definition disk_log :: "(json \<Rightarrow> string) \<Rightarrow> string \<Rightarrow> json list \<Rightarrow> string option \<Rightarrow> bool" where
  "disk_log stringify epoch h f \<longleftrightarrow>
     (f = None \<and> h = []) \<or> (\<exists>t. f = Some (join_lines (log_lines stringify epoch t h)))"

lemma holds_log_disk: "holds_log stringify h (j, f) \<Longrightarrow> idle j \<Longrightarrow> disk_log stringify (jo_epoch j) h f"
  by (auto simp: holds_log_def Let_def idle_def in_flight_def disk_log_def log_lines_def split: if_splits)

lemma lines_of_log:
  assumes "json_codec stringify json_parse" "list_all event_ok h"
  shows "lines_of (join_lines (log_lines stringify epoch t h)) = log_lines stringify epoch t h"
proof -
  have "NL \<notin> set (stringify (event_line n env))" if "env \<in> set h" for n env
    using assms(2) that by (intro json_codecD(3) [OF assms(1)]) (auto simp: event_line_def event_ok_def list_all_iff)
  moreover have "NL \<notin> set (stringify (header_line epoch t))"
    by (intro json_codecD(3) [OF assms(1)]) (simp_all add: header_line_def)
  ultimately have "list_all (\<lambda>l. NL \<notin> set l) (log_lines stringify epoch t h)"
    by (auto simp: log_lines_def list_all_iff dest: enumerate_shape)
  then show ?thesis by (rule lines_of_join)
qed

text \<open>What a read stream delivers of a file.\<close>

fun file_stream :: "string option \<Rightarrow> string list \<Rightarrow> stream_end \<Rightarrow> bool" where
  "file_stream None chunks e \<longleftrightarrow> chunks = [] \<and> e = StreamError ''ENOENT''"
| "file_stream (Some s) chunks e \<longleftrightarrow> concat chunks = s \<and> e = StreamEnd"

lemma scan_events:
  assumes "json_codec stringify json_parse" "list_all event_ok h"
  shows "foldl (scan_line json_parse) \<lparr>js_epoch = Some ep, js_lastSeq = n, js_sawAnyLine = True\<rparr>
           (map (\<lambda>(n, env). stringify (event_line n env)) (enumerate (Suc n) h))
         = \<lparr>js_epoch = Some ep, js_lastSeq = n + length h, js_sawAnyLine = True\<rparr>"
  using assms(2)
  by (induction h arbitrary: n) (simp_all add: scan_line_def parse_event [OF assms(1)] event_ok_def)

text \<open>A journal opened again on the file an idle one left holds the same log, with its epoch and sequence number.\<close>

lemma reopen_holds:
  assumes "json_codec stringify json_parse" "list_all event_ok h" "epoch \<noteq> []" "fresh \<noteq> []"
    and "disk_log stringify epoch h f" "file_stream f chunks e"
  shows "holds_log stringify h (fst (journal_open json_parse fresh chunks e), f)
         \<and> idle (fst (journal_open json_parse fresh chunks e))
         \<and> (f \<noteq> None \<longrightarrow> jo_epoch (fst (journal_open json_parse fresh chunks e)) = epoch)
         \<and> snd (journal_open json_parse fresh chunks e) = []"
proof (cases f)
  case None
  then show ?thesis using assms(4-6)
    by (auto simp: journal_open_def readLines_def holds_log_def idle_def disk_log_def)
next
  case (Some s)
  then obtain t where t: "s = join_lines (log_lines stringify epoch t h)" using assms(5) by (auto simp: disk_log_def)
  then have "lines_of (concat chunks) = log_lines stringify epoch t h" "e = StreamEnd"
    using assms(6) Some lines_of_log [OF assms(1,2)] by auto
  then have "journal_open json_parse fresh chunks e
      = (\<lparr>jo_epoch = epoch, jo_seq = length h, jo_pending = [], jo_flush = None, jo_headerPending = False\<rparr>, [])"
    using scan_events [OF assms(1,2), of epoch 0]
    by (simp add: journal_open_def readLines_chunks log_lines_def scan_line_def parse_header [OF assms(1,3)])
  then show ?thesis using Some t assms(3)
    by (auto simp: holds_log_def idle_def in_flight_def log_lines_def)
qed

lemma read_entries_events:
  assumes "json_codec stringify json_parse" "0 < limit"
  shows "list_all event_ok h \<Longrightarrow> length out < limit \<Longrightarrow>
     read_entries json_parse c limit out (map (\<lambda>(n, env). stringify (event_line n env)) (enumerate (Suc m) h))
     = out @ take (limit - length out) (filter (\<lambda>(n, _). c < n) (enumerate (Suc m) h))"
proof (induction h arbitrary: out m)
  case (Cons env h)
  have p: "parseJournalLine json_parse (stringify (event_line (Suc m) env)) = Some (JournalEvent (Suc m) env)"
    using Cons.prems by (intro parse_event [OF assms(1)]) (simp_all add: event_ok_def)
  show ?case
  proof (cases "length out + 1 < limit")
    case True
    then show ?thesis using Cons.IH [of out "Suc m"] Cons.IH [of "out @ [(Suc m, env)]" "Suc m"] Cons.prems p
      by (auto simp: take_Cons')
  next
    case False
    then have "limit = Suc (length out)" using Cons.prems by simp
    then show ?thesis using Cons.IH [of out "Suc m"] Cons.prems p by auto
  qed
qed simp

lemma filter_enumerate: "filter (\<lambda>(n, _). c < n) (enumerate (Suc m) h) = drop (c - m) (enumerate (Suc m) h)"
proof (induction h arbitrary: m)
  case (Cons x h)
  have "c - Suc m = d" if "c - m = Suc d" for d using that by simp
  with Cons show ?case by (cases "c - m") (auto simp: in_set_enumerate_eq intro!: filter_True)
qed simp

lemma readSince_log:
  assumes "json_codec stringify json_parse" "list_all event_ok h" "epoch \<noteq> []" "0 < limit"
    and "disk_log stringify epoch h f" "file_stream f chunks e"
  shows "readSince json_parse c limit chunks e = Inr (take limit (drop c (enumerate 1 h)))"
proof (cases f)
  case None
  then show ?thesis using assms(5,6) by (simp add: readSince_def readLines_def disk_log_def)
next
  case (Some s)
  then obtain t where "s = join_lines (log_lines stringify epoch t h)" using assms(5) by (auto simp: disk_log_def)
  then have "lines_of (concat chunks) = log_lines stringify epoch t h" "e = StreamEnd"
    using assms(6) Some lines_of_log [OF assms(1,2)] by auto
  then show ?thesis
    using read_entries_events [OF assms(1,4,2), of "[]" c 0] assms(4)
    by (simp add: readSince_def readLines_chunks log_lines_def parse_header [OF assms(1,3)] filter_enumerate)
qed

end
