(* ===== verification/SessionTrackers.thy ===== *)
theory SessionTrackers
  imports JsValue OrderedMap
begin

text \<open>
  What the server keeps of a session for clients that connect in the middle of a turn:
  \<open>packages/kap-server/src/transport/ws/v1/inFlightTurnTracker.ts\<close> (the text streamed in the current
  step and the running tools) and \<open>subagentRosterTracker.ts\<close> (the live subagents). An event is a
  value of \<open>session_event\<close>: a body with the fields these two read, and its remaining fields; the clock is
  a parameter.
\<close>

section \<open>Events\<close>

datatype update_kind = KStdout | KStderr | KProgress | KStatus | KCustom

record progress_update =
  pu_kind :: update_kind
  pu_text :: "string option"
  pu_percent :: "number option"
  pu_fields :: "(string \<times> json) list"

datatype end_reason = EndCompleted | EndCancelled | EndFailed | EndBlocked

fun reason_str :: "end_reason \<Rightarrow> string" where
  "reason_str EndCompleted = ''completed''"
| "reason_str EndCancelled = ''cancelled''"
| "reason_str EndFailed = ''failed''"
| "reason_str EndBlocked = ''blocked''"

record spawn_info =
  sp_subagentId :: string
  sp_subagentName :: "string option"
  sp_parentToolCallId :: string
  sp_description :: "string option"
  sp_swarmIndex :: "number option"
  sp_runInBackground :: "bool option"

record task_info =
  ti_kind :: string
  ti_detached :: "bool option"
  ti_agentId :: "string option"
  ti_fields :: "(string \<times> json) list"

datatype event_body =
    TurnStarted int
  | TurnEnded int end_reason
  | StepStarted int
  | AssistantDelta int string
  | ThinkingDelta int string
  | ToolCallStarted int string string json "string option" json
  | ToolProgress string progress_update
  | ToolResultEvent string
  | SubagentSpawned spawn_info
  | SubagentStarted string
  | SubagentSuspended string "string option"
  | SubagentCompleted string "string option"
  | SubagentFailed string "string option"
  | TaskStarted task_info
  | OtherEvent string

record session_event =
  se_agentId :: "string option"
  se_body :: event_body
  se_fields :: "(string \<times> json) list"

definition MAIN_AGENT_ID :: string where "MAIN_AGENT_ID = ''main''"

definition from_main :: "session_event \<Rightarrow> bool" where
  "from_main e \<longleftrightarrow> se_agentId e = Some MAIN_AGENT_ID"

section \<open>The turn in flight\<close>

record last_progress =
  lp_kind :: update_kind
  lp_text :: "string option"
  lp_percent :: "number option"

record tool_accum =
  ta_tool_call_id :: string
  ta_name :: string
  ta_args :: json
  ta_description :: "string option"
  ta_display :: json
  ta_last_progress :: "last_progress option"

record turn_accum =
  tu_turnId :: int
  tu_assistantText :: string
  tu_thinkingText :: string
  tu_tools :: "(string, tool_accum) jsmap"

type_synonym turn_tracker = "(string, turn_accum) jsmap"

text \<open>
  A change of the accumulated turn is a change of the object the map holds. The result is the map and
  the offset the annotation carries, if any.
\<close>

definition with_turn ::
  "string \<Rightarrow> int \<Rightarrow> (turn_accum \<Rightarrow> turn_accum \<times> nat option) \<Rightarrow> turn_tracker \<Rightarrow> turn_tracker \<times> nat option" where
  "with_turn sessionId turnId f t =
     (case jm_get t sessionId of
        None \<Rightarrow> (t, None)
      | Some turn \<Rightarrow>
          if tu_turnId turn \<noteq> turnId then (t, None)
          else let (turn2, offset) = f turn in (jm_set sessionId turn2 t, offset))"

fun tracker_apply :: "string \<Rightarrow> session_event \<Rightarrow> turn_tracker \<Rightarrow> turn_tracker \<times> nat option" where
  "tracker_apply sessionId e t =
     (if \<not> from_main e then (t, None)
      else case se_body e of
        TurnStarted turnId \<Rightarrow>
          (jm_set sessionId \<lparr>tu_turnId = turnId, tu_assistantText = [], tu_thinkingText = [], tu_tools = []\<rparr> t, None)
      | TurnEnded _ _ \<Rightarrow> (jm_delete sessionId t, None)
      | StepStarted turnId \<Rightarrow>
          with_turn sessionId turnId (\<lambda>turn. (turn\<lparr>tu_assistantText := [], tu_thinkingText := []\<rparr>, None)) t
      | AssistantDelta turnId delta \<Rightarrow>
          with_turn sessionId turnId
            (\<lambda>turn. (turn\<lparr>tu_assistantText := tu_assistantText turn @ delta\<rparr>, Some (length (tu_assistantText turn)))) t
      | ThinkingDelta turnId delta \<Rightarrow>
          with_turn sessionId turnId
            (\<lambda>turn. (turn\<lparr>tu_thinkingText := tu_thinkingText turn @ delta\<rparr>, Some (length (tu_thinkingText turn)))) t
      | ToolCallStarted turnId i name args description display \<Rightarrow>
          with_turn sessionId turnId
            (\<lambda>turn. (turn\<lparr>tu_tools := jm_set i
                \<lparr>ta_tool_call_id = i, ta_name = name, ta_args = args, ta_description = description,
                 ta_display = display, ta_last_progress = None\<rparr> (tu_tools turn)\<rparr>, None)) t
      | ToolProgress i u \<Rightarrow>
          (case jm_get t sessionId of
             None \<Rightarrow> (t, None)
           | Some turn \<Rightarrow>
               (case jm_get (tu_tools turn) i of
                  None \<Rightarrow> (t, None)
                | Some tool \<Rightarrow>
                    if pu_kind u = KCustom then (t, None)
                    else (jm_set sessionId
                       (turn\<lparr>tu_tools := jm_set i
                          (tool\<lparr>ta_last_progress := Some \<lparr>lp_kind = pu_kind u, lp_text = pu_text u,
                             lp_percent = pu_percent u\<rparr>\<rparr>) (tu_tools turn)\<rparr>) t, None)))
      | ToolResultEvent i \<Rightarrow>
          (case jm_get t sessionId of
             None \<Rightarrow> (t, None)
           | Some turn \<Rightarrow> (jm_set sessionId (turn\<lparr>tu_tools := jm_delete i (tu_tools turn)\<rparr>) t, None))
      | _ \<Rightarrow> (t, None))"

record in_flight_turn =
  if_turn_id :: int
  if_assistant_text :: string
  if_thinking_text :: string
  if_running_tools :: "tool_accum list"

definition tracker_get :: "string \<Rightarrow> turn_tracker \<Rightarrow> in_flight_turn option" where
  "tracker_get sessionId t =
     map_option (\<lambda>turn. \<lparr>if_turn_id = tu_turnId turn, if_assistant_text = tu_assistantText turn,
       if_thinking_text = tu_thinkingText turn, if_running_tools = jm_values (tu_tools turn)\<rparr>) (jm_get t sessionId)"

definition tracker_clear :: "string \<Rightarrow> turn_tracker \<Rightarrow> turn_tracker" where
  "tracker_clear sessionId t = jm_delete sessionId t"

section \<open>The roster of subagents\<close>

datatype task_status = StRunning | StCompleted | StFailed

datatype subagent_phase = PhQueued | PhWorking | PhSuspended | PhCompleted | PhFailed

record snapshot_subagent =
  sn_id :: string
  sn_session_id :: string
  sn_kind :: string
  sn_description :: string
  sn_status :: task_status
  sn_subagent_phase :: subagent_phase
  sn_subagent_type :: "string option"
  sn_parent_tool_call_id :: "string option"
  sn_swarm_index :: "number option"
  sn_run_in_background :: "bool option"
  sn_created_at :: string
  sn_started_at :: "string option"
  sn_completed_at :: "string option"
  sn_suspended_reason :: "string option"
  sn_output_preview :: "string option"

type_synonym roster = "(string, snapshot_subagent) jsmap"
type_synonym roster_tracker = "(string, roster) jsmap"

definition with_entry ::
  "string \<Rightarrow> string \<Rightarrow> (snapshot_subagent \<Rightarrow> snapshot_subagent) \<Rightarrow> roster_tracker \<Rightarrow> roster_tracker" where
  "with_entry sessionId i f t =
     (case jm_get t sessionId of
        None \<Rightarrow> t
      | Some r \<Rightarrow> (case jm_get r i of None \<Rightarrow> t | Some entry \<Rightarrow> jm_set sessionId (jm_set i (f entry) r) t))"

definition spawned_entry :: "string \<Rightarrow> string \<Rightarrow> spawn_info \<Rightarrow> snapshot_subagent" where
  "spawned_entry now sessionId sp =
     \<lparr>sn_id = sp_subagentId sp, sn_session_id = sessionId, sn_kind = ''subagent'',
      sn_description = (case sp_description sp of Some d \<Rightarrow> d
        | None \<Rightarrow> (case sp_subagentName sp of Some n \<Rightarrow> n | None \<Rightarrow> ''Sub Agent'')),
      sn_status = StRunning, sn_subagent_phase = PhQueued, sn_subagent_type = sp_subagentName sp,
      sn_parent_tool_call_id = (if sp_parentToolCallId sp = [] then None else Some (sp_parentToolCallId sp)),
      sn_swarm_index = sp_swarmIndex sp, sn_run_in_background = sp_runInBackground sp, sn_created_at = now,
      sn_started_at = None, sn_completed_at = None, sn_suspended_reason = None, sn_output_preview = None\<rparr>"

definition or_else :: "'a option \<Rightarrow> 'a \<Rightarrow> 'a option" where
  "or_else a b = (case a of None \<Rightarrow> Some b | Some x \<Rightarrow> Some x)"

definition abort_entry :: "string \<Rightarrow> end_reason \<Rightarrow> snapshot_subagent \<Rightarrow> snapshot_subagent" where
  "abort_entry now reason entry =
     (if sn_status entry \<noteq> StRunning then entry
      else entry\<lparr>sn_status := StFailed, sn_subagent_phase := PhFailed, sn_completed_at := Some now,
        sn_output_preview := or_else (sn_output_preview entry) (''Main turn '' @ reason_str reason)\<rparr>)"

text \<open>\<open>now\<close> is the time \<open>new Date().toISOString()\<close> gives while the event is handled.\<close>

fun roster_apply :: "string \<Rightarrow> string \<Rightarrow> session_event \<Rightarrow> roster_tracker \<Rightarrow> roster_tracker" where
  "roster_apply now sessionId e t =
     (case se_body e of
        SubagentSpawned sp \<Rightarrow>
          if sp_runInBackground sp = Some True then t
          else
            let r = (case jm_get t sessionId of None \<Rightarrow> [] | Some r \<Rightarrow> r)
            in jm_set sessionId (jm_set (sp_subagentId sp) (spawned_entry now sessionId sp) r) t
      | SubagentStarted i \<Rightarrow>
          with_entry sessionId i
            (\<lambda>en. en\<lparr>sn_subagent_phase := PhWorking, sn_suspended_reason := None,
                    sn_started_at := or_else (sn_started_at en) now\<rparr>) t
      | SubagentSuspended i reason \<Rightarrow>
          with_entry sessionId i (\<lambda>en. en\<lparr>sn_subagent_phase := PhSuspended, sn_suspended_reason := reason\<rparr>) t
      | SubagentCompleted i summary \<Rightarrow>
          with_entry sessionId i
            (\<lambda>en. en\<lparr>sn_subagent_phase := PhCompleted, sn_status := StCompleted, sn_completed_at := Some now,
                    sn_output_preview := summary\<rparr>) t
      | SubagentFailed i err \<Rightarrow>
          with_entry sessionId i
            (\<lambda>en. en\<lparr>sn_subagent_phase := PhFailed, sn_status := StFailed, sn_completed_at := Some now,
                    sn_output_preview := err\<rparr>) t
      | TaskStarted info \<Rightarrow>
          (case ti_agentId info of
             Some agent \<Rightarrow>
               if ti_kind info = ''agent'' \<and> ti_detached info = Some True
               then (case jm_get t sessionId of None \<Rightarrow> t | Some r \<Rightarrow> jm_set sessionId (jm_delete agent r) t)
               else t
           | None \<Rightarrow> t)
      | TurnEnded _ reason \<Rightarrow>
          if \<not> from_main e then t
          else (case jm_get t sessionId of
            None \<Rightarrow> t
          | Some r \<Rightarrow>
              if reason = EndCompleted then t
              else jm_set sessionId (map (\<lambda>(i, en). (i, abort_entry now reason en)) r) t)
      | TurnStarted _ \<Rightarrow> if from_main e then jm_delete sessionId t else t
      | _ \<Rightarrow> t)"

definition roster_get :: "string \<Rightarrow> roster_tracker \<Rightarrow> snapshot_subagent list" where
  "roster_get sessionId t = (case jm_get t sessionId of None \<Rightarrow> [] | Some r \<Rightarrow> jm_values r)"

definition roster_clear :: "string \<Rightarrow> roster_tracker \<Rightarrow> roster_tracker" where
  "roster_clear sessionId t = jm_delete sessionId t"

section \<open>What a client is seeded with\<close>

text \<open>
  Events of all sessions, oldest first. The specifications read one session's events backwards, the
  newest first.
\<close>

definition track_all :: "(string \<times> session_event) list \<Rightarrow> turn_tracker" where
  "track_all xs = foldl (\<lambda>t (sid, e). fst (tracker_apply sid e t)) [] xs"

definition roster_all :: "(string \<times> session_event \<times> string) list \<Rightarrow> roster_tracker" where
  "roster_all xs = foldl (\<lambda>t (sid, e, now). roster_apply now sid e t) [] xs"

fun live_turn :: "session_event list \<Rightarrow> int option" where
  "live_turn [] = None"
| "live_turn (e # es) =
     (if \<not> from_main e then live_turn es
      else case se_body e of TurnStarted n \<Rightarrow> Some n | TurnEnded _ _ \<Rightarrow> None | _ \<Rightarrow> live_turn es)"

text \<open>The deltas of turn \<open>n\<close> since its last step began; \<open>sel\<close> picks the channel.\<close>

fun step_text :: "(event_body \<Rightarrow> (int \<times> string) option) \<Rightarrow> int \<Rightarrow> session_event list \<Rightarrow> string" where
  "step_text sel n [] = []"
| "step_text sel n (e # es) =
     (if \<not> from_main e then step_text sel n es
      else case se_body e of
        TurnStarted _ \<Rightarrow> []
      | StepStarted k \<Rightarrow> if k = n then [] else step_text sel n es
      | b \<Rightarrow> (case sel b of Some (k, d) \<Rightarrow> if k = n then step_text sel n es @ d else step_text sel n es
             | None \<Rightarrow> step_text sel n es))"

fun assistant_delta :: "event_body \<Rightarrow> (int \<times> string) option" where
  "assistant_delta (AssistantDelta k d) = Some (k, d)"
| "assistant_delta _ = None"

fun thinking_delta :: "event_body \<Rightarrow> (int \<times> string) option" where
  "thinking_delta (ThinkingDelta k d) = Some (k, d)"
| "thinking_delta _ = None"

fun is_running :: "string \<Rightarrow> int \<Rightarrow> session_event list \<Rightarrow> bool" where
  "is_running i n [] = False"
| "is_running i n (e # es) =
     (if \<not> from_main e then is_running i n es
      else case se_body e of
        TurnStarted _ \<Rightarrow> False
      | ToolCallStarted k j _ _ _ _ \<Rightarrow> (k = n \<and> j = i) \<or> is_running i n es
      | ToolResultEvent j \<Rightarrow> j \<noteq> i \<and> is_running i n es
      | _ \<Rightarrow> is_running i n es)"

fun is_listed :: "string \<Rightarrow> session_event list \<Rightarrow> bool" where
  "is_listed i [] = False"
| "is_listed i (e # es) =
     (case se_body e of
        TurnStarted _ \<Rightarrow> \<not> from_main e \<and> is_listed i es
      | SubagentSpawned sp \<Rightarrow> (sp_subagentId sp = i \<and> sp_runInBackground sp \<noteq> Some True) \<or> is_listed i es
      | TaskStarted info \<Rightarrow>
          \<not> (ti_kind info = ''agent'' \<and> ti_detached info = Some True \<and> ti_agentId info = Some i) \<and> is_listed i es
      | _ \<Rightarrow> is_listed i es)"

definition newest_first :: "string \<Rightarrow> (string \<times> 'a) list \<Rightarrow> 'a list" where
  "newest_first sid xs = rev (map snd (filter (\<lambda>x. fst x = sid) xs))"

text \<open>One event.\<close>

definition turn_ok :: "turn_accum option \<Rightarrow> session_event list \<Rightarrow> bool" where
  "turn_ok turn es \<longleftrightarrow>
     (case turn of
        None \<Rightarrow> live_turn es = None
      | Some u \<Rightarrow> live_turn es = Some (tu_turnId u)
          \<and> tu_assistantText u = step_text assistant_delta (tu_turnId u) es
          \<and> tu_thinkingText u = step_text thinking_delta (tu_turnId u) es
          \<and> jm_ok (tu_tools u) \<and> jm_keyed ta_tool_call_id (tu_tools u)
          \<and> (\<forall>i. jm_get (tu_tools u) i \<noteq> None \<longleftrightarrow> is_running i (tu_turnId u) es))"

lemma jm_keyed_Nil: "jm_keyed key []"
  by (simp add: jm_keyed_def)

lemma tracker_other: "sid2 \<noteq> sid \<Longrightarrow> jm_get (fst (tracker_apply sid2 e t)) sid = jm_get t sid"
  by (auto simp: with_turn_def Let_def split: event_body.split option.split prod.split)

lemma tracker_step:
  assumes "turn_ok (jm_get t sid) es"
  shows "turn_ok (jm_get (fst (tracker_apply sid e t)) sid) (e # es)"
proof (cases "from_main e")
  case True
  show ?thesis
  proof (cases "jm_get t sid")
    case None
    then show ?thesis using assms True
      by (cases "se_body e") (auto simp: turn_ok_def with_turn_def jm_keyed_Nil)
  next
    case (Some u)
    have ok: "jm_ok (tu_tools u)" "jm_keyed ta_tool_call_id (tu_tools u)"
      "\<And>i. jm_get (tu_tools u) i \<noteq> None \<longleftrightarrow> is_running i (tu_turnId u) es"
      using assms Some by (simp_all add: turn_ok_def)
    show ?thesis
    proof (cases "se_body e")
      case (ToolCallStarted n i name args d disp)
      then show ?thesis using assms Some True ok
        by (auto simp: turn_ok_def with_turn_def jm_ok_set intro!: jm_keyed_set)
    next
      case (ToolProgress i up)
      show ?thesis
      proof (cases "jm_get (tu_tools u) i")
        case (Some tool)
        then have "is_running i (tu_turnId u) es" using ok(3) by blast
        moreover have "ta_tool_call_id tool = i" using ok(2) Some by (rule jm_keyed_get)
        ultimately show ?thesis using assms \<open>jm_get t sid = Some u\<close> True Some ToolProgress
          by (auto simp: turn_ok_def jm_ok_set intro!: jm_keyed_set)
      qed (use assms Some True ToolProgress in \<open>simp add: turn_ok_def\<close>)
    next
      case (ToolResultEvent i)
      then show ?thesis using assms Some True ok
        by (auto simp: turn_ok_def jm_ok_delete jm_keyed_delete)
    qed (use assms Some True in \<open>auto simp: turn_ok_def with_turn_def jm_keyed_Nil\<close>)
  qed
qed (use assms in \<open>auto simp: turn_ok_def split: option.splits\<close>)

lemma newest_first_snoc:
  "newest_first sid (xs @ [(sid2, x)]) = (if sid2 = sid then x # newest_first sid xs else newest_first sid xs)"
  by (simp add: newest_first_def)

lemma track_all_ok: "turn_ok (jm_get (track_all xs) sid) (newest_first sid xs)"
proof (induction xs rule: rev_induct)
  case Nil
  then show ?case by (simp add: track_all_def newest_first_def turn_ok_def)
next
  case (snoc x xs)
  obtain sid2 e where x: "x = (sid2, e)" by (cases x)
  have t: "track_all (xs @ [(sid2, e)]) = fst (tracker_apply sid2 e (track_all xs))" by (simp add: track_all_def)
  show ?case using snoc tracker_step [OF snoc, of e] tracker_other [of sid2 sid e "track_all xs"]
    unfolding x t newest_first_snoc by (cases "sid2 = sid") (simp_all del: tracker_apply.simps)
qed

definition roster_ok :: "roster option \<Rightarrow> session_event list \<Rightarrow> bool" where
  "roster_ok r es \<longleftrightarrow>
     (case r of
        None \<Rightarrow> (\<forall>i. \<not> is_listed i es)
      | Some r \<Rightarrow> jm_ok r \<and> jm_keyed sn_id r \<and> (\<forall>i. jm_get r i \<noteq> None \<longleftrightarrow> is_listed i es))"

lemma roster_other: "sid2 \<noteq> sid \<Longrightarrow> jm_get (roster_apply now sid2 e t) sid = jm_get t sid"
  by (auto simp: with_entry_def Let_def split: event_body.split option.split)

lemma abort_id [simp]: "sn_id (abort_entry now reason en) = sn_id en"
  by (simp add: abort_entry_def)

lemma map_entries:
  "jm_ok (map (\<lambda>(i, en). (i, f en)) r) = jm_ok r"
  "jm_get (map (\<lambda>(i, en). (i, f en)) r) i = map_option f (jm_get r i)"
  "(\<And>en. sn_id (f en) = sn_id en) \<Longrightarrow> jm_keyed sn_id (map (\<lambda>(i, en). (i, f en)) r) = jm_keyed sn_id r"
  by (induction r) (auto simp: jm_ok_def jm_get_def jm_keyed_def case_prod_beta')

lemma jm_keyed_single: "key v = k \<Longrightarrow> jm_keyed key [(k, v)]"
  by (simp add: jm_keyed_def)

lemma jm_get_single: "jm_get [(k, v)] i = (if i = k then Some v else None)"
  by (simp add: jm_get_def)

lemma spawned_id [simp]: "sn_id (spawned_entry now sid sp) = sp_subagentId sp"
  by (simp add: spawned_entry_def)

lemma roster_ok_update:
  assumes "roster_ok (jm_get t sid) es" "\<And>en. sn_id (f en) = sn_id en"
  shows "roster_ok (jm_get (with_entry sid i f t) sid) es"
  using assms
  by (auto simp: roster_ok_def with_entry_def jm_ok_set split: option.splits intro!: jm_keyed_set dest: jm_keyed_get)

lemma roster_ok_cong: "roster_ok r es \<Longrightarrow> (\<And>i. is_listed i es2 = is_listed i es) \<Longrightarrow> roster_ok r es2"
  by (simp add: roster_ok_def split: option.splits)

lemma roster_step:
  assumes "roster_ok (jm_get t sid) es"
  shows "roster_ok (jm_get (roster_apply now sid e t) sid) (e # es)"
proof (cases "se_body e")
  case (SubagentSpawned sp)
  then show ?thesis using assms
    by (auto simp: roster_ok_def jm_ok_def jm_keyed_single jm_get_single Let_def jm_fst_set
        split: option.splits intro!: jm_keyed_set)
next
  case (SubagentStarted i)
  then show ?thesis by (auto intro!: roster_ok_cong [OF roster_ok_update [OF assms]])
next
  case (SubagentSuspended i reason)
  then show ?thesis by (auto intro!: roster_ok_cong [OF roster_ok_update [OF assms]])
next
  case (SubagentCompleted i reason)
  then show ?thesis by (auto intro!: roster_ok_cong [OF roster_ok_update [OF assms]])
next
  case (SubagentFailed i reason)
  then show ?thesis by (auto intro!: roster_ok_cong [OF roster_ok_update [OF assms]])
next
  case (TaskStarted info)
  then show ?thesis using assms
    by (auto simp: roster_ok_def jm_ok_delete jm_keyed_delete split: option.splits)
next
  case (TurnEnded n reason)
  then show ?thesis using assms by (auto simp: roster_ok_def map_entries split: option.splits)
qed (use assms in \<open>auto simp: roster_ok_def split: option.splits\<close>)

lemma roster_all_ok: "roster_ok (jm_get (roster_all xs) sid) (map fst (newest_first sid xs))"
proof (induction xs rule: rev_induct)
  case Nil
  then show ?case by (simp add: roster_all_def newest_first_def roster_ok_def)
next
  case (snoc x xs)
  obtain sid2 e now where x: "x = (sid2, e, now)" by (cases x)
  have t: "roster_all (xs @ [(sid2, e, now)]) = roster_apply now sid2 e (roster_all xs)" by (simp add: roster_all_def)
  show ?case using snoc roster_step [OF snoc, of now e] roster_other [of sid2 sid now e "roster_all xs"]
    unfolding x t newest_first_snoc by (cases "sid2 = sid") (simp_all del: roster_apply.simps)
qed

lemma keyed_values: "jm_keyed key m \<Longrightarrow> i \<in> set (map key (jm_values m)) \<longleftrightarrow> jm_get m i \<noteq> None"
  by (metis jm_keyed_keys jm_keys_def jm_keys_get)

text \<open>
  What a client that connects in the middle of a turn is given. Whatever events of all sessions came
  before, a session has a turn in flight exactly when the last start of a main turn was not followed by its end;
  its texts are the deltas of that turn since its step began, in order; its running tools are the calls
  that started in it without a result; and the next delta of that turn is stamped with the length of the
  text so far, which it extends.
\<close>

theorem in_flight_turn_tracks:
  "case tracker_get sid (track_all xs) of
     None \<Rightarrow> live_turn (newest_first sid xs) = None
   | Some turn \<Rightarrow>
       live_turn (newest_first sid xs) = Some (if_turn_id turn)
       \<and> if_assistant_text turn = step_text assistant_delta (if_turn_id turn) (newest_first sid xs)
       \<and> if_thinking_text turn = step_text thinking_delta (if_turn_id turn) (newest_first sid xs)
       \<and> distinct (map ta_tool_call_id (if_running_tools turn))
       \<and> set (map ta_tool_call_id (if_running_tools turn)) = {i. is_running i (if_turn_id turn) (newest_first sid xs)}
       \<and> snd (tracker_apply sid \<lparr>se_agentId = Some MAIN_AGENT_ID, se_body = AssistantDelta (if_turn_id turn) d, se_fields = fs\<rparr> (track_all xs))
         = Some (length (if_assistant_text turn))"
proof -
  have ok: "turn_ok (jm_get (track_all xs) sid) (newest_first sid xs)" by (rule track_all_ok)
  show ?thesis
  proof (cases "jm_get (track_all xs) sid")
    case None
    then show ?thesis using ok by (simp add: tracker_get_def turn_ok_def)
  next
    case (Some u)
    then have k: "jm_ok (tu_tools u)" "jm_keyed ta_tool_call_id (tu_tools u)"
      "\<And>i. jm_get (tu_tools u) i \<noteq> None \<longleftrightarrow> is_running i (tu_turnId u) (newest_first sid xs)"
      using ok by (simp_all add: turn_ok_def)
    have "set (map ta_tool_call_id (jm_values (tu_tools u))) = {i. is_running i (tu_turnId u) (newest_first sid xs)}"
      using keyed_values [OF k(2)] k(3) by blast
    moreover have "distinct (map ta_tool_call_id (jm_values (tu_tools u)))"
      using k(1) jm_keyed_keys [OF k(2)] by (simp add: jm_ok_def)
    ultimately show ?thesis using Some ok
      by (simp add: tracker_get_def turn_ok_def with_turn_def from_main_def del: set_map)
  qed
qed

text \<open>
  The roster lists the foreground subagents of the current main turn: those spawned since the main agent last
  started a turn and not detached since, each once, whatever else happened in this session and the others.
\<close>

theorem roster_lists_live_subagents:
  "distinct (map sn_id (roster_get sid (roster_all xs)))
   \<and> set (map sn_id (roster_get sid (roster_all xs))) = {i. is_listed i (map fst (newest_first sid xs))}"
proof -
  have ok: "roster_ok (jm_get (roster_all xs) sid) (map fst (newest_first sid xs))" by (rule roster_all_ok)
  show ?thesis
  proof (cases "jm_get (roster_all xs) sid")
    case None
    then show ?thesis using ok by (simp add: roster_get_def roster_ok_def)
  next
    case (Some r)
    then have k: "jm_ok r" "jm_keyed sn_id r" "\<And>i. jm_get r i \<noteq> None \<longleftrightarrow> is_listed i (map fst (newest_first sid xs))"
      using ok by (simp_all add: roster_ok_def)
    have "set (map sn_id (jm_values r)) = {i. is_listed i (map fst (newest_first sid xs))}"
      using keyed_values [OF k(2)] k(3) by blast
    moreover have "distinct (map sn_id (jm_values r))" using k(1) jm_keyed_keys [OF k(2)] by (simp add: jm_ok_def)
    ultimately show ?thesis using Some by (simp add: roster_get_def del: set_map)
  qed
qed

text \<open>No entry is running once the main turn was aborted, whatever comes before the next spawn.\<close>

fun spawns :: "session_event \<Rightarrow> bool" where
  "spawns e = (case se_body e of SubagentSpawned sp \<Rightarrow> sp_runInBackground sp \<noteq> Some True | _ \<Rightarrow> False)"

definition none_running :: "roster option \<Rightarrow> bool" where
  "none_running r = (case r of None \<Rightarrow> True | Some r \<Rightarrow> (\<forall>i en. jm_get r i = Some en \<longrightarrow> sn_status en \<noteq> StRunning))"

lemma abort_not_running [simp]: "sn_status (abort_entry now reason en) \<noteq> StRunning"
  by (simp add: abort_entry_def)

lemma none_running_step:
  "none_running (jm_get t sid) \<Longrightarrow> \<not> spawns e \<Longrightarrow> none_running (jm_get (roster_apply now sid e t) sid)"
  by (cases "se_body e")
    (auto simp: none_running_def with_entry_def map_entries split: option.splits if_splits)

lemma none_running_run:
  "none_running (jm_get t sid) \<Longrightarrow> (\<forall>(sid2, e, now) \<in> set xs. sid2 = sid \<longrightarrow> \<not> spawns e) \<Longrightarrow>
   none_running (jm_get (foldl (\<lambda>t (sid, e, now). roster_apply now sid e t) t xs) sid)"
proof (induction xs arbitrary: t)
  case (Cons x xs)
  obtain sid2 e now where x: "x = (sid2, e, now)" by (cases x)
  have "none_running (jm_get (roster_apply now sid2 e t) sid)"
    using Cons.prems none_running_step [OF Cons.prems(1), of e now] roster_other [of sid2 sid now e t]
    by (cases "sid2 = sid") (auto simp: x simp del: roster_apply.simps spawns.simps)
  with Cons show ?case by (simp add: x del: roster_apply.simps spawns.simps)
qed simp

text \<open>
  C36: An aborted turn leaves no phantom. After the main turn of a session ended other than completed, and until a
  foreground subagent is spawned in it again, no subagent of its roster is shown as running, whichever
  late events of subagents still arrive.
\<close>

theorem aborted_turn_leaves_no_running_subagent:
  assumes "se_agentId e = Some MAIN_AGENT_ID" "se_body e = TurnEnded n reason" "reason \<noteq> EndCompleted"
    "\<forall>(sid2, e, now) \<in> set late. sid2 = sid \<longrightarrow> \<not> spawns e"
  shows "filter (\<lambda>en. sn_status en = StRunning) (roster_get sid (roster_all (xs @ (sid, e, now) # late))) = []"
proof -
  let ?t = "roster_apply now sid e (roster_all xs)"
  have "none_running (jm_get ?t sid)"
    using assms(1-3) by (auto simp: none_running_def from_main_def map_entries split: option.splits)
  from none_running_run [OF this assms(4)]
  have n: "none_running (jm_get (roster_all (xs @ (sid, e, now) # late)) sid)" by (simp add: roster_all_def)
  show ?thesis
  proof (cases "jm_get (roster_all (xs @ (sid, e, now) # late)) sid")
    case (Some r)
    then have "jm_ok r" using roster_all_ok [of "xs @ (sid, e, now) # late" sid] by (simp add: roster_ok_def)
    then show ?thesis using n Some
      by (auto simp: roster_get_def none_running_def filter_empty_conv jm.vals_set)
  qed (simp add: roster_get_def)
qed

definition sample_spawn :: spawn_info where
  "sample_spawn =
     \<lparr>sp_subagentId = ''a1'', sp_subagentName = Some ''coder'', sp_parentToolCallId = ''c1'', sp_description = None,
      sp_swarmIndex = Some 0, sp_runInBackground = Some False\<rparr>"

theorem aborted_turn_leaves_no_running_subagent_witness:
  "filter (\<lambda>en. sn_status en = StRunning) (roster_get ''s'' (roster_all
     ([(''s'', \<lparr>se_agentId = Some ''main'', se_body = SubagentSpawned sample_spawn, se_fields = []\<rparr>, ''t1'')]
      @ (''s'', \<lparr>se_agentId = Some ''main'', se_body = TurnEnded 1 EndCancelled, se_fields = []\<rparr>, ''t2'')
      # [(''s'', \<lparr>se_agentId = Some ''a1'', se_body = SubagentStarted ''a1'', se_fields = []\<rparr>, ''t3'')]))) = []"
  by (rule aborted_turn_leaves_no_running_subagent [where n = 1 and reason = EndCancelled])
    (simp_all add: MAIN_AGENT_ID_def)

end
