(* ===== verification/EventStream.thy ===== *)
theory EventStream
  imports EventJournal SessionTrackers Granularity
begin

text \<open>
  \<open>packages/kap-server/src/transport/ws/v1/sessionEventBroadcaster.ts\<close>, the event channel: events are
  stamped with a sequence number, journaled, kept in a memory tail and sent to the subscribed
  connections; a connection that comes back resumes from its cursor. The dispatch queue of a session runs one
  dispatch at a time without waiting in between, so a dispatch is one step. Of the
  transcript channel only the bookkeeping of who has a baseline is here; what it sends is in \<open>TranscriptChannel\<close>.
\<close>

section \<open>Events on the wire\<close>

fun event_type :: "event_body \<Rightarrow> string" where
  "event_type (TurnStarted _) = ''turn.started''"
| "event_type (TurnEnded _ _) = ''turn.ended''"
| "event_type (StepStarted _) = ''turn.step.started''"
| "event_type (AssistantDelta _ _) = ''assistant.delta''"
| "event_type (ThinkingDelta _ _) = ''thinking.delta''"
| "event_type (ToolCallStarted _ _ _ _ _ _) = ''tool.call.started''"
| "event_type (ToolProgress _ _) = ''tool.progress''"
| "event_type (ToolResultEvent _) = ''tool.result''"
| "event_type (SubagentSpawned _) = ''subagent.spawned''"
| "event_type (SubagentStarted _) = ''subagent.started''"
| "event_type (SubagentSuspended _ _) = ''subagent.suspended''"
| "event_type (SubagentCompleted _ _) = ''subagent.completed''"
| "event_type (SubagentFailed _ _) = ''subagent.failed''"
| "event_type (TaskStarted _) = ''task.started''"
| "event_type (OtherEvent ty) = ty"

text \<open>A property that is \<open>undefined\<close> is not in the object.\<close>

definition opt_str :: "string \<Rightarrow> string option \<Rightarrow> (string \<times> json) list" where
  "opt_str k v = (case v of None \<Rightarrow> [] | Some s \<Rightarrow> [(k, JStr s)])"

definition opt_num :: "string \<Rightarrow> number option \<Rightarrow> (string \<times> json) list" where
  "opt_num k v = (case v of None \<Rightarrow> [] | Some n \<Rightarrow> [(k, JNum n)])"

definition opt_bool :: "string \<Rightarrow> bool option \<Rightarrow> (string \<times> json) list" where
  "opt_bool k v = (case v of None \<Rightarrow> [] | Some b \<Rightarrow> [(k, JBool b)])"

definition opt_json :: "string \<Rightarrow> json \<Rightarrow> (string \<times> json) list" where
  "opt_json k v = (if v = JUndef then [] else [(k, v)])"

fun update_kind_str :: "update_kind \<Rightarrow> string" where
  "update_kind_str KStdout = ''stdout''"
| "update_kind_str KStderr = ''stderr''"
| "update_kind_str KProgress = ''progress''"
| "update_kind_str KStatus = ''status''"
| "update_kind_str KCustom = ''custom''"

fun body_fields :: "event_body \<Rightarrow> (string \<times> json) list" where
  "body_fields (TurnStarted n) = [(''turnId'', JNum (of_int n))]"
| "body_fields (TurnEnded n r) = [(''turnId'', JNum (of_int n)), (''reason'', JStr (reason_str r))]"
| "body_fields (StepStarted n) = [(''turnId'', JNum (of_int n))]"
| "body_fields (AssistantDelta n d) = [(''turnId'', JNum (of_int n)), (''delta'', JStr d)]"
| "body_fields (ThinkingDelta n d) = [(''turnId'', JNum (of_int n)), (''delta'', JStr d)]"
| "body_fields (ToolCallStarted n i name args d disp) =
     [(''turnId'', JNum (of_int n)), (''toolCallId'', JStr i), (''name'', JStr name)]
     @ opt_json ''args'' args @ opt_str ''description'' d @ opt_json ''display'' disp"
| "body_fields (ToolProgress i u) =
     [(''toolCallId'', JStr i),
      (''update'', JObj 0 ((''kind'', JStr (update_kind_str (pu_kind u))) # opt_str ''text'' (pu_text u)
         @ opt_num ''percent'' (pu_percent u) @ pu_fields u))]"
| "body_fields (ToolResultEvent i) = [(''toolCallId'', JStr i)]"
| "body_fields (SubagentSpawned sp) =
     (''subagentId'', JStr (sp_subagentId sp)) # opt_str ''subagentName'' (sp_subagentName sp)
     @ [(''parentToolCallId'', JStr (sp_parentToolCallId sp))] @ opt_str ''description'' (sp_description sp)
     @ opt_num ''swarmIndex'' (sp_swarmIndex sp) @ opt_bool ''runInBackground'' (sp_runInBackground sp)"
| "body_fields (SubagentStarted i) = [(''subagentId'', JStr i)]"
| "body_fields (SubagentSuspended i r) = (''subagentId'', JStr i) # opt_str ''reason'' r"
| "body_fields (SubagentCompleted i r) = (''subagentId'', JStr i) # opt_str ''resultSummary'' r"
| "body_fields (SubagentFailed i r) = (''subagentId'', JStr i) # opt_str ''error'' r"
| "body_fields (TaskStarted info) =
     [(''info'', JObj 0 ((''kind'', JStr (ti_kind info)) # opt_bool ''detached'' (ti_detached info)
         @ opt_str ''agentId'' (ti_agentId info) @ ti_fields info))]"
| "body_fields (OtherEvent _) = []"

definition event_json :: "string \<Rightarrow> session_event \<Rightarrow> json" where
  "event_json sessionId e =
     JObj 0 ((''type'', JStr (event_type (se_body e))) # body_fields (se_body e) @ se_fields e
       @ opt_str ''agentId'' (se_agentId e) @ [(''sessionId'', JStr sessionId)])"

definition VOLATILE_SIGNAL_TYPES :: "string list" where
  "VOLATILE_SIGNAL_TYPES =
     [''assistant.delta'', ''thinking.delta'', ''tool.call.delta'', ''tool.progress'', ''shell.output'',
      ''shell.started'', ''shell.completed'', ''agent.status.updated'']"

definition isVolatileSignal :: "string \<Rightarrow> bool" where
  "isVolatileSignal ty \<longleftrightarrow> ty \<in> set VOLATILE_SIGNAL_TYPES"

definition VOLATILE_EVENT_TYPES :: "string list" where
  "VOLATILE_EVENT_TYPES =
     [''assistant.delta'', ''thinking.delta'', ''tool.call.delta'', ''tool.progress'', ''shell.output'',
      ''shell.started'', ''shell.completed'', ''agent.status.updated'']"

definition isVolatileEventType :: "string \<Rightarrow> bool" where
  "isVolatileEventType ty \<longleftrightarrow> ty \<in> set VOLATILE_EVENT_TYPES"

definition startsWith :: "string \<Rightarrow> string \<Rightarrow> bool" where
  "startsWith s p \<longleftrightarrow> take (length p) s = p"

definition isGlobalEvent :: "string \<Rightarrow> bool" where
  "isGlobalEvent ty \<longleftrightarrow>
     ty = ''session.meta.updated'' \<or> startsWith ty ''event.session.'' \<or> startsWith ty ''event.workspace.''
     \<or> startsWith ty ''event.config.''"

definition isAgentLifecycleEvent :: "string \<Rightarrow> bool" where
  "isAgentLifecycleEvent ty \<longleftrightarrow> ty = ''agent.created'' \<or> ty = ''agent.disposed''"

definition TRANSCRIPT_PROJECTED_EVENT_TYPES :: "string list" where
  "TRANSCRIPT_PROJECTED_EVENT_TYPES =
     [''turn.started'', ''turn.ended'', ''turn.step.started'', ''turn.step.completed'',
      ''turn.step.interrupted'', ''turn.step.retrying'', ''assistant.delta'', ''thinking.delta'',
      ''tool.call.delta'', ''tool.call.started'', ''tool.progress'', ''tool.result'', ''shell.started'',
      ''shell.output'', ''shell.completed'', ''task.started'', ''task.terminated'', ''task.notified'',
      ''subagent.spawned'', ''subagent.started'', ''subagent.completed'', ''subagent.failed'',
      ''subagent.suspended'', ''compaction.started'', ''compaction.blocked'', ''compaction.cancelled'',
      ''compaction.completed'', ''skill.activated'', ''plugin_command.activated'', ''cron.fired'',
      ''error'', ''warning'', ''plan.revision'', ''context.spliced'', ''agent.status.updated'',
      ''hook.result'', ''prompt.submitted'', ''prompt.completed'', ''prompt.aborted'', ''prompt.steered'',
      ''event.question.requested'', ''event.question.dismissed'', ''event.question.answered'',
      ''event.approval.requested'', ''event.approval.resolved'']"

section \<open>What a subscription lets through\<close>

type_synonym agent_filter = "string list option"

record target_subscription =
  sub_agentFilter :: agent_filter
  sub_transcriptGrades :: "grade_spec option"

definition payload_agentId :: "json \<Rightarrow> string option" where
  "payload_agentId envelope = js_string_of (js_opt_prop (js_opt_prop envelope ''payload'') ''agentId'')"

text \<open>Both checks read the type of the envelope as a string; \<open>applyFilter\<close> has the case that it is none.\<close>

definition matchesAgentFilter :: "string \<Rightarrow> json \<Rightarrow> agent_filter \<Rightarrow> bool" where
  "matchesAgentFilter ty envelope flt =
     (case flt of
        None \<Rightarrow> True
      | Some allowed \<Rightarrow>
          if isGlobalEvent ty then True
          else if isAgentLifecycleEvent ty then True
          else (case payload_agentId envelope of None \<Rightarrow> True | Some agentId \<Rightarrow> agentId \<in> set allowed))"

definition suppressedByTranscript :: "string \<Rightarrow> json \<Rightarrow> grade_spec option \<Rightarrow> bool" where
  "suppressedByTranscript ty envelope spec =
     (if spec = None then False
      else if isGlobalEvent ty then False
      else if isAgentLifecycleEvent ty then False
      else case payload_agentId envelope of
        None \<Rightarrow> False
      | Some agentId \<Rightarrow>
          if gradeFor spec agentId = GradeOff then False else ty \<in> set TRANSCRIPT_PROJECTED_EVENT_TYPES)"

fun filter_entries ::
  "agent_filter \<Rightarrow> grade_spec option \<Rightarrow> (nat \<times> json) list \<Rightarrow> js_error + (nat \<times> json) list" where
  "filter_entries flt grades [] = Inr []"
| "filter_entries flt grades ((seq, envelope) # es) =
     (case js_opt_prop envelope ''type'' of
        JStr ty \<Rightarrow>
          (case filter_entries flt grades es of
             Inl err \<Rightarrow> Inl err
           | Inr out \<Rightarrow>
               Inr (if matchesAgentFilter ty envelope flt \<and> \<not> suppressedByTranscript ty envelope grades
                    then (seq, envelope) # out else out))
      | _ \<Rightarrow> Inl TypeError)"

definition applyFilter ::
  "agent_filter \<Rightarrow> grade_spec option \<Rightarrow> (nat \<times> json) list \<Rightarrow> js_error + (nat \<times> json) list" where
  "applyFilter flt grades entries =
     (if flt = None \<and> grades = None then Inr entries else filter_entries flt grades entries)"

section \<open>The broadcaster\<close>

text \<open>
  The transcript part of a session: the stream it is attached to (the store by its identity, the agents already
  announced), the connections that have their baseline, and those whose baseline waits for the replay.
\<close>

record transcript_stream =
  str_store :: nat
  str_knownAgents :: "string list"

record deferred_seed =
  ds_spec :: grade_spec
  ds_transcriptSince :: "(string, nat) jsmap option"

record session_state =
  ss_journal :: journal
  ss_tracker :: turn_tracker
  ss_roster :: roster_tracker
  ss_tail :: "(nat \<times> json) list"
  ss_targets :: "(string, target_subscription) jsmap"
  ss_transcriptStream :: "transcript_stream option"
  ss_transcriptSeeded :: "string list"
  ss_deferredTranscriptSeeds :: "(string, deferred_seed) jsmap"

record broadcaster =
  br_sessions :: "(string, session_state) jsmap"
  br_globalTargets :: "string list"

definition new_session_state :: "journal \<Rightarrow> session_state" where
  "new_session_state j = \<lparr>ss_journal = j, ss_tracker = [], ss_roster = [], ss_tail = [], ss_targets = [],
     ss_transcriptStream = None, ss_transcriptSeeded = [], ss_deferredTranscriptSeeds = []\<rparr>"

definition buildEnvelope :: "nat \<Rightarrow> string \<Rightarrow> session_event \<Rightarrow> string \<Rightarrow> (string \<times> json) list \<Rightarrow> json" where
  "buildEnvelope seq sessionId e timestamp extras =
     JObj 0 ([(''type'', JStr (event_type (se_body e))), (''seq'', JNum (of_nat seq)), (''session_id'', JStr sessionId),
              (''timestamp'', JStr timestamp), (''payload'', event_json sessionId e)] @ extras)"

fun trim_tail :: "nat \<Rightarrow> 'a list \<Rightarrow> 'a list" where
  "trim_tail maxBufferSize [] = []"
| "trim_tail maxBufferSize (x # xs) =
     (if maxBufferSize < length (x # xs) then trim_tail maxBufferSize xs else x # xs)"

text \<open>The stamping half of \<open>dispatch\<close>: the new state of the session and the envelope to send.\<close>

definition stamp ::
  "(json \<Rightarrow> string) \<Rightarrow> nat \<Rightarrow> nat \<Rightarrow> string \<Rightarrow> string \<Rightarrow> session_event \<Rightarrow> bool \<Rightarrow> session_state \<Rightarrow> session_state \<times> json" where
  "stamp stringify maxBufferSize now timestamp sessionId e volatile st =
     (let (tracker, offset) = tracker_apply sessionId e (ss_tracker st);
          st = st\<lparr>ss_tracker := tracker, ss_roster := roster_apply timestamp sessionId e (ss_roster st)\<rparr>
      in if volatile then
           (st, buildEnvelope (jo_seq (ss_journal st)) sessionId e timestamp
              ([(''epoch'', JStr (jo_epoch (ss_journal st))), (''volatile'', JBool True)]
               @ (case offset of None \<Rightarrow> [] | Some n \<Rightarrow> [(''offset'', JNum (of_nat n))])))
         else
           let (seq, j) = nextSeq (ss_journal st);
               envelope = buildEnvelope seq sessionId e timestamp [(''epoch'', JStr (jo_epoch j))]
           in (st\<lparr>ss_journal := journal_append stringify now seq envelope j,
                  ss_tail := trim_tail maxBufferSize (ss_tail st @ [(seq, envelope)])\<rparr>, envelope))"

definition allTargets :: "broadcaster \<Rightarrow> string list" where
  "allTargets b = concat (map (\<lambda>st. jm_keys (ss_targets st)) (jm_values (br_sessions b)))"

text \<open>The connections an envelope of a session is sent to, in order. A send that throws is dropped.\<close>

definition recipients :: "broadcaster \<Rightarrow> session_state \<Rightarrow> string \<Rightarrow> json \<Rightarrow> string list" where
  "recipients b st ty envelope =
     (if isGlobalEvent ty then fold js_set_add (allTargets b) (br_globalTargets b)
      else map fst (filter (\<lambda>(t, sub). matchesAgentFilter ty envelope (sub_agentFilter sub)
                                     \<and> \<not> suppressedByTranscript ty envelope (sub_transcriptGrades sub)) (ss_targets st)))"

definition dispatch ::
  "(json \<Rightarrow> string) \<Rightarrow> nat \<Rightarrow> nat \<Rightarrow> string \<Rightarrow> string \<Rightarrow> session_event \<Rightarrow> bool \<Rightarrow> broadcaster
   \<Rightarrow> broadcaster \<times> (string \<times> json) list" where
  "dispatch stringify maxBufferSize now timestamp sessionId e volatile b =
     (case jm_get (br_sessions b) sessionId of
        None \<Rightarrow> (b, [])
      | Some st \<Rightarrow>
          let (st2, envelope) = stamp stringify maxBufferSize now timestamp sessionId e volatile st;
              b2 = b\<lparr>br_sessions := jm_set sessionId st2 (br_sessions b)\<rparr>
          in (b2, map (\<lambda>t. (t, envelope)) (recipients b2 st2 (event_type (se_body e)) envelope)))"

definition addGlobalTarget :: "string \<Rightarrow> broadcaster \<Rightarrow> broadcaster" where
  "addGlobalTarget t b = b\<lparr>br_globalTargets := js_set_add t (br_globalTargets b)\<rparr>"

definition removeGlobalTarget :: "string \<Rightarrow> broadcaster \<Rightarrow> broadcaster" where
  "removeGlobalTarget t b = b\<lparr>br_globalTargets := js_set_delete t (br_globalTargets b)\<rparr>"

definition with_session :: "string \<Rightarrow> (session_state \<Rightarrow> session_state) \<Rightarrow> broadcaster \<Rightarrow> broadcaster" where
  "with_session sessionId f b =
     (case jm_get (br_sessions b) sessionId of
        None \<Rightarrow> b
      | Some st \<Rightarrow> b\<lparr>br_sessions := jm_set sessionId (f st) (br_sessions b)\<rparr>)"

text \<open>\<open>agents\<close> are those of the live store, \<open>None\<close> without a transcript service or a live store.\<close>

definition sub_grades :: "target_subscription option \<Rightarrow> grade_spec option" where
  "sub_grades sub = Option.bind sub sub_transcriptGrades"

definition willSendTranscriptReset ::
  "string list option \<Rightarrow> grade_spec \<Rightarrow> target_subscription option \<Rightarrow> bool" where
  "willSendTranscriptReset agents spec prev =
     (case agents of
        None \<Rightarrow> False
      | Some ids \<Rightarrow>
          list_ex (\<lambda>a. gradeFor (Some spec) a \<noteq> GradeOff
                     \<and> needsResetOnTransition (gradeFor (sub_grades prev) a) (gradeFor (Some spec) a)) ids)"

record subscribe_opts =
  so_deferTranscriptReset :: bool
  so_transcriptSince :: "(string, nat) jsmap option"

text \<open>\<open>subscribe\<close> up to where it waits for \<open>subscribeTranscript\<close>, and what it does after that.\<close>

definition join_target ::
  "string list option \<Rightarrow> string \<Rightarrow> agent_filter \<Rightarrow> grade_spec option \<Rightarrow> subscribe_opts \<Rightarrow> session_state \<Rightarrow> session_state" where
  "join_target agents t flt grades opts st =
     (let prev = jm_get (ss_targets st) t;
          st = st\<lparr>ss_targets := jm_set t \<lparr>sub_agentFilter = flt, sub_transcriptGrades = grades\<rparr> (ss_targets st)\<rparr>
      in case grades of
           None \<Rightarrow> st
         | Some spec \<Rightarrow>
             if so_deferTranscriptReset opts then
               st\<lparr>ss_transcriptSeeded := js_set_delete t (ss_transcriptSeeded st),
                  ss_deferredTranscriptSeeds :=
                    jm_set t \<lparr>ds_spec = spec, ds_transcriptSince = so_transcriptSince opts\<rparr> (ss_deferredTranscriptSeeds st)\<rparr>
             else
               st\<lparr>ss_deferredTranscriptSeeds := jm_delete t (ss_deferredTranscriptSeeds st),
                  ss_transcriptSeeded :=
                    (if willSendTranscriptReset agents spec prev then js_set_delete t (ss_transcriptSeeded st)
                     else ss_transcriptSeeded st)\<rparr>)"

definition subscribe ::
  "string list option \<Rightarrow> string \<Rightarrow> string \<Rightarrow> agent_filter \<Rightarrow> grade_spec option \<Rightarrow> subscribe_opts \<Rightarrow> broadcaster \<Rightarrow> broadcaster" where
  "subscribe agents sessionId t flt grades opts = with_session sessionId (join_target agents t flt grades opts)"

definition mark_seeded :: "string \<Rightarrow> session_state \<Rightarrow> session_state" where
  "mark_seeded t st =
     (if jm_get (ss_targets st) t \<noteq> None then st\<lparr>ss_transcriptSeeded := js_set_add t (ss_transcriptSeeded st)\<rparr> else st)"

text \<open>\<open>flushTranscriptSeed\<close> up to where it waits: it takes the deferred baseline.\<close>

definition flushTranscriptSeed :: "string \<Rightarrow> string \<Rightarrow> broadcaster \<Rightarrow> broadcaster \<times> deferred_seed option" where
  "flushTranscriptSeed sessionId t b =
     (with_session sessionId (\<lambda>st. st\<lparr>ss_deferredTranscriptSeeds := jm_delete t (ss_deferredTranscriptSeeds st)\<rparr>) b,
      Option.bind (jm_get (br_sessions b) sessionId) (\<lambda>st. jm_get (ss_deferredTranscriptSeeds st) t))"

definition leave_target :: "string \<Rightarrow> session_state \<Rightarrow> session_state" where
  "leave_target t st =
     st\<lparr>ss_targets := jm_delete t (ss_targets st),
        ss_transcriptSeeded := js_set_delete t (ss_transcriptSeeded st),
        ss_deferredTranscriptSeeds := jm_delete t (ss_deferredTranscriptSeeds st)\<rparr>"

definition unsubscribe :: "string \<Rightarrow> string \<Rightarrow> broadcaster \<Rightarrow> broadcaster" where
  "unsubscribe sessionId t = with_session sessionId (leave_target t)"

definition detach_target :: "string \<Rightarrow> string list option \<Rightarrow> session_state \<Rightarrow> session_state" where
  "detach_target t agentIds st =
     (case jm_get (ss_targets st) t of
        None \<Rightarrow> st
      | Some sub \<Rightarrow>
          let nxt = (case agentIds of None \<Rightarrow> None | Some ids \<Rightarrow> detachGrades (sub_transcriptGrades sub) ids);
              st = st\<lparr>ss_targets := jm_set t \<lparr>sub_agentFilter = sub_agentFilter sub, sub_transcriptGrades = nxt\<rparr> (ss_targets st)\<rparr>
          in if nxt = None then
               st\<lparr>ss_transcriptSeeded := js_set_delete t (ss_transcriptSeeded st),
                  ss_deferredTranscriptSeeds := jm_delete t (ss_deferredTranscriptSeeds st)\<rparr>
             else st)"

definition unsubscribeTranscript :: "string \<Rightarrow> string \<Rightarrow> string list option \<Rightarrow> broadcaster \<Rightarrow> broadcaster" where
  "unsubscribeTranscript sessionId t agentIds = with_session sessionId (detach_target t agentIds)"

text \<open>
  \<open>createSessionState\<close> once the journal is open; a state that is there is kept (\<open>ensureState\<close>).
\<close>

definition createSessionState :: "string \<Rightarrow> journal \<Rightarrow> broadcaster \<Rightarrow> broadcaster" where
  "createSessionState sessionId j b =
     (case jm_get (br_sessions b) sessionId of
        None \<Rightarrow> b\<lparr>br_sessions := jm_set sessionId (new_session_state j) (br_sessions b)\<rparr>
      | Some _ \<Rightarrow> b)"

section \<open>Replay\<close>

datatype resync_reason = BufferOverflow | SessionRecreated | EpochChanged

record session_cursor =
  cu_seq :: nat
  cu_epoch :: "string option"

record buffered_since =
  bs_events :: "(nat \<times> json) list"
  bs_resyncRequired :: "resync_reason option"
  bs_currentSeq :: nat
  bs_epoch :: string

datatype replay_error = ReadFailed string | BadEnvelope js_error

text \<open>
  \<open>getBufferedSince\<close> decides at once, from the state, unless it has to read the file: then it waits for the
  journal's \<open>flush\<close>, and the file it reads may hold more than when it decided.
\<close>

datatype replay_decision = Answer "replay_error + buffered_since" | ReadDisk nat string

definition filtered ::
  "agent_filter \<Rightarrow> grade_spec option \<Rightarrow> nat \<Rightarrow> string \<Rightarrow> (nat \<times> json) list \<Rightarrow> replay_error + buffered_since" where
  "filtered flt grades currentSeq epoch entries =
     (case applyFilter flt grades entries of
        Inl err \<Rightarrow> Inl (BadEnvelope err)
      | Inr events \<Rightarrow> Inr \<lparr>bs_events = events, bs_resyncRequired = None, bs_currentSeq = currentSeq, bs_epoch = epoch\<rparr>)"

definition replay_decide ::
  "nat \<Rightarrow> session_state option \<Rightarrow> session_cursor \<Rightarrow> agent_filter \<Rightarrow> grade_spec option \<Rightarrow> replay_decision" where
  "replay_decide maxBufferSize state cursor flt grades =
     (case state of
        None \<Rightarrow>
          Answer (Inr \<lparr>bs_events = [], bs_resyncRequired = Some SessionRecreated, bs_currentSeq = 0, bs_epoch = []\<rparr>)
      | Some st \<Rightarrow>
          let currentSeq = jo_seq (ss_journal st); epoch = jo_epoch (ss_journal st);
              resync = (\<lambda>r. Answer (Inr \<lparr>bs_events = [], bs_resyncRequired = r, bs_currentSeq = currentSeq, bs_epoch = epoch\<rparr>))
          in if cu_epoch cursor \<noteq> None \<and> cu_epoch cursor \<noteq> Some epoch then resync (Some EpochChanged)
             else if currentSeq < cu_seq cursor then resync (Some EpochChanged)
             else if cu_seq cursor = currentSeq then resync None
             else if maxBufferSize < currentSeq - cu_seq cursor then resync (Some BufferOverflow)
             else (case ss_tail st of
                     (tailStart, _) # _ \<Rightarrow>
                       if tailStart \<le> cu_seq cursor + 1
                       then Answer (filtered flt grades currentSeq epoch (filter (\<lambda>e. cu_seq cursor < fst e) (ss_tail st)))
                       else ReadDisk currentSeq epoch
                   | [] \<Rightarrow> ReadDisk currentSeq epoch))"

definition getBufferedSince ::
  "(string \<Rightarrow> json option) \<Rightarrow> nat \<Rightarrow> session_state option \<Rightarrow> session_cursor \<Rightarrow> agent_filter \<Rightarrow> grade_spec option
   \<Rightarrow> string list \<Rightarrow> stream_end \<Rightarrow> replay_error + buffered_since" where
  "getBufferedSince json_parse maxBufferSize state cursor flt grades chunks e =
     (case replay_decide maxBufferSize state cursor flt grades of
        Answer r \<Rightarrow> r
      | ReadDisk currentSeq epoch \<Rightarrow>
          (case readSince json_parse (cu_seq cursor) maxBufferSize chunks e of
             Inl code \<Rightarrow> Inl (ReadFailed code)
           | Inr fromDisk \<Rightarrow> filtered flt grades currentSeq epoch fromDisk))"

record snapshot_state =
  sst_seq :: nat
  sst_epoch :: string
  sst_inFlightTurn :: "in_flight_turn option"
  sst_subagents :: "snapshot_subagent list"

text \<open>\<open>cold\<close> is the journal \<open>readColdWatermark\<close> opens for a session the index knows, \<open>None\<close> otherwise.\<close>

definition readColdWatermark :: "journal option \<Rightarrow> (nat \<times> string) option" where
  "readColdWatermark cold = map_option (\<lambda>j. (jo_seq j, jo_epoch j)) cold"

definition getCursor :: "session_state option \<Rightarrow> journal option \<Rightarrow> nat \<times> string" where
  "getCursor state cold =
     (case state of
        None \<Rightarrow> (case readColdWatermark cold of None \<Rightarrow> (0, []) | Some w \<Rightarrow> w)
      | Some st \<Rightarrow> (jo_seq (ss_journal st), jo_epoch (ss_journal st)))"

definition getSnapshotState :: "string \<Rightarrow> session_state option \<Rightarrow> journal option \<Rightarrow> snapshot_state" where
  "getSnapshotState sessionId state cold =
     (case state of
        None \<Rightarrow>
          (case readColdWatermark cold of
             None \<Rightarrow> \<lparr>sst_seq = 0, sst_epoch = [], sst_inFlightTurn = None, sst_subagents = []\<rparr>
           | Some (seq, epoch) \<Rightarrow>
               \<lparr>sst_seq = seq, sst_epoch = epoch, sst_inFlightTurn = None, sst_subagents = []\<rparr>)
      | Some st \<Rightarrow>
          \<lparr>sst_seq = jo_seq (ss_journal st), sst_epoch = jo_epoch (ss_journal st),
           sst_inFlightTurn = tracker_get sessionId (ss_tracker st), sst_subagents = roster_get sessionId (ss_roster st)\<rparr>)"

end
