(* ===== verification/EventReplay.thy ===== *)
theory EventReplay
  imports EventStream
begin

text \<open>
  The server as a machine: sessions are activated, events dispatched, writes complete or fail, connections come
  and go, the process shuts down and starts again on its files. A ghost log per session holds every
  durable envelope of its epoch. The invariant says what the journal, the file and the memory tail
  hold of the log; the properties say what a connection receives.
\<close>

section \<open>The machine\<close>

text \<open>
  \<open>sv_opened\<close> is the length of the log when the session was activated, \<open>sv_events\<close> its events since then with
  their times, \<open>sv_complete\<close> that no write of the session failed, \<open>sv_sent\<close> all that was sent live on the event channel (the
  transcript frames are in \<open>TranscriptMachine\<close>). The events are plain JSON, as those of the agents are.
\<close>

record server =
  sv_b :: broadcaster
  sv_files :: "string \<Rightarrow> string option"
  sv_log :: "string \<Rightarrow> json list"
  sv_opened :: "string \<Rightarrow> nat"
  sv_events :: "string \<Rightarrow> (session_event \<times> string) list"
  sv_complete :: "string \<Rightarrow> bool"
  sv_sent :: "(string \<times> json) list"

abbreviation session_of :: "server \<Rightarrow> string \<Rightarrow> session_state option" where
  "session_of s sid \<equiv> jm_get (br_sessions (sv_b s)) sid"

definition server_start :: server where
  "server_start = \<lparr>sv_b = \<lparr>br_sessions = [], br_globalTargets = []\<rparr>, sv_files = (\<lambda>_. None), sv_log = (\<lambda>_. []),
     sv_opened = (\<lambda>_. 0), sv_events = (\<lambda>_. []), sv_complete = (\<lambda>_. True), sv_sent = []\<rparr>"

definition shutdown_file ::
  "(json \<Rightarrow> string) \<Rightarrow> nat \<Rightarrow> (string \<Rightarrow> nat \<Rightarrow> bool) \<Rightarrow> server \<Rightarrow> string \<Rightarrow> string option" where
  "shutdown_file stringify now oks s sid =
     (case session_of s sid of
        None \<Rightarrow> sv_files s sid
      | Some st \<Rightarrow> snd (journal_flush stringify now (oks sid) (ss_journal st, sv_files s sid)))"

inductive server_step ::
  "(json \<Rightarrow> string) \<Rightarrow> (string \<Rightarrow> json option) \<Rightarrow> nat \<Rightarrow> server \<Rightarrow> server \<Rightarrow> bool"
  for stringify json_parse maxBufferSize where
  activate:
    "session_of s sid = None \<Longrightarrow> sv_complete s sid \<Longrightarrow> file_stream (sv_files s sid) chunks e \<Longrightarrow> fresh \<noteq> [] \<Longrightarrow>
     server_step stringify json_parse maxBufferSize s
       (s\<lparr>sv_b := createSessionState sid (fst (journal_open json_parse fresh chunks e)) (sv_b s),
          sv_opened := (sv_opened s)(sid := length (sv_log s sid)), sv_events := (sv_events s)(sid := [])\<rparr>)"
| event:
    "session_of s sid = Some st \<Longrightarrow> plain (event_json sid e) \<Longrightarrow>
     stamp stringify maxBufferSize now timestamp sid e volatile st = (st2, envelope) \<Longrightarrow>
     dispatch stringify maxBufferSize now timestamp sid e volatile (sv_b s) = (b2, sends) \<Longrightarrow>
     server_step stringify json_parse maxBufferSize s
       (s\<lparr>sv_b := b2,
          sv_log := (if volatile then sv_log s else (sv_log s)(sid := sv_log s sid @ [envelope])),
          sv_events := (sv_events s)(sid := sv_events s sid @ [(e, timestamp)]),
          sv_sent := sv_sent s @ sends\<rparr>)"
| write_done:
    "session_of s sid = Some st \<Longrightarrow> settle stringify now ok (ss_journal st, sv_files s sid) = (j2, f2) \<Longrightarrow>
     server_step stringify json_parse maxBufferSize s
       (s\<lparr>sv_b := with_session sid (\<lambda>st. st\<lparr>ss_journal := j2\<rparr>) (sv_b s),
          sv_files := (sv_files s)(sid := f2), sv_complete := (sv_complete s)(sid := sv_complete s sid \<and> ok)\<rparr>)"
| subscribes: "server_step stringify json_parse maxBufferSize s (s\<lparr>sv_b := subscribe agents sid t flt grades opts (sv_b s)\<rparr>)"
| seeds: "server_step stringify json_parse maxBufferSize s (s\<lparr>sv_b := with_session sid (mark_seeded t) (sv_b s)\<rparr>)"
| takes_seed: "server_step stringify json_parse maxBufferSize s (s\<lparr>sv_b := fst (flushTranscriptSeed sid t (sv_b s))\<rparr>)"
| unsubscribes: "server_step stringify json_parse maxBufferSize s (s\<lparr>sv_b := unsubscribe sid t (sv_b s)\<rparr>)"
| detaches: "server_step stringify json_parse maxBufferSize s (s\<lparr>sv_b := unsubscribeTranscript sid t ids (sv_b s)\<rparr>)"
| connects: "server_step stringify json_parse maxBufferSize s (s\<lparr>sv_b := addGlobalTarget t (sv_b s)\<rparr>)"
| disconnects: "server_step stringify json_parse maxBufferSize s (s\<lparr>sv_b := removeGlobalTarget t (sv_b s)\<rparr>)"
| restarts:
    "server_step stringify json_parse maxBufferSize s
       (s\<lparr>sv_b := \<lparr>br_sessions = [], br_globalTargets = []\<rparr>, sv_files := shutdown_file stringify now oks s,
          sv_complete := (\<lambda>sid. sv_complete s sid \<and> (\<forall>i. oks sid i))\<rparr>)"

abbreviation reachable ::
  "(json \<Rightarrow> string) \<Rightarrow> (string \<Rightarrow> json option) \<Rightarrow> nat \<Rightarrow> server \<Rightarrow> bool" where
  "reachable stringify json_parse maxBufferSize s \<equiv> (server_step stringify json_parse maxBufferSize)\<^sup>*\<^sup>* server_start s"

section \<open>The invariant\<close>

definition typed_event :: "json \<Rightarrow> bool" where
  "typed_event env \<longleftrightarrow> event_ok env \<and> js_opt_prop env ''type'' \<noteq> JUndef \<and> js_string_of (js_opt_prop env ''type'') \<noteq> None"

definition tail_of :: "nat \<Rightarrow> nat \<Rightarrow> json list \<Rightarrow> (nat \<times> json) list \<Rightarrow> bool" where
  "tail_of maxBufferSize opened h tail \<longleftrightarrow>
     tail = drop (max opened (length h - maxBufferSize)) (enumerate 1 h)"

definition numbered :: "json list \<Rightarrow> bool" where
  "numbered h \<longleftrightarrow> (\<forall>i < length h. js_opt_prop (h ! i) ''seq'' = JNum (of_nat (Suc i)))"

definition trackers_ok :: "string \<Rightarrow> (session_event \<times> string) list \<Rightarrow> session_state \<Rightarrow> bool" where
  "trackers_ok sid es st \<longleftrightarrow>
     ss_tracker st = track_all (map (\<lambda>(e, now). (sid, e)) es) \<and> ss_roster st = roster_all (map (\<lambda>(e, now). (sid, e, now)) es)"

definition live_ok ::
  "(json \<Rightarrow> string) \<Rightarrow> nat \<Rightarrow> json list \<Rightarrow> nat \<Rightarrow> bool \<Rightarrow> string option \<Rightarrow> session_state \<Rightarrow> bool" where
  "live_ok stringify maxBufferSize h opened whole f st \<longleftrightarrow>
     jo_seq (ss_journal st) = length h \<and> jo_epoch (ss_journal st) \<noteq> [] \<and> opened \<le> length h
     \<and> (whole \<longrightarrow> holds_log stringify h (ss_journal st, f))
     \<and> tail_of maxBufferSize opened h (ss_tail st) \<and> jm_ok (ss_targets st)"

definition session_ok :: "(json \<Rightarrow> string) \<Rightarrow> nat \<Rightarrow> server \<Rightarrow> string \<Rightarrow> bool" where
  "session_ok stringify maxBufferSize s sid \<longleftrightarrow>
     list_all typed_event (sv_log s sid) \<and> numbered (sv_log s sid)
     \<and> (case session_of s sid of
          None \<Rightarrow> sv_complete s sid \<longrightarrow> (\<exists>ep. ep \<noteq> [] \<and> disk_log stringify ep (sv_log s sid) (sv_files s sid))
        | Some st \<Rightarrow>
            live_ok stringify maxBufferSize (sv_log s sid) (sv_opened s sid) (sv_complete s sid) (sv_files s sid) st
            \<and> trackers_ok sid (sv_events s sid) st)"

lemma typed_event_ok: "list_all typed_event h \<Longrightarrow> list_all event_ok h"
  by (auto simp: list_all_iff typed_event_def)

lemma trim_tail_drop: "trim_tail n xs = drop (length xs - n) xs"
proof (induction xs)
  case (Cons x xs)
  show ?case
  proof (cases "n < length (x # xs)")
    case True
    then have "length (x # xs) - n = Suc (length xs - n)" by auto
    then show ?thesis using True Cons by simp
  qed simp
qed simp

lemma tail_of_snoc:
  assumes "tail_of n opened h tail" "opened \<le> length h"
  shows "tail_of n opened (h @ [env]) (trim_tail n (tail @ [(Suc (length h), env)]))"
proof -
  let ?k = "max opened (length h - n)"
  have "tail @ [(Suc (length h), env)] = drop ?k (enumerate 1 (h @ [env]))"
    using assms by (simp add: tail_of_def enumerate_append_eq)
  moreover have "length (h @ [env]) - ?k - n + ?k = max opened (length (h @ [env]) - n)"
    using assms(2) by (auto simp: max_def)
  ultimately show ?thesis by (simp add: tail_of_def trim_tail_drop)
qed

lemma settle_seq:
  "settle stringify now ok (j, f) = (j2, f2) \<Longrightarrow> jo_seq j2 = jo_seq j \<and> jo_epoch j2 = jo_epoch j"
  by (auto simp: settle_def scheduleFlush_def flushOnce_def Let_def split: option.splits if_splits)

lemma record_event_seq:
  "jo_seq (record_event stringify now env j) = Suc (jo_seq j)" "jo_epoch (record_event stringify now env j) = jo_epoch j"
  by (simp_all add: record_event_def nextSeq_def journal_append_def scheduleFlush_def flushOnce_def Let_def)

lemma stamp_state:
  assumes "stamp stringify n now ts sid e volatile st = (st2, env)"
  shows "ss_targets st2 = ss_targets st"
    and "volatile \<Longrightarrow> ss_journal st2 = ss_journal st \<and> ss_tail st2 = ss_tail st"
    and "\<not> volatile \<Longrightarrow> ss_journal st2 = record_event stringify now env (ss_journal st)
           \<and> ss_tail st2 = trim_tail n (ss_tail st @ [(Suc (jo_seq (ss_journal st)), env)])"
    and "\<not> volatile \<Longrightarrow> plain (event_json sid e) \<Longrightarrow> typed_event env"
    and "\<not> volatile \<Longrightarrow> js_opt_prop env ''seq'' = JNum (of_nat (Suc (jo_seq (ss_journal st))))"
    and "trackers_ok sid es st \<Longrightarrow> trackers_ok sid (es @ [(e, ts)]) st2"
  using assms
  by (auto simp: stamp_def Let_def nextSeq_def record_event_def typed_event_def event_ok_def buildEnvelope_def
      trackers_ok_def track_all_def roster_all_def simp del: tracker_apply.simps roster_apply.simps
      split: prod.splits if_splits)

lemma numbered_snoc: "numbered (h @ [env]) \<longleftrightarrow> numbered h \<and> js_opt_prop env ''seq'' = JNum (of_nat (Suc (length h)))"
  by (auto simp: numbered_def nth_append less_Suc_eq)

lemma dispatch_session:
  assumes "dispatch stringify n now ts sid e volatile b = (b2, sends)" "jm_get (br_sessions b) sid = Some st"
    "stamp stringify n now ts sid e volatile st = (st2, env)"
  shows "br_sessions b2 = jm_set sid st2 (br_sessions b)"
    "br_globalTargets b2 = br_globalTargets b"
    "sends = map (\<lambda>t. (t, env)) (recipients b2 st2 (event_type (se_body e)) env)"
  using assms by (auto simp: dispatch_def Let_def)

lemma get_with_session:
  "jm_get (br_sessions (with_session sid f b)) x
   = (if x = sid then map_option f (jm_get (br_sessions b) sid) else jm_get (br_sessions b) x)"
  by (simp add: with_session_def split: option.split)

lemma session_ok_other:
  "session_ok stringify n s x \<Longrightarrow> session_of s2 x = session_of s x \<Longrightarrow> sv_files s2 x = sv_files s x \<Longrightarrow>
   sv_log s2 x = sv_log s x \<Longrightarrow> sv_opened s2 x = sv_opened s x \<Longrightarrow> sv_events s2 x = sv_events s x \<Longrightarrow> sv_complete s2 x = sv_complete s x \<Longrightarrow>
   session_ok stringify n s2 x"
  by (cases "session_of s x") (simp_all add: session_ok_def)

lemma session_ok_targets:
  assumes "session_ok stringify n s x" "\<And>st. jm_ok (ss_targets st) \<Longrightarrow> jm_ok (ss_targets (f st))"
    "\<And>st. ss_journal (f st) = ss_journal st \<and> ss_tail (f st) = ss_tail st"
    "\<And>st. ss_tracker (f st) = ss_tracker st \<and> ss_roster (f st) = ss_roster st"
  shows "session_ok stringify n (s\<lparr>sv_b := with_session sid f (sv_b s)\<rparr>) x"
  using assms by (auto simp: session_ok_def live_ok_def trackers_ok_def get_with_session split: option.splits)

lemma session_ok_event:
  assumes "session_ok stringify n s x" "session_of s sid = Some st" "plain (event_json sid e)"
    "stamp stringify n now ts sid e volatile st = (st2, env)"
    "dispatch stringify n now ts sid e volatile (sv_b s) = (b2, sends)"
  shows "session_ok stringify n
           (s\<lparr>sv_b := b2, sv_log := (if volatile then sv_log s else (sv_log s)(sid := sv_log s sid @ [env])),
              sv_events := (sv_events s)(sid := sv_events s sid @ [(e, ts)]), sv_sent := sv_sent s @ sends\<rparr>) x"
proof (cases "x = sid")
  case False
  then show ?thesis using assms(1) dispatch_session [OF assms(5,2,4)]
    by (auto intro: session_ok_other [OF assms(1)])
next
  case True
  have l: "list_all typed_event (sv_log s sid)" "numbered (sv_log s sid)" "trackers_ok sid (sv_events s sid) st" and
    k: "live_ok stringify n (sv_log s sid) (sv_opened s sid) (sv_complete s sid) (sv_files s sid) st"
    using assms(1,2) True by (simp_all add: session_ok_def)
  show ?thesis
  proof (cases volatile)
    case True
    then show ?thesis using \<open>x = sid\<close> l k dispatch_session(1) [OF assms(5,2,4)] stamp_state [OF assms(4)]
      by (auto simp: session_ok_def live_ok_def)
  next
    case False
    have "tail_of n (sv_opened s sid) (sv_log s sid @ [env]) (ss_tail st2)"
      using k tail_of_snoc [of n "sv_opened s sid" "sv_log s sid" "ss_tail st" env] stamp_state(3) [OF assms(4) False]
      by (simp add: live_ok_def)
    moreover have "holds_log stringify (sv_log s sid @ [env]) (ss_journal st2, sv_files s sid)" if "sv_complete s sid"
      using that k stamp_state(3) [OF assms(4) False] by (auto simp: live_ok_def intro: holds_log_append)
    ultimately show ?thesis
      using \<open>x = sid\<close> False l k dispatch_session(1) [OF assms(5,2,4)] stamp_state [OF assms(4)] assms(3)
      by (auto simp: session_ok_def live_ok_def record_event_seq numbered_snoc)
  qed
qed

lemma session_ok_write:
  assumes "session_ok stringify n s x" "session_of s sid = Some st"
    "settle stringify now ok (ss_journal st, sv_files s sid) = (j2, f2)"
  shows "session_ok stringify n
           (s\<lparr>sv_b := with_session sid (\<lambda>st. st\<lparr>ss_journal := j2\<rparr>) (sv_b s),
              sv_files := (sv_files s)(sid := f2), sv_complete := (sv_complete s)(sid := sv_complete s sid \<and> ok)\<rparr>) x"
proof (cases "x = sid")
  case False
  then show ?thesis by (auto simp: get_with_session intro: session_ok_other [OF assms(1)])
next
  case True
  have "holds_log stringify (sv_log s sid) (j2, f2)" if "holds_log stringify (sv_log s sid) (ss_journal st, sv_files s sid)" ok
    using holds_log_settle [OF that(1), of now] assms(3) that(2) by simp
  then show ?thesis using assms(1,2) True settle_seq [OF assms(3)]
    by (auto simp: session_ok_def live_ok_def get_with_session trackers_ok_def)
qed

lemma session_ok_restart:
  assumes "session_ok stringify n s x"
  shows "session_ok stringify n
           (s\<lparr>sv_b := \<lparr>br_sessions = [], br_globalTargets = []\<rparr>, sv_files := shutdown_file stringify now oks s,
              sv_complete := (\<lambda>sid. sv_complete s sid \<and> (\<forall>i. oks sid i))\<rparr>) x"
proof (cases "session_of s x")
  case None
  then show ?thesis using assms by (auto simp: session_ok_def shutdown_file_def)
next
  case (Some st)
  obtain j f where jf: "journal_flush stringify now (oks x) (ss_journal st, sv_files s x) = (j, f)" by fastforce
  have "\<exists>ep. ep \<noteq> [] \<and> disk_log stringify ep (sv_log s x) f" if "sv_complete s x" "\<forall>i. oks x i"
  proof -
    have "holds_log stringify (sv_log s x) (ss_journal st, sv_files s x)"
      using assms Some that(1) by (simp add: session_ok_def live_ok_def)
    from holds_log_flush [OF this] that(2) have h: "holds_log stringify (sv_log s x) (j, f)" "idle j"
      using jf by (metis fst_conv)+
    have "disk_log stringify (jo_epoch j) (sv_log s x) f" by (rule holds_log_disk [OF h])
    moreover have "jo_epoch j \<noteq> []" using h(1) by (simp add: holds_log_def Let_def)
    ultimately show ?thesis by blast
  qed
  then show ?thesis using assms Some jf by (auto simp: session_ok_def shutdown_file_def)
qed

lemma session_ok_activate:
  assumes "json_codec stringify json_parse" "session_ok stringify n s x" "session_of s sid = None" "sv_complete s sid"
    "file_stream (sv_files s sid) chunks e" "fresh \<noteq> []"
  shows "session_ok stringify n
           (s\<lparr>sv_b := createSessionState sid (fst (journal_open json_parse fresh chunks e)) (sv_b s),
              sv_opened := (sv_opened s)(sid := length (sv_log s sid)), sv_events := (sv_events s)(sid := [])\<rparr>) x"
proof (cases "x = sid")
  case False
  then show ?thesis by (auto simp: createSessionState_def split: option.split intro!: session_ok_other [OF assms(2)])
next
  case True
  obtain ep where "ep \<noteq> []" "disk_log stringify ep (sv_log s sid) (sv_files s sid)"
    using assms(2-4) True by (auto simp: session_ok_def)
  moreover have "list_all event_ok (sv_log s sid)" using assms(2) True by (auto simp: session_ok_def intro: typed_event_ok)
  ultimately have "holds_log stringify (sv_log s sid) (fst (journal_open json_parse fresh chunks e), sv_files s sid)"
    using reopen_holds [OF assms(1)] assms(5,6) by blast
  then show ?thesis using assms(2-4) True
    by (auto simp: session_ok_def live_ok_def createSessionState_def new_session_state_def tail_of_def holds_log_def Let_def
        trackers_ok_def track_all_def roster_all_def)
qed

lemma server_step_ok:
  assumes "server_step stringify json_parse n s s2" "json_codec stringify json_parse" "session_ok stringify n s x"
  shows "session_ok stringify n s2 x"
  using assms(1)
proof cases
  case activate
  then show ?thesis using session_ok_activate [OF assms(2,3)] by simp
next
  case event
  then show ?thesis using session_ok_event [OF assms(3)] by simp
next
  case write_done
  then show ?thesis using session_ok_write [OF assms(3)] by simp
next
  case restarts
  then show ?thesis using session_ok_restart [OF assms(3)] by simp
next
  case connects
  then show ?thesis by (auto simp: addGlobalTarget_def intro: session_ok_other [OF assms(3)])
next
  case disconnects
  then show ?thesis by (auto simp: removeGlobalTarget_def intro: session_ok_other [OF assms(3)])
next
  case subscribes
  then show ?thesis
    by (auto simp: subscribe_def join_target_def Let_def jm_ok_set split: option.split intro!: session_ok_targets [OF assms(3)])
next
  case seeds
  then show ?thesis by (auto simp: mark_seeded_def intro!: session_ok_targets [OF assms(3)])
next
  case takes_seed
  then show ?thesis by (auto simp: flushTranscriptSeed_def intro!: session_ok_targets [OF assms(3)])
next
  case unsubscribes
  then show ?thesis by (auto simp: unsubscribe_def leave_target_def jm_ok_delete intro!: session_ok_targets [OF assms(3)])
next
  case detaches
  then show ?thesis
    by (auto simp: unsubscribeTranscript_def detach_target_def Let_def jm_ok_set split: option.split intro!: session_ok_targets [OF assms(3)])
qed

lemma server_steps_ok:
  assumes "(server_step stringify json_parse n)\<^sup>*\<^sup>* s s2" "json_codec stringify json_parse" "session_ok stringify n s x"
  shows "session_ok stringify n s2 x"
  using assms(1) by (induction rule: rtranclp_induct) (use assms(2,3) in \<open>auto intro: server_step_ok\<close>)

lemma reachable_ok:
  assumes "reachable stringify json_parse n s" "json_codec stringify json_parse"
  shows "session_ok stringify n s x"
  by (rule server_steps_ok [OF assms]) (auto simp: session_ok_def server_start_def disk_log_def numbered_def intro: exI [of _ "''x''"])

section \<open>Replay\<close>

definition lets :: "target_subscription \<Rightarrow> json \<Rightarrow> bool" where
  "lets sub env \<longleftrightarrow>
     (case js_opt_prop env ''type'' of
        JStr ty \<Rightarrow> matchesAgentFilter ty env (sub_agentFilter sub) \<and> \<not> suppressedByTranscript ty env (sub_transcriptGrades sub)
      | _ \<Rightarrow> False)"

lemma typed_eventD: "typed_event env \<Longrightarrow> \<exists>ty. js_opt_prop env ''type'' = JStr ty"
  by (cases "js_opt_prop env ''type''") (auto simp: typed_event_def)

lemma filter_entries_typed:
  "list_all (\<lambda>(_, env). typed_event env) es \<Longrightarrow>
   filter_entries (sub_agentFilter sub) (sub_transcriptGrades sub) es = Inr (filter (\<lambda>(_, env). lets sub env) es)"
  by (induction es) (auto simp: lets_def dest!: typed_eventD)

lemma lets_all: "typed_event env \<Longrightarrow> sub_agentFilter sub = None \<Longrightarrow> sub_transcriptGrades sub = None \<Longrightarrow> lets sub env"
  by (auto simp: lets_def matchesAgentFilter_def suppressedByTranscript_def dest!: typed_eventD)

lemma filtered_typed:
  assumes "list_all (\<lambda>(_, env). typed_event env) es"
  shows "filtered (sub_agentFilter sub) (sub_transcriptGrades sub) n ep es
         = Inr \<lparr>bs_events = filter (\<lambda>(_, env). lets sub env) es, bs_resyncRequired = None, bs_currentSeq = n, bs_epoch = ep\<rparr>"
proof -
  have "filter (\<lambda>(_, env). lets sub env) es = es" if "sub_agentFilter sub = None \<and> sub_transcriptGrades sub = None"
    using assms that by (auto simp: list_all_iff intro!: filter_True lets_all)
  then show ?thesis using filter_entries_typed [OF assms, of sub] by (auto simp: filtered_def applyFilter_def)
qed

lemma typed_entries: "list_all typed_event h \<Longrightarrow> set es \<subseteq> set (enumerate (Suc 0) h) \<Longrightarrow> list_all (\<lambda>(_, env). typed_event env) es"
  by (fastforce simp: list_all_iff dest: enumerate_shape)

lemma filter_tail:
  "k \<le> c \<Longrightarrow> filter (\<lambda>e. c < fst e) (drop k (enumerate (Suc 0) h)) = drop c (enumerate (Suc 0) h)"
proof -
  assume k: "k \<le> c"
  have "enumerate (Suc 0) h = take k (enumerate (Suc 0) h) @ drop k (enumerate (Suc 0) h)" by simp
  moreover have "filter (\<lambda>e. c < fst e) (take k (enumerate (Suc 0) h)) = []"
    using k by (auto simp: filter_empty_conv in_set_conv_nth nth_enumerate_eq)
  ultimately have "filter (\<lambda>e. c < fst e) (drop k (enumerate (Suc 0) h)) = filter (\<lambda>e. c < fst e) (enumerate (Suc 0) h)"
    by (metis append_Nil filter_append)
  then show ?thesis using filter_enumerate [of c 0 h] by (simp add: case_prod_beta')
qed

text \<open>A step only adds to the log of a session, and what is sent.\<close>

lemma server_step_log: "server_step stringify json_parse n s s2 \<Longrightarrow> \<exists>new. sv_log s2 sid = sv_log s sid @ new"
  by (induction rule: server_step.induct) auto

lemma server_steps_log: "(server_step stringify json_parse n)\<^sup>*\<^sup>* s s2 \<Longrightarrow> \<exists>new. sv_log s2 sid = sv_log s sid @ new"
proof (induction rule: rtranclp_induct)
  case (step s2 s3)
  then show ?case using server_step_log [OF step(2), of sid] by auto
qed simp

lemma tail_covers:
  assumes "tail_of n opened h tail" "max opened (length h - n) \<le> c" "c < length h"
  shows "\<exists>k rest env. tail = (Suc k, env) # rest \<and> k \<le> c"
proof -
  let ?k = "max opened (length h - n)"
  have "tail = (Suc ?k, h ! ?k) # drop (Suc ?k) (enumerate 1 h)"
    using assms by (simp add: tail_of_def Cons_nth_drop_Suc [symmetric] nth_enumerate_eq)
  then show ?thesis using assms(2) by blast
qed

lemma tail_start:
  assumes "tail_of n opened h ((k, env) # rest)"
  shows "k = Suc (max opened (length h - n))"
proof -
  let ?k = "max opened (length h - n)"
  have d: "drop ?k (enumerate (Suc 0) h) = (k, env) # rest" using assms by (simp add: tail_of_def)
  then have "?k < length (enumerate (Suc 0) h)" by (metis drop_all list.distinct(1) not_less)
  then have "enumerate (Suc 0) h ! ?k = (k, env)" using d by (metis nth_via_drop)
  then show ?thesis using \<open>?k < length (enumerate (Suc 0) h)\<close> by (simp add: nth_enumerate_eq)
qed

lemma replay_from_tail:
  assumes "live_ok stringify n h opened whole f st" "list_all typed_event h"
    "cu_epoch cursor = None \<or> cu_epoch cursor = Some (jo_epoch (ss_journal st))"
    "cu_seq cursor \<le> length h" "length h - cu_seq cursor \<le> n" "opened \<le> cu_seq cursor"
  shows "getBufferedSince json_parse n (Some st) cursor (sub_agentFilter sub) (sub_transcriptGrades sub) chunks e
         = Inr \<lparr>bs_events = filter (\<lambda>(_, env). lets sub env) (drop (cu_seq cursor) (enumerate 1 h)),
             bs_resyncRequired = None, bs_currentSeq = length h, bs_epoch = jo_epoch (ss_journal st)\<rparr>"
proof (cases "cu_seq cursor = length h")
  case True
  then show ?thesis using assms by (auto simp: getBufferedSince_def replay_decide_def live_ok_def Let_def)
next
  case False
  let ?k = "max opened (length h - n)"
  have c: "cu_seq cursor < length h" "?k \<le> cu_seq cursor" using False assms(4-6) by auto
  have t: "tail_of n opened h (ss_tail st)" using assms(1) by (simp add: live_ok_def)
  obtain k env rest where tl: "ss_tail st = (Suc k, env) # rest" "k \<le> cu_seq cursor" using tail_covers [OF t c(2,1)] by blast
  have "filter (\<lambda>x. cu_seq cursor < fst x) (ss_tail st) = drop (cu_seq cursor) (enumerate 1 h)"
    using filter_tail [OF c(2), of h] t by (simp add: tail_of_def)
  moreover have "list_all (\<lambda>(_, env). typed_event env) (drop (cu_seq cursor) (enumerate (Suc 0) h))"
    by (rule typed_entries [OF assms(2)]) (rule set_drop_subset)
  ultimately show ?thesis using assms(1,3,4,5) False tl
    by (auto simp: getBufferedSince_def replay_decide_def live_ok_def Let_def filtered_typed)
qed

text \<open>What the journal is read at, when the memory tail does not reach back: any later state in which it is at rest.\<close>

lemma replay_from_disk:
  assumes "json_codec stringify json_parse" "live_ok stringify n h opened whole f st"
    "cu_epoch cursor = None \<or> cu_epoch cursor = Some (jo_epoch (ss_journal st))"
    "cu_seq cursor < length h" "length h - cu_seq cursor \<le> n" "cu_seq cursor < max opened (length h - n)"
    and later: "holds_log stringify h2 (j2, f2)" "list_all typed_event h2" "idle j2" "file_stream f2 chunks e"
  shows "getBufferedSince json_parse n (Some st) cursor (sub_agentFilter sub) (sub_transcriptGrades sub) chunks e
         = Inr \<lparr>bs_events = filter (\<lambda>(_, env). lets sub env) (take n (drop (cu_seq cursor) (enumerate 1 h2))),
             bs_resyncRequired = None, bs_currentSeq = length h, bs_epoch = jo_epoch (ss_journal st)\<rparr>"
proof -
  have "0 < n" using assms(4,5) by simp
  have ep: "jo_epoch j2 \<noteq> []" using later(1) by (simp add: holds_log_def Let_def)
  have r: "readSince json_parse (cu_seq cursor) n chunks e = Inr (take n (drop (cu_seq cursor) (enumerate 1 h2)))"
    by (rule readSince_log [OF assms(1) typed_event_ok [OF later(2)] ep \<open>0 < n\<close> holds_log_disk [OF later(1,3)] later(4)])
  have "list_all (\<lambda>(_, env). typed_event env) (take n (drop (cu_seq cursor) (enumerate (Suc 0) h2)))"
    by (rule typed_entries [OF later(2)]) (meson in_set_dropD in_set_takeD subsetI)
  moreover have late: "\<not> k \<le> Suc (cu_seq cursor)" if "ss_tail st = (k, env) # rest" for k env rest
  proof -
    have "k = Suc (max opened (length h - n))"
      using assms(2) that by (intro tail_start [of n opened h k env rest]) (simp add: live_ok_def)
    then show ?thesis using assms(6) by linarith
  qed
  moreover have "replay_decide n (Some st) cursor (sub_agentFilter sub) (sub_transcriptGrades sub)
      = ReadDisk (length h) (jo_epoch (ss_journal st))"
    using assms(2-5) late by (auto simp: replay_decide_def live_ok_def Let_def split: list.split)
  ultimately show ?thesis using r by (simp add: getBufferedSince_def filtered_typed)
qed

end
