(* ===== verification/EventProps.thy ===== *)
theory EventProps
  imports EventReplay
begin

text \<open>
  What a connection can rely on: the replay from a cursor, the live stream, what a restart keeps and what a
  snapshot shows; and what the journal loses when a write is torn or its header is missing.
\<close>

section \<open>Frames of a session\<close>

definition of_session :: "string \<Rightarrow> json \<Rightarrow> bool" where
  "of_session sid env \<longleftrightarrow> js_opt_prop env ''session_id'' = JStr sid"

definition durable :: "json \<Rightarrow> bool" where
  "durable env \<longleftrightarrow> js_opt_prop env ''volatile'' = JUndef"

text \<open>The shape of an envelope on the wire.\<close>

definition wire_frame :: "json \<Rightarrow> bool" where
  "wire_frame env \<longleftrightarrow> plain env
     \<and> (\<exists>ty n sid ep ts. js_opt_prop env ''type'' = JStr ty \<and> js_opt_prop env ''seq'' = JNum (of_nat n)
          \<and> js_opt_prop env ''session_id'' = JStr sid \<and> js_opt_prop env ''epoch'' = JStr ep \<and> ep \<noteq> []
          \<and> js_opt_prop env ''timestamp'' = JStr ts \<and> is_object (js_opt_prop env ''payload'')
          \<and> js_opt_prop (js_opt_prop env ''payload'') ''type'' = JStr ty)
     \<and> (durable env \<longrightarrow> js_opt_prop env ''offset'' = JUndef)
     \<and> js_opt_prop env ''volatile'' \<in> {JUndef, JBool True}"

lemma stamp_shape:
  assumes "stamp stringify n now ts sid e volatile st = (st2, env)"
  shows "\<exists>seq extras. env = buildEnvelope seq sid e ts ((''epoch'', JStr (jo_epoch (ss_journal st))) # extras)
     \<and> (extras = [] \<or> extras = [(''volatile'', JBool True)]
        \<or> (\<exists>k. extras = [(''volatile'', JBool True), (''offset'', JNum (of_nat k))]))"
proof (cases volatile)
  case True
  obtain tr off where "tracker_apply sid e (ss_tracker st) = (tr, off)" by fastforce
  then have "env = buildEnvelope (jo_seq (ss_journal st)) sid e ts ((''epoch'', JStr (jo_epoch (ss_journal st)))
      # (''volatile'', JBool True) # (case off of None \<Rightarrow> [] | Some k \<Rightarrow> [(''offset'', JNum (of_nat k))]))"
    using assms True by (simp add: stamp_def Let_def del: tracker_apply.simps roster_apply.simps)
  then show ?thesis by (cases off) auto
next
  case False
  then have "env = buildEnvelope (Suc (jo_seq (ss_journal st))) sid e ts [(''epoch'', JStr (jo_epoch (ss_journal st)))]"
    using assms by (auto simp: stamp_def Let_def nextSeq_def simp del: tracker_apply.simps roster_apply.simps split: prod.splits)
  then show ?thesis by blast
qed

lemma event_json_shape:
  "is_object (event_json sid e)" "js_opt_prop (event_json sid e) ''type'' = JStr (event_type (se_body e))"
  by (simp_all add: event_json_def)

lemma stamp_wire_frame:
  assumes "stamp stringify n now ts sid e volatile st = (st2, env)" "plain (event_json sid e)" "jo_epoch (ss_journal st) \<noteq> []"
  shows "wire_frame env"
  using stamp_shape [OF assms(1)] assms(2,3)
  by (auto simp: buildEnvelope_def wire_frame_def durable_def event_json_shape)

text \<open>
  Every frame of the event channel is a well-typed envelope, given events that are plain JSON: plain JSON with a string type, a natural sequence
  number, the session, a non-empty epoch, a timestamp and an object payload of the same type; only a volatile frame
  has a text offset.
\<close>

theorem frames_well_typed:
  assumes "json_codec stringify json_parse" "reachable stringify json_parse n s" "(t, env) \<in> set (sv_sent s)"
  shows "wire_frame env"
  using assms(2,3)
proof (induction rule: rtranclp_induct)
  case base
  then show ?case by (simp add: server_start_def)
next
  case (step s s2)
  from step(2) step(3,4) show ?case
  proof cases
    case (event sid st e now ts volatile st2 env2 b2 sends)
    have "live_ok stringify n (sv_log s sid) (sv_opened s sid) (sv_complete s sid) (sv_files s sid) st"
      using reachable_ok [OF step(1) assms(1), of sid] event(2) by (simp add: session_ok_def)
    then have "wire_frame env2" using stamp_wire_frame [OF event(4,3)] by (simp add: live_ok_def)
    moreover have "env = env2" if "(t, env) \<in> set sends"
      using that dispatch_session(3) [OF event(5,2,4)] by auto
    ultimately show ?thesis using event(1) step(3,4) by auto
  qed auto
qed

section \<open>The live stream\<close>

definition sent_to :: "string \<Rightarrow> (string \<times> json) list \<Rightarrow> json list" where
  "sent_to t sends = map snd (filter (\<lambda>(x, _). x = t) sends)"

definition subscribed :: "server \<Rightarrow> string \<Rightarrow> string \<Rightarrow> target_subscription \<Rightarrow> bool" where
  "subscribed s sid t sub \<longleftrightarrow> (\<exists>st. session_of s sid = Some st \<and> jm_get (ss_targets st) t = Some sub)"

text \<open>A step over which a connection keeps its subscription.\<close>

definition stays ::
  "(json \<Rightarrow> string) \<Rightarrow> (string \<Rightarrow> json option) \<Rightarrow> nat \<Rightarrow> string \<Rightarrow> string \<Rightarrow> target_subscription \<Rightarrow> server \<Rightarrow> server \<Rightarrow> bool" where
  "stays stringify json_parse n sid t sub s s2 \<longleftrightarrow>
     server_step stringify json_parse n s s2 \<and> subscribed s sid t sub \<and> subscribed s2 sid t sub"

lemma stays_steps: "(stays stringify json_parse n sid t sub)\<^sup>*\<^sup>* s s2 \<Longrightarrow> (server_step stringify json_parse n)\<^sup>*\<^sup>* s s2"
  by (induction rule: rtranclp_induct) (auto simp: stays_def)

lemma sent_to_simps [simp]: "sent_to t [] = []" "sent_to t (xs @ ys) = sent_to t xs @ sent_to t ys"
  by (simp_all add: sent_to_def)

lemma sent_to_all: "distinct ts \<Longrightarrow> sent_to t (map (\<lambda>x. (x, env)) ts) = (if t \<in> set ts then [env] else [])"
  by (induction ts) (auto simp: sent_to_def)

lemma stamp_envelope:
  assumes "stamp stringify n now ts sid e volatile st = (st2, env)"
  shows "js_opt_prop env ''type'' = JStr (event_type (se_body e))"
    "of_session x env \<longleftrightarrow> x = sid" "durable env \<longleftrightarrow> \<not> volatile"
  using assms by (auto simp: stamp_def Let_def nextSeq_def buildEnvelope_def of_session_def durable_def
      split: prod.splits if_splits)

lemma distinct_recipients: "jm_ok (ss_targets st) \<Longrightarrow> distinct (br_globalTargets b) \<Longrightarrow> distinct (recipients b st ty env)"
  by (auto simp: recipients_def jm_ok_def distinct_fold_js_set_add case_prod_beta' intro: distinct_map_filter)

lemma allTargets_mem:
  "jm_get (br_sessions b) sid = Some st \<Longrightarrow> jm_get (ss_targets st) t = Some sub \<Longrightarrow> t \<in> set (allTargets b)"
  unfolding allTargets_def jm_values_def jm_keys_def jm_get_def
  by (force dest!: map_of_SomeD)

lemma recipients_mem:
  assumes "jm_get (br_sessions b) sid = Some st" "jm_ok (ss_targets st)" "jm_get (ss_targets st) t = Some sub"
    "js_opt_prop env ''type'' = JStr ty"
  shows "t \<in> set (recipients b st ty env) \<longleftrightarrow> lets sub env"
proof (cases "isGlobalEvent ty")
  case True
  then show ?thesis using assms allTargets_mem [OF assms(1,3)]
    by (simp add: recipients_def lets_def matchesAgentFilter_def suppressedByTranscript_def set_fold_js_set_add
        split: option.split)
next
  case False
  have "(t, sub2) \<in> set (ss_targets st) \<longleftrightarrow> sub2 = sub" for sub2
    using assms(2,3) by (auto simp: jm_ok_def jm_get_def dest: map_of_SomeD eq_key_imp_eq_value)
  then show ?thesis using False assms(4) by (force simp: recipients_def lets_def)
qed

lemma global_targets_distinct:
  assumes "reachable stringify json_parse n s"
  shows "distinct (br_globalTargets (sv_b s))"
  using assms
proof (induction rule: rtranclp_induct)
  case base
  then show ?case by (simp add: server_start_def)
next
  case (step s s2)
  from step(2) show ?case using step(3)
  proof cases
    case (event sid st e now ts volatile st2 env b2 sends)
    then show ?thesis using step(3) dispatch_session(2) [OF event(5,2,4)] by simp
  qed (simp_all add: createSessionState_def with_session_def subscribe_def join_target_def unsubscribe_def leave_target_def unsubscribeTranscript_def detach_target_def
      flushTranscriptSeed_def
      addGlobalTarget_def removeGlobalTarget_def distinct_js_set_add distinct_js_set_delete split: option.split)
qed

lemma live_step:
  assumes "stays stringify json_parse n sid t sub s s2" "session_ok stringify n s sid" "distinct (br_globalTargets (sv_b s))"
  shows "\<exists>new sends. sv_log s2 sid = sv_log s sid @ new \<and> sv_sent s2 = sv_sent s @ sends
           \<and> filter (\<lambda>env. of_session sid env \<and> durable env) (sent_to t sends) = filter (lets sub) new"
proof -
  have "server_step stringify json_parse n s s2" using assms(1) by (simp add: stays_def)
  then show ?thesis
  proof cases
    case (event x st e now ts volatile st2 env b2 sends)
    note d = dispatch_session [OF event(5,2,4)] and env = stamp_envelope [OF event(4)]
    show ?thesis
    proof (cases "x = sid \<and> \<not> volatile")
      case True
      obtain st3 where "session_of s2 sid = Some st3" "jm_get (ss_targets st3) t = Some sub"
        using assms(1) by (auto simp: stays_def subscribed_def)
      then have t: "jm_get (br_sessions b2) sid = Some st2" "jm_get (ss_targets st2) t = Some sub"
        using event(1) d(1) True by auto
      have ok: "jm_ok (ss_targets st2)"
        using assms(2) event(2) True stamp_state(1) [OF event(4)] by (simp add: session_ok_def live_ok_def)
      have "sent_to t sends = (if lets sub env then [env] else [])"
        unfolding d(3) using recipients_mem [OF t(1) ok t(2) env(1)] distinct_recipients [OF ok, of b2] d(2) assms(3)
        by (simp add: sent_to_all)
      then show ?thesis using event(1) True env(2,3) by (intro exI [of _ "[env]"] exI [of _ sends]) simp
    next
      case False
      have "y = env" if "y \<in> set (sent_to t sends)" for y using that by (auto simp: d(3) sent_to_def)
      moreover have "\<not> (of_session sid env \<and> durable env)" using False by (auto simp: env(2,3))
      ultimately have "filter (\<lambda>env. of_session sid env \<and> durable env) (sent_to t sends) = []"
        by (auto simp: filter_empty_conv simp del: sent_to_simps)
      moreover have "sv_log s2 sid = sv_log s sid" "sv_sent s2 = sv_sent s @ sends" using event(1) False by simp_all
      ultimately show ?thesis by (intro exI [of _ "[]"] exI [of _ sends]) simp
    qed
  qed auto
qed

text \<open>
  C27: A subscriber misses nothing live. Over any run in which a connection keeps its subscription to a session, the
  durable frames of that session it is sent are exactly the events recorded meanwhile that its subscription lets
  through: each once, in the order of their sequence numbers, whatever else the server does.
\<close>

theorem live_exact:
  assumes "json_codec stringify json_parse" "reachable stringify json_parse n s"
    "(stays stringify json_parse n sid t sub)\<^sup>*\<^sup>* s s2"
  shows "\<exists>new sends. sv_log s2 sid = sv_log s sid @ new \<and> sv_sent s2 = sv_sent s @ sends
           \<and> filter (\<lambda>env. of_session sid env \<and> durable env) (sent_to t sends) = filter (lets sub) new"
  using assms(3)
proof (induction rule: rtranclp_induct)
  case base
  show ?case by (intro exI [of _ "[]"]) simp
next
  case (step s2 s3)
  have r: "reachable stringify json_parse n s2" using assms(2) stays_steps [OF step(1)] by (meson rtranclp_trans)
  from live_step [OF step(2) reachable_ok [OF r assms(1)] global_targets_distinct [OF r]] step.IH
  show ?case by auto
qed

section \<open>The replay\<close>

text \<open>
  C9: A connection that comes back gets every event it missed. For a cursor of the current epoch that is not too far
  behind, the replay is a contiguous piece of the log, from the event after the cursor at least up to the newest one
  when it was asked for, cut to what the subscription lets through, in order and each with its own sequence number. This
  holds across restarts when no write of the session failed, and within one activation even if writes did.
\<close>

theorem replay_gapless:
  assumes "json_codec stringify json_parse" "reachable stringify json_parse n s"
    "(server_step stringify json_parse n)\<^sup>*\<^sup>* s s2" "session_of s sid = Some st"
    "cu_epoch cursor = None \<or> cu_epoch cursor = Some (jo_epoch (ss_journal st))"
    "cu_seq cursor \<le> length (sv_log s sid)" "length (sv_log s sid) - cu_seq cursor \<le> n"
    "sv_opened s sid \<le> cu_seq cursor
     \<or> (\<exists>st2. session_of s2 sid = Some st2 \<and> sv_complete s2 sid \<and> idle (ss_journal st2) \<and> file_stream (sv_files s2 sid) chunks e)"
  shows "(\<exists>k. length (sv_log s sid) \<le> cu_seq cursor + k
           \<and> getBufferedSince json_parse n (Some st) cursor (sub_agentFilter sub) (sub_transcriptGrades sub) chunks e
             = Inr \<lparr>bs_events = filter (\<lambda>(_, env). lets sub env) (take k (drop (cu_seq cursor) (enumerate 1 (sv_log s2 sid)))),
                 bs_resyncRequired = None, bs_currentSeq = length (sv_log s sid), bs_epoch = jo_epoch (ss_journal st)\<rparr>)
         \<and> (\<forall>(m, env) \<in> set (enumerate 1 (sv_log s2 sid)). js_opt_prop env ''seq'' = JNum (of_nat m))"
proof -
  let ?h = "sv_log s sid" and ?h2 = "sv_log s2 sid" and ?c = "cu_seq cursor"
  have ok: "session_ok stringify n s sid" by (rule reachable_ok [OF assms(2,1)])
  have ok2: "session_ok stringify n s2 sid" by (rule server_steps_ok [OF assms(3,1) ok])
  have live: "live_ok stringify n ?h (sv_opened s sid) (sv_complete s sid) (sv_files s sid) st" and typed: "list_all typed_event ?h"
    using ok assms(4) by (simp_all add: session_ok_def)
  obtain new where new: "?h2 = ?h @ new" using server_steps_log [OF assms(3), of sid] by blast
  have num: "\<forall>(m, env) \<in> set (enumerate 1 ?h2). js_opt_prop env ''seq'' = JNum (of_nat m)"
    using ok2 by (fastforce simp: session_ok_def numbered_def in_set_enumerate_eq dest: spec [of _ "_ - Suc 0"])
  show ?thesis
  proof (cases "max (sv_opened s sid) (length ?h - n) \<le> ?c \<or> ?c = length ?h")
    case True
    have "drop ?c (enumerate 1 ?h) = take (length ?h - ?c) (drop ?c (enumerate 1 ?h2))"
      unfolding new using assms(6) by (simp add: enumerate_append_eq)
    moreover have "getBufferedSince json_parse n (Some st) cursor (sub_agentFilter sub) (sub_transcriptGrades sub) chunks e
         = Inr \<lparr>bs_events = filter (\<lambda>(_, env). lets sub env) (drop ?c (enumerate 1 ?h)),
             bs_resyncRequired = None, bs_currentSeq = length ?h, bs_epoch = jo_epoch (ss_journal st)\<rparr>"
      using True live by (intro replay_from_tail [OF live typed assms(5-7)]) (auto simp: live_ok_def)
    ultimately show ?thesis using num assms(6) by (intro conjI exI [of _ "length ?h - ?c"]) simp_all
  next
    case False
    then have lt: "?c < length ?h" "?c < max (sv_opened s sid) (length ?h - n)" using assms(6) by auto
    then have "\<not> sv_opened s sid \<le> ?c" using assms(7) by auto
    then obtain st2 where st2: "session_of s2 sid = Some st2" "sv_complete s2 sid" "idle (ss_journal st2)"
      "file_stream (sv_files s2 sid) chunks e" using assms(8) by blast
    then have "holds_log stringify ?h2 (ss_journal st2, sv_files s2 sid)" "list_all typed_event ?h2"
      using ok2 by (simp_all add: session_ok_def live_ok_def)
    from replay_from_disk [OF assms(1) live assms(5) lt(1) assms(7) lt(2) this st2(3,4), of sub]
    show ?thesis using num assms(7) by (intro conjI exI [of _ n]) simp_all
  qed
qed

section \<open>Restart and snapshot\<close>

lemma journal_flush_keeps:
  "jo_epoch (fst (journal_flush stringify now oks (j, f))) = jo_epoch j
   \<and> jo_seq (fst (journal_flush stringify now oks (j, f))) = jo_seq j"
proof (induction stringify now oks "(j, f)" arbitrary: j f rule: journal_flush.induct)
  case (1 stringify now oks j f)
  obtain j2 f2 where s: "settle stringify now (oks 0) (scheduleFlush stringify now j, f) = (j2, f2)" by fastforce
  have "jo_epoch j2 = jo_epoch j" "jo_seq j2 = jo_seq j"
    using settle_seq [OF s] by (simp_all add: scheduleFlush_def flushOnce_def Let_def)
  then show ?case using 1 s by (cases "idle j") (simp_all add: journal_flush.simps [of stringify now oks j f])
qed

text \<open>
  C28: A restart keeps the stream, as long as no write of the session has failed (the lines of a failed write stay
  live only). The journal the session leaves when its pending lines are flushed is then opened again with the same epoch
  (once it holds an event) and the same sequence number, without a warning, however the file is cut into chunks;
  and reading it from the start gives back every event ever recorded, in order.
\<close>

theorem restart_recovers:
  assumes "json_codec stringify json_parse" "reachable stringify json_parse n s"
    "session_of s sid = Some st" "sv_complete s sid" "fresh \<noteq> []"
    "file_stream (snd (journal_flush stringify now (\<lambda>_. True) (ss_journal st, sv_files s sid))) chunks e"
  shows "jo_seq (fst (journal_open json_parse fresh chunks e)) = jo_seq (ss_journal st)
         \<and> (sv_log s sid \<noteq> [] \<longrightarrow> jo_epoch (fst (journal_open json_parse fresh chunks e)) = jo_epoch (ss_journal st))
         \<and> snd (journal_open json_parse fresh chunks e) = []
         \<and> readSince json_parse 0 (Suc limit) chunks e = Inr (take (Suc limit) (enumerate 1 (sv_log s sid)))"
proof -
  let ?h = "sv_log s sid"
  have ok: "session_ok stringify n s sid" by (rule reachable_ok [OF assms(2,1)])
  have typed: "list_all event_ok ?h" using ok by (simp add: session_ok_def typed_event_ok)
  have live: "holds_log stringify ?h (ss_journal st, sv_files s sid)" "jo_epoch (ss_journal st) \<noteq> []"
    using ok assms(3,4) by (simp_all add: session_ok_def live_ok_def)
  obtain j f where jf: "journal_flush stringify now (\<lambda>_. True) (ss_journal st, sv_files s sid) = (j, f)" by fastforce
  have "holds_log stringify ?h (j, f)" "idle j" using holds_log_flush [OF live(1)] jf by (metis fst_conv)+
  then have d: "disk_log stringify (jo_epoch (ss_journal st)) ?h f"
    using holds_log_disk journal_flush_keeps [of stringify now "\<lambda>_. True" "ss_journal st" "sv_files s sid"] jf by fastforce
  have fs: "file_stream f chunks e" using assms(6) jf by simp
  note r = reopen_holds [OF assms(1) typed live(2) assms(5) d fs]
  have "f \<noteq> None" if "?h \<noteq> []" using d that by (auto simp: disk_log_def)
  then show ?thesis
    using r readSince_log [OF assms(1) typed live(2) _ d fs, of "Suc limit" 0] live(1)
    by (auto simp: holds_log_def Let_def)
qed

lemma newest_first_one:
  "newest_first sid (map (\<lambda>(e, now). (sid, e)) es) = rev (map fst es)"
  "newest_first sid (map (Pair sid) es) = rev es"
  by (induction es) (auto simp: newest_first_def case_prod_beta')

text \<open>
  C31: A snapshot shows one moment. The sequence number it carries is the number of events recorded, and the turn in
  flight and the subagents beside it are those of exactly the events dispatched so far: the texts are the deltas of
  the live turn's current step, the running tools those started without a result, the roster the foreground
  subagents spawned in the current main turn.
\<close>

theorem snapshot_consistent:
  assumes "json_codec stringify json_parse" "reachable stringify json_parse n s" "session_of s sid = Some st"
  shows "let snap = getSnapshotState sid (Some st) cold; es = rev (map fst (sv_events s sid)) in
         sst_seq snap = length (sv_log s sid)
         \<and> (case sst_inFlightTurn snap of
              None \<Rightarrow> live_turn es = None
            | Some turn \<Rightarrow>
                live_turn es = Some (if_turn_id turn)
                \<and> if_assistant_text turn = step_text assistant_delta (if_turn_id turn) es
                \<and> if_thinking_text turn = step_text thinking_delta (if_turn_id turn) es
                \<and> distinct (map ta_tool_call_id (if_running_tools turn))
                \<and> set (map ta_tool_call_id (if_running_tools turn)) = {i. is_running i (if_turn_id turn) es})
         \<and> distinct (map sn_id (sst_subagents snap))
         \<and> set (map sn_id (sst_subagents snap)) = {i. is_listed i es}"
proof -
  have "session_ok stringify n s sid" by (rule reachable_ok [OF assms(2,1)])
  then have t: "trackers_ok sid (sv_events s sid) st" "jo_seq (ss_journal st) = length (sv_log s sid)"
    using assms(3) by (simp_all add: session_ok_def live_ok_def)
  let ?t = "ss_tracker st" and ?es = "rev (map fst (sv_events s sid))"
  have "case tracker_get sid ?t of
      None \<Rightarrow> live_turn ?es = None
    | Some turn \<Rightarrow>
        live_turn ?es = Some (if_turn_id turn)
        \<and> if_assistant_text turn = step_text assistant_delta (if_turn_id turn) ?es
        \<and> if_thinking_text turn = step_text thinking_delta (if_turn_id turn) ?es
        \<and> distinct (map ta_tool_call_id (if_running_tools turn))
        \<and> set (map ta_tool_call_id (if_running_tools turn)) = {i. is_running i (if_turn_id turn) ?es}"
    using in_flight_turn_tracks [of sid "map (\<lambda>(e, now). (sid, e)) (sv_events s sid)"] t(1)
    by (cases "tracker_get sid ?t") (simp_all add: trackers_ok_def newest_first_one del: tracker_apply.simps)
  moreover have "distinct (map sn_id (roster_get sid (ss_roster st)))
      \<and> set (map sn_id (roster_get sid (ss_roster st))) = {i. is_listed i ?es}"
    using roster_lists_live_subagents [of sid "map (\<lambda>(e, now). (sid, e, now)) (sv_events s sid)"] t(1)
    by (simp add: trackers_ok_def newest_first_one rev_map [symmetric])
  ultimately show ?thesis using t(2) by (simp only: getSnapshotState_def option.case snapshot_state.simps Let_def)
qed

section \<open>What the journal does not survive\<close>

lemma lines_of_torn:
  assumes "list_all (\<lambda>l. NL \<notin> set l) ls" "NL \<notin> set torn" "torn \<noteq> []"
  shows "lines_of (join_lines ls @ torn) = ls @ [torn]"
  using yield_lines_join [OF assms(1,2)] assms(3) by (simp add: lines_of_def readLines_def)

lemma scan_log:
  assumes "json_codec stringify json_parse" "list_all event_ok h" "ep \<noteq> []"
  shows "foldl (scan_line json_parse) \<lparr>js_epoch = None, js_lastSeq = 0, js_sawAnyLine = False\<rparr> (log_lines stringify ep t h)
         = \<lparr>js_epoch = Some ep, js_lastSeq = length h, js_sawAnyLine = True\<rparr>"
  using scan_events [OF assms(1,2), of ep 0] by (simp add: log_lines_def scan_line_def parse_header [OF assms(1,3)])

lemma read_entries_append:
  "length (read_entries json_parse c limit out ls) < limit \<Longrightarrow>
   read_entries json_parse c limit out (ls @ ms) = read_entries json_parse c limit (read_entries json_parse c limit out ls) ms"
  by (induction json_parse c limit out ls rule: read_entries.induct) (auto split: option.splits journal_line.splits if_splits)

lemma read_log:
  assumes "json_codec stringify json_parse" "list_all event_ok h" "ep \<noteq> []" "0 < limit"
  shows "read_entries json_parse c limit [] (log_lines stringify ep t h) = take limit (drop c (enumerate 1 h))"
  using read_entries_events [OF assms(1,4,2), of "[]" c 0] assms(4)
  by (simp add: log_lines_def parse_header [OF assms(1,3)] filter_enumerate)

lemma log_lines_clean:
  assumes "json_codec stringify json_parse" "list_all event_ok h"
  shows "list_all (\<lambda>l. NL \<notin> set l) (log_lines stringify ep t h)"
proof -
  have "NL \<notin> set (stringify (event_line n env))" if "env \<in> set h" for n env
    using assms(2) that by (intro json_codecD(3) [OF assms(1)]) (auto simp: event_line_def event_ok_def list_all_iff)
  moreover have "NL \<notin> set (stringify (header_line ep t))"
    by (intro json_codecD(3) [OF assms(1)]) (simp_all add: header_line_def)
  ultimately show ?thesis by (auto simp: log_lines_def list_all_iff dest: enumerate_shape)
qed

lemma parse_broken: "json_parse raw = None \<Longrightarrow> last raw \<noteq> CR \<Longrightarrow> parseJournalLine json_parse raw = None"
  by (simp add: parseJournalLine_def Let_def)

lemma event_line_facts:
  assumes "json_codec stringify json_parse" "event_ok env" "0 < n"
  shows "parseJournalLine json_parse (stringify (event_line n env)) = Some (JournalEvent n env)"
    "stringify (event_line n env) \<noteq> []" "NL \<notin> set (stringify (event_line n env))" "last (stringify (event_line n env)) \<noteq> CR"
  using parse_event [OF assms(1), of env n] json_codecD(2,3,4) [OF assms(1), of "event_line n env"] assms(2,3)
  by (simp_all add: event_ok_def) (simp_all add: event_line_def)

text \<open>An event recorded by a journal at rest, and its write.\<close>

lemma record_settle:
  assumes "idle j" "\<not> jo_headerPending j"
  shows "settle stringify now True (record_event stringify now env j, Some s)
         = (j\<lparr>jo_seq := Suc (jo_seq j)\<rparr>, Some (s @ join_lines [stringify (event_line (Suc (jo_seq j)) env)]))"
  using assms by (cases j)
    (simp add: idle_def record_event_def nextSeq_def journal_append_def scheduleFlush_def flushOnce_def settle_def
      appendFile_def Let_def)

text \<open>
  C39: A torn line takes the next event with it. The journal comment says a torn trailing line is tolerated; but the
  file is appended to as it is, so the first event recorded after the crash shares its line. When the two together
  are not valid JSON, that event is never replayed from disk, and the one after it is: the stream has a hole
  nobody is told about.
\<close>

theorem torn_line_swallows_next_event:
  assumes "json_codec stringify json_parse" "list_all event_ok (h @ [env1, env2])" "ep \<noteq> []"
    and "torn \<noteq> []" "NL \<notin> set torn" "last torn \<noteq> CR" "json_parse torn = None"
    and "json_parse (torn @ stringify (event_line (Suc (length h)) env1)) = None"
    and "concat chunks = join_lines (log_lines stringify ep t h) @ torn"
    and "settle stringify now True
           (record_event stringify now env1 (fst (journal_open json_parse fresh chunks StreamEnd)), Some (concat chunks)) = (j1, f1)"
    and "settle stringify now True (record_event stringify now env2 j1, f1) = (j2, Some (concat chunks2))"
  shows "jo_epoch j2 = ep \<and> jo_seq j2 = length h + 2
         \<and> readSince json_parse (length h) (Suc limit) chunks2 StreamEnd = Inr [(length h + 2, env2)]"
proof -
  let ?ls = "log_lines stringify ep t h" and ?l1 = "stringify (event_line (Suc (length h)) env1)"
    and ?l2 = "stringify (event_line (Suc (Suc (length h))) env2)"
  have h: "list_all event_ok h" and e: "event_ok env1" "event_ok env2" using assms(2) by simp_all
  note clean = log_lines_clean [OF assms(1) h, of ep t]
  have l1: "?l1 \<noteq> []" "NL \<notin> set ?l1" "last ?l1 \<noteq> CR"
    by (rule event_line_facts [OF assms(1) e(1)]; simp)+
  have l2: "NL \<notin> set ?l2" "parseJournalLine json_parse ?l2 = Some (JournalEvent (Suc (Suc (length h))) env2)"
    by (rule event_line_facts [OF assms(1) e(2)]; simp)+
  have t: "parseJournalLine json_parse torn = None" using assms(6,7) by (simp add: parse_broken)
  have tl1: "parseJournalLine json_parse (torn @ ?l1) = None"
    using assms(8) l1 by (simp add: parse_broken)
  have j: "fst (journal_open json_parse fresh chunks StreamEnd)
      = \<lparr>jo_epoch = ep, jo_seq = length h, jo_pending = [], jo_flush = None, jo_headerPending = False\<rparr>"
    by (simp add: journal_open_def readLines_chunks assms(9) lines_of_torn [OF clean assms(5,4)] scan_log [OF assms(1) h assms(3)]
        scan_line_def t)
  have "f1 = Some (concat chunks @ join_lines [?l1])"
    "j1 = \<lparr>jo_epoch = ep, jo_seq = Suc (length h), jo_pending = [], jo_flush = None, jo_headerPending = False\<rparr>"
    using assms(10) unfolding j by (simp_all add: record_settle idle_def)
  with assms(11) have j2: "jo_epoch j2 = ep" "jo_seq j2 = length h + 2"
    and c2: "concat chunks2 = join_lines (?ls @ [torn @ ?l1, ?l2])"
    by (auto simp: record_settle idle_def assms(9))
  have "lines_of (concat chunks2) = ?ls @ [torn @ ?l1, ?l2]"
    unfolding c2 by (rule lines_of_join) (use clean assms(5) l1(2) l2(1) in simp)
  moreover have "read_entries json_parse (length h) (Suc limit) [] ?ls = []"
    using read_log [OF assms(1) h assms(3), of "Suc limit" "length h" t] by simp
  ultimately show ?thesis using j2
    by (simp add: readSince_def readLines_chunks read_entries_append tl1 l2(2))
qed

text \<open>
  A journal without its header mixes epochs. When the header line is broken, the file is opened as a fresh epoch
  that starts at 1, as the comment says; but the old lines stay. After the next restart the new epoch
  claims the old sequence numbers, and reading it from the start returns the old events and then the new one,
  with a number twice.
\<close>

theorem headerless_journal_mixes_epochs:
  assumes "json_codec stringify json_parse" "list_all event_ok (h @ [env])" "h \<noteq> []" "fresh \<noteq> []"
    and "broken \<noteq> []" "NL \<notin> set broken" "last broken \<noteq> CR" "json_parse broken = None"
    and "concat chunks = join_lines (broken # tl (log_lines stringify ep t h))"
    and "settle stringify now True
           (record_event stringify now env (fst (journal_open json_parse fresh chunks StreamEnd)), Some (concat chunks))
         = (j1, Some (concat chunks2))"
  shows "jo_epoch j1 = fresh \<and> jo_seq j1 = 1
         \<and> jo_epoch (fst (journal_open json_parse fresh2 chunks2 StreamEnd)) = fresh
         \<and> jo_seq (fst (journal_open json_parse fresh2 chunks2 StreamEnd)) = length h
         \<and> readSince json_parse 0 (length h + 1) chunks2 StreamEnd = Inr (enumerate 1 h @ [(1, env)])"
proof -
  let ?es = "tl (log_lines stringify ep t h)" and ?hd = "stringify (header_line fresh now)" and ?l = "stringify (event_line 1 env)"
  have h: "list_all event_ok h" and e: "event_ok env" using assms(2) by simp_all
  have es: "?es = map (\<lambda>(n, env). stringify (event_line n env)) (enumerate (Suc 0) h)" by (simp add: log_lines_def)
  have clean: "list_all (\<lambda>l. NL \<notin> set l) ?es" using log_lines_clean [OF assms(1) h, of ep t] by (simp add: log_lines_def)
  have b: "parseJournalLine json_parse broken = None" using assms(7,8) by (simp add: parse_broken)
  have l: "NL \<notin> set ?l" "parseJournalLine json_parse ?l = Some (JournalEvent 1 env)"
    "parseJournalLine json_parse (stringify (event_line (Suc 0) env)) = Some (JournalEvent 1 env)"
    using event_line_facts [OF assms(1) e, of 1] by simp_all
  have hd: "NL \<notin> set ?hd" "parseJournalLine json_parse ?hd = Some (JournalHeader fresh)"
    using json_codecD(3) [OF assms(1), of "header_line fresh now"] parse_header [OF assms(1,4)] by (simp_all add: header_line_def)
  have scan: "foldl (scan_line json_parse) \<lparr>js_epoch = None, js_lastSeq = k, js_sawAnyLine = True\<rparr>
      (map (\<lambda>(n, env). stringify (event_line n env)) (enumerate (Suc k) g))
      = \<lparr>js_epoch = None, js_lastSeq = k + length g, js_sawAnyLine = True\<rparr>" if "list_all event_ok g" for k g
    using that by (induction g arbitrary: k) (simp_all add: scan_line_def parse_event [OF assms(1)] event_ok_def)
  have j: "fst (journal_open json_parse fresh chunks StreamEnd)
      = \<lparr>jo_epoch = fresh, jo_seq = 0, jo_pending = [], jo_flush = None, jo_headerPending = True\<rparr>"
    using scan [OF h, of 0] clean assms(6)
    by (simp add: journal_open_def readLines_chunks assms(9) lines_of_join del: join_lines_simps) (simp add: es scan_line_def b)
  have j1: "j1 = \<lparr>jo_epoch = fresh, jo_seq = 1, jo_pending = [], jo_flush = None, jo_headerPending = False\<rparr>"
    and c2: "concat chunks2 = join_lines ((broken # ?es) @ [?hd, ?l])"
    using assms(10) unfolding j
    by (auto simp: record_event_def nextSeq_def journal_append_def scheduleFlush_def flushOnce_def settle_def appendFile_def
        Let_def assms(9))
  have lines: "lines_of (concat chunks2) = (broken # ?es) @ [?hd, ?l]"
    unfolding c2 by (rule lines_of_join) (use clean assms(6) hd(1) l(1) in simp)
  have "read_entries json_parse 0 (Suc (length h)) [] ?es = enumerate (Suc 0) h"
    using read_entries_events [OF assms(1), of "Suc (length h)" h "[]" 0 0] h by (simp add: es filter_enumerate)
  then have "read_entries json_parse 0 (Suc (length h)) [] ((broken # ?es) @ [?hd, ?l]) = enumerate 1 h @ [(1, env)]"
    by (simp add: b read_entries_append hd(2) l(3))
  moreover have "journal_open json_parse fresh2 chunks2 StreamEnd
      = (\<lparr>jo_epoch = fresh, jo_seq = length h, jo_pending = [], jo_flush = None, jo_headerPending = False\<rparr>, [])"
    using scan [OF h, of 0] assms(3)
    by (simp add: journal_open_def readLines_chunks lines) (simp add: es scan_line_def b hd(2) l(3))
  ultimately show ?thesis using j1 by (simp add: readSince_def readLines_chunks lines)
qed

text \<open>A crash before a write is done gives the number of the lost event, which clients have seen, to the next one.\<close>

lemma crash_reuses_sequence_number:
  assumes "json_codec stringify json_parse" "list_all event_ok h" "holds_log stringify h (j, Some s)" "idle j" "concat chunks = s"
  shows "jo_seq (record_event stringify now env1 j) = Suc (length h)
         \<and> jo_seq (record_event stringify now env2 (fst (journal_open json_parse fresh chunks StreamEnd))) = Suc (length h)
         \<and> jo_epoch (fst (journal_open json_parse fresh chunks StreamEnd)) = jo_epoch j"
proof -
  have "jo_epoch j \<noteq> []" "jo_seq j = length h" using assms(3) by (simp_all add: holds_log_def Let_def)
  moreover have "disk_log stringify (jo_epoch j) h (Some s)" by (rule holds_log_disk [OF assms(3,4)])
  then obtain t where "s = join_lines (log_lines stringify (jo_epoch j) t h)" by (auto simp: disk_log_def)
  ultimately show ?thesis
    by (simp add: record_event_seq journal_open_def readLines_chunks assms(5) lines_of_log [OF assms(1,2)]
        scan_log [OF assms(1,2)])
qed

text \<open>
  A read error after the header: the warning says a fresh epoch starts, but the old one goes on, numbered from what was
  read so far.
\<close>

lemma read_error_keeps_epoch:
  assumes "json_codec stringify json_parse" "list_all event_ok h" "ep \<noteq> []" "code \<noteq> ''ENOENT''"
  shows "journal_open json_parse fresh [join_lines (log_lines stringify ep t h)] (StreamError code)
         = (\<lparr>jo_epoch = ep, jo_seq = length h, jo_pending = [], jo_flush = None, jo_headerPending = False\<rparr>, [Unreadable code])"
  using yield_lines_join [OF log_lines_clean [OF assms(1,2), of ep t], of "[]"] assms(4)
  by (simp add: journal_open_def readLines_def scan_log [OF assms(1-3)])

section \<open>The hypotheses hold\<close>

text \<open>A codec that numbers the values, and a server with one session, one connection and one event.\<close>

instance json :: countable
  by countable_datatype

definition sample_stringify :: "json \<Rightarrow> string" where
  "sample_stringify v = nat_str (to_nat v)"

definition sample_parse :: "string \<Rightarrow> json option" where
  "sample_parse s = (if all_digits s then Some (from_nat (digits_val 0 s)) else None)"

lemma digit_ends: "is_digit c \<Longrightarrow> c \<noteq> NL \<and> c \<noteq> CR"
  by (auto simp: is_digit_def)

lemma sample_codec: "json_codec sample_stringify sample_parse"
proof -
  have "NL \<notin> set (nat_str n)" "CR \<notin> set (nat_str n)" for n
    using all_digits_nat_str [of n] digit_ends by (auto simp: all_digits_def list_all_iff)
  then show ?thesis
    by (simp add: json_codec_def sample_stringify_def sample_parse_def all_digits_nat_str digits_val_nat_str)
qed

definition sample_event :: session_event where
  "sample_event = \<lparr>se_agentId = Some ''main'', se_body = TurnStarted 1, se_fields = []\<rparr>"

definition sample_open :: server where
  "sample_open = server_start
     \<lparr>sv_b := createSessionState ''s'' (fst (journal_open sample_parse ''ep_1'' [] (StreamError ''ENOENT''))) (sv_b server_start),
      sv_opened := (sv_opened server_start)(''s'' := length (sv_log server_start ''s'')),
      sv_events := (sv_events server_start)(''s'' := [])\<rparr>"

definition sample_joined :: server where
  "sample_joined = sample_open\<lparr>sv_b := subscribe None ''s'' ''c'' None None \<lparr>so_deferTranscriptReset = False, so_transcriptSince = None\<rparr> (sv_b sample_open)\<rparr>"

lemma sample_joined_session:
  "session_of sample_joined ''s'' = Some
     (new_session_state \<lparr>jo_epoch = ''ep_1'', jo_seq = 0, jo_pending = [], jo_flush = None, jo_headerPending = True\<rparr>
        \<lparr>ss_targets := [(''c'', \<lparr>sub_agentFilter = None, sub_transcriptGrades = None\<rparr>)]\<rparr>)"
  by (simp add: sample_joined_def sample_open_def server_start_def createSessionState_def subscribe_def join_target_def with_session_def
      new_session_state_def journal_open_def readLines_def jm_get_single)

lemma sample_joined_reachable: "reachable sample_stringify sample_parse 1 sample_joined"
proof -
  have "server_step sample_stringify sample_parse 1 server_start sample_open"
    unfolding sample_open_def by (rule server_step.activate) (simp_all add: server_start_def)
  moreover have "server_step sample_stringify sample_parse 1 sample_open sample_joined"
    unfolding sample_joined_def by (rule server_step.subscribes)
  ultimately show ?thesis by simp
qed

definition sample_stamp :: "session_state \<times> json" where
  "sample_stamp = stamp sample_stringify 1 0 ''t'' ''s'' sample_event False (the (session_of sample_joined ''s''))"

definition sample_dispatch :: "broadcaster \<times> (string \<times> json) list" where
  "sample_dispatch = dispatch sample_stringify 1 0 ''t'' ''s'' sample_event False (sv_b sample_joined)"

definition sample_sent :: server where
  "sample_sent = sample_joined
     \<lparr>sv_b := fst sample_dispatch,
      sv_log := (sv_log sample_joined)(''s'' := sv_log sample_joined ''s'' @ [snd sample_stamp]),
      sv_events := (sv_events sample_joined)(''s'' := sv_events sample_joined ''s'' @ [(sample_event, ''t'')]),
      sv_sent := sv_sent sample_joined @ snd sample_dispatch\<rparr>"

lemma sample_sent_step: "server_step sample_stringify sample_parse 1 sample_joined sample_sent"
proof -
  have "plain (event_json ''s'' sample_event)" by (simp add: event_json_def sample_event_def opt_str_def)
  moreover have "stamp sample_stringify 1 0 ''t'' ''s'' sample_event False (the (session_of sample_joined ''s''))
      = (fst sample_stamp, snd sample_stamp)" by (simp add: sample_stamp_def)
  moreover have "dispatch sample_stringify 1 0 ''t'' ''s'' sample_event False (sv_b sample_joined)
      = (fst sample_dispatch, snd sample_dispatch)" by (simp add: sample_dispatch_def)
  moreover have "session_of sample_joined ''s'' = Some (the (session_of sample_joined ''s''))"
    by (simp add: sample_joined_session)
  ultimately have "server_step sample_stringify sample_parse 1 sample_joined
      (sample_joined\<lparr>sv_b := fst sample_dispatch,
        sv_log := (if False then sv_log sample_joined
                   else (sv_log sample_joined)(''s'' := sv_log sample_joined ''s'' @ [snd sample_stamp])),
        sv_events := (sv_events sample_joined)(''s'' := sv_events sample_joined ''s'' @ [(sample_event, ''t'')]),
        sv_sent := sv_sent sample_joined @ snd sample_dispatch\<rparr>)"
    by (intro server_step.event)
  then show ?thesis by (simp add: sample_sent_def)
qed

lemma sample_sent_reachable: "reachable sample_stringify sample_parse 1 sample_sent"
  using sample_joined_reachable sample_sent_step by (rule rtranclp.rtrancl_into_rtrancl)

lemma sample_sent_session: "session_of sample_sent ''s'' = Some (fst sample_stamp)"
  by (simp add: sample_sent_def sample_dispatch_def sample_stamp_def dispatch_def sample_joined_session Let_def split: prod.split)

lemma sample_sent_facts:
  "sv_log sample_sent ''s'' = [snd sample_stamp]" "sv_opened sample_sent ''s'' = 0" "sv_complete sample_sent ''s''"
  by (simp_all add: sample_sent_def sample_joined_def sample_open_def server_start_def)

lemma sample_targets:
  "ss_targets (fst sample_stamp) = [(''c'', \<lparr>sub_agentFilter = None, sub_transcriptGrades = None\<rparr>)]"
  using stamp_state(1) [of sample_stringify 1 0 "''t''" "''s''" sample_event False "the (session_of sample_joined ''s'')"
      "fst sample_stamp" "snd sample_stamp"]
  by (simp add: sample_stamp_def sample_joined_session)

lemma sample_stays:
  "stays sample_stringify sample_parse 1 ''s'' ''c'' \<lparr>sub_agentFilter = None, sub_transcriptGrades = None\<rparr> sample_joined sample_sent"
proof -
  show ?thesis
    using sample_targets sample_sent_step
    by (simp add: stays_def subscribed_def sample_joined_session sample_sent_session jm_get_single)
qed

theorem live_exact_witness:
  "\<exists>new sends. sv_log sample_sent ''s'' = sv_log sample_joined ''s'' @ new \<and> sv_sent sample_sent = sv_sent sample_joined @ sends
     \<and> filter (\<lambda>env. of_session ''s'' env \<and> durable env) (sent_to ''c'' sends)
       = filter (lets \<lparr>sub_agentFilter = None, sub_transcriptGrades = None\<rparr>) new"
  by (rule live_exact [OF sample_codec sample_joined_reachable]) (rule r_into_rtranclp, rule sample_stays)

theorem frames_well_typed_witness:
  "wire_frame (snd sample_stamp)"
proof -
  have "js_opt_prop (snd sample_stamp) ''type'' = JStr ''turn.started''"
    using stamp_envelope(1) [of sample_stringify 1 0 "''t''" "''s''" sample_event False "the (session_of sample_joined ''s'')"
        "fst sample_stamp" "snd sample_stamp"]
    by (simp add: sample_stamp_def sample_event_def)
  moreover have t: "jm_get (ss_targets (fst sample_stamp)) ''c'' = Some \<lparr>sub_agentFilter = None, sub_transcriptGrades = None\<rparr>"
    "jm_ok (ss_targets (fst sample_stamp))"
    by (simp_all add: sample_targets jm_get_single jm_ok_def)
  moreover have "jm_get (br_sessions (fst sample_dispatch)) ''s'' = Some (fst sample_stamp)"
    using sample_sent_session by (simp add: sample_sent_def)
  ultimately have "''c'' \<in> set (recipients (fst sample_dispatch) (fst sample_stamp) ''turn.started'' (snd sample_stamp))"
    by (simp add: recipients_mem lets_def matchesAgentFilter_def suppressedByTranscript_def)
  moreover have "snd sample_dispatch
      = map (\<lambda>t. (t, snd sample_stamp)) (recipients (fst sample_dispatch) (fst sample_stamp) ''turn.started'' (snd sample_stamp))"
    using dispatch_session(3) [of sample_stringify 1 0 "''t''" "''s''" sample_event False "sv_b sample_joined" "fst sample_dispatch"
        "snd sample_dispatch" "the (session_of sample_joined ''s'')" "fst sample_stamp" "snd sample_stamp"]
    by (simp add: sample_dispatch_def sample_stamp_def sample_joined_session sample_event_def)
  ultimately have "(''c'', snd sample_stamp) \<in> set (sv_sent sample_sent)" by (simp add: sample_sent_def)
  then show ?thesis by (rule frames_well_typed [OF sample_codec sample_sent_reachable])
qed

theorem replay_gapless_witness:
  "(\<exists>k. length (sv_log sample_sent ''s'') \<le> 0 + k
      \<and> getBufferedSince sample_parse 1 (Some (fst sample_stamp)) \<lparr>cu_seq = 0, cu_epoch = None\<rparr> None None [] StreamEnd
        = Inr \<lparr>bs_events = filter (\<lambda>(_, env). lets \<lparr>sub_agentFilter = None, sub_transcriptGrades = None\<rparr> env)
                 (take k (drop 0 (enumerate 1 (sv_log sample_sent ''s'')))),
            bs_resyncRequired = None, bs_currentSeq = length (sv_log sample_sent ''s''),
            bs_epoch = jo_epoch (ss_journal (fst sample_stamp))\<rparr>)
   \<and> js_opt_prop (snd sample_stamp) ''seq'' = JNum 1"
  using replay_gapless [OF sample_codec sample_sent_reachable rtranclp.rtrancl_refl sample_sent_session, of "\<lparr>cu_seq = 0, cu_epoch = None\<rparr>"
      "[]" StreamEnd "\<lparr>sub_agentFilter = None, sub_transcriptGrades = None\<rparr>"]
  by (simp add: sample_sent_facts)

definition sample_file :: "string option" where
  "sample_file = snd (journal_flush sample_stringify 0 (\<lambda>_. True) (ss_journal (fst sample_stamp), sv_files sample_sent ''s''))"

fun whole_file :: "string option \<Rightarrow> string list \<times> stream_end" where
  "whole_file None = ([], StreamError ''ENOENT'')"
| "whole_file (Some s) = ([s], StreamEnd)"

lemma file_stream_whole: "file_stream f (fst (whole_file f)) (snd (whole_file f))"
  by (cases f) simp_all

definition sample_chunks :: "string list \<times> stream_end" where
  "sample_chunks = whole_file sample_file"

lemma sample_stream: "file_stream sample_file (fst sample_chunks) (snd sample_chunks)"
  unfolding sample_chunks_def by (rule file_stream_whole)

theorem restart_recovers_witness:
  "jo_seq (fst (journal_open sample_parse ''ep_2'' (fst sample_chunks) (snd sample_chunks))) = jo_seq (ss_journal (fst sample_stamp))
   \<and> jo_epoch (fst (journal_open sample_parse ''ep_2'' (fst sample_chunks) (snd sample_chunks))) = jo_epoch (ss_journal (fst sample_stamp))
   \<and> snd (journal_open sample_parse ''ep_2'' (fst sample_chunks) (snd sample_chunks)) = []
   \<and> readSince sample_parse 0 (Suc 0) (fst sample_chunks) (snd sample_chunks)
     = Inr (take (Suc 0) (enumerate 1 (sv_log sample_sent ''s'')))"
  using restart_recovers [OF sample_codec sample_sent_reachable sample_sent_session, of "''ep_2''" 0 "fst sample_chunks"
      "snd sample_chunks" 0] sample_stream
  by (simp add: sample_file_def sample_sent_facts)

theorem snapshot_consistent_witness:
  "sst_seq (getSnapshotState ''s'' (Some (fst sample_stamp)) None) = length (sv_log sample_sent ''s'')"
  using snapshot_consistent [OF sample_codec sample_sent_reachable sample_sent_session, of None] by (simp add: Let_def)

definition sample_envelope :: json where
  "sample_envelope = JObj 0 [(''type'', JStr ''error'')]"

lemma sample_envelope_ok: "event_ok sample_envelope"
  by (simp add: event_ok_def sample_envelope_def)

lemma letters_broken: "\<not> is_digit c \<Longrightarrow> sample_parse (c # s) = None"
  by (simp add: sample_parse_def all_digits_def)

lemma settle_some: "\<exists>s2. snd (settle stringify now True (j, Some s)) = Some s2"
  by (auto simp: settle_def appendFile_def Let_def split: option.split)

theorem torn_line_swallows_next_event_witness:
  "\<exists>(j2 :: journal) chunks2. jo_epoch j2 = ''e'' \<and> jo_seq j2 = 2 \<and> readSince sample_parse 0 1 chunks2 StreamEnd = Inr [(2, sample_envelope)]"
proof -
  let ?c = "join_lines (log_lines sample_stringify ''e'' 0 []) @ ''x''"
  let ?j = "fst (journal_open sample_parse ''f'' [?c] StreamEnd)"
  obtain j1 f1 where 1: "settle sample_stringify 0 True (record_event sample_stringify 0 sample_envelope ?j, Some ?c) = (j1, Some f1)"
    using settle_some by (metis prod.collapse)
  obtain j2 f2 where 2: "settle sample_stringify 0 True (record_event sample_stringify 0 sample_envelope j1, Some f1) = (j2, Some f2)"
    using settle_some by (metis prod.collapse)
  have "jo_epoch j2 = ''e'' \<and> jo_seq j2 = length ([] :: json list) + 2
      \<and> readSince sample_parse (length ([] :: json list)) (Suc 0) [f2] StreamEnd = Inr [(length ([] :: json list) + 2, sample_envelope)]"
    by (rule torn_line_swallows_next_event [OF sample_codec, where torn = "''x''" and ?env1.0 = sample_envelope and ?j1.0 = j1 and ?f1.0 = "Some f1"
          and chunks = "[?c]" and fresh = "''f''" and t = 0 and now = 0])
      (use 1 2 in \<open>simp_all add: sample_envelope_ok letters_broken is_digit_def\<close>)
  then show ?thesis by - (rule exI [of _ j2], rule exI [of _ "[f2]"], simp add: numeral_2_eq_2)
qed

theorem headerless_journal_mixes_epochs_witness:
  "\<exists>chunks2. readSince sample_parse 0 2 chunks2 StreamEnd = Inr [(1, sample_envelope), (1, sample_envelope)]"
proof -
  let ?c = "join_lines (''x'' # tl (log_lines sample_stringify ''e'' 0 [sample_envelope]))"
  let ?j = "fst (journal_open sample_parse ''f'' [?c] StreamEnd)"
  obtain j1 f1 where 1: "settle sample_stringify 0 True (record_event sample_stringify 0 sample_envelope ?j, Some ?c) = (j1, Some f1)"
    using settle_some by (metis prod.collapse)
  have "jo_epoch j1 = ''f'' \<and> jo_seq j1 = 1
      \<and> jo_epoch (fst (journal_open sample_parse ''g'' [f1] StreamEnd)) = ''f''
      \<and> jo_seq (fst (journal_open sample_parse ''g'' [f1] StreamEnd)) = length [sample_envelope]
      \<and> readSince sample_parse 0 (length [sample_envelope] + 1) [f1] StreamEnd = Inr (enumerate 1 [sample_envelope] @ [(1, sample_envelope)])"
    by (rule headerless_journal_mixes_epochs [OF sample_codec, where broken = "''x''" and chunks = "[?c]" and t = 0 and now = 0 and ep = "''e''"])
      (use 1 in \<open>simp_all add: sample_envelope_ok letters_broken is_digit_def\<close>)
  then show ?thesis by (auto simp: numeral_2_eq_2)
qed

end
