(* ===== verification/TranscriptSync.thy ===== *)
theory TranscriptSync
  imports Granularity
begin

text \<open>
  \<open>packages/kap-server/src/services/transcript/transcriptService.ts\<close>: the journal of operation batches a
  connection catches up from, the replay of a rebuilt snapshot as upserts, the repair of an ended turn from
  the records on disk, and the live sessions that own all of it. The asynchronous reads are split where
  they wait: an operation takes what was read and the identity of the store it was read for.
\<close>

section \<open>The journal of operation batches\<close>

record op_batch =
  ba_seq :: nat
  ba_ops :: "transcript_op list"

record ops_journal =
  oj_nextSeq :: nat
  oj_batches :: "op_batch list"

definition TRANSCRIPT_OPS_JOURNAL_CAPACITY :: nat where
  "TRANSCRIPT_OPS_JOURNAL_CAPACITY = 2000"

definition new_ops_journal :: ops_journal where
  "new_ops_journal = \<lparr>oj_nextSeq = 1, oj_batches = []\<rparr>"

definition journal_push :: "transcript_op list \<Rightarrow> ops_journal \<Rightarrow> ops_journal \<times> nat" where
  "journal_push ops j =
     (let seq = oj_nextSeq j; batches = oj_batches j @ [\<lparr>ba_seq = seq, ba_ops = ops\<rparr>]
      in (\<lparr>oj_nextSeq = seq + 1,
           oj_batches = (if TRANSCRIPT_OPS_JOURNAL_CAPACITY < length batches then drop 1 batches else batches)\<rparr>, seq))"

record ops_catchup =
  oc_batches :: "op_batch list"
  oc_latestSeq :: nat
  oc_complete :: bool

definition latest_seq :: "ops_journal option \<Rightarrow> nat" where
  "latest_seq j = (case j of None \<Rightarrow> 0 | Some j \<Rightarrow> oj_nextSeq j - 1)"

definition catchup_since :: "ops_journal option \<Rightarrow> nat \<Rightarrow> ops_catchup" where
  "catchup_since j sinceSeq =
     (if latest_seq j < sinceSeq then \<lparr>oc_batches = [], oc_latestSeq = latest_seq j, oc_complete = False\<rparr>
      else
        let batches = (case j of None \<Rightarrow> [] | Some j \<Rightarrow> filter (\<lambda>b. sinceSeq < ba_seq b) (oj_batches j));
            oldest = (case j of Some j \<Rightarrow> (case oj_batches j of b # _ \<Rightarrow> Some (ba_seq b) | [] \<Rightarrow> None) | None \<Rightarrow> None)
        in \<lparr>oc_batches = batches, oc_latestSeq = latest_seq j,
            oc_complete = (batches = [] \<or> (case oldest of None \<Rightarrow> False | Some n \<Rightarrow> n \<le> sinceSeq + 1))\<rparr>)"

section \<open>A snapshot as upserts\<close>

definition step_ops :: "turn_id \<Rightarrow> transcript_step \<Rightarrow> transcript_op list" where
  "step_ops tid st =
     StepUpsert tid (step_header.truncate st) # map (FrameUpsert tid (step_stepId st)) (step_frames st)"

definition snapshotTurnOps :: "transcript_turn \<Rightarrow> transcript_op list" where
  "snapshotTurnOps t =
     TurnUpsert (turn_header.truncate t) # concat (map (step_ops (turn_turnId t)) (turn_steps t))"

fun standalone_op :: "number option \<Rightarrow> transcript_item \<Rightarrow> transcript_op list" where
  "standalone_op beforeTurn (IMarker m) = [MarkerUpsert m beforeTurn]"
| "standalone_op beforeTurn (ITaskRef r) = [TaskRefUpsert r beforeTurn]"
| "standalone_op beforeTurn (ITurn t) = []"

definition flush_pending :: "transcript_item list \<Rightarrow> number option \<Rightarrow> transcript_op list" where
  "flush_pending pending beforeTurn = concat (map (standalone_op beforeTurn) pending)"

fun snapshot_items_ops ::
  "(transcript_turn \<Rightarrow> transcript_op list) \<Rightarrow> transcript_item list \<Rightarrow> transcript_item list \<Rightarrow> number option
   \<Rightarrow> transcript_op list" where
  "snapshot_items_ops turnOps [] pending lastTurnOrdinal =
     flush_pending pending (map_option (\<lambda>n. n + 1) lastTurnOrdinal)"
| "snapshot_items_ops turnOps (ITurn t # es) pending lastTurnOrdinal =
     flush_pending pending (Some (turn_ordinal t)) @ turnOps t
     @ snapshot_items_ops turnOps es [] (Some (turn_ordinal t))"
| "snapshot_items_ops turnOps (e # es) pending lastTurnOrdinal =
     snapshot_items_ops turnOps es (pending @ [e]) lastTurnOrdinal"

text \<open>The \<open>meta\<close> of a snapshot used as a merge payload: a field it does not have is an absent key.\<close>

definition as_key :: "'a option \<Rightarrow> 'a key" where
  "as_key v = (case v of None \<Rightarrow> Absent | Some x \<Rightarrow> Present (Some x))"

definition as_nullable :: "'a option \<Rightarrow> 'a nullable" where
  "as_nullable v = (case v of None \<Rightarrow> NKeep | Some x \<Rightarrow> NVal x)"

definition status_as_merge :: "agent_status \<Rightarrow> agent_status_merge" where
  "status_as_merge a =
     \<lparr>am_model = as_key (as_model a), am_thinkingEffort = as_key (as_thinkingEffort a),
      am_usage = as_key (as_usage a), am_contextTokens = as_key (as_contextTokens a),
      am_maxContextTokens = as_key (as_maxContextTokens a), am_contextUsage = as_key (as_contextUsage a),
      am_permission = as_key (as_permission a), am_phase = as_key (as_phase a)\<rparr>"

definition meta_as_merge :: "transcript_meta \<Rightarrow> transcript_meta_merge" where
  "meta_as_merge m =
     \<lparr>merge_modes = map_option (\<lambda>mm. \<lparr>mm_plan = as_nullable (modes_plan mm), mm_swarm = as_nullable (modes_swarm mm)\<rparr>)
        (meta_modes m),
      merge_activity = meta_activity m, merge_agent = map_option status_as_merge (meta_agent m)\<rparr>"

definition snapshotToOps :: "agent_snapshot \<Rightarrow> (transcript_turn \<Rightarrow> transcript_op list) \<Rightarrow> transcript_op list" where
  "snapshotToOps snapshot turnOps =
     snapshot_items_ops turnOps (snap_items snapshot) [] None
     @ map TaskUpsert (snap_tasks snapshot) @ [MetaMerge (meta_as_merge (snap_meta snapshot))]"

section \<open>Repairing an ended turn\<close>

definition has_outcome :: "tool_call_frame \<Rightarrow> bool" where
  "has_outcome f \<longleftrightarrow> tc_output f \<noteq> JUndef \<or> tc_error f \<noteq> None"

text \<open>\<open>a ?? b\<close> on open content\<close>

fun js_coalesce :: "json \<Rightarrow> json \<Rightarrow> json" where
  "js_coalesce JUndef b = b"
| "js_coalesce JNull b = b"
| "js_coalesce a b = a"

fun live_tool :: "transcript_frame option \<Rightarrow> tool_call_frame option" where
  "live_tool (Some (FTool l)) = Some l"
| "live_tool _ = None"

fun same_text_kind :: "transcript_frame \<Rightarrow> transcript_frame \<Rightarrow> bool" where
  "same_text_kind (FText _) (FText _) = True"
| "same_text_kind (FThinking _) (FThinking _) = True"
| "same_text_kind _ _ = False"

definition text_length :: "transcript_frame \<Rightarrow> nat" where
  "text_length f = (case frame_text f of None \<Rightarrow> 0 | Some x \<Rightarrow> length x)"

text \<open>The frame the repair emits for a persisted frame, given what the live step has under its id.\<close>

definition heal_frame :: "transcript_frame option \<Rightarrow> transcript_frame \<Rightarrow> transcript_frame option" where
  "heal_frame liveFrame frame =
     (case frame of
        FTool f \<Rightarrow>
          (case live_tool liveFrame of
             None \<Rightarrow> Some frame
           | Some l \<Rightarrow>
               if has_outcome l \<or> \<not> has_outcome f then None
               else Some (FTool (f\<lparr>tc_display := js_coalesce (tc_display l) (tc_display f),
                                   tc_agentRefs := coalesce (tc_agentRefs l) (tc_agentRefs f),
                                   tc_approvalId := coalesce (tc_approvalId l) (tc_approvalId f)\<rparr>)))
      | FNotice _ \<Rightarrow> None
      | _ \<Rightarrow>
          (case liveFrame of
             Some l \<Rightarrow> if same_text_kind l frame \<and> text_length frame \<le> text_length l then None else Some frame
           | None \<Rightarrow> Some frame))"

definition heal_step :: "turn_id \<Rightarrow> transcript_turn \<Rightarrow> transcript_step \<Rightarrow> transcript_op list" where
  "heal_step tid liveTurn st =
     (case find_step (turn_steps liveTurn) (step_stepId st) of
        None \<Rightarrow> step_ops tid st
      | Some liveStep \<Rightarrow>
          List.map_filter
            (\<lambda>f. map_option (FrameUpsert tid (step_stepId st)) (heal_frame (find_frame (step_frames liveStep) (frame_id f)) f))
            (step_frames st))"

definition heal_header :: "transcript_turn \<Rightarrow> transcript_turn \<Rightarrow> turn_header" where
  "heal_header snapshotTurn liveTurn =
     (turn_header.truncate snapshotTurn)
       \<lparr>turn_state := turn_state liveTurn,
        turn_prompt := coalesce (turn_prompt liveTurn) (turn_prompt snapshotTurn),
        turn_startedAt := coalesce (turn_startedAt liveTurn) (turn_startedAt snapshotTurn),
        turn_endedAt := coalesce (turn_endedAt liveTurn) (turn_endedAt snapshotTurn)\<rparr>"

definition healTurnOps :: "transcript_turn \<Rightarrow> transcript_turn option \<Rightarrow> transcript_op list" where
  "healTurnOps snapshotTurn liveTurn =
     (case liveTurn of
        None \<Rightarrow> snapshotTurnOps snapshotTurn
      | Some l \<Rightarrow>
          TurnUpsert (heal_header snapshotTurn l)
          # concat (map (heal_step (turn_turnId snapshotTurn) l) (turn_steps snapshotTurn)))"

text \<open>\<open>activeTurnId\<close> is the loop's running turn, \<open>None\<close> when the loop is idle.\<close>

definition liveTurnOverlay :: "int option \<Rightarrow> transcript_item list \<Rightarrow> agent_snapshot \<Rightarrow> transcript_op option" where
  "liveTurnOverlay activeTurnId items snapshot =
     (case activeTurnId of
        None \<Rightarrow> None
      | Some ordinal \<Rightarrow>
          let i = turnId ordinal;
              existing = getTurn items i;
              snapshotTurn = find (\<lambda>t. turn_ordinal t = of_int ordinal) (List.map_filter the_turn (snap_items snapshot));
              pick = (\<lambda>field. coalesce (Option.bind existing field) (Option.bind snapshotTurn field))
          in Some (TurnUpsert
               \<lparr>turn_turnId = i, turn_ordinal = of_int ordinal, turn_state = TurnRunning,
                turn_origin = (case coalesce (map_option turn_origin existing) (map_option turn_origin snapshotTurn) of
                                 Some og \<Rightarrow> og | None \<Rightarrow> OriginOther JUndef),
                turn_prompt = pick turn_prompt, turn_attachmentIds = None, turn_startedAt = pick turn_startedAt,
                turn_endedAt = None, turn_usage = None, turn_durationMs = None, turn_error = None\<rparr>))"


section \<open>Live sessions\<close>

text \<open>
  A live entry owns its store, named by an identity; a heal timer is what its closure captured. An operation
  gives the new service and what it called the listeners with, in order.
\<close>

record live_entry =
  le_storeId :: nat
  le_store :: transcript_store
  le_agentBackfills :: "agent_id list"
  le_opsJournals :: "(agent_id, ops_journal) jsmap"

record heal_timer =
  ht_sessionId :: string
  ht_agentId :: agent_id
  ht_ordinals :: "number list"

record transcript_service =
  tv_live :: "(string, live_entry) jsmap"
  tv_opsListeners :: "(string, nat list) jsmap"
  tv_healTimers :: "(string, heal_timer) jsmap"

datatype service_call =
    OpsCall "nat list" change_event nat
  | RosterCall roster_calls

definition newTranscriptService :: transcript_service where
  "newTranscriptService = \<lparr>tv_live = [], tv_opsListeners = [], tv_healTimers = []\<rparr>"

definition put_entry :: "string \<Rightarrow> live_entry \<Rightarrow> transcript_service \<Rightarrow> transcript_service" where
  "put_entry sid entry sv = sv\<lparr>tv_live := jm_set sid entry (tv_live sv)\<rparr>"

definition dropSession :: "string \<Rightarrow> transcript_service \<Rightarrow> transcript_service" where
  "dropSession sid sv =
     \<lparr>tv_live = jm_delete sid (tv_live sv), tv_opsListeners = jm_delete sid (tv_opsListeners sv),
      tv_healTimers = filter (\<lambda>(key, _). take (length sid + 1) key \<noteq> sid @ '':'') (tv_healTimers sv)\<rparr>"

text \<open>
  \<open>bound\<close> are the agents of the session when the binding subscribes to them, \<open>None\<close> when the scope of the
  session was disposed in the middle; each gets a descriptor that is a new object.
\<close>

fun bind_agents :: "nat \<Rightarrow> agent_id list \<Rightarrow> transcript_store \<Rightarrow> transcript_store" where
  "bind_agents ref [] store = store"
| "bind_agents ref (i # ids) store =
     bind_agents (Suc ref) ids
       (fst (ts_ensureAgent store i
          (Some (Obj ref \<lparr>desc_agentId = i, desc_type = None, desc_parentAgentId = None, desc_label = None,
                          desc_createdAt = None, desc_disposedAt = None\<rparr>))))"

definition forSessionLive ::
  "bool \<Rightarrow> nat \<Rightarrow> nat \<Rightarrow> agent_id list option \<Rightarrow> string \<Rightarrow> transcript_service \<Rightarrow> transcript_service \<times> live_entry option" where
  "forSessionLive inMemory storeId ref bound sid sv =
     (case jm_get (tv_live sv) sid of
        Some entry \<Rightarrow> if inMemory then (sv, Some entry) else (dropSession sid sv, None)
      | None \<Rightarrow>
          if \<not> inMemory then (sv, None)
          else (case bound of
            None \<Rightarrow> (sv, None)
          | Some ids \<Rightarrow>
              let entry = \<lparr>le_storeId = storeId, le_store = bind_agents ref ids (newTranscriptStore sid),
                           le_agentBackfills = [], le_opsJournals = []\<rparr>
              in (put_entry sid entry sv, Some entry)))"

definition onSessionOps :: "nat \<Rightarrow> string \<Rightarrow> transcript_service \<Rightarrow> transcript_service" where
  "onSessionOps listener sid sv =
     sv\<lparr>tv_opsListeners := jm_set sid
        (js_set_add listener (case jm_get (tv_opsListeners sv) sid of Some ls \<Rightarrow> ls | None \<Rightarrow> [])) (tv_opsListeners sv)\<rparr>"

definition disposeOpsListener :: "nat \<Rightarrow> string \<Rightarrow> transcript_service \<Rightarrow> transcript_service" where
  "disposeOpsListener listener sid sv =
     (case jm_get (tv_opsListeners sv) sid of
        None \<Rightarrow> sv
      | Some ls \<Rightarrow>
          let rest = js_set_delete listener ls in
          sv\<lparr>tv_opsListeners := (if rest = [] then jm_delete sid (tv_opsListeners sv)
                                 else jm_set sid rest (tv_opsListeners sv))\<rparr>)"

definition journalOps :: "string \<Rightarrow> change_event \<Rightarrow> transcript_service \<Rightarrow> transcript_service \<times> nat" where
  "journalOps sid event sv =
     (case jm_get (tv_live sv) sid of
        None \<Rightarrow> (sv, 0)
      | Some entry \<Rightarrow>
          let j = (case jm_get (le_opsJournals entry) (change_agentId event) of Some j \<Rightarrow> j | None \<Rightarrow> new_ops_journal);
              (j2, seq) = journal_push (change_ops event) j
          in (put_entry sid (entry\<lparr>le_opsJournals := jm_set (change_agentId event) j2 (le_opsJournals entry)\<rparr>) sv, seq))"

definition dispatchOps :: "string \<Rightarrow> change_event \<Rightarrow> transcript_service \<Rightarrow> transcript_service \<times> service_call list" where
  "dispatchOps sid event sv =
     (let (sv2, seq) = journalOps sid event sv in
      case jm_get (tv_opsListeners sv2) sid of
        None \<Rightarrow> (sv2, [])
      | Some ls \<Rightarrow> (sv2, [OpsCall ls event seq]))"

definition getSeqWatermark :: "string \<Rightarrow> agent_id \<Rightarrow> transcript_service \<Rightarrow> nat" where
  "getSeqWatermark sid agentId sv =
     latest_seq (Option.bind (jm_get (tv_live sv) sid) (\<lambda>entry. jm_get (le_opsJournals entry) agentId))"

definition getOpsSince :: "bool \<Rightarrow> string \<Rightarrow> agent_id \<Rightarrow> nat \<Rightarrow> transcript_service \<Rightarrow> ops_catchup option" where
  "getOpsSince live sid agentId sinceSeq sv =
     (if \<not> live then None
      else Some (catchup_since
        (Option.bind (jm_get (tv_live sv) sid) (\<lambda>entry. jm_get (le_opsJournals entry) agentId)) sinceSeq))"

definition TERMINAL_TURN_STATES :: "turn_state list" where
  "TERMINAL_TURN_STATES = [TurnCompleted, TurnFailed, TurnCancelled]"

definition scheduleTurnHeal :: "string \<Rightarrow> agent_id \<Rightarrow> number \<Rightarrow> transcript_service \<Rightarrow> transcript_service" where
  "scheduleTurnHeal sid agentId ordinal sv =
     (let key = sid @ '':'' @ agentId in
      sv\<lparr>tv_healTimers := jm_set key
         (case jm_get (tv_healTimers sv) key of
            Some timer \<Rightarrow> timer\<lparr>ht_ordinals := js_set_add ordinal (ht_ordinals timer)\<rparr>
          | None \<Rightarrow> \<lparr>ht_sessionId = sid, ht_agentId = agentId, ht_ordinals = [ordinal]\<rparr>) (tv_healTimers sv)\<rparr>)"

fun schedule_heals :: "string \<Rightarrow> agent_id \<Rightarrow> transcript_op list \<Rightarrow> transcript_service \<Rightarrow> transcript_service" where
  "schedule_heals sid agentId [] sv = sv"
| "schedule_heals sid agentId (op # ops) sv =
     schedule_heals sid agentId ops
       (case op of
          TurnUpsert h \<Rightarrow>
            if turn_state h \<in> set TERMINAL_TURN_STATES then scheduleTurnHeal sid agentId (turn_ordinal h) sv else sv
        | _ \<Rightarrow> sv)"

definition handleLiveOps :: "string \<Rightarrow> change_event \<Rightarrow> transcript_service \<Rightarrow> transcript_service \<times> service_call list" where
  "handleLiveOps sid event sv =
     (let (sv2, calls) = dispatchOps sid event sv
      in (schedule_heals sid (change_agentId event) (change_ops event) sv2, calls))"

text \<open>The timer's turn: it is removed, and \<open>healEndedTurns\<close> starts on what it held.\<close>

definition healTimerFires :: "string \<Rightarrow> transcript_service \<Rightarrow> transcript_service \<times> heal_timer option" where
  "healTimerFires key sv = (sv\<lparr>tv_healTimers := jm_delete key (tv_healTimers sv)\<rparr>, jm_get (tv_healTimers sv) key)"

text \<open>\<open>transcript.apply(ops)\<close> on an agent of a live session\<close>

definition apply_to_agent :: "agent_id \<Rightarrow> transcript_op list \<Rightarrow> live_entry \<Rightarrow> live_entry \<times> applied_ops" where
  "apply_to_agent agentId ops entry =
     (let store = fst (ts_ensureAgent (le_store entry) agentId None);
          t = (case ts_getAgent store agentId of Some t \<Rightarrow> t | None \<Rightarrow> newAgentTranscript agentId);
          (t2, applied, _) = at_apply t ops
      in (entry\<lparr>le_store := store\<lparr>ts_agents := jm_set agentId t2 (ts_agents store)\<rparr>\<rparr>, applied))"

text \<open>The \<open>applyOps\<close> of \<open>coreBinding.ts\<close>: a batch with a gap is applied but goes no further.\<close>

definition binding_applyOps ::
  "string \<Rightarrow> agent_id \<Rightarrow> transcript_op list \<Rightarrow> transcript_service \<Rightarrow> transcript_service \<times> service_call list" where
  "binding_applyOps sid agentId ops sv =
     (if ops = [] then (sv, [])
      else case jm_get (tv_live sv) sid of
        None \<Rightarrow> (sv, [])
      | Some entry \<Rightarrow>
          let (entry2, applied) = apply_to_agent agentId ops entry; sv2 = put_entry sid entry2 sv
          in if applied_gap applied \<noteq> None then (sv2, [])
             else handleLiveOps sid \<lparr>change_agentId = agentId, change_ops = ops\<rparr> sv2)"

definition MAIN_AGENT_ID :: agent_id where
  "MAIN_AGENT_ID = ''main''"

definition with_store :: "string \<Rightarrow> transcript_store \<times> roster_calls \<Rightarrow> transcript_service \<Rightarrow> transcript_service \<times> service_call list" where
  "with_store sid r sv =
     (case jm_get (tv_live sv) sid of
        None \<Rightarrow> (sv, [])
      | Some entry \<Rightarrow> (put_entry sid (entry\<lparr>le_store := fst r\<rparr>) sv, if snd r = [] then [] else [RosterCall (snd r)]))"

text \<open>
  \<open>backfillAgent\<close> once the snapshot is read, for the store it was started for: the operations that replay it
  (each turn merged with the live one), and then the entry of the roster.
\<close>

definition backfill_ops :: "int option \<Rightarrow> agent_snapshot \<Rightarrow> transcript_item list \<Rightarrow> transcript_op list" where
  "backfill_ops activeTurnId snapshot items =
     snapshotToOps snapshot (\<lambda>t. healTurnOps t (getTurn items (turn_turnId t)))
     @ (case liveTurnOverlay activeTurnId items snapshot of None \<Rightarrow> [] | Some op \<Rightarrow> [op])"

definition agent_items :: "agent_id \<Rightarrow> transcript_store \<Rightarrow> transcript_item list" where
  "agent_items agentId store = (case ts_getAgent store agentId of Some t \<Rightarrow> at_getItems t | None \<Rightarrow> [])"

definition backfill_replay ::
  "int option \<Rightarrow> string \<Rightarrow> agent_id \<Rightarrow> agent_snapshot option \<Rightarrow> transcript_service \<Rightarrow> transcript_service \<times> service_call list" where
  "backfill_replay activeTurnId sid agentId snapshot sv =
     (case jm_get (tv_live sv) sid of
        None \<Rightarrow> (sv, [])
      | Some entry \<Rightarrow>
          let entry2 = entry\<lparr>le_store := fst (ts_ensureAgent (le_store entry) agentId None)\<rparr> in
          case snapshot of
            None \<Rightarrow> (put_entry sid entry2 sv, [])
          | Some snap \<Rightarrow>
              let ops = backfill_ops activeTurnId snap (agent_items agentId (le_store entry2))
              in dispatchOps sid \<lparr>change_agentId = agentId, change_ops = ops\<rparr>
                   (put_entry sid (fst (apply_to_agent agentId ops entry2)) sv))"

definition field_of :: "agent_descriptor obj option \<Rightarrow> (agent_descriptor \<Rightarrow> 'a option) \<Rightarrow> 'a option" where
  "field_of existing field = Option.bind existing (\<lambda>d. field (obj_val d))"

definition backfill_describe ::
  "nat \<Rightarrow> string \<Rightarrow> agent_id \<Rightarrow> agent_snapshot option \<Rightarrow> transcript_service \<Rightarrow> transcript_service \<times> service_call list" where
  "backfill_describe ref sid agentId snapshot sv =
     (case jm_get (tv_live sv) sid of
        None \<Rightarrow> (sv, [])
      | Some entry \<Rightarrow>
          let existing = find (\<lambda>d. desc_agentId (obj_val d) = agentId) (ts_agents_list (le_store entry));
              hasContent = (case snapshot of None \<Rightarrow> False
                            | Some snap \<Rightarrow> 0 < length (snap_items snap) \<or> 0 < length (snap_tasks snap))
          in if existing \<noteq> None \<or> hasContent then
               with_store sid (ts_describeAgent (le_store entry)
                 (Obj ref \<lparr>desc_agentId = agentId,
                           desc_type = Some (case field_of existing desc_type of Some ty \<Rightarrow> ty
                                             | None \<Rightarrow> if agentId = MAIN_AGENT_ID then AgentMain else AgentSub),
                           desc_parentAgentId = field_of existing desc_parentAgentId, desc_label = field_of existing desc_label,
                           desc_createdAt = field_of existing desc_createdAt, desc_disposedAt = None\<rparr>)) sv
             else (sv, []))"

definition backfillAgent ::
  "nat \<Rightarrow> int option \<Rightarrow> string \<Rightarrow> nat \<Rightarrow> agent_id \<Rightarrow> agent_snapshot option \<Rightarrow> transcript_service
   \<Rightarrow> transcript_service \<times> service_call list" where
  "backfillAgent ref activeTurnId sid storeId agentId snapshot sv =
     (if map_option le_storeId (jm_get (tv_live sv) sid) \<noteq> Some storeId then (sv, [])
      else
        let (sv2, calls) = backfill_replay activeTurnId sid agentId snapshot sv;
            (sv3, more) = backfill_describe ref sid agentId snapshot sv2
        in (sv3, calls @ more))"

text \<open>\<open>healEndedTurns\<close> once the snapshot is read, for the store it was started for.\<close>

definition heal_ops :: "number list \<Rightarrow> agent_snapshot \<Rightarrow> transcript_item list \<Rightarrow> transcript_op list" where
  "heal_ops ordinals snapshot items =
     concat (map (\<lambda>e. case e of
         ITurn t \<Rightarrow> if turn_ordinal t \<in> set ordinals then healTurnOps t (getTurn items (turn_turnId t)) else []
       | _ \<Rightarrow> []) (snap_items snapshot))"

definition healEndedTurns ::
  "string \<Rightarrow> nat \<Rightarrow> agent_id \<Rightarrow> number list \<Rightarrow> agent_snapshot option \<Rightarrow> transcript_service
   \<Rightarrow> transcript_service \<times> service_call list" where
  "healEndedTurns sid storeId agentId ordinals snapshot sv =
     (case (snapshot, jm_get (tv_live sv) sid) of
        (Some snap, Some entry) \<Rightarrow>
          if le_storeId entry \<noteq> storeId then (sv, [])
          else (case ts_getAgent (le_store entry) agentId of
            None \<Rightarrow> (sv, [])
          | Some t \<Rightarrow>
              let ops = heal_ops ordinals snap (at_getItems t)
              in if ops = [] then (sv, [])
                 else dispatchOps sid \<lparr>change_agentId = agentId, change_ops = ops\<rparr>
                        (put_entry sid (fst (apply_to_agent agentId ops entry)) sv))
      | _ \<Rightarrow> (sv, []))"

text \<open>Which reads \<open>ensureAgentHistory\<close> starts: one per agent, and none for the main agent.\<close>

definition ensureAgentHistory :: "string \<Rightarrow> agent_id \<Rightarrow> transcript_service \<Rightarrow> transcript_service \<times> bool" where
  "ensureAgentHistory sid agentId sv =
     (case jm_get (tv_live sv) sid of
        None \<Rightarrow> (sv, False)
      | Some entry \<Rightarrow>
          if agentId = MAIN_AGENT_ID \<or> agentId \<in> set (le_agentBackfills entry) then (sv, False)
          else (put_entry sid (entry\<lparr>le_agentBackfills := le_agentBackfills entry @ [agentId]\<rparr>) sv, True))"

end
