(* ===== verification/TranscriptChannel.thy ===== *)
theory TranscriptChannel
  imports EventStream TranscriptSync
begin

text \<open>
  The transcript channel of \<open>sessionEventBroadcaster.ts\<close> on top of \<open>TranscriptSync\<close>: the baseline or the
  missed batches a connection gets when it joins, the fan-out of later batches at its grade, and the phone client of
  \<open>apps/mobile/src/runtime.ts\<close> that consumes them. \<open>subscribeTranscript\<close> is split where it waits for the
  histories; marking the connection as seeded is a step of its own, after the promise has resolved.
\<close>

section \<open>Frames\<close>

datatype transcript_msg =
    ResetMsg agent_id agent_snapshot bool nat
  | OpsMsg agent_id "transcript_op list" nat

record transcript_envelope =
  tx_seq :: nat
  tx_epoch :: string
  tx_msg :: transcript_msg

definition buildTranscriptEnvelope :: "session_state \<Rightarrow> transcript_msg \<Rightarrow> transcript_envelope" where
  "buildTranscriptEnvelope st msg = \<lparr>tx_seq = jo_seq (ss_journal st), tx_epoch = jo_epoch (ss_journal st), tx_msg = msg\<rparr>"

definition TRANSCRIPT_RESET_TAIL_TURNS :: int where
  "TRANSCRIPT_RESET_TAIL_TURNS = 0"

definition sendTranscriptReset ::
  "session_state \<Rightarrow> agent_transcript \<Rightarrow> transcript_grade \<Rightarrow> nat \<Rightarrow> transcript_envelope" where
  "sendTranscriptReset st t grade watermark =
     (let snapshot = redactSnapshotForGrade grade (at_snapshot t (Some TRANSCRIPT_RESET_TAIL_TURNS))
      in buildTranscriptEnvelope st
           (ResetMsg (at_agentId t) snapshot (case snap_hasMoreOlder snapshot of Some b \<Rightarrow> b | None \<Rightarrow> False) watermark))"

text \<open>Batches of an agent clipped to a grade; a batch with nothing left is not sent.\<close>

definition clip_batches :: "transcript_grade \<Rightarrow> (nat \<times> transcript_op list) list \<Rightarrow> (nat \<times> transcript_op list) list" where
  "clip_batches grade bs = filter (\<lambda>(_, ops). ops \<noteq> []) (map (\<lambda>(seq, ops). (seq, filterOpsForGrade grade ops)) bs)"

definition replayTranscriptOps ::
  "session_state \<Rightarrow> agent_id \<Rightarrow> transcript_grade \<Rightarrow> op_batch list \<Rightarrow> transcript_envelope list" where
  "replayTranscriptOps st agentId grade batches =
     map (\<lambda>(seq, ops). buildTranscriptEnvelope st (OpsMsg agentId ops seq))
       (clip_batches grade (map (\<lambda>b. (ba_seq b, ba_ops b)) batches))"

section \<open>Fan-out\<close>

text \<open>The listener of \<open>ensureTranscriptStream\<close> on the operations of the session\<close>

definition fan_out :: "session_state \<Rightarrow> agent_id \<Rightarrow> transcript_op list \<Rightarrow> nat \<Rightarrow> (string \<times> transcript_envelope) list" where
  "fan_out st agentId ops seq =
     List.map_filter
       (\<lambda>(t, sub).
          if t \<notin> set (ss_transcriptSeeded st) then None
          else
            let filtered = filterOpsForGrade (gradeFor (sub_transcriptGrades sub) agentId) ops in
            if filtered = [] then None
            else Some (t, buildTranscriptEnvelope st (OpsMsg agentId filtered seq)))
       (ss_targets st)"

text \<open>The listener on the roster: a baseline of every new agent to every seeded connection that wants it.\<close>

definition reset_targets ::
  "session_state \<Rightarrow> transcript_service \<Rightarrow> string \<Rightarrow> agent_id \<Rightarrow> agent_transcript \<Rightarrow> (string \<times> transcript_envelope) list" where
  "reset_targets st sv sid agentId t =
     List.map_filter
       (\<lambda>(c, sub).
          if c \<notin> set (ss_transcriptSeeded st) then None
          else
            let grade = gradeFor (sub_transcriptGrades sub) agentId in
            if grade = GradeOff then None
            else Some (c, sendTranscriptReset st t grade (getSeqWatermark sid (at_agentId t) sv)))
       (ss_targets st)"

fun roster_change ::
  "string \<Rightarrow> transcript_service \<Rightarrow> transcript_store \<Rightarrow> agent_descriptor obj list \<Rightarrow> session_state
   \<Rightarrow> session_state \<times> (string \<times> transcript_envelope) list" where
  "roster_change sid sv store [] st = (st, [])"
| "roster_change sid sv store (d # ds) st =
     (case ss_transcriptStream st of
        None \<Rightarrow> (st, [])
      | Some stream \<Rightarrow>
          let agentId = desc_agentId (obj_val d) in
          if agentId \<in> set (str_knownAgents stream) then roster_change sid sv store ds st
          else
            let st2 = st\<lparr>ss_transcriptStream := Some (stream\<lparr>str_knownAgents := js_set_add agentId (str_knownAgents stream)\<rparr>)\<rparr>;
                sends = (case ts_getAgent store agentId of None \<Rightarrow> [] | Some t \<Rightarrow> reset_targets st2 sv sid agentId t);
                (st3, more) = roster_change sid sv store ds st2
            in (st3, sends @ more))"

section \<open>Joining\<close>

text \<open>\<open>subscribeTranscript\<close> up to where it waits: the agents whose history it asks for.\<close>

definition backfill_agents :: "grade_spec \<Rightarrow> agent_id list \<Rightarrow> agent_id list" where
  "backfill_agents spec ids =
     fold (\<lambda>a acc. if gradeFor (Some spec) a \<noteq> GradeOff then js_set_add a acc else acc) ids
       (js_set_of (filter (\<lambda>a. a \<noteq> ''*'' \<and> gradeFor (Some spec) a \<noteq> GradeOff) (jm_keys spec)))"

definition roster_ids :: "transcript_store \<Rightarrow> agent_id list" where
  "roster_ids store = map (\<lambda>d. desc_agentId (obj_val d)) (ts_agents_list store)"

text \<open>
  \<open>ensureTranscriptStream\<close>: \<open>listener\<close> is the identity of the closures it registers, with the service (only
  while the session is live there) and with the roster of the store.
\<close>

definition ensureTranscriptStream ::
  "nat \<Rightarrow> string \<Rightarrow> nat \<Rightarrow> transcript_store \<Rightarrow> transcript_service \<times> session_state \<Rightarrow> transcript_service \<times> session_state" where
  "ensureTranscriptStream listener sid storeId store p =
     (case p of (sv, st) \<Rightarrow>
        if map_option str_store (ss_transcriptStream st) = Some storeId then (sv, st)
        else ((case jm_get (tv_live sv) sid of
                 None \<Rightarrow> sv
               | Some entry \<Rightarrow>
                   onSessionOps listener sid
                     (if le_storeId entry = storeId
                      then put_entry sid (entry\<lparr>le_store := ts_onRosterChange (le_store entry) listener\<rparr>) sv else sv)),
              st\<lparr>ss_transcriptStream := Some \<lparr>str_store = storeId, str_knownAgents = js_set_of (roster_ids store)\<rparr>\<rparr>))"

definition since_cursor :: "(string, nat) jsmap option \<Rightarrow> agent_id \<Rightarrow> nat option" where
  "since_cursor since a = Option.bind since (\<lambda>m. coalesce (jm_get m a) (jm_get m ''*''))"

text \<open>What one agent of the roster owes the connection: the missed batches, a baseline, or nothing.\<close>

definition join_agent ::
  "string \<Rightarrow> bool \<Rightarrow> transcript_service \<Rightarrow> session_state \<Rightarrow> transcript_store \<Rightarrow> grade_spec \<Rightarrow> grade_spec option
   \<Rightarrow> (string, nat) jsmap option \<Rightarrow> agent_id \<Rightarrow> transcript_envelope list" where
  "join_agent sid live sv st store currentSpec prev since a =
     (let grade = gradeFor (Some currentSpec) a in
      if grade = GradeOff then []
      else case ts_getAgent store a of
        None \<Rightarrow> []
      | Some t \<Rightarrow>
          let caught = (case since_cursor since a of
                          None \<Rightarrow> None
                        | Some n \<Rightarrow>
                            (case getOpsSince live sid a n sv of
                               Some c \<Rightarrow> if oc_complete c then Some (oc_batches c) else None
                             | None \<Rightarrow> None))
          in (case caught of
                Some batches \<Rightarrow> replayTranscriptOps st a grade batches
              | None \<Rightarrow>
                  if \<not> needsResetOnTransition (gradeFor prev a) grade then []
                  else [sendTranscriptReset st t grade (getSeqWatermark sid (at_agentId t) sv)]))"

text \<open>
  \<open>subscribeTranscript\<close> after it waited, with the store it took before. The grades are those of the
  subscription that is current now.
\<close>

definition subscribeTranscript_lands ::
  "nat \<Rightarrow> string \<Rightarrow> bool \<Rightarrow> nat \<Rightarrow> transcript_store \<Rightarrow> string \<Rightarrow> grade_spec option \<Rightarrow> (string, nat) jsmap option
   \<Rightarrow> transcript_service \<times> session_state \<Rightarrow> (transcript_service \<times> session_state) \<times> transcript_envelope list" where
  "subscribeTranscript_lands listener sid live storeId store t prev since p =
     (case sub_grades (jm_get (ss_targets (snd p)) t) of
        None \<Rightarrow> (p, [])
      | Some currentSpec \<Rightarrow>
          let (sv, st) = ensureTranscriptStream listener sid storeId store p
          in ((sv, st), concat (map (join_agent sid live sv st store currentSpec prev since) (roster_ids store))))"

section \<open>The phone client\<close>

text \<open>
  What \<open>MobileRuntime\<close> keeps of the main agent of the selected session: the replica and the cursor of the last
  batch it saw.
\<close>

record mobile_agent =
  ma_replica :: agent_transcript
  ma_cursor :: "nat option"

definition loadTranscript :: "agent_snapshot \<Rightarrow> nat option \<Rightarrow> mobile_agent \<Rightarrow> mobile_agent" where
  "loadTranscript page seq m =
     m\<lparr>ma_replica := fst (at_receive (ma_replica m) [Reset (at_agentId (ma_replica m)) page]),
       ma_cursor := (case seq of Some n \<Rightarrow> Some n | None \<Rightarrow> ma_cursor m)\<rparr>"

fun onTranscriptEvent :: "transcript_msg \<Rightarrow> mobile_agent \<Rightarrow> mobile_agent" where
  "onTranscriptEvent (ResetMsg agentId snapshot has_more seq) m =
     (if agentId \<noteq> MAIN_AGENT_ID then m
      else if snap_items snapshot = [] then m\<lparr>ma_cursor := Some seq\<rparr>
      else m\<lparr>ma_replica := fst (at_apply (ma_replica m) [Reset agentId snapshot]), ma_cursor := Some seq\<rparr>)"
| "onTranscriptEvent (OpsMsg agentId ops seq) m =
     (if agentId \<noteq> MAIN_AGENT_ID then m
      else m\<lparr>ma_replica := fst (at_apply (ma_replica m) ops), ma_cursor := Some seq\<rparr>)"

text \<open>The cursor it subscribes with\<close>

definition subscribe_cursor :: "mobile_agent \<Rightarrow> (string, nat) jsmap option" where
  "subscribe_cursor m = map_option (\<lambda>n. [(MAIN_AGENT_ID, n)]) (ma_cursor m)"

text \<open>\<open>deriveActivity\<close>: the newest turn that is not over, its newest running step, its newest running tool.\<close>

fun running_tool :: "transcript_frame \<Rightarrow> string option" where
  "running_tool (FTool f) = (if tc_state f = ToolRunning then Some (tc_name f) else None)"
| "running_tool _ = None"

fun busy_turn :: "transcript_item \<Rightarrow> transcript_turn option" where
  "busy_turn (ITurn t) = (if turn_state t = TurnRunning \<or> turn_state t = TurnQueued then Some t else None)"
| "busy_turn _ = None"

datatype mobile_activity = UsingTool string | Thinking | Queued | Working

definition deriveActivity :: "transcript_item list \<Rightarrow> mobile_activity option" where
  "deriveActivity items =
     (case List.map_filter busy_turn (rev items) of
        [] \<Rightarrow> None
      | t # _ \<Rightarrow>
          Some (case find (\<lambda>st. step_state st = StepRunning) (rev (turn_steps t)) of
             Some st \<Rightarrow>
               (case List.map_filter running_tool (rev (step_frames st)) of
                  name # _ \<Rightarrow> UsingTool name
                | [] \<Rightarrow> Thinking)
           | None \<Rightarrow> if turn_state t = TurnQueued then Queued else Working))"

end
