(* ===== verification/SyncLemmas.thy ===== *)
theory SyncLemmas
  imports TranscriptSync
begin

text \<open>
  The calculus of \<open>TranscriptSync\<close>: replaying a snapshot into an empty state rebuilds it, the replay leaves the
  entities it does not carry alone, a repair does to each frame what \<open>heal_frame\<close> says, and the journal of a
  history answers exactly with its tail.
\<close>

section \<open>Replaying a snapshot\<close>

lemma run_ops_append [simp]: "run_ops s (xs @ ys) = run_ops (run_ops s xs) ys"
  by (simp add: run_ops_def)

lemma replaceTurn_absent: "getTurn items i = None \<Longrightarrow> replaceTurn items i f = items"
  unfolding replaceTurn_def
  by (rule map_id_on) (auto simp: getTurn_None set_turns split: transcript_item.splits)

lemma getTurn_append: "getTurn (xs @ ys) i = (case getTurn xs i of Some t \<Rightarrow> Some t | None \<Rightarrow> getTurn ys i)"
  by (simp add: getTurn_turns find_append split: option.split)

lemma getTurn_single [simp]: "getTurn [ITurn t] i = (if turn_turnId t = i then Some t else None)"
  by (simp add: getTurn_turns)

lemma put_turn_last:
  assumes "getTurn pre i = None" "turn_turnId t = i"
  shows "put_turn (pre @ [ITurn t]) i nt = pre @ [ITurn nt]"
proof -
  have "replaceTurn (pre @ [ITurn t]) i f = replaceTurn pre i f @ [ITurn (f t)]" for f
    using assms(2) by (simp add: replaceTurn_def)
  then show ?thesis using assms by (simp add: put_turn_def getTurn_append replaceTurn_absent)
qed

lemma turn_or_skeleton_last:
  "getTurn pre i = None \<Longrightarrow> turn_turnId t = i \<Longrightarrow> turn_or_skeleton (pre @ [ITurn t]) i = t"
  by (simp add: turn_or_skeleton_def getTurn_append)

lemma find_step_append:
  "find_step (xs @ ys) i = (case find_step xs i of Some st \<Rightarrow> Some st | None \<Rightarrow> find_step ys i)"
  by (simp add: find_step_def find_append split: option.split)

lemma put_step_last:
  assumes "find_step steps i = None" "step_stepId st = i"
  shows "put_step (steps @ [st]) i nst = steps @ [nst]"
proof -
  have "map (\<lambda>s. if step_stepId s = i then nst else s) steps = steps"
    using assms(1) by (intro map_id_on) (auto simp: find_step_None image_iff)
  moreover have "find_step [st] i = Some st" using assms(2) by (simp add: find_step_def)
  ultimately show ?thesis using assms by (simp add: put_step_def find_step_append)
qed

lemma put_frame_new: "find_frame frames (frame_id f) = None \<Longrightarrow> put_frame frames f = frames @ [f]"
  by (simp add: put_frame_def)

lemma replay_frames:
  assumes "getTurn pre tid = None" "turn_turnId t = tid"
    and "turn_steps t = done @ [st]" "find_step done sid = None" "step_stepId st = sid"
    and "distinct (map frame_id (step_frames st @ fs))"
  shows "run_ops (s\<lparr>st_items := pre @ [ITurn t]\<rparr>) (map (FrameUpsert tid sid) fs)
       = s\<lparr>st_items := pre @ [ITurn (t\<lparr>turn_steps := done @ [st\<lparr>step_frames := step_frames st @ fs\<rparr>]\<rparr>)]\<rparr>"
  using assms(2,3,5,6)
proof (induction fs arbitrary: t st)
  case Nil
  then show ?case by simp
next
  case (Cons f fs)
  let ?st = "st\<lparr>step_frames := step_frames st @ [f]\<rparr>"
  let ?t = "t\<lparr>turn_steps := done @ [?st]\<rparr>"
  have st: "step_or_skeleton t sid tid = st"
    using Cons.prems assms(4) by (simp add: step_or_skeleton_def find_step_append) (simp add: find_step_def)
  have nf: "find_frame (step_frames st) (frame_id f) = None"
    using Cons.prems(4) by (auto simp: find_frame_None)
  have "res_state (applyFrameUpsert (s\<lparr>st_items := pre @ [ITurn t]\<rparr>) tid sid f) = s\<lparr>st_items := pre @ [ITurn ?t]\<rparr>"
    using assms(1,4) Cons.prems
    by (simp add: applyFrameUpsert_def Let_def turn_or_skeleton_last st nf put_frame_new put_step_last put_turn_last)
  moreover have "run_ops (s\<lparr>st_items := pre @ [ITurn ?t]\<rparr>) (map (FrameUpsert tid sid) fs)
       = s\<lparr>st_items := pre @ [ITurn (?t\<lparr>turn_steps := done @ [?st\<lparr>step_frames := step_frames ?st @ fs\<rparr>]\<rparr>)]\<rparr>"
    using Cons.prems by (intro Cons.IH) auto
  ultimately show ?case by simp
qed

lemma step_header_eta: "stepHeaderToStep (step_header.truncate st) (step_frames st) = st"
  by (simp add: stepHeaderToStep_def step_header.defs transcript_step.defs)

lemma stepHeaderToStep_frames: "stepHeaderToStep h fs\<lparr>step_frames := gs\<rparr> = stepHeaderToStep h gs"
  by (simp add: stepHeaderToStep_def step_header.defs transcript_step.defs)

lemma turnHeaderToTurn_steps: "turnHeaderToTurn h ss\<lparr>turn_steps := ts\<rparr> = turnHeaderToTurn h ts"
  by (simp add: turnHeaderToTurn_def turn_header.defs transcript_turn.defs)

lemma truncate_step_id [simp]:
  "step_stepId (step_header.truncate st) = step_stepId st" "step_ordinal (step_header.truncate st) = step_ordinal st"
  by (simp_all add: step_header.defs)

lemma truncate_turn_id [simp]:
  "turn_turnId (turn_header.truncate t) = turn_turnId t" "turn_ordinal (turn_header.truncate t) = turn_ordinal t"
  by (simp_all add: turn_header.defs)

lemma sort_key_snoc: "sorted (map k xs) \<Longrightarrow> (\<And>x. x \<in> set xs \<Longrightarrow> k x \<le> k y) \<Longrightarrow> sort_key k (xs @ [y]) = xs @ [y]"
  for k :: "'a \<Rightarrow> 'b::linorder"
  by (rule sort_key_id_if_sorted) (auto simp: sorted_append)

lemma replay_step:
  assumes "getTurn pre tid = None" "turn_turnId t = tid" "find_step (turn_steps t) (step_stepId st) = None"
    and "sorted (map step_ordinal (turn_steps t @ [st]))" "distinct (map frame_id (step_frames st))"
  shows "run_ops (s\<lparr>st_items := pre @ [ITurn t]\<rparr>) (step_ops tid st)
       = s\<lparr>st_items := pre @ [ITurn (t\<lparr>turn_steps := turn_steps t @ [st]\<rparr>)]\<rparr>"
proof -
  let ?st = "stepHeaderToStep (step_header.truncate st) []"
  let ?t = "t\<lparr>turn_steps := turn_steps t @ [?st]\<rparr>"
  have "sort_key step_ordinal (turn_steps t @ [?st]) = turn_steps t @ [?st]"
    using assms(4) by (intro sort_key_snoc) (auto simp: sorted_append)
  then have "res_state (applyStepUpsert (s\<lparr>st_items := pre @ [ITurn t]\<rparr>) tid (step_header.truncate st))
      = s\<lparr>st_items := pre @ [ITurn ?t]\<rparr>"
    using assms by (simp add: applyStepUpsert_def Let_def turn_or_skeleton_last put_turn_last)
  moreover have "run_ops (s\<lparr>st_items := pre @ [ITurn ?t]\<rparr>) (map (FrameUpsert tid (step_stepId st)) (step_frames st))
      = s\<lparr>st_items := pre @ [ITurn (?t\<lparr>turn_steps := turn_steps t @ [?st\<lparr>step_frames := step_frames ?st @ step_frames st\<rparr>]\<rparr>)]\<rparr>"
    using assms by (intro replay_frames) auto
  ultimately show ?thesis by (simp add: step_ops_def stepHeaderToStep_frames step_header_eta)
qed

lemma replay_steps:
  assumes "getTurn pre tid = None" "turn_turnId t = tid" "wf_steps (turn_steps t @ sts)"
  shows "run_ops (s\<lparr>st_items := pre @ [ITurn t]\<rparr>) (concat (map (step_ops tid) sts))
       = s\<lparr>st_items := pre @ [ITurn (t\<lparr>turn_steps := turn_steps t @ sts\<rparr>)]\<rparr>"
  using assms(2,3)
proof (induction sts arbitrary: t)
  case Nil
  then show ?case by simp
next
  case (Cons st sts)
  have "run_ops (s\<lparr>st_items := pre @ [ITurn t]\<rparr>) (step_ops tid st)
       = s\<lparr>st_items := pre @ [ITurn (t\<lparr>turn_steps := turn_steps t @ [st]\<rparr>)]\<rparr>"
    using assms(1) Cons.prems by (intro replay_step) (auto simp: wf_steps_def find_step_None sorted_append)
  moreover have "wf_steps (turn_steps (t\<lparr>turn_steps := turn_steps t @ [st]\<rparr>) @ sts)" using Cons.prems by simp
  ultimately show ?case using Cons.IH [of "t\<lparr>turn_steps := turn_steps t @ [st]\<rparr>"] Cons.prems(1) by simp
qed

lemma insert_before_end: "(\<And>x. x \<in> set xs \<Longrightarrow> \<not> P x) \<Longrightarrow> insert_before P y xs = xs @ [y]"
  by (induction xs) auto

lemma replay_turn:
  assumes "getTurn pre (turn_turnId t) = None" "\<And>u. u \<in> set (turns pre) \<Longrightarrow> turn_ordinal u \<le> turn_ordinal t"
    and "wf_steps (turn_steps t)"
  shows "run_ops (s\<lparr>st_items := pre\<rparr>) (snapshotTurnOps t) = s\<lparr>st_items := pre @ [ITurn t]\<rparr>"
proof -
  let ?h = "turnHeaderToTurn (turn_header.truncate t) []"
  have "\<not> turn_after (turn_ordinal t) e" if "e \<in> set pre" for e
    using assms(2) that by (cases e) (auto simp: set_turns not_less)
  then have "insertTurn pre ?h = pre @ [ITurn ?h]" by (simp add: insertTurn_def insert_before_end)
  then have "res_state (applyTurnUpsert (s\<lparr>st_items := pre\<rparr>) (turn_header.truncate t)) = s\<lparr>st_items := pre @ [ITurn ?h]\<rparr>"
    using assms(1) by (simp add: applyTurnUpsert_def)
  moreover have "run_ops (s\<lparr>st_items := pre @ [ITurn ?h]\<rparr>) (concat (map (step_ops (turn_turnId t)) (turn_steps t)))
      = s\<lparr>st_items := pre @ [ITurn (?h\<lparr>turn_steps := turn_steps ?h @ turn_steps t\<rparr>)]\<rparr>"
    using assms by (intro replay_steps) auto
  ultimately show ?thesis by (simp add: snapshotTurnOps_def turnHeaderToTurn_steps turn_header_eta)
qed

text \<open>Standalone items anchored past every turn land at the end, in order.\<close>

lemma replay_standalone:
  assumes "list_all (\<lambda>e. \<not> is_turn e) es" "distinct (map itemId (pre @ es))"
    and "\<And>n u. anchor = Some n \<Longrightarrow> u \<in> set (turns pre) \<Longrightarrow> turn_ordinal u < n"
  shows "run_ops (s\<lparr>st_items := pre\<rparr>) (flush_pending es anchor) = s\<lparr>st_items := pre @ es\<rparr>"
  using assms
proof (induction es arbitrary: pre)
  case Nil
  then show ?case by (simp add: flush_pending_def)
next
  case (Cons e es)
  have "itemId e \<notin> itemId ` set pre" using Cons.prems(2) by simp
  then have new: "\<not> (\<exists>x \<in> set pre. itemId x = itemId e)" by (metis imageI)
  have "\<not> turn_at_or_after n x" if "anchor = Some n" "x \<in> set pre" for n x
    using Cons.prems(3) [OF that(1)] that(2) by (cases x) (auto simp: set_turns not_le)
  then have up: "res_state (applyItemUpsert (s\<lparr>st_items := pre\<rparr>) e (itemId e) anchor) = s\<lparr>st_items := pre @ [e]\<rparr>"
    using new by (auto simp: applyItemUpsert_def insert_before_end split: option.split)
  have "run_ops (s\<lparr>st_items := pre\<rparr>) (standalone_op anchor e) = s\<lparr>st_items := pre @ [e]\<rparr>"
    using Cons.prems(1) up by (cases e) simp_all
  moreover have "turns (pre @ [e]) = turns pre" using Cons.prems(1) by (cases e) simp_all
  ultimately show ?case using Cons.IH [of "pre @ [e]"] Cons.prems by (simp add: flush_pending_def)
qed

definition replayable :: "transcript_item list \<Rightarrow> bool" where
  "replayable items \<longleftrightarrow>
     distinct (map itemId items) \<and> sorted_wrt (<) (map turn_ordinal (turns items))
     \<and> (\<forall>t \<in> set (turns items). wf_steps (turn_steps t))"

lemma getTurn_distinct: "distinct (map itemId (pre @ ITurn t # es)) \<Longrightarrow> getTurn pre (turn_turnId t) = None"
  by (force simp: getTurn_None set_turns)

lemma turns_standalone: "list_all (\<lambda>e. \<not> is_turn e) es \<Longrightarrow> turns es = []"
proof (induction es)
  case (Cons e es)
  then show ?case by (cases e) simp_all
qed simp

lemma replay_items:
  assumes "replayable (pre @ pending @ es)" "list_all (\<lambda>e. \<not> is_turn e) pending"
    and "lastO = (if turns pre = [] then None else Some (turn_ordinal (last (turns pre))))"
  shows "run_ops (s\<lparr>st_items := pre\<rparr>) (snapshot_items_ops snapshotTurnOps es pending lastO)
       = s\<lparr>st_items := pre @ pending @ es\<rparr>"
  using assms
proof (induction es arbitrary: pre pending lastO)
  case Nil
  have lt: "turn_ordinal u \<le> turn_ordinal (last (turns pre))" if "u \<in> set (turns pre)" for u
  proof -
    have "sorted (map turn_ordinal (turns pre))"
      using Nil.prems(1) by (auto simp: replayable_def sorted_wrt_append intro: strict_sorted_imp_sorted)
    moreover have ne: "turns pre \<noteq> []" using that by auto
    ultimately have "sorted (map turn_ordinal (butlast (turns pre) @ [last (turns pre)]))" by simp
    then have "\<forall>v \<in> set (butlast (turns pre)). turn_ordinal v \<le> turn_ordinal (last (turns pre))"
      by (simp only: map_append sorted_append) simp
    moreover have "u \<in> set (butlast (turns pre) @ [last (turns pre)])" using that ne by simp
    ultimately show ?thesis by auto
  qed
  then show ?case
    using Nil.prems by (auto intro!: replay_standalone simp: replayable_def dest!: lt)
next
  case (Cons e es)
  show ?case
  proof (cases "is_turn e")
    case True
    then obtain t where e: "e = ITurn t" by (cases e) auto
    have smaller: "turn_ordinal u < turn_ordinal t" if "u \<in> set (turns pre)" for u
      using Cons.prems(1) that e by (auto simp: replayable_def sorted_wrt_append)
    have tp: "turns pending = []" by (rule turns_standalone [OF Cons.prems(2)])
    have "run_ops (s\<lparr>st_items := pre\<rparr>) (flush_pending pending (Some (turn_ordinal t))) = s\<lparr>st_items := pre @ pending\<rparr>"
      using Cons.prems smaller by (intro replay_standalone) (auto simp: replayable_def)
    moreover have "run_ops (s\<lparr>st_items := pre @ pending\<rparr>) (snapshotTurnOps t) = s\<lparr>st_items := (pre @ pending) @ [ITurn t]\<rparr>"
    proof (rule replay_turn)
      show "getTurn (pre @ pending) (turn_turnId t) = None"
        using Cons.prems(1) e by (intro getTurn_distinct [of _ _ es]) (simp add: replayable_def)
    qed (use Cons.prems(1) e smaller tp in \<open>auto simp: replayable_def less_imp_le\<close>)
    moreover have "run_ops (s\<lparr>st_items := pre @ pending @ [ITurn t]\<rparr>)
        (snapshot_items_ops snapshotTurnOps es [] (Some (turn_ordinal t))) = s\<lparr>st_items := (pre @ pending @ [ITurn t]) @ [] @ es\<rparr>"
      using Cons.prems(1) e by (intro Cons.IH) simp_all
    ultimately show ?thesis using e by simp
  next
    case False
    then have "snapshot_items_ops snapshotTurnOps (e # es) pending lastO = snapshot_items_ops snapshotTurnOps es (pending @ [e]) lastO"
      by (cases e) simp_all
    moreover have "run_ops (s\<lparr>st_items := pre\<rparr>) (snapshot_items_ops snapshotTurnOps es (pending @ [e]) lastO)
        = s\<lparr>st_items := pre @ (pending @ [e]) @ es\<rparr>"
      using Cons.prems False by (intro Cons.IH) simp_all
    ultimately show ?thesis by simp
  qed
qed


lemma run_tasks:
  "run_ops (s\<lparr>st_tasks := m\<rparr>) (map TaskUpsert ts) = s\<lparr>st_tasks := fold (\<lambda>t. jm_set (task_taskId t) t) ts m\<rparr>"
  if "distinct (map task_taskId ts)" "\<forall>t \<in> set ts. jm_get m (task_taskId t) = None"
  using that
proof (induction ts arbitrary: m)
  case (Cons t ts)
  have "run_ops (s\<lparr>st_tasks := jm_set (task_taskId t) t m\<rparr>) (map TaskUpsert ts)
      = s\<lparr>st_tasks := fold (\<lambda>t. jm_set (task_taskId t) t) ts (jm_set (task_taskId t) t m)\<rparr>"
    using Cons.prems by (intro Cons.IH) (auto simp: image_iff)
  then show ?case using Cons.prems by (simp add: applyTaskUpsert_def)
qed simp

lemma spread_as_key: "spread_key (as_key v) None = v"
  by (cases v) (simp_all add: as_key_def)

lemma merge_as_nullable: "merge_mode (as_nullable v) None = v"
  by (cases v) (simp_all add: as_nullable_def)

lemma replay_meta:
  "res_state (applyMetaMerge (s\<lparr>st_meta := EMPTY_META\<rparr>) (meta_as_merge m))
   = s\<lparr>st_meta := m\<lparr>meta_modes := drop_empty_modes (meta_modes m)\<rparr>\<rparr>"
proof (cases m)
  case (fields modes activity agent)
  have "spread_status None (status_as_merge a) = a" for a
    by (cases a) (simp add: spread_status_def status_as_merge_def EMPTY_STATUS_def spread_as_key)
  moreover have "merged_modes None (map_option
      (\<lambda>mm. \<lparr>mm_plan = as_nullable (modes_plan mm), mm_swarm = as_nullable (modes_swarm mm)\<rparr>) modes) = modes"
    by (cases modes) (auto simp: merged_modes_def merge_as_nullable)
  moreover have "modes = None \<Longrightarrow> drop_empty_modes modes = None" by (simp add: drop_empty_modes_def)
  ultimately show ?thesis
    unfolding fields
    by (cases activity; cases agent; cases modes)
      (simp_all add: applyMetaMerge_def Let_def meta_as_merge_def EMPTY_META_def)
qed

lemma replay_snapshot:
  assumes "replayable (snap_items snap)" "distinct (map task_taskId (snap_tasks snap))"
  shows "run_ops EMPTY_AGENT_STATE (snapshotToOps snap snapshotTurnOps)
       = EMPTY_AGENT_STATE\<lparr>st_items := snap_items snap, st_tasks := jm_of_values task_taskId (snap_tasks snap),
           st_meta := (snap_meta snap)\<lparr>meta_modes := drop_empty_modes (meta_modes (snap_meta snap))\<rparr>\<rparr>"
proof -
  let ?s = "EMPTY_AGENT_STATE\<lparr>st_items := snap_items snap\<rparr>"
  have "run_ops (EMPTY_AGENT_STATE\<lparr>st_items := []\<rparr>) (snapshot_items_ops snapshotTurnOps (snap_items snap) [] None)
      = EMPTY_AGENT_STATE\<lparr>st_items := [] @ [] @ snap_items snap\<rparr>"
    using assms(1) by (intro replay_items) simp_all
  then have items: "run_ops EMPTY_AGENT_STATE (snapshot_items_ops snapshotTurnOps (snap_items snap) [] None) = ?s"
    by (simp add: EMPTY_AGENT_STATE_def)
  have tasks: "run_ops (?s\<lparr>st_tasks := []\<rparr>) (map TaskUpsert (snap_tasks snap))
      = ?s\<lparr>st_tasks := jm_of_values task_taskId (snap_tasks snap)\<rparr>"
    unfolding jm_of_values_def using assms(2) by (intro run_tasks) simp_all
  have empty: "?s\<lparr>st_tasks := []\<rparr> = ?s" "?s\<lparr>st_tasks := ts\<rparr> = ?s\<lparr>st_tasks := ts\<rparr>\<lparr>st_meta := EMPTY_META\<rparr>" for ts
    by (simp_all add: EMPTY_AGENT_STATE_def)
  show ?thesis
    using tasks unfolding snapshotToOps_def by (simp add: items empty(1)) (subst empty(2), simp add: replay_meta)
qed

text \<open>The replay never touches the other entities, whatever the state and the treatment of turns.\<close>

definition entities :: "agent_state \<Rightarrow> (string, transcript_interaction) jsmap \<times> (string, transcript_attachment) jsmap
    \<times> (string, transcript_todo) jsmap \<times> (string, transcript_prompt) jsmap \<times> string list" where
  "entities s = (st_interactions s, st_attachments s, st_todos s, st_prompts s, st_pending s)"

fun timeline_op :: "transcript_op \<Rightarrow> bool" where
  "timeline_op (TurnUpsert _) = True"
| "timeline_op (StepUpsert _ _) = True"
| "timeline_op (FrameUpsert _ _ _) = True"
| "timeline_op (MarkerUpsert _ _) = True"
| "timeline_op (TaskRefUpsert _ _) = True"
| "timeline_op (TaskUpsert _) = True"
| "timeline_op (MetaMerge _) = True"
| "timeline_op _ = False"

lemma timeline_op_entities: "timeline_op op \<Longrightarrow> entities (res_state (applyOperation s op)) = entities s"
  by (cases op)
    (auto simp: entities_def applyTurnUpsert_def applyStepUpsert_def applyFrameUpsert_def applyItemUpsert_def
      applyTaskUpsert_def applyMetaMerge_def Let_def split: option.splits)

lemma timeline_run_entities: "list_all timeline_op ops \<Longrightarrow> entities (run_ops s ops) = entities s"
  by (induction ops arbitrary: s) (auto simp: timeline_op_entities)

lemma timeline_step_ops: "list_all timeline_op (step_ops tid st)"
  by (auto simp: step_ops_def list_all_iff)

lemma timeline_snapshotTurnOps: "list_all timeline_op (snapshotTurnOps t)"
  using timeline_step_ops by (auto simp: snapshotTurnOps_def list_all_iff)

lemma timeline_heal: "list_all timeline_op (healTurnOps t live)"
  using timeline_snapshotTurnOps timeline_step_ops
  by (auto simp: healTurnOps_def heal_step_def list_all_iff map_filter_def split: option.splits)

lemma timeline_items: "(\<And>t. list_all timeline_op (turnOps t)) \<Longrightarrow> list_all timeline_op (snapshot_items_ops turnOps items pending lastO)"
proof -
  have "list_all timeline_op (standalone_op anchor e)" for anchor e by (cases e) simp_all
  then have "list_all timeline_op (flush_pending es anchor)" for es anchor
    by (induction es) (simp_all add: flush_pending_def)
  then show "(\<And>t. list_all timeline_op (turnOps t)) \<Longrightarrow> ?thesis"
    by (induction turnOps items pending lastO rule: snapshot_items_ops.induct) simp_all
qed

lemma timeline_snapshotToOps: "(\<And>t. list_all timeline_op (turnOps t)) \<Longrightarrow> list_all timeline_op (snapshotToOps snap turnOps)"
  using timeline_items [of turnOps "snap_items snap" "[]" None] by (auto simp: snapshotToOps_def list_all_iff)

section \<open>What a repair does to the frames\<close>

definition frame_of :: "transcript_item list \<Rightarrow> turn_id \<Rightarrow> step_id \<Rightarrow> frame_id \<Rightarrow> transcript_frame option" where
  "frame_of items tid sid fid =
     Option.bind (getTurn items tid) (\<lambda>t. Option.bind (find_step (turn_steps t) sid) (\<lambda>st. find_frame (step_frames st) fid))"

definition has_step :: "transcript_item list \<Rightarrow> turn_id \<Rightarrow> step_id \<Rightarrow> bool" where
  "has_step items tid sid \<longleftrightarrow> (\<exists>t. getTurn items tid = Some t \<and> find_step (turn_steps t) sid \<noteq> None)"

definition distinct_steps :: "transcript_item list \<Rightarrow> bool" where
  "distinct_steps items \<longleftrightarrow> (\<forall>t \<in> set (turns items). distinct (map step_stepId (turn_steps t)))"

lemma wf_distinct_steps: "wf_items items \<Longrightarrow> distinct_steps items"
  by (auto simp: wf_items_def wf_steps_def distinct_steps_def)

lemma distinct_steps_turn: "distinct_steps items \<Longrightarrow> getTurn items tid = Some t \<Longrightarrow> distinct (map step_stepId (turn_steps t))"
  by (auto simp: distinct_steps_def dest: getTurn_in)

lemma find_step_update:
  assumes "\<And>st. step_stepId st = i \<Longrightarrow> step_stepId (f st) = i"
  shows "find_step (map (\<lambda>st. if step_stepId st = i then f st else st) steps) j
       = (if j = i then map_option f (find_step steps j) else find_step steps j)"
  using find_update_same [of step_stepId i f steps, OF assms] find_update_other [of step_stepId i f j steps, OF assms]
  by (simp add: find_step_def)

lemma find_step_sort:
  "distinct (map step_stepId steps) \<Longrightarrow> find_step (sort_key step_ordinal steps) j = find_step steps j"
  unfolding find_step_def by (rule find_sort_key_unique)

lemma find_step_put:
  assumes "distinct (map step_stepId steps)" "step_stepId nst = sid"
  shows "find_step (put_step steps sid nst) j = (if j = sid then Some nst else find_step steps j)"
proof (cases "find_step steps sid")
  case None
  then have "distinct (map step_stepId (steps @ [nst]))" using assms by (auto simp: find_step_None)
  then show ?thesis
    using None assms(2)
    by (simp add: put_step_def find_step_sort find_step_append) (auto simp: find_step_def split: option.split)
next
  case (Some st)
  then show ?thesis using assms(2) by (simp add: put_step_def find_step_update)
qed

lemma distinct_put_step:
  "distinct (map step_stepId steps) \<Longrightarrow> step_stepId nst = sid \<Longrightarrow> distinct (map step_stepId (put_step steps sid nst))"
proof -
  have "map step_stepId (map (\<lambda>st. if step_stepId st = sid then nst else st) steps) = map step_stepId steps"
    if "step_stepId nst = sid" using that by simp
  then show "distinct (map step_stepId steps) \<Longrightarrow> step_stepId nst = sid \<Longrightarrow> ?thesis"
    unfolding put_step_def by (auto simp: distinct_map_sort_key find_step_None simp del: map_map)
qed

lemma find_frame_put: "find_frame (put_frame frames f) fid = (if fid = frame_id f then Some f else find_frame frames fid)"
proof (cases "find_frame frames (frame_id f)")
  case None
  then show ?thesis by (auto simp: put_frame_def find_frame_def find_append split: option.split)
next
  case (Some g)
  then show ?thesis
    using find_update_same [of frame_id "frame_id f" "\<lambda>_. f" frames] find_update_other [of frame_id "frame_id f" "\<lambda>_. f" fid frames]
    by (simp add: put_frame_def find_frame_def)
qed

lemma turns_put_turn_set:
  "u \<in> set (turns (put_turn items i nt)) \<Longrightarrow> u = nt \<or> u \<in> set (turns items)"
  by (auto simp: turns_put_turn split: if_splits)

lemma distinct_steps_put: "distinct_steps items \<Longrightarrow> distinct (map step_stepId (turn_steps nt)) \<Longrightarrow> distinct_steps (put_turn items i nt)"
  by (auto simp: distinct_steps_def dest!: turns_put_turn_set)

lemma skeleton_steps: "turn_steps (turn_or_skeleton items i) = (case getTurn items i of Some t \<Rightarrow> turn_steps t | None \<Rightarrow> [])"
  by (auto simp: turn_or_skeleton_def skeletonTurn_def split: option.split)

lemma distinct_or_skeleton: "distinct_steps items \<Longrightarrow> distinct (map step_stepId (turn_steps (turn_or_skeleton items i)))"
  by (auto simp: skeleton_steps distinct_steps_turn split: option.split)

text \<open>What one upsert does to the frames, the steps and the header of a turn.\<close>

abbreviation items_after :: "agent_state \<Rightarrow> transcript_op \<Rightarrow> transcript_item list" where
  "items_after s op \<equiv> st_items (res_state (applyOperation s op))"

lemma turn_upsert_getTurn:
  "getTurn (items_after s (TurnUpsert h)) i
   = (if i = turn_turnId h
      then Some (case getTurn (st_items s) i of
                   Some t \<Rightarrow> if turnEquals t h then t else turnHeaderToTurn h (turn_steps t)
                 | None \<Rightarrow> turnHeaderToTurn h [])
      else getTurn (st_items s) i)"
  by (auto simp: applyTurnUpsert_def getTurn_replaceTurn getTurn_insertTurn option.map_id split: option.splits)

lemma turn_upsert_frames:
  assumes "distinct_steps (st_items s)"
  shows "frame_of (items_after s (TurnUpsert h)) = frame_of (st_items s)"
    and "has_step (items_after s (TurnUpsert h)) = has_step (st_items s)"
    and "distinct_steps (items_after s (TurnUpsert h))"
proof -
  show "frame_of (items_after s (TurnUpsert h)) = frame_of (st_items s)"
    unfolding frame_of_def fun_eq_iff turn_upsert_getTurn by (auto simp: find_step_def split: option.split)
  show "has_step (items_after s (TurnUpsert h)) = has_step (st_items s)"
    unfolding has_step_def fun_eq_iff turn_upsert_getTurn by (auto simp: find_step_def split: option.split)
  show "distinct_steps (items_after s (TurnUpsert h))"
    using assms
    by (auto simp: distinct_steps_def applyTurnUpsert_def turns_replaceTurn turns_insertTurn split: option.split)
qed

lemma step_upsert_turn:
  assumes "distinct_steps (st_items s)"
  shows "getTurn (items_after s (StepUpsert tid h)) i =
     (if i = tid then
        (let t = turn_or_skeleton (st_items s) tid in
         case find_step (turn_steps t) (step_stepId h) of
           Some st \<Rightarrow> if stepEquals st h then getTurn (st_items s) i
                      else Some (t\<lparr>turn_steps := map (\<lambda>st. if step_stepId st = step_stepId h
                                     then stepHeaderToStep h (step_frames st) else st) (turn_steps t)\<rparr>)
         | None \<Rightarrow> Some (t\<lparr>turn_steps := sort_key step_ordinal (turn_steps t @ [stepHeaderToStep h []])\<rparr>))
      else getTurn (st_items s) i)"
  by (auto simp: applyStepUpsert_def Let_def getTurn_put_turn split: option.split)

lemma frame_of_none: "frame_of items tid sid fid =
  Option.bind (find_step (turn_steps (turn_or_skeleton items tid)) sid) (\<lambda>st. find_frame (step_frames st) fid)"
  by (auto simp: frame_of_def skeleton_steps find_step_def split: option.split)

lemma has_step_alt: "has_step items tid sid \<longleftrightarrow> find_step (turn_steps (turn_or_skeleton items tid)) sid \<noteq> None"
  by (auto simp: has_step_def skeleton_steps find_step_def split: option.split)

lemma frames_put_turn:
  assumes "turn_turnId nt = tid"
  shows "frame_of (put_turn items tid nt) i sid fid =
           (if i = tid then Option.bind (find_step (turn_steps nt) sid) (\<lambda>st. find_frame (step_frames st) fid)
            else frame_of items i sid fid)"
    and "has_step (put_turn items tid nt) i sid =
           (if i = tid then find_step (turn_steps nt) sid \<noteq> None else has_step items i sid)"
  using assms by (simp_all add: frame_of_def has_step_def getTurn_put_turn)

lemma step_upsert_frames:
  assumes "distinct_steps (st_items s)"
  shows "frame_of (items_after s (StepUpsert tid h)) = frame_of (st_items s)"
    and "has_step (items_after s (StepUpsert tid h)) i sid \<longleftrightarrow>
           has_step (st_items s) i sid \<or> (i = tid \<and> sid = step_stepId h)"
    and "distinct_steps (items_after s (StepUpsert tid h))"
proof -
  let ?t = "turn_or_skeleton (st_items s) tid"
  have d: "distinct (map step_stepId (turn_steps ?t))" by (rule distinct_or_skeleton [OF assms])
  have "frame_of (items_after s (StepUpsert tid h)) i sid fid = frame_of (st_items s) i sid fid
      \<and> (has_step (items_after s (StepUpsert tid h)) i sid \<longleftrightarrow> has_step (st_items s) i sid \<or> (i = tid \<and> sid = step_stepId h))
      \<and> distinct_steps (items_after s (StepUpsert tid h))" for i sid fid
  proof (cases "find_step (turn_steps ?t) (step_stepId h)")
    case None
    let ?new = "turn_steps ?t @ [stepHeaderToStep h []]"
    have dn: "distinct (map step_stepId ?new)" using d None by (auto simp: find_step_None)
    have "find_step ?new sid = (if sid = step_stepId h then Some (stepHeaderToStep h []) else find_step (turn_steps ?t) sid)"
      using None by (auto simp: find_step_append) (auto simp: find_step_def split: option.split)
    then show ?thesis
      using None assms dn
      by (auto simp: applyStepUpsert_def Let_def frames_put_turn find_step_sort frame_of_none [of _ tid]
          has_step_alt [of _ tid] find_frame_def intro!: distinct_steps_put simp: distinct_map_sort_key)
  next
    case (Some st)
    have "find_step (map (\<lambda>st. if step_stepId st = step_stepId h then stepHeaderToStep h (step_frames st) else st) (turn_steps ?t)) sid
        = map_option (\<lambda>st. if sid = step_stepId h then stepHeaderToStep h (step_frames st) else st) (find_step (turn_steps ?t) sid)"
      by (cases "find_step (turn_steps ?t) sid") (auto simp: find_step_update)
    note found = this
    let ?nt = "?t\<lparr>turn_steps := map (\<lambda>st. if step_stepId st = step_stepId h
        then stepHeaderToStep h (step_frames st) else st) (turn_steps ?t)\<rparr>"
    have id: "turn_turnId ?nt = tid" by simp
    have "map step_stepId (turn_steps ?nt) = map step_stepId (turn_steps ?t)" by simp
    then have dn: "distinct (map step_stepId (turn_steps ?nt))" using d by (simp only:)
    have "frame_of (put_turn (st_items s) tid ?nt) i sid fid = frame_of (st_items s) i sid fid"
      unfolding frames_put_turn(1) [OF id] using found
      by (cases "find_step (turn_steps ?t) sid") (auto simp: frame_of_none [of _ tid])
    moreover have "has_step (put_turn (st_items s) tid ?nt) i sid \<longleftrightarrow> has_step (st_items s) i sid"
      unfolding frames_put_turn(2) [OF id] using found by (auto simp: has_step_alt)
    moreover have "has_step (st_items s) tid (step_stepId h)" using Some by (simp add: has_step_alt)
    moreover note distinct_steps_put [OF assms dn, of tid]
    ultimately show ?thesis using Some assms by (auto simp: applyStepUpsert_def Let_def)
  qed
  then show "frame_of (items_after s (StepUpsert tid h)) = frame_of (st_items s)"
    and "has_step (items_after s (StepUpsert tid h)) i sid \<longleftrightarrow>
           has_step (st_items s) i sid \<or> (i = tid \<and> sid = step_stepId h)"
    and "distinct_steps (items_after s (StepUpsert tid h))"
    by (simp_all add: fun_eq_iff)
qed


lemma frame_upsert_frames:
  assumes "distinct_steps (st_items s)"
  shows "frame_of (items_after s (FrameUpsert tid sid f)) i sid2 fid =
      (if i = tid \<and> sid2 = sid \<and> fid = frame_id f
       then Some (case frame_of (st_items s) tid sid fid of
                    Some g \<Rightarrow> if frameEquals g f then g else f | None \<Rightarrow> f)
       else frame_of (st_items s) i sid2 fid)"
    and "has_step (items_after s (FrameUpsert tid sid f)) i sid2 \<longleftrightarrow>
           has_step (st_items s) i sid2 \<or> (i = tid \<and> sid2 = sid)"
    and "distinct_steps (items_after s (FrameUpsert tid sid f))"
proof -
  let ?t = "turn_or_skeleton (st_items s) tid"
  let ?st = "step_or_skeleton ?t sid tid"
  let ?nst = "?st\<lparr>step_frames := put_frame (step_frames ?st) f\<rparr>"
  let ?nt = "?t\<lparr>turn_steps := put_step (turn_steps ?t) sid ?nst\<rparr>"
  have d: "distinct (map step_stepId (turn_steps ?t))" by (rule distinct_or_skeleton [OF assms])
  have old: "frame_of (st_items s) tid sid fid = find_frame (step_frames ?st) fid" for fid
    by (auto simp: frame_of_none step_or_skeleton_def skeletonStep_def find_frame_def split: option.split)
  have put: "find_step (turn_steps ?nt) j = (if j = sid then Some ?nst else find_step (turn_steps ?t) j)" for j
    using find_step_put [OF d, of ?nst sid] by simp
  have dn: "distinct (map step_stepId (turn_steps ?nt))"
    using distinct_put_step [OF d, of ?nst sid] by simp
  have turn_id: "turn_turnId ?nt = tid" by simp
  have all: "frame_of (items_after s (FrameUpsert tid sid f)) i sid2 fid =
      (if i = tid \<and> sid2 = sid \<and> fid = frame_id f
       then Some (case frame_of (st_items s) tid sid fid of
                    Some g \<Rightarrow> if frameEquals g f then g else f | None \<Rightarrow> f)
       else frame_of (st_items s) i sid2 fid)
     \<and> (has_step (items_after s (FrameUpsert tid sid f)) i sid2 \<longleftrightarrow> has_step (st_items s) i sid2 \<or> (i = tid \<and> sid2 = sid))
     \<and> distinct_steps (items_after s (FrameUpsert tid sid f))"
  proof (cases "\<exists>g. find_frame (step_frames ?st) (frame_id f) = Some g \<and> frameEquals g f")
    case True
    then obtain g where g: "find_frame (step_frames ?st) (frame_id f) = Some g" "frameEquals g f" by blast
    then have "has_step (st_items s) tid sid"
      by (auto simp: has_step_alt step_or_skeleton_def skeletonStep_def find_frame_def split: option.splits)
    then show ?thesis using g assms by (auto simp: applyFrameUpsert_def Let_def old)
  next
    case False
    then have "items_after s (FrameUpsert tid sid f) = put_turn (st_items s) tid ?nt"
      by (auto simp: applyFrameUpsert_def Let_def split: option.split)
    moreover have "frame_of (put_turn (st_items s) tid ?nt) i sid2 fid =
        (if i = tid \<and> sid2 = sid \<and> fid = frame_id f then Some f else frame_of (st_items s) i sid2 fid)"
      unfolding frames_put_turn(1) [of ?nt tid, OF turn_id] put
      by (cases "i = tid"; cases "sid2 = sid") (simp_all add: find_frame_put old frame_of_none [of _ tid sid2])
    moreover have "has_step (put_turn (st_items s) tid ?nt) i sid2 \<longleftrightarrow> has_step (st_items s) i sid2 \<or> (i = tid \<and> sid2 = sid)"
      unfolding frames_put_turn(2) [of ?nt tid, OF turn_id] put by (auto simp: has_step_alt)
    moreover have "distinct_steps (put_turn (st_items s) tid ?nt)" by (rule distinct_steps_put [OF assms dn])
    ultimately show ?thesis using False by (auto simp: old split: option.split)
  qed
  then show "frame_of (items_after s (FrameUpsert tid sid f)) i sid2 fid =
      (if i = tid \<and> sid2 = sid \<and> fid = frame_id f
       then Some (case frame_of (st_items s) tid sid fid of
                    Some g \<Rightarrow> if frameEquals g f then g else f | None \<Rightarrow> f)
       else frame_of (st_items s) i sid2 fid)"
    and "has_step (items_after s (FrameUpsert tid sid f)) i sid2 \<longleftrightarrow>
           has_step (st_items s) i sid2 \<or> (i = tid \<and> sid2 = sid)"
    and "distinct_steps (items_after s (FrameUpsert tid sid f))"
    by blast+
qed


definition header_of :: "transcript_item list \<Rightarrow> turn_id \<Rightarrow> turn_header option" where
  "header_of items tid = map_option turn_header.truncate (getTurn items tid)"

lemma truncate_turn_steps [simp]: "turn_header.truncate (t\<lparr>turn_steps := ss\<rparr>) = turn_header.truncate t"
  by (simp add: turn_header.defs)

lemma header_of_put:
  "getTurn items tid = Some t \<Longrightarrow> turn_turnId nt = tid \<Longrightarrow> turn_header.truncate nt = turn_header.truncate t \<Longrightarrow>
   header_of (put_turn items tid nt) i = header_of items i"
  by (auto simp: header_of_def getTurn_put_turn)

lemma inner_upsert_header:
  assumes "header_of (st_items s) tid \<noteq> None"
  shows "header_of (items_after s (StepUpsert tid h)) i = header_of (st_items s) i"
    and "header_of (items_after s (FrameUpsert tid sid f)) i = header_of (st_items s) i"
proof -
  obtain t where t: "getTurn (st_items s) tid = Some t" using assms by (auto simp: header_of_def)
  then have sk: "turn_or_skeleton (st_items s) tid = t" by (simp add: turn_or_skeleton_def)
  have id: "turn_turnId t = tid" by (rule getTurn_id [OF t])
  show "header_of (items_after s (StepUpsert tid h)) i = header_of (st_items s) i"
    using header_of_put [OF t] id by (auto simp: applyStepUpsert_def Let_def sk split: option.split)
  show "header_of (items_after s (FrameUpsert tid sid f)) i = header_of (st_items s) i"
    using header_of_put [OF t] id by (auto simp: applyFrameUpsert_def Let_def sk split: option.split)
qed

lemma run_inner_header:
  assumes "header_of (st_items s) tid \<noteq> None"
    and "list_all (\<lambda>op. (\<exists>h. op = StepUpsert tid h) \<or> (\<exists>sid f. op = FrameUpsert tid sid f)) ops"
  shows "header_of (st_items (run_ops s ops)) i = header_of (st_items s) i"
  using assms
proof (induction ops arbitrary: s)
  case (Cons op ops)
  have "header_of (items_after s op) j = header_of (st_items s) j" for j
    using Cons.prems inner_upsert_header by auto
  then show ?case using Cons.IH [of "res_state (applyOperation s op)"] Cons.prems by simp
qed simp

lemma run_frames:
  assumes "distinct_steps (st_items s)" "distinct (map frame_id fs)"
    and "\<And>f g. f \<in> set fs \<Longrightarrow> frame_of (st_items s) tid sid (frame_id f) = Some g \<Longrightarrow> \<not> frameEquals g f"
  shows "frame_of (st_items (run_ops s (map (FrameUpsert tid sid) fs))) i sid2 fid =
           (if i = tid \<and> sid2 = sid then coalesce (find_frame fs fid) (frame_of (st_items s) i sid2 fid)
            else frame_of (st_items s) i sid2 fid)
         \<and> (has_step (st_items (run_ops s (map (FrameUpsert tid sid) fs))) i sid2 \<longleftrightarrow>
            has_step (st_items s) i sid2 \<or> (fs \<noteq> [] \<and> i = tid \<and> sid2 = sid))
         \<and> distinct_steps (st_items (run_ops s (map (FrameUpsert tid sid) fs)))"
  using assms
proof (induction fs arbitrary: s)
  case Nil
  then show ?case by (simp add: find_frame_def)
next
  case (Cons f fs)
  let ?s = "res_state (applyOperation s (FrameUpsert tid sid f))"
  note up = frame_upsert_frames [OF Cons.prems(1), of tid sid f]
  have new: "frame_of (st_items ?s) j sid3 fid2 =
      (if j = tid \<and> sid3 = sid \<and> fid2 = frame_id f then Some f else frame_of (st_items s) j sid3 fid2)" for j sid3 fid2
    unfolding up(1) using Cons.prems(3) [of f] by (auto split: option.split)
  have later: "\<not> frameEquals g h" if "h \<in> set fs" "frame_of (st_items ?s) tid sid (frame_id h) = Some g" for h g
  proof -
    have "frame_id h \<noteq> frame_id f" using imageI [OF that(1), of frame_id] Cons.prems(2) by auto
    then show ?thesis using that(2) Cons.prems(3) [of h g] that(1) unfolding new by simp
  qed
  have "find_frame (f # fs) fid = (if fid = frame_id f then Some f else find_frame fs fid)" by (simp add: find_frame_def)
  moreover have "find_frame fs (frame_id f) = None" using Cons.prems(2) by (simp add: find_frame_None)
  ultimately show ?case
    using Cons.IH [OF up(3) _ later] Cons.prems(2)
    by (auto simp: new up(2) simp del: applyOperation.simps)
qed

text \<open>What a repaired frame holds, given whether the live turn has its step.\<close>

definition healed :: "bool \<Rightarrow> transcript_frame option \<Rightarrow> transcript_frame \<Rightarrow> transcript_frame option" where
  "healed known old f = (if known then coalesce (heal_frame old f) old else Some f)"

lemma heal_frame_id: "heal_frame old f = Some g \<Longrightarrow> frame_id g = frame_id f"
  by (auto simp: heal_frame_def split: transcript_frame.splits option.splits if_splits)

lemma tool_outcome_differs: "has_outcome m \<Longrightarrow> \<not> has_outcome l \<Longrightarrow> \<not> frameEquals (FTool l) (FTool m)"
proof -
  have "js_same JUndef v \<longleftrightarrow> v = JUndef" for v by (cases v) auto
  moreover assume "has_outcome m" "\<not> has_outcome l"
  ultimately show ?thesis unfolding has_outcome_def frameEquals.simps by metis
qed

lemma has_outcome_extras [simp]:
  "has_outcome (f\<lparr>tc_display := a, tc_agentRefs := b, tc_approvalId := c\<rparr>) = has_outcome f"
  by (simp add: has_outcome_def)

lemma heal_frame_differs: "heal_frame (Some l) f = Some g \<Longrightarrow> \<not> frameEquals l g"
proof (cases f)
  case (FTool m)
  assume h: "heal_frame (Some l) f = Some g"
  show ?thesis
  proof (cases l)
    case (FTool k)
    with h \<open>f = FTool m\<close> have "has_outcome m" "\<not> has_outcome k"
      "g = FTool (m\<lparr>tc_display := js_coalesce (tc_display k) (tc_display m), tc_agentRefs := coalesce (tc_agentRefs k) (tc_agentRefs m),
         tc_approvalId := coalesce (tc_approvalId k) (tc_approvalId m)\<rparr>)"
      by (auto simp: heal_frame_def split: if_splits)
    then show ?thesis using tool_outcome_differs [of _ k] FTool by (simp del: frameEquals.simps)
  qed (use h FTool in \<open>auto simp: heal_frame_def\<close>)
next
  case (FText m)
  assume "heal_frame (Some l) f = Some g"
  then show ?thesis using FText by (cases l) (auto simp: heal_frame_def text_length_def split: if_splits)
next
  case (FThinking m)
  assume "heal_frame (Some l) f = Some g"
  then show ?thesis using FThinking by (cases l) (auto simp: heal_frame_def text_length_def split: if_splits)
qed (simp add: heal_frame_def)

lemma map_filter_mem: "y \<in> set (List.map_filter P xs) \<longleftrightarrow> (\<exists>x \<in> set xs. P x = Some y)"
  by (induction xs) (auto simp: map_filter_simps split: option.split)

lemma map_filter_ids:
  assumes "\<And>f g. P f = Some g \<Longrightarrow> frame_id g = frame_id f" "distinct (map frame_id fs)"
  shows "distinct (map frame_id (List.map_filter P fs))"
    and "find_frame (List.map_filter P fs) fid = Option.bind (find_frame fs fid) P"
proof -
  show "distinct (map frame_id (List.map_filter P fs))"
    using assms(2)
  proof (induction fs)
    case (Cons f fs)
    have "frame_id f \<notin> frame_id ` set (List.map_filter P fs)"
      using Cons.prems assms(1) by (force simp: map_filter_mem)
    then show ?case using Cons assms(1) by (auto simp: map_filter_simps split: option.split)
  qed (simp add: map_filter_simps)
  show "find_frame (List.map_filter P fs) fid = Option.bind (find_frame fs fid) P"
    using assms(2)
  proof (induction fs)
    case (Cons f fs)
    have "find_frame (List.map_filter P fs) (frame_id f) = None"
      using Cons.prems assms(1) by (force simp: find_frame_None map_filter_mem)
    then show ?case using Cons assms(1) by (auto simp: map_filter_simps find_frame_def split: option.split)
  qed (simp add: map_filter_simps find_frame_def)
qed

lemma map_map_filter: "map g (List.map_filter P xs) = List.map_filter (\<lambda>x. map_option g (P x)) xs"
  by (induction xs) (auto simp: map_filter_simps split: option.split)

lemma heal_step_run:
  assumes "distinct_steps (st_items s)" "distinct (map frame_id (step_frames st))"
    and "find_step (turn_steps live) (step_stepId st) \<noteq> None \<longleftrightarrow> has_step (st_items s) tid (step_stepId st)"
    and "\<And>fid. frame_of (st_items s) tid (step_stepId st) fid
          = Option.bind (find_step (turn_steps live) (step_stepId st)) (\<lambda>ls. find_frame (step_frames ls) fid)"
  shows "frame_of (st_items (run_ops s (heal_step tid live st))) i sid fid =
           (if i = tid \<and> sid = step_stepId st then
              (case find_frame (step_frames st) fid of
                 None \<Rightarrow> frame_of (st_items s) i sid fid
               | Some f \<Rightarrow> healed (has_step (st_items s) i sid) (frame_of (st_items s) i sid fid) f)
            else frame_of (st_items s) i sid fid)
         \<and> (has_step (st_items (run_ops s (heal_step tid live st))) i sid \<longleftrightarrow>
            has_step (st_items s) i sid \<or> (i = tid \<and> sid = step_stepId st))
         \<and> distinct_steps (st_items (run_ops s (heal_step tid live st)))"
proof (cases "find_step (turn_steps live) (step_stepId st)")
  case None
  let ?h = "step_header.truncate st"
  let ?s = "res_state (applyOperation s (StepUpsert tid ?h))"
  note up = step_upsert_frames [OF assms(1), of tid ?h]
  have none: "frame_of (st_items s) tid (step_stepId st) fid = None" for fid using None assms(4) by simp
  let ?r = "run_ops ?s (map (FrameUpsert tid (step_stepId st)) (step_frames st))"
  have run: "frame_of (st_items ?r) i sid fid =
        (if i = tid \<and> sid = step_stepId st then coalesce (find_frame (step_frames st) fid) (frame_of (st_items ?s) i sid fid)
         else frame_of (st_items ?s) i sid fid)
      \<and> (has_step (st_items ?r) i sid \<longleftrightarrow> has_step (st_items ?s) i sid \<or> (step_frames st \<noteq> [] \<and> i = tid \<and> sid = step_stepId st))
      \<and> distinct_steps (st_items ?r)"
    by (rule run_frames [OF up(3) assms(2)]) (simp only: up(1) none option.distinct)
  have "\<not> has_step (st_items s) tid (step_stepId st)" using None assms(3) by simp
  moreover have "heal_step tid live st = StepUpsert tid ?h # map (FrameUpsert tid (step_stepId st)) (step_frames st)"
    using None by (simp add: heal_step_def step_ops_def)
  ultimately show ?thesis
    using run unfolding up(1,2)
    by (auto simp: none healed_def simp del: applyOperation.simps split: option.split)
next
  case (Some ls)
  let ?P = "\<lambda>f. heal_frame (find_frame (step_frames ls) (frame_id f)) f"
  let ?fs = "List.map_filter ?P (step_frames st)"
  have old: "frame_of (st_items s) tid (step_stepId st) fid = find_frame (step_frames ls) fid" for fid
    using Some assms(4) by simp
  have known: "has_step (st_items s) tid (step_stepId st)" using Some assms(3) by simp
  have "\<not> frameEquals g f" if mem: "f \<in> set ?fs" "frame_of (st_items s) tid (step_stepId st) (frame_id f) = Some g" for f g
  proof -
    obtain f0 where f0: "?P f0 = Some f" using mem(1) by (auto simp: map_filter_mem)
    then show ?thesis using mem(2) heal_frame_id [OF f0] heal_frame_differs by (auto simp: old)
  qed
  note fresh = this
  let ?r = "run_ops s (map (FrameUpsert tid (step_stepId st)) ?fs)"
  have run: "frame_of (st_items ?r) i sid fid =
        (if i = tid \<and> sid = step_stepId st then coalesce (find_frame ?fs fid) (frame_of (st_items s) i sid fid)
         else frame_of (st_items s) i sid fid)
      \<and> (has_step (st_items ?r) i sid \<longleftrightarrow> has_step (st_items s) i sid \<or> (?fs \<noteq> [] \<and> i = tid \<and> sid = step_stepId st))
      \<and> distinct_steps (st_items ?r)"
    by (rule run_frames [OF assms(1) map_filter_ids(1) [of ?P, OF heal_frame_id assms(2)]]) (use fresh in auto)
  have found: "find_frame ?fs fid = Option.bind (find_frame (step_frames st) fid) ?P"
    by (rule map_filter_ids(2) [of ?P, OF heal_frame_id assms(2)])
  have ops: "heal_step tid live st = map (FrameUpsert tid (step_stepId st)) ?fs"
    using Some by (simp add: heal_step_def map_map_filter)
  show ?thesis
    unfolding ops using run known
    by (auto simp: found old healed_def dest: find_frame_id split: option.split)
qed


text \<open>The repair of all steps, then of the turn.\<close>

definition healed_steps :: "transcript_item list \<Rightarrow> turn_id \<Rightarrow> transcript_step list \<Rightarrow> turn_id \<Rightarrow> step_id \<Rightarrow> frame_id \<Rightarrow> transcript_frame option" where
  "healed_steps items tid sts i sid fid =
     (if i = tid then
        (case Option.bind (find_step sts sid) (\<lambda>st. find_frame (step_frames st) fid) of
           None \<Rightarrow> frame_of items i sid fid
         | Some f \<Rightarrow> healed (has_step items i sid) (frame_of items i sid fid) f)
      else frame_of items i sid fid)"

lemma heal_steps_run:
  assumes "distinct_steps (st_items s)" "distinct (map step_stepId sts)"
    and "\<And>st. st \<in> set sts \<Longrightarrow> distinct (map frame_id (step_frames st))"
    and "\<And>st. st \<in> set sts \<Longrightarrow> find_step (turn_steps live) (step_stepId st) \<noteq> None \<longleftrightarrow> has_step (st_items s) tid (step_stepId st)"
    and "\<And>st fid. st \<in> set sts \<Longrightarrow> frame_of (st_items s) tid (step_stepId st) fid
          = Option.bind (find_step (turn_steps live) (step_stepId st)) (\<lambda>ls. find_frame (step_frames ls) fid)"
  shows "frame_of (st_items (run_ops s (concat (map (heal_step tid live) sts)))) i sid fid = healed_steps (st_items s) tid sts i sid fid
       \<and> (has_step (st_items (run_ops s (concat (map (heal_step tid live) sts)))) i sid \<longleftrightarrow>
           has_step (st_items s) i sid \<or> (i = tid \<and> sid \<in> step_stepId ` set sts))
       \<and> distinct_steps (st_items (run_ops s (concat (map (heal_step tid live) sts))))"
  using assms
proof (induction sts arbitrary: s)
  case Nil
  then show ?case by (simp add: healed_steps_def find_step_def)
next
  case (Cons st sts)
  let ?s = "run_ops s (heal_step tid live st)"
  have mem: "st \<in> set (st # sts)" by simp
  have step: "frame_of (st_items ?s) j sid fid =
           (if j = tid \<and> sid = step_stepId st then
              (case find_frame (step_frames st) fid of
                 None \<Rightarrow> frame_of (st_items s) j sid fid
               | Some f \<Rightarrow> healed (has_step (st_items s) j sid) (frame_of (st_items s) j sid fid) f)
            else frame_of (st_items s) j sid fid)"
    "has_step (st_items ?s) j sid \<longleftrightarrow> has_step (st_items s) j sid \<or> (j = tid \<and> sid = step_stepId st)"
    "distinct_steps (st_items ?s)" for j sid fid
    using heal_step_run [where st = st and live = live and tid = tid, OF Cons.prems(1) Cons.prems(3) [OF mem]
        Cons.prems(4) [OF mem] Cons.prems(5) [OF mem]] by simp_all
  have other: "step_stepId u \<noteq> step_stepId st" if "u \<in> set sts" for u
    using imageI [OF that, of step_stepId] Cons.prems(2) by auto
  have ih: "frame_of (st_items (run_ops ?s (concat (map (heal_step tid live) sts)))) i sid fid = healed_steps (st_items ?s) tid sts i sid fid
       \<and> (has_step (st_items (run_ops ?s (concat (map (heal_step tid live) sts)))) i sid \<longleftrightarrow>
           has_step (st_items ?s) i sid \<or> (i = tid \<and> sid \<in> step_stepId ` set sts))
       \<and> distinct_steps (st_items (run_ops ?s (concat (map (heal_step tid live) sts))))"
    using Cons.prems(2-5) other by (intro Cons.IH step(3)) (auto simp: step(1,2))
  have "find_step (st # sts) sid = (if sid = step_stepId st then Some st else find_step sts sid)"
    by (simp add: find_step_def)
  moreover have "find_step sts (step_stepId st) = None" using Cons.prems(2) by (simp add: find_step_None)
  ultimately have "healed_steps (st_items ?s) tid sts i sid fid = healed_steps (st_items s) tid (st # sts) i sid fid"
    by (auto simp: healed_steps_def step(1,2) split: option.split)
  then show ?case using ih by (auto simp: step(2))
qed

lemma heal_nothing: "heal_step tid (skeletonTurn i) = step_ops tid"
  by (simp add: fun_eq_iff heal_step_def skeletonTurn_def find_step_def)

lemma healTurnOps_alt:
  "healTurnOps t live =
     TurnUpsert (case live of None \<Rightarrow> turn_header.truncate t | Some l \<Rightarrow> heal_header t l)
     # concat (map (heal_step (turn_turnId t) (case live of None \<Rightarrow> skeletonTurn (turn_turnId t) | Some l \<Rightarrow> l)) (turn_steps t))"
  by (cases live) (simp_all add: healTurnOps_def snapshotTurnOps_def heal_nothing)

lemma heal_header_id [simp]: "turn_turnId (heal_header t l) = turn_turnId t"
  by (simp add: heal_header_def)

lemma heal_run:
  assumes "distinct_steps (st_items s)" "wf_steps (turn_steps t)"
  shows "frame_of (st_items (run_ops s (healTurnOps t (getTurn (st_items s) (turn_turnId t))))) i sid fid
           = healed_steps (st_items s) (turn_turnId t) (turn_steps t) i sid fid
       \<and> (has_step (st_items (run_ops s (healTurnOps t (getTurn (st_items s) (turn_turnId t))))) i sid \<longleftrightarrow>
           has_step (st_items s) i sid \<or> (i = turn_turnId t \<and> sid \<in> step_stepId ` set (turn_steps t)))
       \<and> distinct_steps (st_items (run_ops s (healTurnOps t (getTurn (st_items s) (turn_turnId t)))))"
proof -
  let ?i = "turn_turnId t"
  let ?live = "getTurn (st_items s) ?i"
  let ?h = "case ?live of None \<Rightarrow> turn_header.truncate t | Some l \<Rightarrow> heal_header t l"
  let ?l = "case ?live of None \<Rightarrow> skeletonTurn ?i | Some l \<Rightarrow> l"
  let ?s = "res_state (applyOperation s (TurnUpsert ?h))"
  note up = turn_upsert_frames [OF assms(1), of ?h]
  have rel: "find_step (turn_steps ?l) sid \<noteq> None \<longleftrightarrow> has_step (st_items ?s) ?i sid"
    "frame_of (st_items ?s) ?i sid fid = Option.bind (find_step (turn_steps ?l) sid) (\<lambda>ls. find_frame (step_frames ls) fid)" for sid fid
    unfolding up(1,2) by (auto simp: has_step_def frame_of_def skeletonTurn_def find_step_def split: option.split)
  have "frame_of (st_items (run_ops ?s (concat (map (heal_step ?i ?l) (turn_steps t))))) i sid fid = healed_steps (st_items ?s) ?i (turn_steps t) i sid fid
       \<and> (has_step (st_items (run_ops ?s (concat (map (heal_step ?i ?l) (turn_steps t))))) i sid \<longleftrightarrow>
           has_step (st_items ?s) i sid \<or> (i = ?i \<and> sid \<in> step_stepId ` set (turn_steps t)))
       \<and> distinct_steps (st_items (run_ops ?s (concat (map (heal_step ?i ?l) (turn_steps t)))))"
    using assms(2) by (intro heal_steps_run up(3) rel) (auto simp: wf_steps_def)
  then show ?thesis unfolding healTurnOps_alt run_ops_simps healed_steps_def up(1,2) .
qed

section \<open>The journal of a history\<close>

abbreviation batch_of :: "nat \<times> transcript_op list \<Rightarrow> op_batch" where
  "batch_of p \<equiv> \<lparr>ba_seq = fst p, ba_ops = snd p\<rparr>"

definition journal_holds :: "transcript_op list list \<Rightarrow> ops_journal \<Rightarrow> bool" where
  "journal_holds h j \<longleftrightarrow>
     oj_nextSeq j = length h + 1
     \<and> oj_batches j = map batch_of (drop (length h - TRANSCRIPT_OPS_JOURNAL_CAPACITY) (enumerate 1 h))"

definition journal_of :: "transcript_op list list \<Rightarrow> ops_journal option \<Rightarrow> bool" where
  "journal_of h j \<longleftrightarrow> (case j of None \<Rightarrow> h = [] | Some j \<Rightarrow> journal_holds h j)"

lemma journal_holds_new: "journal_holds [] new_ops_journal"
  by (simp add: journal_holds_def new_ops_journal_def)

lemma journal_holds_push:
  assumes "journal_holds h j"
  shows "journal_holds (h @ [ops]) (fst (journal_push ops j))" "snd (journal_push ops j) = Suc (length h)"
proof -
  let ?c = TRANSCRIPT_OPS_JOURNAL_CAPACITY
  have c: "0 < ?c" by (simp add: TRANSCRIPT_OPS_JOURNAL_CAPACITY_def)
  have old: "oj_batches j @ [\<lparr>ba_seq = oj_nextSeq j, ba_ops = ops\<rparr>] = map batch_of (drop (length h - ?c) (enumerate 1 (h @ [ops])))"
    using assms by (simp add: journal_holds_def enumerate_append_eq)
  have "?c < length (drop (length h - ?c) (enumerate 1 (h @ [ops]))) \<longleftrightarrow> ?c \<le> length h" using c by auto
  moreover have "length (h @ [ops]) - ?c = (if ?c \<le> length h then Suc (length h - ?c) else 0)" by auto
  ultimately show "journal_holds (h @ [ops]) (fst (journal_push ops j))" "snd (journal_push ops j) = Suc (length h)"
    using assms unfolding journal_push_def Let_def old by (auto simp: journal_holds_def drop_map)
qed

lemma latest_seq_of: "journal_of h j \<Longrightarrow> latest_seq j = length h"
  by (auto simp: journal_of_def latest_seq_def journal_holds_def split: option.splits)

lemma drop_enumerate: "drop k (enumerate n xs) = enumerate (n + k) (drop k xs)"
proof (induction xs arbitrary: n k)
  case (Cons x xs)
  then show ?case by (cases k) simp_all
qed simp

lemma take_enumerate: "take k (enumerate n xs) = enumerate n (take k xs)"
proof (induction xs arbitrary: n k)
  case (Cons x xs)
  then show ?case by (cases k) simp_all
qed simp

lemma filter_enumerate_drop: "k \<le> m \<Longrightarrow> filter (\<lambda>p. n + m \<le> fst p) (drop k (enumerate n xs)) = drop m (enumerate n xs)"
proof -
  assume k: "k \<le> m"
  have "filter (\<lambda>p. n + m \<le> fst p) (enumerate n xs) = drop m (enumerate n xs)" for n m and xs :: "'a list"
  proof (induction xs arbitrary: n m)
    case (Cons x xs)
    show ?case
    proof (cases m)
      case 0
      have "filter (\<lambda>p. n \<le> fst p) (enumerate (Suc n) xs) = enumerate (Suc n) xs"
        by (rule filter_True) (auto simp: in_set_enumerate_eq)
      then show ?thesis using 0 by simp
    next
      case (Suc m')
      then show ?thesis using Cons.IH [of "Suc n" m'] by simp
    qed
  qed simp
  then have full: "filter (\<lambda>p. n + m \<le> fst p) (enumerate n xs) = drop m (enumerate n xs)" .
  have "filter (\<lambda>p. n + m \<le> fst p) (take k (enumerate n xs)) = []"
    using k by (auto simp: filter_empty_conv take_enumerate in_set_enumerate_eq)
  then show ?thesis
    using full by (metis append_Nil append_take_drop_id filter_append)
qed

lemma catchup_of:
  assumes "journal_of h j"
  shows "oc_latestSeq (catchup_since j n) = length h"
    and "oc_complete (catchup_since j n) \<longleftrightarrow> n \<le> length h \<and> length h \<le> n + TRANSCRIPT_OPS_JOURNAL_CAPACITY"
    and "oc_complete (catchup_since j n) \<Longrightarrow> oc_batches (catchup_since j n) = map batch_of (drop n (enumerate 1 h))"
proof -
  let ?c = TRANSCRIPT_OPS_JOURNAL_CAPACITY
  let ?k = "length h - ?c"
  have c: "0 < ?c" by (simp add: TRANSCRIPT_OPS_JOURNAL_CAPACITY_def)
  note seq = latest_seq_of [OF assms]
  show "oc_latestSeq (catchup_since j n) = length h" by (simp add: catchup_since_def seq Let_def)
  have batches: "(case j of None \<Rightarrow> [] | Some j \<Rightarrow> filter (\<lambda>b. n < ba_seq b) (oj_batches j))
      = map batch_of (drop (max n ?k) (enumerate 1 h))"
  proof (cases j)
    case None
    then show ?thesis using assms by (simp add: journal_of_def)
  next
    case (Some jj)
    then have jb: "oj_batches jj = map batch_of (drop ?k (enumerate 1 h))"
      using assms by (simp add: journal_of_def journal_holds_def)
    have "filter (\<lambda>p. n < fst p) (drop ?k (enumerate 1 h)) = drop (max n ?k) (enumerate 1 h)"
    proof (cases "?k \<le> n")
      case True
      then show ?thesis using filter_enumerate_drop [of ?k n 1 h] by (simp add: Suc_le_eq max_def)
    next
      case False
      have "filter (\<lambda>p. n < fst p) (drop ?k (enumerate 1 h)) = drop ?k (enumerate 1 h)"
        using False by (intro filter_True) (auto simp: drop_enumerate in_set_enumerate_eq)
      then show ?thesis using False by (simp add: max_def)
    qed
    then show ?thesis using Some by (simp add: jb filter_map comp_def)
  qed
  have oldest: "(case j of Some j \<Rightarrow> (case oj_batches j of b # _ \<Rightarrow> Some (ba_seq b) | [] \<Rightarrow> None) | None \<Rightarrow> None)
      = (if h = [] then None else Some (Suc ?k))"
  proof (cases j)
    case None
    then show ?thesis using assms by (simp add: journal_of_def)
  next
    case (Some jj)
    then have jb: "oj_batches jj = map batch_of (drop ?k (enumerate 1 h))"
      using assms by (simp add: journal_of_def journal_holds_def)
    show ?thesis
    proof (cases "h = []")
      case True
      then show ?thesis using Some jb by simp
    next
      case False
      then have "?k < length (enumerate 1 h)" using c by (cases h) auto
      then have "drop ?k (enumerate 1 h) = (enumerate 1 h ! ?k) # drop (Suc ?k) (enumerate 1 h)" by (rule Cons_nth_drop_Suc [symmetric])
      then show ?thesis using Some jb False \<open>?k < length (enumerate 1 h)\<close> by (simp add: nth_enumerate_eq)
    qed
  qed
  show comp: "oc_complete (catchup_since j n) \<longleftrightarrow> n \<le> length h \<and> length h \<le> n + ?c"
    unfolding catchup_since_def Let_def seq batches oldest using c by (auto simp: max_def split: if_splits)
  assume "oc_complete (catchup_since j n)"
  then have "n \<le> length h" "max n ?k = n" unfolding comp by auto
  then show "oc_batches (catchup_since j n) = map batch_of (drop n (enumerate 1 h))"
    unfolding catchup_since_def Let_def seq batches by simp
qed

end
