(* ===== verification/TranscriptMachine.thy ===== *)
theory TranscriptMachine
  imports TranscriptChannel SyncLemmas
begin

text \<open>
  One live session as a machine: the projector's batches, the replay of histories, the repairs, the roster, and
  the connections that join and leave. The ghost \<open>ch_hist\<close> holds every batch an agent dispatched,
  \<open>ch_whole\<close> says that none of its batches had a gap, \<open>ch_sent\<close> is all that was fanned out.
\<close>

section \<open>The machine\<close>

record channel =
  ch_sv :: transcript_service
  ch_st :: session_state
  ch_hist :: "agent_id \<Rightarrow> transcript_op list list"
  ch_whole :: "agent_id \<Rightarrow> bool"
  ch_sent :: "(string \<times> transcript_envelope) list"

fun run_roster ::
  "string \<Rightarrow> transcript_service \<Rightarrow> roster_calls \<Rightarrow> session_state \<Rightarrow> session_state \<times> (string \<times> transcript_envelope) list" where
  "run_roster sid sv [] st = (st, [])"
| "run_roster sid sv ((l, ds) # calls) st =
     (let store = (case jm_get (tv_live sv) sid of Some entry \<Rightarrow> le_store entry | None \<Rightarrow> newTranscriptStore sid);
          (st2, sends) = roster_change sid sv store ds st;
          (st3, more) = run_roster sid sv calls st2
      in (st3, sends @ more))"

fun run_call ::
  "string \<Rightarrow> transcript_service \<Rightarrow> service_call \<Rightarrow> session_state \<Rightarrow> session_state \<times> (string \<times> transcript_envelope) list" where
  "run_call sid sv (OpsCall ls event seq) st =
     (st, concat (map (\<lambda>_. fan_out st (change_agentId event) (change_ops event) seq) ls))"
| "run_call sid sv (RosterCall calls) st = run_roster sid sv calls st"

fun run_calls ::
  "string \<Rightarrow> transcript_service \<Rightarrow> service_call list \<Rightarrow> session_state \<Rightarrow> session_state \<times> (string \<times> transcript_envelope) list" where
  "run_calls sid sv [] st = (st, [])"
| "run_calls sid sv (c # cs) st =
     (let (st2, sends) = run_call sid sv c st; (st3, more) = run_calls sid sv cs st2 in (st3, sends @ more))"

definition delivered :: "string \<Rightarrow> channel \<Rightarrow> transcript_service \<times> service_call list \<Rightarrow> channel" where
  "delivered sid c r =
     (let (st, sends) = run_calls sid (fst r) (snd r) (ch_st c)
      in c\<lparr>ch_sv := fst r, ch_st := st, ch_sent := ch_sent c @ sends\<rparr>)"

definition recorded :: "agent_id \<Rightarrow> transcript_op list \<Rightarrow> channel \<Rightarrow> channel" where
  "recorded a ops c = c\<lparr>ch_hist := (ch_hist c)(a := ch_hist c a @ [ops])\<rparr>"

abbreviation entry_of :: "string \<Rightarrow> channel \<Rightarrow> live_entry option" where
  "entry_of sid c \<equiv> jm_get (tv_live (ch_sv c)) sid"

inductive channel_step :: "string \<Rightarrow> channel \<Rightarrow> channel \<Rightarrow> bool" for sid where
  live_batch:
    "entry_of sid c = Some entry \<Longrightarrow> ops \<noteq> [] \<Longrightarrow> applied_gap (snd (apply_to_agent a ops entry)) = None \<Longrightarrow>
     channel_step sid c (delivered sid (recorded a ops c) (binding_applyOps sid a ops (ch_sv c)))"
| gapped_batch:
    "entry_of sid c = Some entry \<Longrightarrow> ops \<noteq> [] \<Longrightarrow> applied_gap (snd (apply_to_agent a ops entry)) \<noteq> None \<Longrightarrow>
     channel_step sid c ((delivered sid c (binding_applyOps sid a ops (ch_sv c)))\<lparr>ch_whole := (ch_whole c)(a := False)\<rparr>)"
| replays:
    "entry_of sid c = Some entry \<Longrightarrow>
     ops = backfill_ops activeTurnId snap (agent_items a (fst (ts_ensureAgent (le_store entry) a None))) \<Longrightarrow>
     channel_step sid c (delivered sid (recorded a ops c) (backfill_replay activeTurnId sid a (Some snap) (ch_sv c)))"
| replays_nothing:
    "channel_step sid c (delivered sid c (backfill_replay activeTurnId sid a None (ch_sv c)))"
| describes:
    "entry_of sid c = Some entry \<Longrightarrow>
     channel_step sid c (delivered sid c (with_store sid (ts_describeAgent (le_store entry) d) (ch_sv c)))"
| heals:
    "entry_of sid c = Some entry \<Longrightarrow> ts_getAgent (le_store entry) a = Some t \<Longrightarrow>
     ops = heal_ops ordinals snap (at_getItems t) \<Longrightarrow> ops \<noteq> [] \<Longrightarrow>
     channel_step sid c
       (delivered sid (recorded a ops c) (healEndedTurns sid (le_storeId entry) a ordinals (Some snap) (ch_sv c)))"
| asks_history:
    "channel_step sid c (c\<lparr>ch_sv := fst (ensureAgentHistory sid a (ch_sv c))\<rparr>)"
| timer: "channel_step sid c (c\<lparr>ch_sv := fst (healTimerFires key (ch_sv c))\<rparr>)"
| event: "channel_step sid c (c\<lparr>ch_st := (ch_st c)\<lparr>ss_journal := j\<rparr>\<rparr>)"
| joins: "channel_step sid c (c\<lparr>ch_st := join_target agents t flt grades opts (ch_st c)\<rparr>)"
| lands:
    "entry_of sid c = Some entry \<Longrightarrow>
     subscribeTranscript_lands listener sid True (le_storeId entry) (le_store entry) t prev since (ch_sv c, ch_st c)
       = ((sv2, st2), frames) \<Longrightarrow>
     channel_step sid c (c\<lparr>ch_sv := sv2, ch_st := st2\<rparr>)"
| takes_seed:
    "channel_step sid c (c\<lparr>ch_st := (ch_st c)\<lparr>ss_deferredTranscriptSeeds := jm_delete t (ss_deferredTranscriptSeeds (ch_st c))\<rparr>\<rparr>)"
| seeds: "channel_step sid c (c\<lparr>ch_st := mark_seeded t (ch_st c)\<rparr>)"
| leaves: "channel_step sid c (c\<lparr>ch_st := leave_target t (ch_st c)\<rparr>)"
| detaches: "channel_step sid c (c\<lparr>ch_st := detach_target t ids (ch_st c)\<rparr>)"

definition channel_start :: "string \<Rightarrow> nat \<Rightarrow> nat \<Rightarrow> agent_id list \<Rightarrow> session_state \<Rightarrow> channel" where
  "channel_start sid storeId ref ids st =
     \<lparr>ch_sv = fst (forSessionLive True storeId ref (Some ids) sid newTranscriptService), ch_st = st,
      ch_hist = (\<lambda>_. []), ch_whole = (\<lambda>_. True), ch_sent = []\<rparr>"

text \<open>A session starts on a store that no stream of the connections' state is attached to.\<close>

inductive channel_reachable :: "string \<Rightarrow> channel \<Rightarrow> bool" for sid where
  start: "map_option str_store (ss_transcriptStream st) \<noteq> Some storeId \<Longrightarrow> jm_ok (ss_targets st) \<Longrightarrow>
     channel_reachable sid (channel_start sid storeId ref ids st)"
| step: "channel_reachable sid c \<Longrightarrow> channel_step sid c c2 \<Longrightarrow> channel_reachable sid c2"

section \<open>The invariant\<close>

definition agent_state_of :: "agent_id \<Rightarrow> live_entry \<Rightarrow> agent_state" where
  "agent_state_of a entry = (case ts_getAgent (le_store entry) a of Some t \<Rightarrow> at_state t | None \<Rightarrow> EMPTY_AGENT_STATE)"

definition store_ok :: "transcript_store \<Rightarrow> bool" where
  "store_ok store \<longleftrightarrow>
     (\<forall>a t. ts_getAgent store a = Some t \<longrightarrow> at_agentId t = a)
     \<and> jm_ok (ts_descriptors store) \<and> jm_keyed (\<lambda>d. desc_agentId (obj_val d)) (ts_descriptors store)"

definition log_ok :: "channel \<Rightarrow> live_entry \<Rightarrow> agent_id \<Rightarrow> bool" where
  "log_ok c entry a \<longleftrightarrow>
     journal_of (ch_hist c a) (jm_get (le_opsJournals entry) a)
     \<and> (ch_whole c a \<longrightarrow> agent_state_of a entry = run_ops EMPTY_AGENT_STATE (concat (ch_hist c a)))"

definition attached :: "session_state \<Rightarrow> nat \<Rightarrow> bool" where
  "attached st storeId \<longleftrightarrow> map_option str_store (ss_transcriptStream st) = Some storeId"

definition channel_ok :: "string \<Rightarrow> channel \<Rightarrow> bool" where
  "channel_ok sid c \<longleftrightarrow>
     (\<exists>entry. entry_of sid c = Some entry \<and> (\<forall>a. log_ok c entry a) \<and> store_ok (le_store entry)
        \<and> (case jm_get (tv_opsListeners (ch_sv c)) sid of
             None \<Rightarrow> \<not> attached (ch_st c) (le_storeId entry)
           | Some ls \<Rightarrow> attached (ch_st c) (le_storeId entry) \<and> length ls = 1)
        \<and> jm_ok (ss_targets (ch_st c)))"

text \<open>The batches an agent applies, and the ones that leave every agent as it was\<close>

definition advances :: "live_entry \<Rightarrow> agent_id \<Rightarrow> transcript_op list \<Rightarrow> live_entry \<Rightarrow> bool" where
  "advances entry a ops entry2 \<longleftrightarrow>
     le_storeId entry2 = le_storeId entry \<and> le_opsJournals entry2 = le_opsJournals entry
     \<and> (\<forall>b. agent_state_of b entry2 = (if b = a then run_ops (agent_state_of a entry) ops else agent_state_of b entry))
     \<and> (store_ok (le_store entry) \<longrightarrow> store_ok (le_store entry2))"

lemma advances_refl: "advances entry a [] entry"
  by (simp add: advances_def)

lemma advances_trans: "advances e a xs e2 \<Longrightarrow> advances e2 a ys e3 \<Longrightarrow> advances e a (xs @ ys) e3"
  by (simp add: advances_def)

lemma ensure_agent:
  "ts_getAgent (fst (ts_ensureAgent st i None)) a
   = (if a = i \<and> ts_getAgent st i = None then Some (newAgentTranscript i) else ts_getAgent st a)"
  "ts_descriptors (fst (ts_ensureAgent st i None)) = ts_descriptors st"
  "snd (ts_ensureAgent st i None) = []"
  by (auto simp: ts_ensureAgent_def ts_getAgent_def Let_def split: option.split)

lemma advances_ensure:
  "advances entry a [] (entry\<lparr>le_store := fst (ts_ensureAgent (le_store entry) i None)\<rparr>)"
  by (auto simp: advances_def agent_state_of_def ensure_agent store_ok_def newAgentTranscript_def split: option.split)

lemma put_agent [simp]:
  "ts_getAgent (store\<lparr>ts_agents := jm_set a t (ts_agents store)\<rparr>) b = (if b = a then Some t else ts_getAgent store b)"
  by (simp add: ts_getAgent_def)

lemma at_apply_simps:
  "at_state (fst (at_apply t ops)) = run_ops (at_state t) ops" "at_agentId (fst (at_apply t ops)) = at_agentId t"
  by (simp_all add: at_apply_def Let_def prod.case_eq_if apply_loop_state)

lemma advances_apply: "advances entry a ops (fst (apply_to_agent a ops entry))"
proof -
  let ?store = "fst (ts_ensureAgent (le_store entry) a None)"
  let ?t = "case ts_getAgent ?store a of Some t \<Rightarrow> t | None \<Rightarrow> newAgentTranscript a"
  have e2: "fst (apply_to_agent a ops entry)
      = entry\<lparr>le_store := ?store\<lparr>ts_agents := jm_set a (fst (at_apply ?t ops)) (ts_agents ?store)\<rparr>\<rparr>"
    by (simp add: apply_to_agent_def Let_def prod.case_eq_if)
  have t: "at_state ?t = agent_state_of a entry" "store_ok (le_store entry) \<Longrightarrow> at_agentId ?t = a"
    by (auto simp: ensure_agent agent_state_of_def newAgentTranscript_def store_ok_def split: option.split)
  have "agent_state_of b (fst (apply_to_agent a ops entry))
      = (if b = a then run_ops (agent_state_of a entry) ops else agent_state_of b entry)" for b
    unfolding e2
    by (auto simp: agent_state_of_def at_apply_simps ensure_agent newAgentTranscript_def split: option.split)
  moreover have "store_ok (le_store (fst (apply_to_agent a ops entry)))" if "store_ok (le_store entry)"
    unfolding e2 using that t(2) by (auto simp: store_ok_def at_apply_simps ensure_agent)
  ultimately show ?thesis by (simp add: advances_def e2)
qed

lemma bind_agents_ok: "store_ok store \<Longrightarrow> (\<And>a t. ts_getAgent store a = Some t \<Longrightarrow> at_state t = EMPTY_AGENT_STATE) \<Longrightarrow>
  store_ok (bind_agents ref ids store) \<and> (\<forall>a t. ts_getAgent (bind_agents ref ids store) a = Some t \<longrightarrow> at_state t = EMPTY_AGENT_STATE)"
proof (induction ref ids store rule: bind_agents.induct)
  case (2 ref i ids store)
  let ?d = "Obj ref \<lparr>desc_agentId = i, desc_type = None, desc_parentAgentId = None, desc_label = None,
      desc_createdAt = None, desc_disposedAt = None\<rparr>"
  let ?s = "fst (ts_ensureAgent store i (Some ?d))"
  have get: "ts_getAgent ?s a = (if a = i \<and> ts_getAgent store i = None then Some (newAgentTranscript i) else ts_getAgent store a)" for a
    by (auto simp: ts_ensureAgent_def ts_getAgent_def Let_def split: option.split)
  have either: "ts_descriptors ?s = ts_descriptors store \<or> ts_descriptors ?s = jm_set i ?d (ts_descriptors store)"
    by (auto simp: ts_ensureAgent_def Let_def split: option.split)
  have keyed: "jm_ok (jm_set i ?d m) \<and> jm_keyed (\<lambda>d. desc_agentId (obj_val d)) (jm_set i ?d m)"
    if "jm_ok m" "jm_keyed (\<lambda>d. desc_agentId (obj_val d)) m" for m
    using that jm_keyed_set_self [of "\<lambda>d. desc_agentId (obj_val d)" m ?d] by (simp add: jm_ok_set)
  have ids: "at_agentId t = a" if "ts_getAgent ?s a = Some t" for a t
    using that "2.prems"(1) unfolding get by (auto simp: store_ok_def newAgentTranscript_def split: if_splits)
  have "jm_ok (ts_descriptors store)" "jm_keyed (\<lambda>d. desc_agentId (obj_val d)) (ts_descriptors store)"
    using "2.prems"(1) by (simp_all add: store_ok_def)
  then have kd: "jm_ok m \<and> jm_keyed (\<lambda>d. desc_agentId (obj_val d)) m"
    if "m = ts_descriptors store \<or> m = jm_set i ?d (ts_descriptors store)" for m
    using that keyed by blast
  have ok: "store_ok ?s" unfolding store_ok_def using kd [OF either] by (intro conjI allI impI ids) simp_all
  have "at_state t = EMPTY_AGENT_STATE" if "ts_getAgent ?s a = Some t" for a t
    using that "2.prems"(2) [of a t] unfolding get by (auto simp: newAgentTranscript_def split: if_splits)
  then show ?case unfolding bind_agents.simps by (rule "2.IH" [OF ok])
qed auto

section \<open>Delivering calls\<close>

definition knowing :: "agent_id \<Rightarrow> transcript_stream \<Rightarrow> session_state \<Rightarrow> session_state" where
  "knowing a stream st =
     st\<lparr>ss_transcriptStream := Some (stream\<lparr>str_knownAgents := js_set_add a (str_knownAgents stream)\<rparr>)\<rparr>"

lemma knowing_simps [simp]:
  "ss_targets (knowing a stream st) = ss_targets st" "ss_transcriptSeeded (knowing a stream st) = ss_transcriptSeeded st"
  "ss_transcriptStream (knowing a stream st) = Some (stream\<lparr>str_knownAgents := js_set_add a (str_knownAgents stream)\<rparr>)"
  by (simp_all add: knowing_def)

lemma roster_change_Cons:
  "roster_change sid sv store (d # ds) st =
     (case ss_transcriptStream st of
        None \<Rightarrow> (st, [])
      | Some stream \<Rightarrow>
          if desc_agentId (obj_val d) \<in> set (str_knownAgents stream) then roster_change sid sv store ds st
          else
            let st2 = knowing (desc_agentId (obj_val d)) stream st in
            (fst (roster_change sid sv store ds st2),
             (case ts_getAgent store (desc_agentId (obj_val d)) of None \<Rightarrow> []
              | Some t \<Rightarrow> reset_targets st2 sv sid (desc_agentId (obj_val d)) t)
             @ snd (roster_change sid sv store ds st2)))"
  by (simp add: Let_def prod.case_eq_if knowing_def split: option.split)

declare roster_change.simps(2) [simp del]

lemma roster_change_keeps:
  "ss_targets (fst (roster_change sid sv store ds st)) = ss_targets st
   \<and> ss_transcriptSeeded (fst (roster_change sid sv store ds st)) = ss_transcriptSeeded st
   \<and> map_option str_store (ss_transcriptStream (fst (roster_change sid sv store ds st))) = map_option str_store (ss_transcriptStream st)"
proof (induction ds arbitrary: st)
  case (Cons d ds)
  show ?case
  proof (cases "ss_transcriptStream st")
    case (Some stream)
    then show ?thesis
      using Cons.IH [of st] Cons.IH [of "knowing (desc_agentId (obj_val d)) stream st"]
      by (simp add: roster_change_Cons Let_def)
  qed (simp add: roster_change_Cons)
qed simp

lemma run_roster_keeps:
  "ss_targets (fst (run_roster sid sv calls st)) = ss_targets st
   \<and> ss_transcriptSeeded (fst (run_roster sid sv calls st)) = ss_transcriptSeeded st
   \<and> map_option str_store (ss_transcriptStream (fst (run_roster sid sv calls st))) = map_option str_store (ss_transcriptStream st)"
proof (induction calls arbitrary: st)
  case (Cons call calls)
  obtain l ds where call: "call = (l, ds)" by fastforce
  let ?store = "case jm_get (tv_live sv) sid of Some entry \<Rightarrow> le_store entry | None \<Rightarrow> newTranscriptStore sid"
  show ?case
    using Cons.IH [of "fst (roster_change sid sv ?store ds st)"] roster_change_keeps [of sid sv ?store ds st]
    by (simp add: call Let_def prod.case_eq_if)
qed simp

lemma run_call_keeps:
  "ss_targets (fst (run_call sid sv call st)) = ss_targets st
   \<and> ss_transcriptSeeded (fst (run_call sid sv call st)) = ss_transcriptSeeded st
   \<and> map_option str_store (ss_transcriptStream (fst (run_call sid sv call st))) = map_option str_store (ss_transcriptStream st)"
  using run_roster_keeps by (cases call) simp_all

lemma run_calls_keeps:
  "ss_targets (fst (run_calls sid sv calls st)) = ss_targets st
   \<and> ss_transcriptSeeded (fst (run_calls sid sv calls st)) = ss_transcriptSeeded st
   \<and> map_option str_store (ss_transcriptStream (fst (run_calls sid sv calls st))) = map_option str_store (ss_transcriptStream st)"
proof (induction calls arbitrary: st)
  case (Cons call calls)
  then show ?case
    using run_call_keeps [of sid sv call st] Cons.IH [of "fst (run_call sid sv call st)"]
    by (simp add: prod.case_eq_if)
qed simp

lemma delivered_simps [simp]:
  "ch_sv (delivered sid c r) = fst r" "ch_hist (delivered sid c r) = ch_hist c" "ch_whole (delivered sid c r) = ch_whole c"
  "ch_st (delivered sid c r) = fst (run_calls sid (fst r) (snd r) (ch_st c))"
  "ch_sent (delivered sid c r) = ch_sent c @ snd (run_calls sid (fst r) (snd r) (ch_st c))"
  by (simp_all add: delivered_def prod.case_eq_if)

lemma delivered_ok:
  assumes "jm_get (tv_live sv) sid = Some entry" "\<And>a. log_ok c entry a" "store_ok (le_store entry)" "jm_ok (ss_targets (ch_st c))"
    and "case jm_get (tv_opsListeners sv) sid of
           None \<Rightarrow> \<not> attached (ch_st c) (le_storeId entry)
         | Some ls \<Rightarrow> attached (ch_st c) (le_storeId entry) \<and> length ls = 1"
  shows "channel_ok sid (delivered sid c (sv, calls))"
proof -
  have "log_ok (delivered sid c (sv, calls)) entry a" for a using assms(2) by (simp add: log_ok_def)
  then show ?thesis
    using assms(1,3,4,5) run_calls_keeps [of sid sv calls "ch_st c"]
    by (auto simp: channel_ok_def attached_def split: option.splits)
qed

lemma put_entry_simps [simp]:
  "jm_get (tv_live (put_entry sid entry sv)) sid2 = (if sid2 = sid then Some entry else jm_get (tv_live sv) sid2)"
  "tv_opsListeners (put_entry sid entry sv) = tv_opsListeners sv"
  by (auto simp: put_entry_def)

lemma schedule_heals_keeps:
  "tv_live (schedule_heals sid a ops sv) = tv_live sv \<and> tv_opsListeners (schedule_heals sid a ops sv) = tv_opsListeners sv"
  by (induction sid a ops sv rule: schedule_heals.induct)
    (auto simp: scheduleTurnHeal_def Let_def split: transcript_op.splits)

text \<open>What a dispatch does to the service and calls, given the history of the agent\<close>

lemma dispatch_calls:
  assumes "jm_get (tv_live sv) sid = Some entry" "journal_of h (jm_get (le_opsJournals entry) a)"
    and "dispatchOps sid \<lparr>change_agentId = a, change_ops = ops\<rparr> sv = (sv2, calls)"
  shows "\<exists>j. jm_get (tv_live sv2) sid = Some (entry\<lparr>le_opsJournals := jm_set a j (le_opsJournals entry)\<rparr>) \<and> journal_of (h @ [ops]) (Some j)"
    and "tv_opsListeners sv2 = tv_opsListeners sv"
    and "calls = (case jm_get (tv_opsListeners sv) sid of None \<Rightarrow> []
                  | Some ls \<Rightarrow> [OpsCall ls \<lparr>change_agentId = a, change_ops = ops\<rparr> (Suc (length h))])"
proof -
  let ?j = "case jm_get (le_opsJournals entry) a of Some j \<Rightarrow> j | None \<Rightarrow> new_ops_journal"
  have "journal_holds h ?j"
    using assms(2) journal_holds_new by (auto simp: journal_of_def split: option.splits)
  note push = journal_holds_push [OF this, of ops]
  show "\<exists>j. jm_get (tv_live sv2) sid = Some (entry\<lparr>le_opsJournals := jm_set a j (le_opsJournals entry)\<rparr>) \<and> journal_of (h @ [ops]) (Some j)"
    and "tv_opsListeners sv2 = tv_opsListeners sv"
    and "calls = (case jm_get (tv_opsListeners sv) sid of None \<Rightarrow> []
                  | Some ls \<Rightarrow> [OpsCall ls \<lparr>change_agentId = a, change_ops = ops\<rparr> (Suc (length h))])"
    using assms(1,3) push
    by (auto simp: dispatchOps_def journalOps_def Let_def journal_of_def prod.case_eq_if split: option.splits)
qed

lemma recorded_simps [simp]:
  "ch_sv (recorded a ops c) = ch_sv c" "ch_st (recorded a ops c) = ch_st c" "ch_whole (recorded a ops c) = ch_whole c"
  "ch_sent (recorded a ops c) = ch_sent c" "ch_hist (recorded a ops c) = (ch_hist c)(a := ch_hist c a @ [ops])"
  by (simp_all add: recorded_def)

lemma dispatched_ok:
  assumes ok: "channel_ok sid c" and entry: "entry_of sid c = Some entry" and adv: "advances entry a ops entry2"
    and d: "dispatchOps sid \<lparr>change_agentId = a, change_ops = ops\<rparr> (put_entry sid entry2 (ch_sv c)) = (sv2, calls)"
    and same: "tv_live sv3 = tv_live sv2" "tv_opsListeners sv3 = tv_opsListeners sv2"
  shows "channel_ok sid (delivered sid (recorded a ops c) (sv3, calls))"
    and "ch_sent (delivered sid (recorded a ops c) (sv3, calls)) = ch_sent c @
           (case jm_get (tv_opsListeners (ch_sv c)) sid of None \<Rightarrow> [] | Some _ \<Rightarrow> fan_out (ch_st c) a ops (Suc (length (ch_hist c a))))"
    and "ch_st (delivered sid (recorded a ops c) (sv3, calls)) = ch_st c"
proof -
  have logs: "log_ok c entry b" for b using ok entry by (auto simp: channel_ok_def)
  have "journal_of (ch_hist c a) (jm_get (le_opsJournals entry2) a)" using logs [of a] adv by (simp add: log_ok_def advances_def)
  note dc = dispatch_calls [OF _ this d, of, simplified]
  obtain j where j: "jm_get (tv_live sv3) sid = Some (entry2\<lparr>le_opsJournals := jm_set a j (le_opsJournals entry2)\<rparr>)"
    "journal_of (ch_hist c a @ [ops]) (Some j)"
    using dc(1) same by auto
  let ?e = "entry2\<lparr>le_opsJournals := jm_set a j (le_opsJournals entry2)\<rparr>"
  have "log_ok (recorded a ops c) ?e b" for b
    using logs [of b] adv j(2) by (auto simp: log_ok_def advances_def agent_state_of_def)
  moreover have "store_ok (le_store ?e)" using ok entry adv by (auto simp: channel_ok_def advances_def)
  moreover have "le_storeId ?e = le_storeId entry" using adv by (simp add: advances_def)
  ultimately show "channel_ok sid (delivered sid (recorded a ops c) (sv3, calls))"
    using ok entry j(1) dc(2) same(2)
    by (intro delivered_ok [where entry = ?e]) (auto simp: channel_ok_def split: option.splits)
  have one: "length ls = 1" if "jm_get (tv_opsListeners (ch_sv c)) sid = Some ls" for ls
    using ok entry that by (auto simp: channel_ok_def)
  then have "concat (map (\<lambda>_. x) ls) = x" if "jm_get (tv_opsListeners (ch_sv c)) sid = Some ls" for ls and x :: "'b list"
    using one [OF that] by (cases ls) auto
  then show "ch_sent (delivered sid (recorded a ops c) (sv3, calls)) = ch_sent c @
           (case jm_get (tv_opsListeners (ch_sv c)) sid of None \<Rightarrow> [] | Some _ \<Rightarrow> fan_out (ch_st c) a ops (Suc (length (ch_hist c a))))"
    and "ch_st (delivered sid (recorded a ops c) (sv3, calls)) = ch_st c"
    using dc(3) by (auto split: option.split)
qed


text \<open>Calls that carry no batch\<close>

lemma quiet_ok:
  assumes "channel_ok sid c" "entry_of sid c = Some entry" "advances entry a [] entry2"
    and "jm_get (tv_live sv2) sid = Some entry2" "tv_opsListeners sv2 = tv_opsListeners (ch_sv c)"
  shows "channel_ok sid (delivered sid c (sv2, calls))"
proof -
  have "log_ok c entry2 b" for b
    using assms(1-3) by (auto simp: channel_ok_def log_ok_def advances_def agent_state_of_def)
  then show ?thesis
    using assms by (intro delivered_ok [where entry = entry2]) (auto simp: channel_ok_def advances_def split: option.splits)
qed

lemma describe_store_ok:
  assumes "store_ok store"
  shows "store_ok (fst (ts_describeAgent store d))" "ts_getAgent (fst (ts_describeAgent store d)) = ts_getAgent store"
proof -
  have "jm_keyed (\<lambda>d. desc_agentId (obj_val d)) (jm_set (desc_agentId (obj_val d)) d (ts_descriptors store))"
    using assms by (auto simp: store_ok_def intro: jm_keyed_set_self [of "\<lambda>d. desc_agentId (obj_val d)"])
  then show "store_ok (fst (ts_describeAgent store d))"
    using assms by (auto simp: ts_describeAgent_def Let_def store_ok_def jm_ok_set ts_getAgent_def)
  show "ts_getAgent (fst (ts_describeAgent store d)) = ts_getAgent store"
    by (auto simp: ts_describeAgent_def Let_def ts_getAgent_def fun_eq_iff)
qed

lemma ensure_stream:
  assumes "jm_get (tv_live sv) sid = Some entry" "ensureTranscriptStream listener sid (le_storeId entry) (le_store entry) (sv, st) = (sv2, st2)"
    and "case jm_get (tv_opsListeners sv) sid of
           None \<Rightarrow> \<not> attached st (le_storeId entry)
         | Some ls \<Rightarrow> attached st (le_storeId entry) \<and> length ls = 1"
  shows "\<exists>entry2. jm_get (tv_live sv2) sid = Some entry2 \<and> advances entry a [] entry2"
    and "\<exists>ls. jm_get (tv_opsListeners sv2) sid = Some ls \<and> length ls = 1"
    and "attached st2 (le_storeId entry)" "ss_targets st2 = ss_targets st" "ss_transcriptSeeded st2 = ss_transcriptSeeded st"
    and "attached st (le_storeId entry) \<Longrightarrow> sv2 = sv \<and> st2 = st"
proof -
  have on: "tv_live (onSessionOps l sid v) = tv_live v"
    "jm_get (tv_opsListeners (onSessionOps l sid v)) sid
       = Some (js_set_add l (case jm_get (tv_opsListeners v) sid of Some ls \<Rightarrow> ls | None \<Rightarrow> []))" for l v
    by (simp_all add: onSessionOps_def)
  have new: "advances entry a [] (entry\<lparr>le_store := ts_onRosterChange (le_store entry) listener\<rparr>)"
    by (auto simp: advances_def agent_state_of_def ts_onRosterChange_def ts_getAgent_def store_ok_def)
  show "\<exists>entry2. jm_get (tv_live sv2) sid = Some entry2 \<and> advances entry a [] entry2"
    and "\<exists>ls. jm_get (tv_opsListeners sv2) sid = Some ls \<and> length ls = 1"
    and "attached st2 (le_storeId entry)" "ss_targets st2 = ss_targets st" "ss_transcriptSeeded st2 = ss_transcriptSeeded st"
    and "attached st (le_storeId entry) \<Longrightarrow> sv2 = sv \<and> st2 = st"
    using assms new advances_refl [of entry a]
    by (auto simp: ensureTranscriptStream_def attached_def on js_set_add_def split: if_splits option.splits)
qed

lemma lands_inv:
  assumes "subscribeTranscript_lands listener sid live storeId store t prev since (sv, st) = ((sv2, st2), frames)"
  shows "(sv2 = sv \<and> st2 = st \<and> sub_grades (jm_get (ss_targets st) t) = None \<and> frames = [])
    \<or> (\<exists>spec. sub_grades (jm_get (ss_targets st) t) = Some spec
         \<and> ensureTranscriptStream listener sid storeId store (sv, st) = (sv2, st2)
         \<and> frames = concat (map (join_agent sid live sv2 st2 store spec prev since) (roster_ids store)))"
  using assms by (auto simp: subscribeTranscript_lands_def split: option.splits prod.splits)

lemma js_set_add_def_length: "length (js_set_add x []) = 1"
  by (simp add: js_set_add_def)

lemma delivered_nil: "delivered sid c (sv, []) = c\<lparr>ch_sv := sv\<rparr>"
  by (simp add: delivered_def)

lemma channel_ok_st:
  assumes "channel_ok sid c" "jm_ok (ss_targets st)" "map_option str_store (ss_transcriptStream st) = map_option str_store (ss_transcriptStream (ch_st c))"
  shows "channel_ok sid (c\<lparr>ch_st := st\<rparr>)"
proof -
  obtain entry where e: "entry_of sid c = Some entry" "\<And>a. log_ok c entry a" "store_ok (le_store entry)"
    "case jm_get (tv_opsListeners (ch_sv c)) sid of
       None \<Rightarrow> \<not> attached (ch_st c) (le_storeId entry)
     | Some ls \<Rightarrow> attached (ch_st c) (le_storeId entry) \<and> length ls = 1"
    using assms(1) unfolding channel_ok_def by blast
  have "log_ok (c\<lparr>ch_st := st\<rparr>) entry a" for a using e(2) [of a] by (simp add: log_ok_def)
  moreover have "attached st n = attached (ch_st c) n" for n using assms(3) by (simp add: attached_def)
  ultimately show ?thesis using e(1,3,4) assms(2) by (auto simp: channel_ok_def split: option.splits)
qed


section \<open>Every step is one of four kinds\<close>

definition same_roster :: "live_entry \<Rightarrow> live_entry \<Rightarrow> bool" where
  "same_roster e e2 \<longleftrightarrow>
     ts_descriptors (le_store e2) = ts_descriptors (le_store e)
     \<and> ts_rosterListeners (le_store e2) = ts_rosterListeners (le_store e)"

text \<open>The stream of the connections knows every agent of the roster and hears of the next.\<close>

definition knows :: "agent_id \<Rightarrow> session_state \<Rightarrow> bool" where
  "knows a st \<longleftrightarrow> (case ss_transcriptStream st of None \<Rightarrow> False | Some stream \<Rightarrow> a \<in> set (str_knownAgents stream))"

definition knows_roster :: "string \<Rightarrow> channel \<Rightarrow> bool" where
  "knows_roster sid c \<longleftrightarrow>
     (\<forall>entry. entry_of sid c = Some entry \<longrightarrow> attached (ch_st c) (le_storeId entry) \<longrightarrow>
        ts_rosterListeners (le_store entry) \<noteq> [] \<and> (\<forall>b \<in> set (roster_ids (le_store entry)). knows b (ch_st c)))"

lemma same_roster_refl: "same_roster e e"
  by (simp add: same_roster_def)

lemma same_roster_ensure: "same_roster e (e\<lparr>le_store := fst (ts_ensureAgent (le_store e) i None)\<rparr>)"
  by (auto simp: same_roster_def ts_ensureAgent_def Let_def split: option.split)

lemma same_roster_apply: "same_roster e (fst (apply_to_agent a ops e))"
  by (auto simp: same_roster_def apply_to_agent_def ts_ensureAgent_def Let_def prod.case_eq_if split: option.split)

lemma same_roster_trans: "same_roster e e2 \<Longrightarrow> same_roster e2 e3 \<Longrightarrow> same_roster e e3"
  by (simp add: same_roster_def)

lemma knows_roster_same:
  assumes "knows_roster sid c" "entry_of sid c = Some entry" "entry_of sid c2 = Some entry2" "same_roster entry entry2"
    and "le_storeId entry2 = le_storeId entry" "ss_transcriptStream (ch_st c2) = ss_transcriptStream (ch_st c)"
  shows "knows_roster sid c2"
  using assms by (auto simp: knows_roster_def same_roster_def attached_def knows_def roster_ids_def ts_agents_list_def)

definition dispatches :: "string \<Rightarrow> channel \<Rightarrow> agent_id \<Rightarrow> transcript_op list \<Rightarrow> channel \<Rightarrow> bool" where
  "dispatches sid c a ops c2 \<longleftrightarrow>
     (\<exists>entry entry2 sv2 sv3 calls. entry_of sid c = Some entry \<and> advances entry a ops entry2 \<and> same_roster entry entry2
        \<and> dispatchOps sid \<lparr>change_agentId = a, change_ops = ops\<rparr> (put_entry sid entry2 (ch_sv c)) = (sv2, calls)
        \<and> tv_live sv3 = tv_live sv2 \<and> tv_opsListeners sv3 = tv_opsListeners sv2
        \<and> c2 = delivered sid (recorded a ops c) (sv3, calls))"

lemma ensureAgentHistory_keeps:
  assumes "jm_get (tv_live sv) sid = Some entry"
  shows "\<exists>entry2. jm_get (tv_live (fst (ensureAgentHistory sid a sv))) sid = Some entry2 \<and> advances entry a [] entry2
      \<and> same_roster entry entry2"
    and "tv_opsListeners (fst (ensureAgentHistory sid a sv)) = tv_opsListeners sv"
  using assms by (auto simp: ensureAgentHistory_def advances_def agent_state_of_def same_roster_def)

fun roster_only :: "service_call \<Rightarrow> bool" where
  "roster_only (RosterCall _) = True"
| "roster_only (OpsCall _ _ _) = False"

definition describes_only :: "string \<Rightarrow> channel \<Rightarrow> channel \<Rightarrow> bool" where
  "describes_only sid c c2 \<longleftrightarrow>
     (\<exists>entry entry2 sv2 calls. entry_of sid c = Some entry \<and> advances entry [] [] entry2
        \<and> jm_get (tv_live sv2) sid = Some entry2 \<and> tv_opsListeners sv2 = tv_opsListeners (ch_sv c)
        \<and> (calls = [] \<and> (same_roster entry entry2 \<or> ts_rosterListeners (le_store entry) = []) \<or>
             calls = [RosterCall (emitRoster (le_store entry2))]
             \<and> ts_rosterListeners (le_store entry2) = ts_rosterListeners (le_store entry)) \<and> c2 = delivered sid c (sv2, calls))"

definition goes_gapped :: "string \<Rightarrow> channel \<Rightarrow> channel \<Rightarrow> bool" where
  "goes_gapped sid c c2 \<longleftrightarrow>
     (\<exists>entry entry2 a ops. entry_of sid c = Some entry \<and> advances entry a ops entry2 \<and> same_roster entry entry2
        \<and> c2 = c\<lparr>ch_sv := put_entry sid entry2 (ch_sv c), ch_whole := (ch_whole c)(a := False)\<rparr>)"

definition rearranges :: "string \<Rightarrow> channel \<Rightarrow> channel \<Rightarrow> bool" where
  "rearranges sid c c2 \<longleftrightarrow>
     channel_ok sid c2 \<and> ch_hist c2 = ch_hist c \<and> ch_sent c2 = ch_sent c \<and> ch_whole c2 = ch_whole c
     \<and> map_option le_storeId (entry_of sid c2) = map_option le_storeId (entry_of sid c)
     \<and> (\<forall>entry. entry_of sid c = Some entry \<longrightarrow> attached (ch_st c) (le_storeId entry) \<longrightarrow>
           ss_transcriptStream (ch_st c2) = ss_transcriptStream (ch_st c))
     \<and> (knows_roster sid c \<longrightarrow> knows_roster sid c2)"

lemma advances_any: "advances e a [] e2 \<Longrightarrow> advances e b [] e2"
  by (simp add: advances_def)

lemma leave_ok: "jm_ok (ss_targets st) \<Longrightarrow> jm_ok (ss_targets (leave_target t st))"
  by (simp add: leave_target_def jm_ok_delete)

lemma rearranges_st:
  "channel_ok sid c \<Longrightarrow> jm_ok (ss_targets st) \<Longrightarrow> ss_transcriptStream st = ss_transcriptStream (ch_st c) \<Longrightarrow>
   rearranges sid c (c\<lparr>ch_st := st\<rparr>)"
  by (simp add: rearranges_def channel_ok_st knows_roster_def attached_def knows_def)

lemma rearranges_sv:
  assumes "channel_ok sid c" "entry_of sid c = Some entry" "jm_get (tv_live sv) sid = Some entry2" "advances entry a [] entry2"
    and "tv_opsListeners sv = tv_opsListeners (ch_sv c)" "same_roster entry entry2"
  shows "rearranges sid c (c\<lparr>ch_sv := sv\<rparr>)"
  using quiet_ok [OF assms(1,2,4,3,5), of "[]"] assms(2-4)
    knows_roster_same [of sid c entry "c\<lparr>ch_sv := sv\<rparr>" entry2, OF _ assms(2) _ assms(6)]
  by (simp add: rearranges_def delivered_nil advances_def)

lemma lands_rearranges:
  assumes ok: "channel_ok sid c" and entry: "entry_of sid c = Some entry"
    and land: "subscribeTranscript_lands listener sid True (le_storeId entry) (le_store entry) t prev since (ch_sv c, ch_st c)
       = ((sv2, st2), frames)"
  shows "rearranges sid c (c\<lparr>ch_sv := sv2, ch_st := st2\<rparr>)"
  using lands_inv [OF land]
proof (elim disjE exE conjE)
  assume "sv2 = ch_sv c" "st2 = ch_st c"
  then have "c\<lparr>ch_sv := sv2, ch_st := st2\<rparr> = c" by simp
  then show ?thesis using ok by (simp add: rearranges_def)
next
  fix spec
  assume ens: "ensureTranscriptStream listener sid (le_storeId entry) (le_store entry) (ch_sv c, ch_st c) = (sv2, st2)"
  obtain old: "\<And>a. log_ok c entry a" "store_ok (le_store entry)" "jm_ok (ss_targets (ch_st c))"
    "case jm_get (tv_opsListeners (ch_sv c)) sid of
       None \<Rightarrow> \<not> attached (ch_st c) (le_storeId entry)
     | Some ls \<Rightarrow> attached (ch_st c) (le_storeId entry) \<and> length ls = 1"
    using ok entry by (auto simp: channel_ok_def)
  note es = ensure_stream [OF entry ens old(4)]
  obtain entry2 where e2: "jm_get (tv_live sv2) sid = Some entry2" "advances entry [] [] entry2" using es(1) by blast
  let ?c2 = "c\<lparr>ch_sv := sv2, ch_st := st2\<rparr>"
  have "log_ok ?c2 entry2 a" for a
    using old(1) [of a] e2(2) by (cases "a = []") (auto simp: log_ok_def advances_def)
  then have "channel_ok sid ?c2"
    using e2 es(2-4) old(2,3) by (auto simp: channel_ok_def advances_def)
  moreover have "knows_roster sid ?c2" if "knows_roster sid c"
  proof (cases "attached (ch_st c) (le_storeId entry)")
    case True
    then have "?c2 = c" using es(6) by simp
    then show ?thesis using that by simp
  next
    case False
    then have "sv2 = onSessionOps listener sid (put_entry sid (entry\<lparr>le_store := ts_onRosterChange (le_store entry) listener\<rparr>) (ch_sv c))"
      "ss_transcriptStream st2 = Some \<lparr>str_store = le_storeId entry, str_knownAgents = js_set_of (roster_ids (le_store entry))\<rparr>"
      using ens entry False unfolding ensureTranscriptStream_def attached_def by (auto split: if_splits)
    then show ?thesis
      by (auto simp: knows_roster_def knows_def onSessionOps_def ts_onRosterChange_def roster_ids_def ts_agents_list_def js_set_add_def
          set_js_set_of)
  qed
  ultimately show ?thesis using entry e2 es(6) by (auto simp: rearranges_def advances_def)
qed

lemma ch_sv_update_delivered: "(delivered sid c (sv, []))\<lparr>ch_whole := w\<rparr> = c\<lparr>ch_sv := sv, ch_whole := w\<rparr>"
  by (simp add: delivered_def)

lemma describes_onlyI:
  "entry_of sid c = Some entry \<Longrightarrow> advances entry [] [] entry2 \<Longrightarrow> jm_get (tv_live sv2) sid = Some entry2 \<Longrightarrow>
   tv_opsListeners sv2 = tv_opsListeners (ch_sv c) \<Longrightarrow>
   calls = [] \<and> (same_roster entry entry2 \<or> ts_rosterListeners (le_store entry) = []) \<or>
   calls = [RosterCall (emitRoster (le_store entry2))]
     \<and> ts_rosterListeners (le_store entry2) = ts_rosterListeners (le_store entry) \<Longrightarrow>
   c2 = delivered sid c (sv2, calls) \<Longrightarrow> describes_only sid c c2"
  unfolding describes_only_def by blast

lemma describe_roster:
  "ts_rosterListeners (fst (ts_describeAgent store d)) = ts_rosterListeners store
   \<and> (snd (ts_describeAgent store d) = []
        \<and> (ts_descriptors (fst (ts_describeAgent store d)) = ts_descriptors store \<or> ts_rosterListeners store = [])
      \<or> snd (ts_describeAgent store d) = emitRoster (fst (ts_describeAgent store d)))"
  by (simp add: ts_describeAgent_def Let_def)

lemma channel_step_kinds:
  assumes "channel_step sid c c2" "channel_ok sid c"
  shows "(\<exists>a ops. dispatches sid c a ops c2) \<or> describes_only sid c c2 \<or> goes_gapped sid c c2 \<or> rearranges sid c c2"
  using assms
proof (cases rule: channel_step.cases)
  case (live_batch entry ops a)
  let ?e = "fst (apply_to_agent a ops entry)"
  obtain sv2 calls where d: "dispatchOps sid \<lparr>change_agentId = a, change_ops = ops\<rparr> (put_entry sid ?e (ch_sv c)) = (sv2, calls)"
    by fastforce
  have "binding_applyOps sid a ops (ch_sv c) = (schedule_heals sid a ops sv2, calls)"
    using live_batch d by (simp add: binding_applyOps_def handleLiveOps_def Let_def prod.case_eq_if)
  then have "dispatches sid c a ops c2"
    unfolding dispatches_def
    using live_batch d advances_apply [of entry a ops] same_roster_apply [of entry a ops] schedule_heals_keeps by metis
  then show ?thesis by blast
next
  case (gapped_batch entry ops a)
  have "binding_applyOps sid a ops (ch_sv c) = (put_entry sid (fst (apply_to_agent a ops entry)) (ch_sv c), [])"
    using gapped_batch by (simp add: binding_applyOps_def Let_def prod.case_eq_if)
  then have "goes_gapped sid c c2"
    unfolding goes_gapped_def using gapped_batch advances_apply [of entry a ops] same_roster_apply [of entry a ops]
    by (metis ch_sv_update_delivered)
  then show ?thesis by blast
next
  case (replays entry ops activeTurnId snap a)
  let ?e = "entry\<lparr>le_store := fst (ts_ensureAgent (le_store entry) a None)\<rparr>"
  obtain sv2 calls where d: "dispatchOps sid \<lparr>change_agentId = a, change_ops = ops\<rparr>
      (put_entry sid (fst (apply_to_agent a ops ?e)) (ch_sv c)) = (sv2, calls)"
    by fastforce
  have "backfill_replay activeTurnId sid a (Some snap) (ch_sv c) = (sv2, calls)"
    using replays d by (simp add: backfill_replay_def Let_def)
  moreover have "advances entry a ops (fst (apply_to_agent a ops ?e))"
    using advances_trans [OF advances_ensure [of entry a a] advances_apply [of ?e a ops]] by simp
  moreover have "same_roster entry (fst (apply_to_agent a ops ?e))"
    by (rule same_roster_trans [OF same_roster_ensure same_roster_apply])
  ultimately have "dispatches sid c a ops c2" unfolding dispatches_def using replays d by metis
  then show ?thesis by blast
next
  case (replays_nothing activeTurnId a)
  obtain entry where e: "entry_of sid c = Some entry" using assms(2) by (auto simp: channel_ok_def)
  have "backfill_replay activeTurnId sid a None (ch_sv c)
      = (put_entry sid (entry\<lparr>le_store := fst (ts_ensureAgent (le_store entry) a None)\<rparr>) (ch_sv c), [])"
    using e by (simp add: backfill_replay_def Let_def)
  then have "rearranges sid c c2"
    using replays_nothing rearranges_sv [OF assms(2) e _ advances_ensure _ same_roster_ensure] by (simp add: delivered_nil)
  then show ?thesis by blast
next
  case (describes entry d)
  let ?r = "ts_describeAgent (le_store entry) d"
  have "store_ok (le_store entry)" using assms(2) describes(2) by (auto simp: channel_ok_def)
  then have "advances entry [] [] (entry\<lparr>le_store := fst ?r\<rparr>)"
    by (simp add: advances_def agent_state_of_def describe_store_ok)
  moreover have "with_store sid ?r (ch_sv c) = (put_entry sid (entry\<lparr>le_store := fst ?r\<rparr>) (ch_sv c),
      if snd ?r = [] then [] else [RosterCall (snd ?r)])"
    using describes(2) by (simp add: with_store_def)
  ultimately have "describes_only sid c c2"
    using describes describe_roster [of "le_store entry" d]
    by (intro describes_onlyI [where entry = entry and ?entry2.0 = "entry\<lparr>le_store := fst ?r\<rparr>"
          and ?sv2.0 = "put_entry sid (entry\<lparr>le_store := fst ?r\<rparr>) (ch_sv c)"
          and calls = "if snd ?r = [] then [] else [RosterCall (snd ?r)]"])
      (auto simp: same_roster_def emitRoster_def)
  then show ?thesis by blast
next
  case (heals entry a t ops ordinals snap)
  let ?e = "fst (apply_to_agent a ops entry)"
  obtain sv2 calls where d: "dispatchOps sid \<lparr>change_agentId = a, change_ops = ops\<rparr> (put_entry sid ?e (ch_sv c)) = (sv2, calls)"
    by fastforce
  have "healEndedTurns sid (le_storeId entry) a ordinals (Some snap) (ch_sv c) = (sv2, calls)"
    using heals d by (simp add: healEndedTurns_def Let_def)
  then have "dispatches sid c a ops c2"
    unfolding dispatches_def using heals d advances_apply [of entry a ops] same_roster_apply [of entry a ops] by metis
  then show ?thesis by blast
next
  case (asks_history a)
  obtain entry where e: "entry_of sid c = Some entry" using assms(2) by (auto simp: channel_ok_def)
  obtain e2 where "jm_get (tv_live (fst (ensureAgentHistory sid a (ch_sv c)))) sid = Some e2" "advances entry a [] e2" "same_roster entry e2"
    using ensureAgentHistory_keeps(1) [OF e] by blast
  then have "rearranges sid c c2"
    using asks_history rearranges_sv [OF assms(2) e] ensureAgentHistory_keeps(2) [OF e] by simp
  then show ?thesis by blast
next
  case (timer key)
  obtain entry where e: "entry_of sid c = Some entry" using assms(2) by (auto simp: channel_ok_def)
  then have "rearranges sid c c2"
    using timer rearranges_sv [OF assms(2) e _ advances_refl _ same_roster_refl] by (simp add: healTimerFires_def)
  then show ?thesis by blast
next
  case (event j)
  then have "rearranges sid c c2"
    using assms(2) rearranges_st [OF assms(2), of "(ch_st c)\<lparr>ss_journal := j\<rparr>"] by (auto simp: channel_ok_def)
  then show ?thesis by blast
next
  case (joins agents t flt grades opts)
  have "jm_ok (ss_targets (ch_st c))" using assms(2) by (auto simp: channel_ok_def)
  then have "rearranges sid c c2"
    using joins rearranges_st [OF assms(2), of "join_target agents t flt grades opts (ch_st c)"]
    by (simp add: join_target_def Let_def jm_ok_set split: option.split)
  then show ?thesis by blast
next
  case (lands entry listener t prev since sv2 st2 frames)
  then show ?thesis using lands_rearranges [OF assms(2) lands(2,3)] by simp
next
  case (takes_seed t)
  have "jm_ok (ss_targets (ch_st c))" using assms(2) by (auto simp: channel_ok_def)
  then have "rearranges sid c c2"
    using takes_seed rearranges_st [OF assms(2),
        of "(ch_st c)\<lparr>ss_deferredTranscriptSeeds := jm_delete t (ss_deferredTranscriptSeeds (ch_st c))\<rparr>"] by simp
  then show ?thesis by blast
next
  case (seeds t)
  have "jm_ok (ss_targets (ch_st c))" using assms(2) by (auto simp: channel_ok_def)
  then have "rearranges sid c c2"
    using seeds rearranges_st [OF assms(2), of "mark_seeded t (ch_st c)"] by (simp add: mark_seeded_def)
  then show ?thesis by blast
next
  case (leaves t)
  have "jm_ok (ss_targets (ch_st c))" using assms(2) by (auto simp: channel_ok_def)
  then have "rearranges sid c c2"
    using leaves rearranges_st [OF assms(2), of "leave_target t (ch_st c)"] by (simp add: leave_target_def jm_ok_delete)
  then show ?thesis by blast
next
  case (detaches t ids)
  have "jm_ok (ss_targets (ch_st c))" using assms(2) by (auto simp: channel_ok_def)
  then have "rearranges sid c c2"
    using detaches rearranges_st [OF assms(2), of "detach_target t ids (ch_st c)"]
    by (simp add: detach_target_def Let_def jm_ok_set split: option.split)
  then show ?thesis by blast
qed

section \<open>The invariant holds\<close>

lemma channel_step_ok:
  assumes "channel_step sid c c2" "channel_ok sid c"
  shows "channel_ok sid c2"
  using channel_step_kinds [OF assms]
proof (elim disjE exE)
  fix a ops
  assume "dispatches sid c a ops c2"
  then show ?thesis unfolding dispatches_def using dispatched_ok(1) [OF assms(2)] by blast
next
  assume "describes_only sid c c2"
  then show ?thesis unfolding describes_only_def using quiet_ok [OF assms(2)] advances_any by metis
next
  assume "goes_gapped sid c c2"
  then obtain entry entry2 a ops where g: "entry_of sid c = Some entry" "advances entry a ops entry2"
    "c2 = c\<lparr>ch_sv := put_entry sid entry2 (ch_sv c), ch_whole := (ch_whole c)(a := False)\<rparr>"
    unfolding goes_gapped_def by blast
  have "log_ok c2 entry2 b" for b
    using assms(2) g by (auto simp: channel_ok_def log_ok_def advances_def)
  then show ?thesis using assms(2) g by (auto simp: channel_ok_def advances_def split: option.splits)
qed (simp add: rearranges_def)

lemma new_store_ok: "store_ok (newTranscriptStore sid)" "ts_getAgent (newTranscriptStore sid) a = None"
  by (simp_all add: store_ok_def newTranscriptStore_def ts_getAgent_def jm_keyed_def)

lemma channel_start_ok:
  assumes "map_option str_store (ss_transcriptStream st) \<noteq> Some storeId" "jm_ok (ss_targets st)"
  shows "channel_ok sid (channel_start sid storeId ref ids st)"
proof -
  let ?store = "bind_agents ref ids (newTranscriptStore sid)"
  let ?entry = "\<lparr>le_storeId = storeId, le_store = ?store, le_agentBackfills = [], le_opsJournals = []\<rparr>"
  have b: "store_ok ?store" "\<And>a t. ts_getAgent ?store a = Some t \<Longrightarrow> at_state t = EMPTY_AGENT_STATE"
    using bind_agents_ok [OF new_store_ok(1), of sid ref ids] by (simp_all add: new_store_ok(2))
  have "agent_state_of a ?entry = EMPTY_AGENT_STATE" for a
    using b(2) by (simp add: agent_state_of_def split: option.split)
  then show ?thesis
    using assms b(1)
    by (auto simp: channel_ok_def channel_start_def forSessionLive_def newTranscriptService_def Let_def log_ok_def
        journal_of_def attached_def)
qed

lemma channel_reachable_ok: "channel_reachable sid c \<Longrightarrow> channel_ok sid c"
  by (induction rule: channel_reachable.induct) (simp_all add: channel_start_ok channel_step_ok)

end
