(* ===== verification/ReplicaSync.thy ===== *)
theory ReplicaSync
  imports TranscriptMachine
begin

text \<open>
  What the machine of \<open>TranscriptMachine\<close> sends one connection about one agent: while the connection stays at its
  grade, exactly the batches of the agent, clipped and in order; when it joins with a cursor the journal covers,
  exactly the batches after the cursor but for those dispatched before it is seeded; and what a replica makes of them.
\<close>

section \<open>What one connection is sent about one agent\<close>

fun msg_agent :: "transcript_msg \<Rightarrow> agent_id" where
  "msg_agent (ResetMsg a _ _ _) = a"
| "msg_agent (OpsMsg a _ _) = a"

definition msgs_for :: "string \<Rightarrow> agent_id \<Rightarrow> (string \<times> transcript_envelope) list \<Rightarrow> transcript_msg list" where
  "msgs_for t a sends = filter (\<lambda>m. msg_agent m = a) (map (\<lambda>p. tx_msg (snd p)) (filter (\<lambda>p. fst p = t) sends))"

definition ops_msgs :: "agent_id \<Rightarrow> (nat \<times> transcript_op list) list \<Rightarrow> transcript_msg list" where
  "ops_msgs a bs = map (\<lambda>(seq, ops). OpsMsg a ops seq) bs"

text \<open>The connection is seeded and has the agent at a grade; the stream of the session knows the agent.\<close>

definition subscribed_at :: "channel \<Rightarrow> string \<Rightarrow> agent_id \<Rightarrow> transcript_grade \<Rightarrow> bool" where
  "subscribed_at c t a g \<longleftrightarrow>
     t \<in> set (ss_transcriptSeeded (ch_st c))
     \<and> (case jm_get (ss_targets (ch_st c)) t of None \<Rightarrow> False | Some sub \<Rightarrow> gradeFor (sub_transcriptGrades sub) a = g)"

definition attends :: "string \<Rightarrow> channel \<Rightarrow> agent_id \<Rightarrow> bool" where
  "attends sid c a \<longleftrightarrow>
     (case (entry_of sid c, ss_transcriptStream (ch_st c)) of
        (Some entry, Some stream) \<Rightarrow> str_store stream = le_storeId entry \<and> a \<in> set (str_knownAgents stream)
      | _ \<Rightarrow> False)"

inductive stays_at :: "string \<Rightarrow> string \<Rightarrow> agent_id \<Rightarrow> transcript_grade \<Rightarrow> channel \<Rightarrow> channel \<Rightarrow> bool" for sid t a g where
  here: "subscribed_at c t a g \<Longrightarrow> stays_at sid t a g c c"
| onward: "stays_at sid t a g c c2 \<Longrightarrow> channel_step sid c2 c3 \<Longrightarrow> subscribed_at c3 t a g \<Longrightarrow> stays_at sid t a g c c3"

lemma msgs_for_append [simp]: "msgs_for t a (xs @ ys) = msgs_for t a xs @ msgs_for t a ys"
  by (simp add: msgs_for_def)

lemma msgs_for_Nil [simp]: "msgs_for t a [] = []"
  by (simp add: msgs_for_def)

lemma ops_msgs_append [simp]: "ops_msgs a (xs @ ys) = ops_msgs a xs @ ops_msgs a ys"
  by (simp add: ops_msgs_def)

lemma clip_batches_append [simp]: "clip_batches g (xs @ ys) = clip_batches g xs @ clip_batches g ys"
  by (simp add: clip_batches_def)

text \<open>A send per subscription touches its own connection only.\<close>

lemma map_filter_own:
  assumes "distinct (map fst m)" "\<And>k v p. f (k, v) = Some p \<Longrightarrow> fst p = k"
  shows "filter (\<lambda>p. fst p = t) (List.map_filter f m)
    = (case map_of m t of None \<Rightarrow> [] | Some v \<Rightarrow> (case f (t, v) of None \<Rightarrow> [] | Some p \<Rightarrow> [p]))"
  using assms(1)
proof (induction m)
  case (Cons e m)
  obtain k v where e: "e = (k, v)" by fastforce
  have absent: "map_of m k = None" using Cons.prems e by (simp add: map_of_eq_None_iff)
  show ?case
    using Cons absent assms(2) [of k v] by (cases "f (k, v)") (auto simp: e split: option.splits)
qed simp

lemma fan_out_msgs:
  assumes "jm_ok (ss_targets (ch_st c))" "subscribed_at c t a g"
  shows "msgs_for t a (fan_out (ch_st c) b ops seq) = (if b = a then ops_msgs a (clip_batches g [(seq, ops)]) else [])"
proof -
  obtain sub where sub: "jm_get (ss_targets (ch_st c)) t = Some sub" "gradeFor (sub_transcriptGrades sub) a = g"
    "t \<in> set (ss_transcriptSeeded (ch_st c))"
    using assms(2) by (auto simp: subscribed_at_def split: option.splits)
  have "filter (\<lambda>p. fst p = t) (fan_out (ch_st c) b ops seq)
      = (let filtered = filterOpsForGrade (gradeFor (sub_transcriptGrades sub) b) ops
         in if filtered = [] then [] else [(t, buildTranscriptEnvelope (ch_st c) (OpsMsg b filtered seq))])"
    unfolding fan_out_def
    by (subst map_filter_own) (use assms(1) sub in \<open>auto simp: jm_ok_def jm_get_def Let_def split: if_splits\<close>)
  then show ?thesis
    using sub(2) by (simp add: msgs_for_def ops_msgs_def clip_batches_def Let_def buildTranscriptEnvelope_def)
qed

text \<open>The roster says nothing about an agent the stream knows, and forgets none.\<close>

lemma reset_targets_agent: "at_agentId t = b \<Longrightarrow> e \<in> set (reset_targets st sv sid b t) \<Longrightarrow> msg_agent (tx_msg (snd e)) = b"
  by (auto simp: reset_targets_def List.map_filter_def sendTranscriptReset_def buildTranscriptEnvelope_def Let_def split: if_splits)

lemma msgs_for_other: "(\<And>e. e \<in> set xs \<Longrightarrow> msg_agent (tx_msg (snd e)) \<noteq> a) \<Longrightarrow> msgs_for t a xs = []"
  by (auto simp: msgs_for_def filter_empty_conv)

lemma roster_change_msgs:
  assumes "\<And>b u. ts_getAgent store b = Some u \<Longrightarrow> at_agentId u = b" "knows a st"
  shows "msgs_for t a (snd (roster_change sid sv store ds st)) = [] \<and> knows a (fst (roster_change sid sv store ds st))"
  using assms(2)
proof (induction ds arbitrary: st)
  case (Cons d ds)
  obtain stream where stream: "ss_transcriptStream st = Some stream" "a \<in> set (str_knownAgents stream)"
    using Cons.prems by (auto simp: knows_def split: option.splits)
  let ?b = "desc_agentId (obj_val d)"
  show ?case
  proof (cases "?b \<in> set (str_knownAgents stream)")
    case True
    then show ?thesis using Cons stream by (simp add: roster_change_Cons)
  next
    case False
    then have ne: "?b \<noteq> a" using stream by blast
    have k: "knows a (knowing ?b stream st)" using stream by (simp add: knows_def js_set_add_def)
    have "msgs_for t a (case ts_getAgent store ?b of None \<Rightarrow> [] | Some u \<Rightarrow> reset_targets (knowing ?b stream st) sv sid ?b u) = []"
    proof (cases "ts_getAgent store ?b")
      case (Some u)
      have "msg_agent (tx_msg (snd e)) \<noteq> a" if "e \<in> set (reset_targets (knowing ?b stream st) sv sid ?b u)" for e
        using reset_targets_agent [OF assms(1) [OF Some] that] ne by simp
      then show ?thesis using Some by (simp add: msgs_for_other)
    qed simp
    then show ?thesis using Cons.IH [OF k] False stream by (simp add: roster_change_Cons Let_def)
  qed
qed simp

lemma run_roster_msgs:
  assumes "case jm_get (tv_live sv) sid of None \<Rightarrow> True | Some entry \<Rightarrow> store_ok (le_store entry)" "knows a st"
  shows "msgs_for t a (snd (run_roster sid sv calls st)) = [] \<and> knows a (fst (run_roster sid sv calls st))"
  using assms(2)
proof (induction calls arbitrary: st)
  case (Cons call calls)
  obtain l ds where call: "call = (l, ds)" by fastforce
  let ?store = "case jm_get (tv_live sv) sid of Some entry \<Rightarrow> le_store entry | None \<Rightarrow> newTranscriptStore sid"
  have "at_agentId u = b" if "ts_getAgent ?store b = Some u" for b u
    using that assms(1) new_store_ok(2) by (auto simp: store_ok_def split: option.splits)
  note rc = roster_change_msgs [OF this Cons.prems, where t = t and sid = sid and sv = sv and ds = ds]
  then show ?case using Cons.IH [of "fst (roster_change sid sv ?store ds st)"] by (simp add: call Let_def prod.case_eq_if)
qed simp

lemma roster_only_msgs:
  assumes "list_all roster_only calls" "knows a st"
    and "case jm_get (tv_live sv) sid of None \<Rightarrow> True | Some entry \<Rightarrow> store_ok (le_store entry)"
  shows "msgs_for t a (snd (run_calls sid sv calls st)) = [] \<and> knows a (fst (run_calls sid sv calls st))"
  using assms(1,2)
proof (induction calls arbitrary: st)
  case (Cons call calls)
  obtain rs where rs: "call = RosterCall rs" using Cons.prems(1) by (cases call) auto
  have first: "msgs_for t a (snd (run_roster sid sv rs st)) = [] \<and> knows a (fst (run_roster sid sv rs st))"
    by (rule run_roster_msgs [OF assms(3) Cons.prems(2)])
  then show ?case
    using Cons.IH [of "fst (run_roster sid sv rs st)"] Cons.prems(1) by (simp add: rs prod.case_eq_if)
qed simp

section \<open>Exactly the batches, in order\<close>

lemma attends_alt:
  "attends sid c a \<longleftrightarrow> (\<exists>entry. entry_of sid c = Some entry \<and> attached (ch_st c) (le_storeId entry) \<and> knows a (ch_st c))"
  by (auto simp: attends_def attached_def knows_def split: option.splits)

lemma dispatches_exact:
  assumes ok: "channel_ok sid c" and d: "dispatches sid c b ops c2" and at: "attends sid c a"
  shows "ch_hist c2 a = ch_hist c a @ (if b = a then [ops] else [])"
    and "ch_sent c2 = ch_sent c @ fan_out (ch_st c) b ops (Suc (length (ch_hist c b)))"
    and "attends sid c2 a"
proof -
  obtain entry entry2 sv2 sv3 calls where u: "entry_of sid c = Some entry" "advances entry b ops entry2"
    "dispatchOps sid \<lparr>change_agentId = b, change_ops = ops\<rparr> (put_entry sid entry2 (ch_sv c)) = (sv2, calls)"
    "tv_live sv3 = tv_live sv2" "tv_opsListeners sv3 = tv_opsListeners sv2" "c2 = delivered sid (recorded b ops c) (sv3, calls)"
    using d unfolding dispatches_def by blast
  note dd = dispatched_ok [OF ok u(1-5)]
  show "ch_hist c2 a = ch_hist c a @ (if b = a then [ops] else [])" using u(6) by simp
  have "jm_get (tv_opsListeners (ch_sv c)) sid \<noteq> None"
    using ok u(1) at by (auto simp: channel_ok_def attends_alt split: option.splits)
  then show "ch_sent c2 = ch_sent c @ fan_out (ch_st c) b ops (Suc (length (ch_hist c b)))"
    using dd(2) u(6) by auto
  have st: "ch_st c2 = ch_st c" using dd(3) u(6) by simp
  have "journal_of (ch_hist c b) (jm_get (le_opsJournals entry2) b)" 
    using ok u(1,2) by (auto simp: channel_ok_def log_ok_def advances_def)
  then obtain j where "entry_of sid c2 = Some (entry2\<lparr>le_opsJournals := jm_set b j (le_opsJournals entry2)\<rparr>)"
    using dispatch_calls(1) [OF _ _ u(3), of entry2 "ch_hist c b"] u(4,6) by auto
  then show "attends sid c2 a" using at st u(1,2) by (auto simp: attends_alt advances_def)
qed

lemma fan_out_agent: "e \<in> set (fan_out st b ops seq) \<Longrightarrow> msg_agent (tx_msg (snd e)) = b"
  by (auto simp: fan_out_def List.map_filter_def buildTranscriptEnvelope_def Let_def split: if_splits)

lemma fan_out_other: "b \<noteq> a \<Longrightarrow> msgs_for t a (fan_out st b ops seq) = []"
  by (rule msgs_for_other) (auto dest: fan_out_agent)

lemma fan_out_unseeded: "t \<notin> set (ss_transcriptSeeded st) \<Longrightarrow> msgs_for t a (fan_out st b ops seq) = []"
  by (auto simp: msgs_for_def fan_out_def List.map_filter_def filter_empty_conv Let_def split: if_splits)

text \<open>What one step dispatches and sends about an agent the stream knows: a batch of it and its fan-out, or nothing.\<close>

lemma step_sends:
  assumes ok: "channel_ok sid c" and step: "channel_step sid c c2" and at: "attends sid c a"
  shows "attends sid c2 a \<and>
    (\<exists>more sends. ch_hist c2 a = ch_hist c a @ more \<and> ch_sent c2 = ch_sent c @ sends \<and>
       (more = [] \<and> msgs_for t a sends = [] \<or>
        (\<exists>ops. more = [ops] \<and> sends = fan_out (ch_st c) a ops (Suc (length (ch_hist c a))))))"
  using channel_step_kinds [OF step ok]
proof (elim disjE exE)
  fix b ops
  assume d: "dispatches sid c b ops c2"
  note de = dispatches_exact [OF ok d at]
  show ?thesis
  proof (cases "b = a")
    case False
    then show ?thesis using de fan_out_other [OF False] by simp
  qed (use de in auto)
next
  assume "describes_only sid c c2"
  then obtain entry entry2 sv2 calls where u: "entry_of sid c = Some entry" "advances entry [] [] entry2"
    "jm_get (tv_live sv2) sid = Some entry2" "calls = [] \<or> (\<exists>r. calls = [RosterCall r])" "c2 = delivered sid c (sv2, calls)"
    unfolding describes_only_def by blast
  then have only: "list_all roster_only calls" by auto
  have "store_ok (le_store entry2)" using ok u(1,2) by (auto simp: channel_ok_def advances_def)
  then have r: "msgs_for t a (snd (run_calls sid sv2 calls (ch_st c))) = []" "knows a (fst (run_calls sid sv2 calls (ch_st c)))"
    using roster_only_msgs [OF only, of a "ch_st c" sv2 sid t] u(3) at by (auto simp: attends_alt)
  have "attends sid c2 a"
    using at u r(2) run_calls_keeps [of sid sv2 calls "ch_st c"] by (auto simp: attends_alt attached_def advances_def)
  then show ?thesis using u(5) r(1) by auto
next
  assume "goes_gapped sid c c2"
  then show ?thesis using at by (auto simp: goes_gapped_def attends_alt advances_def)
next
  assume r: "rearranges sid c c2"
  have "attends sid c2 a"
    using at r by (auto simp: attends_alt rearranges_def attached_def knows_def)
  then show ?thesis using r by (auto simp: rearranges_def)
qed

lemma stays_step:
  assumes ok: "channel_ok sid c" and step: "channel_step sid c c2" and at: "attends sid c a" and sub: "subscribed_at c t a g"
  shows "attends sid c2 a"
    and "\<exists>more sends. ch_hist c2 a = ch_hist c a @ more \<and> ch_sent c2 = ch_sent c @ sends
           \<and> msgs_for t a sends = ops_msgs a (clip_batches g (enumerate (Suc (length (ch_hist c a))) more))"
proof -
  have targets: "jm_ok (ss_targets (ch_st c))" using ok by (auto simp: channel_ok_def)
  show "attends sid c2 a" using step_sends [OF ok step at] by blast
  obtain more sends where m: "ch_hist c2 a = ch_hist c a @ more" "ch_sent c2 = ch_sent c @ sends"
    "more = [] \<and> msgs_for t a sends = [] \<or> (\<exists>ops. more = [ops] \<and> sends = fan_out (ch_st c) a ops (Suc (length (ch_hist c a))))"
    using step_sends [OF ok step at, of t] by blast
  then show "\<exists>more sends. ch_hist c2 a = ch_hist c a @ more \<and> ch_sent c2 = ch_sent c @ sends
           \<and> msgs_for t a sends = ops_msgs a (clip_batches g (enumerate (Suc (length (ch_hist c a))) more))"
    using fan_out_msgs [OF targets sub]
    by (intro exI [of _ more] exI [of _ sends]) (auto simp: ops_msgs_def clip_batches_def)
qed

lemma stays_exact:
  assumes "stays_at sid t a g c c2" "channel_ok sid c" "attends sid c a"
  shows "channel_ok sid c2 \<and> attends sid c2 a \<and> subscribed_at c2 t a g
    \<and> (\<exists>more sends. ch_hist c2 a = ch_hist c a @ more \<and> ch_sent c2 = ch_sent c @ sends
        \<and> msgs_for t a sends = ops_msgs a (clip_batches g (enumerate (Suc (length (ch_hist c a))) more)))"
  using assms
proof (induction rule: stays_at.induct)
  case (here c)
  then show ?case by (auto simp: ops_msgs_def clip_batches_def)
next
  case (onward c c2 c3)
  then have mid: "channel_ok sid c2" "attends sid c2 a" by blast+
  have sub: "subscribed_at c2 t a g" using onward by blast
  obtain more sends where m: "ch_hist c2 a = ch_hist c a @ more" "ch_sent c2 = ch_sent c @ sends"
    "msgs_for t a sends = ops_msgs a (clip_batches g (enumerate (Suc (length (ch_hist c a))) more))"
    using onward by blast
  obtain more' sends' where n: "ch_hist c3 a = ch_hist c2 a @ more'" "ch_sent c3 = ch_sent c2 @ sends'"
    "msgs_for t a sends' = ops_msgs a (clip_batches g (enumerate (Suc (length (ch_hist c2 a))) more'))"
    using stays_step(2) [OF mid(1) onward.hyps(2) mid(2) sub] by blast
  show ?case
    using onward.hyps(3) channel_step_ok [OF onward.hyps(2) mid(1)] stays_step(1) [OF mid(1) onward.hyps(2) mid(2) sub] m n
    by (intro conjI exI [of _ "more @ more'"] exI [of _ "sends @ sends'"]) (simp_all add: enumerate_append_eq)
qed

section \<open>Before it is seeded\<close>

text \<open>
  The connection is not seeded yet: what happens between the landing of its \<open>subscribeTranscript\<close> and the step that
  marks it. Nothing that is dispatched then is sent to it.
\<close>

inductive waits_unseeded :: "string \<Rightarrow> string \<Rightarrow> channel \<Rightarrow> channel \<Rightarrow> bool" for sid t where
  waiting: "t \<notin> set (ss_transcriptSeeded (ch_st c)) \<Longrightarrow> waits_unseeded sid t c c"
| meanwhile: "waits_unseeded sid t c c2 \<Longrightarrow> channel_step sid c2 c3 \<Longrightarrow> t \<notin> set (ss_transcriptSeeded (ch_st c3)) \<Longrightarrow>
    waits_unseeded sid t c c3"

lemma waits_silent:
  assumes "waits_unseeded sid t c c2" "channel_ok sid c" "attends sid c a"
  shows "channel_ok sid c2 \<and> attends sid c2 a \<and> t \<notin> set (ss_transcriptSeeded (ch_st c2))
    \<and> (\<exists>more sends. ch_hist c2 a = ch_hist c a @ more \<and> ch_sent c2 = ch_sent c @ sends \<and> msgs_for t a sends = [])"
  using assms
proof (induction rule: waits_unseeded.induct)
  case (waiting c)
  then show ?case by auto
next
  case (meanwhile c c2 c3)
  then have mid: "channel_ok sid c2" "attends sid c2 a" "t \<notin> set (ss_transcriptSeeded (ch_st c2))" by blast+
  obtain more sends where m: "ch_hist c2 a = ch_hist c a @ more" "ch_sent c2 = ch_sent c @ sends" "msgs_for t a sends = []"
    using meanwhile by blast
  obtain more' sends' where n: "ch_hist c3 a = ch_hist c2 a @ more'" "ch_sent c3 = ch_sent c2 @ sends'"
    "more' = [] \<and> msgs_for t a sends' = [] \<or> (\<exists>ops. more' = [ops] \<and> sends' = fan_out (ch_st c2) a ops (Suc (length (ch_hist c2 a))))"
    using step_sends [OF mid(1) meanwhile.hyps(2) mid(2), of t] by blast
  then have "msgs_for t a sends' = []" using fan_out_unseeded [OF mid(3)] by auto
  then show ?case
    using m n step_sends [OF mid(1) meanwhile.hyps(2) mid(2)] channel_step_ok [OF meanwhile.hyps(2) mid(1)] meanwhile.hyps(3)
    by (intro conjI exI [of _ "more @ more'"] exI [of _ "sends @ sends'"]) simp_all
qed

section \<open>The stream knows the roster\<close>

lemma roster_change_knows:
  "ss_transcriptStream st \<noteq> None \<Longrightarrow>
   ss_transcriptStream (fst (roster_change sid sv store ds st)) \<noteq> None
   \<and> (\<forall>b. knows b st \<or> b \<in> (\<lambda>d. desc_agentId (obj_val d)) ` set ds \<longrightarrow> knows b (fst (roster_change sid sv store ds st)))"
proof (induction ds arbitrary: st)
  case (Cons d ds)
  obtain stream where stream: "ss_transcriptStream st = Some stream" using Cons.prems by blast
  let ?b = "desc_agentId (obj_val d)"
  show ?case
  proof (cases "?b \<in> set (str_knownAgents stream)")
    case True
    then have "knows ?b st" using stream by (simp add: knows_def)
    then show ?thesis using Cons.IH [OF Cons.prems] True stream by (auto simp: roster_change_Cons)
  next
    case False
    have "knows b (knowing ?b stream st) \<longleftrightarrow> knows b st \<or> b = ?b" for b
      using stream by (auto simp: knows_def js_set_add_def)
    then show ?thesis
      using Cons.IH [of "knowing ?b stream st"] False stream by (auto simp: roster_change_Cons Let_def)
  qed
qed simp

lemma run_roster_knows:
  assumes "ss_transcriptStream st \<noteq> None" "calls \<noteq> []" "\<And>l ds. (l, ds) \<in> set calls \<Longrightarrow> ds = roster"
  shows "\<forall>b. knows b st \<or> b \<in> (\<lambda>d. desc_agentId (obj_val d)) ` set roster \<longrightarrow> knows b (fst (run_roster sid sv calls st))"
  using assms
proof (induction calls arbitrary: st)
  case (Cons call calls)
  obtain l where call: "call = (l, roster)" using Cons.prems(3) by (cases call) auto
  let ?store = "case jm_get (tv_live sv) sid of Some entry \<Rightarrow> le_store entry | None \<Rightarrow> newTranscriptStore sid"
  note rk = roster_change_knows [OF Cons.prems(1), of sid sv ?store roster]
  let ?st = "fst (roster_change sid sv ?store roster st)"
  have run: "fst (run_roster sid sv (call # calls) st) = fst (run_roster sid sv calls ?st)"
    by (simp add: call Let_def prod.case_eq_if)
  show ?case
  proof (cases "calls = []")
    case True
    then show ?thesis using rk run by simp
  next
    case False
    have "\<forall>b. knows b ?st \<or> b \<in> (\<lambda>d. desc_agentId (obj_val d)) ` set roster \<longrightarrow> knows b (fst (run_roster sid sv calls ?st))"
      by (rule Cons.IH) (use rk False Cons.prems(3) in auto)
    then show ?thesis unfolding run using rk by blast
  qed
qed simp

lemma knows_roster_step:
  assumes step: "channel_step sid c c2" and ok: "channel_ok sid c" and kr: "knows_roster sid c"
  shows "knows_roster sid c2"
  using channel_step_kinds [OF step ok]
proof (elim disjE exE)
  fix a ops
  assume "dispatches sid c a ops c2"
  then obtain entry entry2 sv2 sv3 calls where u: "entry_of sid c = Some entry" "advances entry a ops entry2"
    "same_roster entry entry2"
    "dispatchOps sid \<lparr>change_agentId = a, change_ops = ops\<rparr> (put_entry sid entry2 (ch_sv c)) = (sv2, calls)"
    "tv_live sv3 = tv_live sv2" "tv_opsListeners sv3 = tv_opsListeners sv2" "c2 = delivered sid (recorded a ops c) (sv3, calls)"
    unfolding dispatches_def by blast
  have "journal_of (ch_hist c a) (jm_get (le_opsJournals entry2) a)"
    using ok u(1,2) by (auto simp: channel_ok_def log_ok_def advances_def)
  then obtain j where j: "entry_of sid c2 = Some (entry2\<lparr>le_opsJournals := jm_set a j (le_opsJournals entry2)\<rparr>)"
    using dispatch_calls(1) [OF _ _ u(4), of entry2 "ch_hist c a"] u(5,7) by auto
  show ?thesis
    using knows_roster_same [OF kr u(1) j] u(2,3) u(7) dispatched_ok(3) [OF ok u(1,2,4,5,6)]
    by (simp add: same_roster_def advances_def)
next
  assume "describes_only sid c c2"
  then obtain entry entry2 sv2 calls where u: "entry_of sid c = Some entry" "advances entry [] [] entry2"
    "jm_get (tv_live sv2) sid = Some entry2"
    "calls = [] \<and> (same_roster entry entry2 \<or> ts_rosterListeners (le_store entry) = []) \<or>
     calls = [RosterCall (emitRoster (le_store entry2))]
       \<and> ts_rosterListeners (le_store entry2) = ts_rosterListeners (le_store entry)"
    "c2 = delivered sid c (sv2, calls)"
    unfolding describes_only_def by blast
  have e2: "entry_of sid c2 = Some entry2" using u(3,5) by simp
  have sid2: "le_storeId entry2 = le_storeId entry" using u(2) by (simp add: advances_def)
  show ?thesis
  proof (cases "attached (ch_st c) (le_storeId entry)")
    case False
    then have "\<not> attached (ch_st c2) (le_storeId entry2)"
      using u(5) sid2 run_calls_keeps [of sid sv2 calls "ch_st c"] by (simp add: attached_def)
    then show ?thesis using e2 by (simp add: knows_roster_def)
  next
    case True
    then have some: "ts_rosterListeners (le_store entry) \<noteq> []" "ss_transcriptStream (ch_st c) \<noteq> None"
      using kr u(1) by (auto simp: knows_roster_def attached_def)
    from u(4) some(1) show ?thesis
    proof (elim disjE conjE)
      assume "calls = []" "same_roster entry entry2"
      then show ?thesis using knows_roster_same [OF kr u(1) e2] sid2 u(5) by simp
    next
      assume calls: "calls = [RosterCall (emitRoster (le_store entry2))]"
        and ls: "ts_rosterListeners (le_store entry2) = ts_rosterListeners (le_store entry)"
      let ?r = "emitRoster (le_store entry2)"
      have st2: "ch_st c2 = fst (run_roster sid sv2 ?r (ch_st c))"
        using calls u(5) by (simp add: prod.case_eq_if)
      have "?r \<noteq> []" using some(1) ls by (simp add: emitRoster_def)
      moreover have "\<And>l ds. (l, ds) \<in> set ?r \<Longrightarrow> ds = ts_agents_list (le_store entry2)" by (auto simp: emitRoster_def)
      ultimately have "knows b (ch_st c2)" if "b \<in> set (roster_ids (le_store entry2))" for b
        unfolding st2 using run_roster_knows [OF some(2), of ?r "ts_agents_list (le_store entry2)" sid sv2] that
        unfolding roster_ids_def set_map by blast
      then show ?thesis using e2 ls some(1) by (simp add: knows_roster_def)
    qed simp
  qed
next
  assume "goes_gapped sid c c2"
  then show ?thesis
    using kr by (auto simp: goes_gapped_def advances_def intro: knows_roster_same)
qed (use kr in \<open>simp add: rearranges_def\<close>)

lemma channel_reachable_knows: "channel_reachable sid c \<Longrightarrow> knows_roster sid c"
proof (induction rule: channel_reachable.induct)
  case (start st storeId ref ids)
  then show ?case
    by (auto simp: knows_roster_def channel_start_def forSessionLive_def newTranscriptService_def Let_def attached_def)
next
  case (step c c2)
  then show ?case using knows_roster_step channel_reachable_ok by blast
qed

section \<open>Joining with a cursor\<close>

text \<open>
  The connection joins in two steps of the machine. The \<open>subscribeTranscript\<close> of the connection lands, which sends it
  the frames; later, when the continuation after its \<open>await\<close> runs, the connection is marked as seeded.
\<close>

definition landed ::
  "nat \<Rightarrow> string \<Rightarrow> string \<Rightarrow> grade_spec option \<Rightarrow> (string, nat) jsmap option \<Rightarrow> channel \<Rightarrow> channel \<times> transcript_envelope list" where
  "landed listener sid t prev since c =
     (case entry_of sid c of
        None \<Rightarrow> (c, [])
      | Some entry \<Rightarrow>
          (case subscribeTranscript_lands listener sid True (le_storeId entry) (le_store entry) t prev since (ch_sv c, ch_st c) of
             ((sv, st), frames) \<Rightarrow> (c\<lparr>ch_sv := sv, ch_st := st\<rparr>, frames)))"

definition seeded_now :: "string \<Rightarrow> channel \<Rightarrow> channel" where
  "seeded_now t c = c\<lparr>ch_st := mark_seeded t (ch_st c)\<rparr>"

lemma seeded_now_step: "channel_step sid c (seeded_now t c)"
  unfolding seeded_now_def by (rule channel_step.seeds)

lemma mark_seeded_stream [simp]: "ss_transcriptStream (mark_seeded t st) = ss_transcriptStream st"
  by (simp add: mark_seeded_def)

lemma seeded_now_simps [simp]:
  "ch_hist (seeded_now t c) = ch_hist c" "ch_sent (seeded_now t c) = ch_sent c" "attends sid (seeded_now t c) a = attends sid c a"
  by (simp_all add: seeded_now_def attends_def)

definition received :: "string \<Rightarrow> agent_id \<Rightarrow> transcript_envelope list \<Rightarrow> channel \<Rightarrow> channel \<Rightarrow> transcript_msg list" where
  "received t a frames c c2 =
     msgs_for t a (map (\<lambda>e. (t, e)) frames) @ msgs_for t a (drop (length (ch_sent c)) (ch_sent c2))"

lemma landed_step:
  assumes "entry_of sid c = Some entry" "landed listener sid t prev since c = (c1, frames)"
  shows "channel_step sid c c1"
proof -
  obtain sv st where l: "subscribeTranscript_lands listener sid True (le_storeId entry) (le_store entry) t prev since
      (ch_sv c, ch_st c) = ((sv, st), frames)" "c1 = c\<lparr>ch_sv := sv, ch_st := st\<rparr>"
    using assms by (auto simp: landed_def split: prod.splits)
  show ?thesis using channel_step.lands [OF assms(1) l(1)] l(2) by simp
qed

lemma roster_ids_distinct: "store_ok store \<Longrightarrow> distinct (roster_ids store)"
  using jm_keyed_keys [of "\<lambda>d. desc_agentId (obj_val d)" "ts_descriptors store"]
  by (simp add: roster_ids_def ts_agents_list_def store_ok_def jm_ok_def)

lemma join_agent_agent:
  assumes "\<And>u. ts_getAgent store a = Some u \<Longrightarrow> at_agentId u = a" "e \<in> set (join_agent sid live sv st store spec prev since a)"
  shows "msg_agent (tx_msg e) = a"
  using assms
  by (auto simp: join_agent_def replayTranscriptOps_def sendTranscriptReset_def buildTranscriptEnvelope_def Let_def
      split: if_splits option.splits)

lemma msgs_for_frames: "msgs_for t a (map (\<lambda>e. (t, e)) frames) = filter (\<lambda>m. msg_agent m = a) (map tx_msg frames)"
  by (simp add: msgs_for_def comp_def)

lemma msgs_for_concat:
  assumes "distinct ids" "\<And>b e. e \<in> set (f b) \<Longrightarrow> msg_agent (tx_msg e) = b"
  shows "msgs_for t a (map (\<lambda>e. (t, e)) (concat (map f ids))) = (if a \<in> set ids then map tx_msg (f a) else [])"
  using assms(1)
proof (induction ids)
  case (Cons b ids)
  have other: "filter (\<lambda>m. msg_agent m = a) (map tx_msg (f b)) = (if b = a then map tx_msg (f b) else [])"
    using assms(2) [of _ b] by (auto simp: filter_empty_conv filter_id_conv)
  show ?case using Cons other by (auto simp: msgs_for_frames)
qed (simp add: msgs_for_frames)

text \<open>What a connection whose cursor the journal covers is sent when it joins\<close>

lemma landed_frames:
  assumes ok: "channel_ok sid c" and entry: "entry_of sid c = Some entry"
    and join: "landed listener sid t prev since c = (c1, frames)"
    and agent: "a \<in> set (roster_ids (le_store entry))" "ts_getAgent (le_store entry) a \<noteq> None"
    and cursor: "since_cursor since a = Some n" "n \<le> length (ch_hist c a)"
      "length (ch_hist c a) \<le> n + TRANSCRIPT_OPS_JOURNAL_CAPACITY"
    and sub: "sub_grades (jm_get (ss_targets (ch_st c)) t) = Some spec" "gradeFor (Some spec) a = g" "g \<noteq> GradeOff"
  shows "msgs_for t a (map (\<lambda>e. (t, e)) frames) = ops_msgs a (clip_batches g (drop n (enumerate 1 (ch_hist c a))))"
    and "ch_hist c1 a = ch_hist c a" "ch_sent c1 = ch_sent c"
proof -
  obtain sv st where l: "subscribeTranscript_lands listener sid True (le_storeId entry) (le_store entry) t prev since
      (ch_sv c, ch_st c) = ((sv, st), frames)" "c1 = c\<lparr>ch_sv := sv, ch_st := st\<rparr>"
    using join entry by (auto simp: landed_def split: prod.splits)
  show "ch_hist c1 a = ch_hist c a" "ch_sent c1 = ch_sent c" using l(2) by simp_all
  have f: "ensureTranscriptStream listener sid (le_storeId entry) (le_store entry) (ch_sv c, ch_st c) = (sv, st)"
    "frames = concat (map (join_agent sid True sv st (le_store entry) spec prev since) (roster_ids (le_store entry)))"
    using lands_inv [OF l(1)] sub(1) by auto
  have store: "store_ok (le_store entry)" and log: "log_ok c entry a" using ok entry by (auto simp: channel_ok_def)
  have listeners: "case jm_get (tv_opsListeners (ch_sv c)) sid of
         None \<Rightarrow> \<not> attached (ch_st c) (le_storeId entry)
       | Some ls \<Rightarrow> attached (ch_st c) (le_storeId entry) \<and> length ls = 1"
    using ok entry by (auto simp: channel_ok_def)
  obtain entry2 where e2: "jm_get (tv_live sv) sid = Some entry2" "advances entry a [] entry2"
    using ensure_stream(1) [OF entry f(1) listeners] by blast
  have journal: "journal_of (ch_hist c a) (jm_get (le_opsJournals entry2) a)" using log e2(2) by (simp add: log_ok_def advances_def)
  note cu = catchup_of [OF journal, of n]
  obtain u where u: "ts_getAgent (le_store entry) a = Some u" using agent(2) by blast
  have "getOpsSince True sid a n sv = Some (catchup_since (jm_get (le_opsJournals entry2) a) n)"
    using e2(1) by (simp add: getOpsSince_def)
  moreover have "oc_complete (catchup_since (jm_get (le_opsJournals entry2) a) n)" using cu(2) cursor(2,3) by simp
  ultimately have "join_agent sid True sv st (le_store entry) spec prev since a
      = replayTranscriptOps st a g (map batch_of (drop n (enumerate 1 (ch_hist c a))))"
    using cu(3) u sub(2,3) cursor(1) by (simp add: join_agent_def)
  moreover have "msgs_for t a (map (\<lambda>e. (t, e)) frames) = map tx_msg (join_agent sid True sv st (le_store entry) spec prev since a)"
    unfolding f(2)
    using agent(1) store
    by (subst msgs_for_concat [OF roster_ids_distinct [OF store]]) (auto simp: store_ok_def dest: join_agent_agent [rotated])
  ultimately show "msgs_for t a (map (\<lambda>e. (t, e)) frames) = ops_msgs a (clip_batches g (drop n (enumerate 1 (ch_hist c a))))"
    by (simp add: replayTranscriptOps_def ops_msgs_def buildTranscriptEnvelope_def comp_def case_prod_unfold)
qed

text \<open>After it landed, the stream is that of the store and knows every agent of the roster.\<close>

lemma landed_attends:
  assumes reach: "channel_reachable sid c" and entry: "entry_of sid c = Some entry"
    and join: "landed listener sid t prev since c = (c1, frames)"
    and sub: "sub_grades (jm_get (ss_targets (ch_st c)) t) = Some spec" and a: "a \<in> set (roster_ids (le_store entry))"
  shows "attends sid c1 a"
proof -
  obtain sv st where l: "subscribeTranscript_lands listener sid True (le_storeId entry) (le_store entry) t prev since
      (ch_sv c, ch_st c) = ((sv, st), frames)" "c1 = c\<lparr>ch_sv := sv, ch_st := st\<rparr>"
    using join entry by (auto simp: landed_def split: prod.splits)
  have ens: "ensureTranscriptStream listener sid (le_storeId entry) (le_store entry) (ch_sv c, ch_st c) = (sv, st)"
    using lands_inv [OF l(1)] sub by auto
  have listeners: "case jm_get (tv_opsListeners (ch_sv c)) sid of
         None \<Rightarrow> \<not> attached (ch_st c) (le_storeId entry)
       | Some ls \<Rightarrow> attached (ch_st c) (le_storeId entry) \<and> length ls = 1"
    using channel_reachable_ok [OF reach] entry by (auto simp: channel_ok_def)
  note es = ensure_stream [OF entry ens listeners]
  obtain entry2 where e2: "jm_get (tv_live sv) sid = Some entry2" "advances entry a [] entry2" using es(1) by blast
  have "knows a st"
  proof (cases "attached (ch_st c) (le_storeId entry)")
    case True
    then show ?thesis using es(6) channel_reachable_knows [OF reach] entry a by (auto simp: knows_roster_def)
  next
    case False
    then have "ss_transcriptStream st = Some \<lparr>str_store = le_storeId entry, str_knownAgents = js_set_of (roster_ids (le_store entry))\<rparr>"
      using ens unfolding ensureTranscriptStream_def attached_def by (auto split: if_splits)
    then show ?thesis using a by (simp add: knows_def)
  qed
  then show ?thesis
    using l(2) e2 es(3) by (auto simp: attends_alt advances_def attached_def knows_def)
qed

lemma resume_received:
  assumes reach: "channel_reachable sid c" and entry: "entry_of sid c = Some entry"
    and join: "landed listener sid t prev since c = (c1, frames)"
    and agent: "a \<in> set (roster_ids (le_store entry))" "ts_getAgent (le_store entry) a \<noteq> None"
    and cursor: "since_cursor since a = Some n" "n \<le> length (ch_hist c a)"
      "length (ch_hist c a) \<le> n + TRANSCRIPT_OPS_JOURNAL_CAPACITY"
    and sub: "sub_grades (jm_get (ss_targets (ch_st c)) t) = Some spec" "gradeFor (Some spec) a = g" "g \<noteq> GradeOff"
    and wait: "waits_unseeded sid t c1 c2" and stay: "stays_at sid t a g (seeded_now t c2) c3"
  shows "received t a frames c1 c3
      = ops_msgs a (clip_batches g (drop n (enumerate 1 (ch_hist c a)) @ drop (length (ch_hist c2 a)) (enumerate 1 (ch_hist c3 a))))"
    and "ch_hist c1 a = ch_hist c a" "\<exists>more. ch_hist c2 a = ch_hist c a @ more" "\<exists>more. ch_hist c3 a = ch_hist c2 a @ more"
    and "channel_ok sid c3"
proof -
  have ok: "channel_ok sid c" by (rule channel_reachable_ok [OF reach])
  have ok1: "channel_ok sid c1" using landed_step [OF entry join] ok channel_step_ok by blast
  note jf = landed_frames [OF ok entry join agent(1,2) cursor sub]
  obtain gone silent where w: "ch_hist c2 a = ch_hist c1 a @ gone" "ch_sent c2 = ch_sent c1 @ silent" "msgs_for t a silent = []"
    and ok2: "channel_ok sid c2" "attends sid c2 a"
    using waits_silent [OF wait ok1 landed_attends [OF reach entry join sub(1) agent(1)]] by blast
  have "channel_ok sid (seeded_now t c2)" using seeded_now_step ok2(1) channel_step_ok by blast
  then obtain more sends where m: "ch_hist c3 a = ch_hist c2 a @ more" "ch_sent c3 = ch_sent c2 @ sends"
    "msgs_for t a sends = ops_msgs a (clip_batches g (enumerate (Suc (length (ch_hist c2 a))) more))"
    and ok3: "channel_ok sid c3"
    using stays_exact [OF stay] ok2(2) by auto
  show "ch_hist c1 a = ch_hist c a" by (rule jf(2))
  show "\<exists>more. ch_hist c2 a = ch_hist c a @ more" using w(1) jf(2) by auto
  show "\<exists>more. ch_hist c3 a = ch_hist c2 a @ more" using m(1) by blast
  show "channel_ok sid c3" by (rule ok3)
  have "drop (length (ch_hist c2 a)) (enumerate 1 (ch_hist c3 a)) = enumerate (Suc (length (ch_hist c2 a))) more"
    using m(1) by (simp add: enumerate_append_eq)
  moreover have "msgs_for t a (drop (length (ch_sent c1)) (ch_sent c3)) = msgs_for t a sends" using m(2) w(2,3) by simp
  ultimately show "received t a frames c1 c3
      = ops_msgs a (clip_batches g (drop n (enumerate 1 (ch_hist c a)) @ drop (length (ch_hist c2 a)) (enumerate 1 (ch_hist c3 a))))"
    using jf(1) m(3) by (simp add: received_def)
qed

section \<open>The replica\<close>

fun msg_ops :: "transcript_msg \<Rightarrow> transcript_op list" where
  "msg_ops (ResetMsg a snap _ _) = [Reset a snap]"
| "msg_ops (OpsMsg a ops _) = ops"

text \<open>A replica at a grade against the state of the producer\<close>

definition grade_view :: "transcript_grade \<Rightarrow> agent_state \<Rightarrow> agent_state \<Rightarrow> bool" where
  "grade_view g s c = (case g of GradeDelta \<Rightarrow> c = s | GradeTurn \<Rightarrow> turn_view s c | _ \<Rightarrow> True)"

lemma clip_batches_ops: "concat (map snd (clip_batches g bs)) = filterOpsForGrade g (concat (map snd bs))"
proof (induction bs)
  case (Cons b bs)
  have app: "filterOpsForGrade g (xs @ ys) = filterOpsForGrade g xs @ filterOpsForGrade g ys" for xs ys
    by (simp add: filterOpsForGrade_def)
  show ?case using Cons by (auto simp: clip_batches_def app case_prod_unfold)
qed (simp add: clip_batches_def filterOpsForGrade_def)

lemma msg_ops_msgs: "concat (map msg_ops (ops_msgs a bs)) = concat (map snd bs)"
  by (simp add: ops_msgs_def comp_def case_prod_unfold)

lemma snd_enumerate: "map snd (drop n (enumerate k xs)) = drop n xs"
  by (simp add: drop_enumerate)

lemma filterOps_delta: "filterOpsForGrade GradeDelta ops = ops"
  by (auto simp: filterOpsForGrade_def admits_def filter_id_conv split: transcript_op.splits)

fun is_reset :: "transcript_op \<Rightarrow> bool" where
  "is_reset (Reset _ _) = True"
| "is_reset _ = False"

lemma redact_none: "\<not> list_ex is_reset ops \<Longrightarrow> map (redact_op g) (filterOpsForGrade g ops) = filterOpsForGrade g ops"
  by (intro map_idI) (auto simp: redact_op_def filterOpsForGrade_def list_ex_iff split: if_splits transcript_op.splits)

lemma causal_run_append: "causal_run s (xs @ ys) \<longleftrightarrow> causal_run s xs \<and> causal_run (run_ops s xs) ys"
  by (induction xs arbitrary: s) auto

lemma causal_run_wf: "causal_run s ops \<Longrightarrow> wf_state s \<Longrightarrow> wf_state (run_ops s ops)"
  by (induction ops arbitrary: s) (auto simp: wf_operation)

text \<open>A replica that runs the clipped rest of a history keeps its view of the producer.\<close>

lemma clipped_rest:
  assumes "grade_view g (run_ops EMPTY_AGENT_STATE old) replica" "g = GradeDelta \<or> g = GradeTurn"
    and "g = GradeTurn \<Longrightarrow> causal_run EMPTY_AGENT_STATE (old @ rest) \<and> \<not> list_ex is_reset rest"
  shows "grade_view g (run_ops EMPTY_AGENT_STATE (old @ rest)) (run_ops replica (filterOpsForGrade g rest))"
  using assms(2)
proof
  assume "g = GradeDelta"
  then show ?thesis using assms(1) by (simp add: grade_view_def filterOps_delta)
next
  assume g: "g = GradeTurn"
  then have c: "causal_run EMPTY_AGENT_STATE old" "causal_run (run_ops EMPTY_AGENT_STATE old) rest" "\<not> list_ex is_reset rest"
    using assms(3) by (auto simp: causal_run_append)
  then have "filterOpsForGrade GradeTurn rest = clipped GradeTurn rest" by (simp add: clipped_def redact_none)
  then show ?thesis
    using assms(1) g clipped_stream_view [OF _ causal_run_wf [OF c(1) wf_empty] c(2), of replica] by (simp add: grade_view_def)
qed

end
