(* ===== verification/ColdReplay.thy ===== *)
theory ColdReplay
  imports FoldFacts SyncLemmas
begin

text \<open>
  What a session rebuilt from its messages and records becomes when it is replayed into a live store: the grouping of
  \<open>GroupTurns\<close>, the fold of \<open>FoldFacts\<close> and the replay of \<open>TranscriptSync\<close> composed.
\<close>

section \<open>The identities of a rebuilt timeline\<close>

text \<open>
  Turns are \<open>t\<close>, markers \<open>m\<close> and task references \<open>ref-\<close> with a number or the task behind it. A rebuilt turn
  never has an error, a usage or a duration.
\<close>

fun rebuilt_ok :: "transcript_item \<Rightarrow> bool" where
  "rebuilt_ok (ITurn t) \<longleftrightarrow>
     take 1 (turn_turnId t) = ''t'' \<and> turn_error t = None \<and> turn_usage t = None \<and> turn_durationMs t = None"
| "rebuilt_ok (IMarker m) \<longleftrightarrow> take 1 (marker_markerId (obj_val m)) = ''m''"
| "rebuilt_ok (ITaskRef r) \<longleftrightarrow> take 1 (taskref_refId (obj_val r)) = ''r''"

lemma item_ids_distinct:
  assumes "distinct (map turn_turnId (turns items))" "distinct (List.map_filter marker_id_of items)"
    "distinct (List.map_filter ref_id_of items)" "list_all rebuilt_ok items"
  shows "distinct (map itemId items)"
  using assms
proof (induction items)
  case (Cons e items)
  have "itemId e \<noteq> itemId x" if x: "x \<in> set items" for x
  proof -
    have k: "rebuilt_ok x" "rebuilt_ok e" using Cons.prems(4) x by (auto simp: list_all_iff)
    have "x \<in> set items \<Longrightarrow> \<exists>i. marker_id_of x = Some i \<Longrightarrow> the (marker_id_of x) \<in> set (List.map_filter marker_id_of items)"
      "x \<in> set items \<Longrightarrow> \<exists>i. ref_id_of x = Some i \<Longrightarrow> the (ref_id_of x) \<in> set (List.map_filter ref_id_of items)"
      by (force simp: List.map_filter_def)+
    then show ?thesis
      using Cons.prems(1-3) x k by (cases e; cases x) (auto simp: map_filter_simps set_turns)
  qed
  moreover have "distinct (map itemId items)"
    using Cons.prems by (intro Cons.IH) (cases e; auto simp: map_filter_simps)+
  ultimately show ?case by auto
qed simp

definition group_ids_ok :: "group_state \<Rightarrow> bool" where
  "group_ids_ok g \<longleftrightarrow>
     List.map_filter marker_id_of (gs_items g) = map (\<lambda>n. ''m'' @ int_str n) [1 .. gs_markerCount g]
     \<and> 0 \<le> gs_markerCount g \<and> List.map_filter ref_id_of (gs_items g) = []
     \<and> list_all rebuilt_ok (gs_items g) \<and> (\<forall>d. gs_turn g = Some d \<longrightarrow> take 1 (td_turnId d) = ''t'')"

lemma draft_item: "marker_id_of (draftToTurnItem d) = None" "ref_id_of (draftToTurnItem d) = None"
  "rebuilt_ok (draftToTurnItem d) \<longleftrightarrow> take 1 (td_turnId d) = ''t''"
  by (simp_all add: draftToTurnItem_def draftToTurn_def)

lemma map_filter_replace_first:
  "(\<And>e. P e \<Longrightarrow> f e = None) \<Longrightarrow> f x = None \<Longrightarrow> List.map_filter f (replace_first P x xs) = List.map_filter f xs"
  by (induction xs) (auto simp: map_filter_simps split: option.split)

lemma all_replace_first: "list_all Q xs \<Longrightarrow> Q x \<Longrightarrow> list_all Q (replace_first P x xs)"
  by (induction xs) auto

lemma group_ids_start: "group_ids_ok g \<Longrightarrow> group_ids_ok (startTurn origin prompt ids g)"
  by (simp add: group_ids_ok_def startTurn_def Let_def map_filter_append map_filter_simps draft_item turnId_def)

lemma group_ids_sync:
  assumes "group_ids_ok g" "take 1 (td_turnId d) = ''t''"
  shows "group_ids_ok (g\<lparr>gs_turn := Some d, gs_items := syncTurnItem (gs_items g) d, gs_ref := ref\<rparr>)"
proof -
  have none: "marker_id_of e = None \<and> ref_id_of e = None" if "is_turn_with i e" for i e
    using that by (cases e) simp_all
  then show ?thesis
    using assms
    by (simp add: group_ids_ok_def syncTurnItem_def map_filter_replace_first draft_item all_replace_first)
qed

lemma group_ids_cong:
  "group_ids_ok g \<Longrightarrow> gs_items g' = gs_items g \<Longrightarrow> gs_turn g' = gs_turn g \<Longrightarrow> gs_markerCount g' = gs_markerCount g \<Longrightarrow>
   group_ids_ok g'"
  by (simp add: group_ids_ok_def)

lemma group_ids_marker: "group_ids_ok g \<Longrightarrow> group_ids_ok (pushMarker marker m g)"
  by (auto simp: group_ids_ok_def pushMarker_def Let_def map_filter_append map_filter_simps upto_rec2)

lemma group_ids_message: "group_ids_ok g \<Longrightarrow> group_ids_ok (group_message json_parse g m)"
proof -
  assume ok: "group_ids_ok g"
  have user: "group_ids_ok (group_user m g)"
    using ok
    by (auto simp: group_user_def Let_def case_prod_unfold collectAttachments_def split: option.split
        intro!: group_ids_start group_ids_marker elim!: group_ids_cong)
  have ensured: "group_ids_ok (ensureTurn FALLBACK_ORIGIN g)"
    using ok by (auto simp: ensureTurn_def group_ids_start split: option.split)
  have assistant: "group_ids_ok (group_assistant json_parse m g)"
  proof (rule group_assistant_state [of g json_parse m])
    fix d d' ref
    assume d: "gs_turn (ensureTurn FALLBACK_ORIGIN g) = Some d"
      and d': "d' = d\<lparr>td_steps := td_steps d @ [next_step json_parse m (gs_ref (ensureTurn FALLBACK_ORIGIN g)) d]\<rparr>"
      and g': "group_assistant json_parse m g = (ensureTurn FALLBACK_ORIGIN g)
         \<lparr>gs_turn := Some d', gs_items := syncTurnItem (gs_items (ensureTurn FALLBACK_ORIGIN g)) d', gs_ref := ref\<rparr>"
    show ?thesis
      unfolding g' by (rule group_ids_sync [OF ensured]) (use ensured d d' in \<open>simp add: group_ids_ok_def\<close>)
  qed
  have tool: "group_ids_ok (group_tool m g)"
  proof (cases rule: group_tool_state [of m g])
    case none
    then show ?thesis using ok by simp
  next
    case (patch d i f f')
    show ?thesis unfolding patch(6) by (rule group_ids_sync [OF ok]) (use ok patch(1) in \<open>simp add: group_ids_ok_def\<close>)
  qed
  show ?thesis using ok user assistant tool by (simp add: group_message_def)
qed

lemma group_ids_run: "group_ids_ok (group_run json_parse ref messages)"
  by (rule group_run_invariant) (simp_all add: group_ids_message, simp add: group_ids_ok_def group_start_def map_filter_simps)

section \<open>The identities the fold adds\<close>

definition fold_ids_ok :: "fold_state \<Rightarrow> bool" where
  "fold_ids_ok s \<longleftrightarrow>
     list_all rebuilt_ok (ff_appended s) \<and> jm_ok (ff_tasks s) \<and> jm_keyed task_taskId (ff_tasks s)"

lemma fold_ids_cong:
  "fold_ids_ok s \<Longrightarrow> ff_appended s' = ff_appended s \<Longrightarrow> ff_tasks s' = ff_tasks s \<Longrightarrow> fold_ids_ok s'"
  by (simp add: fold_ids_ok_def)

lemma fold_ids_marker: "fold_ids_ok s \<Longrightarrow> fact_marker k r s = Inr s' \<Longrightarrow> fold_ids_ok s'"
  by (auto simp: fact_marker_Inr fold_ids_ok_def)

lemma fold_ids_taskref: "fold_ids_ok s \<Longrightarrow> fact_taskref i r s = Inr s' \<Longrightarrow> fold_ids_ok s'"
  by (erule fact_taskref_Inr) (auto simp: fold_ids_ok_def)

lemma fold_ids_task:
  assumes ok: "fold_ids_ok s" and r: "upsertTask r s = Inr s'"
  shows "fold_ids_ok s'"
  using r
proof (cases rule: upsertTask_Inr)
  case none
  then show ?thesis using ok by simp
next
  case (task i t)
  have "fold_ids_ok (s\<lparr>ff_tasks := jm_set i t (ff_tasks s)\<rparr>)"
    using ok task(1) by (simp add: fold_ids_ok_def jm_ok_set jm_keyed_set)
  then show ?thesis using task(2) by (auto split: if_splits intro: fold_ids_taskref)
qed

lemma fold_ids_record:
  assumes ok: "fold_ids_ok s" and r: "fold_record s r = Inr s'"
  shows "fold_ids_ok s'"
proof -
  have plan: "fold_ids_ok (s\<lparr>ff_planActive := a, ff_planRevision := b\<rparr>)" for a b
    by (rule fold_ids_cong [OF ok]) simp_all
  have swarm: "fold_ids_ok (s\<lparr>ff_swarmActive := a\<rparr>)" for a by (rule fold_ids_cong [OF ok]) simp_all
  have todo: "fold_ids_ok t" if "fact_todo r s = Inr t" for t
    using fact_todo_Inr [OF that] by (auto intro: fold_ids_cong [OF ok])
  have "fold_ids_ok (fact_request r s)" "fold_ids_ok (fact_resolved r s)"
    by (rule fact_request_state [of r s]; use ok in \<open>auto elim!: fold_ids_cong\<close>)
      (rule fact_resolved_state [of r s]; use ok in \<open>auto elim!: fold_ids_cong\<close>)
  then show ?thesis
    using r fold_ids_marker [OF plan] fold_ids_marker [OF swarm] todo fold_ids_task [OF ok] ok
    by (auto simp: fold_record_def Let_def split: if_splits)
qed

section \<open>A rebuilt session can be replayed\<close>

lemma rebuilt_replayable:
  assumes calls: "list_all calls_ok messages"
    and fold: "foldWireRecordFacts fref records (groupMessagesIntoSnapshot json_parse gref messages) = Inr snap"
  shows "replayable (snap_items snap)" "distinct (map task_taskId (snap_tasks snap))"
proof -
  let ?base = "groupMessagesIntoSnapshot json_parse gref messages"
  let ?g = "group_run json_parse gref messages"
  obtain s where s: "fold_records records (fold_start fref ?base) = Inr s" "snap = fold_finish s ?base"
    using fold_InrD [OF fold] by blast
  have g: "group_ids_ok ?g" by (rule group_ids_run)
  have base: "snap_items ?base = gs_items ?g" by (simp add: groupMessagesIntoSnapshot_def Let_def)
  have "distinct (map (\<lambda>n. ''m'' @ int_str n) [1 .. gs_markerCount ?g])" by (simp add: distinct_map inj_on_def)
  then have apart: "distinct (List.map_filter marker_id_of (snap_items ?base))"
    "distinct (List.map_filter ref_id_of (snap_items ?base))"
    using g unfolding base group_ids_ok_def by simp_all
  have ids: "ids_ok (snap_items ?base) s"
    using s(1) ids_ok_start [OF apart, of fref] by (rule fold_records_invariant) (auto intro: ids_ok_record)
  have fid: "fold_ids_ok s"
    by (rule fold_records_invariant [OF s(1)])
      (auto intro: fold_ids_record, simp add: fold_start_def fold_ids_ok_def jm_keyed_def split: prod.split)
  have items: "snap_items snap = snap_items ?base @ ff_appended s"
    by (simp add: s(2) fold_finish_def Let_def)
  have turns: "turns (snap_items snap) = turns (gs_items ?g)"
    using ids by (simp add: items base ids_ok_def Let_def)
  have wf: "wf_items (gs_items ?g)" by (rule group_wf_items [OF calls])
  have "distinct (map itemId (snap_items snap))"
    using wf ids g fid turns
    by (intro item_ids_distinct) (simp_all add: wf_items_def ids_ok_def Let_def items base group_ids_ok_def fold_ids_ok_def)
  moreover have "sorted_wrt (<) (map turn_ordinal (turns (gs_items ?g)))"
    using turn_ids_run [of json_parse gref messages]
    by (simp add: turn_ids_ok_def Let_def sorted_wrt_map)
  ultimately show "replayable (snap_items snap)"
    using wf by (simp add: replayable_def turns wf_items_def)
  have "snap_tasks snap = jm_values (ff_tasks s)" by (simp add: s(2) fold_finish_def Let_def)
  then show "distinct (map task_taskId (snap_tasks snap))"
    using fid by (simp add: fold_ids_ok_def jm_keyed_keys jm_ok_def)
qed

lemma rebuilt_turns:
  assumes fold: "foldWireRecordFacts fref records (groupMessagesIntoSnapshot json_parse gref messages) = Inr snap"
    and "list_all calls_ok messages" and t: "t \<in> set (turns (snap_items snap))"
  shows "turn_error t = None" "turn_usage t = None" "turn_durationMs t = None" "wf_steps (turn_steps t)"
proof -
  let ?base = "groupMessagesIntoSnapshot json_parse gref messages"
  obtain s where s: "fold_records records (fold_start fref ?base) = Inr s" "snap = fold_finish s ?base"
    using fold_InrD [OF fold] by blast
  have fid: "fold_ids_ok s"
    by (rule fold_records_invariant [OF s(1)])
      (auto intro: fold_ids_record, simp add: fold_start_def fold_ids_ok_def jm_keyed_def split: prod.split)
  have "snap_items snap = gs_items (group_run json_parse gref messages) @ ff_appended s"
    by (simp add: s(2) fold_finish_def Let_def groupMessagesIntoSnapshot_def)
  then have "list_all rebuilt_ok (snap_items snap)"
    using group_ids_run [of json_parse gref messages] fid by (simp add: group_ids_ok_def fold_ids_ok_def)
  then show "turn_error t = None" "turn_usage t = None" "turn_durationMs t = None"
    using t by (auto simp: list_all_iff set_turns)
  show "wf_steps (turn_steps t)" using rebuilt_replayable(1) [OF assms(2,1)] t by (simp add: replayable_def)
qed

end
