(* ===== verification/TurnRepair.thy ===== *)
theory TurnRepair
  imports SyncLemmas
begin

text \<open>
  \<open>healTurnOps\<close> as an operation on a live state: it adds the persisted frames the live turn does not cover, a
  second repair changes nothing, and the header it leaves is that of the persisted turn but for what it takes over.
\<close>

section \<open>What a repair adds\<close>

text \<open>A frame that has what a persisted one has: a text not shorter, or the outcome of the tool.\<close>

fun covers :: "transcript_frame \<Rightarrow> transcript_frame \<Rightarrow> bool" where
  "covers (FTool l) (FTool f) \<longleftrightarrow> (has_outcome f \<longrightarrow> has_outcome l)"
| "covers (FText l) (FText f) \<longleftrightarrow> length (tf_text f) \<le> length (tf_text l)"
| "covers (FThinking l) (FThinking f) \<longleftrightarrow> length (th_text f) \<le> length (th_text l)"
| "covers _ _ \<longleftrightarrow> False"

fun is_notice :: "transcript_frame \<Rightarrow> bool" where
  "is_notice (FNotice _) = True"
| "is_notice _ = False"

lemma covers_refl: "covers f f \<longleftrightarrow> \<not> is_notice f"
  by (cases f) simp_all

lemma heal_frame_covers:
  "\<not> is_notice f \<Longrightarrow> heal_frame old f = None \<longleftrightarrow> (case old of None \<Rightarrow> False | Some l \<Rightarrow> covers l f)"
  "heal_frame old f = Some g \<Longrightarrow> covers g f" "is_notice f \<Longrightarrow> heal_frame old f = None"
proof -
  show "\<not> is_notice f \<Longrightarrow> heal_frame old f = None \<longleftrightarrow> (case old of None \<Rightarrow> False | Some l \<Rightarrow> covers l f)"
  proof (cases old)
    case (Some l)
    then show "\<not> is_notice f \<Longrightarrow> ?thesis" by (cases l; cases f) (auto simp: heal_frame_def text_length_def)
  qed (cases f; simp add: heal_frame_def)
  show "heal_frame old f = Some g \<Longrightarrow> covers g f"
    by (cases f) (auto simp: heal_frame_def split: if_splits option.splits)
  show "is_notice f \<Longrightarrow> heal_frame old f = None" by (cases f) (simp_all add: heal_frame_def)
qed

text \<open>The persisted frame of a turn under an identity\<close>

definition persisted :: "transcript_turn \<Rightarrow> step_id \<Rightarrow> frame_id \<Rightarrow> transcript_frame option" where
  "persisted t sid fid = Option.bind (find_step (turn_steps t) sid) (\<lambda>st. find_frame (step_frames st) fid)"

definition repaired :: "transcript_turn \<Rightarrow> agent_state \<Rightarrow> agent_state" where
  "repaired t s = run_ops s (healTurnOps t (getTurn (st_items s) (turn_turnId t)))"

lemma repaired_frame:
  assumes "distinct_steps (st_items s)" "wf_steps (turn_steps t)"
  shows "frame_of (st_items (repaired t s)) (turn_turnId t) sid fid
       = (case persisted t sid fid of
            None \<Rightarrow> frame_of (st_items s) (turn_turnId t) sid fid
          | Some f \<Rightarrow> healed (has_step (st_items s) (turn_turnId t) sid) (frame_of (st_items s) (turn_turnId t) sid fid) f)"
    and "i \<noteq> turn_turnId t \<Longrightarrow> frame_of (st_items (repaired t s)) i sid fid = frame_of (st_items s) i sid fid"
    and "has_step (st_items (repaired t s)) i sid \<longleftrightarrow>
           has_step (st_items s) i sid \<or> (i = turn_turnId t \<and> sid \<in> step_stepId ` set (turn_steps t))"
    and "distinct_steps (st_items (repaired t s))"
  using heal_run [OF assms] by (simp_all add: repaired_def healed_steps_def persisted_def)

lemma persisted_None_step: "persisted t sid fid = Some f \<Longrightarrow> sid \<in> step_stepId ` set (turn_steps t)"
  by (auto simp: persisted_def find_step_def bind_eq_Some_conv dest: find_SomeD)

text \<open>After a repair the live turn covers every persisted frame, so the next repair has nothing to emit.\<close>

lemma repaired_covers:
  assumes "distinct_steps (st_items s)" "wf_steps (turn_steps t)" "persisted t sid fid = Some f" "\<not> is_notice f"
  shows "\<exists>g. frame_of (st_items (repaired t s)) (turn_turnId t) sid fid = Some g \<and> covers g f"
proof -
  have fr: "frame_of (st_items (repaired t s)) (turn_turnId t) sid fid
      = healed (has_step (st_items s) (turn_turnId t) sid) (frame_of (st_items s) (turn_turnId t) sid fid) f"
    using repaired_frame(1) [OF assms(1,2)] assms(3) by simp
  show ?thesis
  proof (cases "heal_frame (frame_of (st_items s) (turn_turnId t) sid fid) f")
    case None
    then obtain l where "frame_of (st_items s) (turn_turnId t) sid fid = Some l" "covers l f"
      using heal_frame_covers(1) [OF assms(4)] by (auto split: option.splits)
    then show ?thesis using fr None covers_refl [of f] assms(4) by (auto simp: healed_def)
  next
    case (Some g)
    then show ?thesis using fr heal_frame_covers(2) [OF Some] covers_refl [of f] assms(4) by (auto simp: healed_def)
  qed
qed

lemma heal_again_None:
  assumes "distinct_steps (st_items s)" "wf_steps (turn_steps t)" "persisted t sid fid = Some f"
  shows "heal_frame (frame_of (st_items (repaired t s)) (turn_turnId t) sid fid) f = None"
  using repaired_covers [OF assms] heal_frame_covers(1) [of f "frame_of (st_items (repaired t s)) (turn_turnId t) sid fid"]
    heal_frame_covers(3) [of f]
  by (cases "is_notice f") auto

text \<open>The header of a turn after an upsert: the upsert, or one that compares equal and stays.\<close>

lemma turn_upsert_header:
  assumes "turn_turnId h = tid"
  shows "\<exists>x. header_of (items_after s (TurnUpsert h)) tid = Some x
    \<and> (x = h \<or> (\<exists>l. getTurn (st_items s) tid = Some l \<and> x = turn_header.truncate l \<and> turnEquals l h))"
  using assms
  by (cases "getTurn (st_items s) tid")
    (auto simp: header_of_def applyTurnUpsert_def getTurn_insertTurn getTurn_replaceTurn turnHeaderToTurn_def
      turn_header.defs transcript_turn.defs)

lemma healTurnOps_tail:
  "\<exists>h rest. healTurnOps t live = TurnUpsert h # rest \<and> turn_turnId h = turn_turnId t
     \<and> list_all (\<lambda>op. (\<exists>h. op = StepUpsert (turn_turnId t) h) \<or> (\<exists>sid f. op = FrameUpsert (turn_turnId t) sid f)) rest
     \<and> h = (case live of None \<Rightarrow> turn_header.truncate t | Some l \<Rightarrow> heal_header t l)"
proof -
  have "list_all (\<lambda>op. (\<exists>h. op = StepUpsert (turn_turnId t) h) \<or> (\<exists>sid f. op = FrameUpsert (turn_turnId t) sid f))
      (concat (map (heal_step (turn_turnId t) l) sts))" for l sts
    by (auto simp: list_all_iff heal_step_def step_ops_def map_filter_mem split: option.splits)
  then show ?thesis unfolding healTurnOps_alt by (auto simp: turn_header.defs split: option.split)
qed

lemma repaired_header:
  "\<exists>l2. getTurn (st_items (repaired t s)) (turn_turnId t) = Some l2
     \<and> (let live = getTurn (st_items s) (turn_turnId t);
            h = (case live of None \<Rightarrow> turn_header.truncate t | Some l \<Rightarrow> heal_header t l)
        in turn_header.truncate l2 = h
           \<or> (\<exists>l. live = Some l \<and> turn_header.truncate l2 = turn_header.truncate l \<and> turnEquals l h))"
proof -
  let ?live = "getTurn (st_items s) (turn_turnId t)"
  obtain h rest where ops: "healTurnOps t ?live = TurnUpsert h # rest" "turn_turnId h = turn_turnId t"
    "list_all (\<lambda>op. (\<exists>h. op = StepUpsert (turn_turnId t) h) \<or> (\<exists>sid f. op = FrameUpsert (turn_turnId t) sid f)) rest"
    "h = (case ?live of None \<Rightarrow> turn_header.truncate t | Some l \<Rightarrow> heal_header t l)"
    using healTurnOps_tail [of t ?live] by blast
  obtain x where x: "header_of (items_after s (TurnUpsert h)) (turn_turnId t) = Some x"
    "x = h \<or> (\<exists>l. ?live = Some l \<and> x = turn_header.truncate l \<and> turnEquals l h)"
    using turn_upsert_header [OF ops(2), of s] by blast
  have "header_of (st_items (repaired t s)) (turn_turnId t) = Some x"
    unfolding repaired_def ops(1) run_ops_simps using run_inner_header [OF _ ops(3)] x(1) by simp
  then obtain l2 where "getTurn (st_items (repaired t s)) (turn_turnId t) = Some l2" "turn_header.truncate l2 = x"
    by (auto simp: header_of_def)
  then show ?thesis using x(2) ops(4) by (auto simp: Let_def)
qed

lemma coalesce_self [simp]: "coalesce a a = a"
  by (cases a) simp_all

lemma coalesce_again [simp]: "coalesce (coalesce a b) b = coalesce a b"
  by (cases a) simp_all

lemma map_filter_empty: "List.map_filter P xs = [] \<longleftrightarrow> (\<forall>x \<in> set xs. P x = None)"
  by (induction xs) (auto simp: map_filter_simps split: option.split)

lemma find_by_key: "distinct (map k xs) \<Longrightarrow> x \<in> set xs \<Longrightarrow> find (\<lambda>y. k y = k x) xs = Some x"
  by (rule find_uniqueI) (auto simp: distinct_map inj_on_def)

lemma truncate_fields:
  "turn_header.truncate l = turn_header.truncate (m :: transcript_turn) \<Longrightarrow> turnEquals l h = turnEquals m h"
  "turn_header.truncate l = turn_header.truncate (m :: transcript_turn) \<Longrightarrow> heal_header t l = heal_header t m"
  "turn_header.truncate l = heal_header t m \<Longrightarrow> heal_header t l = heal_header t m"
  "turn_header.truncate l = turn_header.truncate t \<Longrightarrow> heal_header t l = turn_header.truncate t"
  "turn_header.truncate l = h \<Longrightarrow> turnEquals l h"
  by (auto simp: turn_header.defs turnEquals_def heal_header_def)

lemma repair_twice:
  assumes "distinct_steps (st_items s)" "wf_steps (turn_steps t)"
  shows "repaired t (repaired t s) = repaired t s"
proof -
  let ?i = "turn_turnId t"
  let ?s = "repaired t s"
  let ?live = "getTurn (st_items s) ?i"
  let ?h = "case ?live of None \<Rightarrow> turn_header.truncate t | Some l \<Rightarrow> heal_header t l"
  obtain l2 where l2: "getTurn (st_items ?s) ?i = Some l2"
    "turn_header.truncate l2 = ?h
     \<or> (\<exists>l. ?live = Some l \<and> turn_header.truncate l2 = turn_header.truncate l \<and> turnEquals l ?h)"
    using repaired_header [of t s] by (auto simp: Let_def)
  have quiet: "heal_step ?i l2 st = []" if st: "st \<in> set (turn_steps t)" for st
  proof -
    have "has_step (st_items ?s) ?i (step_stepId st)" using repaired_frame(3) [OF assms] st by simp
    then obtain ls where ls: "find_step (turn_steps l2) (step_stepId st) = Some ls" using l2(1) by (auto simp: has_step_def)
    have "heal_frame (find_frame (step_frames ls) (frame_id f)) f = None" if f: "f \<in> set (step_frames st)" for f
    proof -
      have "persisted t (step_stepId st) (frame_id f) = Some f"
        using assms(2) st f find_by_key [of step_stepId "turn_steps t" st] find_by_key [of frame_id "step_frames st" f]
        by (simp add: persisted_def wf_steps_def find_step_def find_frame_def)
      moreover have "frame_of (st_items ?s) ?i (step_stepId st) (frame_id f) = find_frame (step_frames ls) (frame_id f)"
        using l2(1) ls by (simp add: frame_of_def)
      ultimately show ?thesis using heal_again_None [OF assms] by metis
    qed
    then show ?thesis by (auto simp: heal_step_def ls map_filter_empty)
  qed
  then have ops: "healTurnOps t (Some l2) = [TurnUpsert (heal_header t l2)]" by (simp add: healTurnOps_def)
  have "turnEquals l2 (heal_header t l2)"
  proof (cases ?live)
    case None
    then have "turn_header.truncate l2 = turn_header.truncate t" using l2(2) by simp
    then show ?thesis using truncate_fields(4,5) [of l2] by metis
  next
    case (Some l)
    then have "turn_header.truncate l2 = heal_header t l \<or>
        turn_header.truncate l2 = turn_header.truncate l \<and> turnEquals l (heal_header t l)"
      using l2(2) by simp
    then show ?thesis using truncate_fields(1,2,3,5) [of l2] by metis
  qed
  then have "run_ops ?s (healTurnOps t (Some l2)) = ?s" using l2(1) by (simp add: ops applyTurnUpsert_def)
  then show ?thesis using l2(1) by (simp add: repaired_def [of t ?s])
qed

text \<open>What the header of the turn is after a repair\<close>

lemma repaired_end:
  assumes "getTurn (st_items (repaired t s)) (turn_turnId t) = Some l2"
  shows "turn_error l2 = turn_error t" "turn_durationMs l2 = turn_durationMs t" "obj_same (turn_usage l2) (turn_usage t)"
    and "getTurn (st_items s) (turn_turnId t) = Some l \<Longrightarrow> turn_state l2 = turn_state l"
  using repaired_header [of t s] assms
  by (auto simp: Let_def turn_header.defs heal_header_def turnEquals_def split: option.splits)

end
