(* ===== verification/SyncProps.thy ===== *)
theory SyncProps
  imports ReplicaSync ColdReplay TurnRepair TranscriptProps
begin

text \<open>
  What the transcript channel promises: a connection that resumes gets exactly the batches it missed, but for those
  dispatched before it is seeded, and its replica converges; a rebuilt session replays to what a cold read shows, and
  the repair of an ended turn adds frames; with what it takes away.
\<close>

section \<open>Resuming\<close>

text \<open>
  C11: what a connection that resumes is sent. It joins with a cursor of an agent that the journal of its batches still
  covers: its subscription lands, anything may happen until it is marked as seeded, and then it stays at its
  grade. What it is sent about the agent is exactly the batches after the cursor up to the landing, and then those
  dispatched after the mark: each that is not empty at its grade, once, in order, under its number, and no reset. A
  batch dispatched between the landing and the mark, two steps the code separates by an \<open>await\<close>, is never sent.
\<close>

theorem resume_exact:
  assumes "channel_reachable sid c" "entry_of sid c = Some entry" "landed listener sid t prev since c = (c1, frames)"
    and "a \<in> set (roster_ids (le_store entry))" "ts_getAgent (le_store entry) a \<noteq> None"
    and "since_cursor since a = Some n" "n \<le> length (ch_hist c a)"
      "length (ch_hist c a) \<le> n + TRANSCRIPT_OPS_JOURNAL_CAPACITY"
    and "sub_grades (jm_get (ss_targets (ch_st c)) t) = Some spec" "gradeFor (Some spec) a = g" "g \<noteq> GradeOff"
    and "waits_unseeded sid t c1 c2" "stays_at sid t a g (seeded_now t c2) c3"
  shows "received t a frames c1 c3
      = ops_msgs a (clip_batches g (drop n (enumerate 1 (ch_hist c a)) @ drop (length (ch_hist c2 a)) (enumerate 1 (ch_hist c3 a))))"
  using assms by (rule resume_received(1))

definition sample_batch :: "string \<Rightarrow> transcript_op list" where
  "sample_batch text = [MarkerUpsert (Obj 1 \<lparr>marker_markerId = text, marker_marker = ''compaction'',
     marker_payload = JUndef, marker_at = None\<rparr>) None]"

definition sample_connections :: session_state where
  "sample_connections = (new_session_state \<lparr>jo_epoch = ''ep_1'', jo_seq = 0, jo_pending = [], jo_flush = None, jo_headerPending = True\<rparr>)
     \<lparr>ss_targets := [(''c'', \<lparr>sub_agentFilter = None, sub_transcriptGrades = Some [(''*'', Some GradeDelta)]\<rparr>)]\<rparr>"

definition sample_c0 :: channel where
  "sample_c0 = channel_start ''s'' 7 1 [''main''] sample_connections"

definition batch_next :: "string \<Rightarrow> channel \<Rightarrow> channel" where
  "batch_next text c = delivered ''s'' (recorded ''main'' (sample_batch text) c)
     (binding_applyOps ''s'' ''main'' (sample_batch text) (ch_sv c))"

definition sample_c2 :: channel where
  "sample_c2 = batch_next ''m2'' (batch_next ''m1'' sample_c0)"

definition sample_landed :: channel where
  "sample_landed = fst (landed 5 ''s'' ''c'' None (Some [(''main'', 1)]) sample_c2)"

definition sample_resume_frames :: "transcript_envelope list" where
  "sample_resume_frames = snd (landed 5 ''s'' ''c'' None (Some [(''main'', 1)]) sample_c2)"

text \<open>The connection is seeded at once, or only after one more batch.\<close>

definition sample_resumed :: channel where
  "sample_resumed = seeded_now ''c'' sample_landed"

definition sample_late :: channel where
  "sample_late = seeded_now ''c'' (batch_next ''m3'' sample_landed)"

definition takes_batch :: "string \<Rightarrow> channel \<Rightarrow> bool" where
  "takes_batch text c \<longleftrightarrow>
     (case entry_of ''s'' c of None \<Rightarrow> False
      | Some entry \<Rightarrow> applied_gap (snd (apply_to_agent ''main'' (sample_batch text) entry)) = None)"

lemma batch_next_step: "takes_batch text c \<Longrightarrow> channel_step ''s'' c (batch_next text c)"
  unfolding batch_next_def takes_batch_def
  by (auto intro: channel_step.live_batch simp: sample_batch_def split: option.splits)

lemma sample_join_states:
  "let c0 = sample_c0; b = batch_next ''m1'' c0; c = batch_next ''m2'' b;
       entry = the (entry_of ''s'' c);
       l = fst (landed 5 ''s'' ''c'' None (Some [(''main'', 1)]) c); w = batch_next ''m3'' l;
       r = seeded_now ''c'' l; r4 = batch_next ''m4'' r; d = seeded_now ''c'' w; d4 = batch_next ''m4'' d
   in (takes_batch ''m1'' c0 \<and> takes_batch ''m2'' b \<and> entry_of ''s'' c \<noteq> None) \<and>
      (''main'' \<in> set (roster_ids (le_store entry)) \<and> ts_getAgent (le_store entry) ''main'' \<noteq> None \<and>
       1 \<le> length (ch_hist c ''main'') \<and> length (ch_hist c ''main'') \<le> 1 + TRANSCRIPT_OPS_JOURNAL_CAPACITY \<and>
       sub_grades (jm_get (ss_targets (ch_st c)) ''c'') = Some [(''*'', Some GradeDelta)]) \<and>
      (''c'' \<notin> set (ss_transcriptSeeded (ch_st l)) \<and> takes_batch ''m3'' l \<and> ''c'' \<notin> set (ss_transcriptSeeded (ch_st w))) \<and>
      (takes_batch ''m4'' r \<and> subscribed_at r ''c'' ''main'' GradeDelta \<and> subscribed_at r4 ''c'' ''main'' GradeDelta) \<and>
      (takes_batch ''m4'' d \<and> subscribed_at d ''c'' ''main'' GradeDelta \<and> subscribed_at d4 ''c'' ''main'' GradeDelta) \<and>
      (entry_of ''s'' r4 \<noteq> None \<and> ch_whole r4 ''main'') \<and>
      ch_hist d4 ''main'' = map sample_batch [''m1'', ''m2'', ''m3'', ''m4'']"
  by code_simp

lemmas sample_states =
  sample_join_states [unfolded Let_def, folded sample_c2_def, folded sample_landed_def, folded sample_late_def sample_resumed_def]

lemma sample_c2_reachable: "channel_reachable ''s'' sample_c2"
proof -
  have "channel_reachable ''s'' sample_c0"
    unfolding sample_c0_def by (rule channel_reachable.start) (simp_all add: sample_connections_def new_session_state_def jm_ok_def)
  moreover have "channel_step ''s'' sample_c0 (batch_next ''m1'' sample_c0)" by (rule batch_next_step) (use sample_states in blast)
  moreover have "channel_step ''s'' (batch_next ''m1'' sample_c0) sample_c2"
    unfolding sample_c2_def by (rule batch_next_step) (use sample_states in blast)
  ultimately show ?thesis by (blast intro: channel_reachable.step)
qed

lemma sample_entry: "entry_of ''s'' sample_c2 = Some (the (entry_of ''s'' sample_c2))"
  by (rule option.collapse [symmetric]) (use sample_states in blast)

lemma sample_member_stays:
  assumes "c = sample_resumed \<or> c = sample_late"
  shows "stays_at ''s'' ''c'' ''main'' GradeDelta c (batch_next ''m4'' c)"
proof -
  have "takes_batch ''m4'' c" "subscribed_at c ''c'' ''main'' GradeDelta" "subscribed_at (batch_next ''m4'' c) ''c'' ''main'' GradeDelta"
    using sample_states assms by blast+
  then show ?thesis by (blast intro: stays_at.intros batch_next_step)
qed

lemma sample_waits:
  "waits_unseeded ''s'' ''c'' sample_landed sample_landed"
  "waits_unseeded ''s'' ''c'' sample_landed (batch_next ''m3'' sample_landed)"
proof -
  have u: "''c'' \<notin> set (ss_transcriptSeeded (ch_st sample_landed))" "takes_batch ''m3'' sample_landed"
    "''c'' \<notin> set (ss_transcriptSeeded (ch_st (batch_next ''m3'' sample_landed)))" using sample_states by blast+
  show w: "waits_unseeded ''s'' ''c'' sample_landed sample_landed" by (rule waits_unseeded.waiting [OF u(1)])
  show "waits_unseeded ''s'' ''c'' sample_landed (batch_next ''m3'' sample_landed)"
    by (rule waits_unseeded.meanwhile [OF w batch_next_step [OF u(2)] u(3)])
qed

lemma sample_landing:
  "landed 5 ''s'' ''c'' None (Some [(''main'', 1)]) sample_c2 = (sample_landed, sample_resume_frames)"
  by (simp add: sample_landed_def sample_resume_frames_def)

lemma sample_resume_facts:
  "''main'' \<in> set (roster_ids (le_store (the (entry_of ''s'' sample_c2))))"
  "ts_getAgent (le_store (the (entry_of ''s'' sample_c2))) ''main'' \<noteq> None"
  "since_cursor (Some [(''main'', 1)]) ''main'' = Some 1"
  "1 \<le> length (ch_hist sample_c2 ''main'')"
  "length (ch_hist sample_c2 ''main'') \<le> 1 + TRANSCRIPT_OPS_JOURNAL_CAPACITY"
  "sub_grades (jm_get (ss_targets (ch_st sample_c2)) ''c'') = Some [(''*'', Some GradeDelta)]"
  "gradeFor (Some [(''*'', Some GradeDelta)]) ''main'' = GradeDelta"
  by (use sample_states in \<open>blast | simp add: since_cursor_def jm_get_def gradeFor_def spec_entry_def\<close>)+

theorem resume_exact_witness:
  "received ''c'' ''main'' sample_resume_frames sample_landed (batch_next ''m4'' sample_late)
     = [OpsMsg ''main'' (sample_batch ''m2'') 2, OpsMsg ''main'' (sample_batch ''m4'') 4]
   \<and> ch_hist (batch_next ''m4'' sample_late) ''main'' = map sample_batch [''m1'', ''m2'', ''m3'', ''m4'']"
proof -
  let ?c2 = "batch_next ''m3'' sample_landed" and ?c3 = "batch_next ''m4'' sample_late"
  have "stays_at ''s'' ''c'' ''main'' GradeDelta (seeded_now ''c'' ?c2) ?c3"
    using sample_member_stays [of sample_late] by (simp add: sample_late_def)
  then have "received ''c'' ''main'' sample_resume_frames sample_landed ?c3
      = ops_msgs ''main'' (clip_batches GradeDelta (drop 1 (enumerate 1 (ch_hist sample_c2 ''main''))
          @ drop (length (ch_hist ?c2 ''main'')) (enumerate 1 (ch_hist ?c3 ''main''))))"
    by (intro resume_exact [OF sample_c2_reachable sample_entry sample_landing sample_resume_facts _ sample_waits(2)]) simp_all
  also have "\<dots> = [OpsMsg ''main'' (sample_batch ''m2'') 2, OpsMsg ''main'' (sample_batch ''m4'') 4]" by code_simp
  moreover have "ch_hist ?c3 ''main'' = map sample_batch [''m1'', ''m2'', ''m3'', ''m4'']" using sample_states by blast
  ultimately show ?thesis by simp
qed

text \<open>
  C3: the replica converges. Let the connection have a replica that shows its grade of the first batches of the
  agent, up to its cursor. It joins as above, no batch of the agent is dispatched between the landing and the mark, it
  stays at its grade and runs what it is sent. While no batch of the agent had a gap, the replica then shows its grade of
  the agent in the store of the server: the same state at grade \<open>delta\<close>, and at grade \<open>turn\<close> (of a history that is
  causal and has no resets) the state without what the grade hides.
\<close>

theorem replica_converges:
  assumes "channel_reachable sid c" "entry_of sid c = Some entry" "landed listener sid t prev since c = (c1, frames)"
    and "a \<in> set (roster_ids (le_store entry))" "ts_getAgent (le_store entry) a \<noteq> None"
    and "since_cursor since a = Some n" "n \<le> length (ch_hist c a)"
      "length (ch_hist c a) \<le> n + TRANSCRIPT_OPS_JOURNAL_CAPACITY"
    and "sub_grades (jm_get (ss_targets (ch_st c)) t) = Some spec" "gradeFor (Some spec) a = g"
    and "g = GradeDelta \<or> g = GradeTurn"
    and "waits_unseeded sid t c1 c2" "ch_hist c2 a = ch_hist c1 a" "stays_at sid t a g (seeded_now t c2) c3"
    and "entry_of sid c3 = Some entry3" "ch_whole c3 a"
    and "grade_view g (run_ops EMPTY_AGENT_STATE (concat (take n (ch_hist c a)))) replica"
    and "g = GradeTurn \<Longrightarrow> causal_run EMPTY_AGENT_STATE (concat (ch_hist c3 a)) \<and> \<not> list_ex is_reset (concat (ch_hist c3 a))"
  shows "grade_view g (agent_state_of a entry3) (run_ops replica (concat (map msg_ops (received t a frames c1 c3))))"
proof -
  have off: "g \<noteq> GradeOff" using assms(11) by auto
  note rr = resume_received [OF assms(1-10) off assms(12,14)]
  have h2: "ch_hist c2 a = ch_hist c a" using rr(2) assms(13) by simp
  obtain more where more: "ch_hist c3 a = ch_hist c a @ more" using rr(4) h2 by auto
  have state: "agent_state_of a entry3 = run_ops EMPTY_AGENT_STATE (concat (ch_hist c3 a))"
    using rr(5) assms(15,16) by (auto simp: channel_ok_def log_ok_def)
  have "take n (ch_hist c a) = take n (ch_hist c3 a)" using assms(7) by (simp add: more)
  moreover have split: "concat (ch_hist c3 a) = concat (take n (ch_hist c3 a)) @ concat (drop n (ch_hist c3 a))"
    by (metis append_take_drop_id concat_append)
  moreover have "drop n (enumerate 1 (ch_hist c a)) @ drop (length (ch_hist c2 a)) (enumerate 1 (ch_hist c3 a))
      = drop n (enumerate 1 (ch_hist c3 a))"
    using assms(7) by (simp add: h2 more enumerate_append_eq)
  then have "concat (map msg_ops (received t a frames c1 c3)) = filterOpsForGrade g (concat (drop n (ch_hist c3 a)))"
    by (simp add: rr(1) msg_ops_msgs clip_batches_ops snd_enumerate)
  ultimately show ?thesis
    using clipped_rest [OF _ assms(11), of "concat (take n (ch_hist c3 a))" replica "concat (drop n (ch_hist c3 a))"] assms(17,18)
    by (auto simp: state list_ex_iff)
qed

theorem replica_converges_witness:
  "run_ops (run_ops EMPTY_AGENT_STATE (sample_batch ''m1'')) (concat (map msg_ops
      (received ''c'' ''main'' sample_resume_frames sample_landed (batch_next ''m4'' sample_resumed))))
   = agent_state_of ''main'' (the (entry_of ''s'' (batch_next ''m4'' sample_resumed)))"
proof -
  let ?c3 = "batch_next ''m4'' sample_resumed"
  have stay: "stays_at ''s'' ''c'' ''main'' GradeDelta (seeded_now ''c'' sample_landed) ?c3"
    using sample_member_stays [of sample_resumed] by (simp add: sample_resumed_def)
  have "grade_view GradeDelta (agent_state_of ''main'' (the (entry_of ''s'' ?c3)))
      (run_ops (run_ops EMPTY_AGENT_STATE (sample_batch ''m1''))
        (concat (map msg_ops (received ''c'' ''main'' sample_resume_frames sample_landed ?c3))))"
  proof (rule replica_converges [OF sample_c2_reachable sample_entry sample_landing sample_resume_facts _ sample_waits(1) _ stay])
    show "entry_of ''s'' ?c3 = Some (the (entry_of ''s'' ?c3))"
      by (rule option.collapse [symmetric]) (use sample_states in blast)
    show "ch_whole ?c3 ''main''" using sample_states by blast
    show "grade_view GradeDelta (run_ops EMPTY_AGENT_STATE (concat (take 1 (ch_hist sample_c2 ''main''))))
        (run_ops EMPTY_AGENT_STATE (sample_batch ''m1''))" by code_simp
  qed simp_all
  then show ?thesis by (simp add: grade_view_def)
qed

text \<open>
  The batch that is dispatched between the landing and the mark is lost: the journal numbers it, but the connection
  is sent the batches before and after it and no reset, and its replica stays another than the store.
\<close>

lemma resume_loses_batch:
  "map (\<lambda>m. case m of OpsMsg _ _ n \<Rightarrow> n | ResetMsg _ _ _ _ \<Rightarrow> 0)
       (received ''c'' ''main'' sample_resume_frames sample_landed (batch_next ''m4'' sample_late)) = [2, 4]
   \<and> run_ops (run_ops EMPTY_AGENT_STATE (sample_batch ''m1'')) (concat (map msg_ops
        (received ''c'' ''main'' sample_resume_frames sample_landed (batch_next ''m4'' sample_late))))
     \<noteq> agent_state_of ''main'' (the (entry_of ''s'' (batch_next ''m4'' sample_late)))"
  by code_simp

section \<open>The journal of batches\<close>

text \<open>A journal to which batches were pushed\<close>

definition pushes :: "transcript_op list list \<Rightarrow> ops_journal" where
  "pushes h = foldl (\<lambda>j ops. fst (journal_push ops j)) new_ops_journal h"

lemma pushes_hold: "journal_holds h (pushes h)"
  by (induction h rule: rev_induct) (simp_all add: pushes_def journal_holds_new journal_holds_push)

text \<open>
  C32: the catch-up of a cursor. Whatever batches were pushed, a cursor is served completely exactly when it is not
  ahead of them and at most 2000 behind; then it gets the batches after it, in order, and always the number of the latest.
\<close>

theorem catchup_exact:
  "oc_latestSeq (catchup_since (Some (pushes h)) n) = length h
   \<and> (oc_complete (catchup_since (Some (pushes h)) n) \<longleftrightarrow> n \<le> length h \<and> length h \<le> n + 2000)
   \<and> (oc_complete (catchup_since (Some (pushes h)) n) \<longrightarrow>
        map (\<lambda>b. (ba_seq b, ba_ops b)) (oc_batches (catchup_since (Some (pushes h)) n)) = drop n (enumerate 1 h))"
proof -
  have "journal_of h (Some (pushes h))" using pushes_hold by (simp add: journal_of_def)
  note cu = catchup_of [OF this, of n]
  show ?thesis
    using cu by (auto simp: TRANSCRIPT_OPS_JOURNAL_CAPACITY_def comp_def)
qed

theorem catchup_exact_witness:
  "map (\<lambda>b. (ba_seq b, ba_ops b)) (oc_batches (catchup_since (Some (pushes [[], sample_batch ''m1''])) 1)) = [(2, sample_batch ''m1'')]"
  using catchup_exact [of "[[], sample_batch ''m1'']" 1] by simp

section \<open>Replaying a rebuilt session\<close>

text \<open>
  C24: a rebuilt session replays to what a cold read shows. Group the messages of a session into turns, fold its records,
  and let an idle session replay the result into a fresh store. If no message repeats the id of one of its tool calls
  and no such id looks like the name of a streamed frame (\<open>calls_ok\<close>), the timeline and the tasks of the store are those
  of the cold read, turn for turn and frame for frame, and so are the badges, where modes with neither a plan nor a
  swarm count as none. But the replay has no operation for the interactions, attachments, todos and prompts: the live
  store has none, whatever the cold read shows.
\<close>

theorem rebuilt_session_replays:
  assumes "list_all calls_ok messages"
    and "foldWireRecordFacts fref records (groupMessagesIntoSnapshot json_parse gref messages) = Inr snap"
  shows "st_items (run_ops EMPTY_AGENT_STATE (backfill_ops None snap [])) = snap_items snap
    \<and> jm_values (st_tasks (run_ops EMPTY_AGENT_STATE (backfill_ops None snap []))) = snap_tasks snap
    \<and> meta_modes (st_meta (run_ops EMPTY_AGENT_STATE (backfill_ops None snap []))) = drop_empty_modes (meta_modes (snap_meta snap))
    \<and> entities (run_ops EMPTY_AGENT_STATE (backfill_ops None snap [])) = entities EMPTY_AGENT_STATE"
proof -
  have "backfill_ops None snap [] = snapshotToOps snap snapshotTurnOps"
    by (simp add: backfill_ops_def liveTurnOverlay_def healTurnOps_def getTurn_turns)
  then have run: "run_ops EMPTY_AGENT_STATE (backfill_ops None snap [])
      = EMPTY_AGENT_STATE\<lparr>st_items := snap_items snap, st_tasks := jm_of_values task_taskId (snap_tasks snap),
          st_meta := (snap_meta snap)\<lparr>meta_modes := drop_empty_modes (meta_modes (snap_meta snap))\<rparr>\<rparr>"
    by (simp add: replay_snapshot rebuilt_replayable [OF assms])
  show ?thesis
    unfolding run
    by (simp add: jm_of_values_distinct rebuilt_replayable(2) [OF assms] jm_values_def comp_def entities_def)
qed

theorem rebuilt_session_replays_witness:
  "turns (st_items (run_ops EMPTY_AGENT_STATE (backfill_ops None (projr (foldWireRecordFacts 9 sample_records sample_base)) []))) \<noteq> []"
proof -
  have "turns (snap_items (projr (foldWireRecordFacts 9 sample_records sample_base))) = turns (snap_items sample_base)"
    using fold_InrD [OF sample_fold_value] by code_simp
  moreover have "turns (snap_items sample_base) \<noteq> []" by code_simp
  ultimately show ?thesis
    using rebuilt_session_replays [OF sample_history_calls_ok sample_fold_value [unfolded sample_base_def], folded sample_base_def]
    by simp
qed

section \<open>Repairing an ended turn\<close>

text \<open>
  A repair only adds frames. After it, every persisted text, thought and tool frame of the turn is in the live turn,
  with a text at least as long and an outcome if the persisted one has it. A live frame changes only where it was
  shorter, had no outcome, or was of another kind. Interactions, attachments, todos and prompts stay, and a second repair from
  the same records changes nothing at all. What it does to the header of the turn follows below.
\<close>

theorem repair_only_adds:
  assumes "wf_state s" "wf_steps (turn_steps t)"
  shows "(\<forall>sid fid f. persisted t sid fid = Some f \<and> \<not> is_notice f \<longrightarrow>
            (\<exists>g. frame_of (st_items (repaired t s)) (turn_turnId t) sid fid = Some g \<and> covers g f))
    \<and> (\<forall>i sid fid l. frame_of (st_items s) i sid fid = Some l \<longrightarrow>
          frame_of (st_items (repaired t s)) i sid fid = Some l
          \<or> (\<exists>f. i = turn_turnId t \<and> persisted t sid fid = Some f \<and> \<not> covers l f))
    \<and> entities (repaired t s) = entities s
    \<and> repaired t (repaired t s) = repaired t s"
proof (intro conjI allI impI)
  have d: "distinct_steps (st_items s)" using assms(1) by (simp add: wf_distinct_steps wf_state_split)
  show "\<exists>g. frame_of (st_items (repaired t s)) (turn_turnId t) sid fid = Some g \<and> covers g f"
    if "persisted t sid fid = Some f \<and> \<not> is_notice f" for sid fid f
    using repaired_covers [OF d assms(2)] that by blast
  show "entities (repaired t s) = entities s"
    unfolding repaired_def by (rule timeline_run_entities [OF timeline_heal])
  show "repaired t (repaired t s) = repaired t s" by (rule repair_twice [OF d assms(2)])
  show "frame_of (st_items (repaired t s)) i sid fid = Some l
      \<or> (\<exists>f. i = turn_turnId t \<and> persisted t sid fid = Some f \<and> \<not> covers l f)"
    if l: "frame_of (st_items s) i sid fid = Some l" for i sid fid l
  proof (cases "i = turn_turnId t")
    case True
    then have known: "has_step (st_items s) (turn_turnId t) sid"
      using l by (auto simp: frame_of_def has_step_def bind_eq_Some_conv)
    note fr = repaired_frame(1) [OF d assms(2), of sid fid]
    show ?thesis
    proof (cases "persisted t sid fid")
      case (Some f)
      then have now: "frame_of (st_items (repaired t s)) i sid fid = coalesce (heal_frame (Some l) f) (Some l)"
        using fr known l True by (simp add: healed_def)
      show ?thesis
      proof (cases "is_notice f \<or> covers l f")
        case True
        then have "heal_frame (Some l) f = None" using heal_frame_covers(1) [of f "Some l"] heal_frame_covers(3) [of f] by auto
        then show ?thesis using now by simp
      qed (use True Some in blast)
    qed (use fr l True in simp)
  qed (use repaired_frame(2) [OF d assms(2)] l in simp)
qed

definition sample_cold_turn :: transcript_turn where
  "sample_cold_turn = turnHeaderToTurn (sample_header TurnCompleted)
     [stepHeaderToStep \<lparr>step_stepId = ''t0.1'', step_turnId = ''t0'', step_ordinal = 1, step_state = StepCompleted,
        step_startedAt = None, step_endedAt = None, step_usage = None, step_finishReason = None, step_timing = None,
        step_retry = None, step_endReason = None, step_endMessage = None\<rparr>
        [FTool (sample_tool\<lparr>tc_state := ToolDone, tc_output := JStr ''ok''\<rparr>)]]"

theorem repair_only_adds_witness:
  "\<exists>l. frame_of (st_items (repaired sample_cold_turn sample_state)) ''t0'' ''t0.1'' ''t0.1.c1'' = Some (FTool l) \<and> has_outcome l"
proof -
  let ?f = "FTool (sample_tool\<lparr>tc_state := ToolDone, tc_output := JStr ''ok''\<rparr>)"
  have "wf_state sample_state" using reachable_wf [OF sample_reachable] .
  moreover have "wf_steps (turn_steps sample_cold_turn)" by code_simp
  moreover have "persisted sample_cold_turn ''t0.1'' ''t0.1.c1'' = Some ?f" "turn_turnId sample_cold_turn = ''t0''" by code_simp+
  moreover have "\<not> is_notice ?f" by simp
  ultimately obtain g where "frame_of (st_items (repaired sample_cold_turn sample_state)) ''t0'' ''t0.1'' ''t0.1.c1'' = Some g"
    "covers g ?f"
    using repair_only_adds [of sample_state sample_cold_turn, THEN conjunct1, rule_format, of "''t0.1''" "''t0.1.c1''" ?f]
    by (simp del: is_notice.simps covers.simps) blast
  then show ?thesis by (cases g) (auto simp: has_outcome_def)
qed

text \<open>
  A repair forgets how the turn ended. The header it writes spreads the rebuilt turn, which never has an error, a
  usage or a duration, over the live one and takes back only its state, prompt and times: a quarter of a second
  after a turn failed, its error is gone from every live client, and the state still says it failed.
\<close>

theorem repair_forgets_failure:
  assumes "foldWireRecordFacts fref records (groupMessagesIntoSnapshot json_parse gref messages) = Inr snap"
    and "list_all calls_ok messages" "t \<in> set (turns (snap_items snap))"
    and "getTurn (st_items s) (turn_turnId t) = Some l"
  shows "\<exists>l2. getTurn (st_items (repaired t s)) (turn_turnId t) = Some l2
    \<and> turn_state l2 = turn_state l \<and> turn_error l2 = None \<and> turn_usage l2 = None \<and> turn_durationMs l2 = None"
proof -
  obtain l2 where l2: "getTurn (st_items (repaired t s)) (turn_turnId t) = Some l2"
    using repaired_header [of t s] by blast
  have "obj_same u None \<Longrightarrow> u = None" for u :: "'a obj option" by (cases u) simp_all
  then show ?thesis
    using repaired_end(1-3) [OF l2] repaired_end(4) [OF l2 assms(4)] rebuilt_turns(1-3) [OF assms(1-3)] l2 by auto
qed

definition sample_failed :: agent_state where
  "sample_failed = run_ops EMPTY_AGENT_STATE [TurnUpsert (sample_header TurnFailed\<lparr>turn_error := Some ''overloaded''\<rparr>)]"

theorem repair_forgets_failure_witness:
  "\<exists>t l2. getTurn (st_items (repaired t sample_failed)) ''t0'' = Some l2 \<and> turn_state l2 = TurnFailed \<and> turn_error l2 = None"
proof -
  let ?t = "hd (turns (snap_items (projr (foldWireRecordFacts 9 sample_records sample_base))))"
  have t: "?t \<in> set (turns (snap_items (projr (foldWireRecordFacts 9 sample_records sample_base))))" "turn_turnId ?t = ''t0''"
    by code_simp+
  have "getTurn (st_items sample_failed) ''t0'' = Some (turnHeaderToTurn (sample_header TurnFailed\<lparr>turn_error := Some ''overloaded''\<rparr>) [])"
    by code_simp
  then show ?thesis
    using repair_forgets_failure [OF sample_fold_value [unfolded sample_base_def] sample_history_calls_ok t(1) [unfolded sample_base_def]] t(2)
    unfolding sample_base_def by (fastforce simp: turnHeaderToTurn_def sample_header_def turn_header.defs transcript_turn.defs)
qed

section \<open>What stays behind\<close>

definition gapped_batch :: "transcript_op list" where
  "gapped_batch = sample_batch ''m1'' @ [Append sample_append]"

definition after_gap :: "transcript_service \<times> service_call list" where
  "after_gap = binding_applyOps ''s'' ''main'' gapped_batch (ch_sv sample_c0)"

text \<open>What a batch with a gap could apply is in the store, but it is called to nobody and has no number.\<close>

lemma gapped_batch_stays_behind:
  "snd after_gap = [] \<and> getSeqWatermark ''s'' ''main'' (fst after_gap) = 0
   \<and> map_option (\<lambda>entry. map itemId (st_items (agent_state_of ''main'' entry))) (jm_get (tv_live (fst after_gap)) ''s'') = Some [''m1'']"
  by code_simp

definition disposed_service :: transcript_service where
  "disposed_service = fst (with_store ''s''
     (ts_describeAgent (newTranscriptStore ''s'') (Obj 1 (sample_descriptor\<lparr>desc_disposedAt := Some ''t''\<rparr>))) (ch_sv sample_c0))"

text \<open>The roster entry a history backfill writes forgets that the agent was disposed.\<close>

lemma history_revives_disposed_agent:
  "map_option (\<lambda>entry. map (\<lambda>d. desc_disposedAt (obj_val d)) (ts_agents_list (le_store entry))) (jm_get (tv_live disposed_service) ''s'')
     = Some [Some ''t'']
   \<and> map_option (\<lambda>entry. map (\<lambda>d. desc_disposedAt (obj_val d)) (ts_agents_list (le_store entry)))
       (jm_get (tv_live (fst (backfill_describe 2 ''s'' ''a1'' None disposed_service))) ''s'') = Some [None]"
  by code_simp

end
