(* ===== verification/DomainEvents.thy ===== *)
theory DomainEvents
  imports TranscriptModel
begin

text \<open>
  The events one agent publishes on its bus: \<open>agent/loop/turnEvents.ts\<close>, \<open>stepRetry/stepRetryService.ts\<close>,
  the tool, task, shell, subagent, status, prompt and plan events of \<open>packages/agent-core-v2/src\<close>, with the fields
  their readers use, and the activity snapshot of \<open>agent/activityView/activityView.ts\<close>. An event whose payload
  is passed on whole (\<open>restOf\<close>) is the list of its fields.
\<close>

section \<open>The activity of an agent (\<open>activityView.ts\<close>)\<close>

datatype turn_phase = PhRunning | PhStreaming | PhToolCall | PhRetrying

record approval_ref =
  apr_approvalId :: string
  apr_toolCallId :: "string option"
  apr_since :: number

record tool_call_ref =
  tcr_toolCallId :: string
  tcr_name :: string
  tcr_since :: number

record activity_retry =
  ay_failedAttempt :: number
  ay_nextAttempt :: number
  ay_maxAttempts :: number
  ay_delayMs :: number
  ay_errorName :: "string option"
  ay_statusCode :: "number option"

record activity_turn =
  av_turnId :: int
  av_origin :: json
  av_phase :: turn_phase
  av_stream :: "phase_stream option"
  av_step :: int
  av_ending :: bool
  av_endingReason :: "interrupt_reason option"
  av_retry :: "activity_retry option"
  av_pendingApprovals :: "approval_ref list"
  av_activeToolCalls :: "tool_call_ref list"
  av_since :: number

record activity_last_turn =
  lt_turnId :: int
  lt_reason :: turn_end_reason
  lt_durationMs :: "number option"
  lt_at :: number

record background_ref =
  bg_kind :: string
  bg_id :: string
  bg_since :: number

datatype activity_lifecycle = LifeReady | LifeDisposed

record agent_activity =
  aa_lifecycle :: activity_lifecycle
  aa_turn :: "activity_turn option"
  aa_lastTurn :: "activity_last_turn option"
  aa_background :: "background_ref list"

section \<open>Events\<close>

record turn_ended_event =
  te_turnId :: int
  te_reason :: turn_end_reason
  te_error :: "string option"
  te_durationMs :: "number option"

record step_completed_event =
  sc_turnId :: int
  sc_step :: int
  sc_usage :: "step_usage obj option"
  sc_finishReason :: "string option"
  sc_rawFinishReason :: "string option"
  sc_providerFinishReason :: "string option"
  sc_llmFirstTokenLatencyMs :: "number option"
  sc_llmStreamDurationMs :: "number option"
  sc_llmRequestBuildMs :: "number option"
  sc_llmServerFirstTokenMs :: "number option"
  sc_llmServerDecodeMs :: "number option"
  sc_llmClientConsumeMs :: "number option"

record step_retrying_event =
  rt_turnId :: int
  rt_step :: int
  rt_failedAttempt :: number
  rt_nextAttempt :: number
  rt_maxAttempts :: number
  rt_delayMs :: number
  rt_errorName :: string
  rt_errorMessage :: string
  rt_statusCode :: "number option"

record tool_call_started_event =
  cs_turnId :: int
  cs_toolCallId :: string
  cs_name :: string
  cs_args :: json
  cs_display :: json

record task_notified_event =
  tn_notificationType :: string
  tn_title :: string
  tn_body :: string
  tn_severity :: string
  tn_sourceKind :: string
  tn_sourceId :: string

text \<open>\<open>endedAt\<close> is a number or \<open>null\<close>.\<close>

record task_event_info =
  ei_taskId :: string
  ei_kind :: string
  ei_description :: string
  ei_status :: task_state
  ei_detached :: "bool option"
  ei_agentId :: "string option"
  ei_startedAt :: number
  ei_endedAt :: "number option"

record subagent_spawned_event =
  sn_subagentId :: string
  sn_subagentName :: string
  sn_parentToolCallId :: string
  sn_description :: "string option"
  sn_swarmIndex :: "number option"
  sn_runInBackground :: bool

datatype subagent_run = RunStarted | RunCompleted | RunFailed | RunSuspended

record subagent_run_event =
  sb_type :: subagent_run
  sb_subagentId :: string
  sb_resultSummary :: "string option"
  sb_usage :: "step_usage obj option"
  sb_error :: "string option"
  sb_reason :: "string option"

record agent_status_event =
  ev_planMode :: "bool option"
  ev_swarmMode :: "bool option"
  ev_model :: "string option"
  ev_thinkingEffort :: "string option"
  ev_usage :: "agent_usage_meta option"
  ev_contextTokens :: "number option"
  ev_maxContextTokens :: "number option"
  ev_contextUsage :: "number option"
  ev_permission :: "permission_meta option"

record prompt_submitted_event =
  ps_promptId :: string
  ps_userMessageId :: string
  ps_status :: prompt_status
  ps_content :: json
  ps_createdAt :: string

record prompt_steered_event =
  pt_activePromptId :: string
  pt_promptIds :: "string list"
  pt_content :: json
  pt_steeredAt :: string

datatype compaction_phase = CompStarted | CompBlocked | CompCancelled | CompCompleted

datatype domain_event =
    EvTurnStarted int json "string option"
  | EvTurnEnded turn_ended_event
  | EvStepStarted int int
  | EvStepCompleted step_completed_event
  | EvStepInterrupted int int string "string option"
  | EvStepRetrying step_retrying_event
  | EvAssistantDelta int string
  | EvThinkingDelta int string
  | EvToolCallDelta int string "string option" "string option"
  | EvToolProgress string tool_frame_progress
  | EvToolCallStarted tool_call_started_event
  | EvToolResult string json "bool option"
  | EvTaskStarted task_event_info
  | EvTaskTerminated task_event_info
  | EvTaskNotified task_notified_event
  | EvShellStarted string string
  | EvShellOutput string "string option" "string option"
  | EvShellCompleted string "string option" bool
  | EvSubagentSpawned subagent_spawned_event
  | EvSubagentRun subagent_run_event
  | EvAgentStatus agent_status_event
  | EvActivity agent_activity
  | EvApprovalRequested string
  | EvApprovalResolved string
  | EvPromptSubmitted prompt_submitted_event
  | EvPromptCompleted string "prompt_status option" string
  | EvPromptAborted string string
  | EvPromptSteered prompt_steered_event
  | EvHookResult "(string \<times> json) list"
  | EvSkillActivated "(string \<times> json) list"
  | EvPluginCommand "(string \<times> json) list"
  | EvCronFired "(string \<times> json) list"
  | EvCompaction compaction_phase "(string \<times> json) list"
  | EvContextSpliced "(string \<times> json) list"
  | EvError "(string \<times> json) list"
  | EvWarning "(string \<times> json) list"
  | EvPlanRevision "(string \<times> json) list"
  | EvOther string

end
