(* ===== verification/ActivityView.thy ===== *)
theory ActivityView
  imports DomainEvents OrderedMap
begin

text \<open>
  \<open>packages/agent-core-v2/src/agent/activityView/activityViewService.ts\<close>: the activity of an agent as a
  fold of its own events, published when it changed, and
  \<open>packages/kap-server/src/services/legacyStatus/legacyStatus.ts\<close>, which turns it into the phase the
  first version of the protocol shows. The clock is an argument (\<open>now\<close>, in milliseconds).
\<close>

section \<open>The turn the view is folding\<close>

record mutable_turn =
  mt_turnId :: int
  mt_origin :: json
  mt_phase :: turn_phase
  mt_stream :: "phase_stream option"
  mt_step :: int
  mt_ending :: bool
  mt_endingReason :: "interrupt_reason option"
  mt_retry :: "activity_retry option"
  mt_pendingApprovals :: "(string, approval_ref) jsmap"
  mt_activeToolCalls :: "(string, tool_call_ref) jsmap"
  mt_since :: number

definition new_mutable_turn :: "number \<Rightarrow> int \<Rightarrow> json \<Rightarrow> mutable_turn" where
  "new_mutable_turn now tid og =
     \<lparr>mt_turnId = tid, mt_origin = og, mt_phase = PhRunning, mt_stream = None, mt_step = 0, mt_ending = False,
      mt_endingReason = None, mt_retry = None, mt_pendingApprovals = [], mt_activeToolCalls = [], mt_since = now\<rparr>"

definition turn_snapshot :: "mutable_turn \<Rightarrow> activity_turn" where
  "turn_snapshot t =
     \<lparr>av_turnId = mt_turnId t, av_origin = mt_origin t, av_phase = mt_phase t, av_stream = mt_stream t,
      av_step = mt_step t, av_ending = mt_ending t, av_endingReason = mt_endingReason t, av_retry = mt_retry t,
      av_pendingApprovals = jm_values (mt_pendingApprovals t), av_activeToolCalls = jm_values (mt_activeToolCalls t),
      av_since = mt_since t\<rparr>"

section \<open>The view\<close>

record activity_view =
  vw_lifecycle :: activity_lifecycle
  vw_turn :: "mutable_turn option"
  vw_lastTurn :: "activity_last_turn option"
  vw_background :: "(string, background_ref) jsmap"
  vw_current :: agent_activity

definition FULL_COMPACTION_BACKGROUND_ID :: string where
  "FULL_COMPACTION_BACKGROUND_ID = ''full-compaction''"

definition USER_PROMPT_ORIGIN :: json where
  "USER_PROMPT_ORIGIN = JObj 0 [(''kind'', JStr ''user'')]"

definition initial_view :: activity_view where
  "initial_view =
     \<lparr>vw_lifecycle = LifeReady, vw_turn = None, vw_lastTurn = None, vw_background = [],
      vw_current = \<lparr>aa_lifecycle = LifeReady, aa_turn = None, aa_lastTurn = None, aa_background = []\<rparr>\<rparr>"

definition turns_equal :: "activity_turn \<Rightarrow> activity_turn \<Rightarrow> bool" where
  "turns_equal ta tb \<longleftrightarrow>
     av_turnId ta = av_turnId tb \<and> av_phase ta = av_phase tb \<and> av_stream ta = av_stream tb \<and>
     av_step ta = av_step tb \<and> av_ending ta = av_ending tb \<and> av_endingReason ta = av_endingReason tb \<and>
     length (av_pendingApprovals ta) = length (av_pendingApprovals tb) \<and>
     length (av_activeToolCalls ta) = length (av_activeToolCalls tb) \<and>
     map_option ay_nextAttempt (av_retry ta) = map_option ay_nextAttempt (av_retry tb)"

definition activityEqual :: "agent_activity \<Rightarrow> agent_activity \<Rightarrow> bool" where
  "activityEqual a b \<longleftrightarrow>
     aa_lifecycle a = aa_lifecycle b \<and>
     (case (aa_turn a, aa_turn b) of
        (None, None) \<Rightarrow> True | (Some ta, Some tb) \<Rightarrow> turns_equal ta tb | _ \<Rightarrow> False) \<and>
     (case (aa_lastTurn a, aa_lastTurn b) of
        (None, None) \<Rightarrow> True
      | (Some la, Some lb) \<Rightarrow> lt_turnId la = lt_turnId lb \<and> lt_reason la = lt_reason lb
      | _ \<Rightarrow> False) \<and>
     list_all2 (\<lambda>x y. bg_id x = bg_id y \<and> bg_kind x = bg_kind y) (aa_background a) (aa_background b)"

text \<open>What the state looks like from outside; a publication is the new state, if it was published.\<close>

definition view_state :: "activity_view \<Rightarrow> agent_activity" where
  "view_state v =
     \<lparr>aa_lifecycle = vw_lifecycle v, aa_turn = map_option turn_snapshot (vw_turn v), aa_lastTurn = vw_lastTurn v,
      aa_background = jm_values (vw_background v)\<rparr>"

type_synonym view_result = "activity_view \<times> agent_activity option"

definition publish :: "activity_view \<Rightarrow> view_result" where
  "publish v =
     (let next = view_state v in
      if activityEqual (vw_current v) next then (v, None) else (v\<lparr>vw_current := next\<rparr>, Some next))"

definition mutateTurn :: "(mutable_turn \<Rightarrow> mutable_turn) \<Rightarrow> activity_view \<Rightarrow> view_result" where
  "mutateTurn f v =
     (case vw_turn v of None \<Rightarrow> (v, None) | Some t \<Rightarrow> publish (v\<lparr>vw_turn := Some (f t)\<rparr>))"

section \<open>Seeding\<close>

text \<open>\<open>activeTurnId\<close> is the turn the loop is running, \<open>infos\<close> the active tasks with their kind and start.\<close>

definition seedFromLoop :: "number \<Rightarrow> int option \<Rightarrow> activity_view \<Rightarrow> view_result" where
  "seedFromLoop now activeTurnId v =
     (case activeTurnId of
        None \<Rightarrow> (v, None)
      | Some tid \<Rightarrow> publish (v\<lparr>vw_turn := Some (new_mutable_turn now tid USER_PROMPT_ORIGIN)\<rparr>))"

definition seedFromTasks :: "background_ref list \<Rightarrow> activity_view \<Rightarrow> view_result" where
  "seedFromTasks infos v =
     (let v2 = v\<lparr>vw_background := fold (\<lambda>b. jm_set (bg_id b) b) infos (vw_background v)\<rparr> in
      if vw_background v2 \<noteq> [] then publish v2 else (v2, None))"

definition compaction_ref :: "number \<Rightarrow> background_ref" where
  "compaction_ref now = \<lparr>bg_kind = ''compaction'', bg_id = FULL_COMPACTION_BACKGROUND_ID, bg_since = now\<rparr>"

definition seedFromFullCompaction :: "number \<Rightarrow> bool \<Rightarrow> activity_view \<Rightarrow> view_result" where
  "seedFromFullCompaction now compacting v =
     (if \<not> compacting then (v, None)
      else publish (v\<lparr>vw_background := jm_set FULL_COMPACTION_BACKGROUND_ID (compaction_ref now) (vw_background v)\<rparr>))"

definition newActivityView :: "number \<Rightarrow> int option \<Rightarrow> background_ref list \<Rightarrow> bool \<Rightarrow> activity_view" where
  "newActivityView now activeTurnId infos compacting =
     fst (seedFromFullCompaction now compacting (fst (seedFromTasks infos (fst (seedFromLoop now activeTurnId initial_view)))))"

section \<open>Handlers\<close>

definition view_onTurnStarted :: "number \<Rightarrow> int \<Rightarrow> json \<Rightarrow> activity_view \<Rightarrow> view_result" where
  "view_onTurnStarted now tid og v =
     publish (v\<lparr>vw_turn := Some (new_mutable_turn now tid (if og = JUndef \<or> og = JNull then USER_PROMPT_ORIGIN else og)),
                vw_lastTurn := None\<rparr>)"

definition view_onTurnEnded :: "number \<Rightarrow> int \<Rightarrow> turn_end_reason \<Rightarrow> activity_view \<Rightarrow> view_result" where
  "view_onTurnEnded now tid reason v =
     (case vw_turn v of
        None \<Rightarrow> publish (v\<lparr>vw_lastTurn := Some \<lparr>lt_turnId = tid, lt_reason = reason, lt_durationMs = None, lt_at = now\<rparr>\<rparr>)
      | Some t \<Rightarrow>
          if mt_turnId t \<noteq> tid
          then publish (v\<lparr>vw_lastTurn := Some \<lparr>lt_turnId = tid, lt_reason = reason, lt_durationMs = None, lt_at = now\<rparr>\<rparr>)
          else publish (v\<lparr>vw_lastTurn := Some \<lparr>lt_turnId = tid, lt_reason = reason,
                                              lt_durationMs = Some (now - mt_since t), lt_at = now\<rparr>,
                          vw_turn := None\<rparr>))"

definition view_onStepStarted :: "int \<Rightarrow> activity_view \<Rightarrow> view_result" where
  "view_onStepStarted step =
     mutateTurn (\<lambda>t. t\<lparr>mt_step := step, mt_phase := PhRunning, mt_stream := None, mt_retry := None\<rparr>)"

definition interrupt_reason_of :: "string \<Rightarrow> interrupt_reason option" where
  "interrupt_reason_of reason =
     (if reason = ''aborted'' then Some ReasonAborted
      else if reason = ''max_steps'' then Some ReasonMaxSteps
      else if reason = ''error'' then Some ReasonError else None)"

definition onStepInterrupted :: "int \<Rightarrow> string \<Rightarrow> activity_view \<Rightarrow> view_result" where
  "onStepInterrupted tid reason v =
     (case interrupt_reason_of reason of
        None \<Rightarrow> (v, None)
      | Some r \<Rightarrow>
          mutateTurn (\<lambda>t. if mt_turnId t \<noteq> tid then t else t\<lparr>mt_ending := True, mt_endingReason := Some r\<rparr>) v)"

definition onDelta :: "phase_stream \<Rightarrow> activity_view \<Rightarrow> view_result" where
  "onDelta stream = mutateTurn (\<lambda>t. t\<lparr>mt_phase := PhStreaming, mt_stream := Some stream, mt_retry := None\<rparr>)"

definition view_onToolCallStarted :: "number \<Rightarrow> string \<Rightarrow> string \<Rightarrow> activity_view \<Rightarrow> view_result" where
  "view_onToolCallStarted now i name =
     mutateTurn (\<lambda>t. t\<lparr>mt_phase := PhToolCall, mt_stream := None, mt_retry := None,
       mt_activeToolCalls := jm_set i \<lparr>tcr_toolCallId = i, tcr_name = name, tcr_since = now\<rparr> (mt_activeToolCalls t)\<rparr>)"

definition view_onToolResult :: "string \<Rightarrow> activity_view \<Rightarrow> view_result" where
  "view_onToolResult i =
     mutateTurn (\<lambda>t. let calls = jm_delete i (mt_activeToolCalls t) in
       t\<lparr>mt_activeToolCalls := calls, mt_phase := (if calls = [] then PhRunning else PhToolCall),
         mt_stream := None, mt_retry := None\<rparr>)"

definition onApprovalRequested :: "number \<Rightarrow> string \<Rightarrow> activity_view \<Rightarrow> view_result" where
  "onApprovalRequested now i =
     mutateTurn (\<lambda>t. t\<lparr>mt_pendingApprovals :=
       jm_set i \<lparr>apr_approvalId = i, apr_toolCallId = Some i, apr_since = now\<rparr> (mt_pendingApprovals t)\<rparr>)"

definition onApprovalResolved :: "string \<Rightarrow> activity_view \<Rightarrow> view_result" where
  "onApprovalResolved i = mutateTurn (\<lambda>t. t\<lparr>mt_pendingApprovals := jm_delete i (mt_pendingApprovals t)\<rparr>)"

definition onFullCompactionEnded :: "activity_view \<Rightarrow> view_result" where
  "onFullCompactionEnded v =
     (if jm_get (vw_background v) FULL_COMPACTION_BACKGROUND_ID \<noteq> None
      then publish (v\<lparr>vw_background := jm_delete FULL_COMPACTION_BACKGROUND_ID (vw_background v)\<rparr>)
      else (v, None))"

definition onRetrying :: "step_retrying_event \<Rightarrow> activity_view \<Rightarrow> view_result" where
  "onRetrying e =
     mutateTurn (\<lambda>t. t\<lparr>mt_phase := PhRetrying, mt_stream := None,
       mt_retry := Some \<lparr>ay_failedAttempt = rt_failedAttempt e, ay_nextAttempt = rt_nextAttempt e,
         ay_maxAttempts = rt_maxAttempts e, ay_delayMs = rt_delayMs e, ay_errorName = Some (rt_errorName e),
         ay_statusCode = rt_statusCode e\<rparr>\<rparr>)"

definition onStepDone :: "activity_view \<Rightarrow> view_result" where
  "onStepDone = mutateTurn (\<lambda>t. t\<lparr>mt_phase := PhRunning, mt_stream := None, mt_retry := None\<rparr>)"

text \<open>The subscriptions of the constructor.\<close>

definition view_event :: "number \<Rightarrow> domain_event \<Rightarrow> activity_view \<Rightarrow> view_result" where
  "view_event now e v =
     (case e of
        EvTurnStarted tid og _ \<Rightarrow> view_onTurnStarted now tid og v
      | EvStepStarted _ step \<Rightarrow> view_onStepStarted step v
      | EvAssistantDelta _ _ \<Rightarrow> onDelta StreamAssistant v
      | EvThinkingDelta _ _ \<Rightarrow> onDelta StreamThinking v
      | EvToolCallDelta _ _ _ _ \<Rightarrow> onDelta StreamToolCall v
      | EvToolCallStarted c \<Rightarrow> view_onToolCallStarted now (cs_toolCallId c) (cs_name c) v
      | EvToolResult i _ _ \<Rightarrow> view_onToolResult i v
      | EvStepRetrying r \<Rightarrow> onRetrying r v
      | EvStepCompleted _ \<Rightarrow> onStepDone v
      | EvStepInterrupted tid _ reason _ \<Rightarrow> onStepInterrupted tid reason v
      | EvTurnEnded te \<Rightarrow> view_onTurnEnded now (te_turnId te) (te_reason te) v
      | EvApprovalRequested i \<Rightarrow> onApprovalRequested now i v
      | EvApprovalResolved i \<Rightarrow> onApprovalResolved i v
      | EvTaskStarted info \<Rightarrow>
          publish (v\<lparr>vw_background := jm_set (ei_taskId info)
            \<lparr>bg_kind = ei_kind info, bg_id = ei_taskId info, bg_since = ei_startedAt info\<rparr> (vw_background v)\<rparr>)
      | EvTaskTerminated info \<Rightarrow>
          if jm_get (vw_background v) (ei_taskId info) \<noteq> None
          then publish (v\<lparr>vw_background := jm_delete (ei_taskId info) (vw_background v)\<rparr>) else (v, None)
      | EvCompaction CompStarted _ \<Rightarrow>
          publish (v\<lparr>vw_background := jm_set FULL_COMPACTION_BACKGROUND_ID (compaction_ref now) (vw_background v)\<rparr>)
      | EvCompaction CompCompleted _ \<Rightarrow> onFullCompactionEnded v
      | EvCompaction CompCancelled _ \<Rightarrow> onFullCompactionEnded v
      | _ \<Rightarrow> (v, None))"

definition view_dispose :: "activity_view \<Rightarrow> view_result" where
  "view_dispose v = publish (v\<lparr>vw_lifecycle := LifeDisposed\<rparr>)"

section \<open>The phase of the first protocol version\<close>

definition or_zero :: "(activity_retry \<Rightarrow> number) \<Rightarrow> activity_retry option \<Rightarrow> number" where
  "or_zero f r = (case r of None \<Rightarrow> 0 | Some r \<Rightarrow> f r)"

definition toLegacyPhase :: "nat \<Rightarrow> agent_activity \<Rightarrow> agent_phase option" where
  "toLegacyPhase ref a =
     (case (aa_lifecycle a, aa_turn a) of
        (LifeReady, None) \<Rightarrow>
          (case aa_lastTurn a of
             Some l \<Rightarrow> Some (PhaseEnded (of_int (lt_turnId l)) (lt_reason l) (lt_durationMs l) (lt_at l))
           | None \<Rightarrow> Some PhaseIdle)
      | (LifeReady, Some t) \<Rightarrow>
          let n = of_int (av_turnId t); st = of_int (av_step t) in
          if av_pendingApprovals t \<noteq> [] then
            (let latest = last (av_pendingApprovals t) in
             Some (PhaseAwaitingApproval n (if av_step t = 0 then None else Some st)
               (JObj ref [(''approvalId'', JStr (apr_approvalId latest)),
                          (''toolCallId'', (case apr_toolCallId latest of Some i \<Rightarrow> JStr i | None \<Rightarrow> JUndef))])
               (apr_since latest)))
          else (case (av_ending t, av_endingReason t) of
            (True, Some r) \<Rightarrow> Some (PhaseInterrupted n (Some st) r None (av_since t))
          | _ \<Rightarrow>
            (case av_phase t of
               PhRunning \<Rightarrow> Some (PhaseRunning n st [] (av_since t))
             | PhStreaming \<Rightarrow>
                 Some (PhaseStreaming n st [] (case av_stream t of Some s \<Rightarrow> s | None \<Rightarrow> StreamAssistant) None None (av_since t))
             | PhRetrying \<Rightarrow>
                 Some (PhaseRetrying n st [] (or_zero ay_failedAttempt (av_retry t)) (or_zero ay_nextAttempt (av_retry t))
                   (or_zero ay_maxAttempts (av_retry t)) (or_zero ay_delayMs (av_retry t))
                   (Option.bind (av_retry t) ay_errorName) (Option.bind (av_retry t) ay_statusCode) (av_since t))
             | PhToolCall \<Rightarrow>
                 (let latest = (if av_activeToolCalls t = [] then None else Some (last (av_activeToolCalls t))) in
                  Some (PhaseToolCall n st (case latest of Some c \<Rightarrow> tcr_toolCallId c | None \<Rightarrow> [])
                    (case latest of Some c \<Rightarrow> tcr_name c | None \<Rightarrow> [])
                    (case latest of Some c \<Rightarrow> tcr_since c | None \<Rightarrow> av_since t)))))
      | (LifeDisposed, _) \<Rightarrow> None)"

end
