(* ===== verification/EventProjector.thy ===== *)
theory EventProjector
  imports ActivityView TranscriptSync JsDate
begin

text \<open>
  \<open>packages/kap-server/src/services/transcript/coreEventMap.ts\<close>: the projector of one agent, which turns
  each event of the agent's bus into the operations that bring its transcript up to date. A handler takes the
  lookups into the producer's store, the time (an ISO string) and the state, and gives the next state and the
  operations. An object the code allocates gets the next identity of \<open>pj_ref\<close>; \<open>json_parse\<close> is the
  \<open>JSON.parse\<close> of the history grouping.
\<close>

section \<open>The state of a projector\<close>

record open_text =
  of_frameId :: frame_id
  of_offset :: nat
  of_text :: string

record tool_record =
  tr_turnId :: turn_id
  tr_stepId :: step_id
  tr_frame :: tool_call_frame

record projector =
  pj_currentTurn :: "turn_header option"
  pj_currentStep :: "step_header option"
  pj_stepOrdinals :: "(turn_id, int) jsmap"
  pj_frameOrdinal :: nat
  pj_openText :: "open_text option"
  pj_openThinking :: "open_text option"
  pj_toolFrames :: "(string, tool_record) jsmap"
  pj_tasks :: "(task_id, transcript_task) jsmap"
  pj_shellTasks :: "(string, task_id) jsmap"
  pj_interactions :: "(string, transcript_interaction) jsmap"
  pj_prompts :: "(string, transcript_prompt) jsmap"
  pj_stepUsageByTurn :: "(turn_id, step_usage obj list) jsmap"
  pj_markerSeq :: nat
  pj_planModeActive :: bool
  pj_ref :: nat

definition newProjector :: "nat \<Rightarrow> projector" where
  "newProjector ref =
     \<lparr>pj_currentTurn = None, pj_currentStep = None, pj_stepOrdinals = [], pj_frameOrdinal = 0, pj_openText = None,
      pj_openThinking = None, pj_toolFrames = [], pj_tasks = [], pj_shellTasks = [], pj_interactions = [],
      pj_prompts = [], pj_stepUsageByTurn = [], pj_markerSeq = 0, pj_planModeActive = False, pj_ref = ref\<rparr>"

record projector_lookups =
  lk_stepFrames :: "turn_id \<Rightarrow> step_id \<Rightarrow> transcript_frame list option"
  lk_toolFrame :: "string \<Rightarrow> tool_record option"
  lk_stepOrdinal :: "turn_id \<Rightarrow> int option"

type_synonym json_reader = "nat \<Rightarrow> string \<Rightarrow> (json \<times> nat) option"

type_synonym projected = "projector \<times> transcript_op list"

section \<open>Pure helpers\<close>

definition mapTurnOrigin :: "json \<Rightarrow> turn_origin" where
  "mapTurnOrigin og =
     (case js_opt_prop og ''kind'' of
        JStr k \<Rightarrow>
          if k = ''user'' then OriginUser og
          else if k = ''cron_job'' \<or> k = ''cron_missed''
          then OriginCron (js_string_of (js_opt_prop og ''jobId'')) og
          else if k = ''task''
          then (case js_opt_prop og ''taskId'' of JStr i \<Rightarrow> OriginTask i og | _ \<Rightarrow> OriginOther og)
          else if k = ''hook_result'' then OriginHook og
          else if k = ''compaction_summary'' then OriginCompaction og
          else if k = ''shell_command'' then OriginUser og
          else OriginOther og
      | _ \<Rightarrow> OriginOther og)"

fun mapTurnEndState :: "turn_end_reason \<Rightarrow> turn_state" where
  "mapTurnEndState EndCompleted = TurnCompleted"
| "mapTurnEndState EndCancelled = TurnCancelled"
| "mapTurnEndState EndFailed = TurnFailed"
| "mapTurnEndState EndBlocked = TurnFailed"

definition mapTaskKind :: "string \<Rightarrow> task_kind" where
  "mapTaskKind k = (if k = ''process'' then TaskShell else if k = ''agent'' then TaskSubagent else TaskOther)"

definition mapInteractionEndState :: "interaction_kind \<Rightarrow> json \<Rightarrow> interaction_state" where
  "mapInteractionEndState kind response =
     (if kind = InteractionQuestion then (if response = JNull then IDismissed else IAnswered)
      else let decision = js_opt_prop response ''decision'' in
        if decision = JStr ''approved'' then IApproved
        else if decision = JStr ''rejected'' then IRejected
        else if decision = JStr ''cancelled'' then ICancelled
        else ICancelled)"

definition TODO_LIST_TOOL_NAME :: string where
  "TODO_LIST_TOOL_NAME = ''TodoList''"

definition TODO_ENTITY_ID :: string where
  "TODO_ENTITY_ID = ''todo''"

definition todo_status_of :: "json \<Rightarrow> todo_status option" where
  "todo_status_of v =
     (if v = JStr ''pending'' then Some TodoPending
      else if v = JStr ''in_progress'' then Some TodoInProgress
      else if v = JStr ''done'' then Some TodoDone else None)"

fun todo_items_of :: "json list \<Rightarrow> todo_item list option" where
  "todo_items_of [] = Some []"
| "todo_items_of (entry # es) =
     (case (js_opt_prop entry ''title'', todo_status_of (js_opt_prop entry ''status'')) of
        (JStr t, Some s) \<Rightarrow> map_option (\<lambda>is. \<lparr>todo_title = t, todo_status = s\<rparr> # is) (todo_items_of es)
      | _ \<Rightarrow> None)"

definition todoWriteItems :: "json \<Rightarrow> todo_item list option" where
  "todoWriteItems input = (case js_opt_prop input ''todos'' of JArr _ es \<Rightarrow> todo_items_of es | _ \<Rightarrow> None)"

definition parseToolArgs :: "json_reader \<Rightarrow> nat \<Rightarrow> json \<Rightarrow> json \<times> nat" where
  "parseToolArgs json_parse ref args =
     (case args of
        JStr s \<Rightarrow> if s = [] then (args, ref) else (case json_parse ref s of Some r \<Rightarrow> r | None \<Rightarrow> (args, ref))
      | _ \<Rightarrow> (args, ref))"

text \<open>\<open>{ ...base, ...over }\<close>\<close>

definition spread :: "(string \<times> json) list \<Rightarrow> (string \<times> json) list \<Rightarrow> (string \<times> json) list" where
  "spread base over = fold (\<lambda>(k, v). jm_set k v) over base"

text \<open>A header without the fields that only a later event fills.\<close>

definition step_base :: "turn_id \<Rightarrow> int \<Rightarrow> step_state \<Rightarrow> string option \<Rightarrow> step_header" where
  "step_base tid step st startedAt =
     \<lparr>step_stepId = stepId tid step, step_turnId = tid, step_ordinal = of_int step, step_state = st,
      step_startedAt = startedAt, step_endedAt = None, step_usage = None, step_finishReason = None,
      step_timing = None, step_retry = None, step_endReason = None, step_endMessage = None\<rparr>"

text \<open>\<open>this.currentStep?.stepId === stepId ? this.currentStep : undefined\<close>\<close>

definition prev_step :: "step_id \<Rightarrow> projector \<Rightarrow> step_header option" where
  "prev_step sid p =
     (case pj_currentStep p of Some s \<Rightarrow> if step_stepId s = sid then Some s else None | None \<Rightarrow> None)"

section \<open>Turns and steps\<close>

definition onTurnStarted :: "string \<Rightarrow> int \<Rightarrow> json \<Rightarrow> string option \<Rightarrow> projector \<Rightarrow> projected" where
  "onTurnStarted now n og prompt p =
     (let turn = \<lparr>turn_turnId = turnId n, turn_ordinal = of_int n, turn_state = TurnRunning,
                  turn_origin = mapTurnOrigin og, turn_prompt = prompt, turn_attachmentIds = None,
                  turn_startedAt = Some now, turn_endedAt = None, turn_usage = None, turn_durationMs = None,
                  turn_error = None\<rparr>
      in (p\<lparr>pj_currentTurn := Some turn, pj_currentStep := None, pj_openText := None, pj_openThinking := None\<rparr>,
          [TurnUpsert turn]))"

definition text_frame_of :: "frame_id \<Rightarrow> string \<Rightarrow> transcript_frame" where
  "text_frame_of i x = FText \<lparr>tf_frameId = i, tf_role = RoleAssistant, tf_text = x, tf_attachmentIds = None, tf_taskId = None\<rparr>"

definition thinking_frame_of :: "frame_id \<Rightarrow> string \<Rightarrow> transcript_frame" where
  "thinking_frame_of i x = FThinking \<lparr>th_frameId = i, th_text = x\<rparr>"

definition flush_ops :: "projector \<Rightarrow> transcript_op list" where
  "flush_ops p =
     (case pj_currentStep p of
        None \<Rightarrow> []
      | Some step \<Rightarrow>
          (case pj_openText p of None \<Rightarrow> [] | Some o1 \<Rightarrow>
             [FrameUpsert (step_turnId step) (step_stepId step) (text_frame_of (of_frameId o1) (of_text o1))])
          @ (case pj_openThinking p of None \<Rightarrow> [] | Some o2 \<Rightarrow>
             [FrameUpsert (step_turnId step) (step_stepId step) (thinking_frame_of (of_frameId o2) (of_text o2))]))"

definition flushOpenFrames :: "projector \<Rightarrow> projected" where
  "flushOpenFrames p = (p\<lparr>pj_openText := None, pj_openThinking := None\<rparr>, flush_ops p)"

definition takeTurnUsage :: "turn_id \<Rightarrow> projector \<Rightarrow> projector \<times> transcript_usage obj option" where
  "takeTurnUsage tid p =
     (let usages = jm_get (pj_stepUsageByTurn p) tid;
          p2 = p\<lparr>pj_stepUsageByTurn := jm_delete tid (pj_stepUsageByTurn p)\<rparr>
      in case usages of
           None \<Rightarrow> (p2, None)
         | Some us \<Rightarrow>
             if us = [] then (p2, None)
             else
               let total = (\<lambda>f. sum_list (map (f \<circ> obj_val) us))
               in (p2\<lparr>pj_ref := pj_ref p2 + 1\<rparr>,
                   Some (Obj (pj_ref p2)
                     \<lparr>tu_inputTokens = Some (total su_inputOther + total su_inputCacheCreation),
                      tu_outputTokens = Some (total su_output),
                      tu_cachedTokens = Some (total su_inputCacheRead), tu_cost = None\<rparr>)))"

text \<open>A step the turn leaves running is closed with it.\<close>

definition close_step :: "string \<Rightarrow> projector \<Rightarrow> projected" where
  "close_step now p =
     (case pj_currentStep p of
        Some s \<Rightarrow>
          if step_state s = StepRunning
          then let s2 = s\<lparr>step_state := StepInterrupted, step_endedAt := Some now\<rparr>
               in (p\<lparr>pj_currentStep := Some s2\<rparr>, [StepUpsert (step_turnId s2) s2])
          else (p, [])
      | None \<Rightarrow> (p, []))"

definition onTurnEnded :: "string \<Rightarrow> turn_ended_event \<Rightarrow> projector \<Rightarrow> projected" where
  "onTurnEnded now e p0 =
     (let (p1, flushed) = flushOpenFrames p0;
          tid = turnId (te_turnId e);
          (p2, closed) = close_step now p1;
          prev = (case pj_currentTurn p2 of Some t \<Rightarrow> if turn_turnId t = tid then Some t else None | None \<Rightarrow> None);
          (p3, usage) = takeTurnUsage tid p2;
          turn = \<lparr>turn_turnId = tid, turn_ordinal = of_int (te_turnId e), turn_state = mapTurnEndState (te_reason e),
                  turn_origin = (case prev of Some t \<Rightarrow> turn_origin t | None \<Rightarrow> OriginOther JUndef),
                  turn_prompt = Option.bind prev turn_prompt, turn_attachmentIds = None,
                  turn_startedAt = Option.bind prev turn_startedAt, turn_endedAt = Some now, turn_usage = usage,
                  turn_durationMs = te_durationMs e, turn_error = te_error e\<rparr>
      in (p3\<lparr>pj_currentTurn := Some turn, pj_currentStep := None\<rparr>, flushed @ closed @ [TurnUpsert turn]))"

definition onStepStarted :: "string \<Rightarrow> int \<Rightarrow> int \<Rightarrow> projector \<Rightarrow> projected" where
  "onStepStarted now n step p =
     (let tid = turnId n; s = step_base tid step StepRunning (Some now)
      in (p\<lparr>pj_stepOrdinals := jm_set tid step (pj_stepOrdinals p), pj_currentStep := Some s, pj_frameOrdinal := 0,
             pj_openText := None, pj_openThinking := None\<rparr>, [StepUpsert tid s]))"

definition record_usage :: "turn_id \<Rightarrow> step_usage obj option \<Rightarrow> projector \<Rightarrow> projector" where
  "record_usage tid usage p =
     (case usage of
        None \<Rightarrow> p
      | Some u \<Rightarrow>
          let us = (case jm_get (pj_stepUsageByTurn p) tid of Some us \<Rightarrow> us | None \<Rightarrow> [])
          in p\<lparr>pj_stepUsageByTurn := jm_set tid (us @ [u]) (pj_stepUsageByTurn p)\<rparr>)"

definition onStepCompleted :: "string \<Rightarrow> step_completed_event \<Rightarrow> projector \<Rightarrow> projected" where
  "onStepCompleted now e p0 =
     (let (p1, flushed) = flushOpenFrames p0;
          tid = turnId (sc_turnId e); sid = stepId tid (sc_step e);
          prev = prev_step sid p1;
          p2 = record_usage tid (sc_usage e) p1;
          timing = \<lparr>st_llmFirstTokenLatencyMs = sc_llmFirstTokenLatencyMs e,
                    st_llmStreamDurationMs = sc_llmStreamDurationMs e, st_llmRequestBuildMs = sc_llmRequestBuildMs e,
                    st_llmServerFirstTokenMs = sc_llmServerFirstTokenMs e, st_llmServerDecodeMs = sc_llmServerDecodeMs e,
                    st_llmClientConsumeMs = sc_llmClientConsumeMs e\<rparr>;
          s = (step_base tid (sc_step e) StepCompleted (Option.bind prev step_startedAt))
                \<lparr>step_endedAt := Some now, step_usage := sc_usage e,
                 step_finishReason := coalesce (sc_finishReason e)
                   (coalesce (sc_rawFinishReason e) (sc_providerFinishReason e)),
                 step_timing := Some (Obj (pj_ref p2) timing)\<rparr>
      in (p2\<lparr>pj_ref := pj_ref p2 + 1, pj_currentStep := Some s\<rparr>, flushed @ [StepUpsert tid s]))"

definition onStepFinished :: "string \<Rightarrow> int \<Rightarrow> int \<Rightarrow> string \<Rightarrow> string option \<Rightarrow> projector \<Rightarrow> projected" where
  "onStepFinished now n step reason message p0 =
     (let (p1, flushed) = flushOpenFrames p0;
          tid = turnId n; sid = stepId tid step;
          s = (step_base tid step StepInterrupted (Option.bind (prev_step sid p1) step_startedAt))
                \<lparr>step_endedAt := Some now, step_endReason := Some reason, step_endMessage := message\<rparr>
      in (p1\<lparr>pj_currentStep := Some s\<rparr>, flushed @ [StepUpsert tid s]))"

definition onStepRetrying :: "step_retrying_event \<Rightarrow> projector \<Rightarrow> projected" where
  "onStepRetrying e p =
     (let tid = turnId (rt_turnId e); sid = stepId tid (rt_step e);
          retry = \<lparr>sr_failedAttempt = rt_failedAttempt e, sr_nextAttempt = rt_nextAttempt e,
                   sr_maxAttempts = rt_maxAttempts e, sr_delayMs = rt_delayMs e, sr_errorName = rt_errorName e,
                   sr_errorMessage = rt_errorMessage e, sr_statusCode = rt_statusCode e\<rparr>;
          s = (step_base tid (rt_step e) StepRunning (Option.bind (prev_step sid p) step_startedAt))
                \<lparr>step_retry := Some (Obj (pj_ref p) retry)\<rparr>
      in (p\<lparr>pj_ref := pj_ref p + 1, pj_currentStep := Some s\<rparr>, [StepUpsert tid s]))"

section \<open>Streams\<close>

definition ensureStep :: "projector_lookups \<Rightarrow> string \<Rightarrow> turn_id \<Rightarrow> projector \<Rightarrow> projector \<times> step_header \<times> transcript_op list" where
  "ensureStep lk now tid p =
     (let fresh =
        (let ordinal = (case coalesce (lk_stepOrdinal lk tid) (jm_get (pj_stepOrdinals p) tid) of
                          Some n \<Rightarrow> n | None \<Rightarrow> 1);
             s = step_base tid ordinal StepRunning (Some now)
         in (p\<lparr>pj_currentStep := Some s\<rparr>, s, [StepUpsert tid s]))
      in case pj_currentStep p of
           Some s \<Rightarrow> if step_turnId s = tid then (p, s, []) else fresh
         | None \<Rightarrow> fresh)"

datatype stream_kind = StreamText | StreamThought

text \<open>
  \<open>/\.f(\d+)$/.exec(id)\<close>: the number at the end of the id. A digit of the number is no \<open>.f\<close>, so the only
  place the pattern can match is before the last run of digits.
\<close>

definition stream_ordinal :: "frame_id \<Rightarrow> nat option" where
  "stream_ordinal i =
     (let r = rev i; ds = takeWhile is_digit r; rest = dropWhile is_digit r
      in if ds \<noteq> [] \<and> take 2 rest = ''f.'' then Some (digits_val 0 (rev ds)) else None)"

fun scan_ordinals :: "transcript_frame list \<Rightarrow> nat \<Rightarrow> nat" where
  "scan_ordinals [] n = n"
| "scan_ordinals (f # fs) n = scan_ordinals fs (case stream_ordinal (frame_id f) of Some k \<Rightarrow> max n k | None \<Rightarrow> n)"

definition stream_text :: "stream_kind \<Rightarrow> transcript_frame \<Rightarrow> string option" where
  "stream_text kind f =
     (case (kind, f) of
        (StreamText, FText t) \<Rightarrow> if tf_role t = RoleAssistant then Some (tf_text t) else None
      | (StreamThought, FThinking t) \<Rightarrow> Some (th_text t)
      | _ \<Rightarrow> None)"

text \<open>The newest frame of the stream: the list is walked from its end.\<close>

fun newest_stream :: "stream_kind \<Rightarrow> transcript_frame list \<Rightarrow> open_text option" where
  "newest_stream kind [] = None"
| "newest_stream kind (f # older) =
     (case stream_text kind f of
        Some x \<Rightarrow> Some \<lparr>of_frameId = frame_id f, of_offset = length x, of_text = x\<rparr>
      | None \<Rightarrow> newest_stream kind older)"

definition adoptStreamFrame ::
  "projector_lookups \<Rightarrow> turn_id \<Rightarrow> step_id \<Rightarrow> stream_kind \<Rightarrow> projector \<Rightarrow> projector \<times> open_text option" where
  "adoptStreamFrame lk tid sid kind p =
     (case lk_stepFrames lk tid sid of
        None \<Rightarrow> (p, None)
      | Some fs \<Rightarrow>
          if fs = [] then (p, None)
          else (p\<lparr>pj_frameOrdinal := scan_ordinals fs (pj_frameOrdinal p)\<rparr>, newest_stream kind (rev fs)))"

definition get_open :: "stream_kind \<Rightarrow> projector \<Rightarrow> open_text option" where
  "get_open kind p = (case kind of StreamText \<Rightarrow> pj_openText p | StreamThought \<Rightarrow> pj_openThinking p)"

definition set_open :: "stream_kind \<Rightarrow> open_text \<Rightarrow> projector \<Rightarrow> projector" where
  "set_open kind o1 p =
     (case kind of StreamText \<Rightarrow> p\<lparr>pj_openText := Some o1\<rparr> | StreamThought \<Rightarrow> p\<lparr>pj_openThinking := Some o1\<rparr>)"

definition stream_frame :: "stream_kind \<Rightarrow> frame_id \<Rightarrow> string \<Rightarrow> transcript_frame" where
  "stream_frame kind i x = (case kind of StreamText \<Rightarrow> text_frame_of i x | StreamThought \<Rightarrow> thinking_frame_of i x)"

text \<open>The stream a delta continues: the open one, the one in the store, or a new empty frame.\<close>

definition open_stream ::
  "projector_lookups \<Rightarrow> turn_id \<Rightarrow> step_id \<Rightarrow> stream_kind \<Rightarrow> projector \<Rightarrow> projector \<times> open_text \<times> transcript_op list" where
  "open_stream lk tid sid kind p =
     (case get_open kind p of
        Some o1 \<Rightarrow> (p, o1, [])
      | None \<Rightarrow>
          (case adoptStreamFrame lk tid sid kind p of
             (p2, Some o1) \<Rightarrow> (p2, o1, [])
           | (p2, None) \<Rightarrow>
               let n = pj_frameOrdinal p2 + 1; fid = frameId sid (int n)
               in (p2\<lparr>pj_frameOrdinal := n\<rparr>, \<lparr>of_frameId = fid, of_offset = 0, of_text = []\<rparr>,
                   [FrameUpsert tid sid (stream_frame kind fid [])])))"

definition onTextDelta :: "projector_lookups \<Rightarrow> string \<Rightarrow> int \<Rightarrow> stream_kind \<Rightarrow> string \<Rightarrow> projector \<Rightarrow> projected" where
  "onTextDelta lk now n kind delta p0 =
     (let tid = turnId n;
          (p1, step, begun) = ensureStep lk now tid p0;
          (p2, o1, opened) = open_stream lk tid (step_stepId step) kind p1;
          append = Append \<lparr>append_target = TargetFrame tid (step_stepId step) (of_frameId o1),
                           append_offset = int (of_offset o1), append_text = delta\<rparr>
      in (set_open kind (o1\<lparr>of_offset := of_offset o1 + length delta, of_text := of_text o1 @ delta\<rparr>) p2,
          begun @ opened @ [append]))"

section \<open>Tools\<close>

definition onToolCallDelta ::
  "projector_lookups \<Rightarrow> string \<Rightarrow> int \<Rightarrow> string \<Rightarrow> string option \<Rightarrow> string option \<Rightarrow> projector \<Rightarrow> projected" where
  "onToolCallDelta lk now n toolCallId name part p0 =
     (let chunk = (case part of Some x \<Rightarrow> x | None \<Rightarrow> [])
      in case jm_get (pj_toolFrames p0) toolCallId of
        Some prev \<Rightarrow>
          let f = (tr_frame prev)\<lparr>tc_inputText :=
                     Some ((case tc_inputText (tr_frame prev) of Some x \<Rightarrow> x | None \<Rightarrow> []) @ chunk)\<rparr>
          in (p0\<lparr>pj_toolFrames := jm_set toolCallId (prev\<lparr>tr_frame := f\<rparr>) (pj_toolFrames p0)\<rparr>,
              [FrameUpsert (tr_turnId prev) (tr_stepId prev) (FTool f)])
      | None \<Rightarrow>
          let tid = turnId n;
              (p1, step, begun) = ensureStep lk now tid p0;
              f = \<lparr>tc_frameId = step_stepId step @ ''.'' @ toolCallId, tc_toolCallId = toolCallId,
                   tc_name = (case name of Some x \<Rightarrow> x | None \<Rightarrow> []), tc_view = None, tc_state = ToolRunning,
                   tc_input = JUndef, tc_output = JUndef, tc_display = JUndef, tc_error = None,
                   tc_inputText = Some chunk, tc_progress = None, tc_taskId = None, tc_approvalId = None,
                   tc_todoId = None, tc_agentRefs = None\<rparr>
          in (p1\<lparr>pj_toolFrames := jm_set toolCallId
                 \<lparr>tr_turnId = tid, tr_stepId = step_stepId step, tr_frame = f\<rparr> (pj_toolFrames p1)\<rparr>,
              begun @ [FrameUpsert tid (step_stepId step) (FTool f)]))"

definition adoptToolFrame :: "projector_lookups \<Rightarrow> string \<Rightarrow> projector \<Rightarrow> projector \<times> tool_record option" where
  "adoptToolFrame lk toolCallId p =
     (case lk_toolFrame lk toolCallId of
        None \<Rightarrow> (p, None)
      | Some hit \<Rightarrow> (p\<lparr>pj_toolFrames := jm_set toolCallId hit (pj_toolFrames p)\<rparr>, Some hit))"

text \<open>\<open>this.toolFrames.get(id) ?? this.adoptToolFrame(id)\<close>\<close>

definition tool_hit :: "projector_lookups \<Rightarrow> string \<Rightarrow> projector \<Rightarrow> projector \<times> tool_record option" where
  "tool_hit lk toolCallId p =
     (case jm_get (pj_toolFrames p) toolCallId of
        Some hit \<Rightarrow> (p, Some hit) | None \<Rightarrow> adoptToolFrame lk toolCallId p)"

text \<open>\<open>this.toolFrames.set(id, { ...hit, frame })\<close> and the upsert of the frame.\<close>

definition put_tool :: "string \<Rightarrow> tool_record \<Rightarrow> tool_call_frame \<Rightarrow> projector \<Rightarrow> projected" where
  "put_tool toolCallId hit f p =
     (p\<lparr>pj_toolFrames := jm_set toolCallId (hit\<lparr>tr_frame := f\<rparr>) (pj_toolFrames p)\<rparr>,
      [FrameUpsert (tr_turnId hit) (tr_stepId hit) (FTool f)])"

definition onToolProgress :: "projector_lookups \<Rightarrow> string \<Rightarrow> tool_frame_progress \<Rightarrow> projector \<Rightarrow> projected" where
  "onToolProgress lk toolCallId update p0 =
     (case tool_hit lk toolCallId p0 of
        (p1, None) \<Rightarrow> (p1, [])
      | (p1, Some hit) \<Rightarrow>
          put_tool toolCallId hit ((tr_frame hit)\<lparr>tc_progress := Some (Obj (pj_ref p1) update)\<rparr>)
            (p1\<lparr>pj_ref := pj_ref p1 + 1\<rparr>))"

definition onToolCallStarted ::
  "json_reader \<Rightarrow> projector_lookups \<Rightarrow> string \<Rightarrow> tool_call_started_event \<Rightarrow> projector \<Rightarrow> projected" where
  "onToolCallStarted json_parse lk now e p0 =
     (let tid = turnId (cs_turnId e);
          (p1, step, begun) = ensureStep lk now tid p0;
          (input, ref) = parseToolArgs json_parse (pj_ref p1) (cs_args e);
          f = \<lparr>tc_frameId = step_stepId step @ ''.'' @ cs_toolCallId e, tc_toolCallId = cs_toolCallId e,
               tc_name = cs_name e, tc_view = None, tc_state = ToolRunning, tc_input = input, tc_output = JUndef,
               tc_display = cs_display e, tc_error = None,
               tc_inputText = Option.bind (jm_get (pj_toolFrames p1) (cs_toolCallId e)) (tc_inputText \<circ> tr_frame),
               tc_progress = None, tc_taskId = None, tc_approvalId = None,
               tc_todoId = (if cs_name e = TODO_LIST_TOOL_NAME \<and> todoWriteItems input \<noteq> None
                            then Some TODO_ENTITY_ID else None),
               tc_agentRefs = None\<rparr>
      in (p1\<lparr>pj_ref := ref, pj_toolFrames := jm_set (cs_toolCallId e)
             \<lparr>tr_turnId = tid, tr_stepId = step_stepId step, tr_frame = f\<rparr> (pj_toolFrames p1)\<rparr>,
          begun @ [FrameUpsert tid (step_stepId step) (FTool f)]))"

definition todo_ops :: "string \<Rightarrow> bool \<Rightarrow> tool_call_frame \<Rightarrow> projector \<Rightarrow> projected" where
  "todo_ops now isError f p =
     (if \<not> isError \<and> tc_name f = TODO_LIST_TOOL_NAME
      then (case todoWriteItems (tc_input f) of
              None \<Rightarrow> (p, [])
            | Some items \<Rightarrow>
                (p\<lparr>pj_ref := pj_ref p + 1\<rparr>,
                 [TodoUpsert \<lparr>todo_todoId = TODO_ENTITY_ID, todo_items = Obj (pj_ref p) items, todo_updatedAt = Some now\<rparr>]))
      else (p, []))"

definition onToolResult :: "projector_lookups \<Rightarrow> string \<Rightarrow> string \<Rightarrow> json \<Rightarrow> bool option \<Rightarrow> projector \<Rightarrow> projected" where
  "onToolResult lk now toolCallId output isErrorField p0 =
     (case tool_hit lk toolCallId p0 of
        (p1, None) \<Rightarrow> (p1, [])
      | (p1, Some hit) \<Rightarrow>
          let isError = (isErrorField = Some True);
              f = (tr_frame hit)\<lparr>tc_state := (if isError then ToolError else ToolDone), tc_output := output,
                                  tc_error := (if isError then js_string_of output else None)\<rparr>;
              (p2, ops) = put_tool toolCallId hit f p1;
              (p3, todo) = todo_ops now isError f p2
          in (p3, ops @ todo))"

section \<open>Tasks\<close>

definition onTaskNotified :: "task_notified_event \<Rightarrow> projector \<Rightarrow> projected" where
  "onTaskNotified e p =
     (case (pj_currentStep p, pj_currentTurn p) of
        (Some step, Some turn) \<Rightarrow>
          if step_state step = StepRunning \<and> turn_state turn = TurnRunning
          then let n = pj_frameOrdinal p + 1;
                   f = FText \<lparr>tf_frameId = frameId (step_stepId step) (int n), tf_role = RoleUser,
                              tf_text = js_trim (tn_title e @ [CHR 0x0A] @ tn_body e), tf_attachmentIds = None,
                              tf_taskId = Some (tn_sourceId e)\<rparr>
               in (p\<lparr>pj_frameOrdinal := n\<rparr>, [FrameUpsert (turn_turnId turn) (step_stepId step) f])
          else (p, [])
      | _ \<Rightarrow> (p, []))"

definition project_upsertTask ::
  "task_id \<Rightarrow> (transcript_task option \<Rightarrow> transcript_task) \<Rightarrow> projector \<Rightarrow> projector \<times> transcript_task" where
  "project_upsertTask tid build p =
     (let task = build (jm_get (pj_tasks p) tid)
      in (p\<lparr>pj_tasks := jm_set tid task (pj_tasks p)\<rparr>, task))"

text \<open>The timeline reference of a task, a new object.\<close>

definition taskref_op :: "string \<Rightarrow> task_id \<Rightarrow> projector \<Rightarrow> projected" where
  "taskref_op now i p =
     (p\<lparr>pj_ref := pj_ref p + 1\<rparr>,
      [TaskRefUpsert (Obj (pj_ref p) \<lparr>taskref_refId = ''ref-'' @ i, taskref_taskId = i, taskref_at = Some now\<rparr>) None])"

definition prev_tail :: "transcript_task option \<Rightarrow> string" where
  "prev_tail prev = (case prev of Some t \<Rightarrow> task_outputTail t | None \<Rightarrow> [])"

definition lifecycle_task ::
  "task_event_info \<Rightarrow> string option \<Rightarrow> string option \<Rightarrow> transcript_task option \<Rightarrow> transcript_task" where
  "lifecycle_task info startedAt endedAt prev =
     \<lparr>task_taskId = ei_taskId info, task_kind = mapTaskKind (ei_kind info), task_state = ei_status info,
      task_detached = (case coalesce (ei_detached info) (map_option task_detached prev) of Some b \<Rightarrow> b | None \<Rightarrow> True),
      task_description = Some (ei_description info),
      task_agentId = coalesce (ei_agentId info) (Option.bind prev task_agentId),
      task_outputTail = prev_tail prev,
      task_startedAt = startedAt, task_endedAt = endedAt,
      task_resultSummary = None, task_error = None, task_stateReason = None, task_usage = None\<rparr>"

text \<open>Printing a time outside the range of dates throws, and then the event changes nothing.\<close>

definition onTaskLifecycle :: "string \<Rightarrow> bool \<Rightarrow> task_event_info \<Rightarrow> projector \<Rightarrow> js_error + projected" where
  "onTaskLifecycle now begins info p0 =
     (let prev = jm_get (pj_tasks p0) (ei_taskId info);
          startedAt = (case Option.bind prev task_startedAt of
                         Some x \<Rightarrow> Inr x | None \<Rightarrow> toISOString (ei_startedAt info));
          endedAt = (case ei_endedAt info of
                       None \<Rightarrow> Inr (Option.bind prev task_endedAt)
                     | Some n \<Rightarrow> map_sum id Some (toISOString n))
      in case startedAt of
           Inl e \<Rightarrow> Inl e
         | Inr a \<Rightarrow>
             (case endedAt of
                Inl e \<Rightarrow> Inl e
              | Inr b \<Rightarrow>
                  let (p1, task) = project_upsertTask (ei_taskId info) (lifecycle_task info (Some a) b) p0;
                      (p2, ref) = (if begins then taskref_op now (ei_taskId info) p1 else (p1, []))
                  in Inr (p2, TaskUpsert task # ref)))"

definition running_shell_task :: "string \<Rightarrow> task_id \<Rightarrow> transcript_task option \<Rightarrow> transcript_task" where
  "running_shell_task now i prev =
     \<lparr>task_taskId = i, task_kind = TaskShell, task_state = TaskRunning,
      task_detached = (case prev of Some t \<Rightarrow> task_detached t | None \<Rightarrow> False),
      task_description = Option.bind prev task_description, task_agentId = Option.bind prev task_agentId,
      task_outputTail = prev_tail prev, task_startedAt = coalesce (Option.bind prev task_startedAt) (Some now),
      task_endedAt = Option.bind prev task_endedAt, task_resultSummary = None, task_error = None,
      task_stateReason = None, task_usage = None\<rparr>"

definition onShellStarted :: "string \<Rightarrow> string \<Rightarrow> task_id \<Rightarrow> projector \<Rightarrow> projected" where
  "onShellStarted now commandId i p0 =
     (let p1 = p0\<lparr>pj_shellTasks := jm_set commandId i (pj_shellTasks p0)\<rparr>;
          (p2, task) = project_upsertTask i (running_shell_task now i) p1;
          (p3, ref) = taskref_op now i p2
      in (p3, TaskUpsert task # ref))"

definition shellTaskId :: "string \<Rightarrow> task_id option \<Rightarrow> projector \<Rightarrow> projector \<times> task_id" where
  "shellTaskId commandId carried p =
     (let i = (case coalesce (jm_get (pj_shellTasks p) commandId) carried of
                 Some i \<Rightarrow> i | None \<Rightarrow> ''shell-'' @ commandId)
      in (p\<lparr>pj_shellTasks := jm_set commandId i (pj_shellTasks p)\<rparr>, i))"

definition onShellOutput :: "string \<Rightarrow> string \<Rightarrow> task_id option \<Rightarrow> string option \<Rightarrow> projector \<Rightarrow> projected" where
  "onShellOutput now commandId carried chunk p0 =
     (let (p1, i) = shellTaskId commandId carried p0
      in case chunk of
           None \<Rightarrow> (p1, [])
         | Some x \<Rightarrow>
             if x = [] then (p1, [])
             else
               let (p2, task, seeded) =
                     (case jm_get (pj_tasks p1) i of
                        Some t \<Rightarrow> (p1, t, [])
                      | None \<Rightarrow>
                          let (q, t) = project_upsertTask i (running_shell_task now i) p1; (q2, ref) = taskref_op now i q
                          in (q2, t, TaskUpsert t # ref))
               in (p2\<lparr>pj_tasks := jm_set i (task\<lparr>task_outputTail := task_outputTail task @ x\<rparr>) (pj_tasks p2)\<rparr>,
                   seeded @ [Append \<lparr>append_target = TargetTask i,
                                     append_offset = int (length (task_outputTail task)), append_text = x\<rparr>]))"

definition completed_shell_task :: "string \<Rightarrow> task_id \<Rightarrow> bool \<Rightarrow> transcript_task option \<Rightarrow> transcript_task" where
  "completed_shell_task now i isError prev =
     \<lparr>task_taskId = i, task_kind = (case prev of Some t \<Rightarrow> task_kind t | None \<Rightarrow> TaskShell),
      task_state = (if isError then TaskFailed else TaskCompleted),
      task_detached = (case prev of Some t \<Rightarrow> task_detached t | None \<Rightarrow> False),
      task_description = Option.bind prev task_description, task_agentId = Option.bind prev task_agentId,
      task_outputTail = prev_tail prev, task_startedAt = coalesce (Option.bind prev task_startedAt) (Some now),
      task_endedAt = Some now, task_resultSummary = None, task_error = None, task_stateReason = None,
      task_usage = None\<rparr>"

definition onShellCompleted :: "string \<Rightarrow> string \<Rightarrow> task_id option \<Rightarrow> bool \<Rightarrow> projector \<Rightarrow> projected" where
  "onShellCompleted now commandId carried isError p0 =
     (let (p1, i) = shellTaskId commandId carried p0;
          hadTask = (jm_get (pj_tasks p1) i \<noteq> None);
          (p2, task) = project_upsertTask i (completed_shell_task now i isError) p1;
          (p3, ref) = (if hadTask then (p2, []) else taskref_op now i p2)
      in (p3, TaskUpsert task # ref))"

section \<open>Subagents\<close>

definition spawned_task :: "string \<Rightarrow> subagent_spawned_event \<Rightarrow> transcript_task option \<Rightarrow> transcript_task" where
  "spawned_task now e prev =
     \<lparr>task_taskId = sn_subagentId e, task_kind = TaskSubagent, task_state = TaskRunning,
      task_detached = sn_runInBackground e,
      task_description = coalesce (sn_description e) (Option.bind prev task_description),
      task_agentId = Some (sn_subagentId e), task_outputTail = prev_tail prev,
      task_startedAt = coalesce (Option.bind prev task_startedAt) (Some now),
      task_endedAt = Option.bind prev task_endedAt, task_resultSummary = None, task_error = None,
      task_stateReason = None, task_usage = None\<rparr>"

definition onSubagentSpawned :: "projector_lookups \<Rightarrow> string \<Rightarrow> subagent_spawned_event \<Rightarrow> projector \<Rightarrow> projected" where
  "onSubagentSpawned lk now e p0 =
     (let (p1, task) = project_upsertTask (sn_subagentId e) (spawned_task now e) p0
      in case tool_hit lk (sn_parentToolCallId e) p1 of
           (p2, None) \<Rightarrow> (p2, [TaskUpsert task])
         | (p2, Some hit) \<Rightarrow>
             let ref = \<lparr>ar_agentId = sn_subagentId e,
                        ar_role = Some (if sn_swarmIndex e \<noteq> None then RefMember else RefChild)\<rparr>;
                 old = (case tc_agentRefs (tr_frame hit) of Some o1 \<Rightarrow> obj_val o1 | None \<Rightarrow> []);
                 f = (tr_frame hit)\<lparr>tc_agentRefs := Some (Obj (pj_ref p2) (old @ [ref]))\<rparr>;
                 (p3, ops) = put_tool (sn_parentToolCallId e) hit f (p2\<lparr>pj_ref := pj_ref p2 + 1\<rparr>)
             in (p3, TaskUpsert task # ops))"

definition run_task :: "string \<Rightarrow> subagent_run_event \<Rightarrow> transcript_task option \<Rightarrow> transcript_task" where
  "run_task now e prev =
     \<lparr>task_taskId = sb_subagentId e, task_kind = TaskSubagent,
      task_state = (case sb_type e of RunCompleted \<Rightarrow> TaskCompleted | RunFailed \<Rightarrow> TaskFailed | _ \<Rightarrow> TaskRunning),
      task_detached = (case prev of Some t \<Rightarrow> task_detached t | None \<Rightarrow> True),
      task_description = Option.bind prev task_description, task_agentId = Some (sb_subagentId e),
      task_outputTail = prev_tail prev, task_startedAt = coalesce (Option.bind prev task_startedAt) (Some now),
      task_endedAt = (case sb_type e of
                        RunCompleted \<Rightarrow> Some now | RunFailed \<Rightarrow> Some now | _ \<Rightarrow> Option.bind prev task_endedAt),
      task_resultSummary = coalesce (sb_resultSummary e) (Option.bind prev task_resultSummary),
      task_error = coalesce (sb_error e) (Option.bind prev task_error),
      task_stateReason = coalesce (sb_reason e) (Option.bind prev task_stateReason),
      task_usage = coalesce (sb_usage e) (Option.bind prev task_usage)\<rparr>"

definition onSubagentRun :: "string \<Rightarrow> subagent_run_event \<Rightarrow> projector \<Rightarrow> projected" where
  "onSubagentRun now e p0 =
     (let (p1, task) = project_upsertTask (sb_subagentId e) (run_task now e) p0 in (p1, [TaskUpsert task]))"

section \<open>Status and phase\<close>

text \<open>A mode field that is set or cleared: \<open>{}\<close>, \<open>null\<close>, or not there.\<close>

definition mode_change :: "bool option \<Rightarrow> 'a \<Rightarrow> 'a nullable" where
  "mode_change field entered = (case field of Some True \<Rightarrow> NVal entered | Some False \<Rightarrow> NNull | None \<Rightarrow> NKeep)"

definition status_slice :: "agent_status_event \<Rightarrow> agent_status_merge" where
  "status_slice e =
     \<lparr>am_model = as_key (ev_model e), am_thinkingEffort = as_key (ev_thinkingEffort e), am_usage = as_key (ev_usage e),
      am_contextTokens = as_key (ev_contextTokens e), am_maxContextTokens = as_key (ev_maxContextTokens e),
      am_contextUsage = as_key (ev_contextUsage e), am_permission = as_key (ev_permission e), am_phase = Absent\<rparr>"

definition has_slice :: "agent_status_event \<Rightarrow> bool" where
  "has_slice e \<longleftrightarrow>
     ev_model e \<noteq> None \<or> ev_thinkingEffort e \<noteq> None \<or> ev_usage e \<noteq> None \<or> ev_contextTokens e \<noteq> None \<or>
     ev_maxContextTokens e \<noteq> None \<or> ev_contextUsage e \<noteq> None \<or> ev_permission e \<noteq> None"

definition onAgentStatusUpdated :: "agent_status_event \<Rightarrow> projector \<Rightarrow> projected" where
  "onAgentStatusUpdated e p =
     (let plan = mode_change (ev_planMode e) \<lparr>plan_reviewPath = None, plan_version = None\<rparr>;
          swarm = mode_change (ev_swarmMode e) \<lparr>swarm_trigger = None\<rparr>;
          modes = (if plan \<noteq> NKeep \<or> swarm \<noteq> NKeep
                   then [MetaMerge \<lparr>merge_modes = Some \<lparr>mm_plan = plan, mm_swarm = swarm\<rparr>, merge_activity = None,
                                    merge_agent = None\<rparr>]
                   else []);
          agent = (if has_slice e
                   then [MetaMerge \<lparr>merge_modes = None, merge_activity = None, merge_agent = Some (status_slice e)\<rparr>]
                   else [])
      in (p\<lparr>pj_planModeActive := (case ev_planMode e of Some b \<Rightarrow> b | None \<Rightarrow> pj_planModeActive p)\<rparr>, modes @ agent))"

definition phase_slice :: "agent_phase \<Rightarrow> agent_status_merge" where
  "phase_slice ph =
     \<lparr>am_model = Absent, am_thinkingEffort = Absent, am_usage = Absent, am_contextTokens = Absent,
      am_maxContextTokens = Absent, am_contextUsage = Absent, am_permission = Absent, am_phase = Present (Some ph)\<rparr>"

definition onAgentActivityUpdated :: "agent_activity \<Rightarrow> projector \<Rightarrow> projected" where
  "onAgentActivityUpdated a p =
     (case toLegacyPhase (pj_ref p) a of
        None \<Rightarrow> (p, [])
      | Some ph \<Rightarrow>
          (p\<lparr>pj_ref := pj_ref p + 1\<rparr>,
           [MetaMerge \<lparr>merge_modes = None, merge_activity = None, merge_agent = Some (phase_slice ph)\<rparr>]))"

section \<open>Markers\<close>

definition markerOp :: "string \<Rightarrow> string \<Rightarrow> json \<Rightarrow> projector \<Rightarrow> projector \<times> transcript_op" where
  "markerOp now marker payload p =
     (let n = pj_markerSeq p + 1
      in (p\<lparr>pj_markerSeq := n, pj_ref := pj_ref p + 1\<rparr>,
          MarkerUpsert (Obj (pj_ref p) \<lparr>marker_markerId = ''live-m'' @ nat_str n, marker_marker = marker,
                                       marker_payload = payload, marker_at = Some now\<rparr>) None))"

text \<open>The fields of an event as a new object (\<open>restOf\<close>, and a literal that spreads it).\<close>

definition alloc :: "(string \<times> json) list \<Rightarrow> projector \<Rightarrow> projector \<times> json" where
  "alloc kvs p = (p\<lparr>pj_ref := pj_ref p + 1\<rparr>, JObj (pj_ref p) kvs)"

definition event_marker :: "string \<Rightarrow> string \<Rightarrow> (string \<times> json) list \<Rightarrow> projector \<Rightarrow> projected" where
  "event_marker now marker kvs p0 =
     (let (p1, payload) = alloc kvs p0; (p2, op) = markerOp now marker payload p1 in (p2, [op]))"

fun phase_str :: "compaction_phase \<Rightarrow> string" where
  "phase_str CompStarted = ''started''"
| "phase_str CompBlocked = ''blocked''"
| "phase_str CompCancelled = ''cancelled''"
| "phase_str CompCompleted = ''completed''"

definition noticeOp :: "string \<Rightarrow> string \<Rightarrow> (string \<times> json) list \<Rightarrow> projector \<Rightarrow> projected" where
  "noticeOp now level kvs p0 =
     (let (p1, whole) = alloc kvs p0
      in event_marker now ''notice''
           [(''level'', JStr level), (''message'', js_opt_prop whole ''message''), (''event'', whole)] p1)"

definition onPlanRevision :: "string \<Rightarrow> (string \<times> json) list \<Rightarrow> projector \<Rightarrow> projected" where
  "onPlanRevision now kvs p0 =
     (let (p1, ops) = event_marker now ''plan.revision'' kvs p0;
          event = JObj 0 kvs
      in (p1, ops @ (if pj_planModeActive p1
                     then [MetaMerge \<lparr>merge_modes = Some
                             \<lparr>mm_plan = NVal \<lparr>plan_reviewPath = js_string_of (js_opt_prop event ''path''),
                                             plan_version = js_number_of (js_opt_prop event ''version'')\<rparr>,
                              mm_swarm = NKeep\<rparr>, merge_activity = None, merge_agent = None\<rparr>]
                     else [])))"

section \<open>Prompts\<close>

definition upsertPrompt ::
  "string \<Rightarrow> (transcript_prompt option \<Rightarrow> transcript_prompt) \<Rightarrow> projector \<Rightarrow> projector \<times> transcript_prompt" where
  "upsertPrompt i build p =
     (let prompt = build (jm_get (pj_prompts p) i)
      in (p\<lparr>pj_prompts := jm_set i prompt (pj_prompts p)\<rparr>, prompt))"

definition onPromptSubmitted :: "prompt_submitted_event \<Rightarrow> projector \<Rightarrow> projected" where
  "onPromptSubmitted e p0 =
     (let (p1, prompt) = upsertPrompt (ps_promptId e)
            (\<lambda>_. \<lparr>prompt_promptId = ps_promptId e, prompt_status = ps_status e,
                  prompt_userMessageId = Some (ps_userMessageId e), prompt_content = ps_content e,
                  prompt_createdAt = ps_createdAt e, prompt_finishedAt = None, prompt_steeredAt = None\<rparr>) p0
      in (p1, [PromptUpsert prompt]))"

definition prev_content :: "transcript_prompt option \<Rightarrow> json" where
  "prev_content prev = (case prev of Some q \<Rightarrow> prompt_content q | None \<Rightarrow> JUndef)"

text \<open>A prompt that is over: the fields that were known stay.\<close>

definition settled_prompt ::
  "string \<Rightarrow> prompt_status \<Rightarrow> string \<Rightarrow> (string option \<Rightarrow> string option) \<Rightarrow> transcript_prompt option \<Rightarrow> transcript_prompt" where
  "settled_prompt i status stamp steered prev =
     \<lparr>prompt_promptId = i, prompt_status = status, prompt_userMessageId = Option.bind prev prompt_userMessageId,
      prompt_content = prev_content prev,
      prompt_createdAt = (case prev of Some q \<Rightarrow> prompt_createdAt q | None \<Rightarrow> stamp),
      prompt_finishedAt = Some stamp, prompt_steeredAt = steered (Option.bind prev prompt_steeredAt)\<rparr>"

definition onPromptCompleted :: "string \<Rightarrow> prompt_status option \<Rightarrow> string \<Rightarrow> projector \<Rightarrow> projected" where
  "onPromptCompleted i reason finishedAt p0 =
     (let status = (case reason of Some r \<Rightarrow> r | None \<Rightarrow> PromptCompleted);
          (p1, prompt) = upsertPrompt i (settled_prompt i status finishedAt id) p0
      in (p1, [PromptUpsert prompt]))"

definition onPromptAborted :: "string \<Rightarrow> string \<Rightarrow> projector \<Rightarrow> projected" where
  "onPromptAborted i abortedAt p0 =
     (let (p1, prompt) = upsertPrompt i (settled_prompt i PromptAborted abortedAt id) p0
      in (p1, [PromptUpsert prompt]))"

definition active_prompt :: "prompt_steered_event \<Rightarrow> transcript_prompt option \<Rightarrow> transcript_prompt" where
  "active_prompt e prev =
     \<lparr>prompt_promptId = pt_activePromptId e,
      prompt_status = (case prev of Some q \<Rightarrow> prompt_status q | None \<Rightarrow> PromptRunning),
      prompt_userMessageId = Option.bind prev prompt_userMessageId, prompt_content = pt_content e,
      prompt_createdAt = (case prev of Some q \<Rightarrow> prompt_createdAt q | None \<Rightarrow> pt_steeredAt e),
      prompt_finishedAt = Option.bind prev prompt_finishedAt, prompt_steeredAt = Some (pt_steeredAt e)\<rparr>"

fun absorb_prompts :: "string \<Rightarrow> string list \<Rightarrow> projector \<Rightarrow> projected" where
  "absorb_prompts steeredAt [] p = (p, [])"
| "absorb_prompts steeredAt (i # is) p =
     (let (p1, prompt) = upsertPrompt i (settled_prompt i PromptCompleted steeredAt (\<lambda>_. Some steeredAt)) p;
          (p2, ops) = absorb_prompts steeredAt is p1
      in (p2, PromptUpsert prompt # ops))"

definition onPromptSteered :: "prompt_steered_event \<Rightarrow> projector \<Rightarrow> projected" where
  "onPromptSteered e p0 =
     (let (p1, active) = upsertPrompt (pt_activePromptId e) (active_prompt e) p0;
          (p2, ops) = absorb_prompts (pt_steeredAt e) (pt_promptIds e) p1
      in (p2, PromptUpsert active # ops))"

section \<open>Interactions\<close>

record projector_interaction =
  pi_id :: string
  pi_kind :: interaction_kind
  pi_payload :: json

text \<open>\<open>payload.toolCallId\<close> of a payload that is \<open>null\<close> or \<open>undefined\<close> throws.\<close>

definition mapInteractionRequested :: "projector_interaction \<Rightarrow> projector \<Rightarrow> js_error + projected" where
  "mapInteractionRequested i p =
     (case js_prop (pi_payload i) ''toolCallId'' of
        Inl e \<Rightarrow> Inl e
      | Inr v \<Rightarrow>
          let entity = \<lparr>int_interactionId = pi_id i, int_interactionKind = pi_kind i, int_toolCallId = js_string_of v,
                        int_state = IPending, int_request = pi_payload i, int_response = JUndef\<rparr>
          in Inr (p\<lparr>pj_interactions := jm_set (pi_id i) entity (pj_interactions p)\<rparr>, [InteractionUpsert entity]))"

definition mapInteractionResolved :: "projector_lookups \<Rightarrow> string \<Rightarrow> json \<Rightarrow> projector \<Rightarrow> projected" where
  "mapInteractionResolved lk i response p0 =
     (case jm_get (pj_interactions p0) i of
        None \<Rightarrow> (p0, [])
      | Some entity \<Rightarrow>
          let p1 = p0\<lparr>pj_interactions := jm_delete i (pj_interactions p0)\<rparr>;
              settled = InteractionUpsert (entity\<lparr>int_state := mapInteractionEndState (int_interactionKind entity) response,
                                                int_response := response\<rparr>)
          in case int_toolCallId entity of
               None \<Rightarrow> (p1, [settled])
             | Some toolCallId \<Rightarrow>
                 (case tool_hit lk toolCallId p1 of
                    (p2, None) \<Rightarrow> (p2, [settled])
                  | (p2, Some hit) \<Rightarrow>
                      let (p3, ops) = put_tool toolCallId hit ((tr_frame hit)\<lparr>tc_approvalId := Some i\<rparr>) p2
                      in (p3, settled # ops)))"

section \<open>The dispatcher\<close>

definition project_event ::
  "json_reader \<Rightarrow> projector_lookups \<Rightarrow> string \<Rightarrow> domain_event \<Rightarrow> projector \<Rightarrow> js_error + projected" where
  "project_event json_parse lk now e p =
     (case e of
        EvTaskStarted info \<Rightarrow> onTaskLifecycle now True info p
      | EvTaskTerminated info \<Rightarrow> onTaskLifecycle now False info p
      | _ \<Rightarrow> Inr (case e of
          EvPlanRevision kvs \<Rightarrow> onPlanRevision now kvs p
        | EvTurnStarted n og prompt \<Rightarrow> onTurnStarted now n og prompt p
        | EvTurnEnded te \<Rightarrow> onTurnEnded now te p
        | EvStepStarted n step \<Rightarrow> onStepStarted now n step p
        | EvStepCompleted sc \<Rightarrow> onStepCompleted now sc p
        | EvStepInterrupted n step reason message \<Rightarrow> onStepFinished now n step reason message p
        | EvStepRetrying r \<Rightarrow> onStepRetrying r p
        | EvAssistantDelta n delta \<Rightarrow> onTextDelta lk now n StreamText delta p
        | EvThinkingDelta n delta \<Rightarrow> onTextDelta lk now n StreamThought delta p
        | EvToolCallDelta n i name part \<Rightarrow> onToolCallDelta lk now n i name part p
        | EvToolProgress i update \<Rightarrow> onToolProgress lk i update p
        | EvToolCallStarted c \<Rightarrow> onToolCallStarted json_parse lk now c p
        | EvToolResult i output isError \<Rightarrow> onToolResult lk now i output isError p
        | EvTaskNotified tn \<Rightarrow> onTaskNotified tn p
        | EvShellStarted commandId i \<Rightarrow> onShellStarted now commandId i p
        | EvShellOutput commandId i chunk \<Rightarrow> onShellOutput now commandId i chunk p
        | EvShellCompleted commandId i isError \<Rightarrow> onShellCompleted now commandId i isError p
        | EvSubagentSpawned sn \<Rightarrow> onSubagentSpawned lk now sn p
        | EvSubagentRun sb \<Rightarrow> onSubagentRun now sb p
        | EvAgentStatus ev \<Rightarrow> onAgentStatusUpdated ev p
        | EvActivity a \<Rightarrow> onAgentActivityUpdated a p
        | EvPromptSubmitted ps \<Rightarrow> onPromptSubmitted ps p
        | EvPromptCompleted i reason finishedAt \<Rightarrow> onPromptCompleted i reason finishedAt p
        | EvPromptAborted i abortedAt \<Rightarrow> onPromptAborted i abortedAt p
        | EvPromptSteered pt \<Rightarrow> onPromptSteered pt p
        | EvHookResult kvs \<Rightarrow> event_marker now ''hook'' kvs p
        | EvSkillActivated kvs \<Rightarrow> event_marker now ''skill'' kvs p
        | EvPluginCommand kvs \<Rightarrow> event_marker now ''skill'' (spread kvs [(''variant'', JStr ''plugin_command'')]) p
        | EvCronFired kvs \<Rightarrow> event_marker now ''cron.fired'' kvs p
        | EvCompaction phase kvs \<Rightarrow> event_marker now ''compaction'' (spread [(''phase'', JStr (phase_str phase))] kvs) p
        | EvContextSpliced kvs \<Rightarrow> event_marker now ''undo'' kvs p
        | EvError kvs \<Rightarrow> noticeOp now ''error'' kvs p
        | EvWarning kvs \<Rightarrow> noticeOp now ''warning'' kvs p
        | _ \<Rightarrow> (p, [])))"

end
