(* ===== verification/TranscriptBinding.thy ===== *)
theory TranscriptBinding
  imports EventProjector GroupTurns
begin

text \<open>
  \<open>packages/kap-server/src/services/transcript/coreBinding.ts\<close>: the binding of a live session, which feeds the
  events of every agent through that agent's projector into the store and carries the approvals and questions of
  the session over to the agents they belong to, and the rest of \<open>transcriptService.ts\<close> that drives it. The
  projectors, the subscriptions and the interaction bookkeeping are one record beside the service of
  \<open>TranscriptSync\<close>; \<open>bind_env\<close> is what the engine and the clock answer while an operation runs.
\<close>

section \<open>State\<close>

record interaction =
  ia_id :: string
  ia_kind :: string
  ia_payload :: json
  ia_originAgentId :: "string option"

record binding =
  bd_subscribed :: "agent_id list"
  bd_projectors :: "(agent_id, projector) jsmap"
  bd_interactionAgents :: "(string, agent_id) jsmap"
  bd_knownInteractions :: "string list"
  bd_unseeded :: "(string, interaction) jsmap"
  bd_earlyResolves :: "(string, agent_id \<times> json) jsmap"
  bd_seededAgents :: "agent_id list"
  bd_seededAll :: bool

definition newBinding :: binding where
  "newBinding =
     \<lparr>bd_subscribed = [], bd_projectors = [], bd_interactionAgents = [], bd_knownInteractions = [], bd_unseeded = [],
      bd_earlyResolves = [], bd_seededAgents = [], bd_seededAll = False\<rparr>"

text \<open>\<open>en_ref\<close> is an identity no object of the store has; \<open>en_activity\<close> is the view of an agent, if it has one.\<close>

record bind_env =
  en_sessionId :: string
  en_now :: string
  en_json :: json_reader
  en_activity :: "agent_id \<Rightarrow> agent_activity option"
  en_ref :: nat

type_synonym bound = "binding \<times> transcript_service"

text \<open>An operation that throws leaves what it had done; nothing after the throw runs.\<close>

type_synonym bound_result = "bound \<times> service_call list \<times> js_error option"

definition and_then :: "bound_result \<Rightarrow> (bound \<Rightarrow> bound_result) \<Rightarrow> bound_result" where
  "and_then r f =
     (case r of
        (bs, calls, Some e) \<Rightarrow> (bs, calls, Some e)
      | (bs, calls, None) \<Rightarrow> (case f bs of (bs2, later, err) \<Rightarrow> (bs2, calls @ later, err)))"

definition isSeeded :: "agent_id \<Rightarrow> binding \<Rightarrow> bool" where
  "isSeeded i b \<longleftrightarrow> bd_seededAll b \<or> i \<in> set (bd_seededAgents b)"

section \<open>Projectors\<close>

text \<open>The first tool frame of the timeline with the call id.\<close>

fun tool_in_frames :: "string \<Rightarrow> transcript_frame list \<Rightarrow> tool_call_frame option" where
  "tool_in_frames i [] = None"
| "tool_in_frames i (FTool f # fs) = (if tc_toolCallId f = i then Some f else tool_in_frames i fs)"
| "tool_in_frames i (f # fs) = tool_in_frames i fs"

fun tool_in_steps :: "string \<Rightarrow> turn_id \<Rightarrow> transcript_step list \<Rightarrow> tool_record option" where
  "tool_in_steps i tid [] = None"
| "tool_in_steps i tid (st # sts) =
     (case tool_in_frames i (step_frames st) of
        Some f \<Rightarrow> Some \<lparr>tr_turnId = tid, tr_stepId = step_stepId st, tr_frame = f\<rparr>
      | None \<Rightarrow> tool_in_steps i tid sts)"

fun tool_in_items :: "string \<Rightarrow> transcript_item list \<Rightarrow> tool_record option" where
  "tool_in_items i [] = None"
| "tool_in_items i (ITurn t # es) =
     (case tool_in_steps i (turn_turnId t) (turn_steps t) of Some r \<Rightarrow> Some r | None \<Rightarrow> tool_in_items i es)"
| "tool_in_items i (e # es) = tool_in_items i es"

definition frames_at :: "transcript_item list \<Rightarrow> turn_id \<Rightarrow> step_id \<Rightarrow> transcript_frame list option" where
  "frames_at items tid sid =
     Option.bind (getTurn items tid) (\<lambda>t. map_option step_frames (find_step (turn_steps t) sid))"

definition activity_ordinal :: "agent_activity option \<Rightarrow> turn_id \<Rightarrow> int option" where
  "activity_ordinal view tid =
     (case Option.bind view aa_turn of
        None \<Rightarrow> None
      | Some t \<Rightarrow> if turnId (av_turnId t) \<noteq> tid then None else Some (av_step t))"

definition store_lookups :: "agent_activity option \<Rightarrow> transcript_item list \<Rightarrow> projector_lookups" where
  "store_lookups view items =
     \<lparr>lk_stepFrames = frames_at items, lk_toolFrame = (\<lambda>i. tool_in_items i items),
      lk_stepOrdinal = activity_ordinal view\<rparr>"

definition projectorFor :: "bind_env \<Rightarrow> agent_id \<Rightarrow> binding \<Rightarrow> binding \<times> projector" where
  "projectorFor env i b =
     (case jm_get (bd_projectors b) i of
        Some p \<Rightarrow> (b, p)
      | None \<Rightarrow> let p = newProjector (en_ref env) in (b\<lparr>bd_projectors := jm_set i p (bd_projectors b)\<rparr>, p))"

definition service_items :: "string \<Rightarrow> agent_id \<Rightarrow> transcript_service \<Rightarrow> transcript_item list" where
  "service_items sid i sv = (case jm_get (tv_live sv) sid of Some entry \<Rightarrow> agent_items i (le_store entry) | None \<Rightarrow> [])"

definition agent_lookups :: "bind_env \<Rightarrow> agent_id \<Rightarrow> transcript_service \<Rightarrow> projector_lookups" where
  "agent_lookups env i sv = store_lookups (en_activity env i) (service_items (en_sessionId env) i sv)"

text \<open>What a projector emitted, through \<open>applyOps\<close>.\<close>

definition emit :: "bind_env \<Rightarrow> agent_id \<Rightarrow> js_error + projected \<Rightarrow> bound \<Rightarrow> bound_result" where
  "emit env i r bs =
     (case r of
        Inl e \<Rightarrow> (bs, [], Some e)
      | Inr (p, ops) \<Rightarrow>
          let b = (fst bs)\<lparr>bd_projectors := jm_set i p (bd_projectors (fst bs))\<rparr>;
              (sv, calls) = binding_applyOps (en_sessionId env) i ops (snd bs)
          in ((b, sv), calls, None))"

section \<open>Agents\<close>

definition bare_descriptor :: "nat \<Rightarrow> agent_id \<Rightarrow> agent_descriptor obj" where
  "bare_descriptor ref i =
     Obj ref \<lparr>desc_agentId = i, desc_type = None, desc_parentAgentId = None, desc_label = None,
              desc_createdAt = None, desc_disposedAt = None\<rparr>"

definition subscribeAgent :: "bind_env \<Rightarrow> agent_id \<Rightarrow> bound \<Rightarrow> bound_result" where
  "subscribeAgent env i bs =
     (if i \<in> set (bd_subscribed (fst bs)) then (bs, [], None)
      else
        let b = fst (projectorFor env i ((fst bs)\<lparr>bd_subscribed := bd_subscribed (fst bs) @ [i]\<rparr>));
            (sv, calls) = (case jm_get (tv_live (snd bs)) (en_sessionId env) of
                             None \<Rightarrow> (snd bs, [])
                           | Some entry \<Rightarrow>
                               with_store (en_sessionId env)
                                 (ts_ensureAgent (le_store entry) i (Some (bare_descriptor (en_ref env) i))) (snd bs))
        in ((b, sv), calls, None))"

text \<open>An event of the agent's bus.\<close>

definition onAgentEvent :: "bind_env \<Rightarrow> agent_id \<Rightarrow> domain_event \<Rightarrow> bound \<Rightarrow> bound_result" where
  "onAgentEvent env i e bs =
     (if i \<notin> set (bd_subscribed (fst bs)) then (bs, [], None)
      else case jm_get (bd_projectors (fst bs)) i of
        None \<Rightarrow> (bs, [], None)
      | Some p \<Rightarrow> emit env i (project_event (en_json env) (agent_lookups env i (snd bs)) (en_now env) e p) bs)"

definition onDidCreate :: "bind_env \<Rightarrow> agent_id \<Rightarrow> bound \<Rightarrow> bound_result" where
  "onDidCreate env i bs =
     and_then (subscribeAgent env i bs)
       (\<lambda>(b, sv). ((b\<lparr>bd_seededAgents := js_set_add i (bd_seededAgents b)\<rparr>, sv), [], None))"

definition onDidDispose :: "bind_env \<Rightarrow> agent_id \<Rightarrow> bound \<Rightarrow> bound_result" where
  "onDidDispose env i bs =
     (let b = (fst bs)\<lparr>bd_subscribed := js_set_delete i (bd_subscribed (fst bs)),
                       bd_projectors := jm_delete i (bd_projectors (fst bs))\<rparr>;
          (sv, calls) = (case jm_get (tv_live (snd bs)) (en_sessionId env) of
                           None \<Rightarrow> (snd bs, [])
                         | Some entry \<Rightarrow>
                             with_store (en_sessionId env)
                               (ts_markDisposed (le_store entry) i (en_now env) (en_ref env)) (snd bs))
      in ((b, sv), calls, None))"

section \<open>Descriptors\<close>

record agent_meta =
  me_type :: "agent_type option"
  me_parentAgentId :: "string option"
  me_labels :: "(string \<times> string) list option"
  me_swarmItem :: "string option"

definition nonempty :: "string option \<Rightarrow> string option" where
  "nonempty x = (case x of Some s \<Rightarrow> if s = [] then None else Some s | None \<Rightarrow> None)"

definition meta_label :: "agent_meta option \<Rightarrow> string \<Rightarrow> string option" where
  "meta_label m k = Option.bind (Option.bind m me_labels) (\<lambda>ls. map_of ls k)"

definition descriptorFromMeta :: "nat \<Rightarrow> agent_id \<Rightarrow> agent_meta option \<Rightarrow> agent_descriptor obj" where
  "descriptorFromMeta ref i m =
     Obj ref
       \<lparr>desc_agentId = i,
        desc_type = Some (case Option.bind m me_type of Some ty \<Rightarrow> ty | None \<Rightarrow> if i = MAIN_AGENT_ID then AgentMain else AgentSub),
        desc_parentAgentId =
          (case nonempty (meta_label m ''parentAgentId'') of Some x \<Rightarrow> Some x | None \<Rightarrow> Option.bind m me_parentAgentId),
        desc_label = nonempty (coalesce (meta_label m ''swarmItem'') (Option.bind m me_swarmItem)),
        desc_createdAt = None, desc_disposedAt = None\<rparr>"

text \<open>One \<open>describeAgent\<close> per agent, each with a new object.\<close>

fun describe_all ::
  "nat \<Rightarrow> (agent_id \<times> agent_meta option) list \<Rightarrow> string \<Rightarrow> transcript_service \<Rightarrow> transcript_service \<times> service_call list" where
  "describe_all ref [] sid sv = (sv, [])"
| "describe_all ref ((i, m) # ms) sid sv =
     (let (sv2, calls) = (case jm_get (tv_live sv) sid of
                            None \<Rightarrow> (sv, [])
                          | Some entry \<Rightarrow> with_store sid (ts_describeAgent (le_store entry) (descriptorFromMeta ref i m)) sv);
          (sv3, later) = describe_all (Suc ref) ms sid sv2
      in (sv3, calls @ later))"

text \<open>\<open>refreshDescriptors\<close> once the metadata is read: every agent with a projector.\<close>

definition refreshDescriptors :: "bind_env \<Rightarrow> (agent_id \<times> agent_meta) list \<Rightarrow> bound \<Rightarrow> bound_result" where
  "refreshDescriptors env metas bs =
     (let (sv, calls) = describe_all (en_ref env) (map (\<lambda>i. (i, map_of metas i)) (jm_keys (bd_projectors (fst bs))))
                          (en_sessionId env) (snd bs)
      in ((fst bs, sv), calls, None))"

section \<open>Interactions\<close>

definition interaction_kind_of :: "interaction \<Rightarrow> interaction_kind option" where
  "interaction_kind_of x =
     (if ia_kind x = ''approval'' then Some InteractionApproval
      else if ia_kind x = ''question'' then Some InteractionQuestion else None)"

definition interactionAgentId :: "interaction \<Rightarrow> js_error + agent_id" where
  "interactionAgentId x =
     (case js_prop (ia_payload x) ''agentId'' of
        Inl e \<Rightarrow> Inl e
      | Inr v \<Rightarrow> Inr (case coalesce (ia_originAgentId x) (js_string_of v) of Some i \<Rightarrow> i | None \<Rightarrow> MAIN_AGENT_ID))"

definition announceInteraction :: "bind_env \<Rightarrow> interaction \<Rightarrow> bound \<Rightarrow> bound_result" where
  "announceInteraction env x bs =
     (case interaction_kind_of x of
        None \<Rightarrow> (bs, [], None)
      | Some kind \<Rightarrow>
          (case interactionAgentId x of
             Inl e \<Rightarrow> (bs, [], Some e)
           | Inr i \<Rightarrow>
               let b = (fst bs)\<lparr>bd_interactionAgents := jm_set (ia_id x) i (bd_interactionAgents (fst bs))\<rparr>;
                   (b2, p) = projectorFor env i b
               in emit env i (mapInteractionRequested \<lparr>pi_id = ia_id x, pi_kind = kind, pi_payload = ia_payload x\<rparr> p)
                    (b2, snd bs)))"

text \<open>The answer to an interaction, on the projector of its agent if that is still there.\<close>

definition resolveInteraction :: "bind_env \<Rightarrow> agent_id \<Rightarrow> string \<Rightarrow> json \<Rightarrow> bound \<Rightarrow> bound_result" where
  "resolveInteraction env i x response bs =
     (case jm_get (bd_projectors (fst bs)) i of
        None \<Rightarrow> (bs, [], None)
      | Some p \<Rightarrow> emit env i (Inr (mapInteractionResolved (agent_lookups env i (snd bs)) x response p)) bs)"

text \<open>What was pending when the session was bound is remembered, not announced.\<close>

fun register_pending :: "interaction list \<Rightarrow> binding \<Rightarrow> js_error + binding" where
  "register_pending [] b = Inr b"
| "register_pending (x # xs) b =
     (if interaction_kind_of x = None \<or> ia_id x \<in> set (bd_knownInteractions b) then register_pending xs b
      else case interactionAgentId x of
        Inl e \<Rightarrow> Inl e
      | Inr i \<Rightarrow>
          register_pending xs
            (b\<lparr>bd_knownInteractions := js_set_add (ia_id x) (bd_knownInteractions b),
               bd_interactionAgents := jm_set (ia_id x) i (bd_interactionAgents b),
               bd_unseeded := jm_set (ia_id x) x (bd_unseeded b)\<rparr>))"

definition seed_one :: "bind_env \<Rightarrow> string \<Rightarrow> interaction \<Rightarrow> bound \<Rightarrow> bound_result" where
  "seed_one env k x bs =
     and_then (announceInteraction env x ((fst bs)\<lparr>bd_unseeded := jm_delete k (bd_unseeded (fst bs))\<rparr>, snd bs))
       (\<lambda>(b, sv).
          case jm_get (bd_earlyResolves b) k of
            None \<Rightarrow> ((b, sv), [], None)
          | Some (i, response) \<Rightarrow>
              resolveInteraction env i k response
                (b\<lparr>bd_interactionAgents := jm_delete k (bd_interactionAgents b),
                   bd_earlyResolves := jm_delete k (bd_earlyResolves b)\<rparr>, sv))"

fun seed_loop :: "bind_env \<Rightarrow> agent_id option \<Rightarrow> (string \<times> interaction) list \<Rightarrow> bound \<Rightarrow> bound_result" where
  "seed_loop env target [] bs = (bs, [], None)"
| "seed_loop env target ((k, x) # xs) bs =
     (if target \<noteq> None \<and> jm_get (bd_interactionAgents (fst bs)) k \<noteq> target then seed_loop env target xs bs
      else and_then (seed_one env k x bs) (seed_loop env target xs))"

fun sweep_loop :: "bind_env \<Rightarrow> agent_id option \<Rightarrow> interaction list \<Rightarrow> bound \<Rightarrow> bound_result" where
  "sweep_loop env target [] bs = (bs, [], None)"
| "sweep_loop env target (x # xs) bs =
     (if ia_id x \<in> set (bd_knownInteractions (fst bs)) then sweep_loop env target xs bs
      else
        let announce = and_then (announceInteraction env x
              ((fst bs)\<lparr>bd_knownInteractions := js_set_add (ia_id x) (bd_knownInteractions (fst bs))\<rparr>, snd bs))
              (sweep_loop env target xs)
        in case target of
             None \<Rightarrow> announce
           | Some a \<Rightarrow>
               (case interactionAgentId x of
                  Inl e \<Rightarrow> (bs, [], Some e)
                | Inr i \<Rightarrow> if i \<noteq> a then sweep_loop env target xs bs else announce))"

text \<open>\<open>pending\<close> is what the interaction service lists at that moment.\<close>

definition seedPendingInteractions :: "bind_env \<Rightarrow> agent_id option \<Rightarrow> interaction list \<Rightarrow> bound \<Rightarrow> bound_result" where
  "seedPendingInteractions env target pending bs =
     (let b = (case target of
                 None \<Rightarrow> (fst bs)\<lparr>bd_seededAll := True\<rparr>
               | Some a \<Rightarrow> (fst bs)\<lparr>bd_seededAgents := js_set_add a (bd_seededAgents (fst bs))\<rparr>)
      in and_then (seed_loop env target (bd_unseeded b) (b, snd bs)) (sweep_loop env target pending))"

fun onDidChangePending :: "bind_env \<Rightarrow> interaction list \<Rightarrow> bound \<Rightarrow> bound_result" where
  "onDidChangePending env [] bs = (bs, [], None)"
| "onDidChangePending env (x # xs) bs =
     (if ia_id x \<in> set (bd_knownInteractions (fst bs)) then onDidChangePending env xs bs
      else case interactionAgentId x of
        Inl e \<Rightarrow> (bs, [], Some e)
      | Inr i \<Rightarrow>
          let b = (fst bs)\<lparr>bd_knownInteractions := js_set_add (ia_id x) (bd_knownInteractions (fst bs))\<rparr>
          in if \<not> isSeeded i b
             then onDidChangePending env xs
                    (b\<lparr>bd_interactionAgents := jm_set (ia_id x) i (bd_interactionAgents b),
                       bd_unseeded := jm_set (ia_id x) x (bd_unseeded b)\<rparr>, snd bs)
             else and_then (announceInteraction env x (b, snd bs)) (onDidChangePending env xs))"

definition onDidResolve :: "bind_env \<Rightarrow> string \<Rightarrow> json \<Rightarrow> bound \<Rightarrow> bound_result" where
  "onDidResolve env k response bs =
     (let b = (fst bs)\<lparr>bd_knownInteractions := js_set_delete k (bd_knownInteractions (fst bs))\<rparr>
      in case jm_get (bd_interactionAgents b) k of
           None \<Rightarrow> ((b, snd bs), [], None)
         | Some i \<Rightarrow>
             let b2 = b\<lparr>bd_interactionAgents := jm_delete k (bd_interactionAgents b)\<rparr>
             in if jm_get (bd_unseeded b2) k \<noteq> None
                then ((b2\<lparr>bd_earlyResolves := jm_set k (i, response) (bd_earlyResolves b2)\<rparr>, snd bs), [], None)
                else resolveInteraction env i k response (b2, snd bs))"

text \<open>The binding is disposed: nothing of it is left, and no subscription.\<close>

definition disposeBinding :: "bound \<Rightarrow> bound" where
  "disposeBinding bs =
     ((fst bs)\<lparr>bd_subscribed := [], bd_projectors := [], bd_interactionAgents := [], bd_knownInteractions := [],
               bd_unseeded := [], bd_earlyResolves := []\<rparr>, snd bs)"

section \<open>The life of a session\<close>

fun subscribe_all :: "bind_env \<Rightarrow> agent_id list \<Rightarrow> bound \<Rightarrow> bound_result" where
  "subscribe_all env [] bs = (bs, [], None)"
| "subscribe_all env (i # is) bs =
     and_then (subscribeAgent env i bs) (subscribe_all (env\<lparr>en_ref := Suc (en_ref env)\<rparr>) is)"

text \<open>\<open>bindSessionTranscript\<close>: the agents of the session and what is pending in it.\<close>

definition bindSessionTranscript :: "bind_env \<Rightarrow> agent_id list \<Rightarrow> interaction list \<Rightarrow> transcript_service \<Rightarrow> bound_result" where
  "bindSessionTranscript env agents pending sv =
     and_then (subscribe_all env agents (newBinding, sv))
       (\<lambda>(b, sv2). case register_pending pending b of
                      Inl e \<Rightarrow> ((b, sv2), [], Some e)
                    | Inr b2 \<Rightarrow> ((b2, sv2), [], None))"

text \<open>
  \<open>backfillMain\<close> and the \<open>ready\<close> promise, once the history of the main agent and the agent registry are read
  for the store they were started for: replay, seed the roster, announce what waits for the main agent.
  An unreadable registry is \<open>None\<close>.
\<close>

definition backfillMain ::
  "bind_env \<Rightarrow> int option \<Rightarrow> nat \<Rightarrow> agent_snapshot option \<Rightarrow> (agent_id \<times> agent_meta) list option
   \<Rightarrow> transcript_service \<Rightarrow> transcript_service \<times> service_call list" where
  "backfillMain env activeTurnId storeId snapshot registry sv =
     (let (sv2, calls) = backfillAgent (en_ref env) activeTurnId (en_sessionId env) storeId MAIN_AGENT_ID snapshot sv
      in if map_option le_storeId (jm_get (tv_live sv2) (en_sessionId env)) \<noteq> Some storeId then (sv2, calls)
         else
           let metas = (case registry of None \<Rightarrow> [] | Some ms \<Rightarrow> ms);
               (sv3, later) = describe_all (Suc (en_ref env)) (map (\<lambda>(i, m). (i, Some m)) metas) (en_sessionId env) sv2
           in (sv3, calls @ later))"

definition seed_if_live :: "bind_env \<Rightarrow> nat \<Rightarrow> agent_id \<Rightarrow> interaction list \<Rightarrow> bound \<Rightarrow> bound_result" where
  "seed_if_live env storeId i pending bs =
     (if map_option le_storeId (jm_get (tv_live (snd bs)) (en_sessionId env)) = Some storeId
      then seedPendingInteractions env (Some i) pending bs else (bs, [], None))"

definition session_ready ::
  "bind_env \<Rightarrow> int option \<Rightarrow> nat \<Rightarrow> agent_snapshot option \<Rightarrow> (agent_id \<times> agent_meta) list option
   \<Rightarrow> interaction list \<Rightarrow> bound \<Rightarrow> bound_result" where
  "session_ready env activeTurnId storeId snapshot registry pending bs =
     (let (sv, calls) = backfillMain env activeTurnId storeId snapshot registry (snd bs)
      in and_then ((fst bs, sv), calls, None) (seed_if_live env storeId MAIN_AGENT_ID pending))"

text \<open>\<open>ensureAgentHistory\<close> of another agent, once its history is read (or was before: \<open>None\<close>).\<close>

definition agent_history_ready ::
  "bind_env \<Rightarrow> int option \<Rightarrow> nat \<Rightarrow> agent_id \<Rightarrow> agent_snapshot option option \<Rightarrow> interaction list \<Rightarrow> bound \<Rightarrow> bound_result" where
  "agent_history_ready env activeTurnId storeId i read pending bs =
     (let (sv, calls) = (case read of
                           None \<Rightarrow> (snd bs, [])
                         | Some snapshot \<Rightarrow>
                             backfillAgent (en_ref env) activeTurnId (en_sessionId env) storeId i snapshot (snd bs))
      in and_then ((fst bs, sv), calls, None) (seed_if_live env storeId i pending))"

section \<open>Cold sessions\<close>

text \<open>\<open>contract/schema.ts\<close>: one plain name, \<open>/^[A-Za-z0-9._-]{1,128}$/\<close> and not a dot directory.\<close>

definition id_char :: "char \<Rightarrow> bool" where
  "id_char c \<longleftrightarrow>
     (let n = of_char c :: nat in
      65 \<le> n \<and> n \<le> 90 \<or> 97 \<le> n \<and> n \<le> 122 \<or> 48 \<le> n \<and> n \<le> 57 \<or> n = 46 \<or> n = 95 \<or> n = 45)"

definition isPlainAgentId :: "agent_id \<Rightarrow> bool" where
  "isPlainAgentId i \<longleftrightarrow>
     1 \<le> length i \<and> length i \<le> 128 \<and> list_all id_char i \<and> i \<noteq> ''.'' \<and> i \<noteq> ''..''"

text \<open>
  \<open>snapshot/snapshotReader.ts\<close>: the records of a wire file. A line that is no JSON is the torn end of the file
  when it is the last one; otherwise reading fails with its number. \<open>n\<close> is the index of the first line.
\<close>

fun split_lines :: "string \<Rightarrow> string list" where
  "split_lines [] = [[]]"
| "split_lines (c # cs) =
     (if c = CHR 0x0A then [] # split_lines cs
      else case split_lines cs of l # ls \<Rightarrow> (c # l) # ls | [] \<Rightarrow> [[c]])"

definition strip_cr :: "string \<Rightarrow> string" where
  "strip_cr l = (if l \<noteq> [] \<and> last l = CHR 0x0D then js_slice l 0 (-1) else l)"

fun read_lines :: "json_reader \<Rightarrow> nat \<Rightarrow> nat \<Rightarrow> string list \<Rightarrow> nat + json list" where
  "read_lines json_parse ref n [] = Inr []"
| "read_lines json_parse ref n (l # ls) =
     (let line = strip_cr l in
      if line = [] then read_lines json_parse ref (n + 1) ls
      else case json_parse ref line of
        Some (v, ref2) \<Rightarrow> map_sum id ((#) v) (read_lines json_parse ref2 (n + 1) ls)
      | None \<Rightarrow> if ls = [] then Inr [] else Inl (n + 1))"

definition readWireRecords :: "json_reader \<Rightarrow> nat \<Rightarrow> string \<Rightarrow> nat + json list" where
  "readWireRecords json_parse ref raw = read_lines json_parse ref 0 (split_lines raw)"

text \<open>
  \<open>readColdSnapshot\<close>: \<open>known\<close> says whether the index knows the session, \<open>raw\<close> is the file (\<open>None\<close>: there is
  none), \<open>coldRebuild\<close> the rebuild of the native library. The result is on the left when reading throws.
\<close>

definition readColdSnapshot ::
  "json_reader \<Rightarrow> (json list \<Rightarrow> agent_snapshot) \<Rightarrow> bool \<Rightarrow> nat \<Rightarrow> agent_id \<Rightarrow> string option \<Rightarrow> nat + agent_snapshot option" where
  "readColdSnapshot json_parse coldRebuild known ref i raw =
     (let empty_history = groupMessagesIntoSnapshot json_parse ref [] in
      if \<not> known then Inr None
      else if \<not> isPlainAgentId i then Inr (Some empty_history)
      else case raw of
        None \<Rightarrow> Inr (Some empty_history)
      | Some file \<Rightarrow> map_sum id (Some \<circ> coldRebuild) (readWireRecords json_parse ref file))"

text \<open>\<open>readColdRoster\<close>: an unreadable metadata file is an empty roster.\<close>

fun roster_entries :: "nat \<Rightarrow> (agent_id \<times> agent_meta) list \<Rightarrow> agent_descriptor obj list" where
  "roster_entries ref [] = []"
| "roster_entries ref ((i, m) # ms) = descriptorFromMeta ref i (Some m) # roster_entries (Suc ref) ms"

definition readColdRoster ::
  "bool \<Rightarrow> nat \<Rightarrow> (agent_id \<times> agent_meta) list option \<Rightarrow> agent_descriptor obj list option" where
  "readColdRoster known ref metas =
     (if \<not> known then None else Some (case metas of None \<Rightarrow> [] | Some ms \<Rightarrow> roster_entries ref ms))"

end
