(* ===== verification/ProjectorLemmas.thy ===== *)
theory ProjectorLemmas
  imports TranscriptBinding SyncLemmas
begin

text \<open>
  What the operations a projector emits do to the producer's timeline: the shape of ids they keep
  (\<open>tidy\<close>), the text of the stream frames, the output of the tasks, and that no operation other than an
  append can fail to be placed.
\<close>

section \<open>Ids\<close>

definition is_stream_id :: "step_id \<Rightarrow> frame_id \<Rightarrow> bool" where
  "is_stream_id sid fid \<longleftrightarrow> (case stream_ordinal fid of Some k \<Rightarrow> fid = frameId sid (int k) | None \<Rightarrow> False)"

lemma frameId_nat: "frameId sid (int k) = sid @ ''.f'' @ nat_str k"
  by (simp add: frameId_def int_str_def)

lemma stream_ordinal_frameId [simp]: "stream_ordinal (frameId sid (int k)) = Some k"
proof -
  have ds: "list_all is_digit (rev (nat_str k))" "rev (nat_str k) \<noteq> []"
    using all_digits_nat_str [of k] by (auto simp: all_digits_def list_all_iff)
  have f: "\<not> is_digit (CHR ''f'')" by (simp add: is_digit_def)
  have "takeWhile is_digit (rev (nat_str k) @ ''f.'' @ rev sid) = rev (nat_str k)"
    "dropWhile is_digit (rev (nat_str k) @ ''f.'' @ rev sid) = ''f.'' @ rev sid"
    using ds(1) f by (auto simp: list_all_iff takeWhile_append dropWhile_append)
  then show ?thesis using ds(2) by (simp add: stream_ordinal_def frameId_nat digits_val_nat_str)
qed

lemma is_stream_id_iff: "is_stream_id sid fid \<longleftrightarrow> (\<exists>k. fid = frameId sid (int k))"
proof
  assume "is_stream_id sid fid"
  then show "\<exists>k. fid = frameId sid (int k)" by (auto simp: is_stream_id_def split: option.splits)
next
  assume "\<exists>k. fid = frameId sid (int k)"
  then show "is_stream_id sid fid" by (auto simp: is_stream_id_def)
qed

text \<open>A call id that is not read as the number of a stream frame.\<close>

definition plain_call :: "string \<Rightarrow> bool" where
  "plain_call i \<longleftrightarrow> \<not> is_stream_id [] (''.'' @ i)"

lemma plain_call_frame: "is_stream_id sid (sid @ ''.'' @ i) \<longleftrightarrow> \<not> plain_call i"
  by (simp add: plain_call_def is_stream_id_iff frameId_nat)

fun frame_ok :: "step_id \<Rightarrow> transcript_frame \<Rightarrow> bool" where
  "frame_ok sid (FText f) \<longleftrightarrow> is_stream_id sid (tf_frameId f)"
| "frame_ok sid (FThinking f) \<longleftrightarrow> is_stream_id sid (th_frameId f)"
| "frame_ok sid (FTool f) \<longleftrightarrow> \<not> is_stream_id sid (tc_frameId f)"
| "frame_ok sid (FNotice f) \<longleftrightarrow> True"

definition turn_like :: "turn_id \<Rightarrow> bool" where
  "turn_like tid \<longleftrightarrow> take 1 tid = ''t''"

lemma turn_like_turnId [simp]: "turn_like (turnId n)"
  by (simp add: turn_like_def turnId_def)

definition step_ok :: "transcript_step \<Rightarrow> bool" where
  "step_ok st \<longleftrightarrow> distinct (map frame_id (step_frames st)) \<and> list_all (frame_ok (step_stepId st)) (step_frames st)"

definition turn_ok :: "transcript_turn \<Rightarrow> bool" where
  "turn_ok t \<longleftrightarrow> turn_like (turn_turnId t) \<and> distinct (map step_stepId (turn_steps t)) \<and> list_all step_ok (turn_steps t)"

definition tidy :: "transcript_item list \<Rightarrow> bool" where
  "tidy items \<longleftrightarrow> distinct (map turn_turnId (turns items)) \<and> list_all turn_ok (turns items)"

lemma tidy_Nil [simp]: "tidy []"
  by (simp add: tidy_def)

lemma tidy_distinct_steps: "tidy items \<Longrightarrow> distinct_steps items"
  by (auto simp: tidy_def turn_ok_def distinct_steps_def list_all_iff)

lemma tidy_turn: "tidy items \<Longrightarrow> getTurn items tid = Some t \<Longrightarrow> turn_ok t"
  by (auto simp: tidy_def list_all_iff dest: getTurn_in)

lemma turn_ok_step: "turn_ok t \<Longrightarrow> find_step (turn_steps t) sid = Some st \<Longrightarrow> step_ok st \<and> step_stepId st = sid"
  by (auto simp: turn_ok_def list_all_iff dest: find_step_id)

lemma frame_of_ok: "tidy items \<Longrightarrow> frame_of items tid sid fid = Some f \<Longrightarrow> frame_ok sid f \<and> frame_id f = fid"
  by (auto simp: frame_of_def bind_eq_Some_conv step_ok_def list_all_iff dest!: tidy_turn turn_ok_step find_frame_id)

section \<open>Keeping a timeline tidy\<close>

lemma tidy_put_turn:
  assumes "tidy items" "turn_ok nt" "turn_turnId nt = i"
  shows "tidy (put_turn items i nt)"
proof (cases "getTurn items i")
  case None
  then have "i \<notin> turn_turnId ` set (turns items)" by (simp add: getTurn_None)
  with None assms show ?thesis
    by (auto simp: tidy_def put_turn_def turns_insertTurn distinct_map_insert_before list_all_iff)
next
  case (Some t)
  have ids: "map turn_turnId (map (\<lambda>t. if turn_turnId t = i then nt else t) (turns items)) = map turn_turnId (turns items)"
    using assms(3) by auto
  have "turns (put_turn items i nt) = map (\<lambda>t. if turn_turnId t = i then nt else t) (turns items)"
    using Some by (simp add: put_turn_def turns_replaceTurn)
  with ids assms show ?thesis by (auto simp: tidy_def list_all_iff simp del: map_map)
qed

lemma turn_ok_or_skeleton: "tidy items \<Longrightarrow> turn_like i \<Longrightarrow> turn_ok (turn_or_skeleton items i)"
  by (auto simp: turn_or_skeleton_def skeletonTurn_def turn_ok_def [of "\<lparr>turn_turnId = _, turn_ordinal = _, turn_state = _,
      turn_origin = _, turn_prompt = _, turn_attachmentIds = _, turn_startedAt = _, turn_endedAt = _, turn_usage = _,
      turn_durationMs = _, turn_error = _, turn_steps = _\<rparr>"] dest: tidy_turn split: option.split)

lemma set_put_step: "set (put_step steps sid nst) \<subseteq> insert nst (set steps)"
  by (auto simp: put_step_def)

lemma turn_ok_put_step:
  assumes "turn_ok t" "step_ok nst" "step_stepId nst = sid"
  shows "turn_ok (t\<lparr>turn_steps := put_step (turn_steps t) sid nst\<rparr>)"
  using assms set_put_step [of "turn_steps t" sid nst] distinct_put_step [of "turn_steps t" nst sid]
  by (auto simp: turn_ok_def list_all_iff)

lemma set_put_frame: "set (put_frame frames f) \<subseteq> insert f (set frames)"
  by (auto simp: put_frame_def split: option.splits)

lemma step_ok_put_frame:
  assumes "step_ok st" "frame_ok (step_stepId st) f"
  shows "step_ok (st\<lparr>step_frames := put_frame (step_frames st) f\<rparr>)"
  using assms set_put_frame [of "step_frames st" f] distinct_put_frame [of "step_frames st" f]
  by (auto simp: step_ok_def list_all_iff)

lemma step_ok_or_skeleton: "turn_ok t \<Longrightarrow> step_ok (step_or_skeleton t sid tid)"
  by (auto simp: step_or_skeleton_def skeletonStep_def step_ok_def [of "\<lparr>step_stepId = _, step_turnId = _, step_ordinal = _,
      step_state = _, step_startedAt = _, step_endedAt = _, step_usage = _, step_finishReason = _, step_timing = _,
      step_retry = _, step_endReason = _, step_endMessage = _, step_frames = _\<rparr>"] dest: turn_ok_step split: option.split)

fun op_tidy :: "transcript_op \<Rightarrow> bool" where
  "op_tidy (Reset _ _) = False"
| "op_tidy (ItemsRemove _) = False"
| "op_tidy (TurnUpsert h) = turn_like (turn_turnId h)"
| "op_tidy (StepUpsert tid h) = turn_like tid"
| "op_tidy (FrameUpsert tid sid f) = (turn_like tid \<and> frame_ok sid f)"
| "op_tidy (MarkerUpsert m _) = (\<not> turn_like (marker_markerId (obj_val m)))"
| "op_tidy (TaskRefUpsert r _) = (\<not> turn_like (taskref_refId (obj_val r)))"
| "op_tidy _ = True"

lemma tidy_step_upsert:
  assumes "tidy (st_items s)" "turn_like tid"
  shows "tidy (items_after s (StepUpsert tid h))"
proof -
  let ?t = "turn_or_skeleton (st_items s) tid"
  have t: "turn_ok ?t" by (rule turn_ok_or_skeleton [OF assms])
  show ?thesis
  proof (cases "find_step (turn_steps ?t) (step_stepId h)")
    case None
    have "turn_ok (?t\<lparr>turn_steps := put_step (turn_steps ?t) (step_stepId h) (stepHeaderToStep h [])\<rparr>)"
      by (rule turn_ok_put_step [OF t]) (simp_all add: step_ok_def)
    then show ?thesis
      using None assms by (simp add: applyStepUpsert_def Let_def put_step_def tidy_put_turn)
  next
    case (Some st)
    let ?f = "\<lambda>st. if step_stepId st = step_stepId h then stepHeaderToStep h (step_frames st) else st"
    have "map step_stepId (map ?f (turn_steps ?t)) = map step_stepId (turn_steps ?t)" by simp
    moreover have "step_ok (?f st)" if "step_ok st" for st
      using that by (cases "step_stepId st = step_stepId h") (auto simp: step_ok_def)
    then have "list_all step_ok (map ?f (turn_steps ?t))"
      using t unfolding turn_ok_def list_all_iff set_map by blast
    ultimately have "turn_ok (?t\<lparr>turn_steps := map ?f (turn_steps ?t)\<rparr>)"
      using t by (simp add: turn_ok_def del: map_map)
    then show ?thesis using Some assms by (simp add: applyStepUpsert_def Let_def tidy_put_turn)
  qed
qed

lemma tidy_frame_upsert:
  assumes "tidy (st_items s)" "turn_like tid" "frame_ok sid f"
  shows "tidy (items_after s (FrameUpsert tid sid f))"
proof -
  let ?t = "turn_or_skeleton (st_items s) tid"
  let ?st = "step_or_skeleton ?t sid tid"
  have t: "turn_ok ?t" by (rule turn_ok_or_skeleton [OF assms(1,2)])
  have "step_ok (?st\<lparr>step_frames := put_frame (step_frames ?st) f\<rparr>)"
    by (rule step_ok_put_frame [OF step_ok_or_skeleton [OF t]]) (simp add: assms(3))
  then have "turn_ok (?t\<lparr>turn_steps := put_step (turn_steps ?t) sid (?st\<lparr>step_frames := put_frame (step_frames ?st) f\<rparr>)\<rparr>)"
    by (intro turn_ok_put_step [OF t]) simp_all
  then show ?thesis using assms(1) by (auto simp: applyFrameUpsert_def Let_def tidy_put_turn split: option.split)
qed

lemma frame_ok_with_text [simp]: "frame_ok sid (with_text x f) = frame_ok sid f"
  by (cases f) auto

text \<open>What an append leaves: the frame with its text extended.\<close>

lemma frame_append_frames:
  fixes op :: append_op
  assumes tidy: "tidy (st_items s)" and found: "lookup_frame (st_items s) tid sid fid = Some (t, st, f, x)"
  defines "m \<equiv> appendAtOffset x (append_offset op) (append_text op)"
  assumes placed: "merged_gap m = None"
  shows "tidy (st_items (res_state (applyFrameAppend s tid sid fid op)))"
    and "frame_of (st_items (res_state (applyFrameAppend s tid sid fid op))) i sid2 fid2 =
           (if i = tid \<and> sid2 = sid \<and> fid2 = fid then Some (with_text (merged_text m) f)
            else frame_of (st_items s) i sid2 fid2)"
proof -
  note look = lookup_frameD [OF found]
  have tok: "turn_ok t" and tid: "turn_turnId t = tid" using tidy_turn [OF tidy look(1)] getTurn_id [OF look(1)] by auto
  have sok: "step_ok st" and sid: "step_stepId st = sid" using turn_ok_step [OF tok look(2)] by auto
  have fid: "frame_id f = fid" and fin: "f \<in> set (step_frames st)" using find_frame_id [OF look(3)] by auto
  have same: "with_text x f = f" using look(4) by (cases f) auto
  let ?nf = "with_text (merged_text m) f"
  let ?nst = "st\<lparr>step_frames := map (\<lambda>g. if frame_id g = fid then ?nf else g) (step_frames st)\<rparr>"
  let ?nt = "t\<lparr>turn_steps := map (\<lambda>e. if step_stepId e = sid then ?nst else e) (turn_steps t)\<rparr>"
  have ids: "map frame_id (map (\<lambda>g. if frame_id g = fid then ?nf else g) (step_frames st)) = map frame_id (step_frames st)"
    using fid by simp
  have "step_ok ?nst"
    using sok ids fin by (auto simp: step_ok_def list_all_iff simp del: map_map)
  moreover have "map step_stepId (map (\<lambda>e. if step_stepId e = sid then ?nst else e) (turn_steps t)) = map step_stepId (turn_steps t)"
    using sid by simp
  ultimately have ntok: "turn_ok ?nt" using tok by (auto simp: turn_ok_def list_all_iff simp del: map_map)
  have put: "replaceTurn (st_items s) tid (\<lambda>_. ?nt) = put_turn (st_items s) tid ?nt" using look(1) by (simp add: put_turn_def)
  have frames: "find_frame (map (\<lambda>g. if frame_id g = fid then ?nf else g) (step_frames st)) j
      = (if j = fid then Some ?nf else find_frame (step_frames st) j)" for j
    using find_update_same [of frame_id fid "\<lambda>_. ?nf" "step_frames st"] find_update_other [of frame_id fid "\<lambda>_. ?nf" j "step_frames st"]
      look(3) fid by (simp add: find_frame_def)
  have steps: "find_step (turn_steps ?nt) j = (if j = sid then Some ?nst else find_step (turn_steps t) j)" for j
    using look(2) sid by (auto simp: find_step_update)
  have after: "frame_of (put_turn (st_items s) tid ?nt) i sid2 fid2 =
      (if i = tid \<and> sid2 = sid \<and> fid2 = fid then Some ?nf else frame_of (st_items s) i sid2 fid2)"
  proof -
    have id: "turn_turnId ?nt = tid" using tid by simp
    show ?thesis
      unfolding frames_put_turn(1) [OF id] steps using look by (auto simp: frames frame_of_def)
  qed
  have keep: "merged_text m = x" if "\<not> merged_changed m"
    using that unfolding m_def by (auto simp: appendAtOffset_def Let_def split: if_splits)
  show "tidy (st_items (res_state (applyFrameAppend s tid sid fid op)))"
    using placed found tidy tidy_put_turn [OF tidy ntok] tid put
    by (simp add: applyFrameAppend_def Let_def m_def [symmetric])
  show "frame_of (st_items (res_state (applyFrameAppend s tid sid fid op))) i sid2 fid2 =
           (if i = tid \<and> sid2 = sid \<and> fid2 = fid then Some (with_text (merged_text m) f)
            else frame_of (st_items s) i sid2 fid2)"
  proof (cases "merged_changed m")
    case True
    then show ?thesis using placed found put after by (simp add: applyFrameAppend_def Let_def m_def [symmetric])
  next
    case False
    then have "res_state (applyFrameAppend s tid sid fid op) = s"
      using placed found by (simp add: applyFrameAppend_def Let_def m_def [symmetric])
    moreover have "frame_of (st_items s) tid sid fid = Some f" using look by (simp add: frame_of_def)
    ultimately show ?thesis using keep [OF False] same by auto
  qed
qed

section \<open>What one operation does to the stream frames and the tasks\<close>

definition text_at :: "stream_kind \<Rightarrow> transcript_item list \<Rightarrow> turn_id \<Rightarrow> step_id \<Rightarrow> frame_id \<Rightarrow> string option" where
  "text_at kind items tid sid fid = Option.bind (frame_of items tid sid fid) (stream_text kind)"

lemma frame_of_turns: "turns items = turns items' \<Longrightarrow> frame_of items = frame_of items'"
  by (simp add: fun_eq_iff frame_of_def getTurn_turns)

lemma turns_item_upsert:
  assumes "tidy (st_items s)" "\<not> turn_like i" "\<not> is_turn item"
  shows "turns (st_items (res_state (applyItemUpsert s item i b))) = turns (st_items s)"
proof -
  have "\<forall>t \<in> set (turns (st_items s)). turn_turnId t \<noteq> i"
    using assms by (auto simp: tidy_def turn_ok_def list_all_iff)
  then have "filter (\<lambda>t. turn_turnId t \<noteq> i) (turns (st_items s)) = turns (st_items s)" by (simp add: filter_id_conv)
  moreover have "turns [item] = []" using assms(3) by (cases item) auto
  ultimately show ?thesis
    using assms(3) turns_append [of "st_items s" "[item]"]
    by (auto simp: applyItemUpsert_def turns_replace_nonturn turns_insert_nonturn split: option.split)
qed

lemma tidy_turns: "turns items = turns items' \<Longrightarrow> tidy items \<longleftrightarrow> tidy items'"
  by (simp add: tidy_def)

lemma item_upsert_frames:
  assumes "tidy (st_items s)" "\<not> turn_like i" "\<not> is_turn item"
  shows "tidy (st_items (res_state (applyItemUpsert s item i b)))"
    "frame_of (st_items (res_state (applyItemUpsert s item i b))) = frame_of (st_items s)"
proof -
  note same = turns_item_upsert [OF assms, of b]
  show "tidy (st_items (res_state (applyItemUpsert s item i b)))" using tidy_turns [OF same] assms(1) by blast
  show "frame_of (st_items (res_state (applyItemUpsert s item i b))) = frame_of (st_items s)" by (rule frame_of_turns [OF same])
qed

lemma tidy_turn_upsert:
  assumes "tidy (st_items s)" "turn_like (turn_turnId h)"
  shows "tidy (items_after s (TurnUpsert h))"
proof (cases "getTurn (st_items s) (turn_turnId h)")
  case None
  have "tidy (put_turn (st_items s) (turn_turnId h) (turnHeaderToTurn h []))"
    by (rule tidy_put_turn) (use assms in \<open>auto simp: turn_ok_def\<close>)
  with None show ?thesis by (simp add: applyTurnUpsert_def put_turn_def)
next
  case (Some t)
  let ?f = "\<lambda>t. if turn_turnId t = turn_turnId h then turnHeaderToTurn h (turn_steps t) else t"
  have "map turn_turnId (map ?f (turns (st_items s))) = map turn_turnId (turns (st_items s))" by simp
  moreover have "turn_ok (?f t)" if "turn_ok t" for t
    using that assms(2) by (cases "turn_turnId t = turn_turnId h") (auto simp: turn_ok_def)
  then have "list_all turn_ok (map ?f (turns (st_items s)))"
    using assms(1) unfolding tidy_def list_all_iff set_map by blast
  ultimately show ?thesis
    using Some assms by (simp add: applyTurnUpsert_def tidy_def turns_replaceTurn del: map_map)
qed

text \<open>An operation that touches no stream frame, no task and appends nothing.\<close>

fun quiet :: "transcript_op \<Rightarrow> bool" where
  "quiet (Append _) = False"
| "quiet (TaskUpsert _) = False"
| "quiet (FrameUpsert tid sid f) = (turn_like tid \<and> frame_ok sid f \<and> \<not> is_stream_id sid (frame_id f))"
| "quiet op = op_tidy op"

fun leaves_items :: "transcript_op \<Rightarrow> bool" where
  "leaves_items (TaskUpsert _) = True"
| "leaves_items (InteractionUpsert _) = True"
| "leaves_items (AttachmentUpsert _) = True"
| "leaves_items (TodoUpsert _) = True"
| "leaves_items (PromptUpsert _) = True"
| "leaves_items (MetaMerge _) = True"
| "leaves_items _ = False"

lemma other_items: "leaves_items op \<Longrightarrow> items_after s op = st_items s"
  by (cases op)
    (auto simp: applyTaskUpsert_def applyInteractionUpsert_def applyAttachmentUpsert_def applyTodoUpsert_def put_interaction_def
      applyPromptUpsert_def applyMetaMerge_def Let_def split: option.splits)

lemma tidy_frames:
  assumes "tidy (st_items s)" "op_tidy op" "\<not> is_append op"
  shows "tidy (items_after s op)"
    and "(\<And>tid sid f. op \<noteq> FrameUpsert tid sid f) \<Longrightarrow> frame_of (items_after s op) = frame_of (st_items s)"
proof -
  note d = tidy_distinct_steps [OF assms(1)]
  have "tidy (items_after s op) \<and> ((\<forall>tid sid f. op \<noteq> FrameUpsert tid sid f) \<longrightarrow> frame_of (items_after s op) = frame_of (st_items s))"
  proof (cases op)
    case (TurnUpsert h)
    with assms turn_upsert_frames(1) [OF d] show ?thesis by (simp add: tidy_turn_upsert [simplified])
  next
    case (StepUpsert tid h)
    with assms step_upsert_frames(1) [OF d] tidy_step_upsert [OF assms(1)] show ?thesis by simp
  next
    case (FrameUpsert tid sid f)
    with assms tidy_frame_upsert [OF assms(1)] show ?thesis by simp
  next
    case (MarkerUpsert m b)
    with assms item_upsert_frames [OF assms(1), of "marker_markerId (obj_val m)" "IMarker m" b] show ?thesis by simp
  next
    case (TaskRefUpsert r b)
    with assms item_upsert_frames [OF assms(1), of "taskref_refId (obj_val r)" "ITaskRef r" b] show ?thesis by simp
  next
    case (Append a)
    with assms show ?thesis by (simp add: is_append_def)
  qed (use assms in \<open>simp_all add: other_items del: applyOperation.simps\<close>)
  then show "tidy (items_after s op)"
    and "(\<And>tid sid f. op \<noteq> FrameUpsert tid sid f) \<Longrightarrow> frame_of (items_after s op) = frame_of (st_items s)" by blast+
qed

lemma stream_text_same: "frameEquals g f \<Longrightarrow> stream_text kind g = stream_text kind f"
  by (cases kind; cases g; cases f) (auto simp: stream_text_def)

lemma frame_upsert_text:
  assumes "tidy (st_items s)"
  shows "text_at kind (items_after s (FrameUpsert tid sid f)) i sid2 fid =
      (if i = tid \<and> sid2 = sid \<and> fid = frame_id f then stream_text kind f else text_at kind (st_items s) i sid2 fid)"
  using frame_upsert_frames(1) [OF tidy_distinct_steps [OF assms], of tid sid f i sid2 fid]
  by (auto simp: text_at_def stream_text_same simp del: applyOperation.simps split: option.split)

lemma quiet_op:
  assumes "tidy (st_items s)" "quiet op"
  shows "tidy (items_after s op)" "st_tasks (res_state (applyOperation s op)) = st_tasks s"
    "res_gap (applyOperation s op) = None"
    "is_stream_id sid fid \<Longrightarrow> text_at kind (items_after s op) tid sid fid = text_at kind (st_items s) tid sid fid"
proof -
  have ok: "op_tidy op" "\<not> is_append op" using assms(2) by (cases op; simp add: is_append_def)+
  show "tidy (items_after s op)" by (rule tidy_frames(1) [OF assms(1) ok])
  show "res_gap (applyOperation s op) = None" using ok(2) res_gap_append [of s op] by blast
  show "st_tasks (res_state (applyOperation s op)) = st_tasks s"
    using assms(2)
    by (cases op)
      (auto simp: applyTurnUpsert_def applyStepUpsert_def applyFrameUpsert_def applyItemUpsert_def applyInteractionUpsert_def
        put_interaction_def applyAttachmentUpsert_def applyTodoUpsert_def applyPromptUpsert_def applyMetaMerge_def Let_def
        split: option.splits)
  show "text_at kind (items_after s op) tid sid fid = text_at kind (st_items s) tid sid fid" if "is_stream_id sid fid"
  proof (cases op)
    case (FrameUpsert t2 s2 f)
    with assms(2) that frame_upsert_text [OF assms(1), of kind t2 s2 f tid sid fid] show ?thesis by auto
  qed (use tidy_frames(2) [OF assms(1) ok] in \<open>auto simp: text_at_def simp del: applyOperation.simps\<close>)
qed

section \<open>Batches that are placed\<close>

fun places :: "agent_state \<Rightarrow> transcript_op list \<Rightarrow> bool" where
  "places s [] \<longleftrightarrow> True"
| "places s (op # ops) \<longleftrightarrow> res_gap (applyOperation s op) = None \<and> places (res_state (applyOperation s op)) ops"

lemma places_append: "places s (xs @ ys) \<longleftrightarrow> places s xs \<and> places (run_ops s xs) ys"
  by (induction xs arbitrary: s) auto

lemma apply_loop_gap: "snd (snd (apply_loop ops s acc gap)) = None \<longleftrightarrow> gap = None \<and> places s ops"
proof (induction ops arbitrary: s acc gap)
  case (Cons op ops)
  then show ?case
    using res_gap_not_changed [of s op] applyOperation_not_changed [of s op]
    by (cases "res_gap (applyOperation s op)") (auto simp: apply_loop_step simp del: applyOperation.simps)
qed simp

lemma quiet_run:
  assumes "tidy (st_items s)" "list_all quiet ops"
  shows "places s ops" "tidy (st_items (run_ops s ops))" "st_tasks (run_ops s ops) = st_tasks s"
    "is_stream_id sid fid \<Longrightarrow> text_at kind (st_items (run_ops s ops)) tid sid fid = text_at kind (st_items s) tid sid fid"
proof -
  have "places s ops \<and> tidy (st_items (run_ops s ops)) \<and> st_tasks (run_ops s ops) = st_tasks s
      \<and> (is_stream_id sid fid \<longrightarrow> text_at kind (st_items (run_ops s ops)) tid sid fid = text_at kind (st_items s) tid sid fid)"
    using assms
  proof (induction ops arbitrary: s)
    case (Cons op ops)
    then have q: "quiet op" "list_all quiet ops" by simp_all
    note one = quiet_op [OF Cons.prems(1) q(1)]
    note IH = Cons.IH [OF one(1) q(2)]
    with one show ?case by (simp del: applyOperation.simps)
  qed simp
  then show "places s ops" "tidy (st_items (run_ops s ops))" "st_tasks (run_ops s ops) = st_tasks s"
    "is_stream_id sid fid \<Longrightarrow> text_at kind (st_items (run_ops s ops)) tid sid fid = text_at kind (st_items s) tid sid fid"
    by blast+
qed

text \<open>An append at the end of a stream frame, and at the end of a task's output.\<close>

lemma append_at_end: "merged_gap (appendAtOffset x (int (length x)) d) = None"
  "merged_text (appendAtOffset x (int (length x)) d) = x @ d"
  by (simp_all add: appendAtOffset_nat)

lemma stream_frame_text: "stream_text kind f = Some x \<Longrightarrow> frame_text f = Some x"
  by (cases kind; cases f) (auto simp: stream_text_def split: if_splits)

lemma text_at_lookup:
  assumes "text_at kind items tid sid fid = Some x"
  shows "\<exists>t st f. lookup_frame items tid sid fid = Some (t, st, f, x) \<and> stream_text kind f = Some x"
proof -
  obtain f where f: "frame_of items tid sid fid = Some f" "stream_text kind f = Some x"
    using assms by (auto simp: text_at_def bind_eq_Some_conv)
  then obtain t st where "getTurn items tid = Some t" "find_step (turn_steps t) sid = Some st"
    "find_frame (step_frames st) fid = Some f"
    by (auto simp: frame_of_def bind_eq_Some_conv)
  with f(2) stream_frame_text [OF f(2)] show ?thesis by (simp add: lookup_frame_def)
qed

lemma stream_text_with_text: "stream_text kind f = Some x \<Longrightarrow> stream_text kind (with_text y f) = Some y"
  by (cases kind; cases f) (auto simp: stream_text_def split: if_splits)

lemma stream_append:
  fixes d :: string
  assumes "tidy (st_items s)" "text_at kind (st_items s) tid sid fid = Some x"
  defines "op \<equiv> Append \<lparr>append_target = TargetFrame tid sid fid, append_offset = int (length x), append_text = d\<rparr>"
  shows "tidy (items_after s op)" "st_tasks (res_state (applyOperation s op)) = st_tasks s"
    "res_gap (applyOperation s op) = None"
    "text_at kind (items_after s op) tid sid fid = Some (x @ d)"
    "(i, j, k) \<noteq> (tid, sid, fid) \<Longrightarrow> text_at kind2 (items_after s op) i j k = text_at kind2 (st_items s) i j k"
proof -
  obtain t st f where look: "lookup_frame (st_items s) tid sid fid = Some (t, st, f, x)" and f: "stream_text kind f = Some x"
    using text_at_lookup [OF assms(2)] by blast
  let ?a = "\<lparr>append_target = TargetFrame tid sid fid, append_offset = int (length x), append_text = d\<rparr>"
  have app: "applyOperation s op = applyFrameAppend s tid sid fid ?a" by (simp add: op_def applyAppend_def)
  note fr = frame_append_frames [OF assms(1) look, of ?a, simplified append_at_end append_op.select_convs, OF refl]
  show "tidy (items_after s op)" unfolding app by (rule fr(1))
  show "st_tasks (res_state (applyOperation s op)) = st_tasks s"
    unfolding app by (auto simp: applyFrameAppend_def Let_def split: option.split)
  show "res_gap (applyOperation s op) = None"
    unfolding app by (simp add: applyFrameAppend_def look Let_def append_at_end)
  show "text_at kind (items_after s op) tid sid fid = Some (x @ d)"
    unfolding app text_at_def fr(2) using stream_text_with_text [OF f] by simp
  show "text_at kind2 (items_after s op) i j k = text_at kind2 (st_items s) i j k" if "(i, j, k) \<noteq> (tid, sid, fid)"
    unfolding app text_at_def fr(2) using that by auto
qed

lemma task_append:
  fixes d :: string
  assumes "jm_get (st_tasks s) i = Some u" "task_outputTail u = x"
  defines "op \<equiv> Append \<lparr>append_target = TargetTask i, append_offset = int (length x), append_text = d\<rparr>"
  shows "st_items (res_state (applyOperation s op)) = st_items s" "res_gap (applyOperation s op) = None"
    "map_option task_outputTail (jm_get (st_tasks (res_state (applyOperation s op))) j)
     = (if j = i then Some (x @ d) else map_option task_outputTail (jm_get (st_tasks s) j))"
proof -
  have "x = x @ d" if "\<not> merged_changed (appendAtOffset x (int (length x)) d)"
    using that append_at_end(2) [of x d] by (auto simp: appendAtOffset_def Let_def split: if_splits)
  then show "map_option task_outputTail (jm_get (st_tasks (res_state (applyOperation s op))) j)
     = (if j = i then Some (x @ d) else map_option task_outputTail (jm_get (st_tasks s) j))"
    using assms(1,2) by (auto simp: op_def applyAppend_def applyTaskAppend_def Let_def append_at_end)
  show "st_items (res_state (applyOperation s op)) = st_items s" "res_gap (applyOperation s op) = None"
    using assms(1,2) by (auto simp: op_def applyAppend_def applyTaskAppend_def Let_def append_at_end)
qed

lemma task_upsert:
  shows "st_items (res_state (applyOperation s (TaskUpsert t))) = st_items s" "res_gap (applyOperation s (TaskUpsert t)) = None"
    "map_option task_outputTail (jm_get (st_tasks (res_state (applyOperation s (TaskUpsert t)))) j)
     = (if j = task_taskId t then Some (task_outputTail t) else map_option task_outputTail (jm_get (st_tasks s) j))"
  by (auto simp: applyTaskUpsert_def taskEquals_def split: option.split)

section \<open>The lookups of the binding\<close>

lemma frames_at_find: "frames_at items tid sid = Some fs \<Longrightarrow> frame_of items tid sid fid = find_frame fs fid"
  by (auto simp: frames_at_def frame_of_def bind_eq_Some_conv)

lemma frames_at_ok:
  assumes "tidy items" "frames_at items tid sid = Some fs"
  shows "distinct (map frame_id fs)" "list_all (frame_ok sid) fs"
  using assms by (auto simp: frames_at_def bind_eq_Some_conv step_ok_def dest!: tidy_turn turn_ok_step)

lemma scan_ordinals_ge: "n \<le> scan_ordinals fs n"
  by (induction fs n rule: scan_ordinals.induct) (auto split: option.split elim: order_trans [rotated])

lemma scan_ordinals_max: "f \<in> set fs \<Longrightarrow> stream_ordinal (frame_id f) = Some k \<Longrightarrow> k \<le> scan_ordinals fs n"
proof (induction fs n rule: scan_ordinals.induct)
  case (2 g fs n)
  then show ?case
    using scan_ordinals_ge [of "max n k" fs] by (auto split: option.splits)
qed simp

lemma newest_stream_in:
  "newest_stream kind fs = Some o1 \<Longrightarrow>
   \<exists>f \<in> set fs. of_frameId o1 = frame_id f \<and> stream_text kind f = Some (of_text o1) \<and> of_offset o1 = length (of_text o1)"
  by (induction fs) (auto split: option.splits)

lemma stream_text_frame_ok: "stream_text kind f = Some x \<Longrightarrow> frame_ok sid f \<Longrightarrow> is_stream_id sid (frame_id f)"
  by (cases kind; cases f) (auto simp: stream_text_def)

lemma adopted_stream:
  assumes "tidy items" "frames_at items tid sid = Some fs" "newest_stream kind (rev fs) = Some o1"
  shows "text_at kind items tid sid (of_frameId o1) = Some (of_text o1)" "of_offset o1 = length (of_text o1)"
    "\<exists>k \<le> scan_ordinals fs n. of_frameId o1 = frameId sid (int k)"
proof -
  obtain f where f: "f \<in> set fs" "of_frameId o1 = frame_id f" "stream_text kind f = Some (of_text o1)"
    "of_offset o1 = length (of_text o1)"
    using newest_stream_in [OF assms(3)] by auto
  note ok = frames_at_ok [OF assms(1,2)]
  have "find_frame fs (frame_id f) = Some f"
    unfolding find_frame_def by (rule find_uniqueI) (use f ok(1) in \<open>auto simp: distinct_map inj_on_def\<close>)
  with f frames_at_find [OF assms(2)] show "text_at kind items tid sid (of_frameId o1) = Some (of_text o1)"
    by (simp add: text_at_def)
  show "of_offset o1 = length (of_text o1)" by (rule f(4))
  have "is_stream_id sid (frame_id f)" using stream_text_frame_ok [OF f(3)] ok(2) f(1) by (auto simp: list_all_iff)
  then obtain k where k: "frame_id f = frameId sid (int k)" by (auto simp: is_stream_id_iff)
  then have "k \<le> scan_ordinals fs n" using scan_ordinals_max [OF f(1)] by simp
  with k f(2) show "\<exists>k \<le> scan_ordinals fs n. of_frameId o1 = frameId sid (int k)" by auto
qed

lemma tool_in_frames_in: "tool_in_frames i fs = Some f \<Longrightarrow> FTool f \<in> set fs \<and> tc_toolCallId f = i"
  by (induction i fs rule: tool_in_frames.induct) (auto split: if_splits)

lemma tool_in_steps_in:
  "tool_in_steps i tid sts = Some r \<Longrightarrow>
   tr_turnId r = tid \<and> (\<exists>st \<in> set sts. tr_stepId r = step_stepId st \<and> FTool (tr_frame r) \<in> set (step_frames st))"
  by (induction i tid sts rule: tool_in_steps.induct) (auto split: option.splits dest: tool_in_frames_in)

lemma tool_in_items_in:
  "tool_in_items i items = Some r \<Longrightarrow>
   \<exists>t \<in> set (turns items). tr_turnId r = turn_turnId t
     \<and> (\<exists>st \<in> set (turn_steps t). tr_stepId r = step_stepId st \<and> FTool (tr_frame r) \<in> set (step_frames st))"
  by (induction i items rule: tool_in_items.induct) (auto split: option.splits dest: tool_in_steps_in)

lemma adopted_tool:
  assumes "tidy items" "tool_in_items i items = Some r"
  shows "turn_like (tr_turnId r)" "\<not> is_stream_id (tr_stepId r) (tc_frameId (tr_frame r))"
proof -
  obtain t st where t: "t \<in> set (turns items)" "tr_turnId r = turn_turnId t"
    and st: "st \<in> set (turn_steps t)" "tr_stepId r = step_stepId st" "FTool (tr_frame r) \<in> set (step_frames st)"
    using tool_in_items_in [OF assms(2)] by blast
  have tok: "turn_ok t" using assms(1) t(1) by (auto simp: tidy_def list_all_iff)
  with t(2) show "turn_like (tr_turnId r)" by (simp add: turn_ok_def)
  have "step_ok st" using tok st(1) by (auto simp: turn_ok_def list_all_iff)
  then have "frame_ok (step_stepId st) (FTool (tr_frame r))" using st(3) unfolding step_ok_def list_all_iff by blast
  with st(2) show "\<not> is_stream_id (tr_stepId r) (tc_frameId (tr_frame r))" by simp
qed

end
