(* ===== verification/ProjectorTracks.thy ===== *)
theory ProjectorTracks
  imports ProjectorLemmas
begin

text \<open>
  A projector and the store it feeds: the text of every open stream is the text of its frame, the output of
  every task is the output of the task in the store, and every event that comes in the engine's order keeps it
  so. The events are applied to the store as the binding does, one batch after the other.
\<close>

section \<open>The order of the engine\<close>

definition streaming :: "projector \<Rightarrow> bool" where
  "streaming p \<longleftrightarrow> pj_openText p \<noteq> None \<or> pj_openThinking p \<noteq> None"

text \<open>
  While a stream is open, content belongs to the turn of the current step and a retry to the step itself, and a
  tool call id is not the number of a stream frame.
\<close>

definition in_order :: "projector \<Rightarrow> domain_event \<Rightarrow> bool" where
  "in_order p e =
     (let here = (\<lambda>n. \<not> streaming p \<or> map_option step_turnId (pj_currentStep p) = Some (turnId n)) in
      case e of
        EvAssistantDelta n _ \<Rightarrow> here n
      | EvThinkingDelta n _ \<Rightarrow> here n
      | EvToolCallDelta n i _ _ \<Rightarrow> here n \<and> plain_call i
      | EvToolCallStarted c \<Rightarrow> here (cs_turnId c) \<and> plain_call (cs_toolCallId c)
      | EvStepRetrying r \<Rightarrow>
          here (rt_turnId r) \<and>
          (\<not> streaming p \<or> map_option step_stepId (pj_currentStep p) = Some (stepId (turnId (rt_turnId r)) (rt_step r)))
      | _ \<Rightarrow> True)"

section \<open>What is kept\<close>

definition holds_open :: "stream_kind \<Rightarrow> transcript_item list \<Rightarrow> projector \<Rightarrow> bool" where
  "holds_open kind items p \<longleftrightarrow>
     (\<forall>o1. get_open kind p = Some o1 \<longrightarrow>
       (\<exists>step. pj_currentStep p = Some step \<and>
          text_at kind items (step_turnId step) (step_stepId step) (of_frameId o1) = Some (of_text o1) \<and>
          of_offset o1 = length (of_text o1) \<and>
          (\<exists>k \<le> pj_frameOrdinal p. of_frameId o1 = frameId (step_stepId step) (int k))))"

definition headers_ok :: "projector \<Rightarrow> bool" where
  "headers_ok p \<longleftrightarrow>
     (\<forall>st. pj_currentStep p = Some st \<longrightarrow> turn_like (step_turnId st)) \<and>
     (\<forall>t. pj_currentTurn p = Some t \<longrightarrow> turn_like (turn_turnId t))"

definition tool_ok :: "tool_record \<Rightarrow> bool" where
  "tool_ok r \<longleftrightarrow> turn_like (tr_turnId r) \<and> \<not> is_stream_id (tr_stepId r) (tc_frameId (tr_frame r))"

definition tools_ok :: "projector \<Rightarrow> bool" where
  "tools_ok p \<longleftrightarrow> (\<forall>i r. jm_get (pj_toolFrames p) i = Some r \<longrightarrow> tool_ok r)"

definition tasks_held :: "projector \<Rightarrow> agent_state \<Rightarrow> bool" where
  "tasks_held p s \<longleftrightarrow>
     (\<forall>i t. jm_get (pj_tasks p) i = Some t \<longrightarrow>
        task_taskId t = i \<and> map_option task_outputTail (jm_get (st_tasks s) i) = Some (task_outputTail t))"

definition tracks :: "projector \<Rightarrow> agent_state \<Rightarrow> bool" where
  "tracks p s \<longleftrightarrow>
     tidy (st_items s) \<and> (\<forall>kind. holds_open kind (st_items s) p) \<and> headers_ok p \<and> tools_ok p \<and> tasks_held p s"

lemma tracks_new: "tidy (st_items s) \<Longrightarrow> tracks (newProjector ref) s"
  by (simp add: tracks_def holds_open_def headers_ok_def tools_ok_def tasks_held_def newProjector_def get_open_def
      split: stream_kind.split)

lemma ex_kind: "(\<exists>kind. P kind) \<longleftrightarrow> P StreamText \<or> P StreamThought"
  by (metis stream_kind.exhaust)

lemma streaming_alt: "streaming p \<longleftrightarrow> (\<exists>kind. get_open kind p \<noteq> None)"
  by (auto simp: streaming_def get_open_def ex_kind)

text \<open>An operation that is always placed and keeps the tasks.\<close>

definition steady :: "transcript_op \<Rightarrow> bool" where
  "steady op \<longleftrightarrow> op_tidy op \<and> \<not> is_append op \<and> (case op of TaskUpsert _ \<Rightarrow> False | _ \<Rightarrow> True)"

lemma quiet_steady: "quiet op \<Longrightarrow> steady op"
  by (cases op) (auto simp: steady_def is_append_def)

lemma steady_op:
  assumes "tidy (st_items s)" "steady op"
  shows "tidy (items_after s op)" "st_tasks (res_state (applyOperation s op)) = st_tasks s" "res_gap (applyOperation s op) = None"
proof -
  have ok: "op_tidy op" "\<not> is_append op" using assms(2) by (simp_all add: steady_def)
  show "tidy (items_after s op)" by (rule tidy_frames(1) [OF assms(1) ok])
  show "res_gap (applyOperation s op) = None" using ok(2) res_gap_append [of s op] by blast
  show "st_tasks (res_state (applyOperation s op)) = st_tasks s"
    using assms(2)
    by (cases op)
      (auto simp: steady_def is_append_def applyTurnUpsert_def applyStepUpsert_def applyFrameUpsert_def applyItemUpsert_def
        applyInteractionUpsert_def put_interaction_def applyAttachmentUpsert_def applyTodoUpsert_def applyPromptUpsert_def
        applyMetaMerge_def Let_def split: option.splits)
qed

lemma steady_run:
  "tidy (st_items s) \<Longrightarrow> list_all steady ops \<Longrightarrow>
   places s ops \<and> tidy (st_items (run_ops s ops)) \<and> st_tasks (run_ops s ops) = st_tasks s"
proof (induction ops arbitrary: s)
  case (Cons op ops)
  then have q: "steady op" "list_all steady ops" by simp_all
  note one = steady_op [OF Cons.prems(1) q(1)]
  from Cons.IH [OF one(1) q(2)] one show ?case by (simp del: applyOperation.simps)
qed simp

text \<open>Batches without content: they leave what is open alone, or nothing is open afterwards.\<close>

definition same_streams :: "projector \<Rightarrow> projector \<Rightarrow> bool" where
  "same_streams p q \<longleftrightarrow>
     pj_openText q = pj_openText p \<and> pj_openThinking q = pj_openThinking p \<and> pj_frameOrdinal p \<le> pj_frameOrdinal q \<and>
     (streaming p \<longrightarrow>
        map_option step_turnId (pj_currentStep q) = map_option step_turnId (pj_currentStep p) \<and>
        map_option step_stepId (pj_currentStep q) = map_option step_stepId (pj_currentStep p))"

lemma same_streams_holds:
  assumes "same_streams p q" "holds_open kind items p"
    and "\<And>tid sid k. text_at kind items' tid sid (frameId sid (int k)) = text_at kind items tid sid (frameId sid (int k))"
  shows "holds_open kind items' q"
  unfolding holds_open_def
proof (intro allI impI)
  fix o1 assume o1: "get_open kind q = Some o1"
  then have p1: "get_open kind p = Some o1" using assms(1) by (auto simp: get_open_def same_streams_def split: stream_kind.splits)
  then have str: "streaming p" by (auto simp: streaming_alt)
  from assms(2) p1 obtain step k where st: "pj_currentStep p = Some step"
    "text_at kind items (step_turnId step) (step_stepId step) (of_frameId o1) = Some (of_text o1)"
    "of_offset o1 = length (of_text o1)" "k \<le> pj_frameOrdinal p" "of_frameId o1 = frameId (step_stepId step) (int k)"
    unfolding holds_open_def by blast
  obtain step2 where st2: "pj_currentStep q = Some step2" "step_turnId step2 = step_turnId step" "step_stepId step2 = step_stepId step"
    using assms(1) str st(1) by (auto simp: same_streams_def)
  have "k \<le> pj_frameOrdinal q" using assms(1) st(4) by (auto simp: same_streams_def)
  then show "\<exists>step. pj_currentStep q = Some step \<and>
      text_at kind items' (step_turnId step) (step_stepId step) (of_frameId o1) = Some (of_text o1) \<and>
      of_offset o1 = length (of_text o1) \<and> (\<exists>k \<le> pj_frameOrdinal q. of_frameId o1 = frameId (step_stepId step) (int k))"
    using st st2 assms(3) [of "step_turnId step" "step_stepId step" k] by auto
qed

lemma tracks_quiet:
  assumes "tracks p s" "list_all quiet ops" "same_streams p q" "headers_ok q" "tools_ok q" "pj_tasks q = pj_tasks p"
  shows "places s ops" "tracks q (run_ops s ops)"
proof -
  have tidy: "tidy (st_items s)" using assms(1) by (simp add: tracks_def)
  note run = quiet_run [OF tidy assms(2)]
  show "places s ops" by (rule run(1))
  have "holds_open kind (st_items (run_ops s ops)) q" for kind
    by (rule same_streams_holds [OF assms(3), of _ "st_items s"]) (use assms(1) run(4) in \<open>auto simp: tracks_def is_stream_id_iff\<close>)
  moreover have "tasks_held q (run_ops s ops)"
    using assms(1,6) run(3) by (simp add: tracks_def tasks_held_def)
  ultimately show "tracks q (run_ops s ops)" using run(2) assms(4,5) by (simp add: tracks_def)
qed

lemma tracks_closed:
  assumes "tracks p s" "list_all steady ops" "pj_openText q = None" "pj_openThinking q = None" "headers_ok q" "tools_ok q"
    "pj_tasks q = pj_tasks p"
  shows "places s ops" "tracks q (run_ops s ops)"
proof -
  have run: "places s ops" "tidy (st_items (run_ops s ops))" "st_tasks (run_ops s ops) = st_tasks s"
    using steady_run [OF _ assms(2)] assms(1) by (auto simp: tracks_def)
  show "places s ops" by (rule run(1))
  have "holds_open kind (st_items (run_ops s ops)) q" for kind
    using assms(3,4) by (simp add: holds_open_def get_open_def split: stream_kind.split)
  moreover have "tasks_held q (run_ops s ops)" using assms(1,7) run(3) by (simp add: tracks_def tasks_held_def)
  ultimately show "tracks q (run_ops s ops)" using run(2) assms(5,6) by (simp add: tracks_def)
qed

lemma same_streams_refl [simp]: "same_streams p p"
  by (simp add: same_streams_def)

lemma same_streams_id:
  "pj_openText q = pj_openText p \<Longrightarrow> pj_openThinking q = pj_openThinking p \<Longrightarrow> pj_frameOrdinal q = pj_frameOrdinal p \<Longrightarrow>
   pj_currentStep q = pj_currentStep p \<Longrightarrow> same_streams p q"
  by (simp add: same_streams_def)

section \<open>Tasks\<close>

lemma tracks_task:
  assumes "tracks p s"
  shows "places s [TaskUpsert t]"
    "tracks (p\<lparr>pj_tasks := jm_set (task_taskId t) t (pj_tasks p)\<rparr>) (run_ops s [TaskUpsert t])"
proof -
  note up = task_upsert [of s t]
  show "places s [TaskUpsert t]" using up(2) by simp
  have "tasks_held (p\<lparr>pj_tasks := jm_set (task_taskId t) t (pj_tasks p)\<rparr>) (run_ops s [TaskUpsert t])"
    using assms up(3) by (auto simp: tracks_def tasks_held_def simp del: applyOperation.simps)
  with assms up(1) show "tracks (p\<lparr>pj_tasks := jm_set (task_taskId t) t (pj_tasks p)\<rparr>) (run_ops s [TaskUpsert t])"
    by (simp add: tracks_def holds_open_def get_open_def headers_ok_def tools_ok_def del: applyOperation.simps split: stream_kind.split)
qed

lemma tracks_task_append:
  fixes d :: string
  assumes "tracks p s" "jm_get (pj_tasks p) i = Some t"
  defines "op \<equiv> Append \<lparr>append_target = TargetTask i, append_offset = int (length (task_outputTail t)), append_text = d\<rparr>"
  shows "places s [op]"
    "tracks (p\<lparr>pj_tasks := jm_set i (t\<lparr>task_outputTail := task_outputTail t @ d\<rparr>) (pj_tasks p)\<rparr>) (run_ops s [op])"
proof -
  have held: "task_taskId t = i" "map_option task_outputTail (jm_get (st_tasks s) i) = Some (task_outputTail t)"
    using assms(1,2) by (auto simp: tracks_def tasks_held_def)
  then obtain u where u: "jm_get (st_tasks s) i = Some u" "task_outputTail u = task_outputTail t" by auto
  note ap = task_append [OF u, of d, folded op_def]
  show "places s [op]" using ap(2) by simp
  have "tasks_held (p\<lparr>pj_tasks := jm_set i (t\<lparr>task_outputTail := task_outputTail t @ d\<rparr>) (pj_tasks p)\<rparr>) (run_ops s [op])"
    using assms(1) ap(3) held(1) by (auto simp: tracks_def tasks_held_def simp del: applyOperation.simps)
  with assms(1) ap(1)
  show "tracks (p\<lparr>pj_tasks := jm_set i (t\<lparr>task_outputTail := task_outputTail t @ d\<rparr>) (pj_tasks p)\<rparr>) (run_ops s [op])"
    by (simp add: tracks_def holds_open_def get_open_def headers_ok_def tools_ok_def del: applyOperation.simps split: stream_kind.split)
qed

lemma tracks_then:
  assumes "places s xs" "tracks q (run_ops s xs)"
    and "places (run_ops s xs) ys" "tracks r (run_ops (run_ops s xs) ys)"
  shows "places s (xs @ ys) \<and> tracks r (run_ops s (xs @ ys))"
  using assms by (simp add: places_append run_ops_append)

section \<open>Streams\<close>

lemma ensureStep_tracks:
  assumes "tracks p s" "turn_like tid" "\<not> streaming p \<or> map_option step_turnId (pj_currentStep p) = Some tid"
    and "ensureStep lk now tid p = (q, step, ops)"
  shows "list_all quiet ops" "tracks q (run_ops s ops)" "places s ops" "pj_currentStep q = Some step" "step_turnId step = tid"
    "pj_toolFrames q = pj_toolFrames p" "pj_tasks q = pj_tasks p"
proof -
  have "list_all quiet ops \<and> same_streams p q \<and> headers_ok q \<and> tools_ok q \<and> pj_tasks q = pj_tasks p
      \<and> pj_currentStep q = Some step \<and> step_turnId step = tid \<and> pj_toolFrames q = pj_toolFrames p"
    using assms
    by (auto simp: ensureStep_def Let_def tracks_def headers_ok_def tools_ok_def step_base_def same_streams_def
        split: option.splits if_splits)
  with tracks_quiet [OF assms(1), of ops q]
  show "list_all quiet ops" "tracks q (run_ops s ops)" "places s ops" "pj_currentStep q = Some step" "step_turnId step = tid"
    "pj_toolFrames q = pj_toolFrames p" "pj_tasks q = pj_tasks p" by blast+
qed

lemma get_set_open [simp]: "get_open kind (set_open kind2 o1 p) = (if kind = kind2 then Some o1 else get_open kind p)"
  by (cases kind; cases kind2) (simp_all add: get_open_def set_open_def)

lemma set_open_fields [simp]:
  "pj_currentStep (set_open kind o1 p) = pj_currentStep p" "pj_currentTurn (set_open kind o1 p) = pj_currentTurn p"
  "pj_frameOrdinal (set_open kind o1 p) = pj_frameOrdinal p" "pj_toolFrames (set_open kind o1 p) = pj_toolFrames p"
  "pj_tasks (set_open kind o1 p) = pj_tasks p" "set_open kind o2 (set_open kind o1 p) = set_open kind o2 p"
  by (cases kind; simp add: set_open_def)+

lemma stream_text_kind: "stream_text kind f = Some x \<Longrightarrow> stream_text kind2 f = Some y \<Longrightarrow> kind = kind2"
  by (cases kind; cases kind2; cases f) (auto simp: stream_text_def)

lemma streams_exclusive:
  "text_at kind items tid sid fid = Some x \<Longrightarrow> text_at kind2 items tid sid fid = Some y \<Longrightarrow> kind = kind2"
  by (auto simp: text_at_def bind_eq_Some_conv dest: stream_text_kind)

lemma stream_text_frame [simp]: "stream_text kind (stream_frame kind2 i x) = (if kind = kind2 then Some x else None)"
  by (cases kind; cases kind2) (simp_all add: stream_text_def stream_frame_def text_frame_of_def thinking_frame_of_def)

lemma stream_frame_id [simp]: "frame_id (stream_frame kind i x) = i"
  by (cases kind) (simp_all add: stream_frame_def text_frame_of_def thinking_frame_of_def)

lemma stream_frame_ok [simp]: "frame_ok sid (stream_frame kind i x) = is_stream_id sid i"
  by (cases kind) (simp_all add: stream_frame_def text_frame_of_def thinking_frame_of_def)

text \<open>An open stream grows by what is appended at its offset.\<close>

lemma tracks_append:
  fixes d :: string
  assumes "tracks p s" "get_open kind p = Some o1" "pj_currentStep p = Some step"
  defines "op \<equiv> Append \<lparr>append_target = TargetFrame (step_turnId step) (step_stepId step) (of_frameId o1),
                         append_offset = int (of_offset o1), append_text = d\<rparr>"
  defines "q \<equiv> set_open kind (o1\<lparr>of_offset := of_offset o1 + length d, of_text := of_text o1 @ d\<rparr>) p"
  shows "places s [op]" "tracks q (run_ops s [op])"
proof -
  have tidy: "tidy (st_items s)" using assms(1) by (simp add: tracks_def)
  obtain k where held: "text_at kind (st_items s) (step_turnId step) (step_stepId step) (of_frameId o1) = Some (of_text o1)"
    "of_offset o1 = length (of_text o1)" "k \<le> pj_frameOrdinal p" "of_frameId o1 = frameId (step_stepId step) (int k)"
    using assms(1-3) unfolding tracks_def holds_open_def by fastforce
  have op: "op = Append \<lparr>append_target = TargetFrame (step_turnId step) (step_stepId step) (of_frameId o1),
                         append_offset = int (length (of_text o1)), append_text = d\<rparr>"
    by (simp add: op_def held(2))
  note ap = stream_append [OF tidy held(1), where d = d, folded op]
  show "places s [op]" using ap(3) by simp
  have "holds_open kind2 (items_after s op) q" for kind2
    unfolding holds_open_def
  proof (intro allI impI)
    fix o2 assume o2: "get_open kind2 q = Some o2"
    show "\<exists>step. pj_currentStep q = Some step \<and>
        text_at kind2 (items_after s op) (step_turnId step) (step_stepId step) (of_frameId o2) = Some (of_text o2) \<and>
        of_offset o2 = length (of_text o2) \<and> (\<exists>k \<le> pj_frameOrdinal q. of_frameId o2 = frameId (step_stepId step) (int k))"
    proof (cases "kind2 = kind")
      case True
      then have "o2 = o1\<lparr>of_offset := of_offset o1 + length d, of_text := of_text o1 @ d\<rparr>" using o2 by (simp add: q_def)
      with True ap(4) held assms(3) show ?thesis by (auto simp: q_def simp del: applyOperation.simps)
    next
      case False
      then have p2: "get_open kind2 p = Some o2" using o2 by (simp add: q_def)
      obtain k2 where h2: "text_at kind2 (st_items s) (step_turnId step) (step_stepId step) (of_frameId o2) = Some (of_text o2)"
        "of_offset o2 = length (of_text o2)" "k2 \<le> pj_frameOrdinal p" "of_frameId o2 = frameId (step_stepId step) (int k2)"
        using assms(1,3) p2 unfolding tracks_def holds_open_def by fastforce
      have "of_frameId o2 \<noteq> of_frameId o1" using streams_exclusive [OF h2(1)] held(1) False by metis
      then have "text_at kind2 (items_after s op) (step_turnId step) (step_stepId step) (of_frameId o2) = Some (of_text o2)"
        using ap(5) h2(1) by (simp del: applyOperation.simps)
      with h2 assms(3) show ?thesis by (auto simp: q_def simp del: applyOperation.simps)
    qed
  qed
  moreover have "st_tasks (run_ops s [op]) = st_tasks s" using ap(2) by simp
  ultimately show "tracks q (run_ops s [op])"
    using assms(1) ap(1)
    by (simp add: tracks_def headers_ok_def tools_ok_def tasks_held_def q_def del: applyOperation.simps)
qed

lemma tracks_adopted:
  assumes "tracks p s" "get_open kind p = None" "pj_currentStep p = Some step" "pj_frameOrdinal p \<le> n"
    and "text_at kind (st_items s) (step_turnId step) (step_stepId step) (of_frameId o1) = Some (of_text o1)"
    and "of_offset o1 = length (of_text o1)" "\<exists>k \<le> n. of_frameId o1 = frameId (step_stepId step) (int k)"
  shows "tracks (set_open kind o1 (p\<lparr>pj_frameOrdinal := n\<rparr>)) s"
proof -
  have "holds_open kind2 (st_items s) (set_open kind o1 (p\<lparr>pj_frameOrdinal := n\<rparr>))" for kind2
    unfolding holds_open_def
  proof (intro allI impI)
    fix o2 assume o2: "get_open kind2 (set_open kind o1 (p\<lparr>pj_frameOrdinal := n\<rparr>)) = Some o2"
    show "\<exists>st. pj_currentStep (set_open kind o1 (p\<lparr>pj_frameOrdinal := n\<rparr>)) = Some st \<and>
        text_at kind2 (st_items s) (step_turnId st) (step_stepId st) (of_frameId o2) = Some (of_text o2) \<and>
        of_offset o2 = length (of_text o2) \<and>
        (\<exists>k \<le> pj_frameOrdinal (set_open kind o1 (p\<lparr>pj_frameOrdinal := n\<rparr>)). of_frameId o2 = frameId (step_stepId st) (int k))"
    proof (cases "kind2 = kind")
      case True
      with o2 assms show ?thesis by simp
    next
      case False
      then have "get_open kind2 p = Some o2" using o2 by (auto simp: get_open_def set_open_def split: stream_kind.splits)
      with assms(1,3) obtain k2 where "text_at kind2 (st_items s) (step_turnId step) (step_stepId step) (of_frameId o2) = Some (of_text o2)"
        "of_offset o2 = length (of_text o2)" "k2 \<le> pj_frameOrdinal p" "of_frameId o2 = frameId (step_stepId step) (int k2)"
        unfolding tracks_def holds_open_def by fastforce
      with assms(3,4) show ?thesis by (auto intro: order_trans)
    qed
  qed
  with assms(1) show ?thesis by (simp add: tracks_def headers_ok_def tools_ok_def tasks_held_def)
qed

text \<open>A new frame of the step, under a number above every number the projector knows of.\<close>

lemma tracks_fresh:
  assumes "tracks p s" "pj_currentStep p = Some step" "pj_frameOrdinal p < n" "turn_like tid"
    and "frame_id f = frameId (step_stepId step) (int n)" "frame_ok (step_stepId step) f"
  shows "places s [FrameUpsert tid (step_stepId step) f]" "tracks p (run_ops s [FrameUpsert tid (step_stepId step) f])"
proof -
  let ?op = "FrameUpsert tid (step_stepId step) f"
  have tidy: "tidy (st_items s)" using assms(1) by (simp add: tracks_def)
  have pl: "steady ?op" using assms(4,6) by (simp add: steady_def is_append_def)
  note one = steady_op [OF tidy pl]
  show "places s [?op]" using one(3) by simp
  have "holds_open kind2 (items_after s ?op) p" for kind2
    unfolding holds_open_def
  proof (intro allI impI)
    fix o2 assume "get_open kind2 p = Some o2"
    with assms(1,2) obtain k2 where h: "text_at kind2 (st_items s) (step_turnId step) (step_stepId step) (of_frameId o2) = Some (of_text o2)"
      "of_offset o2 = length (of_text o2)" "k2 \<le> pj_frameOrdinal p" "of_frameId o2 = frameId (step_stepId step) (int k2)"
      unfolding tracks_def holds_open_def by fastforce
    then have "of_frameId o2 \<noteq> frame_id f" using assms(3,5) by simp
    then have "text_at kind2 (items_after s ?op) (step_turnId step) (step_stepId step) (of_frameId o2) = Some (of_text o2)"
      unfolding frame_upsert_text [OF tidy] using h(1) by simp
    with h assms(2) show "\<exists>step. pj_currentStep p = Some step \<and>
        text_at kind2 (items_after s ?op) (step_turnId step) (step_stepId step) (of_frameId o2) = Some (of_text o2) \<and>
        of_offset o2 = length (of_text o2) \<and> (\<exists>k \<le> pj_frameOrdinal p. of_frameId o2 = frameId (step_stepId step) (int k))"
      by (auto simp del: applyOperation.simps)
  qed
  moreover have "tasks_held p (run_ops s [?op])" using assms(1) one(2) by (simp add: tracks_def tasks_held_def)
  ultimately show "tracks p (run_ops s [?op])" using assms(1) one(1) by (simp add: tracks_def del: applyOperation.simps)
qed

lemma tracks_opened:
  assumes "tracks p s" "get_open kind p = None" "pj_currentStep p = Some step" "pj_frameOrdinal p < n"
  defines "fid \<equiv> frameId (step_stepId step) (int n)"
  defines "op \<equiv> FrameUpsert (step_turnId step) (step_stepId step) (stream_frame kind fid [])"
  shows "places s [op]"
    "tracks (set_open kind \<lparr>of_frameId = fid, of_offset = 0, of_text = []\<rparr> (p\<lparr>pj_frameOrdinal := n\<rparr>)) (run_ops s [op])"
proof -
  have tidy: "tidy (st_items s)" and like: "turn_like (step_turnId step)"
    using assms(1,3) by (auto simp: tracks_def headers_ok_def)
  have fid: "is_stream_id (step_stepId step) fid" by (auto simp: fid_def is_stream_id_iff)
  have fresh: "frame_id (stream_frame kind fid []) = frameId (step_stepId step) (int n)"
    "frame_ok (step_stepId step) (stream_frame kind fid [])" using fid by (simp_all add: fid_def)
  note new = tracks_fresh [OF assms(1,3,4) like fresh, folded op_def]
  show "places s [op]" by (rule new(1))
  have "text_at kind (items_after s op) (step_turnId step) (step_stepId step) fid = Some []"
    unfolding op_def frame_upsert_text [OF tidy] by simp
  then have "text_at kind (st_items (run_ops s [op])) (step_turnId step) (step_stepId step) fid = Some []" by simp
  then show "tracks (set_open kind \<lparr>of_frameId = fid, of_offset = 0, of_text = []\<rparr> (p\<lparr>pj_frameOrdinal := n\<rparr>)) (run_ops s [op])"
    using tracks_adopted [OF new(2) assms(2,3), of n "\<lparr>of_frameId = fid, of_offset = 0, of_text = []\<rparr>"] assms(4)
    by (auto simp: fid_def simp del: run_ops_simps)
qed

text \<open>Whichever way a delta finds its stream, the stream is then open and held.\<close>

lemma open_stream_tracks:
  assumes "tracks p s" "pj_currentStep p = Some step"
    and "\<And>fid. is_stream_id (step_stepId step) fid \<Longrightarrow>
           text_at kind (st_items s) (step_turnId step) (step_stepId step) fid = text_at kind items (step_turnId step) (step_stepId step) fid"
    and "tidy items"
    and "open_stream (store_lookups view items) (step_turnId step) (step_stepId step) kind p = (q, o1, ops)"
  shows "places s ops \<and> tracks (set_open kind o1 q) (run_ops s ops) \<and> pj_currentStep q = Some step"
proof (cases "get_open kind p")
  case (Some o2)
  then have "q = p" "o1 = o2" "ops = []" using assms(5) by (simp_all add: open_stream_def)
  moreover have "set_open kind o2 p = p" using Some by (cases kind) (simp_all add: get_open_def set_open_def)
  ultimately show ?thesis using assms(1,2) by simp
next
  case None
  note closed = None
  obtain r a where adopt: "adoptStreamFrame (store_lookups view items) (step_turnId step) (step_stepId step) kind p = (r, a)"
    by (cases "adoptStreamFrame (store_lookups view items) (step_turnId step) (step_stepId step) kind p")
  have r: "r = p\<lparr>pj_frameOrdinal := pj_frameOrdinal r\<rparr>" "pj_frameOrdinal p \<le> pj_frameOrdinal r"
    using adopt scan_ordinals_ge by (auto simp: adoptStreamFrame_def split: option.splits if_splits)
  show ?thesis
  proof (cases a)
    case (Some o2)
    then have res: "q = r" "o1 = o2" "ops = []" using assms(5) closed adopt by (simp_all add: open_stream_def)
    obtain fs where fs: "frames_at items (step_turnId step) (step_stepId step) = Some fs" "newest_stream kind (rev fs) = Some o2"
      "pj_frameOrdinal r = scan_ordinals fs (pj_frameOrdinal p)"
      using adopt Some by (auto simp: adoptStreamFrame_def store_lookups_def split: option.splits if_splits)
    note found = adopted_stream(1,2) [OF assms(4) fs(1,2)] adopted_stream(3) [OF assms(4) fs(1,2), of "pj_frameOrdinal p"]
    then obtain k where "of_frameId o2 = frameId (step_stepId step) (int k)" by blast
    then have "is_stream_id (step_stepId step) (of_frameId o2)" by (auto simp: is_stream_id_iff)
    then have "text_at kind (st_items s) (step_turnId step) (step_stepId step) (of_frameId o2) = Some (of_text o2)"
      using assms(3) found(1) by simp
    from tracks_adopted [OF assms(1) closed assms(2) r(2) this found(2)] found(3) fs(3)
    have "tracks (set_open kind o2 (p\<lparr>pj_frameOrdinal := pj_frameOrdinal r\<rparr>)) s" by simp
    then show ?thesis using res r(1) assms(2) by (metis places.simps(1) projector.select_convs(2) projector.surjective
        projector.update_convs(4) run_ops_simps(1))
  next
    case None
    then have res: "q = r\<lparr>pj_frameOrdinal := pj_frameOrdinal r + 1\<rparr>"
      "o1 = \<lparr>of_frameId = frameId (step_stepId step) (int (pj_frameOrdinal r + 1)), of_offset = 0, of_text = []\<rparr>"
      "ops = [FrameUpsert (step_turnId step) (step_stepId step) (stream_frame kind (frameId (step_stepId step) (int (pj_frameOrdinal r + 1))) [])]"
      using assms(5) closed adopt by (simp_all add: open_stream_def Let_def)
    have q: "q = p\<lparr>pj_frameOrdinal := pj_frameOrdinal r + 1\<rparr>" unfolding res(1) by (subst r(1)) simp
    have less: "pj_frameOrdinal p < pj_frameOrdinal r + 1" using r(2) by simp
    note op = tracks_opened [OF assms(1) closed assms(2) less]
    show ?thesis using op assms(2) unfolding q res(2,3) by simp
  qed
qed

lemma onTextDelta_tracks:
  assumes "tracks p s" "\<not> streaming p \<or> map_option step_turnId (pj_currentStep p) = Some (turnId n)"
    and "onTextDelta (store_lookups view (st_items s)) now n kind d p = (q, ops)"
  shows "places s ops \<and> tracks q (run_ops s ops)"
proof -
  let ?lk = "store_lookups view (st_items s)"
  obtain p1 step begun where e: "ensureStep ?lk now (turnId n) p = (p1, step, begun)" by (metis prod_cases3)
  note en = ensureStep_tracks [OF assms(1) turn_like_turnId assms(2) e]
  have tidy: "tidy (st_items s)" using assms(1) by (simp add: tracks_def)
  obtain p2 o1 opened where o: "open_stream ?lk (step_turnId step) (step_stepId step) kind p1 = (p2, o1, opened)" by (metis prod_cases3)
  have op: "places (run_ops s begun) opened \<and> tracks (set_open kind o1 p2) (run_ops (run_ops s begun) opened) \<and> pj_currentStep p2 = Some step"
    by (rule open_stream_tracks [OF en(2,4) quiet_run(4) [OF tidy en(1)] tidy o])
  let ?op = "Append \<lparr>append_target = TargetFrame (step_turnId step) (step_stepId step) (of_frameId o1),
                     append_offset = int (of_offset o1), append_text = d\<rparr>"
  have res: "ops = begun @ opened @ [?op]"
    "q = set_open kind (o1\<lparr>of_offset := of_offset o1 + length d, of_text := of_text o1 @ d\<rparr>) (set_open kind o1 p2)"
    using assms(3) e o en(5) by (simp_all add: onTextDelta_def)
  have "get_open kind (set_open kind o1 p2) = Some o1" "pj_currentStep (set_open kind o1 p2) = Some step" using op by simp_all
  note ap = tracks_append [OF conjunct1 [OF conjunct2 [OF op]] this, where d = d]
  have "places (run_ops s begun) (opened @ [?op]) \<and> tracks q (run_ops (run_ops s begun) (opened @ [?op]))"
    unfolding res(2) by (rule tracks_then [OF conjunct1 [OF op] conjunct1 [OF conjunct2 [OF op]] ap])
  then show ?thesis unfolding res(1) using tracks_then [OF en(3,2)] by blast
qed

end
