(* ===== verification/ProjectorSteps.thy ===== *)
theory ProjectorSteps
  imports ProjectorTracks
begin

text \<open>
  Every handler of the projector keeps \<open>tracks\<close>, and so does every event that comes in the engine's order:
  the batch is placed in the producer's store, and what is open afterwards is in the store letter by letter.
\<close>

definition kept :: "agent_state \<Rightarrow> projected \<Rightarrow> bool" where
  "kept s r \<longleftrightarrow> places s (snd r) \<and> tracks (fst r) (run_ops s (snd r))"

lemma kept_quiet:
  "tracks p s \<Longrightarrow> list_all quiet ops \<Longrightarrow> same_streams p q \<Longrightarrow> headers_ok q \<Longrightarrow> tools_ok q \<Longrightarrow> pj_tasks q = pj_tasks p \<Longrightarrow>
   kept s (q, ops)"
  unfolding kept_def using tracks_quiet by simp

lemma kept_closed:
  "tracks p s \<Longrightarrow> list_all steady ops \<Longrightarrow> pj_openText q = None \<Longrightarrow> pj_openThinking q = None \<Longrightarrow> headers_ok q \<Longrightarrow> tools_ok q \<Longrightarrow>
   pj_tasks q = pj_tasks p \<Longrightarrow> kept s (q, ops)"
  unfolding kept_def using tracks_closed by simp

lemma tracks_parts:
  assumes "tracks p s"
  shows "headers_ok p" "tools_ok p" "tidy (st_items s)" "tasks_held p s"
  using assms by (simp_all add: tracks_def)

lemma headers_ok_same: "headers_ok p \<Longrightarrow> pj_currentStep q = pj_currentStep p \<Longrightarrow> pj_currentTurn q = pj_currentTurn p \<Longrightarrow> headers_ok q"
  by (simp add: headers_ok_def)

lemma tools_ok_same: "tools_ok p \<Longrightarrow> pj_toolFrames q = pj_toolFrames p \<Longrightarrow> tools_ok q"
  by (simp add: tools_ok_def)

text \<open>Handlers that change nothing the streams, the tools and the tasks depend on.\<close>

definition same_core :: "projector \<Rightarrow> projector \<Rightarrow> bool" where
  "same_core p q \<longleftrightarrow>
     pj_currentTurn q = pj_currentTurn p \<and> pj_currentStep q = pj_currentStep p \<and> pj_frameOrdinal q = pj_frameOrdinal p \<and>
     pj_openText q = pj_openText p \<and> pj_openThinking q = pj_openThinking p \<and> pj_toolFrames q = pj_toolFrames p \<and>
     pj_tasks q = pj_tasks p"

lemma same_core_refl: "same_core p p"
  by (simp add: same_core_def)

lemma kept_core: "tracks p s \<Longrightarrow> list_all quiet ops \<Longrightarrow> same_core p q \<Longrightarrow> kept s (q, ops)"
  by (rule kept_quiet) (auto simp: same_core_def same_streams_def dest: tracks_parts intro: headers_ok_same tools_ok_same)

lemma tracks_core: "tracks p s \<Longrightarrow> same_core p q \<Longrightarrow> tracks q s"
  using kept_core [of p s "[]" q] by (simp add: kept_def)

lemma kept_then:
  assumes "places s xs" "tracks p (run_ops s xs)" "kept (run_ops s xs) (q, ys)"
  shows "kept s (q, xs @ ys)"
  using tracks_then [OF assms(1,2), of ys q] assms(3) by (simp add: kept_def)

section \<open>Turns and steps\<close>

lemma steady_ops [simp]:
  "steady (TurnUpsert h) \<longleftrightarrow> turn_like (turn_turnId h)"
  "steady (StepUpsert tid h2) \<longleftrightarrow> turn_like tid"
  "steady (FrameUpsert tid sid f) \<longleftrightarrow> turn_like tid \<and> frame_ok sid f"
  by (simp_all add: steady_def is_append_def)

lemma flush_steady:
  assumes "tracks p s"
  shows "list_all steady (flush_ops p)"
proof -
  have one: "turn_like (step_turnId st) \<and> is_stream_id (step_stepId st) (of_frameId o1)"
    if "pj_currentStep p = Some st" "get_open kind p = Some o1" for kind st o1
    using assms that unfolding tracks_def holds_open_def headers_ok_def is_stream_id_iff by fastforce
  show ?thesis
    using one [of _ StreamText] one [of _ StreamThought]
    by (auto simp: flush_ops_def get_open_def text_frame_of_def thinking_frame_of_def split: option.split)
qed

lemma kept_turn_started: "tracks p s \<Longrightarrow> kept s (onTurnStarted now n og prompt p)"
  unfolding onTurnStarted_def Let_def
  by (rule kept_closed) (auto simp: headers_ok_def tracks_def tools_ok_def)

lemma kept_step_started: "tracks p s \<Longrightarrow> kept s (onStepStarted now n step p)"
  unfolding onStepStarted_def Let_def
  by (rule kept_closed) (auto simp: headers_ok_def tracks_def tools_ok_def step_base_def)

lemma record_usage_core: "record_usage tid u p = p\<lparr>pj_stepUsageByTurn := pj_stepUsageByTurn (record_usage tid u p)\<rparr>"
  by (simp add: record_usage_def split: option.split)

lemma kept_step_completed: "tracks p s \<Longrightarrow> kept s (onStepCompleted now e p)"
  unfolding onStepCompleted_def Let_def flushOpenFrames_def prod.case
  by (subst record_usage_core, rule kept_closed)
    (auto simp: headers_ok_def tracks_def tools_ok_def step_base_def flush_steady record_usage_def split: option.splits)

lemma kept_step_finished: "tracks p s \<Longrightarrow> kept s (onStepFinished now n step reason message p)"
  unfolding onStepFinished_def Let_def flushOpenFrames_def prod.case
  by (rule kept_closed)
    (auto simp: headers_ok_def tracks_def tools_ok_def step_base_def flush_steady split: option.splits)

lemma kept_turn_ended:
  assumes "tracks p s"
  shows "kept s (onTurnEnded now e p)"
proof -
  obtain p2 closed where c: "close_step now (p\<lparr>pj_openText := None, pj_openThinking := None\<rparr>) = (p2, closed)" by fastforce
  obtain p3 usage where u: "takeTurnUsage (turnId (te_turnId e)) p2 = (p3, usage)" by fastforce
  have p2: "list_all steady closed" "pj_openText p2 = None" "pj_openThinking p2 = None" "tools_ok p2" "pj_tasks p2 = pj_tasks p"
    using c assms by (auto simp: close_step_def Let_def tracks_def tools_ok_def headers_ok_def split: option.splits if_splits)
  have p3: "pj_openText p3 = None" "pj_openThinking p3 = None" "tools_ok p3" "pj_tasks p3 = pj_tasks p"
    using u p2 by (auto simp: takeTurnUsage_def Let_def tools_ok_def split: option.splits if_splits)
  show ?thesis
    unfolding onTurnEnded_def Let_def flushOpenFrames_def prod.case c u
    by (rule kept_closed [OF assms]) (use p2 p3 flush_steady [OF assms] in \<open>auto simp: headers_ok_def tools_ok_def\<close>)
qed

lemma kept_retrying:
  assumes "tracks p s" "in_order p (EvStepRetrying e)"
  shows "kept s (onStepRetrying e p)"
  unfolding onStepRetrying_def Let_def
  by (rule kept_quiet [OF assms(1)])
    (use assms in \<open>auto simp: in_order_def Let_def headers_ok_def tools_ok_def tracks_def same_streams_def step_base_def\<close>)

section \<open>Tools\<close>

lemma frame_id_tool [simp]: "frame_id (FTool f) = tc_frameId f"
  by simp

lemma tools_ok_set: "tools_ok p \<Longrightarrow> tool_ok r \<Longrightarrow> pj_toolFrames q = jm_set i r (pj_toolFrames p) \<Longrightarrow> tools_ok q"
  by (auto simp: tools_ok_def split: if_splits)

lemma tool_hit_ok:
  assumes "tracks p s" "tool_hit (store_lookups view (st_items s)) i p = (q, hit)"
  shows "tracks q s" "q = p\<lparr>pj_toolFrames := pj_toolFrames q\<rparr>" "\<And>r. hit = Some r \<Longrightarrow> tool_ok r"
proof -
  have tidy: "tidy (st_items s)" by (rule tracks_parts(3) [OF assms(1)])
  have "tools_ok q \<and> q = p\<lparr>pj_toolFrames := pj_toolFrames q\<rparr> \<and> (\<forall>r. hit = Some r \<longrightarrow> tool_ok r)"
    using assms(2) tracks_parts(2) [OF assms(1)] adopted_tool [OF tidy]
    by (auto simp: tool_hit_def adoptToolFrame_def store_lookups_def tools_ok_def tool_ok_def split: option.splits if_splits)
  then have ok: "tools_ok q" and q: "q = p\<lparr>pj_toolFrames := pj_toolFrames q\<rparr>" and r: "\<And>r. hit = Some r \<Longrightarrow> tool_ok r" by blast+
  show "q = p\<lparr>pj_toolFrames := pj_toolFrames q\<rparr>" by (rule q)
  show "\<And>r. hit = Some r \<Longrightarrow> tool_ok r" by (rule r)
  have "kept s (p\<lparr>pj_toolFrames := pj_toolFrames q\<rparr>, [])"
    by (rule kept_quiet [OF assms(1)])
      (use ok tracks_parts(1) [OF assms(1)] in \<open>auto simp: same_streams_def headers_ok_def tools_ok_def\<close>)
  with q show "tracks q s" by (simp add: kept_def)
qed

lemma kept_put_tool:
  assumes "tracks p s" "tool_ok r" "tc_frameId f = tc_frameId (tr_frame r)" "same_core p p2"
  shows "kept s (put_tool i r f p2)" "list_all quiet more_ops \<Longrightarrow> same_core (fst (put_tool i r f p2)) q \<Longrightarrow>
    kept s (q, snd (put_tool i r f p2) @ more_ops)"
proof -
  have rok: "tool_ok (r\<lparr>tr_frame := f\<rparr>)" using assms(2,3) by (simp add: tool_ok_def)
  have p2: "tracks p2 s" by (rule tracks_core [OF assms(1,4)])
  have *: "kept s (q, snd (put_tool i r f p2) @ ops)" if "list_all quiet ops" "same_core (fst (put_tool i r f p2)) q" for q ops
  proof (rule kept_quiet [OF p2])
    show "list_all quiet (snd (put_tool i r f p2) @ ops)"
      using assms(2,3) that(1) by (simp add: put_tool_def tool_ok_def)
    show "tools_ok q"
      by (rule tools_ok_set [OF tracks_parts(2) [OF p2] rok]) (use that(2) in \<open>simp add: put_tool_def same_core_def\<close>)
    show "same_streams p2 q" "pj_tasks q = pj_tasks p2"
      using that(2) by (simp_all add: same_core_def put_tool_def same_streams_def)
    show "headers_ok q"
      by (rule headers_ok_same [OF tracks_parts(1) [OF p2]]) (use that(2) in \<open>simp_all add: same_core_def put_tool_def\<close>)
  qed
  from * [of "[]" "fst (put_tool i r f p2)"] show "kept s (put_tool i r f p2)" by (simp add: same_core_def kept_def)
  show "list_all quiet more_ops \<Longrightarrow> same_core (fst (put_tool i r f p2)) q \<Longrightarrow> kept s (q, snd (put_tool i r f p2) @ more_ops)"
    by (rule *)
qed

lemma kept_tool_progress:
  assumes "tracks p s"
  shows "kept s (onToolProgress (store_lookups view (st_items s)) i u p)"
proof -
  obtain q hit where h: "tool_hit (store_lookups view (st_items s)) i p = (q, hit)" by fastforce
  note ok = tool_hit_ok [OF assms h]
  show ?thesis
  proof (cases hit)
    case None
    with h ok(1) show ?thesis by (simp add: onToolProgress_def kept_def)
  next
    case (Some r)
    have "same_core q (q\<lparr>pj_ref := pj_ref q + 1\<rparr>)" by (simp add: same_core_def)
    from kept_put_tool(1) [OF ok(1) ok(3) [OF Some] _ this] h Some show ?thesis by (simp add: onToolProgress_def)
  qed
qed

lemma kept_tool_result:
  assumes "tracks p s"
  shows "kept s (onToolResult (store_lookups view (st_items s)) now i output err p)"
proof -
  obtain q hit where h: "tool_hit (store_lookups view (st_items s)) i p = (q, hit)" by fastforce
  note ok = tool_hit_ok [OF assms h]
  show ?thesis
  proof (cases hit)
    case None
    with h ok(1) show ?thesis by (simp add: onToolResult_def kept_def)
  next
    case (Some r)
    let ?e = "err = Some True"
    let ?f = "(tr_frame r)\<lparr>tc_state := (if ?e then ToolError else ToolDone), tc_output := output,
                            tc_error := (if ?e then js_string_of output else None)\<rparr>"
    obtain p2 ops where put: "put_tool i r ?f q = (p2, ops)" by fastforce
    obtain p3 todo where td: "todo_ops now ?e ?f p2 = (p3, todo)" by fastforce
    have "list_all quiet todo \<and> same_core p2 p3"
      using td by (auto simp: todo_ops_def same_core_def split: if_splits option.splits)
    with kept_put_tool(2) [OF ok(1) ok(3) [OF Some] _ same_core_refl, where f = ?f and i = i and more_ops = todo and q = p3] put
    have "kept s (p3, ops @ todo)" by simp
    then show ?thesis using h Some put td by (simp add: onToolResult_def)
  qed
qed

lemma kept_ensured_tool:
  assumes "tracks p s" "\<not> streaming p \<or> map_option step_turnId (pj_currentStep p) = Some tid" "turn_like tid"
    and "ensureStep lk now tid p = (q, step, begun)" "same_core q q2" "plain_call i"
    and "tc_frameId f = step_stepId step @ ''.'' @ i"
  shows "kept s (q2\<lparr>pj_toolFrames := jm_set i \<lparr>tr_turnId = tid, tr_stepId = step_stepId step, tr_frame = f\<rparr> (pj_toolFrames q2)\<rparr>,
                 begun @ [FrameUpsert tid (step_stepId step) (FTool f)])"
proof -
  note en = ensureStep_tracks [OF assms(1,3,2,4)]
  have q2: "tracks q2 (run_ops s begun)" by (rule tracks_core [OF en(2) assms(5)])
  have ok: "tool_ok \<lparr>tr_turnId = tid, tr_stepId = step_stepId step, tr_frame = f\<rparr>"
    using assms(3,6,7) plain_call_frame [of "step_stepId step" i] by (simp add: tool_ok_def)
  show ?thesis
  proof (rule kept_then [OF en(3,2)], rule kept_quiet [OF q2])
    show "tools_ok (q2\<lparr>pj_toolFrames := jm_set i \<lparr>tr_turnId = tid, tr_stepId = step_stepId step, tr_frame = f\<rparr> (pj_toolFrames q2)\<rparr>)"
      by (rule tools_ok_set [OF tracks_parts(2) [OF q2] ok]) simp
    show "headers_ok (q2\<lparr>pj_toolFrames := jm_set i \<lparr>tr_turnId = tid, tr_stepId = step_stepId step, tr_frame = f\<rparr> (pj_toolFrames q2)\<rparr>)"
      by (rule headers_ok_same [OF tracks_parts(1) [OF q2]]) simp_all
  qed (use ok in \<open>simp_all add: tool_ok_def same_streams_def\<close>)
qed

lemma kept_tool_delta:
  assumes "tracks p s" "in_order p (EvToolCallDelta n i name part)"
  shows "kept s (onToolCallDelta (store_lookups view (st_items s)) now n i name part p)"
proof (cases "jm_get (pj_toolFrames p) i")
  case None
  obtain q step begun where e: "ensureStep (store_lookups view (st_items s)) now (turnId n) p = (q, step, begun)" by (metis prod_cases3)
  have ord: "\<not> streaming p \<or> map_option step_turnId (pj_currentStep p) = Some (turnId n)" "plain_call i"
    using assms(2) by (auto simp: in_order_def Let_def)
  from kept_ensured_tool [OF assms(1) ord(1) turn_like_turnId e same_core_refl ord(2)] None e
  show ?thesis by (simp add: onToolCallDelta_def Let_def)
next
  case (Some r)
  then have ok: "tool_ok r" using tracks_parts(2) [OF assms(1)] by (simp add: tools_ok_def)
  let ?f = "(tr_frame r)\<lparr>tc_inputText := Some ((case tc_inputText (tr_frame r) of Some x \<Rightarrow> x | None \<Rightarrow> [])
              @ (case part of Some x \<Rightarrow> x | None \<Rightarrow> []))\<rparr>"
  from kept_put_tool(1) [OF assms(1) ok _ same_core_refl, of ?f i] Some
  show ?thesis by (simp add: onToolCallDelta_def Let_def put_tool_def)
qed

lemma kept_tool_started:
  assumes "tracks p s" "in_order p (EvToolCallStarted c)"
  shows "kept s (onToolCallStarted json_parse (store_lookups view (st_items s)) now c p)"
proof -
  obtain q step begun where e: "ensureStep (store_lookups view (st_items s)) now (turnId (cs_turnId c)) p = (q, step, begun)"
    by (metis prod_cases3)
  obtain input ref where a: "parseToolArgs json_parse (pj_ref q) (cs_args c) = (input, ref)" by fastforce
  have ord: "\<not> streaming p \<or> map_option step_turnId (pj_currentStep p) = Some (turnId (cs_turnId c))" "plain_call (cs_toolCallId c)"
    using assms(2) by (auto simp: in_order_def Let_def)
  have "same_core q (q\<lparr>pj_ref := ref\<rparr>)" by (simp add: same_core_def)
  from kept_ensured_tool [OF assms(1) ord(1) turn_like_turnId e this ord(2)]
  show ?thesis unfolding onToolCallStarted_def Let_def e a prod.case by simp
qed

section \<open>Tasks\<close>

lemma kept_task_then:
  assumes "tracks p s" "list_all quiet ops" "pj_tasks q = jm_set (task_taskId t) t (pj_tasks p)"
    and "same_core p (q\<lparr>pj_tasks := pj_tasks p\<rparr>)"
  shows "kept s (q, TaskUpsert t # ops)"
proof -
  let ?p = "p\<lparr>pj_tasks := jm_set (task_taskId t) t (pj_tasks p)\<rparr>"
  note up = tracks_task [OF assms(1), of t]
  have "same_core ?p q" using assms(3,4) by (simp add: same_core_def)
  then have "kept (run_ops s [TaskUpsert t]) (q, ops)" by (rule kept_core [OF up(2) assms(2)])
  from kept_then [OF up this] show ?thesis by simp
qed

lemma ref_not_turn [simp]: "\<not> turn_like (CHR ''r'' # i)"
  by (simp add: turn_like_def)

lemma kept_lifecycle: "tracks p s \<Longrightarrow> onTaskLifecycle now begins info p = Inr r \<Longrightarrow> kept s r"
  by (auto simp: onTaskLifecycle_def Let_def project_upsertTask_def lifecycle_task_def taskref_op_def same_core_def
      split: sum.splits if_splits intro!: kept_task_then)

lemma kept_shell_started: "tracks p s \<Longrightarrow> kept s (onShellStarted now c i p)"
  by (auto simp: onShellStarted_def Let_def project_upsertTask_def running_shell_task_def taskref_op_def same_core_def
      intro!: kept_task_then)

lemma kept_shell_completed: "tracks p s \<Longrightarrow> kept s (onShellCompleted now c i err p)"
  by (auto simp: onShellCompleted_def shellTaskId_def Let_def project_upsertTask_def completed_shell_task_def taskref_op_def
      same_core_def intro!: kept_task_then)

lemma kept_subagent_run: "tracks p s \<Longrightarrow> kept s (onSubagentRun now e p)"
  by (auto simp: onSubagentRun_def Let_def project_upsertTask_def run_task_def same_core_def intro!: kept_task_then)

lemma kept_append:
  "tracks p s \<Longrightarrow> jm_get (pj_tasks p) i = Some t \<Longrightarrow>
   kept s (p\<lparr>pj_tasks := jm_set i (t\<lparr>task_outputTail := task_outputTail t @ d\<rparr>) (pj_tasks p)\<rparr>,
     [Append \<lparr>append_target = TargetTask i, append_offset = int (length (task_outputTail t)), append_text = d\<rparr>])"
  unfolding kept_def fst_conv snd_conv by (intro conjI tracks_task_append)

lemma kept_shell_output:
  assumes "tracks p s"
  shows "kept s (onShellOutput now c carried chunk p)"
proof -
  obtain p1 i where sh: "shellTaskId c carried p = (p1, i)" by fastforce
  have core: "same_core p p1" using sh by (auto simp: shellTaskId_def Let_def same_core_def)
  have p1: "tracks p1 s" by (rule tracks_core [OF assms core])
  show ?thesis
  proof (cases "chunk = None \<or> chunk = Some []")
    case True
    then have "onShellOutput now c carried chunk p = (p1, [])" using sh by (auto simp: onShellOutput_def)
    with p1 show ?thesis by (simp add: kept_def)
  next
    case False
    then obtain x where x: "chunk = Some x" "x \<noteq> []" by auto
    show ?thesis
    proof (cases "jm_get (pj_tasks p1) i")
      case None
      let ?t = "running_shell_task now i None"
      let ?q = "p1\<lparr>pj_tasks := jm_set i ?t (pj_tasks p1), pj_ref := pj_ref p1 + 1\<rparr>"
      let ?ref = "snd (taskref_op now i p1)"
      have "kept s (?q, TaskUpsert ?t # ?ref)"
        by (rule kept_task_then [OF p1]) (simp_all add: taskref_op_def running_shell_task_def same_core_def)
      then have q: "places s (TaskUpsert ?t # ?ref)" "tracks ?q (run_ops s (TaskUpsert ?t # ?ref))"
        by (simp_all only: kept_def fst_conv snd_conv)
      have "jm_get (pj_tasks ?q) i = Some ?t" by simp
      from kept_then [OF q kept_append [OF q(2) this, of x]] sh x None
      show ?thesis by (simp add: onShellOutput_def project_upsertTask_def taskref_op_def Let_def)
    next
      case (Some t)
      from kept_append [OF p1 Some, of x] sh x Some show ?thesis by (simp add: onShellOutput_def)
    qed
  qed
qed

lemma kept_subagent_spawned:
  assumes "tracks p s"
  shows "kept s (onSubagentSpawned (store_lookups view (st_items s)) now e p)"
proof -
  obtain p1 task where up: "project_upsertTask (sn_subagentId e) (spawned_task now e) p = (p1, task)" by fastforce
  have "kept s (p1, [TaskUpsert task])"
    by (rule kept_task_then [OF assms]) (use up in \<open>auto simp: project_upsertTask_def Let_def spawned_task_def same_core_def\<close>)
  then have p1: "places s [TaskUpsert task]" "tracks p1 (run_ops s [TaskUpsert task])" by (simp_all only: kept_def fst_conv snd_conv)
  have items: "st_items (run_ops s [TaskUpsert task]) = st_items s" using task_upsert(1) by simp
  obtain p2 hit where h: "tool_hit (store_lookups view (st_items s)) (sn_parentToolCallId e) p1 = (p2, hit)" by fastforce
  note ok = tool_hit_ok [OF p1(2), unfolded items, OF h]
  show ?thesis
  proof (cases hit)
    case None
    with ok(1) p1(1) up h show ?thesis by (simp add: onSubagentSpawned_def kept_def del: run_ops_simps places.simps)
  next
    case (Some r)
    let ?old = "(case tc_agentRefs (tr_frame r) of Some o1 \<Rightarrow> obj_val o1 | None \<Rightarrow> [])"
    let ?f = "(tr_frame r)\<lparr>tc_agentRefs := Some (Obj (pj_ref p2) (?old @
        [\<lparr>ar_agentId = sn_subagentId e, ar_role = Some (if sn_swarmIndex e \<noteq> None then RefMember else RefChild)\<rparr>]))\<rparr>"
    let ?q = "p2\<lparr>pj_ref := pj_ref p2 + 1\<rparr>"
    have "same_core p2 ?q" by (simp add: same_core_def)
    from kept_put_tool(1) [OF ok(1) ok(3) [OF Some] _ this, of ?f "sn_parentToolCallId e"]
    have "kept (run_ops s [TaskUpsert task]) (put_tool (sn_parentToolCallId e) r ?f ?q)" by simp
    from kept_then [OF p1(1) ok(1)] this
    have "kept s (fst (put_tool (sn_parentToolCallId e) r ?f ?q), [TaskUpsert task] @ snd (put_tool (sn_parentToolCallId e) r ?f ?q))"
      by simp
    then show ?thesis using up h Some by (simp add: onSubagentSpawned_def Let_def put_tool_def)
  qed
qed

lemma kept_notified:
  assumes "tracks p s"
  shows "kept s (onTaskNotified e p)"
proof (cases "\<exists>step turn. pj_currentStep p = Some step \<and> pj_currentTurn p = Some turn \<and> step_state step = StepRunning \<and> turn_state turn = TurnRunning")
  case False
  then have "onTaskNotified e p = (p, [])" by (auto simp: onTaskNotified_def split: option.split)
  with assms show ?thesis by (simp add: kept_def)
next
  case True
  then obtain step turn where st: "pj_currentStep p = Some step" "pj_currentTurn p = Some turn" "step_state step = StepRunning"
    "turn_state turn = TurnRunning" by blast
  let ?n = "pj_frameOrdinal p + 1"
  let ?f = "FText \<lparr>tf_frameId = frameId (step_stepId step) (int ?n), tf_role = RoleUser,
              tf_text = js_trim (tn_title e @ [CHR 0x0A] @ tn_body e), tf_attachmentIds = None, tf_taskId = Some (tn_sourceId e)\<rparr>"
  have like: "turn_like (turn_turnId turn)" using tracks_parts(1) [OF assms] st(2) by (simp add: headers_ok_def)
  have f: "frame_id ?f = frameId (step_stepId step) (int ?n)" "frame_ok (step_stepId step) ?f"
    by (simp_all add: is_stream_id_iff) (metis of_nat_Suc)
  have less: "pj_frameOrdinal p < ?n" by simp
  note new = tracks_fresh [OF assms st(1) less like f]
  have "kept (run_ops s [FrameUpsert (turn_turnId turn) (step_stepId step) ?f]) (p\<lparr>pj_frameOrdinal := ?n\<rparr>, [])"
    by (rule kept_quiet [OF new(2)])
      (use tracks_parts(1,2) [OF assms] in \<open>simp_all add: same_streams_def headers_ok_def tools_ok_def\<close>)
  from kept_then [OF new this] st show ?thesis by (simp add: onTaskNotified_def)
qed

section \<open>Modes, markers and prompts\<close>

lemma not_live_turn [simp]: "\<not> turn_like (CHR ''l'' # i)"
  by (simp add: turn_like_def)

lemma kept_status: "tracks p s \<Longrightarrow> kept s (onAgentStatusUpdated e p)"
  unfolding onAgentStatusUpdated_def Let_def by (rule kept_core) (auto simp: same_core_def)

lemma kept_activity: "tracks p s \<Longrightarrow> kept s (onAgentActivityUpdated a p)"
  by (auto simp: onAgentActivityUpdated_def same_core_def intro: kept_core split: option.split)

lemma event_marker_quiet:
  fixes now m kvs p
  shows "list_all quiet (snd (event_marker now m kvs p))" "same_core p (fst (event_marker now m kvs p))"
  by (auto simp: event_marker_def alloc_def markerOp_def Let_def same_core_def)

lemma kept_marker: "tracks p s \<Longrightarrow> kept s (event_marker now m kvs p)"
  using event_marker_quiet [where now = now and m = m and kvs = kvs and p = p]
  by (cases "event_marker now m kvs p") (auto intro: kept_core)

lemma kept_notice: "tracks p s \<Longrightarrow> kept s (noticeOp now level kvs p)"
  by (auto simp: noticeOp_def alloc_def intro!: kept_marker elim: tracks_core simp: same_core_def)

lemma kept_plan: "tracks p s \<Longrightarrow> kept s (onPlanRevision now kvs p)"
  using event_marker_quiet [where now = now and m = "''plan.revision''" and kvs = kvs and p = p]
  by (auto simp: onPlanRevision_def Let_def split: prod.split intro!: kept_core)

lemma absorb_quiet: "absorb_prompts stamp is p = (q, ops) \<Longrightarrow> list_all quiet ops \<and> same_core p q"
proof (induction "is" arbitrary: p q ops)
  case (Cons i "is")
  then show ?case by (auto simp: upsertPrompt_def Let_def same_core_def split: prod.splits)
qed (simp add: same_core_refl)

lemma kept_prompts:
  assumes "tracks p s"
  shows "kept s (onPromptSubmitted ps p)" "kept s (onPromptCompleted i reason stamp p)" "kept s (onPromptAborted i stamp p)"
    "kept s (onPromptSteered pt p)"
proof -
  show "kept s (onPromptSubmitted ps p)" "kept s (onPromptCompleted i reason stamp p)" "kept s (onPromptAborted i stamp p)"
    using assms
    by (auto simp: onPromptSubmitted_def onPromptCompleted_def onPromptAborted_def upsertPrompt_def Let_def same_core_def
        intro!: kept_core)
  obtain p1 active where a: "upsertPrompt (pt_activePromptId pt) (active_prompt pt) p = (p1, active)" by fastforce
  obtain p2 ops where b: "absorb_prompts (pt_steeredAt pt) (pt_promptIds pt) p1 = (p2, ops)" by fastforce
  have "same_core p p2" using a absorb_quiet [OF b] by (auto simp: upsertPrompt_def Let_def same_core_def)
  then show "kept s (onPromptSteered pt p)"
    unfolding onPromptSteered_def a Let_def prod.case b by (intro kept_core [OF assms]) (use absorb_quiet [OF b] in simp_all)
qed

section \<open>Interactions\<close>

lemma kept_requested: "tracks p s \<Longrightarrow> mapInteractionRequested x p = Inr r \<Longrightarrow> kept s r"
  by (auto simp: mapInteractionRequested_def Let_def same_core_def split: sum.splits intro!: kept_core)

lemma kept_resolved:
  assumes "tracks p s"
  shows "kept s (mapInteractionResolved (store_lookups view (st_items s)) i response p)"
proof (cases "jm_get (pj_interactions p) i")
  case None
  with assms show ?thesis by (simp add: mapInteractionResolved_def kept_def)
next
  case (Some x)
  let ?p1 = "p\<lparr>pj_interactions := jm_delete i (pj_interactions p)\<rparr>"
  let ?op = "InteractionUpsert (x\<lparr>int_state := mapInteractionEndState (int_interactionKind x) response, int_response := response\<rparr>)"
  have p1: "tracks ?p1 s" by (rule tracks_core [OF assms]) (simp add: same_core_def)
  show ?thesis
  proof (cases "int_toolCallId x")
    case None
    have "kept s (?p1, [?op])" by (rule kept_core [OF p1]) (simp_all add: same_core_refl)
    with None Some show ?thesis by (simp add: mapInteractionResolved_def Let_def)
  next
    case (Some c)
    obtain p2 hit where h: "tool_hit (store_lookups view (st_items s)) c ?p1 = (p2, hit)" by fastforce
    note ok = tool_hit_ok [OF p1 h]
    have k2: "kept s (p2, [?op])" by (rule kept_core [OF ok(1)]) (simp_all add: same_core_refl)
    show ?thesis
    proof (cases hit)
      case None
      with k2 h Some \<open>jm_get (pj_interactions p) i = Some x\<close> show ?thesis by (simp add: mapInteractionResolved_def Let_def)
    next
      case (Some r)
      let ?f = "(tr_frame r)\<lparr>tc_approvalId := Some i\<rparr>"
      have p2: "places s [?op]" "tracks p2 (run_ops s [?op])" using k2 by (simp_all only: kept_def fst_conv snd_conv)
      have "kept (run_ops s [?op]) (fst (put_tool c r ?f p2), snd (put_tool c r ?f p2))"
        using kept_put_tool(1) [OF p2(2) ok(3) [OF Some] _ same_core_refl, of ?f c] by simp
      from kept_then [OF p2 this] h Some \<open>int_toolCallId x = Some c\<close> \<open>jm_get (pj_interactions p) i = Some x\<close>
      show ?thesis by (simp add: mapInteractionResolved_def Let_def put_tool_def)
    qed
  qed
qed

section \<open>One event\<close>

lemma kept_delta:
  assumes "tracks p s" "\<not> streaming p \<or> map_option step_turnId (pj_currentStep p) = Some (turnId n)"
  shows "kept s (onTextDelta (store_lookups view (st_items s)) now n kind d p)"
  using onTextDelta_tracks [OF assms, of view now kind d]
  by (cases "onTextDelta (store_lookups view (st_items s)) now n kind d p") (auto simp: kept_def)

lemmas kept_handlers =
  kept_turn_started kept_turn_ended kept_step_started kept_step_completed kept_step_finished kept_retrying kept_delta
  kept_tool_delta kept_tool_progress kept_tool_started kept_tool_result kept_notified kept_lifecycle kept_shell_started
  kept_shell_output kept_shell_completed kept_subagent_spawned kept_subagent_run kept_status kept_activity kept_marker
  kept_notice kept_plan kept_prompts

lemma kept_event:
  assumes "tracks p s" "in_order p e" "project_event json_parse (store_lookups view (st_items s)) now e p = Inr r"
  shows "kept s r"
proof -
  have none: "kept s (p, [])" using assms(1) by (simp add: kept_def)
  show ?thesis
    using assms none by (cases e) (auto simp: project_event_def in_order_def Let_def intro: kept_handlers)
qed

end
