(* ===== verification/ProjectorProps.thy ===== *)
theory ProjectorProps
  imports ProjectorSteps TranscriptMachine
begin

text \<open>
  A running agent: its projector and the producer's transcript, changed by its events, by the interactions the
  binding carries over and by what the service replays and repairs from disk. The properties of the event
  projector and of the activity view.
\<close>

section \<open>A running agent\<close>

text \<open>Operations from elsewhere that are placed on their own and leave the open frames and the tasks alone.\<close>

definition elsewhere :: "projector \<Rightarrow> transcript_op \<Rightarrow> bool" where
  "elsewhere p op \<longleftrightarrow>
     steady op \<and>
     (case op of
        FrameUpsert _ _ f \<Rightarrow>
          map_option of_frameId (pj_openText p) \<noteq> Some (frame_id f) \<and> map_option of_frameId (pj_openThinking p) \<noteq> Some (frame_id f)
      | _ \<Rightarrow> True)"

inductive live :: "json_reader \<Rightarrow> projector \<Rightarrow> agent_state \<Rightarrow> bool" for json_parse where
  live_begin: "tidy (st_items s) \<Longrightarrow> live json_parse (newProjector ref) s"
| live_event: "live json_parse p s \<Longrightarrow> in_order p e \<Longrightarrow>
    project_event json_parse (store_lookups view (st_items s)) now e p = Inr (q, ops) \<Longrightarrow>
    live json_parse q (fst (apply_loop ops s [] None))"
| live_asked: "live json_parse p s \<Longrightarrow> mapInteractionRequested x p = Inr (q, ops) \<Longrightarrow>
    live json_parse q (fst (apply_loop ops s [] None))"
| live_answered: "live json_parse p s \<Longrightarrow>
    mapInteractionResolved (store_lookups view (st_items s)) i response p = (q, ops) \<Longrightarrow>
    live json_parse q (fst (apply_loop ops s [] None))"
| live_elsewhere: "live json_parse p s \<Longrightarrow> list_all (elsewhere p) ops \<Longrightarrow>
    live json_parse p (fst (apply_loop ops s [] None))"

lemma elsewhere_op:
  assumes "tracks p s" "elsewhere p op"
  shows "tracks p (res_state (applyOperation s op))"
proof -
  have pl: "steady op" and tidy: "tidy (st_items s)" using assms by (simp_all add: elsewhere_def tracks_def)
  note one = steady_op [OF tidy pl]
  have keep: "text_at kind (items_after s op) tid sid (of_frameId o1) = text_at kind (st_items s) tid sid (of_frameId o1)"
    if "get_open kind p = Some o1" for kind o1 tid sid
  proof (cases op)
    case (FrameUpsert t2 s2 f)
    have "frame_id f \<noteq> of_frameId o1"
      using assms(2) that FrameUpsert by (cases kind) (auto simp: elsewhere_def get_open_def)
    then show ?thesis unfolding FrameUpsert frame_upsert_text [OF tidy] by simp
  next
    case (Append a)
    with pl show ?thesis by (simp add: steady_def is_append_def)
  qed (use pl tidy_frames(2) [OF tidy] in \<open>auto simp: steady_def text_at_def simp del: applyOperation.simps\<close>)
  have "holds_open kind (items_after s op) p" for kind
    using assms(1) keep [of kind] unfolding tracks_def holds_open_def by (metis (no_types, lifting))
  with assms(1) one show ?thesis by (simp add: tracks_def tasks_held_def del: applyOperation.simps)
qed

lemma elsewhere_run: "tracks p s \<Longrightarrow> list_all (elsewhere p) ops \<Longrightarrow> tracks p (run_ops s ops)"
  by (induction ops arbitrary: s) (auto simp: elsewhere_op simp del: applyOperation.simps)

lemma live_tracks: "live json_parse p s \<Longrightarrow> tracks p s"
proof (induction rule: live.induct)
  case (live_begin s ref)
  then show ?case by (rule tracks_new)
next
  case (live_event p s e view now q ops)
  then show ?case using kept_event [of p s e json_parse view now "(q, ops)"] by (simp add: apply_loop_state kept_def)
next
  case (live_asked p s x q ops)
  then show ?case using kept_requested [of p s x "(q, ops)"] by (simp add: apply_loop_state kept_def)
next
  case (live_answered p s view i response q ops)
  then show ?case using kept_resolved [of p s view i response] by (simp add: apply_loop_state kept_def)
next
  case (live_elsewhere p s ops)
  then show ?case using elsewhere_run by (simp add: apply_loop_state)
qed

section \<open>The stream of a step\<close>

text \<open>Events one after the other; one that throws changes nothing.\<close>

fun feed :: "json_reader \<Rightarrow> agent_activity option \<Rightarrow> (string \<times> domain_event) list \<Rightarrow> projector \<times> agent_state \<Rightarrow> projector \<times> agent_state" where
  "feed json_parse view [] ps = ps"
| "feed json_parse view ((now, e) # es) (p, s) =
     (case project_event json_parse (store_lookups view (st_items s)) now e p of
        Inl _ \<Rightarrow> feed json_parse view es (p, s)
      | Inr (q, ops) \<Rightarrow> feed json_parse view es (q, fst (apply_loop ops s [] None)))"

lemma feed_append: "feed json_parse view (xs @ ys) ps = feed json_parse view ys (feed json_parse view xs ps)"
  by (induction json_parse view xs ps rule: feed.induct) (auto split: sum.split)

definition delta_of :: "int \<Rightarrow> stream_kind \<times> string \<Rightarrow> domain_event" where
  "delta_of n d = (case d of (StreamText, x) \<Rightarrow> EvAssistantDelta n x | (StreamThought, x) \<Rightarrow> EvThinkingDelta n x)"

definition streamed :: "stream_kind \<Rightarrow> (stream_kind \<times> string) list \<Rightarrow> string" where
  "streamed kind ds = concat (map snd (filter (\<lambda>d. fst d = kind) ds))"

lemma delta_opens:
  assumes "tracks p s" "pj_currentStep p = Some step" "step_turnId step = turnId n"
    and closed: "get_open kind p = None \<Longrightarrow> \<forall>fid. text_at kind (st_items s) (turnId n) (step_stepId step) fid = None"
    and res: "onTextDelta (store_lookups view (st_items s)) now n kind d p = (q, ops)"
  shows "pj_currentStep q = Some step"
    "\<exists>o1. get_open kind q = Some o1 \<and> of_text o1 = (case get_open kind p of Some o2 \<Rightarrow> of_text o2 | None \<Rightarrow> []) @ d"
    "kind2 \<noteq> kind \<Longrightarrow> get_open kind2 q = get_open kind2 p"
    "kind2 \<noteq> kind \<Longrightarrow> \<forall>fid. text_at kind2 (st_items s) (turnId n) (step_stepId step) fid = None \<Longrightarrow>
       \<forall>fid. text_at kind2 (st_items (run_ops s ops)) (turnId n) (step_stepId step) fid = None"
proof -
  let ?lk = "store_lookups view (st_items s)"
  let ?tid = "turnId n" and ?sid = "step_stepId step"
  have tidy: "tidy (st_items s)" using assms(1) by (simp add: tracks_def)
  have e: "ensureStep ?lk now ?tid p = (p, step, [])" using assms(2,3) by (simp add: ensureStep_def Let_def)
  obtain p2 o1 opened where o: "open_stream ?lk ?tid ?sid kind p = (p2, o1, opened)" by (metis prod_cases3)
  let ?op = "Append \<lparr>append_target = TargetFrame ?tid ?sid (of_frameId o1), append_offset = int (of_offset o1), append_text = d\<rparr>"
  have q: "q = set_open kind (o1\<lparr>of_offset := of_offset o1 + length d, of_text := of_text o1 @ d\<rparr>) p2" and ops: "ops = opened @ [?op]"
    using res e o by (simp_all add: onTextDelta_def)
  have open2: "places s opened" "tracks (set_open kind o1 p2) (run_ops s opened)" "pj_currentStep p2 = Some step"
    using open_stream_tracks [OF assms(1,2) _ tidy, of kind view p2 o1 opened] o assms(3) by auto
  have p2: "get_open k2 p2 = get_open k2 p \<and> of_text o1 = (case get_open kind p of Some o2 \<Rightarrow> of_text o2 | None \<Rightarrow> [])
      \<and> (opened = [] \<or> (\<exists>fid. opened = [FrameUpsert ?tid ?sid (stream_frame kind fid [])]))" for k2
  proof (cases "get_open kind p")
    case None
    have "newest_stream kind (rev fs) = None" if fs: "frames_at (st_items s) ?tid ?sid = Some fs" for fs
      using adopted_stream(1) [OF tidy fs, of kind] closed [OF None] by (cases "newest_stream kind (rev fs)") auto
    then have "snd (adoptStreamFrame ?lk ?tid ?sid kind p) = None"
      "\<exists>m. fst (adoptStreamFrame ?lk ?tid ?sid kind p) = p\<lparr>pj_frameOrdinal := m\<rparr>"
      by (auto simp: adoptStreamFrame_def store_lookups_def split: option.split intro: exI [of _ "pj_frameOrdinal p"])
    then obtain m where "adoptStreamFrame ?lk ?tid ?sid kind p = (p\<lparr>pj_frameOrdinal := m\<rparr>, None)" by (metis prod.collapse)
    with o None show ?thesis by (auto simp: open_stream_def Let_def get_open_def split: stream_kind.splits)
  qed (use o in \<open>auto simp: open_stream_def\<close>)
  show "pj_currentStep q = Some step" using open2(3) by (simp add: q)
  show "\<exists>o1. get_open kind q = Some o1 \<and> of_text o1 = (case get_open kind p of Some o2 \<Rightarrow> of_text o2 | None \<Rightarrow> []) @ d"
    using p2 by (simp add: q)
  show "kind2 \<noteq> kind \<Longrightarrow> get_open kind2 q = get_open kind2 p" using p2 by (simp add: q)
  assume other: "kind2 \<noteq> kind" and none: "\<forall>fid. text_at kind2 (st_items s) ?tid ?sid fid = None"
  have tidy2: "tidy (st_items (run_ops s opened))" using open2(2) by (simp add: tracks_def)
  have none2: "text_at kind2 (st_items (run_ops s opened)) ?tid ?sid fid = None" for fid
  proof (cases "opened = []")
    case True
    with none show ?thesis by simp
  next
    case False
    then obtain fid2 where "opened = [FrameUpsert ?tid ?sid (stream_frame kind fid2 [])]" using p2 by blast
    then have "st_items (run_ops s opened) = items_after s (FrameUpsert ?tid ?sid (stream_frame kind fid2 []))"
      by (simp only: run_ops_simps)
    then show ?thesis using none other by (simp only: frame_upsert_text [OF tidy]) simp
  qed
  have "holds_open kind (st_items (run_ops s opened)) (set_open kind o1 p2)" using open2(2) by (simp add: tracks_def)
  from this [unfolded holds_open_def, rule_format, of o1] open2(3) assms(3)
  obtain x where x: "text_at kind (st_items (run_ops s opened)) ?tid ?sid (of_frameId o1) = Some x" "of_offset o1 = length x"
    by auto
  note ap = stream_append [OF tidy2 x(1), where d = d, folded x(2)]
  show "\<forall>fid. text_at kind2 (st_items (run_ops s ops)) ?tid ?sid fid = None"
  proof
    fix fid
    have "text_at kind2 (items_after (run_ops s opened) ?op) ?tid ?sid fid = None"
    proof (cases "fid = of_frameId o1")
      case True
      show ?thesis
      proof (rule ccontr)
        assume "text_at kind2 (items_after (run_ops s opened) ?op) ?tid ?sid fid \<noteq> None"
        then obtain y where "text_at kind2 (items_after (run_ops s opened) ?op) ?tid ?sid (of_frameId o1) = Some y"
          unfolding True by blast
        from streams_exclusive [OF this ap(4)] other show False by simp
      qed
    next
      case False
      then show ?thesis using ap(5) [of ?tid ?sid fid kind2] none2 [of fid] by (simp del: applyOperation.simps)
    qed
    then show "text_at kind2 (st_items (run_ops s ops)) ?tid ?sid fid = None" by (simp add: ops run_ops_append)
  qed
qed

lemma project_delta: "project_event json_parse lk now (delta_of n (kind, x)) p = Inr (onTextDelta lk now n kind x p)"
  by (cases kind) (simp_all add: delta_of_def project_event_def)

lemma streamed_Cons: "streamed kind ((k, x) # ds) = (if k = kind then x else []) @ streamed kind ds"
  by (simp add: streamed_def)

text \<open>After the deltas of a step, what is open of a stream is what was open before with the deltas at its end.\<close>

lemma deltas_open:
  assumes "tracks p s" "pj_currentStep p = Some step" "step_turnId step = turnId n"
    and "\<And>kind. get_open kind p = None \<Longrightarrow> \<forall>fid. text_at kind (st_items s) (turnId n) (step_stepId step) fid = None"
    and "feed json_parse view (map (\<lambda>d. (now, delta_of n d)) ds) (p, s) = (q, s2)"
  shows "tracks q s2 \<and> pj_currentStep q = Some step \<and>
    (\<forall>kind. streamed kind ds \<noteq> [] \<longrightarrow>
       (\<exists>o1. get_open kind q = Some o1 \<and>
          of_text o1 = (case get_open kind p of Some o2 \<Rightarrow> of_text o2 | None \<Rightarrow> []) @ streamed kind ds)) \<and>
    (\<forall>kind. streamed kind ds = [] \<longrightarrow> (\<forall>o2. get_open kind p = Some o2 \<longrightarrow>
       (\<exists>o1. get_open kind q = Some o1 \<and> of_text o1 = of_text o2)))"
  using assms
proof (induction ds arbitrary: p s)
  case Nil
  then show ?case by (auto simp: streamed_def)
next
  case (Cons d ds)
  obtain k x where d: "d = (k, x)" by fastforce
  obtain p1 ops where r: "onTextDelta (store_lookups view (st_items s)) now n k x p = (p1, ops)" by fastforce
  note one = delta_opens [OF Cons.prems(1-3) Cons.prems(4) r]
  have here: "\<not> streaming p \<or> map_option step_turnId (pj_currentStep p) = Some (turnId n)" using Cons.prems(2,3) by simp
  have t1: "tracks p1 (run_ops s ops)" using onTextDelta_tracks [OF Cons.prems(1) here r] by blast
  have closed: "\<forall>fid. text_at k2 (st_items (run_ops s ops)) (turnId n) (step_stepId step) fid = None" if "get_open k2 p1 = None" for k2
  proof -
    have "k2 \<noteq> k" using one(2) that by auto
    moreover from this have "get_open k2 p = None" using one(3) that by simp
    ultimately show ?thesis using one(4) Cons.prems(4) by blast
  qed
  have rest: "feed json_parse view (map (\<lambda>d. (now, delta_of n d)) ds) (p1, run_ops s ops) = (q, s2)"
    using Cons.prems(5) by (simp add: d project_delta r apply_loop_state)
  note IH = Cons.IH [OF t1 one(1) Cons.prems(3) closed rest]
  obtain o1 where o1: "get_open k p1 = Some o1" "of_text o1 = (case get_open k p of Some o2 \<Rightarrow> of_text o2 | None \<Rightarrow> []) @ x"
    using one(2) by blast
  show ?case
  proof (intro conjI allI impI)
    show "tracks q s2" "pj_currentStep q = Some step" using IH by blast+
    fix kind assume ne: "streamed kind (d # ds) \<noteq> []"
    show "\<exists>o1. get_open kind q = Some o1 \<and>
        of_text o1 = (case get_open kind p of Some o2 \<Rightarrow> of_text o2 | None \<Rightarrow> []) @ streamed kind (d # ds)"
      using IH one(3) o1 ne by (cases "kind = k"; cases "streamed kind ds = []") (auto simp: d streamed_Cons)
  next
    fix kind o2 assume "streamed kind (d # ds) = []" "get_open kind p = Some o2"
    then show "\<exists>o1. get_open kind q = Some o1 \<and> of_text o1 = of_text o2"
      using IH one(3) o1 by (cases "kind = k") (auto simp: d streamed_Cons split: if_splits)
  qed
qed

text \<open>The end of the step writes every open stream once more, whole, and leaves its frame as it is.\<close>

lemma flush_text:
  assumes "tracks p s" "get_open kind p = Some o1" "pj_currentStep p = Some step" "tidy (st_items r)"
  shows "text_at kind (st_items (run_ops r (flush_ops p))) (step_turnId step) (step_stepId step) (of_frameId o1) = Some (of_text o1)"
proof -
  have ids: "of_frameId oa \<noteq> of_frameId ob" if "get_open StreamText p = Some oa" "get_open StreamThought p = Some ob" for oa ob
  proof -
    have "text_at StreamText (st_items s) (step_turnId step) (step_stepId step) (of_frameId oa) = Some (of_text oa)"
      "text_at StreamThought (st_items s) (step_turnId step) (step_stepId step) (of_frameId ob) = Some (of_text ob)"
      using assms(1,3) that unfolding tracks_def holds_open_def by fastforce+
    then show ?thesis using streams_exclusive [of StreamText _ _ _ _ _ StreamThought] by fastforce
  qed
  have ops: "flush_ops p =
      (case get_open StreamText p of None \<Rightarrow> [] | Some o1 \<Rightarrow>
         [FrameUpsert (step_turnId step) (step_stepId step) (stream_frame StreamText (of_frameId o1) (of_text o1))])
      @ (case get_open StreamThought p of None \<Rightarrow> [] | Some o2 \<Rightarrow>
         [FrameUpsert (step_turnId step) (step_stepId step) (stream_frame StreamThought (of_frameId o2) (of_text o2))])"
    using assms(3) by (simp add: flush_ops_def get_open_def stream_frame_def split: option.split)
  have steady: "list_all steady (flush_ops p)" by (rule flush_steady [OF assms(1)])
  have tidy: "tidy (items_after r op)" if "op \<in> set (flush_ops p)" for op
    using steady_op(1) [OF assms(4), of op] steady that by (auto simp: list_all_iff)
  have first: "text_at kind (items_after r (FrameUpsert tid sid (stream_frame kind fid x))) tid sid fid = Some x" for tid sid fid x
    by (simp only: frame_upsert_text [OF assms(4)]) simp
  show ?thesis
  proof (cases kind)
    case StreamThought
    show ?thesis
    proof (cases "get_open StreamText p")
      case None
      with StreamThought assms(2) first show ?thesis by (simp add: ops del: applyOperation.simps)
    next
      case (Some oa)
      have t: "tidy (items_after r (FrameUpsert (step_turnId step) (step_stepId step) (stream_frame StreamText (of_frameId oa) (of_text oa))))"
        by (rule tidy) (simp add: ops Some)
      have "st_items (run_ops r (flush_ops p)) = items_after (res_state (applyOperation r (FrameUpsert (step_turnId step)
          (step_stepId step) (stream_frame StreamText (of_frameId oa) (of_text oa)))))
          (FrameUpsert (step_turnId step) (step_stepId step) (stream_frame StreamThought (of_frameId o1) (of_text o1)))"
        using assms(2) StreamThought unfolding ops Some by (simp del: applyOperation.simps)
      then show ?thesis using StreamThought by (simp only: frame_upsert_text [OF t]) simp
    qed
  next
    case StreamText
    show ?thesis
    proof (cases "get_open StreamThought p")
      case None
      with StreamText assms(2) first show ?thesis by (simp add: ops del: applyOperation.simps)
    next
      case (Some ob)
      have t: "tidy (items_after r (FrameUpsert (step_turnId step) (step_stepId step) (stream_frame StreamText (of_frameId o1) (of_text o1))))"
        by (rule tidy) (use StreamText assms(2) in \<open>simp add: ops\<close>)
      have "st_items (run_ops r (flush_ops p)) = items_after (res_state (applyOperation r (FrameUpsert (step_turnId step)
          (step_stepId step) (stream_frame StreamText (of_frameId o1) (of_text o1)))))
          (FrameUpsert (step_turnId step) (step_stepId step) (stream_frame StreamThought (of_frameId ob) (of_text ob)))"
        using assms(2) StreamText unfolding ops Some by (simp del: applyOperation.simps)
      moreover have "of_frameId o1 \<noteq> of_frameId ob" using ids [OF _ Some] assms(2) StreamText by blast
      ultimately show ?thesis
        using StreamText first by (simp only: frame_upsert_text [OF t] stream_frame_id) (simp del: applyOperation.simps)
    qed
  qed
qed

section \<open>A sample agent\<close>

fun orderly :: "json_reader \<Rightarrow> agent_activity option \<Rightarrow> (string \<times> domain_event) list \<Rightarrow> projector \<times> agent_state \<Rightarrow> bool" where
  "orderly json_parse view [] ps = True"
| "orderly json_parse view ((now, e) # es) (p, s) =
     (in_order p e \<and>
      (case project_event json_parse (store_lookups view (st_items s)) now e p of
         Inl _ \<Rightarrow> orderly json_parse view es (p, s)
       | Inr (q, ops) \<Rightarrow> orderly json_parse view es (q, fst (apply_loop ops s [] None))))"

lemma live_feed:
  "live json_parse (fst ps) (snd ps) \<Longrightarrow> orderly json_parse view es ps \<Longrightarrow> feed json_parse view es ps = qs \<Longrightarrow>
   live json_parse (fst qs) (snd qs)"
proof (induction es arbitrary: ps)
  case (Cons ne es)
  obtain now e p s where ps: "ne = (now, e)" "ps = (p, s)" by fastforce
  show ?case
  proof (cases "project_event json_parse (store_lookups view (st_items s)) now e p")
    case (Inl err)
    then show ?thesis using Cons.IH [of "(p, s)"] Cons.prems by (simp add: ps)
  next
    case (Inr r)
    obtain q ops where r: "r = (q, ops)" by fastforce
    have "live json_parse q (fst (apply_loop ops s [] None))"
      using Cons.prems(1,2) Inr r live_event [of json_parse p s e view now q ops] by (simp add: ps)
    then show ?thesis using Cons.IH [of "(q, fst (apply_loop ops s [] None))"] Cons.prems(2,3) Inr r by (simp add: ps)
  qed
qed simp

definition no_json :: json_reader where
  "no_json = (\<lambda>_ _. None)"

definition sample_done :: "int \<Rightarrow> int \<Rightarrow> step_completed_event" where
  "sample_done n k =
     \<lparr>sc_turnId = n, sc_step = k, sc_usage = None, sc_finishReason = Some ''stop'', sc_rawFinishReason = None,
      sc_providerFinishReason = None, sc_llmFirstTokenLatencyMs = None, sc_llmStreamDurationMs = None,
      sc_llmRequestBuildMs = None, sc_llmServerFirstTokenMs = None, sc_llmServerDecodeMs = None,
      sc_llmClientConsumeMs = None\<rparr>"

definition sample_deltas :: "(stream_kind \<times> string) list" where
  "sample_deltas = [(StreamThought, ''so''), (StreamText, ''He''), (StreamThought, '' it is''), (StreamText, ''llo'')]"

definition sample_start :: "projector \<times> agent_state" where
  "sample_start = feed no_json None [(''T0'', EvTurnStarted 4 JUndef (Some ''hi''))] (newProjector 0, EMPTY_AGENT_STATE)"

definition sample_mid :: "projector \<times> agent_state" where
  "sample_mid = feed no_json None ((''T1'', EvStepStarted 4 1) # map (\<lambda>d. (''T1'', delta_of 4 d)) sample_deltas) sample_start"

definition event_on :: "projector \<times> agent_state \<Rightarrow> domain_event \<Rightarrow> projector \<times> transcript_op list" where
  "event_on ps e = projr (project_event no_json (store_lookups None (st_items (snd ps))) ''T2'' e (fst ps))"

definition projects :: "projector \<times> agent_state \<Rightarrow> domain_event \<Rightarrow> bool" where
  "projects ps e \<longleftrightarrow>
     in_order (fst ps) e \<and>
     (case project_event no_json (store_lookups None (st_items (snd ps))) ''T2'' e (fst ps) of Inl _ \<Rightarrow> False | Inr r \<Rightarrow> snd r \<noteq> [])"

abbreviation sample_event :: "domain_event \<Rightarrow> projector \<times> transcript_op list" where
  "sample_event e \<equiv> event_on sample_mid e"

lemma sample_start_facts:
  "orderly no_json None [(''T0'', EvTurnStarted 4 JUndef (Some ''hi''))] (newProjector 0, EMPTY_AGENT_STATE) \<and>
   streamed StreamText sample_deltas = ''Hello'' \<and>
   (case sample_start of (p, s) \<Rightarrow>
      orderly no_json None ((''T1'', EvStepStarted 4 1) # map (\<lambda>d. (''T1'', delta_of 4 d)) sample_deltas) (p, s) \<and>
      frames_at (st_items s) (turnId 4) (stepId (turnId 4) 1) = None)"
  by code_simp

lemma sample_mid_facts:
  "case sample_mid of (p, s) \<Rightarrow>
     get_open StreamText p = Some \<lparr>of_frameId = ''t4.1.f2'', of_offset = 5, of_text = ''Hello''\<rparr> \<and>
     map_option (\<lambda>st. (step_turnId st, step_stepId st)) (pj_currentStep p) = Some (''t4'', ''t4.1'') \<and>
     projects (p, s) (EvAssistantDelta 4 ''!'') \<and> projects (p, s) (EvStepCompleted (sample_done 4 1))"
  by code_simp

lemmas sample_facts = sample_start_facts [unfolded case_prod_unfold prod.collapse] sample_mid_facts [unfolded case_prod_unfold prod.collapse]

lemma sample_start_live: "live no_json (fst sample_start) (snd sample_start)"
proof -
  have "live no_json (fst (newProjector 0, EMPTY_AGENT_STATE)) (snd (newProjector 0, EMPTY_AGENT_STATE))"
    by (auto intro!: live_begin simp: EMPTY_AGENT_STATE_def)
  then show ?thesis unfolding sample_start_def using live_feed sample_facts by blast
qed

lemma sample_mid_live: "live no_json (fst sample_mid) (snd sample_mid)"
  unfolding sample_mid_def using live_feed [OF sample_start_live] sample_facts by blast

lemma sample_projects:
  assumes "projects sample_mid e"
  shows "project_event no_json (store_lookups None (st_items (snd sample_mid))) ''T2'' e (fst sample_mid)
      = Inr (fst (sample_event e), snd (sample_event e))"
    "in_order (fst sample_mid) e" "snd (sample_event e) \<noteq> []"
  using assms by (auto simp: projects_def event_on_def split: sum.splits)

section \<open>Properties\<close>

text \<open>
  C4: an event of a running agent never makes a gap: every operation the projector emits for it is placed in the
  producer's store, so the batch goes out to the subscribers.
\<close>

theorem live_batch_placed:
  assumes "live json_parse p s" "in_order p e"
    and "project_event json_parse (store_lookups view (st_items s)) now e p = Inr (q, ops)"
  shows "snd (snd (apply_loop ops s [] None)) = None"
  using kept_event [OF live_tracks [OF assms(1)] assms(2,3)] by (simp add: apply_loop_gap kept_def)

theorem live_batch_placed_witness:
  "snd (sample_event (EvAssistantDelta 4 ''!'')) \<noteq> [] \<and>
   snd (snd (apply_loop (snd (sample_event (EvAssistantDelta 4 ''!''))) (snd sample_mid) [] None)) = None"
proof -
  have ok: "projects sample_mid (EvAssistantDelta 4 ''!'')" using sample_facts by blast
  from live_batch_placed [OF sample_mid_live sample_projects(2,1) [OF ok]] sample_projects(3) [OF ok] show ?thesis by blast
qed

text \<open>
  The text a projector holds open is the text of its frame in the store, and its offset the length of it.
\<close>

theorem open_stream_is_stored:
  assumes "live json_parse p s" "get_open kind p = Some o1"
  shows "\<exists>step. pj_currentStep p = Some step \<and> of_offset o1 = length (of_text o1) \<and>
    text_at kind (st_items s) (step_turnId step) (step_stepId step) (of_frameId o1) = Some (of_text o1)"
  using live_tracks [OF assms(1)] assms(2) unfolding tracks_def holds_open_def by blast

theorem open_stream_is_stored_witness:
  "\<exists>step. pj_currentStep (fst sample_mid) = Some step \<and> 5 = length ''Hello'' \<and>
     text_at StreamText (st_items (snd sample_mid)) (step_turnId step) (step_stepId step) ''t4.1.f2'' = Some ''Hello''"
proof -
  have "get_open StreamText (fst sample_mid) = Some \<lparr>of_frameId = ''t4.1.f2'', of_offset = 5, of_text = ''Hello''\<rparr>"
    using sample_facts by blast
  from open_stream_is_stored [OF sample_mid_live this] show ?thesis by simp
qed

definition step_events :: "string \<Rightarrow> int \<Rightarrow> int \<Rightarrow> (stream_kind \<times> string) list \<Rightarrow> step_completed_event \<Rightarrow> (string \<times> domain_event) list" where
  "step_events now n k ds e =
     (now, EvStepStarted n k) # map (\<lambda>d. (now, delta_of n d)) ds @ [(now, EvStepCompleted e)]"

text \<open>
  C5: a step that starts, streams and completes on a running agent leaves in the store, for each stream that said
  anything, a frame with all of it in order: no delta is lost, doubled or put into the other stream.
\<close>

theorem step_text_lands:
  assumes "live json_parse p s" "frames_at (st_items s) (turnId n) (stepId (turnId n) k) = None" "sc_turnId e = n" "sc_step e = k"
    and "streamed kind ds \<noteq> []"
    and "feed json_parse view (step_events now n k ds e) (p, s) = (q, s2)"
  shows "\<exists>fid. text_at kind (st_items s2) (turnId n) (stepId (turnId n) k) fid = Some (streamed kind ds)"
proof -
  let ?tid = "turnId n" and ?sid = "stepId (turnId n) k"
  have t0: "tracks p s" by (rule live_tracks [OF assms(1)])
  obtain p1 ops1 where r1: "onStepStarted now n k p = (p1, ops1)" by fastforce
  have t1: "tracks p1 (run_ops s ops1)" using kept_step_started [OF t0, of now n k] r1 by (simp add: kept_def)
  let ?step = "step_base ?tid k StepRunning (Some now)"
  have p1: "pj_currentStep p1 = Some ?step" "get_open kind2 p1 = None" "ops1 = [StepUpsert ?tid ?step]" for kind2
    using r1 by (auto simp: onStepStarted_def Let_def get_open_def split: stream_kind.split)
  have ids: "step_turnId ?step = ?tid" "step_stepId ?step = ?sid" by (simp_all add: step_base_def)
  have "frame_of (st_items s) ?tid ?sid fid = None" for fid
    using assms(2) by (auto simp: frames_at_def frame_of_def split: option.splits bind_splits)
  moreover have "frame_of (st_items (run_ops s ops1)) = frame_of (st_items s)"
    using tidy_frames(2) [OF tracks_parts(3) [OF t0], of "StepUpsert ?tid ?step"]
    by (simp add: p1(3) is_append_def del: applyOperation.simps)
  ultimately have empty: "\<forall>fid. text_at kind2 (st_items (run_ops s ops1)) ?tid (step_stepId ?step) fid = None" for kind2
    by (simp add: text_at_def ids)
  obtain p2 s1 where f: "feed json_parse view (map (\<lambda>d. (now, delta_of n d)) ds) (p1, run_ops s ops1) = (p2, s1)" by fastforce
  note ds = deltas_open [OF t1 p1(1) ids(1) empty f]
  then obtain o1 where o1: "get_open kind p2 = Some o1" "of_text o1 = streamed kind ds"
    using assms(5) p1(2) by fastforce
  have end_event: "project_event json_parse lk now (EvStepCompleted e) p2 = Inr (onStepCompleted now e p2)" for lk
    by (simp add: project_event_def)
  obtain h where h: "snd (onStepCompleted now e p2) = flush_ops p2 @ [StepUpsert ?tid h]"
    by (simp add: onStepCompleted_def flushOpenFrames_def Let_def assms(3))
  have "s2 = run_ops s1 (snd (onStepCompleted now e p2))"
    using assms(6) r1 f
    by (simp add: step_events_def project_event_def feed_append apply_loop_state end_event split: prod.splits)
  then have s2: "s2 = run_ops (run_ops s1 (flush_ops p2)) [StepUpsert ?tid h]" by (simp add: h run_ops_append)
  have t2: "tracks p2 s1" "pj_currentStep p2 = Some ?step" using ds by blast+
  have "text_at kind (st_items (run_ops s1 (flush_ops p2))) ?tid ?sid (of_frameId o1) = Some (streamed kind ds)"
    using flush_text [OF t2(1) o1(1) t2(2) tracks_parts(3) [OF t2(1)]] ids o1(2) by simp
  moreover have "tidy (st_items (run_ops s1 (flush_ops p2)))"
    using steady_run [OF tracks_parts(3) [OF t2(1)] flush_steady [OF t2(1)]] by blast
  from tidy_frames(2) [OF this, of "StepUpsert ?tid h"]
  have "frame_of (st_items s2) = frame_of (st_items (run_ops s1 (flush_ops p2)))"
    by (simp add: s2 is_append_def del: applyOperation.simps)
  ultimately show ?thesis by (auto simp: text_at_def)
qed

theorem step_text_lands_witness:
  "\<exists>fid. text_at StreamText (st_items (snd (feed no_json None (step_events ''T2'' 4 1 sample_deltas (sample_done 4 1)) sample_start)))
      (turnId 4) (stepId (turnId 4) 1) fid = Some ''Hello''"
proof -
  have none: "frames_at (st_items (snd sample_start)) (turnId 4) (stepId (turnId 4) 1) = None"
    and said: "streamed StreamText sample_deltas = ''Hello''" using sample_facts by blast+
  have some: "streamed StreamText sample_deltas \<noteq> []" using said by simp
  have ends: "sc_turnId (sample_done 4 1) = 4" "sc_step (sample_done 4 1) = 1" by (simp_all add: sample_done_def)
  obtain q s2 where f: "feed no_json None (step_events ''T2'' 4 1 sample_deltas (sample_done 4 1)) (fst sample_start, snd sample_start) = (q, s2)"
    by fastforce
  from step_text_lands [OF sample_start_live none ends some f] said f show ?thesis by simp
qed

definition closes :: "domain_event \<Rightarrow> bool" where
  "closes e = (case e of EvStepCompleted _ \<Rightarrow> True | EvStepInterrupted _ _ _ _ \<Rightarrow> True | EvTurnEnded _ \<Rightarrow> True | _ \<Rightarrow> False)"

lemma closing_batch:
  assumes "tracks p s" "closes e" "project_event json_parse lk now e p = Inr (q, ops)"
  shows "\<exists>rest. ops = flush_ops p @ rest \<and> list_all quiet rest \<and> list_all (admits GradeBlock) rest"
proof -
  have step: "turn_like (step_turnId st)" if "pj_currentStep p = Some st" for st
    using tracks_parts(1) [OF assms(1)] that by (simp add: headers_ok_def)
  show ?thesis
    using assms(2,3) step
    by (cases e)
      (auto simp: closes_def project_event_def onStepCompleted_def onStepFinished_def onTurnEnded_def close_step_def
        flushOpenFrames_def admits_def Let_def split: prod.splits option.splits if_splits)
qed

lemma flush_admitted: "filter (admits GradeBlock) (flush_ops p) = flush_ops p"
  by (auto simp: flush_ops_def admits_def split: option.split)

text \<open>
  C6: the batch that ends a step or its turn brings a subscriber at the \<open>block\<close> grade, which saw none of the
  deltas, to the whole text of every stream that was open, the text the store has.
\<close>

theorem block_reader_catches_up:
  assumes "live json_parse p s" "get_open kind p = Some o1" "pj_currentStep p = Some step" "closes e" "tidy (st_items r)"
    and "project_event json_parse (store_lookups view (st_items s)) now e p = Inr (q, ops)"
  shows "text_at kind (st_items (run_ops r (filterOpsForGrade GradeBlock ops))) (step_turnId step) (step_stepId step) (of_frameId o1)
           = Some (of_text o1)
    \<and> text_at kind (st_items (run_ops s ops)) (step_turnId step) (step_stepId step) (of_frameId o1) = Some (of_text o1)"
proof -
  have t: "tracks p s" by (rule live_tracks [OF assms(1)])
  obtain rest where ops: "ops = flush_ops p @ rest" "list_all quiet rest" "list_all (admits GradeBlock) rest"
    using closing_batch [OF t assms(4,6)] by blast
  have keep: "filterOpsForGrade GradeBlock ops = ops"
    using ops(3) flush_admitted [of p] by (simp add: filterOpsForGrade_def ops(1) filter_id_conv list_all_iff)
  have fid: "is_stream_id (step_stepId step) (of_frameId o1)"
    using t assms(2,3) unfolding tracks_def holds_open_def is_stream_id_iff by fastforce
  have "text_at kind (st_items (run_ops w ops)) (step_turnId step) (step_stepId step) (of_frameId o1) = Some (of_text o1)"
    if "tidy (st_items w)" for w
    using flush_text [OF t assms(2,3) that] quiet_run(4) [OF _ ops(2) fid, of "run_ops w (flush_ops p)"]
      steady_run [OF that flush_steady [OF t]] by (simp add: ops(1) run_ops_append)
  then show "text_at kind (st_items (run_ops r (filterOpsForGrade GradeBlock ops))) (step_turnId step) (step_stepId step) (of_frameId o1)
           = Some (of_text o1)
    \<and> text_at kind (st_items (run_ops s ops)) (step_turnId step) (step_stepId step) (of_frameId o1) = Some (of_text o1)"
    unfolding keep using assms(5) tracks_parts(3) [OF t] by blast+
qed

theorem block_reader_catches_up_witness:
  "text_at StreamText
     (st_items (run_ops (snd sample_start) (filterOpsForGrade GradeBlock (snd (sample_event (EvStepCompleted (sample_done 4 1)))))))
     ''t4'' ''t4.1'' ''t4.1.f2'' = Some ''Hello''"
proof -
  have ok: "projects sample_mid (EvStepCompleted (sample_done 4 1))"
    and o1: "get_open StreamText (fst sample_mid) = Some \<lparr>of_frameId = ''t4.1.f2'', of_offset = 5, of_text = ''Hello''\<rparr>"
    using sample_facts by blast+
  obtain step where st: "pj_currentStep (fst sample_mid) = Some step" "step_turnId step = ''t4''" "step_stepId step = ''t4.1''"
    using sample_facts by auto
  have "closes (EvStepCompleted (sample_done 4 1))" by (simp add: closes_def)
  from block_reader_catches_up [OF sample_mid_live o1 st(1) this tracks_parts(3) [OF live_tracks [OF sample_start_live]]
      sample_projects(1) [OF ok]] st(2,3)
  show ?thesis by simp
qed

text \<open>
  C12: an event of a subscribed agent of a live session reaches the listeners of the session as one batch, all that
  the projector emitted for it, under the next number of the journal, and the agent goes on running.
\<close>

theorem live_event_dispatched:
  assumes "i \<in> set (bd_subscribed b)" "jm_get (bd_projectors b) i = Some p"
    and "jm_get (tv_live sv) (en_sessionId env) = Some entry" "ts_getAgent (le_store entry) i = Some t"
    and "live (en_json env) p (at_state t)" "in_order p e"
    and "project_event (en_json env) (agent_lookups env i sv) (en_now env) e p = Inr (q, ops)" "ops \<noteq> []"
    and "jm_get (tv_opsListeners sv) (en_sessionId env) = Some ls"
  shows "\<exists>b2 sv2 entry2 t2 n. onAgentEvent env i e (b, sv) = ((b2, sv2), [OpsCall ls \<lparr>change_agentId = i, change_ops = ops\<rparr> n], None)
    \<and> n = getSeqWatermark (en_sessionId env) i sv2
    \<and> jm_get (bd_projectors b2) i = Some q \<and> jm_get (tv_live sv2) (en_sessionId env) = Some entry2
    \<and> ts_getAgent (le_store entry2) i = Some t2 \<and> live (en_json env) q (at_state t2)"
proof -
  let ?sid = "en_sessionId env"
  have lk: "agent_lookups env i sv = store_lookups (en_activity env i) (st_items (at_state t))"
    using assms(3,4) by (simp add: agent_lookups_def service_items_def agent_items_def at_getItems_def)
  obtain s2 acc gap where loop: "apply_loop ops (at_state t) [] None = (s2, acc, gap)" by (metis prod_cases3)
  have gap: "gap = None" using live_batch_placed [OF assms(5,6), of "en_activity env i" "en_now env" q ops] assms(7) lk loop by simp
  have next_live: "live (en_json env) q s2" using live_event [OF assms(5,6)] assms(7) lk loop by (metis fst_conv)
  obtain entry2 applied where ap: "apply_to_agent i ops entry = (entry2, applied)" by fastforce
  have e2: "applied_gap applied = None" "\<exists>t2. ts_getAgent (le_store entry2) i = Some t2 \<and> at_state t2 = s2"
    "le_opsJournals entry2 = le_opsJournals entry"
    using ap assms(4) loop gap
    by (auto simp: apply_to_agent_def at_apply_def ts_ensureAgent_def ts_getAgent_def Let_def)
  let ?ev = "\<lparr>change_agentId = i, change_ops = ops\<rparr>"
  let ?j = "case jm_get (le_opsJournals entry2) i of Some j \<Rightarrow> j | None \<Rightarrow> new_ops_journal"
  obtain j2 n where j: "journal_push ops ?j = (j2, n)" by fastforce
  have n: "oj_nextSeq j2 - 1 = n" using j by (auto simp: journal_push_def Let_def)
  let ?entry3 = "entry2\<lparr>le_opsJournals := jm_set i j2 (le_opsJournals entry2)\<rparr>"
  have jo: "journalOps ?sid ?ev (put_entry ?sid entry2 sv) = (put_entry ?sid ?entry3 (put_entry ?sid entry2 sv), n)"
    using j by (simp add: journalOps_def put_entry_def Let_def)
  let ?sv3 = "put_entry ?sid ?entry3 (put_entry ?sid entry2 sv)"
  let ?sv4 = "schedule_heals ?sid i ops ?sv3"
  have "binding_applyOps ?sid i ops sv = (?sv4, [OpsCall ls ?ev n])"
    using assms(3,8,9) ap e2(1) jo
    by (simp add: binding_applyOps_def handleLiveOps_def dispatchOps_def Let_def put_entry_def)
  then have "onAgentEvent env i e (b, sv) = ((b\<lparr>bd_projectors := jm_set i q (bd_projectors b)\<rparr>, ?sv4), [OpsCall ls ?ev n], None)"
    using assms(1,2,7) by (simp add: onAgentEvent_def emit_def)
  moreover have "tv_live ?sv4 = tv_live ?sv3" by (rule conjunct1 [OF schedule_heals_keeps])
  moreover have "jm_get (tv_live ?sv3) ?sid = Some ?entry3" by (simp add: put_entry_def)
  ultimately show ?thesis
    using e2(2) next_live n by (auto simp: getSeqWatermark_def latest_seq_def)
qed

definition sample_entry :: live_entry where
  "sample_entry =
     \<lparr>le_storeId = 1,
      le_store = \<lparr>ts_sessionId = ''s'', ts_agents = [(''main'', \<lparr>at_agentId = ''main'', at_state = snd sample_mid, at_listeners = []\<rparr>)],
                  ts_descriptors = [], ts_rosterListeners = []\<rparr>,
      le_agentBackfills = [], le_opsJournals = []\<rparr>"

definition sample_env :: bind_env where
  "sample_env = \<lparr>en_sessionId = ''s'', en_now = ''T2'', en_json = no_json, en_activity = (\<lambda>_. None), en_ref = 9\<rparr>"

definition sample_service :: transcript_service where
  "sample_service = \<lparr>tv_live = [(''s'', sample_entry)], tv_opsListeners = [(''s'', [5])], tv_healTimers = []\<rparr>"

definition sample_binding :: binding where
  "sample_binding = newBinding\<lparr>bd_subscribed := [''main''], bd_projectors := [(''main'', fst sample_mid)]\<rparr>"

theorem live_event_dispatched_witness:
  "\<exists>b2 sv2 n. onAgentEvent sample_env ''main'' (EvAssistantDelta 4 ''!'') (sample_binding, sample_service) =
     ((b2, sv2), [OpsCall [5] \<lparr>change_agentId = ''main'', change_ops = snd (sample_event (EvAssistantDelta 4 ''!''))\<rparr> n], None)"
proof -
  have ok: "projects sample_mid (EvAssistantDelta 4 ''!'')" using sample_facts by blast
  let ?t = "\<lparr>at_agentId = ''main'', at_state = snd sample_mid, at_listeners = []\<rparr>"
  have lk: "agent_lookups sample_env ''main'' sample_service = store_lookups None (st_items (snd sample_mid))"
    by (simp add: agent_lookups_def service_items_def sample_env_def sample_service_def sample_entry_def agent_items_def
        at_getItems_def ts_getAgent_def jm_get_def)
  from live_event_dispatched [of "''main''" sample_binding "fst sample_mid" sample_service sample_env sample_entry ?t
      "EvAssistantDelta 4 ''!''" "fst (sample_event (EvAssistantDelta 4 ''!''))" "snd (sample_event (EvAssistantDelta 4 ''!''))" "[5]"]
    sample_mid_live sample_projects [OF ok] lk
  show ?thesis
    by (auto simp: sample_binding_def sample_service_def sample_env_def sample_entry_def ts_getAgent_def jm_get_def)
qed

end
