(* ===== verification/BindingProps.thy ===== *)
theory BindingProps
  imports ProjectorProps FoldFacts
begin

text \<open>
  The interactions of a session on their way from the engine to the transcript, the activity view and the phase
  the first protocol version shows, and where the live mapping of an event and the mapping of the same fact read
  from disk agree.
\<close>

section \<open>Interactions\<close>

lemma ensureStep_interactions: "ensureStep lk now tid p = (q, step, ops) \<Longrightarrow> pj_interactions q = pj_interactions p"
  by (auto simp: ensureStep_def Let_def split: option.splits if_splits)

lemma tool_hit_interactions: "tool_hit lk i p = (q, hit) \<Longrightarrow> pj_interactions q = pj_interactions p"
  by (auto simp: tool_hit_def adoptToolFrame_def split: option.splits)

lemma open_stream_interactions: "open_stream lk tid sid kind p = (q, o1, ops) \<Longrightarrow> pj_interactions q = pj_interactions p"
  by (auto simp: open_stream_def adoptStreamFrame_def Let_def split: option.splits if_splits prod.splits)

lemma set_open_interactions [simp]: "pj_interactions (set_open kind o1 p) = pj_interactions p"
  by (cases kind) (simp_all add: set_open_def)

lemma absorb_interactions: "absorb_prompts tm is p = (q, ops) \<Longrightarrow> pj_interactions q = pj_interactions p"
proof (induction "is" arbitrary: p q ops)
  case (Cons i "is")
  then show ?case by (auto simp: upsertPrompt_def Let_def split: prod.splits)
qed simp

lemma marker_interactions [simp]: "pj_interactions (fst (event_marker now m kvs p)) = pj_interactions p"
  by (auto simp: event_marker_def alloc_def markerOp_def Let_def)

text \<open>Only the two interaction entry points touch the interactions of a projector.\<close>

lemma plain_keep:
    "pj_interactions (fst (onTurnStarted now n og prompt p)) = pj_interactions p"
  "pj_interactions (fst (onTurnEnded now te p)) = pj_interactions p"
  "pj_interactions (fst (onStepStarted now n k p)) = pj_interactions p"
  "pj_interactions (fst (onStepCompleted now sc p)) = pj_interactions p"
  "pj_interactions (fst (onStepFinished now n k reason msg p)) = pj_interactions p"
  "pj_interactions (fst (onStepRetrying rt p)) = pj_interactions p"
  "pj_interactions (fst (onTaskNotified tn p)) = pj_interactions p"
  "pj_interactions (fst (onShellStarted now c i p)) = pj_interactions p"
  "pj_interactions (fst (onShellOutput now c j chunk p)) = pj_interactions p"
  "pj_interactions (fst (onShellCompleted now c j er p)) = pj_interactions p"
  "pj_interactions (fst (onSubagentRun now sb p)) = pj_interactions p"
  "pj_interactions (fst (onAgentStatusUpdated ev p)) = pj_interactions p"
  "pj_interactions (fst (onAgentActivityUpdated ac p)) = pj_interactions p"
  "pj_interactions (fst (onPromptSubmitted ps p)) = pj_interactions p"
  "pj_interactions (fst (onPromptCompleted i reason2 tm p)) = pj_interactions p"
  "pj_interactions (fst (onPromptAborted i tm p)) = pj_interactions p"
  by (simp_all add: onTurnStarted_def onTurnEnded_def onStepStarted_def onStepCompleted_def onStepFinished_def onStepRetrying_def
    onTaskNotified_def onShellStarted_def onShellOutput_def onShellCompleted_def onSubagentRun_def
    onAgentStatusUpdated_def onAgentActivityUpdated_def onPromptSubmitted_def onPromptCompleted_def
    onPromptAborted_def close_step_def takeTurnUsage_def flushOpenFrames_def record_usage_def
    project_upsertTask_def taskref_op_def shellTaskId_def upsertPrompt_def Let_def
    split: prod.split option.split)

lemma lookup_keep:
  "pj_interactions (fst (onTextDelta lk now n kind d p)) = pj_interactions p"
  "pj_interactions (fst (onToolCallDelta lk now n i name part p)) = pj_interactions p"
  "pj_interactions (fst (onToolProgress lk i u p)) = pj_interactions p"
  "pj_interactions (fst (onToolCallStarted json_parse lk now cs p)) = pj_interactions p"
  "pj_interactions (fst (onToolResult lk now i output er p)) = pj_interactions p"
  "pj_interactions (fst (onSubagentSpawned lk now sn p)) = pj_interactions p"
  by (auto simp: onTextDelta_def onToolCallDelta_def onToolProgress_def onToolCallStarted_def onToolResult_def todo_ops_def
      onSubagentSpawned_def put_tool_def project_upsertTask_def Let_def split: prod.split option.split
      dest!: ensureStep_interactions tool_hit_interactions open_stream_interactions)

lemma marker_keep:
  "pj_interactions (fst (onPlanRevision now kvs p)) = pj_interactions p"
  "pj_interactions (fst (noticeOp now level kvs p)) = pj_interactions p"
  "pj_interactions (fst (onPromptSteered pt p)) = pj_interactions p"
  by (auto simp: onPlanRevision_def noticeOp_def alloc_def onPromptSteered_def upsertPrompt_def event_marker_def markerOp_def
      Let_def split: prod.split dest!: absorb_interactions)

lemma lifecycle_keep: "onTaskLifecycle now begins info p = Inr r \<Longrightarrow> pj_interactions (fst r) = pj_interactions p"
  by (auto simp: onTaskLifecycle_def project_upsertTask_def taskref_op_def Let_def split: sum.splits if_splits)

lemma project_keeps_interactions:
  assumes "project_event json_parse lk now e p = Inr r"
  shows "pj_interactions (fst r) = pj_interactions p"
  using assms plain_keep lookup_keep marker_keep marker_interactions lifecycle_keep
  by (cases e) (auto simp: project_event_def simp del: set_open_fields)

lemma feed_keeps_interactions: "feed json_parse view es ps = qs \<Longrightarrow> pj_interactions (fst qs) = pj_interactions (fst ps)"
proof (induction json_parse view es ps arbitrary: qs rule: feed.induct)
  case (2 json_parse view now e es p s)
  then show ?case by (fastforce split: sum.splits dest: project_keeps_interactions)
qed simp

lemma end_state_settled: "EventProjector.mapInteractionEndState kind response \<noteq> IPending"
  by (simp add: EventProjector.mapInteractionEndState_def Let_def)

lemma frame_keeps_interactions: "st_interactions (res_state (applyOperation s (FrameUpsert tid sid f))) = st_interactions s"
  by (auto simp: applyFrameUpsert_def Let_def split: option.split)

text \<open>
  C13: what was asked is answered. An approval or question that was announced, whatever events the agent had in
  between, is settled in the producer's store by its answer: no longer pending, in the state the answer stands for.
\<close>

theorem interaction_settles:
  assumes "mapInteractionRequested x p = Inr (p1, ops1)" "feed json_parse view es (p1, s1) = (p2, s2)"
    and "mapInteractionResolved (store_lookups view (st_items s2)) (pi_id x) response p2 = (p3, ops2)"
  shows "\<exists>y. jm_get (st_interactions (run_ops s2 ops2)) (pi_id x) = Some y \<and> int_interactionKind y = pi_kind x \<and>
    int_state y = EventProjector.mapInteractionEndState (pi_kind x) response \<and> int_state y \<noteq> IPending \<and>
    js_same (int_request y) (pi_payload x) \<and> js_same (int_response y) response"
proof -
  obtain c where p1: "jm_get (pj_interactions p1) (pi_id x) = Some \<lparr>int_interactionId = pi_id x, int_interactionKind = pi_kind x,
      int_toolCallId = c, int_state = IPending, int_request = pi_payload x, int_response = JUndef\<rparr>"
    using assms(1) by (auto simp: mapInteractionRequested_def Let_def split: sum.splits)
  let ?y = "\<lparr>int_interactionId = pi_id x, int_interactionKind = pi_kind x, int_toolCallId = c,
      int_state = EventProjector.mapInteractionEndState (pi_kind x) response, int_request = pi_payload x, int_response = response\<rparr>"
  have p2: "jm_get (pj_interactions p2) (pi_id x) = jm_get (pj_interactions p1) (pi_id x)"
    using feed_keeps_interactions [OF assms(2)] by simp
  have ops: "ops2 = [InteractionUpsert ?y] \<or> (\<exists>tid sid f. ops2 = [InteractionUpsert ?y, FrameUpsert tid sid f])"
    using assms(3) p1 p2
    by (auto simp: mapInteractionResolved_def put_tool_def Let_def split: option.splits prod.splits)
  let ?s = "res_state (applyOperation s2 (InteractionUpsert ?y))"
  have "st_interactions (run_ops s2 ops2) = st_interactions ?s"
    using ops frame_keeps_interactions [of ?s] by (auto simp del: applyOperation.simps)
  moreover have "\<exists>y. jm_get (st_interactions ?s) (pi_id x) = Some y \<and> interactionEquals y ?y"
    by (auto simp: applyInteractionUpsert_def put_interaction_def interactionEquals_def split: option.split)
  ultimately show ?thesis using end_state_settled by (auto simp: interactionEquals_def)
qed

definition sample_approval :: projector_interaction where
  "sample_approval = \<lparr>pi_id = ''a1'', pi_kind = InteractionApproval, pi_payload = JObj 3 [(''toolCallId'', JStr ''c1'')]\<rparr>"

definition sample_answer :: json where
  "sample_answer = JObj 4 [(''decision'', JStr ''approved'')]"

definition sample_answered :: agent_state where
  "sample_answered =
     (let s = snd sample_start in
      run_ops s (snd (mapInteractionResolved (store_lookups None (st_items s)) ''a1'' sample_answer
        (fst (projr (mapInteractionRequested sample_approval (newProjector 0)))))))"

theorem interaction_settles_witness:
  "\<exists>y. jm_get (st_interactions sample_answered) ''a1'' = Some y \<and> int_state y = IApproved"
proof -
  have asked: "mapInteractionRequested sample_approval (newProjector 0) = Inr r"
    if "r = projr (mapInteractionRequested sample_approval (newProjector 0))" for r
    using that by (simp add: mapInteractionRequested_def sample_approval_def Let_def)
  obtain p1 ops1 where r: "projr (mapInteractionRequested sample_approval (newProjector 0)) = (p1, ops1)" by fastforce
  obtain p3 ops2 where a: "mapInteractionResolved (store_lookups None (st_items (snd sample_start))) (pi_id sample_approval) sample_answer p1
      = (p3, ops2)" by fastforce
  have "feed no_json None [] (p1, snd sample_start) = (p1, snd sample_start)" by simp
  from interaction_settles [OF asked [OF r [symmetric]] this a]
  show ?thesis using r a
    by (simp add: sample_answered_def sample_approval_def sample_answer_def EventProjector.mapInteractionEndState_def Let_def)
      blast
qed

section \<open>Interactions answered before their agent is seeded\<close>

lemma emit_bookkeeping: "emit env i r bs = (bs2, calls, err) \<Longrightarrow> \<exists>ps. fst bs2 = (fst bs)\<lparr>bd_projectors := ps\<rparr>"
  by (auto simp: emit_def Let_def split: sum.splits prod.splits intro: exI [of _ "bd_projectors (fst bs)"])

lemma projectorFor_bookkeeping: "\<exists>ps. fst (projectorFor env i b) = b\<lparr>bd_projectors := ps\<rparr>"
  by (auto simp: projectorFor_def Let_def split: option.split intro: exI [of _ "bd_projectors b"])

lemma announce_bookkeeping:
  assumes "announceInteraction env y bs = (bs2, calls, err)"
  shows "bd_unseeded (fst bs2) = bd_unseeded (fst bs)" "bd_earlyResolves (fst bs2) = bd_earlyResolves (fst bs)"
    "k \<noteq> ia_id y \<Longrightarrow> jm_get (bd_interactionAgents (fst bs2)) k = jm_get (bd_interactionAgents (fst bs)) k"
proof -
  have "bd_unseeded (fst bs2) = bd_unseeded (fst bs) \<and> bd_earlyResolves (fst bs2) = bd_earlyResolves (fst bs)
      \<and> (k \<noteq> ia_id y \<longrightarrow> jm_get (bd_interactionAgents (fst bs2)) k = jm_get (bd_interactionAgents (fst bs)) k)"
  proof (cases "interaction_kind_of y")
    case None
    with assms show ?thesis by (simp add: announceInteraction_def)
  next
    case (Some kind)
    show ?thesis
    proof (cases "interactionAgentId y")
      case (Inl e)
      with Some assms show ?thesis by (simp add: announceInteraction_def)
    next
      case (Inr i)
      let ?b = "(fst bs)\<lparr>bd_interactionAgents := jm_set (ia_id y) i (bd_interactionAgents (fst bs))\<rparr>"
      obtain b2 p where q: "projectorFor env i ?b = (b2, p)" by fastforce
      obtain ps where "b2 = ?b\<lparr>bd_projectors := ps\<rparr>" using projectorFor_bookkeeping [of env i ?b] q by auto
      with Some Inr q assms show ?thesis by (auto simp: announceInteraction_def Let_def dest!: emit_bookkeeping)
    qed
  qed
  then show "bd_unseeded (fst bs2) = bd_unseeded (fst bs)" "bd_earlyResolves (fst bs2) = bd_earlyResolves (fst bs)"
    "k \<noteq> ia_id y \<Longrightarrow> jm_get (bd_interactionAgents (fst bs2)) k = jm_get (bd_interactionAgents (fst bs)) k" by blast+
qed

lemma resolve_bookkeeping:
  "resolveInteraction env i k r bs = (bs2, calls, err) \<Longrightarrow> \<exists>ps. fst bs2 = (fst bs)\<lparr>bd_projectors := ps\<rparr>"
  by (auto simp: resolveInteraction_def split: option.splits dest: emit_bookkeeping intro: exI [of _ "bd_projectors (fst bs)"])

text \<open>An answer that waits for its interaction to be announced, when nobody will announce it for an agent any more.\<close>

definition stranded :: "string \<Rightarrow> interaction \<Rightarrow> agent_id \<times> json \<Rightarrow> binding \<Rightarrow> bool" where
  "stranded k x answer b \<longleftrightarrow>
     jm_get (bd_unseeded b) k = Some x \<and> jm_get (bd_earlyResolves b) k = Some answer \<and> jm_get (bd_interactionAgents b) k = None"

lemma and_then_cases:
  assumes "and_then r f = (bs2, calls, err)"
  obtains bs1 c e where "r = (bs1, c, Some e)" "bs2 = bs1"
    | bs1 c c2 where "r = (bs1, c, None)" "f bs1 = (bs2, c2, err)"
  using assms by (auto simp: and_then_def split: prod.splits option.splits)

lemma stranded_announce:
  assumes "announceInteraction env y bs = (bs2, c, e)" "stranded k x a (fst bs)" "ia_id y \<noteq> k"
  shows "stranded k x a (fst bs2)"
  using announce_bookkeeping [OF assms(1)] assms(2,3) by (simp add: stranded_def)

lemma stranded_seed_one:
  assumes "seed_one env j y bs = (bs2, c, e)" "stranded k x a (fst bs)" "ia_id y = j" "j \<noteq> k"
  shows "stranded k x a (fst bs2)"
  using assms(1) unfolding seed_one_def
proof (cases rule: and_then_cases)
  case (1 bs1 c1 e1)
  have "stranded k x a (fst bs1)"
    by (rule stranded_announce [OF 1(1)]) (use assms(2-4) in \<open>simp_all add: stranded_def\<close>)
  with 1(2) show ?thesis by simp
next
  case (2 bs1 c1 c2)
  have s1: "stranded k x a (fst bs1)"
    by (rule stranded_announce [OF 2(1)]) (use assms(2-4) in \<open>simp_all add: stranded_def\<close>)
  show ?thesis
    using 2(2) s1 assms(4) by (auto simp: stranded_def split: prod.splits option.splits dest!: resolve_bookkeeping)
qed

lemma stranded_seed_loop:
  assumes "seed_loop env (Some i) xs bs = (bs2, c, e)" "stranded k x a (fst bs)" "\<forall>(j, y) \<in> set xs. ia_id y = j"
  shows "stranded k x a (fst bs2)"
  using assms
proof (induction xs arbitrary: bs bs2 c e)
  case (Cons jy xs)
  obtain j y where jy: "jy = (j, y)" by fastforce
  show ?case
  proof (cases "jm_get (bd_interactionAgents (fst bs)) j = Some i")
    case False
    then show ?thesis using Cons by (simp add: jy)
  next
    case True
    then have ne: "j \<noteq> k" using Cons.prems(2) by (auto simp: stranded_def)
    have ia: "ia_id y = j" using Cons.prems(3) by (simp add: jy)
    have "and_then (seed_one env j y bs) (seed_loop env (Some i) xs) = (bs2, c, e)" using Cons.prems(1) True by (simp add: jy)
    then show ?thesis
    proof (cases rule: and_then_cases)
      case (1 bs1 c1 e1)
      then show ?thesis using stranded_seed_one [OF _ Cons.prems(2) ia ne] by metis
    next
      case (2 bs1 c1 c2)
      have "stranded k x a (fst bs1)" by (rule stranded_seed_one [OF 2(1) Cons.prems(2) ia ne])
      then show ?thesis using Cons.IH [OF 2(2)] Cons.prems(3) by simp
    qed
  qed
qed simp

lemma stranded_sweep_loop:
  assumes "sweep_loop env (Some i) xs bs = (bs2, c, e)" "stranded k x a (fst bs)" "k \<notin> ia_id ` set xs"
  shows "stranded k x a (fst bs2)"
  using assms
proof (induction xs arbitrary: bs bs2 c e)
  case (Cons y xs)
  have ne: "ia_id y \<noteq> k" using Cons.prems(3) by auto
  show ?case
  proof (cases "ia_id y \<in> set (bd_knownInteractions (fst bs))")
    case True
    with Cons show ?thesis by simp
  next
    case new: False
    let ?bs = "((fst bs)\<lparr>bd_knownInteractions := js_set_add (ia_id y) (bd_knownInteractions (fst bs))\<rparr>, snd bs)"
    show ?thesis
    proof (cases "interactionAgentId y = Inr i")
      case False
      with new Cons show ?thesis by (auto split: sum.splits)
    next
      case True
      then have "and_then (announceInteraction env y ?bs) (sweep_loop env (Some i) xs) = (bs2, c, e)"
        using new Cons.prems(1) by simp
      moreover have s0: "stranded k x a (fst ?bs)" using Cons.prems(2) by (simp add: stranded_def)
      ultimately show ?thesis
      proof (cases rule: and_then_cases)
        case (1 bs1 c1 e1)
        then show ?thesis using stranded_announce [OF 1(1) s0 ne] by simp
      next
        case (2 bs1 c1 c2)
        then show ?thesis using Cons.IH [OF 2(2) stranded_announce [OF 2(1) s0 ne]] Cons.prems(3) by simp
      qed
    qed
  qed
qed simp

text \<open>
  C37: an answer that comes before the interaction was announced is lost. Every caller seeds agent by agent; the
  answer has removed the agent of the interaction, and so no agent's seeding, whatever is pending then, announces
  the interaction or hands out its answer: both stay where they are.
\<close>

theorem early_answer_is_lost:
  assumes "jm_get (bd_unseeded b) k = Some x" "jm_get (bd_interactionAgents b) k = Some i"
    and "onDidResolve env k response (b, sv) = (bs1, calls, err)"
    and "\<forall>(j, y) \<in> set (bd_unseeded b). ia_id y = j" "k \<notin> ia_id ` set pending"
    and "seedPendingInteractions env (Some a) pending bs1 = (bs2, calls2, err2)"
  shows "calls = [] \<and> jm_get (bd_unseeded (fst bs2)) k = Some x \<and> jm_get (bd_earlyResolves (fst bs2)) k = Some (i, response) \<and>
    jm_get (bd_interactionAgents (fst bs2)) k = None"
proof -
  have one: "stranded k x (i, response) (fst bs1)" "bd_unseeded (fst bs1) = bd_unseeded b" "calls = []"
    using assms(1-3) by (auto simp: onDidResolve_def Let_def stranded_def)
  let ?b = "(fst bs1)\<lparr>bd_seededAgents := js_set_add a (bd_seededAgents (fst bs1))\<rparr>"
  have s: "stranded k x (i, response) ?b" using one(1) by (simp add: stranded_def)
  have "and_then (seed_loop env (Some a) (bd_unseeded ?b) (?b, snd bs1)) (sweep_loop env (Some a) pending) = (bs2, calls2, err2)"
    using assms(6) by (simp add: seedPendingInteractions_def)
  then have "stranded k x (i, response) (fst bs2)"
  proof (cases rule: and_then_cases)
    case (1 bs3 c e)
    then show ?thesis using stranded_seed_loop [OF 1(1)] s one(2) assms(4) by simp
  next
    case (2 bs3 c c2)
    have "stranded k x (i, response) (fst bs3)" using stranded_seed_loop [OF 2(1)] s one(2) assms(4) by simp
    from stranded_sweep_loop [OF 2(2) this assms(5)] show ?thesis .
  qed
  with one(3) show ?thesis by (simp add: stranded_def)
qed

definition sample_waiting :: binding where
  "sample_waiting = newBinding
     \<lparr>bd_knownInteractions := [''a1''], bd_interactionAgents := [(''a1'', ''main'')],
      bd_unseeded := [(''a1'', \<lparr>ia_id = ''a1'', ia_kind = ''approval'', ia_payload = JObj 3 [], ia_originAgentId = Some ''main''\<rparr>)]\<rparr>"

theorem early_answer_is_lost_witness:
  "jm_get (bd_unseeded (fst (fst (seedPendingInteractions sample_env (Some ''main'') []
     (fst (onDidResolve sample_env ''a1'' sample_answer (sample_waiting, sample_service))))))) ''a1'' \<noteq> None"
proof -
  let ?x = "\<lparr>ia_id = ''a1'', ia_kind = ''approval'', ia_payload = JObj 3 [], ia_originAgentId = Some ''main''\<rparr>"
  have w: "jm_get (bd_unseeded sample_waiting) ''a1'' = Some ?x" "jm_get (bd_interactionAgents sample_waiting) ''a1'' = Some ''main''"
    "\<forall>(j, y) \<in> set (bd_unseeded sample_waiting). ia_id y = j"
    by (simp_all add: sample_waiting_def jm_get_def)
  obtain bs1 c e where r: "onDidResolve sample_env ''a1'' sample_answer (sample_waiting, sample_service) = (bs1, c, e)" by (metis prod_cases3)
  obtain bs2 c2 e2 where f: "seedPendingInteractions sample_env (Some ''main'') [] bs1 = (bs2, c2, e2)" by (metis prod_cases3)
  from early_answer_is_lost [OF w(1,2) r w(3) _ f] r f show ?thesis by simp
qed

end
