(* ===== verification/ActivityProps.thy ===== *)
theory ActivityProps
  imports BindingProps
begin

text \<open>
  The activity view over the events of an agent, the phase the first protocol version makes of it, and where the
  live mapping of a fact and the mapping of the same fact read from disk agree.
\<close>

section \<open>The view\<close>

fun view_run :: "(number \<times> domain_event) list \<Rightarrow> activity_view \<Rightarrow> activity_view \<times> agent_activity list" where
  "view_run [] v = (v, [])"
| "view_run ((now, e) # es) v =
     (let (v2, out) = view_event now e v; (v3, later) = view_run es v2
      in (v3, (case out of None \<Rightarrow> later | Some a \<Rightarrow> a # later)))"

lemma activityEqual_refl [simp]: "activityEqual a a"
  by (auto simp: activityEqual_def turns_equal_def list_all2_refl split: option.split)

text \<open>A step of the view: what is known outside is equal to the state, and a publication is news.\<close>

definition in_step :: "activity_view \<Rightarrow> bool" where
  "in_step v \<longleftrightarrow> activityEqual (vw_current v) (view_state v)"

definition told :: "activity_view \<Rightarrow> view_result \<Rightarrow> bool" where
  "told v r \<longleftrightarrow>
     in_step (fst r) \<and>
     (case snd r of
        None \<Rightarrow> vw_current (fst r) = vw_current v
      | Some a \<Rightarrow> vw_current (fst r) = a \<and> \<not> activityEqual (vw_current v) a)"

lemma told_same: "in_step v \<Longrightarrow> told v (v, None)"
  by (simp add: told_def)

lemma view_state_current [simp]: "view_state (v\<lparr>vw_current := a\<rparr>) = view_state v"
  by (simp add: view_state_def)

lemma told_publish: "vw_current w = vw_current v \<Longrightarrow> told v (publish w)"
  by (auto simp: told_def publish_def in_step_def Let_def)

lemma in_step_publish: "in_step (fst (publish w))"
  using told_publish [of w w] by (simp add: told_def)

lemma told_mutate: "in_step v \<Longrightarrow> told v (mutateTurn f v)"
  by (auto simp: mutateTurn_def intro: told_same told_publish split: option.split)

lemma told_event: "in_step v \<Longrightarrow> told v (view_event now e v)"
  by (auto simp: view_event_def view_onTurnStarted_def view_onTurnEnded_def view_onStepStarted_def onStepInterrupted_def
      onDelta_def view_onToolCallStarted_def view_onToolResult_def onApprovalRequested_def onApprovalResolved_def
      onFullCompactionEnded_def onRetrying_def onStepDone_def
      intro: told_same told_publish told_mutate split: domain_event.split option.split compaction_phase.split)

lemma new_view_in_step: "in_step (newActivityView now activeTurn infos compacting)"
proof -
  have seed: "in_step v \<Longrightarrow> in_step (fst (seedFromLoop now activeTurn v))" for v
    by (auto simp: seedFromLoop_def publish_def in_step_def Let_def split: option.split)
  have comp: "in_step v \<Longrightarrow> in_step (fst (seedFromFullCompaction now compacting v))" for v
    by (auto simp: seedFromFullCompaction_def publish_def in_step_def Let_def)
  have tasks: "in_step (fst (seedFromTasks infos v))" if "in_step v" "vw_background v = []" for v
  proof (cases "fold (\<lambda>b. jm_set (bg_id b) b) infos [] = []")
    case True
    moreover have "in_step (v\<lparr>vw_background := []\<rparr>)" using that by (simp add: in_step_def view_state_def)
    ultimately show ?thesis using that by (simp add: seedFromTasks_def)
  next
    case False
    then show ?thesis using that(2) by (simp add: seedFromTasks_def in_step_publish)
  qed
  have none: "vw_background (fst (seedFromLoop now activeTurn initial_view)) = []"
    by (simp add: seedFromLoop_def publish_def initial_view_def Let_def split: option.split)
  have "in_step initial_view" by (simp add: in_step_def initial_view_def view_state_def activityEqual_def jm_values_def)
  then show ?thesis by (simp add: newActivityView_def seed comp tasks none)
qed

text \<open>
  Whoever listens to the activity of an agent is not behind in what \<open>activityEqual\<close> compares: after any events, the
  last state it was told (or read at first) and the state of the view agree in it, and no two it is told in a row do.
\<close>

theorem activity_listener_in_step:
  "case view_run es (newActivityView now activeTurn infos compacting) of (v, pubs) \<Rightarrow>
     activityEqual (last (vw_current (newActivityView now activeTurn infos compacting) # pubs)) (view_state v)
     \<and> successively (\<lambda>a b. \<not> activityEqual a b) (vw_current (newActivityView now activeTurn infos compacting) # pubs)"
proof -
  obtain v pubs where run: "view_run es (newActivityView now activeTurn infos compacting) = (v, pubs)" by fastforce
  have "in_step w \<Longrightarrow> view_run es w = (v, pubs) \<Longrightarrow>
      last (vw_current w # pubs) = vw_current v \<and> in_step v \<and> successively (\<lambda>a b. \<not> activityEqual a b) (vw_current w # pubs)" for w
  proof (induction es arbitrary: w pubs)
    case (Cons ne es)
    obtain t e where ne: "ne = (t, e)" by fastforce
    obtain w2 out where w2: "view_event t e w = (w2, out)" by fastforce
    obtain pubs2 where rest: "view_run es w2 = (v, pubs2)" "pubs = (case out of None \<Rightarrow> pubs2 | Some a \<Rightarrow> a # pubs2)"
      using Cons.prems(2) w2 by (auto simp: ne split: prod.splits)
    have told: "told w (w2, out)" using told_event [OF Cons.prems(1), of t e] w2 by simp
    then have "in_step w2" by (simp add: told_def)
    note IH = Cons.IH [OF this rest(1)]
    show ?case using IH told rest(2) by (cases out) (auto simp: told_def)
  qed simp
  from this [OF new_view_in_step run] show ?thesis by (simp add: run in_step_def)
qed

section \<open>The phase\<close>

definition inside_turn :: "domain_event \<Rightarrow> bool" where
  "inside_turn e = (case e of EvTurnStarted _ _ _ \<Rightarrow> False | EvTurnEnded _ \<Rightarrow> False | _ \<Rightarrow> True)"

definition interrupts :: "domain_event \<Rightarrow> bool" where
  "interrupts e = (case e of EvStepInterrupted _ _ reason _ \<Rightarrow> interrupt_reason_of reason \<noteq> None | _ \<Rightarrow> False)"

lemma publish_fields [simp]:
  "vw_turn (fst (publish v)) = vw_turn v" "vw_lifecycle (fst (publish v)) = vw_lifecycle v"
  by (simp_all add: publish_def Let_def)

lemma mutate_turn [simp]: "vw_turn (fst (mutateTurn f v)) = map_option f (vw_turn v)"
  by (simp add: mutateTurn_def split: option.split)

lemma mutate_lifecycle [simp]: "vw_lifecycle (fst (mutateTurn f v)) = vw_lifecycle v"
  by (simp add: mutateTurn_def split: option.split)

text \<open>What an event inside a turn leaves of the turn.\<close>

lemma view_event_turn:
  assumes "inside_turn e"
  shows "vw_lifecycle (fst (view_event now e v)) = vw_lifecycle v"
    "map_option (\<lambda>t. (mt_turnId t, mt_since t)) (vw_turn (fst (view_event now e v)))
       = map_option (\<lambda>t. (mt_turnId t, mt_since t)) (vw_turn v)"
    "\<not> interrupts e \<Longrightarrow> map_option (\<lambda>t. (mt_ending t, mt_endingReason t)) (vw_turn (fst (view_event now e v)))
       = map_option (\<lambda>t. (mt_ending t, mt_endingReason t)) (vw_turn v)"
  using assms
  by (auto simp: inside_turn_def interrupts_def view_event_def view_onStepStarted_def onStepInterrupted_def onDelta_def
      view_onToolCallStarted_def view_onToolResult_def onApprovalRequested_def onApprovalResolved_def onFullCompactionEnded_def
      onRetrying_def onStepDone_def option.map_comp comp_def Let_def
      split: domain_event.splits option.splits compaction_phase.splits intro: option.map_cong)

lemma view_run_fst: "fst (view_run ((t, e) # es) v) = fst (view_run es (fst (view_event t e v)))"
  by (simp split: prod.split)

lemma view_run_append: "fst (view_run (xs @ ys) v) = fst (view_run ys (fst (view_run xs v)))"
proof (induction xs arbitrary: v)
  case (Cons x xs)
  obtain t e where x: "x = (t, e)" by fastforce
  show ?case unfolding x append_Cons view_run_fst by (rule Cons.IH)
qed simp

lemma view_run_turn:
  assumes "list_all (inside_turn \<circ> snd) es"
  shows "vw_lifecycle (fst (view_run es v)) = vw_lifecycle v"
    "map_option (\<lambda>t. (mt_turnId t, mt_since t)) (vw_turn (fst (view_run es v))) = map_option (\<lambda>t. (mt_turnId t, mt_since t)) (vw_turn v)"
    "list_all (\<lambda>e. \<not> interrupts (snd e)) es \<Longrightarrow>
       map_option (\<lambda>t. (mt_ending t, mt_endingReason t)) (vw_turn (fst (view_run es v)))
       = map_option (\<lambda>t. (mt_ending t, mt_endingReason t)) (vw_turn v)"
proof -
  have "vw_lifecycle (fst (view_run es v)) = vw_lifecycle v \<and>
    map_option (\<lambda>t. (mt_turnId t, mt_since t)) (vw_turn (fst (view_run es v))) = map_option (\<lambda>t. (mt_turnId t, mt_since t)) (vw_turn v) \<and>
    (list_all (\<lambda>e. \<not> interrupts (snd e)) es \<longrightarrow>
       map_option (\<lambda>t. (mt_ending t, mt_endingReason t)) (vw_turn (fst (view_run es v)))
       = map_option (\<lambda>t. (mt_ending t, mt_endingReason t)) (vw_turn v))"
    using assms
  proof (induction es arbitrary: v)
    case (Cons ne es)
    obtain t e where ne: "ne = (t, e)" by fastforce
    have e: "inside_turn e" and es: "list_all (inside_turn \<circ> snd) es" using Cons.prems by (simp_all add: ne comp_def)
    note one = view_event_turn [OF e, of t v]
    show ?case unfolding ne view_run_fst using Cons.IH [OF es, of "fst (view_event t e v)"] one by (simp add: ne)
  qed simp
  then show "vw_lifecycle (fst (view_run es v)) = vw_lifecycle v"
    "map_option (\<lambda>t. (mt_turnId t, mt_since t)) (vw_turn (fst (view_run es v))) = map_option (\<lambda>t. (mt_turnId t, mt_since t)) (vw_turn v)"
    "list_all (\<lambda>e. \<not> interrupts (snd e)) es \<Longrightarrow>
       map_option (\<lambda>t. (mt_ending t, mt_endingReason t)) (vw_turn (fst (view_run es v)))
       = map_option (\<lambda>t. (mt_ending t, mt_endingReason t)) (vw_turn v)" by blast+
qed

text \<open>
  A turn that was seen to start and to end leaves the phase the second event gives: ended, with the reason and
  the time from the one to the other, whatever happened in between.
\<close>

theorem phase_after_turn:
  assumes "vw_lifecycle v = LifeReady" "list_all (inside_turn \<circ> snd) es" "te_turnId e = n"
    and "view_run ((t1, EvTurnStarted n og prompt) # es @ [(t2, EvTurnEnded e)]) v = (w, pubs)"
  shows "toLegacyPhase ref (view_state w) = Some (PhaseEnded (of_int n) (te_reason e) (Some (t2 - t1)) t2)"
proof -
  let ?v1 = "fst (view_event t1 (EvTurnStarted n og prompt) v)"
  let ?v2 = "fst (view_run es ?v1)"
  have v1: "vw_lifecycle ?v1 = LifeReady" "map_option (\<lambda>t. (mt_turnId t, mt_since t)) (vw_turn ?v1) = Some (n, t1)"
    using assms(1) by (simp_all add: view_event_def view_onTurnStarted_def new_mutable_turn_def)
  have w: "w = fst (view_event t2 (EvTurnEnded e) ?v2)"
  proof -
    have "w = fst (view_run (((t1, EvTurnStarted n og prompt) # es) @ [(t2, EvTurnEnded e)]) v)" using assms(4) by simp
    also have "\<dots> = fst (view_event t2 (EvTurnEnded e) ?v2)" unfolding view_run_append view_run_fst by simp
    finally show ?thesis .
  qed
  have v2: "vw_lifecycle ?v2 = LifeReady" "map_option (\<lambda>t. (mt_turnId t, mt_since t)) (vw_turn ?v2) = Some (n, t1)"
    using view_run_turn [OF assms(2), of ?v1] v1 by simp_all
  then obtain t where "vw_turn ?v2 = Some t" "mt_turnId t = n" "mt_since t = t1" by auto
  with v2(1) assms(3) show ?thesis
    by (simp add: w view_event_def view_onTurnEnded_def publish_def view_state_def toLegacyPhase_def Let_def)
qed

definition sample_end :: turn_ended_event where
  "sample_end = \<lparr>te_turnId = 4, te_reason = turn_end_reason.EndCompleted, te_error = None, te_durationMs = None\<rparr>"

theorem phase_after_turn_witness:
  "toLegacyPhase 9 (view_state (fst (view_run
       ((100, EvTurnStarted 4 JUndef None) # [(110, EvStepStarted 4 1), (120, EvAssistantDelta 4 ''x'')] @ [(150, EvTurnEnded sample_end)])
       initial_view))) = Some (PhaseEnded 4 turn_end_reason.EndCompleted (Some 50) 150)"
proof -
  let ?es = "[(110, EvStepStarted 4 1), (120, EvAssistantDelta 4 ''x'')] :: (number \<times> domain_event) list"
  obtain w pubs where run: "view_run ((100, EvTurnStarted 4 JUndef None) # ?es @ [(150, EvTurnEnded sample_end)]) initial_view = (w, pubs)"
    by (metis surj_pair)
  have "vw_lifecycle initial_view = LifeReady" "list_all (inside_turn \<circ> snd) ?es" "te_turnId sample_end = 4"
    by (simp_all add: initial_view_def inside_turn_def sample_end_def)
  from phase_after_turn [OF this run, of 9] show ?thesis using run by (simp add: sample_end_def)
qed

text \<open>
  C38: one cancelled step is shown until its turn is over: nothing that happens inside the turn, not even a new step
  that streams, takes the phase back from interrupted, except while an approval is pending.
\<close>

theorem interrupted_phase_sticks:
  assumes "vw_lifecycle v = LifeReady" "vw_turn v = Some t" "mt_turnId t = n" "interrupt_reason_of reason = Some r"
    and "list_all (inside_turn \<circ> snd) es" "list_all (\<lambda>e. \<not> interrupts (snd e)) es"
    and "view_run ((t1, EvStepInterrupted n k reason msg) # es) v = (w, pubs)"
  shows "case toLegacyPhase ref (view_state w) of
      Some (PhaseInterrupted m _ r2 _ since) \<Rightarrow> m = of_int n \<and> r2 = r \<and> since = mt_since t
    | Some (PhaseAwaitingApproval m _ _ _) \<Rightarrow> m = of_int n
    | _ \<Rightarrow> False"
proof -
  let ?v1 = "fst (view_event t1 (EvStepInterrupted n k reason msg) v)"
  have w: "w = fst (view_run es ?v1)" using assms(7) by (auto split: prod.splits)
  have v1: "vw_lifecycle ?v1 = LifeReady" "map_option (\<lambda>t. (mt_turnId t, mt_since t)) (vw_turn ?v1) = Some (n, mt_since t)"
    "map_option (\<lambda>t. (mt_ending t, mt_endingReason t)) (vw_turn ?v1) = Some (True, Some r)"
    using assms(1-4) by (simp_all add: view_event_def onStepInterrupted_def)
  have w1: "vw_lifecycle w = LifeReady" "map_option (\<lambda>t. (mt_turnId t, mt_since t)) (vw_turn w) = Some (n, mt_since t)"
    "map_option (\<lambda>t. (mt_ending t, mt_endingReason t)) (vw_turn w) = Some (True, Some r)"
    using view_run_turn [OF assms(5), of ?v1] assms(6) v1 by (simp_all add: w)
  then obtain u where "vw_turn w = Some u" "mt_turnId u = n" "mt_since u = mt_since t" "mt_ending u" "mt_endingReason u = Some r"
    by auto
  with w1(1) show ?thesis by (simp add: view_state_def toLegacyPhase_def turn_snapshot_def Let_def)
qed

definition sample_view :: activity_view where
  "sample_view = fst (view_event 100 (EvTurnStarted 4 JUndef None) initial_view)"

theorem interrupted_phase_sticks_witness:
  "case toLegacyPhase 9 (view_state (fst (view_run
       ((120, EvStepInterrupted 4 1 ''aborted'' None) # [(130, EvStepStarted 4 2), (140, EvAssistantDelta 4 ''x'')]) sample_view))) of
     Some (PhaseInterrupted m _ r _ since) \<Rightarrow> m = 4 \<and> r = ReasonAborted \<and> since = 100
   | Some (PhaseAwaitingApproval m _ _ _) \<Rightarrow> m = 4
   | _ \<Rightarrow> False"
proof -
  let ?es = "[(130, EvStepStarted 4 2), (140, EvAssistantDelta 4 ''x'')] :: (number \<times> domain_event) list"
  let ?t = "new_mutable_turn 100 4 USER_PROMPT_ORIGIN"
  have v: "vw_lifecycle sample_view = LifeReady" "vw_turn sample_view = Some ?t" "mt_turnId ?t = 4"
    "interrupt_reason_of ''aborted'' = Some ReasonAborted" "list_all (inside_turn \<circ> snd) ?es" "list_all (\<lambda>e. \<not> interrupts (snd e)) ?es"
    by (simp_all add: sample_view_def view_event_def view_onTurnStarted_def initial_view_def new_mutable_turn_def inside_turn_def
        interrupts_def interrupt_reason_of_def)
  obtain w pubs where run: "view_run ((120, EvStepInterrupted 4 1 ''aborted'' None) # ?es) sample_view = (w, pubs)" by (metis surj_pair)
  from interrupted_phase_sticks [OF v run, of 9] show ?thesis using run
    by (simp add: new_mutable_turn_def cong: agent_phase.case_cong option.case_cong)
qed

section \<open>Live and from disk\<close>

text \<open>
  C34: the mapping of a turn's origin while it runs and the one of the same origin read from the history, which is
  said to mirror it, agree exactly on the origins that are neither missing, nor a user's, nor a compaction summary.
\<close>

theorem live_and_cold_origins:
  "mapTurnOrigin (hm_origin m) = mapOrigin m \<longleftrightarrow>
     js_opt_prop (hm_origin m) ''kind'' \<notin> {JUndef, JStr ''user'', JStr ''compaction_summary''}"
proof -
  have "hm_origin m \<noteq> JUndef" if "js_opt_prop (hm_origin m) ''kind'' = JStr k" for k
    using that by auto
  then show ?thesis
    by (cases "js_opt_prop (hm_origin m) ''kind''") (auto simp: mapTurnOrigin_def mapOrigin_def Let_def split: json.split)
qed

lemma live_and_cold_interactions: "EventProjector.mapInteractionEndState = FoldFacts.mapInteractionEndState"
  by (auto simp: fun_eq_iff EventProjector.mapInteractionEndState_def FoldFacts.mapInteractionEndState_def Let_def)

lemma live_and_cold_tasks: "EventProjector.mapTaskKind k = FoldFacts.mapTaskKind (JStr k)"
  by (simp add: EventProjector.mapTaskKind_def FoldFacts.mapTaskKind_def)

section \<open>A retried step\<close>

text \<open>
  The loop answers a retryable failure by driving a new step: what the failed attempt streamed is never written
  whole, and its step is still running, with its retry, when the turn has completed.
\<close>

definition retry_events :: "(string \<times> domain_event) list" where
  "retry_events =
     [(''T1'', EvStepStarted 4 1), (''T1'', EvAssistantDelta 4 ''He''),
      (''T1'', EvStepRetrying \<lparr>rt_turnId = 4, rt_step = 1, rt_failedAttempt = 1, rt_nextAttempt = 2, rt_maxAttempts = 3,
         rt_delayMs = 500, rt_errorName = ''APIError'', rt_errorMessage = ''overloaded'', rt_statusCode = Some 529\<rparr>),
      (''T2'', EvStepStarted 4 2), (''T2'', EvAssistantDelta 4 ''Hello''), (''T2'', EvStepCompleted (sample_done 4 2)),
      (''T3'', EvTurnEnded sample_end)]"

lemma retried_step_stays_running:
  "(case feed no_json None retry_events sample_start of (p, s) \<Rightarrow>
      map_option (\<lambda>t. (turn_state t, map (\<lambda>st. (step_stepId st, step_state st, step_endedAt st, step_retry st = None)) (turn_steps t)))
        (getTurn (st_items s) (turnId 4)))
   = Some (TurnCompleted, [(''t4.1'', StepRunning, None, False), (''t4.2'', StepCompleted, Some ''T2'', True)])"
  by code_simp

end
