(* ===== verification/TurnClock.thy ===== *)
theory TurnClock
  imports JsValue
begin

text \<open>
  The turn clock of the wire (\<open>packages/agent-core-v2/src/agent/loop/turnOps.ts\<close>): the next turn id, and the
  reserved ids above it whose turns were cancelled while they waited. Ids are natural numbers. The operations are
  those the journal records, so a restart finds the clock by applying them again.
\<close>

section \<open>The clock\<close>

record turn_clock =
  tc_nextTurnId :: nat
  tc_cancelledTurnIds :: "nat list"

definition initial_clock :: turn_clock where
  "initial_clock = \<lparr>tc_nextTurnId = 0, tc_cancelledTurnIds = []\<rparr>"

text \<open>\<open>while (pendingCancellations.delete(nextTurnId)) nextTurnId += 1\<close>\<close>

function skip_cancelled :: "nat list \<Rightarrow> nat \<Rightarrow> nat \<times> nat list" where
  "skip_cancelled ids n = (if n \<in> set ids then skip_cancelled (removeAll n ids) (Suc n) else (n, ids))"
  by auto
termination by (relation "measure (\<lambda>(ids, n). length ids)") (auto simp: length_removeAll_less)

declare skip_cancelled.simps [simp del]

definition advanceTurnClock :: "nat \<Rightarrow> nat list \<Rightarrow> turn_clock" where
  "advanceTurnClock next ids =
     (let (n, rest) = skip_cancelled (remdups (filter (\<lambda>i. next \<le> i) ids)) next
      in \<lparr>tc_nextTurnId = n, tc_cancelledTurnIds = sort rest\<rparr>)"

datatype cancel_target = TargetActive | TargetQueued

datatype turn_op =
    OpPrompt
  | OpSteer
  | OpCancel "nat option" "cancel_target option"
  | OpLoopEvent nat

text \<open>The last one is the reducer of \<open>context.append_loop_event\<close> on an event with a turn id.\<close>

fun apply_turn_op :: "turn_clock \<Rightarrow> turn_op \<Rightarrow> turn_clock" where
  "apply_turn_op c OpPrompt = advanceTurnClock (tc_nextTurnId c + 1) (tc_cancelledTurnIds c)"
| "apply_turn_op c OpSteer = c"
| "apply_turn_op c (OpCancel turn target) =
     (case (turn, target) of
        (Some i, Some _) \<Rightarrow>
          if i < tc_nextTurnId c then c else advanceTurnClock (tc_nextTurnId c) (tc_cancelledTurnIds c @ [i])
      | _ \<Rightarrow> c)"
| "apply_turn_op c (OpLoopEvent i) =
     (if tc_nextTurnId c \<le> i then advanceTurnClock (i + 1) (tc_cancelledTurnIds c) else c)"

definition replay_clock :: "turn_op list \<Rightarrow> turn_clock" where
  "replay_clock ops = foldl apply_turn_op initial_clock ops"

text \<open>The ids of the turns that a journal opened, as its replay numbers them.\<close>

fun replayed_turns :: "turn_clock \<Rightarrow> turn_op list \<Rightarrow> nat list" where
  "replayed_turns c [] = []"
| "replayed_turns c (op # ops) = (if op = OpPrompt then [tc_nextTurnId c] else []) @ replayed_turns (apply_turn_op c op) ops"

lemma replayed_turns_append:
  "replayed_turns c (ops @ ops') = replayed_turns c ops @ replayed_turns (foldl apply_turn_op c ops) ops'"
  by (induction ops arbitrary: c) auto

section \<open>What the loop computes\<close>

lemma skip_cancelled_spec:
  "skip_cancelled ids n = (m, rest) \<Longrightarrow>
   n \<le> m \<and> {n..<m} \<subseteq> set ids \<and> set rest = set ids - {n..<m} \<and> m \<notin> set ids \<and> (distinct ids \<longrightarrow> distinct rest)"
proof (induction ids n rule: skip_cancelled.induct)
  case (1 ids n)
  show ?case
  proof (cases "n \<in> set ids")
    case True
    then have "skip_cancelled (removeAll n ids) (Suc n) = (m, rest)" using 1(2) by (simp add: skip_cancelled.simps)
    from 1(1) [OF True this] have le: "Suc n \<le> m" and sub: "{Suc n..<m} \<subseteq> set ids - {n}"
      and rest: "set rest = set ids - {n} - {Suc n..<m}" and out: "m \<notin> set ids - {n}"
      and d: "distinct (removeAll n ids) \<longrightarrow> distinct rest" by auto
    have "{n..<m} = insert n {Suc n..<m}" using le by auto
    then show ?thesis using le sub rest out d True by (auto simp: distinct_removeAll)
  next
    case False
    then show ?thesis using 1(2) by (simp add: skip_cancelled.simps)
  qed
qed

lemma advanceTurnClock_spec:
  assumes "advanceTurnClock n ids = c"
  shows "n \<le> tc_nextTurnId c" "{n..<tc_nextTurnId c} \<subseteq> set ids"
    "set (tc_cancelledTurnIds c) = {i \<in> set ids. tc_nextTurnId c < i}" "tc_nextTurnId c \<notin> set ids"
    "sorted (tc_cancelledTurnIds c)" "distinct (tc_cancelledTurnIds c)"
proof -
  obtain m rest where r: "skip_cancelled (remdups (filter (\<lambda>i. n \<le> i) ids)) n = (m, rest)" by fastforce
  have c: "tc_nextTurnId c = m" "tc_cancelledTurnIds c = sort rest"
    using assms r by (auto simp: advanceTurnClock_def)
  note s = skip_cancelled_spec [OF r]
  have m: "n \<le> m" "m \<notin> set ids" using s by auto
  show "n \<le> tc_nextTurnId c" "tc_nextTurnId c \<notin> set ids" "sorted (tc_cancelledTurnIds c)"
    using m c by simp_all
  show "{n..<tc_nextTurnId c} \<subseteq> set ids" using s c by auto
  show "distinct (tc_cancelledTurnIds c)" using s c by simp
  have "i \<noteq> m" if "i \<in> set ids" for i using m that by blast
  then show "set (tc_cancelledTurnIds c) = {i \<in> set ids. tc_nextTurnId c < i}"
    using s c m(1) by fastforce
qed

section \<open>Reserved numbers\<close>

text \<open>The numbers from the wire's next one up to the next reservation are those of the waiting and the cancelled turns.\<close>

definition reserved_ok :: "turn_clock \<Rightarrow> nat option \<Rightarrow> nat list \<Rightarrow> bool" where
  "reserved_ok c r ids \<longleftrightarrow>
     (let next = tc_nextTurnId c; bound = (case r of None \<Rightarrow> next | Some n \<Rightarrow> n)
      in next \<le> bound \<and> {next..<bound} = set ids \<union> set (tc_cancelledTurnIds c) \<and>
         set ids \<inter> set (tc_cancelledTurnIds c) = {} \<and> next \<notin> set (tc_cancelledTurnIds c) \<and> sorted_wrt (<) ids)"

lemma reserved_none: "tc_cancelledTurnIds c = [] \<Longrightarrow> reserved_ok c None []"
  by (simp add: reserved_ok_def)

lemma reserved_new:
  assumes "reserved_ok c r ids" "i = max (tc_nextTurnId c) (case r of Some n \<Rightarrow> n | None \<Rightarrow> tc_nextTurnId c)"
  shows "reserved_ok c (Some (i + 1)) (ids @ [i])"
proof -
  define bound where "bound = (case r of None \<Rightarrow> tc_nextTurnId c | Some n \<Rightarrow> n)"
  have a: "tc_nextTurnId c \<le> bound" "{tc_nextTurnId c..<bound} = set ids \<union> set (tc_cancelledTurnIds c)"
    "set ids \<inter> set (tc_cancelledTurnIds c) = {}" "tc_nextTurnId c \<notin> set (tc_cancelledTurnIds c)" "sorted_wrt (<) ids"
    using assms(1) unfolding reserved_ok_def Let_def bound_def by blast+
  have i: "i = bound" using a(1) assms(2) by (auto simp: bound_def split: option.splits)
  have "{tc_nextTurnId c..<bound + 1} = insert bound {tc_nextTurnId c..<bound}" using a(1) by auto
  moreover have "\<forall>j \<in> set ids \<union> set (tc_cancelledTurnIds c). j < bound" using a(2) by (metis atLeastLessThan_iff)
  ultimately show ?thesis using a by (auto simp: reserved_ok_def i sorted_wrt_append)
qed

lemma reserved_head:
  assumes "reserved_ok c r (i # ids)" shows "tc_nextTurnId c = i"
proof -
  let ?n = "tc_nextTurnId c"
  have a: "set (i # ids) \<union> set (tc_cancelledTurnIds c) = {?n..<(case r of None \<Rightarrow> ?n | Some n \<Rightarrow> n)}"
    "?n \<notin> set (tc_cancelledTurnIds c)" "sorted_wrt (<) (i # ids)"
    using assms unfolding reserved_ok_def Let_def by blast+
  have le: "?n \<le> i" using a(1) by (metis UnI1 atLeastLessThan_iff list.set_intros(1))
  then have "?n \<in> set (i # ids)" using a(1,2) by (metis UnE UnI1 atLeastLessThan_iff le_less_trans le_refl list.set_intros(1))
  then show ?thesis using le a(3) by fastforce
qed

lemma reserved_iff:
  "reserved_ok c (Some bound) ids \<longleftrightarrow>
     tc_nextTurnId c \<le> bound \<and>
     (\<forall>i. i \<in> set ids \<or> i \<in> set (tc_cancelledTurnIds c) \<longleftrightarrow> tc_nextTurnId c \<le> i \<and> i < bound) \<and>
     (\<forall>i \<in> set ids. i \<notin> set (tc_cancelledTurnIds c)) \<and> tc_nextTurnId c \<notin> set (tc_cancelledTurnIds c) \<and> sorted_wrt (<) ids"
proof -
  have "{tc_nextTurnId c..<bound} = set ids \<union> set (tc_cancelledTurnIds c) \<longleftrightarrow>
    (\<forall>i. i \<in> set ids \<or> i \<in> set (tc_cancelledTurnIds c) \<longleftrightarrow> tc_nextTurnId c \<le> i \<and> i < bound)"
    unfolding set_eq_iff by (simp add: eq_commute)
  then show ?thesis by (auto simp: reserved_ok_def Let_def disjoint_iff)
qed

lemma reserved_advance:
  fixes m bound :: nat
  assumes bound: "m \<le> bound" "\<And>i. i \<in> set ids \<or> i \<in> set cs \<and> m \<le> i \<longleftrightarrow> m \<le> i \<and> i < bound"
    and disj: "\<And>i. i \<in> set ids \<Longrightarrow> i \<notin> set cs" and sorted: "sorted_wrt (<) ids"
  shows "reserved_ok (advanceTurnClock m cs) (Some bound) ids" "m \<le> tc_nextTurnId (advanceTurnClock m cs)"
proof -
  define c where "c = advanceTurnClock m cs"
  note a = advanceTurnClock_spec [of m cs c, OF c_def [symmetric]]
  let ?n = "tc_nextTurnId c"
  have skipped: "i \<in> set cs" if "m \<le> i" "i < ?n" for i using a(2) that by auto
  have le: "?n \<le> bound"
  proof (rule ccontr)
    assume "\<not> ?n \<le> bound"
    then show False using skipped [of bound] bound by auto
  qed
  have low: "?n \<le> i" if "i \<in> set ids" for i
    using that disj [OF that] skipped [of i] bound(2) [of i] by (metis not_le)
  have "i \<in> set ids \<or> i \<in> set cs \<and> ?n < i \<longleftrightarrow> ?n \<le> i \<and> i < bound" for i
    using low [of i] bound(2) [of i] a(1,4) by (metis le_less le_trans)
  then have "\<forall>i. i \<in> set ids \<or> i \<in> set (tc_cancelledTurnIds c) \<longleftrightarrow> ?n \<le> i \<and> i < bound" using a(3) by auto
  then show "reserved_ok (advanceTurnClock m cs) (Some bound) ids"
    using le a(3) disj sorted unfolding reserved_iff c_def [symmetric] by auto
  show "m \<le> tc_nextTurnId (advanceTurnClock m cs)" using a(1) by (simp add: c_def)
qed

lemma reserved_some: "reserved_ok c r ids \<Longrightarrow> r = None \<Longrightarrow> ids = [] \<and> tc_cancelledTurnIds c = []"
  by (auto simp: reserved_ok_def)

lemma reserved_start:
  assumes "reserved_ok c r (i # ids)"
  shows "reserved_ok (apply_turn_op c OpPrompt) r ids" "i < tc_nextTurnId (apply_turn_op c OpPrompt)"
proof -
  note n = reserved_head [OF assms]
  obtain bound where r: "r = Some bound" using reserved_some [OF assms] by (cases r) auto
  note a = assms [unfolded r reserved_iff n]
  have "i < bound" "\<forall>j \<in> set ids. i < j" using a by auto
  moreover have "j \<in> set ids \<or> j \<in> set (tc_cancelledTurnIds c) \<and> i + 1 \<le> j \<longleftrightarrow> i + 1 \<le> j \<and> j < bound" for j
    using a \<open>\<forall>j \<in> set ids. i < j\<close> by (metis Suc_eq_plus1 Suc_leD Suc_le_eq not_less_eq_eq set_ConsD list.set_intros(2) less_irrefl)
  ultimately show "reserved_ok (apply_turn_op c OpPrompt) r ids" "i < tc_nextTurnId (apply_turn_op c OpPrompt)"
    using reserved_advance [of "i + 1" bound ids "tc_cancelledTurnIds c"] a n r by auto
qed

lemma reserved_cancel:
  assumes "reserved_ok c r (us @ i # vs)"
  shows "reserved_ok (apply_turn_op c (OpCancel (Some i) (Some t))) r (us @ vs)"
    "tc_nextTurnId c \<le> tc_nextTurnId (apply_turn_op c (OpCancel (Some i) (Some t)))"
proof -
  obtain bound where r: "r = Some bound" using reserved_some [OF assms] by (cases r) auto
  note a = assms [unfolded r reserved_iff]
  have i: "tc_nextTurnId c \<le> i" "i \<notin> set (us @ vs)" "sorted_wrt (<) (us @ vs)"
    using a by (auto simp: sorted_wrt_append)
  have "j \<in> set (us @ vs) \<or> j \<in> set (tc_cancelledTurnIds c @ [i]) \<and> tc_nextTurnId c \<le> j \<longleftrightarrow> tc_nextTurnId c \<le> j \<and> j < bound" for j
    using a by auto
  then show "reserved_ok (apply_turn_op c (OpCancel (Some i) (Some t))) r (us @ vs)"
    "tc_nextTurnId c \<le> tc_nextTurnId (apply_turn_op c (OpCancel (Some i) (Some t)))"
    using reserved_advance [of "tc_nextTurnId c" bound "us @ vs" "tc_cancelledTurnIds c @ [i]"] a i r by auto
qed

lemma past_op [simp]:
  "i < tc_nextTurnId c \<Longrightarrow> apply_turn_op c (OpLoopEvent i) = c"
  "i < tc_nextTurnId c \<Longrightarrow> apply_turn_op c (OpCancel (Some i) t) = c"
  by (auto split: option.split)

lemma past_events: "i < tc_nextTurnId c \<Longrightarrow> foldl apply_turn_op c (replicate k (OpLoopEvent i)) = c"
  by (induction k) auto

lemma replayed_events: "replayed_turns c (replicate k (OpLoopEvent i)) = []"
  by (induction k arbitrary: c) auto

end
