(* ===== verification/LoopRun.thy ===== *)
theory LoopRun
  imports StepQueue TurnClock ContextTranscript DomainEvents
begin

text \<open>
  The run of one turn by the agent loop, \<open>packages/agent-core-v2/src/agent/loop/loopService.ts\<close>: the state of the
  service, the steps of the running turn, and the retry of a failed step (\<open>stepRetry/stepRetryService.ts\<close>). The
  service waits at its \<open>await\<close>s; what it does between two of them is one function here. A request, a turn and a step
  are shared objects, known by the request's id and the turn's number; a request is enqueued again only by a retry.
  Telemetry is left out.
\<close>

section \<open>Errors\<close>

text \<open>
  \<open>AbortThrown\<close> is an \<open>AbortError\<close>, with whether it is a \<open>UserCancellationError\<close>; \<open>CodedThrown\<close> an \<open>Error2\<close> with its
  code, name, message and cause; \<open>ErrorThrown\<close> any other \<open>Error\<close> with its name; \<open>ValueThrown\<close> a thrown string.
\<close>

datatype thrown =
    AbortThrown bool string
  | CodedThrown string string string "thrown option"
  | ErrorThrown string string
  | ValueThrown string

definition abortError :: "string \<Rightarrow> thrown" where
  "abortError message = AbortThrown False message"

definition userCancellationReason :: thrown where
  "userCancellationReason = AbortThrown True ''Aborted by the user''"

definition isAbortError :: "thrown \<Rightarrow> bool" where
  "isAbortError e = (case e of AbortThrown _ _ \<Rightarrow> True | ErrorThrown n _ \<Rightarrow> n = ''AbortError''
     | CodedThrown _ n _ _ \<Rightarrow> n = ''AbortError'' | _ \<Rightarrow> False)"

definition isUserCancellation :: "thrown \<Rightarrow> bool" where
  "isUserCancellation e = (case e of AbortThrown user _ \<Rightarrow> user | _ \<Rightarrow> False)"

text \<open>\<open>reason instanceof Error ? reason : abortError(message)\<close>\<close>

definition as_error :: "string \<Rightarrow> thrown \<Rightarrow> thrown" where
  "as_error message e = (case e of ValueThrown _ \<Rightarrow> abortError message | _ \<Rightarrow> e)"

definition toErrorMessage :: "thrown \<Rightarrow> string" where
  "toErrorMessage e =
     (case e of
        CodedThrown c n m _ \<Rightarrow> ''['' @ c @ ''] '' @ m
      | AbortThrown _ m \<Rightarrow> if m = [] then ''AbortError'' else m
      | ErrorThrown n m \<Rightarrow> if m = [] then n else m
      | ValueThrown s \<Rightarrow> s)"

definition thrown_name :: "thrown \<Rightarrow> string" where
  "thrown_name e =
     (case e of CodedThrown c n m _ \<Rightarrow> n | AbortThrown _ m \<Rightarrow> ''AbortError'' | ErrorThrown n m \<Rightarrow> n | ValueThrown s \<Rightarrow> ''string'')"

definition thrown_message :: "thrown \<Rightarrow> string" where
  "thrown_message e =
     (case e of CodedThrown c n m _ \<Rightarrow> m | AbortThrown _ m \<Rightarrow> m | ErrorThrown n m \<Rightarrow> m | ValueThrown s \<Rightarrow> s)"

fun unwrapErrorCause :: "thrown \<Rightarrow> thrown" where
  "unwrapErrorCause (CodedThrown c n m (Some cause)) = unwrapErrorCause cause"
| "unwrapErrorCause e = e"

definition max_steps_code :: string where
  "max_steps_code = ''loop.max_steps_exceeded''"

definition createMaxStepsExceededError :: "nat \<Rightarrow> thrown" where
  \<open>createMaxStepsExceededError maxSteps =
     CodedThrown max_steps_code ''LoopError''
       (''Turn exceeded maxSteps='' @ nat_str maxSteps @
        ''. If max_steps_per_turn is too small, raise it in config.toml (loop_control.max_steps_per_turn), or run "/update-config" to update it, then "/reload".'')
       None\<close>

definition isMaxStepsExceededError :: "thrown \<Rightarrow> bool" where
  "isMaxStepsExceededError e = (case e of CodedThrown c _ _ _ \<Rightarrow> c = max_steps_code | _ \<Rightarrow> False)"

definition filtered_error :: thrown where
  "filtered_error =
     CodedThrown ''provider.filtered'' ''ProviderFilteredError'' ''Provider safety policy blocked the response.'' None"

section \<open>Turns and steps\<close>

datatype finish_reason = FinCompleted | FinToolCalls | FinTruncated | FinFiltered | FinPaused | FinOther

fun finish_str :: "finish_reason \<Rightarrow> string" where
  "finish_str FinCompleted = ''completed''"
| "finish_str FinToolCalls = ''tool_calls''"
| "finish_str FinTruncated = ''truncated''"
| "finish_str FinFiltered = ''filtered''"
| "finish_str FinPaused = ''paused''"
| "finish_str FinOther = ''other''"

definition normalizeFinishReason :: "finish_reason \<Rightarrow> string" where
  "normalizeFinishReason reason =
     (if reason = FinToolCalls then ''tool_use''
      else if reason = FinCompleted then ''end_turn''
      else if reason = FinTruncated then ''max_tokens''
      else finish_str reason)"

datatype loop_result = LrCompleted nat bool | LrFailed nat thrown | LrCancelled nat thrown

datatype loop_turn_state = LtQueued | LtRunning | LtCompleted | LtFailed | LtCancelled

datatype loop_step_state = MsQueued | MsRunning | MsCompleted | MsFailed | MsCancelled

datatype loop_step_result = SrCompleted | SrFailed thrown | SrCancelled thrown

datatype ready_state = ReadyPending | ReadyResolved | ReadyRejected thrown

text \<open>A promise or an abort signal keeps what it was settled with first.\<close>

definition first_of :: "'a option \<Rightarrow> 'a \<Rightarrow> 'a option" where
  "first_of old new = (case old of None \<Rightarrow> Some new | Some x \<Rightarrow> Some x)"

record loop_step =
  mst_state :: loop_step_state
  mst_abort :: "thrown option"
  mst_result :: "loop_step_result option"

record turn_seed =
  sd_input :: "content_part list"
  sd_origin :: json

record turn_job =
  tj_id :: nat
  tj_request :: nat
  tj_seed :: turn_seed
  tj_state :: loop_turn_state
  tj_abort :: "thrown option"
  tj_ready :: ready_state
  tj_result :: "loop_result option"
  tj_queue :: request_queue
  tj_steps :: "(nat, loop_step) jsmap"

definition settle_ready :: "ready_state \<Rightarrow> ready_state \<Rightarrow> ready_state" where
  "settle_ready old new = (if old = ReadyPending then new else old)"

definition turnPromptText :: "content_part list \<Rightarrow> string option" where
  "turnPromptText input =
     (let text = concat (map (\<lambda>part. case part of PText t \<Rightarrow> t | _ \<Rightarrow> []) input)
      in if text \<noteq> [] then Some text else None)"

definition isDisplayablePromptOrigin :: "json \<Rightarrow> bool" where
  "isDisplayablePromptOrigin og =
     (let kind = js_opt_prop og ''kind'' in
      kind = JStr ''user'' \<or>
      (kind = JStr ''skill_activation'' \<or> kind = JStr ''plugin_command'') \<and> js_opt_prop og ''trigger'' = JStr ''user-slash'')"

definition enqueueStep :: "step_request \<Rightarrow> bool \<Rightarrow> turn_job \<Rightarrow> turn_job" where
  "enqueueStep request at_head job =
     (let queue = enqueue request at_head (tj_queue job);
          fresh = \<lparr>mst_state = MsQueued, mst_abort = None, mst_result = None\<rparr>;
          step = (case jm_get (tj_steps job) (rq_id request) of
                    Some existing \<Rightarrow> if mst_state existing \<noteq> MsCancelled then existing\<lparr>mst_state := MsQueued\<rparr> else fresh
                  | None \<Rightarrow> fresh)
      in job\<lparr>tj_queue := queue, tj_steps := jm_set (rq_id request) step (tj_steps job)\<rparr>)"

definition cancelStep :: "nat \<Rightarrow> thrown \<Rightarrow> turn_job \<Rightarrow> turn_job" where
  "cancelStep i cancellation job =
     (case jm_get (tj_steps job) i of
        None \<Rightarrow> job
      | Some step \<Rightarrow>
          if mst_state step \<in> {MsCompleted, MsFailed, MsCancelled} then job
          else job\<lparr>tj_queue := abort_request i (tj_queue job),
                   tj_steps := jm_set i
                     (step\<lparr>mst_state := MsCancelled, mst_abort := first_of (mst_abort step) cancellation,
                           mst_result := first_of (mst_result step) (SrCancelled cancellation)\<rparr>) (tj_steps job)\<rparr>)"


section \<open>The state of the service\<close>

text \<open>The run of a turn: the step in flight, what the run waits for, and the locals of \<open>createStreamPartHandler\<close>.\<close>

record step_runtime =
  sn_number :: nat
  sn_batch :: step_batch
  sn_tracked :: bool

record llm_response =
  lp_content :: "content_part list"
  lp_toolCalls :: "tool_call list"
  lp_finish :: "finish_reason option"
  lp_raw :: "string option"
  lp_usage :: "step_usage obj"
  lp_timing :: "step_timing option"

datatype run_phase =
    RunHook
  | RunStream
  | RunTools llm_response bool
  | RunAfter finish_reason
  | RunRecover string thrown
  | RunEnded loop_result

record loop_runtime =
  lr_steps :: nat
  lr_lastStopReason :: "finish_reason option"
  lr_current :: "step_runtime option"
  lr_phase :: run_phase
  lr_callsByIndex :: "(json, string \<times> string) jsmap"
  lr_stepStarted :: bool

definition new_runtime :: loop_runtime where
  "new_runtime =
     \<lparr>lr_steps = 0, lr_lastStopReason = None, lr_current = None, lr_phase = RunHook, lr_callsByIndex = [],
      lr_stepStarted = False\<rparr>"

record held_admission =
  ha_request :: step_request
  ha_seed :: "turn_seed option"
  ha_at_head :: bool

datatype assignment = Assigned nat | Refused thrown

record retry_state =
  rs_lastFailedDriverId :: "nat option"
  rs_failedAttempts :: nat

definition no_failures :: retry_state where
  "no_failures = \<lparr>rs_lastFailedDriverId = None, rs_failedAttempts = 0\<rparr>"

text \<open>
  \<open>ls_clock\<close> and \<open>ls_ops\<close> are the wire's turn model and the operations it was given, \<open>ls_context\<close> what the run
  wrote to the history, \<open>ls_events\<close> what was published. \<open>ls_assigned\<close> holds the settled assignment promises,
  \<open>ls_settled\<close> counts the resolved promises of \<open>settled()\<close>, and \<open>ls_finished\<close> keeps the turns that are over, since
  their handles stay with the clients.
\<close>

record loop_state =
  ls_clock :: turn_clock
  ls_ops :: "turn_op list"
  ls_nextReservedTurnId :: "nat option"
  ls_disposing :: bool
  ls_standaloneStepQueue :: request_queue
  ls_pendingAssignments :: "nat list"
  ls_assigned :: "(nat \<times> assignment) list"
  ls_pendingTurns :: "turn_job list"
  ls_heldAdmissions :: "held_admission list"
  ls_active :: "(turn_job \<times> loop_runtime) option"
  ls_settleWaiters :: nat
  ls_settled :: nat
  ls_quiescenceDepth :: nat
  ls_retry :: retry_state
  ls_context :: "context_record list"
  ls_events :: "domain_event list"
  ls_finished :: "turn_job list"

definition new_service :: "turn_clock \<Rightarrow> turn_op list \<Rightarrow> loop_state" where
  "new_service clock ops =
     \<lparr>ls_clock = clock, ls_ops = ops, ls_nextReservedTurnId = None, ls_disposing = False,
      ls_standaloneStepQueue = [], ls_pendingAssignments = [], ls_assigned = [], ls_pendingTurns = [],
      ls_heldAdmissions = [], ls_active = None, ls_settleWaiters = 0, ls_settled = 0, ls_quiescenceDepth = 0,
      ls_retry = no_failures, ls_context = [], ls_events = [], ls_finished = []\<rparr>"

text \<open>
  What the service is given: its configuration, the messages a request resolves to, whether a turn can be prepared,
  the payload and the classification of errors, the ids \<open>randomUUID\<close> gives the steps, the random numbers of the
  backoff and the registered error handlers.
\<close>

record loop_env =
  le_maxStepsPerTurn :: "nat option"
  le_maxRetriesPerStep :: "nat option"
  le_messages :: "nat \<Rightarrow> context_message list"
  le_prepare :: "nat \<Rightarrow> thrown option"
  le_payload :: "thrown \<Rightarrow> (string \<times> json) list"
  le_retryable :: "thrown \<Rightarrow> bool"
  le_retryAfterMs :: "thrown \<Rightarrow> number option"
  le_statusCode :: "thrown \<Rightarrow> number option"
  le_uuid :: "nat \<Rightarrow> nat \<Rightarrow> string"
  le_random :: "nat \<Rightarrow> number"
  le_handlers :: "(string \<times> (thrown \<Rightarrow> bool)) list"

definition publish_event :: "domain_event \<Rightarrow> loop_state \<Rightarrow> loop_state" where
  "publish_event e s = s\<lparr>ls_events := ls_events s @ [e]\<rparr>"

definition dispatch_turn_op :: "turn_op \<Rightarrow> loop_state \<Rightarrow> loop_state" where
  "dispatch_turn_op op s = s\<lparr>ls_clock := apply_turn_op (ls_clock s) op, ls_ops := ls_ops s @ [op]\<rparr>"

text \<open>A loop event of a turn also reaches the turn model; a tool result carries no turn.\<close>

definition appendLoopEvent :: "nat \<Rightarrow> loop_event \<Rightarrow> loop_state \<Rightarrow> loop_state" where
  "appendLoopEvent turn e s =
     (let s2 = s\<lparr>ls_context := ls_context s @ [RecEvent e]\<rparr>
      in case e of ToolResult _ _ _ _ \<Rightarrow> s2 | _ \<Rightarrow> dispatch_turn_op (OpLoopEvent turn) s2)"

definition maybeSettle :: "loop_state \<Rightarrow> loop_state" where
  "maybeSettle s =
     (if ls_active s \<noteq> None \<or> ls_pendingTurns s \<noteq> [] \<or> ls_heldAdmissions s \<noteq> [] then s
      else s\<lparr>ls_settled := ls_settled s + ls_settleWaiters s, ls_settleWaiters := 0\<rparr>)"

definition loop_settled :: "loop_state \<Rightarrow> loop_state" where
  "loop_settled s =
     (if ls_active s = None \<and> ls_pendingTurns s = [] \<and> ls_heldAdmissions s = []
      then s\<lparr>ls_settled := ls_settled s + 1\<rparr> else s\<lparr>ls_settleWaiters := ls_settleWaiters s + 1\<rparr>)"

definition loop_hasPendingRequests :: "loop_state \<Rightarrow> bool" where
  "loop_hasPendingRequests s \<longleftrightarrow>
     (case ls_active s of Some (job, _) \<Rightarrow> hasPendingRequests (tj_queue job) | None \<Rightarrow> False) \<or>
     hasPendingRequests (ls_standaloneStepQueue s) \<or> ls_pendingTurns s \<noteq> [] \<or>
     list_ex (\<lambda>h. \<not> rq_aborted (ha_request h)) (ls_heldAdmissions s)"

section \<open>The steps of the running turn\<close>

text \<open>\<open>request.markMaterialized()\<close> of a request the queue has given out shows only in the requests a retry enqueues.\<close>

definition materialize_one :: "loop_env \<Rightarrow> step_request \<Rightarrow> context_record list" where
  "materialize_one env request = (if rq_state request \<noteq> ReqPending then [] else map RecMessage (le_messages env (rq_id request)))"

definition materializeBatch :: "loop_env \<Rightarrow> step_batch \<Rightarrow> context_record list" where
  "materializeBatch env batch =
     materialize_one env (sb_driver batch) @ concat (map (materialize_one env) (sb_merged batch))"

definition materialized_batch :: "step_batch \<Rightarrow> step_batch" where
  "materialized_batch batch =
     \<lparr>sb_driver = markMaterialized (sb_driver batch), sb_merged = map markMaterialized (sb_merged batch)\<rparr>"

datatype begin_step = BegunStep turn_job loop_runtime "context_record list" | BegunResult loop_result | BegunThrow thrown

text \<open>The last branch is \<open>takeNextBatch()!\<close> without a batch.\<close>

definition take_step :: "loop_env \<Rightarrow> turn_job \<Rightarrow> loop_runtime \<Rightarrow> begin_step" where
  "take_step env job run =
     (case takeNextBatch (tj_queue job) of
        (Some batch, rest) \<Rightarrow>
          let i = rq_id (sb_driver batch);
              step = jm_get (tj_steps job) i;
              steps = (case step of
                         Some st \<Rightarrow> jm_set i (st\<lparr>mst_state := MsRunning, mst_abort := None\<rparr>) (tj_steps job)
                       | None \<Rightarrow> tj_steps job);
              n = lr_steps run + 1
          in BegunStep (job\<lparr>tj_queue := rest, tj_steps := steps\<rparr>)
               (run\<lparr>lr_steps := n,
                    lr_current := Some \<lparr>sn_number = n, sn_batch = materialized_batch batch, sn_tracked = (step \<noteq> None)\<rparr>\<rparr>)
               (materializeBatch env batch)
      | (None, _) \<Rightarrow> BegunThrow (ErrorThrown ''TypeError'' ''Cannot read properties of undefined''))"

definition beginLoopStep :: "loop_env \<Rightarrow> turn_job \<Rightarrow> loop_runtime \<Rightarrow> begin_step" where
  "beginLoopStep env job run =
     (case tj_abort job of
        Some reason \<Rightarrow> BegunThrow reason
      | None \<Rightarrow>
          if \<not> hasPendingRequests (tj_queue job)
          then BegunResult (LrCompleted (lr_steps run) (lr_lastStopReason run = Some FinTruncated))
          else
            (case le_maxStepsPerTurn env of
               Some maxSteps \<Rightarrow>
                 if 0 < maxSteps \<and> maxSteps \<le> lr_steps run then BegunThrow (createMaxStepsExceededError maxSteps)
                 else take_step env job run
             | None \<Rightarrow> take_step env job run))"

text \<open>The \<open>mutableStep\<close> of the current step, and the reason its signal (any of the turn's and its own) is aborted.\<close>

definition current_step :: "turn_job \<Rightarrow> loop_runtime \<Rightarrow> loop_step option" where
  "current_step job run =
     (case lr_current run of
        Some c \<Rightarrow> if sn_tracked c then jm_get (tj_steps job) (rq_id (sb_driver (sn_batch c))) else None
      | None \<Rightarrow> None)"

definition step_signal :: "turn_job \<Rightarrow> loop_runtime \<Rightarrow> thrown option" where
  "step_signal job run =
     (case tj_abort job of Some r \<Rightarrow> Some r | None \<Rightarrow> Option.bind (current_step job run) mst_abort)"

definition emitStepInterrupted :: "turn_job \<Rightarrow> loop_runtime \<Rightarrow> string \<Rightarrow> string option \<Rightarrow> loop_state \<Rightarrow> loop_state" where
  "emitStepInterrupted job run reason message s =
     (case lr_current run of
        None \<Rightarrow> s
      | Some c \<Rightarrow> publish_event (EvStepInterrupted (int (tj_id job)) (int (sn_number c)) reason message) s)"

datatype disposition = DContinue | DReturn loop_result

definition handleLoopCancellation ::
  "turn_job \<Rightarrow> loop_runtime \<Rightarrow> thrown \<Rightarrow> (string option \<times> disposition) option" where
  "handleLoopCancellation job run e =
     (let step = current_step job run; step_abort = Option.bind step mst_abort in
      if \<not> isAbortError e \<and> tj_abort job = None \<and> step_abort = None then None
      else
        let reason = (case tj_abort job of Some r \<Rightarrow> r | None \<Rightarrow> (case step_abort of Some r \<Rightarrow> r | None \<Rightarrow> e))
        in Some
             (if isUserCancellation reason then None else Some (toErrorMessage reason),
              if tj_abort job = None \<and> map_option mst_state step = Some MsCancelled then DContinue
              else DReturn (LrCancelled (lr_steps run) reason)))"

text \<open>What \<open>run\<close> does when it returns: its \<open>finally\<close>, and then \<open>runTurn\<close> goes on.\<close>

definition end_run :: "loop_result \<Rightarrow> turn_job \<Rightarrow> loop_runtime \<Rightarrow> loop_state \<Rightarrow> loop_state" where
  "end_run r job run s =
     s\<lparr>ls_active := Some (job\<lparr>tj_queue := abortTurnScoped (tj_queue job)\<rparr>, run\<lparr>lr_phase := RunEnded r\<rparr>)\<rparr>"

definition interrupted_error :: "thrown \<Rightarrow> thrown" where
  "interrupted_error e = (case e of CodedThrown c n m (Some cause) \<Rightarrow> if c = ''internal'' then cause else e | _ \<Rightarrow> e)"

definition failLoopStep :: "turn_job \<Rightarrow> loop_runtime \<Rightarrow> thrown \<Rightarrow> loop_state \<Rightarrow> loop_state" where
  "failLoopStep job run e s =
     end_run (LrFailed (lr_steps run) e) job run
       (emitStepInterrupted job run (if isMaxStepsExceededError e then ''max_steps'' else ''error'')
         (Some (toErrorMessage (interrupted_error e))) s)"

section \<open>The retry of a failed step (\<open>stepRetryService.ts\<close>, \<open>_base/utils/retry.ts\<close>)\<close>

definition step_retry_id :: string where
  "step_retry_id = ''step-retry''"

definition step_retry_match :: "loop_env \<Rightarrow> thrown \<Rightarrow> bool" where
  "step_retry_match env e = le_retryable env (unwrapErrorCause e)"

definition DEFAULT_MAX_RETRY_ATTEMPTS :: nat where
  "DEFAULT_MAX_RETRY_ATTEMPTS = 10"

definition retryBackoffDelays :: "(nat \<Rightarrow> number) \<Rightarrow> nat \<Rightarrow> number list" where
  "retryBackoffDelays random maxAttempts =
     map (\<lambda>i. let base = min (500 * 2 ^ i) 32000 in base + random i * (1 / 4) * base) [0..<maxAttempts - 1]"

definition maxAttempts :: "loop_env \<Rightarrow> nat" where
  "maxAttempts env =
     max (case le_maxRetriesPerStep env of Some n \<Rightarrow> n | None \<Rightarrow> DEFAULT_MAX_RETRY_ATTEMPTS) 1"

text \<open>\<open>recover\<close> up to its sleep: it declines at once, or it announces the retry.\<close>

definition recover :: "loop_env \<Rightarrow> turn_job \<Rightarrow> loop_runtime \<Rightarrow> thrown \<Rightarrow> retry_state \<Rightarrow> retry_state \<times> step_retrying_event option" where
  "recover env job run e0 rs0 =
     (case lr_current run of
        None \<Rightarrow> (rs0, None)
      | Some c \<Rightarrow>
          let driver = rq_id (sb_driver (sn_batch c));
              rs = (if rs_lastFailedDriverId rs0 \<noteq> Some driver
                    then \<lparr>rs_lastFailedDriverId = Some driver, rs_failedAttempts = 0\<rparr> else rs0);
              failed = rs_failedAttempts rs + 1
          in if maxAttempts env \<le> failed then (no_failures, None)
             else
               let e = unwrapErrorCause e0;
                   delays = retryBackoffDelays (le_random env) (maxAttempts env);
                   delayMs = (case le_retryAfterMs env e of
                                Some d \<Rightarrow> d
                              | None \<Rightarrow> if failed - 1 < length delays then delays ! (failed - 1) else 0)
               in (rs\<lparr>rs_failedAttempts := failed\<rparr>,
                   Some \<lparr>rt_turnId = int (tj_id job), rt_step = int (sn_number c), rt_failedAttempt = of_nat failed,
                         rt_nextAttempt = of_nat (failed + 1), rt_maxAttempts = of_nat (maxAttempts env),
                         rt_delayMs = delayMs, rt_errorName = thrown_name e, rt_errorMessage = thrown_message e,
                         rt_statusCode = le_statusCode env e\<rparr>))"

section \<open>The loop\<close>

definition tryRecoverLoopError :: "loop_env \<Rightarrow> turn_job \<Rightarrow> loop_runtime \<Rightarrow> thrown \<Rightarrow> loop_state \<Rightarrow> loop_state" where
  "tryRecoverLoopError env job run e s =
     (case find (\<lambda>(i, match). match e) (le_handlers env) of
        None \<Rightarrow> failLoopStep job run e s
      | Some (i, _) \<Rightarrow>
          let waiting = (\<lambda>s. s\<lparr>ls_active := Some (job, run\<lparr>lr_phase := RunRecover i e\<rparr>)\<rparr>) in
          if i = step_retry_id then
            (case recover env job run e (ls_retry s) of
               (rs, None) \<Rightarrow> failLoopStep job run e (s\<lparr>ls_retry := rs\<rparr>)
             | (rs, Some event) \<Rightarrow> waiting (publish_event (EvStepRetrying event) (s\<lparr>ls_retry := rs\<rparr>)))
          else waiting s)"

text \<open>
  \<open>handleLoopStepError\<close>, where \<open>again\<close> is the next iteration. At the begin of an iteration there is no current step,
  so that it never goes on (\<open>begin_error_ends\<close>).
\<close>

definition cancelled_or ::
  "(turn_job \<Rightarrow> loop_runtime \<Rightarrow> loop_state \<Rightarrow> loop_state) \<Rightarrow> (loop_state \<Rightarrow> loop_state) \<Rightarrow>
   turn_job \<Rightarrow> loop_runtime \<Rightarrow> thrown \<Rightarrow> loop_state \<Rightarrow> loop_state" where
  "cancelled_or again other job run e s =
     (case handleLoopCancellation job run e of
        None \<Rightarrow> other s
      | Some (message, d) \<Rightarrow>
          let s2 = emitStepInterrupted job run ''aborted'' message s in
          (case d of DContinue \<Rightarrow> again job run s2 | DReturn r \<Rightarrow> end_run r job run s2))"

definition begin_error :: "loop_env \<Rightarrow> turn_job \<Rightarrow> loop_runtime \<Rightarrow> thrown \<Rightarrow> loop_state \<Rightarrow> loop_state" where
  "begin_error env job run e s = cancelled_or (\<lambda>_ _ s. s) (tryRecoverLoopError env job run e) job run e s"

definition iterate :: "loop_env \<Rightarrow> turn_job \<Rightarrow> loop_runtime \<Rightarrow> loop_state \<Rightarrow> loop_state" where
  "iterate env job run0 s =
     (let run = run0\<lparr>lr_current := None\<rparr> in
      case beginLoopStep env job run of
        BegunStep job2 run2 records \<Rightarrow>
          s\<lparr>ls_active := Some (job2, run2\<lparr>lr_phase := RunHook\<rparr>), ls_context := ls_context s @ records\<rparr>
      | BegunResult r \<Rightarrow> end_run r job run s
      | BegunThrow e \<Rightarrow> begin_error env job run e s)"

definition handleLoopStepError :: "loop_env \<Rightarrow> turn_job \<Rightarrow> loop_runtime \<Rightarrow> thrown \<Rightarrow> loop_state \<Rightarrow> loop_state" where
  "handleLoopStepError env job run e s = cancelled_or (iterate env) (tryRecoverLoopError env job run e) job run e s"

text \<open>The handler caught the error and has enqueued the failed driver again, or it has not.\<close>

definition recovered :: "loop_env \<Rightarrow> bool \<Rightarrow> turn_job \<Rightarrow> loop_runtime \<Rightarrow> loop_state \<Rightarrow> loop_state" where
  "recovered env retry job run s =
     (let job2 = (case lr_current run of
                    Some c \<Rightarrow> if retry then enqueueStep (sb_driver (sn_batch c)) True job else job
                  | None \<Rightarrow> job)
      in iterate env job2 run s)"

definition handler_threw :: "loop_env \<Rightarrow> turn_job \<Rightarrow> loop_runtime \<Rightarrow> thrown \<Rightarrow> loop_state \<Rightarrow> loop_state" where
  "handler_threw env job run e s = cancelled_or (iterate env) (failLoopStep job run e) job run e s"

text \<open>The end of \<open>sleepForRetry\<close>, which rejects when the turn is aborted.\<close>

definition retry_slept :: "loop_env \<Rightarrow> turn_job \<Rightarrow> loop_runtime \<Rightarrow> thrown \<Rightarrow> thrown option \<Rightarrow> loop_state \<Rightarrow> loop_state" where
  "retry_slept env job run e rejected s =
     (case rejected of
        Some abort_reason \<Rightarrow> handler_threw env job run abort_reason s
      | None \<Rightarrow>
          if Option.bind (current_step job run) mst_abort \<noteq> None then failLoopStep job run e s
          else recovered env True job run s)"

section \<open>The execution of a step\<close>

abbreviation put_active :: "turn_job \<Rightarrow> loop_runtime \<Rightarrow> loop_state \<Rightarrow> loop_state" where
  "put_active job run s \<equiv> s\<lparr>ls_active := Some (job, run)\<rparr>"

definition step_no :: "loop_runtime \<Rightarrow> nat" where
  "step_no run = (case lr_current run of Some c \<Rightarrow> sn_number c | None \<Rightarrow> 0)"

definition step_uuid :: "loop_env \<Rightarrow> turn_job \<Rightarrow> loop_runtime \<Rightarrow> string" where
  "step_uuid env job run = le_uuid env (tj_id job) (step_no run)"

text \<open>\<open>beginStep\<close>, once the hooks before the step have run.\<close>

definition beginStep :: "loop_env \<Rightarrow> turn_job \<Rightarrow> loop_runtime \<Rightarrow> loop_state \<Rightarrow> loop_state" where
  "beginStep env job run s =
     (case step_signal job run of
        Some reason \<Rightarrow> handleLoopStepError env job run reason s
      | None \<Rightarrow>
          put_active job (run\<lparr>lr_phase := RunStream, lr_callsByIndex := [], lr_stepStarted := False\<rparr>)
            (appendLoopEvent (tj_id job) (StepBegin (step_uuid env job run))
              (publish_event (EvStepStarted (int (tj_id job)) (int (step_no run))) s)))"

definition markStepStarted :: "turn_job \<Rightarrow> loop_runtime \<Rightarrow> turn_job \<times> loop_runtime" where
  "markStepStarted job run =
     (if lr_stepStarted run then (job, run)
      else (job\<lparr>tj_ready := settle_ready (tj_ready job) ReadyResolved\<rparr>, run\<lparr>lr_stepStarted := True\<rparr>))"

datatype stream_part =
    SpText string
  | SpThink string
  | SpMedia
  | SpFunction json string string "string option"
  | SpCallPart json "string option"

definition createStreamPartHandler :: "turn_job \<Rightarrow> loop_runtime \<Rightarrow> stream_part \<Rightarrow> loop_state \<Rightarrow> loop_state" where
  "createStreamPartHandler job run part s =
     (let (job2, run2) = markStepStarted job run; n = int (tj_id job) in
      case part of
        SpText text \<Rightarrow> put_active job2 run2 (publish_event (EvAssistantDelta n text) s)
      | SpThink think \<Rightarrow> put_active job2 run2 (publish_event (EvThinkingDelta n think) s)
      | SpMedia \<Rightarrow> s
      | SpFunction index i name arguments \<Rightarrow>
          put_active job2 (run2\<lparr>lr_callsByIndex := jm_set index (i, name) (lr_callsByIndex run2)\<rparr>)
            (publish_event (EvToolCallDelta n i (Some name) arguments) s)
      | SpCallPart index None \<Rightarrow> s
      | SpCallPart index (Some arguments) \<Rightarrow>
          (case jm_get (lr_callsByIndex run) index of
             None \<Rightarrow> s
           | Some (i, name) \<Rightarrow>
               put_active job2 run2 (publish_event (EvToolCallDelta n i (Some name) (Some arguments)) s)))"

definition appendResponseContent :: "loop_env \<Rightarrow> turn_job \<Rightarrow> loop_runtime \<Rightarrow> llm_response \<Rightarrow> loop_state \<Rightarrow> loop_state" where
  "appendResponseContent env job run response s =
     fold (\<lambda>part. appendLoopEvent (tj_id job) (ContentPart (step_uuid env job run) part)) (lp_content response)
       (put_active job (run\<lparr>lr_phase := RunTools response False\<rparr>) s)"

definition tool_finish :: "llm_response \<Rightarrow> bool \<Rightarrow> finish_reason" where
  "tool_finish response stopTurn =
     (let finish = (case lp_finish response of Some f \<Rightarrow> f | None \<Rightarrow> FinCompleted) in
      if lp_toolCalls response = [] then (if finish = FinToolCalls then FinOther else finish)
      else if stopTurn then FinCompleted else FinToolCalls)"

definition step_completed :: "turn_job \<Rightarrow> loop_runtime \<Rightarrow> llm_response \<Rightarrow> finish_reason \<Rightarrow> step_completed_event" where
  "step_completed job run response finish =
     (let timing = (\<lambda>f. Option.bind (lp_timing response) f) in
      \<lparr>sc_turnId = int (tj_id job), sc_step = int (step_no run), sc_usage = Some (lp_usage response),
       sc_finishReason = Some (normalizeFinishReason finish), sc_rawFinishReason = lp_raw response,
       sc_providerFinishReason = map_option finish_str (lp_finish response),
       sc_llmFirstTokenLatencyMs = timing st_llmFirstTokenLatencyMs,
       sc_llmStreamDurationMs = timing st_llmStreamDurationMs,
       sc_llmRequestBuildMs = timing st_llmRequestBuildMs,
       sc_llmServerFirstTokenMs = timing st_llmServerFirstTokenMs,
       sc_llmServerDecodeMs = timing st_llmServerDecodeMs,
       sc_llmClientConsumeMs = timing st_llmClientConsumeMs\<rparr>)"

definition finishStep :: "loop_env \<Rightarrow> turn_job \<Rightarrow> loop_runtime \<Rightarrow> llm_response \<Rightarrow> finish_reason \<Rightarrow> loop_state \<Rightarrow> loop_state" where
  "finishStep env job run response finish s =
     (case step_signal job run of
        Some reason \<Rightarrow> handleLoopStepError env job run reason s
      | None \<Rightarrow>
          let (job2, run2) = markStepStarted job run in
          put_active job2 (run2\<lparr>lr_phase := RunAfter finish\<rparr>)
            (publish_event (EvStepCompleted (step_completed job run response finish))
              (appendLoopEvent (tj_id job) (StepEnd (step_uuid env job run)) s)))"

definition mark_completed :: "turn_job \<Rightarrow> loop_runtime \<Rightarrow> turn_job" where
  "mark_completed job run =
     (case (lr_current run, current_step job run) of
        (Some c, Some st) \<Rightarrow>
          job\<lparr>tj_steps := jm_set (rq_id (sb_driver (sn_batch c)))
                (st\<lparr>mst_state := MsCompleted, mst_result := first_of (mst_result st) SrCompleted\<rparr>) (tj_steps job)\<rparr>
      | _ \<Rightarrow> job)"

definition completeLoopStep :: "loop_env \<Rightarrow> turn_job \<Rightarrow> loop_runtime \<Rightarrow> finish_reason \<Rightarrow> bool \<Rightarrow> loop_state \<Rightarrow> loop_state" where
  "completeLoopStep env job0 run0 finish hookStopTurn s =
     (let job = mark_completed job0 run0;
          run = run0\<lparr>lr_current := None, lr_lastStopReason := Some finish\<rparr>
      in if finish = FinFiltered then handleLoopStepError env job run filtered_error s
         else if hookStopTurn then end_run (LrCompleted (lr_steps run) (finish = FinTruncated)) job run s
         else iterate env job run s)"

text \<open>
  \<open>runAfterStep\<close>: \<open>reached\<close> tells whether the hooks came to the one of the retry service, which resets its count;
  an error of a hook is swallowed unless it aborts.
\<close>

definition runAfterStep ::
  "loop_env \<Rightarrow> turn_job \<Rightarrow> loop_runtime \<Rightarrow> finish_reason \<Rightarrow> bool \<Rightarrow> thrown option \<Rightarrow> bool \<Rightarrow> loop_state \<Rightarrow> loop_state" where
  "runAfterStep env job run finish reached rejected stopTurn s0 =
     (let s = (if reached then s0\<lparr>ls_retry := no_failures\<rparr> else s0) in
      case rejected of
        Some e \<Rightarrow>
          if isAbortError e \<or> step_signal job run \<noteq> None then handleLoopStepError env job run e s
          else completeLoopStep env job run finish stopTurn s
      | None \<Rightarrow> completeLoopStep env job run finish stopTurn s)"

end
