(* ===== verification/LoopService.thy ===== *)
theory LoopService
  imports LoopRun
begin

text \<open>
  The turns of an agent, \<open>packages/agent-core-v2/src/agent/loop/loopService.ts\<close>: how requests are admitted, turns
  queued, started one at a time, cancelled and released, quiescence and disposal. \<open>loop_act\<close> takes one action: a call of
  a client, or the outcome of what the running turn awaits. The listeners of the bus and the hooks call the service by
  actions of their own, and the handler of the stream is not called once the request has settled.
\<close>

section \<open>Turns\<close>

definition resultFromTurnError :: "turn_job \<Rightarrow> thrown \<Rightarrow> loop_result" where
  "resultFromTurnError job e = (case tj_abort job of None \<Rightarrow> LrFailed 0 e | Some r \<Rightarrow> LrCancelled 0 r)"

definition open_turn :: "turn_job \<Rightarrow> loop_state \<Rightarrow> loop_state" where
  "open_turn job s =
     (let origin = sd_origin (tj_seed job);
          prompt = (if isDisplayablePromptOrigin origin then turnPromptText (sd_input (tj_seed job)) else None)
      in (publish_event (EvTurnStarted (int (tj_id job)) origin prompt)
            (put_active job new_runtime (dispatch_turn_op OpPrompt s)))\<lparr>ls_retry := no_failures\<rparr>)"

definition start_queued_turn :: "loop_env \<Rightarrow> turn_job \<Rightarrow> loop_state \<Rightarrow> loop_state" where
  "start_queued_turn env job0 s =
     (let job = job0\<lparr>tj_state := LtRunning\<rparr>; s2 = open_turn job s in
      case le_prepare env (tj_id job) of
        Some e \<Rightarrow> put_active job (new_runtime\<lparr>lr_phase := RunEnded (resultFromTurnError job e)\<rparr>) s2
      | None \<Rightarrow> iterate env job new_runtime s2)"

definition pumpTurns :: "loop_env \<Rightarrow> loop_state \<Rightarrow> loop_state" where
  "pumpTurns env s =
     (if ls_disposing s \<or> ls_quiescenceDepth s > 0 \<or> ls_active s \<noteq> None then s
      else case ls_pendingTurns s of
             [] \<Rightarrow> maybeSettle s
           | job # rest \<Rightarrow> start_queued_turn env job (s\<lparr>ls_pendingTurns := rest\<rparr>))"

definition turn_state_of :: "loop_result \<Rightarrow> loop_turn_state" where
  "turn_state_of r = (case r of LrCompleted _ _ \<Rightarrow> LtCompleted | LrFailed _ _ \<Rightarrow> LtFailed | LrCancelled _ _ \<Rightarrow> LtCancelled)"

definition end_reason_of :: "loop_result \<Rightarrow> turn_end_reason" where
  "end_reason_of r = (case r of LrCompleted _ _ \<Rightarrow> EndCompleted | LrFailed _ _ \<Rightarrow> EndFailed | LrCancelled _ _ \<Rightarrow> EndCancelled)"

text \<open>The last branch is a turn that completed without a step.\<close>

definition settleTurnReady :: "loop_result \<Rightarrow> ready_state \<Rightarrow> ready_state" where
  "settleTurnReady r ready =
     settle_ready ready (ReadyRejected
       (case r of
          LrFailed _ e \<Rightarrow> e
        | LrCancelled _ reason \<Rightarrow> as_error ''Turn cancelled'' reason
        | LrCompleted _ _ \<Rightarrow> CodedThrown ''internal'' ''DimiError'' ''Turn ended before first step'' None))"

definition cancel_steps :: "(nat \<times> loop_step) list \<Rightarrow> thrown \<Rightarrow> turn_job \<Rightarrow> turn_job" where
  "cancel_steps steps reason job = fold (\<lambda>(i, st). cancelStep i reason) steps job"

definition releaseActiveTurn :: "loop_result \<Rightarrow> turn_job \<Rightarrow> turn_job" where
  "releaseActiveTurn r job =
     (let reason = (case r of LrCancelled _ c \<Rightarrow> c | _ \<Rightarrow> abortError ''Turn ended'')
      in (cancel_steps (filter (\<lambda>(i, st). mst_state st \<in> {MsQueued, MsRunning}) (tj_steps job)) reason job)
           \<lparr>tj_state := turn_state_of r\<rparr>)"

definition finish_turn :: "loop_env \<Rightarrow> number \<Rightarrow> turn_job \<Rightarrow> loop_result \<Rightarrow> loop_state \<Rightarrow> loop_state" where
  "finish_turn env durationMs job0 r s =
     (let job = releaseActiveTurn r (job0\<lparr>tj_ready := settleTurnReady r (tj_ready job0)\<rparr>);
          s2 = maybeSettle (s\<lparr>ls_active := None, ls_finished := ls_finished s @ [job\<lparr>tj_result := first_of (tj_result job) r\<rparr>]\<rparr>);
          ended = (\<lambda>e. EvTurnEnded \<lparr>te_turnId = int (tj_id job), te_reason = end_reason_of r, te_error = e,
                                    te_durationMs = Some durationMs\<rparr>);
          s3 = (case r of
                  LrFailed _ e \<Rightarrow> publish_event (EvError (le_payload env e)) (publish_event (ended (Some (thrown_message e))) s2)
                | _ \<Rightarrow> publish_event (ended None) s2)
      in pumpTurns env s3)"

section \<open>Admission\<close>

definition reserveTurnId :: "loop_state \<Rightarrow> nat \<times> loop_state" where
  "reserveTurnId s =
     (let next = tc_nextTurnId (ls_clock s);
          i = max next (case ls_nextReservedTurnId s of Some n \<Rightarrow> n | None \<Rightarrow> next)
      in (i, s\<lparr>ls_nextReservedTurnId := Some (i + 1)\<rparr>))"

definition settle_assignment :: "nat \<Rightarrow> assignment \<Rightarrow> loop_state \<Rightarrow> loop_state" where
  "settle_assignment i a s =
     (if i \<in> set (ls_pendingAssignments s)
      then s\<lparr>ls_pendingAssignments := removeAll i (ls_pendingAssignments s), ls_assigned := ls_assigned s @ [(i, a)]\<rparr>
      else s)"

definition rejectAssignment :: "step_request \<Rightarrow> thrown \<Rightarrow> loop_state \<Rightarrow> loop_state" where
  "rejectAssignment request reason s =
     settle_assignment (rq_id request) (Refused (as_error ''Step request aborted'' reason)) s"

definition assigned_step :: "turn_job \<Rightarrow> step_request \<Rightarrow> loop_state \<Rightarrow> loop_state" where
  "assigned_step job request s = settle_assignment (rq_id request) (Assigned (tj_id job)) s"

definition new_job :: "nat \<Rightarrow> step_request \<Rightarrow> turn_seed \<Rightarrow> turn_job" where
  "new_job i request seed =
     \<lparr>tj_id = i, tj_request = rq_id request, tj_seed = seed, tj_state = LtQueued, tj_abort = None,
      tj_ready = ReadyPending, tj_result = None, tj_queue = [], tj_steps = []\<rparr>"

text \<open>The new turn takes its own request and then every request that waited for a turn.\<close>

definition createPendingTurn :: "step_request \<Rightarrow> turn_seed \<Rightarrow> loop_state \<Rightarrow> turn_job \<times> loop_state" where
  "createPendingTurn request seed s =
     (let (i, s2) = reserveTurnId s;
          job = new_job i request seed;
          requests = request # filter (\<lambda>r. \<not> rq_aborted r) (ls_standaloneStepQueue s2)
      in (fold (\<lambda>r. enqueueStep r False) requests job,
          fold (assigned_step job) requests (s2\<lparr>ls_standaloneStepQueue := []\<rparr>)))"

text \<open>The text without the kind of the request, which it also names.\<close>

definition bug :: "string \<Rightarrow> thrown" where
  "bug message = ErrorThrown ''BugIndicatingError'' message"

definition createAndQueueTurn :: "loop_env \<Rightarrow> step_request \<Rightarrow> turn_seed option \<Rightarrow> loop_state \<Rightarrow> thrown option \<times> loop_state" where
  "createAndQueueTurn env request seed s =
     (case seed of
        None \<Rightarrow> let e = bug ''cannot start a turn without turnSeed'' in (Some e, rejectAssignment request e s)
      | Some sd \<Rightarrow>
          let (job, s2) = createPendingTurn request sd s
          in (None, pumpTurns env (s2\<lparr>ls_pendingTurns := ls_pendingTurns s2 @ [job]\<rparr>)))"

definition assignStep :: "step_request \<Rightarrow> bool \<Rightarrow> turn_job \<Rightarrow> loop_runtime \<Rightarrow> loop_state \<Rightarrow> loop_state" where
  "assignStep request at_head job run s =
     assigned_step job request (put_active (enqueueStep request at_head job) run s)"

definition admit :: "loop_env \<Rightarrow> step_request \<Rightarrow> turn_seed option \<Rightarrow> bool \<Rightarrow> loop_state \<Rightarrow> thrown option \<times> loop_state" where
  "admit env request seed at_head s =
     (case (rq_admission request, ls_active s) of
        (NewTurn, _) \<Rightarrow> createAndQueueTurn env request seed s
      | (ActiveOrNewTurn, None) \<Rightarrow> createAndQueueTurn env request seed s
      | (ActiveOrNextTurn, None) \<Rightarrow>
          (None, s\<lparr>ls_standaloneStepQueue := enqueue request at_head (ls_standaloneStepQueue s)\<rparr>)
      | (ActiveTurnOnly, None) \<Rightarrow>
          let e = bug ''requires an active turn'' in (Some e, rejectAssignment request e s)
      | (_, Some (job, run)) \<Rightarrow> (None, assignStep request at_head job run s))"

definition enqueue_request :: "loop_env \<Rightarrow> step_request \<Rightarrow> turn_seed option \<Rightarrow> bool \<Rightarrow> loop_state \<Rightarrow> thrown option \<times> loop_state" where
  "enqueue_request env request seed at_head s =
     (if ls_disposing s then (Some (abortError ''Agent loop disposed''), s)
      else
        let s2 = s\<lparr>ls_pendingAssignments := js_set_add (rq_id request) (ls_pendingAssignments s)\<rparr> in
        if ls_quiescenceDepth s > 0
        then (None, s2\<lparr>ls_heldAdmissions := ls_heldAdmissions s2 @
                       [\<lparr>ha_request = request, ha_seed = seed, ha_at_head = at_head\<rparr>]\<rparr>)
        else admit env request seed at_head s2)"

section \<open>Cancellation\<close>

definition cancelActiveTurn :: "nat option \<Rightarrow> thrown \<Rightarrow> loop_state \<Rightarrow> bool \<times> loop_state" where
  "cancelActiveTurn turn cancellation s =
     (case ls_active s of
        None \<Rightarrow> (False, s)
      | Some (job, run) \<Rightarrow>
          if turn \<noteq> None \<and> turn \<noteq> Some (tj_id job) then (False, s)
          else (True, put_active (job\<lparr>tj_abort := first_of (tj_abort job) cancellation\<rparr>) run
                        (dispatch_turn_op (OpCancel (Some (tj_id job)) (Some TargetActive)) s)))"

definition cancelled_job :: "thrown \<Rightarrow> turn_job \<Rightarrow> turn_job" where
  "cancelled_job cancellation job =
     (cancel_steps (tj_steps job) cancellation job)
       \<lparr>tj_abort := first_of (tj_abort job) cancellation, tj_state := LtCancelled,
        tj_ready := settle_ready (tj_ready job) (ReadyRejected (as_error ''Turn cancelled'' cancellation)),
        tj_result := first_of (tj_result job) (LrCancelled 0 cancellation)\<rparr>"

text \<open>The job of the id is taken out of the list before its state is looked at.\<close>

definition cancelQueuedTurn :: "nat \<Rightarrow> thrown \<Rightarrow> loop_state \<Rightarrow> bool \<times> loop_state" where
  "cancelQueuedTurn turn cancellation s =
     (case find (\<lambda>job. tj_id job = turn) (ls_pendingTurns s) of
        None \<Rightarrow> (False, s)
      | Some job \<Rightarrow>
          let s2 = s\<lparr>ls_pendingTurns := remove1 job (ls_pendingTurns s)\<rparr> in
          if tj_state job \<noteq> LtQueued then (False, s2)
          else (True, maybeSettle
            ((dispatch_turn_op (OpCancel (Some turn) (Some TargetQueued)) s2)
               \<lparr>ls_finished := ls_finished s2 @ [cancelled_job cancellation job]\<rparr>)))"

definition cancel_turn :: "nat option \<Rightarrow> thrown option \<Rightarrow> loop_state \<Rightarrow> bool \<times> loop_state" where
  "cancel_turn turn reason s =
     (let cancellation = (case reason of Some r \<Rightarrow> r | None \<Rightarrow> userCancellationReason) in
      case cancelActiveTurn turn cancellation s of
        (True, s2) \<Rightarrow> (True, s2)
      | (False, s2) \<Rightarrow> (case turn of Some i \<Rightarrow> cancelQueuedTurn i cancellation s2 | None \<Rightarrow> (False, s2)))"

text \<open>The handle of a step, by its turn and its request.\<close>

definition cancel_step_handle :: "nat \<Rightarrow> nat \<Rightarrow> thrown option \<Rightarrow> loop_state \<Rightarrow> loop_state" where
  "cancel_step_handle turn i reason s =
     (let c = (case reason of Some r \<Rightarrow> r | None \<Rightarrow> userCancellationReason);
          hit = (\<lambda>job. if tj_id job = turn then cancelStep i c job else job)
      in s\<lparr>ls_active := map_option (\<lambda>(job, run). (hit job, run)) (ls_active s),
           ls_pendingTurns := map hit (ls_pendingTurns s)\<rparr>)"

text \<open>The \<open>abort\<close> of the receipt of a request.\<close>

definition abort_standalone :: "nat \<Rightarrow> thrown \<Rightarrow> loop_state \<Rightarrow> loop_state" where
  "abort_standalone i reason s =
     (case find (\<lambda>r. rq_id r = i) (ls_standaloneStepQueue s) of
        None \<Rightarrow> s
      | Some r \<Rightarrow>
          if rq_state r \<noteq> ReqPending then s
          else rejectAssignment r reason (s\<lparr>ls_standaloneStepQueue := abort_request i (ls_standaloneStepQueue s)\<rparr>))"

definition abortRequest :: "nat \<Rightarrow> thrown option \<Rightarrow> loop_state \<Rightarrow> loop_state" where
  "abortRequest i reason s =
     (let c = (case reason of Some r \<Rightarrow> r | None \<Rightarrow> userCancellationReason) in
      case find (\<lambda>h. rq_id (ha_request h) = i) (ls_heldAdmissions s) of
        Some h \<Rightarrow>
          let s2 = s\<lparr>ls_heldAdmissions := remove1 h (ls_heldAdmissions s)\<rparr> in
          if rq_state (ha_request h) \<noteq> ReqPending then s2 else maybeSettle (rejectAssignment (ha_request h) c s2)
      | None \<Rightarrow>
          if (case ls_active s of Some (job, _) \<Rightarrow> jm_get (tj_steps job) i \<noteq> None | None \<Rightarrow> False)
          then s\<lparr>ls_active := map_option (\<lambda>(job, run). (cancelStep i c job, run)) (ls_active s)\<rparr>
          else
            (case find (\<lambda>job. tj_state job = LtQueued \<and> tj_request job = i \<or> jm_get (tj_steps job) i \<noteq> None) (ls_pendingTurns s) of
               Some job \<Rightarrow>
                 if tj_state job = LtQueued \<and> tj_request job = i then snd (cancel_turn (Some (tj_id job)) reason s)
                 else cancel_step_handle (tj_id job) i reason s
             | None \<Rightarrow> abort_standalone i c s))"

section \<open>Quiescence and disposal\<close>

definition tryAcquireQuiescence :: "loop_state \<Rightarrow> loop_state" where
  "tryAcquireQuiescence s =
     (if ls_disposing s \<or> ls_active s \<noteq> None \<or> loop_hasPendingRequests s then s
      else s\<lparr>ls_quiescenceDepth := ls_quiescenceDepth s + 1\<rparr>)"

definition admit_held :: "loop_env \<Rightarrow> held_admission \<Rightarrow> loop_state \<Rightarrow> loop_state" where
  "admit_held env h s =
     (if rq_aborted (ha_request h) then s
      else case admit env (ha_request h) (ha_seed h) (ha_at_head h) s of
             (None, s2) \<Rightarrow> s2
           | (Some e, s2) \<Rightarrow> rejectAssignment (ha_request h) e s2)"

definition releaseQuiescence :: "loop_env \<Rightarrow> loop_state \<Rightarrow> loop_state" where
  "releaseQuiescence env s =
     (if ls_quiescenceDepth s = 0 then s
      else
        let s2 = s\<lparr>ls_quiescenceDepth := ls_quiescenceDepth s - 1\<rparr> in
        if ls_quiescenceDepth s2 > 0 \<or> ls_disposing s2 then s2
        else
          let s3 = pumpTurns env s2
          in pumpTurns env (fold (admit_held env) (ls_heldAdmissions s3) (s3\<lparr>ls_heldAdmissions := []\<rparr>)))"

definition dispose :: "loop_state \<Rightarrow> loop_state" where
  "dispose s =
     (if ls_disposing s then s
      else
        let reason = abortError ''Agent loop disposed'';
            s2 = fold (\<lambda>job s. snd (cancel_turn (Some (tj_id job)) (Some reason) s)) (ls_pendingTurns s)
                   (s\<lparr>ls_disposing := True\<rparr>);
            s3 = (case ls_active s2 of
                    Some (job, _) \<Rightarrow> snd (cancel_turn (Some (tj_id job)) (Some reason) s2) | None \<Rightarrow> s2);
            s4 = fold (\<lambda>r. rejectAssignment r reason) (ls_standaloneStepQueue s3) (s3\<lparr>ls_standaloneStepQueue := []\<rparr>);
            s5 = fold (\<lambda>h. rejectAssignment (ha_request h) reason) (ls_heldAdmissions s4) (s4\<lparr>ls_heldAdmissions := []\<rparr>)
        in maybeSettle s5)"

section \<open>The error handlers\<close>

definition deleteErrorHandler :: "string \<Rightarrow> (string \<times> 'h) list \<Rightarrow> (string \<times> 'h) list" where
  "deleteErrorHandler i handlers =
     (case find_index (\<lambda>(j, _). j = i) 0 handlers of
        None \<Rightarrow> handlers
      | Some index \<Rightarrow> take index handlers @ drop (Suc index) handlers)"

text \<open>The place is \<open>{ before }\<close> or \<open>{ after }\<close>; the old entry is gone even when the target is missing.\<close>

definition registerLoopErrorHandler ::
  "string \<Rightarrow> 'h \<Rightarrow> string option \<Rightarrow> string option \<Rightarrow> (string \<times> 'h) list \<Rightarrow> thrown option \<times> (string \<times> 'h) list" where
  \<open>registerLoopErrorHandler i h before after handlers0 =
     (if before \<noteq> None \<and> after \<noteq> None
      then (Some (ErrorThrown ''Error'' ''Loop error handler registration cannot specify both before and after''), handlers0)
      else
        let handlers = deleteErrorHandler i handlers0 in
        case coalesce before after of
          None \<Rightarrow> (None, handlers @ [(i, h)])
        | Some target \<Rightarrow>
            (case find_index (\<lambda>(j, _). j = target) 0 handlers of
               None \<Rightarrow> (Some (ErrorThrown ''Error'' (''Loop error handler target "'' @ target @ ''" is not registered'')), handlers)
             | Some targetIndex \<Rightarrow>
                 let insertAt = (if before \<noteq> None then targetIndex else targetIndex + 1)
                 in (None, take insertAt handlers @ (i, h) # drop insertAt handlers)))\<close>

section \<open>Actions\<close>

text \<open>
  The calls of the clients, and for the running turn: the hooks before the step, a part of the stream, the response,
  a call and a result of the tools, their end, the hooks after the step, an error of the request or the tools, the
  outcome of an error handler, the end of the retry's sleep, and what follows the end of the run.
\<close>

datatype handler_outcome = HandlerCaught bool | HandlerDeclined | HandlerThrew thrown

datatype loop_action =
    AEnqueue step_request "turn_seed option" bool
  | AAbortRequest nat "thrown option"
  | ACancel "nat option" "thrown option"
  | ACancelStep nat nat "thrown option"
  | AAcquire
  | ARelease
  | ASettled
  | ADispose
  | AHooks "thrown option"
  | APart stream_part
  | AResponse llm_response
  | AToolCall tool_call "json option"
  | AToolResult string tool_output "bool option" "string option" bool
  | AToolsDone
  | AAfter bool "thrown option" bool
  | AError thrown
  | AHandled handler_outcome
  | ASlept "thrown option"
  | AFinish number

definition run_act :: "loop_env \<Rightarrow> loop_action \<Rightarrow> turn_job \<Rightarrow> loop_runtime \<Rightarrow> loop_state \<Rightarrow> loop_state" where
  "run_act env a job run s =
     (case (a, lr_phase run) of
        (AHooks None, RunHook) \<Rightarrow> beginStep env job run s
      | (AHooks (Some e), RunHook) \<Rightarrow> handleLoopStepError env job run e s
      | (APart part, RunStream) \<Rightarrow> createStreamPartHandler job run part s
      | (AResponse response, RunStream) \<Rightarrow> appendResponseContent env job run response s
      | (AError e, RunStream) \<Rightarrow> handleLoopStepError env job run e s
      | (AToolCall call display, RunTools response stop) \<Rightarrow>
          if lp_toolCalls response = [] then s
          else appendLoopEvent (tj_id job)
                 (ToolCall (step_uuid env job run) (call_id call) (call_name call) (call_arguments call) display (call_extras call)) s
      | (AToolResult i output isError note stopTurn, RunTools response stop) \<Rightarrow>
          if lp_toolCalls response = [] then s
          else put_active job (run\<lparr>lr_phase := RunTools response (stop \<or> stopTurn)\<rparr>)
                 (appendLoopEvent (tj_id job) (ToolResult i output isError note) s)
      | (AToolsDone, RunTools response stop) \<Rightarrow> finishStep env job run response (tool_finish response stop) s
      | (AError e, RunTools response stop) \<Rightarrow> handleLoopStepError env job run e s
      | (AAfter reached rejected stopTurn, RunAfter finish) \<Rightarrow> runAfterStep env job run finish reached rejected stopTurn s
      | (AHandled outcome, RunRecover i e) \<Rightarrow>
          if i = step_retry_id then s
          else (case outcome of
                  HandlerCaught retry \<Rightarrow> recovered env retry job run s
                | HandlerDeclined \<Rightarrow> failLoopStep job run e s
                | HandlerThrew e2 \<Rightarrow> handler_threw env job run e2 s)
      | (ASlept rejected, RunRecover i e) \<Rightarrow> if i = step_retry_id then retry_slept env job run e rejected s else s
      | (AFinish durationMs, RunEnded r) \<Rightarrow> finish_turn env durationMs job r s
      | _ \<Rightarrow> s)"

definition loop_act :: "loop_env \<Rightarrow> loop_action \<Rightarrow> loop_state \<Rightarrow> loop_state" where
  "loop_act env a s =
     (case a of
        AEnqueue request seed at_head \<Rightarrow> snd (enqueue_request env request seed at_head s)
      | AAbortRequest i reason \<Rightarrow> abortRequest i reason s
      | ACancel turn reason \<Rightarrow> snd (cancel_turn turn reason s)
      | ACancelStep turn i reason \<Rightarrow> cancel_step_handle turn i reason s
      | AAcquire \<Rightarrow> tryAcquireQuiescence s
      | ARelease \<Rightarrow> releaseQuiescence env s
      | ASettled \<Rightarrow> loop_settled s
      | ADispose \<Rightarrow> dispose s
      | _ \<Rightarrow> (case ls_active s of Some (job, run) \<Rightarrow> run_act env a job run s | None \<Rightarrow> s))"

definition loop_acts :: "loop_env \<Rightarrow> loop_action list \<Rightarrow> loop_state \<Rightarrow> loop_state" where
  "loop_acts env as s = fold (loop_act env) as s"

end
