(* ===== verification/LoopInv.thy ===== *)
theory LoopInv
  imports LoopService
begin

text \<open>
  What every action of the agent loop keeps: the events of its turns follow a grammar, the steps of the running turn
  stay within the budget, and the wire numbers the turns as the loop does. The functions of the running turn share
  one contract, \<open>good\<close>.
\<close>

section \<open>The grammar of the events\<close>

text \<open>
  No turn runs, or a turn does with the number of its last step and whether that step is open. A turn's events lie
  between its start and its end; content and retries belong to the open step. Other events are free.
\<close>

definition engine_next :: "(int \<times> int \<times> bool) option \<Rightarrow> domain_event \<Rightarrow> (int \<times> int \<times> bool) option option" where
  "engine_next g e =
     (let inside = (\<lambda>n. case g of Some (m, j, opened) \<Rightarrow> if m = n \<and> opened then Some g else None | None \<Rightarrow> None) in
      case e of
        EvTurnStarted n _ _ \<Rightarrow> if g = None then Some (Some (n, 0, False)) else None
      | EvTurnEnded te \<Rightarrow> (case g of Some (m, j, opened) \<Rightarrow> if m = te_turnId te then Some None else None | None \<Rightarrow> None)
      | EvStepStarted n k \<Rightarrow>
          (case g of Some (m, j, opened) \<Rightarrow> if m = n \<and> j < k then Some (Some (n, k, True)) else None | None \<Rightarrow> None)
      | EvStepCompleted sc \<Rightarrow>
          (case g of
             Some (m, j, opened) \<Rightarrow>
               if m = sc_turnId sc \<and> j = sc_step sc \<and> opened then Some (Some (m, j, False)) else None
           | None \<Rightarrow> None)
      | EvStepInterrupted n k _ _ \<Rightarrow>
          (case g of Some (m, j, opened) \<Rightarrow> if m = n \<and> j \<le> k then Some (Some (n, k, False)) else None | None \<Rightarrow> None)
      | EvStepRetrying r \<Rightarrow>
          (case g of
             Some (m, j, opened) \<Rightarrow> if m = rt_turnId r \<and> j = rt_step r \<and> opened then Some g else None
           | None \<Rightarrow> None)
      | EvAssistantDelta n _ \<Rightarrow> inside n
      | EvThinkingDelta n _ \<Rightarrow> inside n
      | EvToolCallDelta n _ _ _ \<Rightarrow> inside n
      | EvToolCallStarted c \<Rightarrow> inside (cs_turnId c)
      | _ \<Rightarrow> Some g)"

fun engine_run :: "(int \<times> int \<times> bool) option \<Rightarrow> domain_event list \<Rightarrow> (int \<times> int \<times> bool) option option" where
  "engine_run g [] = Some g"
| "engine_run g (e # es) = (case engine_next g e of None \<Rightarrow> None | Some g2 \<Rightarrow> engine_run g2 es)"

lemma engine_run_snoc [simp]: "engine_run g (es @ [e]) = Option.bind (engine_run g es) (\<lambda>h. engine_next h e)"
  by (induction g es rule: engine_run.induct) (auto split: option.split)

lemma engine_run_append: "engine_run g (es @ es') = Option.bind (engine_run g es) (\<lambda>h. engine_run h es')"
  by (induction g es rule: engine_run.induct) (auto split: option.split)

text \<open>The events the loop publishes, no step beyond the budget of a turn and no retry beyond the attempts of a step.\<close>

definition loop_event_ok :: "loop_env \<Rightarrow> domain_event \<Rightarrow> bool" where
  "loop_event_ok env e \<longleftrightarrow>
     (case e of
        EvStepStarted n k \<Rightarrow> (case le_maxStepsPerTurn env of Some m \<Rightarrow> m = 0 \<or> k \<le> int m | None \<Rightarrow> True)
      | EvTurnStarted _ _ _ \<Rightarrow> True
      | EvTurnEnded _ \<Rightarrow> True
      | EvStepCompleted _ \<Rightarrow> True
      | EvStepInterrupted _ _ _ _ \<Rightarrow> True
      | EvStepRetrying r \<Rightarrow>
          1 \<le> rt_failedAttempt r \<and> rt_failedAttempt r < of_nat (maxAttempts env) \<and>
          rt_nextAttempt r = rt_failedAttempt r + 1 \<and> rt_maxAttempts r = of_nat (maxAttempts env)
      | EvAssistantDelta _ _ \<Rightarrow> True
      | EvThinkingDelta _ _ \<Rightarrow> True
      | EvToolCallDelta _ _ _ _ \<Rightarrow> True
      | EvError _ \<Rightarrow> True
      | _ \<Rightarrow> False)"

definition logged :: "loop_env \<Rightarrow> (int \<times> int \<times> bool) option \<Rightarrow> domain_event list \<Rightarrow> bool" where
  "logged env g es \<longleftrightarrow> engine_run None es = Some g \<and> list_all (loop_event_ok env) es"

lemma logged_snoc: "logged env g es \<Longrightarrow> engine_next g e = Some g' \<Longrightarrow> loop_event_ok env e \<Longrightarrow> logged env g' (es @ [e])"
  by (simp add: logged_def)

definition started_turns :: "domain_event list \<Rightarrow> int list" where
  "started_turns es = concat (map (\<lambda>e. case e of EvTurnStarted n _ _ \<Rightarrow> [n] | _ \<Rightarrow> []) es)"

definition starts_turn :: "domain_event \<Rightarrow> bool" where
  "starts_turn e \<longleftrightarrow> (case e of EvTurnStarted _ _ _ \<Rightarrow> True | _ \<Rightarrow> False)"

lemma started_turns_snoc [simp]: "\<not> starts_turn e \<Longrightarrow> started_turns (es @ [e]) = started_turns es"
  by (auto simp: started_turns_def starts_turn_def split: domain_event.splits)

lemma started_turns_append: "started_turns (es @ es') = started_turns es @ started_turns es'"
  by (simp add: started_turns_def)

section \<open>The contract of the running turn\<close>

text \<open>What the functions of the running turn leave alone, and the wire operations they may add.\<close>

definition turns_view ::
  "loop_state \<Rightarrow> (nat option \<times> bool \<times> nat) \<times> (request_queue \<times> turn_job list \<times> held_admission list)
     \<times> (nat list \<times> (nat \<times> assignment) list) \<times> (nat \<times> nat) \<times> turn_job list" where
  "turns_view s =
     ((ls_nextReservedTurnId s, ls_disposing s, ls_quiescenceDepth s),
      (ls_standaloneStepQueue s, ls_pendingTurns s, ls_heldAdmissions s),
      (ls_pendingAssignments s, ls_assigned s), (ls_settleWaiters s, ls_settled s), ls_finished s)"

definition quiet_on :: "nat \<Rightarrow> loop_state \<Rightarrow> loop_state \<Rightarrow> bool" where
  "quiet_on i s s' \<longleftrightarrow>
     turns_view s' = turns_view s \<and> started_turns (ls_events s') = started_turns (ls_events s) \<and>
     (\<exists>k. ls_ops s' = ls_ops s @ replicate k (OpLoopEvent i) \<and>
          ls_clock s' = foldl apply_turn_op (ls_clock s) (replicate k (OpLoopEvent i)))"

lemma quiet_refl [simp, intro]: "quiet_on i s s"
  unfolding quiet_on_def by (intro conjI exI [of _ 0]) auto

lemma quiet_trans [trans]: "quiet_on i s s2 \<Longrightarrow> quiet_on i s2 s3 \<Longrightarrow> quiet_on i s s3"
proof -
  assume a: "quiet_on i s s2" and b: "quiet_on i s2 s3"
  obtain k k' where "ls_ops s3 = (ls_ops s @ replicate k (OpLoopEvent i)) @ replicate k' (OpLoopEvent i)"
    "ls_clock s3 = foldl apply_turn_op (foldl apply_turn_op (ls_clock s) (replicate k (OpLoopEvent i))) (replicate k' (OpLoopEvent i))"
    using a b by (auto simp: quiet_on_def)
  then have "ls_ops s3 = ls_ops s @ replicate (k + k') (OpLoopEvent i)"
    "ls_clock s3 = foldl apply_turn_op (ls_clock s) (replicate (k + k') (OpLoopEvent i))"
    by (simp_all add: replicate_add)
  then show ?thesis using a b unfolding quiet_on_def by auto
qed

lemma quiet_fields [simp]:
  "quiet_on i s (s'\<lparr>ls_active := x\<rparr>) = quiet_on i s s'"
  "quiet_on i s (s'\<lparr>ls_context := y\<rparr>) = quiet_on i s s'"
  "quiet_on i s (s'\<lparr>ls_retry := z\<rparr>) = quiet_on i s s'"
  by (simp_all add: quiet_on_def turns_view_def)

lemma quiet_publish [simp]: "\<not> starts_turn e \<Longrightarrow> quiet_on i s (publish_event e s') = quiet_on i s s'"
  by (simp add: quiet_on_def turns_view_def publish_event_def)

lemma no_turn_start [simp]:
  "\<not> starts_turn (EvStepStarted n k)" "\<not> starts_turn (EvStepCompleted sc)" "\<not> starts_turn (EvStepInterrupted n k r m)"
  "\<not> starts_turn (EvStepRetrying rt)" "\<not> starts_turn (EvAssistantDelta n x)" "\<not> starts_turn (EvThinkingDelta n x)"
  "\<not> starts_turn (EvToolCallDelta n i nm a)" "\<not> starts_turn (EvTurnEnded te)" "\<not> starts_turn (EvError kvs)"
  by (simp_all add: starts_turn_def)

lemma quiet_dispatch: "quiet_on i s s' \<Longrightarrow> quiet_on i s (dispatch_turn_op (OpLoopEvent i) s')"
proof -
  assume q: "quiet_on i s s'"
  have "quiet_on i s' (dispatch_turn_op (OpLoopEvent i) s')"
    unfolding quiet_on_def by (intro conjI exI [of _ "Suc 0"]) (simp_all add: turns_view_def dispatch_turn_op_def)
  with q show ?thesis by (rule quiet_trans)
qed

lemma quiet_append: "quiet_on i s s' \<Longrightarrow> quiet_on i s (appendLoopEvent i e s')"
  by (auto simp: appendLoopEvent_def Let_def intro!: quiet_dispatch split: loop_event.split)

definition in_budget :: "loop_env \<Rightarrow> loop_runtime \<Rightarrow> bool" where
  "in_budget env run \<longleftrightarrow>
     (case le_maxStepsPerTurn env of Some m \<Rightarrow> m = 0 \<or> lr_steps run \<le> m | None \<Rightarrow> True)"

lemma in_budget_fields [simp]:
  "in_budget env (run\<lparr>lr_phase := p\<rparr>) = in_budget env run"
  "in_budget env (run\<lparr>lr_callsByIndex := cs\<rparr>) = in_budget env run"
  "in_budget env (run\<lparr>lr_stepStarted := st\<rparr>) = in_budget env run"
  "in_budget env (run\<lparr>lr_lastStopReason := f\<rparr>) = in_budget env run"
  "in_budget env (run\<lparr>lr_current := c\<rparr>) = in_budget env run"
  by (simp_all add: in_budget_def split: option.split)

definition mid :: "loop_env \<Rightarrow> turn_job \<Rightarrow> loop_runtime \<Rightarrow> loop_state \<Rightarrow> nat \<Rightarrow> bool \<Rightarrow> bool" where
  "mid env job run s k opened \<longleftrightarrow>
     logged env (Some (int (tj_id job), int k, opened)) (ls_events s) \<and> tj_state job = LtRunning \<and>
     k \<le> lr_steps run \<and> (\<forall>c. lr_current run = Some c \<longrightarrow> sn_number c = lr_steps run) \<and> in_budget env run"

definition phase_ok :: "loop_runtime \<Rightarrow> nat \<Rightarrow> bool \<Rightarrow> bool" where
  "phase_ok run k opened \<longleftrightarrow>
     (case lr_phase run of
        RunHook \<Rightarrow> k < lr_steps run \<and> lr_current run \<noteq> None
      | RunStream \<Rightarrow> opened \<and> k = lr_steps run \<and> lr_current run \<noteq> None
      | RunTools _ _ \<Rightarrow> opened \<and> k = lr_steps run \<and> lr_current run \<noteq> None
      | RunAfter _ \<Rightarrow> lr_current run \<noteq> None
      | _ \<Rightarrow> True)"

lemma phase_ok_fields [simp]:
  "phase_ok (run\<lparr>lr_callsByIndex := cs\<rparr>) k b = phase_ok run k b"
  "phase_ok (run\<lparr>lr_stepStarted := st\<rparr>) k b = phase_ok run k b"
  by (simp_all add: phase_ok_def split: run_phase.split)

definition good :: "loop_env \<Rightarrow> nat \<Rightarrow> loop_state \<Rightarrow> loop_state \<Rightarrow> bool" where
  "good env i s s' \<longleftrightarrow>
     quiet_on i s s' \<and>
     (\<exists>job run k opened. ls_active s' = Some (job, run) \<and> mid env job run s' k opened \<and> phase_ok run k opened \<and> tj_id job = i)"

lemma good_trans: "quiet_on i s s2 \<Longrightarrow> good env i s2 s3 \<Longrightarrow> good env i s s3"
  by (auto simp: good_def intro: quiet_trans)

lemma goodI:
  "quiet_on i s s' \<Longrightarrow> ls_active s' = Some (job, run) \<Longrightarrow> mid env job run s' k opened \<Longrightarrow> phase_ok run k opened \<Longrightarrow>
   tj_id job = i \<Longrightarrow> good env i s s'"
  by (auto simp: good_def)

lemma events_fields [simp]:
  "ls_events (dispatch_turn_op op s) = ls_events s" "ls_events (appendLoopEvent i ev s) = ls_events s"
  "ls_events (publish_event e s) = ls_events s @ [e]"
  by (auto simp: dispatch_turn_op_def appendLoopEvent_def publish_event_def Let_def split: loop_event.split)

lemma mid_fields [simp]:
  "mid env job run (s\<lparr>ls_active := x\<rparr>) k b = mid env job run s k b"
  "mid env job run (s\<lparr>ls_context := y\<rparr>) k b = mid env job run s k b"
  "mid env job run (s\<lparr>ls_retry := z\<rparr>) k b = mid env job run s k b"
  "mid env job run (dispatch_turn_op op s) k b = mid env job run s k b"
  "mid env job run (appendLoopEvent i ev s) k b = mid env job run s k b"
  by (simp_all add: mid_def)

lemma mid_run [simp]:
  "mid env job (run\<lparr>lr_phase := p\<rparr>) s k b = mid env job run s k b"
  "mid env job (run\<lparr>lr_callsByIndex := cs\<rparr>) s k b = mid env job run s k b"
  "mid env job (run\<lparr>lr_stepStarted := st\<rparr>) s k b = mid env job run s k b"
  "mid env job (run\<lparr>lr_lastStopReason := f\<rparr>) s k b = mid env job run s k b"
  by (simp_all add: mid_def)

lemma mid_current: "mid env job run s k b \<Longrightarrow> mid env job (run\<lparr>lr_current := None\<rparr>) s k b"
  by (simp add: mid_def)

lemma mid_job:
  "mid env job run s k b \<Longrightarrow> tj_id job' = tj_id job \<Longrightarrow> tj_state job' = tj_state job \<Longrightarrow> mid env job' run s k b"
  by (simp add: mid_def)

section \<open>The functions of the running turn\<close>

lemma good_put:
  assumes "mid env job run s' k b" "phase_ok run k b" "quiet_on (tj_id job) s s'"
  shows "good env (tj_id job) s (s'\<lparr>ls_active := Some (job, run)\<rparr>)"
  by (rule goodI [where job = job and run = run and k = k and opened = b]) (use assms in simp_all)

lemma good_end_run:
  assumes "mid env job run s k b" shows "good env (tj_id job) s (end_run r job run s)"
proof -
  let ?job = "job\<lparr>tj_queue := abortTurnScoped (tj_queue job)\<rparr>"
  have "mid env ?job (run\<lparr>lr_phase := RunEnded r\<rparr>) s k b" using mid_job [OF assms, of ?job] by simp
  then show ?thesis using good_put [of env ?job "run\<lparr>lr_phase := RunEnded r\<rparr>" s k b s] by (simp add: end_run_def phase_ok_def)
qed

lemma emit_interrupted:
  assumes "mid env job run s k b"
  shows "\<exists>k' b'. mid env job run (emitStepInterrupted job run reason message s) k' b'
    \<and> quiet_on (tj_id job) s (emitStepInterrupted job run reason message s)"
proof (cases "lr_current run")
  case None
  then show ?thesis using assms by (auto simp: emitStepInterrupted_def)
next
  case (Some c)
  then have "mid env job run (emitStepInterrupted job run reason message s) (lr_steps run) False"
    using assms by (auto simp: emitStepInterrupted_def mid_def logged_def loop_event_ok_def engine_next_def)
  then show ?thesis using Some by (auto simp: emitStepInterrupted_def)
qed

lemma good_fail:
  assumes "mid env job run s k b"
  shows "good env (tj_id job) s (failLoopStep job run e s)"
  unfolding failLoopStep_def using emit_interrupted [OF assms] by (blast intro: good_end_run good_trans)

text \<open>The retry service claims the error.\<close>

definition claimed :: "loop_env \<Rightarrow> thrown \<Rightarrow> bool" where
  "claimed env e \<longleftrightarrow> (case find (\<lambda>(i, match). match e) (le_handlers env) of Some (i, _) \<Rightarrow> i = step_retry_id | None \<Rightarrow> False)"

lemma good_waiting:
  "mid env job run s k b \<Longrightarrow> good env (tj_id job) s (s\<lparr>ls_active := Some (job, run\<lparr>lr_phase := RunRecover i e\<rparr>)\<rparr>)"
  using good_put [of env job "run\<lparr>lr_phase := RunRecover i e\<rparr>" s k b s] by (simp add: phase_ok_def)

lemma recover_event:
  assumes "recover env job run e rs = (rs', Some ev)"
  shows "rt_turnId ev = int (tj_id job)" "\<exists>c. lr_current run = Some c \<and> rt_step ev = int (sn_number c)"
    "loop_event_ok env (EvStepRetrying ev)"
  using assms by (auto simp: recover_def Let_def loop_event_ok_def split: option.splits if_splits)

lemma good_try_recover:
  assumes m: "mid env job run s k b" and o: "lr_current run \<noteq> None \<and> claimed env e \<longrightarrow> b \<and> k = lr_steps run"
  shows "good env (tj_id job) s (tryRecoverLoopError env job run e s)"
proof (cases "find (\<lambda>(i, match). match e) (le_handlers env)")
  case None
  then show ?thesis using good_fail [OF m] by (simp add: tryRecoverLoopError_def)
next
  case (Some h)
  obtain i g where h: "h = (i, g)" by fastforce
  show ?thesis
  proof (cases "i = step_retry_id")
    case False
    then show ?thesis using Some h good_waiting [OF m] by (simp add: tryRecoverLoopError_def Let_def)
  next
    case True
    obtain rs oe where r: "recover env job run e (ls_retry s) = (rs, oe)" by fastforce
    show ?thesis
    proof (cases oe)
      case None
      have "good env (tj_id job) (s\<lparr>ls_retry := rs\<rparr>) (failLoopStep job run e (s\<lparr>ls_retry := rs\<rparr>))"
        using m by (intro good_fail) simp
      then have "good env (tj_id job) s (failLoopStep job run e (s\<lparr>ls_retry := rs\<rparr>))" by (rule good_trans [rotated]) simp
      then show ?thesis using Some h True r None by (simp add: tryRecoverLoopError_def Let_def)
    next
      case e: (Some ev)
      note ev = recover_event [OF r [unfolded e]]
      have b: "b" "k = lr_steps run" using ev(2) o Some h True by (auto simp: claimed_def)
      let ?s = "publish_event (EvStepRetrying ev) (s\<lparr>ls_retry := rs\<rparr>)"
      have "mid env job run ?s k b"
        using m ev b by (auto simp: mid_def logged_def publish_event_def engine_next_def)
      then have "good env (tj_id job) ?s (?s\<lparr>ls_active := Some (job, run\<lparr>lr_phase := RunRecover i e\<rparr>)\<rparr>)" by (rule good_waiting)
      then have "good env (tj_id job) s (?s\<lparr>ls_active := Some (job, run\<lparr>lr_phase := RunRecover i e\<rparr>)\<rparr>)"
        by (rule good_trans [rotated]) simp
      then show ?thesis using Some h True r e by (simp add: tryRecoverLoopError_def Let_def)
    qed
  qed
qed

lemma no_current [simp]: "lr_current run = None \<Longrightarrow> current_step job run = None"
  by (simp add: current_step_def)

lemma good_cancelled_or:
  assumes m: "mid env job run s k b"
    and again: "\<And>s2 k2 b2. lr_current run \<noteq> None \<Longrightarrow> mid env job run s2 k2 b2 \<Longrightarrow> good env (tj_id job) s2 (again job run s2)"
    and other: "good env (tj_id job) s (other s)"
  shows "good env (tj_id job) s (cancelled_or again other job run e s)"
proof (cases "handleLoopCancellation job run e")
  case None
  then show ?thesis using other by (simp add: cancelled_or_def)
next
  case (Some md)
  obtain message d where md: "md = (message, d)" by fastforce
  let ?s = "emitStepInterrupted job run ''aborted'' message s"
  obtain k2 b2 where m2: "mid env job run ?s k2 b2" and q: "quiet_on (tj_id job) s ?s" using emit_interrupted [OF m] by blast
  have "lr_current run \<noteq> None" if "d = DContinue"
    using Some md that by (cases "lr_current run") (auto simp: handleLoopCancellation_def Let_def split: if_splits)
  then have "good env (tj_id job) ?s (case d of DContinue \<Rightarrow> again job run ?s | DReturn r \<Rightarrow> end_run r job run ?s)"
    using again [OF _ m2] good_end_run [OF m2] by (cases d) auto
  then show ?thesis using Some md q by (simp add: cancelled_or_def Let_def good_trans)
qed

text \<open>An error at the begin of an iteration ends the run or waits for a handler.\<close>

lemma begin_error_ends:
  assumes "lr_current run = None"
  shows "begin_error env job run e s = cancelled_or again (tryRecoverLoopError env job run e) job run e s"
  using assms
  by (auto simp: begin_error_def cancelled_or_def handleLoopCancellation_def current_step_def Let_def
      split: option.splits if_splits disposition.splits)

lemma good_begin_error:
  assumes "mid env job run s k b" "lr_current run = None"
  shows "good env (tj_id job) s (begin_error env job run e s)"
  unfolding begin_error_def
  by (rule good_cancelled_or [OF assms(1)]) (use assms good_try_recover [OF assms(1)] in auto)

lemma take_step_good:
  assumes m: "mid env job run s k b" "lr_current run = None"
    and t: "take_step env job run = BegunStep job2 run2 records" and budget: "in_budget env (run\<lparr>lr_steps := lr_steps run + 1\<rparr>)"
  shows "mid env job2 (run2\<lparr>lr_phase := RunHook\<rparr>) s k b" "phase_ok (run2\<lparr>lr_phase := RunHook\<rparr>) k b" "tj_id job2 = tj_id job"
  using assms
  by (auto simp: take_step_def Let_def mid_def phase_ok_def in_budget_def split: prod.splits option.splits)

lemma good_iterate:
  assumes m: "mid env job run0 s k b"
  shows "good env (tj_id job) s (iterate env job run0 s)"
proof -
  let ?run = "run0\<lparr>lr_current := None\<rparr>"
  note m2 = mid_current [OF m]
  show ?thesis
  proof (cases "beginLoopStep env job ?run")
    case (BegunStep job2 run2 records)
    have t: "take_step env job ?run = BegunStep job2 run2 records"
      and budget: "in_budget env (?run\<lparr>lr_steps := lr_steps ?run + 1\<rparr>)"
      using BegunStep by (auto simp: beginLoopStep_def in_budget_def split: option.splits if_splits)
    note g = take_step_good [OF m2 _ t budget]
    show ?thesis
      using good_put [OF g(1,2), of s] g(3) BegunStep by (simp add: iterate_def good_def)
  next
    case (BegunResult r)
    then show ?thesis using good_end_run [OF m2] by (simp add: iterate_def)
  next
    case (BegunThrow e)
    then show ?thesis using good_begin_error [OF m2] by (simp add: iterate_def)
  qed
qed

lemma good_handle_error:
  assumes "mid env job run s k b" "lr_current run \<noteq> None \<and> claimed env e \<longrightarrow> b \<and> k = lr_steps run"
  shows "good env (tj_id job) s (handleLoopStepError env job run e s)"
  unfolding handleLoopStepError_def
  by (rule good_cancelled_or [OF assms(1)]) (use good_iterate good_try_recover [OF assms] in auto)

text \<open>An error that aborts never comes to the handlers.\<close>

lemma good_abort_error:
  assumes "mid env job run s k b" "isAbortError e \<or> step_signal job run \<noteq> None"
  shows "good env (tj_id job) s (handleLoopStepError env job run e s)"
proof -
  have "handleLoopCancellation job run e \<noteq> None"
    using assms(2) by (auto simp: handleLoopCancellation_def step_signal_def Let_def split: option.splits)
  then have "handleLoopStepError env job run e s = cancelled_or (iterate env) (failLoopStep job run e) job run e s"
    by (auto simp: handleLoopStepError_def cancelled_or_def split: option.split)
  then show ?thesis using good_cancelled_or [OF assms(1), of "iterate env" "failLoopStep job run e"] good_iterate good_fail [OF assms(1)] by auto
qed

lemma good_handler_threw:
  assumes "mid env job run s k b"
  shows "good env (tj_id job) s (handler_threw env job run e s)"
  unfolding handler_threw_def by (rule good_cancelled_or [OF assms]) (use good_iterate good_fail [OF assms] in auto)

lemma enqueueStep_job [simp]:
  "tj_id (enqueueStep q h job) = tj_id job" "tj_state (enqueueStep q h job) = tj_state job"
  by (simp_all add: enqueueStep_def Let_def)

lemma good_recovered:
  assumes "mid env job run s k b"
  shows "good env (tj_id job) s (recovered env retry job run s)"
proof -
  define job2 where "job2 = (case lr_current run of Some c \<Rightarrow> if retry then enqueueStep (sb_driver (sn_batch c)) True job else job | None \<Rightarrow> job)"
  have "tj_id job2 = tj_id job" "tj_state job2 = tj_state job" by (simp_all add: job2_def split: option.split)
  then show ?thesis using good_iterate [OF mid_job [OF assms, of job2]] by (simp add: recovered_def job2_def)
qed

lemma good_slept:
  assumes "mid env job run s k b"
  shows "good env (tj_id job) s (retry_slept env job run e rejected s)"
  using good_handler_threw [OF assms] good_fail [OF assms] good_recovered [OF assms]
  by (auto simp: retry_slept_def split: option.split)

section \<open>The execution of a step\<close>

lemma good_begin_step:
  assumes m: "mid env job run s k b" and "k < lr_steps run" "lr_current run \<noteq> None"
  shows "good env (tj_id job) s (beginStep env job run s)"
proof (cases "step_signal job run")
  case (Some reason)
  then show ?thesis using good_abort_error [OF m] by (simp add: beginStep_def)
next
  case None
  let ?run = "run\<lparr>lr_phase := RunStream, lr_callsByIndex := [], lr_stepStarted := False\<rparr>"
  let ?s = "appendLoopEvent (tj_id job) (StepBegin (step_uuid env job run))
              (publish_event (EvStepStarted (int (tj_id job)) (int (step_no run))) s)"
  have "mid env job ?run ?s (lr_steps run) True"
    using assms by (auto simp: mid_def logged_def loop_event_ok_def in_budget_def engine_next_def step_no_def split: option.split)
  then show ?thesis
    using good_put [of env job ?run ?s "lr_steps run" True s] None assms(3)
    by (simp add: beginStep_def phase_ok_def quiet_append)
qed

lemma markStepStarted_eq:
  "markStepStarted job run = (job2, run2) \<Longrightarrow>
   tj_id job2 = tj_id job \<and> tj_state job2 = tj_state job \<and> (run2 = run \<or> run2 = run\<lparr>lr_stepStarted := True\<rparr>)"
  by (auto simp: markStepStarted_def split: if_splits)

lemma good_part:
  assumes m: "mid env job run s k b" and p: "phase_ok run k b" "lr_phase run = RunStream" and a: "ls_active s = Some (job, run)"
  shows "good env (tj_id job) s (createStreamPartHandler job run part s)"
proof -
  obtain job2 run2 where j: "markStepStarted job run = (job2, run2)" by fastforce
  note e = markStepStarted_eq [OF j]
  have "mid env job run2 s k b" using e m by auto
  then have m2: "mid env job2 run2 s k b" by (rule mid_job) (use e in simp_all)
  have p2: "phase_ok run2 k b" "b" using p e by (auto simp add: phase_ok_def [of run])
  have put: "good env (tj_id job) s (s2\<lparr>ls_active := Some (job2, run3)\<rparr>)"
    if "s2 = publish_event ev s" "\<not> starts_turn ev" "engine_next (Some (int (tj_id job), int k, True)) ev = Some (Some (int (tj_id job), int k, True))"
      "run3 = run2 \<or> run3 = run2\<lparr>lr_callsByIndex := cs\<rparr>" "loop_event_ok env ev" for s2 ev run3 cs
  proof -
    have "mid env job2 run3 s k b" "phase_ok run3 k b" using that(4) m2 p2 by auto
    then have "mid env job2 run3 s2 k b" using that(1,3,5) p2 e by (simp add: mid_def logged_def)
    then show ?thesis
      using good_put [of env job2 run3 s2 k b s] \<open>phase_ok run3 k b\<close> that(1,2) e by simp
  qed
  have same: "good env (tj_id job) s s"
    using goodI [OF quiet_refl a m p(1)] by simp
  show ?thesis
    unfolding createStreamPartHandler_def j Let_def prod.case
    by (cases part) (auto simp: engine_next_def loop_event_ok_def intro: put same split: option.split)
qed

lemma append_events_fields:
  "ls_events (fold (\<lambda>x. appendLoopEvent i (f x)) xs s) = ls_events s"
  "ls_active (fold (\<lambda>x. appendLoopEvent i (f x)) xs s) = ls_active s"
  by (induction xs arbitrary: s) (auto simp: appendLoopEvent_def dispatch_turn_op_def Let_def split: loop_event.split)

lemma quiet_fold: "quiet_on i s s' \<Longrightarrow> quiet_on i s (fold (\<lambda>x. appendLoopEvent i (f x)) xs s')"
  by (induction xs arbitrary: s') (auto intro: quiet_append)

lemma good_response:
  assumes m: "mid env job run s k b" and p: "phase_ok run k b" "lr_phase run = RunStream"
  shows "good env (tj_id job) s (appendResponseContent env job run response s)"
proof -
  let ?run = "run\<lparr>lr_phase := RunTools response False\<rparr>"
  let ?s = "appendResponseContent env job run response s"
  have "mid env job ?run ?s k b" "phase_ok ?run k b" "quiet_on (tj_id job) s ?s" "ls_active ?s = Some (job, ?run)"
    using m p by (auto simp: appendResponseContent_def mid_def append_events_fields phase_ok_def intro: quiet_fold)
  then show ?thesis by (blast intro: goodI)
qed

lemma good_finish_step:
  assumes m: "mid env job run s k b" and p: "b" "k = lr_steps run" "lr_current run \<noteq> None"
  shows "good env (tj_id job) s (finishStep env job run response finish s)"
proof (cases "step_signal job run")
  case (Some reason)
  then show ?thesis using good_abort_error [OF m] by (simp add: finishStep_def)
next
  case None
  obtain job2 run2 where j: "markStepStarted job run = (job2, run2)" by fastforce
  note e = markStepStarted_eq [OF j]
  let ?s = "publish_event (EvStepCompleted (step_completed job run response finish))
              (appendLoopEvent (tj_id job) (StepEnd (step_uuid env job run)) s)"
  let ?run = "run2\<lparr>lr_phase := RunAfter finish\<rparr>"
  have "mid env job run ?s k False"
    using m p by (auto simp: mid_def logged_def loop_event_ok_def engine_next_def step_completed_def Let_def step_no_def)
  then have "mid env job run2 ?s k False" using e by auto
  then have "mid env job2 ?run ?s k False" using mid_job [of env job run2 ?s k False job2] e by simp
  then show ?thesis
    using good_put [of env job2 ?run ?s k False s] None j e p(3)
    by (auto simp: finishStep_def phase_ok_def quiet_append)
qed

lemma mark_completed_job [simp]:
  "tj_id (mark_completed job run) = tj_id job" "tj_state (mark_completed job run) = tj_state job"
  by (simp_all add: mark_completed_def split: option.split)

lemma good_complete:
  assumes m: "mid env job run s k b"
  shows "good env (tj_id job) s (completeLoopStep env job run finish stopTurn s)"
proof -
  let ?job = "mark_completed job run" and ?run = "run\<lparr>lr_current := None, lr_lastStopReason := Some finish\<rparr>"
  have m2: "mid env ?job ?run s k b" using mid_job [OF mid_current [OF m], of ?job] by simp
  show ?thesis
    using good_handle_error [OF m2] good_end_run [OF m2] good_iterate [OF m2] by (auto simp: completeLoopStep_def Let_def)
qed

lemma good_after:
  assumes m: "mid env job run s k b"
  shows "good env (tj_id job) s (runAfterStep env job run finish reached rejected stopTurn s)"
proof -
  define s2 where "s2 = (if reached then s\<lparr>ls_retry := no_failures\<rparr> else s)"
  have m2: "mid env job run s2 k b" and q: "quiet_on (tj_id job) s s2" using m by (simp_all add: s2_def)
  have "good env (tj_id job) s2 (runAfterStep env job run finish reached rejected stopTurn s)"
    unfolding runAfterStep_def s2_def [symmetric] Let_def
    using good_abort_error [OF m2] good_complete [OF m2] by (simp split: option.split)
  with q show ?thesis by (rule good_trans)
qed

text \<open>The hooks before a step do not fail with an error that the retry service claims.\<close>

definition hook_ok :: "loop_env \<Rightarrow> loop_action \<Rightarrow> bool" where
  "hook_ok env a \<longleftrightarrow> (case a of AHooks (Some e) \<Rightarrow> \<not> claimed env e | _ \<Rightarrow> True)"

lemma append_active [simp]: "ls_active (appendLoopEvent i ev s) = ls_active s"
  by (auto simp: appendLoopEvent_def dispatch_turn_op_def Let_def split: loop_event.split)

lemma good_run_act:
  assumes m: "mid env job run s k b" and p: "phase_ok run k b" and a: "ls_active s = Some (job, run)"
    and hook: "hook_ok env act" and nf: "\<And>d. act \<noteq> AFinish d"
  shows "good env (tj_id job) s (run_act env act job run s)"
proof -
  have same: "good env (tj_id job) s s" using goodI [OF quiet_refl a m p] by simp
  have writes: "good env (tj_id job) s (appendLoopEvent (tj_id job) ev s)" for ev
    using goodI [of "tj_id job" s "appendLoopEvent (tj_id job) ev s" job run env k b] m p a by (simp add: quiet_append)
  have tools: "good env (tj_id job) s (put_active job (run\<lparr>lr_phase := RunTools response stop\<rparr>) (appendLoopEvent (tj_id job) ev s))"
    if "lr_phase run = RunTools r st" for response stop ev r st
    by (rule good_put [of env job _ _ k b]) (use m p that in \<open>auto simp: phase_ok_def quiet_append\<close>)
  show ?thesis
  proof (cases "lr_phase run")
    case RunHook
    then have "k < lr_steps run" "lr_current run \<noteq> None" using p by (simp_all add: phase_ok_def)
    then show ?thesis
      using same good_begin_step [OF m] good_handle_error [OF m] hook RunHook
      by (auto simp: run_act_def hook_ok_def split: loop_action.split option.split)
  next
    case RunStream
    then have "b" "k = lr_steps run" using p by (simp_all add: phase_ok_def)
    then show ?thesis
      using same good_part [OF m p RunStream a] good_response [OF m p RunStream] good_handle_error [OF m] RunStream
      by (simp add: run_act_def split: loop_action.split option.split)
  next
    case (RunTools response stop)
    then have "b" "k = lr_steps run" "lr_current run \<noteq> None" using p by (simp_all add: phase_ok_def)
    then show ?thesis
      using same writes tools good_finish_step [OF m] good_handle_error [OF m] RunTools
      by (simp add: run_act_def split: loop_action.split option.split)
  next
    case (RunAfter finish)
    then show ?thesis
      using same good_after [OF m] by (simp add: run_act_def split: loop_action.split option.split)
  next
    case (RunRecover i e)
    then show ?thesis
      using same good_recovered [OF m] good_fail [OF m] good_handler_threw [OF m] good_slept [OF m]
      by (simp add: run_act_def split: loop_action.split option.split handler_outcome.split)
  next
    case (RunEnded r)
    then show ?thesis using same nf by (simp add: run_act_def split: loop_action.split option.split)
  qed
qed

end
