(* ===== verification/LoopTurns.thy ===== *)
theory LoopTurns
  imports LoopInv
begin

text \<open>
  What every action of the agent loop keeps of its turns: the numbers it reserves are those the wire will give
  them, a turn that waits is behind one that runs, and a promise of \<open>settled()\<close> is open only while there is work.
\<close>

section \<open>The invariants\<close>

text \<open>The wire has the clock of its operations, and its replay opens the turns under the numbers they were started with.\<close>

definition turns_numbered :: "turn_op list \<Rightarrow> loop_state \<Rightarrow> bool" where
  "turns_numbered ops0 s \<longleftrightarrow>
     (\<exists>new. ls_ops s = ops0 @ new \<and> started_turns (ls_events s) = map int (replayed_turns (replay_clock ops0) new)) \<and>
     ls_clock s = replay_clock (ls_ops s)"

definition waiting_ok :: "turn_op list \<Rightarrow> loop_state \<Rightarrow> bool" where
  "waiting_ok ops0 s \<longleftrightarrow>
     turns_numbered ops0 s \<and> reserved_ok (ls_clock s) (ls_nextReservedTurnId s) (map tj_id (ls_pendingTurns s)) \<and>
     list_all (\<lambda>job. tj_state job = LtQueued) (ls_pendingTurns s)"

definition turns_ok :: "loop_env \<Rightarrow> turn_op list \<Rightarrow> loop_state \<Rightarrow> bool" where
  "turns_ok env ops0 s \<longleftrightarrow>
     waiting_ok ops0 s \<and>
     (case ls_active s of
        None \<Rightarrow> logged env None (ls_events s)
      | Some (job, run) \<Rightarrow>
          tj_id job < tc_nextTurnId (ls_clock s) \<and> (\<exists>k opened. mid env job run s k opened \<and> phase_ok run k opened))"

definition loop_idle :: "loop_state \<Rightarrow> bool" where
  "loop_idle s \<longleftrightarrow> ls_active s = None \<and> ls_pendingTurns s = [] \<and> ls_heldAdmissions s = []"

definition queues_ok :: "loop_state \<Rightarrow> bool" where
  "queues_ok s \<longleftrightarrow>
     (ls_quiescenceDepth s > 0 \<longrightarrow> ls_active s = None \<and> ls_pendingTurns s = []) \<and>
     (ls_quiescenceDepth s = 0 \<longrightarrow> ls_heldAdmissions s = []) \<and>
     (ls_disposing s \<longrightarrow> ls_pendingTurns s = [] \<and> ls_heldAdmissions s = []) \<and>
     list_all (\<lambda>h. rq_state (ha_request h) = ReqPending) (ls_heldAdmissions s)"

definition work_ok :: "loop_state \<Rightarrow> bool" where
  "work_ok s \<longleftrightarrow>
     queues_ok s \<and> (ls_active s = None \<longrightarrow> ls_pendingTurns s = []) \<and> (loop_idle s \<longrightarrow> ls_settleWaiters s = 0)"

section \<open>The running turn\<close>

lemma numbered_quiet:
  assumes "turns_numbered ops0 s" "i < tc_nextTurnId (ls_clock s)" "quiet_on i s s'"
  shows "turns_numbered ops0 s'" "ls_clock s' = ls_clock s"
proof -
  obtain new where new: "ls_ops s = ops0 @ new" "started_turns (ls_events s) = map int (replayed_turns (replay_clock ops0) new)"
    and c: "ls_clock s = replay_clock (ls_ops s)" using assms(1) by (auto simp: turns_numbered_def)
  obtain k where k: "ls_ops s' = ls_ops s @ replicate k (OpLoopEvent i)"
    "ls_clock s' = foldl apply_turn_op (ls_clock s) (replicate k (OpLoopEvent i))" "started_turns (ls_events s') = started_turns (ls_events s)"
    using assms(3) by (auto simp: quiet_on_def)
  show same: "ls_clock s' = ls_clock s" using k(2) past_events [OF assms(2)] by simp
  have "replay_clock (ls_ops s') = ls_clock s'" using k c by (simp add: replay_clock_def)
  then show "turns_numbered ops0 s'"
    using new k(1,3) by (auto simp: turns_numbered_def replayed_turns_append replayed_events)
qed

lemma good_turns:
  assumes w: "waiting_ok ops0 s" and i: "i < tc_nextTurnId (ls_clock s)" and g: "good env i s s'"
  shows "turns_ok env ops0 s'"
proof -
  have q: "quiet_on i s s'" using g by (simp add: good_def)
  have "turns_numbered ops0 s" using w by (simp add: waiting_ok_def)
  note n = numbered_quiet [OF this i q]
  have v: "ls_nextReservedTurnId s' = ls_nextReservedTurnId s" "ls_pendingTurns s' = ls_pendingTurns s"
    using q by (simp_all add: quiet_on_def turns_view_def)
  have "waiting_ok ops0 s'" using w n v by (simp add: waiting_ok_def)
  moreover obtain job run k b where a: "ls_active s' = Some (job, run)" "mid env job run s' k b" "phase_ok run k b" "tj_id job = i"
    using g by (auto simp: good_def)
  moreover have "\<exists>k opened. mid env job run s' k opened \<and> phase_ok run k opened" using a by blast
  ultimately show ?thesis using i n(2) by (simp add: turns_ok_def)
qed

lemma good_work:
  assumes "good env i s s'" "queues_ok s" "ls_active s \<noteq> None"
  shows "work_ok s'"
  using assms by (auto simp: good_def quiet_on_def turns_view_def work_ok_def queues_ok_def loop_idle_def)

section \<open>Starting and finishing\<close>

lemma waiting_cong:
  "ls_ops s' = ls_ops s \<Longrightarrow> ls_clock s' = ls_clock s \<Longrightarrow> ls_nextReservedTurnId s' = ls_nextReservedTurnId s \<Longrightarrow>
   ls_pendingTurns s' = ls_pendingTurns s \<Longrightarrow> started_turns (ls_events s') = started_turns (ls_events s) \<Longrightarrow>
   waiting_ok ops0 s' = waiting_ok ops0 s"
  by (simp add: waiting_ok_def turns_numbered_def)

lemma settle_fields [simp]:
  "ls_clock (maybeSettle s) = ls_clock s" "ls_ops (maybeSettle s) = ls_ops s"
  "ls_nextReservedTurnId (maybeSettle s) = ls_nextReservedTurnId s" "ls_pendingTurns (maybeSettle s) = ls_pendingTurns s"
  "ls_active (maybeSettle s) = ls_active s" "ls_events (maybeSettle s) = ls_events s"
  "ls_heldAdmissions (maybeSettle s) = ls_heldAdmissions s" "ls_quiescenceDepth (maybeSettle s) = ls_quiescenceDepth s"
  "ls_disposing (maybeSettle s) = ls_disposing s"
  by (simp_all add: maybeSettle_def)

lemma settle_none: "loop_idle s \<Longrightarrow> ls_settleWaiters (maybeSettle s) = 0"
  by (simp add: maybeSettle_def loop_idle_def)

lemma settle_idle [simp]: "loop_idle (maybeSettle s) = loop_idle s"
  by (simp add: loop_idle_def)

lemma settle_turns [simp]:
  "waiting_ok ops0 (maybeSettle s) = waiting_ok ops0 s" "turns_ok env ops0 (maybeSettle s) = turns_ok env ops0 s"
  "queues_ok (maybeSettle s) = queues_ok s"
  by (simp_all add: waiting_ok_def turns_ok_def turns_numbered_def queues_ok_def mid_def split: option.split)

lemma start_turn:
  assumes w: "waiting_ok ops0 s" and p: "ls_pendingTurns s = job # rest" and e: "logged env None (ls_events s)"
    and q: "queues_ok s" "ls_quiescenceDepth s = 0"
  shows "turns_ok env ops0 (start_queued_turn env job (s\<lparr>ls_pendingTurns := rest\<rparr>))"
    "work_ok (start_queued_turn env job (s\<lparr>ls_pendingTurns := rest\<rparr>))"
proof -
  let ?job = "job\<lparr>tj_state := LtRunning\<rparr>"
  let ?c = "apply_turn_op (ls_clock s) OpPrompt"
  have res: "reserved_ok (ls_clock s) (ls_nextReservedTurnId s) (tj_id job # map tj_id rest)"
    using w p by (simp add: waiting_ok_def)
  define s2 where "s2 = open_turn ?job (s\<lparr>ls_pendingTurns := rest\<rparr>)"
  note s2 = s2_def open_turn_def Let_def publish_event_def dispatch_turn_op_def
  obtain new where new: "ls_ops s = ops0 @ new" "started_turns (ls_events s) = map int (replayed_turns (replay_clock ops0) new)"
    and c: "ls_clock s = replay_clock (ls_ops s)" using w by (auto simp: waiting_ok_def turns_numbered_def)
  have here: "foldl apply_turn_op (replay_clock ops0) new = ls_clock s" using c new(1) by (simp add: replay_clock_def)
  have "turns_numbered ops0 s2"
    unfolding turns_numbered_def
  proof (intro conjI exI)
    show "ls_ops s2 = ops0 @ (new @ [OpPrompt])" using new by (simp add: s2)
    show "started_turns (ls_events s2) = map int (replayed_turns (replay_clock ops0) (new @ [OpPrompt]))"
      using new(2) here reserved_head [OF res]
      by (simp add: s2 started_turns_def replayed_turns_append)
    show "ls_clock s2 = replay_clock (ls_ops s2)"
      using c by (simp add: s2 replay_clock_def)
  qed
  then have w2: "waiting_ok ops0 s2"
    using w p reserved_start(1) [OF res]
    by (simp add: waiting_ok_def s2 del: apply_turn_op.simps)
  have i: "tj_id job < tc_nextTurnId (ls_clock s2)"
    using reserved_start(2) [OF res] by (simp add: s2 del: apply_turn_op.simps)
  have m: "mid env ?job new_runtime s2 0 False"
    using e by (simp add: mid_def logged_def loop_event_ok_def s2 engine_next_def new_runtime_def in_budget_def split: option.split)
  have ended: "good env (tj_id job) s2 (put_active ?job (new_runtime\<lparr>lr_phase := RunEnded r\<rparr>) s2)" for r
    using good_put [of env ?job "new_runtime\<lparr>lr_phase := RunEnded r\<rparr>" s2 0 False s2] m by (simp add: phase_ok_def)
  have q2: "queues_ok s2" "ls_active s2 \<noteq> None" using q p by (auto simp: queues_ok_def s2)
  have "start_queued_turn env job (s\<lparr>ls_pendingTurns := rest\<rparr>) =
      (case le_prepare env (tj_id job) of
         Some e \<Rightarrow> put_active ?job (new_runtime\<lparr>lr_phase := RunEnded (resultFromTurnError ?job e)\<rparr>) s2
       | None \<Rightarrow> iterate env ?job new_runtime s2)"
    unfolding start_queued_turn_def Let_def s2_def by simp
  then have "good env (tj_id job) s2 (start_queued_turn env job (s\<lparr>ls_pendingTurns := rest\<rparr>))"
    using ended good_iterate [OF m] by (simp split: option.split)
  then show "turns_ok env ops0 (start_queued_turn env job (s\<lparr>ls_pendingTurns := rest\<rparr>))"
    "work_ok (start_queued_turn env job (s\<lparr>ls_pendingTurns := rest\<rparr>))"
    using good_turns [OF w2 i] good_work q2 by blast+
qed

text \<open>Pumping restores what an operation on the queues may have left open.\<close>

lemma pump_turns:
  assumes "turns_ok env ops0 s" "queues_ok s"
    and "ls_disposing s \<or> ls_quiescenceDepth s > 0 \<Longrightarrow> work_ok s"
  shows "turns_ok env ops0 (pumpTurns env s)" "work_ok (pumpTurns env s)"
proof -
  have "turns_ok env ops0 (pumpTurns env s) \<and> work_ok (pumpTurns env s)"
  proof (cases "ls_disposing s \<or> ls_quiescenceDepth s > 0 \<or> ls_active s \<noteq> None")
    case True
    have "work_ok s" if "ls_active s \<noteq> None" using that assms(2) by (auto simp: work_ok_def loop_idle_def)
    then show ?thesis using True assms by (auto simp: pumpTurns_def)
  next
    case False
    then have a: "ls_active s = None" "ls_quiescenceDepth s = 0" "\<not> ls_disposing s" by (cases "ls_active s"; simp)+
    show ?thesis
    proof (cases "ls_pendingTurns s")
      case Nil
      have "loop_idle s" using a Nil assms(2) by (simp add: loop_idle_def queues_ok_def)
      then show ?thesis
        using a Nil assms(1,2) settle_none by (simp add: pumpTurns_def work_ok_def)
    next
      case (Cons job rest)
      have "waiting_ok ops0 s" "logged env None (ls_events s)" using assms(1) a by (simp_all add: turns_ok_def)
      then show ?thesis using start_turn [OF _ Cons _ assms(2) a(2)] a Cons by (simp add: pumpTurns_def)
    qed
  qed
  then show "turns_ok env ops0 (pumpTurns env s)" "work_ok (pumpTurns env s)" by simp_all
qed

lemma cancelStep_job [simp]: "tj_id (cancelStep i c job) = tj_id job" "tj_state (cancelStep i c job) = tj_state job"
  by (simp_all add: cancelStep_def split: option.split)

lemma cancel_steps_job [simp]: "tj_id (cancel_steps steps c job) = tj_id job"
  unfolding cancel_steps_def by (induction steps arbitrary: job) auto

lemma finish_turn_ok:
  assumes "turns_ok env ops0 s" "work_ok s" "ls_active s = Some (job, run)"
  shows "turns_ok env ops0 (finish_turn env d job r s)" "work_ok (finish_turn env d job r s)"
proof -
  define done_job where "done_job = (releaseActiveTurn r (job\<lparr>tj_ready := settleTurnReady r (tj_ready job)\<rparr>))"
  define s2 where "s2 = maybeSettle (s\<lparr>ls_active := None, ls_finished := ls_finished s @ [done_job\<lparr>tj_result := first_of (tj_result done_job) r\<rparr>]\<rparr>)"
  define ended where "ended = (\<lambda>e. EvTurnEnded \<lparr>te_turnId = int (tj_id done_job), te_reason = end_reason_of r, te_error = e, te_durationMs = Some d\<rparr>)"
  define s3 where "s3 = (case r of
      LrFailed _ e \<Rightarrow> publish_event (EvError (le_payload env e)) (publish_event (ended (Some (thrown_message e))) s2)
    | _ \<Rightarrow> publish_event (ended None) s2)"
  have id: "tj_id done_job = tj_id job" by (simp add: done_job_def releaseActiveTurn_def Let_def)
  obtain k b where m: "mid env job run s k b" using assms by (auto simp: turns_ok_def)
  have same: "ls_ops s3 = ls_ops s" "ls_clock s3 = ls_clock s" "ls_nextReservedTurnId s3 = ls_nextReservedTurnId s"
    "ls_pendingTurns s3 = ls_pendingTurns s" "ls_active s3 = None" "started_turns (ls_events s3) = started_turns (ls_events s)"
    "ls_heldAdmissions s3 = ls_heldAdmissions s" "ls_quiescenceDepth s3 = ls_quiescenceDepth s" "ls_disposing s3 = ls_disposing s"
    "ls_settleWaiters s3 = ls_settleWaiters s2"
    by (simp_all add: s3_def s2_def publish_event_def ended_def started_turns_append starts_turn_def started_turns_def split: loop_result.split)
  have "logged env None (ls_events s3)"
    using m id
    by (simp add: s3_def s2_def mid_def logged_def loop_event_ok_def ended_def engine_next_def publish_event_def engine_run_append split: loop_result.split)
  then have t3: "turns_ok env ops0 s3"
    using assms(1) waiting_cong [of s3 s, OF same(1-4,6)] same(5) by (simp add: turns_ok_def)
  have q: "queues_ok s3" "ls_quiescenceDepth s3 = 0"
    using assms(2,3) same by (auto simp: work_ok_def queues_ok_def)
  have "work_ok s3" if "ls_disposing s3"
  proof -
    have "ls_pendingTurns s = [] \<and> ls_heldAdmissions s = []" using that same assms(2) by (simp add: work_ok_def queues_ok_def)
    then have "ls_settleWaiters s2 = 0" unfolding s2_def by (intro settle_none) (simp add: loop_idle_def)
    then show ?thesis using q same \<open>ls_pendingTurns s = [] \<and> ls_heldAdmissions s = []\<close> by (simp add: work_ok_def)
  qed
  then have "turns_ok env ops0 (pumpTurns env s3)" "work_ok (pumpTurns env s3)"
    using pump_turns [OF t3 q(1)] q(2) by auto
  moreover have "finish_turn env d job r s = pumpTurns env s3"
    by (simp only: finish_turn_def Let_def s3_def s2_def done_job_def ended_def)
  ultimately show "turns_ok env ops0 (finish_turn env d job r s)" "work_ok (finish_turn env d job r s)" by simp_all
qed

lemma run_act_ok:
  assumes "turns_ok env ops0 s" "work_ok s" "ls_active s = Some (job, run)" "hook_ok env a"
  shows "turns_ok env ops0 (run_act env a job run s)" "work_ok (run_act env a job run s)"
proof -
  have "turns_ok env ops0 (run_act env a job run s) \<and> work_ok (run_act env a job run s)"
  proof (cases "\<exists>d. a = AFinish d")
    case True
    then obtain d where d: "a = AFinish d" by blast
    then have "run_act env a job run s = (case lr_phase run of RunEnded r \<Rightarrow> finish_turn env d job r s | _ \<Rightarrow> s)"
      by (simp add: run_act_def split: run_phase.split)
    then show ?thesis using finish_turn_ok [OF assms(1-3)] assms(1,2) by (cases "lr_phase run") simp_all
  next
    case False
    obtain k b where m: "mid env job run s k b" "phase_ok run k b" and i: "tj_id job < tc_nextTurnId (ls_clock s)"
      using assms(1,3) by (auto simp: turns_ok_def)
    have g: "good env (tj_id job) s (run_act env a job run s)"
      using good_run_act [OF m assms(3,4)] False by blast
    have "waiting_ok ops0 s" "queues_ok s" using assms(1,2) by (simp_all add: turns_ok_def work_ok_def)
    then show ?thesis using good_turns [OF _ i g] good_work [OF g] assms(3) by simp
  qed
  then show "turns_ok env ops0 (run_act env a job run s)" "work_ok (run_act env a job run s)" by simp_all
qed

section \<open>Admission\<close>

lemma mid_same: "ls_events s' = ls_events s \<Longrightarrow> mid env job run s' k b = mid env job run s k b"
  by (simp add: mid_def)

lemma turns_cong:
  assumes "ls_ops s' = ls_ops s" "ls_clock s' = ls_clock s" "ls_nextReservedTurnId s' = ls_nextReservedTurnId s"
    "ls_pendingTurns s' = ls_pendingTurns s" "ls_events s' = ls_events s" "ls_active s' = ls_active s"
  shows "turns_ok env ops0 s' = turns_ok env ops0 s"
proof -
  have "mid env job run s' k b = mid env job run s k b" for job run k b using assms(5) by (simp add: mid_def)
  then show ?thesis using waiting_cong [of s' s ops0] assms by (simp add: turns_ok_def split: option.split)
qed

text \<open>What the invariants read.\<close>

definition core ::
  "loop_state \<Rightarrow> (turn_clock \<times> turn_op list \<times> nat option) \<times> (turn_job list \<times> (turn_job \<times> loop_runtime) option \<times> domain_event list)
     \<times> (held_admission list \<times> nat \<times> bool \<times> nat)" where
  "core s =
     ((ls_clock s, ls_ops s, ls_nextReservedTurnId s), (ls_pendingTurns s, ls_active s, ls_events s),
      (ls_heldAdmissions s, ls_quiescenceDepth s, ls_disposing s, ls_settleWaiters s))"

lemma core_cong:
  assumes "core s' = core s"
  shows "turns_ok env ops0 s' = turns_ok env ops0 s" "queues_ok s' = queues_ok s" "work_ok s' = work_ok s"
    "ls_active s' = ls_active s" "ls_pendingTurns s' = ls_pendingTurns s" "ls_quiescenceDepth s' = ls_quiescenceDepth s"
    "ls_disposing s' = ls_disposing s" "ls_heldAdmissions s' = ls_heldAdmissions s"
proof -
  show "turns_ok env ops0 s' = turns_ok env ops0 s" by (rule turns_cong) (use assms in \<open>simp_all add: core_def\<close>)
qed (use assms in \<open>auto simp: core_def queues_ok_def work_ok_def loop_idle_def\<close>)

lemma core_fields [simp]:
  "core (settle_assignment i a s) = core s"
  "core (rejectAssignment r e s) = core s"
  "core (s\<lparr>ls_standaloneStepQueue := q\<rparr>) = core s"
  "core (s\<lparr>ls_pendingAssignments := pa\<rparr>) = core s"
  by (simp_all add: core_def settle_assignment_def rejectAssignment_def)

lemma core_assigned: "core (fold (assigned_step job) rs s) = core s"
  by (induction rs arbitrary: s) (simp_all add: assigned_step_def)

lemma enqueue_steps [simp]:
  "tj_id (fold (\<lambda>r. enqueueStep r h) rs job) = tj_id job" "tj_state (fold (\<lambda>r. enqueueStep r h) rs job) = tj_state job"
  by (induction rs arbitrary: job) simp_all

lemma active_job:
  assumes "turns_ok env ops0 s" "ls_active s = Some (job, run)" "tj_id job' = tj_id job" "tj_state job' = tj_state job"
  shows "turns_ok env ops0 (put_active job' run s)"
proof -
  have "waiting_ok ops0 (put_active job' run s)"
    using assms(1) waiting_cong [of "put_active job' run s" s ops0] by (simp add: turns_ok_def)
  moreover obtain k b where "mid env job run s k b" "phase_ok run k b" using assms(1,2) by (auto simp: turns_ok_def)
  then have "\<exists>k b. mid env job' run (put_active job' run s) k b \<and> phase_ok run k b"
    using mid_job assms(3,4) by (metis mid_fields(1))
  ultimately show ?thesis using assms by (simp add: turns_ok_def)
qed

lemma active_job_work:
  "work_ok s \<Longrightarrow> ls_active s = Some (job, run) \<Longrightarrow> work_ok (put_active job' run s)"
  "queues_ok s \<Longrightarrow> ls_active s = Some (job, run) \<Longrightarrow> queues_ok (put_active job' run s)"
  by (auto simp: work_ok_def queues_ok_def loop_idle_def)

lemma pump_flags:
  assumes "turns_ok env ops0 s" "queues_ok s"
  shows "ls_quiescenceDepth (pumpTurns env s) = ls_quiescenceDepth s" "ls_disposing (pumpTurns env s) = ls_disposing s"
proof -
  have start: "ls_quiescenceDepth (start_queued_turn env job (s\<lparr>ls_pendingTurns := rest\<rparr>)) = ls_quiescenceDepth s
    \<and> ls_disposing (start_queued_turn env job (s\<lparr>ls_pendingTurns := rest\<rparr>)) = ls_disposing s" if a: "ls_active s = None" for job rest
  proof -
    let ?job = "job\<lparr>tj_state := LtRunning\<rparr>"
    define s2 where "s2 = open_turn ?job (s\<lparr>ls_pendingTurns := rest\<rparr>)"
    have e: "logged env None (ls_events s)" using assms(1) a by (simp add: turns_ok_def)
    have m: "mid env ?job new_runtime s2 0 False"
      using e by (simp add: mid_def logged_def loop_event_ok_def s2_def open_turn_def Let_def publish_event_def dispatch_turn_op_def engine_next_def new_runtime_def
          in_budget_def split: option.split)
    have "turns_view (start_queued_turn env job (s\<lparr>ls_pendingTurns := rest\<rparr>)) = turns_view s2"
      using good_iterate [OF m] unfolding start_queued_turn_def Let_def s2_def [symmetric]
      by (auto simp: good_def quiet_on_def turns_view_def split: option.split)
    then show ?thesis by (simp add: turns_view_def s2_def open_turn_def Let_def publish_event_def dispatch_turn_op_def)
  qed
  show "ls_quiescenceDepth (pumpTurns env s) = ls_quiescenceDepth s" "ls_disposing (pumpTurns env s) = ls_disposing s"
    using start by (cases "ls_active s"; simp add: pumpTurns_def split: list.split)+
qed

text \<open>A service that takes turns.\<close>

definition taking :: "loop_env \<Rightarrow> turn_op list \<Rightarrow> loop_state \<Rightarrow> bool" where
  "taking env ops0 s \<longleftrightarrow>
     turns_ok env ops0 s \<and> queues_ok s \<and> ls_quiescenceDepth s = 0 \<and> \<not> ls_disposing s \<and>
     (ls_active s = None \<longrightarrow> ls_pendingTurns s = [])"

lemma taking_cong: "core s' = core s \<Longrightarrow> taking env ops0 s' = taking env ops0 s"
  by (simp add: taking_def core_cong [of s' s])

lemma core_invs [simp]:
  "taking env ops0 (rejectAssignment r e s) = taking env ops0 s" "work_ok (rejectAssignment r e s) = work_ok s"
  "taking env ops0 (s\<lparr>ls_standaloneStepQueue := q\<rparr>) = taking env ops0 s" "work_ok (s\<lparr>ls_standaloneStepQueue := q\<rparr>) = work_ok s"
  by (rule taking_cong core_cong(3), simp)+

lemma queue_turn:
  assumes "taking env ops0 s"
  shows "taking env ops0 (snd (createAndQueueTurn env request seed s))"
    "work_ok s \<Longrightarrow> work_ok (snd (createAndQueueTurn env request seed s))"
proof -
  have "taking env ops0 (snd (createAndQueueTurn env request seed s)) \<and> (work_ok s \<longrightarrow> work_ok (snd (createAndQueueTurn env request seed s)))"
  proof (cases seed)
    case None
    then show ?thesis using assms by (simp add: createAndQueueTurn_def Let_def)
  next
    case (Some sd)
    obtain i s1 where r: "reserveTurnId s = (i, s1)" by fastforce
    obtain job s2 where j: "createPendingTurn request sd s = (job, s2)" by fastforce
    define s3 where "s3 = s2\<lparr>ls_pendingTurns := ls_pendingTurns s2 @ [job]\<rparr>"
    have job: "tj_id job = i" "tj_state job = LtQueued" and c2: "core s2 = core s1"
      using j r by (auto simp: createPendingTurn_def Let_def new_job_def core_assigned enqueueStep_def assigned_step_def)
    have i: "i = max (tc_nextTurnId (ls_clock s)) (case ls_nextReservedTurnId s of Some n \<Rightarrow> n | None \<Rightarrow> tc_nextTurnId (ls_clock s))"
      and s1: "s1 = s\<lparr>ls_nextReservedTurnId := Some (i + 1)\<rparr>"
      using r by (auto simp: reserveTurnId_def Let_def)
    have c3: "ls_clock s3 = ls_clock s" "ls_ops s3 = ls_ops s" "ls_nextReservedTurnId s3 = Some (i + 1)"
      "ls_pendingTurns s3 = ls_pendingTurns s @ [job]" "ls_active s3 = ls_active s" "ls_events s3 = ls_events s"
      "ls_heldAdmissions s3 = ls_heldAdmissions s" "ls_quiescenceDepth s3 = ls_quiescenceDepth s" "ls_disposing s3 = ls_disposing s"
      using c2 by (simp_all add: s3_def s1 core_def)
    have t: "turns_ok env ops0 s" "queues_ok s" "ls_quiescenceDepth s = 0" "\<not> ls_disposing s"
      using assms by (simp_all add: taking_def)
    have w: "turns_numbered ops0 s" "reserved_ok (ls_clock s) (ls_nextReservedTurnId s) (map tj_id (ls_pendingTurns s))"
      "list_all (\<lambda>job. tj_state job = LtQueued) (ls_pendingTurns s)"
      using t(1) by (simp_all add: turns_ok_def waiting_ok_def)
    have "turns_numbered ops0 s3" using w(1) c3 by (simp add: turns_numbered_def)
    moreover have "reserved_ok (ls_clock s3) (ls_nextReservedTurnId s3) (map tj_id (ls_pendingTurns s3))"
      using reserved_new [OF w(2) i] c3 job by simp
    ultimately have "waiting_ok ops0 s3" using w(3) c3(4) job by (simp add: waiting_ok_def)
    then have t3: "turns_ok env ops0 s3"
      using t(1) c3(1,5,6) mid_same [of s3 s] by (auto simp add: turns_ok_def split: option.splits)
    have q3: "queues_ok s3" using t c3 by (simp add: queues_ok_def)
    note p = pump_turns [OF t3 q3] pump_flags [OF t3 q3]
    have "taking env ops0 (pumpTurns env s3) \<and> work_ok (pumpTurns env s3)"
      using p t c3(8,9) by (simp add: taking_def work_ok_def)
    then show ?thesis using Some j by (simp add: createAndQueueTurn_def s3_def)
  qed
  then show "taking env ops0 (snd (createAndQueueTurn env request seed s))"
    "work_ok s \<Longrightarrow> work_ok (snd (createAndQueueTurn env request seed s))" by simp_all
qed

lemma assign_step:
  assumes "taking env ops0 s" "ls_active s = Some (job, run)"
  shows "taking env ops0 (assignStep request h job run s)" "work_ok s \<Longrightarrow> work_ok (assignStep request h job run s)"
proof -
  let ?s = "put_active (enqueueStep request h job) run s"
  have c: "core (assignStep request h job run s) = core ?s" by (simp add: assignStep_def assigned_step_def)
  have "taking env ops0 ?s"
    using assms active_job [of env ops0 s job run "enqueueStep request h job"] active_job_work(2) [of s job run]
    by (simp add: taking_def)
  then show "taking env ops0 (assignStep request h job run s)" by (simp add: taking_cong [OF c])
  show "work_ok s \<Longrightarrow> work_ok (assignStep request h job run s)"
    using active_job_work(1) assms(2) by (simp add: core_cong(3) [OF c])
qed

lemma admit_ok:
  assumes "taking env ops0 s"
  shows "taking env ops0 (snd (admit env request seed h s))" "work_ok s \<Longrightarrow> work_ok (snd (admit env request seed h s))"
proof -
  have "taking env ops0 (snd (admit env request seed h s)) \<and> (work_ok s \<longrightarrow> work_ok (snd (admit env request seed h s)))"
  proof (cases "ls_active s")
    case None
    then show ?thesis
      using assms queue_turn [OF assms]
      by (cases "rq_admission request") (simp_all add: admit_def Let_def)
  next
    case (Some jr)
    obtain job run where jr: "jr = (job, run)" by fastforce
    show ?thesis
      using queue_turn [OF assms] assign_step [OF assms] Some jr by (cases "rq_admission request") (simp_all add: admit_def)
  qed
  then show "taking env ops0 (snd (admit env request seed h s))" "work_ok s \<Longrightarrow> work_ok (snd (admit env request seed h s))"
    by simp_all
qed

lemma enqueue_ok:
  assumes "turns_ok env ops0 s" "work_ok s" "rq_state request = ReqPending"
  shows "turns_ok env ops0 (snd (enqueue_request env request seed h s))" "work_ok (snd (enqueue_request env request seed h s))"
proof -
  let ?s = "s\<lparr>ls_pendingAssignments := js_set_add (rq_id request) (ls_pendingAssignments s)\<rparr>"
  let ?t = "?s\<lparr>ls_heldAdmissions := ls_heldAdmissions ?s @ [\<lparr>ha_request = request, ha_seed = seed, ha_at_head = h\<rparr>]\<rparr>"
  have "turns_ok env ops0 (snd (enqueue_request env request seed h s)) \<and> work_ok (snd (enqueue_request env request seed h s))"
  proof (cases "ls_disposing s")
    case True
    then show ?thesis using assms by (simp add: enqueue_request_def)
  next
    case False
    have c: "core ?s = core s" by simp
    show ?thesis
    proof (cases "ls_quiescenceDepth s > 0")
      case True
      have "turns_ok env ops0 ?t" using assms(1) turns_cong [of ?t s env ops0] by simp
      moreover have "work_ok ?t" using assms(2,3) True False by (auto simp: work_ok_def queues_ok_def loop_idle_def)
      ultimately show ?thesis using False True by (simp add: enqueue_request_def Let_def)
    next
      case free: False
      have "taking env ops0 s" using assms False free by (simp add: taking_def work_ok_def)
      then have "taking env ops0 ?s" "work_ok ?s" using assms(2) taking_cong [OF c] core_cong(3) [OF c] by simp_all
      then show ?thesis using admit_ok [of env ops0 ?s request seed h] False free by (simp add: enqueue_request_def taking_def)
    qed
  qed
  then show "turns_ok env ops0 (snd (enqueue_request env request seed h s))" "work_ok (snd (enqueue_request env request seed h s))"
    by simp_all
qed

section \<open>Cancellation\<close>

lemma numbered_dispatch: "turns_numbered ops0 s \<Longrightarrow> op \<noteq> OpPrompt \<Longrightarrow> turns_numbered ops0 (dispatch_turn_op op s)"
  by (auto simp: turns_numbered_def dispatch_turn_op_def replay_clock_def replayed_turns_append)

lemma cancel_active_ok:
  assumes "turns_ok env ops0 s" "cancelActiveTurn turn c s = (hit, s')"
  shows "turns_ok env ops0 s'" "work_ok s \<Longrightarrow> work_ok s'" "ls_pendingTurns s' = ls_pendingTurns s"
    "ls_heldAdmissions s' = ls_heldAdmissions s" "ls_quiescenceDepth s' = ls_quiescenceDepth s" "ls_disposing s' = ls_disposing s"
    "ls_active s' = None \<longleftrightarrow> ls_active s = None" "\<not> hit \<Longrightarrow> s' = s" "ls_settleWaiters s' = ls_settleWaiters s"
proof -
  have "turns_ok env ops0 s' \<and> (work_ok s \<longrightarrow> work_ok s') \<and> ls_pendingTurns s' = ls_pendingTurns s
    \<and> ls_heldAdmissions s' = ls_heldAdmissions s \<and> ls_quiescenceDepth s' = ls_quiescenceDepth s \<and> ls_disposing s' = ls_disposing s
    \<and> (ls_active s' = None \<longleftrightarrow> ls_active s = None) \<and> (\<not> hit \<longrightarrow> s' = s) \<and> ls_settleWaiters s' = ls_settleWaiters s"
  proof (cases "hit")
    case False
    then have "s' = s" using assms(2) by (auto simp: cancelActiveTurn_def split: option.splits if_splits)
    then show ?thesis using assms(1) by simp
  next
    case True
    then obtain job run where a: "ls_active s = Some (job, run)"
      and s': "s' = put_active (job\<lparr>tj_abort := first_of (tj_abort job) c\<rparr>) run (dispatch_turn_op (OpCancel (Some (tj_id job)) (Some TargetActive)) s)"
      using assms(2) by (auto simp: cancelActiveTurn_def split: option.splits if_splits)
    let ?d = "dispatch_turn_op (OpCancel (Some (tj_id job)) (Some TargetActive)) s"
    have i: "tj_id job < tc_nextTurnId (ls_clock s)" and w: "waiting_ok ops0 s" using assms(1) a by (auto simp: turns_ok_def)
    have clock: "ls_clock ?d = ls_clock s" using i by (simp add: dispatch_turn_op_def)
    have "turns_numbered ops0 ?d" by (rule numbered_dispatch) (use w in \<open>simp_all add: waiting_ok_def\<close>)
    then have "waiting_ok ops0 ?d" using w clock by (simp add: waiting_ok_def) (simp add: dispatch_turn_op_def)
    moreover obtain k b where "mid env job run s k b \<and> phase_ok run k b" using assms(1) a by (auto simp: turns_ok_def)
    then have "\<exists>k b. mid env job run ?d k b \<and> phase_ok run k b" by auto
    ultimately have d: "turns_ok env ops0 ?d" "ls_active ?d = Some (job, run)" using a i clock by (simp_all add: turns_ok_def dispatch_turn_op_def)
    have "turns_ok env ops0 s'" unfolding s' by (rule active_job [OF d]) simp_all
    then show ?thesis using a True by (auto simp: s' dispatch_turn_op_def work_ok_def queues_ok_def loop_idle_def)
  qed
  then show "turns_ok env ops0 s'" "work_ok s \<Longrightarrow> work_ok s'" "ls_pendingTurns s' = ls_pendingTurns s"
    "ls_heldAdmissions s' = ls_heldAdmissions s" "ls_quiescenceDepth s' = ls_quiescenceDepth s" "ls_disposing s' = ls_disposing s"
    "ls_active s' = None \<longleftrightarrow> ls_active s = None" "\<not> hit \<Longrightarrow> s' = s" "ls_settleWaiters s' = ls_settleWaiters s"
    by blast+
qed

lemma find_split: "find P xs = Some x \<Longrightarrow> \<exists>us vs. xs = us @ x # vs \<and> P x \<and> (\<forall>u \<in> set us. \<not> P u)"
  by (induction xs) (auto split: if_splits intro: exI [of _ "[]"] dest: spec, metis append_Cons set_ConsD)

lemma cancel_queued_ok:
  assumes "turns_ok env ops0 s" "cancelQueuedTurn i c s = (hit, s')"
  shows "turns_ok env ops0 s'" "work_ok s \<Longrightarrow> work_ok s'"
    "ls_pendingTurns s' = filter (\<lambda>job. tj_id job \<noteq> i) (ls_pendingTurns s)"
    "ls_heldAdmissions s' = ls_heldAdmissions s" "ls_quiescenceDepth s' = ls_quiescenceDepth s" "ls_disposing s' = ls_disposing s"
    "ls_active s' = ls_active s"
proof -
  have "turns_ok env ops0 s' \<and> (work_ok s \<longrightarrow> work_ok s') \<and> ls_pendingTurns s' = filter (\<lambda>job. tj_id job \<noteq> i) (ls_pendingTurns s)
    \<and> ls_heldAdmissions s' = ls_heldAdmissions s \<and> ls_quiescenceDepth s' = ls_quiescenceDepth s \<and> ls_disposing s' = ls_disposing s
    \<and> ls_active s' = ls_active s"
  proof (cases "find (\<lambda>job. tj_id job = i) (ls_pendingTurns s)")
    case None
    then have "s' = s" using assms(2) by (simp add: cancelQueuedTurn_def)
    moreover have "filter (\<lambda>job. tj_id job \<noteq> i) (ls_pendingTurns s) = ls_pendingTurns s"
      using None by (auto simp: find_None_iff intro!: filter_True)
    ultimately show ?thesis using assms(1) by simp
  next
    case (Some job)
    obtain us vs where p: "ls_pendingTurns s = us @ job # vs" and i: "tj_id job = i" and us: "\<forall>u \<in> set us. tj_id u \<noteq> i"
      using find_split [OF Some] by auto
    have w: "waiting_ok ops0 s" using assms(1) by (simp add: turns_ok_def)
    have q: "list_all (\<lambda>job. tj_state job = LtQueued) (us @ job # vs)" using w p by (simp add: waiting_ok_def)
    have r: "reserved_ok (ls_clock s) (ls_nextReservedTurnId s) (map tj_id us @ i # map tj_id vs)"
      using w p i by (simp add: waiting_ok_def)
    have "sorted_wrt (<) (map tj_id us @ i # map tj_id vs)" using r by (simp add: reserved_ok_def Let_def)
    then have vs: "\<forall>v \<in> set vs. tj_id v \<noteq> i" by (auto simp: sorted_wrt_append)
    have rest: "remove1 job (us @ job # vs) = us @ vs" "filter (\<lambda>job. tj_id job \<noteq> i) (us @ job # vs) = us @ vs"
      using us vs i by (auto simp: remove1_append filter_id_conv)
    define d where "d = dispatch_turn_op (OpCancel (Some i) (Some TargetQueued)) (s\<lparr>ls_pendingTurns := us @ vs\<rparr>)"
    define t where "t = d\<lparr>ls_finished := ls_finished s @ [cancelled_job c job]\<rparr>"
    have s': "s' = maybeSettle t"
      using assms(2) Some p q rest by (simp add: cancelQueuedTurn_def Let_def t_def d_def)
    note clock = reserved_cancel [OF r, of TargetQueued]
    have d: "ls_clock d = apply_turn_op (ls_clock s) (OpCancel (Some i) (Some TargetQueued))" "ls_pendingTurns d = us @ vs"
      "ls_nextReservedTurnId d = ls_nextReservedTurnId s" "ls_active d = ls_active s" "ls_events d = ls_events s"
      "ls_heldAdmissions d = ls_heldAdmissions s" "ls_quiescenceDepth d = ls_quiescenceDepth s" "ls_disposing d = ls_disposing s"
      "ls_settleWaiters d = ls_settleWaiters s"
      by (simp_all add: d_def dispatch_turn_op_def)
    have "turns_numbered ops0 (s\<lparr>ls_pendingTurns := us @ vs\<rparr>)" using w by (simp add: waiting_ok_def turns_numbered_def)
    then have "turns_numbered ops0 d" unfolding d_def by (rule numbered_dispatch) simp
    then have "waiting_ok ops0 d" using clock(1) d q by (simp add: waiting_ok_def)
    moreover have "mid env job run d k b = mid env job run s k b" for job run k b using d by (simp add: mid_def)
    ultimately have "turns_ok env ops0 d"
      using assms(1) clock(2) d by (auto simp: turns_ok_def simp del: apply_turn_op.simps split: option.splits)
    then have t: "turns_ok env ops0 t" using turns_cong [of t d env ops0] by (simp add: t_def)
    have "work_ok s'" if "work_ok s"
    proof -
      have "ls_active s \<noteq> None" using that p by (auto simp: work_ok_def)
      then show ?thesis using that p d by (auto simp: s' t_def work_ok_def queues_ok_def loop_idle_def)
    qed
    then show ?thesis using t p rest d by (simp add: s' t_def)
  qed
  then show "turns_ok env ops0 s'" "work_ok s \<Longrightarrow> work_ok s'"
    "ls_pendingTurns s' = filter (\<lambda>job. tj_id job \<noteq> i) (ls_pendingTurns s)"
    "ls_heldAdmissions s' = ls_heldAdmissions s" "ls_quiescenceDepth s' = ls_quiescenceDepth s" "ls_disposing s' = ls_disposing s"
    "ls_active s' = ls_active s" by blast+
qed

lemma cancel_turn_ok:
  assumes "turns_ok env ops0 s"
  shows "turns_ok env ops0 (snd (cancel_turn turn reason s))" "work_ok s \<Longrightarrow> work_ok (snd (cancel_turn turn reason s))"
proof -
  define c where "c = (case reason of Some r \<Rightarrow> r | None \<Rightarrow> userCancellationReason)"
  obtain hit s2 where a: "cancelActiveTurn turn c s = (hit, s2)" by fastforce
  note a2 = cancel_active_ok [OF assms a]
  have "turns_ok env ops0 (snd (cancel_turn turn reason s)) \<and> (work_ok s \<longrightarrow> work_ok (snd (cancel_turn turn reason s)))"
  proof (cases hit)
    case True
    then show ?thesis using a a2(1,2) by (simp add: cancel_turn_def flip: c_def)
  next
    case False
    then have "s2 = s" using a2(8) by simp
    then show ?thesis
      using a False assms cancel_queued_ok [OF assms]
      by (simp add: cancel_turn_def flip: c_def split: option.split) (metis prod.collapse)
  qed
  then show "turns_ok env ops0 (snd (cancel_turn turn reason s))" "work_ok s \<Longrightarrow> work_ok (snd (cancel_turn turn reason s))"
    by simp_all
qed

lemma map_pending_ok:
  assumes "turns_ok env ops0 s" "\<And>job. tj_id (f job) = tj_id job" "\<And>job. tj_state (f job) = tj_state job"
    and "ls_active s' = map_option (\<lambda>(job, run). (f job, run)) (ls_active s)" "ls_pendingTurns s' = map f (ls_pendingTurns s)"
    "ls_ops s' = ls_ops s" "ls_clock s' = ls_clock s" "ls_nextReservedTurnId s' = ls_nextReservedTurnId s" "ls_events s' = ls_events s"
  shows "turns_ok env ops0 s'"
proof -
  have w: "waiting_ok ops0 s" using assms(1) by (simp add: turns_ok_def)
  have "map tj_id (ls_pendingTurns s') = map tj_id (ls_pendingTurns s)" using assms(2,5) by simp
  moreover have "list_all (\<lambda>job. tj_state job = LtQueued) (ls_pendingTurns s')"
    using w assms(3,5) by (simp add: waiting_ok_def list_all_iff)
  moreover have "turns_numbered ops0 s'" using w assms(6,7,9) by (simp add: waiting_ok_def turns_numbered_def)
  ultimately have "waiting_ok ops0 s'" using w assms(7,8) by (simp add: waiting_ok_def)
  moreover have "mid env (f job) run s' k b" if "mid env job run s k b" for job run k b
    using mid_job [of env job run s' k b "f job"] mid_same [of s' s] that assms by simp
  ultimately show ?thesis
    using assms(1,2,4,7,9) by (auto simp: turns_ok_def split: option.splits prod.splits) blast
qed

lemma step_handle_ok:
  assumes "turns_ok env ops0 s"
  shows "turns_ok env ops0 (cancel_step_handle turn i reason s)" "work_ok s \<Longrightarrow> work_ok (cancel_step_handle turn i reason s)"
proof -
  define c where "c = (case reason of Some r \<Rightarrow> r | None \<Rightarrow> userCancellationReason)"
  define f where "f job = (if tj_id job = turn then cancelStep i c job else job)" for job
  have s': "cancel_step_handle turn i reason s =
      s\<lparr>ls_active := map_option (\<lambda>(job, run). (f job, run)) (ls_active s), ls_pendingTurns := map f (ls_pendingTurns s)\<rparr>"
    unfolding cancel_step_handle_def Let_def c_def f_def [abs_def] by simp
  show "turns_ok env ops0 (cancel_step_handle turn i reason s)"
    unfolding s' by (rule map_pending_ok [where f = f, OF assms]) (simp_all add: f_def)
  show "work_ok s \<Longrightarrow> work_ok (cancel_step_handle turn i reason s)"
    unfolding s' by (auto simp: work_ok_def queues_ok_def loop_idle_def)
qed

lemma abort_ok:
  assumes "turns_ok env ops0 s" "work_ok s"
  shows "turns_ok env ops0 (abortRequest i reason s)" "work_ok (abortRequest i reason s)"
proof -
  define c where "c = (case reason of Some r \<Rightarrow> r | None \<Rightarrow> userCancellationReason)"
  have "turns_ok env ops0 (abortRequest i reason s) \<and> work_ok (abortRequest i reason s)"
  proof (cases "find (\<lambda>h. rq_id (ha_request h) = i) (ls_heldAdmissions s)")
    case (Some h)
    let ?s = "s\<lparr>ls_heldAdmissions := remove1 h (ls_heldAdmissions s)\<rparr>"
    let ?t = "rejectAssignment (ha_request h) c ?s"
    have t: "turns_ok env ops0 ?s" using assms(1) turns_cong [of ?s s env ops0] by simp
    have q: "queues_ok ?s" using assms(2) by (auto simp: work_ok_def queues_ok_def list_all_iff dest: notin_set_remove1)
    have "h \<in> set (ls_heldAdmissions s)" using find_split [OF Some] by auto
    then have pend: "rq_state (ha_request h) = ReqPending" using assms(2) by (simp add: work_ok_def queues_ok_def list_all_iff)
    have c: "core ?t = core ?s" by simp
    have "turns_ok env ops0 ?t" "queues_ok ?t" using t q core_cong [OF c] by simp_all
    moreover have "ls_active ?t = None \<longrightarrow> ls_pendingTurns ?t = []" using assms(2) core_cong(4,5) [OF c] by (simp add: work_ok_def)
    ultimately have "turns_ok env ops0 (maybeSettle ?t)" "work_ok (maybeSettle ?t)"
      using settle_none [of ?t] by (simp_all add: work_ok_def)
    then show ?thesis using Some pend by (simp add: abortRequest_def Let_def c_def)
  next
    case None
    have alone: "core (abort_standalone i c s) = core s"
      by (simp add: abort_standalone_def split: option.split)
    have running: "turns_ok env ops0 (s\<lparr>ls_active := map_option (\<lambda>(job, run). (cancelStep i c job, run)) (ls_active s)\<rparr>) \<and>
      work_ok (s\<lparr>ls_active := map_option (\<lambda>(job, run). (cancelStep i c job, run)) (ls_active s)\<rparr>)" if act: "ls_active s \<noteq> None"
    proof -
      obtain job run where a: "ls_active s = Some (job, run)" using act by auto
      show ?thesis using active_job [OF assms(1) a, of "cancelStep i c job"] active_job_work(1) [OF assms(2) a] a by simp
    qed
    show ?thesis
      using None running cancel_turn_ok [OF assms(1)] step_handle_ok [OF assms(1)] assms(2) core_cong [OF alone] assms(1)
      by (auto simp: abortRequest_def Let_def c_def split: option.splits)
  qed
  then show "turns_ok env ops0 (abortRequest i reason s)" "work_ok (abortRequest i reason s)" by simp_all
qed

section \<open>Quiescence and disposal\<close>

lemma quiescence_ok:
  assumes "turns_ok env ops0 s" "work_ok s"
  shows "turns_ok env ops0 (tryAcquireQuiescence s)" "work_ok (tryAcquireQuiescence s)"
proof -
  let ?s = "s\<lparr>ls_quiescenceDepth := ls_quiescenceDepth s + 1\<rparr>"
  have "turns_ok env ops0 ?s" using assms(1) turns_cong [of ?s s env ops0] by simp
  moreover have "work_ok ?s" if "ls_active s = None" "\<not> loop_hasPendingRequests s" "\<not> ls_disposing s"
    using assms(2) that by (auto simp: work_ok_def queues_ok_def loop_idle_def loop_hasPendingRequests_def)
  ultimately show "turns_ok env ops0 (tryAcquireQuiescence s)" "work_ok (tryAcquireQuiescence s)"
    using assms by (cases "ls_active s"; simp add: tryAcquireQuiescence_def)+
qed

lemma admit_held_ok: "taking env ops0 s \<Longrightarrow> taking env ops0 (admit_held env h s)"
  using admit_ok(1) [of env ops0 s "ha_request h" "ha_seed h" "ha_at_head h"]
  by (auto simp: admit_held_def split: prod.split option.split)

lemma admit_all_ok: "taking env ops0 s \<Longrightarrow> taking env ops0 (fold (admit_held env) hs s)"
  by (induction hs arbitrary: s) (auto intro: admit_held_ok)

lemma release_ok:
  assumes "turns_ok env ops0 s" "work_ok s"
  shows "turns_ok env ops0 (releaseQuiescence env s)" "work_ok (releaseQuiescence env s)"
proof -
  define s2 where "s2 = s\<lparr>ls_quiescenceDepth := ls_quiescenceDepth s - 1\<rparr>"
  have t2: "turns_ok env ops0 s2" using assms(1) turns_cong [of s2 s env ops0] by (simp add: s2_def)
  have "turns_ok env ops0 (releaseQuiescence env s) \<and> work_ok (releaseQuiescence env s)"
  proof (cases "ls_quiescenceDepth s = 0 \<or> ls_quiescenceDepth s2 > 0 \<or> ls_disposing s2")
    case True
    have "work_ok s2" if "ls_quiescenceDepth s2 > 0 \<or> ls_disposing s2"
      using assms(2) that by (auto simp: s2_def work_ok_def queues_ok_def loop_idle_def)
    then show ?thesis using True assms t2 by (auto simp: releaseQuiescence_def Let_def s2_def)
  next
    case False
    have a: "ls_active s = None" "ls_pendingTurns s = []" "\<not> ls_disposing s" "ls_quiescenceDepth s2 = 0"
      using assms(2) False by (auto simp: s2_def work_ok_def queues_ok_def)
    define s3 where "s3 = pumpTurns env s2"
    have s3: "s3 = maybeSettle s2" using a by (simp add: s3_def pumpTurns_def s2_def)
    let ?e = "s3\<lparr>ls_heldAdmissions := []\<rparr>"
    have "turns_ok env ops0 ?e" using t2 turns_cong [of ?e s3 env ops0] by (simp add: s3)
    then have "taking env ops0 ?e" using a by (simp add: taking_def queues_ok_def s3 s2_def)
    then have t: "taking env ops0 (fold (admit_held env) (ls_heldAdmissions s3) ?e)" by (rule admit_all_ok)
    have "turns_ok env ops0 (pumpTurns env (fold (admit_held env) (ls_heldAdmissions s3) ?e))"
      "work_ok (pumpTurns env (fold (admit_held env) (ls_heldAdmissions s3) ?e))"
      by (rule pump_turns [of env ops0]; use t in \<open>simp add: taking_def\<close>)+
    then show ?thesis using False by (simp add: releaseQuiescence_def Let_def s3_def s2_def)
  qed
  then show "turns_ok env ops0 (releaseQuiescence env s)" "work_ok (releaseQuiescence env s)" by simp_all
qed

text \<open>The running turn never has the number of a waiting one.\<close>

lemma cancel_waiting:
  assumes "turns_ok env ops0 s" "ls_pendingTurns s = job # rest"
  shows "ls_pendingTurns (snd (cancel_turn (Some (tj_id job)) reason s)) = rest"
    "ls_active (snd (cancel_turn (Some (tj_id job)) reason s)) = ls_active s"
    "ls_heldAdmissions (snd (cancel_turn (Some (tj_id job)) reason s)) = ls_heldAdmissions s"
    "ls_quiescenceDepth (snd (cancel_turn (Some (tj_id job)) reason s)) = ls_quiescenceDepth s"
    "ls_disposing (snd (cancel_turn (Some (tj_id job)) reason s)) = ls_disposing s"
proof -
  define c where "c = (case reason of Some r \<Rightarrow> r | None \<Rightarrow> userCancellationReason)"
  have w: "reserved_ok (ls_clock s) (ls_nextReservedTurnId s) (tj_id job # map tj_id rest)"
    using assms by (simp add: turns_ok_def waiting_ok_def)
  have "cancelActiveTurn (Some (tj_id job)) c s = (False, s)"
    using assms(1) reserved_head [OF w] by (auto simp: cancelActiveTurn_def turns_ok_def split: option.splits)
  then have s': "snd (cancel_turn (Some (tj_id job)) reason s) = snd (cancelQueuedTurn (tj_id job) c s)"
    by (simp add: cancel_turn_def Let_def flip: c_def)
  have "sorted_wrt (<) (tj_id job # map tj_id rest)" using w by (simp add: reserved_ok_def Let_def)
  then have "filter (\<lambda>j. tj_id j \<noteq> tj_id job) (job # rest) = rest" by (auto simp: filter_id_conv)
  then show "ls_pendingTurns (snd (cancel_turn (Some (tj_id job)) reason s)) = rest"
    "ls_active (snd (cancel_turn (Some (tj_id job)) reason s)) = ls_active s"
    "ls_heldAdmissions (snd (cancel_turn (Some (tj_id job)) reason s)) = ls_heldAdmissions s"
    "ls_quiescenceDepth (snd (cancel_turn (Some (tj_id job)) reason s)) = ls_quiescenceDepth s"
    "ls_disposing (snd (cancel_turn (Some (tj_id job)) reason s)) = ls_disposing s"
    unfolding s' using cancel_queued_ok(3-7) [OF assms(1), of "tj_id job" c "fst (cancelQueuedTurn (tj_id job) c s)"] assms(2)
    by simp_all
qed

lemma cancel_all_waiting:
  assumes "turns_ok env ops0 s" "ls_pendingTurns s = jobs"
    and "s' = fold (\<lambda>job s. snd (cancel_turn (Some (tj_id job)) (Some reason) s)) jobs s"
  shows "turns_ok env ops0 s' \<and> ls_pendingTurns s' = [] \<and> ls_active s' = ls_active s \<and> ls_heldAdmissions s' = ls_heldAdmissions s \<and>
    ls_quiescenceDepth s' = ls_quiescenceDepth s \<and> ls_disposing s' = ls_disposing s"
  using assms
proof (induction jobs arbitrary: s)
  case (Cons job jobs)
  let ?s = "snd (cancel_turn (Some (tj_id job)) (Some reason) s)"
  show ?case
    using Cons.IH [of ?s] Cons.prems cancel_turn_ok(1) [OF Cons.prems(1)] cancel_waiting [OF Cons.prems(1,2)] by simp
qed simp

lemma core_reject_all: "core (fold (\<lambda>x. rejectAssignment (f x) e) xs s) = core s"
  by (induction xs arbitrary: s) simp_all

lemma dispose_ok:
  assumes "turns_ok env ops0 s" "work_ok s"
  shows "turns_ok env ops0 (dispose s)" "work_ok (dispose s)"
proof -
  have "turns_ok env ops0 (dispose s) \<and> work_ok (dispose s)"
  proof (cases "ls_disposing s")
    case True
    then show ?thesis using assms by (simp add: dispose_def)
  next
    case False
    define reason where "reason = abortError ''Agent loop disposed''"
    let ?s = "s\<lparr>ls_disposing := True\<rparr>"
    define s2 where "s2 = fold (\<lambda>job s. snd (cancel_turn (Some (tj_id job)) (Some reason) s)) (ls_pendingTurns s) ?s"
    define s3 where "s3 = (case ls_active s2 of Some (job, _) \<Rightarrow> snd (cancel_turn (Some (tj_id job)) (Some reason) s2) | None \<Rightarrow> s2)"
    define s4 where "s4 = fold (\<lambda>r. rejectAssignment r reason) (ls_standaloneStepQueue s3) (s3\<lparr>ls_standaloneStepQueue := []\<rparr>)"
    define s5 where "s5 = fold (\<lambda>h. rejectAssignment (ha_request h) reason) (ls_heldAdmissions s4) (s4\<lparr>ls_heldAdmissions := []\<rparr>)"
    have "turns_ok env ops0 ?s" using assms(1) turns_cong [of ?s s env ops0] by simp
    from cancel_all_waiting [OF this _ s2_def]
    have c2: "turns_ok env ops0 s2" "ls_pendingTurns s2 = []" "ls_active s2 = ls_active s" "ls_quiescenceDepth s2 = ls_quiescenceDepth s" by simp_all
    have c3: "turns_ok env ops0 s3 \<and> ls_pendingTurns s3 = [] \<and> (ls_active s3 = None \<longleftrightarrow> ls_active s = None) \<and>
      ls_quiescenceDepth s3 = ls_quiescenceDepth s"
    proof (cases "ls_active s2")
      case None
      then show ?thesis using c2 by (simp add: s3_def)
    next
      case (Some jr)
      obtain job run where jr: "jr = (job, run)" by fastforce
      obtain s' where hit: "cancelActiveTurn (Some (tj_id job)) reason s2 = (True, s')"
        using Some jr by (simp add: cancelActiveTurn_def)
      then have "s3 = s'" using Some jr by (simp add: s3_def cancel_turn_def Let_def)
      then show ?thesis using cancel_active_ok [OF c2(1) hit] c2 by simp
    qed
    have c4: "core s4 = core s3" by (simp add: s4_def core_reject_all)
    let ?e = "s4\<lparr>ls_heldAdmissions := []\<rparr>"
    have c5: "core s5 = core ?e" by (simp add: s5_def core_reject_all)
    have e: "turns_ok env ops0 ?e" using turns_cong [of ?e s4 env ops0] core_cong(1) [OF c4] c3 by simp
    have e2: "ls_active ?e = None \<longleftrightarrow> ls_active s = None" "ls_pendingTurns ?e = []" "ls_quiescenceDepth ?e = ls_quiescenceDepth s"
      using core_cong(4-6) [OF c4] c3 by auto
    have q: "queues_ok ?e" using e2 assms(2) by (auto simp: queues_ok_def work_ok_def)
    have "turns_ok env ops0 s5" "queues_ok s5" "ls_pendingTurns s5 = []" using core_cong [OF c5] e q e2 by simp_all
    then have "turns_ok env ops0 (maybeSettle s5)" "work_ok (maybeSettle s5)" using settle_none [of s5] by (simp_all add: work_ok_def)
    then show ?thesis
      using False unfolding dispose_def Let_def s5_def s4_def s3_def s2_def reason_def by simp
  qed
  then show "turns_ok env ops0 (dispose s)" "work_ok (dispose s)" by simp_all
qed

section \<open>Every action\<close>

text \<open>A request is new when it is enqueued.\<close>

definition act_ok :: "loop_env \<Rightarrow> loop_action \<Rightarrow> bool" where
  "act_ok env a \<longleftrightarrow>
     (case a of AEnqueue request _ _ \<Rightarrow> rq_state request = ReqPending | AHooks (Some e) \<Rightarrow> \<not> claimed env e | _ \<Rightarrow> True)"

lemma settled_ok: "turns_ok env ops0 s \<Longrightarrow> work_ok s \<Longrightarrow> turns_ok env ops0 (loop_settled s) \<and> work_ok (loop_settled s)"
  using turns_cong [of "s\<lparr>ls_settled := ls_settled s + 1\<rparr>" s env ops0] turns_cong [of "s\<lparr>ls_settleWaiters := ls_settleWaiters s + 1\<rparr>" s env ops0]
  by (auto simp: loop_settled_def work_ok_def queues_ok_def loop_idle_def)

lemma loop_act_ok:
  assumes "turns_ok env ops0 s" "work_ok s" "act_ok env a"
  shows "turns_ok env ops0 (loop_act env a s) \<and> work_ok (loop_act env a s)"
proof -
  have run: "turns_ok env ops0 (case ls_active s of Some (job, run) \<Rightarrow> run_act env b job run s | None \<Rightarrow> s) \<and>
      work_ok (case ls_active s of Some (job, run) \<Rightarrow> run_act env b job run s | None \<Rightarrow> s)" if hook: "hook_ok env b" for b
  proof (cases "ls_active s")
    case None
    then show ?thesis using assms by simp
  next
    case (Some jr)
    obtain job run where jr: "jr = (job, run)" by fastforce
    show ?thesis using run_act_ok [OF assms(1,2) _ hook] Some jr by simp
  qed
  show ?thesis
    using run assms enqueue_ok [OF assms(1,2)] abort_ok [OF assms(1,2)] cancel_turn_ok [OF assms(1)] step_handle_ok [OF assms(1)]
      quiescence_ok [OF assms(1,2)] release_ok [OF assms(1,2)] settled_ok [OF assms(1,2)] dispose_ok [OF assms(1,2)]
    by (cases a) (simp_all add: loop_act_def act_ok_def hook_ok_def)
qed

lemma new_service_ok:
  assumes "tc_cancelledTurnIds (replay_clock ops) = []"
  shows "turns_ok env ops (new_service (replay_clock ops) ops)" "work_ok (new_service (replay_clock ops) ops)"
  using reserved_none [OF assms]
  by (simp_all add: turns_ok_def waiting_ok_def turns_numbered_def new_service_def logged_def started_turns_def work_ok_def queues_ok_def)

lemma loop_acts_ok:
  assumes "turns_ok env ops0 s" "work_ok s" "list_all (act_ok env) as"
  shows "turns_ok env ops0 (loop_acts env as s) \<and> work_ok (loop_acts env as s)"
  using assms
proof (induction as arbitrary: s)
  case (Cons a as)
  then show ?case using loop_act_ok [of env ops0 s a] by (simp add: loop_acts_def)
qed (simp add: loop_acts_def)

end
