(* ===== verification/LoopProps.thy ===== *)
theory LoopProps
  imports LoopTurns ProjectorProps
begin

text \<open>
  The properties of the agent loop, and its composition with the event projector: the events a loop publishes are
  a word of the grammar, and the projector never loses its place in such a word.
\<close>

section \<open>The projector on the loop's events\<close>

text \<open>While a step is open, it is the current step of the projector.\<close>

definition at_step :: "projector \<Rightarrow> (int \<times> int \<times> bool) option \<Rightarrow> bool" where
  "at_step p g \<longleftrightarrow>
     (case g of
        Some (n, k, opened) \<Rightarrow>
          opened \<longrightarrow> map_option (\<lambda>st. (step_turnId st, step_stepId st)) (pj_currentStep p) = Some (turnId n, stepId (turnId n) k)
      | None \<Rightarrow> True)"

definition plain_calls :: "domain_event \<Rightarrow> bool" where
  "plain_calls e \<longleftrightarrow> (case e of EvToolCallDelta _ i _ _ \<Rightarrow> plain_call i | _ \<Rightarrow> True)"

lemma grammar_in_order:
  assumes "at_step p g" "engine_next g e = Some g'" "loop_event_ok env e" "plain_calls e"
  shows "in_order p e"
  using assms
  by (cases e; cases g) (auto simp: at_step_def engine_next_def loop_event_ok_def plain_calls_def in_order_def Let_def split: if_splits)

lemma ensureStep_same: "pj_currentStep p = Some st \<Longrightarrow> step_turnId st = tid \<Longrightarrow> ensureStep lk now tid p = (p, st, [])"
  by (simp add: ensureStep_def)

lemma adopt_current: "adoptStreamFrame lk tid sid kind p = (q, hit) \<Longrightarrow> pj_currentStep q = pj_currentStep p"
  by (auto simp: adoptStreamFrame_def split: option.splits if_splits)

lemma open_current: "open_stream lk tid sid kind p = (q, o1, ops) \<Longrightarrow> pj_currentStep q = pj_currentStep p"
  by (auto simp: open_stream_def Let_def split: option.splits prod.splits dest: adopt_current)

lemma set_open_current [simp]: "pj_currentStep (set_open kind o1 p) = pj_currentStep p"
  by (simp add: set_open_def split: stream_kind.split)

lemma text_delta_current:
  assumes "pj_currentStep p = Some st" "step_turnId st = turnId n"
  shows "pj_currentStep (fst (onTextDelta lk now n kind delta p)) = Some st"
proof -
  obtain q o1 opened where o: "open_stream lk (turnId n) (step_stepId st) kind p = (q, o1, opened)" by (metis prod_cases3)
  show ?thesis
    using open_current [OF o] assms
    by (simp add: onTextDelta_def ensureStep_same [OF assms] o Let_def)
qed

lemma tool_delta_current:
  assumes "pj_currentStep p = Some st" "step_turnId st = turnId n"
  shows "pj_currentStep (fst (onToolCallDelta lk now n i name part p)) = Some st"
  using assms by (simp add: onToolCallDelta_def Let_def ensureStep_same [OF assms] split: option.split)

lemma grammar_at_step:
  assumes "at_step p g" "engine_next g e = Some g'" "loop_event_ok env e"
    and "project_event json_parse lk now e p = Inr (q, ops)"
  shows "at_step q g'"
proof -
  have inside: "pj_currentStep (fst (f p)) = pj_currentStep p \<Longrightarrow> q = fst (f p) \<Longrightarrow> g' = g \<Longrightarrow> at_step q g'" for f :: "projector \<Rightarrow> projected"
    using assms(1) by (simp add: at_step_def split: option.splits prod.splits)
  have q: "q = fst (projr (project_event json_parse lk now e p))" using assms(4) by simp
  have delta: "\<exists>st. pj_currentStep p = Some st \<and> step_turnId st = turnId n \<and> g' = g"
    if "e = EvAssistantDelta n x \<or> e = EvThinkingDelta n x \<or> e = EvToolCallDelta n i nm arg" for n x i nm arg
    using that assms(1,2) by (auto simp: engine_next_def at_step_def split: option.splits if_splits)
  show ?thesis
  proof (cases e)
    case (EvAssistantDelta n x)
    then obtain st where "pj_currentStep p = Some st" "step_turnId st = turnId n" "g' = g" using delta by blast
    then show ?thesis using inside [of "onTextDelta lk now n StreamText x"] text_delta_current q EvAssistantDelta by (simp add: project_event_def)
  next
    case (EvThinkingDelta n x)
    then obtain st where "pj_currentStep p = Some st" "step_turnId st = turnId n" "g' = g" using delta by blast
    then show ?thesis using inside [of "onTextDelta lk now n StreamThought x"] text_delta_current q EvThinkingDelta by (simp add: project_event_def)
  next
    case (EvToolCallDelta n i nm arg)
    then obtain st where "pj_currentStep p = Some st" "step_turnId st = turnId n" "g' = g" using delta by blast
    then show ?thesis using inside [of "onToolCallDelta lk now n i nm arg"] tool_delta_current q EvToolCallDelta by (simp add: project_event_def)
  next
    case (EvError kvs)
    then have "pj_currentStep q = pj_currentStep p" "g' = g"
      using q assms(2) by (auto simp: project_event_def noticeOp_def event_marker_def markerOp_def alloc_def engine_next_def Let_def split: prod.splits)
    then show ?thesis using assms(1) by (simp add: at_step_def split: option.splits prod.splits)
  next
    case (EvStepRetrying r)
    then show ?thesis using q assms(1,2)
      by (auto simp: project_event_def onStepRetrying_def engine_next_def at_step_def step_base_def Let_def split: option.splits if_splits)
  next
    case (EvStepStarted n k)
    then show ?thesis using q assms(2)
      by (auto simp: project_event_def onStepStarted_def engine_next_def at_step_def step_base_def Let_def split: option.splits if_splits)
  qed (use assms(2,3) in \<open>auto simp: engine_next_def at_step_def loop_event_ok_def split: option.splits if_splits\<close>)
qed

lemma grammar_orderly:
  assumes "engine_run g (map snd tes) = Some g'" "list_all (loop_event_ok env) (map snd tes)" "list_all plain_calls (map snd tes)"
    "at_step p g"
  shows "orderly json_parse view tes (p, s)"
  using assms
proof (induction tes arbitrary: g p s)
  case (Cons te tes)
  obtain now e where te: "te = (now, e)" by fastforce
  obtain g2 where g2: "engine_next g e = Some g2" "engine_run g2 (map snd tes) = Some g'"
    using Cons.prems(1) te by (auto split: option.splits)
  have e: "loop_event_ok env e" "plain_calls e" using Cons.prems(2,3) te by simp_all
  have rest: "list_all (loop_event_ok env) (map snd tes)" "list_all plain_calls (map snd tes)" using Cons.prems(2,3) by simp_all
  have io: "in_order p e" by (rule grammar_in_order [OF Cons.prems(4) g2(1) e])
  show ?case
  proof (cases "project_event json_parse (store_lookups view (st_items s)) now e p")
    case (Inl err)
    have "\<exists>r. project_event json_parse (store_lookups view (st_items s)) now e p = Inr r"
      using e(1) by (cases e) (auto simp: loop_event_ok_def project_event_def)
    then show ?thesis using Inl by simp
  next
    case (Inr r)
    obtain q ops where r: "r = (q, ops)" by fastforce
    have "at_step q g2" using grammar_at_step [OF Cons.prems(4) g2(1) e(1)] Inr r by blast
    then show ?thesis using Cons.IH [OF g2(2) rest] io Inr r te by simp
  qed
qed simp

lemma engine_prefix: "engine_run g (us @ vs) = Some g' \<Longrightarrow> \<exists>h. engine_run g us = Some h"
  by (auto simp: engine_run_append bind_eq_Some_conv)

lemma grammar_feed:
  assumes "engine_run g (map snd tes) = Some g'" "list_all (loop_event_ok env) (map snd tes)" "at_step p g"
  shows "at_step (fst (feed json_parse view tes (p, s))) g'"
  using assms
proof (induction tes arbitrary: g p s)
  case (Cons te tes)
  obtain now e where te: "te = (now, e)" by fastforce
  obtain g2 where g2: "engine_next g e = Some g2" "engine_run g2 (map snd tes) = Some g'"
    using Cons.prems(1) te by (auto split: option.splits)
  have e: "loop_event_ok env e" "list_all (loop_event_ok env) (map snd tes)" using Cons.prems(2) te by simp_all
  have "\<exists>r. project_event json_parse (store_lookups view (st_items s)) now e p = Inr r"
    using e(1) by (cases e) (auto simp: loop_event_ok_def project_event_def)
  then obtain q ops where r: "project_event json_parse (store_lookups view (st_items s)) now e p = Inr (q, ops)" by fastforce
  show ?case using Cons.IH [OF g2(2) e(2) grammar_at_step [OF Cons.prems(3) g2(1) e(1) r]] r te by simp
qed simp

lemma loop_log:
  assumes "tc_cancelledTurnIds (replay_clock ops) = []" "list_all (act_ok env) as"
    and "loop_acts env as (new_service (replay_clock ops) ops) = s"
  obtains g where "engine_run None (ls_events s) = Some g" "list_all (loop_event_ok env) (ls_events s)"
  using loop_acts_ok [OF new_service_ok [OF assms(1)] assms(2)] assms(3)
  unfolding turns_ok_def mid_def logged_def by (auto split: option.splits prod.splits)

section \<open>A turn that is over\<close>

lemma iterate_finished [simp]: "ls_finished (iterate env job run s) = ls_finished s"
proof -
  have emit: "ls_finished (emitStepInterrupted j r x m t) = ls_finished t" for j r x m t
    by (simp add: emitStepInterrupted_def publish_event_def split: option.split)
  have ended: "ls_finished (end_run x j r t) = ls_finished t" for x j r t by (simp add: end_run_def)
  have failed: "ls_finished (failLoopStep j r e t) = ls_finished t" for j r e t by (simp add: failLoopStep_def emit ended)
  have recovering: "ls_finished (tryRecoverLoopError env j r e t) = ls_finished t" for j r e t
    by (simp add: tryRecoverLoopError_def Let_def failed publish_event_def split: option.split prod.split)
  have "ls_finished (begin_error env j r e t) = ls_finished t" for j r e t
    by (simp add: begin_error_def cancelled_or_def Let_def recovering emit ended split: option.split disposition.split)
  then show ?thesis by (simp add: iterate_def Let_def ended split: begin_step.split)
qed

lemma pump_finished: "ls_finished (pumpTurns env s) = ls_finished s"
  by (simp add: pumpTurns_def start_queued_turn_def open_turn_def Let_def publish_event_def dispatch_turn_op_def maybeSettle_def
      split: list.split option.split)

lemma finished_turn:
  "\<exists>ended \<in> set (ls_finished (finish_turn env d job r s)).
     \<exists>x. ended = tj_result_update (\<lambda>_. x) (releaseActiveTurn r (job\<lparr>tj_ready := settleTurnReady r (tj_ready job)\<rparr>))"
  by (auto simp: finish_turn_def Let_def pump_finished publish_event_def maybeSettle_def split: loop_result.split)

text \<open>Cancelling a step settles it, and leaves the other steps alone.\<close>

lemma cancelStep_steps:
  "jm_get (tj_steps (cancelStep i c job)) k =
     (if k = i then
        (case jm_get (tj_steps job) i of
           Some st \<Rightarrow>
             if mst_state st \<in> {MsCompleted, MsFailed, MsCancelled} then Some st
             else Some (st\<lparr>mst_state := MsCancelled, mst_abort := first_of (mst_abort st) c,
                            mst_result := first_of (mst_result st) (SrCancelled c)\<rparr>)
         | None \<Rightarrow> None)
      else jm_get (tj_steps job) k)"
  by (auto simp: cancelStep_def split: option.split)

lemma cancelStep_queue:
  "q \<in> set (tj_queue (cancelStep i c job)) \<Longrightarrow>
   \<exists>q0 \<in> set (tj_queue job). rq_id q = rq_id q0 \<and> (rq_state q = ReqPending \<longrightarrow> rq_state q0 = ReqPending)"
  by (auto simp: cancelStep_def abort_request_def abort_def split: option.splits if_splits)

lemma abort_request_settles:
  assumes "q \<in> set (abort_request i items)" "rq_id q = i" shows "rq_state q \<noteq> ReqPending"
proof -
  obtain x where q: "q = (if rq_id x = i then fst (abort x) else x)" 
    using assms(1) unfolding abort_request_def set_map by blast
  have "rq_id x = i" using q assms(2) by (auto split: if_splits)
  then show ?thesis using q by (simp add: abort_def)
qed

lemma cancel_steps_settles:
  assumes "(i, st0) \<in> set steps" "jm_get (tj_steps job) i = Some st" "mst_state st \<in> {MsQueued, MsRunning}" "mst_result st = None"
  shows "map_option mst_result (jm_get (tj_steps (cancel_steps steps c job)) i) = Some (Some (SrCancelled c)) \<and>
    (\<forall>q \<in> set (tj_queue (cancel_steps steps c job)). rq_id q = i \<longrightarrow> rq_state q \<noteq> ReqPending)"
proof -
  have kept: "jm_get (tj_steps (cancel_steps ss c j)) i = Some st2 \<and>
      (\<forall>q \<in> set (tj_queue (cancel_steps ss c j)). rq_id q = i \<longrightarrow> rq_state q \<noteq> ReqPending)"
    if "jm_get (tj_steps j) i = Some st2" "mst_state st2 = MsCancelled"
      "\<forall>q \<in> set (tj_queue j). rq_id q = i \<longrightarrow> rq_state q \<noteq> ReqPending" for ss j st2
    using that
  proof (induction ss arbitrary: j)
    case (Cons kst ss)
    have "\<forall>q \<in> set (tj_queue (cancelStep (fst kst) c j)). rq_id q = i \<longrightarrow> rq_state q \<noteq> ReqPending"
      using Cons.prems(3) cancelStep_queue by metis
    then have "jm_get (tj_steps (cancel_steps ss c (cancelStep (fst kst) c j))) i = Some st2 \<and>
      (\<forall>q \<in> set (tj_queue (cancel_steps ss c (cancelStep (fst kst) c j))). rq_id q = i \<longrightarrow> rq_state q \<noteq> ReqPending)"
      by (intro Cons.IH) (use Cons.prems in \<open>auto simp: cancelStep_steps\<close>)
    then show ?case by (simp add: cancel_steps_def case_prod_unfold)
  qed (simp add: cancel_steps_def)
  show ?thesis
    using assms(1,2)
  proof (induction steps arbitrary: job)
    case (Cons kst steps)
    show ?case
    proof (cases "fst kst = i")
      case True
      let ?st = "st\<lparr>mst_state := MsCancelled, mst_abort := first_of (mst_abort st) c, mst_result := first_of (mst_result st) (SrCancelled c)\<rparr>"
      have "jm_get (tj_steps (cancelStep i c job)) i = Some ?st"
        using Cons.prems(2) assms(3) by (auto simp: cancelStep_steps)
      moreover have "\<forall>q \<in> set (tj_queue (cancelStep i c job)). rq_id q = i \<longrightarrow> rq_state q \<noteq> ReqPending"
        using Cons.prems(2) assms(3) by (auto simp: cancelStep_def dest: abort_request_settles)
      ultimately have "jm_get (tj_steps (cancel_steps steps c (cancelStep i c job))) i = Some ?st \<and>
        (\<forall>q \<in> set (tj_queue (cancel_steps steps c (cancelStep i c job))). rq_id q = i \<longrightarrow> rq_state q \<noteq> ReqPending)"
        by (intro kept) simp_all
      then show ?thesis using True assms(4) by (simp add: cancel_steps_def case_prod_unfold first_of_def)
    next
      case False
      have "(i, st0) \<in> set steps" using Cons.prems(1) False by auto
      moreover have "jm_get (tj_steps (cancelStep (fst kst) c job)) i = Some st"
        using Cons.prems(2) False by (simp add: cancelStep_steps)
      ultimately show ?thesis using Cons.IH by (simp add: cancel_steps_def case_prod_unfold)
    qed
  qed simp
qed

lemma released_step:
  assumes "jm_get (tj_steps job) i = Some st" "mst_state st = MsQueued" "mst_result st = None"
  shows "\<exists>reason. map_option mst_result (jm_get (tj_steps (releaseActiveTurn r job)) i) = Some (Some (SrCancelled reason)) \<and>
    (\<forall>q \<in> set (tj_queue (releaseActiveTurn r job)). rq_id q = i \<longrightarrow> rq_state q \<noteq> ReqPending)"
proof -
  define reason where "reason = (case r of LrCancelled _ c \<Rightarrow> c | _ \<Rightarrow> abortError ''Turn ended'')"
  have "(i, st) \<in> set (filter (\<lambda>(i, st). mst_state st \<in> {MsQueued, MsRunning}) (tj_steps job))"
    using assms(1,2) by (auto simp: jm_get_def dest: map_of_SomeD)
  from cancel_steps_settles [OF this assms(1) _ assms(3), of reason] show ?thesis
    using assms(2) by (auto simp: releaseActiveTurn_def Let_def reason_def)
qed

section \<open>Sample runs\<close>

definition sample_refusal :: thrown where
  "sample_refusal = ErrorThrown ''APIStatusError'' ''429''"

definition sample_loop_env :: loop_env where
  "sample_loop_env =
     \<lparr>le_maxStepsPerTurn = Some 5, le_maxRetriesPerStep = Some 3, le_messages = (\<lambda>_. []), le_prepare = (\<lambda>_. None),
      le_payload = (\<lambda>_. []), le_retryable = (\<lambda>e. e = sample_refusal), le_retryAfterMs = (\<lambda>_. None),
      le_statusCode = (\<lambda>_. None), le_uuid = (\<lambda>_ _. ''u''), le_random = (\<lambda>_. 0),
      le_handlers = [(step_retry_id, \<lambda>e. unwrapErrorCause e = sample_refusal)]\<rparr>"

definition sample_seed :: turn_seed where
  "sample_seed = \<lparr>sd_input = [PText ''hi''], sd_origin = JObj 0 [(''kind'', JStr ''user'')]\<rparr>"

definition ask :: "nat \<Rightarrow> loop_action" where
  "ask i = AEnqueue (new_request i \<lparr>ro_mergeable = None, ro_turnScoped = None, ro_admission = Some NewTurn\<rparr>) (Some sample_seed) False"

definition sample_note :: "nat \<Rightarrow> step_request" where
  "sample_note i = new_request i \<lparr>ro_mergeable = Some True, ro_turnScoped = Some False, ro_admission = Some ActiveOrNewTurn\<rparr>"

definition sample_response :: llm_response where
  "sample_response =
     \<lparr>lp_content = [PText ''yo''], lp_toolCalls = [], lp_finish = Some FinCompleted, lp_raw = None,
      lp_usage = Obj 0 \<lparr>su_inputOther = 1, su_output = 1, su_inputCacheRead = 0, su_inputCacheCreation = 0\<rparr>, lp_timing = None\<rparr>"

definition step_through :: "loop_action list" where
  "step_through = [AHooks None, APart (SpText ''yo''), AResponse sample_response, AToolsDone, AAfter True None False]"

text \<open>Three prompts; the second is cancelled while it waits, and the first step of the first is refused once.\<close>

definition sample_acts :: "loop_action list" where
  "sample_acts =
     [ask 1, ask 2, ask 3, ACancel (Some 1) None, AHooks None, APart (SpText ''y''), AError sample_refusal, ASlept None]
     @ step_through @ [AFinish 9, ASettled, AHooks None]"


definition sample_run :: loop_state where
  "sample_run = loop_acts sample_loop_env sample_acts (new_service initial_clock [])"

text \<open>A background task reports to the running turn, which then fails.\<close>

definition sample_failure :: "loop_action list" where
  "sample_failure =
     [ask 1, AHooks None, APart (SpText ''y''),
      AEnqueue (sample_note 2) (Some sample_seed) False, AError (ErrorThrown ''Error'' ''boom'')]"

definition failed_run :: loop_state where
  "failed_run = loop_acts sample_loop_env sample_failure (new_service initial_clock [])"

definition sample_stamped :: "(string \<times> domain_event) list" where
  "sample_stamped = map (\<lambda>e. (''T1'', e)) (ls_events sample_run)"

definition sample_fed :: "projector \<times> agent_state" where
  "sample_fed = feed no_json None (take 5 sample_stamped) (newProjector 0, EMPTY_AGENT_STATE)"

definition sample_projected :: "projector \<times> transcript_op list" where
  "sample_projected =
     projr (project_event no_json (store_lookups None (st_items (snd sample_fed))) ''T1'' (snd (sample_stamped ! 5)) (fst sample_fed))"

lemma replay_nothing [simp]: "replay_clock [] = initial_clock" "tc_cancelledTurnIds initial_clock = []"
  by (simp_all add: replay_clock_def initial_clock_def)

lemma sample_acts_ok: "list_all (act_ok sample_loop_env) sample_acts"
  by code_simp

lemma sample_run_facts:
  "case sample_run of s \<Rightarrow>
     started_turns (ls_events s) = [0, 2] \<and> replayed_turns initial_clock (ls_ops s) = [0, 2] \<and>
     ls_settleWaiters s = 1 \<and> ls_pendingTurns s = [] \<and> map_option (tj_id \<circ> fst) (ls_active s) = Some 2 \<and>
     length (ls_events s) = 10 \<and> list_all plain_calls (ls_events s)"
  by code_simp

lemma sample_retries: "list_ex (\<lambda>e. case e of EvStepRetrying r \<Rightarrow> rt_failedAttempt r = 1 | _ \<Rightarrow> False) (ls_events sample_run)"
  by code_simp

lemma sample_fed_facts:
  "case project_event no_json (store_lookups None (st_items (snd sample_fed))) ''T1'' (snd (sample_stamped ! 5)) (fst sample_fed) of
     Inr (q, ops) \<Rightarrow> ops \<noteq> [] | Inl _ \<Rightarrow> False"
  by code_simp

lemma failed_run_facts:
  "case ls_active failed_run of
     Some (job, run) \<Rightarrow>
       lr_phase run = RunEnded (LrFailed 1 (ErrorThrown ''Error'' ''boom'')) \<and> tj_id job = 0 \<and>
       tj_queue job = [sample_note 2] \<and>
       jm_get (tj_steps job) 2 = Some \<lparr>mst_state = MsQueued, mst_abort = None, mst_result = None\<rparr>
   | None \<Rightarrow> False"
  by code_simp


lemma sample_reached: "loop_acts sample_loop_env sample_acts (new_service (replay_clock []) []) = sample_run"
  by (simp add: sample_run_def)

section \<open>The properties\<close>

text \<open>
  C8: the turn numbers a loop announces are the numbers the journal gives when it is replayed. Start a loop from a journal
  that has no cancelled reservation ahead of its clock, and let it take any actions: requests (pending ones), cancellations,
  quiescence, disposal, answers and failures of the provider and the tools, retries; only a hook before a step may not
  throw an error that a handler claims. Replaying the operations the loop has recorded then numbers the turns that were
  started as their turn.started events did. (Without the first condition it fails: \<open>crash_shifts_numbers\<close>.)
\<close>

theorem turn_numbers_replayed:
  assumes "tc_cancelledTurnIds (replay_clock ops) = []" "list_all (act_ok env) as"
    and "loop_acts env as (new_service (replay_clock ops) ops) = s"
  shows "\<exists>new. ls_ops s = ops @ new \<and> started_turns (ls_events s) = map int (replayed_turns (replay_clock ops) new)"
  using loop_acts_ok [OF new_service_ok [OF assms(1)] assms(2)] assms(3)
  unfolding turns_ok_def waiting_ok_def turns_numbered_def by blast

theorem turn_numbers_replayed_witness:
  "started_turns (ls_events sample_run) = [0, 2] \<and> map int (replayed_turns initial_clock (ls_ops sample_run)) = [0, 2]"
proof -
  have "\<exists>new. ls_ops sample_run = [] @ new \<and> started_turns (ls_events sample_run) = map int (replayed_turns (replay_clock []) new)"
    by (rule turn_numbers_replayed [OF _ sample_acts_ok sample_reached]) simp
  then show ?thesis using sample_run_facts by simp
qed

text \<open>
  C14: what a loop publishes in such a run is well bracketed: one turn at a time, its steps numbered upwards, every delta,
  retry and completion inside the step that is open, every turn ended before the next; and the turn left open is
  the one the loop is running. (A hook before a step that throws a retryable error breaks it: \<open>retry_of_unstarted_step\<close>.)
\<close>

theorem loop_events_are_bracketed:
  assumes "tc_cancelledTurnIds (replay_clock ops) = []" "list_all (act_ok env) as"
    and "loop_acts env as (new_service (replay_clock ops) ops) = s"
  shows "\<exists>k opened. engine_run None (ls_events s) = Some (map_option (\<lambda>(job, run). (int (tj_id job), k, opened)) (ls_active s))"
  using loop_acts_ok [OF new_service_ok [OF assms(1)] assms(2)] assms(3)
  unfolding turns_ok_def mid_def logged_def by (auto split: option.splits prod.splits)

theorem loop_events_are_bracketed_witness:
  "length (ls_events sample_run) = 10 \<and> (\<exists>k opened. engine_run None (ls_events sample_run) = Some (Some (2, k, opened)))"
proof -
  have "\<exists>k opened. engine_run None (ls_events sample_run) =
      Some (map_option (\<lambda>(job, run). (int (tj_id job), k, opened)) (ls_active sample_run))"
    by (rule loop_events_are_bracketed [OF _ sample_acts_ok sample_reached]) simp
  then show ?thesis using sample_run_facts by auto
qed

text \<open>
  C7: the loop and the transcript fit together. Feed the events of such a run, in the order the loop publishes them, to a
  fresh projector on a tidy store nobody else writes to, and let no tool call id look like the name of a
  streamed frame (\<open>plain_calls\<close>). Then every operation the projector makes of each event is placed in the store: no batch
  has a gap.
\<close>

theorem loop_batches_placed:
  assumes "tc_cancelledTurnIds (replay_clock ops) = []" "list_all (act_ok env) as"
    and "loop_acts env as (new_service (replay_clock ops) ops) = s"
    and "list_all plain_calls (ls_events s)" "map snd tes = ls_events s" "tes = us @ (now, e) # vs"
    and "tidy (st_items s0)" "feed json_parse view us (newProjector ref, s0) = (p, st)"
    and "project_event json_parse (store_lookups view (st_items st)) now e p = Inr (q, upserts)"
  shows "snd (snd (apply_loop upserts st [] None)) = None"
proof -
  have es: "ls_events s = map snd us @ e # map snd vs" using assms(5,6) by (simp flip: assms(5))
  obtain g where run: "engine_run None (map snd us @ e # map snd vs) = Some g"
    and ok: "list_all (loop_event_ok env) (map snd us)" "loop_event_ok env e"
    by (rule loop_log [OF assms(1-3)]) (simp add: es)
  have plain: "list_all plain_calls (map snd us)" "plain_calls e" using assms(4) by (simp_all add: es)
  obtain h where h: "engine_run None (map snd us) = Some h" using engine_prefix [OF run] by blast
  obtain g2 where g2: "engine_next h e = Some g2" using run h by (auto simp: engine_run_append split: option.splits)
  have start: "at_step (newProjector ref) None" by (simp add: at_step_def)
  have fit: "orderly json_parse view us (newProjector ref, s0)" by (rule grammar_orderly [OF h ok(1) plain(1) start])
  have "at_step p h" using grammar_feed [OF h ok(1) start, of json_parse view s0] assms(8) by simp
  then have "in_order p e" using grammar_in_order g2 ok(2) plain(2) by blast
  moreover have "live json_parse p st"
    using live_feed [OF _ fit assms(8)] live_begin [OF assms(7)] by simp
  ultimately show ?thesis
    using kept_event [OF live_tracks] assms(9) by (fastforce simp: apply_loop_gap kept_def)
qed

theorem loop_batches_placed_witness:
  "snd sample_projected \<noteq> [] \<and> snd (snd (apply_loop (snd sample_projected) (snd sample_fed) [] None)) = None"
proof -
  let ?e = "snd (sample_stamped ! 5)"
  have es: "map snd sample_stamped = ls_events sample_run" by (simp add: sample_stamped_def comp_def)
  have len: "length sample_stamped = 10" "fst (sample_stamped ! 5) = ''T1''"
    using sample_run_facts by (simp_all add: sample_stamped_def split: option.splits)
  then have cut: "sample_stamped = take 5 sample_stamped @ (''T1'', ?e) # drop (Suc 5) sample_stamped"
    using id_take_nth_drop [of 5 sample_stamped] prod.collapse [of "sample_stamped ! 5"] by simp
  obtain q ops where r: "project_event no_json (store_lookups None (st_items (snd sample_fed))) ''T1'' ?e (fst sample_fed) = Inr (q, ops)"
    and ops: "ops \<noteq> []" using sample_fed_facts by (auto split: sum.splits)
  have fed: "feed no_json None (take 5 sample_stamped) (newProjector 0, EMPTY_AGENT_STATE) = (fst sample_fed, snd sample_fed)"
    by (simp add: sample_fed_def)
  have "snd (snd (apply_loop ops (snd sample_fed) [] None)) = None"
  proof (rule loop_batches_placed [OF _ sample_acts_ok sample_reached _ es cut _ fed r])
    show "list_all plain_calls (ls_events sample_run)" using sample_run_facts by simp
    show "tidy (st_items EMPTY_AGENT_STATE)" by (simp add: EMPTY_AGENT_STATE_def)
  qed simp
  then show ?thesis using ops r by (simp add: sample_projected_def)
qed

text \<open>
  C15: no prompt is stranded in such a run: while turns wait, a turn is running; and whoever waits for the loop to
  settle has been told whenever no turn runs, waits or is held back.
\<close>

theorem no_turn_is_stranded:
  assumes "tc_cancelledTurnIds (replay_clock ops) = []" "list_all (act_ok env) as"
    and "loop_acts env as (new_service (replay_clock ops) ops) = s"
  shows "(ls_active s = None \<longrightarrow> ls_pendingTurns s = []) \<and> (loop_idle s \<longrightarrow> ls_settleWaiters s = 0)"
  using loop_acts_ok [OF new_service_ok [OF assms(1)] assms(2)] assms(3) by (simp add: work_ok_def)

theorem no_turn_is_stranded_witness:
  "ls_settleWaiters sample_run = 1 \<and> \<not> loop_idle sample_run"
proof -
  have "(ls_active sample_run = None \<longrightarrow> ls_pendingTurns sample_run = []) \<and> (loop_idle sample_run \<longrightarrow> ls_settleWaiters sample_run = 0)"
    by (rule no_turn_is_stranded [OF _ sample_acts_ok sample_reached]) simp
  then show ?thesis using sample_run_facts by auto
qed

text \<open>
  C29: the loop stays within its limits in such a run: no step is announced beyond the step budget of a turn (when it is set
  and not 0), and a retry announces an attempt that failed, below the attempts a step has, and the one after it.
\<close>

theorem loop_stays_within_limits:
  assumes "tc_cancelledTurnIds (replay_clock ops) = []" "list_all (act_ok env) as"
    and "loop_acts env as (new_service (replay_clock ops) ops) = s"
  shows "(\<forall>n k m. EvStepStarted n k \<in> set (ls_events s) \<longrightarrow> le_maxStepsPerTurn env = Some m \<longrightarrow> 0 < m \<longrightarrow> k \<le> int m) \<and>
    (\<forall>r. EvStepRetrying r \<in> set (ls_events s) \<longrightarrow>
       1 \<le> rt_failedAttempt r \<and> rt_failedAttempt r < of_nat (maxAttempts env) \<and> rt_nextAttempt r = rt_failedAttempt r + 1)"
proof -
  obtain g where "engine_run None (ls_events s) = Some g" "list_all (loop_event_ok env) (ls_events s)"
    by (rule loop_log [OF assms])
  then have ok: "\<And>e. e \<in> set (ls_events s) \<Longrightarrow> loop_event_ok env e" by (simp add: list_all_iff)
  show ?thesis using ok [of "EvStepStarted _ _"] ok [of "EvStepRetrying _"] by (auto simp: loop_event_ok_def)
qed

theorem loop_stays_within_limits_witness:
  "\<exists>r. EvStepRetrying r \<in> set (ls_events sample_run) \<and> rt_nextAttempt r = 2 \<and> 1 < (of_nat (maxAttempts sample_loop_env) :: number)"
proof -
  obtain e where e: "e \<in> set (ls_events sample_run)" "case e of EvStepRetrying r \<Rightarrow> rt_failedAttempt r = 1 | _ \<Rightarrow> False"
    using sample_retries by (auto simp: list_ex_iff)
  obtain r where "e = EvStepRetrying r" "rt_failedAttempt r = 1" using e(2) by (cases e) auto
  with e(1) have r: "EvStepRetrying r \<in> set (ls_events sample_run)" "rt_failedAttempt r = 1" by simp_all
  from loop_stays_within_limits [OF _ sample_acts_ok sample_reached] r show ?thesis by (intro exI [of _ r]) auto
qed

text \<open>
  A request scoped to the agent does not survive the turn it was merged into: when the turn ends before a step took
  it, its step is settled as cancelled and the queue of the turn is left with no copy that is still pending.
\<close>

theorem agent_scoped_request_is_dropped:
  assumes "ls_active s = Some (job, run)" "lr_phase run = RunEnded r"
    and "q \<in> set (tj_queue job)" "\<not> rq_turnScoped q"
    and "jm_get (tj_steps job) (rq_id q) = Some st" "mst_state st = MsQueued" "mst_result st = None"
  shows "\<exists>ended \<in> set (ls_finished (loop_act env (AFinish d) s)).
    \<exists>reason. map_option mst_result (jm_get (tj_steps ended) (rq_id q)) = Some (Some (SrCancelled reason)) \<and>
      filter (\<lambda>x. rq_id x = rq_id q \<and> rq_state x = ReqPending) (tj_queue ended) = []"
proof -
  let ?job = "job\<lparr>tj_ready := settleTurnReady r (tj_ready job)\<rparr>"
  obtain reason where reason:
    "map_option mst_result (jm_get (tj_steps (releaseActiveTurn r ?job)) (rq_id q)) = Some (Some (SrCancelled reason))"
    "\<forall>x \<in> set (tj_queue (releaseActiveTurn r ?job)). rq_id x = rq_id q \<longrightarrow> rq_state x \<noteq> ReqPending"
    using released_step [of ?job "rq_id q" st r] assms(5-7) by auto
  obtain ended x where "ended \<in> set (ls_finished (finish_turn env d job r s))"
    "ended = tj_result_update (\<lambda>_. x) (releaseActiveTurn r ?job)" using finished_turn by blast
  then show ?thesis
    using reason assms(1,2) by (intro bexI [of _ ended]) (auto simp: loop_act_def run_act_def filter_empty_conv)
qed

theorem agent_scoped_request_is_dropped_witness:
  "case ls_active failed_run of
     Some (job, run) \<Rightarrow>
       \<not> rq_turnScoped (sample_note 2) \<and>
       (\<exists>ended \<in> set (ls_finished (loop_act sample_loop_env (AFinish 9) failed_run)).
          \<exists>reason. map_option mst_result (jm_get (tj_steps ended) 2) = Some (Some (SrCancelled reason)))
   | None \<Rightarrow> False"
proof -
  obtain job run where a: "ls_active failed_run = Some (job, run)" using failed_run_facts by (auto split: option.splits)
  have nt: "rq_id (sample_note 2) = 2" "\<not> rq_turnScoped (sample_note 2)" by (simp_all add: sample_note_def new_request_def)
  have facts: "lr_phase run = RunEnded (LrFailed 1 (ErrorThrown ''Error'' ''boom''))" "tj_queue job = [sample_note 2]"
    "jm_get (tj_steps job) (rq_id (sample_note 2)) = Some \<lparr>mst_state = MsQueued, mst_abort = None, mst_result = None\<rparr>"
    using failed_run_facts a nt(1) by simp_all
  from agent_scoped_request_is_dropped [where env = sample_loop_env and d = 9, OF a facts(1) _ nt(2) facts(3)] facts(2) nt
  show ?thesis by (fastforce simp: a)
qed

end
