(* ===== verification/LoopFinds.thy ===== *)
theory LoopFinds
  imports LoopProps
begin

text \<open>
  Where the agent loop departs from what its comments and its other parts expect, on concrete runs.
\<close>

section \<open>What sample runs show\<close>

definition ended_with :: "loop_state \<Rightarrow> loop_result option" where
  "ended_with s = (case ls_active s of Some (job, run) \<Rightarrow> (case lr_phase run of RunEnded r \<Rightarrow> Some r | _ \<Rightarrow> None) | None \<Rightarrow> None)"

definition run_afresh :: "loop_env \<Rightarrow> loop_action list \<Rightarrow> loop_state" where
  "run_afresh env as = loop_acts env as (new_service initial_clock [])"

text \<open>
  A step that is cancelled while it streams is left out and its turn goes on; cancelled while it waits to be retried,
  it fails the whole turn with the error it was to be retried for.
\<close>

lemma cancelled_step_is_skipped:
  "ended_with (run_afresh sample_loop_env [ask 1, AHooks None, ACancelStep 0 1 None, AError (abortError ''stop'')])
     = Some (LrCompleted 1 False)"
  by code_simp

lemma cancel_in_backoff_fails_turn:
  "ended_with (run_afresh sample_loop_env [ask 1, AHooks None, AError sample_refusal, ACancelStep 0 1 None, ASlept None])
     = Some (LrFailed 1 sample_refusal)"
  by code_simp

text \<open>The interruption for the step limit is never announced: it is thrown while no step is current.\<close>

lemma step_limit_is_not_announced:
  "let s = run_afresh (sample_loop_env\<lparr>le_maxStepsPerTurn := Some 1\<rparr>)
         (ask 1 # AHooks None # AEnqueue (sample_note 2) (Some sample_seed) False # tl step_through)
   in ended_with s = Some (LrFailed 1 (createMaxStepsExceededError 1)) \<and>
      \<not> list_ex (\<lambda>e. case e of EvStepInterrupted _ _ _ _ \<Rightarrow> True | _ \<Rightarrow> False) (ls_events s)"
  by code_simp

text \<open>A hook before the step that throws a retryable error has a retry announced for a step that never started.\<close>

lemma retry_of_unstarted_step:
  "engine_run None (ls_events (run_afresh sample_loop_env [ask 1, AHooks (Some sample_refusal)])) = None"
  by code_simp

text \<open>
  A crash may leave cancelled reservations in the journal above the turn that comes next. The loop then numbers its
  turns as replaying the journal would not.
\<close>

definition crashed_ops :: "turn_op list" where
  "crashed_ops = [OpPrompt, OpCancel (Some 2) (Some TargetQueued), OpCancel (Some 4) (Some TargetQueued)]"

definition after_crash :: loop_state where
  "after_crash =
     loop_acts sample_loop_env ([ask 1, ask 2, ask 3] @ concat (replicate 2 (step_through @ [AFinish 9])))
       (new_service (replay_clock crashed_ops) crashed_ops)"

lemma crash_shifts_numbers:
  "let s = after_crash in
     started_turns (ls_events s) = [1, 3, 4] \<and> replayed_turns (replay_clock crashed_ops) (drop 3 (ls_ops s)) = [1, 3, 5]"
  by code_simp

end
