(* ===== verification/Spec2Isabelle.thy ===== *)
theory Spec2Isabelle
  imports TranscriptProps GroupTurns FoldFacts CronExpr CronJitter ToolScheduling StepQueue ProjectionProps
    EventProps SyncProps ActivityProps LoopFinds
begin

text \<open>
  Dimi is a coding agent: an engine (\<open>packages/agent-core-v2\<close>) runs turns of model calls and tool
  calls, a server (\<open>packages/kap-server\<close>) streams what happens to terminals and browsers, and both
  agree on a view of the conversation (\<open>packages/transcript\<close>). This development models the
  deterministic core of the three: the data every part exchanges, and the reducers, queues and
  schedulers that decide what the user and the model provider see.

  \<^bold>\<open>How the parts interact.\<close> A prompt becomes a step request (\<open>StepQueue\<close>); the loop admits it to a turn
  (\<open>LoopService\<close>), numbers the turn by the clock of the wire (\<open>TurnClock\<close>), takes the requests off in batches, streams a
  step of each batch from the provider as loop events and retries it when it fails (\<open>LoopRun\<close>). The events are folded into the
  history the next model call is given (\<open>ContextMemory\<close>), which a compaction shortens (\<open>Compaction\<close>)
  and an undo cuts (\<open>ContextUndo\<close>); the same journal is reduced a second time for display
  (\<open>ContextTranscript\<close>). Before each call the history is projected into a request the provider accepts
  (\<open>ContextProjection\<close>). The tool calls of a step run under the scheduler (\<open>ToolScheduling\<close>). What
  happens is sent to clients as operations on a transcript (\<open>TranscriptModel\<close>), reduced alike on both
  sides (\<open>TranscriptOps\<close>, \<open>TranscriptStore\<close>), clipped to what a client subscribed to
  (\<open>Granularity\<close>) and paged (\<open>Pagination\<close>). A session that is opened cold has its transcript
  rebuilt from stored messages (\<open>GroupTurns\<close>) and records (\<open>FoldFacts\<close>). Scheduled prompts come from
  cron expressions (\<open>CronExpr\<close>, \<open>CronJitter\<close>).

  The server has two channels to its clients. The event channel stamps the durable events of a session with a sequence
  number, writes them to a file (\<open>EventJournal\<close>) and sends them on; a client that comes back replays from its
  cursor (\<open>EventStream\<close>) and is shown the turn in flight and the running subagents (\<open>SessionTrackers\<close>). The
  transcript channel sends batches of transcript operations. The events of an agent (\<open>DomainEvents\<close>) are folded into
  its activity (\<open>ActivityView\<close>) and projected into operations (\<open>EventProjector\<close>); a binding per session feeds them to
  the store, with the approvals and questions of the session (\<open>TranscriptBinding\<close>). The service journals each batch in
  memory, replays a rebuilt history into the live store and repairs ended turns from the records (\<open>TranscriptSync\<close>); the
  broadcaster fans the batches out at the grade of each connection, and a connection that joins with a cursor is
  sent what it missed (\<open>TranscriptChannel\<close>).

  \<^bold>\<open>Theories, in the order of their imports.\<close>
  \<^item> \<open>Prelude\<close>, \<open>JsValue\<close>, \<open>OrderedMap\<close>: shared lemmas; JSON values, references with identity, strict
    equality, string operations; insertion-ordered \<open>Map\<close> and \<open>Set\<close> behind the locale \<open>ordered_map\<close>.
  \<^item> \<open>TranscriptModel\<close> (\<open>transcript/src/model\<close>, \<open>ops/operation.ts\<close>): records and datatypes.
  \<^item> \<open>TranscriptOps\<close> (\<open>ops/apply.ts\<close>): \<open>applyOperation\<close> and one definition per handler. Lemmas in
    \<open>TranscriptLemmas\<close> (look-up after insert, placement of text at an offset, the locale
    \<open>entity_collection\<close> for the five keyed collections), \<open>TranscriptInv\<close> (well-formed states and
    their preservation) and \<open>TranscriptConverge\<close> (duplicates and replays).
  \<^item> \<open>TranscriptStore\<close> (\<open>store/agentTranscript.ts\<close>, \<open>store/transcriptStore.ts\<close>), \<open>Pagination\<close>
    (\<open>pagination/paginate.ts\<close>), \<open>Granularity\<close> (\<open>granularity/grade.ts\<close>, \<open>filterOps.ts\<close>);
    \<open>TranscriptProps\<close> holds the properties of these.
  \<^item> \<open>GroupTurns\<close>, \<open>FoldFacts\<close> (\<open>history/groupTurns.ts\<close>, \<open>history/foldFacts.ts\<close>): the closures of
    each function are steps on a record of the variables they capture.
  \<^item> \<open>JsDate\<close>, \<open>CronExpr\<close>, \<open>CronJitter\<close> (\<open>agent-core-v2/src/app/cron\<close>): the calendar, the parser,
    the next-fire search, the description, and the jitter on 32-bit words.
  \<^item> \<open>ToolScheduling\<close> (\<open>agent/toolExecutor/toolScheduler.ts\<close>, \<open>tool/toolContract.ts\<close>), \<open>StepQueue\<close>
    (\<open>agent/loop/stepRequest.ts\<close>, \<open>stepRequestQueue.ts\<close>).
  \<^item> \<open>TurnClock\<close> (\<open>agent/loop/turnOps.ts\<close>), \<open>LoopRun\<close> (the run of a turn in \<open>agent/loop/loopService.ts\<close>, with
    \<open>stepRetry/stepRetryService.ts\<close>, \<open>_base/utils/retry.ts\<close>, \<open>abort.ts\<close> and the errors of \<open>loop.ts\<close>), \<open>LoopService\<close>
    (admission, turns, cancellation, quiescence and disposal in \<open>loopService.ts\<close>; \<open>loop_act\<close> takes one action).
    \<open>LoopInv\<close> has the grammar of the published events and the contract of the running turn, \<open>LoopTurns\<close> the invariant of the
    service, \<open>LoopProps\<close> the properties, one of which joins the loop to the projector, \<open>LoopFinds\<close> the departures.
  \<^item> \<open>ContextMemory\<close> (\<open>agent/contextMemory/loopEventFold.ts\<close>, \<open>types.ts\<close>, \<open>vacuousContent.ts\<close>,
    \<open>llmProtocol/message.ts\<close>), \<open>Compaction\<close> (\<open>compactionHandoff.ts\<close>, \<open>llmProtocol/tokens.ts\<close>),
    \<open>ContextUndo\<close> (\<open>contextOps.ts\<close>, \<open>conversationTime.ts\<close>), \<open>ContextTranscript\<close>
    (\<open>contextTranscript.ts\<close>); \<open>ContextProps\<close> holds the properties of these.
  \<^item> \<open>ContextProjection\<close> (\<open>agent/contextProjector/contextProjectorService.ts\<close>,
    \<open>contextMemory/toolResultRender.ts\<close>); \<open>ProjectionLemmas\<close> has the invariant of its loop (the layout of
    wanted results, and the locale \<open>content_view\<close> of what a merge may not lose), \<open>ProjectionProps\<close> the
    properties, the last of which joins the fold and the projection.
  \<^item> \<open>SessionTrackers\<close>, \<open>EventJournal\<close>, \<open>EventStream\<close> (\<open>kap-server/src/transport/ws/v1\<close>:
    \<open>inFlightTurnTracker.ts\<close>, \<open>subagentRosterTracker.ts\<close>, \<open>sessionEventJournal.ts\<close>,
    \<open>sessionEventBroadcaster.ts\<close>); \<open>EventReplay\<close> is the server as a step relation with a ghost log of every
    durable envelope, \<open>EventProps\<close> the properties.
  \<^item> \<open>TranscriptSync\<close> (\<open>kap-server/src/services/transcript/transcriptService.ts\<close>, \<open>applyOps\<close> of
    \<open>coreBinding.ts\<close>), \<open>TranscriptChannel\<close> (the transcript frames of \<open>sessionEventBroadcaster.ts\<close>, and the
    replica of the phone, \<open>apps/mobile/src/runtime.ts\<close>). \<open>SyncLemmas\<close> has the calculus of replays and of the
    journal, \<open>TurnRepair\<close> what a repair adds, \<open>ColdReplay\<close> that a rebuilt session can be replayed.
    \<open>TranscriptMachine\<close> is a live session as a step relation with the ghost history of the batches of each agent
    and its invariant, \<open>ReplicaSync\<close> what one connection is sent, \<open>SyncProps\<close> the properties.
  \<^item> \<open>DomainEvents\<close>, \<open>ActivityView\<close> (\<open>agent-core-v2/src/agent/activityView\<close>, \<open>loop/turnEvents.ts\<close>,
    \<open>kap-server/src/services/legacyStatus\<close>), \<open>EventProjector\<close>, \<open>TranscriptBinding\<close>
    (\<open>kap-server/src/services/transcript/coreEventMap.ts\<close>, \<open>coreBinding.ts\<close>, the session life and the cold reads of
    \<open>transcriptService.ts\<close>, \<open>snapshot/snapshotReader.ts\<close>). \<open>ProjectorLemmas\<close> is the calculus of the emitted
    operations on a tidy timeline, \<open>ProjectorTracks\<close> the invariant that joins a projector to its store,
    \<open>ProjectorSteps\<close> its preservation by every handler, \<open>ProjectorProps\<close> a running agent as a step relation and its
    properties, \<open>BindingProps\<close> the interactions, \<open>ActivityProps\<close> the view, the phase and live against cold.

  \<^bold>\<open>State and effects.\<close> A reducer is a function from state to state; an object that the code
  shares and compares by identity carries a number (\<open>obj\<close>, \<open>te_no\<close>). A listener is its identity and
  what it would be called with is part of the result. An asynchronous operation is split where it waits: its parts are
  steps of the two machines, and anything may happen between them. What the environment decides (the clock, new
  identities, the bytes and chunks a file is read in, the snapshot a read returns) is an argument of the step; the
  loop is a function on actions, a call of a client or the answer to what its run awaits; JSON
  printing and parsing are parameters, with the law that a printed value parses back and has no line break. A thrown error is the left of a sum; a call
  that does not return is \<open>None\<close> of a partial function (the scheduler, whose nested calls recurse
  without end when a queued task throws). Backward loops are recursion on the index plus one, so no
  loop has fuel. The next-fire search carries the iteration count of the code and its bound of ten
  million, shown to be out of reach for the five years the code asks for. The memory tail of a session holds
  \<open>maxBufferSize\<close> envelopes (any number), the journal of an agent 2000 batches (that of the code).

  \<^bold>\<open>What the lemmas show.\<close> For the transcript: every operation keeps a state well-formed, is absorbed
  when it is applied twice, and text sent in overlapping slices converges to one text in any order
  without gaps; a clipped stream tracks the full one; paging delivers each item once. For the cron
  part: at a fixed offset from UTC the search returns the first matching minute, and parsing inverts printing. For the tool
  scheduler, on calls that do not throw synchronously: conflicting calls never run together and start in order, and every
  call starts. For the loop: the turns it numbers are those a replay of the journal numbers, what it publishes is well
  bracketed and within the limits of steps and retries, no turn is stranded, and the projector never loses its place
  in what it publishes. For the
  history: whatever is interrupted, the next end of a step leaves results directly after their calls;
  from there the projection never throws, answers every call exactly once and loses nothing the user
  wrote; undo inverts what came after a prompt; a compaction keeps user input within its budget; and the two
  reductions of the journal agree on the length of the history. For the event channel: live frames and replays are exactly
  the events of the log, across restarts while no write fails. For the transcript channel: a connection that resumes is sent
  exactly the batches after its cursor but for those dispatched between the landing of its subscription and the mark that
  it is seeded; without such batches its replica converges to the store; a rebuilt session replays to what a cold read
  shows, and a repair only adds frames (and forgets how the turn ended). For the projector: as long as the events come in the engine's order no operation
  misses its place, what a step streamed is in the store letter by letter, a reader of whole frames catches up at the end
  of every step, and what was asked is answered. Where the code departs from its own
  documentation the departure is a theorem with concrete data.

  \<^bold>\<open>Not modelled.\<close> Numbers are integers or rationals, so the rounding of doubles is not seen;
  strings are code units up to 255, so surrogate pairs are not; a time zone is a fixed offset.
  In the machine of the transcript channel the batches of the projector are arbitrary; that they have no gap is shown for a
  running agent, whose events come in the engine's order (\<open>in_order\<close>), which is assumed there and shown for what the
  agent loop publishes. Of the loop, the telemetry, the trace ids, the hooks, the other error handlers and the
  classification of provider errors are outside; so is the runner of the native engine. The broadcaster's events are
  taken as built, without the work aggregate. The default store of the server is a Rust crate that is tested against
  the modelled one. The two machines keep one session on one store: what happens when a session is closed and
  opened again under a connection is not a step of the second.
  Network and file input and output, the providers, dependency injection, the user interfaces and the
  schema declarations are outside: they hold no rule of their own that a model could check.
\<close>

end
